(* ===== verification/Prelude.thy ===== *)
theory Prelude
  imports Main "HOL-Library.Word" "HOL-Library.Monad_Syntax"
begin

text \<open>
  Shared vocabulary of the development: the fixed-width integers of the driver
  (\<open>u8\<close>, \<open>u16\<close>, \<open>u32\<close>, \<open>u64\<close>), byte buffers as lists with checked access, the little-endian and
  big-endian packings the C code performs by hand or through casts, and the generic lemmas and
  theorem collections the components share.

  A read or a write outside a buffer is undefined behaviour in C. The checked operations below
  return \<open>None\<close> in that case, so \<open>None\<close> is the value of a run that would touch memory it
  does not own, and a theorem that a result is \<open>Some _\<close> includes memory safety.
\<close>

unbundle bit_operations_syntax

type_synonym u8 = "8 word"
type_synonym u16 = "16 word"
type_synonym u32 = "32 word"
type_synonym u64 = "64 word"
type_synonym bytes = "u8 list"

named_theorems buf_simps "equations of the checked buffer operations"
named_theorems len_simps "lengths of computed byte strings"

section \<open>Checked access to byte buffers\<close>

definition rd :: "'a list \<Rightarrow> nat \<Rightarrow> 'a option" where
  "rd buf i = (if i < length buf then Some (buf ! i) else None)"

definition get_sub :: "'a list \<Rightarrow> nat \<Rightarrow> nat \<Rightarrow> 'a list option" where
  "get_sub buf off n = (if off + n \<le> length buf then Some (take n (drop off buf)) else None)"

definition put_sub :: "'a list \<Rightarrow> nat \<Rightarrow> 'a list \<Rightarrow> 'a list option" where
  "put_sub buf off xs =
     (if off + length xs \<le> length buf
      then Some (take off buf @ xs @ drop (off + length xs) buf) else None)"

lemma rd_Some [buf_simps]: "rd buf i = Some v \<longleftrightarrow> i < length buf \<and> v = buf ! i"
  by (auto simp: rd_def)

lemma rd_None [buf_simps]: "rd buf i = None \<longleftrightarrow> length buf \<le> i"
  by (auto simp: rd_def)

lemma get_sub_Some [buf_simps]:
  "get_sub buf off n = Some xs \<longleftrightarrow> off + n \<le> length buf \<and> xs = take n (drop off buf)"
  by (auto simp: get_sub_def)

lemma get_sub_None [buf_simps]: "get_sub buf off n = None \<longleftrightarrow> length buf < off + n"
  by (auto simp: get_sub_def)

lemma put_sub_Some [buf_simps]:
  "put_sub buf off xs = Some b \<longleftrightarrow>
     off + length xs \<le> length buf \<and> b = take off buf @ xs @ drop (off + length xs) buf"
  by (auto simp: put_sub_def)

lemma put_sub_None [buf_simps]: "put_sub buf off xs = None \<longleftrightarrow> length buf < off + length xs"
  by (auto simp: put_sub_def)

lemma put_sub_length: "put_sub buf off xs = Some b \<Longrightarrow> length b = length buf"
  by (auto simp: put_sub_def split: if_splits)

lemma get_sub_length: "get_sub buf off n = Some xs \<Longrightarrow> length xs = n"
  by (auto simp: get_sub_def split: if_splits)

lemma get_put_same: "put_sub buf off xs = Some b \<Longrightarrow> get_sub b off (length xs) = Some xs"
  by (auto simp: put_sub_def get_sub_def split: if_splits)

lemma get_put_before:
  "put_sub buf off xs = Some b \<Longrightarrow> i + n \<le> off \<Longrightarrow> get_sub b i n = get_sub buf i n"
  by (auto simp: put_sub_def get_sub_def min_def take_drop split: if_splits)

lemma get_put_after:
  assumes "put_sub buf off xs = Some b" and "off + length xs \<le> i"
  shows "get_sub b i n = get_sub buf i n"
proof -
  from assms(1) have b: "off + length xs \<le> length buf"
    "b = take off buf @ xs @ drop (off + length xs) buf"
    by (auto simp: put_sub_def split: if_splits)
  have "drop i b = drop i buf"
    using assms(2) b by (simp add: min_def)
  then show ?thesis using b by (simp add: get_sub_def)
qed

lemma get_sub_append:
  "get_sub buf off (m + n) =
     do { a \<leftarrow> get_sub buf off m; b \<leftarrow> get_sub buf (off + m) n; Some (a @ b) }"
  by (auto simp: get_sub_def take_add add.commute add.left_commute)

lemma take_prefix: "take p b' = take p b \<Longrightarrow> off \<le> p \<Longrightarrow> take off b' = take off b"
  by (metis min.absorb1 take_take)

lemma drop_suffix: "drop p b' = drop p b \<Longrightarrow> p \<le> off \<Longrightarrow> drop off b' = drop off b"
  by (metis drop_drop le_add_diff_inverse2)

text \<open>A buffer in which \<open>n\<close> bytes at \<open>off\<close> were replaced.\<close>

lemma splice_facts:
  assumes "b' = take off b @ m @ drop (off + n) b" "length m = n" "off + n \<le> length b"
  shows "length b' = length b" "take off b' = take off b" "drop (off + n) b' = drop (off + n) b"
    "take n (drop off b') = m"
  using assms by simp_all

lemma upt_2: "[0..<2] = [0, Suc 0]"
  by (simp add: numeral_2_eq_2)

section \<open>Words and bytes\<close>

lemma bit_beyond [simp]:
  "8 \<le> n \<Longrightarrow> \<not> bit (a::u8) n"
  "16 \<le> n \<Longrightarrow> \<not> bit (b::u16) n"
  "32 \<le> n \<Longrightarrow> \<not> bit (c::u32) n"
  "64 \<le> n \<Longrightarrow> \<not> bit (d::u64) n"
  using bit_imp_le_length by fastforce+

declare push_bit_Suc [simp del]
declare drop_bit_Suc [simp del]

lemma xor_cancel_right [simp]: "a XOR c = b XOR c \<longleftrightarrow> a = b" for a b c :: "'a::len word"
  by (metis xor.assoc xor_self_eq xor.right_neutral)

lemma xor_cancel_left [simp]: "c XOR a = c XOR b \<longleftrightarrow> a = b" for a b c :: "'a::len word"
  by (metis xor_cancel_right xor.commute)

lemma less_8_cases: "(n::nat) < 8 \<Longrightarrow> n \<in> {0,1,2,3,4,5,6,7}"
  by auto

lemma less_16_cases: "(n::nat) < 16 \<Longrightarrow> n \<in> {0,1,2,3,4,5,6,7,8,9,10,11,12,13,14,15}"
  by (simp only: lessThan_iff [symmetric] lessThan_nat_numeral pred_numeral_simps lessThan_0 BitM.simps
      arith_simps)
    auto

lemma less_32_cases: "(n::nat) < 32 \<Longrightarrow> n \<in> {0,1,2,3,4,5,6,7,8,9,10,11,12,13,14,15,
    16,17,18,19,20,21,22,23,24,25,26,27,28,29,30,31}"
  by (simp only: lessThan_iff [symmetric] lessThan_nat_numeral pred_numeral_simps lessThan_0 BitM.simps
      arith_simps)
    auto

lemma ucast_u8_u32_inj: "(ucast (a::u8) :: u32) = ucast b \<longleftrightarrow> a = b"
proof
  assume eq: "(ucast a :: u32) = ucast b"
  show "a = b"
  proof (rule bit_word_eqI)
    fix n assume "n < LENGTH(8)"
    then show "bit a n = bit b n"
      using arg_cong [OF eq, of "\<lambda>w. bit w n"] by (simp add: bit_simps)
  qed
qed simp

lemma unat_and_ff [simp]: "unat ((x::u32) AND 0xff) < 256"
  using word_and_le1 [of x "0xff"] by (simp add: word_le_nat_alt)

lemma ff_mask: "(0xff::u32) = mask 8" "(0xff::u16) = mask 8"
  by (simp_all add: mask_eq_exp_minus_1)

lemma ucast_down_up [simp]:
  "(ucast (ucast (a::u8) :: u16) :: u8) = a"
  "(ucast (ucast (a::u8) :: u32) :: u8) = a"
  "(ucast (ucast (a::u8) :: u64) :: u8) = a"
  "(ucast (ucast (b::u16) :: u32) :: u16) = b"
  "(ucast (ucast (b::u16) :: u64) :: u16) = b"
  "(ucast (ucast (c::u32) :: u64) :: u32) = c"
  by (rule bit_word_eqI; simp add: bit_simps)+

lemma unat_u8_lt [simp]: "unat (a::u8) < 256"
  using unsigned_less [of a] by simp

lemma unat_u16_lt [simp]: "unat (a::u16) < 65536"
  using unsigned_less [of a] by simp

lemma unat_u32_lt [simp]: "unat (a::u32) < 4294967296"
  using unsigned_less [of a] by simp

lemma unat_ucast_up [simp]:
  "unat (ucast (a::u8) :: u16) = unat a"
  "unat (ucast (a::u8) :: u32) = unat a"
  "unat (ucast (a::u8) :: u64) = unat a"
  "unat (ucast (b::u16) :: u32) = unat b"
  "unat (ucast (b::u16) :: u64) = unat b"
  "unat (ucast (c::u32) :: u64) = unat c"
  by (simp add: unsigned_ucast_eq; rule take_bit_nat_eq_self; rule less_le_trans; (rule unat_u8_lt unat_u16_lt unat_u32_lt | simp))+

lemma sint_small:
  assumes "unat (w::u32) < 2 ^ 31"
  shows "sint w = int (unat w)"
proof -
  have "sint w = signed_take_bit 31 (uint w)" by (simp add: sint_uint)
  also have "\<dots> = uint w"
    by (rule signed_take_bit_int_eq_self) (use assms in \<open>simp_all add: uint_nat del: of_nat_unat\<close>)
  finally show ?thesis by simp
qed

lemma unat_minus_le: "unat b \<le> unat (a :: 'a::len word) \<Longrightarrow> unat (a - b) = unat a - unat b"
  by (simp add: unat_sub word_le_nat_alt)

section \<open>Little-endian and big-endian packing\<close>

definition le32_bytes :: "u32 \<Rightarrow> bytes" where
  "le32_bytes v = [ucast v, ucast (drop_bit 8 v), ucast (drop_bit 16 v), ucast (drop_bit 24 v)]"

definition be32_bytes :: "u32 \<Rightarrow> bytes" where
  "be32_bytes v = [ucast (drop_bit 24 v), ucast (drop_bit 16 v), ucast (drop_bit 8 v), ucast v]"

lemma le32_bytes_length [simp]: "length (le32_bytes v) = 4"
  by (simp add: le32_bytes_def)

lemma be32_bytes_length [simp]: "length (be32_bytes v) = 4"
  by (simp add: be32_bytes_def)

text \<open>The little-endian value of up to eight bytes.\<close>

fun le_val :: "bytes \<Rightarrow> u64" where
  "le_val [] = 0"
| "le_val (b # bs) = ucast b OR push_bit 8 (le_val bs)"

section \<open>Results\<close>

text \<open>The driver's \<open>_SUCCESS\<close> and \<open>_FAIL\<close>.\<close>

datatype rtw_res = RTW_SUCCESS | RTW_FAIL

end
