(* ===== verification/Crc32.thy ===== *)
theory Crc32
  imports Prelude
begin

text \<open>
  The CRC-32 of WEP and TKIP (core/rtw_security.c): the lazily built table
  (\<open>crc32_init\<close> guarded by \<open>bcrc32initialized\<close>) and the table-driven \<open>getcrc32\<close>. The two file-level
  statics are the record \<open>crc_globals\<close>, threaded through the calls. The lemmas show the table-driven
  routine equal to the bit-serial reflected CRC of IEEE 802.3 from every reachable state of the
  statics, and that a change confined to four consecutive bytes is always detected.
\<close>

section \<open>The code\<close>

definition CRC32_POLY :: u32 where "CRC32_POLY = 0x04c11db7"

record crc_globals =
  bcrc32initialized :: int
  crc32_table :: "u32 list"

definition crc_globals0 :: crc_globals where
  "crc_globals0 = \<lparr>bcrc32initialized = 0, crc32_table = replicate 256 0\<rparr>"

definition crc32_reverseBit :: "u8 \<Rightarrow> u8" where
  "crc32_reverseBit data =
     ((push_bit 7 data AND 0x80) OR (push_bit 5 data AND 0x40) OR (push_bit 3 data AND 0x20)
      OR (push_bit 1 data AND 0x10) OR (drop_bit 1 data AND 0x08) OR (drop_bit 3 data AND 0x04)
      OR (drop_bit 5 data AND 0x02) OR (drop_bit 7 data AND 0x01))"

text \<open>The inner loop \<open>for (c = k << 24, j = 8; j > 0; --j)\<close>: \<open>j\<close> left-shift steps.\<close>

fun crc32_shift :: "nat \<Rightarrow> u32 \<Rightarrow> u32" where
  "crc32_shift 0 c = c"
| "crc32_shift (Suc j) c =
     crc32_shift j (if c AND 0x80000000 \<noteq> 0 then push_bit 1 c XOR CRC32_POLY else push_bit 1 c)"

text \<open>One table entry: the four bytes of \<open>c\<close> are bit-reversed and stored in reverse order
  (\<open>p1[0] = crc32_reverseBit(p[3])\<close> and so on, on a little-endian machine).\<close>

definition crc32_entry :: "nat \<Rightarrow> u32" where
  "crc32_entry i =
     (let k = crc32_reverseBit (word_of_nat i);
          c = crc32_shift 8 (push_bit 24 (ucast k));
          p = (\<lambda>n. ucast (drop_bit (8 * n) c) :: u8)
      in ucast (crc32_reverseBit (p 3)) OR push_bit 8 (ucast (crc32_reverseBit (p 2)))
         OR push_bit 16 (ucast (crc32_reverseBit (p 1)))
         OR push_bit 24 (ucast (crc32_reverseBit (p 0))))"

definition crc32_init :: "crc_globals \<Rightarrow> crc_globals" where
  "crc32_init g =
     (if bcrc32initialized g = 1 then g
      else \<lparr>bcrc32initialized = 1, crc32_table = map crc32_entry [0..<256]\<rparr>)"

fun crc32_update :: "u32 list \<Rightarrow> u32 \<Rightarrow> bytes \<Rightarrow> u32" where
  "crc32_update tab crc [] = crc"
| "crc32_update tab crc (p # buf) =
     crc32_update tab (tab ! unat ((crc XOR ucast p) AND 0xff) XOR drop_bit 8 crc) buf"

definition getcrc32 :: "crc_globals \<Rightarrow> bytes \<Rightarrow> u32 \<times> crc_globals" where
  "getcrc32 g buf =
     (let g = (if bcrc32initialized g = 0 then crc32_init g else g)
      in (NOT (crc32_update (crc32_table g) 0xffffffff buf), g))"

text \<open>The state of the statics the module can reach: untouched, or initialised once.\<close>

definition crc_ok :: "crc_globals \<Rightarrow> bool" where
  "crc_ok g \<longleftrightarrow> bcrc32initialized g = 0 \<or>
     bcrc32initialized g = 1 \<and> crc32_table g = map crc32_entry [0..<256]"

section \<open>The reference: the bit-serial reflected CRC\<close>

definition crc_bit :: "u32 \<Rightarrow> u32" where
  "crc_bit x = (if bit x 0 then drop_bit 1 x XOR 0xedb88320 else drop_bit 1 x)"

definition crc_byte :: "u32 \<Rightarrow> u8 \<Rightarrow> u32" where
  "crc_byte s b = (crc_bit ^^ 8) (s XOR ucast b)"

definition crc32_ref :: "bytes \<Rightarrow> u32" where
  "crc32_ref buf = NOT (foldl crc_byte 0xffffffff buf)"

section \<open>Algebra of the bit step\<close>

lemma crc_bit_xor: "crc_bit (x XOR y) = crc_bit x XOR crc_bit y"
  by (simp add: crc_bit_def bit_simps ac_simps)

lemma crc_bits_xor: "(crc_bit ^^ n) (x XOR y) = (crc_bit ^^ n) x XOR (crc_bit ^^ n) y"
  by (induction n) (simp_all add: crc_bit_xor)

lemma crc_bit_inj: "inj crc_bit"
proof (rule injI)
  fix x y assume eq: "crc_bit x = crc_bit y"
  have top: "bit (crc_bit z) 31 = bit z 0" for z
    by (simp add: crc_bit_def bit_simps)
  from eq have b0: "bit x 0 = bit y 0" by (metis top)
  with eq have d: "drop_bit 1 x = drop_bit 1 y"
    by (auto simp: crc_bit_def split: if_splits)
  show "x = y"
  proof (rule bit_word_eqI)
    fix n assume "n < LENGTH(32)"
    show "bit x n = bit y n"
    proof (cases n)
      case (Suc m)
      then show ?thesis using arg_cong [OF d, of "\<lambda>z. bit z m"] by (simp add: bit_simps)
    qed (use b0 in simp)
  qed
qed

lemma crc_bits_inj: "(crc_bit ^^ n) x = (crc_bit ^^ n) y \<Longrightarrow> x = y"
  using inj_fn [OF crc_bit_inj, of n] by (auto dest: injD)

lemma crc_bits_low_zero:
  "\<forall>i<n. \<not> bit x i \<Longrightarrow> (crc_bit ^^ n) x = drop_bit n x"
proof (induction n arbitrary: x)
  case (Suc n)
  then have "crc_bit x = drop_bit 1 x" by (simp add: crc_bit_def)
  moreover have "\<forall>i<n. \<not> bit (drop_bit 1 x) i" using Suc.prems by (auto simp: bit_simps)
  ultimately show ?case
    using Suc.IH [of "drop_bit 1 x"] by (simp add: funpow_Suc_right del: funpow.simps)
qed simp

lemma crc_bits_split:
  assumes "n \<le> 32"
  shows "(crc_bit ^^ n) x = (crc_bit ^^ n) (x AND mask n) XOR drop_bit n x"
proof -
  have "x = (x AND mask n) XOR (x AND NOT (mask n))"
    by (rule bit_word_eqI) (auto simp: bit_simps)
  then have "(crc_bit ^^ n) x = (crc_bit ^^ n) (x AND mask n) XOR (crc_bit ^^ n) (x AND NOT (mask n))"
    by (metis crc_bits_xor)
  also have "(crc_bit ^^ n) (x AND NOT (mask n)) = drop_bit n (x AND NOT (mask n))"
    by (rule crc_bits_low_zero) (auto simp: bit_simps)
  also have "\<dots> = drop_bit n x"
    by (rule bit_word_eqI) (auto simp: bit_simps dest: bit_imp_le_length)
  finally show ?thesis .
qed

section \<open>The table\<close>

lemma crc32_reverseBit_word_reverse: "crc32_reverseBit d = word_reverse d"
proof (rule bit_word_eqI)
  fix n assume "n < LENGTH(8)"
  then have "n \<in> {0,1,2,3,4,5,6,7}" using less_8_cases by simp
  then show "bit (crc32_reverseBit d) n = bit (word_reverse d) n"
    by (elim insertE emptyE; simp add: crc32_reverseBit_def bit_simps bit_word_reverse_iff)
qed

lemma top_bit_set: "c AND 0x80000000 \<noteq> 0 \<longleftrightarrow> bit (c::u32) 31"
  using and_exp_eq_0_iff_not_bit [of c 31] by simp

lemma word_reverse_shift:
  "word_reverse (if bit c 31 then push_bit 1 c XOR CRC32_POLY else push_bit 1 c) = crc_bit (word_reverse c)"
proof (rule bit_word_eqI)
  fix n assume n: "n < LENGTH(32)"
  have "n \<in> {0,1,2,3,4,5,6,7,8,9,10,11,12,13,14,15,
    16,17,18,19,20,21,22,23,24,25,26,27,28,29,30,31}" using n less_32_cases by simp
  then have poly: "bit CRC32_POLY (31 - n) = bit (0xedb88320 :: u32) n"
    by (elim insertE emptyE; simp add: CRC32_POLY_def)
  show "bit (word_reverse (if bit c 31 then push_bit 1 c XOR CRC32_POLY else push_bit 1 c)) n
      = bit (crc_bit (word_reverse c)) n"
    using n poly
    by (auto simp: crc_bit_def bit_simps bit_word_reverse_iff simp del: push_bit_Suc One_nat_def)
qed

lemma crc32_shift_reverse: "crc32_shift j c = word_reverse ((crc_bit ^^ j) (word_reverse c))"
proof (induction j arbitrary: c)
  case (Suc j)
  show ?case
    by (simp only: crc32_shift.simps top_bit_set Suc.IH word_reverse_shift funpow_Suc_right o_apply)
qed simp

lemma word_reverse_bytes:
  "(ucast (word_reverse (ucast (drop_bit 24 c) :: u8)) :: u32) OR push_bit 8 (ucast (word_reverse (ucast (drop_bit 16 c) :: u8)))
     OR push_bit 16 (ucast (word_reverse (ucast (drop_bit 8 c) :: u8)))
     OR push_bit 24 (ucast (word_reverse (ucast c :: u8))) = word_reverse (c :: u32)"
proof (rule bit_word_eqI)
  fix n assume "n < LENGTH(32)"
  then have "n \<in> {0,1,2,3,4,5,6,7,8,9,10,11,12,13,14,15,
    16,17,18,19,20,21,22,23,24,25,26,27,28,29,30,31}" using less_32_cases by simp
  then show "bit ((ucast (word_reverse (ucast (drop_bit 24 c) :: u8)) :: u32) OR push_bit 8 (ucast (word_reverse (ucast (drop_bit 16 c) :: u8)))
     OR push_bit 16 (ucast (word_reverse (ucast (drop_bit 8 c) :: u8)))
     OR push_bit 24 (ucast (word_reverse (ucast c :: u8)))) n = bit (word_reverse c) n"
    by (elim insertE emptyE; simp add: bit_simps bit_word_reverse_iff)
qed

lemma word_reverse_byte: "word_reverse (push_bit 24 (ucast (word_reverse (k::u8)) :: u32)) = ucast k"
proof (rule bit_word_eqI)
  fix n assume "n < LENGTH(32)"
  then show "bit (word_reverse (push_bit 24 (ucast (word_reverse k) :: u32))) n = bit (ucast k :: u32) n"
    by (cases "n < 8") (auto simp: bit_simps bit_word_reverse_iff)
qed

lemma crc32_entry_bits: "crc32_entry i = (crc_bit ^^ 8) (ucast (word_of_nat i :: u8))"
  by (simp add: crc32_entry_def Let_def crc32_reverseBit_word_reverse word_reverse_bytes
      crc32_shift_reverse word_reverse_byte del: funpow.simps)

lemma crc32_table_step:
  "map crc32_entry [0..<256] ! unat ((crc XOR ucast p) AND 0xff) XOR drop_bit 8 crc = crc_byte crc p"
proof -
  let ?x = "crc XOR ucast p :: u32"
  have lt: "unat (?x AND 0xff) < 256"
    by (rule unat_and_ff)
  have "(ucast (word_of_nat (unat (?x AND 0xff)) :: u8) :: u32) = ?x AND mask 8"
    by (rule bit_word_eqI) (auto simp: bit_simps ff_mask)
  then have "map crc32_entry [0..<256] ! unat (?x AND 0xff) = (crc_bit ^^ 8) (?x AND mask 8)"
    using lt by (simp add: crc32_entry_bits del: funpow.simps)
  moreover have "drop_bit 8 crc = drop_bit 8 ?x"
    by (rule bit_word_eqI) (auto simp: bit_simps)
  ultimately show ?thesis
    unfolding crc_byte_def by (subst crc_bits_split) simp_all
qed

lemma crc32_update_ref: "crc32_update (map crc32_entry [0..<256]) crc buf = foldl crc_byte crc buf"
  by (induction buf arbitrary: crc) (simp_all only: crc32_update.simps crc32_table_step foldl.simps)

section \<open>Results\<close>

lemma crc_ok_globals0: "crc_ok crc_globals0"
  by (simp add: crc_ok_def crc_globals0_def)

lemma getcrc32_ok: "crc_ok g \<Longrightarrow> crc_ok (snd (getcrc32 g buf))"
  by (auto simp: getcrc32_def crc_ok_def crc32_init_def Let_def)

lemma getcrc32_ref: "crc_ok g \<Longrightarrow> fst (getcrc32 g buf) = crc32_ref buf"
  by (auto simp: getcrc32_def crc_ok_def crc32_init_def Let_def crc32_ref_def crc32_update_ref)

lemma crc_byte_inj: "crc_byte s b = crc_byte t b \<Longrightarrow> s = t"
  unfolding crc_byte_def by (drule crc_bits_inj) simp

lemma crc_fold_inj: "foldl crc_byte s buf = foldl crc_byte t buf \<Longrightarrow> s = t"
  by (induction buf arbitrary: s t) (auto dest: crc_byte_inj)

text \<open>Up to four bytes enter the register as one little-endian word.\<close>

fun le_word :: "bytes \<Rightarrow> u32" where
  "le_word [] = 0"
| "le_word (b # bs) = ucast b XOR push_bit 8 (le_word bs)"

lemma le_word_bound: "length bs \<le> 4 \<Longrightarrow> 8 * length bs \<le> n \<Longrightarrow> \<not> bit (le_word bs) n"
proof (induction bs arbitrary: n)
  case (Cons b bs)
  then have "\<not> bit (le_word bs) (n - 8)" by auto
  moreover have "8 \<le> n" using Cons.prems by simp
  ultimately show ?case by (simp add: bit_simps)
qed simp

lemma le_word_inj: "length v \<le> 4 \<Longrightarrow> length v = length w \<Longrightarrow> le_word v = le_word w \<Longrightarrow> v = w"
proof (induction v arbitrary: w)
  case (Cons b v)
  then obtain c w' where w: "w = c # w'" by (cases w) auto
  have eq: "ucast b XOR push_bit 8 (le_word v) = ucast c XOR push_bit 8 (le_word w')"
    using Cons.prems w by simp
  have "b = c"
  proof (rule bit_word_eqI)
    fix n assume "n < LENGTH(8)"
    then show "bit b n = bit c n"
      using arg_cong [OF eq, of "\<lambda>x. bit x n"] by (simp add: bit_simps)
  qed
  moreover have "le_word v = le_word w'"
  proof (rule bit_word_eqI)
    fix n assume "n < LENGTH(32)"
    have nv: "24 \<le> n \<Longrightarrow> \<not> bit (le_word v) n" "24 \<le> n \<Longrightarrow> \<not> bit (le_word w') n"
      by (rule le_word_bound; use Cons.prems w in simp)+
    show "bit (le_word v) n = bit (le_word w') n"
      using arg_cong [OF eq, of "\<lambda>x. bit x (n + 8)"] nv by (cases "24 \<le> n") (auto simp: bit_simps)
  qed
  ultimately show ?case using Cons.IH [of w'] Cons.prems w by simp
qed simp

lemma crc_fold_word:
  "length w \<le> 4 \<Longrightarrow> foldl crc_byte s w = (crc_bit ^^ (8 * length w)) (s XOR le_word w)"
proof (induction w arbitrary: s)
  case (Cons b w)
  let ?n = "8 * length w"
  have low: "(crc_bit ^^ 8) (push_bit 8 (le_word w)) = drop_bit 8 (push_bit 8 (le_word w))"
    by (rule crc_bits_low_zero) (auto simp: bit_simps)
  have "drop_bit 8 (push_bit 8 (le_word w)) = le_word w"
  proof (rule bit_word_eqI)
    fix n assume "n < LENGTH(32)"
    then show "bit (drop_bit 8 (push_bit 8 (le_word w))) n = bit (le_word w) n"
      using Cons.prems le_word_bound [of w n] by (cases "24 \<le> n") (auto simp: bit_simps)
  qed
  with low have step: "crc_byte s b XOR le_word w = (crc_bit ^^ 8) (s XOR le_word (b # w))"
    by (simp add: crc_byte_def crc_bits_xor ac_simps del: funpow.simps)
  have "foldl crc_byte s (b # w) = (crc_bit ^^ ?n) (crc_byte s b XOR le_word w)"
    using Cons by simp
  also have "\<dots> = (crc_bit ^^ (?n + 8)) (s XOR le_word (b # w))"
    by (simp only: step funpow_add o_apply)
  finally show ?case by (simp add: add.commute)
qed simp

lemma crc_window:
  assumes "length v = length w" "length v \<le> 4" "v \<noteq> w"
  shows "foldl crc_byte s (a @ v @ z) \<noteq> foldl crc_byte s (a @ w @ z)"
proof
  assume "foldl crc_byte s (a @ v @ z) = foldl crc_byte s (a @ w @ z)"
  then have "foldl crc_byte (foldl crc_byte s a) v = foldl crc_byte (foldl crc_byte s a) w"
    by (auto dest: crc_fold_inj)
  then have "le_word v = le_word w"
    using assms by (auto simp: crc_fold_word dest!: crc_bits_inj)
  with assms show False using le_word_inj by blast
qed


lemma crc_byte_ev:
  "crc_byte s b = crc_bit (crc_bit (crc_bit (crc_bit (crc_bit (crc_bit (crc_bit (crc_bit (s XOR ucast b))))))))"
  by (simp add: crc_byte_def numeral_eq_Suc)

section \<open>Properties\<close>

text \<open>From every state of the module's statics that calls can reach, \<open>getcrc32\<close> returns
  the bit-serial reflected CRC-32 of IEEE 802.3 of the buffer, and leaves the statics in such a state.\<close>

theorem getcrc32_ieee:
  assumes "crc_ok g"
  shows "fst (getcrc32 g buf) = crc32_ref buf \<and> crc_ok (snd (getcrc32 g buf))"
  using assms by (simp add: getcrc32_ref getcrc32_ok)

text \<open>The check value of the standard, on the untouched statics.\<close>

lemma getcrc32_ieee_witness:
  "fst (getcrc32 crc_globals0 [0x31,0x32,0x33,0x34,0x35,0x36,0x37,0x38,0x39]) = 0xcbf43926"
proof -
  have "crc32_ref [0x31,0x32,0x33,0x34,0x35,0x36,0x37,0x38,0x39] = 0xcbf43926"
    by (simp add: crc32_ref_def crc_byte_ev crc_bit_def)
  then show ?thesis
    using getcrc32_ieee [OF crc_ok_globals0, of "[0x31,0x32,0x33,0x34,0x35,0x36,0x37,0x38,0x39]"] by simp
qed

text \<open>A corruption confined to at most four consecutive bytes always changes the CRC
  the driver computes, whatever the state of the table on the two sides.\<close>

theorem getcrc32_burst:
  assumes "crc_ok g" "crc_ok g'" "length v = length w" "length v \<le> 4" "v \<noteq> w"
  shows "fst (getcrc32 g (a @ v @ z)) \<noteq> fst (getcrc32 g' (a @ w @ z))"
  using crc_window [OF assms(3-5)] assms(1,2)
  by (simp add: getcrc32_ref crc32_ref_def bit.compl_eq_compl_iff del: foldl_append)

lemma getcrc32_burst_witness:
  "fst (getcrc32 crc_globals0 ([1, 2] @ [3, 4, 5] @ [6])) \<noteq> fst (getcrc32 (crc32_init crc_globals0) ([1, 2] @ [3, 9, 5] @ [6]))"
  by (rule getcrc32_burst) (simp_all add: crc_ok_def crc_globals0_def crc32_init_def)

end
