(* ===== verification/StaHash.thy ===== *)
theory StaHash
  imports Prelude
begin

text \<open>
  The station hash table of core/rtw_sta_mgt.c: \<open>wifi_mac_hash\<close> (include/sta_info.h), the search of
  \<open>rtw_get_stainfo\<close> and the insertion at the tail of a bucket that \<open>rtw_alloc_stainfo\<close> performs. Of a
  station, the MAC address and the pairwise key are kept. The locale \<open>sta_lookup\<close> states the contract of
  the table its clients rely on.
\<close>

section \<open>Addresses\<close>

definition is_broadcast_mac_addr :: "bytes \<Rightarrow> bool" where
  "is_broadcast_mac_addr a \<longleftrightarrow> take 6 a = replicate 6 0xff"

definition is_multicast_mac_addr :: "bytes \<Rightarrow> bool" where
  "is_multicast_mac_addr a \<longleftrightarrow> hd a AND 1 = 1 \<and> hd a \<noteq> 0xff"

definition IS_MCAST :: "bytes \<Rightarrow> bool" where
  "IS_MCAST da \<longleftrightarrow> hd da AND 1 \<noteq> 0"

section \<open>The code\<close>

record sta_info =
  si_mac_addr :: bytes
  si_UncstKey :: bytes

definition NUM_STA :: nat where "NUM_STA = 32"

definition wifi_mac_hash :: "bytes \<Rightarrow> u32" where
  "wifi_mac_hash mac =
     (let x = ucast (mac ! 0);
          x = push_bit 2 x XOR ucast (mac ! 1);
          x = push_bit 2 x XOR ucast (mac ! 2);
          x = push_bit 2 x XOR ucast (mac ! 3);
          x = push_bit 2 x XOR ucast (mac ! 4);
          x = push_bit 2 x XOR ucast (mac ! 5);
          x = x XOR drop_bit 8 x
      in x AND 31)"

text \<open>The address searched: any group address is looked up as the broadcast address.\<close>

definition sta_key_addr :: "bytes \<Rightarrow> bytes" where
  "sta_key_addr hwaddr = (if IS_MCAST hwaddr then replicate 6 0xff else hwaddr)"

definition rtw_get_stainfo :: "sta_info list list \<Rightarrow> bytes \<Rightarrow> sta_info option" where
  "rtw_get_stainfo sta_hash hwaddr =
     (let addr = sta_key_addr hwaddr
      in find (\<lambda>psta. take 6 (si_mac_addr psta) = take 6 addr) (sta_hash ! unat (wifi_mac_hash addr)))"

definition sta_hash_insert :: "sta_info \<Rightarrow> sta_info list list \<Rightarrow> sta_info list list" where
  "sta_hash_insert psta sta_hash =
     (let index = unat (wifi_mac_hash (si_mac_addr psta))
      in sta_hash[index := sta_hash ! index @ [psta]])"

section \<open>The table\<close>

lemma wifi_mac_hash_bound: "unat (wifi_mac_hash mac) < NUM_STA"
proof -
  have "unat (x AND 31) < 32" for x :: u32
    using word_and_le1 [of x 31] by (simp add: word_le_nat_alt)
  then show ?thesis by (simp add: wifi_mac_hash_def NUM_STA_def Let_def)
qed

lemma wifi_mac_hash_take: "6 \<le> length a \<Longrightarrow> wifi_mac_hash (take 6 a) = wifi_mac_hash a"
  by (simp add: wifi_mac_hash_def)

lemma wifi_mac_hash_cong:
  "take 6 a = take 6 b \<Longrightarrow> 6 \<le> length a \<Longrightarrow> 6 \<le> length b \<Longrightarrow> wifi_mac_hash a = wifi_mac_hash b"
  by (metis wifi_mac_hash_take)

text \<open>The table: \<open>NUM_STA\<close> buckets, each holding only stations that hash to it.\<close>

definition sta_hash_ok :: "sta_info list list \<Rightarrow> bool" where
  "sta_hash_ok h \<longleftrightarrow> length h = NUM_STA \<and>
     (\<forall>i < NUM_STA. \<forall>psta \<in> set (h ! i). length (si_mac_addr psta) = 6
        \<and> unat (wifi_mac_hash (si_mac_addr psta)) = i)"

locale sta_lookup =
  fixes get :: "'h \<Rightarrow> bytes \<Rightarrow> sta_info option"
    and insert :: "sta_info \<Rightarrow> 'h \<Rightarrow> 'h"
    and ok :: "'h \<Rightarrow> bool"
  assumes insert_ok: "ok h \<Longrightarrow> length (si_mac_addr s) = 6 \<Longrightarrow> ok (insert s h)"
    and get_insert_same: "ok h \<Longrightarrow> length (si_mac_addr s) = 6 \<Longrightarrow> length a = 6 \<Longrightarrow>
       si_mac_addr s = sta_key_addr a \<Longrightarrow> get h a = None \<Longrightarrow> get (insert s h) a = Some s"
    and get_insert_other: "ok h \<Longrightarrow> length (si_mac_addr s) = 6 \<Longrightarrow> length a = 6 \<Longrightarrow>
       si_mac_addr s \<noteq> sta_key_addr a \<Longrightarrow> get (insert s h) a = get h a"
    and get_Some: "ok h \<Longrightarrow> length a = 6 \<Longrightarrow> get h a = Some s \<Longrightarrow> si_mac_addr s = sta_key_addr a"
begin

lemma get_insert_fresh:
  assumes "ok h" "length (si_mac_addr s) = 6" "length a = 6" "get h a = None"
  shows "get (insert s h) a = (if si_mac_addr s = sta_key_addr a then Some s else None)"
  using assms get_insert_same get_insert_other by auto

text \<open>A registered station stays what the table answers whatever is registered after it.\<close>

lemma get_insert_keep:
  assumes "ok h" "length (si_mac_addr s) = 6" "length a = 6" "get h a = Some t" "si_mac_addr s \<noteq> si_mac_addr t"
  shows "get (insert s h) a = Some t"
  using assms get_insert_other get_Some by metis

end

lemma sta_key_addr_length: "length a = 6 \<Longrightarrow> length (sta_key_addr a) = 6"
  by (simp add: sta_key_addr_def)

interpretation sta_hash: sta_lookup rtw_get_stainfo sta_hash_insert sta_hash_ok
proof
  fix h and s :: sta_info assume h: "sta_hash_ok h" and s: "length (si_mac_addr s) = 6"
  let ?i = "unat (wifi_mac_hash (si_mac_addr s))"
  have i: "?i < length h" using h wifi_mac_hash_bound by (simp add: sta_hash_ok_def)
  show "sta_hash_ok (sta_hash_insert s h)"
    using h s i by (auto simp: sta_hash_ok_def sta_hash_insert_def Let_def nth_list_update)
  fix a :: bytes assume a: "length a = 6"
  let ?j = "unat (wifi_mac_hash (sta_key_addr a))"
  have l: "length (sta_key_addr a) = 6" using a by (rule sta_key_addr_length)
  show "rtw_get_stainfo (sta_hash_insert s h) a = Some s"
    if "si_mac_addr s = sta_key_addr a" "rtw_get_stainfo h a = None"
    using that i by (auto simp: rtw_get_stainfo_def sta_hash_insert_def Let_def find_None_iff find_Some_iff
        nth_append intro!: exI [of _ "length (h ! ?j)"])
  show "rtw_get_stainfo (sta_hash_insert s h) a = rtw_get_stainfo h a"
    if "si_mac_addr s \<noteq> sta_key_addr a"
  proof (cases "?i = ?j")
    case True
    have "find P (xs @ [s]) = find P xs" if "\<not> P s" for P and xs :: "sta_info list"
      using that by (induction xs) auto
    with True that i s l show ?thesis by (simp add: rtw_get_stainfo_def sta_hash_insert_def Let_def)
  qed (simp add: rtw_get_stainfo_def sta_hash_insert_def Let_def)
next
  fix h a and s :: sta_info
  assume h: "sta_hash_ok h" and a: "length (a :: bytes) = 6" and g: "rtw_get_stainfo h a = Some s"
  let ?j = "unat (wifi_mac_hash (sta_key_addr a))"
  have "s \<in> set (h ! ?j)" "take 6 (si_mac_addr s) = take 6 (sta_key_addr a)"
    using g by (auto simp: rtw_get_stainfo_def Let_def find_Some_iff)
  with h wifi_mac_hash_bound [of "sta_key_addr a"] sta_key_addr_length [OF a]
  show "si_mac_addr s = sta_key_addr a" by (auto simp: sta_hash_ok_def)
qed

end
