(* ===== verification/SecFrame.thy ===== *)
theory SecFrame
  imports Crc32 StaHash
begin

text \<open>
  What the software encryption paths of core/rtw_security.c see of the driver: the fields of
  \<open>struct security_priv\<close>, \<open>struct pkt_attrib\<close>, \<open>struct xmit_frame\<close>, \<open>struct rx_pkt_attrib\<close> and
  \<open>union recv_frame\<close> they use, the per-cipher packet counters, and the walk over the fragments of a
  transmit buffer that \<open>rtw_wep_encrypt\<close>, \<open>rtw_tkip_encrypt\<close> and \<open>rtw_aes_encrypt\<close> share. The locale
  \<open>frag_op\<close> states what a per-fragment operation promises and carries it over the walk.

  Pointers into a buffer are offsets; the address of the buffer is \<open>xf_base\<close>, because the walk
  rounds the absolute address of the next fragment up to a multiple of four.
\<close>

section \<open>Key material and counters\<close>

definition ENC_WEP40 :: u8 where "ENC_WEP40 = 1"
definition ENC_TKIP :: u8 where "ENC_TKIP = 2"
definition ENC_AES :: u8 where "ENC_AES = 4"
definition ENC_WEP104 :: u8 where "ENC_WEP104 = 5"

definition is_wep_enc :: "u8 \<Rightarrow> bool" where
  "is_wep_enc alg \<longleftrightarrow> alg = ENC_WEP40 \<or> alg = ENC_WEP104"

record sw_cnt =
  cnt_bc :: u64
  cnt_mc :: u64
  cnt_uc :: u64

record security_priv =
  dot11PrivacyKeyIndex :: u32
  dot11DefKey :: "bytes list"
  dot11DefKeylen :: "u32 list"
  dot118021XGrpKeyid :: u32
  dot118021XGrpKey :: "bytes list"
  binstallGrpkey :: bool
  wep_sw_enc_cnt :: sw_cnt
  wep_sw_dec_cnt :: sw_cnt
  tkip_sw_enc_cnt :: sw_cnt
  tkip_sw_dec_cnt :: sw_cnt
  aes_sw_enc_cnt :: sw_cnt
  aes_sw_dec_cnt :: sw_cnt

definition sw_cnt_inc :: "bytes \<Rightarrow> sw_cnt \<Rightarrow> sw_cnt" where
  "sw_cnt_inc ra c =
     (if is_broadcast_mac_addr ra then c\<lparr>cnt_bc := cnt_bc c + 1\<rparr>
      else if is_multicast_mac_addr ra then c\<lparr>cnt_mc := cnt_mc c + 1\<rparr>
      else c\<lparr>cnt_uc := cnt_uc c + 1\<rparr>)"

section \<open>Frames\<close>

record pkt_attrib =
  pa_encrypt :: u8
  pa_hdrlen :: u16
  pa_iv_len :: u8
  pa_icv_len :: u8
  pa_nr_frags :: u8
  pa_last_txcmdsz :: u32
  pa_ta :: bytes
  pa_ra :: bytes
  pa_UncstKey :: bytes

record xmit_frame =
  xf_attrib :: pkt_attrib
  xf_base :: nat
  xf_buf :: "bytes option"   \<comment> \<open>the buffer at \<open>buf_addr\<close>, \<open>None\<close> for \<open>NULL\<close>\<close>

record rx_pkt_attrib =
  ra_encrypt :: u8
  ra_hdrlen :: u8
  ra_iv_len :: u8
  ra_key_index :: u8
  ra_ta :: bytes
  ra_ra :: bytes

record recv_frame =
  rf_attrib :: rx_pkt_attrib
  rf_len :: u32
  rx_data :: bytes

text \<open>The adapter: keys, fragmentation length, the CRC statics, the hash table of the known
  stations, and the static buffer of the CCMP decryption.\<close>

record adapter =
  ad_sec :: security_priv
  ad_frag_len :: u32
  ad_crc :: crc_globals
  ad_sta_hash :: "sta_info list list"
  ad_message :: bytes   \<comment> \<open>the static buffer \<open>message\<close> of \<open>aes_decipher\<close>\<close>

definition TXDESC_OFFSET :: nat where "TXDESC_OFFSET = 32"

definition RND4 :: "nat \<Rightarrow> nat" where
  "RND4 p = (p div 4 + (if p mod 4 = 0 then 0 else 1)) * 4"

text \<open>The signed length the code computes with unsigned subtraction before the conversion to
  \<open>sint\<close>.\<close>

definition tx_payload_len :: "pkt_attrib \<Rightarrow> u32 \<Rightarrow> int" where
  "tx_payload_len pa txlen =
     sint (txlen - ucast (pa_hdrlen pa) - ucast (pa_iv_len pa) - ucast (pa_icv_len pa))"

definition rx_payload_len :: "recv_frame \<Rightarrow> int" where
  "rx_payload_len rf =
     sint (rf_len rf - ucast (ra_hdrlen (rf_attrib rf)) - ucast (ra_iv_len (rf_attrib rf)))"

section \<open>The walk over the fragments\<close>

text \<open>
  \<open>one pframe txlen\<close> is the body of the loop for the fragment at \<open>pframe\<close>: \<open>txlen\<close> is
  \<open>last_txcmdsz\<close> for the last fragment and \<open>frag_len\<close> for the others, after which \<open>pframe\<close> moves on.
\<close>

fun frag_loop :: "(nat \<Rightarrow> u32 \<Rightarrow> 's \<Rightarrow> 's option) \<Rightarrow> nat \<Rightarrow> u32 \<Rightarrow> u32 \<Rightarrow> nat \<Rightarrow> nat \<Rightarrow> 's \<Rightarrow> 's option" where
  "frag_loop one base frag_len last_len 0 pframe s = Some s"
| "frag_loop one base frag_len last_len (Suc 0) pframe s = one pframe last_len s"
| "frag_loop one base frag_len last_len (Suc (Suc n)) pframe s =
     do { s \<leftarrow> one pframe frag_len s;
          frag_loop one base frag_len last_len (Suc n)
            (RND4 (base + pframe + unat frag_len) - base) s }"

fun frag_off :: "nat \<Rightarrow> u32 \<Rightarrow> nat \<Rightarrow> nat \<Rightarrow> nat" where
  "frag_off base frag_len pframe 0 = pframe"
| "frag_off base frag_len pframe (Suc k) =
     frag_off base frag_len (RND4 (base + pframe + unat frag_len) - base) k"

definition frag_len_of :: "u32 \<Rightarrow> u32 \<Rightarrow> nat \<Rightarrow> nat \<Rightarrow> u32" where
  "frag_len_of frag_len last_len n k = (if Suc k = n then last_len else frag_len)"

lemma RND4_ge: "p \<le> RND4 p"
  by (simp add: RND4_def) presburger

lemma RND4_aligned: "RND4 p mod 4 = 0"
  by (simp add: RND4_def)

lemma RND4_next: "pframe + unat frag_len \<le> RND4 (base + pframe + unat frag_len) - base"
  using RND4_ge [of "base + pframe + unat frag_len"] by simp

lemma frag_off_ge: "pframe \<le> frag_off base frag_len pframe k"
proof (induction k arbitrary: pframe)
  case (Suc k)
  then show ?case
    using RND4_next [of pframe frag_len base] by (simp add: order_trans [OF _ Suc.IH])
qed simp

text \<open>The bytes of the fragment of length \<open>len\<close> at \<open>off\<close>.\<close>

definition frag_bytes :: "nat \<Rightarrow> u32 \<Rightarrow> bytes \<Rightarrow> bytes" where
  "frag_bytes off len b = take (unat len) (drop off b)"

text \<open>The offset and the length of fragment \<open>k\<close> of a transmit frame, and its bytes in a buffer.\<close>

definition tx_off :: "adapter \<Rightarrow> xmit_frame \<Rightarrow> nat \<Rightarrow> nat" where
  "tx_off ad xf k = frag_off (xf_base xf) (ad_frag_len ad) TXDESC_OFFSET k"

definition tx_len :: "adapter \<Rightarrow> xmit_frame \<Rightarrow> nat \<Rightarrow> u32" where
  "tx_len ad xf k = frag_len_of (ad_frag_len ad) (pa_last_txcmdsz (xf_attrib xf))
     (unat (pa_nr_frags (xf_attrib xf))) k"

definition tx_frag :: "adapter \<Rightarrow> xmit_frame \<Rightarrow> nat \<Rightarrow> bytes \<Rightarrow> bytes" where
  "tx_frag ad xf k b = frag_bytes (tx_off ad xf k) (tx_len ad xf k) b"

definition tx_room :: "adapter \<Rightarrow> xmit_frame \<Rightarrow> bytes \<Rightarrow> bool" where
  "tx_room ad xf b \<longleftrightarrow>
     list_all (\<lambda>k. tx_off ad xf k + unat (tx_len ad xf k) \<le> length b) [0..<unat (pa_nr_frags (xf_attrib xf))]"

lemma tx_room_all: "tx_room ad xf b \<Longrightarrow> k < unat (pa_nr_frags (xf_attrib xf)) \<Longrightarrow>
    tx_off ad xf k + unat (tx_len ad xf k) \<le> length b"
  by (simp add: tx_room_def list_all_iff)

lemma tx_frag_length: "tx_room ad xf b \<Longrightarrow> k < unat (pa_nr_frags (xf_attrib xf)) \<Longrightarrow>
    length (tx_frag ad xf k b) = unat (tx_len ad xf k)"
  using tx_room_all [of ad xf b k] by (simp add: tx_frag_def frag_bytes_def)

lemma tx_len_cases: "tx_len ad xf k = ad_frag_len ad \<or> tx_len ad xf k = pa_last_txcmdsz (xf_attrib xf)"
  by (simp add: tx_len_def frag_len_of_def)

locale frag_op =
  fixes one :: "nat \<Rightarrow> u32 \<Rightarrow> 's \<times> bytes \<Rightarrow> ('s \<times> bytes) option"
    and inv :: "'s \<Rightarrow> bool"
    and ok :: "u32 \<Rightarrow> bool"
    and pre :: "bytes \<Rightarrow> bool"
    and rel :: "bytes \<Rightarrow> bytes \<Rightarrow> bool"
  assumes one_frame:
    "one off len (s, b) = Some (s', b') \<Longrightarrow> inv s \<Longrightarrow> ok len \<Longrightarrow> pre (frag_bytes off len b) \<Longrightarrow>
       inv s' \<and> off + unat len \<le> length b \<and> length b' = length b
       \<and> take off b' = take off b \<and> drop (off + unat len) b' = drop (off + unat len) b
       \<and> rel (frag_bytes off len b) (frag_bytes off len b')"
    and one_total:
    "inv s \<Longrightarrow> ok len \<Longrightarrow> off + unat len \<le> length b \<Longrightarrow> pre (frag_bytes off len b) \<Longrightarrow> \<exists>s' b'. one off len (s, b) = Some (s', b')"
begin

lemma frag_bytes_prefix:
  assumes "take p b' = take p b" "off + unat len \<le> p"
  shows "frag_bytes off len b' = frag_bytes off len b"
proof -
  have "take (unat len) (drop off (take p c)) = take (unat len) (drop off c)" for c :: bytes
    using assms(2) by (simp add: drop_take min_absorb1)
  then show ?thesis using assms(1) by (metis frag_bytes_def)
qed

lemma frag_bytes_suffix:
  "drop p b' = drop p b \<Longrightarrow> p \<le> off \<Longrightarrow> frag_bytes off len b' = frag_bytes off len b"
  unfolding frag_bytes_def by (metis drop_drop le_add_diff_inverse2)

lemma frag_loop_rel:
  assumes "frag_loop one base fl ll n off (s, b) = Some (s', b')" "inv s" "ok fl" "ok ll"
    and "\<forall>k<n. pre (frag_bytes (frag_off base fl off k) (frag_len_of fl ll n k) b)"
  shows "inv s' \<and> length b' = length b \<and> take off b' = take off b \<and>
    (\<forall>k<n. rel (frag_bytes (frag_off base fl off k) (frag_len_of fl ll n k) b)
               (frag_bytes (frag_off base fl off k) (frag_len_of fl ll n k) b'))"
  using assms
proof (induction n arbitrary: off s b)
  case (Suc m)
  show ?case
  proof (cases m)
    case 0
    with Suc.prems one_frame [of off ll s b s' b'] show ?thesis by (simp add: frag_len_of_def)
  next
    case (Suc n)
    let ?off = "RND4 (base + off + unat fl) - base"
    from Suc.prems Suc obtain s1 b1 where
      one: "one off fl (s, b) = Some (s1, b1)" and
      rest: "frag_loop one base fl ll m ?off (s1, b1) = Some (s', b')"
      by (auto split: Option.bind_splits)
    have "pre (frag_bytes off fl b)"
      using Suc.prems(5) [rule_format, of 0] Suc by (simp add: frag_len_of_def)
    note fr = one_frame [OF one \<open>inv s\<close> \<open>ok fl\<close> this]
    have le: "off + unat fl \<le> ?off" by (rule RND4_next)
    have keep: "frag_bytes (frag_off base fl ?off j) len b1 = frag_bytes (frag_off base fl ?off j) len b" for j len
    proof (rule frag_bytes_suffix)
      show "drop (off + unat fl) b1 = drop (off + unat fl) b" using fr by simp
      show "off + unat fl \<le> frag_off base fl ?off j" using le frag_off_ge order_trans by blast
    qed
    have pre1: "\<forall>k<m. pre (frag_bytes (frag_off base fl ?off k) (frag_len_of fl ll m k) b1)"
      using Suc.prems(5) keep Suc by (auto simp: frag_len_of_def dest: spec [of _ "Suc _"])
    from Suc.IH [OF rest _ _ _ pre1] fr Suc.prems have IH: "inv s'" "length b' = length b1" "take ?off b' = take ?off b1"
      "\<forall>k<m. rel (frag_bytes (frag_off base fl ?off k) (frag_len_of fl ll m k) b1)
               (frag_bytes (frag_off base fl ?off k) (frag_len_of fl ll m k) b')"
      by auto
    have t: "take off b' = take off b"
      using take_prefix [OF IH(3), of off] le fr by simp
    have "rel (frag_bytes (frag_off base fl off k) (frag_len_of fl ll (Suc m) k) b)
              (frag_bytes (frag_off base fl off k) (frag_len_of fl ll (Suc m) k) b')" if "k < Suc m" for k
    proof (cases k)
      case 0
      have "frag_bytes off fl b' = frag_bytes off fl b1"
        by (rule frag_bytes_prefix [OF IH(3) le])
      with 0 fr Suc show ?thesis by (simp add: frag_len_of_def)
    next
      case (Suc j)
      then have j: "j < m" using that by simp
      with spec [OF IH(4), of j] keep [of j] Suc show ?thesis by (simp add: frag_len_of_def split: if_splits)
    qed
    with IH(1,2) fr t show ?thesis by simp
  qed
qed simp

text \<open>The walk succeeds exactly where every fragment lies inside the buffer.\<close>

lemma frag_loop_total:
  assumes "inv s" "ok fl" "ok ll"
    and "\<forall>k<n. frag_off base fl off k + unat (frag_len_of fl ll n k) \<le> length b"
    and "\<forall>k<n. pre (frag_bytes (frag_off base fl off k) (frag_len_of fl ll n k) b)"
  shows "\<exists>s' b'. frag_loop one base fl ll n off (s, b) = Some (s', b')"
  using assms
proof (induction n arbitrary: off s b)
  case (Suc m)
  show ?case
  proof (cases m)
    case 0
    with Suc.prems show ?thesis by (auto simp: frag_len_of_def intro: one_total)
  next
    case (Suc n)
    let ?off = "RND4 (base + off + unat fl) - base"
    have "off + unat fl \<le> length b" and p0: "pre (frag_bytes off fl b)"
      using Suc.prems(4,5)[rule_format, of 0] Suc by (simp_all add: frag_len_of_def)
    then obtain s1 b1 where one: "one off fl (s, b) = Some (s1, b1)"
      using one_total Suc.prems by blast
    note fr = one_frame [OF one \<open>inv s\<close> \<open>ok fl\<close> p0]
    have keep: "frag_bytes (frag_off base fl ?off j) len b1 = frag_bytes (frag_off base fl ?off j) len b" for j len
    proof (rule frag_bytes_suffix)
      show "drop (off + unat fl) b1 = drop (off + unat fl) b" using fr by simp
      show "off + unat fl \<le> frag_off base fl ?off j" using RND4_next frag_off_ge order_trans by blast
    qed
    have "frag_off base fl ?off k + unat (frag_len_of fl ll m k) \<le> length b1"
      "pre (frag_bytes (frag_off base fl ?off k) (frag_len_of fl ll m k) b1)" if "k < m" for k
      using Suc.prems(4,5)[rule_format, of "Suc k"] that fr keep by (simp_all add: frag_len_of_def)
    with Suc.IH [where s = s1 and b = b1 and off = ?off] fr Suc.prems(2,3) one Suc show ?thesis by auto
  qed
qed simp

text \<open>Both over all the fragments of a transmit frame.\<close>

lemma tx_frags_rel:
  assumes "inv s" "ok (ad_frag_len ad)" "ok (pa_last_txcmdsz (xf_attrib xf))" "tx_room ad xf b"
    and "\<forall>k < unat (pa_nr_frags (xf_attrib xf)). pre (tx_frag ad xf k b)"
  shows "\<exists>s' b'. frag_loop one (xf_base xf) (ad_frag_len ad) (pa_last_txcmdsz (xf_attrib xf))
       (unat (pa_nr_frags (xf_attrib xf))) TXDESC_OFFSET (s, b) = Some (s', b')
     \<and> inv s' \<and> length b' = length b
     \<and> (\<forall>k < unat (pa_nr_frags (xf_attrib xf)). rel (tx_frag ad xf k b) (tx_frag ad xf k b'))"
proof -
  let ?n = "unat (pa_nr_frags (xf_attrib xf))"
  have pre: "\<forall>k<?n. pre (frag_bytes (frag_off (xf_base xf) (ad_frag_len ad) TXDESC_OFFSET k)
      (frag_len_of (ad_frag_len ad) (pa_last_txcmdsz (xf_attrib xf)) ?n k) b)"
    using assms(5) unfolding tx_frag_def tx_off_def tx_len_def .
  obtain s' b' where "frag_loop one (xf_base xf) (ad_frag_len ad) (pa_last_txcmdsz (xf_attrib xf))
       ?n TXDESC_OFFSET (s, b) = Some (s', b')"
    using frag_loop_total [OF assms(1-3) _ pre] tx_room_all [OF assms(4)]
    unfolding tx_off_def tx_len_def by blast
  with frag_loop_rel [OF this assms(1-3) pre] show ?thesis
    unfolding tx_frag_def tx_off_def tx_len_def by blast
qed

end

end
