(* ===== verification/Rc4.thy ===== *)
theory Rc4
  imports Prelude
begin

text \<open>
  The RC4 generator of core/rtw_security.c (\<open>arcfour_init\<close>, \<open>arcfour_byte\<close>,
  \<open>arcfour_encrypt\<close>) over the C struct \<open>arc4context\<close>: \<open>x\<close> and \<open>y\<close> are 32-bit, the state is an array
  of 256 bytes. The lemmas show that the state is always a permutation of the 256 byte values (so
  every index into it is in range), and that encryption is a stream cipher: an instance of the
  locale \<open>stream_cipher\<close>, whose clients are the WEP and TKIP framings.
\<close>

section \<open>The interface: an additive stream cipher\<close>

locale stream_cipher =
  fixes enc :: "'s \<Rightarrow> bytes \<Rightarrow> bytes \<times> 's"
  assumes enc_length: "length (fst (enc s xs)) = length xs"
    and enc_involutive: "fst (enc s (fst (enc s xs))) = xs"
    and enc_state: "length xs = length ys \<Longrightarrow> snd (enc s xs) = snd (enc s ys)"
    and enc_append: "fst (enc s (xs @ ys)) = fst (enc s xs) @ fst (enc (snd (enc s xs)) ys)"
begin

lemma enc_inj: "fst (enc s xs) = fst (enc s ys) \<Longrightarrow> xs = ys"
  by (metis enc_involutive)

text \<open>A payload and its trailer are encrypted by two consecutive calls, and decrypted by one.\<close>

lemma dec_framed:
  assumes "c1 = fst (enc s p)" and "c2 = fst (enc (snd (enc s p)) t)"
  shows "fst (enc s (c1 @ c2)) = p @ t"
proof -
  have "c1 @ c2 = fst (enc s (p @ t))"
    using assms by (simp add: enc_append)
  then show ?thesis by (simp add: enc_involutive)
qed

end

section \<open>The code\<close>

record arc4context =
  arc_x :: u32
  arc_y :: u32
  arc_state :: bytes

text \<open>One turn of the key-scheduling loop: the state array, \<open>stateindex\<close> and \<open>keyindex\<close>.\<close>

definition arcfour_ksa :: "bytes \<Rightarrow> nat \<Rightarrow> nat \<Rightarrow> bytes \<times> u32 \<times> nat \<Rightarrow> bytes \<times> u32 \<times> nat" where
  "arcfour_ksa key key_len counter = (\<lambda>(st, stateindex, keyindex).
     let t = ucast (st ! counter) :: u32;
         stateindex = (stateindex + ucast (key ! keyindex) + t) AND 0xff;
         u = ucast (st ! unat stateindex) :: u32;
         st = st[unat stateindex := ucast t];
         st = st[counter := ucast u];
         keyindex = (if key_len \<le> Suc keyindex then 0 else Suc keyindex)
     in (st, stateindex, keyindex))"

definition arcfour_init :: "bytes \<Rightarrow> nat \<Rightarrow> arc4context" where
  "arcfour_init key key_len =
     (let (st, _, _) = fold (arcfour_ksa key key_len) [0..<256] (map word_of_nat [0..<256], 0, 0)
      in \<lparr>arc_x = 0, arc_y = 0, arc_state = st\<rparr>)"

definition arcfour_byte :: "arc4context \<Rightarrow> u8 \<times> arc4context" where
  "arcfour_byte c =
     (let x' = (arc_x c + 1) AND 0xff;
          sx = ucast (arc_state c ! unat x') :: u32;
          y' = (sx + arc_y c) AND 0xff;
          sy = ucast (arc_state c ! unat y') :: u32;
          st = (arc_state c)[unat y' := ucast sx];
          st = st[unat x' := ucast sy]
      in (st ! unat ((sx + sy) AND 0xff), \<lparr>arc_x = x', arc_y = y', arc_state = st\<rparr>))"

fun arcfour_encrypt :: "arc4context \<Rightarrow> bytes \<Rightarrow> bytes \<times> arc4context" where
  "arcfour_encrypt c [] = ([], c)"
| "arcfour_encrypt c (b # src) =
     (let (k, c) = arcfour_byte c; (dest, c) = arcfour_encrypt c src in ((b XOR k) # dest, c))"

section \<open>The state is a permutation of the byte values\<close>

definition arc4_perm :: "bytes \<Rightarrow> bool" where
  "arc4_perm st \<longleftrightarrow> length st = 256 \<and> distinct st"

definition arc4_inv :: "arc4context \<Rightarrow> bool" where
  "arc4_inv c \<longleftrightarrow> arc4_perm (arc_state c) \<and> arc_x c < 256 \<and> arc_y c < 256"

lemma arc4_perm_swap:
  assumes "arc4_perm st" "i < 256" "j < 256"
  shows "arc4_perm (st[i := st ! j, j := st ! i])"
  using assms by (simp add: arc4_perm_def distinct_swap)

lemma arc4_perm_init: "arc4_perm (map word_of_nat [0..<256])"
proof -
  have "inj_on (word_of_nat :: nat \<Rightarrow> u8) {0..<256}"
    by (auto intro!: inj_onI simp: word_of_nat_eq_iff take_bit_eq_mod)
  then show ?thesis by (simp add: arc4_perm_def distinct_map)
qed

lemma arc4_perm_set: "arc4_perm st \<Longrightarrow> set st = UNIV"
proof -
  assume "arc4_perm st"
  then have "card (set st) = card (UNIV :: u8 set)"
    by (simp add: arc4_perm_def distinct_card card_word)
  then show ?thesis by (intro card_subset_eq) auto
qed

lemma arcfour_ksa_perm:
  assumes "arc4_perm st" "counter < 256"
  shows "arc4_perm (fst (arcfour_ksa key key_len counter (st, si, ki)))"
  using arc4_perm_swap [OF assms(1) unat_and_ff assms(2)]
  by (simp add: arcfour_ksa_def Let_def)

lemma arcfour_ksa_fold_perm:
  assumes "arc4_perm (fst s)" "\<forall>i \<in> set is. i < 256"
  shows "arc4_perm (fst (fold (arcfour_ksa key key_len) is s))"
  using assms
proof (induction "is" arbitrary: s)
  case (Cons i "is")
  have "arc4_perm (fst (arcfour_ksa key key_len i s))"
    using Cons.prems by (cases s) (auto intro: arcfour_ksa_perm)
  then show ?case using Cons by simp
qed simp

lemma arcfour_init_inv: "arc4_inv (arcfour_init key key_len)"
  using arcfour_ksa_fold_perm [of "(map word_of_nat [0..<256], 0, 0)" "[0..<256]" key key_len]
  by (auto simp: arcfour_init_def arc4_inv_def arc4_perm_init split: prod.splits simp del: upt_Suc)

lemma arcfour_byte_inv: "arc4_inv c \<Longrightarrow> arc4_inv (snd (arcfour_byte c))"
  using arc4_perm_swap [OF _ unat_and_ff unat_and_ff]
  by (auto simp: arcfour_byte_def arc4_inv_def Let_def word_less_nat_alt)

lemma arcfour_encrypt_inv: "arc4_inv c \<Longrightarrow> arc4_inv (snd (arcfour_encrypt c src))"
  by (induction src arbitrary: c)
    (auto simp: Let_def split_beta dest: arcfour_byte_inv)

section \<open>RC4 is a stream cipher\<close>

interpretation rc4: stream_cipher arcfour_encrypt
proof
  fix s :: arc4context and xs ys :: bytes
  show "length (fst (arcfour_encrypt s xs)) = length xs"
    by (induction xs arbitrary: s) (auto simp: split_beta Let_def)
  show "fst (arcfour_encrypt s (fst (arcfour_encrypt s xs))) = xs"
    by (induction xs arbitrary: s) (auto simp: split_beta Let_def xor.assoc)
  show "snd (arcfour_encrypt s xs) = snd (arcfour_encrypt s ys)" if "length xs = length ys"
    using that by (induction xs ys arbitrary: s rule: list_induct2) (auto simp: split_beta Let_def)
  show "fst (arcfour_encrypt s (xs @ ys))
      = fst (arcfour_encrypt s xs) @ fst (arcfour_encrypt (snd (arcfour_encrypt s xs)) ys)"
    by (induction xs arbitrary: s) (auto simp: split_beta Let_def)
qed

text \<open>The state of the generator after \<open>n\<close> output bytes, for the statement of the invariant.\<close>

fun arcfour_run :: "nat \<Rightarrow> arc4context \<Rightarrow> arc4context" where
  "arcfour_run 0 c = c"
| "arcfour_run (Suc n) c = arcfour_run n (snd (arcfour_byte c))"

lemma arcfour_run_inv: "arc4_inv c \<Longrightarrow> arc4_inv (arcfour_run n c)"
  by (induction n arbitrary: c) (auto dest: arcfour_byte_inv)


section \<open>Properties\<close>

text \<open>whatever the key, and after any number of generated bytes, the state array
  of the generator holds each of the 256 byte values exactly once and both indices are below 256, so
  that no access of \<open>arcfour_byte\<close> leaves the array.\<close>

theorem arcfour_state_perm:
  "let c = arcfour_run n (arcfour_init key key_len)
   in length (arc_state c) = 256 \<and> distinct (arc_state c) \<and> set (arc_state c) = UNIV
      \<and> arc_x c < 256 \<and> arc_y c < 256"
  using arcfour_run_inv [OF arcfour_init_inv, of n key key_len] arc4_perm_set
  by (simp add: arc4_inv_def arc4_perm_def Let_def)

end
