(* ===== verification/Rc4Frame.thy ===== *)
theory Rc4Frame
  imports SecFrame Rc4
begin

text \<open>
  What \<open>rtw_wep_encrypt\<close>/\<open>rtw_tkip_encrypt\<close> and \<open>rtw_wep_decrypt\<close>/\<open>rtw_tkip_decrypt\<close> of
  core/rtw_security.c do alike once they have an RC4 key: the payload of a fragment is followed by
  its CRC-32 and both are encrypted in place; on reception payload and trailer are decrypted in place.
  The lemmas describe the buffer after each, byte for byte.
\<close>

section \<open>The code\<close>

definition rc4_icv_protect ::
  "arc4context \<Rightarrow> nat \<Rightarrow> int \<Rightarrow> crc_globals \<times> bytes \<Rightarrow> (crc_globals \<times> bytes) option" where
  "rc4_icv_protect mycontext payload len = (\<lambda>(g, buf).
     if len < 0 then None
     else do {
       p \<leftarrow> get_sub buf payload (nat len);
       let (c, g) = getcrc32 g p;
       let crc = le32_bytes c;
       let (e, mycontext) = arcfour_encrypt mycontext p;
       buf \<leftarrow> put_sub buf payload e;
       let (ec, mycontext) = arcfour_encrypt mycontext crc;
       buf \<leftarrow> put_sub buf (payload + nat len) ec;
       Some (g, buf) })"

definition rc4_unprotect :: "arc4context \<Rightarrow> nat \<Rightarrow> int \<Rightarrow> bytes \<Rightarrow> (bytes \<times> bytes) option" where
  "rc4_unprotect mycontext payload len pframe =
     (if len < 0 then None
      else do {
        c \<leftarrow> get_sub pframe payload (nat len);
        let (p, mycontext) = arcfour_encrypt mycontext c;
        pframe \<leftarrow> put_sub pframe payload p;
        Some (p, pframe) })"

section \<open>Lengths\<close>

text \<open>A fragment whose lengths fit: the header, the IV, a payload and a four-byte trailer.\<close>

definition icv_room :: "pkt_attrib \<Rightarrow> u32 \<Rightarrow> bool" where
  "icv_room pa len \<longleftrightarrow> pa_icv_len pa = 4 \<and> unat len < 2 ^ 31 \<and> 3 \<le> unat (pa_iv_len pa) \<and>
     unat (pa_hdrlen pa) + unat (pa_iv_len pa) + 4 \<le> unat len"

abbreviation head_len :: "pkt_attrib \<Rightarrow> nat" where
  "head_len pa \<equiv> unat (pa_iv_len pa) + unat (pa_hdrlen pa)"

abbreviation body_len :: "pkt_attrib \<Rightarrow> u32 \<Rightarrow> nat" where
  "body_len pa len \<equiv> unat len - head_len pa - 4"

lemma icv_room_len:
  assumes "icv_room pa len"
  shows "tx_payload_len pa len = int (body_len pa len)"
proof -
  let ?h = "ucast (pa_hdrlen pa) :: u32" and ?i = "ucast (pa_iv_len pa) :: u32"
  have b: "unat (pa_hdrlen pa) + unat (pa_iv_len pa) + 4 \<le> unat len" "unat len < 2 ^ 31"
    and icv: "ucast (pa_icv_len pa) = (4::u32)"
    using assms by (simp_all add: icv_room_def)
  have 1: "unat (len - ?h) = unat len - unat (pa_hdrlen pa)"
    using b by (simp add: unat_minus_le)
  then have 2: "unat (len - ?h - ?i) = unat len - unat (pa_hdrlen pa) - unat (pa_iv_len pa)"
    using b by (simp add: unat_minus_le)
  then have 3: "unat (len - ?h - ?i - 4) = unat len - unat (pa_hdrlen pa) - unat (pa_iv_len pa) - 4"
    using b by (simp add: unat_minus_le)
  then have "unat (len - ?h - ?i - 4) < 2 ^ 31" using b by simp
  then show ?thesis
    unfolding tx_payload_len_def icv using 3 by (simp add: sint_small add.commute)
qed

lemma rx_payload_room:
  assumes "unat (rf_len rf) < 2 ^ 31"
    and "unat (ra_iv_len (rf_attrib rf)) + unat (ra_hdrlen (rf_attrib rf)) \<le> unat (rf_len rf)"
  shows "rx_payload_len rf =
    int (unat (rf_len rf) - (unat (ra_iv_len (rf_attrib rf)) + unat (ra_hdrlen (rf_attrib rf))))"
proof -
  let ?h = "ucast (ra_hdrlen (rf_attrib rf)) :: u32" and ?i = "ucast (ra_iv_len (rf_attrib rf)) :: u32"
  have 1: "unat (rf_len rf - ?h) = unat (rf_len rf) - unat (ra_hdrlen (rf_attrib rf))"
    using assms by (simp add: unat_minus_le)
  then have 2: "unat (rf_len rf - ?h - ?i)
      = unat (rf_len rf) - unat (ra_hdrlen (rf_attrib rf)) - unat (ra_iv_len (rf_attrib rf))"
    using assms by (simp add: unat_minus_le)
  then have "unat (rf_len rf - ?h - ?i) < 2 ^ 31" using assms by simp
  then show ?thesis
    unfolding rx_payload_len_def using 2 by (simp add: sint_small add.commute)
qed

section \<open>The protected payload\<close>

definition icv_sealed :: "arc4context \<Rightarrow> bytes \<Rightarrow> bytes" where
  "icv_sealed ctx p = fst (arcfour_encrypt ctx (p @ le32_bytes (crc32_ref p)))"

lemma icv_sealed_length [simp]: "length (icv_sealed ctx p) = length p + 4"
  by (simp add: icv_sealed_def rc4.enc_length)

lemma icv_sealed_open: "fst (arcfour_encrypt ctx (icv_sealed ctx p)) = p @ le32_bytes (crc32_ref p)"
  by (simp add: icv_sealed_def rc4.enc_involutive)

lemma rc4_icv_protect_eq:
  assumes "crc_ok g" "off + n + 4 \<le> length b"
  shows "rc4_icv_protect ctx off (int n) (g, b) =
    Some (snd (getcrc32 g (take n (drop off b))),
          take off b @ icv_sealed ctx (take n (drop off b)) @ drop (off + n + 4) b)"
proof -
  let ?p = "take n (drop off b)"
  let ?e = "fst (arcfour_encrypt ctx ?p)"
  let ?t = "fst (arcfour_encrypt (snd (arcfour_encrypt ctx ?p)) (le32_bytes (crc32_ref ?p)))"
  have len: "length ?e = n" "length ?t = 4"
    using assms(2) by (simp_all add: rc4.enc_length)
  have s: "icv_sealed ctx ?p = ?e @ ?t" by (simp add: icv_sealed_def rc4.enc_append)
  have n0: "\<not> int n < 0" by simp
  have r: "get_sub b off n = Some ?p" "put_sub b off ?e = Some (take off b @ ?e @ drop (off + n) b)"
    "put_sub (take off b @ ?e @ drop (off + n) b) (off + n) ?t
       = Some (take off b @ ?e @ ?t @ drop (off + n + 4) b)"
    using assms(2) len by (simp_all add: get_sub_def put_sub_def min_def ac_simps)
  show ?thesis
    using r getcrc32_ref [OF assms(1)] by (simp add: rc4_icv_protect_def split_beta Let_def s)
qed

lemma rc4_icv_protect_room:
  assumes "rc4_icv_protect ctx off (int n) (g, b) = Some (g', b')"
  shows "off + n + 4 \<le> length b"
  using assms
  by (auto simp: rc4_icv_protect_def split_beta Let_def rc4.enc_length buf_simps min_def
      split: Option.bind_splits if_splits)

lemma rc4_unprotect_eq:
  assumes "off + n \<le> length b"
  shows "rc4_unprotect ctx off (int n) b =
    (let p = fst (arcfour_encrypt ctx (take n (drop off b)))
     in Some (p, take off b @ p @ drop (off + n) b))"
  using assms
  by (simp add: rc4_unprotect_def get_sub_def put_sub_def split_beta Let_def rc4.enc_length min_def)

lemma rc4_unprotect_sealed:
  "rc4_unprotect ctx (length h) (int (length p + 4)) (h @ icv_sealed ctx p) =
     Some (p @ le32_bytes (crc32_ref p), h @ p @ le32_bytes (crc32_ref p))"
  by (subst rc4_unprotect_eq) (simp_all add: icv_sealed_open Let_def)

section \<open>A protected fragment\<close>

text \<open>How a fragment on the air relates to the fragment in memory before: header and IV unchanged, the
  rest sealed under the key that \<open>key\<close> derives from the header.\<close>

definition rc4_frag_rel :: "(bytes \<Rightarrow> arc4context) \<Rightarrow> pkt_attrib \<Rightarrow> bytes \<Rightarrow> bytes \<Rightarrow> bool" where
  "rc4_frag_rel key pa p c \<longleftrightarrow>
     c = take (head_len pa) p
       @ icv_sealed (key (take (head_len pa) p)) (take (length p - head_len pa - 4) (drop (head_len pa) p))"

lemma rc4_protect_frag:
  assumes "rc4_icv_protect (key (take (head_len pa) (drop off b))) (off + head_len pa)
      (tx_payload_len pa len) (g, b) = Some (g', b')"
    and "crc_ok g" "icv_room pa len"
  shows "crc_ok g' \<and> off + unat len \<le> length b \<and> length b' = length b
    \<and> take off b' = take off b \<and> drop (off + unat len) b' = drop (off + unat len) b
    \<and> rc4_frag_rel key pa (frag_bytes off len b) (frag_bytes off len b')"
proof -
  let ?h = "head_len pa" and ?n = "body_len pa len"
  let ?p = "take ?n (drop (off + ?h) b)"
  let ?s = "icv_sealed (key (take ?h (drop off b))) ?p"
  have len: "tx_payload_len pa len = int ?n" "?h + 4 + ?n = unat len"
    using assms(3) by (simp_all add: icv_room_len icv_room_def)
  have room: "off + ?h + ?n + 4 \<le> length b"
    using rc4_icv_protect_room assms(1) len(1) by metis
  have b': "b' = take (off + ?h) b @ ?s @ drop (off + ?h + ?n + 4) b"
    and g': "g' = snd (getcrc32 g ?p)"
    using rc4_icv_protect_eq [OF assms(2) room, of "key (take ?h (drop off b))"] assms(1) len(1)
    by (simp_all add: add.assoc)
  let ?m = "take ?h (drop off b) @ ?s"
  have m: "length ?m = unat len" using room len(2) by simp
  have end_le: "off + unat len \<le> length b" using room len(2) by simp
  have b2: "b' = take off b @ ?m @ drop (off + unat len) b"
    using b' len(2) by (simp add: take_add ac_simps)
  note sp = splice_facts [OF b2 m end_le]
  have f: "frag_bytes off len b' = ?m"
    unfolding frag_bytes_def by (rule sp(4))
  have t: "take ?h (take (unat len) (drop off b)) = take ?h (drop off b)"
    "drop ?h (take (unat len) (drop off b)) = take (?n + 4) (drop (off + ?h) b)"
    using len(2) by (simp_all add: min_def drop_take add.commute)
  have l: "length (take (unat len) (drop off b)) = unat len"
    using end_le by simp
  have "rc4_frag_rel key pa (frag_bytes off len b) (frag_bytes off len b')"
    unfolding rc4_frag_rel_def f unfolding frag_bytes_def l t
    by (simp add: min_def)
  with sp(1-3) end_le g' getcrc32_ok [OF assms(2)] show ?thesis by simp
qed

lemma rc4_protect_total:
  assumes "crc_ok g" "icv_room pa len" "off + unat len \<le> length b"
  shows "\<exists>g' b'. rc4_icv_protect ctx (off + head_len pa) (tx_payload_len pa len) (g, b) = Some (g', b')"
proof -
  have "off + head_len pa + body_len pa len + 4 \<le> length b"
    using assms by (simp add: icv_room_def)
  then show ?thesis
    using assms by (simp add: rc4_icv_protect_eq icv_room_len)
qed

end
