(* ===== verification/Wep.thy ===== *)
theory Wep
  imports Rc4Frame
begin

text \<open>
  Software WEP of core/rtw_security.c: \<open>rtw_wep_encrypt\<close> over every fragment of a transmit buffer and
  \<open>rtw_wep_decrypt\<close> on a received frame. The main result is that what \<open>rtw_wep_encrypt\<close> puts on the
  air for each fragment is turned back by \<open>rtw_wep_decrypt\<close>, under the same key, into the fragment's
  payload followed by its CRC, headers untouched.
\<close>

section \<open>The code\<close>

text \<open>The body of the loop of \<open>rtw_wep_encrypt\<close>. A key longer than 13 bytes would overflow the
  16-byte array \<open>wepkey\<close>; a negative length would be passed on as a huge unsigned one.\<close>

definition wep_key :: "security_priv \<Rightarrow> nat \<Rightarrow> bytes \<Rightarrow> (bytes \<times> nat) option" where
  "wep_key sec idx iv = do {
     keylength \<leftarrow> rd (dot11DefKeylen sec) idx;
     skey \<leftarrow> rd (dot11DefKey sec) idx;
     if 13 < unat keylength then None else do {
       k \<leftarrow> get_sub skey 0 (unat keylength);
       Some (iv @ k, 3 + unat keylength) } }"

definition wep_encrypt_frag ::
  "security_priv \<Rightarrow> pkt_attrib \<Rightarrow> nat \<Rightarrow> u32 \<Rightarrow> crc_globals \<times> bytes \<Rightarrow> (crc_globals \<times> bytes) option" where
  "wep_encrypt_frag sec pa pframe txlen = (\<lambda>(g, buf). do {
     iv \<leftarrow> get_sub buf (pframe + unat (pa_hdrlen pa)) 3;
     (wepkey, klen) \<leftarrow> wep_key sec (unat (dot11PrivacyKeyIndex sec)) iv;
     rc4_icv_protect (arcfour_init wepkey klen)
       (pframe + unat (pa_iv_len pa) + unat (pa_hdrlen pa)) (tx_payload_len pa txlen) (g, buf) })"

definition rtw_wep_encrypt :: "adapter \<Rightarrow> xmit_frame \<Rightarrow> (adapter \<times> xmit_frame) option" where
  "rtw_wep_encrypt ad xf = (case xf_buf xf of
     None \<Rightarrow> Some (ad, xf)
   | Some buf \<Rightarrow>
       (let pa = xf_attrib xf in
        if is_wep_enc (pa_encrypt pa) then do {
          (g, buf) \<leftarrow> frag_loop (wep_encrypt_frag (ad_sec ad) pa) (xf_base xf) (ad_frag_len ad)
             (pa_last_txcmdsz pa) (unat (pa_nr_frags pa)) TXDESC_OFFSET (ad_crc ad, buf);
          let sec = ad_sec ad;
          let sec = sec\<lparr>wep_sw_enc_cnt := sw_cnt_inc (pa_ra pa) (wep_sw_enc_cnt sec)\<rparr>;
          Some (ad\<lparr>ad_crc := g, ad_sec := sec\<rparr>, xf\<lparr>xf_buf := Some buf\<rparr>) }
        else Some (ad, xf)))"

text \<open>\<open>rtw_wep_decrypt\<close> computes the CRC of the decrypted payload and, despite its comment, compares it
  with nothing.\<close>

definition rtw_wep_decrypt :: "adapter \<Rightarrow> recv_frame \<Rightarrow> (adapter \<times> recv_frame) option" where
  "rtw_wep_decrypt ad rf =
     (let ra = rf_attrib rf; sec = ad_sec ad; pframe = rx_data rf in
      if is_wep_enc (ra_encrypt ra) then do {
        iv \<leftarrow> get_sub pframe (unat (ra_hdrlen ra)) 3;
        (wepkey, klen) \<leftarrow> wep_key sec (unat (ra_key_index ra)) iv;
        (p, pframe) \<leftarrow> rc4_unprotect (arcfour_init wepkey klen)
          (unat (ra_iv_len ra) + unat (ra_hdrlen ra)) (rx_payload_len rf) pframe;
        let (crc, g) = getcrc32 (ad_crc ad) (take (nat (rx_payload_len rf - 4)) p);
        let sec = sec\<lparr>wep_sw_dec_cnt := sw_cnt_inc (ra_ra ra) (wep_sw_dec_cnt sec)\<rparr>;
        Some (ad\<lparr>ad_crc := g, ad_sec := sec\<rparr>, rf\<lparr>rx_data := pframe\<rparr>) }
      else Some (ad, rf))"

section \<open>The fragments of a WEP frame\<close>

definition wep_ctx :: "security_priv \<Rightarrow> nat \<Rightarrow> bytes \<Rightarrow> arc4context" where
  "wep_ctx sec idx iv = (let (wepkey, klen) = the (wep_key sec idx iv) in arcfour_init wepkey klen)"

definition wep_key_ok :: "security_priv \<Rightarrow> nat \<Rightarrow> bool" where
  "wep_key_ok sec idx \<longleftrightarrow> idx < length (dot11DefKeylen sec) \<and> idx < length (dot11DefKey sec)
     \<and> unat (dot11DefKeylen sec ! idx) \<le> 13
     \<and> unat (dot11DefKeylen sec ! idx) \<le> length (dot11DefKey sec ! idx)"

lemma wep_key_ok_iff: "wep_key_ok sec idx \<longleftrightarrow> wep_key sec idx iv \<noteq> None"
  by (auto simp: wep_key_ok_def wep_key_def rd_def get_sub_def split: Option.bind_splits if_splits)

lemma wep_key_Some:
  assumes "wep_key_ok sec idx"
  obtains k n where "wep_key sec idx iv = Some (k, n)"
  using assms wep_key_ok_iff by fastforce

text \<open>The IV of a fragment: three bytes right after the MAC header.\<close>

definition frag_iv :: "pkt_attrib \<Rightarrow> bytes \<Rightarrow> bytes" where
  "frag_iv pa f = take 3 (drop (unat (pa_hdrlen pa)) f)"

lemma frag_iv_head:
  "3 \<le> unat (pa_iv_len pa) \<Longrightarrow> frag_iv pa (take (head_len pa) f) = frag_iv pa f"
  by (simp add: frag_iv_def drop_take min_def)

abbreviation wep_pa_key :: "security_priv \<Rightarrow> pkt_attrib \<Rightarrow> bytes \<Rightarrow> arc4context" where
  "wep_pa_key sec pa f \<equiv> wep_ctx sec (unat (dot11PrivacyKeyIndex sec)) (frag_iv pa f)"

lemma wep_encrypt_frag_eq:
  assumes "wep_key_ok sec (unat (dot11PrivacyKeyIndex sec))" "icv_room pa len"
    and "off + unat (pa_hdrlen pa) + 3 \<le> length b"
  shows "wep_encrypt_frag sec pa off len (g, b) =
    rc4_icv_protect (wep_pa_key sec pa (take (head_len pa) (drop off b))) (off + head_len pa)
      (tx_payload_len pa len) (g, b)"
proof -
  have "3 \<le> unat (pa_iv_len pa)" using assms(2) by (simp add: icv_room_def)
  moreover have "take 3 (drop (off + unat (pa_hdrlen pa)) b) = frag_iv pa (drop off b)"
    by (simp add: frag_iv_def add.commute)
  moreover obtain k n where "wep_key sec (unat (dot11PrivacyKeyIndex sec)) (frag_iv pa (drop off b)) = Some (k, n)"
    by (rule wep_key_Some [OF assms(1)])
  ultimately show ?thesis
    using assms(3)
    by (simp add: wep_encrypt_frag_def wep_ctx_def frag_iv_head get_sub_def add.assoc)
qed

lemma wep_encrypt_frag_room:
  assumes "wep_encrypt_frag sec pa off len (g, b) = Some r"
  shows "off + unat (pa_hdrlen pa) + 3 \<le> length b" "wep_key_ok sec (unat (dot11PrivacyKeyIndex sec))"
  using assms
  by (auto simp: wep_encrypt_frag_def buf_simps wep_key_ok_iff
      [where iv = "take 3 (drop (off + unat (pa_hdrlen pa)) b)"] split: Option.bind_splits)

interpretation wep: frag_op "wep_encrypt_frag sec pa" crc_ok
  "\<lambda>len. icv_room pa len \<and> wep_key_ok sec (unat (dot11PrivacyKeyIndex sec))"
  "\<lambda>_. True" "rc4_frag_rel (wep_pa_key sec pa) pa" for sec pa
proof
  fix off len g g' and b b' :: bytes
  assume a: "wep_encrypt_frag sec pa off len (g, b) = Some (g', b')" "crc_ok g"
    "icv_room pa len \<and> wep_key_ok sec (unat (dot11PrivacyKeyIndex sec))"
  show "crc_ok g' \<and> off + unat len \<le> length b \<and> length b' = length b
    \<and> take off b' = take off b \<and> drop (off + unat len) b' = drop (off + unat len) b
    \<and> rc4_frag_rel (wep_pa_key sec pa) pa (frag_bytes off len b) (frag_bytes off len b')"
  proof (rule rc4_protect_frag)
    show "rc4_icv_protect (wep_pa_key sec pa (take (head_len pa) (drop off b))) (off + head_len pa)
       (tx_payload_len pa len) (g, b) = Some (g', b')"
      using a wep_encrypt_frag_eq wep_encrypt_frag_room [OF a(1)] by metis
  qed (use a in simp_all)
next
  fix g off len and b :: bytes
  assume a: "crc_ok g" "icv_room pa len \<and> wep_key_ok sec (unat (dot11PrivacyKeyIndex sec))"
    "off + unat len \<le> length b"
  then have "off + unat (pa_hdrlen pa) + 3 \<le> length b" by (auto simp: icv_room_def)
  with a show "\<exists>g' b'. wep_encrypt_frag sec pa off len (g, b) = Some (g', b')"
    using rc4_protect_total [of g pa len off b] wep_encrypt_frag_eq by metis
qed

section \<open>Reception\<close>

text \<open>Decrypting a sealed fragment.\<close>

lemma wep_decrypt_sealed:
  assumes "is_wep_enc (ra_encrypt (rf_attrib rf))"
    and key: "wep_key_ok (ad_sec ad) (unat (ra_key_index (rf_attrib rf)))"
    and h: "length h = unat (ra_iv_len (rf_attrib rf)) + unat (ra_hdrlen (rf_attrib rf))"
    and iv: "3 \<le> unat (ra_iv_len (rf_attrib rf))"
    and data: "rx_data rf = h @ icv_sealed (wep_ctx (ad_sec ad) (unat (ra_key_index (rf_attrib rf)))
       (take 3 (drop (unat (ra_hdrlen (rf_attrib rf))) h))) p"
    and len: "unat (rf_len rf) = length h + (length p + 4)" "unat (rf_len rf) < 2 ^ 31"
  shows "\<exists>ad' rf'. rtw_wep_decrypt ad rf = Some (ad', rf') \<and>
    rx_data rf' = h @ p @ le32_bytes (crc32_ref p)"
proof -
  let ?hl = "unat (ra_hdrlen (rf_attrib rf))"
  have g: "get_sub (rx_data rf) ?hl 3 = Some (take 3 (drop ?hl h))"
    using h iv by (simp add: data get_sub_def)
  have l: "rx_payload_len rf = int (length p + 4)"
    using rx_payload_room [of rf] len h by simp
  have un: "rc4_unprotect (wep_ctx (ad_sec ad) (unat (ra_key_index (rf_attrib rf))) (take 3 (drop ?hl h)))
      (unat (ra_iv_len (rf_attrib rf)) + ?hl) (rx_payload_len rf) (rx_data rf)
    = Some (p @ le32_bytes (crc32_ref p), h @ p @ le32_bytes (crc32_ref p))"
    unfolding l data h [symmetric] by (rule rc4_unprotect_sealed)
  obtain k n where "wep_key (ad_sec ad) (unat (ra_key_index (rf_attrib rf))) (take 3 (drop ?hl h)) = Some (k, n)"
    by (rule wep_key_Some [OF key])
  with assms(1) g un show ?thesis
    by (simp add: rtw_wep_decrypt_def Let_def split_beta wep_ctx_def)
qed

section \<open>Round trip\<close>

text \<open>A receiver that holds the transmitter's key under the index the frame names, and a received frame
  whose attributes describe the transmitted fragment.\<close>

definition wep_peer :: "adapter \<Rightarrow> pkt_attrib \<Rightarrow> adapter \<Rightarrow> recv_frame \<Rightarrow> bool" where
  "wep_peer ad pa rx rf \<longleftrightarrow>
     ra_encrypt (rf_attrib rf) = pa_encrypt pa
     \<and> unat (ra_hdrlen (rf_attrib rf)) = unat (pa_hdrlen pa)
     \<and> ra_iv_len (rf_attrib rf) = pa_iv_len pa
     \<and> unat (ra_key_index (rf_attrib rf)) = unat (dot11PrivacyKeyIndex (ad_sec ad))
     \<and> dot11DefKey (ad_sec rx) = dot11DefKey (ad_sec ad)
     \<and> dot11DefKeylen (ad_sec rx) = dot11DefKeylen (ad_sec ad)
     \<and> unat (rf_len rf) = length (rx_data rf)"

text \<open>A frame that \<open>rtw_wep_encrypt\<close> handles: a buffer with room for every fragment, a usable key.\<close>

definition wep_tx_ok :: "adapter \<Rightarrow> xmit_frame \<Rightarrow> bytes \<Rightarrow> bool" where
  "wep_tx_ok ad xf buf \<longleftrightarrow>
     (let pa = xf_attrib xf in
      xf_buf xf = Some buf \<and> is_wep_enc (pa_encrypt pa) \<and> crc_ok (ad_crc ad)
      \<and> wep_key_ok (ad_sec ad) (unat (dot11PrivacyKeyIndex (ad_sec ad)))
      \<and> icv_room pa (ad_frag_len ad) \<and> icv_room pa (pa_last_txcmdsz pa) \<and> tx_room ad xf buf)"

lemma wep_frag_received:
  assumes ok: "wep_tx_ok ad xf buf" and k: "k < unat (pa_nr_frags (xf_attrib xf))"
    and rel: "rc4_frag_rel (wep_pa_key (ad_sec ad) (xf_attrib xf)) (xf_attrib xf) (tx_frag ad xf k buf) c"
    and peer: "wep_peer ad (xf_attrib xf) rx rf" and data: "rx_data rf = c"
  shows "\<exists>rx' rf'. rtw_wep_decrypt rx rf = Some (rx', rf') \<and>
    (let f = tx_frag ad xf k buf; h = head_len (xf_attrib xf); p = take (length f - h - 4) (drop h f)
     in rx_data rf' = take h f @ p @ le32_bytes (crc32_ref p))"
proof -
  let ?pa = "xf_attrib xf" and ?f = "tx_frag ad xf k buf"
  let ?h = "head_len ?pa"
  let ?p = "take (length ?f - ?h - 4) (drop ?h ?f)"
  have room: "icv_room ?pa (tx_len ad xf k)"
    using ok tx_len_cases [of ad xf k] by (auto simp: wep_tx_ok_def Let_def)
  have lf: "length ?f = unat (tx_len ad xf k)"
    using ok k by (intro tx_frag_length) (simp_all add: wep_tx_ok_def Let_def)
  have h: "length (take ?h ?f) = unat (ra_iv_len (rf_attrib rf)) + unat (ra_hdrlen (rf_attrib rf))"
    using room lf peer by (simp add: icv_room_def wep_peer_def)
  have iv: "3 \<le> unat (ra_iv_len (rf_attrib rf))"
    using room peer by (simp add: icv_room_def wep_peer_def)
  have key: "wep_ctx (ad_sec rx) (unat (ra_key_index (rf_attrib rf))) i
      = wep_ctx (ad_sec ad) (unat (dot11PrivacyKeyIndex (ad_sec ad))) i" for i
    using peer by (simp add: wep_peer_def wep_ctx_def wep_key_def)
  have d: "rx_data rf = take ?h ?f @ icv_sealed (wep_ctx (ad_sec rx) (unat (ra_key_index (rf_attrib rf)))
       (take 3 (drop (unat (ra_hdrlen (rf_attrib rf))) (take ?h ?f)))) ?p"
    using rel data peer unfolding key rc4_frag_rel_def by (simp add: frag_iv_def wep_peer_def)
  have len: "unat (rf_len rf) = length (take ?h ?f) + (length ?p + 4)"
    using peer d by (simp add: wep_peer_def)
  also have "\<dots> = unat (tx_len ad xf k)"
    using lf room by (simp add: icv_room_def)
  finally have "unat (rf_len rf) < 2 ^ 31" using room by (simp add: icv_room_def)
  moreover have "wep_key_ok (ad_sec rx) (unat (ra_key_index (rf_attrib rf)))"
    using ok peer by (simp add: wep_tx_ok_def wep_peer_def wep_key_ok_def Let_def)
  moreover have "is_wep_enc (ra_encrypt (rf_attrib rf))"
    using ok peer by (simp add: wep_tx_ok_def wep_peer_def Let_def)
  ultimately show ?thesis
    using wep_decrypt_sealed [OF _ _ h iv d len] by (simp add: Let_def)
qed

lemma rtw_wep_encrypt_frags:
  assumes "wep_tx_ok ad xf buf"
  shows "\<exists>ad' xf' buf'. rtw_wep_encrypt ad xf = Some (ad', xf') \<and> xf_buf xf' = Some buf'
    \<and> crc_ok (ad_crc ad') \<and> length buf' = length buf
    \<and> (\<forall>k < unat (pa_nr_frags (xf_attrib xf)).
         rc4_frag_rel (wep_pa_key (ad_sec ad) (xf_attrib xf)) (xf_attrib xf)
           (tx_frag ad xf k buf) (tx_frag ad xf k buf'))"
  using assms wep.tx_frags_rel [of "ad_crc ad" "xf_attrib xf" ad "ad_sec ad" xf buf]
  by (fastforce simp: wep_tx_ok_def rtw_wep_encrypt_def Let_def)


section \<open>Properties\<close>

text \<open>C19: \<open>rtw_wep_encrypt\<close> succeeds on every buffer with room for its fragments, and a
  receiver holding the same key turns each fragment it put on the air, with \<open>rtw_wep_decrypt\<close>, back
  into the original header and IV, the original payload, and the CRC-32 of that payload.\<close>

theorem wep_roundtrip:
  assumes "wep_tx_ok ad xf buf"
  shows "\<exists>ad' xf' buf'. rtw_wep_encrypt ad xf = Some (ad', xf') \<and> xf_buf xf' = Some buf' \<and>
    length buf' = length buf \<and>
    (\<forall>k < unat (pa_nr_frags (xf_attrib xf)). \<forall>rx rf.
       wep_peer ad (xf_attrib xf) rx rf \<longrightarrow> rx_data rf = tx_frag ad xf k buf' \<longrightarrow>
       (\<exists>rx' rf'. rtw_wep_decrypt rx rf = Some (rx', rf') \<and>
         (let f = tx_frag ad xf k buf; h = head_len (xf_attrib xf); p = take (length f - h - 4) (drop h f)
          in rx_data rf' = take h f @ p @ le32_bytes (crc32_ref p))))"
  using rtw_wep_encrypt_frags [OF assms] wep_frag_received [OF assms] by blast

definition wep_demo_ad :: adapter where
  "wep_demo_ad = \<lparr>ad_sec = \<lparr>dot11PrivacyKeyIndex = 1,
     dot11DefKey = replicate 4 (replicate 16 0x41), dot11DefKeylen = [0, 5, 0, 0],
     dot118021XGrpKeyid = 0, dot118021XGrpKey = [], binstallGrpkey = False,
     wep_sw_enc_cnt = \<lparr>cnt_bc = 0, cnt_mc = 0, cnt_uc = 0\<rparr>, wep_sw_dec_cnt = \<lparr>cnt_bc = 0, cnt_mc = 0, cnt_uc = 0\<rparr>,
     tkip_sw_enc_cnt = \<lparr>cnt_bc = 0, cnt_mc = 0, cnt_uc = 0\<rparr>, tkip_sw_dec_cnt = \<lparr>cnt_bc = 0, cnt_mc = 0, cnt_uc = 0\<rparr>,
     aes_sw_enc_cnt = \<lparr>cnt_bc = 0, cnt_mc = 0, cnt_uc = 0\<rparr>, aes_sw_dec_cnt = \<lparr>cnt_bc = 0, cnt_mc = 0, cnt_uc = 0\<rparr>\<rparr>,
     ad_frag_len = 42, ad_crc = crc_globals0, ad_sta_hash = replicate 32 [], ad_message = []\<rparr>"

definition wep_demo_xf :: "bytes \<Rightarrow> xmit_frame" where
  "wep_demo_xf buf = \<lparr>xf_attrib = \<lparr>pa_encrypt = ENC_WEP40, pa_hdrlen = 24, pa_iv_len = 4, pa_icv_len = 4,
     pa_nr_frags = 2, pa_last_txcmdsz = 36, pa_ta = [], pa_ra = replicate 6 0, pa_UncstKey = []\<rparr>,
     xf_base = 0, xf_buf = Some buf\<rparr>"

definition wep_demo_rf :: "bytes \<Rightarrow> recv_frame" where
  "wep_demo_rf data = \<lparr>rf_attrib = \<lparr>ra_encrypt = ENC_WEP40, ra_hdrlen = 24, ra_iv_len = 4, ra_key_index = 1,
     ra_ta = [], ra_ra = replicate 6 0\<rparr>, rf_len = 42, rx_data = data\<rparr>"

lemma wep_roundtrip_witness:
  "\<exists>ad' xf' buf' rx' rf'. rtw_wep_encrypt wep_demo_ad (wep_demo_xf (replicate 120 7)) = Some (ad', xf')
    \<and> xf_buf xf' = Some buf'
    \<and> rtw_wep_decrypt wep_demo_ad
        (wep_demo_rf (tx_frag wep_demo_ad (wep_demo_xf (replicate 120 7)) 0 buf')) = Some (rx', rf')
    \<and> rx_data rf' = replicate 38 7 @ le32_bytes (crc32_ref (replicate 10 7))"
proof -
  let ?xf = "wep_demo_xf (replicate 120 7)"
  note d = wep_demo_ad_def wep_demo_xf_def ENC_WEP40_def tx_off_def tx_len_def frag_len_of_def TXDESC_OFFSET_def
  have ok: "wep_tx_ok wep_demo_ad ?xf (replicate 120 7)"
    by (simp add: d wep_tx_ok_def is_wep_enc_def crc_ok_globals0 wep_key_ok_def icv_room_def tx_room_def
        RND4_def upt_2)
  obtain ad' xf' buf' where enc: "rtw_wep_encrypt wep_demo_ad ?xf = Some (ad', xf')"
    "xf_buf xf' = Some buf'" "length buf' = 120" and
    dec: "\<forall>k < unat (pa_nr_frags (xf_attrib ?xf)). \<forall>rx rf.
       wep_peer wep_demo_ad (xf_attrib ?xf) rx rf \<longrightarrow> rx_data rf = tx_frag wep_demo_ad ?xf k buf' \<longrightarrow>
       (\<exists>rx' rf'. rtw_wep_decrypt rx rf = Some (rx', rf') \<and>
         (let f = tx_frag wep_demo_ad ?xf k (replicate 120 7); h = head_len (xf_attrib ?xf);
              p = take (length f - h - 4) (drop h f)
          in rx_data rf' = take h f @ p @ le32_bytes (crc32_ref p)))"
    using wep_roundtrip [OF ok] by auto
  let ?c = "tx_frag wep_demo_ad ?xf 0 buf'"
  have "length ?c = 42" using enc(3) by (simp add: d tx_frag_def frag_bytes_def)
  then have "wep_peer wep_demo_ad (xf_attrib ?xf) wep_demo_ad (wep_demo_rf ?c)"
    by (simp add: wep_peer_def wep_demo_rf_def d del: replicate.simps)
  moreover have "rx_data (wep_demo_rf ?c) = ?c" by (simp add: wep_demo_rf_def)
  moreover have "tx_frag wep_demo_ad ?xf 0 (replicate 120 7) = replicate 42 7"
    by (simp add: d tx_frag_def frag_bytes_def)
  moreover have "head_len (xf_attrib ?xf) = 28" "0 < unat (pa_nr_frags (xf_attrib ?xf))"
    by (simp_all add: d)
  moreover have "replicate 28 (7::u8) @ replicate 10 7 = replicate 38 7"
    by (simp add: replicate_add [symmetric])
  ultimately show ?thesis
    using enc dec [rule_format, of 0 wep_demo_ad "wep_demo_rf ?c"] by (fastforce simp: Let_def)
qed

end
