(* ===== verification/Michael.thy ===== *)
theory Michael
  imports Prelude
begin

text \<open>
  The Michael message integrity code of TKIP (core/rtw_security.c, \<open>secmicgetuint32\<close> to
  \<open>rtw_seccalctkipmic\<close>; \<open>struct mic_data\<close> of include/rtw_security.h). The driver feeds bytes one at a
  time into a word accumulator; the reference pads the whole message first and folds the block
  function over its little-endian words. The lemmas show the byte-wise code equal to the reference
  and independent of how the message is cut into calls.
\<close>

section \<open>The code\<close>

record mic_data =
  mic_K0 :: u32
  mic_K1 :: u32
  mic_L :: u32
  mic_R :: u32
  mic_M :: u32
  mic_nBytesInM :: u32

definition ROL32 :: "u32 \<Rightarrow> nat \<Rightarrow> u32" where
  "ROL32 A n = push_bit n A OR (drop_bit (32 - n) A AND mask n)"

definition ROR32 :: "u32 \<Rightarrow> nat \<Rightarrow> u32" where
  "ROR32 A n = ROL32 A (32 - n)"

definition secmicgetuint32 :: "bytes \<Rightarrow> u32" where
  "secmicgetuint32 p = fold (\<lambda>i res. res OR push_bit (8 * i) (ucast (p ! i))) [0..<4] 0"

fun secmicput :: "nat \<Rightarrow> u32 \<Rightarrow> bytes" where
  "secmicput 0 val = []"
| "secmicput (Suc i) val = ucast (val AND 0xff) # secmicput i (drop_bit 8 val)"

definition secmicputuint32 :: "u32 \<Rightarrow> bytes" where
  "secmicputuint32 val = secmicput 4 val"

definition secmicclear :: "mic_data \<Rightarrow> mic_data" where
  "secmicclear d = d\<lparr>mic_L := mic_K0 d, mic_R := mic_K1 d, mic_nBytesInM := 0, mic_M := 0\<rparr>"

definition rtw_secmicsetkey :: "mic_data \<Rightarrow> bytes \<Rightarrow> mic_data" where
  "rtw_secmicsetkey d key =
     secmicclear (d\<lparr>mic_K0 := secmicgetuint32 key, mic_K1 := secmicgetuint32 (drop 4 key)\<rparr>)"

definition mic_mix :: "u32 \<times> u32 \<Rightarrow> u32 \<times> u32" where
  "mic_mix = (\<lambda>(L, R).
     let R = R XOR ROL32 L 17;
         L = L + R;
         R = R XOR (drop_bit 8 (L AND 0xff00ff00) OR push_bit 8 (L AND 0x00ff00ff));
         L = L + R;
         R = R XOR ROL32 L 3;
         L = L + R;
         R = R XOR ROR32 L 2;
         L = L + R
     in (L, R))"

definition rtw_secmicappendbyte :: "mic_data \<Rightarrow> u8 \<Rightarrow> mic_data" where
  "rtw_secmicappendbyte d b =
     (let d = d\<lparr>mic_M := mic_M d OR push_bit (8 * unat (mic_nBytesInM d)) (ucast b),
                mic_nBytesInM := mic_nBytesInM d + 1\<rparr>
      in if 4 \<le> mic_nBytesInM d
         then let (L, R) = mic_mix (mic_L d XOR mic_M d, mic_R d)
              in d\<lparr>mic_L := L, mic_R := R, mic_M := 0, mic_nBytesInM := 0\<rparr>
         else d)"

definition rtw_secmicappend :: "mic_data \<Rightarrow> bytes \<Rightarrow> mic_data" where
  "rtw_secmicappend d src = foldl rtw_secmicappendbyte d src"

text \<open>\<open>while (pmicdata->nBytesInM != 0) rtw_secmicappendbyte(pmicdata, 0);\<close>\<close>

function mic_zero_pad :: "mic_data \<Rightarrow> mic_data" where
  "mic_zero_pad d =
     (if mic_nBytesInM d \<noteq> 0 then mic_zero_pad (rtw_secmicappendbyte d 0) else d)"
  by pat_completeness auto

lemma mic_append_nBytes:
  "mic_nBytesInM (rtw_secmicappendbyte d b) = (if 4 \<le> mic_nBytesInM d + 1 then 0 else mic_nBytesInM d + 1)"
  by (simp add: rtw_secmicappendbyte_def Let_def split_beta)

termination mic_zero_pad
proof (relation "measure (\<lambda>d. if mic_nBytesInM d = 0 then 0 else Suc (4 - unat (mic_nBytesInM d)))")
  fix d :: mic_data
  assume n0: "mic_nBytesInM d \<noteq> 0"
  let ?n = "mic_nBytesInM d"
  have "unat (?n + 1) = Suc (unat ?n)" if "?n + 1 \<noteq> 0"
    using that by (metis unatSuc add.commute)
  then show "(rtw_secmicappendbyte d 0, d)
      \<in> measure (\<lambda>d. if mic_nBytesInM d = 0 then 0 else Suc (4 - unat (mic_nBytesInM d)))"
    using n0 by (auto simp: mic_append_nBytes word_le_nat_alt)
qed simp

declare mic_zero_pad.simps [simp del]

definition rtw_secgetmic :: "mic_data \<Rightarrow> bytes \<times> mic_data" where
  "rtw_secgetmic d =
     (let d = rtw_secmicappendbyte d 0x5a;
          d = rtw_secmicappendbyte d 0;
          d = rtw_secmicappendbyte d 0;
          d = rtw_secmicappendbyte d 0;
          d = rtw_secmicappendbyte d 0;
          d = mic_zero_pad d
      in (secmicputuint32 (mic_L d) @ secmicputuint32 (mic_R d), secmicclear d))"

text \<open>\<open>init\<close> is the uninitialised local \<open>micdata\<close>; a header shorter than the addresses selected by the
  DS bits is read out of bounds.\<close>

definition rtw_seccalctkipmic :: "mic_data \<Rightarrow> bytes \<Rightarrow> bytes \<Rightarrow> bytes \<Rightarrow> u8 \<Rightarrow> bytes option" where
  "rtw_seccalctkipmic init key header data pri = do {
     let micdata = rtw_secmicsetkey init key;
     fc \<leftarrow> rd header 1;
     micdata \<leftarrow>
       (if fc AND 1 \<noteq> 0 then do {
          da \<leftarrow> get_sub header 16 6;
          sa \<leftarrow> (if fc AND 2 \<noteq> 0 then get_sub header 24 6 else get_sub header 10 6);
          Some (rtw_secmicappend (rtw_secmicappend micdata da) sa) }
        else do {
          da \<leftarrow> get_sub header 4 6;
          sa \<leftarrow> (if fc AND 2 \<noteq> 0 then get_sub header 16 6 else get_sub header 10 6);
          Some (rtw_secmicappend (rtw_secmicappend micdata da) sa) });
     let micdata = rtw_secmicappend micdata [pri, 0, 0, 0];
     let micdata = rtw_secmicappend micdata data;
     Some (fst (rtw_secgetmic micdata)) }"

section \<open>The reference\<close>

definition le_word4 :: "u8 \<Rightarrow> u8 \<Rightarrow> u8 \<Rightarrow> u8 \<Rightarrow> u32" where
  "le_word4 a b c d = ucast a OR push_bit 8 (ucast b) OR push_bit 16 (ucast c) OR push_bit 24 (ucast d)"

fun michael_words :: "u32 \<times> u32 \<Rightarrow> bytes \<Rightarrow> u32 \<times> u32" where
  "michael_words (L, R) (a # b # c # d # bs) = michael_words (mic_mix (L XOR le_word4 a b c d, R)) bs"
| "michael_words LR _ = LR"

text \<open>The padding of the standard: one byte \<open>0x5a\<close>, then between four and seven zeros.\<close>

definition michael_pad :: "nat \<Rightarrow> bytes" where
  "michael_pad n = 0x5a # replicate (4 + (3 - n mod 4)) 0"

definition michael_ref :: "u32 \<times> u32 \<Rightarrow> bytes \<Rightarrow> bytes" where
  "michael_ref key msg =
     (let (L, R) = michael_words key (msg @ michael_pad (length msg)) in le32_bytes L @ le32_bytes R)"

section \<open>The byte-wise code computes the reference\<close>

lemma mic_append_append: "rtw_secmicappend d (xs @ ys) = rtw_secmicappend (rtw_secmicappend d xs) ys"
  by (simp add: rtw_secmicappend_def)

lemma mic_append_byte: "rtw_secmicappendbyte d b = rtw_secmicappend d [b]"
  by (simp add: rtw_secmicappend_def)

lemma mic_append_word:
  assumes "mic_nBytesInM d = 0" "mic_M d = 0"
  shows "rtw_secmicappend d [a, b, c, e] =
    (let (L, R) = mic_mix (mic_L d XOR le_word4 a b c e, mic_R d) in d\<lparr>mic_L := L, mic_R := R\<rparr>)"
  using assms by (cases d) (simp add: rtw_secmicappend_def rtw_secmicappendbyte_def le_word4_def Let_def split_beta
      word_le_nat_alt or.assoc)

lemma mic_append_words:
  assumes "4 dvd length msg" "mic_nBytesInM d = 0" "mic_M d = 0"
  shows "rtw_secmicappend d msg =
    (let (L, R) = michael_words (mic_L d, mic_R d) msg in d\<lparr>mic_L := L, mic_R := R\<rparr>)"
  using assms
proof (induction "(mic_L d, mic_R d)" msg arbitrary: d rule: michael_words.induct)
  case (1 a b c e bs)
  have "rtw_secmicappend d (a # b # c # e # bs) = rtw_secmicappend (rtw_secmicappend d [a, b, c, e]) bs"
    by (simp add: rtw_secmicappend_def)
  moreover obtain L' R' where m: "mic_mix (mic_L d XOR le_word4 a b c e, mic_R d) = (L', R')"
    by force
  moreover have "4 dvd length bs"
    using "1.prems"(1) by simp presburger
  ultimately show ?case
    using 1(1) [of "d\<lparr>mic_L := L', mic_R := R'\<rparr>"] 1(2-) by (simp add: mic_append_word Let_def split_beta)
qed (auto simp: rtw_secmicappend_def dest!: dvd_imp_le)

text \<open>The number of pending bytes, as the message arrives.\<close>

lemma mic_pending:
  assumes "mic_nBytesInM d = word_of_nat n" "n < 4"
  shows "mic_nBytesInM (rtw_secmicappend d msg) = word_of_nat ((n + length msg) mod 4)"
  using assms
proof (induction msg arbitrary: d n)
  case (Cons b msg)
  have n: "n = 0 \<or> n = 1 \<or> n = 2 \<or> n = 3" using Cons.prems(2) by auto
  have "mic_nBytesInM (rtw_secmicappendbyte d b) = word_of_nat (Suc n mod 4)"
    using n Cons.prems(1) by (elim disjE) (simp_all add: mic_append_nBytes word_le_nat_alt)
  from Cons.IH [OF this] show ?case
    by (simp add: rtw_secmicappend_def mod_simps)
qed (simp add: rtw_secmicappend_def)

lemma mic_zero_pad_append:
  assumes "mic_nBytesInM d = word_of_nat n" "n < 4"
  shows "mic_zero_pad d = rtw_secmicappend d (replicate ((4 - n) mod 4) 0)"
proof -
  have step: "mic_zero_pad c = mic_zero_pad (rtw_secmicappend c [0])" if "mic_nBytesInM c \<noteq> 0" for c
    using that by (subst mic_zero_pad.simps) (simp add: rtw_secmicappend_def)
  have stop: "mic_zero_pad c = c" if "mic_nBytesInM c = 0" for c
    using that by (subst mic_zero_pad.simps) simp
  have pend: "mic_nBytesInM (rtw_secmicappend d (replicate k 0)) = word_of_nat ((n + k) mod 4)" for k
    using mic_pending [OF assms, of "replicate k 0"] by simp
  have run: "mic_zero_pad d = mic_zero_pad (rtw_secmicappend d (replicate k 0))" if "n + k \<le> 4" "n \<noteq> 0" for k
    using that
  proof (induction k)
    case (Suc k)
    have "(n + k) mod 4 = 1 \<or> (n + k) mod 4 = 2 \<or> (n + k) mod 4 = 3" using Suc.prems by auto
    then have "mic_nBytesInM (rtw_secmicappend d (replicate k 0)) \<noteq> 0"
      by (elim disjE) (simp_all add: pend)
    moreover have "replicate (Suc k) (0::u8) = replicate k 0 @ [0]"
      by (simp add: replicate_append_same)
    ultimately show ?case
      using Suc step by (simp add: mic_append_append del: replicate.simps)
  qed (simp add: rtw_secmicappend_def)
  show ?thesis
  proof (cases "n = 0")
    case True
    with assms show ?thesis by (simp add: stop rtw_secmicappend_def)
  next
    case False
    then have "mic_nBytesInM (rtw_secmicappend d (replicate (4 - n) 0)) = 0"
      using assms(2) by (simp add: pend)
    then show ?thesis using False assms(2) run [of "4 - n"] by (simp add: stop)
  qed
qed

lemma secmicputuint32_le: "secmicputuint32 v = le32_bytes v"
proof -
  have [simp]: "(ucast (w AND 0xff) :: u8) = ucast w" for w :: u32
    by (rule bit_word_eqI) (simp add: bit_simps ff_mask)
  have "secmicputuint32 v = secmicput (Suc (Suc (Suc (Suc 0)))) v"
    by (simp add: secmicputuint32_def numeral_eq_Suc)
  then show ?thesis by (simp add: le32_bytes_def)
qed

lemma secmicgetuint32_le: "secmicgetuint32 (a # b # c # d # bs) = le_word4 a b c d"
proof -
  have "[0..<4] = [0, 1, 2, 3]" by code_simp
  then show ?thesis by (simp add: secmicgetuint32_def le_word4_def or.assoc)
qed

text \<open>A fresh accumulator, fed the message in any way, yields the reference code.\<close>

lemma rtw_secgetmic_ref:
  assumes "mic_nBytesInM d = 0" "mic_M d = 0"
  shows "fst (rtw_secgetmic (rtw_secmicappend d msg)) = michael_ref (mic_L d, mic_R d) msg"
proof -
  let ?n = "length msg"
  have pend: "mic_nBytesInM (rtw_secmicappend d (msg @ [0x5a, 0, 0, 0, 0])) = word_of_nat ((?n + 5) mod 4)"
    using mic_pending [of d 0 "msg @ [0x5a, 0, 0, 0, 0]"] assms(1) by (simp add: add.commute)
  have m4: "(?n + 5) mod 4 < 4" by simp
  have z: "(4 - (?n + 5) mod 4) mod 4 = 3 - ?n mod 4"
  proof -
    have "?n mod 4 < 4" by simp
    then have "?n mod 4 = 0 \<or> ?n mod 4 = 1 \<or> ?n mod 4 = 2 \<or> ?n mod 4 = 3" by linarith
    moreover have "(?n + 5) mod 4 = (?n mod 4 + 1) mod 4" by presburger
    ultimately show ?thesis by (elim disjE) simp_all
  qed
  have pad: "[0x5a, 0, 0, 0, 0] @ replicate (3 - ?n mod 4) 0 = michael_pad ?n"
  proof -
    have "replicate (4 + k) x = [x, x, x, x] @ replicate k x" for k and x :: u8
      by (simp add: numeral_eq_Suc)
    then show ?thesis by (simp only: michael_pad_def append_Cons append_Nil)
  qed
  have "mic_zero_pad (rtw_secmicappend d (msg @ [0x5a, 0, 0, 0, 0]))
      = rtw_secmicappend (rtw_secmicappend d (msg @ [0x5a, 0, 0, 0, 0])) (replicate (3 - ?n mod 4) 0)"
    unfolding mic_zero_pad_append [OF pend m4] z ..
  also have "\<dots> = rtw_secmicappend d (msg @ michael_pad ?n)"
    by (simp only: pad [symmetric] mic_append_append append_assoc)
  finally have "mic_zero_pad (rtw_secmicappend d (msg @ [0x5a, 0, 0, 0, 0]))
      = rtw_secmicappend d (msg @ michael_pad ?n)" .
  moreover have "4 dvd length (msg @ michael_pad ?n)"
    by (simp add: michael_pad_def) presburger
  ultimately show ?thesis
    using mic_append_words [OF _ assms, of "msg @ michael_pad ?n"]
    by (simp add: rtw_secgetmic_def mic_append_byte mic_append_append [symmetric] michael_ref_def Let_def
        split_beta secmicputuint32_le)
qed

section \<open>Properties\<close>

text \<open>The pseudo header of the standard: the destination and source addresses the DS bits select,
  the priority and three zero bytes.\<close>

definition mic_pseudo_header :: "bytes \<Rightarrow> u8 \<Rightarrow> bytes" where
  "mic_pseudo_header header pri =
     (let fc = header ! 1;
          da = (if fc AND 1 \<noteq> 0 then 16 else 4);
          sa = (if fc AND 2 = 0 then 10 else if fc AND 1 \<noteq> 0 then 24 else 16)
      in take 6 (drop da header) @ take 6 (drop sa header) @ [pri, 0, 0, 0])"

lemma mic_setkey_fields:
  "mic_nBytesInM (rtw_secmicsetkey d key) = 0" "mic_M (rtw_secmicsetkey d key) = 0"
  "mic_L (rtw_secmicsetkey d key) = secmicgetuint32 key"
  "mic_R (rtw_secmicsetkey d key) = secmicgetuint32 (drop 4 key)"
  by (simp_all add: rtw_secmicsetkey_def secmicclear_def)

text \<open>C38: \<open>rtw_seccalctkipmic\<close>, fed byte by byte in five pieces, returns the Michael code of
  the standard (pad the whole message, fold the block function over its words) of the pseudo header
  followed by the data, whatever was in the uninitialised \<open>micdata\<close>, and it reads the header inside
  its 30 bytes only.\<close>

theorem michael_mic:
  assumes "30 \<le> length header"
  shows "rtw_seccalctkipmic init key header data pri =
    Some (michael_ref (secmicgetuint32 key, secmicgetuint32 (drop 4 key))
       (mic_pseudo_header header pri @ data))"
  using assms rtw_secgetmic_ref [OF mic_setkey_fields(1,2), of init key]
  by (simp add: rtw_seccalctkipmic_def mic_pseudo_header_def rd_def get_sub_def Let_def mic_setkey_fields
      mic_append_append [symmetric])

lemma michael_mic_witness:
  "rtw_seccalctkipmic \<lparr>mic_K0 = 1, mic_K1 = 2, mic_L = 3, mic_R = 4, mic_M = 5, mic_nBytesInM = 6\<rparr>
     (replicate 8 0) (replicate 30 0) [1, 2] 7
   = Some (michael_ref (0, 0) (replicate 6 0 @ replicate 6 0 @ [7, 0, 0, 0] @ [1, 2]))"
proof -
  have "secmicgetuint32 (replicate 8 0) = 0" "secmicgetuint32 (drop 4 (replicate 8 0)) = 0"
    by code_simp+
  then show ?thesis
    using michael_mic [of "replicate 30 0"]
    by (simp add: mic_pseudo_header_def Let_def)
qed

end
