(* ===== verification/Tkip.thy ===== *)
theory Tkip
  imports Rc4Frame
begin

text \<open>
  TKIP of core/rtw_security.c: the S-box, the two key-mixing phases (\<open>phase1\<close>, \<open>phase2\<close>),
  \<open>rtw_tkip_encrypt\<close> over every fragment of a transmit buffer and \<open>rtw_tkip_decrypt\<close> on a received
  frame. The comments of the code promise that \<open>{TA, IV32, IV16}\<close> is mapped injectively to the RC4
  key; that is a theorem here, besides the round trip of the two frame operations.
\<close>

section \<open>The S-box\<close>

definition Sbox1_0 :: "u16 list" where
  "Sbox1_0 = [
     0xc6a5, 0xf884, 0xee99, 0xf68d, 0xff0d, 0xd6bd, 0xdeb1, 0x9154, 0x6050, 0x0203, 0xcea9, 0x567d,
     0xe719, 0xb562, 0x4de6, 0xec9a, 0x8f45, 0x1f9d, 0x8940, 0xfa87, 0xef15, 0xb2eb, 0x8ec9, 0xfb0b,
     0x41ec, 0xb367, 0x5ffd, 0x45ea, 0x23bf, 0x53f7, 0xe496, 0x9b5b, 0x75c2, 0xe11c, 0x3dae, 0x4c6a,
     0x6c5a, 0x7e41, 0xf502, 0x834f, 0x685c, 0x51f4, 0xd134, 0xf908, 0xe293, 0xab73, 0x6253, 0x2a3f,
     0x080c, 0x9552, 0x4665, 0x9d5e, 0x3028, 0x37a1, 0x0a0f, 0x2fb5, 0x0e09, 0x2436, 0x1b9b, 0xdf3d,
     0xcd26, 0x4e69, 0x7fcd, 0xea9f, 0x121b, 0x1d9e, 0x5874, 0x342e, 0x362d, 0xdcb2, 0xb4ee, 0x5bfb,
     0xa4f6, 0x764d, 0xb761, 0x7dce, 0x527b, 0xdd3e, 0x5e71, 0x1397, 0xa6f5, 0xb968, 0x0000, 0xc12c,
     0x4060, 0xe31f, 0x79c8, 0xb6ed, 0xd4be, 0x8d46, 0x67d9, 0x724b, 0x94de, 0x98d4, 0xb0e8, 0x854a,
     0xbb6b, 0xc52a, 0x4fe5, 0xed16, 0x86c5, 0x9ad7, 0x6655, 0x1194, 0x8acf, 0xe910, 0x0406, 0xfe81,
     0xa0f0, 0x7844, 0x25ba, 0x4be3, 0xa2f3, 0x5dfe, 0x80c0, 0x058a, 0x3fad, 0x21bc, 0x7048, 0xf104,
     0x63df, 0x77c1, 0xaf75, 0x4263, 0x2030, 0xe51a, 0xfd0e, 0xbf6d, 0x814c, 0x1814, 0x2635, 0xc32f,
     0xbee1, 0x35a2, 0x88cc, 0x2e39, 0x9357, 0x55f2, 0xfc82, 0x7a47, 0xc8ac, 0xbae7, 0x322b, 0xe695,
     0xc0a0, 0x1998, 0x9ed1, 0xa37f, 0x4466, 0x547e, 0x3bab, 0x0b83, 0x8cca, 0xc729, 0x6bd3, 0x283c,
     0xa779, 0xbce2, 0x161d, 0xad76, 0xdb3b, 0x6456, 0x744e, 0x141e, 0x92db, 0x0c0a, 0x486c, 0xb8e4,
     0x9f5d, 0xbd6e, 0x43ef, 0xc4a6, 0x39a8, 0x31a4, 0xd337, 0xf28b, 0xd532, 0x8b43, 0x6e59, 0xdab7,
     0x018c, 0xb164, 0x9cd2, 0x49e0, 0xd8b4, 0xacfa, 0xf307, 0xcf25, 0xcaaf, 0xf48e, 0x47e9, 0x1018,
     0x6fd5, 0xf088, 0x4a6f, 0x5c72, 0x3824, 0x57f1, 0x73c7, 0x9751, 0xcb23, 0xa17c, 0xe89c, 0x3e21,
     0x96dd, 0x61dc, 0x0d86, 0x0f85, 0xe090, 0x7c42, 0x71c4, 0xccaa, 0x90d8, 0x0605, 0xf701, 0x1c12,
     0xc2a3, 0x6a5f, 0xaef9, 0x69d0, 0x1791, 0x9958, 0x3a27, 0x27b9, 0xd938, 0xeb13, 0x2bb3, 0x2233,
     0xd2bb, 0xa970, 0x0789, 0x33a7, 0x2db6, 0x3c22, 0x1592, 0xc920, 0x8749, 0xaaff, 0x5078, 0xa57a,
     0x038f, 0x59f8, 0x0980, 0x1a17, 0x65da, 0xd731, 0x84c6, 0xd0b8, 0x82c3, 0x29b0, 0x5a77, 0x1e11,
     0x7bcb, 0xa8fc, 0x6dd6, 0x2c3a]"

definition Sbox1_1 :: "u16 list" where
  "Sbox1_1 = [
     0xa5c6, 0x84f8, 0x99ee, 0x8df6, 0x0dff, 0xbdd6, 0xb1de, 0x5491, 0x5060, 0x0302, 0xa9ce, 0x7d56,
     0x19e7, 0x62b5, 0xe64d, 0x9aec, 0x458f, 0x9d1f, 0x4089, 0x87fa, 0x15ef, 0xebb2, 0xc98e, 0x0bfb,
     0xec41, 0x67b3, 0xfd5f, 0xea45, 0xbf23, 0xf753, 0x96e4, 0x5b9b, 0xc275, 0x1ce1, 0xae3d, 0x6a4c,
     0x5a6c, 0x417e, 0x02f5, 0x4f83, 0x5c68, 0xf451, 0x34d1, 0x08f9, 0x93e2, 0x73ab, 0x5362, 0x3f2a,
     0x0c08, 0x5295, 0x6546, 0x5e9d, 0x2830, 0xa137, 0x0f0a, 0xb52f, 0x090e, 0x3624, 0x9b1b, 0x3ddf,
     0x26cd, 0x694e, 0xcd7f, 0x9fea, 0x1b12, 0x9e1d, 0x7458, 0x2e34, 0x2d36, 0xb2dc, 0xeeb4, 0xfb5b,
     0xf6a4, 0x4d76, 0x61b7, 0xce7d, 0x7b52, 0x3edd, 0x715e, 0x9713, 0xf5a6, 0x68b9, 0x0000, 0x2cc1,
     0x6040, 0x1fe3, 0xc879, 0xedb6, 0xbed4, 0x468d, 0xd967, 0x4b72, 0xde94, 0xd498, 0xe8b0, 0x4a85,
     0x6bbb, 0x2ac5, 0xe54f, 0x16ed, 0xc586, 0xd79a, 0x5566, 0x9411, 0xcf8a, 0x10e9, 0x0604, 0x81fe,
     0xf0a0, 0x4478, 0xba25, 0xe34b, 0xf3a2, 0xfe5d, 0xc080, 0x8a05, 0xad3f, 0xbc21, 0x4870, 0x04f1,
     0xdf63, 0xc177, 0x75af, 0x6342, 0x3020, 0x1ae5, 0x0efd, 0x6dbf, 0x4c81, 0x1418, 0x3526, 0x2fc3,
     0xe1be, 0xa235, 0xcc88, 0x392e, 0x5793, 0xf255, 0x82fc, 0x477a, 0xacc8, 0xe7ba, 0x2b32, 0x95e6,
     0xa0c0, 0x9819, 0xd19e, 0x7fa3, 0x6644, 0x7e54, 0xab3b, 0x830b, 0xca8c, 0x29c7, 0xd36b, 0x3c28,
     0x79a7, 0xe2bc, 0x1d16, 0x76ad, 0x3bdb, 0x5664, 0x4e74, 0x1e14, 0xdb92, 0x0a0c, 0x6c48, 0xe4b8,
     0x5d9f, 0x6ebd, 0xef43, 0xa6c4, 0xa839, 0xa431, 0x37d3, 0x8bf2, 0x32d5, 0x438b, 0x596e, 0xb7da,
     0x8c01, 0x64b1, 0xd29c, 0xe049, 0xb4d8, 0xfaac, 0x07f3, 0x25cf, 0xafca, 0x8ef4, 0xe947, 0x1810,
     0xd56f, 0x88f0, 0x6f4a, 0x725c, 0x2438, 0xf157, 0xc773, 0x5197, 0x23cb, 0x7ca1, 0x9ce8, 0x213e,
     0xdd96, 0xdc61, 0x860d, 0x850f, 0x90e0, 0x427c, 0xc471, 0xaacc, 0xd890, 0x0506, 0x01f7, 0x121c,
     0xa3c2, 0x5f6a, 0xf9ae, 0xd069, 0x9117, 0x5899, 0x273a, 0xb927, 0x38d9, 0x13eb, 0xb32b, 0x3322,
     0xbbd2, 0x70a9, 0x8907, 0xa733, 0xb62d, 0x223c, 0x9215, 0x20c9, 0x4987, 0xffaa, 0x7850, 0x7aa5,
     0x8f03, 0xf859, 0x8009, 0x171a, 0xda65, 0x31d7, 0xc684, 0xb8d0, 0xc382, 0xb029, 0x775a, 0x111e,
     0xcb7b, 0xfca8, 0xd66d, 0x3a2c]"

section \<open>Key mixing\<close>

definition RotR1 :: "u16 \<Rightarrow> u16" where
  "RotR1 v16 = (drop_bit 1 v16 AND 0x7FFF) XOR push_bit 15 (v16 AND 1)"

definition Lo8 :: "u16 \<Rightarrow> u8" where "Lo8 v16 = ucast (v16 AND 0x00FF)"
definition Hi8 :: "u16 \<Rightarrow> u8" where "Hi8 v16 = ucast (drop_bit 8 v16 AND 0x00FF)"
definition Lo16 :: "u32 \<Rightarrow> u16" where "Lo16 v32 = ucast (v32 AND 0xFFFF)"
definition Hi16 :: "u32 \<Rightarrow> u16" where "Hi16 v32 = ucast (drop_bit 16 v32 AND 0xFFFF)"
definition Mk16 :: "u8 \<Rightarrow> u8 \<Rightarrow> u16" where "Mk16 hi lo = ucast lo XOR push_bit 8 (ucast hi)"

definition TK16 :: "bytes \<Rightarrow> nat \<Rightarrow> u16" where
  "TK16 tk N = Mk16 (tk ! (2 * N + 1)) (tk ! (2 * N))"

definition S_box :: "u16 \<Rightarrow> u16" where
  "S_box v16 = Sbox1_0 ! unat (Lo8 v16) XOR Sbox1_1 ! unat (Hi8 v16)"

type_synonym p1k = "u16 \<times> u16 \<times> u16 \<times> u16 \<times> u16"

definition phase1_round :: "bytes \<Rightarrow> nat \<Rightarrow> p1k \<Rightarrow> p1k" where
  "phase1_round tk i = (\<lambda>(p0, p1, p2, p3, p4).
     let b = i mod 2;
         p0 = p0 + S_box (p4 XOR TK16 tk (b + 0));
         p1 = p1 + S_box (p0 XOR TK16 tk (b + 2));
         p2 = p2 + S_box (p1 XOR TK16 tk (b + 4));
         p3 = p3 + S_box (p2 XOR TK16 tk (b + 6));
         p4 = p4 + S_box (p3 XOR TK16 tk (b + 0));
         p4 = p4 + word_of_nat i
     in (p0, p1, p2, p3, p4))"

definition phase1_init :: "bytes \<Rightarrow> u32 \<Rightarrow> p1k" where
  "phase1_init ta iv32 =
     (Lo16 iv32, Hi16 iv32, Mk16 (ta ! 1) (ta ! 0), Mk16 (ta ! 3) (ta ! 2), Mk16 (ta ! 5) (ta ! 4))"

definition phase1 :: "bytes \<Rightarrow> bytes \<Rightarrow> u32 \<Rightarrow> p1k" where
  "phase1 tk ta iv32 = fold (phase1_round tk) [0..<8] (phase1_init ta iv32)"

text \<open>The mixing of \<open>PPK[0..5]\<close> in \<open>phase2\<close>.\<close>

definition phase2_mix :: "bytes \<Rightarrow> p1k \<Rightarrow> u16 \<Rightarrow> u16 \<times> u16 \<times> u16 \<times> u16 \<times> u16 \<times> u16" where
  "phase2_mix tk = (\<lambda>(k0, k1, k2, k3, k4) iv16.
     let k5 = k4 + iv16;
         k0 = k0 + S_box (k5 XOR TK16 tk 0);
         k1 = k1 + S_box (k0 XOR TK16 tk 1);
         k2 = k2 + S_box (k1 XOR TK16 tk 2);
         k3 = k3 + S_box (k2 XOR TK16 tk 3);
         k4 = k4 + S_box (k3 XOR TK16 tk 4);
         k5 = k5 + S_box (k4 XOR TK16 tk 5);
         k0 = k0 + RotR1 (k5 XOR TK16 tk 6);
         k1 = k1 + RotR1 (k0 XOR TK16 tk 7);
         k2 = k2 + RotR1 k1;
         k3 = k3 + RotR1 k2;
         k4 = k4 + RotR1 k3;
         k5 = k5 + RotR1 k4
     in (k0, k1, k2, k3, k4, k5))"

definition phase2 :: "bytes \<Rightarrow> p1k \<Rightarrow> u16 \<Rightarrow> bytes" where
  "phase2 tk p1k iv16 =
     (let (k0, k1, k2, k3, k4, k5) = phase2_mix tk p1k iv16
      in [Hi8 iv16, (Hi8 iv16 OR 0x20) AND 0x7F, Lo8 iv16, Lo8 (drop_bit 1 (k5 XOR TK16 tk 0)),
          Lo8 k0, Hi8 k0, Lo8 k1, Hi8 k1, Lo8 k2, Hi8 k2, Lo8 k3, Hi8 k3, Lo8 k4, Hi8 k4,
          Lo8 k5, Hi8 k5])"

text \<open>\<open>GET_TKIP_PN\<close> and the split of the packet number: \<open>pnl\<close> and \<open>pnh\<close> from the eight IV bytes.\<close>

definition GET_TKIP_PN :: "bytes \<Rightarrow> u64" where
  "GET_TKIP_PN iv =
     ucast (iv ! 2) OR push_bit 8 (ucast (iv ! 0)) OR push_bit 16 (ucast (iv ! 4))
     OR push_bit 24 (ucast (iv ! 5)) OR push_bit 32 (ucast (iv ! 6)) OR push_bit 40 (ucast (iv ! 7))"

definition tkip_rc4key :: "bytes \<Rightarrow> bytes \<Rightarrow> bytes \<Rightarrow> bytes" where
  "tkip_rc4key prwskey ta iv =
     (let pn = GET_TKIP_PN iv; pnl = ucast pn :: u16; pnh = ucast (drop_bit 16 pn) :: u32
      in phase2 prwskey (phase1 prwskey ta pnh) pnl)"

section \<open>The frame operations\<close>

definition tkip_tx_key :: "security_priv \<Rightarrow> pkt_attrib \<Rightarrow> bytes option" where
  "tkip_tx_key sec pa =
     (if IS_MCAST (pa_ra pa) then rd (dot118021XGrpKey sec) (unat (dot118021XGrpKeyid sec))
      else Some (pa_UncstKey pa))"

definition tkip_encrypt_frag ::
  "security_priv \<Rightarrow> pkt_attrib \<Rightarrow> nat \<Rightarrow> u32 \<Rightarrow> crc_globals \<times> bytes \<Rightarrow> (crc_globals \<times> bytes) option" where
  "tkip_encrypt_frag sec pa pframe txlen = (\<lambda>(g, buf). do {
     prwskey \<leftarrow> tkip_tx_key sec pa;
     iv \<leftarrow> get_sub buf (pframe + unat (pa_hdrlen pa)) 8;
     rc4_icv_protect (arcfour_init (tkip_rc4key prwskey (pa_ta pa) iv) 16)
       (pframe + unat (pa_iv_len pa) + unat (pa_hdrlen pa)) (tx_payload_len pa txlen) (g, buf) })"

definition rtw_tkip_encrypt :: "adapter \<Rightarrow> xmit_frame \<Rightarrow> (rtw_res \<times> adapter \<times> xmit_frame) option" where
  "rtw_tkip_encrypt ad xf = (case xf_buf xf of
     None \<Rightarrow> Some (RTW_FAIL, ad, xf)
   | Some buf \<Rightarrow>
       (let pa = xf_attrib xf in
        if pa_encrypt pa = ENC_TKIP then do {
          (g, buf) \<leftarrow> frag_loop (tkip_encrypt_frag (ad_sec ad) pa) (xf_base xf) (ad_frag_len ad)
             (pa_last_txcmdsz pa) (unat (pa_nr_frags pa)) TXDESC_OFFSET (ad_crc ad, buf);
          let sec = ad_sec ad;
          let sec = sec\<lparr>tkip_sw_enc_cnt := sw_cnt_inc (pa_ra pa) (tkip_sw_enc_cnt sec)\<rparr>;
          Some (RTW_SUCCESS, ad\<lparr>ad_crc := g, ad_sec := sec\<rparr>, xf\<lparr>xf_buf := Some buf\<rparr>) }
        else Some (RTW_SUCCESS, ad, xf)))"

text \<open>The key \<open>rtw_tkip_decrypt\<close> selects: \<open>Some None\<close> is its early \<open>_FAIL\<close> (no group key installed).\<close>

definition tkip_rx_key :: "security_priv \<Rightarrow> rx_pkt_attrib \<Rightarrow> sta_info \<Rightarrow> bytes option option" where
  "tkip_rx_key sec ra stainfo =
     (if IS_MCAST (ra_ra ra) then
        (if \<not> binstallGrpkey sec then Some None
         else do { k \<leftarrow> rd (dot118021XGrpKey sec) (unat (ra_key_index ra)); Some (Some k) })
      else Some (Some (si_UncstKey stainfo)))"

definition rtw_tkip_decrypt :: "adapter \<Rightarrow> recv_frame \<Rightarrow> (rtw_res \<times> adapter \<times> recv_frame) option" where
  "rtw_tkip_decrypt ad rf =
     (let ra = rf_attrib rf; sec = ad_sec ad; pframe = rx_data rf in
      if ra_encrypt ra = ENC_TKIP then
        (case rtw_get_stainfo (ad_sta_hash ad) (ra_ta ra) of
           None \<Rightarrow> Some (RTW_FAIL, ad, rf)
         | Some stainfo \<Rightarrow> do {
             key \<leftarrow> tkip_rx_key sec ra stainfo;
             case key of
               None \<Rightarrow> Some (RTW_FAIL, ad, rf)
             | Some prwskey \<Rightarrow> do {
                 let payload = unat (ra_iv_len ra) + unat (ra_hdrlen ra);
                 let len = rx_payload_len rf;
                 iv \<leftarrow> get_sub pframe (unat (ra_hdrlen ra)) 8;
                 (p, pframe) \<leftarrow> rc4_unprotect (arcfour_init (tkip_rc4key prwskey (ra_ta ra) iv) 16)
                   payload len pframe;
                 let (c, g) = getcrc32 (ad_crc ad) (take (nat (len - 4)) p);
                 icv \<leftarrow> (if payload + nat len < 4 then None else get_sub pframe (payload + nat len - 4) 4);
                 let res = (if icv \<noteq> le32_bytes c then RTW_FAIL else RTW_SUCCESS);
                 let sec = sec\<lparr>tkip_sw_dec_cnt := sw_cnt_inc (ra_ra ra) (tkip_sw_dec_cnt sec)\<rparr>;
                 Some (res, ad\<lparr>ad_crc := g, ad_sec := sec\<rparr>, rf\<lparr>rx_data := pframe\<rparr>) } })
      else Some (RTW_SUCCESS, ad, rf))"

section \<open>Key mixing is injective\<close>

lemma Mk16_inj: "Mk16 a b = Mk16 c d \<longleftrightarrow> a = c \<and> b = d"
proof
  assume eq: "Mk16 a b = Mk16 c d"
  have "bit a n = bit c n \<and> bit b n = bit d n" if "n < 8" for n
    using that arg_cong [OF eq, of "\<lambda>w. bit w n"] arg_cong [OF eq, of "\<lambda>w. bit w (n + 8)"]
    by (simp add: Mk16_def bit_simps)
  then show "a = c \<and> b = d" by (auto intro!: bit_word_eqI)
qed simp

lemma Lo8_Hi8_inj: "Lo8 v = Lo8 w \<Longrightarrow> Hi8 v = Hi8 w \<Longrightarrow> v = w"
proof (rule bit_word_eqI)
  fix n assume eq: "Lo8 v = Lo8 w" "Hi8 v = Hi8 w" and n: "n < LENGTH(16)"
  have "n - 8 < 8" using n by simp
  then show "bit v n = bit w n"
    using n arg_cong [OF eq(1), of "\<lambda>w. bit w n"] arg_cong [OF eq(2), of "\<lambda>w. bit w (n - 8)"]
    by (cases "n < 8") (simp_all add: Lo8_def Hi8_def bit_simps ff_mask)
qed

lemma Lo16_Hi16_inj: "Lo16 v = Lo16 w \<Longrightarrow> Hi16 v = Hi16 w \<Longrightarrow> v = w"
proof (rule bit_word_eqI)
  have m: "(0xFFFF::u32) = mask 16" by (simp add: mask_eq_exp_minus_1)
  fix n assume eq: "Lo16 v = Lo16 w" "Hi16 v = Hi16 w" and n: "n < LENGTH(32)"
  have "n - 16 < 16" using n by simp
  then show "bit v n = bit w n"
    using n arg_cong [OF eq(1), of "\<lambda>w. bit w n"] arg_cong [OF eq(2), of "\<lambda>w. bit w (n - 16)"]
    by (cases "n < 16") (simp_all add: Lo16_def Hi16_def bit_simps m)
qed

lemma phase1_round_inj: "phase1_round tk i p = phase1_round tk i q \<Longrightarrow> p = q"
  by (cases p; cases q; clarsimp simp: phase1_round_def Let_def)

lemma phase1_rounds_inj: "fold (phase1_round tk) is p = fold (phase1_round tk) is q \<Longrightarrow> p = q"
proof (induction "is" arbitrary: p q)
  case (Cons i "is")
  from Cons.IH [OF Cons.prems [simplified]] show ?case by (rule phase1_round_inj)
qed simp

lemma list_6: "length a = 6 \<Longrightarrow> a = [a ! 0, a ! 1, a ! 2, a ! 3, a ! 4, a ! 5]"
  by (simp add: list_eq_iff_nth_eq less_Suc_eq numeral_eq_Suc)

lemma phase1_init_inj:
  assumes "phase1_init ta iv = phase1_init ta' iv'" "length ta = 6" "length ta' = 6"
  shows "ta = ta' \<and> iv = iv'"
  using assms(1) list_6 [OF assms(2)] list_6 [OF assms(3)] Lo16_Hi16_inj [of iv iv']
  by (simp add: phase1_init_def Mk16_inj)

lemma phase1_inj:
  assumes "phase1 tk ta iv = phase1 tk ta' iv'" "length ta = 6" "length ta' = 6"
  shows "ta = ta' \<and> iv = iv'"
  using assms phase1_init_inj phase1_rounds_inj unfolding phase1_def by blast

lemma phase2_mix_inj: "phase2_mix tk p iv = phase2_mix tk q jv \<Longrightarrow> p = q \<and> iv = jv"
  by (cases p; cases q; clarsimp simp: phase2_mix_def Let_def)

lemma phase2_inj: "phase2 tk p iv = phase2 tk q jv \<Longrightarrow> p = q \<and> iv = jv"
  by (rule phase2_mix_inj [of tk])
    (auto simp: phase2_def Let_def split: prod.splits dest!: Lo8_Hi8_inj)

section \<open>The fragments of a TKIP frame\<close>

definition tkip_iv :: "pkt_attrib \<Rightarrow> bytes \<Rightarrow> bytes" where
  "tkip_iv pa f = take 8 (drop (unat (pa_hdrlen pa)) f)"

text \<open>The generator for a fragment, from the key in use and the IV the fragment carries.\<close>

definition tkip_ctx :: "bytes \<Rightarrow> bytes \<Rightarrow> bytes \<Rightarrow> arc4context" where
  "tkip_ctx prwskey ta iv = arcfour_init (tkip_rc4key prwskey ta iv) 16"

abbreviation tkip_pa_ctx :: "security_priv \<Rightarrow> pkt_attrib \<Rightarrow> bytes \<Rightarrow> arc4context" where
  "tkip_pa_ctx sec pa f \<equiv> tkip_ctx (the (tkip_tx_key sec pa)) (pa_ta pa) (tkip_iv pa f)"

definition tkip_room :: "security_priv \<Rightarrow> pkt_attrib \<Rightarrow> u32 \<Rightarrow> bool" where
  "tkip_room sec pa len \<longleftrightarrow> icv_room pa len \<and> pa_iv_len pa = 8 \<and> tkip_tx_key sec pa \<noteq> None"

lemma tkip_encrypt_frag_eq:
  assumes "tkip_room sec pa len" "off + unat (pa_hdrlen pa) + 8 \<le> length b"
  shows "tkip_encrypt_frag sec pa off len (g, b) =
    rc4_icv_protect (tkip_pa_ctx sec pa (take (head_len pa) (drop off b))) (off + head_len pa)
      (tx_payload_len pa len) (g, b)"
proof -
  have iv8: "unat (pa_iv_len pa) = 8" using assms(1) by (simp add: tkip_room_def)
  have "take 8 (drop (off + unat (pa_hdrlen pa)) b) = tkip_iv pa (take (head_len pa) (drop off b))"
    using iv8 by (simp add: tkip_iv_def drop_take add.commute)
  with assms show ?thesis
    by (auto simp: tkip_encrypt_frag_def tkip_ctx_def get_sub_def tkip_room_def add.assoc)
qed

lemma tkip_encrypt_frag_room:
  "tkip_encrypt_frag sec pa off len (g, b) = Some r \<Longrightarrow> off + unat (pa_hdrlen pa) + 8 \<le> length b"
  by (auto simp: tkip_encrypt_frag_def buf_simps split: Option.bind_splits)

interpretation tkip: frag_op "tkip_encrypt_frag sec pa" crc_ok "tkip_room sec pa"
  "\<lambda>_. True" "rc4_frag_rel (tkip_pa_ctx sec pa) pa" for sec pa
proof
  fix off len g g' and b b' :: bytes
  assume a: "tkip_encrypt_frag sec pa off len (g, b) = Some (g', b')" "crc_ok g" "tkip_room sec pa len"
  show "crc_ok g' \<and> off + unat len \<le> length b \<and> length b' = length b
    \<and> take off b' = take off b \<and> drop (off + unat len) b' = drop (off + unat len) b
    \<and> rc4_frag_rel (tkip_pa_ctx sec pa) pa (frag_bytes off len b) (frag_bytes off len b')"
  proof (rule rc4_protect_frag)
    show "rc4_icv_protect (tkip_pa_ctx sec pa (take (head_len pa) (drop off b))) (off + head_len pa)
       (tx_payload_len pa len) (g, b) = Some (g', b')"
      using a tkip_encrypt_frag_eq tkip_encrypt_frag_room [OF a(1)] by metis
  qed (use a in \<open>simp_all add: tkip_room_def\<close>)
next
  fix g off len and b :: bytes
  assume a: "crc_ok g" "tkip_room sec pa len" "off + unat len \<le> length b"
  then have "off + unat (pa_hdrlen pa) + 8 \<le> length b" by (auto simp: icv_room_def tkip_room_def)
  moreover have "icv_room pa len" using a by (simp add: tkip_room_def)
  ultimately show "\<exists>g' b'. tkip_encrypt_frag sec pa off len (g, b) = Some (g', b')"
    using rc4_protect_total [of g pa len off b] tkip_encrypt_frag_eq a by metis
qed

section \<open>Reception\<close>

lemma tkip_decrypt_sealed:
  fixes rf :: recv_frame and ad :: adapter
  defines "ra \<equiv> rf_attrib rf"
  assumes "ra_encrypt ra = ENC_TKIP" "crc_ok (ad_crc ad)"
    and sta: "rtw_get_stainfo (ad_sta_hash ad) (ra_ta ra) = Some sta"
    and key: "tkip_rx_key (ad_sec ad) ra sta = Some (Some k)"
    and h: "length h = unat (ra_iv_len ra) + unat (ra_hdrlen ra)" "ra_iv_len ra = 8"
    and data: "rx_data rf = h @ icv_sealed (tkip_ctx k (ra_ta ra) (take 8 (drop (unat (ra_hdrlen ra)) h))) p"
    and len: "unat (rf_len rf) = length h + (length p + 4)" "unat (rf_len rf) < 2 ^ 31"
  shows "\<exists>ad' rf'. rtw_tkip_decrypt ad rf = Some (RTW_SUCCESS, ad', rf') \<and>
    rx_data rf' = h @ p @ le32_bytes (crc32_ref p)"
proof -
  let ?hl = "unat (ra_hdrlen ra)" and ?iv = "take 8 (drop (unat (ra_hdrlen ra)) h)"
  have g: "get_sub (rx_data rf) ?hl 8 = Some ?iv"
    using h by (simp add: data get_sub_def)
  have l: "rx_payload_len rf = int (length p + 4)"
    using rx_payload_room [of rf] len h by (simp add: ra_def)
  have n: "nat (rx_payload_len rf) = length p + 4" "nat (rx_payload_len rf - 4) = length p"
    by (simp_all add: l)
  have un: "rc4_unprotect (arcfour_init (tkip_rc4key k (ra_ta ra) ?iv) 16)
      (unat (ra_iv_len ra) + ?hl) (rx_payload_len rf) (rx_data rf)
    = Some (p @ le32_bytes (crc32_ref p), h @ p @ le32_bytes (crc32_ref p))"
    unfolding l data h(1) [symmetric] tkip_ctx_def [symmetric] by (rule rc4_unprotect_sealed)
  have icv: "get_sub (h @ p @ le32_bytes (crc32_ref p))
      (unat (ra_iv_len ra) + ?hl + nat (rx_payload_len rf) - 4) 4 = Some (le32_bytes (crc32_ref p))"
    unfolding n h(1) [symmetric] by (simp add: get_sub_def)
  have ge: "\<not> unat (ra_iv_len ra) + ?hl + nat (rx_payload_len rf) < 4" by (simp add: n)
  have c: "fst (getcrc32 (ad_crc ad) (take (nat (rx_payload_len rf - 4)) (p @ le32_bytes (crc32_ref p))))
      = crc32_ref p"
    using assms(3) by (simp add: n getcrc32_ref)
  show ?thesis
    using assms(2) sta key g un icv ge c
    by (simp add: rtw_tkip_decrypt_def ra_def Let_def split_beta)
qed

section \<open>Round trip\<close>

text \<open>A receiver that finds, under the transmitter's address, the transmitter's key; and a received
  frame whose attributes describe the transmitted fragment.\<close>

definition tkip_peer :: "adapter \<Rightarrow> pkt_attrib \<Rightarrow> adapter \<Rightarrow> recv_frame \<Rightarrow> bool" where
  "tkip_peer ad pa rx rf \<longleftrightarrow>
     (let ra = rf_attrib rf in
      ra_encrypt ra = pa_encrypt pa
      \<and> unat (ra_hdrlen ra) = unat (pa_hdrlen pa) \<and> ra_iv_len ra = pa_iv_len pa
      \<and> ra_ta ra = pa_ta pa
      \<and> (case rtw_get_stainfo (ad_sta_hash rx) (ra_ta ra) of None \<Rightarrow> False
         | Some sta \<Rightarrow> tkip_rx_key (ad_sec rx) ra sta = Some (tkip_tx_key (ad_sec ad) pa))
      \<and> crc_ok (ad_crc rx)
      \<and> unat (rf_len rf) = length (rx_data rf))"

definition tkip_tx_ok :: "adapter \<Rightarrow> xmit_frame \<Rightarrow> bytes \<Rightarrow> bool" where
  "tkip_tx_ok ad xf buf \<longleftrightarrow>
     (let pa = xf_attrib xf in
      xf_buf xf = Some buf \<and> pa_encrypt pa = ENC_TKIP \<and> crc_ok (ad_crc ad)
      \<and> tkip_room (ad_sec ad) pa (ad_frag_len ad) \<and> tkip_room (ad_sec ad) pa (pa_last_txcmdsz pa)
      \<and> tx_room ad xf buf)"

lemma rtw_tkip_encrypt_frags:
  assumes "tkip_tx_ok ad xf buf"
  shows "\<exists>ad' xf' buf'. rtw_tkip_encrypt ad xf = Some (RTW_SUCCESS, ad', xf') \<and> xf_buf xf' = Some buf'
    \<and> length buf' = length buf
    \<and> (\<forall>k < unat (pa_nr_frags (xf_attrib xf)).
         rc4_frag_rel (tkip_pa_ctx (ad_sec ad) (xf_attrib xf)) (xf_attrib xf)
           (tx_frag ad xf k buf) (tx_frag ad xf k buf'))"
  using assms tkip.tx_frags_rel [of "ad_crc ad" "ad_sec ad" "xf_attrib xf" ad xf buf]
  by (fastforce simp: tkip_tx_ok_def rtw_tkip_encrypt_def Let_def)

lemma tkip_frag_received:
  assumes ok: "tkip_tx_ok ad xf buf" and k: "k < unat (pa_nr_frags (xf_attrib xf))"
    and rel: "rc4_frag_rel (tkip_pa_ctx (ad_sec ad) (xf_attrib xf)) (xf_attrib xf) (tx_frag ad xf k buf) c"
    and peer: "tkip_peer ad (xf_attrib xf) rx rf" and data: "rx_data rf = c"
  shows "\<exists>rx' rf'. rtw_tkip_decrypt rx rf = Some (RTW_SUCCESS, rx', rf') \<and>
    (let f = tx_frag ad xf k buf; h = head_len (xf_attrib xf); p = take (length f - h - 4) (drop h f)
     in rx_data rf' = take h f @ p @ le32_bytes (crc32_ref p))"
proof -
  let ?pa = "xf_attrib xf" and ?f = "tx_frag ad xf k buf" and ?ra = "rf_attrib rf"
  let ?h = "head_len ?pa"
  let ?p = "take (length ?f - ?h - 4) (drop ?h ?f)"
  have room: "tkip_room (ad_sec ad) ?pa (tx_len ad xf k)"
    using ok tx_len_cases [of ad xf k] by (auto simp: tkip_tx_ok_def Let_def)
  then have ir: "icv_room ?pa (tx_len ad xf k)" and iv8: "pa_iv_len ?pa = 8"
    by (simp_all add: tkip_room_def)
  from room obtain key where key: "tkip_tx_key (ad_sec ad) ?pa = Some key"
    by (auto simp: tkip_room_def)
  from peer obtain sta where sta: "rtw_get_stainfo (ad_sta_hash rx) (ra_ta ?ra) = Some sta"
    "tkip_rx_key (ad_sec rx) ?ra sta = Some (Some key)"
    using key by (auto simp: tkip_peer_def Let_def split: option.splits)
  have p: "ra_encrypt ?ra = pa_encrypt ?pa" "unat (ra_hdrlen ?ra) = unat (pa_hdrlen ?pa)"
    "ra_iv_len ?ra = pa_iv_len ?pa" "ra_ta ?ra = pa_ta ?pa" "crc_ok (ad_crc rx)"
    "unat (rf_len rf) = length (rx_data rf)"
    using peer by (simp_all add: tkip_peer_def Let_def)
  have lf: "length ?f = unat (tx_len ad xf k)"
    using ok k by (intro tx_frag_length) (simp_all add: tkip_tx_ok_def Let_def)
  have h: "length (take ?h ?f) = unat (ra_iv_len ?ra) + unat (ra_hdrlen ?ra)"
    using ir lf p by (simp add: icv_room_def)
  have d: "rx_data rf = take ?h ?f @ icv_sealed (tkip_ctx key (ra_ta ?ra)
       (take 8 (drop (unat (ra_hdrlen ?ra)) (take ?h ?f)))) ?p"
    using rel data p key unfolding rc4_frag_rel_def by (simp add: tkip_iv_def)
  have len: "unat (rf_len rf) = length (take ?h ?f) + (length ?p + 4)"
    using p d by simp
  also have "\<dots> = unat (tx_len ad xf k)"
    using lf ir by (simp add: icv_room_def)
  finally have lt: "unat (rf_len rf) < 2 ^ 31" using ir by (simp add: icv_room_def)
  have enc: "ra_encrypt ?ra = ENC_TKIP"
    using ok p by (simp add: tkip_tx_ok_def Let_def)
  show ?thesis
    using tkip_decrypt_sealed [OF enc p(5) sta h _ d len lt] p(3) iv8 by (simp add: Let_def)
qed

section \<open>Properties\<close>

text \<open>C30: under one temporal key, two packets with different transmitter address or
  different 48-bit packet number (\<open>IV32\<close>, \<open>IV16\<close>) never get the same RC4 key, as the comments of
  \<open>phase1\<close> and \<open>phase2\<close> promise.\<close>

theorem tkip_key_unique:
  assumes "length ta = 6" "length ta' = 6" "(ta, iv32, iv16) \<noteq> (ta', iv32', iv16')"
  shows "phase2 tk (phase1 tk ta iv32) iv16 \<noteq> phase2 tk (phase1 tk ta' iv32') iv16'"
  using assms phase2_inj phase1_inj by blast

lemma tkip_key_unique_witness:
  "phase2 (replicate 16 0) (phase1 (replicate 16 0) [0,1,2,3,4,5] 7) 8
   \<noteq> phase2 (replicate 16 0) (phase1 (replicate 16 0) [0,1,2,3,4,5] 8) 7"
  by (rule tkip_key_unique) simp_all

text \<open>C5: \<open>rtw_tkip_encrypt\<close> succeeds on every buffer with room for its fragments, and a
  receiver that finds the same key (pairwise, through its station table, or group) accepts with
  \<open>rtw_tkip_decrypt\<close> each fragment put on the air: the ICV check passes and the payload is restored.\<close>

theorem tkip_roundtrip:
  assumes "tkip_tx_ok ad xf buf"
  shows "\<exists>ad' xf' buf'. rtw_tkip_encrypt ad xf = Some (RTW_SUCCESS, ad', xf') \<and> xf_buf xf' = Some buf' \<and>
    length buf' = length buf \<and>
    (\<forall>k < unat (pa_nr_frags (xf_attrib xf)). \<forall>rx rf.
       tkip_peer ad (xf_attrib xf) rx rf \<longrightarrow> rx_data rf = tx_frag ad xf k buf' \<longrightarrow>
       (\<exists>rx' rf'. rtw_tkip_decrypt rx rf = Some (RTW_SUCCESS, rx', rf') \<and>
         (let f = tx_frag ad xf k buf; h = head_len (xf_attrib xf); p = take (length f - h - 4) (drop h f)
          in rx_data rf' = take h f @ p @ le32_bytes (crc32_ref p))))"
  using rtw_tkip_encrypt_frags [OF assms] tkip_frag_received [OF assms] by blast

definition tkip_demo_ad :: adapter where
  "tkip_demo_ad = \<lparr>ad_sec = \<lparr>dot11PrivacyKeyIndex = 0, dot11DefKey = [], dot11DefKeylen = [],
     dot118021XGrpKeyid = 1, dot118021XGrpKey = replicate 4 (replicate 16 0x41), binstallGrpkey = True,
     wep_sw_enc_cnt = \<lparr>cnt_bc = 0, cnt_mc = 0, cnt_uc = 0\<rparr>, wep_sw_dec_cnt = \<lparr>cnt_bc = 0, cnt_mc = 0, cnt_uc = 0\<rparr>,
     tkip_sw_enc_cnt = \<lparr>cnt_bc = 0, cnt_mc = 0, cnt_uc = 0\<rparr>, tkip_sw_dec_cnt = \<lparr>cnt_bc = 0, cnt_mc = 0, cnt_uc = 0\<rparr>,
     aes_sw_enc_cnt = \<lparr>cnt_bc = 0, cnt_mc = 0, cnt_uc = 0\<rparr>, aes_sw_dec_cnt = \<lparr>cnt_bc = 0, cnt_mc = 0, cnt_uc = 0\<rparr>\<rparr>,
     ad_frag_len = 46, ad_crc = crc_globals0,
     ad_sta_hash = sta_hash_insert \<lparr>si_mac_addr = [2, 0, 0, 0, 0, 1], si_UncstKey = []\<rparr> (replicate 32 []),
     ad_message = []\<rparr>"

definition tkip_demo_xf :: "bytes \<Rightarrow> xmit_frame" where
  "tkip_demo_xf buf = \<lparr>xf_attrib = \<lparr>pa_encrypt = ENC_TKIP, pa_hdrlen = 24, pa_iv_len = 8, pa_icv_len = 4,
     pa_nr_frags = 2, pa_last_txcmdsz = 40, pa_ta = [2, 0, 0, 0, 0, 1], pa_ra = replicate 6 0xff,
     pa_UncstKey = []\<rparr>, xf_base = 0, xf_buf = Some buf\<rparr>"

definition tkip_demo_rf :: "bytes \<Rightarrow> recv_frame" where
  "tkip_demo_rf data = \<lparr>rf_attrib = \<lparr>ra_encrypt = ENC_TKIP, ra_hdrlen = 24, ra_iv_len = 8, ra_key_index = 1,
     ra_ta = [2, 0, 0, 0, 0, 1], ra_ra = replicate 6 0xff\<rparr>, rf_len = 46, rx_data = data\<rparr>"

lemma tkip_demo_station:
  "rtw_get_stainfo (ad_sta_hash tkip_demo_ad) [2, 0, 0, 0, 0, 1]
     = Some \<lparr>si_mac_addr = [2, 0, 0, 0, 0, 1], si_UncstKey = []\<rparr>"
proof -
  have "sta_hash_ok (replicate 32 [])" by (simp add: sta_hash_ok_def NUM_STA_def)
  moreover have "rtw_get_stainfo (replicate 32 []) [2, 0, 0, 0, 0, 1] = None"
    using wifi_mac_hash_bound [of "sta_key_addr [2, 0, 0, 0, 0, 1]"]
    by (simp add: rtw_get_stainfo_def Let_def NUM_STA_def)
  ultimately show ?thesis
    unfolding tkip_demo_ad_def by (simp add: sta_hash.get_insert_same sta_key_addr_def IS_MCAST_def)
qed

lemma tkip_roundtrip_witness:
  "\<exists>ad' xf' buf' rx' rf'. rtw_tkip_encrypt tkip_demo_ad (tkip_demo_xf (replicate 130 7)) = Some (RTW_SUCCESS, ad', xf')
    \<and> xf_buf xf' = Some buf'
    \<and> rtw_tkip_decrypt tkip_demo_ad
        (tkip_demo_rf (tx_frag tkip_demo_ad (tkip_demo_xf (replicate 130 7)) 0 buf')) = Some (RTW_SUCCESS, rx', rf')
    \<and> rx_data rf' = replicate 42 7 @ le32_bytes (crc32_ref (replicate 10 7))"
proof -
  let ?xf = "tkip_demo_xf (replicate 130 7)"
  note d = tkip_demo_ad_def tkip_demo_xf_def ENC_TKIP_def tx_off_def tx_len_def frag_len_of_def TXDESC_OFFSET_def
  have ok: "tkip_tx_ok tkip_demo_ad ?xf (replicate 130 7)"
    by (simp add: d tkip_tx_ok_def crc_ok_globals0 tkip_room_def tkip_tx_key_def rd_def icv_room_def tx_room_def
        RND4_def upt_2)
  obtain ad' xf' buf' where enc: "rtw_tkip_encrypt tkip_demo_ad ?xf = Some (RTW_SUCCESS, ad', xf')"
    "xf_buf xf' = Some buf'" "length buf' = 130" and
    dec: "\<forall>k < unat (pa_nr_frags (xf_attrib ?xf)). \<forall>rx rf.
       tkip_peer tkip_demo_ad (xf_attrib ?xf) rx rf \<longrightarrow> rx_data rf = tx_frag tkip_demo_ad ?xf k buf' \<longrightarrow>
       (\<exists>rx' rf'. rtw_tkip_decrypt rx rf = Some (RTW_SUCCESS, rx', rf') \<and>
         (let f = tx_frag tkip_demo_ad ?xf k (replicate 130 7); h = head_len (xf_attrib ?xf);
              p = take (length f - h - 4) (drop h f)
          in rx_data rf' = take h f @ p @ le32_bytes (crc32_ref p)))"
    using tkip_roundtrip [OF ok] by auto
  let ?c = "tx_frag tkip_demo_ad ?xf 0 buf'"
  have "length ?c = 46" using enc(3) by (simp add: d tx_frag_def frag_bytes_def)
  then have "tkip_peer tkip_demo_ad (xf_attrib ?xf) tkip_demo_ad (tkip_demo_rf ?c)"
    using tkip_demo_station
    by (simp add: tkip_peer_def tkip_demo_rf_def tkip_rx_key_def tkip_tx_key_def rd_def d crc_ok_globals0
        IS_MCAST_def del: replicate.simps)
  moreover have "rx_data (tkip_demo_rf ?c) = ?c" by (simp add: tkip_demo_rf_def)
  moreover have "tx_frag tkip_demo_ad ?xf 0 (replicate 130 7) = replicate 46 7"
    by (simp add: d tx_frag_def frag_bytes_def)
  moreover have "head_len (xf_attrib ?xf) = 32" "0 < unat (pa_nr_frags (xf_attrib ?xf))"
    by (simp_all add: d)
  moreover have "replicate 32 (7::u8) @ replicate 10 7 = replicate 42 7"
    by (simp add: replicate_add [symmetric])
  ultimately show ?thesis
    using enc dec [rule_format, of 0 tkip_demo_ad "tkip_demo_rf ?c"] by (fastforce simp: Let_def)
qed

text \<open>The second half of the S-box table is the byte-swapped first half, as its comment says.\<close>

definition swap16 :: "u16 \<Rightarrow> u16" where
  "swap16 v = push_bit 8 v OR drop_bit 8 v"

lemma Sbox1_swapped: "Sbox1_1 = map swap16 Sbox1_0"
  by (simp add: Sbox1_0_def Sbox1_1_def swap16_def)

end
