(* ===== verification/Aes.thy ===== *)
theory Aes
  imports Prelude
begin

text \<open>
  The byte-oriented AES-128 of core/rtw_security.c (\<open>aes128k128d\<close> and its helpers), the block cipher of
  the software CCMP. Arrays of 16 and 4 bytes are lists; a pointer into an array is a \<open>drop\<close>. The
  lemmas reduce \<open>mix_column\<close>, written in the code with masks, carries and rotations of a four-byte
  array, to the multiplication by 2 and 3 in GF(256).
\<close>

section \<open>The code\<close>

definition sbox_table :: bytes where
  "sbox_table = [
     0x63, 0x7c, 0x77, 0x7b, 0xf2, 0x6b, 0x6f, 0xc5, 0x30, 0x01, 0x67, 0x2b, 0xfe, 0xd7, 0xab, 0x76,
     0xca, 0x82, 0xc9, 0x7d, 0xfa, 0x59, 0x47, 0xf0, 0xad, 0xd4, 0xa2, 0xaf, 0x9c, 0xa4, 0x72, 0xc0,
     0xb7, 0xfd, 0x93, 0x26, 0x36, 0x3f, 0xf7, 0xcc, 0x34, 0xa5, 0xe5, 0xf1, 0x71, 0xd8, 0x31, 0x15,
     0x04, 0xc7, 0x23, 0xc3, 0x18, 0x96, 0x05, 0x9a, 0x07, 0x12, 0x80, 0xe2, 0xeb, 0x27, 0xb2, 0x75,
     0x09, 0x83, 0x2c, 0x1a, 0x1b, 0x6e, 0x5a, 0xa0, 0x52, 0x3b, 0xd6, 0xb3, 0x29, 0xe3, 0x2f, 0x84,
     0x53, 0xd1, 0x00, 0xed, 0x20, 0xfc, 0xb1, 0x5b, 0x6a, 0xcb, 0xbe, 0x39, 0x4a, 0x4c, 0x58, 0xcf,
     0xd0, 0xef, 0xaa, 0xfb, 0x43, 0x4d, 0x33, 0x85, 0x45, 0xf9, 0x02, 0x7f, 0x50, 0x3c, 0x9f, 0xa8,
     0x51, 0xa3, 0x40, 0x8f, 0x92, 0x9d, 0x38, 0xf5, 0xbc, 0xb6, 0xda, 0x21, 0x10, 0xff, 0xf3, 0xd2,
     0xcd, 0x0c, 0x13, 0xec, 0x5f, 0x97, 0x44, 0x17, 0xc4, 0xa7, 0x7e, 0x3d, 0x64, 0x5d, 0x19, 0x73,
     0x60, 0x81, 0x4f, 0xdc, 0x22, 0x2a, 0x90, 0x88, 0x46, 0xee, 0xb8, 0x14, 0xde, 0x5e, 0x0b, 0xdb,
     0xe0, 0x32, 0x3a, 0x0a, 0x49, 0x06, 0x24, 0x5c, 0xc2, 0xd3, 0xac, 0x62, 0x91, 0x95, 0xe4, 0x79,
     0xe7, 0xc8, 0x37, 0x6d, 0x8d, 0xd5, 0x4e, 0xa9, 0x6c, 0x56, 0xf4, 0xea, 0x65, 0x7a, 0xae, 0x08,
     0xba, 0x78, 0x25, 0x2e, 0x1c, 0xa6, 0xb4, 0xc6, 0xe8, 0xdd, 0x74, 0x1f, 0x4b, 0xbd, 0x8b, 0x8a,
     0x70, 0x3e, 0xb5, 0x66, 0x48, 0x03, 0xf6, 0x0e, 0x61, 0x35, 0x57, 0xb9, 0x86, 0xc1, 0x1d, 0x9e,
     0xe1, 0xf8, 0x98, 0x11, 0x69, 0xd9, 0x8e, 0x94, 0x9b, 0x1e, 0x87, 0xe9, 0xce, 0x55, 0x28, 0xdf,
     0x8c, 0xa1, 0x89, 0x0d, 0xbf, 0xe6, 0x42, 0x68, 0x41, 0x99, 0x2d, 0x0f, 0xb0, 0x54, 0xbb, 0x16]"

definition xor_128 :: "bytes \<Rightarrow> bytes \<Rightarrow> bytes" where
  "xor_128 a b = map (\<lambda>i. a ! i XOR b ! i) [0..<16]"

definition xor_32 :: "bytes \<Rightarrow> bytes \<Rightarrow> bytes" where
  "xor_32 a b = map (\<lambda>i. a ! i XOR b ! i) [0..<4]"

definition sbox :: "u8 \<Rightarrow> u8" where
  "sbox a = sbox_table ! unat a"

definition rcon_table :: bytes where
  "rcon_table = [0x01, 0x02, 0x04, 0x08, 0x10, 0x20, 0x40, 0x80, 0x1b, 0x36, 0x36, 0x36]"

text \<open>\<open>next_key\<close> works in place on the 16-byte round key, a word at a time.\<close>

definition next_key :: "bytes \<Rightarrow> nat \<Rightarrow> bytes" where
  "next_key key round =
     (let sbox_key = [sbox (key ! 13), sbox (key ! 14), sbox (key ! 15), sbox (key ! 12)];
          rcon = rcon_table ! round;
          k0 = xor_32 key sbox_key;
          k0 = k0[0 := k0 ! 0 XOR rcon];
          k4 = xor_32 (drop 4 key) k0;
          k8 = xor_32 (drop 8 key) k4;
          k12 = xor_32 (drop 12 key) k8
      in k0 @ k4 @ k8 @ k12)"

definition byte_sub :: "bytes \<Rightarrow> bytes" where
  "byte_sub xs = map (\<lambda>i. sbox (xs ! i)) [0..<16]"

definition shift_row :: "bytes \<Rightarrow> bytes" where
  "shift_row xs = [xs ! 0, xs ! 5, xs ! 10, xs ! 15, xs ! 4, xs ! 9, xs ! 14, xs ! 3,
                   xs ! 8, xs ! 13, xs ! 2, xs ! 7, xs ! 12, xs ! 1, xs ! 6, xs ! 11]"

text \<open>The logical shift left by one bit of the four-byte array, with the carries between the bytes.\<close>

definition mix_shl1 :: "bytes \<Rightarrow> bytes" where
  "mix_shl1 andf7 =
     (let andf7 = fold (\<lambda>i f. let f = f[i := push_bit 1 (f ! i)]
                             in if f ! (i - 1) AND 0x80 = 0x80 then f[i := f ! i OR 0x01] else f)
                    [3, 2, 1] andf7;
          andf7 = andf7[0 := push_bit 1 (andf7 ! 0)]
      in andf7[0 := andf7 ! 0 AND 0xfe])"

definition mix_column :: "bytes \<Rightarrow> bytes" where
  "mix_column xs =
     (let add1b = map (\<lambda>i. if xs ! i AND 0x80 = 0x80 then 0x1b else 0x00) [0, 1, 2, 3];
          swap_halfs = [xs ! 2, xs ! 3, xs ! 0, xs ! 1];
          rotl = [xs ! 3, xs ! 0, xs ! 1, xs ! 2];
          andf7 = [xs ! 0 AND 0x7f, xs ! 1 AND 0x7f, xs ! 2 AND 0x7f, xs ! 3 AND 0x7f];
          andf7 = mix_shl1 andf7;
          add1bf7 = xor_32 add1b andf7;
          rotr = xor_32 xs add1bf7;
          rotr = [rotr ! 1, rotr ! 2, rotr ! 3, rotr ! 0];
          temp = xor_32 add1bf7 rotr;
          tempb = xor_32 swap_halfs rotl
      in xor_32 temp tempb)"

definition aes_round :: "bytes \<times> bytes \<Rightarrow> nat \<Rightarrow> bytes \<times> bytes" where
  "aes_round = (\<lambda>(round_key, ciphertext) round.
     if round = 10 then (round_key, xor_128 (shift_row (byte_sub ciphertext)) round_key)
     else let b = shift_row (byte_sub ciphertext);
              a = mix_column b @ mix_column (drop 4 b) @ mix_column (drop 8 b) @ mix_column (drop 12 b)
          in (next_key round_key round, xor_128 a round_key))"

definition aes128k128d :: "bytes \<Rightarrow> bytes \<Rightarrow> bytes" where
  "aes128k128d key data =
     (let round_key = take 16 key;
          ciphertext = xor_128 round_key data;
          round_key = next_key round_key 0
      in snd (foldl aes_round (round_key, ciphertext) [1..<11]))"

section \<open>Lengths\<close>

lemma xor_128_length [simp]: "length (xor_128 a b) = 16"
  by (simp add: xor_128_def)

lemma xor_32_length [simp]: "length (xor_32 a b) = 4"
  by (simp add: xor_32_def)

lemma mix_column_length [simp]: "length (mix_column xs) = 4"
  by (simp add: mix_column_def Let_def)

lemma next_key_length [simp]: "length (next_key key r) = 16"
  by (simp add: next_key_def Let_def)

lemma shift_row_length [simp]: "length (shift_row xs) = 16"
  by (simp add: shift_row_def)

lemma byte_sub_length [simp]: "length (byte_sub xs) = 16"
  by (simp add: byte_sub_def)

lemma aes_round_length: "length (snd (aes_round s r)) = 16"
  by (simp add: aes_round_def split_beta Let_def)

lemma aes128k128d_length [simp]: "length (aes128k128d key data) = 16"
proof -
  have "[1..<11] = [1..<10] @ [10::nat]" by (simp add: upt_Suc_append [symmetric])
  then show ?thesis by (simp add: aes128k128d_def Let_def aes_round_length)
qed

lemma xor_128_take: "xor_128 (take 16 a) b = xor_128 a b" "xor_128 a (take 16 b) = xor_128 a b"
  by (simp_all add: xor_128_def)

lemma xor_128_involutive: "length b = 16 \<Longrightarrow> xor_128 a (xor_128 a b) = b"
  by (rule nth_equalityI) (simp_all add: xor_128_def xor.assoc [symmetric])

section \<open>Columns\<close>

text \<open>Multiplication by the polynomial \<open>x\<close> modulo the AES polynomial.\<close>

definition xtime :: "u8 \<Rightarrow> u8" where
  "xtime a = push_bit 1 a XOR (if bit a 7 then 0x1b else 0)"

lemma bit_80: "bit (0x80::u8) n \<longleftrightarrow> n = 7"
proof (cases "n < 8")
  case True
  then have "n \<in> {0,1,2,3,4,5,6,7}" using less_8_cases by simp
  then show ?thesis by (elim insertE emptyE; simp)
qed (use bit_beyond in auto)

lemma and_80: "(a AND 0x80 = 0x80) = bit (a::u8) 7"
proof
  assume "a AND 0x80 = 0x80"
  from arg_cong [OF this, of "\<lambda>w. bit w 7"] show "bit a 7" by (simp add: bit_simps)
next
  assume "bit a 7"
  then show "a AND 0x80 = 0x80" by (intro bit_word_eqI) (auto simp only: bit_and_iff bit_80)
qed

lemma and_7f_shift: "push_bit 1 (a AND 0x7f) = push_bit 1 (a::u8)"
proof -
  have m: "(0x7f::u8) = mask 7" by (simp add: mask_eq_exp_minus_1)
  show ?thesis by (rule bit_word_eqI) (auto simp: m bit_simps)
qed

lemma not_bit_and_7f: "\<not> bit ((a::u8) AND 0x7f) 7"
proof -
  have m: "(0x7f::u8) = mask 7" by (simp add: mask_eq_exp_minus_1)
  show ?thesis by (simp add: m bit_simps)
qed

lemma push_and_fe: "push_bit 1 (a::u8) AND 0xfe = push_bit 1 a"
proof (rule bit_word_eqI)
  fix n assume "n < LENGTH(8)"
  then have "n \<in> {0,1,2,3,4,5,6,7}" using less_8_cases by simp
  then show "bit (push_bit 1 a AND 0xfe) n = bit (push_bit 1 a) n"
    by (elim insertE emptyE; simp add: bit_simps)
qed

lemma upt_4: "[0..<4] = [0, 1, 2, 3]"
  by code_simp

lemma xor_32_list: "xor_32 [a, b, c, d] [e, f, g, h] = [a XOR e, b XOR f, c XOR g, d XOR h]"
  by (simp add: xor_32_def upt_4)

lemma list_update_4:
  "[p, q, r, s][1 := v] = [p, v, r, s]" "[p, q, r, s][2 := v] = [p, q, v, s]"
  "[p, q, r, s][3 := v] = [p, q, r, v]"
  by (simp_all add: numeral_2_eq_2 numeral_3_eq_3)

lemma mix_shl1_list:
  "mix_shl1 [a AND 0x7f, b AND 0x7f, c AND 0x7f, d AND 0x7f] =
     [push_bit 1 a, push_bit 1 b, push_bit 1 c, push_bit 1 d]"
proof -
  have "mix_shl1 [p, q, r, s] = [push_bit 1 p AND 0xfe, push_bit 1 q, push_bit 1 r, push_bit 1 s]"
    if "\<not> bit p 7" "\<not> bit q 7" "\<not> bit r 7" for p q r s :: u8
  proof -
    have i: "(3::nat) - 1 = 2" "(2::nat) - 1 = 1" "(1::nat) - 1 = 0" by simp_all
    have n: "[p', q', r', s'] ! 0 = p'" "[p', q', r', s'] ! 1 = q'" "[p', q', r', s'] ! 2 = r'"
      "[p', q', r', s'] ! 3 = s'" for p' q' r' s' :: u8 by simp_all
    show ?thesis
      unfolding mix_shl1_def fold_Cons fold_Nil o_apply id_apply Let_def i list_update_4 n and_80
        if_not_P [OF that(1)] if_not_P [OF that(2)] if_not_P [OF that(3)]
      by simp
  qed
  from this [OF not_bit_and_7f not_bit_and_7f not_bit_and_7f] show ?thesis
    by (simp only: and_7f_shift push_and_fe)
qed

lemma mix_column_list:
  "mix_column (a # b # c # d # rest) =
     [xtime a XOR (xtime b XOR b) XOR c XOR d,
      xtime b XOR (xtime c XOR c) XOR d XOR a,
      xtime c XOR (xtime d XOR d) XOR a XOR b,
      xtime d XOR (xtime a XOR a) XOR b XOR c]"
proof -
  have x: "xor_32 (a # b # c # d # rest) ys = xor_32 [a, b, c, d] ys" for ys
    by (simp add: xor_32_def upt_4)
  have xt: "(if bit e 7 then 0x1b else 0) XOR push_bit 1 e = xtime e" for e
    by (simp add: xtime_def xor.commute)
  have n: "(a # b # c # d # rest) ! 0 = a" "(a # b # c # d # rest) ! 1 = b"
    "(a # b # c # d # rest) ! 2 = c" "(a # b # c # d # rest) ! 3 = d"
    by simp_all
  show ?thesis
    unfolding mix_column_def Let_def list.map n mix_shl1_list and_80 x xor_32_list xt
      nth_Cons_0 nth_Cons_numeral
    by (simp add: xor_32_list xor.left_commute xor.assoc xor.commute)
qed

end
