(* ===== verification/Rijndael.thy ===== *)
theory Rijndael
  imports Aes
begin

text \<open>
  The table-driven AES-128 of core/rtw_security.c (\<open>Te0\<close>, \<open>rijndaelKeySetupEnc\<close>, \<open>rijndaelEncrypt\<close>, the
  \<open>TE\<close>, \<open>GETU32\<close> and \<open>PUTU32\<close> macros of include/rtw_security.h), the block cipher of BIP and SIV. The driver
  thus carries two implementations of AES: the theory proves that they compute the same function.
\<close>

section \<open>The code\<close>

definition Te0 :: "u32 list" where
  "Te0 = [
     0xc66363a5, 0xf87c7c84, 0xee777799, 0xf67b7b8d, 0xfff2f20d, 0xd66b6bbd, 0xde6f6fb1, 0x91c5c554,
     0x60303050, 0x02010103, 0xce6767a9, 0x562b2b7d, 0xe7fefe19, 0xb5d7d762, 0x4dababe6, 0xec76769a,
     0x8fcaca45, 0x1f82829d, 0x89c9c940, 0xfa7d7d87, 0xeffafa15, 0xb25959eb, 0x8e4747c9, 0xfbf0f00b,
     0x41adadec, 0xb3d4d467, 0x5fa2a2fd, 0x45afafea, 0x239c9cbf, 0x53a4a4f7, 0xe4727296, 0x9bc0c05b,
     0x75b7b7c2, 0xe1fdfd1c, 0x3d9393ae, 0x4c26266a, 0x6c36365a, 0x7e3f3f41, 0xf5f7f702, 0x83cccc4f,
     0x6834345c, 0x51a5a5f4, 0xd1e5e534, 0xf9f1f108, 0xe2717193, 0xabd8d873, 0x62313153, 0x2a15153f,
     0x0804040c, 0x95c7c752, 0x46232365, 0x9dc3c35e, 0x30181828, 0x379696a1, 0x0a05050f, 0x2f9a9ab5,
     0x0e070709, 0x24121236, 0x1b80809b, 0xdfe2e23d, 0xcdebeb26, 0x4e272769, 0x7fb2b2cd, 0xea75759f,
     0x1209091b, 0x1d83839e, 0x582c2c74, 0x341a1a2e, 0x361b1b2d, 0xdc6e6eb2, 0xb45a5aee, 0x5ba0a0fb,
     0xa45252f6, 0x763b3b4d, 0xb7d6d661, 0x7db3b3ce, 0x5229297b, 0xdde3e33e, 0x5e2f2f71, 0x13848497,
     0xa65353f5, 0xb9d1d168, 0x00000000, 0xc1eded2c, 0x40202060, 0xe3fcfc1f, 0x79b1b1c8, 0xb65b5bed,
     0xd46a6abe, 0x8dcbcb46, 0x67bebed9, 0x7239394b, 0x944a4ade, 0x984c4cd4, 0xb05858e8, 0x85cfcf4a,
     0xbbd0d06b, 0xc5efef2a, 0x4faaaae5, 0xedfbfb16, 0x864343c5, 0x9a4d4dd7, 0x66333355, 0x11858594,
     0x8a4545cf, 0xe9f9f910, 0x04020206, 0xfe7f7f81, 0xa05050f0, 0x783c3c44, 0x259f9fba, 0x4ba8a8e3,
     0xa25151f3, 0x5da3a3fe, 0x804040c0, 0x058f8f8a, 0x3f9292ad, 0x219d9dbc, 0x70383848, 0xf1f5f504,
     0x63bcbcdf, 0x77b6b6c1, 0xafdada75, 0x42212163, 0x20101030, 0xe5ffff1a, 0xfdf3f30e, 0xbfd2d26d,
     0x81cdcd4c, 0x180c0c14, 0x26131335, 0xc3ecec2f, 0xbe5f5fe1, 0x359797a2, 0x884444cc, 0x2e171739,
     0x93c4c457, 0x55a7a7f2, 0xfc7e7e82, 0x7a3d3d47, 0xc86464ac, 0xba5d5de7, 0x3219192b, 0xe6737395,
     0xc06060a0, 0x19818198, 0x9e4f4fd1, 0xa3dcdc7f, 0x44222266, 0x542a2a7e, 0x3b9090ab, 0x0b888883,
     0x8c4646ca, 0xc7eeee29, 0x6bb8b8d3, 0x2814143c, 0xa7dede79, 0xbc5e5ee2, 0x160b0b1d, 0xaddbdb76,
     0xdbe0e03b, 0x64323256, 0x743a3a4e, 0x140a0a1e, 0x924949db, 0x0c06060a, 0x4824246c, 0xb85c5ce4,
     0x9fc2c25d, 0xbdd3d36e, 0x43acacef, 0xc46262a6, 0x399191a8, 0x319595a4, 0xd3e4e437, 0xf279798b,
     0xd5e7e732, 0x8bc8c843, 0x6e373759, 0xda6d6db7, 0x018d8d8c, 0xb1d5d564, 0x9c4e4ed2, 0x49a9a9e0,
     0xd86c6cb4, 0xac5656fa, 0xf3f4f407, 0xcfeaea25, 0xca6565af, 0xf47a7a8e, 0x47aeaee9, 0x10080818,
     0x6fbabad5, 0xf0787888, 0x4a25256f, 0x5c2e2e72, 0x381c1c24, 0x57a6a6f1, 0x73b4b4c7, 0x97c6c651,
     0xcbe8e823, 0xa1dddd7c, 0xe874749c, 0x3e1f1f21, 0x964b4bdd, 0x61bdbddc, 0x0d8b8b86, 0x0f8a8a85,
     0xe0707090, 0x7c3e3e42, 0x71b5b5c4, 0xcc6666aa, 0x904848d8, 0x06030305, 0xf7f6f601, 0x1c0e0e12,
     0xc26161a3, 0x6a35355f, 0xae5757f9, 0x69b9b9d0, 0x17868691, 0x99c1c158, 0x3a1d1d27, 0x279e9eb9,
     0xd9e1e138, 0xebf8f813, 0x2b9898b3, 0x22111133, 0xd26969bb, 0xa9d9d970, 0x078e8e89, 0x339494a7,
     0x2d9b9bb6, 0x3c1e1e22, 0x15878792, 0xc9e9e920, 0x87cece49, 0xaa5555ff, 0x50282878, 0xa5dfdf7a,
     0x038c8c8f, 0x59a1a1f8, 0x09898980, 0x1a0d0d17, 0x65bfbfda, 0xd7e6e631, 0x844242c6, 0xd06868b8,
     0x824141c3, 0x299999b0, 0x5a2d2d77, 0x1e0f0f11, 0x7bb0b0cb, 0xa85454fc, 0x6dbbbbd6, 0x2c16163a]"

definition rcons :: bytes where
  "rcons = [0x01, 0x02, 0x04, 0x08, 0x10, 0x20, 0x40, 0x80, 0x1B, 0x36]"

definition RCON :: "nat \<Rightarrow> u32" where
  "RCON i = push_bit 24 (ucast (rcons ! i))"

definition rotr :: "u32 \<Rightarrow> nat \<Rightarrow> u32" where
  "rotr val n = drop_bit n val OR push_bit (32 - n) val"

definition te_ix :: "u32 \<Rightarrow> nat \<Rightarrow> nat" where
  "te_ix w sh = unat (drop_bit sh w AND 0xff)"

definition TE0 :: "u32 \<Rightarrow> u32" where "TE0 w = Te0 ! te_ix w 24"
definition TE1 :: "u32 \<Rightarrow> u32" where "TE1 w = rotr (Te0 ! te_ix w 16) 8"
definition TE2 :: "u32 \<Rightarrow> u32" where "TE2 w = rotr (Te0 ! te_ix w 8) 16"
definition TE3 :: "u32 \<Rightarrow> u32" where "TE3 w = rotr (Te0 ! te_ix w 0) 24"
definition TE41 :: "u32 \<Rightarrow> u32" where "TE41 w = push_bit 8 (Te0 ! te_ix w 24) AND 0xff000000"
definition TE42 :: "u32 \<Rightarrow> u32" where "TE42 w = Te0 ! te_ix w 16 AND 0x00ff0000"
definition TE43 :: "u32 \<Rightarrow> u32" where "TE43 w = Te0 ! te_ix w 8 AND 0x0000ff00"
definition TE44 :: "u32 \<Rightarrow> u32" where "TE44 w = drop_bit 8 (Te0 ! te_ix w 0) AND 0x000000ff"
definition TE421 :: "u32 \<Rightarrow> u32" where "TE421 w = push_bit 8 (Te0 ! te_ix w 16) AND 0xff000000"
definition TE432 :: "u32 \<Rightarrow> u32" where "TE432 w = Te0 ! te_ix w 8 AND 0x00ff0000"
definition TE443 :: "u32 \<Rightarrow> u32" where "TE443 w = Te0 ! te_ix w 0 AND 0x0000ff00"
definition TE414 :: "u32 \<Rightarrow> u32" where "TE414 w = drop_bit 8 (Te0 ! te_ix w 24) AND 0x000000ff"

definition GETU32 :: "bytes \<Rightarrow> u32" where
  "GETU32 pt = push_bit 24 (ucast (pt ! 0)) XOR push_bit 16 (ucast (pt ! 1))
     XOR push_bit 8 (ucast (pt ! 2)) XOR ucast (pt ! 3)"

definition PUTU32 :: "u32 \<Rightarrow> bytes" where
  "PUTU32 st = [ucast (drop_bit 24 st), ucast (drop_bit 16 st), ucast (drop_bit 8 st), ucast st]"

text \<open>One turn of the loop of \<open>rijndaelKeySetupEnc\<close>: the next four words of the schedule.\<close>

definition rijndael_key_step :: "u32 list \<Rightarrow> nat \<Rightarrow> u32 list" where
  "rijndael_key_step rk i =
     (let temp = rk ! (4 * i + 3);
          r4 = rk ! (4 * i) XOR TE421 temp XOR TE432 temp XOR TE443 temp XOR TE414 temp XOR RCON i;
          r5 = rk ! (4 * i + 1) XOR r4;
          r6 = rk ! (4 * i + 2) XOR r5;
          r7 = rk ! (4 * i + 3) XOR r6
      in rk @ [r4, r5, r6, r7])"

definition rijndaelKeySetupEnc :: "bytes \<Rightarrow> u32 list" where
  "rijndaelKeySetupEnc cipherKey =
     foldl rijndael_key_step
       [GETU32 cipherKey, GETU32 (drop 4 cipherKey), GETU32 (drop 8 cipherKey), GETU32 (drop 12 cipherKey)]
       [0..<10]"

type_synonym aes_st = "u32 \<times> u32 \<times> u32 \<times> u32"

definition rijndael_round :: "u32 list \<Rightarrow> nat \<Rightarrow> aes_st \<Rightarrow> aes_st" where
  "rijndael_round rk i = (\<lambda>(s0, s1, s2, s3).
     (TE0 s0 XOR TE1 s1 XOR TE2 s2 XOR TE3 s3 XOR rk ! (4 * i),
      TE0 s1 XOR TE1 s2 XOR TE2 s3 XOR TE3 s0 XOR rk ! (4 * i + 1),
      TE0 s2 XOR TE1 s3 XOR TE2 s0 XOR TE3 s1 XOR rk ! (4 * i + 2),
      TE0 s3 XOR TE1 s0 XOR TE2 s1 XOR TE3 s2 XOR rk ! (4 * i + 3)))"

text \<open>The loop \<open>for (;;)\<close> with its exit on \<open>--r == 0\<close> between the two rounds.\<close>

fun rijndael_rounds :: "nat \<Rightarrow> u32 list \<Rightarrow> aes_st \<Rightarrow> u32 list \<times> aes_st" where
  "rijndael_rounds 0 rk s = (rk, s)"
| "rijndael_rounds (Suc r) rk s =
     (let t = rijndael_round rk 1 s; rk = drop 8 rk
      in if r = 0 then (rk, t) else rijndael_rounds r rk (rijndael_round rk 0 t))"

definition rijndaelEncrypt :: "u32 list \<Rightarrow> bytes \<Rightarrow> bytes" where
  "rijndaelEncrypt rk pt =
     (let s0 = GETU32 pt XOR rk ! 0;
          s1 = GETU32 (drop 4 pt) XOR rk ! 1;
          s2 = GETU32 (drop 8 pt) XOR rk ! 2;
          s3 = GETU32 (drop 12 pt) XOR rk ! 3;
          (rk, t0, t1, t2, t3) = rijndael_rounds 5 rk (s0, s1, s2, s3);
          s0 = TE41 t0 XOR TE42 t1 XOR TE43 t2 XOR TE44 t3 XOR rk ! 0;
          s1 = TE41 t1 XOR TE42 t2 XOR TE43 t3 XOR TE44 t0 XOR rk ! 1;
          s2 = TE41 t2 XOR TE42 t3 XOR TE43 t0 XOR TE44 t1 XOR rk ! 2;
          s3 = TE41 t3 XOR TE42 t0 XOR TE43 t1 XOR TE44 t2 XOR rk ! 3
      in PUTU32 s0 @ PUTU32 s1 @ PUTU32 s2 @ PUTU32 s3)"

definition aes_encrypt :: "bytes \<Rightarrow> bytes \<Rightarrow> bytes" where
  "aes_encrypt key plain = rijndaelEncrypt (rijndaelKeySetupEnc key) plain"

section \<open>Words of four bytes\<close>

definition W :: "u8 \<Rightarrow> u8 \<Rightarrow> u8 \<Rightarrow> u8 \<Rightarrow> u32" where
  "W a b c d = push_bit 24 (ucast a) XOR push_bit 16 (ucast b) XOR push_bit 8 (ucast c) XOR ucast d"

lemma GETU32_W: "GETU32 (a # b # c # d # rest) = W a b c d"
  by (simp add: GETU32_def W_def)

lemma bit_W:
  "bit (W a b c d) n =
     (if n < 8 then bit d n else if n < 16 then bit c (n - 8)
      else if n < 24 then bit b (n - 16) else n < 32 \<and> bit a (n - 24))"
  unfolding W_def by (auto simp: bit_simps)

lemma PUTU32_W: "PUTU32 (W a b c d) = [a, b, c, d]"
proof -
  have "ucast (drop_bit 24 (W a b c d)) = a" "ucast (drop_bit 16 (W a b c d)) = b"
    "ucast (drop_bit 8 (W a b c d)) = c" "ucast (W a b c d) = d"
    by (rule bit_word_eqI; simp add: bit_simps bit_W)+
  then show ?thesis by (simp add: PUTU32_def)
qed

lemma W_xor: "W a b c d XOR W e f g h = W (a XOR e) (b XOR f) (c XOR g) (d XOR h)"
  by (rule bit_word_eqI) (simp add: bit_W bit_xor_iff)

lemma te_ix_W:
  "te_ix (W a b c d) 24 = unat a" "te_ix (W a b c d) 16 = unat b"
  "te_ix (W a b c d) 8 = unat c" "te_ix (W a b c d) 0 = unat d"
proof -
  have "drop_bit 24 (W a b c d) AND 0xff = ucast a" "drop_bit 16 (W a b c d) AND 0xff = ucast b"
    "drop_bit 8 (W a b c d) AND 0xff = ucast c" "drop_bit 0 (W a b c d) AND 0xff = ucast d"
    by (rule bit_word_eqI; auto simp: bit_simps bit_W ff_mask dest: bit_imp_le_length)+
  then show "te_ix (W a b c d) 24 = unat a" "te_ix (W a b c d) 16 = unat b"
    "te_ix (W a b c d) 8 = unat c" "te_ix (W a b c d) 0 = unat d"
    by (simp_all only: te_ix_def unat_ucast_up)
qed

section \<open>The table\<close>

definition te0_entry :: "u8 \<Rightarrow> u32" where
  "te0_entry s = W (xtime s) s s (xtime s XOR s)"

lemma Te0_map: "Te0 = map te0_entry sbox_table"
  by (simp add: Te0_def sbox_table_def te0_entry_def W_def xtime_def)

lemma sbox_table_length: "length sbox_table = 256"
  by (simp add: sbox_table_def)

lemma Te0_nth: "Te0 ! unat a = te0_entry (sbox a)"
  by (simp add: Te0_map sbox_def sbox_table_length)

lemma byte_masks:
  "(0xff000000::u32) = push_bit 24 (mask 8)" "(0x00ff0000::u32) = push_bit 16 (mask 8)"
  "(0x0000ff00::u32) = push_bit 8 (mask 8)" "(0x000000ff::u32) = mask 8"
  by (simp_all add: mask_eq_exp_minus_1)

lemma W_rotr:
  "rotr (W a b c d) 8 = W d a b c" "rotr (W a b c d) 16 = W c d a b" "rotr (W a b c d) 24 = W b c d a"
  unfolding rotr_def by (rule bit_word_eqI; auto simp: bit_simps bit_W)+

lemma W_masks:
  "push_bit 8 (W a b c d) AND 0xff000000 = W b 0 0 0" "W a b c d AND 0x00ff0000 = W 0 b 0 0"
  "W a b c d AND 0x0000ff00 = W 0 0 c 0" "drop_bit 8 (W a b c d) AND 0x000000ff = W 0 0 0 c"
  unfolding byte_masks by (rule bit_word_eqI; auto simp: bit_simps bit_W dest: bit_imp_le_length)+

lemmas te_simps = TE0_def TE1_def TE2_def TE3_def TE41_def TE42_def TE43_def TE44_def TE421_def TE432_def
  TE443_def TE414_def te_ix_W Te0_nth te0_entry_def W_rotr W_masks W_xor

section \<open>Byte states and word states\<close>

definition words_of :: "bytes \<Rightarrow> aes_st" where
  "words_of b = (W (b!0) (b!1) (b!2) (b!3), W (b!4) (b!5) (b!6) (b!7),
     W (b!8) (b!9) (b!10) (b!11), W (b!12) (b!13) (b!14) (b!15))"

lemma list_16:
  assumes "length (xs :: 'a list) = 16"
  obtains a0 a1 a2 a3 a4 a5 a6 a7 a8 a9 a10 a11 a12 a13 a14 a15
  where "xs = [a0, a1, a2, a3, a4, a5, a6, a7, a8, a9, a10, a11, a12, a13, a14, a15]"
proof -
  have "length xs = Suc (Suc (Suc (Suc (Suc (Suc (Suc (Suc (Suc (Suc (Suc (Suc (Suc (Suc (Suc (Suc 0)))))))))))))))"
    using assms by simp
  then show ?thesis using that by (auto simp only: length_Suc_conv length_0_conv)
qed

lemma upt_16: "[0..<16] = [0, 1, 2, 3, 4, 5, 6, 7, 8, 9, 10, 11, 12, 13, 14, 15]"
  by code_simp

lemma words_of_xor:
  "words_of (xor_128 a b) =
     (let (a0, a1, a2, a3) = words_of a; (b0, b1, b2, b3) = words_of b
      in (a0 XOR b0, a1 XOR b1, a2 XOR b2, a3 XOR b3))"
  by (simp add: words_of_def xor_128_def upt_16 W_xor)

text \<open>The key of a round as four consecutive words of the schedule.\<close>

definition rk_at :: "u32 list \<Rightarrow> nat \<Rightarrow> bytes \<Rightarrow> bool" where
  "rk_at rk i key \<longleftrightarrow> (rk ! (4 * i), rk ! (4 * i + 1), rk ! (4 * i + 2), rk ! (4 * i + 3)) = words_of key"

definition byte_round :: "bytes \<Rightarrow> bytes \<Rightarrow> bytes" where
  "byte_round key ct =
     (let b = shift_row (byte_sub ct)
      in xor_128 (mix_column b @ mix_column (drop 4 b) @ mix_column (drop 8 b) @ mix_column (drop 12 b)) key)"

lemma rijndael_round_bytes:
  assumes "length ct = 16" "rk_at rk i key"
  shows "rijndael_round rk i (words_of ct) = words_of (byte_round key ct)"
proof -
  from list_16 [OF assms(1)] obtain b0 b1 b2 b3 b4 b5 b6 b7 b8 b9 b10 b11 b12 b13 b14 b15
    where ct: "ct = [b0, b1, b2, b3, b4, b5, b6, b7, b8, b9, b10, b11, b12, b13, b14, b15]" .
  have k: "rk ! (4 * i) = W (key!0) (key!1) (key!2) (key!3)" "rk ! (4 * i + 1) = W (key!4) (key!5) (key!6) (key!7)"
    "rk ! (4 * i + 2) = W (key!8) (key!9) (key!10) (key!11)" "rk ! (4 * i + 3) = W (key!12) (key!13) (key!14) (key!15)"
    using assms(2) by (simp_all add: rk_at_def words_of_def)
  have s: "shift_row (byte_sub ct) = map sbox [b0, b5, b10, b15, b4, b9, b14, b3, b8, b13, b2, b7, b12, b1, b6, b11]"
    by (simp add: ct shift_row_def byte_sub_def upt_16)
  have w: "words_of ct = (W b0 b1 b2 b3, W b4 b5 b6 b7, W b8 b9 b10 b11, W b12 b13 b14 b15)"
    by (simp add: ct words_of_def)
  show ?thesis
    unfolding rijndael_round_def w prod.case k byte_round_def Let_def s words_of_xor
    by (simp add: te_simps mix_column_list words_of_def ac_simps)
qed

section \<open>The key schedules agree\<close>

fun aes_keys :: "bytes \<Rightarrow> nat \<Rightarrow> bytes" where
  "aes_keys key 0 = take 16 key"
| "aes_keys key (Suc i) = next_key (aes_keys key i) i"

declare aes_keys.simps(2) [simp del]

lemma aes_keys_length: "length key = 16 \<Longrightarrow> length (aes_keys key i) = 16"
  by (cases i) (simp_all add: aes_keys.simps)

lemma RCON_W: "i < 10 \<Longrightarrow> RCON i = W (rcon_table ! i) 0 0 0"
proof -
  assume "i < 10"
  then have "i \<in> {0,1,2,3,4,5,6,7,8,9}" by auto
  then show ?thesis
    by (elim insertE emptyE) (simp_all add: RCON_def W_def rcons_def rcon_table_def)
qed

lemma xor_32_list': "xor_32 (a # b # c # d # xs) (e # f # g # h # ys) = [a XOR e, b XOR f, c XOR g, d XOR h]"
  by (simp add: xor_32_def upt_4)

lemma nth_16:
  "[a0, a1, a2, a3, a4, a5, a6, a7, a8, a9, a10, a11, a12, a13, a14, a15] ! 12 = a12"
  "[a0, a1, a2, a3, a4, a5, a6, a7, a8, a9, a10, a11, a12, a13, a14, a15] ! 13 = a13"
  "[a0, a1, a2, a3, a4, a5, a6, a7, a8, a9, a10, a11, a12, a13, a14, a15] ! 14 = a14"
  "[a0, a1, a2, a3, a4, a5, a6, a7, a8, a9, a10, a11, a12, a13, a14, a15] ! 15 = a15"
  "drop 4 [a0, a1, a2, a3, a4, a5, a6, a7, a8, a9, a10, a11, a12, a13, a14, a15]
     = [a4, a5, a6, a7, a8, a9, a10, a11, a12, a13, a14, a15]"
  "drop 8 [a0, a1, a2, a3, a4, a5, a6, a7, a8, a9, a10, a11, a12, a13, a14, a15]
     = [a8, a9, a10, a11, a12, a13, a14, a15]"
  "drop 12 [a0, a1, a2, a3, a4, a5, a6, a7, a8, a9, a10, a11, a12, a13, a14, a15] = [a12, a13, a14, a15]"
  by simp_all

lemma next_key_list:
  "next_key [k0, k1, k2, k3, k4, k5, k6, k7, k8, k9, k10, k11, k12, k13, k14, k15] i =
     (let a0 = k0 XOR sbox k13 XOR rcon_table ! i; a1 = k1 XOR sbox k14; a2 = k2 XOR sbox k15;
          a3 = k3 XOR sbox k12; a4 = k4 XOR a0; a5 = k5 XOR a1; a6 = k6 XOR a2; a7 = k7 XOR a3;
          a8 = k8 XOR a4; a9 = k9 XOR a5; a10 = k10 XOR a6; a11 = k11 XOR a7
      in [a0, a1, a2, a3, a4, a5, a6, a7, a8, a9, a10, a11,
          k12 XOR a8, k13 XOR a9, k14 XOR a10, k15 XOR a11])"
  unfolding next_key_def Let_def nth_16 xor_32_list' list_update.simps nat.case nth_Cons_0
  by (simp add: xor.assoc)

lemma rijndael_key_step_bytes:
  assumes "length key = 16" "rk_at rk i key" "length rk = 4 * Suc i" "i < 10"
  shows "\<exists>ws. rijndael_key_step rk i = rk @ ws \<and> length ws = 4 \<and>
    (ws ! 0, ws ! 1, ws ! 2, ws ! 3) = words_of (next_key key i)"
proof -
  from list_16 [OF assms(1)] obtain k0 k1 k2 k3 k4 k5 k6 k7 k8 k9 k10 k11 k12 k13 k14 k15
    where key: "key = [k0, k1, k2, k3, k4, k5, k6, k7, k8, k9, k10, k11, k12, k13, k14, k15]" .
  have k: "rk ! (4 * i) = W k0 k1 k2 k3" "rk ! (4 * i + 1) = W k4 k5 k6 k7"
    "rk ! (4 * i + 2) = W k8 k9 k10 k11" "rk ! (4 * i + 3) = W k12 k13 k14 k15"
    using assms(2) by (simp_all add: rk_at_def words_of_def key)
  define a0 a1 a2 a3 where a: "a0 = k0 XOR sbox k13 XOR rcon_table ! i" "a1 = k1 XOR sbox k14"
    "a2 = k2 XOR sbox k15" "a3 = k3 XOR sbox k12"
  have r4: "W k0 k1 k2 k3 XOR TE421 (W k12 k13 k14 k15) XOR TE432 (W k12 k13 k14 k15)
      XOR TE443 (W k12 k13 k14 k15) XOR TE414 (W k12 k13 k14 k15) XOR W (rcon_table ! i) 0 0 0 = W a0 a1 a2 a3"
    unfolding te_simps a by (simp add: xor.assoc)
  show ?thesis
    unfolding rijndael_key_step_def k Let_def RCON_W [OF assms(4)] r4 key next_key_list a [symmetric] W_xor
    by (simp add: words_of_def)
qed

lemma rk_at_append: "4 * i + 3 < length rk \<Longrightarrow> rk_at (rk @ ws) i key = rk_at rk i key"
  by (simp add: rk_at_def nth_append)

lemma rijndael_schedule:
  assumes "length key = 16" "n \<le> 10"
  shows "length (foldl rijndael_key_step
      [GETU32 key, GETU32 (drop 4 key), GETU32 (drop 8 key), GETU32 (drop 12 key)] [0..<n]) = 4 * Suc n
    \<and> (\<forall>i\<le>n. rk_at (foldl rijndael_key_step
        [GETU32 key, GETU32 (drop 4 key), GETU32 (drop 8 key), GETU32 (drop 12 key)] [0..<n]) i (aes_keys key i))"
  using assms(2)
proof (induction n)
  case 0
  from list_16 [OF assms(1)] obtain k0 k1 k2 k3 k4 k5 k6 k7 k8 k9 k10 k11 k12 k13 k14 k15
    where key: "key = [k0, k1, k2, k3, k4, k5, k6, k7, k8, k9, k10, k11, k12, k13, k14, k15]" .
  show ?case by (simp add: rk_at_def words_of_def key GETU32_W)
next
  case (Suc n)
  let ?rk = "foldl rijndael_key_step
      [GETU32 key, GETU32 (drop 4 key), GETU32 (drop 8 key), GETU32 (drop 12 key)] [0..<n]"
  from Suc have IH: "length ?rk = 4 * Suc n" "\<forall>i\<le>n. rk_at ?rk i (aes_keys key i)" by simp_all
  with rijndael_key_step_bytes [OF aes_keys_length [OF assms(1)], of ?rk n n] Suc.prems
  obtain ws where ws: "rijndael_key_step ?rk n = ?rk @ ws" "length ws = 4"
    "(ws ! 0, ws ! 1, ws ! 2, ws ! 3) = words_of (next_key (aes_keys key n) n)"
    by auto
  have "rk_at (?rk @ ws) (Suc n) (aes_keys key (Suc n))"
    using ws(2,3) IH(1) by (simp add: rk_at_def nth_append aes_keys.simps)
  moreover have "rk_at (?rk @ ws) i (aes_keys key i)" if "i \<le> n" for i
    using that IH by (simp add: rk_at_append)
  ultimately show ?case using ws IH(1) by (auto simp: le_Suc_eq)
qed

lemma rijndaelKeySetupEnc_at:
  "length key = 16 \<Longrightarrow> i \<le> 10 \<Longrightarrow> rk_at (rijndaelKeySetupEnc key) i (aes_keys key i)"
  using rijndael_schedule [of key 10] by (simp add: rijndaelKeySetupEnc_def)

lemma rijndaelKeySetupEnc_length: "length key = 16 \<Longrightarrow> length (rijndaelKeySetupEnc key) = 44"
  using rijndael_schedule [of key 10] by (simp add: rijndaelKeySetupEnc_def)

section \<open>The ciphers agree\<close>

text \<open>The state after \<open>n\<close> rounds, round 0 being the first key addition.\<close>

fun aes_state :: "bytes \<Rightarrow> bytes \<Rightarrow> nat \<Rightarrow> bytes" where
  "aes_state key data 0 = xor_128 (aes_keys key 0) data"
| "aes_state key data (Suc n) = byte_round (aes_keys key (Suc n)) (aes_state key data n)"

declare aes_state.simps(2) [simp del]

lemma byte_round_length: "length (byte_round k ct) = 16"
  by (simp add: byte_round_def Let_def)

lemma aes_state_length: "length (aes_state key data n) = 16"
  by (cases n) (simp_all add: byte_round_length aes_state.simps)

lemma aes_round_foldl:
  "n \<le> 9 \<Longrightarrow> foldl aes_round (aes_keys key 1, aes_state key data 0) [1..<Suc n] =
     (aes_keys key (Suc n), aes_state key data n)"
  by (induction n) (simp_all add: aes_round_def byte_round_def Let_def aes_keys.simps(2) aes_state.simps(2))

lemma aes128k128d_state:
  "aes128k128d key data = xor_128 (shift_row (byte_sub (aes_state key data 9))) (aes_keys key 10)"
proof -
  have u: "[1..<11] = [1..<Suc 9] @ [10::nat]" by (simp add: upt_Suc_append [symmetric])
  have k: "next_key (take 16 key) 0 = aes_keys key 1" by (simp add: aes_keys.simps)
  have "foldl aes_round (aes_keys key 1, aes_state key data 0) [1..<Suc 9] = (aes_keys key 10, aes_state key data 9)"
    using aes_round_foldl [of 9 key data] by simp
  then show ?thesis
    unfolding aes128k128d_def Let_def u k foldl_append by (simp add: aes_round_def)
qed

lemma rk_at_drop: "8 \<le> length rk \<Longrightarrow> rk_at (drop 8 rk) i key = rk_at rk (i + 2) key"
  by (simp add: rk_at_def algebra_simps)

lemma rijndael_rounds_bytes:
  assumes "\<forall>i \<le> 2 * r + 1. rk_at rk i (aes_keys key (n + i))" "8 * Suc r \<le> length rk"
  shows "rijndael_rounds (Suc r) rk (words_of (aes_state key data n)) =
    (drop (8 * Suc r) rk, words_of (aes_state key data (n + 2 * r + 1)))"
  using assms
proof (induction r arbitrary: rk n)
  case 0
  then have "rk_at rk 1 (aes_keys key (Suc n))" by (auto dest: spec [of _ 1])
  then show ?case
    by (simp add: rijndael_round_bytes [OF aes_state_length, of _ _ "aes_keys key (Suc n)"] aes_state.simps)
next
  case (Suc r)
  let ?rk = "drop 8 rk"
  have "rk_at rk 1 (aes_keys key (Suc n))" using Suc.prems(1) by (auto dest: spec [of _ 1])
  then have t: "rijndael_round rk 1 (words_of (aes_state key data n)) = words_of (aes_state key data (Suc n))"
    by (simp add: rijndael_round_bytes [OF aes_state_length, of _ _ "aes_keys key (Suc n)"] aes_state.simps)
  have at: "rk_at ?rk i (aes_keys key (n + 2 + i))" if "i \<le> 2 * r + 1" for i
  proof -
    have "rk_at rk (i + 2) (aes_keys key (n + (i + 2)))"
      by (rule Suc.prems(1) [rule_format]) (use that in simp)
    then show ?thesis using Suc.prems(2) by (simp add: rk_at_drop add.commute add.left_commute)
  qed
  then have s: "rijndael_round ?rk 0 (words_of (aes_state key data (Suc n))) = words_of (aes_state key data (n + 2))"
    using rijndael_round_bytes [OF aes_state_length [of key data "Suc n"] at [of 0]] by (simp add: aes_state.simps)
  have "8 * Suc r \<le> length ?rk" using Suc.prems(2) by simp
  with Suc.IH [of ?rk "n + 2"] at show ?case
    unfolding rijndael_rounds.simps(2) [of "Suc r"] Let_def t s by (simp add: add.commute)
qed

lemma rijndael_last_bytes:
  assumes "length ct = 16" "rk_at rk 0 key" "words_of ct = (t0, t1, t2, t3)"
  shows "PUTU32 (TE41 t0 XOR TE42 t1 XOR TE43 t2 XOR TE44 t3 XOR rk ! 0)
      @ PUTU32 (TE41 t1 XOR TE42 t2 XOR TE43 t3 XOR TE44 t0 XOR rk ! 1)
      @ PUTU32 (TE41 t2 XOR TE42 t3 XOR TE43 t0 XOR TE44 t1 XOR rk ! 2)
      @ PUTU32 (TE41 t3 XOR TE42 t0 XOR TE43 t1 XOR TE44 t2 XOR rk ! 3)
    = xor_128 (shift_row (byte_sub ct)) key"
proof -
  from list_16 [OF assms(1)] obtain b0 b1 b2 b3 b4 b5 b6 b7 b8 b9 b10 b11 b12 b13 b14 b15
    where ct: "ct = [b0, b1, b2, b3, b4, b5, b6, b7, b8, b9, b10, b11, b12, b13, b14, b15]" .
  have k: "rk ! 0 = W (key!0) (key!1) (key!2) (key!3)" "rk ! 1 = W (key!4) (key!5) (key!6) (key!7)"
    "rk ! 2 = W (key!8) (key!9) (key!10) (key!11)" "rk ! 3 = W (key!12) (key!13) (key!14) (key!15)"
    using assms(2) by (simp_all add: rk_at_def words_of_def numeral_2_eq_2)
  have t: "t0 = W b0 b1 b2 b3" "t1 = W b4 b5 b6 b7" "t2 = W b8 b9 b10 b11" "t3 = W b12 b13 b14 b15"
    using assms(3) by (simp_all add: ct words_of_def)
  have s: "shift_row (byte_sub ct) = map sbox [b0, b5, b10, b15, b4, b9, b14, b3, b8, b13, b2, b7, b12, b1, b6, b11]"
    by (simp add: ct shift_row_def byte_sub_def upt_16)
  show ?thesis
    unfolding k t s by (simp add: te_simps PUTU32_W xor_128_def upt_16)
qed

lemma rijndael_eq_aes128k128d:
  assumes "length key = 16" "length data = 16"
  shows "rijndaelEncrypt (rijndaelKeySetupEnc key) data = aes128k128d key data"
proof -
  let ?rk = "rijndaelKeySetupEnc key"
  note at = rijndaelKeySetupEnc_at [OF assms(1)] and len = rijndaelKeySetupEnc_length [OF assms(1)]
  from list_16 [OF assms(2)] obtain d0 d1 d2 d3 d4 d5 d6 d7 d8 d9 d10 d11 d12 d13 d14 d15
    where data: "data = [d0, d1, d2, d3, d4, d5, d6, d7, d8, d9, d10, d11, d12, d13, d14, d15]" .
  have k: "(?rk ! 0, ?rk ! 1, ?rk ! 2, ?rk ! 3) = words_of key"
    using at [of 0] assms(1) by (simp add: rk_at_def numeral_2_eq_2)
  have s: "(GETU32 data XOR ?rk ! 0, GETU32 (drop 4 data) XOR ?rk ! 1, GETU32 (drop 8 data) XOR ?rk ! 2,
      GETU32 (drop 12 data) XOR ?rk ! 3) = words_of (aes_state key data 0)"
    using k assms(1) words_of_xor [of key data]
    by (auto simp: data GETU32_W words_of_def Let_def xor.commute)
  obtain t0 t1 t2 t3 where t: "words_of (aes_state key data 9) = (t0, t1, t2, t3)"
    by (cases "words_of (aes_state key data 9)") auto
  have "rijndael_rounds 5 ?rk (words_of (aes_state key data 0)) = (drop 40 ?rk, words_of (aes_state key data 9))"
    using rijndael_rounds_bytes [of 4 ?rk key 0 data] at len by simp
  moreover have "rk_at (drop 40 ?rk) 0 (aes_keys key 10)"
    using at [of 10] len by (simp add: rk_at_def)
  ultimately show ?thesis
    using rijndael_last_bytes [OF aes_state_length _ t, of "drop 40 ?rk" "aes_keys key 10"]
    unfolding rijndaelEncrypt_def Let_def s t aes128k128d_state by simp
qed

section \<open>Properties\<close>

text \<open>C24: the driver's two implementations of AES-128, the byte-oriented one of
  CCMP and the table-driven one of BIP and SIV (key expansion and encryption), compute the same
  function.\<close>

theorem aes_implementations_agree:
  assumes "length key = 16" "length data = 16"
  shows "rijndaelEncrypt (rijndaelKeySetupEnc key) data = aes128k128d key data"
  using assms by (rule rijndael_eq_aes128k128d)

lemma aes_implementations_agree_witness:
  "rijndaelEncrypt (rijndaelKeySetupEnc [0,1,2,3,4,5,6,7,8,9,10,11,12,13,14,15])
     [15,14,13,12,11,10,9,8,7,6,5,4,3,2,1,0]
   = aes128k128d [0,1,2,3,4,5,6,7,8,9,10,11,12,13,14,15] [15,14,13,12,11,10,9,8,7,6,5,4,3,2,1,0]"
  by (rule aes_implementations_agree) simp_all

end
