(* ===== verification/Ccmp.thy ===== *)
theory Ccmp
  imports Rc4Frame Aes "HOL-Library.Signed_Division"
begin

text \<open>
  Software CCMP of core/rtw_security.c: the construction of the CCM header blocks and counter blocks,
  \<open>aes_cipher\<close>, \<open>aes_decipher\<close> with its static \<open>message\<close> buffer, and the frame operations \<open>rtw_aes_encrypt\<close>
  and \<open>rtw_aes_decrypt\<close>. The lemmas give both directions in closed form: the payload XOR a key
  stream, followed by a MIC XOR the zeroth key stream block; decryption accepts a frame exactly when
  its MIC field is the one computed from the decrypted payload.
\<close>

section \<open>Header and counter blocks\<close>

definition WIFI_MGT_TYPE :: u32 where "WIFI_MGT_TYPE = 0"
definition WIFI_DATA :: u32 where "WIFI_DATA = 0x08"
definition WIFI_DATA_CFACK :: u32 where "WIFI_DATA_CFACK = 0x18"
definition WIFI_DATA_CFPOLL :: u32 where "WIFI_DATA_CFPOLL = 0x28"
definition WIFI_DATA_CFACKPOLL :: u32 where "WIFI_DATA_CFACKPOLL = 0x38"

definition frame_ctl :: "bytes \<Rightarrow> u32 option" where
  "frame_ctl f = do { a \<leftarrow> rd f 0; b \<leftarrow> rd f 1; Some (ucast a OR push_bit 8 (ucast b)) }"

definition GetFrameType :: "bytes \<Rightarrow> u32 option" where
  "GetFrameType f = do { fc \<leftarrow> frame_ctl f; Some (fc AND 0x0c) }"

definition get_frame_sub_type :: "bytes \<Rightarrow> u32 option" where
  "get_frame_sub_type f = do { fc \<leftarrow> frame_ctl f; Some (fc AND 0xfc) }"

definition construct_mic_iv :: "bool \<Rightarrow> bool \<Rightarrow> bytes \<Rightarrow> nat \<Rightarrow> bytes \<Rightarrow> u32 \<Rightarrow> bytes option" where
  "construct_mic_iv qc_exists a4_exists mpdu payload_length pn_vector frtype = do {
     b1 \<leftarrow> (if qc_exists \<and> a4_exists then map_option (\<lambda>b. b AND 0x0f) (rd mpdu 30)
           else if qc_exists then map_option (\<lambda>b. b AND 0x0f) (rd mpdu 24)
           else Some 0);
     let b1 = (if frtype = WIFI_MGT_TYPE then b1 OR 0x10 else b1);
     a2 \<leftarrow> get_sub mpdu 10 6;
     Some ([0x59, b1] @ a2 @ map (\<lambda>i. pn_vector ! (13 - i)) [8..<14]
       @ [word_of_nat (payload_length div 256), word_of_nat (payload_length mod 256)]) }"

definition construct_mic_header1 :: "nat \<Rightarrow> bytes \<Rightarrow> u32 \<Rightarrow> bytes option" where
  "construct_mic_header1 header_length mpdu frtype = do {
     m0 \<leftarrow> rd mpdu 0;
     m1 \<leftarrow> rd mpdu 1;
     a12 \<leftarrow> get_sub mpdu 4 12;
     Some ([word_of_int ((int header_length - 2) sdiv 256), word_of_int ((int header_length - 2) smod 256),
            if frtype = WIFI_MGT_TYPE then m0 else m0 AND 0xcf, m1 AND 0xc7] @ a12) }"

definition construct_mic_header2 :: "bytes \<Rightarrow> bool \<Rightarrow> bool \<Rightarrow> bytes option" where
  "construct_mic_header2 mpdu a4_exists qc_exists = do {
     a3 \<leftarrow> get_sub mpdu 16 6;
     tail \<leftarrow> (if \<not> qc_exists \<and> a4_exists then do { a4 \<leftarrow> get_sub mpdu 24 6; Some (a4 @ [0, 0]) }
       else if qc_exists \<and> \<not> a4_exists then do {
         q0 \<leftarrow> rd mpdu 24; q1 \<leftarrow> rd mpdu 25;
         Some ([q0 AND 0x0f, q1 AND 0x00] @ replicate 6 0) }
       else if qc_exists \<and> a4_exists then do {
         a4 \<leftarrow> get_sub mpdu 24 6; q0 \<leftarrow> rd mpdu 30; q1 \<leftarrow> rd mpdu 31;
         Some (a4 @ [q0 AND 0x0f, q1 AND 0x00]) }
       else Some (replicate 8 0));
     Some (a3 @ [0, 0] @ tail) }"

definition construct_ctr_preload :: "bool \<Rightarrow> bool \<Rightarrow> bytes \<Rightarrow> bytes \<Rightarrow> nat \<Rightarrow> u32 \<Rightarrow> bytes option" where
  "construct_ctr_preload a4_exists qc_exists mpdu pn_vector c frtype = do {
     b1 \<leftarrow> (if qc_exists \<and> a4_exists then map_option (\<lambda>b. b AND 0x0f) (rd mpdu 30)
           else if qc_exists then map_option (\<lambda>b. b AND 0x0f) (rd mpdu 24)
           else Some 0);
     let b1 = (if frtype = WIFI_MGT_TYPE then b1 OR 0x10 else b1);
     a2 \<leftarrow> get_sub mpdu 10 6;
     Some ([0x01, b1] @ a2 @ map (\<lambda>i. pn_vector ! (13 - i)) [8..<14]
       @ [word_of_nat (c div 256), word_of_nat (c mod 256)]) }"

section \<open>The passes over the payload\<close>

text \<open>Whether the header has a fourth address, whether it has a QoS field, and the header length the
  code goes on with. The first comparison can never hold: \<open>frsubtype\<close> was shifted right by four.\<close>

definition ccmp_header :: "nat \<Rightarrow> u32 \<Rightarrow> u32 \<Rightarrow> bool \<times> bool \<times> nat" where
  "ccmp_header hdrlen frtype frsubtype =
     (let a4_exists = \<not> (hdrlen = 24 \<or> hdrlen = 26);
          hdrlen' = (if hdrlen \<noteq> 26 \<and> hdrlen \<noteq> 32 then hdrlen + 2 else hdrlen)
      in if (frtype OR frsubtype) = WIFI_DATA_CFACK \<or> (frtype OR frsubtype) = WIFI_DATA_CFPOLL
            \<or> (frtype OR frsubtype) = WIFI_DATA_CFACKPOLL
         then (a4_exists, True, hdrlen')
         else if frtype = WIFI_DATA \<and>
            (frsubtype = 0x08 \<or> frsubtype = 0x09 \<or> frsubtype = 0x0a \<or> frsubtype = 0x0b)
         then (a4_exists, True, hdrlen')
         else (a4_exists, False, hdrlen))"

definition ccmp_pn :: "bytes \<Rightarrow> nat \<Rightarrow> bytes option" where
  "ccmp_pn pframe hdrlen = do {
     iv \<leftarrow> get_sub pframe hdrlen 8;
     Some [iv ! 0, iv ! 1, iv ! 4, iv ! 5, iv ! 6, iv ! 7] }"

fun ccm_mic_blocks :: "bytes \<Rightarrow> bytes \<Rightarrow> nat \<Rightarrow> nat \<Rightarrow> bytes \<Rightarrow> (bytes \<times> nat) option" where
  "ccm_mic_blocks key pframe 0 payload_index aes_out = Some (aes_out, payload_index)"
| "ccm_mic_blocks key pframe (Suc n) payload_index aes_out = do {
     b \<leftarrow> get_sub pframe payload_index 16;
     let chain_buffer = xor_128 aes_out b;
     ccm_mic_blocks key pframe n (payload_index + 16) (aes128k128d key chain_buffer) }"

text \<open>The MIC over the three header blocks and the payload; also the index after the payload.\<close>

definition ccm_mic :: "bytes \<Rightarrow> bytes \<Rightarrow> bytes \<Rightarrow> bytes \<Rightarrow> bytes \<Rightarrow> nat \<Rightarrow> nat \<Rightarrow> nat \<Rightarrow> (bytes \<times> nat) option" where
  "ccm_mic key mic_iv mic_header1 mic_header2 pframe num_blocks payload_remainder payload_index = do {
     let aes_out = aes128k128d key mic_iv;
     let aes_out = aes128k128d key (xor_128 aes_out mic_header1);
     let aes_out = aes128k128d key (xor_128 aes_out mic_header2);
     (aes_out, payload_index) \<leftarrow> ccm_mic_blocks key pframe num_blocks payload_index aes_out;
     if payload_remainder > 0 then do {
       b \<leftarrow> get_sub pframe payload_index payload_remainder;
       let padded_buffer = b @ replicate (16 - payload_remainder) 0;
       Some (take 8 (aes128k128d key (xor_128 aes_out padded_buffer)), payload_index + payload_remainder) }
     else Some (take 8 aes_out, payload_index) }"

fun ccm_ctr_blocks ::
  "bytes \<Rightarrow> (bytes \<Rightarrow> nat \<Rightarrow> bytes option) \<Rightarrow> nat \<Rightarrow> nat \<Rightarrow> nat \<Rightarrow> bytes \<Rightarrow> (bytes \<times> nat) option" where
  "ccm_ctr_blocks key preload 0 i payload_index pframe = Some (pframe, payload_index)"
| "ccm_ctr_blocks key preload (Suc n) i payload_index pframe = do {
     ctr_preload \<leftarrow> preload pframe (i + 1);
     let aes_out = aes128k128d key ctr_preload;
     b \<leftarrow> get_sub pframe payload_index 16;
     pframe \<leftarrow> put_sub pframe payload_index (xor_128 aes_out b);
     ccm_ctr_blocks key preload n (i + 1) (payload_index + 16) pframe }"

definition ccm_ctr ::
  "bytes \<Rightarrow> (bytes \<Rightarrow> nat \<Rightarrow> bytes option) \<Rightarrow> nat \<Rightarrow> nat \<Rightarrow> nat \<Rightarrow> bytes \<Rightarrow> (bytes \<times> nat) option" where
  "ccm_ctr key preload num_blocks payload_remainder payload_index pframe = do {
     (pframe, payload_index) \<leftarrow> ccm_ctr_blocks key preload num_blocks 0 payload_index pframe;
     if payload_remainder > 0 then do {
       ctr_preload \<leftarrow> preload pframe (num_blocks + 1);
       b \<leftarrow> get_sub pframe payload_index payload_remainder;
       let padded_buffer = b @ replicate (16 - payload_remainder) 0;
       let chain_buffer = xor_128 (aes128k128d key ctr_preload) padded_buffer;
       pframe \<leftarrow> put_sub pframe payload_index (take payload_remainder chain_buffer);
       Some (pframe, payload_index + payload_remainder) }
     else Some (pframe, payload_index) }"

text \<open>Encryption of the MIC, which was inserted after the payload.\<close>

definition ccm_seal_mic ::
  "bytes \<Rightarrow> (bytes \<Rightarrow> nat \<Rightarrow> bytes option) \<Rightarrow> nat \<Rightarrow> nat \<Rightarrow> bytes \<Rightarrow> bytes option" where
  "ccm_seal_mic key preload mic_index payload_index pframe = do {
     ctr_preload \<leftarrow> preload pframe 0;
     b \<leftarrow> get_sub pframe mic_index 8;
     let padded_buffer = b @ replicate 8 0;
     let chain_buffer = xor_128 (aes128k128d key ctr_preload) padded_buffer;
     put_sub pframe payload_index (take 8 chain_buffer) }"

section \<open>Encryption and decryption of one frame\<close>

definition aes_cipher :: "bytes \<Rightarrow> u32 \<Rightarrow> bytes \<Rightarrow> u32 \<Rightarrow> bytes option" where
  "aes_cipher key hdrlen pframe plen = do {
     frtype \<leftarrow> GetFrameType pframe;
     frsubtype \<leftarrow> get_frame_sub_type pframe;
     let frsubtype = drop_bit 4 frsubtype;
     let (a4_exists, qc_exists, hdrlen) = ccmp_header (unat hdrlen) frtype frsubtype;
     pn_vector \<leftarrow> ccmp_pn pframe hdrlen;
     mic_iv \<leftarrow> construct_mic_iv qc_exists a4_exists pframe (unat plen) pn_vector frtype;
     mic_header1 \<leftarrow> construct_mic_header1 hdrlen pframe frtype;
     mic_header2 \<leftarrow> construct_mic_header2 pframe a4_exists qc_exists;
     let payload_remainder = unat plen mod 16;
     let num_blocks = unat plen div 16;
     (mic, payload_index) \<leftarrow> ccm_mic key mic_iv mic_header1 mic_header2 pframe num_blocks payload_remainder
        (hdrlen + 8);
     pframe \<leftarrow> put_sub pframe payload_index mic;
     let preload = (\<lambda>f c. construct_ctr_preload a4_exists qc_exists f pn_vector c frtype);
     (pframe, payload_index) \<leftarrow> ccm_ctr key preload num_blocks payload_remainder (hdrlen + 8) pframe;
     ccm_seal_mic key preload (hdrlen + 8 + unat plen) payload_index pframe }"

definition MAX_MSG_SIZE :: nat where "MAX_MSG_SIZE = 2048"

text \<open>\<open>message\<close> is the static buffer of \<open>MAX_MSG_SIZE\<close> bytes, threaded through the calls. Before the first
  pass the packet number is read at the header length passed by the caller, after it at the adjusted
  one.\<close>

definition aes_decipher :: "bytes \<Rightarrow> u32 \<Rightarrow> bytes \<Rightarrow> u32 \<Rightarrow> bytes \<Rightarrow> (rtw_res \<times> bytes \<times> bytes) option" where
  "aes_decipher key hdrlen pframe plen message = do {
     frtype \<leftarrow> GetFrameType pframe;
     frsubtype \<leftarrow> get_frame_sub_type pframe;
     let frsubtype = drop_bit 4 frsubtype;
     let num_blocks = unat (plen - 8) div 16;
     let payload_remainder = unat (plen - 8) mod 16;
     pn_vector \<leftarrow> ccmp_pn pframe (unat hdrlen);
     let (a4_exists, qc_exists, hdrlen) = ccmp_header (unat hdrlen) frtype frsubtype;
     (pframe, _) \<leftarrow> ccm_ctr key (\<lambda>f c. construct_ctr_preload a4_exists qc_exists f pn_vector c frtype)
        num_blocks payload_remainder (hdrlen + 8) pframe;
     message \<leftarrow> (if hdrlen + unat plen + 8 \<le> MAX_MSG_SIZE then do {
          copy \<leftarrow> get_sub pframe 0 (hdrlen + unat plen + 8);
          put_sub message 0 copy }
        else Some message);
     pn_vector \<leftarrow> ccmp_pn pframe hdrlen;
     mic_iv \<leftarrow> construct_mic_iv qc_exists a4_exists message (unat (plen - 8)) pn_vector frtype;
     mic_header1 \<leftarrow> construct_mic_header1 hdrlen message frtype;
     mic_header2 \<leftarrow> construct_mic_header2 message a4_exists qc_exists;
     (mic, payload_index) \<leftarrow> ccm_mic key mic_iv mic_header1 mic_header2 message num_blocks payload_remainder
        (hdrlen + 8);
     message \<leftarrow> put_sub message payload_index mic;
     let preload = (\<lambda>f c. construct_ctr_preload a4_exists qc_exists f pn_vector c frtype);
     (message, payload_index) \<leftarrow> ccm_ctr key preload num_blocks payload_remainder (hdrlen + 8) message;
     message \<leftarrow> ccm_seal_mic key preload (hdrlen + 8 + unat plen - 8) payload_index message;
     got \<leftarrow> get_sub pframe (hdrlen + 8 + unat plen - 8) 8;
     want \<leftarrow> get_sub message (hdrlen + 8 + unat plen - 8) 8;
     Some (if got = want then RTW_SUCCESS else RTW_FAIL, pframe, message) }"

section \<open>Counter mode in closed form\<close>

text \<open>The key stream blocks \<open>K i\<close>, \<open>K (i + 1)\<close>, \dots applied to a byte string.\<close>

definition ks_xor :: "(nat \<Rightarrow> bytes) \<Rightarrow> nat \<Rightarrow> bytes \<Rightarrow> bytes" where
  "ks_xor K i p = map (\<lambda>j. p ! j XOR K (i + j div 16) ! (j mod 16)) [0..<length p]"

lemma ks_xor_length [simp]: "length (ks_xor K i p) = length p"
  by (simp add: ks_xor_def)

lemma ks_xor_involutive: "ks_xor K i (ks_xor K i p) = p"
  by (rule nth_equalityI) (simp_all add: ks_xor_def xor.assoc)

lemma ks_xor_append:
  assumes "length a = 16 * n"
  shows "ks_xor K i (a @ b) = ks_xor K i a @ ks_xor K (i + n) b"
proof (rule nth_equalityI)
  fix j assume "j < length (ks_xor K i (a @ b))"
  then have j: "j < length a + length b" by simp
  show "ks_xor K i (a @ b) ! j = (ks_xor K i a @ ks_xor K (i + n) b) ! j"
  proof (cases "j < length a")
    case False
    define m where "m = j - 16 * n"
    have jm: "j = 16 * n + m" "m < length b" using False j assms by (simp_all add: m_def)
    then have "j div 16 = n + m div 16" "j mod 16 = m mod 16" by simp_all
    with jm assms show ?thesis by (simp add: ks_xor_def nth_append add.assoc)
  qed (simp add: ks_xor_def nth_append)
qed (simp)

lemma ks_xor_block: "length b = 16 \<Longrightarrow> xor_128 (K i) b = ks_xor K i b"
  by (rule nth_equalityI) (simp_all add: ks_xor_def xor_128_def xor.commute)

lemma ks_xor_part:
  "length b \<le> 16 \<Longrightarrow> take (length b) (xor_128 (K i) (b @ replicate (16 - length b) 0)) = ks_xor K i b"
  by (rule nth_equalityI) (simp_all add: ks_xor_def xor_128_def xor.commute nth_append)

lemma take_drop_split: "take (m + n) (drop i b) = take m (drop i b) @ take n (drop (i + m) b)"
  by (simp add: take_add add.commute)

lemma ccm_ctr_blocks_eq:
  assumes "\<And>f c. take h f = take h b \<Longrightarrow> preload f c = Some (P c)" "h \<le> idx" "idx + 16 * n \<le> length b"
  shows "ccm_ctr_blocks key preload n i idx b =
    Some (take idx b @ ks_xor (\<lambda>c. aes128k128d key (P c)) (i + 1) (take (16 * n) (drop idx b))
          @ drop (idx + 16 * n) b, idx + 16 * n)"
  using assms
proof (induction n arbitrary: i idx b)
  case 0
  then show ?case by (simp add: ks_xor_def)
next
  case (Suc n)
  let ?K = "\<lambda>c. aes128k128d key (P c)"
  let ?d = "take 16 (drop idx b)"
  have room: "idx + 16 + 16 * n \<le> length b" using Suc.prems(3) by simp
  then have ld: "length ?d = 16" by simp
  let ?x = "xor_128 (?K (i + 1)) ?d"
  let ?b = "take idx b @ ?x @ drop (idx + 16) b"
  have x: "?x = ks_xor ?K (i + 1) ?d" by (rule ks_xor_block [OF ld, of ?K])
  have sp: "length ?b = length b" "take idx ?b = take idx b" "drop (idx + 16) ?b = drop (idx + 16) b"
    "take 16 (drop idx ?b) = ?x"
    using splice_facts [where b' = ?b and off = idx and m = ?x and n = 16 and b = b] room by simp_all
  have pre: "preload f c = Some (P c)" if "take h f = take h ?b" for f c
    using Suc.prems(1,2) that take_prefix [OF sp(2) Suc.prems(2)] by simp
  have IH: "ccm_ctr_blocks key preload n (i + 1) (idx + 16) ?b =
      Some (take (idx + 16) ?b @ ks_xor ?K (i + 1 + 1) (take (16 * n) (drop (idx + 16) ?b))
        @ drop (idx + 16 + 16 * n) ?b, idx + 16 + 16 * n)"
    using Suc.IH [of ?b "idx + 16" "i + 1"] pre Suc.prems(2) sp(1) room by simp
  have t1: "take (idx + 16) ?b = take idx b @ ?x"
    using room by simp
  have d2: "drop (idx + 16 + 16 * n) ?b = drop (idx + 16 * Suc n) b"
  proof -
    have e: "idx + 16 * Suc n = idx + 16 + 16 * n" by simp
    show ?thesis unfolding e by (rule drop_suffix [OF sp(3)]) simp
  qed
  have ks: "ks_xor ?K (i + 1) (take (16 * Suc n) (drop idx b))
      = ?x @ ks_xor ?K (i + 1 + 1) (take (16 * n) (drop (idx + 16) b))"
    using ks_xor_append [of ?d 1 ?K "i + 1"] ld take_drop_split [of 16 "16 * n" idx b] x by simp
  have "preload b (i + 1) = Some (P (i + 1))" using Suc.prems(1) by blast
  moreover have "get_sub b idx 16 = Some ?d" "put_sub b idx ?x = Some ?b"
    using room by (simp_all add: get_sub_def put_sub_def)
  ultimately show ?case
    using IH unfolding t1 d2 sp(3) ks by (simp add: add.commute add.left_commute)
qed

lemma ccm_ctr_eq:
  assumes "\<And>f c. take h f = take h b \<Longrightarrow> preload f c = Some (P c)" "h \<le> idx" "idx + n \<le> length b"
  shows "ccm_ctr key preload (n div 16) (n mod 16) idx b =
    Some (take idx b @ ks_xor (\<lambda>c. aes128k128d key (P c)) 1 (take n (drop idx b)) @ drop (idx + n) b, idx + n)"
proof -
  let ?K = "\<lambda>c. aes128k128d key (P c)"
  define q r where qr: "q = n div 16" "r = n mod 16"
  have n: "n = 16 * q + r" and r16: "r < 16" by (simp_all add: qr)
  have room: "idx + 16 * q \<le> length b" "idx + 16 * q + r \<le> length b" using assms(3) n by simp_all
  define C where "C = ks_xor ?K 1 (take (16 * q) (drop idx b))"
  define B where B: "B = take idx b @ C @ drop (idx + 16 * q) b"
  have blocks: "ccm_ctr_blocks key preload q 0 idx b = Some (B, idx + 16 * q)"
    using ccm_ctr_blocks_eq [OF assms(1,2) room(1), where key = key and i = 0] by (simp add: B C_def)
  have lc: "length C = 16 * q" using room(1) by (simp add: C_def)
  note sp = splice_facts [OF B lc room(1)]
  define e where e: "e = take r (drop (idx + 16 * q) b)"
  have le: "length e = r" using room(2) by (simp add: e)
  have t1: "take (idx + 16 * q) B = take idx b @ C"
    using room(1) lc by (simp add: B)
  have ks: "ks_xor ?K 1 (take n (drop idx b)) = C @ ks_xor ?K (1 + q) e"
    using ks_xor_append [of "take (16 * q) (drop idx b)" q ?K 1 e] room(1)
      take_drop_split [of "16 * q" r idx b] n by (simp add: C_def e)
  have goal: "ccm_ctr key preload q r idx b =
    Some (take idx b @ ks_xor ?K 1 (take n (drop idx b)) @ drop (idx + n) b, idx + n)"
  proof (cases "r = 0")
    case True
    then show ?thesis using blocks ks n by (simp add: ccm_ctr_def B e ks_xor_def)
  next
    case False
    have pre: "preload B (q + 1) = Some (P (q + 1))"
      using assms(1) take_prefix [OF sp(2) assms(2)] by blast
    have g: "get_sub B (idx + 16 * q) r = Some e"
      using room(2) by (simp add: get_sub_def sp(1,3) e)
    define x where "x = take r (xor_128 (?K (q + 1)) (e @ replicate (16 - r) 0))"
    have x: "x = ks_xor ?K (1 + q) e"
      using ks_xor_part [of e ?K "q + 1"] le r16 by (simp add: x_def)
    have d2: "drop (idx + 16 * q + r) B = drop (idx + n) b"
      using drop_suffix [OF sp(3), of "idx + 16 * q + r"] by (simp add: n add.assoc)
    have p: "put_sub B (idx + 16 * q) x = Some (take idx b @ C @ x @ drop (idx + n) b)"
      using room(2) le d2 by (simp add: put_sub_def sp(1) x t1)
    have "ccm_ctr key preload q r idx b = Some (take idx b @ C @ x @ drop (idx + n) b, idx + 16 * q + r)"
      using False pre g p by (simp add: ccm_ctr_def blocks x_def)
    then show ?thesis unfolding ks by (simp add: x n add.assoc)
  qed
  then show ?thesis by (simp add: qr)
qed

section \<open>The MIC in closed form\<close>

function blocks16 :: "bytes \<Rightarrow> bytes list" where
  "blocks16 p = (if p = [] then []
     else (take 16 p @ replicate (16 - length p) 0) # blocks16 (drop 16 p))"
  by pat_completeness auto
termination by (relation "measure length") auto

declare blocks16.simps [simp del]

definition cbc_from :: "bytes \<Rightarrow> bytes \<Rightarrow> bytes list \<Rightarrow> bytes" where
  "cbc_from key c bs = foldl (\<lambda>c b. aes128k128d key (xor_128 c b)) c bs"

definition ccm_tag :: "bytes \<Rightarrow> bytes \<Rightarrow> bytes \<Rightarrow> bytes \<Rightarrow> bytes \<Rightarrow> bytes" where
  "ccm_tag key mic_iv h1 h2 p = take 8 (cbc_from key (aes128k128d key mic_iv) (h1 # h2 # blocks16 p))"

lemma blocks16_Nil [simp]: "blocks16 [] = []"
  by (simp add: blocks16.simps)

lemma blocks16_block: "length a = 16 \<Longrightarrow> blocks16 (a @ b) = a # blocks16 b"
  by (subst blocks16.simps) auto

lemma ccm_mic_blocks_eq:
  assumes "idx + 16 * n \<le> length b" "length r \<le> 16"
  shows "\<exists>out'. ccm_mic_blocks key b n idx out = Some (out', idx + 16 * n) \<and>
    cbc_from key out (blocks16 (take (16 * n) (drop idx b) @ r)) = cbc_from key out' (blocks16 r)"
  using assms
proof (induction n arbitrary: idx out)
  case 0
  then show ?case by simp
next
  case (Suc n)
  let ?d = "take 16 (drop idx b)"
  have g: "get_sub b idx 16 = Some ?d" using Suc.prems(1) by (simp add: get_sub_def)
  have "length ?d = 16" using Suc.prems(1) by simp
  then have "blocks16 (take (16 * Suc n) (drop idx b) @ r) = ?d # blocks16 (take (16 * n) (drop (idx + 16) b) @ r)"
    using blocks16_block take_drop_split [of 16 "16 * n" idx b] by simp
  with Suc.IH [of "idx + 16" "aes128k128d key (xor_128 out ?d)"] Suc.prems g show ?case
    by (auto simp: cbc_from_def add.commute add.left_commute)
qed

lemma ccm_mic_eq:
  assumes "idx + n \<le> length b"
  shows "ccm_mic key iv h1 h2 b (n div 16) (n mod 16) idx =
    Some (ccm_tag key iv h1 h2 (take n (drop idx b)), idx + n)"
proof -
  let ?q = "n div 16" and ?r = "n mod 16"
  let ?e = "take ?r (drop (idx + 16 * ?q) b)"
  let ?out = "aes128k128d key (xor_128 (aes128k128d key (xor_128 (aes128k128d key iv) h1)) h2)"
  have n: "n = 16 * ?q + ?r" by simp
  have room: "idx + 16 * ?q \<le> length b" "idx + 16 * ?q + ?r \<le> length b" using assms by simp_all
  have le: "length ?e = ?r"
  proof -
    have "?r \<le> length b - (idx + 16 * ?q)" using room(2) by linarith
    then show ?thesis by (simp only: length_take length_drop min_absorb2)
  qed
  have le16: "length ?e \<le> 16" by simp
  obtain out where out: "ccm_mic_blocks key b ?q idx ?out = Some (out, idx + 16 * ?q)"
    "cbc_from key ?out (blocks16 (take (16 * ?q) (drop idx b) @ ?e)) = cbc_from key out (blocks16 ?e)"
    using ccm_mic_blocks_eq [OF room(1) le16] by blast
  have "take (16 * ?q) (drop idx b) @ ?e = take n (drop idx b)"
    using take_drop_split [of "16 * ?q" ?r idx b] n by simp
  with out(2) have tag: "ccm_tag key iv h1 h2 (take n (drop idx b)) = take 8 (cbc_from key out (blocks16 ?e))"
    by (simp add: ccm_tag_def cbc_from_def)
  show ?thesis
  proof (cases "?r = 0")
    case True
    then have "16 * ?q = n" using n by simp
    with True show ?thesis using out(1) tag by (simp add: ccm_mic_def cbc_from_def)
  next
    case False
    then have "blocks16 ?e = [?e @ replicate (16 - ?r) 0]"
      using le by (subst blocks16.simps) (auto simp: less_imp_le)
    moreover have "get_sub b (idx + 16 * ?q) ?r = Some ?e" using room(2) by (simp add: get_sub_def)
    moreover have "idx + 16 * ?q + ?r = idx + n" by simp
    ultimately show ?thesis
      using False tag by (simp add: ccm_mic_def out(1) cbc_from_def)
  qed
qed

section \<open>The blocks depend on the first 32 bytes of the frame\<close>

lemma rd_prefix: "take k f = take k h \<Longrightarrow> i < k \<Longrightarrow> rd f i = rd h i"
proof -
  assume a: "take k f = take k h" "i < k"
  have "rd f i = rd (take k f) i" "rd h i = rd (take k h) i"
    using a(2) by (simp_all add: rd_def)
  then show "rd f i = rd h i" using a(1) by simp
qed

lemma get_sub_prefix: "take k f = take k h \<Longrightarrow> off + n \<le> k \<Longrightarrow> get_sub f off n = get_sub h off n"
proof -
  assume a: "take k f = take k h" "off + n \<le> k"
  have "get_sub f off n = get_sub (take k f) off n" "get_sub h off n = get_sub (take k h) off n"
    using a(2) by (simp_all add: get_sub_def drop_take min_def)
  then show "get_sub f off n = get_sub h off n" using a(1) by simp
qed

lemma frame_prefix:
  assumes "take 32 f = take 32 h"
  shows "GetFrameType f = GetFrameType h" "get_frame_sub_type f = get_frame_sub_type h"
    "construct_mic_iv qc a4 f n pn ft = construct_mic_iv qc a4 h n pn ft"
    "construct_mic_header1 hl f ft = construct_mic_header1 hl h ft"
    "construct_mic_header2 f a4 qc = construct_mic_header2 h a4 qc"
    "construct_ctr_preload a4 qc f pn c ft = construct_ctr_preload a4 qc h pn c ft"
proof -
  note r = rd_prefix [OF assms] get_sub_prefix [OF assms]
  show "GetFrameType f = GetFrameType h" "get_frame_sub_type f = get_frame_sub_type h"
    by (simp_all add: GetFrameType_def get_frame_sub_type_def frame_ctl_def r)
  show "construct_mic_iv qc a4 f n pn ft = construct_mic_iv qc a4 h n pn ft"
    by (simp add: construct_mic_iv_def r)
  show "construct_mic_header1 hl f ft = construct_mic_header1 hl h ft"
    by (simp add: construct_mic_header1_def r)
  show "construct_mic_header2 f a4 qc = construct_mic_header2 h a4 qc"
    by (simp add: construct_mic_header2_def r)
  show "construct_ctr_preload a4 qc f pn c ft = construct_ctr_preload a4 qc h pn c ft"
    by (simp add: construct_ctr_preload_def r)
qed

lemma frame_blocks_Some:
  assumes "32 \<le> length h"
  shows "GetFrameType h \<noteq> None" "get_frame_sub_type h \<noteq> None"
    "construct_mic_iv qc a4 h n pn ft \<noteq> None" "construct_mic_header1 hl h ft \<noteq> None"
    "construct_mic_header2 h a4 qc \<noteq> None" "construct_ctr_preload a4 qc h pn c ft \<noteq> None"
  using assms
  by (auto simp: GetFrameType_def get_frame_sub_type_def frame_ctl_def construct_mic_iv_def
      construct_mic_header1_def construct_mic_header2_def construct_ctr_preload_def rd_def get_sub_def)

section \<open>Both directions in closed form\<close>

text \<open>The parameters of a frame whose header and IV are \<open>h\<close>.\<close>

definition fr_type :: "bytes \<Rightarrow> u32" where "fr_type h = the (GetFrameType h)"
definition fr_sub :: "bytes \<Rightarrow> u32" where "fr_sub h = drop_bit 4 (the (get_frame_sub_type h))"
definition fr_a4 :: "bytes \<Rightarrow> bool" where "fr_a4 h = fst (ccmp_header (length h - 8) (fr_type h) (fr_sub h))"
definition fr_qc :: "bytes \<Rightarrow> bool" where "fr_qc h = fst (snd (ccmp_header (length h - 8) (fr_type h) (fr_sub h)))"
definition fr_pn :: "bytes \<Rightarrow> bytes" where "fr_pn h = the (ccmp_pn h (length h - 8))"

definition ccmp_stream :: "bytes \<Rightarrow> bytes \<Rightarrow> nat \<Rightarrow> bytes" where
  "ccmp_stream key h c =
     aes128k128d key (the (construct_ctr_preload (fr_a4 h) (fr_qc h) h (fr_pn h) c (fr_type h)))"

definition ccmp_tag :: "bytes \<Rightarrow> bytes \<Rightarrow> bytes \<Rightarrow> bytes" where
  "ccmp_tag key h p = ccm_tag key
     (the (construct_mic_iv (fr_qc h) (fr_a4 h) h (length p) (fr_pn h) (fr_type h)))
     (the (construct_mic_header1 (length h - 8) h (fr_type h)))
     (the (construct_mic_header2 h (fr_a4 h) (fr_qc h))) p"

text \<open>A header of at least 24 bytes that the code does not lengthen, followed by the eight-byte IV.\<close>

definition ccmp_head :: "nat \<Rightarrow> bytes \<Rightarrow> bool" where
  "ccmp_head hdrlen h \<longleftrightarrow> 24 \<le> hdrlen \<and> length h = hdrlen + 8
     \<and> snd (snd (ccmp_header hdrlen (fr_type h) (fr_sub h))) = hdrlen"

lemma ccmp_header_eq:
  "ccmp_head hdrlen h \<Longrightarrow> ccmp_header hdrlen (fr_type h) (fr_sub h) = (fr_a4 h, fr_qc h, hdrlen)"
  by (cases "ccmp_header hdrlen (fr_type h) (fr_sub h)") (simp add: ccmp_head_def fr_a4_def fr_qc_def)

lemma ccm_tag_length [simp]: "length (ccm_tag key iv h1 h2 p) = 8"
proof -
  have "length (foldl (\<lambda>c b. aes128k128d key (xor_128 c b)) c bs) = 16" if "length c = 16" for c bs
    using that by (induction bs arbitrary: c) simp_all
  then show ?thesis by (simp add: ccm_tag_def cbc_from_def)
qed

lemma ccmp_tag_length [simp]: "length (ccmp_tag key h p) = 8"
  by (simp add: ccmp_tag_def)

lemma ccmp_head_facts:
  assumes "ccmp_head hdrlen h" "take 32 f = take 32 h"
  shows "GetFrameType f = Some (fr_type h)" "map_option (drop_bit 4) (get_frame_sub_type f) = Some (fr_sub h)"
    "construct_mic_iv (fr_qc h) (fr_a4 h) f n pn (fr_type h)
       = Some (the (construct_mic_iv (fr_qc h) (fr_a4 h) h n pn (fr_type h)))"
    "construct_mic_header1 hdrlen f (fr_type h) = Some (the (construct_mic_header1 hdrlen h (fr_type h)))"
    "construct_mic_header2 f (fr_a4 h) (fr_qc h) = Some (the (construct_mic_header2 h (fr_a4 h) (fr_qc h)))"
    "construct_ctr_preload (fr_a4 h) (fr_qc h) f pn c (fr_type h)
       = Some (the (construct_ctr_preload (fr_a4 h) (fr_qc h) h pn c (fr_type h)))"
proof -
  have "32 \<le> length h" using assms(1) by (simp add: ccmp_head_def)
  note s = frame_blocks_Some [OF this]
  show "GetFrameType f = Some (fr_type h)" "map_option (drop_bit 4) (get_frame_sub_type f) = Some (fr_sub h)"
    using s(1,2) by (auto simp: frame_prefix [OF assms(2)] fr_type_def fr_sub_def)
  show "construct_mic_iv (fr_qc h) (fr_a4 h) f n pn (fr_type h)
       = Some (the (construct_mic_iv (fr_qc h) (fr_a4 h) h n pn (fr_type h)))"
    "construct_mic_header1 hdrlen f (fr_type h) = Some (the (construct_mic_header1 hdrlen h (fr_type h)))"
    "construct_mic_header2 f (fr_a4 h) (fr_qc h) = Some (the (construct_mic_header2 h (fr_a4 h) (fr_qc h)))"
    "construct_ctr_preload (fr_a4 h) (fr_qc h) f pn c (fr_type h)
       = Some (the (construct_ctr_preload (fr_a4 h) (fr_qc h) h pn c (fr_type h)))"
    using s(3-6) by (simp_all add: frame_prefix [OF assms(2)] option.collapse)
qed

lemma ccmp_pn_head:
  assumes "ccmp_head hdrlen h"
  shows "ccmp_pn (h @ x) hdrlen = Some (fr_pn h)"
proof -
  have l: "length h = hdrlen + 8" using assms by (simp add: ccmp_head_def)
  then have "get_sub (h @ x) hdrlen 8 = get_sub h hdrlen 8" by (simp add: get_sub_def)
  with l show ?thesis by (simp add: ccmp_pn_def fr_pn_def get_sub_def)
qed

text \<open>The three passes on a frame in parts.\<close>

lemma ccmp_ctr_parts:
  assumes "ccmp_head hdrlen h"
  shows "ccm_ctr key (\<lambda>f c. construct_ctr_preload (fr_a4 h) (fr_qc h) f (fr_pn h) c (fr_type h))
      (length p div 16) (length p mod 16) (hdrlen + 8) (h @ p @ x)
    = Some (h @ ks_xor (ccmp_stream key h) 1 p @ x, hdrlen + 8 + length p)"
proof -
  have l: "length h = hdrlen + 8" "32 \<le> hdrlen + 8" using assms by (simp_all add: ccmp_head_def)
  have t: "take 32 (h @ p @ x) = take 32 h" using l by simp
  have "ccm_ctr key (\<lambda>f c. construct_ctr_preload (fr_a4 h) (fr_qc h) f (fr_pn h) c (fr_type h))
      (length p div 16) (length p mod 16) (hdrlen + 8) (h @ p @ x)
    = Some (take (hdrlen + 8) (h @ p @ x)
        @ ks_xor (ccmp_stream key h) 1 (take (length p) (drop (hdrlen + 8) (h @ p @ x)))
        @ drop (hdrlen + 8 + length p) (h @ p @ x), hdrlen + 8 + length p)"
    unfolding ccmp_stream_def
  proof (rule ccm_ctr_eq [where h = 32])
    fix f c assume "take 32 f = take 32 (h @ p @ x)"
    then have "take 32 f = take 32 h" using t by (rule trans)
    then show "construct_ctr_preload (fr_a4 h) (fr_qc h) f (fr_pn h) c (fr_type h)
        = Some (the (construct_ctr_preload (fr_a4 h) (fr_qc h) h (fr_pn h) c (fr_type h)))"
      by (rule ccmp_head_facts(6) [OF assms])
  next
    show "32 \<le> hdrlen + 8" by (rule l)
    show "hdrlen + 8 + length p \<le> length (h @ p @ x)" by (simp add: l(1))
  qed
  with l(1) show ?thesis by simp
qed

lemma ccmp_mic_parts:
  assumes "ccmp_head hdrlen h"
  shows "ccm_mic key (the (construct_mic_iv (fr_qc h) (fr_a4 h) h (length p) (fr_pn h) (fr_type h)))
      (the (construct_mic_header1 hdrlen h (fr_type h))) (the (construct_mic_header2 h (fr_a4 h) (fr_qc h)))
      (h @ p @ x) (length p div 16) (length p mod 16) (hdrlen + 8)
    = Some (ccmp_tag key h p, hdrlen + 8 + length p)"
  using assms by (subst ccm_mic_eq) (simp_all add: ccmp_head_def ccmp_tag_def)

lemma ccmp_seal_parts:
  assumes "ccmp_head hdrlen h" "length m = 8"
  shows "ccm_seal_mic key (\<lambda>f c. construct_ctr_preload (fr_a4 h) (fr_qc h) f (fr_pn h) c (fr_type h))
      (hdrlen + 8 + length c) (hdrlen + 8 + length c) (h @ c @ m @ x)
    = Some (h @ c @ ks_xor (ccmp_stream key h) 0 m @ x)"
proof -
  have l: "length h = hdrlen + 8" "32 \<le> hdrlen + 8" using assms by (simp_all add: ccmp_head_def)
  have t: "take 32 (h @ c @ m @ x) = take 32 h" using l by simp
  have "take 8 (xor_128 (ccmp_stream key h 0) (m @ replicate 8 0)) = ks_xor (ccmp_stream key h) 0 m"
    using ks_xor_part [of m "ccmp_stream key h" 0] assms(2) by simp
  with l assms(2) show ?thesis
    by (simp add: ccm_seal_mic_def ccmp_head_facts(6) [OF assms(1) t] get_sub_def put_sub_def ccmp_stream_def)
qed

lemma aes_cipher_parts:
  assumes h: "ccmp_head (unat hdrlen) h" and p: "length p = unat plen" and m: "length m = 8"
  shows "aes_cipher key hdrlen (h @ p @ m @ x) plen =
    Some (h @ ks_xor (ccmp_stream key h) 1 p @ ks_xor (ccmp_stream key h) 0 (ccmp_tag key h p) @ x)"
proof -
  let ?f = "h @ p @ m @ x" and ?t = "ccmp_tag key h p"
  have l: "length h = unat hdrlen + 8" "32 \<le> unat hdrlen + 8" using h by (simp_all add: ccmp_head_def)
  have t: "take 32 ?f = take 32 h" using l by simp
  note facts = ccmp_head_facts [OF h t]
  obtain st where st: "get_frame_sub_type ?f = Some st" "drop_bit 4 st = fr_sub h"
    using facts(2) by auto
  have ins: "put_sub ?f (unat hdrlen + 8 + length p) ?t = Some (h @ p @ ?t @ x)"
    using l m by (simp add: put_sub_def)
  have lc: "length p = length (ks_xor (ccmp_stream key h) 1 p)" by simp
  show ?thesis
    using ccmp_seal_parts [OF h ccmp_tag_length [of key h p], where key = key
        and c = "ks_xor (ccmp_stream key h) 1 p" and x = x] ins
    by (simp add: aes_cipher_def facts st Let_def ccmp_header_eq [OF h] ccmp_pn_head [OF h]
        ccmp_mic_parts [OF h] ccmp_ctr_parts [OF h] p [symmetric])
qed

lemma aes_decipher_parts:
  assumes h: "ccmp_head (unat hdrlen) h" and c: "unat plen = length c + 8" and m: "length m = 8"
    and msg: "length message = MAX_MSG_SIZE" "length h + length c + 8 \<le> MAX_MSG_SIZE"
  shows "\<exists>message'. aes_decipher key hdrlen (h @ c @ m @ x) plen message =
    Some (let p = ks_xor (ccmp_stream key h) 1 c
          in (if m = ks_xor (ccmp_stream key h) 0 (ccmp_tag key h p) then RTW_SUCCESS else RTW_FAIL,
              h @ p @ m @ x, message')) \<and> length message' = MAX_MSG_SIZE"
proof -
  define p t r s where "p = ks_xor (ccmp_stream key h) 1 c" and "t = ccmp_tag key h p"
    and "r = drop (length h + length c + 8) message" and "s = ks_xor (ccmp_stream key h) 0 t"
  note d = this
  have lp: "length p = length c" "length t = 8" "length s = 8" by (simp_all add: d)
  have l: "length h = unat hdrlen + 8" "32 \<le> unat hdrlen + 8" using h by (simp_all add: ccmp_head_def)
  have n: "unat (plen - 8) = length c"
    using c by (subst unat_minus_le) simp_all
  have pre: "take 32 (h @ c @ m @ x) = take 32 h" "take 32 (h @ p @ m @ r) = take 32 h" using l by simp_all
  note facts = ccmp_head_facts [OF h pre(1)] ccmp_head_facts [OF h pre(2)]
  obtain st where st: "get_frame_sub_type (h @ c @ m @ x) = Some st" "drop_bit 4 st = fr_sub h"
    using facts(2) by auto
  have copy: "get_sub (h @ p @ m @ x) 0 (unat hdrlen + unat plen + 8) = Some (h @ p @ m)"
    using l c m lp by (simp add: get_sub_def add.commute add.left_commute)
  have cp: "put_sub message 0 (h @ p @ m) = Some (h @ p @ m @ r)"
    using l c m msg lp by (simp add: put_sub_def d(3) add.commute add.left_commute)
  have le: "unat hdrlen + unat plen + 8 \<le> MAX_MSG_SIZE" using msg l c by simp
  have ins: "put_sub (h @ p @ m @ r) (unat hdrlen + 8 + length c) t = Some (h @ p @ t @ r)"
    using l m lp by (simp add: put_sub_def)
  have i: "unat hdrlen + 8 + unat plen - 8 = unat hdrlen + 8 + length c" using c by simp
  have got: "get_sub (h @ p @ m @ x) (unat hdrlen + 8 + length c) 8 = Some m"
    using l m lp by (simp add: get_sub_def)
  have want: "get_sub (h @ c @ s @ r) (unat hdrlen + 8 + length c) 8 = Some s"
    using l lp by (simp add: get_sub_def)
  have inv: "ks_xor (ccmp_stream key h) 1 p = c" unfolding d(1) by (rule ks_xor_involutive)
  have mic: "ccm_mic key (the (construct_mic_iv (fr_qc h) (fr_a4 h) h (length c) (fr_pn h) (fr_type h)))
      (the (construct_mic_header1 (unat hdrlen) h (fr_type h))) (the (construct_mic_header2 h (fr_a4 h) (fr_qc h)))
      (h @ p @ m @ r) (length c div 16) (length c mod 16) (unat hdrlen + 8)
    = Some (t, unat hdrlen + 8 + length c)"
    using ccmp_mic_parts [OF h, of key p "m @ r"] unfolding lp(1) d(2) .
  note ctr1 = ccmp_ctr_parts [OF h, of key c "m @ x", folded d(1)]
  have ctr2: "ccm_ctr key (\<lambda>f c. construct_ctr_preload (fr_a4 h) (fr_qc h) f (fr_pn h) c (fr_type h))
      (length c div 16) (length c mod 16) (unat hdrlen + 8) (h @ p @ t @ r)
    = Some (h @ c @ t @ r, unat hdrlen + 8 + length c)"
    using ccmp_ctr_parts [OF h, of key p "t @ r"] unfolding lp(1) inv .
  note seal = ccmp_seal_parts [OF h lp(2), of key c r, folded d(4)]
  have "aes_decipher key hdrlen (h @ c @ m @ x) plen message =
      Some (if m = s then RTW_SUCCESS else RTW_FAIL, h @ p @ m @ x, h @ c @ s @ r)"
    unfolding aes_decipher_def Let_def facts(1) st n Option.bind.bind_lunit ccmp_pn_head [OF h]
      ccmp_header_eq [OF h] prod.case ctr1 if_P [OF le] copy cp facts(9-12) mic ins ctr2 i seal got want ..
  moreover have "length (h @ c @ s @ r) = MAX_MSG_SIZE" using msg lp by (simp add: d(3))
  ultimately show ?thesis by (auto simp: Let_def d)
qed

section \<open>The frame operations\<close>

definition aes_tx_key :: "security_priv \<Rightarrow> pkt_attrib \<Rightarrow> bytes option" where
  "aes_tx_key sec pa =
     (if IS_MCAST (pa_ra pa) then rd (dot118021XGrpKey sec) (unat (dot118021XGrpKeyid sec))
      else Some (pa_UncstKey pa))"

definition aes_encrypt_frag ::
  "security_priv \<Rightarrow> pkt_attrib \<Rightarrow> nat \<Rightarrow> u32 \<Rightarrow> unit \<times> bytes \<Rightarrow> (unit \<times> bytes) option" where
  "aes_encrypt_frag sec pa pframe txlen = (\<lambda>(u, buf). do {
     prwskey \<leftarrow> aes_tx_key sec pa;
     if pframe \<le> length buf then do {
       f \<leftarrow> aes_cipher prwskey (ucast (pa_hdrlen pa)) (drop pframe buf) (word_of_int (tx_payload_len pa txlen));
       Some (u, take pframe buf @ f) }
     else None })"

definition rtw_aes_encrypt :: "adapter \<Rightarrow> xmit_frame \<Rightarrow> (rtw_res \<times> adapter \<times> xmit_frame) option" where
  "rtw_aes_encrypt ad xf = (case xf_buf xf of
     None \<Rightarrow> Some (RTW_FAIL, ad, xf)
   | Some buf \<Rightarrow>
       (let pa = xf_attrib xf in
        if pa_encrypt pa = ENC_AES then do {
          (u, buf) \<leftarrow> frag_loop (aes_encrypt_frag (ad_sec ad) pa) (xf_base xf) (ad_frag_len ad)
             (pa_last_txcmdsz pa) (unat (pa_nr_frags pa)) TXDESC_OFFSET ((), buf);
          let sec = ad_sec ad;
          let sec = sec\<lparr>aes_sw_enc_cnt := sw_cnt_inc (pa_ra pa) (aes_sw_enc_cnt sec)\<rparr>;
          Some (RTW_SUCCESS, ad\<lparr>ad_sec := sec\<rparr>, xf\<lparr>xf_buf := Some buf\<rparr>) }
        else Some (RTW_SUCCESS, ad, xf)))"

text \<open>\<open>Some None\<close> is an early \<open>_FAIL\<close>: no group key installed, or a group key index that is not the
  installed one.\<close>

definition aes_rx_key :: "security_priv \<Rightarrow> rx_pkt_attrib \<Rightarrow> sta_info \<Rightarrow> bytes option option" where
  "aes_rx_key sec ra stainfo =
     (if IS_MCAST (ra_ra ra) then
        (if \<not> binstallGrpkey sec then Some None
         else if dot118021XGrpKeyid sec \<noteq> ucast (ra_key_index ra) then Some None
         else do { k \<leftarrow> rd (dot118021XGrpKey sec) (unat (ra_key_index ra)); Some (Some k) })
      else Some (Some (si_UncstKey stainfo)))"

definition rtw_aes_decrypt :: "adapter \<Rightarrow> recv_frame \<Rightarrow> (rtw_res \<times> adapter \<times> recv_frame) option" where
  "rtw_aes_decrypt ad rf =
     (let ra = rf_attrib rf; sec = ad_sec ad in
      if ra_encrypt ra = ENC_AES then
        (case rtw_get_stainfo (ad_sta_hash ad) (ra_ta ra) of
           None \<Rightarrow> Some (RTW_FAIL, ad, rf)
         | Some stainfo \<Rightarrow> do {
             key \<leftarrow> aes_rx_key sec ra stainfo;
             case key of
               None \<Rightarrow> Some (RTW_FAIL, ad, rf)
             | Some prwskey \<Rightarrow> do {
                 (res, pframe, message) \<leftarrow> aes_decipher prwskey (ucast (ra_hdrlen ra)) (rx_data rf)
                    (word_of_int (rx_payload_len rf)) (ad_message ad);
                 let sec = sec\<lparr>aes_sw_dec_cnt := sw_cnt_inc (ra_ra ra) (aes_sw_dec_cnt sec)\<rparr>;
                 Some (res, ad\<lparr>ad_sec := sec, ad_message := message\<rparr>, rf\<lparr>rx_data := pframe\<rparr>) } })
      else Some (RTW_SUCCESS, ad, rf))"

section \<open>The fragments of a CCMP frame\<close>

definition ccmp_room :: "security_priv \<Rightarrow> pkt_attrib \<Rightarrow> u32 \<Rightarrow> bool" where
  "ccmp_room sec pa len \<longleftrightarrow> pa_icv_len pa = 8 \<and> pa_iv_len pa = 8 \<and> unat len < 2 ^ 31
     \<and> unat (pa_hdrlen pa) + 16 \<le> unat len \<and> aes_tx_key sec pa \<noteq> None"

abbreviation ccmp_hlen :: "pkt_attrib \<Rightarrow> nat" where
  "ccmp_hlen pa \<equiv> unat (pa_hdrlen pa) + 8"

lemma ccmp_room_len:
  assumes "ccmp_room sec pa len"
  shows "unat (word_of_int (tx_payload_len pa len) :: u32) = unat len - ccmp_hlen pa - 8"
proof -
  have r: "unat (pa_hdrlen pa) + 16 \<le> unat len" "pa_icv_len pa = 8" "pa_iv_len pa = 8"
    using assms by (simp_all add: ccmp_room_def)
  have w: "word_of_int (sint w) = (w :: u32)" for w by simp
  have c8: "(ucast (8::u8) :: u32) = 8" by simp
  have 1: "unat (len - ucast (pa_hdrlen pa)) = unat len - unat (pa_hdrlen pa)"
    using r by (simp add: unat_minus_le)
  then have 2: "unat (len - ucast (pa_hdrlen pa) - 8) = unat len - unat (pa_hdrlen pa) - 8"
    using r(1) by (subst unat_minus_le) simp_all
  then have 3: "unat (len - ucast (pa_hdrlen pa) - 8 - 8) = unat len - unat (pa_hdrlen pa) - 8 - 8"
    using r(1) by (subst unat_minus_le) simp_all
  then show ?thesis
    unfolding tx_payload_len_def w r c8 by simp
qed

definition ccmp_frag_ok :: "pkt_attrib \<Rightarrow> bytes \<Rightarrow> bool" where
  "ccmp_frag_ok pa f \<longleftrightarrow> ccmp_head (unat (pa_hdrlen pa)) (take (ccmp_hlen pa) f)"

definition ccmp_frag_rel :: "bytes \<Rightarrow> pkt_attrib \<Rightarrow> bytes \<Rightarrow> bytes \<Rightarrow> bool" where
  "ccmp_frag_rel key pa f c \<longleftrightarrow>
     (let h = take (ccmp_hlen pa) f; p = take (length f - ccmp_hlen pa - 8) (drop (ccmp_hlen pa) f)
      in c = h @ ks_xor (ccmp_stream key h) 1 p @ ks_xor (ccmp_stream key h) 0 (ccmp_tag key h p))"

text \<open>A fragment inside a buffer, cut into header, payload, trailer and what follows.\<close>

lemma frag_parts:
  assumes "off + unat len \<le> length b" "hl + 8 \<le> unat len"
  defines "f \<equiv> frag_bytes off len b"
  shows "drop off b = take hl f @ take (length f - hl - 8) (drop hl f) @ drop (length f - 8) f @ drop (off + unat len) b"
    "length f = unat len" "length (take hl f) = hl" "length (drop (length f - 8) f) = 8"
proof -
  have l: "length f = unat len" using assms(1) by (simp add: f_def frag_bytes_def)
  then show "length f = unat len" "length (take hl f) = hl" "length (drop (length f - 8) f) = 8"
    using assms(2) by simp_all
  have "drop off b = f @ drop (off + unat len) b"
    unfolding f_def frag_bytes_def by (metis append_take_drop_id drop_drop add.commute)
  moreover have "f = take hl f @ take (length f - hl - 8) (drop hl f) @ drop (length f - 8) f"
  proof -
    have "drop (length f - 8) f = drop (length f - hl - 8) (drop hl f)"
      using l assms(2) by simp
    then show ?thesis by (simp only: append_take_drop_id)
  qed
  ultimately show "drop off b = take hl f @ take (length f - hl - 8) (drop hl f) @ drop (length f - 8) f
      @ drop (off + unat len) b"
    by (metis append_assoc)
qed

lemma aes_encrypt_frag_eq:
  assumes room: "ccmp_room sec pa len" and ok: "ccmp_frag_ok pa (frag_bytes off len b)"
    and len: "off + unat len \<le> length b" and key: "aes_tx_key sec pa = Some key"
  shows "\<exists>c. aes_encrypt_frag sec pa off len ((), b) = Some ((), take off b @ c @ drop (off + unat len) b)
    \<and> length c = unat len \<and> ccmp_frag_rel key pa (frag_bytes off len b) c"
proof -
  let ?f = "frag_bytes off len b"
  let ?hl = "ccmp_hlen pa"
  let ?h = "take ?hl ?f" and ?p = "take (length ?f - ?hl - 8) (drop ?hl ?f)"
  have le: "?hl + 8 \<le> unat len" using room by (simp add: ccmp_room_def)
  note parts = frag_parts [OF len le]
  have head: "ccmp_head (unat (ucast (pa_hdrlen pa) :: u32)) ?h"
    using ok by (simp add: ccmp_frag_ok_def)
  have lp: "length ?p = unat (word_of_int (tx_payload_len pa len) :: u32)"
    unfolding ccmp_room_len [OF room] parts(2) using parts(2) by simp
  let ?c = "?h @ ks_xor (ccmp_stream key ?h) 1 ?p @ ks_xor (ccmp_stream key ?h) 0 (ccmp_tag key ?h ?p)"
  have "aes_cipher key (ucast (pa_hdrlen pa)) (drop off b) (word_of_int (tx_payload_len pa len))
      = Some (?c @ drop (off + unat len) b)"
    using aes_cipher_parts [OF head lp parts(4), of key "drop (off + unat len) b"] unfolding parts(1) [symmetric]
    by simp
  moreover have "off \<le> length b" using len by simp
  moreover have "length ?c = unat len"
    using parts(2,3) le by simp
  moreover have "ccmp_frag_rel key pa ?f ?c" by (simp add: ccmp_frag_rel_def Let_def)
  ultimately show ?thesis using key by (auto simp: aes_encrypt_frag_def)
qed

lemma ccm_mic_blocks_index:
  "ccm_mic_blocks key b n idx out = Some (out', i) \<Longrightarrow> length out = 16 \<Longrightarrow> i = idx + 16 * n \<and> length out' = 16"
proof (induction n arbitrary: idx out)
  case (Suc n)
  then obtain c where "ccm_mic_blocks key b n (idx + 16) (aes128k128d key (xor_128 out c)) = Some (out', i)"
    by (auto split: Option.bind_splits)
  from Suc.IH [OF this] show ?case by simp
qed simp

lemma ccm_mic_index:
  "ccm_mic key iv h1 h2 b nb r idx = Some (m, i) \<Longrightarrow> i = idx + 16 * nb + r \<and> length m = 8"
  by (auto simp: ccm_mic_def Let_def split: Option.bind_splits if_splits dest!: ccm_mic_blocks_index)

lemma aes_cipher_room:
  assumes h: "ccmp_head (unat hdrlen) (take (unat hdrlen + 8) f)"
    and some: "aes_cipher key hdrlen f plen = Some r"
  shows "unat hdrlen + 8 + unat plen + 8 \<le> length f"
proof -
  let ?h = "take (unat hdrlen + 8) f"
  have "32 \<le> unat hdrlen + 8" using h by (simp add: ccmp_head_def)
  then have t: "take 32 f = take 32 ?h" by (simp add: min_def)
  note facts = ccmp_head_facts [OF h t]
  obtain st where st: "get_frame_sub_type f = Some st" "drop_bit 4 st = fr_sub ?h"
    using facts(2) by auto
  have pn: "ccmp_pn f (unat hdrlen) = Some (fr_pn ?h)"
    using ccmp_pn_head [OF h, of "drop (unat hdrlen + 8) f"] by simp
  obtain mic i f' where mic: "ccm_mic key (the (construct_mic_iv (fr_qc ?h) (fr_a4 ?h) ?h (unat plen) (fr_pn ?h) (fr_type ?h)))
      (the (construct_mic_header1 (unat hdrlen) ?h (fr_type ?h))) (the (construct_mic_header2 ?h (fr_a4 ?h) (fr_qc ?h)))
      f (unat plen div 16) (unat plen mod 16) (unat hdrlen + 8) = Some (mic, i)"
    and put: "put_sub f i mic = Some f'"
    using some unfolding aes_cipher_def Let_def facts(1) st Option.bind.bind_lunit ccmp_header_eq [OF h]
      prod.case pn facts(3-5) by (auto split: Option.bind_splits)
  from ccm_mic_index [OF mic] put show ?thesis by (simp add: put_sub_Some)
qed

interpretation ccmp: frag_op "aes_encrypt_frag sec pa" "\<lambda>_. True" "ccmp_room sec pa" "ccmp_frag_ok pa"
  "ccmp_frag_rel (the (aes_tx_key sec pa)) pa" for sec pa
proof
  fix off len and u u' :: unit and b b' :: bytes
  assume a: "aes_encrypt_frag sec pa off len (u, b) = Some (u', b')" "ccmp_room sec pa len"
    "ccmp_frag_ok pa (frag_bytes off len b)"
  obtain key where key: "aes_tx_key sec pa = Some key" using a(2) by (auto simp: ccmp_room_def)
  let ?hl = "ccmp_hlen pa"
  have le: "?hl + 8 \<le> unat len" using a(2) by (simp add: ccmp_room_def)
  have th: "take ?hl (frag_bytes off len b) = take ?hl (drop off b)"
    using le by (simp add: frag_bytes_def min_def)
  obtain r where "aes_cipher key (ucast (pa_hdrlen pa)) (drop off b) (word_of_int (tx_payload_len pa len)) = Some r"
    and off: "off \<le> length b"
    using a(1) key by (auto simp: aes_encrypt_frag_def split: Option.bind_splits if_splits)
  from aes_cipher_room [OF _ this(1)] a(3) th
  have "?hl + unat (word_of_int (tx_payload_len pa len) :: u32) + 8 \<le> length (drop off b)"
    by (simp add: ccmp_frag_ok_def)
  then have len: "off + unat len \<le> length b"
    using le off unfolding ccmp_room_len [OF a(2)] by simp
  obtain c where c: "b' = take off b @ c @ drop (off + unat len) b" "length c = unat len"
    "ccmp_frag_rel key pa (frag_bytes off len b) c"
    using aes_encrypt_frag_eq [OF a(2,3) len key] a(1) by auto
  from splice_facts [OF c(1,2) len] c(3) len key
  show "True \<and> off + unat len \<le> length b \<and> length b' = length b
    \<and> take off b' = take off b \<and> drop (off + unat len) b' = drop (off + unat len) b
    \<and> ccmp_frag_rel (the (aes_tx_key sec pa)) pa (frag_bytes off len b) (frag_bytes off len b')"
    by (simp add: frag_bytes_def)
next
  fix off len and u :: unit and b :: bytes
  assume a: "ccmp_room sec pa len" "off + unat len \<le> length b" "ccmp_frag_ok pa (frag_bytes off len b)"
  then obtain key where "aes_tx_key sec pa = Some key" by (auto simp: ccmp_room_def)
  from aes_encrypt_frag_eq [OF a(1,3,2) this]
  show "\<exists>u' b'. aes_encrypt_frag sec pa off len (u, b) = Some (u', b')" by auto
qed

section \<open>Round trip\<close>

definition ccmp_peer :: "adapter \<Rightarrow> pkt_attrib \<Rightarrow> adapter \<Rightarrow> recv_frame \<Rightarrow> bool" where
  "ccmp_peer ad pa rx rf \<longleftrightarrow>
     (let ra = rf_attrib rf in
      ra_encrypt ra = pa_encrypt pa
      \<and> unat (ra_hdrlen ra) = unat (pa_hdrlen pa) \<and> ra_iv_len ra = pa_iv_len pa
      \<and> (case rtw_get_stainfo (ad_sta_hash rx) (ra_ta ra) of None \<Rightarrow> False
         | Some sta \<Rightarrow> aes_rx_key (ad_sec rx) ra sta = Some (aes_tx_key (ad_sec ad) pa))
      \<and> length (ad_message rx) = MAX_MSG_SIZE \<and> length (rx_data rf) \<le> MAX_MSG_SIZE
      \<and> unat (rf_len rf) = length (rx_data rf))"

definition ccmp_tx_ok :: "adapter \<Rightarrow> xmit_frame \<Rightarrow> bytes \<Rightarrow> bool" where
  "ccmp_tx_ok ad xf buf \<longleftrightarrow>
     (let pa = xf_attrib xf in
      xf_buf xf = Some buf \<and> pa_encrypt pa = ENC_AES
      \<and> ccmp_room (ad_sec ad) pa (ad_frag_len ad) \<and> ccmp_room (ad_sec ad) pa (pa_last_txcmdsz pa)
      \<and> tx_room ad xf buf
      \<and> (\<forall>k < unat (pa_nr_frags pa). ccmp_frag_ok pa (tx_frag ad xf k buf)))"

lemma rtw_aes_encrypt_frags:
  assumes "ccmp_tx_ok ad xf buf"
  shows "\<exists>ad' xf' buf'. rtw_aes_encrypt ad xf = Some (RTW_SUCCESS, ad', xf') \<and> xf_buf xf' = Some buf'
    \<and> length buf' = length buf
    \<and> (\<forall>k < unat (pa_nr_frags (xf_attrib xf)).
         ccmp_frag_rel (the (aes_tx_key (ad_sec ad) (xf_attrib xf))) (xf_attrib xf)
           (tx_frag ad xf k buf) (tx_frag ad xf k buf'))"
  using assms ccmp.tx_frags_rel [where sec = "ad_sec ad" and pa = "xf_attrib xf" and ad = ad and xf = xf and b = buf]
  by (fastforce simp: ccmp_tx_ok_def rtw_aes_encrypt_def Let_def)

text \<open>Reception of header \<open>h\<close>, payload \<open>c\<close> and MIC field \<open>m\<close>, whatever \<open>c\<close> and \<open>m\<close> are.\<close>

lemma rtw_aes_decrypt_parts:
  fixes rf :: recv_frame
  defines "ra \<equiv> rf_attrib rf"
  assumes "ra_encrypt ra = ENC_AES"
    and sta: "rtw_get_stainfo (ad_sta_hash rx) (ra_ta ra) = Some sta"
    and key: "aes_rx_key (ad_sec rx) ra sta = Some (Some k)"
    and h: "ccmp_head (unat (ra_hdrlen ra)) h" "ra_iv_len ra = 8"
    and data: "rx_data rf = h @ c @ m" "length m = 8" "unat (rf_len rf) = length (rx_data rf)"
    and msg: "length (ad_message rx) = MAX_MSG_SIZE" "length (rx_data rf) \<le> MAX_MSG_SIZE"
  shows "\<exists>rx' rf'. rtw_aes_decrypt rx rf =
      Some (if m = ks_xor (ccmp_stream k h) 0 (ccmp_tag k h (ks_xor (ccmp_stream k h) 1 c))
            then RTW_SUCCESS else RTW_FAIL, rx', rf')
    \<and> rx_data rf' = h @ ks_xor (ccmp_stream k h) 1 c @ m \<and> length (ad_message rx') = MAX_MSG_SIZE"
proof -
  have lh: "length h = unat (ra_hdrlen ra) + 8" using h by (simp add: ccmp_head_def)
  have "unat (rf_len rf) < 2 ^ 31"
    using data(3) msg(2) by (simp add: MAX_MSG_SIZE_def)
  then have l: "rx_payload_len rf = int (length c + 8)"
    using rx_payload_room [of rf] data lh h(2) by (simp add: ra_def)
  have "length c + 8 < 4294967296" using data msg(2) by (simp add: MAX_MSG_SIZE_def)
  then have pl: "unat (word_of_int (rx_payload_len rf) :: u32) = length c + 8"
    unfolding l by (simp add: unsigned_of_nat take_bit_nat_eq_self_iff del: of_nat_add)
  have h': "ccmp_head (unat (ucast (ra_hdrlen ra) :: u32)) h" using h by simp
  have room: "length h + length c + 8 \<le> MAX_MSG_SIZE" using data msg by simp
  from aes_decipher_parts [OF h' pl data(2) msg(1) room, of k "[]"]
  obtain message' where "aes_decipher k (ucast (ra_hdrlen ra)) (rx_data rf) (word_of_int (rx_payload_len rf))
        (ad_message rx) =
      Some (if m = ks_xor (ccmp_stream k h) 0 (ccmp_tag k h (ks_xor (ccmp_stream k h) 1 c)) then RTW_SUCCESS
        else RTW_FAIL, h @ ks_xor (ccmp_stream k h) 1 c @ m, message')" "length message' = MAX_MSG_SIZE"
    by (auto simp: data(1) Let_def)
  with assms(2) sta key show ?thesis
    by (simp add: rtw_aes_decrypt_def ra_def Let_def)
qed

lemma ccmp_frag_received:
  assumes ok: "ccmp_tx_ok ad xf buf" and k: "k < unat (pa_nr_frags (xf_attrib xf))"
    and rel: "ccmp_frag_rel (the (aes_tx_key (ad_sec ad) (xf_attrib xf))) (xf_attrib xf) (tx_frag ad xf k buf) c"
    and peer: "ccmp_peer ad (xf_attrib xf) rx rf" and data: "rx_data rf = c"
  shows "\<exists>rx' rf'. rtw_aes_decrypt rx rf = Some (RTW_SUCCESS, rx', rf') \<and>
    (let f = tx_frag ad xf k buf in take (length f - 8) (rx_data rf') = take (length f - 8) f)"
proof -
  let ?pa = "xf_attrib xf" and ?f = "tx_frag ad xf k buf" and ?ra = "rf_attrib rf"
  let ?hl = "ccmp_hlen ?pa"
  let ?h = "take ?hl ?f"
  define p where "p = take (length ?f - ?hl - 8) (drop ?hl ?f)"
  have room: "ccmp_room (ad_sec ad) ?pa (tx_len ad xf k)"
    using ok tx_len_cases [of ad xf k] by (auto simp: ccmp_tx_ok_def Let_def)
  then obtain key where key: "aes_tx_key (ad_sec ad) ?pa = Some key"
    by (auto simp: ccmp_room_def)
  have head: "ccmp_head (unat (pa_hdrlen ?pa)) ?h"
    using ok k by (simp add: ccmp_tx_ok_def Let_def ccmp_frag_ok_def)
  from peer obtain sta where sta: "rtw_get_stainfo (ad_sta_hash rx) (ra_ta ?ra) = Some sta"
    "aes_rx_key (ad_sec rx) ?ra sta = Some (Some key)"
    using key by (auto simp: ccmp_peer_def Let_def split: option.splits)
  have q: "ra_encrypt ?ra = pa_encrypt ?pa" "unat (ra_hdrlen ?ra) = unat (pa_hdrlen ?pa)"
    "ra_iv_len ?ra = pa_iv_len ?pa" "length (ad_message rx) = MAX_MSG_SIZE"
    "length (rx_data rf) \<le> MAX_MSG_SIZE" "unat (rf_len rf) = length (rx_data rf)"
    using peer by (simp_all add: ccmp_peer_def Let_def)
  have lf: "length ?f = unat (tx_len ad xf k)"
    using ok k by (intro tx_frag_length) (simp_all add: ccmp_tx_ok_def Let_def)
  then have le: "?hl + 8 \<le> length ?f" using room by (simp add: ccmp_room_def)
  have enc: "ra_encrypt ?ra = ENC_AES" "ra_iv_len ?ra = 8"
    using ok q room by (simp_all add: ccmp_tx_ok_def ccmp_room_def Let_def)
  have d: "rx_data rf = ?h @ ks_xor (ccmp_stream key ?h) 1 p @ ks_xor (ccmp_stream key ?h) 0 (ccmp_tag key ?h p)"
    using rel data key by (simp add: ccmp_frag_rel_def Let_def p_def)
  have head': "ccmp_head (unat (ra_hdrlen ?ra)) ?h" using head q(2) by simp
  have m8: "length (ks_xor (ccmp_stream key ?h) 0 (ccmp_tag key ?h p)) = 8" by simp
  obtain rx' rf' where r: "rtw_aes_decrypt rx rf = Some (RTW_SUCCESS, rx', rf')"
    "rx_data rf' = ?h @ p @ ks_xor (ccmp_stream key ?h) 0 (ccmp_tag key ?h p)"
    using rtw_aes_decrypt_parts [OF enc(1) sta head' enc(2) d m8 q(6) q(4,5)]
    by (auto simp: ks_xor_involutive)
  have "take (length ?f - 8) ?f = ?h @ p"
    using take_drop_split [of ?hl "length ?f - ?hl - 8" 0 ?f] le by (simp add: p_def)
  moreover have "length (?h @ p) = length ?f - 8" using le by (simp add: p_def)
  moreover have "min (length ?f - 8) ?hl = ?hl" using le by simp
  ultimately show ?thesis using r by (simp add: Let_def)
qed

section \<open>Properties\<close>

text \<open>C14: \<open>rtw_aes_encrypt\<close> succeeds on every buffer with room for its fragments, and a
  receiver that finds the same key accepts with \<open>rtw_aes_decrypt\<close> each fragment put on the air, restoring
  everything but the eight bytes of the MIC field.\<close>

theorem ccmp_roundtrip:
  assumes "ccmp_tx_ok ad xf buf"
  shows "\<exists>ad' xf' buf'. rtw_aes_encrypt ad xf = Some (RTW_SUCCESS, ad', xf') \<and> xf_buf xf' = Some buf' \<and>
    length buf' = length buf \<and>
    (\<forall>k < unat (pa_nr_frags (xf_attrib xf)). \<forall>rx rf.
       ccmp_peer ad (xf_attrib xf) rx rf \<longrightarrow> rx_data rf = tx_frag ad xf k buf' \<longrightarrow>
       (\<exists>rx' rf'. rtw_aes_decrypt rx rf = Some (RTW_SUCCESS, rx', rf') \<and>
         (let f = tx_frag ad xf k buf in take (length f - 8) (rx_data rf') = take (length f - 8) f)))"
  using rtw_aes_encrypt_frags [OF assms] ccmp_frag_received [OF assms] by blast

definition ccmp_demo_ad :: adapter where
  "ccmp_demo_ad = \<lparr>ad_sec = \<lparr>dot11PrivacyKeyIndex = 0, dot11DefKey = [], dot11DefKeylen = [],
     dot118021XGrpKeyid = 1, dot118021XGrpKey = replicate 4 (replicate 16 0x41), binstallGrpkey = True,
     wep_sw_enc_cnt = \<lparr>cnt_bc = 0, cnt_mc = 0, cnt_uc = 0\<rparr>, wep_sw_dec_cnt = \<lparr>cnt_bc = 0, cnt_mc = 0, cnt_uc = 0\<rparr>,
     tkip_sw_enc_cnt = \<lparr>cnt_bc = 0, cnt_mc = 0, cnt_uc = 0\<rparr>, tkip_sw_dec_cnt = \<lparr>cnt_bc = 0, cnt_mc = 0, cnt_uc = 0\<rparr>,
     aes_sw_enc_cnt = \<lparr>cnt_bc = 0, cnt_mc = 0, cnt_uc = 0\<rparr>, aes_sw_dec_cnt = \<lparr>cnt_bc = 0, cnt_mc = 0, cnt_uc = 0\<rparr>\<rparr>,
     ad_frag_len = 50, ad_crc = crc_globals0,
     ad_sta_hash = sta_hash_insert \<lparr>si_mac_addr = [2, 0, 0, 0, 0, 1], si_UncstKey = []\<rparr> (replicate 32 []),
     ad_message = replicate 2048 0\<rparr>"

definition ccmp_demo_xf :: "bytes \<Rightarrow> xmit_frame" where
  "ccmp_demo_xf buf = \<lparr>xf_attrib = \<lparr>pa_encrypt = ENC_AES, pa_hdrlen = 24, pa_iv_len = 8, pa_icv_len = 8,
     pa_nr_frags = 1, pa_last_txcmdsz = 50, pa_ta = [2, 0, 0, 0, 0, 1], pa_ra = replicate 6 0xff,
     pa_UncstKey = []\<rparr>, xf_base = 0, xf_buf = Some buf\<rparr>"

definition ccmp_demo_rf :: "bytes \<Rightarrow> recv_frame" where
  "ccmp_demo_rf data = \<lparr>rf_attrib = \<lparr>ra_encrypt = ENC_AES, ra_hdrlen = 24, ra_iv_len = 8, ra_key_index = 1,
     ra_ta = [2, 0, 0, 0, 0, 1], ra_ra = replicate 6 0xff\<rparr>, rf_len = 50, rx_data = data\<rparr>"

lemma ccmp_demo_station:
  "rtw_get_stainfo (ad_sta_hash ccmp_demo_ad) [2, 0, 0, 0, 0, 1]
     = Some \<lparr>si_mac_addr = [2, 0, 0, 0, 0, 1], si_UncstKey = []\<rparr>"
proof -
  have "sta_hash_ok (replicate 32 [])" by (simp add: sta_hash_ok_def NUM_STA_def)
  moreover have "rtw_get_stainfo (replicate 32 []) [2, 0, 0, 0, 0, 1] = None"
    using wifi_mac_hash_bound [of "sta_key_addr [2, 0, 0, 0, 0, 1]"]
    by (simp add: rtw_get_stainfo_def Let_def NUM_STA_def)
  ultimately show ?thesis
    unfolding ccmp_demo_ad_def by (simp add: sta_hash.get_insert_same sta_key_addr_def IS_MCAST_def)
qed

lemma ccmp_demo_head: "ccmp_head 24 (replicate 32 8)"
  by (simp add: ccmp_head_def ccmp_header_def fr_type_def fr_sub_def GetFrameType_def get_frame_sub_type_def
      frame_ctl_def rd_def WIFI_DATA_def WIFI_DATA_CFACK_def WIFI_DATA_CFPOLL_def WIFI_DATA_CFACKPOLL_def)

lemma ccmp_roundtrip_witness:
  "\<exists>ad' xf' buf' rx' rf'. rtw_aes_encrypt ccmp_demo_ad (ccmp_demo_xf (replicate 82 8)) = Some (RTW_SUCCESS, ad', xf')
    \<and> xf_buf xf' = Some buf'
    \<and> rtw_aes_decrypt ccmp_demo_ad
        (ccmp_demo_rf (tx_frag ccmp_demo_ad (ccmp_demo_xf (replicate 82 8)) 0 buf')) = Some (RTW_SUCCESS, rx', rf')
    \<and> take 42 (rx_data rf') = replicate 42 8"
proof -
  let ?xf = "ccmp_demo_xf (replicate 82 8)"
  note d = ccmp_demo_ad_def ccmp_demo_xf_def ENC_AES_def tx_off_def tx_len_def frag_len_of_def TXDESC_OFFSET_def
  have f0: "tx_frag ccmp_demo_ad ?xf 0 (replicate 82 8) = replicate 50 8"
    by (simp add: d tx_frag_def frag_bytes_def)
  have ok: "ccmp_tx_ok ccmp_demo_ad ?xf (replicate 82 8)"
    using f0 ccmp_demo_head
    by (simp add: ccmp_tx_ok_def Let_def tx_room_def ccmp_frag_ok_def)
      (simp add: d ccmp_room_def aes_tx_key_def rd_def IS_MCAST_def)
  obtain ad' xf' buf' where enc: "rtw_aes_encrypt ccmp_demo_ad ?xf = Some (RTW_SUCCESS, ad', xf')"
    "xf_buf xf' = Some buf'" "length buf' = 82" and
    dec: "\<forall>k < unat (pa_nr_frags (xf_attrib ?xf)). \<forall>rx rf.
       ccmp_peer ccmp_demo_ad (xf_attrib ?xf) rx rf \<longrightarrow> rx_data rf = tx_frag ccmp_demo_ad ?xf k buf' \<longrightarrow>
       (\<exists>rx' rf'. rtw_aes_decrypt rx rf = Some (RTW_SUCCESS, rx', rf') \<and>
         (let f = tx_frag ccmp_demo_ad ?xf k (replicate 82 8)
          in take (length f - 8) (rx_data rf') = take (length f - 8) f))"
    using ccmp_roundtrip [OF ok] by auto
  let ?c = "tx_frag ccmp_demo_ad ?xf 0 buf'"
  have "length ?c = 50" using enc(3) by (simp add: d tx_frag_def frag_bytes_def)
  then have "ccmp_peer ccmp_demo_ad (xf_attrib ?xf) ccmp_demo_ad (ccmp_demo_rf ?c)"
    using ccmp_demo_station
    by (simp add: ccmp_peer_def ccmp_demo_rf_def aes_rx_key_def aes_tx_key_def rd_def d IS_MCAST_def
        MAX_MSG_SIZE_def del: replicate.simps)
  moreover have "rx_data (ccmp_demo_rf ?c) = ?c" by (simp add: ccmp_demo_rf_def)
  moreover have "0 < unat (pa_nr_frags (xf_attrib ?xf))" by (simp add: d)
  ultimately show ?thesis
    using enc f0 dec [rule_format, of 0 ccmp_demo_ad "ccmp_demo_rf ?c"] by (fastforce simp: Let_def)
qed

text \<open>C16: of any frame (header and IV \<open>h\<close>, encrypted payload \<open>c\<close>, MIC field \<open>m\<close>) that fits
  the static buffer, \<open>rtw_aes_decrypt\<close> returns success exactly when the MIC field, decrypted, is the MIC of
  the decrypted payload under the header; a changed MIC field is rejected. The payload is decrypted in
  place in both cases.\<close>

theorem ccmp_accept_iff:
  assumes "ra_encrypt (rf_attrib rf) = ENC_AES"
    and "rtw_get_stainfo (ad_sta_hash rx) (ra_ta (rf_attrib rf)) = Some sta"
    and "aes_rx_key (ad_sec rx) (rf_attrib rf) sta = Some (Some k)"
    and "ccmp_head (unat (ra_hdrlen (rf_attrib rf))) h" "ra_iv_len (rf_attrib rf) = 8"
    and "rx_data rf = h @ c @ m" "length m = 8" "unat (rf_len rf) = length (rx_data rf)"
    and "length (ad_message rx) = MAX_MSG_SIZE" "length (rx_data rf) \<le> MAX_MSG_SIZE"
  shows "\<exists>res rx' rf'. rtw_aes_decrypt rx rf = Some (res, rx', rf')
    \<and> rx_data rf' = h @ ks_xor (ccmp_stream k h) 1 c @ m
    \<and> (res = RTW_SUCCESS \<longleftrightarrow>
         ks_xor (ccmp_stream k h) 0 m = ccmp_tag k h (ks_xor (ccmp_stream k h) 1 c))"
proof -
  have "m = ks_xor K 0 t \<longleftrightarrow> ks_xor K 0 m = t" for K t
    by (metis ks_xor_involutive)
  with rtw_aes_decrypt_parts [OF assms] show ?thesis by auto
qed

lemma ccmp_accept_iff_witness:
  "\<exists>res rx' rf'. rtw_aes_decrypt ccmp_demo_ad (ccmp_demo_rf (replicate 32 8 @ replicate 10 1 @ replicate 8 2))
      = Some (res, rx', rf')
    \<and> rx_data rf' = replicate 32 8 @ ks_xor (ccmp_stream (replicate 16 0x41) (replicate 32 8)) 1 (replicate 10 1)
        @ replicate 8 2
    \<and> (res = RTW_SUCCESS \<longleftrightarrow>
         ks_xor (ccmp_stream (replicate 16 0x41) (replicate 32 8)) 0 (replicate 8 2)
         = ccmp_tag (replicate 16 0x41) (replicate 32 8)
             (ks_xor (ccmp_stream (replicate 16 0x41) (replicate 32 8)) 1 (replicate 10 1)))"
proof (rule ccmp_accept_iff [where sta = "\<lparr>si_mac_addr = [2, 0, 0, 0, 0, 1], si_UncstKey = []\<rparr>"])
  let ?rf = "ccmp_demo_rf (replicate 32 8 @ replicate 10 1 @ replicate 8 2)"
  show "rtw_get_stainfo (ad_sta_hash ccmp_demo_ad) (ra_ta (rf_attrib ?rf))
      = Some \<lparr>si_mac_addr = [2, 0, 0, 0, 0, 1], si_UncstKey = []\<rparr>"
    using ccmp_demo_station by (simp add: ccmp_demo_rf_def)
  show "ccmp_head (unat (ra_hdrlen (rf_attrib ?rf))) (replicate 32 8)"
    using ccmp_demo_head by (simp add: ccmp_demo_rf_def)
  show "aes_rx_key (ad_sec ccmp_demo_ad) (rf_attrib ?rf) \<lparr>si_mac_addr = [2, 0, 0, 0, 0, 1], si_UncstKey = []\<rparr>
      = Some (Some (replicate 16 0x41))"
    by (simp add: ccmp_demo_rf_def ccmp_demo_ad_def aes_rx_key_def rd_def IS_MCAST_def)
qed (simp_all add: ccmp_demo_rf_def ccmp_demo_ad_def MAX_MSG_SIZE_def)

end
