(* ===== verification/Cmac.thy ===== *)
theory Cmac
  imports Rijndael
begin

text \<open>
  OMAC1 (AES-CMAC) of core/rtw_security.c: \<open>gf_mulx\<close>, \<open>omac1_aes_128_vector\<close> over a vector of segments
  and \<open>omac1_aes_128\<close>. The arrays \<open>addr\<close> and \<open>len\<close> are one list of byte strings; it may hold more entries
  than \<open>num_elem\<close>, because the code loads the entry after the last one once the last byte is read.
  The reference is the CMAC of NIST SP 800-38B over the concatenation, for any block function.
\<close>

section \<open>The code\<close>

definition gf_mulx :: "bytes \<Rightarrow> bytes" where
  "gf_mulx pad =
     (let carry = pad ! 0 AND 0x80;
          p = map (\<lambda>i. push_bit 1 (pad ! i) OR drop_bit 7 (pad ! (i + 1))) [0..<15] @ [push_bit 1 (pad ! 15)]
      in if carry \<noteq> 0 then p[15 := p ! 15 XOR 0x87] else p)"

text \<open>\<open>n\<close> bytes read through \<open>*pos++\<close>, moving to the next segment whenever the current one is used up.\<close>

fun omac_read :: "bytes list \<Rightarrow> nat \<Rightarrow> nat \<times> nat \<Rightarrow> (bytes \<times> nat \<times> nat) option" where
  "omac_read addr 0 (e, pos) = Some ([], e, pos)"
| "omac_read addr (Suc n) (e, pos) = do {
     seg \<leftarrow> rd addr e;
     b \<leftarrow> rd seg pos;
     (e, pos) \<leftarrow> (if length seg \<le> Suc pos then do { _ \<leftarrow> rd addr (Suc e); Some (Suc e, 0) } else Some (e, Suc pos));
     (bs, st) \<leftarrow> omac_read addr n (e, pos);
     Some (b # bs, st) }"

text \<open>\<open>cbc[i] ^= b\<close> for the first bytes of the block.\<close>

definition xor_into :: "bytes \<Rightarrow> bytes \<Rightarrow> bytes" where
  "xor_into cbc bs = map (\<lambda>i. if i < length bs then cbc ! i XOR bs ! i else cbc ! i) [0..<length cbc]"

function omac_blocks :: "u32 list \<Rightarrow> bytes list \<Rightarrow> nat \<Rightarrow> bytes \<Rightarrow> nat \<times> nat \<Rightarrow> (nat \<times> bytes \<times> nat \<times> nat) option" where
  "omac_blocks rk addr left cbc st =
     (if 16 \<le> left then do {
        (bs, st) \<leftarrow> omac_read addr 16 st;
        let cbc = xor_into cbc bs;
        let cbc = (if 16 < left then rijndaelEncrypt rk cbc else cbc);
        omac_blocks rk addr (left - 16) cbc st }
      else Some (left, cbc, st))"
  by pat_completeness auto
termination by (relation "measure (\<lambda>(_, _, left, _). left)") auto

declare omac_blocks.simps [simp del]

definition omac1_aes_128_vector :: "bytes \<Rightarrow> nat \<Rightarrow> bytes list \<Rightarrow> bytes option" where
  "omac1_aes_128_vector key num_elem addr = do {
     let ctx = rijndaelKeySetupEnc key;
     let cbc = replicate 16 0;
     let total_len = sum_list (map length (take num_elem addr));
     _ \<leftarrow> rd addr 0;
     (left, cbc, st) \<leftarrow> omac_blocks ctx addr total_len cbc (0, 0);
     let pad = gf_mulx (rijndaelEncrypt ctx (replicate 16 0));
     (cbc, pad) \<leftarrow> (if left \<noteq> 0 \<or> total_len = 0 then do {
          (bs, _) \<leftarrow> omac_read addr left st;
          let cbc = xor_into cbc bs;
          Some (cbc[left := cbc ! left XOR 0x80], gf_mulx pad) }
        else Some (cbc, pad));
     Some (rijndaelEncrypt ctx (xor_into pad cbc)) }"

text \<open>\<open>omac1_aes_128\<close> passes the addresses of its two scalar arguments as arrays of one element; \<open>beyond\<close> is
  what memory holds after them.\<close>

definition omac1_aes_128 :: "bytes list \<Rightarrow> bytes \<Rightarrow> bytes \<Rightarrow> bytes option" where
  "omac1_aes_128 beyond key data = omac1_aes_128_vector key 1 (data # beyond)"

section \<open>The reference\<close>

definition cmac_pad :: "bytes \<Rightarrow> bytes" where
  "cmac_pad m = m @ 0x80 # replicate (15 - length m) 0"

function cmac_from :: "(bytes \<Rightarrow> bytes) \<Rightarrow> bytes \<Rightarrow> bytes \<Rightarrow> bytes" where
  "cmac_from E c m =
     (let k1 = gf_mulx (E (replicate 16 0))
      in if length m < 16 then E (xor_128 (xor_128 c (cmac_pad m)) (gf_mulx k1))
         else if length m = 16 then E (xor_128 (xor_128 c m) k1)
         else cmac_from E (E (xor_128 c (take 16 m))) (drop 16 m))"
  by pat_completeness auto
termination by (relation "measure (\<lambda>(_, _, m). length m)") auto

declare cmac_from.simps [simp del]

definition cmac :: "(bytes \<Rightarrow> bytes) \<Rightarrow> bytes \<Rightarrow> bytes" where
  "cmac E m = cmac_from E (replicate 16 0) m"

section \<open>Reading the segments in order\<close>

text \<open>The bytes from a position on; a position is valid when it is inside a segment, or at the start of
  the entry after the last one.\<close>

definition omac_rest :: "bytes list \<Rightarrow> nat \<Rightarrow> nat \<times> nat \<Rightarrow> bytes" where
  "omac_rest addr num = (\<lambda>(e, pos). drop pos (concat (take (num - e) (drop e addr))))"

definition omac_pos :: "bytes list \<Rightarrow> nat \<Rightarrow> nat \<times> nat \<Rightarrow> bool" where
  "omac_pos addr num = (\<lambda>(e, pos). e < num \<and> pos < length (addr ! e) \<or> e = num \<and> pos = 0)"

lemma omac_rest_cons:
  assumes "e < num" "num < length addr" "pos < length (addr ! e)"
  shows "omac_rest addr num (e, pos) =
    addr ! e ! pos # omac_rest addr num (if length (addr ! e) \<le> Suc pos then (Suc e, 0) else (e, Suc pos))"
proof -
  have d: "drop e addr = addr ! e # drop (Suc e) addr"
    using assms by (simp add: Cons_nth_drop_Suc)
  obtain k where k: "num - e = Suc k" using assms(1) by (cases "num - e") auto
  then have k': "num - Suc e = k" by simp
  have s: "drop pos (addr ! e) = addr ! e ! pos # drop (Suc pos) (addr ! e)"
    using assms(3) by (simp add: Cons_nth_drop_Suc)
  show ?thesis
    using assms(3) by (simp add: omac_rest_def d k k' s)
qed

lemma omac_read_eq:
  assumes "num < length addr" "\<forall>e < num. addr ! e \<noteq> []" "omac_pos addr num st"
    and "n \<le> length (omac_rest addr num st)"
  shows "\<exists>st'. omac_read addr n st = Some (take n (omac_rest addr num st), st') \<and> omac_pos addr num st'
    \<and> omac_rest addr num st' = drop n (omac_rest addr num st)"
  using assms(3,4)
proof (induction n arbitrary: st)
  case 0
  then show ?case by (cases st) simp
next
  case (Suc n)
  obtain e pos where st: "st = (e, pos)" by force
  have e: "e < num" "pos < length (addr ! e)"
    using Suc.prems by (auto simp: st omac_pos_def omac_rest_def)
  let ?st = "if length (addr ! e) \<le> Suc pos then (Suc e, 0) else (e, Suc pos)"
  note rest = omac_rest_cons [OF e(1) assms(1) e(2)]
  have pos: "omac_pos addr num ?st"
    using e assms(2) by (auto simp: omac_pos_def)
  have "n \<le> length (omac_rest addr num ?st)" using Suc.prems(2) rest st by simp
  from Suc.IH [OF pos this] obtain st' where st':
    "omac_read addr n ?st = Some (take n (omac_rest addr num ?st), st')" "omac_pos addr num st'"
    "omac_rest addr num st' = drop n (omac_rest addr num ?st)" by blast
  have r: "rd addr e = Some (addr ! e)" "rd addr (Suc e) = Some (addr ! Suc e)" "rd (addr ! e) pos = Some (addr ! e ! pos)"
    using e assms(1) by (simp_all add: rd_def)
  show ?case
    using st' by (cases st') (auto simp: st r rest split: if_splits)
qed

section \<open>The code computes the reference\<close>

lemma xor_into_length [simp]: "length (xor_into c bs) = length c"
  by (simp add: xor_into_def)

lemma xor_into_block: "length c = 16 \<Longrightarrow> length bs = 16 \<Longrightarrow> xor_into c bs = xor_128 c bs"
  by (rule nth_equalityI) (simp_all add: xor_into_def xor_128_def)

lemma gf_mulx_length [simp]: "length (gf_mulx p) = 16"
  by (simp add: gf_mulx_def Let_def)

lemma rijndaelEncrypt_length [simp]: "length (rijndaelEncrypt rk pt) = 16"
  by (simp add: rijndaelEncrypt_def Let_def split_beta PUTU32_def)

lemma xor_128_commute: "xor_128 a b = xor_128 b a"
  by (simp add: xor_128_def xor.commute)

lemma xor_into_pad:
  assumes "length c = 16" "length bs < 16"
  shows "(xor_into c bs)[length bs := xor_into c bs ! length bs XOR 0x80] = xor_128 c (cmac_pad bs)"
  using assms
  by (intro nth_equalityI) (auto simp: xor_into_def xor_128_def cmac_pad_def nth_append nth_list_update nth_Cons')

lemma omac_run:
  fixes rk :: "u32 list"
  defines "E \<equiv> rijndaelEncrypt rk"
  assumes "num < length addr" "\<forall>e < num. addr ! e \<noteq> []" "omac_pos addr num st" "length cbc = 16"
    and m: "m = omac_rest addr num st" "length m = left" and ne: "left \<noteq> 0 \<or> z"
    and z: "z \<longleftrightarrow> tot = 0" "tot = 0 \<longrightarrow> left = 0"
  shows "do { (left, cbc, st) \<leftarrow> omac_blocks rk addr left cbc st;
     let pad = gf_mulx (E (replicate 16 0));
     (cbc, pad) \<leftarrow> (if left \<noteq> 0 \<or> tot = 0 then do {
          (bs, _) \<leftarrow> omac_read addr left st;
          let cbc = xor_into cbc bs;
          Some (cbc[left := cbc ! left XOR 0x80], gf_mulx pad) }
        else Some (cbc, pad));
     Some (E (xor_into pad cbc)) } = Some (cmac_from E cbc m)"
  using assms(2-)
proof (induction "length m" arbitrary: m left cbc st rule: less_induct)
  case less
  note [simp] = omac_blocks.simps [of _ _ left]
  have len: "length m = left" by fact
  show ?case
  proof (cases "16 \<le> left")
    case False
    from omac_read_eq [OF less.prems(1-3), of left] less.prems
    obtain st' where rdl: "omac_read addr left st = Some (m, st')"
      by auto
    have "xor_into (gf_mulx (gf_mulx (E (replicate 16 0)))) (xor_128 cbc (cmac_pad m))
        = xor_128 (xor_128 cbc (cmac_pad m)) (gf_mulx (gf_mulx (E (replicate 16 0))))"
      by (simp add: xor_into_block xor_128_commute)
    then show ?thesis
      using False less.prems len rdl xor_into_pad [of cbc m]
      by (subst cmac_from.simps) (auto simp: Let_def)
  next
    case True
    from omac_read_eq [OF less.prems(1-3), of 16] less.prems True
    obtain st' where rd16: "omac_read addr 16 st = Some (take 16 m, st')" "omac_pos addr num st'"
      "omac_rest addr num st' = drop 16 m" by auto
    have x: "xor_into cbc (take 16 m) = xor_128 cbc (take 16 m)"
      using less.prems True by (simp add: xor_into_block)
    show ?thesis
    proof (cases "left = 16")
      case eq: True
      have "tot \<noteq> 0" using less.prems eq by auto
      moreover have "omac_blocks rk addr 0 c s = Some (0, c, s)" for c s
        by (simp add: omac_blocks.simps)
      then have "omac_blocks rk addr 16 cbc st = Some (0, xor_128 cbc m, st')"
        using eq len rd16 x by (subst omac_blocks.simps) simp
      moreover have "xor_into (gf_mulx (E (replicate 16 0))) (xor_128 cbc m)
          = xor_128 (xor_128 cbc m) (gf_mulx (E (replicate 16 0)))"
        by (simp add: xor_into_block xor_128_commute)
      ultimately show ?thesis
        using eq len rd16 x by (subst cmac_from.simps) (simp add: Let_def)
    next
      case ne: False
      let ?c = "E (xor_128 cbc (take 16 m))"
      have "cmac_from E cbc m = cmac_from E ?c (drop 16 m)"
        using True ne len by (subst cmac_from.simps) (simp add: Let_def)
      moreover have "omac_blocks rk addr left cbc st = omac_blocks rk addr (left - 16) ?c st'"
        using True ne rd16 x by (simp add: E_def)
      ultimately show ?thesis
        using less.hyps [of "drop 16 m" st' ?c "left - 16"] less.prems True ne rd16
        by (simp add: E_def)
    qed
  qed
qed

lemma omac1_aes_128_vector_cmac:
  assumes "length key = 16" "0 < n" "n < length addr" "\<forall>e < n. addr ! e \<noteq> []"
  shows "omac1_aes_128_vector key n addr = Some (cmac (aes_encrypt key) (concat (take n addr)))"
proof -
  let ?m = "concat (take n addr)"
  have rest: "omac_rest addr n (0, 0) = ?m" by (simp add: omac_rest_def)
  have pos: "omac_pos addr n (0, 0)" using assms by (auto simp: omac_pos_def)
  have len: "sum_list (map length (take n addr)) = length ?m" by (simp add: length_concat)
  have ne: "?m \<noteq> []" using assms by (cases addr; cases n) auto
  have "rd addr 0 = Some (addr ! 0)" using assms by (cases addr) (simp_all add: rd_def)
  with omac_run [OF assms(3,4) pos _ rest [symmetric] refl, of "replicate 16 0" "length ?m = 0" "length ?m"
      "rijndaelKeySetupEnc key"] ne
  show ?thesis
    by (simp add: omac1_aes_128_vector_def len Let_def cmac_def aes_encrypt_def [abs_def])
qed

text \<open>The two block functions give the same CMAC.\<close>

lemma cmac_from_cong:
  assumes "\<And>b. length b = 16 \<Longrightarrow> E b = F b" "\<And>b. length (E b) = 16" "length c = 16"
  shows "cmac_from E c m = cmac_from F c m"
  using assms(3)
proof (induction "length m" arbitrary: c m rule: less_induct)
  case less
  have z: "E (replicate 16 0) = F (replicate 16 0)" by (rule assms(1)) simp
  have s: "E (xor_128 a b) = F (xor_128 a b)" for a b by (rule assms(1)) simp
  have lF: "length (F (xor_128 a b)) = 16" for a b using s assms(2) by metis
  show ?case
  proof (cases "length m \<le> 16")
    case True
    then show ?thesis by (subst (1 2) cmac_from.simps) (auto simp: Let_def z s)
  next
    case False
    then have "cmac_from E (F (xor_128 c (take 16 m))) (drop 16 m) = cmac_from F (F (xor_128 c (take 16 m))) (drop 16 m)"
      by (intro less.hyps) (simp_all add: lF)
    with False show ?thesis by (subst (1 2) cmac_from.simps) (auto simp: Let_def z s)
  qed
qed

lemma cmac_cong:
  assumes "\<And>b. length b = 16 \<Longrightarrow> E b = F b" "\<And>b. length (E b) = 16"
  shows "cmac E m = cmac F m"
  unfolding cmac_def by (rule cmac_from_cong [OF assms]) simp_all

lemma cmac_aes: "length key = 16 \<Longrightarrow> cmac (aes_encrypt key) m = cmac (aes128k128d key) m"
  by (rule cmac_cong) (simp_all add: aes_encrypt_def rijndael_eq_aes128k128d)

text \<open>Without a readable entry after the last one, a message that is not empty is read out of bounds:
  all its bytes but the last are read as before, and the step after the last one leaves the array.\<close>

lemma omac_step_exact:
  assumes "length addr = num" "\<forall>e < num. addr ! e \<noteq> []" "e < num" "pos < length (addr ! e)"
  defines "st' \<equiv> if length (addr ! e) \<le> Suc pos then (Suc e, 0) else (e, Suc pos)"
  shows "omac_rest addr num (e, pos) = addr ! e ! pos # omac_rest addr num st'"
    "omac_rest addr num st' = [] \<longleftrightarrow> length (addr ! e) \<le> Suc pos \<and> Suc e = num"
    "omac_rest addr num st' \<noteq> [] \<Longrightarrow> omac_pos addr num st'"
proof -
  have d: "drop e addr = addr ! e # drop (Suc e) addr"
    using assms by (simp add: Cons_nth_drop_Suc)
  obtain k where k: "num - e = Suc k" using assms(3) by (cases "num - e") auto
  have k': "num - Suc e = k" using k by simp
  have s: "drop pos (addr ! e) = addr ! e ! pos # drop (Suc pos) (addr ! e)"
    using assms(4) by (simp add: Cons_nth_drop_Suc)
  show "omac_rest addr num (e, pos) = addr ! e ! pos # omac_rest addr num st'"
    using assms(4) by (simp add: st'_def omac_rest_def d k k' s)
  have ne: "concat (take k (drop (Suc e) addr)) = [] \<longleftrightarrow> Suc e = num"
  proof (cases k)
    case (Suc j)
    then have "drop (Suc e) addr = addr ! Suc e # drop (Suc (Suc e)) addr" "addr ! Suc e \<noteq> []"
      using k assms(1,2) by (simp_all add: Cons_nth_drop_Suc)
    then show ?thesis using Suc k by auto
  qed (use k in auto)
  show "omac_rest addr num st' = [] \<longleftrightarrow> length (addr ! e) \<le> Suc pos \<and> Suc e = num"
    using ne by (auto simp: st'_def omac_rest_def d k k')
  then show "omac_pos addr num st'" if "omac_rest addr num st' \<noteq> []"
    using that assms(2,3) by (auto simp: st'_def omac_pos_def)
qed

lemma omac_read_exact:
  assumes "length addr = num" "\<forall>e < num. addr ! e \<noteq> []" "omac_pos addr num st"
    and "omac_rest addr num st \<noteq> []"
  shows "if length (omac_rest addr num st) \<le> n then omac_read addr n st = None
    else \<exists>st'. omac_read addr n st = Some (take n (omac_rest addr num st), st') \<and> omac_pos addr num st'
      \<and> omac_rest addr num st' = drop n (omac_rest addr num st)"
  using assms(3-)
proof (induction n arbitrary: st)
  case 0
  then show ?case by (cases st) simp
next
  case (Suc n)
  obtain e pos where st: "st = (e, pos)" by force
  have e: "e < num" "pos < length (addr ! e)"
    using Suc.prems by (auto simp: st omac_pos_def omac_rest_def)
  let ?st = "if length (addr ! e) \<le> Suc pos then (Suc e, 0) else (e, Suc pos)"
  note step = omac_step_exact [OF assms(1,2) e]
  have r: "rd addr e = Some (addr ! e)" "rd (addr ! e) pos = Some (addr ! e ! pos)"
    using e assms(1) by (simp_all add: rd_def)
  show ?case
  proof (cases "omac_rest addr num ?st = []")
    case True
    then have "rd addr (Suc e) = None" "length (addr ! e) \<le> Suc pos"
      using step(2) assms(1) by (simp_all add: rd_def)
    moreover have "length (omac_rest addr num st) \<le> Suc n" using step(1) True by (simp add: st)
    ultimately show ?thesis using r by (simp add: st)
  next
    case False
    then have "length (addr ! e) \<le> Suc pos \<Longrightarrow> rd addr (Suc e) = Some (addr ! Suc e)"
      using step(2) e assms(1) by (auto simp: rd_def)
    then have run: "omac_read addr (Suc n) st = do { (bs, st) \<leftarrow> omac_read addr n ?st; Some (addr ! e ! pos # bs, st) }"
      using r by (simp add: st)
    from Suc.IH [OF step(3) [OF False] False] show ?thesis
      unfolding run using step(1) by (auto simp: st split: if_splits)
  qed
qed

lemma omac_blocks_exact:
  assumes "length addr = num" "\<forall>e < num. addr ! e \<noteq> []" "omac_pos addr num st"
    and "omac_rest addr num st \<noteq> []" "left = length (omac_rest addr num st)"
  shows "do { (left, cbc, st) \<leftarrow> omac_blocks rk addr left cbc st;
     (cbc, pad) \<leftarrow> (if left \<noteq> 0 \<or> z then do {
          (bs, _) \<leftarrow> omac_read addr left st; f bs left cbc }
        else g cbc);
     h pad cbc } = None"
  using assms(3-)
proof (induction left arbitrary: cbc st rule: less_induct)
  case (less left)
  note ex = omac_read_exact [OF assms(1,2) less.prems(1,2)]
  show ?case
  proof (cases "16 \<le> left")
    case False
    then have "omac_blocks rk addr left cbc st = Some (left, cbc, st)" by (simp add: omac_blocks.simps)
    moreover have "omac_read addr left st = None" using ex [of left] less.prems(3) by simp
    moreover have "left \<noteq> 0" using less.prems by auto
    ultimately show ?thesis by simp
  next
    case True
    show ?thesis
    proof (cases "left = 16")
      case eq: True
      then have "omac_read addr 16 st = None" using ex [of 16] less.prems(3) by simp
      then show ?thesis using eq by (subst omac_blocks.simps) simp
    next
      case ne: False
      then obtain st' where st': "omac_read addr 16 st = Some (take 16 (omac_rest addr num st), st')"
        "omac_pos addr num st'" "omac_rest addr num st' = drop 16 (omac_rest addr num st)"
        using ex [of 16] less.prems(3) True by auto
      then have "omac_rest addr num st' \<noteq> []" "left - 16 = length (omac_rest addr num st')"
        using ne True less.prems(3) by auto
      from less.IH [OF _ st'(2) this, of "rijndaelEncrypt rk (xor_into cbc (take 16 (omac_rest addr num st)))"]
      show ?thesis
        using True ne st'(1) by (subst omac_blocks.simps) simp
    qed
  qed
qed

section \<open>Properties\<close>

text \<open>C25: where the arrays passed to \<open>omac1_aes_128_vector\<close> have a readable entry after the
  last segment and no segment is empty, it returns the CMAC of NIST SP 800-38B, under the AES of the
  driver, of the concatenation of the segments.\<close>

theorem omac1_is_cmac:
  assumes "length key = 16" "0 < n" "n < length addr" "\<forall>e < n. addr ! e \<noteq> []"
  shows "omac1_aes_128_vector key n addr = Some (cmac (aes128k128d key) (concat (take n addr)))"
  using omac1_aes_128_vector_cmac [OF assms] cmac_aes [OF assms(1)] by simp

lemma omac1_is_cmac_witness:
  "omac1_aes_128_vector (replicate 16 3) 2 [[1, 2, 3], [4, 5], []]
   = Some (cmac (aes128k128d (replicate 16 3)) [1, 2, 3, 4, 5])"
proof -
  have "\<forall>e<2. [[1, 2, 3], [4, 5], []] ! e \<noteq> ([] :: bytes)"
    by (auto simp: less_2_cases_iff)
  then show ?thesis
    using omac1_is_cmac [of "replicate 16 3" 2 "[[1, 2, 3], [4, 5], []]"] by simp
qed

text \<open>called on arrays of exactly \<open>num_elem\<close> entries, none empty, as \<open>omac1_aes_128\<close>
  calls it, \<open>omac1_aes_128_vector\<close> loads \<open>addr[num_elem]\<close> and \<open>len[num_elem]\<close> after the last byte: an
  access outside the arrays, on every message that is not empty.\<close>

theorem omac1_over_read:
  assumes "0 < length addr" "\<forall>e < length addr. addr ! e \<noteq> []"
  shows "omac1_aes_128_vector key (length addr) addr = None"
proof -
  let ?n = "length addr"
  have pos: "omac_pos addr ?n (0, 0)" using assms by (auto simp: omac_pos_def)
  have ne: "omac_rest addr ?n (0, 0) \<noteq> []" using assms by (cases addr) (auto simp: omac_rest_def)
  have len: "sum_list (map length addr) = length (omac_rest addr ?n (0, 0))"
    by (simp add: omac_rest_def length_concat)
  have "rd addr 0 = Some (addr ! 0)" using assms(1) by (simp add: rd_def)
  with omac_blocks_exact [OF refl assms(2) pos ne len] show ?thesis
    by (simp add: omac1_aes_128_vector_def Let_def)
qed

lemma omac1_over_read_witness: "omac1_aes_128 [] (replicate 16 3) [1, 2, 3] = None"
  using omac1_over_read [of "[[1, 2, 3]]"] by (simp add: omac1_aes_128_def)

end
