(* ===== verification/Bip.thy ===== *)
theory Bip
  imports Cmac
begin

text \<open>
  Verification of protected group management frames (BIP): \<open>rtw_BIP_verify\<close> of core/rtw_security.c. The
  theorem says when a frame is accepted: the management MIC element names the installed key, carries a
  packet number above the last accepted one, and its MIC is the CMAC of the frame with the fields the
  standard masks; the last packet number is updated exactly then.
\<close>

datatype bip_res = BIP_SUCCESS | BIP_FAIL | BIP_RX_HANDLED

definition MME_IE :: u8 where "MME_IE = 76"

text \<open>\<open>ClearRetry\<close>, \<open>ClearPwrMgt\<close> and \<open>ClearMData\<close> on the two bytes of the frame control field.\<close>

definition bip_mask_fc :: "bytes \<Rightarrow> bytes" where
  "bip_mask_fc fc = [fc ! 0, fc ! 1 AND NOT 0x08 AND NOT 0x10 AND NOT 0x20]"

text \<open>The \<open>BIP_AAD\<close> buffer: masked frame control, the three addresses, then the frame body with the MIC
  field of the element cleared.\<close>

definition bip_aad :: "bytes \<Rightarrow> nat \<Rightarrow> bytes option" where
  "bip_aad whdr flen = do {
     body \<leftarrow> get_sub whdr 24 (flen - 24);
     let aad = replicate 20 0 @ body;
     let mme = length aad - 18;
     aad \<leftarrow> put_sub aad (mme + 10) (replicate 8 0);
     fc \<leftarrow> get_sub whdr 0 2;
     aad \<leftarrow> put_sub aad 0 (bip_mask_fc fc);
     addrs \<leftarrow> get_sub whdr 4 18;
     put_sub aad 2 addrs }"

text \<open>\<open>mem\<close>: whether \<open>rtw_zmalloc\<close> succeeds; \<open>beyond\<close>: see \<open>omac1_aes_128\<close>. A frame shorter than its MIC
  element, or than its header, makes the code read before the buffer or copy a negative length.\<close>

definition rtw_BIP_verify ::
  "bool \<Rightarrow> bytes list \<Rightarrow> bytes \<Rightarrow> int \<Rightarrow> bytes \<Rightarrow> u16 \<Rightarrow> u64 \<Rightarrow> (bip_res \<times> u64) option" where
  "rtw_BIP_verify mem beyond whdr_pos flen key keyid ipn =
     (if flen < 18 then None else do {
        let mme = nat (flen - 18);
        eid \<leftarrow> rd whdr_pos mme;
        if eid \<noteq> MME_IE then Some (BIP_RX_HANDLED, ipn) else do {
          kid \<leftarrow> get_sub whdr_pos (mme + 2) 2;
          if ucast (le_val kid) \<noteq> keyid then Some (BIP_FAIL, ipn) else do {
            pn \<leftarrow> get_sub whdr_pos (mme + 4) 6;
            let pkt_ipn = le_val pn;
            if pkt_ipn \<le> ipn then Some (BIP_FAIL, ipn)
            else if \<not> mem then Some (BIP_FAIL, ipn)
            else if flen < 24 then None else do {
              aad \<leftarrow> bip_aad whdr_pos (nat flen);
              mic \<leftarrow> omac1_aes_128 beyond key aad;
              got \<leftarrow> get_sub whdr_pos (nat (flen - 8)) 8;
              if take 8 mic = got then Some (BIP_SUCCESS, pkt_ipn) else Some (BIP_FAIL, ipn) } } } })"

section \<open>The parts of a frame\<close>

definition bip_mme :: "bytes \<Rightarrow> bytes" where "bip_mme f = drop (length f - 18) f"

text \<open>The fields of the element: id, length, key id (2), packet number (6), MIC (8).\<close>

definition mme_keyid :: "bytes \<Rightarrow> u16" where "mme_keyid f = ucast (le_val (take 2 (drop 2 (bip_mme f))))"
definition mme_ipn :: "bytes \<Rightarrow> u64" where "mme_ipn f = le_val (take 6 (drop 4 (bip_mme f)))"
definition mme_mic :: "bytes \<Rightarrow> bytes" where "mme_mic f = drop 10 (bip_mme f)"

text \<open>What the standard has the sender authenticate.\<close>

definition bip_message :: "bytes \<Rightarrow> bytes" where
  "bip_message f = bip_mask_fc (take 2 f) @ take 18 (drop 4 f) @ take (length f - 32) (drop 24 f) @ replicate 8 0"

lemma bip_aad_message:
  assumes "42 \<le> length f"
  shows "bip_aad f (length f) = Some (bip_message f)"
proof -
  let ?body = "drop 24 f"
  let ?b = "take (length f - 32) ?body"
  have body: "get_sub f 24 (length f - 24) = Some ?body"
    using assms by (simp add: get_sub_def)
  have l: "length ?b = length f - 32" "length (bip_mask_fc fc) = 2" for fc
    using assms by (simp_all add: bip_mask_fc_def)
  have p1: "put_sub (replicate 20 0 @ ?body) (length f - 12) (replicate 8 0)
      = Some (replicate 20 0 @ ?b @ replicate 8 0)"
    using assms by (simp add: put_sub_def)
  have p2: "put_sub (replicate 20 0 @ x) 0 (bip_mask_fc fc) = Some (bip_mask_fc fc @ replicate 18 0 @ x)" for x fc
    by (simp add: put_sub_def l)
  have p3: "put_sub (m @ replicate 18 0 @ x) 2 a = Some (m @ a @ x)" if "length m = 2" "length a = 18" for m a x :: bytes
    using that by (simp add: put_sub_def)
  have "get_sub f 4 18 = Some (take 18 (drop 4 f))" "get_sub f 0 2 = Some (take 2 f)"
    "length (take 18 (drop 4 f)) = 18"
    using assms by (simp_all add: get_sub_def)
  moreover have "length (replicate 20 (0::u8) @ ?body) - 18 + 10 = length f - 12" using assms by simp
  ultimately show ?thesis
    using p3 [OF l(2)] by (simp add: bip_aad_def body p1 p2 Let_def bip_message_def)
qed

section \<open>Properties\<close>

lemma bip_verify_iff:
  assumes "42 \<le> length f" "length key = 16" "beyond \<noteq> []"
  shows "\<exists>res ipn'. rtw_BIP_verify True beyond f (int (length f)) key keyid ipn = Some (res, ipn')
    \<and> (res = BIP_SUCCESS \<longleftrightarrow> hd (bip_mme f) = MME_IE \<and> mme_keyid f = keyid \<and> ipn < mme_ipn f
         \<and> mme_mic f = take 8 (cmac (aes128k128d key) (bip_message f)))
    \<and> ipn' = (if res = BIP_SUCCESS then mme_ipn f else ipn)"
proof -
  have "\<forall>e<Suc 0. (bip_message f # beyond) ! e \<noteq> []" by (simp add: bip_message_def bip_mask_fc_def)
  then have mac: "omac1_aes_128 beyond key (bip_message f) = Some (cmac (aes128k128d key) (bip_message f))"
    using omac1_aes_128_vector_cmac [of key 1 "bip_message f # beyond"] assms(2,3) cmac_aes [OF assms(2)]
    by (simp add: omac1_aes_128_def)
  have n: "nat (int (length f) - 18) = length f - 18" "nat (int (length f) - 8) = length f - 8"
    by linarith+
  have r: "rd f (length f - 18) = Some (hd (bip_mme f))"
    using assms(1) by (simp add: rd_def bip_mme_def hd_drop_conv_nth)
  have k: "get_sub f (length f - 18 + 2) 2 = Some (take 2 (drop 2 (bip_mme f)))"
    "get_sub f (length f - 18 + 4) 6 = Some (take 6 (drop 4 (bip_mme f)))"
    "get_sub f (length f - 8) 8 = Some (mme_mic f)"
    using assms(1) by (simp_all add: get_sub_def bip_mme_def mme_mic_def add.commute)
  have lt: "\<not> int (length f) < 18" "\<not> int (length f) < 24" "\<not> \<not> True" using assms(1) by simp_all
  have "rtw_BIP_verify True beyond f (int (length f)) key keyid ipn =
      (if hd (bip_mme f) \<noteq> MME_IE then Some (BIP_RX_HANDLED, ipn)
       else if mme_keyid f \<noteq> keyid then Some (BIP_FAIL, ipn)
       else if mme_ipn f \<le> ipn then Some (BIP_FAIL, ipn)
       else if take 8 (cmac (aes128k128d key) (bip_message f)) = mme_mic f then Some (BIP_SUCCESS, mme_ipn f)
       else Some (BIP_FAIL, ipn))"
    unfolding rtw_BIP_verify_def Let_def if_not_P [OF lt(1)] if_not_P [OF lt(2)] if_not_P [OF lt(3)] n r k
      Option.bind.bind_lunit nat_int bip_aad_message [OF assms(1)] mac mme_keyid_def [symmetric]
      mme_ipn_def [symmetric] ..
  then show ?thesis by (auto simp: not_le)
qed

text \<open>C20: of a frame with room for the header and the element, \<open>rtw_BIP_verify\<close> (with memory
  available and readable memory after the arguments of \<open>omac1_aes_128\<close>) returns success exactly when the
  element is there, names the key, carries a packet number greater than the last one, and its MIC is the
  first eight bytes of the CMAC of the masked frame; only then it moves the packet number, to that of the
  frame, so a packet number is never accepted twice.\<close>

theorem bip_accept_iff:
  assumes "42 \<le> length f" "length key = 16" "beyond \<noteq> []"
  shows "\<exists>res ipn'. rtw_BIP_verify True beyond f (int (length f)) key keyid ipn = Some (res, ipn')
    \<and> (res = BIP_SUCCESS \<longleftrightarrow> hd (bip_mme f) = MME_IE \<and> mme_keyid f = keyid \<and> ipn < mme_ipn f
         \<and> mme_mic f = take 8 (cmac (aes128k128d key) (bip_message f)))
    \<and> ipn' = (if res = BIP_SUCCESS then mme_ipn f else ipn)"
  using assms by (rule bip_verify_iff)

definition bip_demo_frame :: bytes where
  "bip_demo_frame = replicate 24 1 @ [0x4c, 16, 4, 0, 9, 0, 0, 0, 0, 0] @ replicate 8 7"

lemma bip_accept_iff_witness:
  "\<exists>res ipn'. rtw_BIP_verify True [[]] bip_demo_frame 42 (replicate 16 5) 4 8 = Some (res, ipn')
    \<and> (res = BIP_SUCCESS \<longleftrightarrow> hd (bip_mme bip_demo_frame) = MME_IE \<and> mme_keyid bip_demo_frame = 4
         \<and> 8 < mme_ipn bip_demo_frame
         \<and> mme_mic bip_demo_frame = take 8 (cmac (aes128k128d (replicate 16 5)) (bip_message bip_demo_frame)))
    \<and> ipn' = (if res = BIP_SUCCESS then mme_ipn bip_demo_frame else 8)"
proof -
  have "int (length bip_demo_frame) = 42" "42 \<le> length bip_demo_frame" by (simp_all add: bip_demo_frame_def)
  then show ?thesis
    using bip_accept_iff [of bip_demo_frame "replicate 16 5" "[[]]" 4 8] by simp
qed

end
