(* ===== verification/Sha256.thy ===== *)
theory Sha256
  imports Prelude
begin

text \<open>
  SHA-256, HMAC-SHA-256 and the key derivation \<open>sha256_prf\<close> of core/rtw_security.c (compiled with
  \<open>CONFIG_TDLS\<close>; tables and logical functions in include/rtw_security.h). The streaming code with its
  64-byte buffer is proved equal to the one-shot reference (pad, cut into blocks, fold the compression
  function) however the message is cut into segments. The locale \<open>vector_hash\<close> is the contract HMAC
  needs of a hash over a vector of segments; it is interpreted on \<open>sha256_vector\<close>.
\<close>

section \<open>The code: compression\<close>

text \<open>The rows of the table as the source has them.\<close>

definition K_tab :: "u32 list" where
  "K_tab = concat [
     [0x428a2f98, 0x71374491, 0xb5c0fbcf, 0xe9b5dba5, 0x3956c25b],
     [0x59f111f1, 0x923f82a4, 0xab1c5ed5, 0xd807aa98, 0x12835b01],
     [0x243185be, 0x550c7dc3, 0x72be5d74, 0x80deb1fe, 0x9bdc06a7],
     [0xc19bf174, 0xe49b69c1, 0xefbe4786, 0x0fc19dc6, 0x240ca1cc],
     [0x2de92c6f, 0x4a7484aa, 0x5cb0a9dc, 0x76f988da, 0x983e5152],
     [0xa831c66d, 0xb00327c8, 0xbf597fc7, 0xc6e00bf3, 0xd5a79147],
     [0x06ca6351, 0x14292967, 0x27b70a85, 0x2e1b2138, 0x4d2c6dfc],
     [0x53380d13, 0x650a7354, 0x766a0abb, 0x81c2c92e, 0x92722c85],
     [0xa2bfe8a1, 0xa81a664b, 0xc24b8b70, 0xc76c51a3, 0xd192e819],
     [0xd6990624, 0xf40e3585, 0x106aa070, 0x19a4c116, 0x1e376c08],
     [0x2748774c, 0x34b0bcb5, 0x391c0cb3, 0x4ed8aa4a, 0x5b9cca4f],
     [0x682e6ff3, 0x748f82ee, 0x78a5636f, 0x84c87814, 0x8cc70208],
     [0x90befffa, 0xa4506ceb, 0xbef9a3f7, 0xc67178f2]]"

definition WPA_GET_BE32 :: "bytes \<Rightarrow> u32" where
  "WPA_GET_BE32 a = push_bit 24 (ucast (a ! 0)) OR push_bit 16 (ucast (a ! 1))
     OR push_bit 8 (ucast (a ! 2)) OR ucast (a ! 3)"

definition WPA_PUT_BE32 :: "u32 \<Rightarrow> bytes" where
  "WPA_PUT_BE32 val = [ucast (drop_bit 24 val AND 0xff), ucast (drop_bit 16 val AND 0xff),
     ucast (drop_bit 8 val AND 0xff), ucast (val AND 0xff)]"

definition WPA_PUT_BE64 :: "u64 \<Rightarrow> bytes" where
  "WPA_PUT_BE64 val = [ucast (drop_bit 56 val), ucast (drop_bit 48 val), ucast (drop_bit 40 val),
     ucast (drop_bit 32 val), ucast (drop_bit 24 val), ucast (drop_bit 16 val), ucast (drop_bit 8 val),
     ucast (val AND 0xff)]"

definition WPA_PUT_LE16 :: "u16 \<Rightarrow> bytes" where
  "WPA_PUT_LE16 val = [ucast (val AND 0xff), ucast (drop_bit 8 val)]"

definition RORc :: "u32 \<Rightarrow> nat \<Rightarrow> u32" where
  "RORc x n = drop_bit (n mod 32) x OR push_bit (32 - n mod 32) x"

definition Ch :: "u32 \<Rightarrow> u32 \<Rightarrow> u32 \<Rightarrow> u32" where "Ch x y z = z XOR (x AND (y XOR z))"
definition Maj :: "u32 \<Rightarrow> u32 \<Rightarrow> u32 \<Rightarrow> u32" where "Maj x y z = ((x OR y) AND z) OR (x AND y)"
definition Sigma0 :: "u32 \<Rightarrow> u32" where "Sigma0 x = RORc x 2 XOR RORc x 13 XOR RORc x 22"
definition Sigma1 :: "u32 \<Rightarrow> u32" where "Sigma1 x = RORc x 6 XOR RORc x 11 XOR RORc x 25"
definition Gamma0 :: "u32 \<Rightarrow> u32" where "Gamma0 x = RORc x 7 XOR RORc x 18 XOR drop_bit 3 x"
definition Gamma1 :: "u32 \<Rightarrow> u32" where "Gamma1 x = RORc x 17 XOR RORc x 19 XOR drop_bit 10 x"

definition sha256_schedule :: "bytes \<Rightarrow> u32 list" where
  "sha256_schedule buf =
     foldl (\<lambda>W i. W @ [Gamma1 (W ! (i - 2)) + W ! (i - 7) + Gamma0 (W ! (i - 15)) + W ! (i - 16)])
       (map (\<lambda>i. WPA_GET_BE32 (drop (4 * i) buf)) [0..<16]) [16..<64]"

text \<open>One turn of the compression loop: the macro \<open>RND\<close> on \<open>S[0..7]\<close>, then the rotation of the array.\<close>

definition sha256_turn :: "u32 list \<Rightarrow> u32 list \<Rightarrow> nat \<Rightarrow> u32 list" where
  "sha256_turn W S i =
     (let t0 = S ! 7 + Sigma1 (S ! 4) + Ch (S ! 4) (S ! 5) (S ! 6) + K_tab ! i + W ! i;
          t1 = Sigma0 (S ! 0) + Maj (S ! 0) (S ! 1) (S ! 2);
          d = S ! 3 + t0;
          h = t0 + t1
      in [h, S ! 0, S ! 1, S ! 2, d, S ! 4, S ! 5, S ! 6])"

definition sha256_compress :: "u32 list \<Rightarrow> bytes \<Rightarrow> u32 list" where
  "sha256_compress st buf =
     (let W = sha256_schedule buf; S = foldl (sha256_turn W) st [0..<64]
      in map (\<lambda>i. st ! i + S ! i) [0..<8])"

section \<open>The code: streaming\<close>

record sha256_state =
  md_length :: u64
  md_state :: "u32 list"
  md_curlen :: nat
  md_buf :: bytes

definition sha256_H0 :: "u32 list" where
  "sha256_H0 = [0x6A09E667, 0xBB67AE85, 0x3C6EF372, 0xA54FF53A, 0x510E527F, 0x9B05688C, 0x1F83D9AB, 0x5BE0CD19]"

definition sha256_init :: "sha256_state \<Rightarrow> sha256_state" where
  "sha256_init md = md\<lparr>md_curlen := 0, md_length := 0, md_state := sha256_H0\<rparr>"

definition overwrite :: "bytes \<Rightarrow> nat \<Rightarrow> bytes \<Rightarrow> bytes" where
  "overwrite buf off xs = take off buf @ xs @ drop (off + length xs) buf"

text \<open>The check \<open>curlen >= 64\<close> is made on entry; each turn of the loop leaves \<open>curlen < 64\<close>, so repeating
  it in the recursion changes nothing.\<close>

function sha256_process :: "sha256_state \<Rightarrow> bytes \<Rightarrow> sha256_state option" where
  "sha256_process md inp =
     (if 64 \<le> md_curlen md then None
      else if inp = [] then Some md
      else if md_curlen md = 0 \<and> 64 \<le> length inp then
        sha256_process (md\<lparr>md_state := sha256_compress (md_state md) (take 64 inp),
                           md_length := md_length md + 64 * 8\<rparr>) (drop 64 inp)
      else
        (let n = min (length inp) (64 - md_curlen md);
             md = md\<lparr>md_buf := overwrite (md_buf md) (md_curlen md) (take n inp), md_curlen := md_curlen md + n\<rparr>;
             md = (if md_curlen md = 64
                   then md\<lparr>md_state := sha256_compress (md_state md) (md_buf md),
                           md_length := md_length md + 8 * 64, md_curlen := 0\<rparr>
                   else md)
         in sha256_process md (drop n inp)))"
  by pat_completeness auto
termination by (relation "measure (\<lambda>(md, inp). length inp)") (auto simp: Let_def)

declare sha256_process.simps [simp del]

definition sha256_done :: "sha256_state \<Rightarrow> bytes option" where
  "sha256_done md =
     (if 64 \<le> md_curlen md then None
      else
        (let md = md\<lparr>md_length := md_length md + word_of_nat (md_curlen md * 8)\<rparr>;
             md = md\<lparr>md_buf := overwrite (md_buf md) (md_curlen md) [0x80], md_curlen := md_curlen md + 1\<rparr>;
             md = (if 56 < md_curlen md
                   then let buf = overwrite (md_buf md) (md_curlen md) (replicate (64 - md_curlen md) 0)
                        in md\<lparr>md_buf := buf, md_state := sha256_compress (md_state md) buf, md_curlen := 0\<rparr>
                   else md);
             buf = overwrite (md_buf md) (md_curlen md) (replicate (56 - md_curlen md) 0);
             buf = overwrite buf 56 (WPA_PUT_BE64 (md_length md))
         in Some (concat (map WPA_PUT_BE32 (sha256_compress (md_state md) buf)))))"

fun sha256_feed :: "sha256_state \<Rightarrow> bytes list \<Rightarrow> sha256_state option" where
  "sha256_feed md [] = Some md"
| "sha256_feed md (a # addr) = do { md \<leftarrow> sha256_process md a; sha256_feed md addr }"

text \<open>\<open>ctx\<close> is the uninitialised local. The list has the \<open>num_elem\<close> segments.\<close>

definition sha256_vector :: "sha256_state \<Rightarrow> bytes list \<Rightarrow> bytes option" where
  "sha256_vector ctx addr = do { md \<leftarrow> sha256_feed (sha256_init ctx) addr; sha256_done md }"

section \<open>The reference\<close>

function chunks64 :: "bytes \<Rightarrow> bytes list" where
  "chunks64 m = (if length m < 64 then [] else take 64 m # chunks64 (drop 64 m))"
  by pat_completeness auto
termination by (relation "measure length") auto

declare chunks64.simps [simp del]

definition sha256_pad :: "nat \<Rightarrow> bytes" where
  "sha256_pad n = 0x80 # replicate (if n mod 64 < 56 then 55 - n mod 64 else 119 - n mod 64) 0
     @ WPA_PUT_BE64 (word_of_nat (8 * n))"

definition sha256 :: "bytes \<Rightarrow> bytes" where
  "sha256 m = concat (map WPA_PUT_BE32 (foldl sha256_compress sha256_H0 (chunks64 (m @ sha256_pad (length m)))))"

section \<open>Streaming computes the reference\<close>

lemma chunks64_short [simp]: "length m < 64 \<Longrightarrow> chunks64 m = []"
  by (simp add: chunks64.simps)

lemma chunks64_block: "length b = 64 \<Longrightarrow> chunks64 (b @ m) = b # chunks64 m"
  by (subst chunks64.simps) simp

lemma chunks64_append: "64 dvd length a \<Longrightarrow> chunks64 (a @ m) = chunks64 a @ chunks64 m"
proof (induction "length a" arbitrary: a rule: less_induct)
  case less
  show ?case
  proof (cases "length a < 64")
    case True
    then have "a = []" using less.prems by (auto dest: dvd_imp_le)
    then show ?thesis by simp
  next
    case False
    then have "64 dvd length (drop 64 a)" using less.prems by (simp add: dvd_diff_nat)
    with less.hyps [of "drop 64 a"] False have "chunks64 (drop 64 a @ m) = chunks64 (drop 64 a) @ chunks64 m"
      by simp
    with False show ?thesis by (subst (1 2) chunks64.simps) simp
  qed
qed

lemma overwrite_length: "off + length xs \<le> length buf \<Longrightarrow> length (overwrite buf off xs) = length buf"
  by (simp add: overwrite_def)

lemma overwrite_take: "off \<le> length buf \<Longrightarrow> take (off + length xs) (overwrite buf off xs) = take off buf @ xs"
  by (simp add: overwrite_def)

text \<open>The state after the bytes \<open>a @ t\<close>: whole blocks \<open>a\<close> compressed, the rest \<open>t\<close> in the buffer.\<close>

definition sha_at :: "bytes \<Rightarrow> bytes \<Rightarrow> sha256_state \<Rightarrow> bool" where
  "sha_at a t md \<longleftrightarrow> 64 dvd length a \<and> length t < 64 \<and> md_curlen md = length t \<and> length (md_buf md) = 64
     \<and> take (length t) (md_buf md) = t \<and> md_state md = foldl sha256_compress sha256_H0 (chunks64 a)
     \<and> md_length md = word_of_nat (8 * length a)"

lemma sha_at_block:
  assumes "64 dvd length a" "length b = 64"
  shows "64 dvd length (a @ b)" "chunks64 (a @ b) = chunks64 a @ [b]"
    "word_of_nat (8 * length a) + (512 :: u64) = word_of_nat (8 * length (a @ b))"
  using assms chunks64_block [of b "[]"] by (simp_all add: chunks64_append)

lemma sha256_process_at:
  assumes "sha_at a t md"
  shows "\<exists>md' a' t'. sha256_process md inp = Some md' \<and> sha_at a' t' md' \<and> a' @ t' = a @ t @ inp"
  using assms
proof (induction "length inp" arbitrary: inp a t md rule: less_induct)
  case less
  note at = less.prems [unfolded sha_at_def]
  have cur: "\<not> 64 \<le> md_curlen md" using at by simp
  show ?case
  proof (cases "inp = []")
    case True
    then show ?thesis using cur less.prems by (subst sha256_process.simps) auto
  next
    case ne: False
    show ?thesis
    proof (cases "md_curlen md = 0 \<and> 64 \<le> length inp")
      case True
      let ?b = "take 64 inp"
      let ?md = "md\<lparr>md_state := sha256_compress (md_state md) ?b, md_length := md_length md + 64 * 8\<rparr>"
      have t: "t = []" and b: "length ?b = 64" using at True by auto
      have "sha_at (a @ ?b) [] ?md"
        using at b sha_at_block [of a ?b] by (simp add: sha_at_def t)
      moreover have "length (drop 64 inp) < length inp" using True ne by simp
      ultimately obtain md' a' t' where
        "sha256_process ?md (drop 64 inp) = Some md'" "sha_at a' t' md'" "a' @ t' = (a @ ?b) @ [] @ drop 64 inp"
        using less.hyps by blast
      then show ?thesis using True ne cur t by (subst sha256_process.simps) auto
    next
      case False
      define n where "n = min (length inp) (64 - md_curlen md)"
      have n: "0 < n" "n \<le> length inp" "length t + n \<le> 64" using ne at by (auto simp: n_def)
      let ?t = "t @ take n inp"
      let ?buf = "overwrite (md_buf md) (md_curlen md) (take n inp)"
      have lt: "length ?t = length t + n" using n by simp
      have buf: "length ?buf = 64" "take (length t + n) ?buf = ?t"
        using at n overwrite_take [of "length t" "md_buf md" "take n inp"]
        by (simp_all add: overwrite_length min_absorb2)
      let ?md1 = "md\<lparr>md_buf := ?buf, md_curlen := md_curlen md + n\<rparr>"
      let ?md2 = "if md_curlen ?md1 = 64
                   then ?md1\<lparr>md_state := sha256_compress (md_state ?md1) (md_buf ?md1),
                           md_length := md_length ?md1 + 8 * 64, md_curlen := 0\<rparr>
                   else ?md1"
      have step: "sha256_process md inp = sha256_process ?md2 (drop n inp)"
        unfolding sha256_process.simps [of md inp] if_not_P [OF cur] if_not_P [OF ne] if_not_P [OF False] Let_def n_def ..
      have "\<exists>a2 t2. sha_at a2 t2 ?md2 \<and> a2 @ t2 = a @ ?t"
      proof (cases "length t + n = 64")
        case True
        then have b: "?buf = ?t" "length ?t = 64" using buf lt by simp_all
        have "sha_at (a @ ?t) [] ?md2"
          using at b sha_at_block [of a ?t] True by (simp add: sha_at_def)
        then show ?thesis by blast
      next
        case False
        then have "sha_at a ?t ?md2" using at buf lt n by (simp add: sha_at_def)
        then show ?thesis by blast
      qed
      then obtain a2 t2 where 2: "sha_at a2 t2 ?md2" "a2 @ t2 = a @ ?t" by blast
      moreover have "length (drop n inp) < length inp" using n by simp
      ultimately obtain md' a' t' where
        "sha256_process ?md2 (drop n inp) = Some md'" "sha_at a' t' md'" "a' @ t' = a2 @ t2 @ drop n inp"
        using less.hyps by blast
      moreover have "a2 @ t2 @ drop n inp = a @ t @ inp"
        using 2(2) by (metis append.assoc append_take_drop_id)
      ultimately show ?thesis unfolding step by metis
    qed
  qed
qed

lemma sha256_feed_at:
  assumes "sha_at a t md"
  shows "\<exists>md' a' t'. sha256_feed md segs = Some md' \<and> sha_at a' t' md' \<and> a' @ t' = a @ t @ concat segs"
  using assms
proof (induction segs arbitrary: a t md)
  case Nil
  then show ?case by auto
next
  case (Cons s segs)
  obtain md1 a1 t1 where 1: "sha256_process md s = Some md1" "sha_at a1 t1 md1" "a1 @ t1 = a @ t @ s"
    using sha256_process_at [OF Cons.prems] by blast
  obtain md2 a2 t2 where "sha256_feed md1 segs = Some md2" "sha_at a2 t2 md2" "a2 @ t2 = a1 @ t1 @ concat segs"
    using Cons.IH [OF 1(2)] by blast
  then show ?case using 1 by (metis append.assoc bind.bind_lunit concat.simps(2) sha256_feed.simps(2))
qed

lemma overwrite_prefix:
  assumes "off + length xs \<le> length buf" "take off buf = p"
  shows "take (off + length xs) (overwrite buf off xs) = p @ xs" "length (overwrite buf off xs) = length buf"
  using assms overwrite_take [of off buf xs] overwrite_length [of off xs buf] by auto

lemma word_of_nat_bits: "word_of_nat (8 * a) + word_of_nat (t * 8) = (word_of_nat (8 * (a + t)) :: u64)"
  by (simp add: algebra_simps)

lemma sha256_done_at:
  assumes "sha_at a t md"
  shows "sha256_done md = Some (sha256 (a @ t))"
proof -
  note at = assms [unfolded sha_at_def]
  have cur: "\<not> 64 \<le> md_curlen md" using at by simp
  define n where "n = length t"
  have nl: "n < 64" "md_curlen md = n" using at by (simp_all add: n_def)
  have da: "64 dvd length a" using at by simp
  define b1 where "b1 = overwrite (md_buf md) n [0x80]"
  have b1: "take (n + 1) b1 = t @ [0x80]" "length b1 = 64"
    using overwrite_prefix [where off = n and xs = "[0x80]" and buf = "md_buf md" and p = t] at nl by (simp_all add: b1_def n_def)
  define len where "len = WPA_PUT_BE64 (word_of_nat (8 * length (a @ t)))"
  have ll: "length len = 8" by (simp add: len_def WPA_PUT_BE64_def)
  have mdl: "md_length md + word_of_nat (n * 8) = word_of_nat (8 * length (a @ t))"
    using at word_of_nat_bits [of "length a" n] by (simp add: n_def)
  have mod: "length (a @ t) mod 64 = n" using da nl by (auto simp: n_def elim!: dvdE)
  show ?thesis
  proof (cases "56 < n + 1")
    case True
    define b2 where "b2 = overwrite b1 (n + 1) (replicate (64 - (n + 1)) 0)"
    have b2: "b2 = t @ [0x80] @ replicate (63 - n) 0" "length b2 = 64"
      using overwrite_prefix [where off = "n + 1" and xs = "replicate (64 - (n + 1)) 0" and buf = b1 and p = "t @ [0x80]"] b1 nl
      by (auto simp: b2_def)
    define b3 where "b3 = overwrite b2 0 (replicate 56 0)"
    have b3: "take 56 b3 = replicate 56 0" "length b3 = 64"
      using overwrite_prefix [where off = 0 and xs = "replicate 56 (0::u8)" and buf = b2 and p = "[]"] b2(2)
      by (simp_all add: b3_def)
    have b4: "overwrite b3 56 len = replicate 56 0 @ len" "length (overwrite b3 56 len) = 64"
      using overwrite_prefix [where off = 56 and xs = len and buf = b3 and p = "replicate 56 0"] b3 ll by auto
    have pad: "(a @ t) @ sha256_pad (length (a @ t)) = a @ b2 @ (replicate 56 0 @ len) @ []"
    proof -
      have "replicate (119 - n) (0 :: u8) = replicate (63 - n) 0 @ replicate 56 0"
        using nl by (simp add: replicate_add [symmetric])
      then show ?thesis using True mod unfolding sha256_pad_def len_def b2(1) by simp
    qed
    have "sha256 (a @ t) = concat (map WPA_PUT_BE32
        (sha256_compress (sha256_compress (md_state md) b2) (overwrite b3 56 len)))"
      unfolding sha256_def pad chunks64_append [OF da] chunks64_block [OF b2(2)]
        chunks64_block [OF b4(2) [unfolded b4(1)]] b4(1) using at by simp
    then show ?thesis
      using True nl mdl unfolding sha256_done_def if_not_P [OF cur] Let_def
      by (simp add: b1_def b2_def b3_def len_def)
  next
    case False
    define b3 where "b3 = overwrite b1 (n + 1) (replicate (56 - (n + 1)) 0)"
    have b3: "take 56 b3 = t @ [0x80] @ replicate (55 - n) 0" "length b3 = 64"
      using overwrite_prefix [where off = "n + 1" and xs = "replicate (56 - (n + 1)) 0" and buf = b1 and p = "t @ [0x80]"] b1 nl False
      by (auto simp: b3_def)
    have b4: "overwrite b3 56 len = t @ [0x80] @ replicate (55 - n) 0 @ len" "length (overwrite b3 56 len) = 64"
      using overwrite_prefix [where off = 56 and xs = len and buf = b3 and p = "t @ [0x80] @ replicate (55 - n) 0"] b3 ll
      by auto
    have "sha256_pad (length (a @ t)) = 0x80 # replicate (55 - n) 0 @ len"
      using False mod unfolding sha256_pad_def len_def by simp
    then have pad: "(a @ t) @ sha256_pad (length (a @ t)) = a @ overwrite b3 56 len @ []"
      unfolding b4(1) by simp
    have "sha256 (a @ t) = concat (map WPA_PUT_BE32 (sha256_compress (md_state md) (overwrite b3 56 len)))"
      unfolding sha256_def pad chunks64_append [OF da] chunks64_block [OF b4(2)] using at by simp
    then show ?thesis
      using False nl mdl unfolding sha256_done_def if_not_P [OF cur] Let_def
      by (simp add: b1_def b3_def len_def)
  qed
qed

lemma sha_at_init: "length (md_buf ctx) = 64 \<Longrightarrow> sha_at [] [] (sha256_init ctx)"
  by (simp add: sha_at_def sha256_init_def)

lemma vector_at:
  assumes "length (md_buf ctx) = 64"
  shows "sha256_vector ctx segs = Some (sha256 (concat segs))"
proof -
  obtain md a t where "sha256_feed (sha256_init ctx) segs = Some md" "sha_at a t md" "a @ t = concat segs"
    using sha256_feed_at [OF sha_at_init [OF assms], of segs] by auto
  then show ?thesis using sha256_done_at by (auto simp: sha256_vector_def)
qed

text \<open>C26: Hashing any list of segments through the 64-byte streaming buffer of
  \<open>sha256_vector\<close> gives the SHA-256 digest (pad, cut into blocks, fold the compression function) of
  their concatenation, never fails, and depends neither on the segmentation nor on what the
  uninitialised context held.\<close>

theorem sha256_vector_stream:
  assumes "length (md_buf ctx) = 64"
  shows "sha256_vector ctx segs = Some (sha256 (concat segs))"
using assms by (rule vector_at)


section \<open>The code: HMAC and the key derivation\<close>

text \<open>\<open>vec\<close> is the hash over a vector of segments, \<open>mac\<close> the output buffer as the caller left it: a vector of
  more than five segments returns without writing it, and a failing hash leaves it.\<close>

definition hmac_vector :: "(bytes list \<Rightarrow> bytes option) \<Rightarrow> bytes \<Rightarrow> bytes list \<Rightarrow> bytes \<Rightarrow> bytes" where
  "hmac_vector vec key addr mac =
     (if 5 < length addr then mac
      else
        (let out = (\<lambda>segs m. case vec segs of Some d \<Rightarrow> d | None \<Rightarrow> m);
             key = (if 64 < length key then out [key] (replicate 32 0) else key);
             k_pad = map (\<lambda>b. b XOR 0x36) (overwrite (replicate 64 0) 0 key);
             mac = out (k_pad # addr) mac;
             k_pad = map (\<lambda>b. b XOR 0x5c) (overwrite (replicate 64 0) 0 key)
         in out [k_pad, take 32 mac] mac))"

definition hmac_sha256_vector :: "sha256_state \<Rightarrow> bytes \<Rightarrow> bytes list \<Rightarrow> bytes \<Rightarrow> bytes" where
  "hmac_sha256_vector ctx = hmac_vector (sha256_vector ctx)"

text \<open>The length of a NUL-terminated string, returned as one byte.\<close>

definition os_strlen :: "bytes \<Rightarrow> u8" where
  "os_strlen s = word_of_nat (length (takeWhile (\<lambda>c. c \<noteq> 0) s))"

function prf_loop :: "(bytes list \<Rightarrow> bytes \<Rightarrow> bytes) \<Rightarrow> bytes \<Rightarrow> bytes \<Rightarrow> bytes \<Rightarrow> u16 \<Rightarrow> nat \<Rightarrow> bytes \<Rightarrow> bytes" where
  "prf_loop mac label data length_le counter pos buf =
     (if pos < length buf then
        let plen = length buf - pos;
            addr = [WPA_PUT_LE16 counter, label, data, length_le]
        in if 32 \<le> plen
           then prf_loop mac label data length_le (counter + 1) (pos + 32)
                  (overwrite buf pos (take 32 (mac addr (take 32 (drop pos buf)))))
           else overwrite buf pos (take plen (mac addr (replicate 32 0)))
      else buf)"
  by pat_completeness auto
termination by (relation "measure (\<lambda>(_, _, _, _, _, pos, buf). length buf - pos)")
  (auto simp: overwrite_def)

declare prf_loop.simps [simp del]

definition sha256_prf :: "sha256_state \<Rightarrow> bytes \<Rightarrow> bytes \<Rightarrow> bytes \<Rightarrow> bytes \<Rightarrow> bytes" where
  "sha256_prf ctx key label data buf =
     prf_loop (hmac_sha256_vector ctx key) (take (unat (os_strlen label)) label) data
       (WPA_PUT_LE16 (word_of_nat (length buf * 8))) 1 0 buf"

section \<open>HMAC over any vector hash\<close>

text \<open>RFC 2104 over a one-shot hash \<open>H\<close> with 64-byte blocks and 32-byte digests.\<close>

definition hmac :: "(bytes \<Rightarrow> bytes) \<Rightarrow> bytes \<Rightarrow> bytes \<Rightarrow> bytes" where
  "hmac H key m =
     (let k0 = (if 64 < length key then H key else key);
          k = k0 @ replicate (64 - length k0) 0
      in H (map (\<lambda>b. b XOR 0x5c) k @ H (map (\<lambda>b. b XOR 0x36) k @ m)))"

locale vector_hash =
  fixes vec :: "bytes list \<Rightarrow> bytes option" and H :: "bytes \<Rightarrow> bytes"
  assumes vec_stream: "vec segs = Some (H (concat segs))"
    and digest_length: "length (H m) = 32"
begin

lemma key_block: "length k \<le> 64 \<Longrightarrow> overwrite (replicate 64 0) 0 k = k @ replicate (64 - length k) 0"
  by (simp add: overwrite_def)

lemma hmac_is_rfc2104:
  assumes "length addr \<le> 5"
  shows "hmac_vector vec key addr mac = hmac H key (concat addr)"
proof -
  have 5: "\<not> 5 < length addr" using assms by simp
  define k where "k = (if 64 < length key then H key else key)"
  have k: "overwrite (replicate 64 0) 0 k = k @ replicate (64 - length k) 0"
    using digest_length by (intro key_block) (simp add: k_def)
  have v: "(case vec segs of Some d \<Rightarrow> d | None \<Rightarrow> m) = H (concat segs)" for segs m
    by (simp add: vec_stream)
  have kv: "(if 64 < length key then H (concat [key]) else key) = k" by (simp add: k_def)
  have t: "take 32 (H m) = H m" for m by (simp add: digest_length)
  show ?thesis
    unfolding hmac_vector_def hmac_def Let_def if_not_P [OF 5] v kv k k_def [symmetric] t by simp
qed

lemma hmac_segments:
  assumes "length addr \<le> 5" "length addr' \<le> 5" "concat addr = concat addr'"
  shows "hmac_vector vec key addr mac = hmac_vector vec key addr' mac'"
  using assms by (simp add: hmac_is_rfc2104)

lemma hmac_length: "length (hmac H key m) = 32"
  by (simp add: hmac_def Let_def digest_length)

end

lemma foldl_compress_length: "length st = 8 \<Longrightarrow> length (foldl sha256_compress st bs) = 8"
  by (induction bs arbitrary: st) (simp_all add: sha256_compress_def Let_def)

lemma concat_be32_length: "length (concat (map WPA_PUT_BE32 ws)) = 4 * length ws"
  by (induction ws) (simp_all add: WPA_PUT_BE32_def)

lemma sha256_length: "length (sha256 m) = 32"
  by (simp add: sha256_def concat_be32_length foldl_compress_length sha256_H0_def)

text \<open>Every context with a 64-byte buffer (what the C type gives) has this form.\<close>

definition sized_ctx :: "sha256_state \<Rightarrow> sha256_state" where
  "sized_ctx ctx = ctx\<lparr>md_buf := take 64 (md_buf ctx @ replicate 64 0)\<rparr>"

lemma sized_ctx_id: "length (md_buf ctx) = 64 \<Longrightarrow> sized_ctx ctx = ctx"
  by (simp add: sized_ctx_def)

lemma sized_ctx_vector: "sha256_vector (sized_ctx ctx) segs = Some (sha256 (concat segs))"
by (rule vector_at) (simp add: sized_ctx_def)

interpretation sha256_hash: vector_hash "sha256_vector (sized_ctx ctx)" sha256 for ctx
  by unfold_locales (simp_all add: sized_ctx_vector sha256_length)

section \<open>HMAC-SHA-256 and the key derivation\<close>

text \<open>C27: For at most five segments \<open>hmac_sha256_vector\<close> writes HMAC-SHA-256 of RFC 2104 of their
  concatenation (long keys hashed first); with more segments it returns and leaves the output buffer as
  it was.\<close>

theorem hmac_sha256_vector_rfc2104:
  assumes "length (md_buf ctx) = 64"
  shows "hmac_sha256_vector ctx key addr mac = (if length addr \<le> 5 then hmac sha256 key (concat addr) else mac)"
proof (cases "length addr \<le> 5")
  case True
  then show ?thesis using sha256_hash.hmac_is_rfc2104 [of addr ctx key mac] sized_ctx_id [OF assms]
    by (simp add: hmac_sha256_vector_def)
next
  case False
  then show ?thesis by (simp add: hmac_sha256_vector_def hmac_vector_def)
qed

text \<open>The reference of the key derivation: counter-mode blocks, cut to the length asked for.\<close>

definition kdf_blocks :: "(bytes \<Rightarrow> bytes) \<Rightarrow> bytes \<Rightarrow> bytes \<Rightarrow> nat \<Rightarrow> nat \<Rightarrow> bytes" where
  "kdf_blocks F label data bits n =
     concat (map (\<lambda>i. F (WPA_PUT_LE16 (word_of_nat i) @ label @ data @ WPA_PUT_LE16 (word_of_nat bits))) [1..<Suc n])"

lemma kdf_blocks_length: "(\<And>m. length (F m) = 32) \<Longrightarrow> length (kdf_blocks F label data bits n) = 32 * n"
  by (induction n) (simp_all add: kdf_blocks_def)

lemma kdf_blocks_Suc:
  "kdf_blocks F label data bits (Suc n) = kdf_blocks F label data bits n
     @ F (WPA_PUT_LE16 (word_of_nat (Suc n)) @ label @ data @ WPA_PUT_LE16 (word_of_nat bits))"
  by (simp add: kdf_blocks_def)

lemma take_kdf_blocks:
  assumes "\<And>m. length (F m) = 32" "n \<le> m"
  shows "take (32 * n) (kdf_blocks F label data bits m) = kdf_blocks F label data bits n"
  using assms(2)
proof (induction m)
  case (Suc m)
  show ?case
  proof (cases "n = Suc m")
    case True
    then show ?thesis using kdf_blocks_length [OF assms(1)] by simp
  next
    case False
    then show ?thesis using Suc kdf_blocks_length [OF assms(1)] by (simp add: kdf_blocks_Suc)
  qed
qed (simp add: kdf_blocks_def)

lemma prf_loop_blocks:
  fixes mac :: "bytes list \<Rightarrow> bytes \<Rightarrow> bytes"
  assumes mac: "\<And>segs m. length segs = 4 \<Longrightarrow> mac segs m = F (concat segs)" and F: "\<And>m. length (F m) = 32"
    and len: "32 * n \<le> length buf" "take (32 * n) buf = kdf_blocks F label data bits n"
  shows "prf_loop mac label data (WPA_PUT_LE16 (word_of_nat bits)) (word_of_nat (Suc n)) (32 * n) buf
    = take (length buf) (kdf_blocks F label data bits (Suc (length buf div 32)))"
  using len
proof (induction "length buf - 32 * n" arbitrary: n buf rule: less_induct)
  case less
  let ?B = "kdf_blocks F label data bits"
  let ?blk = "F (WPA_PUT_LE16 (word_of_nat (Suc n)) @ label @ data @ WPA_PUT_LE16 (word_of_nat bits))"
  have m: "mac [WPA_PUT_LE16 (word_of_nat (Suc n)), label, data, WPA_PUT_LE16 (word_of_nat bits)] x = ?blk" for x
    by (simp add: mac)
  have Bn: "length (?B n) = 32 * n" by (rule kdf_blocks_length [OF F])
  show ?case
  proof (cases "32 * n < length buf")
    case False
    then have "length buf = 32 * n" using less.prems by simp
    then show ?thesis using less.prems F
      by (subst prf_loop.simps) (simp add: take_kdf_blocks [OF F])
  next
    case lt: True
    show ?thesis
    proof (cases "32 \<le> length buf - 32 * n")
      case True
      let ?buf = "overwrite buf (32 * n) ?blk"
      have le: "32 * n + length ?blk \<le> length buf" using True lt by (simp add: F)
      have 1: "take (32 * n + 32) ?buf = ?B (Suc n)" "length ?buf = length buf"
        using overwrite_prefix [OF le less.prems(2)] by (simp_all add: F kdf_blocks_Suc)
      have t: "take 32 ?blk = ?blk" by (simp add: F)
      have step: "prf_loop mac label data (WPA_PUT_LE16 (word_of_nat bits)) (word_of_nat (Suc n)) (32 * n) buf
        = prf_loop mac label data (WPA_PUT_LE16 (word_of_nat bits)) (word_of_nat (Suc (Suc n))) (32 * Suc n) ?buf"
        using lt True unfolding prf_loop.simps [of mac _ _ _ _ "32 * n"] Let_def m t
        by (simp add: add.commute)
      have "prf_loop mac label data (WPA_PUT_LE16 (word_of_nat bits)) (word_of_nat (Suc (Suc n))) (32 * Suc n) ?buf
        = take (length ?buf) (?B (Suc (length ?buf div 32)))"
        using True 1 lt by (intro less.hyps) (simp_all add: add.commute)
      then show ?thesis using 1(2) step by simp
    next
      case False
      define p where "p = length buf - 32 * n"
      have p: "p < 32" "length buf = 32 * n + p" using False lt by (simp_all add: p_def)
      have d: "length buf div 32 = n" using p by simp
      have le: "32 * n + length (take p ?blk) \<le> length buf" using p by (simp add: F)
      have "overwrite buf (32 * n) (take p ?blk) = ?B n @ take p ?blk"
        using overwrite_prefix [OF le less.prems(2)] p by (simp add: F)
      moreover have "prf_loop mac label data (WPA_PUT_LE16 (word_of_nat bits)) (word_of_nat (Suc n)) (32 * n) buf
          = overwrite buf (32 * n) (take p ?blk)"
        using lt False unfolding prf_loop.simps [of mac _ _ _ _ "32 * n"] Let_def m p_def [symmetric] by simp
      ultimately show ?thesis unfolding d kdf_blocks_Suc using p Bn by simp
    qed
  qed
qed

text \<open>For a label of fewer than 256 bytes, \<open>sha256_prf\<close> fills the whole buffer with the
  802.11r key derivation: the HMACs of counter, label, data and bit length for the counters 1, 2, ...,
  concatenated and cut to the buffer's length, whatever the buffer and the hash contexts held.\<close>

theorem sha256_prf_kdf:
  assumes "length (md_buf ctx) = 64" "0 \<notin> set label" "length label < 256"
  shows "sha256_prf ctx key label data buf
    = take (length buf) (kdf_blocks (hmac sha256 key) label data (8 * length buf) (Suc (length buf div 32)))"
proof -
  have s: "take (unat (os_strlen label)) label = label"
  proof -
    have t: "takeWhile (\<lambda>c. c \<noteq> 0) label = label" using assms(2) by (auto simp: takeWhile_eq_all_conv)
    show ?thesis unfolding os_strlen_def t using assms(3) by (simp add: unat_of_nat take_bit_eq_mod)
  qed
  have m: "hmac_sha256_vector ctx key segs m = hmac sha256 key (concat segs)" if "length segs = 4" for segs m
    using that sha256_hash.hmac_is_rfc2104 [of segs ctx key m] sized_ctx_id [OF assms(1)]
    by (simp add: hmac_sha256_vector_def)
  have 0: "take (32 * 0) buf = kdf_blocks (hmac sha256 key) label data (length buf * 8) 0"
    by (simp add: kdf_blocks_def)
  have "prf_loop (hmac_sha256_vector ctx key) label data (WPA_PUT_LE16 (word_of_nat (length buf * 8))) (word_of_nat (Suc 0)) (32 * 0) buf
    = take (length buf) (kdf_blocks (hmac sha256 key) label data (length buf * 8) (Suc (length buf div 32)))"
    by (rule prf_loop_blocks [OF m sha256_hash.hmac_length _ 0]) simp_all
  then have "prf_loop (hmac_sha256_vector ctx key) label data (WPA_PUT_LE16 (word_of_nat (length buf * 8))) 1 0 buf
    = take (length buf) (kdf_blocks (hmac sha256 key) label data (length buf * 8) (Suc (length buf div 32)))"
    by (simp only: mult_0_right of_nat_1 One_nat_def [symmetric])
  then show ?thesis unfolding sha256_prf_def s mult.commute [of "length buf" 8] .
qed

text \<open>The three properties at concrete inputs.\<close>

theorem sha256_vector_stream_witness:
  "sha256_vector (sha256_state.make 0 [] 0 (replicate 64 7)) [[0x61], [], [0x62, 0x63]] = Some (sha256 [0x61, 0x62, 0x63])"
  using sha256_vector_stream [of "sha256_state.make 0 [] 0 (replicate 64 7)" "[[0x61], [], [0x62, 0x63]]"]
  by (simp add: sha256_state.make_def)

theorem hmac_sha256_vector_rfc2104_witness:
  "hmac_sha256_vector (sha256_state.make 0 [] 0 (replicate 64 7)) [1, 2] [[3], [4]] [] = hmac sha256 [1, 2] [3, 4]
   \<and> hmac_sha256_vector (sha256_state.make 0 [] 0 (replicate 64 7)) [1, 2] [[], [], [], [], [], []] [9] = [9]"
  using hmac_sha256_vector_rfc2104 [of "sha256_state.make 0 [] 0 (replicate 64 7)" "[1, 2]" "[[3], [4]]" "[]"]
    hmac_sha256_vector_rfc2104 [of "sha256_state.make 0 [] 0 (replicate 64 7)" "[1, 2]" "[[], [], [], [], [], []]" "[9]"]
  by (simp add: sha256_state.make_def)

theorem sha256_prf_kdf_witness:
  "sha256_prf (sha256_state.make 0 [] 0 (replicate 64 7)) [1] [0x54, 0x44] [5] (replicate 3 0)
   = take 3 (kdf_blocks (hmac sha256 [1]) [0x54, 0x44] [5] 24 1)"
  using sha256_prf_kdf [of "sha256_state.make 0 [] 0 (replicate 64 7)" "[0x54, 0x44]" "[1]" "[5]" "replicate 3 0"]
  by (simp add: sha256_state.make_def)

end
