(* ===== verification/Siv.thy ===== *)
theory Siv
  imports Cmac
begin

text \<open>
  AES-SIV (RFC 5297) of core/rtw_security.c, compiled with \<open>CONFIG_RTW_MESH_AEK\<close>: \<open>aes_s2v\<close>,
  \<open>aes_128_ctr_encrypt\<close>, \<open>aes_siv_encrypt\<close>, \<open>aes_siv_decrypt\<close> and \<open>os_memcmp\<close>. An error return is \<open>Inl\<close>
  of the code, or a negative first component. The locale \<open>siv_mode\<close> is the scheme over any synthetic-IV
  function and any self-inverse stream; it is interpreted on the driver's \<open>aes_s2v\<close> and counter mode.
\<close>

section \<open>The code\<close>

definition dbl :: "bytes \<Rightarrow> bytes" where
  "dbl pad =
     (let carry = pad ! 0 AND 0x80;
          p = map (\<lambda>i. push_bit 1 (pad ! i) OR drop_bit 7 (pad ! (i + 1))) [0..<15] @ [push_bit 1 (pad ! 15)]
      in if carry \<noteq> 0 then p[15 := p ! 15 XOR 0x87] else p)"

definition siv_xor :: "bytes \<Rightarrow> bytes \<Rightarrow> bytes" where
  "siv_xor a b = map (\<lambda>i. a ! i XOR b ! i) [0..<16]"

definition xorend :: "bytes \<Rightarrow> bytes \<Rightarrow> bytes" where
  "xorend a b =
     (if length a < length b then a
      else take (length a - length b) a @ map (\<lambda>i. a ! (length a - length b + i) XOR b ! i) [0..<length b])"

definition pad_block :: "bytes \<Rightarrow> bytes option" where
  "pad_block addr = do {
     pad \<leftarrow> put_sub (replicate 16 0) 0 addr;
     Some (if length addr < 16 then pad[length addr := 0x80] else pad) }"

fun s2v_chain :: "bytes list \<Rightarrow> bytes \<Rightarrow> bytes \<Rightarrow> bytes list \<Rightarrow> bytes option" where
  "s2v_chain beyond key tmp [] = Some tmp"
| "s2v_chain beyond key tmp (a # addr) = do {
     tmp2 \<leftarrow> omac1_aes_128 beyond key a;
     s2v_chain beyond key (siv_xor (dbl tmp) tmp2) addr }"

text \<open>\<open>mem\<close>: whether \<open>os_malloc\<close> succeeds. \<open>addr\<close> is the vector of \<open>num_elem\<close> segments.\<close>

definition aes_s2v :: "bool \<Rightarrow> bytes list \<Rightarrow> bytes \<Rightarrow> bytes list \<Rightarrow> (int + bytes) option" where
  "aes_s2v mem beyond key addr =
     (if addr = [] then do { mac \<leftarrow> omac1_aes_128 beyond key ((replicate 16 0)[15 := 1]); Some (Inr mac) }
      else do {
        tmp \<leftarrow> omac1_aes_128 beyond key (replicate 16 0);
        tmp \<leftarrow> s2v_chain beyond key tmp (butlast addr);
        if 16 \<le> length (last addr)
        then (if \<not> mem then Some (Inl (-12))
              else do { mac \<leftarrow> omac1_aes_128 beyond key (xorend (last addr) tmp); Some (Inr mac) })
        else do {
          tmp2 \<leftarrow> pad_block (last addr);
          mac \<leftarrow> omac1_aes_128 beyond key (siv_xor (dbl tmp) tmp2);
          Some (Inr mac) } })"

text \<open>The increment of the counter, from its last byte on.\<close>

fun ctr_inc :: "nat \<Rightarrow> bytes \<Rightarrow> bytes" where
  "ctr_inc 0 counter = counter"
| "ctr_inc (Suc i) counter =
     (let counter = counter[i := counter ! i + 1]
      in if counter ! i \<noteq> 0 then counter else ctr_inc i counter)"

function ctr_loop :: "u32 list \<Rightarrow> bytes \<Rightarrow> bytes \<Rightarrow> bytes" where
  "ctr_loop ctx counter data =
     (if data = [] then []
      else
        (let buf = rijndaelEncrypt ctx counter;
             len = (if length data < 16 then length data else 16)
         in map (\<lambda>j. data ! j XOR buf ! j) [0..<len] @ ctr_loop ctx (ctr_inc 16 counter) (drop len data)))"
  by pat_completeness auto
termination by (relation "measure (\<lambda>(_, _, data). length data)") (auto simp: Let_def)

declare ctr_loop.simps [simp del]

definition aes_128_ctr_encrypt :: "bytes \<Rightarrow> bytes \<Rightarrow> bytes \<Rightarrow> bytes" where
  "aes_128_ctr_encrypt key nonce data = ctr_loop (rijndaelKeySetupEnc key) nonce data"

fun os_memcmp :: "bytes \<Rightarrow> bytes \<Rightarrow> nat \<Rightarrow> int option" where
  "os_memcmp p1 p2 0 = Some 0"
| "os_memcmp p1 p2 (Suc n) = do {
     a \<leftarrow> rd p1 0;
     b \<leftarrow> rd p2 0;
     if a = b then os_memcmp (drop 1 p1) (drop 1 p2) n else Some (uint a - uint b) }"

text \<open>\<open>out\<close> is what the output buffer holds before the call.\<close>

definition siv_mask :: "bytes \<Rightarrow> bytes" where
  "siv_mask v = v[8 := v ! 8 AND 0x7f, 12 := v ! 12 AND 0x7f]"

definition aes_siv_encrypt ::
  "bool \<Rightarrow> bytes list \<Rightarrow> bytes \<Rightarrow> bytes \<Rightarrow> bytes list \<Rightarrow> bytes \<Rightarrow> (int \<times> bytes) option" where
  "aes_siv_encrypt mem beyond key pw addr out =
     (let k1 = take 16 key; k2 = take 16 (drop 16 key)
      in if 5 < length addr then Some (-1, out)
         else do {
           r \<leftarrow> aes_s2v mem beyond k1 (addr @ [pw]);
           case r of
             Inl e \<Rightarrow> Some (-1, out)
           | Inr v \<Rightarrow> Some (0, v @ aes_128_ctr_encrypt k2 (siv_mask v) pw) })"

definition aes_siv_decrypt ::
  "bool \<Rightarrow> bytes list \<Rightarrow> bytes \<Rightarrow> bytes \<Rightarrow> bytes list \<Rightarrow> bytes \<Rightarrow> (int \<times> bytes) option" where
  "aes_siv_decrypt mem beyond key iv_crypt addr out =
     (let k1 = take 16 key; k2 = take 16 (drop 16 key)
      in if length iv_crypt < 16 \<or> 5 < length addr then Some (-1, out)
         else do {
           let iv = siv_mask (take 16 iv_crypt);
           let out = aes_128_ctr_encrypt k2 iv (drop 16 iv_crypt);
           r \<leftarrow> aes_s2v mem beyond k1 (addr @ [out]);
           case r of
             Inl e \<Rightarrow> Some (e, out)
           | Inr check \<Rightarrow> do {
               d \<leftarrow> os_memcmp check iv_crypt 16;
               Some (if d = 0 then (0, out) else (-1, out)) } })"

section \<open>The reference: S2V of RFC 5297 over CMAC\<close>

definition s2v_last :: "bytes \<Rightarrow> bytes \<Rightarrow> bytes" where
  "s2v_last d pw =
     (if 16 \<le> length pw then take (length pw - 16) pw @ xor_128 (drop (length pw - 16) pw) d
      else xor_128 (dbl d) (cmac_pad pw))"

definition s2v :: "(bytes \<Rightarrow> bytes) \<Rightarrow> bytes list \<Rightarrow> bytes \<Rightarrow> bytes" where
  "s2v E ads pw =
     cmac E (s2v_last (foldl (\<lambda>d a. xor_128 (dbl d) (cmac E a)) (cmac E (replicate 16 0)) ads) pw)"

section \<open>The synthetic IV\<close>

lemma cmac_from_length:
  assumes "\<And>x. length (E x) = 16"
  shows "length (cmac_from E c m) = 16"
proof (induction "length m" arbitrary: c m rule: less_induct)
  case less
  show ?case
  proof (cases "length m \<le> 16")
    case True
    then show ?thesis by (subst cmac_from.simps) (auto simp: assms Let_def)
  next
    case False
    then have "length (cmac_from E (E (xor_128 c (take 16 m))) (drop 16 m)) = 16"
      by (intro less.hyps) simp
    with False show ?thesis by (subst cmac_from.simps) (simp add: Let_def)
  qed
qed

lemma cmac_length: "length (cmac (aes_encrypt key) m) = 16"
  by (simp add: cmac_def cmac_from_length aes_encrypt_def)

lemma omac1_total:
  assumes "length key = 16" "beyond \<noteq> []"
  shows "omac1_aes_128 beyond key data = Some (cmac (aes_encrypt key) data)"
proof (cases "data = []")
  case True
  let ?p = "gf_mulx (gf_mulx (aes_encrypt key (replicate 16 0)))"
  let ?z = "xor_128 (replicate 16 0) (cmac_pad [])"
  have z: "(xor_into (replicate 16 0) [])[0 := xor_into (replicate 16 0) [] ! 0 XOR 0x80] = ?z"
    using xor_into_pad [of "replicate 16 0" "[]"] by simp
  have "cmac (aes_encrypt key) [] = aes_encrypt key (xor_128 ?z ?p)"
    unfolding cmac_def by (subst cmac_from.simps) (simp add: Let_def)
  then have "omac1_aes_128 beyond key [] = Some (cmac (aes_encrypt key) [])"
    unfolding omac1_aes_128_def omac1_aes_128_vector_def
    by (simp add: omac_blocks.simps rd_def z xor_into_block xor_128_commute [of ?p] Let_def
        aes_encrypt_def [symmetric])
  then show ?thesis by (simp add: True)
next
  case False
  then show ?thesis
    using omac1_aes_128_vector_cmac [of key 1 "data # beyond"] assms by (simp add: omac1_aes_128_def)
qed


lemma siv_xor_eq: "siv_xor a b = xor_128 a b"
  by (simp add: siv_xor_def xor_128_def)

lemma pad_block_short:
  assumes "length pw < 16"
  shows "pad_block pw = Some (cmac_pad pw)"
proof -
  have "16 - length pw = Suc (15 - length pw)" using assms by simp
  then show ?thesis using assms by (simp add: pad_block_def put_sub_def cmac_pad_def)
qed

lemma xorend_eq: "length d = 16 \<Longrightarrow> 16 \<le> length pw \<Longrightarrow>
  xorend pw d = take (length pw - 16) pw @ xor_128 (drop (length pw - 16) pw) d"
  by (simp add: xorend_def xor_128_def)

lemma s2v_chain_eq:
  assumes "length key = 16" "beyond \<noteq> []"
  shows "s2v_chain beyond key d ads = Some (foldl (\<lambda>d a. xor_128 (dbl d) (cmac (aes_encrypt key) a)) d ads)"
  by (induction ads arbitrary: d) (simp_all add: omac1_total [OF assms] siv_xor_eq)

lemma s2v_chain_length:
  "length d = 16 \<Longrightarrow> length (foldl (\<lambda>d a. xor_128 (dbl d) (E a)) d ads) = 16"
  by (induction ads arbitrary: d) simp_all

lemma s2v_length: "length (s2v (aes_encrypt key) ads pw) = 16"
  by (simp add: s2v_def cmac_length)

lemma aes_s2v_eq:
  assumes "length key = 16" "beyond \<noteq> []" "mem"
  shows "aes_s2v mem beyond key (ads @ [pw]) = Some (Inr (s2v (aes_encrypt key) ads pw))"
proof -
  let ?d = "foldl (\<lambda>d a. xor_128 (dbl d) (cmac (aes_encrypt key) a)) (cmac (aes_encrypt key) (replicate 16 0)) ads"
  have d: "length ?d = 16" by (rule s2v_chain_length) (rule cmac_length)
  have "aes_s2v mem beyond key (ads @ [pw]) = Some (Inr (cmac (aes_encrypt key) (s2v_last ?d pw)))"
    using assms(3) d
    by (simp add: aes_s2v_def omac1_total [OF assms(1,2)] s2v_chain_eq [OF assms(1,2)] s2v_last_def
        xorend_eq pad_block_short siv_xor_eq)
  then show ?thesis by (simp add: s2v_def)
qed

section \<open>Counter mode\<close>

lemma ctr_inc_length: "length (ctr_inc n c) = length c"
  by (induction n arbitrary: c) (simp_all add: Let_def)

lemma ctr_loop_length: "length (ctr_loop rk c data) = length data"
proof (induction "length data" arbitrary: c data rule: less_induct)
  case less
  show ?case
  proof (cases "data = []")
    case True then show ?thesis by (simp add: ctr_loop.simps)
  next
    case False
    then have "length (ctr_loop rk (ctr_inc 16 c) (drop (min 16 (length data)) data)) = length data - min 16 (length data)"
      by (subst less.hyps) simp_all
    with False show ?thesis by (subst ctr_loop.simps) (auto simp: Let_def min_def)
  qed
qed

lemma ctr_loop_step:
  assumes "data \<noteq> []" "n = min (length data) 16"
  shows "ctr_loop rk c data = map (\<lambda>j. data ! j XOR rijndaelEncrypt rk c ! j) [0..<n] @ ctr_loop rk (ctr_inc 16 c) (drop n data)"
  using assms by (subst ctr_loop.simps) (auto simp: Let_def min_def)

lemma ctr_loop_involutive: "ctr_loop rk c (ctr_loop rk c data) = data"
proof (induction "length data" arbitrary: c data rule: less_induct)
  case less
  show ?case
  proof (cases "data = []")
    case True then show ?thesis by (simp add: ctr_loop.simps)
  next
    case ne: False
    define n where "n = min (length data) 16"
    have n: "0 < n" "n \<le> length data" using ne by (auto simp: n_def)
    let ?k = "rijndaelEncrypt rk c"
    let ?out = "ctr_loop rk c data"
    note step = ctr_loop_step [OF ne n_def]
    have out: "?out \<noteq> []" "n = min (length ?out) 16" using ne n_def ctr_loop_length [of rk c data] by auto
    have d: "drop n ?out = ctr_loop rk (ctr_inc 16 c) (drop n data)" unfolding step by simp
    have "map (\<lambda>j. ?out ! j XOR ?k ! j) [0..<n] = take n data"
      unfolding step using n by (intro nth_equalityI) (simp_all add: nth_append xor.assoc)
    then have "ctr_loop rk c ?out = take n data @ ctr_loop rk (ctr_inc 16 c) (drop n ?out)"
      unfolding ctr_loop_step [OF out, of rk c] by simp
    also have "\<dots> = take n data @ drop n data" unfolding d using n less.hyps [of "drop n data"] by simp
    finally show ?thesis by simp
  qed
qed

lemma siv_mask_length [simp]: "length (siv_mask v) = length v"
  by (simp add: siv_mask_def)

section \<open>The scheme\<close>

text \<open>What SIV needs: an IV function of fixed length and a self-inverse stream that keeps lengths.\<close>

locale siv_mode =
  fixes iv_of :: "bytes \<Rightarrow> bytes" and strm :: "bytes \<Rightarrow> bytes \<Rightarrow> bytes"
  assumes iv_len: "length (iv_of pw) = 16"
    and strm_inverse: "strm v (strm v x) = x"
begin

lemma open_iff_seal:
  assumes "16 \<le> length c"
  shows "(strm (take 16 c) (drop 16 c) = pw \<and> iv_of (strm (take 16 c) (drop 16 c)) = take 16 c)
    \<longleftrightarrow> c = iv_of pw @ strm (iv_of pw) pw"
proof
  assume "strm (take 16 c) (drop 16 c) = pw \<and> iv_of (strm (take 16 c) (drop 16 c)) = take 16 c"
  then have pw: "strm (take 16 c) (drop 16 c) = pw" "iv_of pw = take 16 c" by auto
  have "strm (take 16 c) pw = drop 16 c" using strm_inverse [of "take 16 c" "drop 16 c"] pw(1) by simp
  then have "iv_of pw @ strm (iv_of pw) pw = take 16 c @ drop 16 c" using pw(2) by simp
  then show "c = iv_of pw @ strm (iv_of pw) pw" by simp
next
  assume "c = iv_of pw @ strm (iv_of pw) pw"
  then show "strm (take 16 c) (drop 16 c) = pw \<and> iv_of (strm (take 16 c) (drop 16 c)) = take 16 c"
    by (simp add: iv_len strm_inverse)
qed

end

interpretation aes_siv: siv_mode "s2v (aes_encrypt k1) ads" "\<lambda>v. aes_128_ctr_encrypt k2 (siv_mask v)"
  for k1 k2 ads
  by unfold_locales (simp_all add: s2v_length aes_128_ctr_encrypt_def ctr_loop_involutive)

lemma os_memcmp_eq:
  "n \<le> length p1 \<Longrightarrow> n \<le> length p2 \<Longrightarrow> \<exists>d. os_memcmp p1 p2 n = Some d \<and> (d = 0 \<longleftrightarrow> take n p1 = take n p2)"
proof (induction p1 p2 n rule: os_memcmp.induct)
  case (1 p1 p2)
  then show ?case by simp
next
  case (2 p1 p2 n)
  obtain a as where p1: "p1 = a # as" using 2 by (cases p1) auto
  obtain b bs where p2: "p2 = b # bs" using 2 by (cases p2) auto
  show ?case
  proof (cases "a = b")
    case True
    then show ?thesis using 2 by (simp add: p1 p2 rd_def)
  next
    case False
    then have "uint a - uint b \<noteq> 0" by (metis eq_iff_diff_eq_0 word_uint_eq_iff)
    with False show ?thesis by (simp add: p1 p2 rd_def)
  qed
qed

lemma aes_siv_encrypt_eq:
  fixes key :: bytes
  defines "k1 \<equiv> take 16 key" and "k2 \<equiv> take 16 (drop 16 key)"
  assumes "length key = 32" "length addr \<le> 5" "mem" "beyond \<noteq> []"
  shows "aes_siv_encrypt mem beyond key pw addr out =
      Some (0, s2v (aes_encrypt k1) addr pw @ aes_128_ctr_encrypt k2 (siv_mask (s2v (aes_encrypt k1) addr pw)) pw)"
proof -
  have k1: "length k1 = 16" using assms(3) by (simp add: k1_def)
  show ?thesis
    using assms(4) aes_s2v_eq [OF k1 assms(6,5), of addr pw] by (simp add: aes_siv_encrypt_def flip: k1_def k2_def)
qed

text \<open>C21: AES-SIV is a deterministic authenticated encryption: with a 32-byte key, at most five
  associated-data segments, allocation succeeding and a readable array entry after the arguments of the
  MAC, decryption of a text of at least 16 bytes returns 0 with the plaintext \<open>pw\<close> exactly when
  encryption of \<open>pw\<close> produces that text. So the round trip holds and nothing else is accepted.\<close>

theorem siv_decrypt_iff_encrypt:
  assumes "length key = 32" "length addr \<le> 5" "mem" "beyond \<noteq> []" "16 \<le> length c"
  shows "aes_siv_decrypt mem beyond key c addr out = Some (0, pw)
    \<longleftrightarrow> aes_siv_encrypt mem beyond key pw addr out' = Some (0, c)"
proof -
  define k1 k2 where "k1 = take 16 key" and "k2 = take 16 (drop 16 key)"
  have k1: "length k1 = 16" using assms(1) by (simp add: k1_def)
  have s: "aes_s2v mem beyond k1 (addr @ [x]) = Some (Inr (s2v (aes_encrypt k1) addr x))" for x
    using aes_s2v_eq [OF k1 assms(4,3)] .
  let ?pl = "aes_128_ctr_encrypt k2 (siv_mask (take 16 c)) (drop 16 c)"
  obtain d where d: "os_memcmp (s2v (aes_encrypt k1) addr ?pl) c 16 = Some d"
    "d = 0 \<longleftrightarrow> s2v (aes_encrypt k1) addr ?pl = take 16 c"
    using os_memcmp_eq [of 16 "s2v (aes_encrypt k1) addr ?pl" c] assms(5) s2v_length [of k1 addr ?pl] by auto
  have "aes_siv_decrypt mem beyond key c addr out = Some (if d = 0 then (0, ?pl) else (-1, ?pl))"
    using assms(2,5) d(1) by (simp add: aes_siv_decrypt_def s flip: k1_def k2_def)
  moreover have "aes_siv_encrypt mem beyond key pw addr out' =
      Some (0, s2v (aes_encrypt k1) addr pw @ aes_128_ctr_encrypt k2 (siv_mask (s2v (aes_encrypt k1) addr pw)) pw)"
    unfolding k1_def k2_def by (rule aes_siv_encrypt_eq [OF assms(1-4)])
  ultimately show ?thesis
    using d(2) aes_siv.open_iff_seal [OF assms(5), of k2 pw k1 addr] by auto
qed

text \<open>\<open>aes_s2v\<close> computes the synthetic IV of RFC 5297: it starts from the CMAC of the zero block,
  doubles and adds the CMAC of each segment, and folds the last segment in at its end or padded.\<close>

theorem aes_s2v_rfc5297:
  assumes "length key = 16" "beyond \<noteq> []" "mem"
  shows "aes_s2v mem beyond key (ads @ [pw]) = Some (Inr (s2v (aes_encrypt key) ads pw))"
  by (rule aes_s2v_eq [OF assms])

theorem aes_s2v_rfc5297_witness:
  "aes_s2v True [[]] (replicate 16 1) [[2], [3, 4]] = Some (Inr (s2v (aes_encrypt (replicate 16 1)) [[2]] [3, 4]))"
  using aes_s2v_rfc5297 [of "replicate 16 1" "[[]]" True "[[2]]" "[3, 4]"] by simp

theorem siv_decrypt_iff_encrypt_witness:
  "\<exists>c. aes_siv_encrypt True [[]] (replicate 32 1) [1, 2, 3, 4] [[5]] [] = Some (0, c)
     \<and> aes_siv_decrypt True [[]] (replicate 32 1) c [[5]] [] = Some (0, [1, 2, 3, 4])"
proof -
  obtain c where c: "aes_siv_encrypt True [[]] (replicate 32 1) [1, 2, 3, 4] [[5]] [] = Some (0, c)" "16 \<le> length c"
    using aes_siv_encrypt_eq [of "replicate 32 1" "[[5]]" True "[[]]" "[1, 2, 3, 4]" "[]"] s2v_length by simp
  then show ?thesis
    using siv_decrypt_iff_encrypt [of "replicate 32 1" "[[5]]" True "[[]]" c "[]" "[1, 2, 3, 4]" "[]"] by auto
qed

end
