(* ===== verification/Crc16.thy ===== *)
theory Crc16
  imports Prelude
begin

text \<open>
  The remaining helpers of core/rtw_security.c: the CRC-16 of wake-up patterns (\<open>rtw_cal_crc16\<close>,
  \<open>rtw_calc_crc\<close>), the TKIP countermeasure timer and the restoration of WEP keys after a hardware
  reset. The bit-by-bit CRC code is proved to be a shift register with one polynomial, hence injective
  in its start value and able to see every corruption inside two consecutive bytes.
\<close>

section \<open>The code\<close>

definition set_bit16 :: "nat \<Rightarrow> bool \<Rightarrow> u16 \<Rightarrow> u16" where
  "set_bit16 n v crc = (if v then crc OR push_bit n 1 else crc AND NOT (push_bit n 1))"

definition crc16_bit :: "u8 \<Rightarrow> nat \<Rightarrow> u16 \<Rightarrow> u16" where
  "crc16_bit data index crc =
     (let crc_bit15 = (crc AND push_bit 15 1 \<noteq> 0);
          data_bit = (data AND push_bit index 1 \<noteq> 0);
          shift_in = (crc_bit15 \<noteq> data_bit);
          crc_result = push_bit 1 crc;
          crc_result = set_bit16 0 shift_in crc_result;
          crc_bit11 = ((crc AND push_bit 11 1 \<noteq> 0) \<noteq> shift_in);
          crc_result = set_bit16 12 crc_bit11 crc_result;
          crc_bit4 = ((crc AND push_bit 4 1 \<noteq> 0) \<noteq> shift_in)
      in set_bit16 5 crc_bit4 crc_result)"

definition rtw_cal_crc16 :: "u8 \<Rightarrow> u16 \<Rightarrow> u16" where
  "rtw_cal_crc16 data crc = foldl (\<lambda>crc index. crc16_bit data index crc) crc [0..<8]"

definition rtw_calc_crc :: "bytes \<Rightarrow> u16" where
  "rtw_calc_crc pdata = NOT (foldl (\<lambda>crc b. rtw_cal_crc16 b crc) 0xffff pdata)"

text \<open>The countermeasure state and the milliseconds since it started, read from the kernel.\<close>

record tkip_cm =
  btkip_countermeasure :: bool
  btkip_countermeasure_time :: u64

definition rtw_handle_tkip_countermeasure :: "(u64 \<Rightarrow> u32) \<Rightarrow> tkip_cm \<Rightarrow> rtw_res \<times> tkip_cm" where
  "rtw_handle_tkip_countermeasure passing_ms s =
     (if btkip_countermeasure s then
        (if 60 * 1000 < passing_ms (btkip_countermeasure_time s)
         then (RTW_SUCCESS, s\<lparr>btkip_countermeasure := False, btkip_countermeasure_time := 0\<rparr>)
         else (RTW_FAIL, s))
      else (RTW_SUCCESS, s))"

text \<open>The calls of \<open>rtw_set_key\<close>: key id and whether it is the transmit key. The algorithm codes of the
  two WEP key lengths are 1 and 5.\<close>

definition rtw_sec_restore_wep_key :: "u32 \<Rightarrow> u8 \<Rightarrow> u32 \<Rightarrow> (nat \<times> bool) list" where
  "rtw_sec_restore_wep_key dot11PrivacyAlgrthm key_mask dot11PrivacyKeyIndex =
     (if dot11PrivacyAlgrthm = 1 \<or> dot11PrivacyAlgrthm = 5
      then concat (map (\<lambda>keyid.
             if key_mask AND push_bit keyid 1 \<noteq> 0
             then [(keyid, word_of_nat keyid = dot11PrivacyKeyIndex)] else []) [0..<4])
      else [])"

section \<open>One polynomial step per bit\<close>

lemma and_bit [simp]: "((w :: 'a::len word) AND push_bit n 1 \<noteq> 0) = bit w n"
  by (auto simp: bit_iff_and_push_bit_not_eq_0)

lemma bit_set_bit16: "bit (set_bit16 n v c) k = (if k = n \<and> n < 16 then v else bit c k)"
  by (cases "k < 16") (auto simp: set_bit16_def bit_simps)

definition crc16_poly :: u16 where "crc16_poly = 0x1021"

lemma bit_crc16_poly: "bit crc16_poly k \<longleftrightarrow> k = 0 \<or> k = 5 \<or> k = 12"
proof (cases "k < 16")
  case True
  then have "k \<in> {0,1,2,3,4,5,6,7,8,9,10,11,12,13,14,15}" by (rule less_16_cases)
  then show ?thesis by (auto simp: crc16_poly_def)
qed (auto simp: crc16_poly_def)

lemma crc16_bit_poly:
  "crc16_bit data index crc = push_bit 1 crc XOR (if bit crc 15 \<noteq> bit data index then crc16_poly else 0)"
proof (rule bit_word_eqI)
  fix k assume "k < LENGTH(16)"
  then show "bit (crc16_bit data index crc) k
    = bit (push_bit 1 crc XOR (if bit crc 15 \<noteq> bit data index then crc16_poly else 0)) k"
    unfolding crc16_bit_def Let_def and_bit
    by (auto simp: bit_set_bit16 bit_xor_iff bit_crc16_poly bit_push_bit_iff)
qed

text \<open>The register of the polynomial \<open>x^16 + x^12 + x^5 + 1\<close>, fed with a list of bits.\<close>

definition poly_step :: "u16 \<Rightarrow> bool \<Rightarrow> u16" where
  "poly_step crc d = push_bit 1 crc XOR (if bit crc 15 \<noteq> d then crc16_poly else 0)"

definition bits_of :: "bytes \<Rightarrow> bool list" where
  "bits_of bs = concat (map (\<lambda>b. map (bit b) [0..<8]) bs)"

lemma rtw_cal_crc16_bits: "rtw_cal_crc16 b crc = foldl poly_step crc (map (bit b) [0..<8])"
  by (simp add: rtw_cal_crc16_def crc16_bit_poly poly_step_def foldl_map del: upt_Suc)

lemma crc_fold_bits: "foldl (\<lambda>crc b. rtw_cal_crc16 b crc) crc bs = foldl poly_step crc (bits_of bs)"
  by (induction bs arbitrary: crc) (simp_all add: bits_of_def rtw_cal_crc16_bits)

lemma bit_poly_step: "bit (poly_step c d) k \<longleftrightarrow>
    (0 < k \<and> k < 16 \<and> bit c (k - 1)) \<noteq> ((k = 0 \<or> k = 5 \<or> k = 12) \<and> (bit c 15 \<noteq> d))"
  by (auto simp: poly_step_def bit_xor_iff bit_push_bit_iff bit_crc16_poly)

lemma bit_poly_step_0: "bit (poly_step c d) 0 \<longleftrightarrow> bit c 15 \<noteq> d"
  by (simp add: bit_poly_step)

lemma bit_poly_step_Suc: "k < 15 \<Longrightarrow> bit (poly_step c d) (Suc k) \<longleftrightarrow> bit c k \<noteq> ((k = 4 \<or> k = 11) \<and> (bit c 15 \<noteq> d))"
  by (auto simp: bit_poly_step)

lemma poly_steps_agree:
  assumes "length xs = length ys" "length xs \<le> 16" "foldl poly_step c xs = foldl poly_step c' ys"
  shows "(\<forall>k < 16 - length xs. bit c k = bit c' k) \<and> (c = c' \<longrightarrow> xs = ys)"
  using assms
proof (induction xs ys arbitrary: c c' rule: list_induct2)
  case (Cons x xs y ys)
  let ?s = "poly_step c x" and ?s' = "poly_step c' y"
  have IH: "\<forall>k < 16 - length xs. bit ?s k = bit ?s' k" "?s = ?s' \<Longrightarrow> xs = ys"
    using Cons by auto
  have 0: "(bit c 15 \<noteq> x) = (bit c' 15 \<noteq> y)"
    using IH(1) [rule_format, of 0] Cons.prems by (simp add: bit_poly_step_0)
  have "bit c k = bit c' k" if "k < 15 - length xs" for k
  proof -
    have "bit ?s (Suc k) = bit ?s' (Suc k)" using that by (intro IH(1) [rule_format]) simp
    moreover have "k < 15" using that by simp
    ultimately show ?thesis using 0 by (auto simp: bit_poly_step_Suc)
  qed
  moreover have "x # xs = y # ys" if "c = c'"
  proof -
    have "x = y" using 0 that by auto
    then show ?thesis using IH(2) that by simp
  qed
  ultimately show ?case by simp
qed simp

lemma poly_step_inj:
  assumes "poly_step c d = poly_step c' d"
  shows "c = c'"
proof -
  have b: "bit (poly_step c d) k = bit (poly_step c' d) k" for k using assms by simp
  have 15: "bit c 15 = bit c' 15" using b [of 0] by (auto simp: bit_poly_step_0)
  show ?thesis
  proof (rule bit_word_eqI)
    fix k assume "k < LENGTH(16)"
    then show "bit c k = bit c' k"
      using b [of "Suc k"] 15 by (cases "k = 15") (auto simp: bit_poly_step_Suc)
  qed
qed

lemma poly_steps_inj: "foldl poly_step c xs = foldl poly_step c' xs \<Longrightarrow> c = c'"
  by (induction xs arbitrary: c c') (auto dest: poly_step_inj)

lemma bits_of_append: "bits_of (a @ b) = bits_of a @ bits_of b"
  by (simp add: bits_of_def)

lemma length_bits_of: "length (bits_of bs) = 8 * length bs"
  by (induction bs) (simp_all add: bits_of_def)

lemma bits_of_inj:
  assumes "length a = length b" "bits_of a = bits_of b"
  shows "a = b"
  using assms
proof (induction a b rule: list_induct2)
  case (Cons x xs y ys)
  then have e: "map (bit x) [0..<8] @ bits_of xs = map (bit y) [0..<8] @ bits_of ys"
    by (simp add: bits_of_def del: upt_Suc)
  then have "map (bit x) [0..<8] = map (bit y) [0..<8]" "bits_of xs = bits_of ys"
    by (auto simp del: upt_Suc)
  moreover from this(1) have "x = y"
    by (intro bit_word_eqI) (auto simp: map_eq_conv simp del: upt_Suc)
  ultimately show ?case using Cons by simp
qed simp

text \<open>\<open>rtw_calc_crc\<close> is the CRC of the polynomial \<open>x^16 + x^12 + x^5 + 1\<close> (bytes fed with
  their low bit first, start value all ones, result inverted), and it distinguishes any two wake-up
  patterns that differ within two consecutive bytes only.\<close>

theorem rtw_calc_crc_burst:
  "rtw_calc_crc m = NOT (foldl poly_step 0xffff (bits_of m))
   \<and> (length a = length b \<and> length a \<le> 2 \<and> rtw_calc_crc (p @ a @ q) = rtw_calc_crc (p @ b @ q) \<longrightarrow> a = b)"
proof (intro conjI impI)
  show "rtw_calc_crc m = NOT (foldl poly_step 0xffff (bits_of m))"
    by (simp add: rtw_calc_crc_def crc_fold_bits)
  assume h: "length a = length b \<and> length a \<le> 2 \<and> rtw_calc_crc (p @ a @ q) = rtw_calc_crc (p @ b @ q)"
  let ?c = "foldl poly_step 0xffff (bits_of p)"
  have n: "NOT u = NOT v \<longleftrightarrow> u = v" for u v :: u16 by (metis bit.double_compl)
  have "foldl poly_step (foldl poly_step ?c (bits_of a)) (bits_of q)
      = foldl poly_step (foldl poly_step ?c (bits_of b)) (bits_of q)"
    using h by (simp add: rtw_calc_crc_def crc_fold_bits bits_of_append n)
  then have "foldl poly_step ?c (bits_of a) = foldl poly_step ?c (bits_of b)" by (rule poly_steps_inj)
  then have "bits_of a = bits_of b"
    using poly_steps_agree [of "bits_of a" "bits_of b" ?c ?c] h by (auto simp: length_bits_of)
  then show "a = b" using h by (auto intro: bits_of_inj)
qed

theorem rtw_calc_crc_burst_witness:
  "rtw_calc_crc [1, 2, 3] \<noteq> rtw_calc_crc [1, 7, 3]"
  using rtw_calc_crc_burst [of "[]" "[2]" "[7]" "[1]" "[3]"] by auto

section \<open>Countermeasure and key restoration\<close>

lemma countermeasure_status:
  "fst (rtw_handle_tkip_countermeasure ms s) = RTW_FAIL
     \<longleftrightarrow> btkip_countermeasure s \<and> ms (btkip_countermeasure_time s) \<le> 60000"
  by (auto simp: rtw_handle_tkip_countermeasure_def)

lemma countermeasure_cleared:
  "fst (rtw_handle_tkip_countermeasure ms s) = RTW_SUCCESS \<Longrightarrow> \<not> btkip_countermeasure (snd (rtw_handle_tkip_countermeasure ms s))"
  by (auto simp: rtw_handle_tkip_countermeasure_def)

lemma restore_wep_key_ids:
  "k \<in> set (map fst (rtw_sec_restore_wep_key alg km idx)) \<longleftrightarrow> (alg = 1 \<or> alg = 5) \<and> k < 4 \<and> bit km k"
  unfolding rtw_sec_restore_wep_key_def and_bit
  by (auto simp: image_iff simp del: upt_Suc split: if_splits)

end
