(* ===== verification/Reorder.thy ===== *)
theory Reorder
  imports Prelude
begin

text \<open>
  The receive reordering of A-MPDU frames in core/rtw_recv.c: \<open>check_indicate_seq\<close>,
  \<open>enqueue_reorder_recvframe\<close>, \<open>recv_indicatepkts_in_order\<close>, \<open>recv_indicatepkt_reorder\<close> and
  \<open>rtw_reordering_ctrl_timeout_handler\<close>, with the places that reset the window (station allocation,
  ADDBA response, block-ack request).

  The code works on 12-bit sequence numbers. It is proved to refine a machine over unbounded numbers,
  in which the order of delivery is plain \<open><\<close>, as long as each frame is within 2048 of the window start.
\<close>

section \<open>State\<close>

text \<open>\<open>has_ctrl\<close>: the pointer \<open>preorder_ctrl\<close> of the frame is not \<open>NULL\<close>.\<close>

record 'p rframe =
  seq_num :: u16
  qos :: bool
  has_ctrl :: bool
  mpdu :: 'p

record 'p reorder_ctrl =
  enable :: bool
  indicate_seq :: u16
  wsize_b :: u8
  ampdu_size :: u8
  pending_recvframe_queue :: "'p rframe list"
  bReorderWaiting :: bool
  rec_abba_rsp_ack :: bool

record rx_counters =
  rx_drop :: u64
  dbg_rx_drop_count :: u64
  dbg_rx_ampdu_drop_count :: u64
  dbg_rx_ampdu_forced_indicate_count :: u64
  dbg_rx_ampdu_loss_count :: u64
  dbg_rx_ampdu_window_shift_cnt :: u64

text \<open>The control block of one station and TID, the counters, whether its timer is armed, and the frames
  handed to \<open>recv_process_mpdu\<close> so far.\<close>

record 'p rx_state =
  rctrl :: "'p reorder_ctrl"
  rcnt :: rx_counters
  timer_on :: bool
  indicated :: "'p rframe list"

datatype rx_res = RX_SUCCESS | RX_FAIL | RTW_RX_HANDLED

section \<open>The code\<close>

definition SN_LESS :: "u16 \<Rightarrow> u16 \<Rightarrow> bool" where
  "SN_LESS a b \<longleftrightarrow> (ucast a - ucast b :: u32) AND 0x800 \<noteq> 0"

definition SN_EQUAL :: "u16 \<Rightarrow> u16 \<Rightarrow> bool" where
  "SN_EQUAL a b \<longleftrightarrow> a = b"

definition check_indicate_seq :: "'p rx_state \<Rightarrow> u16 \<Rightarrow> bool \<times> 'p rx_state" where
  "check_indicate_seq s seq =
     (let c = rctrl s;
          wsize = wsize_b c;
          c = (if indicate_seq c = 0xFFFF then c\<lparr>indicate_seq := seq\<rparr> else c);
          wend = (indicate_seq c + ucast wsize - 1) AND 0xFFF
      in if SN_LESS seq (indicate_seq c) then (False, s\<lparr>rctrl := c\<rparr>)
         else if SN_EQUAL seq (indicate_seq c)
         then (True, s\<lparr>rctrl := c\<lparr>indicate_seq := (indicate_seq c + 1) AND 0xFFF\<rparr>\<rparr>)
         else if SN_LESS wend seq
         then (True, s\<lparr>rctrl := c\<lparr>indicate_seq :=
                       (if unat wsize \<le> unat seq + 1 then seq + 1 - ucast wsize
                        else 0xFFF - (ucast wsize - (seq + 1)) + 1)\<rparr>,
                     rcnt := (rcnt s)\<lparr>dbg_rx_ampdu_window_shift_cnt :=
                       dbg_rx_ampdu_window_shift_cnt (rcnt s) + 1\<rparr>\<rparr>)
         else (True, s\<lparr>rctrl := c\<rparr>))"

fun enqueue_reorder_recvframe :: "'p rframe list \<Rightarrow> 'p rframe \<Rightarrow> 'p rframe list option" where
  "enqueue_reorder_recvframe [] f = Some [f]"
| "enqueue_reorder_recvframe (g # q) f =
     (if SN_LESS (seq_num g) (seq_num f) then map_option (Cons g) (enqueue_reorder_recvframe q f)
      else if SN_EQUAL (seq_num g) (seq_num f) then None
      else Some (f # g # q))"

definition recv_indicatepkts_pkt_loss_cnt :: "rx_counters \<Rightarrow> u64 \<Rightarrow> u64 \<Rightarrow> rx_counters" where
  "recv_indicatepkts_pkt_loss_cnt c prev cur =
     (let d = (if cur < prev then 4096 + cur - prev else cur - prev)
      in c\<lparr>dbg_rx_ampdu_loss_count := dbg_rx_ampdu_loss_count c + d, rx_drop := rx_drop c + d\<rparr>)"

text \<open>The loop: window start, queue left, frames indicated in order, how many of them
  \<open>recv_process_mpdu\<close> (the predicate \<open>ok\<close>) refused, and \<open>bPktInBuf\<close>.\<close>

fun indicate_loop ::
  "('p rframe \<Rightarrow> bool) \<Rightarrow> u16 \<Rightarrow> 'p rframe list \<Rightarrow> u16 \<times> 'p rframe list \<times> 'p rframe list \<times> u64 \<times> bool" where
  "indicate_loop ok iseq [] = (iseq, [], [], 0, False)"
| "indicate_loop ok iseq (f # q) =
     (if \<not> SN_LESS iseq (seq_num f) then
        let iseq = (if SN_EQUAL iseq (seq_num f) then (iseq + 1) AND 0xFFF else iseq);
            (i, q', out, refused, b) = indicate_loop ok iseq q
        in (i, q', f # out, (if ok f then refused else refused + 1), b)
      else (iseq, f # q, [], 0, True))"

definition recv_indicatepkts_in_order :: "('p rframe \<Rightarrow> bool) \<Rightarrow> 'p rx_state \<Rightarrow> bool \<Rightarrow> bool \<times> 'p rx_state" where
  "recv_indicatepkts_in_order ok s bforced =
     (let s = (if bforced
               then s\<lparr>rcnt := (rcnt s)\<lparr>dbg_rx_ampdu_forced_indicate_count :=
                       dbg_rx_ampdu_forced_indicate_count (rcnt s) + 1\<rparr>\<rparr>
               else s);
          q = pending_recvframe_queue (rctrl s)
      in if bforced \<and> q = [] then (True, s)
         else
           (let s = (if bforced
                     then s\<lparr>rcnt := recv_indicatepkts_pkt_loss_cnt (rcnt s)
                               (ucast (indicate_seq (rctrl s))) (ucast (seq_num (hd q))),
                            rctrl := (rctrl s)\<lparr>indicate_seq := seq_num (hd q)\<rparr>\<rparr>
                     else s);
                (i, q', out, refused, b) = indicate_loop ok (indicate_seq (rctrl s)) q
            in (b, s\<lparr>rctrl := (rctrl s)\<lparr>indicate_seq := i, pending_recvframe_queue := q'\<rparr>,
                     rcnt := (rcnt s)\<lparr>dbg_rx_drop_count := dbg_rx_drop_count (rcnt s) + refused\<rparr>,
                     indicated := indicated s @ out\<rparr>)))"

definition recv_indicatepkt_reorder :: "('p rframe \<Rightarrow> bool) \<Rightarrow> 'p rx_state \<Rightarrow> 'p rframe \<Rightarrow> rx_res \<times> 'p rx_state" where
  "recv_indicatepkt_reorder ok s f =
     (if \<not> qos f \<or> \<not> has_ctrl f \<or> \<not> enable (rctrl s) then (RX_SUCCESS, s)
      else
        (let s = (if rec_abba_rsp_ack (rctrl s)
                  then s\<lparr>rctrl := (rctrl s)\<lparr>rec_abba_rsp_ack := False, indicate_seq := 0xFFFF\<rparr>\<rparr>
                  else s);
             (in_win, s) = check_indicate_seq s (seq_num f)
         in if \<not> in_win
            then (RX_FAIL, s\<lparr>rcnt := (rcnt s)\<lparr>dbg_rx_ampdu_drop_count := dbg_rx_ampdu_drop_count (rcnt s) + 1\<rparr>\<rparr>)
            else
              (case enqueue_reorder_recvframe (pending_recvframe_queue (rctrl s)) f of
                 None \<Rightarrow> (RX_FAIL, s)
               | Some q \<Rightarrow>
                   (let s = s\<lparr>rctrl := (rctrl s)\<lparr>pending_recvframe_queue := q\<rparr>\<rparr>;
                        (b, s) = recv_indicatepkts_in_order ok s False
                    in if b
                       then (RTW_RX_HANDLED,
                             if bReorderWaiting (rctrl s) then s
                             else s\<lparr>rctrl := (rctrl s)\<lparr>bReorderWaiting := True\<rparr>, timer_on := True\<rparr>)
                       else (RTW_RX_HANDLED,
                             s\<lparr>rctrl := (rctrl s)\<lparr>bReorderWaiting := False\<rparr>, timer_on := False\<rparr>)))))"

text \<open>The timer has fired: it is no longer armed. \<open>cannot_run\<close> is \<open>RTW_CANNOT_RUN\<close>.\<close>

definition rtw_reordering_ctrl_timeout_handler :: "('p rframe \<Rightarrow> bool) \<Rightarrow> bool \<Rightarrow> 'p rx_state \<Rightarrow> 'p rx_state" where
  "rtw_reordering_ctrl_timeout_handler ok cannot_run s =
     (let s = s\<lparr>timer_on := False\<rparr>
      in if cannot_run then s
         else
           (let s = s\<lparr>rctrl := (rctrl s)\<lparr>bReorderWaiting := False\<rparr>\<rparr>;
                (b, s) = recv_indicatepkts_in_order ok s True
            in if b then s\<lparr>timer_on := True\<rparr> else s))"

definition rx_ctrl_init :: "'p reorder_ctrl \<Rightarrow> 'p reorder_ctrl" where
  "rx_ctrl_init c = c\<lparr>enable := False, indicate_seq := 0xffff, wsize_b := 64, ampdu_size := 0xff,
     pending_recvframe_queue := [], rec_abba_rsp_ack := False\<rparr>"

definition add_ba_rsp_hdl :: "'p reorder_ctrl \<Rightarrow> u16 \<Rightarrow> u8 \<Rightarrow> 'p reorder_ctrl" where
  "add_ba_rsp_hdl c status sz =
     (let c = c\<lparr>rec_abba_rsp_ack := True\<rparr>
      in if status = 0 then c\<lparr>enable := True, ampdu_size := sz\<rparr>
         else if status = 37 then c\<lparr>enable := False\<rparr> else c)"

text \<open>A block-ack request of a known station: the control blocks are indexed by TID.\<close>

definition rtw_process_bar_frame :: "'p reorder_ctrl list \<Rightarrow> bytes \<Rightarrow> 'p reorder_ctrl list option" where
  "rtw_process_bar_frame ctrls pframe = do {
     t \<leftarrow> get_sub pframe 16 2;
     q \<leftarrow> get_sub pframe 18 2;
     let tid = unat (drop_bit 12 (ucast (t ! 0) OR push_bit 8 (ucast (t ! 1)) :: u16));
     let start_seq = drop_bit 4 (ucast (q ! 0) OR push_bit 8 (ucast (q ! 1)) :: u16);
     c \<leftarrow> rd ctrls tid;
     Some (ctrls[tid := c\<lparr>indicate_seq := start_seq\<rparr>]) }"

section \<open>Twelve-bit arithmetic\<close>

definition sn :: "nat \<Rightarrow> u16" where
  "sn n = word_of_nat (n mod 4096)"

lemma unat_sn: "unat (sn n) = n mod 4096"
  by (simp add: sn_def unat_of_nat take_bit_eq_mod)

lemma uint_sn: "uint (sn n) = int n mod 4096"
  by (simp add: uint_nat unat_sn zmod_int del: of_nat_unat)

lemma sn_eqI: "unat w = n mod 4096 \<Longrightarrow> w = sn n"
  by (simp add: word_unat_eq_iff unat_sn)

lemma sn_inj:
  assumes "sn m = sn n" "m < n + 4096" "n < m + 4096"
  shows "m = n"
proof -
  have e: "m mod 4096 = n mod 4096" using assms(1) by (metis unat_sn)
  show ?thesis
  proof (cases "m \<le> n")
    case True
    then have "4096 dvd n - m" using e by (metis mod_eq_dvd_iff_nat)
    then show ?thesis using True assms(3) by (auto dest: dvd_imp_le)
  next
    case False
    then have "4096 dvd m - n" using e by (metis mod_eq_dvd_iff_nat nat_le_linear)
    then show ?thesis using False assms(2) by (auto dest: dvd_imp_le)
  qed
qed

lemma sn_not_init: "sn n \<noteq> 0xFFFF"
proof
  assume "sn n = 0xFFFF"
  then have "unat (sn n) = unat (0xFFFF :: u16)" by simp
  then have "n mod 4096 = 65535" by (simp add: unat_sn)
  then show False using mod_less_divisor [of 4096 n] by simp
qed

lemma and_800_iff: "(w :: u32) AND 0x800 \<noteq> 0 \<longleftrightarrow> bit w 11"
proof -
  have e: "(0x800 :: u32) = push_bit 11 1" by simp
  show ?thesis unfolding e by (simp only: bit_iff_and_push_bit_not_eq_0)
qed

lemma SN_EQUAL_refl [simp]: "SN_EQUAL a a"
  by (simp add: SN_EQUAL_def)

lemma SN_LESS_uint: "SN_LESS a b \<longleftrightarrow> bit (uint a - uint b) 11"
proof -
  have "(ucast a - ucast b :: u32) = word_of_int (uint a - uint b)"
    by (simp only: ucast_eq of_int_diff)
  then have "bit (ucast a - ucast b :: u32) 11 = bit (word_of_int (uint a - uint b) :: u32) 11"
    by (rule arg_cong)
  also have "\<dots> = bit (uint a - uint b) 11" by (subst bit_word_of_int_iff) simp
  finally show ?thesis unfolding SN_LESS_def and_800_iff .
qed

lemma SN_LESS_sn:
  assumes "m < n + 2048" "n \<le> m + 2048"
  shows "SN_LESS (sn m) (sn n) \<longleftrightarrow> m < n"
proof -
  let ?d = "int m mod 4096 - int n mod 4096"
  have "bit ?d 11 = bit (take_bit 12 ?d) 11" by (simp add: bit_take_bit_iff)
  also have "take_bit 12 ?d = take_bit 12 (int m - int n)"
    by (simp add: take_bit_eq_mod mod_diff_eq)
  also have "bit (take_bit 12 (int m - int n)) 11 = bit (int m - int n) 11" by (simp add: bit_take_bit_iff)
  also have "\<dots> \<longleftrightarrow> odd ((int m - int n) div 2048)" by (simp add: bit_iff_odd)
  also have "\<dots> \<longleftrightarrow> m < n"
  proof (cases "m < n")
    case True
    then have "(int m - int n) div 2048 = -1" using assms by linarith
    then show ?thesis using True by simp
  next
    case False
    then have "(int m - int n) div 2048 = 0" using assms by linarith
    then show ?thesis using False by simp
  qed
  finally show ?thesis by (simp add: SN_LESS_uint uint_sn)
qed

lemma and_fff: "(w :: u16) AND 0xFFF = take_bit 12 w"
  by (simp add: take_bit_eq_mask mask_eq_exp_minus_1)

lemma sn_add: "(sn n + word_of_nat k) AND 0xFFF = sn (n + k)"
proof (rule sn_eqI)
  have "unat ((sn n + word_of_nat k) AND 0xFFF) = (n mod 4096 + k mod 65536) mod 65536 mod 4096"
    unfolding and_fff by (simp add: unsigned_take_bit_eq unat_word_ariths unat_of_nat take_bit_eq_mod unat_sn)
  also have "\<dots> = (n mod 4096 + k mod 65536) mod 4096" by (rule mod_mod_cancel) simp
  also have "\<dots> = (n + k mod 65536 mod 4096) mod 4096" by (simp add: mod_simps)
  also have "k mod 65536 mod 4096 = k mod 4096" by (rule mod_mod_cancel) simp
  finally show "unat ((sn n + word_of_nat k) AND 0xFFF) = (n + k) mod 4096" by (simp add: mod_simps)
qed

lemma sn_Suc: "(sn n + 1) AND 0xFFF = sn (Suc n)"
  using sn_add [of n 1] by simp

lemma sn_window_end: "0 < w \<Longrightarrow> (sn n + ucast w - 1) AND 0xFFF = sn (n + unat (w :: u8) - 1)"
proof -
  assume w: "0 < w"
  then have 1: "0 < unat w" by (simp add: word_less_nat_alt)
  have e: "ucast w - 1 = (word_of_nat (unat w - 1) :: u16)"
    using 1 by (simp add: of_nat_diff)
  have "(sn n + ucast w - 1) AND 0xFFF = (sn n + (ucast w - 1)) AND 0xFFF"
    by (simp only: add_diff_eq)
  also have "\<dots> = sn (n + (unat w - 1))" unfolding e by (rule sn_add)
  also have "n + (unat w - 1) = n + unat w - 1" using 1 by simp
  finally show ?thesis .
qed

text \<open>The two branches that move the window past a frame beyond its end.\<close>

lemma sn_shift:
  assumes "0 < (w :: u8)" "unat w \<le> Suc n"
  shows "(if unat w \<le> unat (sn n) + 1 then sn n + 1 - ucast w
          else 0xFFF - (ucast w - (sn n + 1)) + 1) = sn (Suc n - unat w)"
proof (rule sn_eqI)
  define r q where "r = n mod 4096" and "q = n div 4096"
  have n: "n = 4096 * q + r" "r < 4096" by (simp_all add: r_def q_def)
  have w: "unat w < 256" by simp
  have u: "unat (sn n) = r" by (simp add: unat_sn r_def)
  have s: "sn n = word_of_nat r" by (simp add: sn_def r_def)
  have uw: "ucast w = (word_of_nat (unat w) :: u16)" by simp
  show "unat (if unat w \<le> unat (sn n) + 1 then sn n + 1 - ucast w
          else 0xFFF - (ucast w - (sn n + 1)) + 1) = (Suc n - unat w) mod 4096"
  proof (cases "unat w \<le> r + 1")
    case True
    have c: "unat w \<le> unat (sn n) + 1" using True u by simp
    have e: "sn n + 1 - ucast w = (word_of_nat (r + 1 - unat w) :: u16)"
      using True by (simp add: s of_nat_diff)
    have m: "(Suc n - unat w) mod 4096 = r + 1 - unat w"
    proof -
      have "0 < unat w" using assms(1) by (simp add: word_less_nat_alt)
      then have "r + 1 - unat w < 4096" using n(2) by simp
      moreover have "Suc n - unat w = 4096 * q + (r + 1 - unat w)" using n(1) True by simp
      ultimately show ?thesis by simp
    qed
    have "unat (word_of_nat (r + 1 - unat w) :: u16) = r + 1 - unat w"
      using n(2) by (simp add: unat_of_nat take_bit_eq_mod del: of_nat_diff)
    then show ?thesis unfolding if_P [OF c] e m .
  next
    case False
    have c: "\<not> unat w \<le> unat (sn n) + 1" using False u by simp
    have e: "0xFFF - (ucast w - (sn n + 1)) + 1 = (word_of_nat (4096 + r + 1 - unat w) :: u16)"
    proof -
      have "unat w \<le> 4096 + r + 1" using unat_u8_lt [of w] by linarith
      from of_nat_diff [OF this, where 'a = u16] show ?thesis by (simp add: s)
    qed
    have m: "(Suc n - unat w) mod 4096 = 4096 + r + 1 - unat w"
    proof -
      have "0 < q" using assms False n by (cases q) auto
      then obtain q' where "q = Suc q'" by (cases q) auto
      then have "Suc n - unat w = 4096 * q' + (4096 + r + 1 - unat w)"
        using n(1) unat_u8_lt [of w] by linarith
      then show ?thesis using False by simp
    qed
    have "unat (word_of_nat (4096 + r + 1 - unat w) :: u16) = 4096 + r + 1 - unat w"
      using n(2) by (simp add: unat_of_nat take_bit_eq_mod del: of_nat_diff)
    then show ?thesis unfolding if_not_P [OF c] e m .
  qed
qed

section \<open>The specification: unbounded sequence numbers\<close>

text \<open>The next number expected, and the buffered frames with their numbers.\<close>

type_synonym 'p spec = "nat \<times> (nat \<times> 'p rframe) list"

fun spec_insert :: "nat \<times> 'a \<Rightarrow> (nat \<times> 'a) list \<Rightarrow> (nat \<times> 'a) list" where
  "spec_insert f [] = [f]"
| "spec_insert f (g # q) = (if fst g < fst f then g # spec_insert f q else f # g # q)"

fun spec_release :: "nat \<Rightarrow> (nat \<times> 'a) list \<Rightarrow> nat \<times> (nat \<times> 'a) list \<times> (nat \<times> 'a) list" where
  "spec_release nxt [] = (nxt, [], [])"
| "spec_release nxt (f # q) =
     (if fst f \<le> nxt
      then let (i, q', out) = spec_release (if fst f = nxt then Suc nxt else nxt) q in (i, q', f # out)
      else (nxt, f # q, []))"

datatype 'p rx_event = Recv nat "'p rframe" | Timeout

fun spec_step :: "nat \<Rightarrow> 'p spec \<Rightarrow> 'p rx_event \<Rightarrow> 'p spec \<times> (nat \<times> 'p rframe) list" where
  "spec_step w (nxt, buf) (Recv n f) =
     (if n < nxt then ((nxt, buf), [])
      else
        let nxt' = (if n = nxt then Suc nxt else if nxt + w \<le> n then Suc n - w else nxt)
        in if n \<in> fst ` set buf then ((nxt', buf), [])
           else let (i, q, out) = spec_release nxt' (spec_insert (n, f) buf) in ((i, q), out))"
| "spec_step w (nxt, buf) Timeout =
     (case buf of [] \<Rightarrow> ((nxt, buf), [])
      | f # _ \<Rightarrow> let (i, q, out) = spec_release (fst f) buf in ((i, q), out))"

text \<open>The buffer is sorted and inside the window.\<close>

definition spec_ok :: "nat \<Rightarrow> 'p spec \<Rightarrow> bool" where
  "spec_ok w s \<longleftrightarrow> sorted_wrt (<) (map fst (snd s)) \<and> (\<forall>g \<in> set (snd s). fst s < fst g \<and> fst g < fst s + w)"

lemma spec_insert_set: "set (spec_insert f q) = insert f (set q)"
  by (induction q) auto

lemma spec_insert_sorted:
  "sorted_wrt (<) (map fst q) \<Longrightarrow> fst f \<notin> fst ` set q \<Longrightarrow> sorted_wrt (<) (map fst (spec_insert f q))"
  by (induction q) (auto simp: spec_insert_set image_iff)

lemma spec_release_facts:
  assumes "sorted_wrt (<) (map fst q)" "spec_release nxt q = (i, q', out)" "\<forall>g \<in> set q. fst g < hi" "nxt \<le> hi"
  shows "q = out @ q' \<and> nxt \<le> i \<and> i \<le> hi \<and> (\<forall>g \<in> set out. fst g < i) \<and> (\<forall>g \<in> set q'. i < fst g)"
  using assms
proof (induction nxt q arbitrary: i q' out rule: spec_release.induct)
  case (1 nxt)
  then show ?case by auto
next
  case (2 nxt f q)
  show ?case
  proof (cases "fst f \<le> nxt")
    case True
    let ?n = "if fst f = nxt then Suc nxt else nxt"
    obtain i1 q1 out1 where r: "spec_release ?n q = (i1, q1, out1)" by (cases "spec_release ?n q") auto
    have e: "i = i1" "q' = q1" "out = f # out1" using 2(3) True by (simp_all add: r)
    have "?n \<le> hi" using 2(4,5) True by auto
    with 2 True r have "q = out1 @ q1 \<and> ?n \<le> i1 \<and> i1 \<le> hi \<and> (\<forall>g \<in> set out1. fst g < i1) \<and> (\<forall>g \<in> set q1. i1 < fst g)"
      by auto
    then show ?thesis using True e by (auto split: if_splits)
  next
    case False
    then have e: "i = nxt" "q' = f # q" "out = []" using 2(3) by simp_all
    have "\<forall>g \<in> set q. fst f < fst g" using 2(2) by auto
    then have "\<forall>g \<in> set q'. i < fst g" using False e by force
    then show ?thesis using e 2(5) by simp
  qed
qed

lemma spec_step_facts:
  assumes ok: "spec_ok w (nxt, buf)" and w: "0 < w" and step: "spec_step w (nxt, buf) ev = ((i, q), out)"
  shows "spec_ok w (i, q)" "nxt \<le> i" "sorted_wrt (<) (map fst out)" "\<forall>g \<in> set out. nxt \<le> fst g \<and> fst g < i"
proof -
  have s: "sorted_wrt (<) (map fst buf)" and b: "\<forall>g \<in> set buf. nxt < fst g \<and> fst g < nxt + w"
    using ok by (simp_all add: spec_ok_def)
  have "spec_ok w (i, q) \<and> nxt \<le> i \<and> sorted_wrt (<) (map fst out) \<and> (\<forall>g \<in> set out. nxt \<le> fst g \<and> fst g < i)"
  proof (cases ev)
    case Timeout
    show ?thesis
    proof (cases buf)
      case Nil
      then show ?thesis using step Timeout ok by simp
    next
      case (Cons f r)
      obtain i1 q1 out1 where r: "spec_release (fst f) buf = (i1, q1, out1)" by (cases "spec_release (fst f) buf") auto
      have e: "i = i1" "q = q1" "out = out1" using step Timeout Cons r by simp_all
      have f: "buf = out @ q \<and> fst f \<le> i \<and> i \<le> nxt + w \<and> (\<forall>g \<in> set out. fst g < i) \<and> (\<forall>g \<in> set q. i < fst g)"
        unfolding e using b Cons by (intro spec_release_facts [OF s r]) auto
      have so: "sorted_wrt (<) (map fst out)" "sorted_wrt (<) (map fst q)"
        using s f by (auto simp: sorted_wrt_append)
      have "nxt < fst f" using b Cons by simp
      then have "nxt \<le> i" using f by simp
      then show ?thesis using f so b by (auto simp: spec_ok_def) force+
    qed
  next
    case (Recv n f)
    show ?thesis
    proof (cases "n < nxt")
      case True
      then show ?thesis using step Recv ok by simp
    next
      case False
      define nxt' where "nxt' = (if n = nxt then Suc nxt else if nxt + w \<le> n then Suc n - w else nxt)"
      have n: "nxt \<le> nxt'" "nxt' \<le> Suc n" "n < nxt' + w" using w False by (auto simp: nxt'_def)
      show ?thesis
      proof (cases "n \<in> fst ` set buf")
        case True
        then have "nxt' = nxt" using b by (auto simp: nxt'_def)
        then show ?thesis using step Recv False True ok by (simp add: nxt'_def [symmetric] Let_def)
      next
        case ni: False
        let ?b = "spec_insert (n, f) buf"
        obtain i1 q1 out1 where r: "spec_release nxt' ?b = (i1, q1, out1)" by (cases "spec_release nxt' ?b") auto
        have e: "i = i1" "q = q1" "out = out1" using step Recv False ni r by (simp_all add: nxt'_def [symmetric] Let_def)
        have sb: "sorted_wrt (<) (map fst ?b)" using s ni by (intro spec_insert_sorted) simp_all
        have hb: "\<forall>g \<in> set ?b. fst g < nxt' + w" using b n by (auto simp: spec_insert_set)
        have f: "?b = out @ q \<and> nxt' \<le> i \<and> i \<le> nxt' + w \<and> (\<forall>g \<in> set out. fst g < i) \<and> (\<forall>g \<in> set q. i < fst g)"
          unfolding e by (rule spec_release_facts [OF sb r hb]) simp
        have so: "sorted_wrt (<) (map fst out)" "sorted_wrt (<) (map fst q)"
          using sb f by (auto simp: sorted_wrt_append)
        have "\<forall>g \<in> set ?b. nxt \<le> fst g" using b False by (auto simp: spec_insert_set)
        then show ?thesis using f so hb n(1) by (auto simp: spec_ok_def) force+
      qed
    qed
  qed
  then show "spec_ok w (i, q)" "nxt \<le> i" "sorted_wrt (<) (map fst out)" "\<forall>g \<in> set out. nxt \<le> fst g \<and> fst g < i"
    by auto
qed

section \<open>Refinement\<close>

text \<open>The control block holds the window start and the frames of the specification, modulo 4096.\<close>

definition rx_rel :: "'p rx_state \<Rightarrow> 'p spec \<Rightarrow> bool" where
  "rx_rel s a \<longleftrightarrow> indicate_seq (rctrl s) = sn (fst a) \<and> pending_recvframe_queue (rctrl s) = map snd (snd a)
     \<and> (\<forall>g \<in> set (snd a). seq_num (snd g) = sn (fst g))"

text \<open>What the receiver needs of a frame: it belongs to the block-ack agreement, its sequence number is
  \<open>n\<close> modulo 4096, and \<open>n\<close> is within 2048 of the window start.\<close>

definition rx_admissible :: "nat \<Rightarrow> 'p rx_event \<Rightarrow> bool" where
  "rx_admissible nxt ev = (case ev of
      Recv n f \<Rightarrow> qos f \<and> has_ctrl f \<and> seq_num f = sn n \<and> nxt \<le> n + 2047 \<and> n < nxt + 2048
    | Timeout \<Rightarrow> True)"

definition rx_handle :: "('p rframe \<Rightarrow> bool) \<Rightarrow> 'p rx_event \<Rightarrow> 'p rx_state \<Rightarrow> 'p rx_state" where
  "rx_handle ok ev s = (case ev of
      Recv n f \<Rightarrow> snd (recv_indicatepkt_reorder ok s f)
    | Timeout \<Rightarrow> rtw_reordering_ctrl_timeout_handler ok False s)"

lemma enqueue_sn:
  assumes "\<forall>g \<in> set buf. seq_num (snd g) = sn (fst g) \<and> fst g < n + 2048 \<and> n \<le> fst g + 2047"
    "seq_num f = sn n" "sorted_wrt (<) (map fst buf)"
  shows "enqueue_reorder_recvframe (map snd buf) f =
    (if n \<in> fst ` set buf then None else Some (map snd (spec_insert (n, f) buf)))"
  using assms
proof (induction buf)
  case (Cons g buf)
  have l: "SN_LESS (sn (fst g)) (sn n) \<longleftrightarrow> fst g < n" by (rule SN_LESS_sn) (use Cons.prems in auto)
  have e: "SN_EQUAL (sn (fst g)) (sn n) \<longleftrightarrow> fst g = n"
    using sn_inj [of "fst g" n] Cons.prems by (auto simp: SN_EQUAL_def)
  have "n \<notin> fst ` set buf" if "n \<le> fst g"
    using that Cons.prems(3) by force
  then show ?case using Cons by (auto simp: l e)
qed simp

lemma indicate_loop_sn:
  assumes "\<forall>g \<in> set buf. seq_num (snd g) = sn (fst g) \<and> fst g \<le> nxt + 2048 \<and> nxt < fst g + 2048"
    "sorted_wrt (<) (map fst buf)" "spec_release nxt buf = (i, q, out)"
  shows "\<exists>refused. indicate_loop ok (sn nxt) (map snd buf) = (sn i, map snd q, map snd out, refused, q \<noteq> [])"
  using assms
proof (induction nxt buf arbitrary: i q out rule: spec_release.induct)
  case (2 nxt f buf)
  have l: "SN_LESS (sn nxt) (sn (fst f)) \<longleftrightarrow> nxt < fst f" by (rule SN_LESS_sn) (use 2 in auto)
  have e: "SN_EQUAL (sn nxt) (sn (fst f)) \<longleftrightarrow> fst f = nxt"
    using sn_inj [of nxt "fst f"] 2(2) by (auto simp: SN_EQUAL_def)
  show ?case
  proof (cases "fst f \<le> nxt")
    case True
    let ?n = "if fst f = nxt then Suc nxt else nxt"
    obtain i1 q1 out1 where r: "spec_release ?n buf = (i1, q1, out1)" by (cases "spec_release ?n buf") auto
    have x: "i = i1" "q = q1" "out = f # out1" using 2(4) True by (simp_all add: r)
    have "\<forall>g \<in> set buf. seq_num (snd g) = sn (fst g) \<and> fst g \<le> ?n + 2048 \<and> ?n < fst g + 2048"
      using 2(2,3) by auto
    then obtain refused where
      "indicate_loop ok (sn ?n) (map snd buf) = (sn i1, map snd q1, map snd out1, refused, q1 \<noteq> [])"
      using 2(1) [OF True _ _ r] 2(3) by auto
    moreover have "(if SN_EQUAL (sn nxt) (sn (fst f)) then (sn nxt + 1) AND 0xFFF else sn nxt) = sn ?n"
      using e by (simp add: sn_Suc)
    ultimately show ?thesis using True x 2(2) l by (simp add: Let_def)
  next
    case False
    then show ?thesis using 2 l by auto
  qed
qed auto

lemma check_indicate_sn:
  fixes s :: "'p rx_state"
  assumes "indicate_seq (rctrl s) = sn nxt" "0 < wsize_b (rctrl s)" "nxt \<le> n + 2047" "n < nxt + 2048"
  defines "w \<equiv> unat (wsize_b (rctrl s))"
  shows "\<exists>c. check_indicate_seq s (sn n) =
    (\<not> n < nxt, s\<lparr>rctrl := (rctrl s)\<lparr>indicate_seq :=
        sn (if n < nxt then nxt else if n = nxt then Suc nxt else if nxt + w \<le> n then Suc n - w else nxt)\<rparr>, rcnt := c\<rparr>)"
proof -
  have w: "0 < w" "w < 256" using assms(2) by (simp_all add: w_def word_less_nat_alt)
  have id: "s\<lparr>rctrl := (rctrl s)\<lparr>indicate_seq := sn nxt\<rparr>, rcnt := rcnt s\<rparr> = s"
    using assms(1) by simp
  have init: "(if indicate_seq (rctrl s) = 0xFFFF then (rctrl s)\<lparr>indicate_seq := sn n\<rparr> else rctrl s) = rctrl s"
    using assms(1) sn_not_init by simp
  have l1: "SN_LESS (sn n) (sn nxt) \<longleftrightarrow> n < nxt" by (rule SN_LESS_sn) (use assms in auto)
  have e: "SN_EQUAL (sn n) (sn nxt) \<longleftrightarrow> n = nxt"
    using sn_inj [of n nxt] assms by (auto simp: SN_EQUAL_def)
  have wend: "(indicate_seq (rctrl s) + ucast (wsize_b (rctrl s)) - 1) AND 0xFFF = sn (nxt + w - 1)"
    unfolding assms(1) w_def by (rule sn_window_end [OF assms(2)])
  have l2: "SN_LESS (sn (nxt + w - 1)) (sn n) \<longleftrightarrow> nxt + w \<le> n" if "nxt < n"
  proof -
    have "SN_LESS (sn (nxt + w - 1)) (sn n) \<longleftrightarrow> nxt + w - 1 < n"
      by (rule SN_LESS_sn) (use that w assms(4) in linarith)+
    then show ?thesis using w by auto
  qed
  consider "n < nxt" | "n = nxt" | "nxt < n" "nxt + w \<le> n" | "nxt < n" "n < nxt + w" by linarith
  then show ?thesis
  proof cases
    case 1
    show ?thesis unfolding check_indicate_seq_def Let_def init
      by (rule exI [of _ "rcnt s"]) (simp add: 1 l1 assms(1) id)
  next
    case 2
    then show ?thesis unfolding check_indicate_seq_def Let_def init using l1 e assms(1)
      by (auto simp: sn_Suc intro: exI [of _ "rcnt s"])
  next
    case 3
    have "w \<le> Suc n" using 3 by simp
    note shift = sn_shift [OF assms(2) this [unfolded w_def]]
    show ?thesis unfolding check_indicate_seq_def Let_def init wend shift
      using 3 l1 e l2 assms(1) w_def by auto
  next
    case 4
    show ?thesis unfolding check_indicate_seq_def Let_def init wend
      by (rule exI [of _ "rcnt s"]) (use 4 l1 e l2 in \<open>simp add: assms(1) id\<close>)
  qed
qed

definition rx_conf :: "nat \<Rightarrow> 'p rx_state \<Rightarrow> bool" where
  "rx_conf w s \<longleftrightarrow> enable (rctrl s) \<and> \<not> rec_abba_rsp_ack (rctrl s) \<and> 0 < wsize_b (rctrl s) \<and> unat (wsize_b (rctrl s)) = w"

text \<open>Frames wait only while the timer is armed.\<close>

definition timer_inv :: "'p rx_state \<Rightarrow> bool" where
  "timer_inv s \<longleftrightarrow> (pending_recvframe_queue (rctrl s) \<noteq> [] \<or> bReorderWaiting (rctrl s) \<longrightarrow> timer_on s)"

lemma rx_conf_pos: "rx_conf w s \<Longrightarrow> 0 < w \<and> w < 256"
  unfolding rx_conf_def by (metis unat_gt_0 unat_u8_lt word_neq_0_conv)

lemma in_order_sn:
  assumes "indicate_seq (rctrl s) = sn nxt" "pending_recvframe_queue (rctrl s) = map snd buf"
    "\<forall>g \<in> set buf. seq_num (snd g) = sn (fst g) \<and> fst g \<le> nxt + 2048 \<and> nxt < fst g + 2048"
    "sorted_wrt (<) (map fst buf)" "spec_release nxt buf = (i, q, out)"
  shows "\<exists>c. recv_indicatepkts_in_order ok s False =
    (q \<noteq> [], s\<lparr>rctrl := (rctrl s)\<lparr>indicate_seq := sn i, pending_recvframe_queue := map snd q\<rparr>, rcnt := c,
       indicated := indicated s @ map snd out\<rparr>)"
proof -
  obtain refused where l: "indicate_loop ok (sn nxt) (map snd buf) = (sn i, map snd q, map snd out, refused, q \<noteq> [])"
    using indicate_loop_sn [OF assms(3,4,5)] by blast
  show ?thesis by (simp add: recv_indicatepkts_in_order_def assms(1,2) l Let_def) (rule exI, rule refl)
qed

lemma forced_sn:
  assumes "pending_recvframe_queue (rctrl s) = map snd (f # buf)"
    "\<forall>g \<in> set (f # buf). seq_num (snd g) = sn (fst g) \<and> fst g \<le> fst f + 2048 \<and> fst f < fst g + 2048"
    "sorted_wrt (<) (map fst (f # buf))" "spec_release (fst f) (f # buf) = (i, q, out)"
  shows "\<exists>c. recv_indicatepkts_in_order ok s True =
    (q \<noteq> [], s\<lparr>rctrl := (rctrl s)\<lparr>indicate_seq := sn i, pending_recvframe_queue := map snd q\<rparr>, rcnt := c,
       indicated := indicated s @ map snd out\<rparr>)"
proof -
  obtain refused where "indicate_loop ok (sn (fst f)) (map snd (f # buf)) = (sn i, map snd q, map snd out, refused, q \<noteq> [])"
    using indicate_loop_sn [OF assms(2,3,4)] by blast
  then have l: "indicate_loop ok (seq_num (snd f)) (map snd (f # buf)) = (sn i, map snd q, map snd out, refused, q \<noteq> [])"
    using assms(2) by simp
  show ?thesis
    unfolding recv_indicatepkts_in_order_def Let_def
    by (simp add: assms(1) l [unfolded list.map] del: indicate_loop.simps) (rule exI, rule refl)
qed

lemma timeout_refines:
  fixes ok' :: "'p rframe \<Rightarrow> bool" and s :: "'p rx_state"
  assumes rel: "rx_rel s (nxt, buf)" and ok: "spec_ok w (nxt, buf)" and conf: "rx_conf w s"
    and step: "spec_step w (nxt, buf) Timeout = (a, out)"
  defines "s' \<equiv> rtw_reordering_ctrl_timeout_handler ok' False s"
  shows "rx_rel s' a \<and> rx_conf w s' \<and> timer_inv s' \<and> indicated s' = indicated s @ map snd out"
proof (cases buf)
  case Nil
  then show ?thesis using rel conf step
    by (auto simp: s'_def rtw_reordering_ctrl_timeout_handler_def recv_indicatepkts_in_order_def rx_rel_def
        rx_conf_def timer_inv_def Let_def)
next
  case (Cons f r)
  obtain i q o1 where r: "spec_release (fst f) buf = (i, q, o1)" by (cases "spec_release (fst f) buf") auto
  have e: "a = (i, q)" "out = o1" using step Cons r by simp_all
  have w: "w < 256" using rx_conf_pos [OF conf] by simp
  have b: "\<forall>g \<in> set buf. seq_num (snd g) = sn (fst g) \<and> nxt < fst g \<and> fst g < nxt + w"
    and so: "sorted_wrt (<) (map fst buf)"
    using rel ok by (auto simp: rx_rel_def spec_ok_def)
  have "buf = o1 @ q"
    using spec_release_facts [OF so r, of "nxt + w"] b Cons by auto
  then have qb: "set q \<subseteq> set buf" by auto
  let ?s0 = "s\<lparr>timer_on := False\<rparr>"
  let ?s = "?s0\<lparr>rctrl := (rctrl ?s0)\<lparr>bReorderWaiting := False\<rparr>\<rparr>"
  have "\<exists>c. recv_indicatepkts_in_order ok' ?s True =
    (q \<noteq> [], ?s\<lparr>rctrl := (rctrl ?s)\<lparr>indicate_seq := sn i, pending_recvframe_queue := map snd q\<rparr>, rcnt := c,
       indicated := indicated ?s @ map snd o1\<rparr>)"
  proof (rule forced_sn)
    show "pending_recvframe_queue (rctrl ?s) = map snd (f # r)" using rel Cons by (simp add: rx_rel_def)
    show "\<forall>g \<in> set (f # r). seq_num (snd g) = sn (fst g) \<and> fst g \<le> fst f + 2048 \<and> fst f < fst g + 2048"
    proof
      fix g assume g: "g \<in> set (f # r)"
      have "f \<in> set buf" using Cons by simp
      with b have f: "nxt < fst f" "fst f < nxt + w" by auto
      from g b have "seq_num (snd g) = sn (fst g)" "nxt < fst g" "fst g < nxt + w" unfolding Cons by auto
      with f w show "seq_num (snd g) = sn (fst g) \<and> fst g \<le> fst f + 2048 \<and> fst f < fst g + 2048" by linarith
    qed
    show "sorted_wrt (<) (map fst (f # r))" using so Cons by simp
    show "spec_release (fst f) (f # r) = (i, q, o1)" using r Cons by simp
  qed
  then obtain c where ord: "recv_indicatepkts_in_order ok' ?s True =
    (q \<noteq> [], ?s\<lparr>rctrl := (rctrl ?s)\<lparr>indicate_seq := sn i, pending_recvframe_queue := map snd q\<rparr>, rcnt := c,
       indicated := indicated ?s @ map snd o1\<rparr>)" ..
  show ?thesis using qb b conf
    unfolding e s'_def rtw_reordering_ctrl_timeout_handler_def Let_def if_False ord prod.case
    by (cases "q = []") (auto simp: rx_rel_def rx_conf_def timer_inv_def)
qed

lemma recv_refines:
  fixes ok' :: "'p rframe \<Rightarrow> bool" and s :: "'p rx_state"
  assumes rel: "rx_rel s (nxt, buf)" and ok: "spec_ok w (nxt, buf)" and conf: "rx_conf w s" and tm: "timer_inv s"
    and adm: "rx_admissible nxt (Recv n f)" and step: "spec_step w (nxt, buf) (Recv n f) = (a, out)"
  defines "s' \<equiv> snd (recv_indicatepkt_reorder ok' s f)"
  shows "rx_rel s' a \<and> rx_conf w s' \<and> timer_inv s' \<and> indicated s' = indicated s @ map snd out"
proof -
  have w: "0 < w" "w < 256" "w = unat (wsize_b (rctrl s))" "0 < wsize_b (rctrl s)"
    using rx_conf_pos [OF conf] conf by (auto simp: rx_conf_def)
  have f: "qos f" "has_ctrl f" "seq_num f = sn n" "nxt \<le> n + 2047" "n < nxt + 2048"
    using adm by (auto simp: rx_admissible_def)
  have b: "\<forall>g \<in> set buf. seq_num (snd g) = sn (fst g) \<and> nxt < fst g \<and> fst g < nxt + w"
    and so: "sorted_wrt (<) (map fst buf)" and i: "indicate_seq (rctrl s) = sn nxt"
    and q0: "pending_recvframe_queue (rctrl s) = map snd buf"
    using rel ok by (auto simp: rx_rel_def spec_ok_def)
  have guard: "\<not> (\<not> qos f \<or> \<not> has_ctrl f \<or> \<not> enable (rctrl s))" "\<not> rec_abba_rsp_ack (rctrl s)"
    using f conf by (auto simp: rx_conf_def)
  define nxt' where "nxt' = (if n < nxt then nxt else if n = nxt then Suc nxt else if nxt + w \<le> n then Suc n - w else nxt)"
  obtain c where chk: "check_indicate_seq s (seq_num f) =
      (\<not> n < nxt, s\<lparr>rctrl := (rctrl s)\<lparr>indicate_seq := sn nxt'\<rparr>, rcnt := c\<rparr>)"
    using check_indicate_sn [OF i w(4) f(4,5)] unfolding f(3) nxt'_def w(3) by blast
  let ?s1 = "s\<lparr>rctrl := (rctrl s)\<lparr>indicate_seq := sn nxt'\<rparr>, rcnt := c\<rparr>"
  note unf = recv_indicatepkt_reorder_def [of ok' s f] if_not_P [OF guard(1)] if_not_P [OF guard(2)] chk Let_def
    prod.case
  show ?thesis
  proof (cases "n < nxt")
    case True
    then have "nxt' = nxt" "a = (nxt, buf)" "out = []" using step by (simp_all add: nxt'_def)
    then show ?thesis using True rel conf tm i unfolding s'_def unf
      by (simp add: rx_rel_def rx_conf_def timer_inv_def)
  next
    case False
    have n: "nxt \<le> nxt'" "nxt' \<le> Suc n" "n < nxt' + w" using w False by (auto simp: nxt'_def)
    have enq: "enqueue_reorder_recvframe (pending_recvframe_queue (rctrl ?s1)) f
        = (if n \<in> fst ` set buf then None else Some (map snd (spec_insert (n, f) buf)))"
    proof -
      have "\<forall>g \<in> set buf. seq_num (snd g) = sn (fst g) \<and> fst g < n + 2048 \<and> n \<le> fst g + 2047"
      proof
        fix g assume "g \<in> set buf"
        with b have g: "seq_num (snd g) = sn (fst g)" "nxt < fst g" "fst g < nxt + w" by auto
        with f(5) False w(2) show "seq_num (snd g) = sn (fst g) \<and> fst g < n + 2048 \<and> n \<le> fst g + 2047"
          by linarith
      qed
      from enqueue_sn [OF this f(3) so] show ?thesis using q0 by simp
    qed
    show ?thesis
    proof (cases "n \<in> fst ` set buf")
      case True
      then have "nxt' = nxt" using b by (auto simp: nxt'_def)
      moreover have "(if n = nxt then Suc nxt else if nxt + w \<le> n then Suc n - w else nxt) = nxt'"
        using False by (simp add: nxt'_def)
      then have "a = (nxt', buf)" "out = []" using step False True by (simp_all add: Let_def)
      ultimately show ?thesis using True False rel conf tm i enq unfolding s'_def unf
        by (simp add: rx_rel_def rx_conf_def timer_inv_def)
    next
      case ni: False
      let ?b = "spec_insert (n, f) buf"
      obtain i1 q1 o1 where r: "spec_release nxt' ?b = (i1, q1, o1)" by (cases "spec_release nxt' ?b") auto
      have "nxt' = (if n = nxt then Suc nxt else if nxt + w \<le> n then Suc n - w else nxt)"
        using False by (simp add: nxt'_def)
      then have e: "a = (i1, q1)" "out = o1" using step False ni r by (simp_all add: Let_def)
      have sb: "sorted_wrt (<) (map fst ?b)" using so ni by (intro spec_insert_sorted) simp_all
      have bb: "\<forall>g \<in> set ?b. seq_num (snd g) = sn (fst g) \<and> nxt \<le> fst g \<and> fst g < nxt' + w"
        using b f(3) n False by (auto simp: spec_insert_set)
      have bb': "\<forall>g \<in> set ?b. seq_num (snd g) = sn (fst g) \<and> fst g \<le> nxt' + 2048 \<and> nxt' < fst g + 2048"
      proof
        fix g assume g: "g \<in> set ?b"
        have "nxt' < fst g + 2048"
        proof (cases "fst g = n")
          case True then show ?thesis using n by simp
        next
          case False
          then have "g \<in> set buf" using g by (auto simp: spec_insert_set)
          then have "nxt < fst g" using b by auto
          then show ?thesis using n(2) f(5) by linarith
        qed
        moreover from bb g have gg: "seq_num (snd g) = sn (fst g)" "fst g < nxt' + w" by auto
        moreover have "fst g \<le> nxt' + 2048" using gg(2) w(2) by linarith
        ultimately show "seq_num (snd g) = sn (fst g) \<and> fst g \<le> nxt' + 2048 \<and> nxt' < fst g + 2048" by simp
      qed
      have qb: "set q1 \<subseteq> set ?b" using spec_release_facts [OF sb r, of "nxt' + w"] bb by auto
      let ?s2 = "?s1\<lparr>rctrl := (rctrl ?s1)\<lparr>pending_recvframe_queue := map snd ?b\<rparr>\<rparr>"
      have "\<exists>c. recv_indicatepkts_in_order ok' ?s2 False =
        (q1 \<noteq> [], ?s2\<lparr>rctrl := (rctrl ?s2)\<lparr>indicate_seq := sn i1, pending_recvframe_queue := map snd q1\<rparr>, rcnt := c,
           indicated := indicated ?s2 @ map snd o1\<rparr>)"
        by (rule in_order_sn [OF _ _ bb' sb r]) simp_all
      then obtain c2 where ord: "recv_indicatepkts_in_order ok' ?s2 False =
        (q1 \<noteq> [], ?s2\<lparr>rctrl := (rctrl ?s2)\<lparr>indicate_seq := sn i1, pending_recvframe_queue := map snd q1\<rparr>, rcnt := c2,
           indicated := indicated ?s2 @ map snd o1\<rparr>)" ..
      have enq2: "enqueue_reorder_recvframe (pending_recvframe_queue (rctrl ?s1)) f = Some (map snd ?b)"
        using enq ni by simp
      show ?thesis using False ni conf tm qb bb unfolding e s'_def unf enq2 option.case ord
        by (cases "q1 = []") (auto simp: rx_rel_def rx_conf_def timer_inv_def)
    qed
  qed
qed

section \<open>Runs\<close>

fun spec_run :: "nat \<Rightarrow> 'p spec \<Rightarrow> 'p rx_event list \<Rightarrow> 'p spec \<times> (nat \<times> 'p rframe) list" where
  "spec_run w a [] = (a, [])"
| "spec_run w a (ev # evs) =
     (let (a, out) = spec_step w a ev; (a, out') = spec_run w a evs in (a, out @ out'))"

fun rx_admissible_run :: "nat \<Rightarrow> 'p spec \<Rightarrow> 'p rx_event list \<Rightarrow> bool" where
  "rx_admissible_run w a [] \<longleftrightarrow> True"
| "rx_admissible_run w a (ev # evs) \<longleftrightarrow> rx_admissible (fst a) ev \<and> rx_admissible_run w (fst (spec_step w a ev)) evs"

definition rx_run :: "('p rframe \<Rightarrow> bool) \<Rightarrow> 'p rx_state \<Rightarrow> 'p rx_event list \<Rightarrow> 'p rx_state" where
  "rx_run ok s evs = foldl (\<lambda>s ev. rx_handle ok ev s) s evs"

lemma handle_refines:
  assumes "rx_rel s a" "spec_ok w a" "rx_conf w s" "timer_inv s" "rx_admissible (fst a) ev" "spec_step w a ev = (a', out)"
  shows "rx_rel (rx_handle ok ev s) a'" "spec_ok w a'" "rx_conf w (rx_handle ok ev s)"
    "timer_inv (rx_handle ok ev s)" "indicated (rx_handle ok ev s) = indicated s @ map snd out"
proof -
  obtain nxt buf where a: "a = (nxt, buf)" by force
  obtain i q where a': "a' = (i, q)" by force
  show "spec_ok w a'"
    using spec_step_facts(1) [of w nxt buf ev i q out] assms rx_conf_pos [OF assms(3)] by (simp add: a a')
  have "rx_rel (rx_handle ok ev s) a' \<and> rx_conf w (rx_handle ok ev s) \<and> timer_inv (rx_handle ok ev s)
    \<and> indicated (rx_handle ok ev s) = indicated s @ map snd out"
  proof (cases ev)
    case (Recv n f)
    then show ?thesis using recv_refines [of s nxt buf w n f a' out ok] assms by (simp add: a rx_handle_def)
  next
    case Timeout
    then show ?thesis using timeout_refines [of s nxt buf w a' out ok] assms by (simp add: a rx_handle_def)
  qed
  then show "rx_rel (rx_handle ok ev s) a'" "rx_conf w (rx_handle ok ev s)"
    "timer_inv (rx_handle ok ev s)" "indicated (rx_handle ok ev s) = indicated s @ map snd out" by auto
qed

lemma run_refines:
  assumes "rx_rel s a" "spec_ok w a" "rx_conf w s" "timer_inv s" "rx_admissible_run w a evs" "spec_run w a evs = (a', out)"
  shows "rx_rel (rx_run ok s evs) a' \<and> spec_ok w a' \<and> timer_inv (rx_run ok s evs)
    \<and> indicated (rx_run ok s evs) = indicated s @ map snd out"
  using assms
proof (induction evs arbitrary: s a a' out)
  case Nil
  then show ?case by (simp add: rx_run_def)
next
  case (Cons ev evs)
  obtain a1 o1 where 1: "spec_step w a ev = (a1, o1)" by (cases "spec_step w a ev")
  obtain a2 o2 where 2: "spec_run w a1 evs = (a2, o2)" by (cases "spec_run w a1 evs")
  have e: "a' = a2" "out = o1 @ o2" using Cons.prems(6) 1 2 by auto
  have "rx_admissible (fst a) ev" "rx_admissible_run w a1 evs" using Cons.prems(5) 1 by auto
  note h = handle_refines [OF Cons.prems(1-4) this(1) 1]
  from Cons.IH [OF h(1) [of ok] h(2) h(3) [of ok] h(4) [of ok] \<open>rx_admissible_run w a1 evs\<close> 2] h(5) [of ok]
  show ?case by (simp add: e rx_run_def)
qed

lemma spec_run_sorted:
  assumes "spec_ok w a" "0 < w" "spec_run w a evs = (a', out)"
  shows "sorted_wrt (<) (map fst out) \<and> (\<forall>g \<in> set out. fst a \<le> fst g \<and> fst g < fst a') \<and> fst a \<le> fst a'"
  using assms
proof (induction evs arbitrary: a a' out)
  case Nil
  then show ?case by auto
next
  case (Cons ev evs)
  obtain nxt buf where a: "a = (nxt, buf)" by force
  obtain i q o1 where 1: "spec_step w a ev = ((i, q), o1)" by (metis prod.collapse)
  obtain a2 o2 where 2: "spec_run w (i, q) evs = (a2, o2)" by (cases "spec_run w (i, q) evs")
  have e: "a' = a2" "out = o1 @ o2" using Cons.prems(3) 1 2 by auto
  note f = spec_step_facts [OF Cons.prems(1) [unfolded a] Cons.prems(2) 1 [unfolded a]]
  have g: "sorted_wrt (<) (map fst o2) \<and> (\<forall>g \<in> set o2. i \<le> fst g \<and> fst g < fst a2) \<and> i \<le> fst a2"
    using Cons.IH [OF f(1) Cons.prems(2) 2] by simp
  show ?case using f(2,3,4) g by (auto simp: e a sorted_wrt_append) force+
qed

text \<open>A fresh window (start value \<open>0xFFFF\<close>) takes the first frame as its start.\<close>

lemma fresh_first:
  assumes "indicate_seq (rctrl s) = 0xFFFF" "seq_num f = sn n" "rx_conf w s" "qos f" "has_ctrl f"
  shows "recv_indicatepkt_reorder ok s f = recv_indicatepkt_reorder ok (s\<lparr>rctrl := (rctrl s)\<lparr>indicate_seq := sn n\<rparr>\<rparr>) f"
proof -
  have "check_indicate_seq s (sn n) = check_indicate_seq (s\<lparr>rctrl := (rctrl s)\<lparr>indicate_seq := sn n\<rparr>\<rparr>) (sn n)"
    using assms(1) sn_not_init SN_LESS_sn [of n n] by (simp add: check_indicate_seq_def Let_def)
  then show ?thesis using assms(2-) by (simp add: recv_indicatepkt_reorder_def rx_conf_def)
qed

lemma spec_pending_bound:
  assumes "spec_ok w (nxt, buf)" "0 < w"
  shows "length buf < w"
proof -
  have s: "sorted_wrt (<) (map fst buf)" and b: "\<forall>g \<in> set buf. nxt < fst g \<and> fst g < nxt + w"
    using assms by (simp_all add: spec_ok_def)
  have "distinct (map fst buf)" using s by (simp add: strict_sorted_iff)
  then have "length buf = card (fst ` set buf)" by (metis distinct_card length_map set_map)
  also have "\<dots> \<le> card {nxt<..<nxt + w}" using b by (intro card_mono) auto
  also have "\<dots> < w" using assms(2) by simp
  finally show ?thesis .
qed

lemma run_from_fresh:
  assumes "indicate_seq (rctrl s) = 0xFFFF" "pending_recvframe_queue (rctrl s) = []" "rx_conf w s" "timer_inv s"
    "rx_admissible_run w (n, []) (Recv n f # evs)" "spec_run w (n, []) (Recv n f # evs) = (a, out)"
  shows "rx_rel (rx_run ok s (Recv n f # evs)) a \<and> spec_ok w a \<and> timer_inv (rx_run ok s (Recv n f # evs))
    \<and> indicated (rx_run ok s (Recv n f # evs)) = indicated s @ map snd out"
proof -
  let ?s = "s\<lparr>rctrl := (rctrl s)\<lparr>indicate_seq := sn n\<rparr>\<rparr>"
  have f: "seq_num f = sn n" "qos f" "has_ctrl f" using assms(5) by (auto simp: rx_admissible_def)
  have "rx_run ok s (Recv n f # evs) = rx_run ok ?s (Recv n f # evs)"
    using fresh_first [OF assms(1) f(1) assms(3) f(2,3)] by (simp add: rx_run_def rx_handle_def)
  moreover have "rx_rel ?s (n, [])" "spec_ok w (n, [])" "rx_conf w ?s" "timer_inv ?s"
    using assms(2,3,4) by (simp_all add: rx_rel_def spec_ok_def rx_conf_def timer_inv_def)
  ultimately show ?thesis using run_refines [of ?s "(n, [])" w "Recv n f # evs" a out ok] assms(5,6) by simp
qed

text \<open>Frames are neither invented nor, when each is new on arrival, lost.\<close>

fun received :: "'p rx_event list \<Rightarrow> (nat \<times> 'p rframe) list" where
  "received [] = []"
| "received (Recv n f # evs) = (n, f) # received evs"
| "received (Timeout # evs) = received evs"

definition rx_new :: "'p spec \<Rightarrow> 'p rx_event \<Rightarrow> bool" where
  "rx_new a ev = (case ev of Recv n f \<Rightarrow> fst a \<le> n \<and> n \<notin> fst ` set (snd a) | Timeout \<Rightarrow> True)"

fun rx_new_run :: "nat \<Rightarrow> 'p spec \<Rightarrow> 'p rx_event list \<Rightarrow> bool" where
  "rx_new_run w a [] \<longleftrightarrow> True"
| "rx_new_run w a (ev # evs) \<longleftrightarrow> rx_new a ev \<and> rx_new_run w (fst (spec_step w a ev)) evs"

lemma spec_release_split: "spec_release nxt q = (i, q', out) \<Longrightarrow> q = out @ q'"
proof (induction nxt q arbitrary: i q' out rule: spec_release.induct)
  case (2 nxt f q)
  show ?case
  proof (cases "fst f \<le> nxt")
    case True
    obtain i1 q1 o1 where r: "spec_release (if fst f = nxt then Suc nxt else nxt) q = (i1, q1, o1)"
      by (cases "spec_release (if fst f = nxt then Suc nxt else nxt) q") auto
    show ?thesis using 2(1) [OF True r] 2(2) True r by simp
  next
    case False
    then show ?thesis using 2(2) by simp
  qed
qed simp

lemma spec_step_sets:
  assumes "spec_step w a ev = (a', out)"
  shows "set out \<union> set (snd a') \<subseteq> set (snd a) \<union> set (received [ev])"
    "rx_new a ev \<Longrightarrow> set out \<union> set (snd a') = set (snd a) \<union> set (received [ev])"
proof -
  obtain nxt buf where a: "a = (nxt, buf)" by force
  have "set out \<union> set (snd a') \<subseteq> set buf \<union> set (received [ev])
    \<and> (rx_new a ev \<longrightarrow> set out \<union> set (snd a') = set buf \<union> set (received [ev]))"
  proof (cases ev)
    case (Recv n f)
    define nxt' where "nxt' = (if n = nxt then Suc nxt else if nxt + w \<le> n then Suc n - w else nxt)"
    obtain i q o1 where r: "spec_release nxt' (spec_insert (n, f) buf) = (i, q, o1)"
      by (cases "spec_release nxt' (spec_insert (n, f) buf)") auto
    have "set o1 \<union> set q = insert (n, f) (set buf)"
      using arg_cong [OF spec_release_split [OF r], of set] by (auto simp: spec_insert_set)
    then show ?thesis using assms r unfolding a Recv
      by (cases "n < nxt"; cases "n \<in> fst ` set buf") (auto simp: rx_new_def nxt'_def [symmetric] Let_def)
  next
    case Timeout
    show ?thesis
    proof (cases buf)
      case Nil
      then show ?thesis using assms Timeout by (auto simp: a)
    next
      case (Cons f b)
      obtain i q o1 where r: "spec_release (fst f) buf = (i, q, o1)" by (cases "spec_release (fst f) buf") auto
      have "a' = (i, q)" "out = o1" using assms Timeout Cons r by (simp_all add: a)
      then show ?thesis using spec_release_split [OF r] Timeout by auto
    qed
  qed
  then show "set out \<union> set (snd a') \<subseteq> set (snd a) \<union> set (received [ev])"
    "rx_new a ev \<Longrightarrow> set out \<union> set (snd a') = set (snd a) \<union> set (received [ev])"
    by (auto simp: a)
qed

lemma received_Cons: "set (received (ev # evs)) = set (received [ev]) \<union> set (received evs)"
  by (cases ev) auto

lemma spec_run_sets:
  assumes "spec_run w a evs = (a', out)"
  shows "set out \<union> set (snd a') \<subseteq> set (snd a) \<union> set (received evs)"
    "rx_new_run w a evs \<Longrightarrow> set out \<union> set (snd a') = set (snd a) \<union> set (received evs)"
proof -
  have "set out \<union> set (snd a') \<subseteq> set (snd a) \<union> set (received evs)
    \<and> (rx_new_run w a evs \<longrightarrow> set out \<union> set (snd a') = set (snd a) \<union> set (received evs))"
    using assms
  proof (induction evs arbitrary: a out)
    case (Cons ev evs)
    obtain a1 o1 where 1: "spec_step w a ev = (a1, o1)" by (cases "spec_step w a ev")
    obtain a2 o2 where 2: "spec_run w a1 evs = (a2, o2)" by (cases "spec_run w a1 evs")
    have e: "a' = a2" "out = o1 @ o2" using Cons.prems 1 2 by auto
    note s = spec_step_sets [OF 1]
    have i: "set o2 \<union> set (snd a') \<subseteq> set (snd a1) \<union> set (received evs)
      \<and> (rx_new_run w a1 evs \<longrightarrow> set o2 \<union> set (snd a') = set (snd a1) \<union> set (received evs))"
      using Cons.IH [of a1 o2] 2 e(1) by simp
    show ?case unfolding received_Cons [of ev evs] e(2) rx_new_run.simps 1 fst_conv set_append
      using s i by blast
  qed simp
  then show "set out \<union> set (snd a') \<subseteq> set (snd a) \<union> set (received evs)"
    "rx_new_run w a evs \<Longrightarrow> set out \<union> set (snd a') = set (snd a) \<union> set (received evs)" by auto
qed

text \<open>Each expiration of the timer delivers at least the first pending frame.\<close>

lemma timeout_shrinks:
  assumes "spec_step w a Timeout = (a', out)"
  shows "length (snd a') \<le> length (snd a) - 1"
proof -
  obtain nxt buf where a: "a = (nxt, buf)" by force
  show ?thesis
  proof (cases buf)
    case Nil
    then show ?thesis using assms by (auto simp: a)
  next
    case (Cons f b)
    obtain i q o1 where r: "spec_release (Suc (fst f)) b = (i, q, o1)" by (cases "spec_release (Suc (fst f)) b") auto
    have "a' = (i, q)" using assms Cons r by (auto simp: a)
    then show ?thesis using spec_release_split [OF r] by (simp add: a Cons)
  qed
qed

lemma timeouts_drain: "length (snd a) \<le> k \<Longrightarrow> snd (fst (spec_run w a (replicate k Timeout))) = []"
proof (induction k arbitrary: a)
  case (Suc k)
  obtain a1 o1 where 1: "spec_step w a Timeout = (a1, o1)" by (cases "spec_step w a Timeout")
  have "length (snd a1) \<le> k" using timeout_shrinks [OF 1] Suc.prems by simp
  then show ?case using Suc.IH [of a1] 1 by (simp add: case_prod_unfold Let_def)
qed simp

lemma spec_run_append:
  "spec_run w a (xs @ ys) = (let (a1, o1) = spec_run w a xs; (a2, o2) = spec_run w a1 ys in (a2, o1 @ o2))"
  by (induction xs arbitrary: a) (simp_all add: case_prod_unfold Let_def)

lemma admissible_timeouts:
  "rx_admissible_run w a evs \<Longrightarrow> rx_admissible_run w a (evs @ replicate k Timeout)"
proof (induction evs arbitrary: a)
  case Nil
  show ?case by (induction k arbitrary: a) (simp_all add: rx_admissible_def)
qed simp

lemma new_timeouts: "rx_new_run w a evs \<Longrightarrow> rx_new_run w a (evs @ replicate k Timeout)"
proof (induction evs arbitrary: a)
  case Nil
  show ?case by (induction k arbitrary: a) (simp_all add: rx_new_def)
qed simp

lemma received_timeouts: "received (evs @ replicate k Timeout) = received evs"
  by (induction evs rule: received.induct) (simp_all, induction k, simp_all)

text \<open>C1: From a fresh window, every run of received frames (each within 2048 of the window start)
  and timer expirations delivers frames that were received, in the order of their unbounded sequence
  numbers and without repetition; fewer frames than the window size are ever pending, and while any is
  pending the reordering timer is armed.\<close>

theorem reorder_in_order:
  assumes "indicate_seq (rctrl s) = 0xFFFF" "pending_recvframe_queue (rctrl s) = []" "rx_conf w s" "timer_inv s"
    "rx_admissible_run w (n, []) (Recv n f # evs)"
  shows "\<exists>out. indicated (rx_run ok s (Recv n f # evs)) = indicated s @ map snd out
      \<and> sorted_wrt (<) (map fst out) \<and> set out \<subseteq> set (received (Recv n f # evs))
      \<and> length (pending_recvframe_queue (rctrl (rx_run ok s (Recv n f # evs)))) < w
      \<and> timer_inv (rx_run ok s (Recv n f # evs))"
proof -
  obtain a out where r: "spec_run w (n, []) (Recv n f # evs) = (a, out)"
    by (cases "spec_run w (n, []) (Recv n f # evs)")
  note x = run_from_fresh [OF assms r, of ok]
  have w: "0 < w" using rx_conf_pos [OF assms(3)] by simp
  have "length (snd a) < w" using x w spec_pending_bound [of w "fst a" "snd a"] by simp
  moreover have "sorted_wrt (<) (map fst out)" using spec_run_sorted [OF _ w r] by (simp add: spec_ok_def)
  ultimately show ?thesis using x spec_run_sets(1) [OF r] by (auto simp: rx_rel_def)
qed

text \<open>C2: If every frame of such a run is new when it arrives (not before the window start and not
  pending already), then after as many timer expirations as the window is long every received frame has
  been delivered exactly once, in order, and nothing is pending: the reordering loses no frame and holds
  none forever.\<close>

theorem reorder_lossless:
  assumes "indicate_seq (rctrl s) = 0xFFFF" "pending_recvframe_queue (rctrl s) = []" "rx_conf w s" "timer_inv s"
    "rx_admissible_run w (n, []) (Recv n f # evs)" "rx_new_run w (n, []) (Recv n f # evs)"
  shows "\<exists>out. indicated (rx_run ok s (Recv n f # evs @ replicate w Timeout)) = indicated s @ map snd out
      \<and> sorted_wrt (<) (map fst out) \<and> set out = set (received (Recv n f # evs))
      \<and> pending_recvframe_queue (rctrl (rx_run ok s (Recv n f # evs @ replicate w Timeout))) = []"
proof -
  let ?evs = "evs @ replicate w Timeout"
  obtain a1 o1 where 1: "spec_run w (n, []) (Recv n f # evs) = (a1, o1)"
    by (cases "spec_run w (n, []) (Recv n f # evs)")
  obtain a out where r: "spec_run w (n, []) (Recv n f # ?evs) = (a, out)"
    by (cases "spec_run w (n, []) (Recv n f # ?evs)")
  have w: "0 < w" using rx_conf_pos [OF assms(3)] by simp
  have adm: "rx_admissible_run w (n, []) (Recv n f # ?evs)" using admissible_timeouts [OF assms(5), of w] by simp
  have new: "rx_new_run w (n, []) (Recv n f # ?evs)" using new_timeouts [OF assms(6), of w] by simp
  note x = run_from_fresh [OF assms(1-4) adm r, of ok]
  have "spec_ok w a1" using run_from_fresh [OF assms(1-5) 1, of ok] by simp
  then have "length (snd a1) \<le> w" using spec_pending_bound [of w "fst a1" "snd a1"] w by simp
  from timeouts_drain [OF this, of w] have "snd a = []"
    using spec_run_append [of w "(n, [])" "Recv n f # evs" "replicate w Timeout"] 1 r
    by (simp add: case_prod_unfold Let_def)
  moreover have "set out \<union> set (snd a) = set (received (Recv n f # evs))"
    using spec_run_sets(2) [OF r new] received_timeouts [of "Recv n f # evs" w] by simp
  moreover have "sorted_wrt (<) (map fst out)" using spec_run_sorted [OF _ w r] by (simp add: spec_ok_def)
  ultimately show ?thesis using x by (auto simp: rx_rel_def)
qed

section \<open>The properties on a concrete run\<close>

text \<open>Frames 4094, 1 (that is 4097), 4095, 0 (4096): the window crosses the end of the sequence space.\<close>

definition demo_frame :: "nat \<Rightarrow> nat rframe" where
  "demo_frame n = \<lparr>seq_num = sn n, qos = True, has_ctrl = True, mpdu = n\<rparr>"

definition demo_rx :: "nat rx_state" where
  "demo_rx = \<lparr>rctrl = \<lparr>enable = True, indicate_seq = 0xFFFF, wsize_b = 64, ampdu_size = 0, pending_recvframe_queue = [],
      bReorderWaiting = False, rec_abba_rsp_ack = False\<rparr>,
     rcnt = \<lparr>rx_drop = 0, dbg_rx_drop_count = 0, dbg_rx_ampdu_drop_count = 0, dbg_rx_ampdu_forced_indicate_count = 0,
       dbg_rx_ampdu_loss_count = 0, dbg_rx_ampdu_window_shift_cnt = 0\<rparr>,
     timer_on = False, indicated = []\<rparr>"

definition demo_events :: "nat rx_event list" where
  "demo_events = [Recv 4097 (demo_frame 4097), Recv 4095 (demo_frame 4095), Recv 4099 (demo_frame 4099), Recv 4096 (demo_frame 4096)]"

lemma demo_conf: "indicate_seq (rctrl demo_rx) = 0xFFFF" "pending_recvframe_queue (rctrl demo_rx) = []"
  "rx_conf 64 demo_rx" "timer_inv demo_rx"
  by (simp_all add: demo_rx_def rx_conf_def timer_inv_def)

lemma demo_admissible:
  "rx_admissible_run 64 (4094, []) (Recv 4094 (demo_frame 4094) # demo_events)"
  "rx_new_run 64 (4094, []) (Recv 4094 (demo_frame 4094) # demo_events)"
  by (simp_all add: demo_events_def rx_admissible_def rx_new_def demo_frame_def)

theorem reorder_in_order_witness:
  "\<exists>out. indicated (rx_run (\<lambda>_. True) demo_rx (Recv 4094 (demo_frame 4094) # demo_events)) = map snd out
      \<and> sorted_wrt (<) (map fst out) \<and> set out \<subseteq> set (received (Recv 4094 (demo_frame 4094) # demo_events))"
proof -
  have "indicated demo_rx = []" by (simp add: demo_rx_def)
  then show ?thesis using reorder_in_order [OF demo_conf demo_admissible(1), of "\<lambda>_. True"] by auto
qed

theorem reorder_lossless_witness:
  "\<exists>out. indicated (rx_run (\<lambda>_. True) demo_rx (Recv 4094 (demo_frame 4094) # demo_events @ replicate 64 Timeout)) = map snd out
      \<and> sorted_wrt (<) (map fst out) \<and> set out = set (received (Recv 4094 (demo_frame 4094) # demo_events))"
proof -
  have "indicated demo_rx = []" by (simp add: demo_rx_def)
  then show ?thesis using reorder_lossless [OF demo_conf demo_admissible, of "\<lambda>_. True"] by auto
qed

end
