(* ===== verification/RxSeq.thy ===== *)
theory RxSeq
  imports Prelude StaHash
begin

text \<open>
  Duplicate and replay detection on reception, core/rtw_recv.c: \<open>recv_decache\<close> (the last sequence
  control per TID and class of traffic) and the CCMP packet-number checks \<open>recv_ucast_pn_decache\<close> and
  \<open>recv_bcast_pn_decache\<close>. The locale \<open>replay_guard\<close> is the contract of a replay counter: a frame is
  accepted exactly when it advances the counter; it is interpreted on the group-key check.
\<close>

section \<open>State\<close>

record rx_attrib =
  encrypt_aes :: bool
  ra_hdrlen :: u8
  ra_priority :: u8
  ra_qos :: bool
  ra_addr :: bytes
  ra_seq_num :: u16
  ra_frag_num :: u8
  ra_data :: bytes   \<comment> \<open>\<open>rx_data\<close>\<close>

record stainfo_rxcache =
  tid_rxseq :: "u16 list"
  rx_iv :: "bytes list"
  last_tid :: u8

record sta_recv_priv =
  rxcache :: stainfo_rxcache
  bmc_tid_rxseq :: "u16 list"
  nonqos_rxseq :: u16
  nonqos_bmc_rxseq :: u16
  duplicate_cnt :: u64

section \<open>The code\<close>

definition CCMPH_2_PN :: "u64 \<Rightarrow> u64" where
  "CCMPH_2_PN ch = (ch AND 0x000000000000ffff) OR drop_bit 16 (ch AND 0xffffffff00000000)"

definition CCMPH_2_KEYID :: "u64 \<Rightarrow> u64" where
  "CCMPH_2_KEYID ch = drop_bit 30 (ch AND 0x00000000c0000000)"

definition PN_LESS_CHK :: "u64 \<Rightarrow> u64 \<Rightarrow> bool" where
  "PN_LESS_CHK a b \<longleftrightarrow> (a - b) AND 0x800000000000 \<noteq> 0"

definition VALID_PN_CHK :: "u64 \<Rightarrow> u64 \<Rightarrow> bool" where
  "VALID_PN_CHK new old \<longleftrightarrow> old = 0 \<or> PN_LESS_CHK old new"

definition recv_ucast_pn_decache :: "rx_attrib \<Rightarrow> stainfo_rxcache \<Rightarrow> (rtw_res \<times> stainfo_rxcache) option" where
  "recv_ucast_pn_decache pattrib prxcache =
     (let tid = unat (ra_priority pattrib)
      in if 15 < tid then Some (RTW_FAIL, prxcache)
         else if encrypt_aes pattrib then do {
           hdr \<leftarrow> get_sub (ra_data pattrib) (unat (ra_hdrlen pattrib)) 8;
           let pkt_pn = CCMPH_2_PN (le_val hdr);
           old \<leftarrow> rd (rx_iv prxcache) tid;
           let curr_pn = CCMPH_2_PN (le_val old);
           if \<not> VALID_PN_CHK pkt_pn curr_pn then Some (RTW_SUCCESS, prxcache)
           else Some (RTW_SUCCESS, prxcache\<lparr>last_tid := word_of_nat tid, rx_iv := (rx_iv prxcache)[tid := hdr]\<rparr>) }
         else Some (RTW_SUCCESS, prxcache))"

text \<open>\<open>station\<close>: \<open>check_fwstate(pmlmepriv, WIFI_STATION_STATE)\<close>. \<open>iv_seq\<close> holds the last packet number of each
  of the four key ids, in eight bytes.\<close>

definition recv_bcast_pn_decache :: "bool \<Rightarrow> rx_attrib \<Rightarrow> bytes list \<Rightarrow> (rtw_res \<times> bytes list) option" where
  "recv_bcast_pn_decache station pattrib iv_seq =
     (if encrypt_aes pattrib \<and> station then do {
        hdr \<leftarrow> get_sub (ra_data pattrib) (unat (ra_hdrlen pattrib)) 8;
        let key_id = unat (CCMPH_2_KEYID (le_val hdr));
        let pkt_pn = CCMPH_2_PN (le_val hdr);
        old \<leftarrow> rd iv_seq key_id;
        let curr_pn = le_val old AND 0x0000ffffffffffff;
        if \<not> VALID_PN_CHK pkt_pn curr_pn then Some (RTW_FAIL, iv_seq)
        else Some (RTW_SUCCESS, iv_seq[key_id := map (\<lambda>i. ucast (drop_bit (8 * i) pkt_pn)) [0..<8]]) }
      else Some (RTW_SUCCESS, iv_seq))"

definition rx_seq_ctrl :: "rx_attrib \<Rightarrow> u16" where
  "rx_seq_ctrl pattrib = push_bit 4 (ra_seq_num pattrib AND 0xffff) OR (ucast (ra_frag_num pattrib) AND 0xf)"

definition recv_decache :: "rx_attrib \<Rightarrow> sta_recv_priv \<Rightarrow> (rtw_res \<times> sta_recv_priv) option" where
  "recv_decache pattrib p =
     (let tid = unat (ra_priority pattrib);
          seq_ctrl = rx_seq_ctrl pattrib
      in if 15 < tid then Some (RTW_FAIL, p)
         else do {
           prxseq \<leftarrow>
             (if ra_qos pattrib
              then (if IS_MCAST (ra_addr pattrib) then rd (bmc_tid_rxseq p) tid else rd (tid_rxseq (rxcache p)) tid)
              else Some (if IS_MCAST (ra_addr pattrib) then nonqos_bmc_rxseq p else nonqos_rxseq p));
           if seq_ctrl = prxseq then Some (RTW_FAIL, p\<lparr>duplicate_cnt := duplicate_cnt p + 1\<rparr>)
           else Some (RTW_SUCCESS,
             if ra_qos pattrib
             then (if IS_MCAST (ra_addr pattrib)
                   then p\<lparr>bmc_tid_rxseq := (bmc_tid_rxseq p)[tid := seq_ctrl]\<rparr>
                   else p\<lparr>rxcache := (rxcache p)\<lparr>tid_rxseq := (tid_rxseq (rxcache p))[tid := seq_ctrl]\<rparr>\<rparr>)
             else (if IS_MCAST (ra_addr pattrib)
                   then p\<lparr>nonqos_bmc_rxseq := seq_ctrl\<rparr> else p\<lparr>nonqos_rxseq := seq_ctrl\<rparr>)) })"

section \<open>Packet numbers\<close>

lemma and_bit47: "(w :: u64) AND 0x800000000000 \<noteq> 0 \<longleftrightarrow> bit w 47"
proof -
  have e: "(0x800000000000 :: u64) = push_bit 47 1" by simp
  show ?thesis unfolding e by (simp only: bit_iff_and_push_bit_not_eq_0)
qed

lemma PN_LESS_uint: "PN_LESS_CHK a b \<longleftrightarrow> bit (uint a - uint b) 47"
proof -
  have "bit (a - b) 47 = bit (word_of_int (uint a - uint b) :: u64) 47"
    by (simp only: of_int_diff word_of_int_uint)
  also have "\<dots> = bit (uint a - uint b) 47" by (subst bit_word_of_int_iff) simp
  finally show ?thesis unfolding PN_LESS_CHK_def and_bit47 .
qed

text \<open>Below \<open>2^47\<close> the modular comparison is the usual order.\<close>

lemma PN_LESS_small:
  assumes "unat a < 2 ^ 47" "unat b < 2 ^ 47"
  shows "PN_LESS_CHK a b \<longleftrightarrow> a < b"
proof -
  have l: "uint a < 2 ^ 47" "uint b < 2 ^ 47" "0 \<le> uint a" "0 \<le> uint b"
    using assms by (simp_all add: uint_nat del: of_nat_unat)
  have "bit (uint a - uint b) 47 \<longleftrightarrow> odd ((uint a - uint b) div 2 ^ 47)" by (simp only: bit_iff_odd)
  also have "\<dots> \<longleftrightarrow> uint a < uint b"
  proof (cases "uint a < uint b")
    case True
    have "uint b < 140737488355328" using l(2) by simp
    with True l(3) have "(uint a - uint b) div 140737488355328 = -1" by linarith
    then have "(uint a - uint b) div 2 ^ 47 = -1" by simp
    then show ?thesis using True by simp
  next
    case False
    have "uint a < 140737488355328" using l(1) by simp
    with False l(4) have "(uint a - uint b) div 140737488355328 = 0" by linarith
    then have "(uint a - uint b) div 2 ^ 47 = 0" by simp
    then show ?thesis using False by simp
  qed
  finally show ?thesis unfolding PN_LESS_uint word_less_def .
qed

lemma bit_le_val: "bit (le_val bs) k \<longleftrightarrow> k < 64 \<and> k div 8 < length bs \<and> bit (bs ! (k div 8)) (k mod 8)"
proof (induction bs arbitrary: k)
  case (Cons b bs)
  show ?case
  proof (cases "k < 8")
    case True
    then show ?thesis by (auto simp: bit_simps)
  next
    case False
    then have "k div 8 = Suc ((k - 8) div 8)" "k mod 8 = (k - 8) mod 8" by (auto simp: le_div_geq le_mod_geq)
    then show ?thesis using False Cons.IH [of "k - 8"] by (auto simp: bit_simps)
  qed
qed simp

lemma le_val_bytes: "le_val (map (\<lambda>i. ucast (drop_bit (8 * i) (w :: u64))) [0..<8]) = w"
proof (rule bit_word_eqI)
  fix k assume "k < LENGTH(64)"
  then have k: "k < 64" by simp
  then have d: "k div 8 < 8" "k mod 8 < 8" by simp_all
  have "8 * (k div 8) + k mod 8 = k" by simp
  then have "bit (ucast (drop_bit (8 * (k div 8)) w) :: u8) (k mod 8) = bit w k"
    using d(2) by (auto simp: bit_simps add.commute)
  then show "bit (le_val (map (\<lambda>i. ucast (drop_bit (8 * i) w)) [0..<8])) k = bit w k"
    using k d by (simp add: bit_le_val del: upt_Suc)
qed

lemma take_bit_small: "unat (w :: u64) < 2 ^ 47 \<Longrightarrow> w AND 0x0000ffffffffffff = w"
proof -
  assume s: "unat w < 2 ^ 47"
  have "w AND 0x0000ffffffffffff = take_bit 48 w" by (simp add: take_bit_eq_mask mask_eq_exp_minus_1)
  also have "\<dots> = w"
    using s by (simp add: word_unat_eq_iff unsigned_take_bit_eq take_bit_nat_eq_self)
  finally show ?thesis .
qed

lemma keyid_less: "unat (CCMPH_2_KEYID ch) < 4"
proof -
  have "CCMPH_2_KEYID ch = take_bit 2 (drop_bit 30 ch)"
  proof (rule bit_word_eqI)
    fix k assume "k < LENGTH(64)"
    have m: "(0x00000000c0000000 :: u64) = push_bit 30 (mask 2)" by (simp add: mask_eq_exp_minus_1)
    show "bit (CCMPH_2_KEYID ch) k = bit (take_bit 2 (drop_bit 30 ch)) k"
      unfolding CCMPH_2_KEYID_def m by (auto simp: bit_simps)
  qed
  then have "unat (CCMPH_2_KEYID ch) = take_bit 2 (unat (drop_bit 30 ch))"
    by (simp only: unsigned_take_bit_eq)
  then show ?thesis using take_bit_nat_less_exp [of 2 "unat (drop_bit 30 ch)"] by simp
qed

section \<open>Replay counters\<close>

fun accepted :: "('s \<Rightarrow> 'f \<Rightarrow> bool \<times> 's) \<Rightarrow> 's \<Rightarrow> 'f list \<Rightarrow> 'f list" where
  "accepted check s [] = []"
| "accepted check s (f # fs) =
     (let (b, s') = check s f in if b then f # accepted check s' fs else accepted check s' fs)"

text \<open>\<open>mine\<close>: the frames that use this counter \<open>ctr\<close>; the others leave it alone.\<close>

locale replay_guard =
  fixes inv :: "'s \<Rightarrow> bool" and fr :: "'f \<Rightarrow> bool" and check :: "'s \<Rightarrow> 'f \<Rightarrow> bool \<times> 's"
    and mine :: "'f \<Rightarrow> bool" and ctr :: "'s \<Rightarrow> nat" and num :: "'f \<Rightarrow> nat"
  assumes guard_inv: "inv s \<Longrightarrow> fr f \<Longrightarrow> inv (snd (check s f))"
    and guard_mine: "inv s \<Longrightarrow> fr f \<Longrightarrow> mine f \<Longrightarrow> fst (check s f) \<longleftrightarrow> ctr s = 0 \<or> ctr s < num f"
    and guard_ctr: "inv s \<Longrightarrow> fr f \<Longrightarrow> ctr (snd (check s f)) = (if mine f \<and> fst (check s f) then num f else ctr s)"
begin

lemma accepted_increasing:
  assumes "inv s" "\<forall>f \<in> set fs. fr f \<and> 0 < num f"
  shows "sorted_wrt (<) (ctr s # map num (filter mine (accepted check s fs)))"
  using assms
proof (induction fs arbitrary: s)
  case (Cons f fs)
  obtain b s' where c: "check s f = (b, s')" by force
  have f: "fr f" "0 < num f" using Cons.prems(2) by auto
  have "inv s'" using guard_inv [OF Cons.prems(1) f(1)] c by simp
  then have IH: "sorted_wrt (<) (ctr s' # map num (filter mine (accepted check s' fs)))"
    using Cons by auto
  have ctr': "ctr s' = (if mine f \<and> b then num f else ctr s)"
    using guard_ctr [OF Cons.prems(1) f(1)] c by simp
  show ?case
  proof (cases "mine f \<and> b")
    case True
    then have "ctr s < num f" using guard_mine [OF Cons.prems(1) f(1)] c f(2) by auto
    then show ?thesis using IH ctr' True c by auto
  next
    case False
    then show ?thesis using IH ctr' c by auto
  qed
qed simp

lemma no_replay:
  assumes "inv s" "fr f" "mine f" "0 < num f" "fst (check s f)"
  shows "\<not> fst (check (snd (check s f)) f)"
  using guard_mine [OF guard_inv [OF assms(1,2)] assms(2,3)] guard_ctr [OF assms(1,2)] assms(3,4,5) by simp

end

text \<open>The group-key check as a guard, one counter per key id.\<close>

definition bcast_check :: "bytes list \<Rightarrow> rx_attrib \<Rightarrow> bool \<times> bytes list" where
  "bcast_check iv_seq f = (case recv_bcast_pn_decache True f iv_seq of
      Some (RTW_SUCCESS, iv_seq') \<Rightarrow> (True, iv_seq') | Some (RTW_FAIL, iv_seq') \<Rightarrow> (False, iv_seq') | None \<Rightarrow> (False, iv_seq))"

definition ccmp_hdr :: "rx_attrib \<Rightarrow> u64" where
  "ccmp_hdr f = le_val (take 8 (drop (unat (ra_hdrlen f)) (ra_data f)))"

definition frame_pn :: "rx_attrib \<Rightarrow> nat" where "frame_pn f = unat (CCMPH_2_PN (ccmp_hdr f))"
definition frame_keyid :: "rx_attrib \<Rightarrow> nat" where "frame_keyid f = unat (CCMPH_2_KEYID (ccmp_hdr f))"

text \<open>A CCMP frame that holds its header, with a packet number below \<open>2^47\<close>.\<close>

definition ccmp_frame :: "rx_attrib \<Rightarrow> bool" where
  "ccmp_frame f \<longleftrightarrow> encrypt_aes f \<and> unat (ra_hdrlen f) + 8 \<le> length (ra_data f) \<and> frame_pn f < 2 ^ 47"

definition iv_ctr :: "nat \<Rightarrow> bytes list \<Rightarrow> nat" where "iv_ctr k iv_seq = unat (le_val (iv_seq ! k))"

definition iv_ok :: "bytes list \<Rightarrow> bool" where
  "iv_ok iv_seq \<longleftrightarrow> length iv_seq = 4 \<and> (\<forall>k < 4. iv_ctr k iv_seq < 2 ^ 47)"

lemma bcast_check_eq:
  assumes "iv_ok iv_seq" "ccmp_frame f"
  defines "k \<equiv> frame_keyid f"
  shows "bcast_check iv_seq f =
    (if iv_ctr k iv_seq = 0 \<or> iv_ctr k iv_seq < frame_pn f
     then (True, iv_seq[k := map (\<lambda>i. ucast (drop_bit (8 * i) (CCMPH_2_PN (ccmp_hdr f)))) [0..<8]])
     else (False, iv_seq))"
proof -
  have k: "k < 4" using keyid_less by (simp add: k_def frame_keyid_def)
  have hdr: "get_sub (ra_data f) (unat (ra_hdrlen f)) 8 = Some (take 8 (drop (unat (ra_hdrlen f)) (ra_data f)))"
    using assms(2) by (simp add: ccmp_frame_def get_sub_def)
  have old: "rd iv_seq k = Some (iv_seq ! k)" using assms(1) k by (simp add: iv_ok_def rd_def)
  let ?c = "le_val (iv_seq ! k)" and ?p = "CCMPH_2_PN (ccmp_hdr f)"
  have s: "unat ?c < 2 ^ 47" "unat ?p < 2 ^ 47"
    using assms(1,2) k by (auto simp: iv_ok_def iv_ctr_def ccmp_frame_def frame_pn_def)
  have v: "VALID_PN_CHK ?p (?c AND 0x0000ffffffffffff) \<longleftrightarrow> iv_ctr k iv_seq = 0 \<or> iv_ctr k iv_seq < frame_pn f"
    unfolding VALID_PN_CHK_def take_bit_small [OF s(1)] PN_LESS_small [OF s]
    by (simp add: iv_ctr_def frame_pn_def word_less_nat_alt unat_eq_0)
  have kk: "unat (CCMPH_2_KEYID (ccmp_hdr f)) = k" by (simp add: k_def frame_keyid_def)
  show ?thesis
    using assms(2) v unfolding bcast_check_def recv_bcast_pn_decache_def hdr Option.bind.bind_lunit Let_def
      ccmp_hdr_def [symmetric] unfolding kk old Option.bind.bind_lunit
    by (auto simp: ccmp_frame_def simp del: upt_Suc)
qed

interpretation group_key: replay_guard iv_ok ccmp_frame bcast_check "\<lambda>f. frame_keyid f = k" "iv_ctr k" frame_pn for k
proof
  fix iv_seq f assume a: "iv_ok iv_seq" "ccmp_frame f"
  let ?new = "map (\<lambda>i. ucast (drop_bit (8 * i) (CCMPH_2_PN (ccmp_hdr f)))) [0..<8] :: bytes"
  have n: "unat (le_val ?new) = frame_pn f" unfolding le_val_bytes by (simp add: frame_pn_def)
  have kl: "frame_keyid f < 4" using keyid_less by (simp add: frame_keyid_def)
  have p: "frame_pn f < 2 ^ 47" using a(2) by (simp add: ccmp_frame_def)
  have ctr: "iv_ctr j (iv_seq[frame_keyid f := ?new]) = (if j = frame_keyid f then frame_pn f else iv_ctr j iv_seq)"
    for j using a(1) kl n by (auto simp: iv_ctr_def iv_ok_def nth_list_update simp del: upt_Suc)
  show "iv_ok (snd (bcast_check iv_seq f))"
    using a(1) p ctr unfolding bcast_check_eq [OF a] by (auto simp: iv_ok_def simp del: upt_Suc)
  show "iv_ctr k (snd (bcast_check iv_seq f)) =
      (if frame_keyid f = k \<and> fst (bcast_check iv_seq f) then frame_pn f else iv_ctr k iv_seq)"
    using ctr [of k] unfolding bcast_check_eq [OF a] by (auto simp del: upt_Suc)
  assume "frame_keyid f = k"
  then show "fst (bcast_check iv_seq f) \<longleftrightarrow> iv_ctr k iv_seq = 0 \<or> iv_ctr k iv_seq < frame_pn f"
    unfolding bcast_check_eq [OF a] by (auto simp del: upt_Suc)
qed

text \<open>The check compares modulo \<open>2^48\<close>: above \<open>2^47\<close> a small number follows a large one, and the number 0,
  which stands for "none yet", is followed by every number, itself included.\<close>

lemma pn_check_wraps:
  "VALID_PN_CHK 5 0x80000000000A" "VALID_PN_CHK 0 0xffffffffffff" "VALID_PN_CHK pn 0"
  by (simp_all add: VALID_PN_CHK_def PN_LESS_CHK_def)

text \<open>A station accepts a group frame with number 0 again and again.\<close>

lemma pn_zero_repeats:
  assumes "ccmp_frame f" "frame_pn f = 0" "iv_ok iv_seq" "iv_ctr (frame_keyid f) iv_seq = 0"
  shows "fst (bcast_check iv_seq f) \<and> iv_ctr (frame_keyid f) (snd (bcast_check iv_seq f)) = 0"
  using group_key.guard_mine [OF assms(3,1) refl] group_key.guard_ctr [OF assms(3,1), of "frame_keyid f"] assms(2,4)
  by simp

section \<open>Properties\<close>

text \<open>C22: In a station, over any sequence of CCMP group frames with packet numbers between 1 and
  \<open>2^47 - 1\<close>, the packet numbers accepted under one key id increase strictly and start above the stored
  one, and a frame that was accepted is refused when it is received again: group frames are not
  replayed.\<close>

theorem bcast_replay_protection:
  assumes "iv_ok iv_seq" "\<forall>f \<in> set fs. ccmp_frame f \<and> 0 < frame_pn f"
  shows "sorted_wrt (<) (iv_ctr k iv_seq # map frame_pn (filter (\<lambda>f. frame_keyid f = k) (accepted bcast_check iv_seq fs)))
    \<and> (\<forall>f \<in> set fs. fst (bcast_check iv_seq f) \<longrightarrow> \<not> fst (bcast_check (snd (bcast_check iv_seq f)) f))"
  using group_key.accepted_increasing [OF assms] group_key.no_replay [OF assms(1)] assms(2) by auto

text \<open>A frame with a given key id and packet number, eight header bytes at offset 0.\<close>

definition demo_group_frame :: "u8 \<Rightarrow> rx_attrib" where
  "demo_group_frame pn0 = \<lparr>encrypt_aes = True, ra_hdrlen = 0, ra_priority = 0, ra_qos = False, ra_addr = [0xff, 0xff, 0xff, 0xff, 0xff, 0xff],
     ra_seq_num = 0, ra_frag_num = 0, ra_data = [pn0, 0, 0, 0x60, 0, 0, 0, 0]\<rparr>"

lemma demo_group_pn: "frame_pn (demo_group_frame 5) = 5" "frame_pn (demo_group_frame 9) = 9"
  by (simp_all add: frame_pn_def ccmp_hdr_def demo_group_frame_def CCMPH_2_PN_def)

theorem bcast_replay_protection_witness:
  "sorted_wrt (<) (0 # map frame_pn (filter (\<lambda>f. frame_keyid f = 1)
     (accepted bcast_check (replicate 4 (replicate 8 0)) [demo_group_frame 5, demo_group_frame 9, demo_group_frame 5])))"
proof -
  have z: "le_val (replicate 8 0) = 0" by (simp add: numeral_eq_Suc)
  have ok: "iv_ok (replicate 4 (replicate 8 0))" by (simp add: iv_ok_def iv_ctr_def z)
  have c: "iv_ctr 1 (replicate 4 (replicate 8 0)) = 0" by (simp add: iv_ctr_def z)
  have "\<forall>f \<in> set [demo_group_frame 5, demo_group_frame 9, demo_group_frame 5]. ccmp_frame f \<and> 0 < frame_pn f"
    using demo_group_pn by (auto simp: ccmp_frame_def) (auto simp: demo_group_frame_def)
  from bcast_replay_protection [OF ok this, of 1] c show ?thesis by simp
qed

text \<open>For a CCMP unicast frame that holds its header and a TID below 16, \<open>recv_ucast_pn_decache\<close>
  always reports success: a packet number that does not advance the stored one is not refused here, it
  only leaves the stored header as it was.\<close>

theorem ucast_pn_never_refused:
  assumes "unat (ra_priority f) < 16" "encrypt_aes f" "unat (ra_hdrlen f) + 8 \<le> length (ra_data f)" "length (rx_iv c) = 16"
  shows "\<exists>c'. recv_ucast_pn_decache f c = Some (RTW_SUCCESS, c')
    \<and> (c' \<noteq> c \<longrightarrow> VALID_PN_CHK (CCMPH_2_PN (ccmp_hdr f)) (CCMPH_2_PN (le_val (rx_iv c ! unat (ra_priority f)))))"
  using assms by (auto simp: recv_ucast_pn_decache_def Let_def get_sub_def rd_def ccmp_hdr_def)

theorem ucast_pn_never_refused_witness:
  "\<exists>c'. recv_ucast_pn_decache (demo_group_frame 5) \<lparr>tid_rxseq = replicate 16 0, rx_iv = replicate 16 [9, 0, 0, 0x20, 0, 0, 0, 0], last_tid = 0\<rparr>
     = Some (RTW_SUCCESS, c')"
  using ucast_pn_never_refused [of "demo_group_frame 5"
      "\<lparr>tid_rxseq = replicate 16 0, rx_iv = replicate 16 [9, 0, 0, 0x20, 0, 0, 0, 0], last_tid = 0\<rparr>"]
  by (auto simp: demo_group_frame_def)

text \<open>The class of a frame for duplicate detection, and the last sequence control seen in it.\<close>

definition rx_slot :: "rx_attrib \<Rightarrow> bool \<times> bool \<times> nat" where
  "rx_slot f = (ra_qos f, IS_MCAST (ra_addr f), if ra_qos f then unat (ra_priority f) else 0)"

definition last_seq :: "rx_attrib \<Rightarrow> sta_recv_priv \<Rightarrow> u16" where
  "last_seq f p = (if ra_qos f
     then (if IS_MCAST (ra_addr f) then bmc_tid_rxseq p else tid_rxseq (rxcache p)) ! unat (ra_priority f)
     else if IS_MCAST (ra_addr f) then nonqos_bmc_rxseq p else nonqos_rxseq p)"

text \<open>For a TID below 16, \<open>recv_decache\<close> refuses a frame exactly when its sequence control is the
  last one seen in its class (QoS or not, group or unicast, TID); afterwards it is the last one of that
  class, so an immediate repetition is refused, and no other class has changed.\<close>

theorem recv_decache_classes:
  assumes "unat (ra_priority f) < 16" "length (bmc_tid_rxseq p) = 16" "length (tid_rxseq (rxcache p)) = 16"
  shows "\<exists>p'. recv_decache f p = Some (if last_seq f p = rx_seq_ctrl f then RTW_FAIL else RTW_SUCCESS, p')
    \<and> last_seq f p' = rx_seq_ctrl f \<and> (\<forall>g. rx_slot g \<noteq> rx_slot f \<longrightarrow> last_seq g p' = last_seq g p)"
proof (cases "last_seq f p = rx_seq_ctrl f")
  case True
  then show ?thesis using assms
    by (cases "ra_qos f"; cases "IS_MCAST (ra_addr f)")
      (simp_all add: recv_decache_def last_seq_def rd_def Let_def)
next
  case False
  then show ?thesis using assms
    by (cases "ra_qos f"; cases "IS_MCAST (ra_addr f)")
      (simp_all add: recv_decache_def last_seq_def rd_def Let_def rx_slot_def nth_list_update)
qed

theorem recv_decache_classes_witness:
  "\<exists>p'. recv_decache (demo_group_frame 5) \<lparr>rxcache = \<lparr>tid_rxseq = replicate 16 0xffff, rx_iv = [], last_tid = 0\<rparr>,
      bmc_tid_rxseq = replicate 16 0xffff, nonqos_rxseq = 0xffff, nonqos_bmc_rxseq = 0xffff, duplicate_cnt = 0\<rparr> = Some (RTW_SUCCESS, p')"
  using recv_decache_classes [of "demo_group_frame 5" "\<lparr>rxcache = \<lparr>tid_rxseq = replicate 16 0xffff, rx_iv = [], last_tid = 0\<rparr>,
      bmc_tid_rxseq = replicate 16 0xffff, nonqos_rxseq = 0xffff, nonqos_bmc_rxseq = 0xffff, duplicate_cnt = 0\<rparr>"]
  by (auto simp: demo_group_frame_def last_seq_def rx_seq_ctrl_def IS_MCAST_def)

end
