(* ===== verification/Tlv.thy ===== *)
theory Tlv
  imports Prelude
begin

text \<open>
  The walk over a series of type-length-value elements that core/rtw_ieee80211.c repeats for
  information elements, WPS, P2P and WFD attributes. What one turn of a loop does with the element at
  an offset is a verdict; \<open>tlv_walk\<close> is the loop. Its value is \<open>None\<close> when the loop does not end.

  The locale \<open>tlv_format\<close> is the contract of an element format: an encoder, and a verdict function that
  recognises an encoded element at its offset. Inside it, walking an encoded list is proved to find the
  first matching element, always to end, and never to leave the buffer.
\<close>

datatype verdict = Hit nat | Skip nat | Stop | Bad

datatype walk_res = Found nat nat | NotFound | OutOfBounds

partial_function (option) tlv_walk :: "(nat \<Rightarrow> verdict) \<Rightarrow> nat \<Rightarrow> walk_res option" where
  "tlv_walk turn off = (case turn off of
      Hit n \<Rightarrow> Some (Found off n)
    | Skip n \<Rightarrow> tlv_walk turn (off + n)
    | Stop \<Rightarrow> Some NotFound
    | Bad \<Rightarrow> Some OutOfBounds)"

lemma tlv_walk_Hit: "turn off = Hit n \<Longrightarrow> tlv_walk turn off = Some (Found off n)"
  by (subst tlv_walk.simps) simp

lemma tlv_walk_Skip: "turn off = Skip n \<Longrightarrow> tlv_walk turn off = tlv_walk turn (off + n)"
  by (subst tlv_walk.simps) simp

lemma tlv_walk_Stop: "turn off = Stop \<Longrightarrow> tlv_walk turn off = Some NotFound"
  by (subst tlv_walk.simps) simp

lemma tlv_walk_Bad: "turn off = Bad \<Longrightarrow> tlv_walk turn off = Some OutOfBounds"
  by (subst tlv_walk.simps) simp

lemmas tlv_walk_turns = tlv_walk_Hit tlv_walk_Skip tlv_walk_Stop tlv_walk_Bad

text \<open>An element of size zero that does not match is looked at forever.\<close>

lemma tlv_walk_diverges:
  assumes "turn off = Skip 0"
  shows "tlv_walk turn off = None"
proof -
  have "\<not> (t = turn \<and> n = off)" if "tlv_walk t n = Some r" for t n r
  proof (rule tlv_walk.raw_induct [OF _ that])
    fix walk t n r
    assume IH: "\<And>t n r. walk t n = Some r \<Longrightarrow> \<not> (t = turn \<and> n = off)"
      and step: "(case t n of Hit m \<Rightarrow> Some (Found n m) | Skip m \<Rightarrow> walk t (n + m) | Stop \<Rightarrow> Some NotFound
        | Bad \<Rightarrow> Some OutOfBounds) = Some r"
    show "\<not> (t = turn \<and> n = off)"
    proof
      assume e: "t = turn \<and> n = off"
      then have "walk turn off = Some r" using step assms by simp
      then show False using IH by blast
    qed
  qed
  then show ?thesis by (cases "tlv_walk turn off") auto
qed

lemma tlv_walk_first:
  assumes "tlv_walk turn off = Some (Found off' n)"
  shows "off \<le> off' \<and> turn off' = Hit n"
proof -
  have "\<forall>o' n. r = Found o' n \<longrightarrow> m \<le> o' \<and> t o' = Hit n" if "tlv_walk t m = Some r" for t m r
  proof (rule tlv_walk.raw_induct [OF _ that])
    fix walk t m r
    assume IH: "\<And>t m r. walk t m = Some r \<Longrightarrow> \<forall>o' n. r = Found o' n \<longrightarrow> m \<le> o' \<and> t o' = Hit n"
      and step: "(case t m of Hit n \<Rightarrow> Some (Found m n) | Skip n \<Rightarrow> walk t (m + n) | Stop \<Rightarrow> Some NotFound
        | Bad \<Rightarrow> Some OutOfBounds) = Some r"
    show "\<forall>o' n. r = Found o' n \<longrightarrow> m \<le> o' \<and> t o' = Hit n"
    proof (cases "t m")
      case (Skip k)
      then have "walk t (m + k) = Some r" using step by simp
      from IH [OF this] show ?thesis by auto
    qed (use step in auto)
  qed
  then show ?thesis using assms by blast
qed

text \<open>A walk whose every skip moves forward, that stops at a limit and never leaves the buffer, ends with a match
  or with none.\<close>

lemma tlv_walk_total:
  assumes "\<And>o' n. off \<le> o' \<Longrightarrow> turn o' = Skip n \<Longrightarrow> 0 < n" "\<And>o'. limit \<le> o' \<Longrightarrow> turn o' = Stop"
    "\<And>o'. off \<le> o' \<Longrightarrow> turn o' \<noteq> Bad"
  shows "tlv_walk turn off = Some NotFound \<or> (\<exists>o' n. tlv_walk turn off = Some (Found o' n) \<and> off \<le> o' \<and> turn o' = Hit n)"
  using assms
proof (induction "limit - off" arbitrary: off rule: less_induct)
  case less
  show ?case
  proof (cases "turn off")
    case (Skip n)
    then have "0 < n" "off < limit" using less.prems(1) [of off n] less.prems(2) [of off] by (auto intro: leI)
    then have "tlv_walk turn (off + n) = Some NotFound \<or>
        (\<exists>o' n'. tlv_walk turn (off + n) = Some (Found o' n') \<and> off + n \<le> o' \<and> turn o' = Hit n')"
    proof (intro less.hyps)
      show "0 < n'" if "off + n \<le> o'" "turn o' = Skip n'" for o' n' using less.prems(1) [of o' n'] that by simp
      show "turn o' = Stop" if "limit \<le> o'" for o' using less.prems(2) that .
      show "turn o' \<noteq> Bad" if "off + n \<le> o'" for o' using less.prems(3) [of o'] that by simp
    qed (use \<open>0 < n\<close> \<open>off < limit\<close> in simp)
    then show ?thesis using Skip by (auto simp: tlv_walk_Skip)
  next
    case Bad
    then show ?thesis using less.prems(3) [of off] by simp
  qed (simp_all add: tlv_walk_turns)
qed

section \<open>Element formats\<close>

text \<open>The offset of the first element that satisfies a predicate.\<close>

fun find_elem :: "('e \<Rightarrow> bytes) \<Rightarrow> ('e \<Rightarrow> bool) \<Rightarrow> 'e list \<Rightarrow> (nat \<times> 'e) option" where
  "find_elem enc P [] = None"
| "find_elem enc P (e # es) =
     (if P e then Some (0, e) else map_option (\<lambda>(o', f). (o' + length (enc e), f)) (find_elem enc P es))"

definition enc_list :: "('e \<Rightarrow> bytes) \<Rightarrow> 'e list \<Rightarrow> bytes" where
  "enc_list enc es = concat (map enc es)"

lemma enc_list_simps [simp]: "enc_list enc [] = []" "enc_list enc (e # es) = enc e @ enc_list enc es"
  "enc_list enc (es @ fs) = enc_list enc es @ enc_list enc fs"
  by (simp_all add: enc_list_def)

lemma find_elem_None: "find_elem enc P es = None \<longleftrightarrow> list_all (\<lambda>x. \<not> P x) es"
  by (induction es) auto

lemma find_elem_small: "k \<in> set es \<Longrightarrow> length (enc k) \<le> length (enc_list enc es)"
  by (induction es) auto

lemma enc_list_filter_le: "length (enc_list enc (filter P es)) \<le> length (enc_list enc es)"
  by (induction es) auto

text \<open>\<open>wf P\<close>: the elements a search for \<open>P\<close> can tell apart; \<open>report\<close>: what the code reports of a match; \<open>turn buf
  limit P\<close>: one turn of a loop that looks for \<open>P\<close> below \<open>limit\<close>; \<open>least\<close>: the bytes that must be left for the
  loop to go on; \<open>ok\<close>: the limits the loop accepts.\<close>

locale tlv_format =
  fixes enc :: "'e \<Rightarrow> bytes" and wf :: "'p \<Rightarrow> 'e \<Rightarrow> bool" and report :: "'e \<Rightarrow> nat"
    and turn :: "bytes \<Rightarrow> nat \<Rightarrow> 'p \<Rightarrow> nat \<Rightarrow> verdict" and holds :: "'p \<Rightarrow> 'e \<Rightarrow> bool"
    and least :: nat and ok :: "nat \<Rightarrow> bool"
  assumes turn_elem: "wf P e \<Longrightarrow> ok limit \<Longrightarrow> least \<le> limit - length p \<Longrightarrow> length p + length (enc e) \<le> limit \<Longrightarrow>
      turn (p @ enc e @ q) limit P (length p) = (if holds P e then Hit (report e) else Skip (length (enc e)))"
    and turn_end: "ok limit \<Longrightarrow> limit - off < least \<Longrightarrow> turn buf limit P off = Stop"
    and holds_least: "wf P e \<Longrightarrow> holds P e \<Longrightarrow> least \<le> length (enc e)"
    and least_pos: "0 < least"
begin

lemma walk_encoded:
  assumes "list_all (wf P) es" "ok (length p + length (enc_list enc es))"
  shows "tlv_walk (turn (p @ enc_list enc es @ q) (length p + length (enc_list enc es)) P) (length p) =
    Some (case find_elem enc (holds P) es of None \<Rightarrow> NotFound | Some (k, e) \<Rightarrow> Found (length p + k) (report e))"
  using assms
proof (induction es arbitrary: p)
  case Nil
  then show ?case using least_pos by (simp add: tlv_walk_Stop turn_end)
next
  case (Cons e es)
  let ?l = "length p + length (enc_list enc (e # es))"
  let ?t = "turn (p @ enc_list enc (e # es) @ q) ?l P"
  show ?case
  proof (cases "least \<le> ?l - length p")
    case False
    have "\<not> holds P x" if "x \<in> set (e # es)" for x
      using find_elem_small [OF that, of enc] holds_least [of P x] Cons.prems(1) that False by (auto simp: list_all_iff)
    then have "find_elem enc (holds P) (e # es) = None" unfolding find_elem_None by (simp add: list_all_iff)
    then show ?thesis using turn_end [OF Cons.prems(2), of "length p"] False by (simp add: tlv_walk_Stop)
  next
    case True
    have t: "?t (length p) = (if holds P e then Hit (report e) else Skip (length (enc e)))"
      using turn_elem [of P e ?l p "enc_list enc es @ q"] Cons.prems True by simp
    show ?thesis
    proof (cases "holds P e")
      case True
      then show ?thesis using t by (simp add: tlv_walk_Hit)
    next
      case False
      have "tlv_walk ?t (length p) = tlv_walk ?t (length (p @ enc e))"
        using t False by (simp add: tlv_walk_Skip)
      also have "\<dots> = Some (case find_elem enc (holds P) es of None \<Rightarrow> NotFound
          | Some (k, e') \<Rightarrow> Found (length (p @ enc e) + k) (report e'))"
        using Cons.IH [of "p @ enc e"] Cons.prems by (simp add: add.assoc)
      finally show ?thesis using False by (auto split: option.splits simp: add_ac)
    qed
  qed
qed

lemma walk_skips:
  assumes "list_all (\<lambda>e. wf P e \<and> \<not> holds P e) es" "ok limit" "length p + length (enc_list enc es) + least \<le> limit"
  shows "tlv_walk (turn (p @ enc_list enc es @ q) limit P) (length p) =
    tlv_walk (turn (p @ enc_list enc es @ q) limit P) (length p + length (enc_list enc es))"
  using assms
proof (induction es arbitrary: p)
  case (Cons e es)
  have "turn (p @ enc_list enc (e # es) @ q) limit P (length p) = Skip (length (enc e))"
    using turn_elem [of P e limit p "enc_list enc es @ q"] Cons.prems by simp
  then show ?case using Cons.IH [of "p @ enc e"] Cons.prems by (simp add: tlv_walk_Skip add.assoc)
qed simp

end

lemma find_elem_split:
  "P e \<Longrightarrow> list_all (\<lambda>x. \<not> P x) xs \<Longrightarrow> find_elem enc P (xs @ e # ys) = Some (length (enc_list enc xs), e)"
  by (induction xs) auto

lemma find_elem_SomeE:
  assumes "find_elem enc P es = Some (k, e)"
  obtains xs ys where "es = xs @ e # ys" "P e" "list_all (\<lambda>x. \<not> P x) xs" "k = length (enc_list enc xs)"
  using assms
proof (induction es arbitrary: k thesis)
  case (Cons x es)
  show ?case
  proof (cases "P x")
    case True
    then show ?thesis using Cons.prems(1) [of "[]" es] Cons.prems(2) by simp
  next
    case False
    then obtain k' where "find_elem enc P es = Some (k', e)" "k = k' + length (enc x)"
      using Cons.prems(2) by auto
    then obtain xs ys where "es = xs @ e # ys" "P e" "list_all (\<lambda>x. \<not> P x) xs" "k' = length (enc_list enc xs)"
      using Cons.IH by blast
    then show ?thesis using Cons.prems(1) [of "x # xs" ys] False \<open>k = k' + length (enc x)\<close> by simp
  qed
qed simp

end
