(* ===== verification/Ie.thy ===== *)
theory Ie
  imports Tlv
begin

text \<open>
  The searches over a series of information elements of core/rtw_ieee80211.c: an element is an id
  byte, a length byte and that many bytes. A pointer into a buffer is an offset; the buffer is the memory
  the pointer owns, and the limit passed beside it may be smaller or larger than that memory. Reading
  outside the memory is undefined behaviour (\<open>None\<close>).
\<close>

section \<open>Information elements\<close>

datatype ie = IE (ie_id: u8) (ie_data: bytes)

definition enc_ie :: "ie \<Rightarrow> bytes" where
  "enc_ie e = ie_id e # word_of_nat (length (ie_data e)) # ie_data e"

definition wf_ie :: "ie \<Rightarrow> bool" where
  "wf_ie e \<longleftrightarrow> length (ie_data e) < 256"

lemma length_enc_ie [simp]: "length (enc_ie e) = length (ie_data e) + 2"
  by (simp add: enc_ie_def)

lemma enc_ie_nth [simp]: "enc_ie e ! 0 = ie_id e" "wf_ie e \<Longrightarrow> unat (enc_ie e ! Suc 0) = length (ie_data e)"
  by (simp_all add: enc_ie_def wf_ie_def unat_of_nat)

lemma rd_append_right: "rd (p @ q) (length p + i) = rd q i"
  by (simp add: rd_def nth_append)

lemma rd_append_left: "i < length p \<Longrightarrow> rd (p @ q) i = rd p i"
  by (simp add: rd_def nth_append)

lemma get_sub_append_right: "get_sub (p @ q) (length p + i) n = get_sub q i n"
  by (simp add: get_sub_def)

lemma get_sub_append_left: "i + n \<le> length p \<Longrightarrow> get_sub (p @ q) i n = get_sub p i n"
  by (simp add: get_sub_def)

lemma rd_enc_ie [simp]:
  "rd (enc_ie e @ q) 0 = Some (ie_id e)"
  "rd (enc_ie e @ q) (Suc 0) = Some (word_of_nat (length (ie_data e)))"
  by (simp_all add: rd_def enc_ie_def)

lemma get_sub_enc_ie: "n \<le> length (ie_data e) \<Longrightarrow> get_sub (enc_ie e @ q) 2 n = Some (take n (ie_data e))"
  by (simp add: get_sub_def enc_ie_def numeral_2_eq_2)

text \<open>What a search returns to its caller: \<open>None\<close> is undefined behaviour or a loop without end,
  \<open>Some None\<close> the null pointer, \<open>Some (Some (off, n))\<close> a match.\<close>

type_synonym ptr_len = "(nat \<times> nat) option"

fun walk_ptr :: "walk_res option \<Rightarrow> ptr_len option" where
  "walk_ptr (Some (Found off n)) = Some (Some (off, n))"
| "walk_ptr (Some NotFound) = Some None"
| "walk_ptr _ = None"

lemma walk_ptr_total:
  assumes "\<And>o' n. off \<le> o' \<Longrightarrow> turn o' = Skip n \<Longrightarrow> 0 < n" "\<And>o'. limit \<le> o' \<Longrightarrow> turn o' = Stop"
    "\<And>o'. off \<le> o' \<Longrightarrow> turn o' \<noteq> Bad"
  obtains "walk_ptr (tlv_walk turn off) = Some None"
  | o' n where "walk_ptr (tlv_walk turn off) = Some (Some (o', n))" "off \<le> o'" "turn o' = Hit n"
proof -
  from tlv_walk_total [of off turn limit] assms
  have "tlv_walk turn off = Some NotFound \<or> (\<exists>o' n. tlv_walk turn off = Some (Found o' n) \<and> off \<le> o' \<and> turn o' = Hit n)"
    by blast
  then show thesis using that by auto
qed

definition ie_match :: "u8 \<Rightarrow> bytes option \<Rightarrow> ie \<Rightarrow> bool" where
  "ie_match eid oui e \<longleftrightarrow> ie_id e = eid \<and> (\<forall>x. oui = Some x \<longrightarrow> take (length x) (ie_data e) = x)"

lemma ie_match_code [code, simp]:
  "ie_match eid None e = (ie_id e = eid)"
  "ie_match eid (Some x) e = (ie_id e = eid \<and> take (length x) (ie_data e) = x)"
  by (simp_all add: ie_match_def)

section \<open>rtw\_get\_ie\<close>

definition get_ie_turn :: "bytes \<Rightarrow> nat \<Rightarrow> u8 \<Rightarrow> nat \<Rightarrow> verdict" where
  "get_ie_turn pbuf limit index i =
     (if limit \<le> i then Stop
      else case (rd pbuf i, rd pbuf (i + 1)) of
        (Some p, Some len) \<Rightarrow> if p = index then Hit (unat len) else Skip (unat len + 2)
      | _ \<Rightarrow> Bad)"

definition rtw_get_ie :: "bytes \<Rightarrow> u8 \<Rightarrow> int \<Rightarrow> ptr_len option" where
  "rtw_get_ie pbuf index limit =
     (if limit < 1 then Some None else walk_ptr (tlv_walk (get_ie_turn pbuf (nat limit) index) 0))"

interpretation get_ie: tlv_format enc_ie "\<lambda>_. wf_ie" "\<lambda>e. length (ie_data e)" get_ie_turn "\<lambda>index e. ie_id e = index"
  1 "\<lambda>_. True"
proof unfold_locales
  fix P e and p q :: bytes and limit
  assume "wf_ie e" "length p + length (enc_ie e) \<le> limit"
  then show "get_ie_turn (p @ enc_ie e @ q) limit P (length p) =
    (if ie_id e = P then Hit (length (ie_data e)) else Skip (length (enc_ie e)))"
    using rd_append_right [of p "enc_ie e @ q" 0] rd_append_right [of p "enc_ie e @ q" 1]
    by (simp add: get_ie_turn_def wf_ie_def unat_of_nat)
qed (simp_all add: get_ie_turn_def)

lemma rtw_get_ie_encoded:
  assumes "list_all wf_ie es"
  shows "rtw_get_ie (enc_list enc_ie es @ q) index (int (length (enc_list enc_ie es))) =
    Some (map_option (\<lambda>(k, e). (k, length (ie_data e))) (find_elem enc_ie (\<lambda>e. ie_id e = index) es))"
proof (cases "es = []")
  case True
  then show ?thesis by (simp add: rtw_get_ie_def)
next
  case False
  then have "0 < length (enc_list enc_ie es)" by (cases es) auto
  then show ?thesis using get_ie.walk_encoded [of es "[]" q index] assms
    by (auto simp: rtw_get_ie_def split: option.splits)
qed

section \<open>rtw\_get\_ie\_ex\<close>

definition oui_test :: "bytes \<Rightarrow> nat \<Rightarrow> bytes option \<Rightarrow> bool option" where
  "oui_test in_ie off oui = (case oui of None \<Rightarrow> Some True
     | Some x \<Rightarrow> map_option (\<lambda>y. y = x) (get_sub in_ie off (length x)))"

definition get_ie_ex_turn :: "bytes \<Rightarrow> nat \<Rightarrow> u8 \<times> bytes option \<Rightarrow> nat \<Rightarrow> verdict" where
  "get_ie_ex_turn in_ie in_len key cnt =
     (if in_len \<le> cnt then Stop
      else case rd in_ie cnt of None \<Rightarrow> Bad
      | Some v \<Rightarrow> (case (if fst key = v then oui_test in_ie (cnt + 2) (snd key) else Some False) of None \<Rightarrow> Bad
        | Some found \<Rightarrow> (case rd in_ie (cnt + 1) of None \<Rightarrow> Bad
          | Some len \<Rightarrow> if found then Hit (unat len + 2) else Skip (unat len + 2))))"

definition rtw_get_ie_ex :: "bytes \<Rightarrow> nat \<Rightarrow> u8 \<Rightarrow> bytes option \<Rightarrow> ptr_len option" where
  "rtw_get_ie_ex in_ie in_len eid oui =
     (if in_len = 0 then Some None else walk_ptr (tlv_walk (get_ie_ex_turn in_ie in_len (eid, oui)) 0))"

text \<open>The copy of the element that the callers of the family ask for: \<open>dst\<close> is the buffer behind the pointer
  argument. With a null pointer there is no copy.\<close>

definition copy_ie :: "bytes \<Rightarrow> ptr_len \<Rightarrow> bytes \<Rightarrow> bytes option" where
  "copy_ie src res dst = (case res of None \<Rightarrow> Some dst
     | Some (off, n) \<Rightarrow> Option.bind (get_sub src off n) (put_sub dst 0))"

text \<open>The organisation id is compared before the length of the element is looked at, so an element of the
  sought id that is shorter than the organisation id would be compared with the bytes behind it.\<close>

definition oui_fits :: "u8 \<times> bytes option \<Rightarrow> ie \<Rightarrow> bool" where
  "oui_fits key e \<longleftrightarrow> wf_ie e \<and> (ie_id e = fst key \<longrightarrow> (case snd key of None \<Rightarrow> True | Some x \<Rightarrow> length x \<le> length (ie_data e)))"

interpretation get_ie_ex: tlv_format enc_ie oui_fits "\<lambda>e. length (ie_data e) + 2" get_ie_ex_turn
  "\<lambda>key. ie_match (fst key) (snd key)" 1 "\<lambda>_. True"
proof unfold_locales
  fix P e and p q :: bytes and limit
  assume wf: "oui_fits P e" and len: "length p + length (enc_ie e) \<le> limit"
  have t: "oui_test (p @ enc_ie e @ q) (length p + 2) (snd P) = Some (ie_match (fst P) (snd P) e)" if "ie_id e = fst P"
    using that wf get_sub_append_right [of p "enc_ie e @ q" 2]
    by (auto simp: oui_test_def oui_fits_def get_sub_enc_ie split: option.splits)
  have m: "ie_match (fst P) (snd P) e \<Longrightarrow> ie_id e = fst P" by (simp add: ie_match_def)
  show "get_ie_ex_turn (p @ enc_ie e @ q) limit P (length p) =
    (if ie_match (fst P) (snd P) e then Hit (length (ie_data e) + 2) else Skip (length (enc_ie e)))"
    using rd_append_right [of p "enc_ie e @ q" 0] rd_append_right [of p "enc_ie e @ q" 1] t m wf len
    by (auto simp: get_ie_ex_turn_def oui_fits_def wf_ie_def unat_of_nat)
qed (simp_all add: get_ie_ex_turn_def)

lemma rtw_get_ie_ex_encoded:
  assumes "list_all (oui_fits (eid, oui)) es"
  shows "rtw_get_ie_ex (enc_list enc_ie es @ q) (length (enc_list enc_ie es)) eid oui =
    Some (map_option (\<lambda>(k, e). (k, length (ie_data e) + 2)) (find_elem enc_ie (ie_match eid oui) es))"
proof (cases "es = []")
  case True
  then show ?thesis by (simp add: rtw_get_ie_ex_def)
next
  case False
  then have "0 < length (enc_list enc_ie es)" by (cases es) auto
  then show ?thesis using get_ie_ex.walk_encoded [of "(eid, oui)" es "[]" q] assms
    by (auto simp: rtw_get_ie_ex_def split: option.splits)
qed

text \<open>C36: On every input, well formed or not, rtw_get_ie ends. It needs one byte more than the limit
  it is given: with that byte owned by the caller it never reads outside the buffer, and what it returns is
  the first byte below the limit reached by stepping over elements that holds the id, with the length byte
  behind it. The content of the element may still lie beyond the limit.\<close>

theorem get_ie_ends_in_bounds:
  assumes "limit < int (length pbuf)"
  shows "\<exists>r. rtw_get_ie pbuf index limit = Some r
    \<and> (\<forall>off n. r = Some (off, n) \<longrightarrow> int off < limit \<and> pbuf ! off = index \<and> n = unat (pbuf ! (off + 1)))"
proof (cases "limit < 1")
  case True
  then show ?thesis by (simp add: rtw_get_ie_def)
next
  case False
  let ?t = "get_ie_turn pbuf (nat limit) index"
  have in_buf: "o' + 1 < length pbuf" if "o' < nat limit" for o' using assms that by linarith
  have skip: "0 < n" if "?t o' = Skip n" for o' n
    using that by (auto simp: get_ie_turn_def split: if_splits option.splits)
  have stop: "?t o' = Stop" if "nat limit \<le> o'" for o' using that by (simp add: get_ie_turn_def)
  have bad: "?t o' \<noteq> Bad" for o'
    using in_buf [of o'] by (cases "o' < nat limit") (auto simp: get_ie_turn_def rd_def split: if_splits)
  have hit: "int o' < limit \<and> pbuf ! o' = index \<and> n = unat (pbuf ! (o' + 1))" if "?t o' = Hit n" for o' n
    using that by (auto simp: get_ie_turn_def rd_def split: if_splits option.splits)
  show ?thesis
    by (rule walk_ptr_total [of 0 ?t "nat limit"]) (use skip stop bad hit False in \<open>auto simp: rtw_get_ie_def\<close>)
qed

theorem get_ie_ends_in_bounds_witness:
  "\<exists>r. rtw_get_ie [3, 200, 1] 1 2 = Some r \<and> (\<forall>off n. r = Some (off, n) \<longrightarrow> int off < 2)"
  using get_ie_ends_in_bounds [of 2 "[3, 200, 1]" 1] by auto

end
