(* ===== verification/IeEdit.thy ===== *)
theory IeEdit
  imports Ie
begin

text \<open>
  Writing and removing information elements: \<open>rtw_set_ie\<close> and its uses, the channel offsets, and
  \<open>rtw_ies_remove_ie\<close>, proved to be a filter of the list of elements. A buffer is the whole array; \<open>None\<close> is a read or
  write outside of it.
\<close>

section \<open>Writing elements\<close>

definition rtw_set_fixed_ie :: "bytes \<Rightarrow> nat \<Rightarrow> bytes \<Rightarrow> nat \<Rightarrow> nat \<Rightarrow> (bytes \<times> nat \<times> nat) option" where
  "rtw_set_fixed_ie buf pbuf source len frlen = do {
     src \<leftarrow> get_sub source 0 len;
     buf \<leftarrow> put_sub buf pbuf src;
     Some (buf, pbuf + len, frlen + len) }"

text \<open>The length byte is the low byte of \<open>len\<close>, the copy is of all \<open>len\<close> bytes.\<close>

definition rtw_set_ie :: "bytes \<Rightarrow> nat \<Rightarrow> u8 \<Rightarrow> bytes \<Rightarrow> nat \<Rightarrow> nat \<Rightarrow> (bytes \<times> nat \<times> nat) option" where
  "rtw_set_ie buf pbuf index source len frlen = do {
     buf \<leftarrow> put_sub buf pbuf [index, word_of_nat len];
     src \<leftarrow> get_sub source 0 len;
     buf \<leftarrow> put_sub buf (pbuf + 2) src;
     Some (buf, pbuf + len + 2, frlen + (len + 2)) }"

definition rtw_set_ie_ch_switch :: "bytes \<Rightarrow> nat \<Rightarrow> nat \<Rightarrow> u8 \<Rightarrow> u8 \<Rightarrow> u8 \<Rightarrow> (bytes \<times> nat \<times> nat) option" where
  "rtw_set_ie_ch_switch buf pbuf buf_len ch_switch_mode new_ch ch_switch_cnt =
     rtw_set_ie buf pbuf 37 [ch_switch_mode, new_ch, ch_switch_cnt] 3 buf_len"

definition rtw_set_ie_secondary_ch_offset :: "bytes \<Rightarrow> nat \<Rightarrow> nat \<Rightarrow> u8 \<Rightarrow> (bytes \<times> nat \<times> nat) option" where
  "rtw_set_ie_secondary_ch_offset buf pbuf buf_len secondary_ch_offset =
     rtw_set_ie buf pbuf 62 [secondary_ch_offset] 1 buf_len"

definition rtw_set_ie_mesh_ch_switch_parm ::
  "bytes \<Rightarrow> nat \<Rightarrow> nat \<Rightarrow> u8 \<Rightarrow> u8 \<Rightarrow> u16 \<Rightarrow> u16 \<Rightarrow> (bytes \<times> nat \<times> nat) option" where
  "rtw_set_ie_mesh_ch_switch_parm buf pbuf buf_len ttl flags reason precedence =
     rtw_set_ie buf pbuf (ucast (0x118 :: 32 word))
       [ttl, flags, ucast reason, ucast (drop_bit 8 reason), ucast precedence, ucast (drop_bit 8 precedence)] 6 buf_len"

definition secondary_ch_offset_to_hal_ch_offset :: "u8 \<Rightarrow> u8" where
  "secondary_ch_offset_to_hal_ch_offset ch_offset =
     (if ch_offset = 0 then 0 else if ch_offset = 1 then 1 else if ch_offset = 3 then 2 else 0)"

definition hal_ch_offset_to_secondary_ch_offset :: "u8 \<Rightarrow> u8" where
  "hal_ch_offset_to_secondary_ch_offset ch_offset =
     (if ch_offset = 0 then 0 else if ch_offset = 1 then 1 else if ch_offset = 2 then 3 else 0)"

lemma rtw_set_ie_fits:
  assumes "length data < 256" "pbuf + length data + 2 \<le> length buf"
  shows "rtw_set_ie buf pbuf index data (length data) frlen =
    Some (take pbuf buf @ enc_ie (IE index data) @ drop (pbuf + length data + 2) buf,
          pbuf + length data + 2, frlen + length data + 2)"
  using assms by (simp add: rtw_set_ie_def get_sub_def put_sub_def enc_ie_def add_ac min_absorb2)

lemma rtw_set_ie_append:
  assumes "length data < 256" "length data + 2 \<le> length rest"
  shows "rtw_set_ie (p @ rest) (length p) index data (length data) frlen =
    Some (p @ enc_ie (IE index data) @ drop (length data + 2) rest,
          length p + length data + 2, frlen + length data + 2)"
  using assms by (subst rtw_set_ie_fits) (simp_all add: add.assoc)

section \<open>Removing elements\<close>

text \<open>\<open>remain_len\<close> is unsigned: for an element that reaches beyond the search length it is close to
  \<open>2^32\<close> and the move leaves every buffer.\<close>

function remove_loop :: "bytes \<Rightarrow> nat \<Rightarrow> nat \<Rightarrow> nat \<Rightarrow> u8 \<Rightarrow> bytes option \<Rightarrow> bool \<Rightarrow> (bytes \<times> nat \<times> bool) option" where
  "remove_loop ies ies_len start search_len eid oui ret =
     (case rtw_get_ie_ex (drop start ies) search_len eid oui of
        None \<Rightarrow> None
      | Some None \<Rightarrow> Some (ies, ies_len, ret)
      | Some (Some (target_ie, target_ielen)) \<Rightarrow>
          if target_ielen = 0 then Some (ies, ies_len, ret)
          else if search_len < target_ie + target_ielen then None
          else (let remain_len = search_len - (target_ie + target_ielen) in
            case Option.bind (get_sub ies (start + target_ie + target_ielen) remain_len) (put_sub ies (start + target_ie)) of
              None \<Rightarrow> None
            | Some ies' \<Rightarrow> remove_loop ies' (ies_len - target_ielen) (start + target_ie) remain_len eid oui True))"
  by pat_completeness auto
termination by (relation "measure (\<lambda>(_, _, _, search_len, _). search_len)") auto

declare remove_loop.simps [simp del]

definition rtw_ies_remove_ie :: "bytes \<Rightarrow> nat \<Rightarrow> nat \<Rightarrow> u8 \<Rightarrow> bytes option \<Rightarrow> (bytes \<times> nat \<times> bool) option" where
  "rtw_ies_remove_ie ies ies_len offset eid oui =
     (if ies_len \<le> offset then Some (ies, ies_len, False)
      else remove_loop ies ies_len offset (ies_len - offset) eid oui False)"

lemma list_all_filter_id: "list_all P es \<Longrightarrow> filter P es = es"
  by (induction es) auto

lemma remove_loop_encoded:
  assumes "list_all (oui_fits (eid, oui)) es"
  shows "\<exists>junk. remove_loop (p @ enc_list enc_ie es @ q) (length p + length (enc_list enc_ie es)) (length p)
      (length (enc_list enc_ie es)) eid oui ret =
    Some (p @ enc_list enc_ie (filter (\<lambda>e. \<not> ie_match eid oui e) es) @ junk,
          length p + length (enc_list enc_ie (filter (\<lambda>e. \<not> ie_match eid oui e) es)),
          ret \<or> list_ex (ie_match eid oui) es)
    \<and> length junk + length (enc_list enc_ie (filter (\<lambda>e. \<not> ie_match eid oui e) es)) = length (enc_list enc_ie es @ q)"
  using assms
proof (induction "length es" arbitrary: es p q ret rule: less_induct)
  case less
  let ?P = "ie_match eid oui"
  note get = rtw_get_ie_ex_encoded [OF less.prems, of q]
  show ?case
  proof (cases "find_elem enc_ie ?P es")
    case None
    then have "list_all (\<lambda>e. \<not> ?P e) es" by (simp add: find_elem_None)
    then show ?thesis using get None
      by (intro exI [of _ q], subst remove_loop.simps) (auto simp: list_all_filter_id list_all_iff list_ex_iff)
  next
    case (Some r)
    then obtain k e where "find_elem enc_ie ?P es = Some (k, e)" by (cases r) simp
    then obtain xs ys where es: "es = xs @ e # ys" "?P e" "list_all (\<lambda>x. \<not> ?P x) xs" "k = length (enc_list enc_ie xs)"
      by (rule find_elem_SomeE)
    have fit: "list_all (oui_fits (eid, oui)) ys" using less.prems es(1) by simp
    define X where "X = enc_list enc_ie xs"
    define Y where "Y = enc_list enc_ie ys"
    let ?n = "length (ie_data e) + 2"
    let ?q = "drop (length Y) (enc_ie e @ Y @ q)"
    have l: "length (enc_list enc_ie es) = length X + ?n + length Y" by (simp add: es(1) X_def Y_def)
    have move: "get_sub (p @ X @ enc_ie e @ Y @ q) (length p + length X + ?n) (length Y) = Some Y"
      using get_sub_append_right [of "p @ X @ enc_ie e" "Y @ q" 0 "length Y"]
      by (simp add: get_sub_append_left get_sub_def)
    have put: "put_sub (p @ X @ enc_ie e @ Y @ q) (length p + length X) Y = Some ((p @ X) @ Y @ ?q)"
      by (simp add: put_sub_def)
    have step: "remove_loop (p @ enc_list enc_ie es @ q) (length p + length (enc_list enc_ie es)) (length p)
        (length (enc_list enc_ie es)) eid oui ret =
      remove_loop ((p @ X) @ Y @ ?q) (length (p @ X) + length Y) (length (p @ X)) (length Y) eid oui True"
      using get es(4) \<open>find_elem enc_ie ?P es = Some (k, e)\<close> move put
      by (subst remove_loop.simps) (simp add: es(1) X_def [symmetric] Y_def [symmetric] add.assoc Let_def)
    have "length ys < length es" using es(1) by simp
    from less.hyps [OF this fit, of "p @ X" ?q True]
    obtain junk where j: "remove_loop ((p @ X) @ Y @ ?q) (length (p @ X) + length Y) (length (p @ X)) (length Y) eid oui True =
      Some ((p @ X) @ enc_list enc_ie (filter (\<lambda>e. \<not> ?P e) ys) @ junk,
          length (p @ X) + length (enc_list enc_ie (filter (\<lambda>e. \<not> ?P e) ys)), True)"
      "length junk + length (enc_list enc_ie (filter (\<lambda>e. \<not> ?P e) ys)) = length (Y @ ?q)"
      unfolding Y_def by auto
    have fx: "filter (\<lambda>e. \<not> ?P e) xs = xs" using es(3) by (simp add: list_all_filter_id)
    have lq: "length (Y @ ?q) = length Y + (?n + length q)" by (simp add: add_ac)
    show ?thesis unfolding step using j(1) j(2) [unfolded lq] es(2)
      by (intro exI [of _ junk]) (simp add: fx es(1) X_def Y_def)
  qed
qed

lemma rtw_ies_remove_ie_encoded:
  assumes "list_all (oui_fits (eid, oui)) es"
  shows "\<exists>junk. rtw_ies_remove_ie (p @ enc_list enc_ie es @ q) (length (p @ enc_list enc_ie es)) (length p) eid oui =
      Some (p @ enc_list enc_ie (filter (\<lambda>e. \<not> ie_match eid oui e) es) @ junk,
            length (p @ enc_list enc_ie (filter (\<lambda>e. \<not> ie_match eid oui e) es)), list_ex (ie_match eid oui) es)
    \<and> length junk + length (enc_list enc_ie (filter (\<lambda>e. \<not> ie_match eid oui e) es)) = length (enc_list enc_ie es @ q)"
proof (cases "es = []")
  case True
  then show ?thesis by (simp add: rtw_ies_remove_ie_def)
next
  case False
  then have "\<not> length (p @ enc_list enc_ie es) \<le> length p" by (cases es) auto
  then show ?thesis using remove_loop_encoded [OF assms, of p q False] by (auto simp: rtw_ies_remove_ie_def)
qed

text \<open>C39: On a buffer whose elements from the offset on are well formed, rtw_ies_remove_ie never
  leaves the buffer, removes exactly the elements that match the id and the organisation id (every one of
  them), keeps the others in their order and everything in front of the offset, updates the length to that of
  what is left, and reports success exactly when something matched; a search in the result finds nothing.\<close>

theorem remove_ie_filters:
  assumes "list_all (oui_fits (eid, oui)) es"
  shows "\<exists>junk. rtw_ies_remove_ie (p @ enc_list enc_ie es @ q) (length (p @ enc_list enc_ie es)) (length p) eid oui =
      Some (p @ enc_list enc_ie (filter (\<lambda>e. \<not> ie_match eid oui e) es) @ junk,
            length (p @ enc_list enc_ie (filter (\<lambda>e. \<not> ie_match eid oui e) es)), list_ex (ie_match eid oui) es)
    \<and> rtw_get_ie_ex (enc_list enc_ie (filter (\<lambda>e. \<not> ie_match eid oui e) es) @ junk)
        (length (enc_list enc_ie (filter (\<lambda>e. \<not> ie_match eid oui e) es))) eid oui = Some None"
proof -
  let ?fs = "filter (\<lambda>e. \<not> ie_match eid oui e) es"
  have "list_all (oui_fits (eid, oui)) ?fs" using assms by (simp add: list_all_iff)
  moreover have "find_elem enc_ie (ie_match eid oui) ?fs = None" by (simp add: find_elem_None list_all_iff)
  ultimately have "rtw_get_ie_ex (enc_list enc_ie ?fs @ junk) (length (enc_list enc_ie ?fs)) eid oui = Some None" for junk
    by (simp add: rtw_get_ie_ex_encoded)
  then show ?thesis using rtw_ies_remove_ie_encoded [OF assms, of p q] by blast
qed

definition vendor_list :: "ie list" where
  "vendor_list = [IE 0 [0x61, 0x62], IE 221 [0, 0x50, 0xf2, 4, 9], IE 1 [2], IE 221 [0, 0x50, 0xf2, 1], IE 221 [0, 0x50, 0xf2, 4]]"

theorem remove_ie_filters_witness:
  "\<exists>junk. rtw_ies_remove_ie ([7, 7] @ enc_list enc_ie vendor_list @ [9]) (length ([7, 7] @ enc_list enc_ie vendor_list))
      (length [7 :: u8, 7]) 221 (Some [0, 0x50, 0xf2, 4]) =
    Some ([7, 7] @ enc_list enc_ie [IE 0 [0x61, 0x62], IE 1 [2], IE 221 [0, 0x50, 0xf2, 1]] @ junk, 15, True)"
proof -
  let ?o = "Some [0, 0x50, 0xf2, 4] :: bytes option"
  have fits: "list_all (oui_fits (221, ?o)) vendor_list"
    by (simp add: vendor_list_def oui_fits_def wf_ie_def)
  have f: "filter (\<lambda>e. \<not> ie_match 221 ?o e) vendor_list = [IE 0 [0x61, 0x62], IE 1 [2], IE 221 [0, 0x50, 0xf2, 1]]"
    by (simp add: vendor_list_def)
  have x: "list_ex (ie_match 221 ?o) vendor_list" by (simp add: vendor_list_def)
  have l: "length ([7 :: u8, 7] @ enc_list enc_ie [IE 0 [0x61, 0x62], IE 1 [2], IE 221 [0, 0x50, 0xf2, 1]]) = 15"
    by simp
  show ?thesis using remove_ie_filters [OF fits, of "[7, 7]" "[9]"] x unfolding f l by auto
qed

end
