(* ===== verification/Rates.thy ===== *)
theory Rates
  imports IeEdit
begin

text \<open>
  The rate sets of core/rtw_ieee80211.c and core/rtw_wlan_util.c, the rewriting of the rate elements of a beacon
  when the mode changes (\<open>rtw_update_rate_bymode\<close>), and the beacon body of \<open>rtw_generate_ie\<close>.
\<close>

section \<open>Rate sets\<close>

definition WIFI_CCKRATES :: bytes where
  "WIFI_CCKRATES = map (\<lambda>r. r OR 0x80) [0x02, 0x04, 0x0B, 0x16]"

definition WIFI_OFDMRATES :: bytes where
  "WIFI_OFDMRATES = [0x0C, 0x12, 0x18, 0x24, 0x30, 0x48, 0x60, 0x6C]"

definition rtw_basic_rate_cck :: bytes where
  "rtw_basic_rate_cck = [0x02 OR 0x80, 0x04 OR 0x80, 0x0B OR 0x80, 0x16 OR 0x80]"

definition rtw_basic_rate_ofdm :: bytes where
  "rtw_basic_rate_ofdm = [0x0C OR 0x80, 0x18 OR 0x80, 0x30 OR 0x80]"

definition rtw_basic_rate_mix :: bytes where
  "rtw_basic_rate_mix = [0x02 OR 0x80, 0x04 OR 0x80, 0x0B OR 0x80, 0x16 OR 0x80, 0x0C OR 0x80, 0x18 OR 0x80, 0x30 OR 0x80]"

definition in_rates :: "bytes \<Rightarrow> u8 \<Rightarrow> bool" where
  "in_rates tab rate = list_ex (\<lambda>t. t AND 0x7F = rate AND 0x7F) tab"

definition rtw_is_cck_rate :: "u8 \<Rightarrow> bool" where
  "rtw_is_cck_rate rate = in_rates WIFI_CCKRATES rate"

definition rtw_is_ofdm_rate :: "u8 \<Rightarrow> bool" where
  "rtw_is_ofdm_rate rate = in_rates WIFI_OFDMRATES rate"

definition rtw_is_basic_rate_cck :: "u8 \<Rightarrow> bool" where
  "rtw_is_basic_rate_cck rate = in_rates rtw_basic_rate_cck rate"

definition rtw_is_basic_rate_ofdm :: "u8 \<Rightarrow> bool" where
  "rtw_is_basic_rate_ofdm rate = in_rates rtw_basic_rate_ofdm rate"

definition rtw_is_basic_rate_mix :: "u8 \<Rightarrow> bool" where
  "rtw_is_basic_rate_mix rate = in_rates rtw_basic_rate_mix rate"

text \<open>Bit numbers of the rate table of the hardware.\<close>

definition rtw_get_bit_value_from_ieee_value :: "u8 \<Rightarrow> int" where
  "rtw_get_bit_value_from_ieee_value val =
     (case find (\<lambda>i. ([2, 4, 11, 22, 12, 18, 24, 36, 48, 72, 96, 108] :: bytes) ! i = val) [0..<12] of
        Some i \<Rightarrow> push_bit i 1 | None \<Rightarrow> 0)"

definition cck_value :: "u8 \<Rightarrow> bool" where
  "cck_value r \<longleftrightarrow> r AND 0x7f = 2 \<or> r AND 0x7f = 4 \<or> r AND 0x7f = 11 \<or> r AND 0x7f = 22"

fun cckrate_size_loop :: "bytes \<Rightarrow> nat \<Rightarrow> nat \<Rightarrow> nat option" where
  "cckrate_size_loop rate i 0 = Some i"
| "cckrate_size_loop rate i (Suc n) =
     (case rd rate i of None \<Rightarrow> None | Some r \<Rightarrow> if cck_value r then cckrate_size_loop rate (i + 1) n else Some i)"

definition rtw_get_cckrate_size :: "bytes \<Rightarrow> nat \<Rightarrow> nat option" where
  "rtw_get_cckrate_size rate rate_length = cckrate_size_loop rate 0 rate_length"

text \<open>These two scan for a zero byte; an array without one is read past its end.\<close>

fun rtw_is_cckrates_included :: "bytes \<Rightarrow> bool option" where
  "rtw_is_cckrates_included [] = None"
| "rtw_is_cckrates_included (r # rate) =
     (if r = 0 then Some False else if cck_value r then Some True else rtw_is_cckrates_included rate)"

fun rtw_is_cckratesonly_included :: "bytes \<Rightarrow> bool option" where
  "rtw_is_cckratesonly_included [] = None"
| "rtw_is_cckratesonly_included (r # rate) =
     (if r = 0 then Some True else if \<not> cck_value r then Some False else rtw_is_cckratesonly_included rate)"

definition rtw_check_network_type :: "bytes \<Rightarrow> int \<Rightarrow> u32 option" where
  "rtw_check_network_type rate channel =
     (if channel > 14 then
        map_option (\<lambda>b. if b then 0 else 4) (rtw_is_cckrates_included rate)
      else do {
        only \<leftarrow> rtw_is_cckratesonly_included rate;
        if only then Some 1
        else map_option (\<lambda>b. if b then 3 else 2) (rtw_is_cckrates_included rate) })"

text \<open>The modes of enum NETWORK\_TYPE.\<close>

definition WIRELESS_11B :: u32 where "WIRELESS_11B = 1"
definition WIRELESS_11G :: u32 where "WIRELESS_11G = 2"
definition WIRELESS_11A :: u32 where "WIRELESS_11A = 4"
definition WIRELESS_11_24N :: u32 where "WIRELESS_11_24N = 8"
definition WIRELESS_11_5N :: u32 where "WIRELESS_11_5N = 16"
definition WIRELESS_11AC :: u32 where "WIRELESS_11AC = 64"
definition WIRELESS_11BG :: u32 where "WIRELESS_11BG = WIRELESS_11B OR WIRELESS_11G"
definition WIRELESS_11G_24N :: u32 where "WIRELESS_11G_24N = WIRELESS_11G OR WIRELESS_11_24N"
definition WIRELESS_11A_5N :: u32 where "WIRELESS_11A_5N = WIRELESS_11A OR WIRELESS_11_5N"
definition WIRELESS_11BG_24N :: u32 where "WIRELESS_11BG_24N = WIRELESS_11B OR WIRELESS_11G OR WIRELESS_11_24N"
definition WIRELESS_11_5AC :: u32 where "WIRELESS_11_5AC = WIRELESS_11A OR WIRELESS_11AC"
definition WIRELESS_11ABGN :: u32 where
  "WIRELESS_11ABGN = WIRELESS_11A OR WIRELESS_11B OR WIRELESS_11G OR WIRELESS_11_24N OR WIRELESS_11_5N"
definition WIRELESS_MODE_MAX :: u32 where
  "WIRELESS_MODE_MAX = WIRELESS_11A OR WIRELESS_11B OR WIRELESS_11G OR WIRELESS_11_24N OR WIRELESS_11_5N OR WIRELESS_11AC"

lemmas mode_defs = WIRELESS_11B_def WIRELESS_11G_def WIRELESS_11A_def WIRELESS_11_24N_def WIRELESS_11_5N_def
  WIRELESS_11AC_def WIRELESS_11BG_def WIRELESS_11G_24N_def WIRELESS_11A_5N_def WIRELESS_11BG_24N_def
  WIRELESS_11_5AC_def WIRELESS_11ABGN_def WIRELESS_MODE_MAX_def

text \<open>\<open>SupportedRates\<close> has 16 bytes; the switch has no default.\<close>

definition rtw_set_supported_rate :: "u32 \<Rightarrow> bytes" where
  "rtw_set_supported_rate mode =
     (let ofdm = WIFI_OFDMRATES; cck = WIFI_CCKRATES in
      if mode = WIRELESS_11B then cck @ replicate 12 0
      else if mode \<in> {WIRELESS_11G, WIRELESS_11A, WIRELESS_11_5N, WIRELESS_11A_5N, WIRELESS_11_5AC}
        then ofdm @ replicate 8 0
      else if mode \<in> {WIRELESS_11BG, WIRELESS_11G_24N, WIRELESS_11_24N, WIRELESS_11BG_24N}
        then cck @ ofdm @ replicate 4 0
      else replicate 16 0)"

function rateset_len_loop :: "bytes \<Rightarrow> nat \<Rightarrow> nat option" where
  "rateset_len_loop rateset i = (case rd rateset i of None \<Rightarrow> None
     | Some r \<Rightarrow> if r = 0 then Some i else if i > 12 then Some i else rateset_len_loop rateset (i + 1))"
  by pat_completeness auto
termination by (relation "measure (\<lambda>(_, i). 14 - i)") auto

declare rateset_len_loop.simps [simp del]

definition rtw_get_rateset_len :: "bytes \<Rightarrow> nat option" where
  "rtw_get_rateset_len rateset = rateset_len_loop rateset 0"

lemma rateset_len_loop_run:
  assumes "\<forall>j<n. rs ! (i + j) \<noteq> 0" "i + n \<le> 13" "i + n < length rs" "rs ! (i + n) = 0"
  shows "rateset_len_loop rs i = Some (i + n)"
  using assms
proof (induction n arbitrary: i)
  case 0
  then show ?case by (subst rateset_len_loop.simps) (simp add: rd_def)
next
  case (Suc n)
  have "\<forall>j<n. rs ! (i + 1 + j) \<noteq> 0" using Suc.prems(1) by (metis Suc_less_eq add.assoc plus_1_eq_Suc)
  then have "rateset_len_loop rs (i + 1) = Some (i + 1 + n)" using Suc.prems by (intro Suc.IH) auto
  moreover have "rs ! i \<noteq> 0" using Suc.prems(1) [THEN spec, of 0] by simp
  moreover have "rateset_len_loop rs i = rateset_len_loop rs (i + 1)"
    using \<open>rs ! i \<noteq> 0\<close> Suc.prems by (subst rateset_len_loop.simps) (simp add: rd_def)
  ultimately show ?case by simp
qed

text \<open>The length of a supported rate set is that of its prefix of rates.\<close>

lemma rtw_get_rateset_len_prefix:
  assumes "list_all (\<lambda>r. r \<noteq> 0) xs" "length xs \<le> 13" "0 < n"
  shows "rtw_get_rateset_len (xs @ replicate n 0) = Some (length xs)"
  unfolding rtw_get_rateset_len_def
  using rateset_len_loop_run [of "length xs" "xs @ replicate n 0" 0] assms by (auto simp: list_all_length nth_append)

lemma rates_nonzero: "list_all (\<lambda>r. r \<noteq> 0) WIFI_CCKRATES" "list_all (\<lambda>r. r \<noteq> 0) WIFI_OFDMRATES"
  "length WIFI_CCKRATES = 4" "length WIFI_OFDMRATES = 8"
  by (simp_all add: WIFI_CCKRATES_def WIFI_OFDMRATES_def)

lemma supported_rate_cases:
  "rtw_get_rateset_len (rtw_set_supported_rate mode) \<in> Some ` {0, 4, 8, 12}
   \<and> length (rtw_set_supported_rate mode) = 16"
proof -
  have l: "rtw_get_rateset_len (WIFI_CCKRATES @ replicate 12 0) = Some 4"
    "rtw_get_rateset_len (WIFI_OFDMRATES @ replicate 8 0) = Some 8"
    "rtw_get_rateset_len ((WIFI_CCKRATES @ WIFI_OFDMRATES) @ replicate 4 0) = Some 12"
    "rtw_get_rateset_len ([] @ replicate 16 0) = Some 0"
    by (subst rtw_get_rateset_len_prefix; simp add: rates_nonzero)+
  show ?thesis
    by (simp add: rtw_set_supported_rate_def l [simplified] rates_nonzero Let_def)
qed

section \<open>Rewriting the rate elements of a beacon\<close>

text \<open>The fields of WLAN\_BSSID\_EX the code below uses; \<open>IEs\<close> is an array of 768 bytes that starts with the 12 bytes of
  timestamp, beacon interval and capabilities.\<close>

record bss_ex =
  IEs :: bytes
  IELength :: nat
  SupportedRates :: bytes
  DSConfig :: u32
  BeaconPeriod :: u32
  ATIMWindow :: u32
  Privacy :: bool
  Ssid :: bytes
  SsidLength :: nat

datatype rate_section = CCK | OFDM

fun keep_rate :: "rate_section \<Rightarrow> u8 \<Rightarrow> bool" where
  "keep_rate CCK r = rtw_is_cck_rate r"
| "keep_rate OFDM r = rtw_is_ofdm_rate r"

definition filtered_rates :: "rate_section \<Rightarrow> bytes \<Rightarrow> bytes" where
  "filtered_rates keep rates =
     map (\<lambda>r. if rtw_is_basic_rate_ofdm r then r OR 0x80 else r) (filter (keep_rate keep) rates)"

text \<open>\<open>new_rate\<close> has room for 16 rates, more are written behind it.\<close>

definition rtw_filter_suppport_rateie :: "bss_ex \<Rightarrow> rate_section \<Rightarrow> bss_ex option" where
  "rtw_filter_suppport_rateie bss keep =
     (case rtw_get_ie (drop 12 (IEs bss)) 1 (int (IELength bss) - 12) of
        None \<Rightarrow> None
      | Some None \<Rightarrow> Some bss
      | Some (Some (off, ie_orilen)) \<Rightarrow> do {
          let p = 12 + off;
          rates \<leftarrow> get_sub (IEs bss) (p + 2) ie_orilen;
          let new_rate = filtered_rates keep rates;
          let idx = length new_rate;
          if 16 < idx then None else do {
            ies \<leftarrow> put_sub (IEs bss) (p + 1) [word_of_nat idx];
            ies \<leftarrow> put_sub ies (p + 2) new_rate;
            if IELength bss < p + 2 + ie_orilen then None else do {
              remain \<leftarrow> get_sub ies (p + 2 + ie_orilen) (IELength bss - (p + 2 + ie_orilen));
              ies \<leftarrow> put_sub ies (p + 2 + idx) remain;
              Some (bss\<lparr>IEs := ies, IELength := IELength bss - (ie_orilen - idx)\<rparr>) } } })"

text \<open>\<open>network_ielen\<close> is the length before the supported rates are filtered, and what the removal leaves in it is
  not used; \<open>IELength\<close> goes down by the data length of the first extended rates element.\<close>

definition rtw_update_rate_bymode :: "bss_ex \<Rightarrow> u32 \<Rightarrow> (bss_ex \<times> u32) option" where
  "rtw_update_rate_bymode bss mode =
     (let network_ielen = IELength bss in do {
        (bss, network_type) \<leftarrow>
          (if mode = WIRELESS_11B then do {
             bss \<leftarrow> rtw_filter_suppport_rateie bss CCK;
             r \<leftarrow> rtw_get_ie (drop 12 (IEs bss)) 50 (int (IELength bss) - 12);
             bss \<leftarrow> (case r of None \<Rightarrow> Some bss
                | Some (off, ie_len) \<Rightarrow> do {
                    (ies, _, _) \<leftarrow> rtw_ies_remove_ie (IEs bss) network_ielen 12 50 None;
                    Some (bss\<lparr>IEs := ies, IELength := IELength bss - ie_len\<rparr>) });
             Some (bss, WIRELESS_11B) }
           else if mode AND WIRELESS_11B = 0 then do {
             bss \<leftarrow> rtw_filter_suppport_rateie bss OFDM;
             Some (bss, if DSConfig bss > 14 then WIRELESS_11A else WIRELESS_11G) }
           else Some (bss, WIRELESS_11BG));
        Some (bss\<lparr>SupportedRates := rtw_set_supported_rate network_type\<rparr>, network_type) })"

lemma cck_not_basic_ofdm:
  assumes "rtw_is_cck_rate r"
  shows "\<not> rtw_is_basic_rate_ofdm r"
proof -
  have "r AND 0x7F \<in> {2, 4, 0xB, 0x16}"
    using assms by (auto simp: rtw_is_cck_rate_def in_rates_def WIFI_CCKRATES_def)
  then show ?thesis
    by (auto simp: rtw_is_basic_rate_ofdm_def in_rates_def rtw_basic_rate_ofdm_def)
qed

lemma filtered_rates_cck: "list_all rtw_is_cck_rate rs \<Longrightarrow> filtered_rates CCK rs = rs"
  by (simp add: filtered_rates_def list_all_filter_id list_all_iff cck_not_basic_ofdm map_idI cong: filter_cong)

text \<open>An element list whose supported rates element holds CCK rates only is left as it is.\<close>

lemma filter_cck_only:
  assumes IEs: "IEs bss = hdr @ enc_list enc_ie es @ q" "length hdr = 12"
    "IELength bss = length (hdr @ enc_list enc_ie es)"
    and es: "es = xs @ IE 1 rs # ys" "list_all (\<lambda>e. ie_id e \<noteq> 1) xs" "list_all wf_ie es"
    and rs: "list_all rtw_is_cck_rate rs" "length rs \<le> 16"
  shows "rtw_filter_suppport_rateie bss CCK = Some bss"
proof -
  define X where "X = enc_list enc_ie xs"
  define Y where "Y = enc_list enc_ie ys"
  define L where "L = length Y"
  have get: "rtw_get_ie (drop 12 (IEs bss)) 1 (int (IELength bss) - 12) = Some (Some (length X, length rs))"
    using rtw_get_ie_encoded [OF es(3), of q 1] find_elem_split [of "\<lambda>e. ie_id e = 1" "IE 1 rs" xs enc_ie ys] es(2)
    by (simp add: IEs es(1) X_def)
  have b: "IEs bss = (hdr @ X) @ [1, word_of_nat (length rs)] @ rs @ Y @ q" "IELength bss = length X + length rs + L + 14"
    using IEs by (simp_all add: es(1) X_def Y_def L_def enc_ie_def)
  have sub: "get_sub (IEs bss) (12 + length X + 2) (length rs) = Some rs"
    "get_sub (IEs bss) (12 + length X + 2 + length rs) L = Some Y"
    using IEs(2) by (simp_all add: b(1) get_sub_def L_def)
  have put: "put_sub (IEs bss) (12 + length X + 1) [word_of_nat (length rs)] = Some (IEs bss)"
    "put_sub (IEs bss) (12 + length X + 2) rs = Some (IEs bss)"
    "put_sub (IEs bss) (12 + length X + 2 + length rs) Y = Some (IEs bss)"
    using IEs(2) by (simp_all add: b(1) put_sub_def L_def)
  have l: "IELength bss - (12 + length X + 2 + length rs) = L" "\<not> IELength bss < 12 + length X + 2 + length rs"
    by (simp_all add: b(2))
  show ?thesis
    unfolding rtw_filter_suppport_rateie_def get option.case prod.case Let_def sub(1) bind.bind_lunit
      filtered_rates_cck [OF rs(1)]
    using rs(2) by (simp only: put l sub bind.bind_lunit if_False not_less [symmetric]) simp
qed

lemma enc_list_parts: "length (enc_list enc_ie es) =
    length (enc_list enc_ie (filter P es)) + length (enc_list enc_ie (filter (\<lambda>e. \<not> P e) es))"
  by (induction es) auto

text \<open>Switching a beacon whose supported rates are CCK rates to 802.11b removes every
  extended rates element from its elements and stays inside the array, but the length that is left is too
  large: it is reduced by the data length of the first removed element only, so at least its two header bytes,
  and every further removed element, stay counted and stale bytes end up in the beacon. Without an extended
  rates element the beacon is unchanged.\<close>

theorem update_rate_11b_stale:
  assumes IEs: "IEs bss = hdr @ enc_list enc_ie es @ q" "length hdr = 12"
    "IELength bss = length (hdr @ enc_list enc_ie es)"
    and es: "es = xs @ IE 1 rs # ys" "list_all (\<lambda>e. ie_id e \<noteq> 1) xs" "list_all wf_ie es"
    and rs: "list_all rtw_is_cck_rate rs" "length rs \<le> 16"
    and fs: "fs = filter (\<lambda>e. ie_id e \<noteq> 50) es" "gs = filter (\<lambda>e. ie_id e = 50) es"
  shows "\<exists>bss' junk. rtw_update_rate_bymode bss WIRELESS_11B = Some (bss', WIRELESS_11B)
    \<and> IEs bss' = hdr @ enc_list enc_ie fs @ junk
    \<and> IELength bss' = length (hdr @ enc_list enc_ie fs) +
        (if gs = [] then 0 else length (enc_list enc_ie gs) - length (ie_data (hd gs)))
    \<and> (gs \<noteq> [] \<longrightarrow> length (hdr @ enc_list enc_ie fs) + 2 \<le> IELength bss')"
proof -
  note filt = filter_cck_only [OF assms(1-8)]
  note parts = enc_list_parts [of es "\<lambda>e. ie_id e \<noteq> 50", simplified, folded fs]
  have get: "rtw_get_ie (drop 12 (IEs bss)) 50 (int (IELength bss) - 12) =
      Some (map_option (\<lambda>(k, e). (k, length (ie_data e))) (find_elem enc_ie (\<lambda>e. ie_id e = 50) es))"
    using rtw_get_ie_encoded [OF es(3), of q 50] by (simp add: IEs)
  show ?thesis
  proof (cases "find_elem enc_ie (\<lambda>e. ie_id e = 50) es")
    case None
    then have "gs = []" "fs = es" by (simp_all add: find_elem_None fs filter_empty_conv list_all_iff)
    then show ?thesis using filt get None IEs
      by (auto simp: rtw_update_rate_bymode_def bind.bind_lunit)
  next
    case (Some r)
    then obtain k e where f: "find_elem enc_ie (\<lambda>e. ie_id e = 50) es = Some (k, e)" by (cases r) simp
    then obtain us vs where u: "es = us @ e # vs" "ie_id e = 50" "list_all (\<lambda>x. ie_id x \<noteq> 50) us"
      by (rule find_elem_SomeE)
    have gs: "gs = e # filter (\<lambda>e. ie_id e = 50) vs"
      using u(3) by (simp add: fs(2) u(1,2) filter_empty_conv list_all_iff)
    have fit: "list_all (oui_fits (50, None)) es" using es(3) by (simp add: list_all_iff oui_fits_def)
    obtain junk where rm: "rtw_ies_remove_ie (IEs bss) (IELength bss) 12 50 None =
        Some (hdr @ enc_list enc_ie fs @ junk, length (hdr @ enc_list enc_ie fs), list_ex (ie_match 50 None) es)"
      using rtw_ies_remove_ie_encoded [OF fit, of hdr q] unfolding IEs fs(1) by (auto simp: IEs(2))
    have len: "IELength bss = length (hdr @ enc_list enc_ie fs) + length (enc_list enc_ie gs)"
      by (simp add: IEs(3) parts)
    show ?thesis using filt get f rm len gs
      by (intro exI [of _ "bss\<lparr>IEs := hdr @ enc_list enc_ie fs @ junk,
          IELength := IELength bss - length (ie_data e),
          SupportedRates := rtw_set_supported_rate WIRELESS_11B\<rparr>"] exI [of _ junk])
         (simp add: rtw_update_rate_bymode_def bind.bind_lunit Let_def)
  qed
qed

definition cck_beacon :: bss_ex where
  "cck_beacon = \<lparr>IEs = replicate 12 0 @ enc_list enc_ie [IE 0 [0x61], IE 1 [0x82, 0x84], IE 50 [0x30, 0x48]] @ replicate 10 0,
     IELength = 23, SupportedRates = replicate 16 0, DSConfig = 6, BeaconPeriod = 100, ATIMWindow = 0,
     Privacy = False, Ssid = [0x61], SsidLength = 1\<rparr>"

theorem update_rate_11b_stale_witness:
  "\<exists>bss' junk. rtw_update_rate_bymode cck_beacon WIRELESS_11B = Some (bss', WIRELESS_11B)
    \<and> IEs bss' = replicate 12 0 @ enc_list enc_ie [IE 0 [0x61], IE 1 [0x82, 0x84]] @ junk \<and> IELength bss' = 21
    \<and> length (replicate 12 (0 :: u8) @ enc_list enc_ie [IE 0 [0x61], IE 1 [0x82, 0x84]]) = 19"
proof -
  let ?es = "[IE 0 [0x61]] @ IE 1 [0x82, 0x84] # [IE 50 [0x30, 0x48]]"
  have f: "filter (\<lambda>e. ie_id e \<noteq> 50) ?es = [IE 0 [0x61], IE 1 [0x82, 0x84]]"
    "filter (\<lambda>e. ie_id e = 50) ?es = [IE 50 [0x30, 0x48]]"
    by simp_all
  have "list_all rtw_is_cck_rate [0x82, 0x84]"
    by (simp add: rtw_is_cck_rate_def in_rates_def WIFI_CCKRATES_def)
  then show ?thesis
    using update_rate_11b_stale [of cck_beacon "replicate 12 0" ?es "replicate 10 0" "[IE 0 [0x61]]" "[0x82, 0x84]"
        "[IE 50 [0x30, 0x48]]", OF _ _ _ refl _ _ _ _ refl refl]
    unfolding f by (auto simp: cck_beacon_def wf_ie_def)
qed

section \<open>The body of an IBSS beacon\<close>

record registry_priv =
  preamble :: u8
  wireless_mode :: u32
  dev_network :: bss_ex

definition u16_le :: "u16 \<Rightarrow> bytes" where
  "u16_le v = [ucast v, ucast (drop_bit 8 v)]"

definition generate_mode :: "registry_priv \<Rightarrow> u32" where
  "generate_mode reg =
     (let ds = DSConfig (dev_network reg) in
      if wireless_mode reg = WIRELESS_11ABGN then (if ds > 14 then WIRELESS_11A_5N else WIRELESS_11BG_24N)
      else if wireless_mode reg = WIRELESS_MODE_MAX then (if ds > 14 then WIRELESS_11_5AC else WIRELESS_11BG_24N)
      else wireless_mode reg)"

definition generate_capability :: "registry_priv \<Rightarrow> u16" where
  "generate_capability reg =
     push_bit 1 1 OR (if preamble reg = 3 then push_bit 5 1 else 0) OR (if Privacy (dev_network reg) then push_bit 4 1 else 0)"

definition rtw_generate_ie :: "registry_priv \<Rightarrow> (registry_priv \<times> nat) option" where
  "rtw_generate_ie reg = do {
     let net = dev_network reg;
     let ie = 8; let sz = 8;
     ies \<leftarrow> put_sub (IEs net) ie (u16_le (ucast (BeaconPeriod net)));
     let sz = sz + 2; let ie = ie + 2;
     ies \<leftarrow> put_sub ies ie (u16_le (generate_capability reg));
     let sz = sz + 2; let ie = ie + 2;
     (ies, ie, sz) \<leftarrow> rtw_set_ie ies ie 0 (Ssid net) (SsidLength net) sz;
     let rates = rtw_set_supported_rate (generate_mode reg);
     rateLen \<leftarrow> rtw_get_rateset_len rates;
     (ies, ie, sz) \<leftarrow> (if 8 < rateLen then rtw_set_ie ies ie 1 rates 8 sz else rtw_set_ie ies ie 1 rates rateLen sz);
     (ies, ie, sz) \<leftarrow> rtw_set_ie ies ie 3 (le32_bytes (DSConfig net)) 1 sz;
     (ies, ie, sz) \<leftarrow> rtw_set_ie ies ie 6 (le32_bytes (ATIMWindow net)) 2 sz;
     (ies, ie, sz) \<leftarrow> (if 8 < rateLen then rtw_set_ie ies ie 50 (drop 8 rates) (rateLen - 8) sz else Some (ies, ie, sz));
     Some (reg\<lparr>dev_network := net\<lparr>IEs := ies, SupportedRates := rates\<rparr>\<rparr>, sz) }"

text \<open>The elements the body is meant to hold.\<close>

definition beacon_elements :: "bss_ex \<Rightarrow> bytes \<Rightarrow> ie list" where
  "beacon_elements net rates =
     [IE 0 (take (SsidLength net) (Ssid net)), IE 1 (take 8 rates), IE 3 [ucast (DSConfig net)],
      IE 6 (u16_le (ucast (ATIMWindow net)))] @ (if drop 8 rates = [] then [] else [IE 50 (drop 8 rates)])"

lemma rtw_set_ie_source:
  "len \<le> length source \<Longrightarrow> rtw_set_ie buf pbuf index source len frlen = rtw_set_ie buf pbuf index (take len source) len frlen"
  by (simp add: rtw_set_ie_def get_sub_def)

lemma rtw_set_ie_at:
  assumes "len \<le> length source" "len < 256" "length p = pbuf" "len + 2 \<le> length rest"
  shows "rtw_set_ie (p @ rest) pbuf index source len frlen =
    Some (p @ enc_ie (IE index (take len source)) @ drop (len + 2) rest, pbuf + len + 2, frlen + len + 2)"
  using rtw_set_ie_append [of "take len source" rest p index frlen] assms
  by (subst rtw_set_ie_source) (simp_all add: min_absorb2)

lemma le32_prefix: "take 1 (le32_bytes v) = [ucast v]" "take 2 (le32_bytes v) = u16_le (ucast v)"
  by (auto simp: le32_bytes_def u16_le_def numeral_2_eq_2 bit_eq_iff bit_simps)

lemma length_u16_le [simp]: "length (u16_le v) = 2"
  by (simp add: u16_le_def)

lemma generate_ie_run:
  assumes "length (IEs (dev_network reg)) = 768" "SsidLength (dev_network reg) \<le> 32"
    "SsidLength (dev_network reg) \<le> length (Ssid (dev_network reg))"
    and rates: "rtw_get_rateset_len (rtw_set_supported_rate (generate_mode reg)) = Some n"
    and es_def: "es = beacon_elements (dev_network reg) (take n (rtw_set_supported_rate (generate_mode reg)))"
    and p0: "p0 = take 8 (IEs (dev_network reg)) @ u16_le (ucast (BeaconPeriod (dev_network reg))) @ u16_le (generate_capability reg)"
  obtains rest where "rtw_generate_ie reg = Some (reg\<lparr>dev_network := dev_network reg\<lparr>IEs := p0 @ enc_list enc_ie es @ rest,
        SupportedRates := rtw_set_supported_rate (generate_mode reg)\<rparr>\<rparr>, 12 + length (enc_list enc_ie es))"
    "length (p0 @ enc_list enc_ie es @ rest) = 768" "length p0 = 12" "list_all wf_ie es"
proof -
  define net where "net = dev_network reg"
  define rates where "rates = rtw_set_supported_rate (generate_mode reg)"
  define ss where "ss = SsidLength net"
  have n: "rtw_get_rateset_len rates = Some n" "n \<le> 12" and r16: "length rates = 16"
    using supported_rate_cases [of "generate_mode reg"] rates unfolding rates_def by auto
  note es_def = es_def [folded net_def rates_def]
  define T where "T = take 8 (IEs net)"
  note p0_def = p0 [folded net_def, folded T_def]
  define r0 where "r0 = drop 12 (IEs net)"
  have net: "length (IEs net) = 768" "ss \<le> 32" "ss \<le> length (Ssid net)" using assms by (simp_all add: net_def ss_def)
  have len0: "length p0 = 12" "length r0 = 756" "length T = 8" using net by (simp_all add: p0_def r0_def T_def)
  have put: "put_sub (IEs net) 8 (u16_le v) = Some (T @ u16_le v @ drop 10 (IEs net))"
    "put_sub (T @ u16_le (ucast (BeaconPeriod net)) @ drop 10 (IEs net)) 10 (u16_le (generate_capability reg)) = Some (p0 @ r0)" for v
    using net by (simp_all add: put_sub_def T_def p0_def r0_def numeral_eq_Suc)
  define m where "m = min n 8"
  define p1 where "p1 = p0 @ enc_ie (IE 0 (take ss (Ssid net)))"
  define p2 where "p2 = p1 @ enc_ie (IE 1 (take m rates))"
  define p3 where "p3 = p2 @ enc_ie (IE 3 [ucast (DSConfig net)])"
  define p4 where "p4 = p3 @ enc_ie (IE 6 (u16_le (ucast (ATIMWindow net))))"
  have m: "m \<le> 8" "m \<le> n" by (simp_all add: m_def)
  have l: "length p1 = ss + 14" "length p2 = ss + m + 16" "length p3 = ss + m + 19" "length p4 = ss + m + 23"
    using net m r16 by (simp_all add: p1_def p2_def p3_def p4_def len0)
  define r4 where "r4 = drop (ss + m + 11) r0"
  have s1: "rtw_set_ie (p0 @ r0) 12 0 (Ssid net) ss 12 = Some (p1 @ drop (ss + 2) r0, ss + 14, ss + 14)"
    using net len0 by (subst rtw_set_ie_at) (simp_all add: p1_def)
  have s2: "rtw_set_ie (p1 @ drop (ss + 2) r0) (ss + 14) 1 rates m (ss + 14) =
      Some (p2 @ drop (ss + m + 4) r0, ss + m + 16, ss + m + 16)"
  proof -
    have d: "drop (m + 2) (drop (ss + 2) r0) = drop (ss + m + 4) r0"
      unfolding drop_drop by (rule arg_cong2 [where f = drop]) simp_all
    show ?thesis using net len0 m r16 l by (subst rtw_set_ie_at, simp_all only: d) (simp_all add: p2_def add_ac)
  qed
  have s3: "rtw_set_ie (p2 @ drop (ss + m + 4) r0) (ss + m + 16) 3 (le32_bytes (DSConfig net)) 1 (ss + m + 16) =
      Some (p3 @ drop (ss + m + 7) r0, ss + m + 19, ss + m + 19)"
    using net len0 m l le32_prefix(1) [of "DSConfig net"] by (subst rtw_set_ie_at) (simp_all add: p3_def add_ac)
  have s4: "rtw_set_ie (p3 @ drop (ss + m + 7) r0) (ss + m + 19) 6 (le32_bytes (ATIMWindow net)) 2 (ss + m + 19) =
      Some (p4 @ r4, ss + m + 23, ss + m + 23)"
    using net len0 m l le32_prefix(2) [of "ATIMWindow net"] by (subst rtw_set_ie_at) (simp_all add: p4_def r4_def add_ac)
  have wf: "list_all wf_ie es"
    using net r16 by (auto simp: es_def beacon_elements_def wf_ie_def min_def ss_def)
  show thesis
  proof (cases "8 < n")
    case True
    then have [simp]: "m = 8" by (simp add: m_def)
    have s5: "rtw_set_ie (p4 @ r4) (ss + m + 23) 50 (drop 8 rates) (n - 8) (ss + m + 23) =
        Some (p4 @ enc_ie (IE 50 (take (n - 8) (drop 8 rates))) @ drop (n - 6) r4, ss + n + 25, ss + n + 25)"
      using net len0 l n r16 True by (subst rtw_set_ie_at) (simp_all add: r4_def add_ac)
    have e: "p4 @ enc_ie (IE 50 (take (n - 8) (drop 8 rates))) = p0 @ enc_list enc_ie es"
      using True r16 by (simp add: es_def beacon_elements_def p4_def p3_def p2_def p1_def ss_def min_def drop_take)
    have sz: "ss + n + 25 = 12 + length (enc_list enc_ie es)"
      using arg_cong [OF e, of length] l len0 True r16 n by simp
    show thesis
    proof (rule that [of "drop (n - 6) r4", folded net_def, folded rates_def])
      show "rtw_generate_ie reg = Some (reg\<lparr>dev_network :=
          net\<lparr>IEs := p0 @ enc_list enc_ie es @ drop (n - 6) r4, SupportedRates := rates\<rparr>\<rparr>, 12 + length (enc_list enc_ie es))"
        unfolding sz [symmetric] using put s1 s2 s3 s4 s5 n True e
        by (simp add: rtw_generate_ie_def net_def [symmetric] rates_def [symmetric] ss_def [symmetric] Let_def)
      show "length (p0 @ enc_list enc_ie es @ drop (n - 6) r4) = 768"
        using sz len0 n True net by (simp add: r4_def)
      show "length p0 = 12" using len0 by simp
      show "list_all wf_ie es" using wf .
    qed
  next
    case False
    then have [simp]: "m = n" by (simp add: m_def)
    have e: "p4 = p0 @ enc_list enc_ie es"
      using False by (simp add: es_def beacon_elements_def p4_def p3_def p2_def p1_def ss_def min_def)
    have sz: "ss + n + 23 = 12 + length (enc_list enc_ie es)"
      using arg_cong [OF e, of length] l len0 by simp
    show thesis
    proof (rule that [of r4, folded net_def, folded rates_def])
      show "rtw_generate_ie reg = Some (reg\<lparr>dev_network :=
          net\<lparr>IEs := p0 @ enc_list enc_ie es @ r4, SupportedRates := rates\<rparr>\<rparr>, 12 + length (enc_list enc_ie es))"
        unfolding sz [symmetric] using put s1 s2 s3 s4 n False e
        by (simp add: rtw_generate_ie_def net_def [symmetric] rates_def [symmetric] ss_def [symmetric] Let_def)
      show "length (p0 @ enc_list enc_ie es @ r4) = 768"
        using sz len0 n net by (simp add: r4_def)
      show "length p0 = 12" using len0 by simp
      show "list_all wf_ie es" using wf .
    qed
  qed
qed

text \<open>Rtw_generate_ie stays inside the 768 bytes of the element array for every station id of
  at most 32 bytes and every mode, writes the fixed fields behind the timestamp and then exactly the elements
  SSID, supported rates (the first eight), DS, IBSS and extended rates (the remaining ones, if any), returns
  their total length, and rtw_get_ie finds each of them again by its id and nothing else.\<close>

theorem generate_ie_roundtrip:
  assumes "length (IEs (dev_network reg)) = 768" "SsidLength (dev_network reg) \<le> 32"
    "SsidLength (dev_network reg) \<le> length (Ssid (dev_network reg))"
  shows "\<exists>n reg' sz rest. rtw_generate_ie reg = Some (reg', sz)
    \<and> rtw_get_rateset_len (rtw_set_supported_rate (generate_mode reg)) = Some n
    \<and> (let es = beacon_elements (dev_network reg) (take n (rtw_set_supported_rate (generate_mode reg)));
          ies = IEs (dev_network reg') in
        ies = take 8 (IEs (dev_network reg)) @ u16_le (ucast (BeaconPeriod (dev_network reg))) @ u16_le (generate_capability reg)
          @ enc_list enc_ie es @ rest
        \<and> length ies = 768 \<and> sz = 12 + length (enc_list enc_ie es)
        \<and> (\<forall>eid. rtw_get_ie (drop 12 ies) eid (int sz - 12) =
              Some (map_option (\<lambda>(k, e). (k, length (ie_data e))) (find_elem enc_ie (\<lambda>e. ie_id e = eid) es))))"
proof -
  obtain n where n: "rtw_get_rateset_len (rtw_set_supported_rate (generate_mode reg)) = Some n"
    using supported_rate_cases [of "generate_mode reg"] by auto
  define es where "es = beacon_elements (dev_network reg) (take n (rtw_set_supported_rate (generate_mode reg)))"
  obtain rest p0 where gen: "rtw_generate_ie reg = Some (reg\<lparr>dev_network := dev_network reg\<lparr>IEs := p0 @ enc_list enc_ie es @ rest,
        SupportedRates := rtw_set_supported_rate (generate_mode reg)\<rparr>\<rparr>, 12 + length (enc_list enc_ie es))"
    "length (p0 @ enc_list enc_ie es @ rest) = 768" "length p0 = 12" "list_all wf_ie es"
    "p0 = take 8 (IEs (dev_network reg)) @ u16_le (ucast (BeaconPeriod (dev_network reg))) @ u16_le (generate_capability reg)"
    using generate_ie_run [OF assms n es_def refl] by metis
  have get: "rtw_get_ie (drop 12 (p0 @ enc_list enc_ie es @ rest)) eid (int (12 + length (enc_list enc_ie es)) - 12) =
      Some (map_option (\<lambda>(k, e). (k, length (ie_data e))) (find_elem enc_ie (\<lambda>e. ie_id e = eid) es))" for eid
    using rtw_get_ie_encoded [OF gen(4), of rest eid] gen(3) by simp
  show ?thesis
    by (rule exI [of _ n], rule exI, rule exI, rule exI [of _ rest], rule conjI [OF gen(1)])
       (use n gen(2,3,5) get in \<open>simp add: Let_def es_def [symmetric]\<close>)
qed

definition ibss_registry :: registry_priv where
  "ibss_registry = \<lparr>preamble = 3, wireless_mode = 1, dev_network =
     \<lparr>IEs = replicate 768 0, IELength = 0, SupportedRates = replicate 16 0, DSConfig = 6, BeaconPeriod = 100,
      ATIMWindow = 0, Privacy = False, Ssid = [0x61, 0x62] @ replicate 30 0, SsidLength = 2\<rparr>\<rparr>"

theorem generate_ie_roundtrip_witness:
  "\<exists>reg'. rtw_generate_ie ibss_registry = Some (reg', 29) \<and> rtw_get_ie (drop 12 (IEs (dev_network reg'))) 3 17 = Some (Some (10, 1))"
proof -
  have m: "generate_mode ibss_registry = WIRELESS_11B"
    by (simp add: generate_mode_def ibss_registry_def Let_def mode_defs)
  have r: "rtw_set_supported_rate WIRELESS_11B = WIFI_CCKRATES @ replicate 12 0"
    by (simp add: rtw_set_supported_rate_def)
  have l: "rtw_get_rateset_len (rtw_set_supported_rate WIRELESS_11B) = Some 4"
    unfolding r by (subst rtw_get_rateset_len_prefix) (simp_all add: rates_nonzero)
  have t: "take 4 (rtw_set_supported_rate WIRELESS_11B) = WIFI_CCKRATES" unfolding r by (simp add: rates_nonzero)
  have e: "beacon_elements (dev_network ibss_registry) WIFI_CCKRATES =
      [IE 0 [0x61, 0x62], IE 1 WIFI_CCKRATES, IE 3 [6], IE 6 (u16_le 0)]"
    by (simp add: beacon_elements_def ibss_registry_def rates_nonzero)
  have a: "length (IEs (dev_network ibss_registry)) = 768" "SsidLength (dev_network ibss_registry) \<le> 32"
    "SsidLength (dev_network ibss_registry) \<le> length (Ssid (dev_network ibss_registry))"
    by (simp_all add: ibss_registry_def)
  from generate_ie_roundtrip [OF a] show ?thesis
    by (auto simp: m l t e Let_def rates_nonzero) (metis (no_types, lifting) numeral_One)?
qed

end
