(* ===== verification/VendorIe.thy ===== *)
theory VendorIe
  imports Ie
begin

text \<open>
  The searches of core/rtw_ieee80211.c for one kind of vendor specific element (WPA, WPS, P2P, WFD), for the
  security elements (WPA, RSN, WAPI), the deletion of P2P and WFD elements, and the merging of P2P
  elements.
\<close>

section \<open>WPS, P2P and WFD elements\<close>

definition MAX_IE_SZ :: nat where "MAX_IE_SZ = 768"

definition wps_oui :: bytes where "wps_oui = [0x00, 0x50, 0xF2, 0x04]"
definition p2p_oui :: bytes where "p2p_oui = [0x50, 0x6F, 0x9A, 0x09]"
definition wfd_oui :: bytes where "wfd_oui = [0x50, 0x6F, 0x9A, 0x0A]"

text \<open>One turn of the loop that the three searches share but for the four bytes they compare.\<close>

definition vendor_ie_turn :: "bytes \<Rightarrow> nat \<Rightarrow> bytes \<Rightarrow> nat \<Rightarrow> verdict" where
  "vendor_ie_turn in_ie in_len oui cnt =
     (if \<not> cnt + 1 + 4 < in_len then Stop
      else case rd in_ie cnt of None \<Rightarrow> Bad
      | Some eid \<Rightarrow>
        if MAX_IE_SZ \<le> cnt + 1 + 4 then Stop
        else (case (if eid = 221 then oui_test in_ie (cnt + 2) (Some oui) else Some False) of None \<Rightarrow> Bad
          | Some found \<Rightarrow> (case rd in_ie (cnt + 1) of None \<Rightarrow> Bad
            | Some len \<Rightarrow> if found then Hit (unat len + 2) else Skip (unat len + 2))))"

definition rtw_get_wps_ie :: "bytes \<Rightarrow> nat \<Rightarrow> ptr_len option" where
  "rtw_get_wps_ie in_ie in_len =
     (if in_len = 0 then Some None else walk_ptr (tlv_walk (vendor_ie_turn in_ie in_len wps_oui) 0))"

definition rtw_get_p2p_ie :: "bytes \<Rightarrow> int \<Rightarrow> ptr_len option" where
  "rtw_get_p2p_ie in_ie in_len =
     (if in_len \<le> 0 then Some None else walk_ptr (tlv_walk (vendor_ie_turn in_ie (nat in_len) p2p_oui) 0))"

definition rtw_get_wfd_ie :: "bytes \<Rightarrow> int \<Rightarrow> ptr_len option" where
  "rtw_get_wfd_ie in_ie in_len =
     (if in_len \<le> 0 then Some None else walk_ptr (tlv_walk (vendor_ie_turn in_ie (nat in_len) wfd_oui) 0))"

definition rtw_is_wps_ie :: "bytes \<Rightarrow> nat option option" where
  "rtw_is_wps_ie ie_ptr =
     (case rd ie_ptr 0 of None \<Rightarrow> None
      | Some eid \<Rightarrow>
        (case (if eid = 0xdd then oui_test ie_ptr 2 (Some wps_oui) else Some False) of None \<Rightarrow> None
         | Some False \<Rightarrow> Some None
         | Some True \<Rightarrow> map_option (\<lambda>l. Some (unat l + 2)) (rd ie_ptr 1)))"

datatype bss_type = BSS_TYPE_UNDEF | BSS_TYPE_BCN | BSS_TYPE_PROB_REQ | BSS_TYPE_PROB_RSP

definition rtw_get_wps_ie_from_scan_queue :: "bytes \<Rightarrow> nat \<Rightarrow> bss_type \<Rightarrow> ptr_len option" where
  "rtw_get_wps_ie_from_scan_queue in_ie in_len frame_type =
     (case frame_type of
        BSS_TYPE_UNDEF \<Rightarrow> Some None
      | BSS_TYPE_PROB_REQ \<Rightarrow> rtw_get_wps_ie in_ie in_len
      | _ \<Rightarrow> rtw_get_wps_ie (drop 12 in_ie) (nat ((int in_len - 12) mod 2 ^ 32)))"

definition is_vendor :: "bytes \<Rightarrow> ie \<Rightarrow> bool" where
  "is_vendor oui = ie_match 221 (Some oui)"

definition vendor_fits :: "bytes \<Rightarrow> ie \<Rightarrow> bool" where
  "vendor_fits oui e \<longleftrightarrow> length oui = 4 \<and> oui_fits (221, Some oui) e"

interpretation vendor: tlv_format enc_ie vendor_fits "\<lambda>e. length (ie_data e) + 2" vendor_ie_turn is_vendor
  6 "\<lambda>limit. limit \<le> MAX_IE_SZ"
proof unfold_locales
  fix P e and p q :: bytes and limit
  assume wf: "vendor_fits P e" and ok: "limit \<le> MAX_IE_SZ" "6 \<le> limit - length p" "length p + length (enc_ie e) \<le> limit"
  have t: "oui_test (p @ enc_ie e @ q) (length p + 2) (Some P) = Some (is_vendor P e)" if "ie_id e = 221"
    using that wf get_sub_append_right [of p "enc_ie e @ q" 2]
    by (auto simp: oui_test_def oui_fits_def get_sub_enc_ie is_vendor_def vendor_fits_def)
  show "vendor_ie_turn (p @ enc_ie e @ q) limit P (length p) =
    (if is_vendor P e then Hit (length (ie_data e) + 2) else Skip (length (enc_ie e)))"
    using rd_append_right [of p "enc_ie e @ q" 0] rd_append_right [of p "enc_ie e @ q" 1] t wf ok
    by (auto simp: vendor_ie_turn_def vendor_fits_def oui_fits_def wf_ie_def unat_of_nat is_vendor_def)
qed (auto simp: vendor_ie_turn_def is_vendor_def vendor_fits_def oui_fits_def)

definition search_result :: "bytes \<Rightarrow> ie list \<Rightarrow> ptr_len" where
  "search_result oui es = map_option (\<lambda>(k, e). (k, length (ie_data e) + 2)) (find_elem enc_ie (is_vendor oui) es)"

lemma vendor_walk:
  assumes "list_all (vendor_fits oui) es" "length (enc_list enc_ie es) \<le> MAX_IE_SZ"
  shows "walk_ptr (tlv_walk (vendor_ie_turn (enc_list enc_ie es @ q) (length (enc_list enc_ie es)) oui) 0) =
    Some (search_result oui es)"
  using vendor.walk_encoded [of oui es "[]" q] assms by (auto simp: search_result_def split: option.splits)

lemma search_result_Nil [simp]: "search_result oui [] = None"
  by (simp add: search_result_def)

lemma enc_list_eq_Nil [simp]: "enc_list enc_ie es = [] \<longleftrightarrow> es = []"
  by (cases es) (auto simp: enc_ie_def)

lemma vendor_searches_encoded:
  assumes "length (enc_list enc_ie es) \<le> MAX_IE_SZ"
  shows "list_all (vendor_fits wps_oui) es \<Longrightarrow>
      rtw_get_wps_ie (enc_list enc_ie es @ q) (length (enc_list enc_ie es)) = Some (search_result wps_oui es)"
    and "list_all (vendor_fits p2p_oui) es \<Longrightarrow>
      rtw_get_p2p_ie (enc_list enc_ie es @ q) (int (length (enc_list enc_ie es))) = Some (search_result p2p_oui es)"
    and "list_all (vendor_fits wfd_oui) es \<Longrightarrow>
      rtw_get_wfd_ie (enc_list enc_ie es @ q) (int (length (enc_list enc_ie es))) = Some (search_result wfd_oui es)"
  using vendor_walk [OF _ assms, of _ q]
  by (auto simp: rtw_get_wps_ie_def rtw_get_p2p_ie_def rtw_get_wfd_ie_def)

section \<open>Deleting what a search finds\<close>

text \<open>The loop of \<open>rtw_del_p2p_ie\<close>, \<open>rtw_del_wfd_ie\<close>, \<open>rtw_del_p2p_attr\<close> and \<open>rtw_del_wfd_attr\<close>: find, move what follows to the
  front, clear the bytes that became free. \<open>upd\<close> is what the attribute versions do to the element's length
  byte. The remaining length is unsigned, as in \<open>rtw_ies_remove_ie\<close>.\<close>

function del_loop :: "(bytes \<Rightarrow> nat \<Rightarrow> ptr_len option) \<Rightarrow> (bytes \<Rightarrow> nat \<Rightarrow> bytes) \<Rightarrow> bytes \<Rightarrow> nat \<Rightarrow> (bytes \<times> nat) option" where
  "del_loop search upd ies ies_len =
     (case search ies ies_len of
        None \<Rightarrow> None
      | Some None \<Rightarrow> Some (ies, ies_len)
      | Some (Some (target, target_len)) \<Rightarrow>
          if target_len = 0 then Some (ies, ies_len)
          else if ies_len < target + target_len then None
          else (case do {
              remain \<leftarrow> get_sub ies (target + target_len) (ies_len - (target + target_len));
              ies \<leftarrow> put_sub ies target remain;
              put_sub ies (target + length remain) (replicate target_len 0) } of
            None \<Rightarrow> None
          | Some ies' \<Rightarrow> del_loop search upd (upd ies' target_len) (ies_len - target_len)))"
  by pat_completeness auto
termination by (relation "measure (\<lambda>(_, _, _, ies_len). ies_len)") auto

declare del_loop.simps [simp del]

definition rtw_del_p2p_ie :: "bytes \<Rightarrow> nat \<Rightarrow> (bytes \<times> nat) option" where
  "rtw_del_p2p_ie ies ies_len_ori = del_loop (\<lambda>b l. rtw_get_p2p_ie b (int l)) (\<lambda>b _. b) ies ies_len_ori"

definition rtw_del_wfd_ie :: "bytes \<Rightarrow> nat \<Rightarrow> (bytes \<times> nat) option" where
  "rtw_del_wfd_ie ies ies_len_ori = del_loop (\<lambda>b l. rtw_get_wfd_ie b (int l)) (\<lambda>b _. b) ies ies_len_ori"

text \<open>One round on a buffer that holds three parts, the middle of which is found.\<close>

lemma del_loop_step:
  assumes "search (X @ E @ Y @ q) (length X + length E + length Y) = Some (Some (length X, length E))" "E \<noteq> []"
  shows "del_loop search upd (X @ E @ Y @ q) (length X + length E + length Y) =
    del_loop search upd (upd (X @ Y @ replicate (length E) 0 @ q) (length E)) (length X + length Y)"
proof -
  have "put_sub (X @ E @ Y @ q) (length X) Y = Some (X @ Y @ drop (length Y) (E @ Y @ q))"
    by (simp add: put_sub_def)
  moreover have "put_sub (X @ Y @ drop (length Y) (E @ Y @ q)) (length X + length Y) (replicate (length E) 0) =
      Some (X @ Y @ replicate (length E) 0 @ q)"
    by (simp add: put_sub_def add_ac)
  moreover have "get_sub (X @ E @ Y @ q) (length X + length E) (length Y) = Some Y"
    by (simp add: get_sub_def)
  ultimately show ?thesis using assms
    by (subst del_loop.simps) (simp add: bind.bind_lunit)
qed


text \<open>The contract under which the loop is the filter of the element list: \<open>hdr n\<close> is what stands in front of
  elements of \<open>n\<close> bytes.\<close>

locale deletable =
  fixes enc :: "'e \<Rightarrow> bytes" and search :: "bytes \<Rightarrow> nat \<Rightarrow> ptr_len option" and upd :: "bytes \<Rightarrow> nat \<Rightarrow> bytes"
    and hdr :: "nat \<Rightarrow> bytes" and h :: nat and wf :: "'e \<Rightarrow> bool" and P :: "'e \<Rightarrow> bool" and ok :: "nat \<Rightarrow> bool"
  assumes hdr_len: "length (hdr n) = h"
    and search_first: "list_all wf es \<Longrightarrow> ok (length (enc_list enc es)) \<Longrightarrow>
      search (hdr (length (enc_list enc es)) @ enc_list enc es @ q) (h + length (enc_list enc es)) =
        Some (map_option (\<lambda>(k, e). (h + k, length (enc e))) (find_elem enc P es))"
    and upd_hdr: "k \<le> n \<Longrightarrow> upd (hdr n @ r) k = hdr (n - k) @ r"
    and enc_nonempty: "enc e \<noteq> []"
    and ok_mono: "ok n \<Longrightarrow> m \<le> n \<Longrightarrow> ok m"
begin

lemma del_loop_filter:
  assumes "list_all wf es" "ok (length (enc_list enc es))"
  shows "del_loop search upd (hdr (length (enc_list enc es)) @ enc_list enc es @ q) (h + length (enc_list enc es)) =
    (let fs = filter (\<lambda>e. \<not> P e) es; n = length (enc_list enc fs) in
     Some (hdr n @ enc_list enc fs @ replicate (length (enc_list enc es) - n) 0 @ q, h + n))"
  using assms
proof (induction "length es" arbitrary: es q rule: less_induct)
  case less
  let ?n = "length (enc_list enc es)"
  note get = search_first [OF less.prems, of q]
  show ?case
  proof (cases "find_elem enc P es")
    case None
    then have "filter (\<lambda>e. \<not> P e) es = es" by (simp add: find_elem_None list_all_iff filter_id_conv)
    then show ?thesis using get None by (subst del_loop.simps) (simp add: Let_def)
  next
    case (Some r)
    then obtain k e where f: "find_elem enc P es = Some (k, e)" by (cases r) simp
    then obtain xs ys where es: "es = xs @ e # ys" "P e" "list_all (\<lambda>x. \<not> P x) xs" "k = length (enc_list enc xs)"
      by (rule find_elem_SomeE)
    define X where "X = enc_list enc xs"
    define Y where "Y = enc_list enc ys"
    let ?E = "enc e" and ?fs = "filter (\<lambda>e. \<not> P e) (xs @ ys)"
    have n: "?n = length X + length ?E + length Y" by (simp add: es(1) X_def Y_def)
    have wf: "list_all wf (xs @ ys)" "ok (length (enc_list enc (xs @ ys)))"
      using less.prems ok_mono n by (auto simp: es(1) X_def Y_def)
    have "del_loop search upd (hdr ?n @ enc_list enc es @ q) (h + ?n) =
        del_loop search upd (upd (hdr ?n @ X @ Y @ replicate (length ?E) 0 @ q) (length ?E)) (length (hdr ?n @ X) + length Y)"
      using del_loop_step [of search "hdr ?n @ X" ?E Y q upd] get f enc_nonempty [of e] es(4)
      by (simp add: n hdr_len es(1) X_def [symmetric] Y_def [symmetric] add_ac)
    also have "upd (hdr ?n @ X @ Y @ replicate (length ?E) 0 @ q) (length ?E) =
        hdr (length (enc_list enc (xs @ ys))) @ enc_list enc (xs @ ys) @ replicate (length ?E) 0 @ q"
      using upd_hdr [of "length ?E" ?n "X @ Y @ replicate (length ?E) 0 @ q"] by (simp add: n X_def Y_def)
    also have "length (hdr ?n @ X) + length Y = h + length (enc_list enc (xs @ ys))"
      by (simp add: hdr_len X_def Y_def)
    also have "del_loop search upd (hdr (length (enc_list enc (xs @ ys))) @ enc_list enc (xs @ ys) @ replicate (length ?E) 0 @ q)
        (h + length (enc_list enc (xs @ ys))) =
      (let n = length (enc_list enc ?fs) in
       Some (hdr n @ enc_list enc ?fs @ replicate (length (enc_list enc (xs @ ys)) - n) 0 @ replicate (length ?E) 0 @ q, h + n))"
      using less.hyps [of "xs @ ys" "replicate (length ?E) 0 @ q"] wf es(1) by (simp add: Let_def)
    finally have run: "del_loop search upd (hdr ?n @ enc_list enc es @ q) (h + ?n) = \<dots>" .
    have z: "replicate (length (enc_list enc (xs @ ys)) - m) 0 @ replicate (length ?E) 0 @ q = replicate (?n - m) (0::u8) @ q"
      if "m \<le> length (enc_list enc (xs @ ys))" for m
      using that by (simp add: n X_def Y_def append_assoc [symmetric] replicate_add [symmetric] del: append_assoc)
    have "length (enc_list enc ?fs) \<le> length (enc_list enc (xs @ ys))"
      by (rule enc_list_filter_le)
    from z [OF this] show ?thesis using run es(2) by (simp add: Let_def es(1))
  qed
qed

end

interpretation del_p2p: deletable enc_ie "\<lambda>b l. rtw_get_p2p_ie b (int l)" "\<lambda>b _. b" "\<lambda>_. []" 0
  "vendor_fits p2p_oui" "is_vendor p2p_oui" "\<lambda>n. n \<le> MAX_IE_SZ"
  by unfold_locales (auto simp: vendor_searches_encoded search_result_def enc_ie_def)

interpretation del_wfd: deletable enc_ie "\<lambda>b l. rtw_get_wfd_ie b (int l)" "\<lambda>b _. b" "\<lambda>_. []" 0
  "vendor_fits wfd_oui" "is_vendor wfd_oui" "\<lambda>n. n \<le> MAX_IE_SZ"
  by unfold_locales (auto simp: vendor_searches_encoded search_result_def enc_ie_def)

text \<open>On at most 768 bytes of well-formed elements rtw_del_p2p_ie always ends inside the buffer: it
  removes every P2P element and nothing else, returns the length of what is left, and clears exactly the
  bytes that became free; rtw_get_p2p_ie finds nothing afterwards.\<close>

theorem del_p2p_ie_filters:
  assumes "list_all (vendor_fits p2p_oui) es" "length (enc_list enc_ie es) \<le> MAX_IE_SZ"
    and "fs = filter (\<lambda>e. \<not> is_vendor p2p_oui e) es" "n = length (enc_list enc_ie fs)"
  shows "rtw_del_p2p_ie (enc_list enc_ie es @ q) (length (enc_list enc_ie es)) =
      Some (enc_list enc_ie fs @ replicate (length (enc_list enc_ie es) - n) 0 @ q, n)
    \<and> rtw_get_p2p_ie (enc_list enc_ie fs @ replicate (length (enc_list enc_ie es) - n) 0 @ q) (int n) = Some None"
proof
  show "rtw_del_p2p_ie (enc_list enc_ie es @ q) (length (enc_list enc_ie es)) =
      Some (enc_list enc_ie fs @ replicate (length (enc_list enc_ie es) - n) 0 @ q, n)"
    using del_p2p.del_loop_filter [OF assms(1,2), of q] assms(3,4) by (simp add: rtw_del_p2p_ie_def Let_def)
  have "list_all (vendor_fits p2p_oui) fs" "length (enc_list enc_ie fs) \<le> MAX_IE_SZ"
    using assms(1-3) enc_list_filter_le [of enc_ie _ es] by (auto simp: list_all_iff intro: order_trans)
  moreover have "find_elem enc_ie (is_vendor p2p_oui) fs = None" by (simp add: assms(3) find_elem_None list_all_iff)
  ultimately show "rtw_get_p2p_ie (enc_list enc_ie fs @ replicate (length (enc_list enc_ie es) - n) 0 @ q) (int n) = Some None"
    by (simp add: vendor_searches_encoded(2) assms(4) search_result_def)
qed

theorem del_p2p_ie_filters_witness:
  "rtw_del_p2p_ie (enc_list enc_ie [IE 221 [0x50, 0x6F, 0x9A, 9, 1], IE 7 [3], IE 221 [0x50, 0x6F, 0x9A, 9]] @ [5]) 16 =
    Some ([7, 1, 3] @ replicate 13 0 @ [5], 3)"
proof -
  have "list_all (vendor_fits p2p_oui) [IE 221 [0x50, 0x6F, 0x9A, 9, 1], IE 7 [3], IE 221 [0x50, 0x6F, 0x9A, 9]]"
    by (simp add: vendor_fits_def p2p_oui_def oui_fits_def wf_ie_def)
  from del_p2p_ie_filters [OF this _ refl refl, of "[5]"] show ?thesis
    by (simp add: is_vendor_def p2p_oui_def MAX_IE_SZ_def enc_ie_def numeral_eq_Suc)
qed

section \<open>WPA, RSN and WAPI elements\<close>

definition le16_at :: "bytes \<Rightarrow> nat \<Rightarrow> u16 option" where
  "le16_at buf off = do {
     lo \<leftarrow> rd buf off;
     hi \<leftarrow> rd buf (off + 1);
     Some (push_bit 8 (ucast hi) OR ucast lo) }"

function wpa_ie_loop :: "bytes \<Rightarrow> int \<Rightarrow> nat \<Rightarrow> ptr_len option" where
  "wpa_ie_loop pie limit pbuf =
     (case rtw_get_ie (drop pbuf pie) 0xdd (limit - int pbuf) of
        None \<Rightarrow> None
      | Some None \<Rightarrow> Some None
      | Some (Some (off, len)) \<Rightarrow>
          (let p = pbuf + off in
           case oui_test pie (p + 2) (Some [0x00, 0x50, 0xf2, 0x01]) of None \<Rightarrow> None
           | Some oui \<Rightarrow>
             (case (if oui then map_option (\<lambda>v. v = 1) (le16_at pie (p + 6)) else Some False) of None \<Rightarrow> None
              | Some True \<Rightarrow> Some (Some (p, len))
              | Some False \<Rightarrow>
                  if limit - int p - 2 - int len \<le> 0 then Some None
                  else wpa_ie_loop pie limit (p + (2 + len)))))"
  by pat_completeness auto
termination by (relation "measure (\<lambda>(_, limit, pbuf). nat (limit - int pbuf))") auto

declare wpa_ie_loop.simps [simp del]

definition rtw_get_wpa_ie :: "bytes \<Rightarrow> int \<Rightarrow> ptr_len option" where
  "rtw_get_wpa_ie pie limit = wpa_ie_loop pie limit 0"

definition rtw_get_wpa2_ie :: "bytes \<Rightarrow> int \<Rightarrow> ptr_len option" where
  "rtw_get_wpa2_ie pie limit = rtw_get_ie pie 0x30 limit"

text \<open>A destination that may be the null pointer.\<close>

definition copy_opt :: "bytes \<Rightarrow> nat \<Rightarrow> nat \<Rightarrow> bytes option \<Rightarrow> bytes option option" where
  "copy_opt src off n dst = (case dst of None \<Rightarrow> Some None
     | Some d \<Rightarrow> map_option Some (Option.bind (get_sub src off n) (put_sub d 0)))"

text \<open>Both loops go on after a match, so the last match is what remains in the destination (over the bytes of an
  earlier longer one) and in the length.\<close>

function wapi_loop :: "bytes \<Rightarrow> nat \<Rightarrow> nat \<Rightarrow> bytes option \<Rightarrow> u16 \<Rightarrow> (bytes option \<times> u16) option" where
  "wapi_loop in_ie in_len cnt wapi_ie wapi_len =
     (if \<not> cnt < in_len then Some (wapi_ie, wapi_len)
      else case rd in_ie cnt of None \<Rightarrow> None
      | Some authmode \<Rightarrow>
        (case (if authmode = 68 then do {
                 a \<leftarrow> oui_test in_ie (cnt + 6) (Some [0x0, 0x14, 0x72, 0x01]);
                 b \<leftarrow> oui_test in_ie (cnt + 6) (Some [0x0, 0x14, 0x72, 0x02]);
                 Some (a \<or> b) } else Some False) of None \<Rightarrow> None
         | Some match \<Rightarrow>
           (case rd in_ie (cnt + 1) of None \<Rightarrow> None
            | Some len \<Rightarrow>
              if match then
                (case copy_opt in_ie cnt (unat len + 2) wapi_ie of None \<Rightarrow> None
                 | Some wapi_ie' \<Rightarrow> wapi_loop in_ie in_len (cnt + (unat len + 2)) wapi_ie' (word_of_nat (unat len + 2)))
              else wapi_loop in_ie in_len (cnt + (unat len + 2)) wapi_ie wapi_len)))"
  by pat_completeness auto
termination by (relation "measure (\<lambda>(_, in_len, cnt, _). in_len - cnt)") auto

declare wapi_loop.simps [simp del]

definition rtw_get_wapi_ie :: "bytes \<Rightarrow> nat \<Rightarrow> bytes option \<Rightarrow> (bytes option \<times> u16) option" where
  "rtw_get_wapi_ie in_ie in_len wapi_ie =
     (if in_len = 0 then Some (wapi_ie, 0) else wapi_loop in_ie in_len 12 wapi_ie 0)"

record sec_ies =
  rsn_ie :: "bytes option"
  rsn_len :: u16
  wpa_ie :: "bytes option"
  wpa_len :: u16

function sec_loop :: "bytes \<Rightarrow> nat \<Rightarrow> nat \<Rightarrow> sec_ies \<Rightarrow> sec_ies option" where
  "sec_loop in_ie in_len cnt out =
     (if \<not> cnt < in_len then Some out
      else case rd in_ie cnt of None \<Rightarrow> None
      | Some authmode \<Rightarrow>
        (case (if authmode = 0xdd then oui_test in_ie (cnt + 2) (Some [0x0, 0x50, 0xf2, 0x01]) else Some False) of None \<Rightarrow> None
         | Some wpa \<Rightarrow>
           (case rd in_ie (cnt + 1) of None \<Rightarrow> None
            | Some len \<Rightarrow>
              (let n = unat len + 2 in
               if wpa then
                 (case copy_opt in_ie cnt n (wpa_ie out) of None \<Rightarrow> None
                  | Some d \<Rightarrow> sec_loop in_ie in_len (cnt + n) (out\<lparr>wpa_ie := d, wpa_len := word_of_nat n\<rparr>))
               else if authmode = 0x30 then
                 (case copy_opt in_ie cnt n (rsn_ie out) of None \<Rightarrow> None
                  | Some d \<Rightarrow> sec_loop in_ie in_len (cnt + n) (out\<lparr>rsn_ie := d, rsn_len := word_of_nat n\<rparr>))
               else sec_loop in_ie in_len (cnt + n) out))))"
  by pat_completeness auto
termination by (relation "measure (\<lambda>(_, in_len, cnt, _). in_len - cnt)") (auto simp: Let_def)

declare sec_loop.simps [simp del]

definition rtw_get_sec_ie :: "bytes \<Rightarrow> nat \<Rightarrow> sec_ies \<Rightarrow> (sec_ies \<times> int) option" where
  "rtw_get_sec_ie in_ie in_len out =
     map_option (\<lambda>out. (out, int (unat (rsn_len out)) + int (unat (wpa_len out)))) (sec_loop in_ie in_len 12 out)"

section \<open>Merging P2P elements\<close>

text \<open>\<open>i\<close> is a signed int compared with an unsigned length; \<open>len\<close> is an int in the first loop and a byte in the
  second, where the length byte of a P2P element shorter than its organisation id wraps.\<close>

function merged_len_loop :: "bytes \<Rightarrow> nat \<Rightarrow> nat \<Rightarrow> int \<Rightarrow> int option" where
  "merged_len_loop in_ie in_len i len =
     (if \<not> i < in_len then Some len
      else case rd in_ie i of None \<Rightarrow> None
      | Some eid \<Rightarrow>
        (case (if eid = 221 then oui_test in_ie (i + 2) (Some p2p_oui) else Some False) of None \<Rightarrow> None
         | Some p2p \<Rightarrow>
           (case rd in_ie (i + 1) of None \<Rightarrow> None
            | Some n \<Rightarrow> merged_len_loop in_ie in_len (i + (unat n + 2)) (if p2p then len + (int (unat n) - 4) else len))))"
  by pat_completeness auto
termination by (relation "measure (\<lambda>(_, in_len, i, _). in_len - i)") auto

declare merged_len_loop.simps [simp del]

definition rtw_get_p2p_merged_ies_len :: "bytes \<Rightarrow> nat \<Rightarrow> u32 option" where
  "rtw_get_p2p_merged_ies_len in_ie in_len = map_option (\<lambda>len. word_of_int (len + 4)) (merged_len_loop in_ie in_len 0 0)"

function merge_loop :: "bytes \<Rightarrow> nat \<Rightarrow> nat \<Rightarrow> bytes \<Rightarrow> nat \<Rightarrow> u8 \<Rightarrow> (bytes \<times> u8) option" where
  "merge_loop in_ie in_len i out merge_ie len =
     (if \<not> i < in_len then Some (out, len)
      else case rd in_ie i of None \<Rightarrow> None
      | Some eid \<Rightarrow>
        (case (if eid = 221 then oui_test in_ie (i + 2) (Some p2p_oui) else Some False) of None \<Rightarrow> None
         | Some p2p \<Rightarrow>
           (case rd in_ie (i + 1) of None \<Rightarrow> None
            | Some n \<Rightarrow>
              if p2p then
                (if unat n < 4 then None
                 else case Option.bind (get_sub in_ie (i + 6) (unat n - 4)) (put_sub out merge_ie) of None \<Rightarrow> None
                 | Some out' \<Rightarrow> merge_loop in_ie in_len (i + (unat n + 2)) out' (merge_ie + (unat n - 4)) (len + (n - 4)))
              else merge_loop in_ie in_len (i + (unat n + 2)) out merge_ie len)))"
  by pat_completeness auto
termination by (relation "measure (\<lambda>(_, in_len, i, _). in_len - i)") auto

declare merge_loop.simps [simp del]

definition rtw_p2p_merge_ies :: "bytes \<Rightarrow> nat \<Rightarrow> bytes \<Rightarrow> (bytes \<times> int) option" where
  "rtw_p2p_merge_ies in_ie in_len merge_ie = do {
     out \<leftarrow> put_sub merge_ie 0 ([0xDD, 0x00] @ p2p_oui);
     (out, len) \<leftarrow> merge_loop in_ie in_len 0 out 6 0;
     Some (out, int (unat len) + 4) }"

end
