(* ===== verification/Attr.thy ===== *)
theory Attr
  imports VendorIe
begin

text \<open>
  Attributes inside WPS, P2P and WFD elements (core/rtw_ieee80211.c): an id, a 16-bit length and that many bytes;
  little-endian length and one id byte for P2P, big-endian length and one id byte for WFD, big-endian
  length and id for WPS. The size of an attribute is computed in 16 bits from its length field, so it wraps.
\<close>

section \<open>P2P and WFD attributes\<close>

definition le16_val :: "u8 \<Rightarrow> u8 \<Rightarrow> u16" where "le16_val b0 b1 = push_bit 8 (ucast b1) OR ucast b0"
definition be16_val :: "u8 \<Rightarrow> u8 \<Rightarrow> u16" where "be16_val b0 b1 = push_bit 8 (ucast b0) OR ucast b1"

text \<open>One turn of the loops of \<open>rtw_get_p2p_attr\<close> and \<open>rtw_get_wfd_attr\<close>, which differ in the byte order of the length.\<close>

definition attr_turn :: "(u8 \<Rightarrow> u8 \<Rightarrow> u16) \<Rightarrow> bytes \<Rightarrow> nat \<Rightarrow> u8 \<Rightarrow> nat \<Rightarrow> verdict" where
  "attr_turn get16 ie ielen target_attr_id off =
     (if \<not> off + 3 \<le> ielen then Stop
      else case (rd ie off, rd ie (off + 1), rd ie (off + 2)) of
        (Some attr_id, Some b1, Some b2) \<Rightarrow>
          (let attr_len = get16 b1 b2 + 3 in
           if ielen < off + unat attr_len then Stop
           else if attr_id = target_attr_id then Hit (unat attr_len) else Skip (unat attr_len))
      | _ \<Rightarrow> Bad)"

definition get_attr :: "(u8 \<Rightarrow> u8 \<Rightarrow> u16) \<Rightarrow> bytes \<Rightarrow> bytes \<Rightarrow> nat \<Rightarrow> u8 \<Rightarrow> ptr_len option" where
  "get_attr get16 oui ie ielen target_attr_id =
     (if ielen \<le> 6 then Some None
      else case rd ie 0 of None \<Rightarrow> None
      | Some eid \<Rightarrow>
        (case (if eid = 221 then oui_test ie 2 (Some oui) else Some False) of None \<Rightarrow> None
         | Some False \<Rightarrow> Some None
         | Some True \<Rightarrow> walk_ptr (tlv_walk (attr_turn get16 ie ielen target_attr_id) 6)))"

definition rtw_get_p2p_attr :: "bytes \<Rightarrow> nat \<Rightarrow> u8 \<Rightarrow> ptr_len option" where
  "rtw_get_p2p_attr p2p_ie p2p_ielen target_attr_id = get_attr le16_val p2p_oui p2p_ie p2p_ielen target_attr_id"

definition rtw_get_wfd_attr :: "bytes \<Rightarrow> nat \<Rightarrow> u8 \<Rightarrow> ptr_len option" where
  "rtw_get_wfd_attr wfd_ie wfd_ielen target_attr_id = get_attr be16_val wfd_oui wfd_ie wfd_ielen target_attr_id"

text \<open>The content behind the three header bytes; its length is a 32-bit subtraction. \<open>buf_content\<close> may be the null
  pointer, else the content is copied to it.\<close>

definition attr_content :: "nat \<Rightarrow> bytes \<Rightarrow> ptr_len option \<Rightarrow> bytes option \<Rightarrow> ((nat \<times> u32) option \<times> bytes option) option" where
  "attr_content header ie found buf_content = (case found of
      None \<Rightarrow> None
    | Some None \<Rightarrow> Some (None, buf_content)
    | Some (Some (attr_ptr, attr_len)) \<Rightarrow>
        if attr_len = 0 then Some (None, buf_content)
        else (let len_content = (word_of_nat attr_len - word_of_nat header :: u32) in
          map_option (\<lambda>buf. (Some (attr_ptr + header, len_content), buf))
            (copy_opt ie (attr_ptr + header) (unat len_content) buf_content)))"

definition rtw_get_p2p_attr_content :: "bytes \<Rightarrow> nat \<Rightarrow> u8 \<Rightarrow> bytes option \<Rightarrow> ((nat \<times> u32) option \<times> bytes option) option" where
  "rtw_get_p2p_attr_content p2p_ie p2p_ielen target_attr_id buf_content =
     attr_content 3 p2p_ie (rtw_get_p2p_attr p2p_ie p2p_ielen target_attr_id) buf_content"

definition rtw_get_wfd_attr_content :: "bytes \<Rightarrow> nat \<Rightarrow> u8 \<Rightarrow> bytes option \<Rightarrow> ((nat \<times> u32) option \<times> bytes option) option" where
  "rtw_get_wfd_attr_content wfd_ie wfd_ielen target_attr_id buf_content =
     attr_content 3 wfd_ie (rtw_get_wfd_attr wfd_ie wfd_ielen target_attr_id) buf_content"

definition rtw_set_p2p_attr_content :: "bytes \<Rightarrow> nat \<Rightarrow> u8 \<Rightarrow> u16 \<Rightarrow> bytes option \<Rightarrow> (bytes \<times> u32) option" where
  "rtw_set_p2p_attr_content buf pbuf attr_id attr_len pdata_attr = do {
     buf \<leftarrow> put_sub buf pbuf [attr_id];
     buf \<leftarrow> put_sub buf (pbuf + 1) [ucast attr_len, ucast (drop_bit 8 attr_len)];
     buf \<leftarrow> (case pdata_attr of None \<Rightarrow> Some buf
        | Some d \<Rightarrow> Option.bind (get_sub d 0 (unat attr_len)) (put_sub buf (pbuf + 3)));
     Some (buf, ucast attr_len + 3) }"

text \<open>The attribute versions of the deletion loop also lower the length byte of the element.\<close>

definition lower_length :: "bytes \<Rightarrow> nat \<Rightarrow> bytes" where
  "lower_length ie n = ie[1 := ie ! 1 - word_of_nat n]"

definition rtw_del_p2p_attr :: "bytes \<Rightarrow> nat \<Rightarrow> u8 \<Rightarrow> (bytes \<times> nat) option" where
  "rtw_del_p2p_attr ie ielen_ori attr_id = del_loop (\<lambda>b l. rtw_get_p2p_attr b l attr_id) lower_length ie ielen_ori"

definition rtw_del_wfd_attr :: "bytes \<Rightarrow> nat \<Rightarrow> u8 \<Rightarrow> (bytes \<times> nat) option" where
  "rtw_del_wfd_attr ie ielen_ori attr_id = del_loop (\<lambda>b l. rtw_get_wfd_attr b l attr_id) lower_length ie ielen_ori"

section \<open>Encoded attributes\<close>

datatype attr = Attr (attr_id: u8) (attr_data: bytes)

definition le16_enc :: "nat \<Rightarrow> bytes" where
  "le16_enc n = [word_of_nat n, ucast (drop_bit 8 (word_of_nat n :: u16))]"

definition be16_enc :: "nat \<Rightarrow> bytes" where
  "be16_enc n = [ucast (drop_bit 8 (word_of_nat n :: u16)), word_of_nat n]"

definition enc_attr :: "(nat \<Rightarrow> bytes) \<Rightarrow> attr \<Rightarrow> bytes" where
  "enc_attr put16 a = attr_id a # put16 (length (attr_data a)) @ attr_data a"

text \<open>Three bytes of header and the data have a size that fits in 16 bits.\<close>

definition wf_attr :: "attr \<Rightarrow> bool" where
  "wf_attr a \<longleftrightarrow> length (attr_data a) + 3 < 65536"

lemma ucast_nat_u16: "(word_of_nat n :: u8) = ucast (word_of_nat n :: u16)"
  by (rule bit_word_eqI) (simp add: bit_ucast_iff bit_of_nat_iff)

lemma join16: "push_bit 8 (ucast (ucast (drop_bit 8 (w::u16)) :: u8)) OR ucast (ucast w :: u8) = w"
  by (rule bit_word_eqI) (auto simp: bit_simps)

lemma attr_turn_end: "limit - off < 3 \<Longrightarrow> attr_turn get16 buf limit i off = Stop"
  by (auto simp: attr_turn_def)

definition vendor_hdr :: "bytes \<Rightarrow> nat \<Rightarrow> bytes" where
  "vendor_hdr oui n = [221, word_of_nat (n + 4)] @ oui"

text \<open>The contract of a 16-bit length field: what is written is read back.\<close>

locale attr_codec =
  fixes get16 :: "u8 \<Rightarrow> u8 \<Rightarrow> u16" and put16 :: "nat \<Rightarrow> bytes" and oui :: bytes
  assumes put16_length: "length (put16 n) = 2"
    and get_put16: "get16 (put16 n ! 0) (put16 n ! 1) = word_of_nat n"
    and oui_length: "length oui = 4"
begin

lemma length_enc_attr [simp]: "length (enc_attr put16 a) = length (attr_data a) + 3"
  by (simp add: enc_attr_def put16_length)

lemma turn_encoded:
  assumes "wf_attr a" "3 \<le> limit - length p" "length p + length (enc_attr put16 a) \<le> limit"
  shows "attr_turn get16 (p @ enc_attr put16 a @ q) limit i (length p) =
    (if attr_id a = i then Hit (length (attr_data a) + 3) else Skip (length (enc_attr put16 a)))"
proof -
  let ?n = "length (attr_data a)"
  obtain x y where xy: "put16 ?n = [x, y]" "get16 x y = word_of_nat ?n"
    using put16_length [of ?n] get_put16 [of ?n] by (auto simp: length_Suc_conv numeral_2_eq_2)
  have "unat (word_of_nat ?n + 3 :: u16) = ?n + 3"
    using assms(1) unat_of_nat [where 'a = 16, of "?n + 3"] by (simp add: wf_attr_def)
  then show ?thesis using assms(2,3) length_enc_attr [of a]
    rd_append_right [of p "enc_attr put16 a @ q" 0] rd_append_right [of p "enc_attr put16 a @ q" 1]
    rd_append_right [of p "enc_attr put16 a @ q" 2]
    by (simp add: attr_turn_def xy enc_attr_def rd_def Let_def nth_append)
qed

end

sublocale attr_codec \<subseteq> tlv_format "enc_attr put16" "\<lambda>_. wf_attr" "\<lambda>a. length (attr_data a) + 3" "attr_turn get16"
  "\<lambda>i a. attr_id a = i" 3 "\<lambda>_. True"
  by unfold_locales (simp_all add: turn_encoded attr_turn_end)

context attr_codec begin

lemma hdr_length [simp]: "length (vendor_hdr oui n) = 6"
  by (simp add: vendor_hdr_def oui_length)

lemma get_attr_first:
  assumes "list_all wf_attr as"
  shows "get_attr get16 oui (vendor_hdr oui n @ enc_list (enc_attr put16) as @ q) (6 + length (enc_list (enc_attr put16) as)) i =
    Some (map_option (\<lambda>(k, a). (6 + k, length (enc_attr put16 a))) (find_elem (enc_attr put16) (\<lambda>a. attr_id a = i) as))"
proof (cases "as = []")
  case True
  then show ?thesis by (simp add: get_attr_def)
next
  case False
  then have "0 < length (enc_list (enc_attr put16) as)" by (cases as) auto
  moreover have "oui_test (vendor_hdr oui n @ r) 2 (Some oui) = Some True" for r
    by (simp add: oui_test_def get_sub_def vendor_hdr_def numeral_2_eq_2 oui_length)
  moreover have "rd (vendor_hdr oui n @ r) 0 = Some 221" for r by (simp add: rd_def vendor_hdr_def)
  ultimately show ?thesis using walk_encoded [of as "vendor_hdr oui n" q i] assms
    by (auto simp: get_attr_def split: option.splits)
qed

end

locale attr_target = attr_codec +
  fixes target :: u8

sublocale attr_target \<subseteq> deletable "enc_attr put16" "\<lambda>b l. get_attr get16 oui b l target" lower_length "vendor_hdr oui" 6
  wf_attr "\<lambda>a. attr_id a = target" "\<lambda>_. True"
proof unfold_locales
  fix k n :: nat and r
  assume "k \<le> n"
  then have "(word_of_nat (n + 4) :: u8) - word_of_nat k = word_of_nat (n - k + 4)"
    by (simp add: of_nat_diff)
  then show "lower_length (vendor_hdr oui n @ r) k = vendor_hdr oui (n - k) @ r"
    by (simp add: lower_length_def vendor_hdr_def)
qed (simp_all add: get_attr_first enc_attr_def)

interpretation p2p: attr_codec le16_val le16_enc p2p_oui
  by unfold_locales (simp_all add: le16_val_def le16_enc_def ucast_nat_u16 join16 p2p_oui_def)

interpretation wfd: attr_codec be16_val be16_enc wfd_oui
  by unfold_locales (simp_all add: be16_val_def be16_enc_def ucast_nat_u16 join16 wfd_oui_def)

interpretation del_p2p_attr: attr_target le16_val le16_enc p2p_oui i for i
  by unfold_locales

interpretation del_wfd_attr: attr_target be16_val be16_enc wfd_oui i for i
  by unfold_locales

section \<open>WPS attributes\<close>

definition wps_attr_turn :: "bytes \<Rightarrow> nat \<Rightarrow> u16 \<Rightarrow> nat \<Rightarrow> verdict" where
  "wps_attr_turn wps_ie wps_ielen target_attr_id off =
     (if \<not> off < wps_ielen then Stop
      else case (rd wps_ie off, rd wps_ie (off + 1), rd wps_ie (off + 2), rd wps_ie (off + 3)) of
        (Some b0, Some b1, Some b2, Some b3) \<Rightarrow>
          (let attr_len = be16_val b2 b3 + 4 in
           if be16_val b0 b1 = target_attr_id then Hit (unat attr_len) else Skip (unat attr_len))
      | _ \<Rightarrow> Bad)"

definition rtw_get_wps_attr :: "bytes \<Rightarrow> nat \<Rightarrow> u16 \<Rightarrow> ptr_len option" where
  "rtw_get_wps_attr wps_ie wps_ielen target_attr_id =
     (case rd wps_ie 0 of None \<Rightarrow> None
      | Some eid \<Rightarrow>
        (case (if eid = 221 then oui_test wps_ie 2 (Some wps_oui) else Some False) of None \<Rightarrow> None
         | Some False \<Rightarrow> Some None
         | Some True \<Rightarrow> walk_ptr (tlv_walk (wps_attr_turn wps_ie wps_ielen target_attr_id) 6)))"

definition rtw_get_wps_attr_content :: "bytes \<Rightarrow> nat \<Rightarrow> u16 \<Rightarrow> bytes option \<Rightarrow> ((nat \<times> u32) option \<times> bytes option) option" where
  "rtw_get_wps_attr_content wps_ie wps_ielen target_attr_id buf_content =
     attr_content 4 wps_ie (rtw_get_wps_attr wps_ie wps_ielen target_attr_id) buf_content"

datatype wps_attr = WAttr (wattr_id: u16) (wattr_data: bytes)

definition enc_wattr :: "wps_attr \<Rightarrow> bytes" where
  "enc_wattr a = [ucast (drop_bit 8 (wattr_id a)), ucast (wattr_id a)] @ be16_enc (length (wattr_data a)) @ wattr_data a"

lemma length_enc_wattr [simp]: "length (enc_wattr a) = length (wattr_data a) + 4"
  by (simp add: enc_wattr_def be16_enc_def)

definition wf_wattr :: "wps_attr \<Rightarrow> bool" where
  "wf_wattr a \<longleftrightarrow> length (wattr_data a) + 4 < 65536"

interpretation wps_attr: tlv_format enc_wattr "\<lambda>_. wf_wattr" "\<lambda>a. length (wattr_data a) + 4" wps_attr_turn
  "\<lambda>i a. wattr_id a = i" 1 "\<lambda>_. True"
proof unfold_locales
  fix P a limit and p q :: bytes
  assume a: "wf_wattr a" "1 \<le> limit - length p"
  let ?n = "length (wattr_data a)"
  have "unat (word_of_nat ?n + 4 :: u16) = ?n + 4"
    using a unat_of_nat [where 'a = 16, of "?n + 4"] by (simp add: wf_wattr_def)
  then show "wps_attr_turn (p @ enc_wattr a @ q) limit P (length p) =
      (if wattr_id a = P then Hit (?n + 4) else Skip (length (enc_wattr a)))"
    using a by (simp add: wps_attr_turn_def enc_wattr_def be16_enc_def rd_def Let_def nth_append be16_val_def
        ucast_nat_u16 join16)
qed (auto simp: wps_attr_turn_def)

lemma rtw_get_wps_attr_encoded:
  assumes "list_all wf_wattr as"
  shows "rtw_get_wps_attr (vendor_hdr wps_oui n @ enc_list enc_wattr as @ q) (6 + length (enc_list enc_wattr as)) i =
    Some (map_option (\<lambda>(k, a). (6 + k, length (wattr_data a) + 4)) (find_elem enc_wattr (\<lambda>a. wattr_id a = i) as))"
proof -
  have "oui_test (vendor_hdr wps_oui n @ r) 2 (Some wps_oui) = Some True" "rd (vendor_hdr wps_oui n @ r) 0 = Some 221"
    "length (vendor_hdr wps_oui n) = 6" for r
    by (simp_all add: oui_test_def get_sub_def rd_def vendor_hdr_def numeral_2_eq_2 wps_oui_def)
  then show ?thesis using wps_attr.walk_encoded [of as "vendor_hdr wps_oui n" q i] assms
    by (auto simp: rtw_get_wps_attr_def split: option.splits)
qed

section \<open>Properties\<close>

lemma attr_content_encoded:
  assumes "length enc_a = length data + h" "put_h @ data = enc_a" "0 < h" "length enc_a < 4294967296" "length data \<le> length dst"
  shows "attr_content h (p @ enc_a @ q) (Some (Some (length p, length enc_a))) (Some dst) =
    Some (Some (length p + h, word_of_nat (length data)), Some (data @ drop (length data) dst))"
proof -
  have "length put_h = h" using assms(1,2) by (metis add_right_imp_eq add.commute length_append)
  then have "get_sub (p @ enc_a @ q) (length p + h) (length data) = Some data"
    unfolding assms(2) [symmetric] by (simp add: get_sub_def)
  moreover have "(word_of_nat (length enc_a) - word_of_nat h :: u32) = word_of_nat (length data)"
    by (simp add: assms(1))
  moreover have "unat (word_of_nat (length data) :: u32) = length data"
    using assms(1,4) by (simp add: unat_of_nat)
  ultimately show ?thesis using assms(1,3,5)
    by (simp add: attr_content_def copy_opt_def put_sub_def Let_def)
qed

lemma rtw_set_p2p_attr_content_enc:
  assumes "length d < 65536" "length d + 3 \<le> length rest"
  shows "rtw_set_p2p_attr_content (p @ rest) (length p) i (word_of_nat (length d)) (Some d) =
    Some (p @ enc_attr le16_enc (Attr i d) @ drop (length d + 3) rest, word_of_nat (length d) + 3)"
proof -
  obtain x y z r where r: "rest = [x, y, z] @ r" "length d \<le> length r"
    using assms(2) by (auto simp: numeral_3_eq_3 Suc_le_length_iff)
  have u: "unat (word_of_nat (length d) :: u16) = length d" "(ucast (word_of_nat (length d) :: u16) :: u32) = word_of_nat (length d)"
    using assms(1) by (simp_all add: word_unat_eq_iff unat_of_nat)
  have dd: "drop (length d + 3) (a # b # c # r) = drop (length d) r" for a b c by (simp add: numeral_3_eq_3)
  show ?thesis using r(2)
    by (simp add: dd rtw_set_p2p_attr_content_def r(1) put_sub_def get_sub_def bind.bind_lunit u enc_attr_def le16_enc_def
        ucast_nat_u16 add_ac)
qed

text \<open>C35: The attribute writer writes the encoding of an attribute, of the returned size, and changes
  nothing else. In a P2P element made of such attributes rtw_get_p2p_attr_content finds the first one with
  the id, points to its data, reports the length of the data and copies exactly the data, or reports that
  there is none; it never reads outside the buffer and always returns.\<close>

theorem p2p_attr_roundtrip:
  assumes "list_all wf_attr as" "\<And>a. a \<in> set as \<Longrightarrow> length (attr_data a) \<le> length dst"
  shows "(\<forall>a \<in> set as. \<forall>p rest. length (attr_data a) + 3 \<le> length rest \<longrightarrow>
      rtw_set_p2p_attr_content (p @ rest) (length p) (attr_id a) (word_of_nat (length (attr_data a))) (Some (attr_data a)) =
        Some (p @ enc_attr le16_enc a @ drop (length (attr_data a) + 3) rest, word_of_nat (length (attr_data a) + 3)))
    \<and> rtw_get_p2p_attr_content (vendor_hdr p2p_oui n @ enc_list (enc_attr le16_enc) as @ q)
        (6 + length (enc_list (enc_attr le16_enc) as)) i (Some dst) =
      Some (case find_elem (enc_attr le16_enc) (\<lambda>a. attr_id a = i) as of
        None \<Rightarrow> (None, Some dst)
      | Some (k, a) \<Rightarrow> (Some (9 + k, word_of_nat (length (attr_data a))), Some (attr_data a @ drop (length (attr_data a)) dst)))"
proof (intro conjI ballI allI impI)
  fix a and p rest :: bytes
  assume a: "a \<in> set as" "length (attr_data a) + 3 \<le> length rest"
  then have "length (attr_data a) < 65536" using assms(1) by (auto simp: list_all_iff wf_attr_def)
  from rtw_set_p2p_attr_content_enc [OF this a(2), of p "attr_id a"]
  show "rtw_set_p2p_attr_content (p @ rest) (length p) (attr_id a) (word_of_nat (length (attr_data a))) (Some (attr_data a)) =
        Some (p @ enc_attr le16_enc a @ drop (length (attr_data a) + 3) rest, word_of_nat (length (attr_data a) + 3))"
    by (simp add: add.commute)
next
  let ?enc = "enc_attr le16_enc" and ?h = "vendor_hdr p2p_oui n"
  have found: "rtw_get_p2p_attr (?h @ enc_list ?enc as @ q) (6 + length (enc_list ?enc as)) i =
      Some (map_option (\<lambda>(k, a). (6 + k, length (?enc a))) (find_elem ?enc (\<lambda>a. attr_id a = i) as))"
    unfolding rtw_get_p2p_attr_def by (rule p2p.get_attr_first [OF assms(1)])
  show "rtw_get_p2p_attr_content (?h @ enc_list ?enc as @ q) (6 + length (enc_list ?enc as)) i (Some dst) =
      Some (case find_elem ?enc (\<lambda>a. attr_id a = i) as of None \<Rightarrow> (None, Some dst)
      | Some (k, a) \<Rightarrow> (Some (9 + k, word_of_nat (length (attr_data a))), Some (attr_data a @ drop (length (attr_data a)) dst)))"
  proof (cases "find_elem ?enc (\<lambda>a. attr_id a = i) as")
    case None
    then show ?thesis using found by (simp add: rtw_get_p2p_attr_content_def attr_content_def)
  next
    case (Some r)
    then obtain k a where f: "find_elem ?enc (\<lambda>a. attr_id a = i) as = Some (k, a)" by (cases r) simp
    then obtain xs ys where as: "as = xs @ a # ys" "k = length (enc_list ?enc xs)" by (rule find_elem_SomeE)
    let ?n = "length (attr_data a)"
    have "wf_attr a" "?n \<le> length dst" using assms by (simp_all add: as(1))
    moreover have "(attr_id a # le16_enc ?n) @ attr_data a = ?enc a" by (simp add: enc_attr_def)
    ultimately have "attr_content 3 ((?h @ enc_list ?enc xs) @ ?enc a @ (enc_list ?enc ys @ q))
        (Some (Some (length (?h @ enc_list ?enc xs), length (?enc a)))) (Some dst) =
      Some (Some (length (?h @ enc_list ?enc xs) + 3, word_of_nat ?n), Some (attr_data a @ drop ?n dst))"
      by (intro attr_content_encoded [where put_h = "attr_id a # le16_enc ?n"]) (auto simp: wf_attr_def)
    then show ?thesis using found f by (simp add: rtw_get_p2p_attr_content_def as add_ac)
  qed
qed

theorem p2p_attr_roundtrip_witness:
  "rtw_get_p2p_attr_content (vendor_hdr p2p_oui 9 @ enc_list (enc_attr le16_enc) [Attr 2 [7], Attr 4 [8, 9]] @ []) 15 4
     (Some [0, 0, 0]) = Some (Some (13, 2), Some [8, 9, 0])"
proof -
  have "list_all wf_attr [Attr 2 [7], Attr 4 [8, 9]]"
    "\<And>a. a \<in> set [Attr 2 [7], Attr 4 [8, 9 :: u8]] \<Longrightarrow> length (attr_data a) \<le> length [0, 0, 0 :: u8]"
    by (auto simp: wf_attr_def)
  from p2p_attr_roundtrip [OF this, of 9 "[]" 4, THEN conjunct2] show ?thesis by simp
qed

text \<open>\<open>rtw_del_p2p_attr\<close> on a P2P element of well-formed attributes removes every attribute with the
  id and nothing else, lowers the length byte of the element to match, returns the new length, clears the
  bytes that became free, and always ends inside the buffer; rtw_del_wfd_attr does the same.\<close>

theorem del_p2p_attr_filters:
  assumes "list_all wf_attr as" "bs = filter (\<lambda>a. attr_id a \<noteq> i) as"
  shows "rtw_del_p2p_attr (vendor_hdr p2p_oui (length (enc_list (enc_attr le16_enc) as)) @ enc_list (enc_attr le16_enc) as @ q)
      (6 + length (enc_list (enc_attr le16_enc) as)) i =
    (let n = length (enc_list (enc_attr le16_enc) bs) in
     Some (vendor_hdr p2p_oui n @ enc_list (enc_attr le16_enc) bs @
       replicate (length (enc_list (enc_attr le16_enc) as) - n) 0 @ q, 6 + n))
    \<and> rtw_del_wfd_attr (vendor_hdr wfd_oui (length (enc_list (enc_attr be16_enc) as)) @ enc_list (enc_attr be16_enc) as @ q)
      (6 + length (enc_list (enc_attr be16_enc) as)) i =
    (let n = length (enc_list (enc_attr be16_enc) bs) in
     Some (vendor_hdr wfd_oui n @ enc_list (enc_attr be16_enc) bs @
       replicate (length (enc_list (enc_attr be16_enc) as) - n) 0 @ q, 6 + n))"
  using del_p2p_attr.del_loop_filter [of as i q] del_wfd_attr.del_loop_filter [of as i q] assms
  by (simp_all add: rtw_del_p2p_attr_def rtw_del_wfd_attr_def rtw_get_p2p_attr_def rtw_get_wfd_attr_def Let_def)

theorem del_p2p_attr_filters_witness:
  "rtw_del_p2p_attr (vendor_hdr p2p_oui 15 @ enc_list (enc_attr le16_enc) [Attr 2 [7], Attr 4 [], Attr 2 [8, 9], Attr 3 []] @ []) 21 2 =
    Some ([221, 10, 0x50, 0x6F, 0x9A, 9, 4, 0, 0, 3, 0, 0, 0, 0, 0, 0, 0, 0, 0, 0, 0], 12)"
  using del_p2p_attr_filters [of "[Attr 2 [7], Attr 4 [], Attr 2 [8, 9], Attr 3 []]" _ 2 "[]", OF _ refl, THEN conjunct1]
  by (simp add: wf_attr_def vendor_hdr_def p2p_oui_def enc_attr_def le16_enc_def Let_def)

lemma le16_val_inj: "le16_val a b = le16_val c d \<longleftrightarrow> a = c \<and> b = d"
proof
  assume e: "le16_val a b = le16_val c d"
  have "ucast (le16_val x y) = x" "ucast (drop_bit 8 (le16_val x y)) = y" for x y
    by (rule bit_word_eqI, simp add: le16_val_def bit_simps)+
  then show "a = c \<and> b = d" using e by metis
qed simp

text \<open>The size that wraps to zero.\<close>

lemma attr_len_zero: "le16_val b1 b2 + 3 = 0 \<longleftrightarrow> b1 = 0xfd \<and> b2 = 0xff"
proof -
  have "le16_val b1 b2 + 3 = 0 \<longleftrightarrow> le16_val b1 b2 = le16_val 0xfd 0xff"
  proof -
    have "x + 3 = 0 \<longleftrightarrow> x = 65533" for x :: u16
    proof
      assume "x + 3 = 0"
      then have "x = - 3" by (simp add: add_eq_0_iff2)
      then show "x = 65533" by simp
    qed simp
    then show ?thesis by (simp add: le16_val_def)
  qed
  then show ?thesis by (simp add: le16_val_inj)
qed

text \<open>C34: The search of a P2P attribute ends on every buffer in which no length field holds 65533: it
  stays inside the given length and what it returns has the id and lies wholly below the length. The one
  excluded value is needed: behind any attributes that do not match, an attribute with another id and the length 65533
  has size 0 in 16 bits, passes the test against the element's length, and the loop never advances again.\<close>

theorem p2p_attr_search_ends:
  assumes "p2p_ielen \<le> length p2p_ie"
    and "\<And>off. 6 \<le> off \<Longrightarrow> off + 3 \<le> p2p_ielen \<Longrightarrow> \<not> (p2p_ie ! (off + 1) = 0xfd \<and> p2p_ie ! (off + 2) = 0xff)"
    and "list_all (\<lambda>a. wf_attr a \<and> attr_id a \<noteq> i) as" "j \<noteq> i" "n + 6 = 9 + length (enc_list (enc_attr le16_enc) as)"
  shows "(\<exists>r. rtw_get_p2p_attr p2p_ie p2p_ielen i = Some r
      \<and> (\<forall>off m. r = Some (off, m) \<longrightarrow> 6 \<le> off \<and> off + m \<le> p2p_ielen \<and> p2p_ie ! off = i))
    \<and> tlv_walk (attr_turn le16_val (vendor_hdr p2p_oui n @ enc_list (enc_attr le16_enc) as @ [j, 0xfd, 0xff]) (n + 6) i) 6 = None"
proof
  let ?t = "attr_turn le16_val p2p_ie p2p_ielen i"
  have skip: "0 < m" if "?t o' = Skip m" "6 \<le> o'" for o' m
    using that assms(1) assms(2) [of o'] attr_len_zero
    by (auto simp: attr_turn_def rd_def Let_def word_unat_eq_iff split: if_splits intro!: gr0I)
  have stop: "?t o' = Stop" if "p2p_ielen \<le> o'" for o' using that by (simp add: attr_turn_def)
  have bad: "?t o' \<noteq> Bad" for o' using assms(1) by (auto simp: attr_turn_def rd_def Let_def)
  have hit: "o' + m \<le> p2p_ielen \<and> p2p_ie ! o' = i" if "?t o' = Hit m" for o' m
    using that by (auto simp: attr_turn_def rd_def Let_def split: if_splits)
  have walk: "\<exists>r. walk_ptr (tlv_walk ?t 6) = Some r \<and> (\<forall>off m. r = Some (off, m) \<longrightarrow> 6 \<le> off \<and> off + m \<le> p2p_ielen \<and> p2p_ie ! off = i)"
    by (rule walk_ptr_total [of 6 ?t p2p_ielen]) (use skip stop bad hit in auto)
  show "\<exists>r. rtw_get_p2p_attr p2p_ie p2p_ielen i = Some r
      \<and> (\<forall>off m. r = Some (off, m) \<longrightarrow> 6 \<le> off \<and> off + m \<le> p2p_ielen \<and> p2p_ie ! off = i)"
    using walk assms(1)
    by (auto simp: rtw_get_p2p_attr_def get_attr_def rd_def oui_test_def get_sub_def p2p_oui_def split: if_splits bool.split)
next
  let ?e = "enc_attr le16_enc" and ?h = "vendor_hdr p2p_oui n" and ?z = "[j, 0xfd, 0xff] :: bytes"
  let ?t = "attr_turn le16_val (?h @ enc_list ?e as @ ?z) (n + 6) i"
  define k where "k = 6 + length (enc_list ?e as)"
  have "tlv_walk ?t (length ?h) = tlv_walk ?t (length ?h + length (enc_list ?e as))"
    using assms(3,5) by (intro p2p.walk_skips) (simp_all add: list_all_iff)
  then have walk_k: "tlv_walk ?t 6 = tlv_walk ?t k" by (simp add: k_def)
  have zero: "le16_val 0xfd 0xff + 3 = 0" by (simp only: attr_len_zero)
  have "?t k = Skip 0"
    using assms(4,5) rd_append_right [of "?h @ enc_list ?e as" ?z 0] rd_append_right [of "?h @ enc_list ?e as" ?z 1]
      rd_append_right [of "?h @ enc_list ?e as" ?z 2]
      zero
    by (simp add: attr_turn_def k_def rd_def Let_def)
  then have "tlv_walk ?t k = None" by (rule tlv_walk_diverges)
  with walk_k show "tlv_walk ?t 6 = None" by simp
qed

theorem p2p_attr_search_ends_witness:
  "rtw_get_p2p_attr [221, 9, 0x50, 0x6F, 0x9A, 9, 2, 2, 0, 5, 6] 11 2 \<noteq> None
   \<and> tlv_walk (attr_turn le16_val ([221, 11, 0x50, 0x6F, 0x9A, 9] @ [4, 1, 0, 7] @ [3, 0xfd, 0xff]) 13 2) 6 = None"
proof -
  let ?b = "[221, 9, 0x50, 0x6F, 0x9A, 9, 2, 2, 0, 5, 6] :: bytes"
  have a: "\<not> (?b ! (off + 1) = 0xfd \<and> ?b ! (off + 2) = 0xff)" if "6 \<le> off" "off + 3 \<le> 11" for off
  proof -
    have "off \<in> {6, 7, 8}" using that by auto
    then show ?thesis by auto
  qed
  have "11 \<le> length ?b" "list_all (\<lambda>a. wf_attr a \<and> attr_id a \<noteq> 2) [Attr 4 [7]]" "(3 :: u8) \<noteq> 2"
    "7 + 6 = 9 + length (enc_list (enc_attr le16_enc) [Attr 4 [7]])"
    by (simp_all add: wf_attr_def)
  from p2p_attr_search_ends [OF this(1) a this(2-4)] show ?thesis
    by (auto simp: vendor_hdr_def p2p_oui_def enc_attr_def le16_enc_def)
qed

end
