(* ===== verification/Rsne.thy ===== *)
theory Rsne
  imports Attr
begin

text \<open>
  The WPA and RSN elements of core/rtw_ieee80211.c: cipher and key management selectors, the parser of the RSN
  element (\<open>rtw_rsne_info_parse\<close>, \<open>rtw_parse_wpa2_ie\<close>) and of the WPA element (\<open>rtw_parse_wpa_ie\<close>).
\<close>

section \<open>Selectors\<close>

definition WPA_CIPHER_NONE :: u32 where "WPA_CIPHER_NONE = 1"
definition WPA_CIPHER_WEP40 :: u32 where "WPA_CIPHER_WEP40 = 2"
definition WPA_CIPHER_WEP104 :: u32 where "WPA_CIPHER_WEP104 = 4"
definition WPA_CIPHER_TKIP :: u32 where "WPA_CIPHER_TKIP = 8"
definition WPA_CIPHER_CCMP :: u32 where "WPA_CIPHER_CCMP = 16"

definition rtw_get_wpa_cipher_suite :: "bytes \<Rightarrow> u32" where
  "rtw_get_wpa_cipher_suite s =
     (if s = [0x00, 0x50, 0xf2, 0] then WPA_CIPHER_NONE
      else if s = [0x00, 0x50, 0xf2, 1] then WPA_CIPHER_WEP40
      else if s = [0x00, 0x50, 0xf2, 2] then WPA_CIPHER_TKIP
      else if s = [0x00, 0x50, 0xf2, 4] then WPA_CIPHER_CCMP
      else if s = [0x00, 0x50, 0xf2, 5] then WPA_CIPHER_WEP104
      else 0)"

definition rtw_get_wpa2_cipher_suite :: "bytes \<Rightarrow> u32" where
  "rtw_get_wpa2_cipher_suite s =
     (if s = [0x00, 0x0f, 0xac, 0] then WPA_CIPHER_NONE
      else if s = [0x00, 0x0f, 0xac, 1] then WPA_CIPHER_WEP40
      else if s = [0x00, 0x0f, 0xac, 2] then WPA_CIPHER_TKIP
      else if s = [0x00, 0x0f, 0xac, 4] then WPA_CIPHER_CCMP
      else if s = [0x00, 0x0f, 0xac, 5] then WPA_CIPHER_WEP104
      else 0)"

text \<open>The last bytes of the key management selectors, each with the number of its bit.\<close>

definition akm_suites :: "(u8 \<times> nat) list" where
  "akm_suites = [(1, 0), (2, 1), (3, 2), (4, 3), (5, 4), (6, 5), (7, 6), (8, 7), (9, 8), (11, 9), (12, 10),
     (14, 11), (15, 12), (16, 13), (17, 14)]"

definition rtw_get_akm_suite_bitmap :: "bytes \<Rightarrow> u32" where
  "rtw_get_akm_suite_bitmap s =
     (case find (\<lambda>(b, _). s = [0x00, 0x0f, 0xac, b]) akm_suites of Some (_, n) \<Rightarrow> push_bit n 1 | None \<Rightarrow> 0)"

section \<open>The RSN element\<close>

text \<open>Pointers are offsets from the start of the element, \<open>None\<close> the null pointer.\<close>

record rsne_info =
  gcs :: "nat option"
  pcs_cnt :: u16
  pcs_list :: "nat option"
  akm_cnt :: u16
  akm_list :: "nat option"
  cap :: "nat option"
  pmkid_cnt :: u16
  pmkid_list :: "nat option"
  gmcs :: "nat option"
  err :: bool

definition rsne_zero :: rsne_info where
  "rsne_zero = \<lparr>gcs = None, pcs_cnt = 0, pcs_list = None, akm_cnt = 0, akm_list = None, cap = None,
     pmkid_cnt = 0, pmkid_list = None, gmcs = None, err = False\<rparr>"

type_synonym rsne_res = "(rsne_info \<times> bool) option"

definition rsne_fail :: "rsne_info \<Rightarrow> rsne_res" where
  "rsne_fail info = Some (info\<lparr>err := True\<rparr>, False)"

text \<open>The test in front of every field: an element may end between two fields, and nowhere else.\<close>

definition rsne_need :: "nat \<Rightarrow> nat \<Rightarrow> nat \<Rightarrow> rsne_info \<Rightarrow> rsne_res \<Rightarrow> rsne_res" where
  "rsne_need ie_len pos n info go =
     (if ie_len < pos + n then (if ie_len \<noteq> pos then rsne_fail info else Some (info, True)) else go)"

definition rsne_gmcs :: "bytes \<Rightarrow> nat \<Rightarrow> nat \<Rightarrow> rsne_info \<Rightarrow> rsne_res" where
  "rsne_gmcs ie ie_len pos info = rsne_need ie_len pos 4 info (Some (info\<lparr>gmcs := Some pos\<rparr>, True))"

definition rsne_pmkid :: "bytes \<Rightarrow> nat \<Rightarrow> nat \<Rightarrow> rsne_info \<Rightarrow> rsne_res" where
  "rsne_pmkid ie ie_len pos info = rsne_need ie_len pos 2 info (do {
     cnt \<leftarrow> le16_at ie pos;
     let pos = pos + 2;
     rsne_need ie_len pos (16 * unat cnt) info
       (rsne_gmcs ie ie_len (pos + 16 * unat cnt) (info\<lparr>pmkid_cnt := cnt, pmkid_list := Some pos\<rparr>)) })"

definition rsne_cap :: "bytes \<Rightarrow> nat \<Rightarrow> nat \<Rightarrow> rsne_info \<Rightarrow> rsne_res" where
  "rsne_cap ie ie_len pos info = rsne_need ie_len pos 2 info
     (rsne_pmkid ie ie_len (pos + 2) (info\<lparr>cap := Some pos\<rparr>))"

definition rsne_akm :: "bytes \<Rightarrow> nat \<Rightarrow> nat \<Rightarrow> rsne_info \<Rightarrow> rsne_res" where
  "rsne_akm ie ie_len pos info = rsne_need ie_len pos 2 info (do {
     cnt \<leftarrow> le16_at ie pos;
     let pos = pos + 2;
     rsne_need ie_len pos (4 * unat cnt) info
       (rsne_cap ie ie_len (pos + 4 * unat cnt) (info\<lparr>akm_cnt := cnt, akm_list := Some pos\<rparr>)) })"

definition rsne_pcs :: "bytes \<Rightarrow> nat \<Rightarrow> nat \<Rightarrow> rsne_info \<Rightarrow> rsne_res" where
  "rsne_pcs ie ie_len pos info = rsne_need ie_len pos 2 info (do {
     cnt \<leftarrow> le16_at ie pos;
     let pos = pos + 2;
     rsne_need ie_len pos (4 * unat cnt) info
       (rsne_akm ie ie_len (pos + 4 * unat cnt) (info\<lparr>pcs_cnt := cnt, pcs_list := Some pos\<rparr>)) })"

definition rtw_rsne_info_parse :: "bytes \<Rightarrow> nat \<Rightarrow> rsne_res" where
  "rtw_rsne_info_parse ie ie_len =
     (if ie_len < 4 then rsne_fail rsne_zero
      else do {
        eid \<leftarrow> rd ie 0;
        len \<leftarrow> rd ie 1;
        if eid \<noteq> 48 \<or> unat len \<noteq> ie_len - 2 then rsne_fail rsne_zero
        else rsne_need ie_len 4 4 rsne_zero (rsne_pcs ie ie_len 8 (rsne_zero\<lparr>gcs := Some 4\<rparr>)) })"

text \<open>What the callers pass: \<open>None\<close> for a result they do not want.\<close>

record wpa2_out =
  group_cipher :: "u32 option"
  pairwise_cipher :: "u32 option"
  akm :: "u32 option"
  mfp_opt :: "u8 option"

fun or_selectors :: "(bytes \<Rightarrow> u32) \<Rightarrow> bytes \<Rightarrow> nat \<Rightarrow> nat \<Rightarrow> u32 option" where
  "or_selectors f ie pos 0 = Some 0"
| "or_selectors f ie pos (Suc n) = do {
     acc \<leftarrow> or_selectors f ie pos n;
     s \<leftarrow> get_sub ie (pos + 4 * n) 4;
     Some (acc OR f s) }"

definition rtw_parse_wpa2_ie :: "bytes \<Rightarrow> nat \<Rightarrow> wpa2_out \<Rightarrow> (wpa2_out \<times> bool) option" where
  "rtw_parse_wpa2_ie ie ie_len out = do {
     (info, ok) \<leftarrow> rtw_rsne_info_parse ie ie_len;
     if \<not> ok then Some (out, False)
     else do {
       g \<leftarrow> (case group_cipher out of None \<Rightarrow> Some None
         | Some _ \<Rightarrow> (case gcs info of None \<Rightarrow> Some (Some 0)
           | Some p \<Rightarrow> map_option (\<lambda>s. Some (rtw_get_wpa2_cipher_suite s)) (get_sub ie p 4)));
       w \<leftarrow> (case pairwise_cipher out of None \<Rightarrow> Some None
         | Some _ \<Rightarrow> (case pcs_list info of None \<Rightarrow> Some (Some 0)
           | Some p \<Rightarrow> map_option Some (or_selectors rtw_get_wpa2_cipher_suite ie p (unat (pcs_cnt info)))));
       a \<leftarrow> (case akm out of None \<Rightarrow> Some None
         | Some _ \<Rightarrow> (case akm_list info of None \<Rightarrow> Some (Some 0)
           | Some p \<Rightarrow> map_option Some (or_selectors rtw_get_akm_suite_bitmap ie p (unat (akm_cnt info)))));
       m \<leftarrow> (case mfp_opt out of None \<Rightarrow> Some None
         | Some _ \<Rightarrow> (case cap info of None \<Rightarrow> Some (Some 0)
           | Some p \<Rightarrow> map_option (\<lambda>c. Some (ucast (drop_bit 6 c AND 3))) (le16_at ie p)));
       Some (\<lparr>group_cipher = g, pairwise_cipher = w, akm = a, mfp_opt = m\<rparr>, True) } }"

section \<open>The WPA element\<close>

record wpa_out =
  wgroup :: u32
  wpairwise :: u32
  wakm :: "u32 option"

fun wpa_pairwise :: "bytes \<Rightarrow> nat \<Rightarrow> nat \<Rightarrow> u32 \<Rightarrow> u32 option" where
  "wpa_pairwise ie pos 0 acc = Some acc"
| "wpa_pairwise ie pos (Suc n) acc = do {
     s \<leftarrow> get_sub ie pos 4;
     wpa_pairwise ie (pos + 4) n (acc OR rtw_get_wpa_cipher_suite s) }"

text \<open>The pairwise ciphers are added to what the caller passes in.\<close>

definition wpa_akm :: "bytes \<Rightarrow> nat \<Rightarrow> int \<Rightarrow> wpa_out \<Rightarrow> (wpa_out \<times> bool) option" where
  "wpa_akm ie pos left out = (case wakm out of None \<Rightarrow> Some (out, True)
     | Some _ \<Rightarrow>
        if left \<ge> 6 then
          map_option (\<lambda>b. (if b then out\<lparr>wakm := Some 1\<rparr> else out, True))
            (oui_test ie (pos + 2) (Some [0x00, 0x50, 0xf2, 1]))
        else Some (out, True))"

definition wpa_pairwise_part :: "bytes \<Rightarrow> nat \<Rightarrow> int \<Rightarrow> wpa_out \<Rightarrow> (wpa_out \<times> bool) option" where
  "wpa_pairwise_part ie pos left out =
     (if left \<ge> 2 then do {
        count \<leftarrow> le16_at ie pos;
        let pos = pos + 2;
        let left = left - 2;
        if count = 0 \<or> left < 4 * uint count then Some (out, False)
        else do {
          w \<leftarrow> wpa_pairwise ie pos (unat count) (wpairwise out);
          wpa_akm ie (pos + 4 * unat count) (left - 4 * uint count) (out\<lparr>wpairwise := w\<rparr>) } }
      else if left = 1 then Some (out, False)
      else wpa_akm ie pos left out)"

definition rtw_parse_wpa_ie :: "bytes \<Rightarrow> int \<Rightarrow> wpa_out \<Rightarrow> (wpa_out \<times> bool) option" where
  "rtw_parse_wpa_ie ie wpa_ie_len out =
     (if wpa_ie_len \<le> 0 then Some (out, False)
      else do {
        eid \<leftarrow> rd ie 0;
        if eid \<noteq> 0xdd then Some (out, False)
        else do {
          len \<leftarrow> rd ie 1;
          if len \<noteq> word_of_int (wpa_ie_len - 2) then Some (out, False)
          else do {
            oui \<leftarrow> oui_test ie 2 (Some [0x00, 0x50, 0xf2, 1]);
            if \<not> oui then Some (out, False)
            else (let left = wpa_ie_len - 8 in
              if left \<ge> 4 then do {
                s \<leftarrow> get_sub ie 8 4;
                wpa_pairwise_part ie 12 (left - 4) (out\<lparr>wgroup := rtw_get_wpa_cipher_suite s\<rparr>) }
              else if left > 0 then Some (out, False)
              else wpa_pairwise_part ie 8 left out) } } })"

section \<open>The element as the standard describes it\<close>

record rsn_desc =
  d_gcs :: bytes
  d_pcs :: "bytes list"
  d_akm :: "bytes list"
  d_cap :: bytes
  d_pmkid :: "bytes list"
  d_gmcs :: bytes

definition counted :: "bytes list \<Rightarrow> bytes" where
  "counted ls = le16_enc (length ls) @ concat ls"

definition rsn_fields :: "rsn_desc \<Rightarrow> bytes list" where
  "rsn_fields r = [d_gcs r, counted (d_pcs r), counted (d_akm r), d_cap r, counted (d_pmkid r), d_gmcs r]"

text \<open>The element with its first \<open>k\<close> fields.\<close>

definition rsn_body :: "nat \<Rightarrow> rsn_desc \<Rightarrow> bytes" where
  "rsn_body k r = concat (take k (rsn_fields r))"

definition rsn_enc :: "nat \<Rightarrow> rsn_desc \<Rightarrow> bytes" where
  "rsn_enc k r = [48, word_of_nat (length (rsn_body k r) + 2), 1, 0] @ rsn_body k r"

definition wf_rsn :: "nat \<Rightarrow> rsn_desc \<Rightarrow> bool" where
  "wf_rsn k r \<longleftrightarrow> k \<le> 6 \<and> length (rsn_body k r) + 2 < 256 \<and> length (d_gcs r) = 4 \<and> list_all (\<lambda>s. length s = 4) (d_pcs r)
     \<and> list_all (\<lambda>s. length s = 4) (d_akm r) \<and> length (d_cap r) = 2 \<and> list_all (\<lambda>s. length s = 16) (d_pmkid r)
     \<and> length (d_gmcs r) = 4"

lemma length_concat_same: "list_all (\<lambda>s. length s = n) ls \<Longrightarrow> length (concat ls) = n * length ls"
  by (induction ls) auto

lemma length_le16_enc [simp]: "length (le16_enc n) = 2"
  by (simp add: le16_enc_def)

lemma length_counted: "list_all (\<lambda>s. length s = n) ls \<Longrightarrow> length (counted ls) = 2 + n * length ls"
  by (simp add: counted_def length_concat_same)

lemma le16_at_enc: "le16_at (p @ le16_enc n @ q) (length p) = Some (word_of_nat n)"
  using rd_append_right [of p "le16_enc n @ q" 0] rd_append_right [of p "le16_enc n @ q" 1]
  by (simp add: le16_at_def le16_enc_def rd_def ucast_nat_u16 join16)

text \<open>One step per field: the element ends here, or the field is taken.\<close>

lemma rsne_need_end: "0 < n \<Longrightarrow> rsne_need pos pos n info go = Some (info, True)"
  by (simp add: rsne_need_def)

lemma rsne_need_go: "pos + n \<le> ie_len \<Longrightarrow> rsne_need ie_len pos n info go = go"
  by (simp add: rsne_need_def)

lemma rsne_ends:
  "rsne_pcs ie n n info = Some (info, True)" "rsne_akm ie n n info = Some (info, True)"
  "rsne_cap ie n n info = Some (info, True)" "rsne_pmkid ie n n info = Some (info, True)"
  "rsne_gmcs ie n n info = Some (info, True)"
  by (simp_all add: rsne_pcs_def rsne_akm_def rsne_cap_def rsne_pmkid_def rsne_gmcs_def rsne_need_end)

lemma counted_count:
  assumes "list_all (\<lambda>s. length s = n) ls" "0 < n" "length (counted ls) < 256"
  shows "unat (word_of_nat (length ls) :: u16) = length ls"
proof -
  have "length ls \<le> n * length ls" using assms(2) by simp
  then have "length ls < 65536" using assms(3) length_counted [OF assms(1)] by linarith
  then show ?thesis by (simp add: unat_of_nat)
qed

lemma rsne_steps:
  fixes p f rest :: bytes
  assumes fits: "length p + length f \<le> ie_len"
  shows "f = counted ls \<Longrightarrow> list_all (\<lambda>s. length s = 4) ls \<Longrightarrow> length f < 256 \<Longrightarrow> rsne_pcs (p @ f @ rest) ie_len (length p) info =
      rsne_akm (p @ f @ rest) ie_len (length p + length f)
        (info\<lparr>pcs_cnt := word_of_nat (length ls), pcs_list := Some (length p + 2)\<rparr>)"
    and "f = counted ls \<Longrightarrow> list_all (\<lambda>s. length s = 4) ls \<Longrightarrow> length f < 256 \<Longrightarrow> rsne_akm (p @ f @ rest) ie_len (length p) info =
      rsne_cap (p @ f @ rest) ie_len (length p + length f)
        (info\<lparr>akm_cnt := word_of_nat (length ls), akm_list := Some (length p + 2)\<rparr>)"
    and "f = counted ls \<Longrightarrow> list_all (\<lambda>s. length s = 16) ls \<Longrightarrow> length f < 256 \<Longrightarrow> rsne_pmkid (p @ f @ rest) ie_len (length p) info =
      rsne_gmcs (p @ f @ rest) ie_len (length p + length f)
        (info\<lparr>pmkid_cnt := word_of_nat (length ls), pmkid_list := Some (length p + 2)\<rparr>)"
    and "length f = 2 \<Longrightarrow> rsne_cap (p @ f @ rest) ie_len (length p) info =
      rsne_pmkid (p @ f @ rest) ie_len (length p + length f) (info\<lparr>cap := Some (length p)\<rparr>)"
    and "length f = 4 \<Longrightarrow> rsne_gmcs (p @ f @ rest) ie_len (length p) info = Some (info\<lparr>gmcs := Some (length p)\<rparr>, True)"
proof -
  have c: "le16_at (p @ f @ rest) (length p) = Some (word_of_nat (length ls))"
      "length f = 2 + n * length ls" "unat (word_of_nat (length ls) :: u16) = length ls"
      "\<not> ie_len < length p + 2" "\<not> ie_len < length p + 2 + n * length ls"
    if "f = counted ls" "list_all (\<lambda>s. length s = n) ls" "length f < 256" "0 < n" for n
    using that fits le16_at_enc [of p "length ls" "concat ls @ rest"] length_counted [OF that(2)] counted_count [OF that(2,4)]
    by (simp_all add: counted_def)
  show "rsne_pcs (p @ f @ rest) ie_len (length p) info = rsne_akm (p @ f @ rest) ie_len (length p + length f)
      (info\<lparr>pcs_cnt := word_of_nat (length ls), pcs_list := Some (length p + 2)\<rparr>)"
    if "f = counted ls" "list_all (\<lambda>s. length s = 4) ls" "length f < 256"
    using c [OF that] by (simp only: rsne_pcs_def rsne_need_def if_False bind.bind_lunit Let_def zero_less_numeral add.assoc)
  show "rsne_akm (p @ f @ rest) ie_len (length p) info = rsne_cap (p @ f @ rest) ie_len (length p + length f)
      (info\<lparr>akm_cnt := word_of_nat (length ls), akm_list := Some (length p + 2)\<rparr>)"
    if "f = counted ls" "list_all (\<lambda>s. length s = 4) ls" "length f < 256"
    using c [OF that] by (simp only: rsne_akm_def rsne_need_def if_False bind.bind_lunit Let_def zero_less_numeral add.assoc)
  show "rsne_pmkid (p @ f @ rest) ie_len (length p) info = rsne_gmcs (p @ f @ rest) ie_len (length p + length f)
      (info\<lparr>pmkid_cnt := word_of_nat (length ls), pmkid_list := Some (length p + 2)\<rparr>)"
    if "f = counted ls" "list_all (\<lambda>s. length s = 16) ls" "length f < 256"
    using c [OF that] by (simp only: rsne_pmkid_def rsne_need_def if_False bind.bind_lunit Let_def zero_less_numeral add.assoc)
  show "rsne_cap (p @ f @ rest) ie_len (length p) info =
      rsne_pmkid (p @ f @ rest) ie_len (length p + length f) (info\<lparr>cap := Some (length p)\<rparr>)" if "length f = 2"
    using that fits by (subst rsne_cap_def) (simp add: rsne_need_go)
  show "rsne_gmcs (p @ f @ rest) ie_len (length p) info = Some (info\<lparr>gmcs := Some (length p)\<rparr>, True)" if "length f = 4"
    using that fits by (subst rsne_gmcs_def) (simp add: rsne_need_go)
qed

text \<open>What the parser must report of the first \<open>k\<close> fields.\<close>

definition rsn_info :: "nat \<Rightarrow> rsn_desc \<Rightarrow> rsne_info" where
  "rsn_info k r =
     (let pos = (\<lambda>j. 4 + length (rsn_body j r)) in
      \<lparr>gcs = if 1 \<le> k then Some 4 else None,
       pcs_cnt = if 2 \<le> k then word_of_nat (length (d_pcs r)) else 0,
       pcs_list = if 2 \<le> k then Some (pos 1 + 2) else None,
       akm_cnt = if 3 \<le> k then word_of_nat (length (d_akm r)) else 0,
       akm_list = if 3 \<le> k then Some (pos 2 + 2) else None,
       cap = if 4 \<le> k then Some (pos 3) else None,
       pmkid_cnt = if 5 \<le> k then word_of_nat (length (d_pmkid r)) else 0,
       pmkid_list = if 5 \<le> k then Some (pos 4 + 2) else None,
       gmcs = if 6 \<le> k then Some (pos 5) else None, err = False\<rparr>)"

lemma rsn_body_simps [simp]:
  "rsn_body 0 r = []" "rsn_body 1 r = d_gcs r" "rsn_body (Suc 0) r = d_gcs r"
  "rsn_body 2 r = d_gcs r @ counted (d_pcs r)"
  "rsn_body 3 r = d_gcs r @ counted (d_pcs r) @ counted (d_akm r)"
  "rsn_body 4 r = d_gcs r @ counted (d_pcs r) @ counted (d_akm r) @ d_cap r"
  "rsn_body 5 r = d_gcs r @ counted (d_pcs r) @ counted (d_akm r) @ d_cap r @ counted (d_pmkid r)"
  "rsn_body 6 r = d_gcs r @ counted (d_pcs r) @ counted (d_akm r) @ d_cap r @ counted (d_pmkid r) @ d_gmcs r"
  by (simp_all add: rsn_body_def rsn_fields_def eval_nat_numeral)

lemma rsn_body_Suc: "j < 6 \<Longrightarrow> rsn_body (Suc j) r = rsn_body j r @ rsn_fields r ! j"
proof -
  assume "j < 6"
  then have "j < length (rsn_fields r)" by (simp add: rsn_fields_def)
  then show ?thesis by (simp add: rsn_body_def take_Suc_conv_app_nth)
qed

lemma rsn_split:
  assumes "j < k" "k \<le> 6"
  obtains rest where "rsn_body k r = rsn_body j r @ rsn_fields r ! j @ rest"
    "length (rsn_body j r) + length (rsn_fields r ! j) \<le> length (rsn_body k r)"
proof -
  define T where "T = concat (drop (Suc j) (take k (rsn_fields r)))"
  have "take k (rsn_fields r) = take (Suc j) (rsn_fields r) @ drop (Suc j) (take k (rsn_fields r))"
    using append_take_drop_id [of "Suc j" "take k (rsn_fields r)"] assms by (simp add: min_def)
  then have "rsn_body k r = rsn_body (Suc j) r @ T"
    unfolding rsn_body_def T_def by (metis concat_append)
  then have "rsn_body k r = rsn_body j r @ rsn_fields r ! j @ T"
    using assms by (simp only: rsn_body_Suc [of j r]) (simp del: rsn_body_simps)
  then show thesis by (rule that) (simp add: \<open>rsn_body k r = rsn_body j r @ rsn_fields r ! j @ T\<close> del: rsn_body_simps)
qed

lemma rtw_rsne_info_parse_enc:
  assumes wf: "wf_rsn k r"
  shows "rtw_rsne_info_parse (rsn_enc k r @ q) (4 + length (rsn_body k r)) = Some (rsn_info k r, True)"
proof -
  let ?h = "[48, word_of_nat (length (rsn_body k r) + 2), 1, 0] :: bytes"
  let ?L = "4 + length (rsn_body k r)"
  let ?ie = "rsn_enc k r @ q"
  have k: "k \<le> 6" and small: "length (rsn_body k r) + 2 < 256" using wf by (simp_all add: wf_rsn_def)
  have at: "\<exists>rest. ?ie = (?h @ rsn_body j r) @ rsn_fields r ! j @ rest
      \<and> length (?h @ rsn_body j r) + length (rsn_fields r ! j) \<le> ?L \<and> length (rsn_fields r ! j) < 256" if "j < k" for j
  proof -
    obtain rest where "rsn_body k r = rsn_body j r @ rsn_fields r ! j @ rest"
      "length (rsn_body j r) + length (rsn_fields r ! j) \<le> length (rsn_body k r)"
      by (rule rsn_split [OF \<open>j < k\<close> k])
    then show ?thesis using small by (intro exI [of _ "rest @ q"]) (simp add: rsn_enc_def)
  qed
  have start: "rtw_rsne_info_parse ?ie ?L = (if k = 0 then Some (rsne_zero, True) else rsne_pcs ?ie ?L 8 (rsne_zero\<lparr>gcs := Some 4\<rparr>))"
  proof -
    have "rd ?ie 0 = Some 48" "rd ?ie 1 = Some (word_of_nat (length (rsn_body k r) + 2))"
      by (simp_all add: rd_def rsn_enc_def)
    moreover have "unat (word_of_nat (length (rsn_body k r) + 2) :: u8) = length (rsn_body k r) + 2"
      using small by (simp only: unat_of_nat) simp
    moreover have "4 \<le> length (rsn_body k r)" if "0 < k"
    proof (rule rsn_split [OF that k, of r])
      fix rest assume "length (rsn_body 0 r) + length (rsn_fields r ! 0) \<le> length (rsn_body k r)"
      then show ?thesis using wf by (simp add: wf_rsn_def rsn_fields_def)
    qed
    moreover have "rsn_body k r = []" if "k = 0" using that by simp
    ultimately show ?thesis
      by (cases "k = 0") (simp_all add: rtw_rsne_info_parse_def rsne_need_def bind.bind_lunit del: rsn_body_simps)
  qed
  have p1: "rsne_pcs ?ie ?L 8 i = rsne_akm ?ie ?L (4 + length (rsn_body 2 r))
      (i\<lparr>pcs_cnt := word_of_nat (length (d_pcs r)), pcs_list := Some (4 + length (rsn_body 1 r) + 2)\<rparr>)" if lt: "1 < k" for i
  proof -
    obtain rest where "?ie = (?h @ rsn_body 1 r) @ counted (d_pcs r) @ rest"
      "length (?h @ rsn_body 1 r) + length (counted (d_pcs r)) \<le> ?L" "length (counted (d_pcs r)) < 256"
      using at [OF lt] by (auto simp: rsn_fields_def)
    then show ?thesis using rsne_steps(1) [of "?h @ rsn_body 1 r" "counted (d_pcs r)" ?L "d_pcs r" rest i] wf
      by (simp add: wf_rsn_def)
  qed
  have p2: "rsne_akm ?ie ?L (4 + length (rsn_body 2 r)) i = rsne_cap ?ie ?L (4 + length (rsn_body 3 r))
      (i\<lparr>akm_cnt := word_of_nat (length (d_akm r)), akm_list := Some (4 + length (rsn_body 2 r) + 2)\<rparr>)" if lt: "2 < k" for i
  proof -
    obtain rest where "?ie = (?h @ rsn_body 2 r) @ counted (d_akm r) @ rest"
      "length (?h @ rsn_body 2 r) + length (counted (d_akm r)) \<le> ?L" "length (counted (d_akm r)) < 256"
      using at [OF lt] by (auto simp: rsn_fields_def)
    then show ?thesis using rsne_steps(2) [of "?h @ rsn_body 2 r" "counted (d_akm r)" ?L "d_akm r" rest i] wf
      by (simp add: wf_rsn_def add_ac)
  qed
  have p3: "rsne_cap ?ie ?L (4 + length (rsn_body 3 r)) i =
      rsne_pmkid ?ie ?L (4 + length (rsn_body 4 r)) (i\<lparr>cap := Some (4 + length (rsn_body 3 r))\<rparr>)" if lt: "3 < k" for i
  proof -
    obtain rest where "?ie = (?h @ rsn_body 3 r) @ d_cap r @ rest" "length (?h @ rsn_body 3 r) + length (d_cap r) \<le> ?L"
      using at [OF lt] by (auto simp: rsn_fields_def)
    then show ?thesis using rsne_steps(4) [of "?h @ rsn_body 3 r" "d_cap r" ?L rest i] wf
      by (simp add: wf_rsn_def add_ac)
  qed
  have p4: "rsne_pmkid ?ie ?L (4 + length (rsn_body 4 r)) i = rsne_gmcs ?ie ?L (4 + length (rsn_body 5 r))
      (i\<lparr>pmkid_cnt := word_of_nat (length (d_pmkid r)), pmkid_list := Some (4 + length (rsn_body 4 r) + 2)\<rparr>)" if lt: "4 < k" for i
  proof -
    obtain rest where "?ie = (?h @ rsn_body 4 r) @ counted (d_pmkid r) @ rest"
      "length (?h @ rsn_body 4 r) + length (counted (d_pmkid r)) \<le> ?L" "length (counted (d_pmkid r)) < 256"
      using at [OF lt] by (auto simp: rsn_fields_def)
    then show ?thesis using rsne_steps(3) [of "?h @ rsn_body 4 r" "counted (d_pmkid r)" ?L "d_pmkid r" rest i] wf
      by (simp add: wf_rsn_def add_ac)
  qed
  have p5: "rsne_gmcs ?ie ?L (4 + length (rsn_body 5 r)) i = Some (i\<lparr>gmcs := Some (4 + length (rsn_body 5 r))\<rparr>, True)" if lt: "5 < k" for i
  proof -
    obtain rest where "?ie = (?h @ rsn_body 5 r) @ d_gmcs r @ rest" "length (?h @ rsn_body 5 r) + length (d_gmcs r) \<le> ?L"
      using at [OF lt] by (auto simp: rsn_fields_def)
    then show ?thesis using rsne_steps(5) [of "?h @ rsn_body 5 r" "d_gmcs r" ?L rest i] wf
      by (simp add: wf_rsn_def add_ac)
  qed
  have one: "4 + length (rsn_body 1 r) = 8" using wf by (simp add: wf_rsn_def)
  have "k \<in> {0, 1, 2, 3, 4, 5, 6}" using k by auto
  then show ?thesis
    by (elim insertE emptyE)
       (use start p1 p2 p3 p4 p5 one in \<open>simp_all add: rsne_ends rsn_info_def rsne_zero_def Let_def del: rsn_body_simps\<close>)
qed

lemma or_selectors_take:
  assumes "list_all (\<lambda>s. length s = 4) ls" "n \<le> length ls"
  shows "or_selectors f (p @ concat ls @ q) (length p) n = Some (foldl (\<lambda>a s. a OR f s) 0 (take n ls))"
  using assms(2)
proof (induction n)
  case (Suc n)
  then have n: "n < length ls" by simp
  have "concat ls = concat (take n ls) @ ls ! n @ concat (drop (Suc n) ls)"
    using n by (metis concat.simps(2) concat_append id_take_nth_drop)
  moreover have "list_all (\<lambda>s. length s = 4) (take n ls)" using assms(1) by (meson list_all_iff in_set_takeD)
  then have "length (concat (take n ls)) = 4 * n" using n length_concat_same [of 4 "take n ls"] by simp
  moreover have "length (ls ! n) = 4" using assms(1) n by (simp add: list_all_length)
  ultimately have "get_sub (p @ concat ls @ q) (length p + 4 * n) 4 = Some (ls ! n)"
    by (simp add: get_sub_def)
  then show ?case using Suc n by (simp add: take_Suc_conv_app_nth)
qed simp

lemmas or_selectors_all = or_selectors_take [OF _ order_refl, simplified]

lemma mfp_bits: "ucast (drop_bit 6 (push_bit 8 (ucast (c1 :: u8)) OR ucast (c0 :: u8) :: u16) AND 3) = drop_bit 6 c0"
proof -
  have m: "x AND 3 = take_bit 2 x" for x :: u16 by (simp add: take_bit_eq_mask mask_eq_exp_minus_1)
  show ?thesis unfolding m
  proof (rule bit_word_eqI)
    fix n
    have "bit c0 (6 + n) \<Longrightarrow> 6 + n < LENGTH(8)" by (rule bit_imp_le_length)
    then show "bit (ucast (take_bit 2 (drop_bit 6 (push_bit 8 (ucast c1) OR ucast c0 :: u16))) :: u8) n = bit (drop_bit 6 c0) n"
      by (auto simp: bit_simps)
  qed
qed

definition any_selector :: "bool \<Rightarrow> (bytes \<Rightarrow> u32) \<Rightarrow> bytes list \<Rightarrow> u32" where
  "any_selector present f ls = (if present then foldl (\<lambda>a s. a OR f s) 0 ls else 0)"

definition rsn_result :: "nat \<Rightarrow> rsn_desc \<Rightarrow> wpa2_out" where
  "rsn_result k r = \<lparr>
     group_cipher = Some (if 1 \<le> k then rtw_get_wpa2_cipher_suite (d_gcs r) else 0),
     pairwise_cipher = Some (any_selector (2 \<le> k) rtw_get_wpa2_cipher_suite (d_pcs r)),
     akm = Some (any_selector (3 \<le> k) rtw_get_akm_suite_bitmap (d_akm r)),
     mfp_opt = Some (if 4 \<le> k then drop_bit 6 (d_cap r ! 0) else 0)\<rparr>"

lemma rsn_enc_at:
  assumes "j < k" "k \<le> 6"
  obtains h rest where "rsn_enc k r @ q = (h @ rsn_body j r) @ rsn_fields r ! j @ rest" "length h = 4"
    "length (rsn_body j r) + length (rsn_fields r ! j) \<le> length (rsn_body k r)"
proof (rule rsn_split [OF assms])
  fix rest
  assume "rsn_body k r = rsn_body j r @ rsn_fields r ! j @ rest"
    "length (rsn_body j r) + length (rsn_fields r ! j) \<le> length (rsn_body k r)"
  then show thesis
    by (intro that [of "[48, word_of_nat (length (rsn_body k r) + 2), 1, 0]" "rest @ q"]) (simp_all add: rsn_enc_def)
qed

lemma rsn_selectors:
  assumes "wf_rsn k r" "j < k" "rsn_fields r ! j = counted ls" "list_all (\<lambda>s. length s = 4) ls"
  shows "or_selectors f (rsn_enc k r @ q) (4 + length (rsn_body j r) + 2) (unat (word_of_nat (length ls) :: u16)) =
    Some (foldl (\<lambda>a s. a OR f s) 0 ls)"
proof (rule rsn_enc_at [OF assms(2)])
  show "k \<le> 6" using assms(1) by (simp add: wf_rsn_def)
  fix h rest
  assume e: "rsn_enc k r @ q = (h @ rsn_body j r) @ rsn_fields r ! j @ rest" "length h = 4"
    "length (rsn_body j r) + length (rsn_fields r ! j) \<le> length (rsn_body k r)"
  have "length (counted ls) < 256" using assms(1,3) e(3) by (simp add: wf_rsn_def)
  then have "unat (word_of_nat (length ls) :: u16) = length ls" using counted_count [OF assms(4)] by simp
  then show ?thesis
    using or_selectors_all [OF assms(4), of f "h @ rsn_body j r @ le16_enc (length ls)" rest] e(2)
    by (simp add: e(1) assms(3) counted_def add_ac)
qed

text \<open>C32: For every RSN element that holds the first k of the standard's six fields (k from 0 to 6, any
  number of selectors), rtw_parse_wpa2_ie succeeds, reads only the element, and reports the group cipher, the
  union of the pairwise ciphers, the union of the key management suites and the management frame
  protection bits that were encoded, or 0 for a field that is absent.\<close>

theorem parse_wpa2_roundtrip:
  assumes wf: "wf_rsn k r"
  shows "rtw_parse_wpa2_ie (rsn_enc k r @ q) (4 + length (rsn_body k r))
      \<lparr>group_cipher = Some g, pairwise_cipher = Some w, akm = Some a, mfp_opt = Some m\<rparr> = Some (rsn_result k r, True)"
proof -
  let ?ie = "rsn_enc k r @ q"
  have k: "k \<le> 6" using wf by (simp add: wf_rsn_def)
  have G: "get_sub ?ie 4 4 = Some (d_gcs r)" if "1 \<le> k"
  proof (rule rsn_enc_at [of 0 k r q])
    fix h rest assume "rsn_enc k r @ q = (h @ rsn_body 0 r) @ rsn_fields r ! 0 @ rest" "length h = 4"
    then show ?thesis using wf by (simp add: wf_rsn_def rsn_fields_def get_sub_def)
  qed (use that k in auto)
  have W: "or_selectors rtw_get_wpa2_cipher_suite ?ie (4 + length (rsn_body 1 r) + 2) (unat (word_of_nat (length (d_pcs r)) :: u16)) =
      Some (foldl (\<lambda>a s. a OR rtw_get_wpa2_cipher_suite s) 0 (d_pcs r))" if "2 \<le> k"
    using that wf by (intro rsn_selectors [OF wf]) (simp_all add: wf_rsn_def rsn_fields_def)
  have A: "or_selectors rtw_get_akm_suite_bitmap ?ie (4 + length (rsn_body 2 r) + 2) (unat (word_of_nat (length (d_akm r)) :: u16)) =
      Some (foldl (\<lambda>a s. a OR rtw_get_akm_suite_bitmap s) 0 (d_akm r))" if "3 \<le> k"
    using that wf by (intro rsn_selectors [OF wf]) (simp_all add: wf_rsn_def rsn_fields_def)
  have M: "map_option (\<lambda>c. Some (ucast (drop_bit 6 c AND 3) :: u8)) (le16_at ?ie (4 + length (rsn_body 3 r))) =
      Some (Some (drop_bit 6 (d_cap r ! 0)))" if "4 \<le> k"
  proof (rule rsn_enc_at [of 3 k r q])
    fix h rest assume e: "rsn_enc k r @ q = (h @ rsn_body 3 r) @ rsn_fields r ! 3 @ rest" "length h = 4"
    obtain c0 c1 where c: "d_cap r = [c0, c1]" using wf by (auto simp: wf_rsn_def length_Suc_conv numeral_2_eq_2)
    have "?ie = (h @ rsn_body 3 r) @ [c0, c1] @ rest" using e(1) c by (simp add: rsn_fields_def)
    then have "le16_at ?ie (length (h @ rsn_body 3 r)) = Some (push_bit 8 (ucast c1) OR ucast c0)"
      using rd_append_right [of "h @ rsn_body 3 r" "[c0, c1] @ rest" 0]
        rd_append_right [of "h @ rsn_body 3 r" "[c0, c1] @ rest" 1]
      by (simp add: le16_at_def rd_def)
    then show ?thesis using e(2) c mfp_bits [of c1 c0] by simp
  qed (use that k in auto)
  show ?thesis using G W A M
    by (auto simp: rtw_parse_wpa2_ie_def rtw_rsne_info_parse_enc [OF wf] bind.bind_lunit rsn_info_def rsn_result_def
        any_selector_def Let_def del: rsn_body_simps)
qed

definition wpa2_psk :: rsn_desc where
  "wpa2_psk = \<lparr>d_gcs = [0, 0x0f, 0xac, 2], d_pcs = [[0, 0x0f, 0xac, 2], [0, 0x0f, 0xac, 4]], d_akm = [[0, 0x0f, 0xac, 2]],
     d_cap = [0x80, 0], d_pmkid = [], d_gmcs = [0, 0x0f, 0xac, 6]\<rparr>"

theorem parse_wpa2_roundtrip_witness:
  "rtw_parse_wpa2_ie (rsn_enc 4 wpa2_psk @ [1]) 26
      \<lparr>group_cipher = Some 0, pairwise_cipher = Some 0, akm = Some 0, mfp_opt = Some 0\<rparr> =
    Some (\<lparr>group_cipher = Some 8, pairwise_cipher = Some 24, akm = Some 2, mfp_opt = Some 2\<rparr>, True)"
proof -
  have "wf_rsn 4 wpa2_psk"
    by (simp add: wf_rsn_def wpa2_psk_def counted_def)
  moreover have "rsn_result 4 wpa2_psk = \<lparr>group_cipher = Some 8, pairwise_cipher = Some 24, akm = Some 2, mfp_opt = Some 2\<rparr>"
    by (simp add: rsn_result_def any_selector_def wpa2_psk_def rtw_get_wpa2_cipher_suite_def rtw_get_akm_suite_bitmap_def
        akm_suites_def WPA_CIPHER_TKIP_def WPA_CIPHER_CCMP_def)
  moreover have "4 + length (rsn_body 4 wpa2_psk) = 26" by (simp add: wpa2_psk_def counted_def)
  ultimately show ?thesis using parse_wpa2_roundtrip [of 4 wpa2_psk "[1]" 0 0 0 0] by simp
qed

section \<open>Safety on arbitrary input\<close>

definition ptr_in :: "nat \<Rightarrow> nat option \<Rightarrow> nat \<Rightarrow> bool" where
  "ptr_in len p n \<longleftrightarrow> (case p of None \<Rightarrow> True | Some off \<Rightarrow> off + n \<le> len)"

lemma ptr_in_simps [simp]: "ptr_in len None n" "ptr_in len (Some off) n = (off + n \<le> len)"
  by (simp_all add: ptr_in_def)

text \<open>What every pointer of the result may be used for.\<close>

definition rsne_inv :: "nat \<Rightarrow> rsne_info \<Rightarrow> bool" where
  "rsne_inv len i \<longleftrightarrow> ptr_in len (gcs i) 4 \<and> ptr_in len (pcs_list i) (4 * unat (pcs_cnt i))
     \<and> ptr_in len (akm_list i) (4 * unat (akm_cnt i)) \<and> ptr_in len (cap i) 2
     \<and> ptr_in len (pmkid_list i) (16 * unat (pmkid_cnt i)) \<and> ptr_in len (gmcs i) 4
     \<and> (pcs_list i = None \<longrightarrow> pcs_cnt i = 0) \<and> (akm_list i = None \<longrightarrow> akm_cnt i = 0) \<and> (pmkid_list i = None \<longrightarrow> pmkid_cnt i = 0)"

definition rsne_good :: "nat \<Rightarrow> rsne_res \<Rightarrow> bool" where
  "rsne_good len res \<longleftrightarrow> (\<exists>i ok. res = Some (i, ok) \<and> rsne_inv len i \<and> (ok \<longleftrightarrow> \<not> err i))"

lemma rsne_good_need:
  assumes "rsne_inv len i" "\<not> err i" "pos + n \<le> len \<Longrightarrow> rsne_good len go"
  shows "rsne_good len (rsne_need len pos n i go)"
  using assms by (auto simp: rsne_need_def rsne_good_def rsne_fail_def rsne_inv_def)

lemma le16_at_ok: "pos + 2 \<le> length ie \<Longrightarrow> \<exists>v. le16_at ie pos = Some v"
  by (simp add: le16_at_def rd_def)

lemma rsne_good_counted:
  assumes "rsne_inv len i" "\<not> err i" "len \<le> length ie"
    and "\<And>cnt. pos + 2 + n * unat cnt \<le> len \<Longrightarrow> rsne_good len (go cnt)"
  shows "rsne_good len (rsne_need len pos 2 i (do { cnt \<leftarrow> le16_at ie pos; let pos = pos + 2;
    rsne_need len pos (n * unat cnt) i (go cnt) }))"
proof (rule rsne_good_need [OF assms(1,2)])
  assume "pos + 2 \<le> len"
  then obtain v where "le16_at ie pos = Some v" using le16_at_ok [of pos ie] assms(3) by auto
  then show "rsne_good len (do { cnt \<leftarrow> le16_at ie pos; let pos = pos + 2; rsne_need len pos (n * unat cnt) i (go cnt) })"
    using rsne_good_need [OF assms(1,2), of "pos + 2" "n * unat v" "go v"] assms(4) by (simp add: bind.bind_lunit Let_def)
qed

lemma rsne_good_stages:
  assumes "rsne_inv len i" "\<not> err i" "len \<le> length ie"
  shows "rsne_good len (rsne_gmcs ie len pos i)" "rsne_good len (rsne_pmkid ie len pos i)" "rsne_good len (rsne_cap ie len pos i)"
    "rsne_good len (rsne_akm ie len pos i)" "rsne_good len (rsne_pcs ie len pos i)"
proof -
  have gmcs: "rsne_good len (rsne_gmcs ie len pos i)" if "rsne_inv len i" "\<not> err i" for pos i
    unfolding rsne_gmcs_def by (rule rsne_good_need [OF that]) (use that in \<open>simp add: rsne_good_def rsne_inv_def\<close>)
  have pmkid: "rsne_good len (rsne_pmkid ie len pos i)" if "rsne_inv len i" "\<not> err i" for pos i
    unfolding rsne_pmkid_def Let_def
    by (rule rsne_good_counted [OF that assms(3), unfolded Let_def], rule gmcs) (use that in \<open>simp_all add: rsne_inv_def\<close>)
  have cap: "rsne_good len (rsne_cap ie len pos i)" if "rsne_inv len i" "\<not> err i" for pos i
    unfolding rsne_cap_def by (rule rsne_good_need [OF that], rule pmkid) (use that in \<open>simp_all add: rsne_inv_def\<close>)
  have akm: "rsne_good len (rsne_akm ie len pos i)" if "rsne_inv len i" "\<not> err i" for pos i
    unfolding rsne_akm_def Let_def
    by (rule rsne_good_counted [OF that assms(3), unfolded Let_def], rule cap) (use that in \<open>simp_all add: rsne_inv_def\<close>)
  have pcs: "rsne_good len (rsne_pcs ie len pos i)" if "rsne_inv len i" "\<not> err i" for pos i
    unfolding rsne_pcs_def Let_def
    by (rule rsne_good_counted [OF that assms(3), unfolded Let_def], rule akm) (use that in \<open>simp_all add: rsne_inv_def\<close>)
  show "rsne_good len (rsne_gmcs ie len pos i)" "rsne_good len (rsne_pmkid ie len pos i)" "rsne_good len (rsne_cap ie len pos i)"
    "rsne_good len (rsne_akm ie len pos i)" "rsne_good len (rsne_pcs ie len pos i)"
    using gmcs pmkid cap akm pcs assms(1,2) by blast+
qed

lemma rsne_parse_good:
  assumes "ie_len \<le> length ie"
  shows "rsne_good ie_len (rtw_rsne_info_parse ie ie_len)"
proof (cases "ie_len < 4")
  case True
  then show ?thesis
    by (simp add: rtw_rsne_info_parse_def rsne_fail_def rsne_good_def rsne_inv_def rsne_zero_def)
next
  case False
  then have "0 < length ie" "1 < length ie" using assms by linarith+
  then have "rd ie 0 = Some (ie ! 0)" "rd ie 1 = Some (ie ! 1)" by (simp_all add: rd_def)
  moreover have z: "rsne_inv ie_len rsne_zero" "\<not> err rsne_zero" by (simp_all add: rsne_inv_def rsne_zero_def)
  moreover have "rsne_good ie_len (rsne_fail rsne_zero)" by (simp add: rsne_fail_def rsne_good_def rsne_inv_def rsne_zero_def)
  moreover have "rsne_good ie_len (rsne_need ie_len 4 4 rsne_zero (rsne_pcs ie ie_len 8 (rsne_zero\<lparr>gcs := Some 4\<rparr>)))"
    by (rule rsne_good_need [OF z], rule rsne_good_stages(5)) (use assms in \<open>simp_all add: rsne_inv_def rsne_zero_def\<close>)
  ultimately show ?thesis using False by (simp add: rtw_rsne_info_parse_def bind.bind_lunit)
qed

lemma or_selectors_ok: "pos + 4 * n \<le> length ie \<Longrightarrow> \<exists>v. or_selectors f ie pos n = Some v"
  by (induction n) (auto simp: get_sub_def bind.bind_lunit)

text \<open>C33: On every buffer of the given length, whatever its bytes, rtw_rsne_info_parse and rtw_parse_wpa2_ie
  return without reading outside it; every list the parser reports, with its count, lies inside the element,
  the error flag is set exactly when the parser fails, and a failing rtw_parse_wpa2_ie leaves the caller's
  results as they were.\<close>

theorem parse_wpa2_safe:
  assumes "ie_len \<le> length ie"
  shows "\<exists>info ok out'. rtw_rsne_info_parse ie ie_len = Some (info, ok) \<and> rsne_inv ie_len info \<and> (ok \<longleftrightarrow> \<not> err info)
    \<and> rtw_parse_wpa2_ie ie ie_len out = Some (out', ok) \<and> (\<not> ok \<longrightarrow> out' = out)"
proof -
  obtain info ok where p: "rtw_rsne_info_parse ie ie_len = Some (info, ok)" "rsne_inv ie_len info" "ok \<longleftrightarrow> \<not> err info"
    using rsne_parse_good [OF assms] unfolding rsne_good_def by blast
  have sub: "\<exists>v. get_sub ie pos 4 = Some v" if "gcs info = Some pos" for pos
    using p(2) that assms by (simp add: rsne_inv_def get_sub_def)
  have pcs: "\<exists>v. or_selectors f ie pos (unat (pcs_cnt info)) = Some v" if "pcs_list info = Some pos" for pos f
    using p(2) that assms by (intro or_selectors_ok) (simp add: rsne_inv_def)
  have akm: "\<exists>v. or_selectors f ie pos (unat (akm_cnt info)) = Some v" if "akm_list info = Some pos" for pos f
    using p(2) that assms by (intro or_selectors_ok) (simp add: rsne_inv_def)
  have cap: "\<exists>v. le16_at ie pos = Some v" if "cap info = Some pos" for pos
    using p(2) that assms by (intro le16_at_ok) (simp add: rsne_inv_def)
  obtain g where g: "(case group_cipher out of None \<Rightarrow> Some None
         | Some _ \<Rightarrow> (case gcs info of None \<Rightarrow> Some (Some 0)
           | Some p \<Rightarrow> map_option (\<lambda>s. Some (rtw_get_wpa2_cipher_suite s)) (get_sub ie p 4))) = Some g"
    using sub by (cases "group_cipher out"; cases "gcs info") auto
  obtain w where w: "(case pairwise_cipher out of None \<Rightarrow> Some None
         | Some _ \<Rightarrow> (case pcs_list info of None \<Rightarrow> Some (Some 0)
           | Some p \<Rightarrow> map_option Some (or_selectors rtw_get_wpa2_cipher_suite ie p (unat (pcs_cnt info))))) = Some w"
    using pcs [where f = rtw_get_wpa2_cipher_suite] by (cases "pairwise_cipher out"; cases "pcs_list info") auto
  obtain a where a: "(case akm out of None \<Rightarrow> Some None
         | Some _ \<Rightarrow> (case akm_list info of None \<Rightarrow> Some (Some 0)
           | Some p \<Rightarrow> map_option Some (or_selectors rtw_get_akm_suite_bitmap ie p (unat (akm_cnt info))))) = Some a"
    using akm [where f = rtw_get_akm_suite_bitmap] by (cases "akm out"; cases "akm_list info") auto
  obtain m where m: "(case mfp_opt out of None \<Rightarrow> Some None
         | Some _ \<Rightarrow> (case cap info of None \<Rightarrow> Some (Some 0)
           | Some p \<Rightarrow> map_option (\<lambda>c. Some (ucast (drop_bit 6 c AND 3) :: u8)) (le16_at ie p))) = Some m"
    using cap by (cases "mfp_opt out"; cases "cap info") auto
  have "\<exists>out'. rtw_parse_wpa2_ie ie ie_len out = Some (out', ok) \<and> (\<not> ok \<longrightarrow> out' = out)"
    unfolding rtw_parse_wpa2_ie_def p(1) g w a m by (cases ok) (simp_all add: g w a m)
  then show ?thesis using p by blast
qed

theorem parse_wpa2_safe_witness:
  "\<exists>info ok. rtw_rsne_info_parse [48, 6, 1, 0, 0, 0x0f, 0xac, 4] 8 = Some (info, ok) \<and> rsne_inv 8 info"
  using parse_wpa2_safe [of 8 "[48, 6, 1, 0, 0, 0x0f, 0xac, 4]" "rsn_result 0 wpa2_psk"] by auto

end
