(* ===== verification/Elems.thy ===== *)
theory Elems
  imports Attr
begin

text \<open>
  The parser of all elements of a management frame, \<open>rtw_ieee802_11_parse_elems\<close> with its vendor specific part
  (core/rtw_ieee80211.c; the mesh elements are not configured). For each kind of element the result holds the
  offset of the content and its length byte, \<open>None\<close> the null pointer. Debug output is not modelled.
\<close>

section \<open>The parser\<close>

type_synonym slot = "(nat \<times> u8) option"

text \<open>The pointer and length pairs of the result structure, by the name of the field.\<close>

datatype elem_field = E_ssid | E_supp_rates | E_fh_params | E_ds_params | E_cf_params
  | E_tim | E_ibss_params | E_challenge | E_erp_info | E_ext_supp_rates
  | E_wpa_ie | E_rsn_ie | E_wme | E_wme_tspec | E_wps_ie
  | E_power_cap | E_supp_channels | E_mdie | E_ftie | E_timeout_int
  | E_ht_capabilities | E_ht_operation | E_vendor_ht_cap | E_vht_capabilities | E_vht_operation
  | E_vht_op_mode_notify | E_rm_en_cap

type_synonym ieee802_11_elems = "elem_field \<Rightarrow> slot"

definition elems_zero :: ieee802_11_elems where
  "elems_zero = (\<lambda>_. None)"

datatype parse_res = ParseOK | ParseUnknown | ParseFailed

definition be24 :: "u8 \<Rightarrow> u8 \<Rightarrow> u8 \<Rightarrow> u32" where
  "be24 b0 b1 b2 = push_bit 16 (ucast b0) OR push_bit 8 (ucast b1) OR ucast b2"

text \<open>\<open>False\<close> is the result -1.\<close>

definition rtw_ieee802_11_parse_vendor_specific ::
  "bytes \<Rightarrow> nat \<Rightarrow> u8 \<Rightarrow> ieee802_11_elems \<Rightarrow> (ieee802_11_elems \<times> bool) option" where
  "rtw_ieee802_11_parse_vendor_specific buf pos elen elems =
     (if elen < 4 then Some (elems, False)
      else do {
        b0 \<leftarrow> rd buf pos;
        b1 \<leftarrow> rd buf (pos + 1);
        b2 \<leftarrow> rd buf (pos + 2);
        let oui = be24 b0 b1 b2;
        if oui = 0x0050f2 then do {
          b3 \<leftarrow> rd buf (pos + 3);
          if b3 = 1 then Some (elems(E_wpa_ie := Some (pos, elen)), True)
          else if b3 = 2 then
            (if elen < 5 then Some (elems, False)
             else do {
               b4 \<leftarrow> rd buf (pos + 4);
               if b4 = 0 \<or> b4 = 1 then Some (elems(E_wme := Some (pos, elen)), True)
               else if b4 = 2 then Some (elems(E_wme_tspec := Some (pos, elen)), True)
               else Some (elems, False) })
          else if b3 = 4 then Some (elems(E_wps_ie := Some (pos, elen)), True)
          else Some (elems, False) }
        else if oui = 0x00904c then do {
          b3 \<leftarrow> rd buf (pos + 3);
          if b3 = 0x33 then Some (elems(E_vendor_ht_cap := Some (pos, elen)), True)
          else Some (elems, False) }
        else Some (elems, False) })"

definition parse_elem :: "bytes \<Rightarrow> u8 \<Rightarrow> nat \<Rightarrow> u8 \<Rightarrow> ieee802_11_elems \<Rightarrow> (ieee802_11_elems \<times> bool) option" where
  "parse_elem buf eid pos elen elems =
     (let here = Some (pos, elen) in
      if eid = 0 then Some (elems(E_ssid := here), True)
      else if eid = 1 then Some (elems(E_supp_rates := here), True)
      else if eid = 2 then Some (elems(E_fh_params := here), True)
      else if eid = 3 then Some (elems(E_ds_params := here), True)
      else if eid = 4 then Some (elems(E_cf_params := here), True)
      else if eid = 5 then Some (elems(E_tim := here), True)
      else if eid = 6 then Some (elems(E_ibss_params := here), True)
      else if eid = 16 then Some (elems(E_challenge := here), True)
      else if eid = 42 then Some (elems(E_erp_info := here), True)
      else if eid = 50 then Some (elems(E_ext_supp_rates := here), True)
      else if eid = 221 then rtw_ieee802_11_parse_vendor_specific buf pos elen elems
      else if eid = 48 then Some (elems(E_rsn_ie := here), True)
      else if eid = 33 then Some (elems(E_power_cap := here), True)
      else if eid = 36 then Some (elems(E_supp_channels := here), True)
      else if eid = 54 then Some (elems(E_mdie := here), True)
      else if eid = 55 then Some (elems(E_ftie := here), True)
      else if eid = 56 then Some (elems(E_timeout_int := here), True)
      else if eid = 45 then Some (elems(E_ht_capabilities := here), True)
      else if eid = 61 then Some (elems(E_ht_operation := here), True)
      else if eid = 191 then Some (elems(E_vht_capabilities := here), True)
      else if eid = 192 then Some (elems(E_vht_operation := here), True)
      else if eid = 199 then Some (elems(E_vht_op_mode_notify := here), True)
      else if eid = 70 then Some (elems(E_rm_en_cap := here), True)
      else Some (elems, False))"

function parse_loop :: "bytes \<Rightarrow> nat \<Rightarrow> nat \<Rightarrow> ieee802_11_elems \<Rightarrow> nat \<Rightarrow> (parse_res \<times> ieee802_11_elems) option" where
  "parse_loop buf pos left elems unknown =
     (if 2 \<le> left then
        (case (rd buf pos, rd buf (pos + 1)) of
          (Some eid, Some elen) \<Rightarrow>
            if left - 2 < unat elen then Some (ParseFailed, elems)
            else (case parse_elem buf eid (pos + 2) elen elems of None \<Rightarrow> None
              | Some (elems', known) \<Rightarrow>
                  parse_loop buf (pos + 2 + unat elen) (left - 2 - unat elen) elems' (if known then unknown else unknown + 1))
        | _ \<Rightarrow> None)
      else if left \<noteq> 0 then Some (ParseFailed, elems)
      else Some (if unknown \<noteq> 0 then ParseUnknown else ParseOK, elems))"
  by pat_completeness auto
termination by (relation "measure (\<lambda>(_, _, left, _). left)") auto

declare parse_loop.simps [simp del]

definition rtw_ieee802_11_parse_elems :: "bytes \<Rightarrow> nat \<Rightarrow> (parse_res \<times> ieee802_11_elems) option" where
  "rtw_ieee802_11_parse_elems start len = parse_loop start 0 len elems_zero 0"

section \<open>What each field must hold\<close>

definition starts :: "bytes \<Rightarrow> ie \<Rightarrow> bool" where
  "starts x e \<longleftrightarrow> ie_id e = 221 \<and> take (length x) (ie_data e) = x"

text \<open>The field an element belongs to.\<close>

definition id_fields :: "(u8 \<times> elem_field) list" where
  "id_fields = [
     (0, E_ssid), (1, E_supp_rates), (2, E_fh_params), (3, E_ds_params), (4, E_cf_params), (5, E_tim), (6, E_ibss_params), (16, E_challenge),
     (42, E_erp_info), (50, E_ext_supp_rates), (48, E_rsn_ie), (33, E_power_cap), (36, E_supp_channels),
     (54, E_mdie), (55, E_ftie), (56, E_timeout_int), (45, E_ht_capabilities), (61, E_ht_operation),
     (191, E_vht_capabilities), (192, E_vht_operation), (199, E_vht_op_mode_notify), (70, E_rm_en_cap)]"

definition vendor_field :: "ie \<Rightarrow> elem_field option" where
  "vendor_field e =
     (if starts [0x00, 0x50, 0xf2, 1] e then Some E_wpa_ie
      else if starts [0x00, 0x50, 0xf2, 2, 0] e \<or> starts [0x00, 0x50, 0xf2, 2, 1] e then Some E_wme
      else if starts [0x00, 0x50, 0xf2, 2, 2] e then Some E_wme_tspec
      else if starts [0x00, 0x50, 0xf2, 4] e then Some E_wps_ie
      else if starts [0x00, 0x90, 0x4c, 0x33] e then Some E_vendor_ht_cap
      else None)"

definition field_of :: "ie \<Rightarrow> elem_field option" where
  "field_of e = (if ie_id e = 221 then vendor_field e else map_of id_fields (ie_id e))"

definition set_field :: "elem_field option \<Rightarrow> slot \<Rightarrow> ieee802_11_elems \<Rightarrow> ieee802_11_elems \<times> bool" where
  "set_field f here elems = (case f of None \<Rightarrow> (elems, False) | Some x \<Rightarrow> (elems(x := here), True))"

lemma set_field_simps [simp]: "set_field None here elems = (elems, False)" "set_field (Some x) here elems = (elems(x := here), True)"
  by (simp_all add: set_field_def)

text \<open>The last element that satisfies \<open>p\<close>: the offset and length of its content, from \<open>off\<close> on.\<close>

fun last_content :: "(ie \<Rightarrow> bool) \<Rightarrow> nat \<Rightarrow> ie list \<Rightarrow> slot" where
  "last_content p off [] = None"
| "last_content p off (e # es) =
     (case last_content p (off + length (enc_ie e)) es of
        Some r \<Rightarrow> Some r
      | None \<Rightarrow> if p e then Some (off + 2, word_of_nat (length (ie_data e))) else None)"

lemma be24_inj: "be24 a b c = be24 x y z \<longleftrightarrow> a = x \<and> b = y \<and> c = z"
proof
  assume e: "be24 a b c = be24 x y z"
  have "ucast (drop_bit 16 (be24 a b c)) = a" "ucast (drop_bit 8 (be24 a b c)) = b" "ucast (be24 a b c) = c" for a b c
    by (rule bit_word_eqI, auto simp: be24_def bit_simps)+
  then show "a = x \<and> b = y \<and> c = z" using e by metis
qed simp

lemma be24_cases: "be24 a b c = 0x0050f2 \<longleftrightarrow> a = 0 \<and> b = 0x50 \<and> c = 0xf2" "be24 a b c = 0x00904c \<longleftrightarrow> a = 0 \<and> b = 0x90 \<and> c = 0x4c"
proof -
  have "be24 a b c = be24 0 0x50 0xf2 \<longleftrightarrow> a = 0 \<and> b = 0x50 \<and> c = 0xf2"
    "be24 a b c = be24 0 0x90 0x4c \<longleftrightarrow> a = 0 \<and> b = 0x90 \<and> c = 0x4c"
    by (rule be24_inj)+
  moreover have "be24 0 0x50 0xf2 = 0x0050f2" "be24 0 0x90 0x4c = 0x00904c" by (simp_all add: be24_def)
  ultimately show "be24 a b c = 0x0050f2 \<longleftrightarrow> a = 0 \<and> b = 0x50 \<and> c = 0xf2"
    "be24 a b c = 0x00904c \<longleftrightarrow> a = 0 \<and> b = 0x90 \<and> c = 0x4c" by simp_all
qed

lemma elen_less: "n < 256 \<Longrightarrow> k < 256 \<Longrightarrow> (word_of_nat n :: u8) < word_of_nat k \<longleftrightarrow> n < k"
  by (simp add: word_less_nat_alt unat_of_nat)

lemma byte_cases:
  fixes b0 b1 b2 b3 :: u8
  obtains "b0 = 0" "b1 = 0x50" "b2 = 0xf2" "b3 = 1" | "b0 = 0" "b1 = 0x50" "b2 = 0xf2" "b3 = 2"
    | "b0 = 0" "b1 = 0x50" "b2 = 0xf2" "b3 = 4"
    | "b0 = 0" "b1 = 0x50" "b2 = 0xf2" "b3 \<noteq> 1" "b3 \<noteq> 2" "b3 \<noteq> 4"
    | "b0 = 0" "b1 = 0x90" "b2 = 0x4c" "b3 = 0x33" | "b0 = 0" "b1 = 0x90" "b2 = 0x4c" "b3 \<noteq> 0x33"
    | "\<not> (b0 = 0 \<and> b1 = 0x50 \<and> b2 = 0xf2)" "\<not> (b0 = 0 \<and> b1 = 0x90 \<and> b2 = 0x4c)"
  by blast

lemma vendor_data_cases:
  obtains "length d < 4" | b0 b1 b2 b3 where "d = [b0, b1, b2, b3]" | b0 b1 b2 b3 b4 t where "d = b0 # b1 # b2 # b3 # b4 # t"
proof (cases "length d < 4")
  case False
  then obtain b0 b1 b2 b3 t where "d = b0 # b1 # b2 # b3 # t"
    by (auto simp: not_less numeral_eq_Suc Suc_le_length_iff)
  then show thesis using that(2,3) by (cases t) auto
qed (rule that(1))

lemma parse_vendor_encoded:
  assumes "wf_ie e" "ie_id e = 221" "pos = length p + 2"
  shows "rtw_ieee802_11_parse_vendor_specific (p @ enc_ie e @ q) pos (word_of_nat (length (ie_data e))) elems =
    Some (set_field (vendor_field e) (Some (pos, word_of_nat (length (ie_data e)))) elems)"
proof -
  let ?d = "ie_data e" and ?buf = "p @ enc_ie e @ q"
  have n: "length ?d < 256" using assms(1) by (simp add: wf_ie_def)
  note elen = elen_less [of "length ?d" 4, OF n, simplified] elen_less [of "length ?d" 5, OF n, simplified]
  have rd: "rd ?buf (pos + i) = Some (?d ! i)" if "i < length ?d" for i
    using that rd_append_right [of p "enc_ie e @ q" "2 + i"] assms(3) by (simp add: rd_def enc_ie_def nth_append numeral_2_eq_2)
  show ?thesis
  proof (cases ?d rule: vendor_data_cases)
    case 1
    then have "\<not> starts (x0 # x1 # x2 # x3 # x) e" for x0 x1 x2 x3 x
      by (auto simp: starts_def dest: arg_cong [where f = length])
    then show ?thesis using 1 elen by (simp add: rtw_ieee802_11_parse_vendor_specific_def vendor_field_def)
  next
    case (2 b0 b1 b2 b3)
    have r: "rd ?buf pos = Some b0" "rd ?buf (pos + 1) = Some b1" "rd ?buf (pos + 2) = Some b2" "rd ?buf (pos + 3) = Some b3"
      using rd [of 0] rd [of 1] rd [of 2] rd [of 3] by (simp_all add: 2)
    have l: "\<not> (word_of_nat (length ?d) :: u8) < 4" "(word_of_nat (length ?d) :: u8) < 5" unfolding elen by (simp_all add: 2)
    have st: "starts [x0, x1, x2, x3] e \<longleftrightarrow> b0 = x0 \<and> b1 = x1 \<and> b2 = x2 \<and> b3 = x3" "starts [x0, x1, x2, x3, x4] e \<longleftrightarrow> False"
      for x0 x1 x2 x3 x4 by (simp_all add: starts_def 2 assms(2))
    show ?thesis
      unfolding rtw_ieee802_11_parse_vendor_specific_def r bind.bind_lunit Let_def be24_cases if_not_P [OF l(1)] if_P [OF l(2)]
        vendor_field_def st
      by (cases b0 b1 b2 b3 rule: byte_cases) auto
  next
    case (3 b0 b1 b2 b3 b4 t)
    have r: "rd ?buf pos = Some b0" "rd ?buf (pos + 1) = Some b1" "rd ?buf (pos + 2) = Some b2" "rd ?buf (pos + 3) = Some b3"
      "rd ?buf (pos + 4) = Some b4"
      using rd [of 0] rd [of 1] rd [of 2] rd [of 3] rd [of 4] by (simp_all add: 3)
    have l: "\<not> (word_of_nat (length ?d) :: u8) < 4" "\<not> (word_of_nat (length ?d) :: u8) < 5" unfolding elen by (simp_all add: 3)
    have st: "starts [x0, x1, x2, x3] e \<longleftrightarrow> b0 = x0 \<and> b1 = x1 \<and> b2 = x2 \<and> b3 = x3"
      "starts [x0, x1, x2, x3, x4] e \<longleftrightarrow> b0 = x0 \<and> b1 = x1 \<and> b2 = x2 \<and> b3 = x3 \<and> b4 = x4"
      for x0 x1 x2 x3 x4 by (simp_all add: starts_def 3 assms(2))
    consider "b4 = 0" | "b4 = 1" | "b4 = 2" | "b4 \<noteq> 0" "b4 \<noteq> 1" "b4 \<noteq> 2" by blast
    then show ?thesis
      unfolding rtw_ieee802_11_parse_vendor_specific_def r bind.bind_lunit Let_def be24_cases if_not_P [OF l(1)] if_not_P [OF l(2)]
        vendor_field_def st
      by cases (cases b0 b1 b2 b3 rule: byte_cases; auto)+
  qed
qed

lemma parse_elem_encoded:
  assumes "wf_ie e" "pos = length p + 2"
  shows "parse_elem (p @ enc_ie e @ q) (ie_id e) pos (word_of_nat (length (ie_data e))) elems =
    Some (set_field (field_of e) (Some (pos, word_of_nat (length (ie_data e)))) elems)"
proof (cases "ie_id e = 221")
  case True
  then show ?thesis using parse_vendor_encoded [OF assms(1) True assms(2)] by (simp add: parse_elem_def field_of_def)
next
  case False
  then show ?thesis by (simp add: parse_elem_def field_of_def id_fields_def Let_def)
qed

lemma last_content_shift:
  "last_content P off (e # es) = (case last_content P (off + length (ie_data e) + 2) es of Some r \<Rightarrow> Some r
    | None \<Rightarrow> if P e then Some (off + 2, word_of_nat (length (ie_data e))) else None)"
  by (simp add: add.assoc)

lemma parse_loop_prefix:
  assumes "list_all wf_ie es"
  shows "\<exists>elems'. parse_loop (p @ enc_list enc_ie es @ q) (length p) (length (enc_list enc_ie es) + m) elems unknown =
      parse_loop (p @ enc_list enc_ie es @ q) (length p + length (enc_list enc_ie es)) m elems'
        (unknown + length (filter (\<lambda>e. field_of e = None) es))
    \<and> (\<forall>f. elems' f = (case last_content (\<lambda>e. field_of e = Some f) (length p) es of Some r \<Rightarrow> Some r | None \<Rightarrow> elems f))"
  using assms
proof (induction es arbitrary: p elems unknown)
  case Nil
  show ?case by (rule exI [of _ elems]) simp
next
  case (Cons e es)
  let ?n = "length (ie_data e)"
  define pos where "pos = length p + 2"
  have u: "unat (word_of_nat ?n :: u8) = ?n" using Cons.prems by (simp add: wf_ie_def unat_of_nat)
  define elems1 where "elems1 = fst (set_field (field_of e) (Some (pos, word_of_nat ?n)) elems)"
  define unknown1 where "unknown1 = (if field_of e = None then unknown + 1 else unknown)"
  have set: "set_field (field_of e) (Some (pos, word_of_nat ?n)) elems = (elems1, field_of e \<noteq> None)"
    by (cases "field_of e") (simp_all add: elems1_def)
  have rd: "rd (p @ enc_ie e @ enc_list enc_ie es @ q) (length p) = Some (ie_id e)"
    "rd (p @ enc_ie e @ enc_list enc_ie es @ q) (length p + 1) = Some (word_of_nat ?n)"
    using rd_append_right [of p "enc_ie e @ enc_list enc_ie es @ q" 0] rd_append_right [of p "enc_ie e @ enc_list enc_ie es @ q" 1]
    by simp_all
  let ?buf = "p @ enc_ie e @ enc_list enc_ie es @ q" and ?l = "length (enc_list enc_ie es)"
  have step: "parse_loop ?buf (length p) (?n + 2 + ?l + m) elems unknown = parse_loop ?buf (length (p @ enc_ie e)) (?l + m) elems1 unknown1"
  proof -
    have pe: "parse_elem ?buf (ie_id e) (length p + 2) (word_of_nat ?n) elems = Some (elems1, field_of e \<noteq> None)"
      using parse_elem_encoded [of e pos p "enc_list enc_ie es @ q" elems] Cons.prems set by (simp add: pos_def)
    have c: "2 \<le> ?n + 2 + ?l + m" "(?n + 2 + ?l + m - 2 < ?n) = False" "?n + 2 + ?l + m - 2 - ?n = ?l + m"
      "length p + 2 + ?n = length (p @ enc_ie e)"
      by simp_all
    have k: "(if field_of e \<noteq> None then unknown else unknown + 1) = unknown1" by (simp add: unknown1_def)
    show ?thesis by (subst parse_loop.simps) (simp only: rd pe u c k option.case prod.case if_True if_False)
  qed
  from Cons.IH [of "p @ enc_ie e" elems1 unknown1] Cons.prems
  obtain elems' where r: "parse_loop ?buf (length (p @ enc_ie e)) (?l + m) elems1 unknown1 =
      parse_loop ?buf (length (p @ enc_ie e) + ?l) m elems' (unknown1 + length (filter (\<lambda>e. field_of e = None) es))"
    "\<forall>f. elems' f = (case last_content (\<lambda>e. field_of e = Some f) (length (p @ enc_ie e)) es of Some r \<Rightarrow> Some r | None \<Rightarrow> elems1 f)"
    by auto
  have "elems1 f = (if field_of e = Some f then Some (length p + 2, word_of_nat ?n) else elems f)" for f
    by (cases "field_of e") (simp_all add: elems1_def pos_def)
  then have f: "elems' f = (case last_content (\<lambda>e. field_of e = Some f) (length p) (e # es) of Some r \<Rightarrow> Some r | None \<Rightarrow> elems f)" for f
    using r(2) unfolding last_content_shift by (auto simp: add.assoc split: option.splits)
  have "parse_loop (p @ enc_list enc_ie (e # es) @ q) (length p) (length (enc_list enc_ie (e # es)) + m) elems unknown =
      parse_loop (p @ enc_list enc_ie (e # es) @ q) (length p + length (enc_list enc_ie (e # es))) m elems'
        (unknown + length (filter (\<lambda>e. field_of e = None) (e # es)))"
    using r(1) step by (simp add: unknown1_def add_ac)
  then show ?case using f by blast
qed

text \<open>What is left of a buffer when no further whole element can be taken from it.\<close>

definition broken :: "bytes \<Rightarrow> bool" where
  "broken r \<longleftrightarrow> length r = 1 \<or> 2 \<le> length r \<and> length r - 2 < unat (r ! 1)"

lemma decode_elements:
  obtains es r where "b = enc_list enc_ie es @ r" "list_all wf_ie es" "r = [] \<or> broken r"
proof (induction "length b" arbitrary: b thesis rule: less_induct)
  case less
  show thesis
  proof (cases "b = [] \<or> broken b")
    case True
    then show thesis using less.prems [of "[]" b] by simp
  next
    case False
    then have l: "2 \<le> length b" "unat (b ! 1) \<le> length b - 2" by (cases b; auto simp: broken_def not_less Suc_le_eq)+
    then obtain x y t where b: "b = x # y # t" by (auto simp: numeral_2_eq_2 Suc_le_length_iff)
    define e where "e = IE x (take (unat y) t)"
    have n: "unat y \<le> length t" using l by (simp add: b)
    then have e: "b = enc_ie e @ drop (unat y) t" "wf_ie e"
      by (simp_all add: b e_def enc_ie_def wf_ie_def min_absorb2)
    have "length (drop (unat y) t) < length b" by (simp add: b)
    from less.hyps [OF this] obtain es r where "drop (unat y) t = enc_list enc_ie es @ r" "list_all wf_ie es" "r = [] \<or> broken r"
      by blast
    then show thesis using less.prems [of "e # es" r] e by simp
  qed
qed

lemma parse_loop_broken:
  assumes "broken r"
  shows "parse_loop (p @ r @ q) (length p) (length r) elems unknown = Some (ParseFailed, elems)"
  using assms rd_append_right [of p "r @ q" 0] rd_append_right [of p "r @ q" 1]
  by (subst parse_loop.simps) (auto simp: broken_def rd_def nth_append)

lemma last_content_bounds:
  assumes "list_all wf_ie es" "last_content P off es = Some (o', n)"
  shows "o' + unat n \<le> off + length (enc_list enc_ie es)"
  using assms
proof (induction es arbitrary: off)
  case (Cons e es)
  then show ?case
    by (force simp: wf_ie_def unat_of_nat split: option.splits if_splits)
qed simp

lemma enc_ie_cancel:
  assumes "enc_ie e @ a = enc_ie f @ b" "wf_ie e" "wf_ie f"
  shows "e = f \<and> a = b"
proof -
  have h: "ie_id e = ie_id f" "(word_of_nat (length (ie_data e)) :: u8) = word_of_nat (length (ie_data f))"
    "ie_data e @ a = ie_data f @ b"
    using assms(1) by (simp_all add: enc_ie_def)
  have "unat (word_of_nat (length (ie_data x)) :: u8) = length (ie_data x)" if "wf_ie x" for x
    using that by (simp add: wf_ie_def unat_of_nat)
  from this [OF assms(2)] this [OF assms(3)] have "length (ie_data e) = length (ie_data f)" using h(2) by metis
  then show ?thesis using h by (cases e; cases f) simp
qed

lemma enc_list_inj:
  "list_all wf_ie fs \<Longrightarrow> list_all wf_ie es \<Longrightarrow> enc_list enc_ie fs = enc_list enc_ie es \<Longrightarrow> fs = es"
proof (induction fs arbitrary: es)
  case Nil
  then show ?case by (cases es) (simp_all add: enc_ie_def)
next
  case (Cons f fs)
  then obtain e es' where es: "es = e # es'" by (cases es) (simp_all add: enc_ie_def)
  then show ?case
    using enc_ie_cancel [of f "enc_list enc_ie fs" e "enc_list enc_ie es'"] Cons.IH [of es'] Cons.prems by simp
qed

lemma broken_not_encoded:
  assumes "list_all wf_ie es" "list_all wf_ie fs" "enc_list enc_ie es = enc_list enc_ie fs @ r" "broken r"
  shows False
  using assms
proof (induction fs arbitrary: es)
  case Nil
  then obtain e es' where es: "es = e # es'" by (cases es) (auto simp: broken_def)
  then have r: "r = enc_ie e @ enc_list enc_ie es'" "wf_ie e" using Nil by simp_all
  then have "unat (r ! 1) = length (ie_data e)" "length r = length (ie_data e) + 2 + length (enc_list enc_ie es')"
    by (simp_all add: enc_ie_def wf_ie_def unat_of_nat)
  then show ?case using Nil.prems(4) by (auto simp: broken_def)
next
  case (Cons f fs)
  then obtain e es' where es: "es = e # es'" by (cases es) (auto simp: enc_ie_def)
  then have "enc_list enc_ie es' = enc_list enc_ie fs @ r"
    using enc_ie_cancel [of e "enc_list enc_ie es'" f "enc_list enc_ie fs @ r"] Cons.prems by simp
  then show ?case using Cons.IH [of es'] Cons.prems es by simp
qed

text \<open>C31: On every buffer that owns the given length rtw_ieee802_11_parse_elems returns without reading
  outside it. It reports a failure exactly when the bytes are not a sequence of whole elements, and an
  unknown element exactly when one of them belongs to no field; otherwise each of its 27 fields holds the
  place and length of the last element that belongs to it (null if there is none). In every case, failures
  included, what a field points to lies inside the length.\<close>

theorem parse_elems_exact:
  assumes "len \<le> length buf"
  shows "\<exists>res elems. rtw_ieee802_11_parse_elems buf len = Some (res, elems)
    \<and> (res = ParseFailed \<longleftrightarrow> \<not> (\<exists>es. list_all wf_ie es \<and> take len buf = enc_list enc_ie es))
    \<and> (\<forall>es. list_all wf_ie es \<and> take len buf = enc_list enc_ie es \<longrightarrow>
          (res = ParseUnknown \<longleftrightarrow> list_ex (\<lambda>e. field_of e = None) es)
        \<and> (\<forall>f. elems f = last_content (\<lambda>e. field_of e = Some f) 0 es))
    \<and> (\<forall>f off n. elems f = Some (off, n) \<longrightarrow> off + unat n \<le> len)"
proof -
  obtain es r where d: "take len buf = enc_list enc_ie es @ r" "list_all wf_ie es" "r = [] \<or> broken r"
    by (rule decode_elements)
  have buf: "buf = [] @ enc_list enc_ie es @ (r @ drop len buf)" using append_take_drop_id [of len buf] d(1) by simp
  have len: "len = length (enc_list enc_ie es) + length r" using arg_cong [OF d(1), of length] assms by simp
  obtain elems where e: "parse_loop buf 0 len elems_zero 0 =
      parse_loop buf (length (enc_list enc_ie es)) (length r) elems (length (filter (\<lambda>e. field_of e = None) es))"
    "\<forall>f. elems f = last_content (\<lambda>e. field_of e = Some f) 0 es"
  proof -
    have c: "(case x of None \<Rightarrow> elems_zero f | Some r \<Rightarrow> Some r) = x" for x f
      by (cases x) (simp_all add: elems_zero_def)
    from parse_loop_prefix [OF d(2), of "[]" "r @ drop len buf" "length r" elems_zero 0, folded buf, folded len, unfolded c]
    show thesis using that by auto
  qed
  have bounds: "\<forall>f off n. elems f = Some (off, n) \<longrightarrow> off + unat n \<le> len"
    using e(2) last_content_bounds [OF d(2), of _ 0] len by fastforce
  show ?thesis
  proof (cases "r = []")
    case True
    then have enc: "take len buf = enc_list enc_ie es" using d(1) by simp
    have same: "fs = es" if "list_all wf_ie fs" "take len buf = enc_list enc_ie fs" for fs
      using enc_list_inj [OF that(1) d(2)] that(2) enc by simp
    have "rtw_ieee802_11_parse_elems buf len = Some (if list_ex (\<lambda>e. field_of e = None) es then ParseUnknown else ParseOK, elems)"
    proof -
      have "parse_loop buf n 0 elems u = Some (if u \<noteq> 0 then ParseUnknown else ParseOK, elems)" for n u
        by (subst parse_loop.simps) simp
      moreover have "length (filter (\<lambda>e. field_of e = None) es) \<noteq> 0 \<longleftrightarrow> list_ex (\<lambda>e. field_of e = None) es"
        by (simp add: filter_empty_conv list_ex_iff)
      ultimately show ?thesis unfolding rtw_ieee802_11_parse_elems_def e(1) by (simp only: True list.size)
    qed
    moreover have "(if list_ex (\<lambda>e. field_of e = None) es then ParseUnknown else ParseOK) \<noteq> ParseFailed"
      "(if list_ex (\<lambda>e. field_of e = None) es then ParseUnknown else ParseOK) = ParseUnknown \<longleftrightarrow> list_ex (\<lambda>e. field_of e = None) es"
      by simp_all
    ultimately show ?thesis using enc d(2) e(2) bounds same by blast
  next
    case False
    then have "broken r" using d(3) by simp
    then have "rtw_ieee802_11_parse_elems buf len = Some (ParseFailed, elems)"
      unfolding rtw_ieee802_11_parse_elems_def e(1)
      using parse_loop_broken [of r "enc_list enc_ie es" "drop len buf"] buf by simp
    moreover have "\<not> (list_all wf_ie fs \<and> take len buf = enc_list enc_ie fs)" for fs
      using broken_not_encoded [of fs es r] d(1,2) \<open>broken r\<close> by auto
    ultimately show ?thesis using bounds by blast
  qed
qed

definition probe_response :: bytes where
  "probe_response = enc_list enc_ie [IE 0 [0x61], IE 221 [0x00, 0x50, 0xf2, 4, 9], IE 0 [], IE 200 [1]]"

theorem parse_elems_exact_witness:
  "\<exists>elems. rtw_ieee802_11_parse_elems probe_response 15 = Some (ParseUnknown, elems)
    \<and> elems E_ssid = Some (12, 0) \<and> elems E_wps_ie = Some (5, 5) \<and> elems E_tim = None"
proof -
  let ?es = "[IE 0 [0x61], IE 221 [0x00, 0x50, 0xf2, 4, 9], IE 0 [], IE 200 [1]]"
  have es: "list_all wf_ie ?es" "take 15 probe_response = enc_list enc_ie ?es" "15 \<le> length probe_response"
    by (simp_all add: wf_ie_def probe_response_def enc_ie_def)
  have "list_ex (\<lambda>e. field_of e = None) ?es" "last_content (\<lambda>e. field_of e = Some E_ssid) 0 ?es = Some (12, 0)"
    "last_content (\<lambda>e. field_of e = Some E_wps_ie) 0 ?es = Some (5, 5)"
    "last_content (\<lambda>e. field_of e = Some E_tim) 0 ?es = None"
    by (simp_all add: field_of_def id_fields_def vendor_field_def starts_def)
  moreover obtain res elems where r: "rtw_ieee802_11_parse_elems probe_response 15 = Some (res, elems)"
    "\<forall>es. list_all wf_ie es \<and> take 15 probe_response = enc_list enc_ie es \<longrightarrow>
        (res = ParseUnknown \<longleftrightarrow> list_ex (\<lambda>e. field_of e = None) es)
      \<and> (\<forall>f. elems f = last_content (\<lambda>e. field_of e = Some f) 0 es)"
    using parse_elems_exact [OF es(3)] by blast
  ultimately have "res = ParseUnknown" "elems E_ssid = Some (12, 0)" "elems E_wps_ie = Some (5, 5)" "elems E_tim = None"
    using r(2) [THEN spec, THEN mp, OF conjI [OF es(1,2)]] by (simp_all only: simp_thms)
  then show ?thesis using r(1) by blast
qed

end
