(* ===== verification/CamHw.thy ===== *)
theory CamHw
  imports Prelude
begin

text \<open>
  The words of the hardware key store, hal/hal_com.c. The store is a memory of 256 words of 32 bits
  that the driver reads and writes one at a time through \<open>rtw_sec_read_cam\<close> and
  \<open>rtw_sec_write_cam\<close>; an entry of the store is eight words, of which six are used. The two accessors
  poll a register until the chip has answered: the memory is the model of the chip, and a chip that
  answers in time is assumed.
\<close>

type_synonym cam_mem = "u8 \<Rightarrow> u32"

definition rtw_sec_write_cam :: "cam_mem \<Rightarrow> u8 \<Rightarrow> u32 \<Rightarrow> cam_mem" where
  "rtw_sec_write_cam mem addr wdata = mem(addr := wdata)"

definition rtw_sec_read_cam :: "cam_mem \<Rightarrow> u8 \<Rightarrow> u32" where
  "rtw_sec_read_cam mem addr = mem addr"

text \<open>The word the switch of \<open>rtw_sec_write_cam_ent\<close> computes for the index \<open>j\<close>.\<close>

definition cam_wdata :: "nat \<Rightarrow> u16 \<Rightarrow> bytes \<Rightarrow> bytes \<Rightarrow> u32" where
  "cam_wdata j ctrl mac key =
     (if j = 0 then ucast ctrl OR push_bit 16 (ucast (mac ! 0)) OR push_bit 24 (ucast (mac ! 1))
      else if j = 1 then ucast (mac ! 2) OR push_bit 8 (ucast (mac ! 3)) OR push_bit 16 (ucast (mac ! 4))
        OR push_bit 24 (ucast (mac ! 5))
      else if j = 6 \<or> j = 7 then 0
      else let i = (j - 2) * 4
           in ucast (key ! i) OR push_bit 8 (ucast (key ! (i + 1))) OR push_bit 16 (ucast (key ! (i + 2)))
             OR push_bit 24 (ucast (key ! (i + 3))))"

definition rtw_sec_write_cam_ent :: "cam_mem \<Rightarrow> u8 \<Rightarrow> u16 \<Rightarrow> bytes \<Rightarrow> bytes \<Rightarrow> cam_mem" where
  "rtw_sec_write_cam_ent mem cid ctrl mac key =
     fold (\<lambda>j mem. rtw_sec_write_cam mem (push_bit 3 cid + of_nat j) (cam_wdata j ctrl mac key)) (rev [0..<8]) mem"

definition rtw_sec_clr_cam_ent :: "cam_mem \<Rightarrow> u8 \<Rightarrow> cam_mem" where
  "rtw_sec_clr_cam_ent mem cid = rtw_sec_write_cam mem (push_bit 3 cid) 0"

text \<open>
  Reading stores into three buffers of the caller, each of which may be a null pointer: 2 bytes of
  control field, 6 of address, 16 of key. \<open>put\<close> is a \<open>memcpy\<close> into one of them.
\<close>

type_synonym cam_bufs = "bytes option \<times> bytes option \<times> bytes option"

definition put :: "nat \<Rightarrow> bytes \<Rightarrow> bytes option \<Rightarrow> bytes option" where
  "put off xs = map_option (\<lambda>buf. take off buf @ xs @ drop (off + length xs) buf)"

definition read_cam_word :: "u32 \<Rightarrow> nat \<Rightarrow> cam_bufs \<Rightarrow> cam_bufs" where
  "read_cam_word rdata i b = (case b of (ctrl, mac, key) \<Rightarrow>
     if i = 0 then (put 0 (take 2 (le32_bytes rdata)) ctrl, put 0 (drop 2 (le32_bytes rdata)) mac, key)
     else if i = 1 then (ctrl, put 2 (le32_bytes rdata) mac, key)
     else (ctrl, mac, put ((i - 2) * 4) (le32_bytes rdata) key))"

definition rtw_sec_read_cam_ent :: "cam_mem \<Rightarrow> u8 \<Rightarrow> cam_bufs \<Rightarrow> cam_bufs" where
  "rtw_sec_read_cam_ent mem cid b = (case b of (ctrl, mac, key) \<Rightarrow>
     if ctrl = None \<and> mac = None \<and> key = None then b
     else let begin = (if ctrl = None \<and> mac = None then 2 else 0);
              end = (if key = None \<and> mac = None then 0 else if key = None then 2 else 5)
          in fold (\<lambda>i. read_cam_word (rtw_sec_read_cam mem (push_bit 3 cid OR of_nat i)) i) [begin..<Suc end] b)"

definition rtw_sec_read_cam_is_gk :: "cam_mem \<Rightarrow> u8 \<Rightarrow> bool" where
  "rtw_sec_read_cam_is_gk mem cid =
     (case rtw_sec_read_cam_ent mem cid (Some [0, 0], None, None) of
        (Some (a # b # _), _, _) \<Rightarrow> (ucast a OR push_bit 8 (ucast b) :: u16) AND 0x40 \<noteq> 0
      | _ \<Rightarrow> False)"

section \<open>Addresses of words\<close>

lemma cam_addr_unat: "i < 32 \<Longrightarrow> j < 8 \<Longrightarrow> unat (push_bit 3 (of_nat i :: u8) + of_nat j) = 8 * i + j"
  by (simp add: push_bit_eq_mult unat_word_ariths unat_of_nat)

lemma cam_addr_or: "j < 8 \<Longrightarrow> push_bit 3 (cid :: u8) OR of_nat j = push_bit 3 cid + of_nat j"
proof (rule disjunctive_add_eq_or [symmetric], rule bit_word_eqI)
  fix n assume j: "j < 8"
  have "take_bit 3 j = j" using j by (simp add: take_bit_nat_eq_self)
  then have "\<not> bit j n" if "3 \<le> n" using that by (metis bit_take_bit_iff not_le)
  then show "bit (push_bit 3 cid AND of_nat j) n = bit (0 :: u8) n"
    by (auto simp: bit_simps)
qed

lemma cam_addr_inj:
  assumes "i < 32" "j < 8" "i' < 32" "j' < 8"
  shows "push_bit 3 (of_nat i :: u8) + of_nat j = push_bit 3 (of_nat i') + of_nat j' \<longleftrightarrow> i = i' \<and> j = j'"
proof
  assume "push_bit 3 (of_nat i :: u8) + of_nat j = push_bit 3 (of_nat i') + of_nat j'"
  from arg_cong [OF this, of unat] have eq: "8 * i + j = 8 * i' + j'" using assms by (simp add: cam_addr_unat)
  then have "i = i'" using assms by linarith
  with eq show "i = i' \<and> j = j'" by simp
qed simp

definition cam_word :: "cam_mem \<Rightarrow> nat \<Rightarrow> nat \<Rightarrow> u32" where
  "cam_word mem i j = mem (push_bit 3 (of_nat i) + of_nat j)"

lemma cam_word_write_word:
  "i < 32 \<Longrightarrow> j < 8 \<Longrightarrow> i' < 32 \<Longrightarrow> j' < 8 \<Longrightarrow>
   cam_word (rtw_sec_write_cam mem (push_bit 3 (of_nat i) + of_nat j) w) i' j' =
     (if i' = i \<and> j' = j then w else cam_word mem i' j')"
  by (auto simp: cam_word_def rtw_sec_write_cam_def cam_addr_inj)

text \<open>Writing an entry changes its eight words and no other.\<close>

lemma cam_word_fold_write:
  assumes "i < 32" "i' < 32" "j' < 8" "\<forall>j \<in> set js. j < 8"
  shows "cam_word (fold (\<lambda>j mem. rtw_sec_write_cam mem (push_bit 3 (of_nat i) + of_nat j) (f j)) js mem) i' j' =
     (if i' = i \<and> j' \<in> set js then f j' else cam_word mem i' j')"
  using assms(4)
  by (induction js arbitrary: mem) (auto simp: cam_word_write_word assms(1-3))

lemma cam_word_write_ent:
  "i < 32 \<Longrightarrow> i' < 32 \<Longrightarrow> j' < 8 \<Longrightarrow>
   cam_word (rtw_sec_write_cam_ent mem (of_nat i) ctrl mac key) i' j' =
     (if i' = i then cam_wdata j' ctrl mac key else cam_word mem i' j')"
  unfolding rtw_sec_write_cam_ent_def by (subst cam_word_fold_write) auto

section \<open>Reading back\<close>

lemma le32_split:
  "le32_bytes (ucast a OR push_bit 8 (ucast b) OR push_bit 16 (ucast c) OR push_bit 24 (ucast d)) = [a, b, c, d]"
proof -
  have "(ucast (w :: u32) :: u8) = x" if "\<And>n. n < 8 \<Longrightarrow> bit w n = bit x n" for w x
    by (rule bit_word_eqI) (simp add: bit_simps that)
  then show ?thesis unfolding le32_bytes_def
    by (intro list.inject [THEN iffD2] conjI refl) (simp add: bit_simps del: bit_beyond; force simp: bit_simps)+
qed

lemma le32_split16:
  "le32_bytes (ucast (ctrl :: u16) OR push_bit 16 (ucast c) OR push_bit 24 (ucast d)) =
     [ucast ctrl, ucast (drop_bit 8 ctrl), c, d]"
proof -
  have "(ucast (w :: u32) :: u8) = x" if "\<And>n. n < 8 \<Longrightarrow> bit w n = bit x n" for w x
    by (rule bit_word_eqI) (simp add: bit_simps that)
  then show ?thesis unfolding le32_bytes_def
    by (intro list.inject [THEN iffD2] conjI refl) (simp add: bit_simps del: bit_beyond; force simp: bit_simps)+
qed

text \<open>The words of an entry hold it: what \<open>rtw_sec_read_cam_ent\<close> stores is what was written.\<close>

definition ent_words :: "cam_mem \<Rightarrow> nat \<Rightarrow> u16 \<Rightarrow> bytes \<Rightarrow> bytes \<Rightarrow> bool" where
  "ent_words mem i ctrl mac key \<longleftrightarrow> (\<forall>j < 8. cam_word mem i j = cam_wdata j ctrl mac key)"

lemma ent_words_write:
  "i < 32 \<Longrightarrow> i' < 32 \<Longrightarrow>
   ent_words (rtw_sec_write_cam_ent mem (of_nat i) ctrl mac key) i' ctrl' mac' key' \<longleftrightarrow>
     (if i' = i then \<forall>j < 8. cam_wdata j ctrl mac key = cam_wdata j ctrl' mac' key'
      else ent_words mem i' ctrl' mac' key')"
  by (auto simp: ent_words_def cam_word_write_ent)

lemma six_bytes: "length xs = 6 \<Longrightarrow> [xs ! 0, xs ! 1, xs ! 2, xs ! 3, xs ! 4, xs ! 5] = xs"
  by (rule nth_equalityI) (auto simp: nth_Cons numeral_eq_Suc less_Suc_eq split: nat.split)

lemma list_4_parts:
  "length xs = 16 \<Longrightarrow> take 4 xs @ take 4 (drop 4 xs) @ take 4 (drop 8 xs) @ drop 12 xs = xs"
  using append_take_drop_id [of 4 xs] append_take_drop_id [of 4 "drop 4 xs"]
    append_take_drop_id [of 4 "drop 8 xs"] by simp

lemma le32_key_word:
  assumes "2 \<le> j" "j < 6" "length key = 16"
  shows "le32_bytes (cam_wdata j ctrl mac key) = take 4 (drop ((j - 2) * 4) key)"
proof -
  let ?i = "(j - 2) * 4"
  have "?i + 4 \<le> length key" using assms by simp
  then have "take 4 (drop ?i key) = [key ! ?i, key ! (?i + 1), key ! (?i + 2), key ! (?i + 3)]"
    by (intro nth_equalityI) (auto simp: nth_Cons numeral_eq_Suc less_Suc_eq split: nat.split)
  then show ?thesis using assms by (simp add: cam_wdata_def le32_split Let_def)
qed

lemma read_cam_ent:
  assumes w: "ent_words mem i ctrl mac key" and i: "i < 32"
    and l: "length mac = 6" "length key = 16" "length b0 = 2" "length b1 = 6" "length b2 = 16"
  shows "rtw_sec_read_cam_ent mem (of_nat i) (Some b0, Some b1, Some b2) =
    (Some [ucast ctrl, ucast (drop_bit 8 ctrl)], Some mac, Some key)"
proof -
  have r: "rtw_sec_read_cam mem (push_bit 3 (of_nat i) OR of_nat j) = cam_wdata j ctrl mac key" if "j < 8" for j
    using w that by (simp add: rtw_sec_read_cam_def cam_addr_or ent_words_def cam_word_def)
  have f: "fold (\<lambda>j. read_cam_word (rtw_sec_read_cam mem (push_bit 3 (of_nat i) OR of_nat j)) j) [0..<6] b
    = fold (\<lambda>j. read_cam_word (cam_wdata j ctrl mac key) j) [0..<6] b" for b
    by (rule fold_cong) (auto simp: r)
  have w0: "le32_bytes (cam_wdata 0 ctrl mac key) = [ucast ctrl, ucast (drop_bit 8 ctrl), mac ! 0, mac ! 1]"
    by (simp add: cam_wdata_def le32_split16)
  have w1: "le32_bytes (cam_wdata 1 ctrl mac key) = [mac ! 2, mac ! 3, mac ! 4, mac ! 5]"
    by (simp add: cam_wdata_def le32_split)
  have k: "le32_bytes (cam_wdata 2 ctrl mac key) = take 4 key"
    "le32_bytes (cam_wdata 3 ctrl mac key) = take 4 (drop 4 key)"
    "le32_bytes (cam_wdata 4 ctrl mac key) = take 4 (drop 8 key)"
    "le32_bytes (cam_wdata 5 ctrl mac key) = take 4 (drop 12 key)"
    using l by (simp_all add: le32_key_word)
  have u: "[0..<6] = [0, 1, 2, 3, 4, 5::nat]" by (simp add: upt_rec)
  have m: "[mac ! 0, mac ! 1] @ [mac ! 2, mac ! 3, mac ! 4, mac ! 5] = mac"
    using six_bytes [OF l(1)] by simp
  have "fold (\<lambda>j. read_cam_word (cam_wdata j ctrl mac key) j) [0..<6] (Some b0, Some b1, Some b2)
     = (Some [ucast ctrl, ucast (drop_bit 8 ctrl)],
        Some ([mac ! 0, mac ! 1] @ [mac ! 2, mac ! 3, mac ! 4, mac ! 5]),
        Some (take 4 key @ take 4 (drop 4 key) @ take 4 (drop 8 key) @ drop 12 key))"
    unfolding u using l by (simp add: read_cam_word_def put_def w0 w1 k del: One_nat_def)
  then show ?thesis
    unfolding m list_4_parts [OF l(2)] by (simp add: rtw_sec_read_cam_ent_def f del: upt_Suc)
qed

end
