(* ===== verification/Cam.thy ===== *)
theory Cam
  imports CamHw StaHash
begin

text \<open>
  The key store of the driver, core/rtw_wlan_util.c: the hardware entries (\<open>CamHw\<close>), the copy
  \<open>cam_cache\<close> the driver keeps of them, the bitmap of allocated entries (\<open>struct sec_cam_bmp\<close>, one
  word for the 32 entries of this chip), and the two command handlers of core/rtw_mlme_ext.c that
  install and remove keys, \<open>setkey_hdl\<close> and \<open>set_stakey_hdl\<close>. The locks and the messages are
  left out. An entry number the code keeps in an \<open>s16\<close> with -1 for none is a \<open>nat option\<close>. The
  loops that search an entry and clear it until none is found may run forever, so a handler returns an
  option.
\<close>

section \<open>State\<close>

record sec_cam_ent =
  sc_ctrl :: u16
  sc_mac :: bytes
  sc_key :: bytes

datatype hw_var = HW_VAR_CAM_INVALID_ALL | HW_VAR_SEC_CFG | HW_VAR_SEC_DK_CFG bool | HW_VAR_ON_RCR_AM

text \<open>
  \<open>cam_hw\<close> is the memory of the chip, \<open>cam_regs\<close> the calls of \<open>rtw_hal_set_hwreg\<close> in reverse
  order; the last two fields are of \<open>struct mlme_ext_info\<close>.
\<close>

record cam =
  cam_sec_cap :: u8
  cam_flags :: u32
  cam_num :: nat
  cam_used :: u32
  cam_cache :: "sec_cam_ent list"
  cam_hw :: cam_mem
  cam_regs :: "hw_var list"
  cam_key_index :: u8
  cam_enc_algo :: u8

definition SEC_CAM_ENT_NUM_SW_LIMIT :: nat where "SEC_CAM_ENT_NUM_SW_LIMIT = 32"

definition null_mac :: bytes where "null_mac = replicate 6 0"

definition null_ent :: sec_cam_ent where
  "null_ent = \<lparr>sc_ctrl = 0, sc_mac = null_mac, sc_key = replicate 16 0\<rparr>"

definition set_hwreg :: "hw_var \<Rightarrow> cam \<Rightarrow> cam" where
  "set_hwreg v s = s\<lparr>cam_regs := v # cam_regs s\<rparr>"

section \<open>The bitmap\<close>

definition rtw_sec_camid_is_set :: "u32 \<Rightarrow> nat \<Rightarrow> bool" where
  "rtw_sec_camid_is_set m0 i = (if i < 32 then m0 AND push_bit i 1 \<noteq> 0 else False)"

definition rtw_sec_cam_map_set :: "u32 \<Rightarrow> nat \<Rightarrow> u32" where
  "rtw_sec_cam_map_set m0 i = (if i < 32 then m0 OR push_bit i 1 else m0)"

definition rtw_sec_cam_map_clr :: "u32 \<Rightarrow> nat \<Rightarrow> u32" where
  "rtw_sec_cam_map_clr m0 i = (if i < 32 then m0 AND NOT (push_bit i 1) else m0)"

definition rtw_sec_camid_is_drv_forbid :: "nat \<Rightarrow> bool" where
  "rtw_sec_camid_is_drv_forbid i = (if i < 32 then (0x00000ff0 :: u32) AND push_bit i 1 \<noteq> 0 else True)"

definition rtw_sec_camid_is_used :: "cam \<Rightarrow> nat \<Rightarrow> bool" where
  "rtw_sec_camid_is_used s i = (if i \<ge> cam_num s then False else rtw_sec_camid_is_set (cam_used s) i)"

definition rtw_camid_is_gk :: "cam \<Rightarrow> nat \<Rightarrow> bool" where
  "rtw_camid_is_gk s i =
     (if i \<ge> cam_num s then False
      else if \<not> rtw_sec_camid_is_used s i then False
      else sc_ctrl (cam_cache s ! i) AND 0x40 \<noteq> 0)"

definition rtw_camid_set :: "cam \<Rightarrow> nat \<Rightarrow> cam" where
  "rtw_camid_set s i = (if i < cam_num s then s\<lparr>cam_used := rtw_sec_cam_map_set (cam_used s) i\<rparr> else s)"

definition rtw_camid_free :: "cam \<Rightarrow> nat \<Rightarrow> cam" where
  "rtw_camid_free s i = (if i < cam_num s then s\<lparr>cam_used := rtw_sec_cam_map_clr (cam_used s) i\<rparr> else s)"

text \<open>The numbers of the entries in use, at most \<open>max_bk_key_num\<close> of them (0 is no bound).\<close>

fun sec_camid_loop :: "cam \<Rightarrow> nat \<Rightarrow> nat list \<Rightarrow> nat list \<Rightarrow> nat list" where
  "sec_camid_loop s max_bk_key_num [] acc = acc"
| "sec_camid_loop s max_bk_key_num (i # is) acc =
     (if rtw_sec_camid_is_used s i
      then let acc = acc @ [i]
           in if length acc = max_bk_key_num then acc else sec_camid_loop s max_bk_key_num is acc
      else sec_camid_loop s max_bk_key_num is acc)"

definition rtw_get_sec_camid :: "cam \<Rightarrow> nat \<Rightarrow> nat list" where
  "rtw_get_sec_camid s max_bk_key_num = sec_camid_loop s max_bk_key_num [0..<cam_num s] []"

section \<open>Entries\<close>

definition write_cam_cache :: "cam \<Rightarrow> nat \<Rightarrow> u16 \<Rightarrow> bytes \<Rightarrow> bytes \<Rightarrow> cam" where
  "write_cam_cache s i ctrl mac key =
     s\<lparr>cam_cache := (cam_cache s)[i := \<lparr>sc_ctrl = ctrl, sc_mac = take 6 mac, sc_key = take 16 key\<rparr>]\<rparr>"

definition clear_cam_cache :: "cam \<Rightarrow> nat \<Rightarrow> cam" where
  "clear_cam_cache s i = s\<lparr>cam_cache := (cam_cache s)[i := null_ent]\<rparr>"

definition clear_cam_hw :: "cam \<Rightarrow> nat \<Rightarrow> cam" where
  "clear_cam_hw s i = s\<lparr>cam_hw := rtw_sec_write_cam_ent (cam_hw s) (of_nat i) 0 (replicate 6 0) (replicate 16 0)\<rparr>"

definition write_cam :: "cam \<Rightarrow> nat \<Rightarrow> u16 \<Rightarrow> bytes \<Rightarrow> bytes \<Rightarrow> cam" where
  "write_cam s i ctrl mac key =
     write_cam_cache (s\<lparr>cam_hw := rtw_sec_write_cam_ent (cam_hw s) (of_nat i) ctrl mac key\<rparr>) i ctrl mac key"

definition clear_cam_entry :: "cam \<Rightarrow> nat \<Rightarrow> cam" where
  "clear_cam_entry s i = clear_cam_cache (clear_cam_hw s i) i"

definition write_cam_from_cache :: "cam \<Rightarrow> nat \<Rightarrow> cam" where
  "write_cam_from_cache s i =
     (let c = cam_cache s ! i
      in s\<lparr>cam_hw := rtw_sec_write_cam_ent (cam_hw s) (of_nat i) (sc_ctrl c) (sc_mac c) (sc_key c)\<rparr>)"

text \<open>The chip clears its memory when it is told so (bits 31 and 30 of REG_CAMCMD).\<close>

definition invalidate_cam_all :: "cam \<Rightarrow> cam" where
  "invalidate_cam_all s =
     (set_hwreg HW_VAR_CAM_INVALID_ALL s)\<lparr>cam_hw := (\<lambda>_. 0), cam_used := 0,
        cam_cache := replicate SEC_CAM_ENT_NUM_SW_LIMIT null_ent\<rparr>"

definition flush_all_cam_entry :: "cam \<Rightarrow> cam" where
  "flush_all_cam_entry s = set_hwreg (HW_VAR_SEC_DK_CFG False) (invalidate_cam_all s)"

definition SEC_CAP_CHK_BMC :: u8 where "SEC_CAP_CHK_BMC = 1"
definition SEC_STATUS_STA_PK_GK_CONFLICT_DIS_BMC_SEARCH :: u32 where
  "SEC_STATUS_STA_PK_GK_CONFLICT_DIS_BMC_SEARCH = 1"

definition rtw_camctl_chk_cap :: "cam \<Rightarrow> u8 \<Rightarrow> bool" where
  "rtw_camctl_chk_cap s cap \<longleftrightarrow> cam_sec_cap s AND cap \<noteq> 0"

definition rtw_camctl_set_flags :: "cam \<Rightarrow> u32 \<Rightarrow> cam" where
  "rtw_camctl_set_flags s flags = s\<lparr>cam_flags := cam_flags s OR flags\<rparr>"

definition rtw_camctl_clr_flags :: "cam \<Rightarrow> u32 \<Rightarrow> cam" where
  "rtw_camctl_clr_flags s flags = s\<lparr>cam_flags := cam_flags s AND NOT flags\<rparr>"

definition rtw_camctl_chk_flags :: "cam \<Rightarrow> u32 \<Rightarrow> bool" where
  "rtw_camctl_chk_flags s flags \<longleftrightarrow> cam_flags s AND flags \<noteq> 0"

section \<open>Search and allocation\<close>

text \<open>\<open>kid\<close> and \<open>gk\<close> are -1 where any key id, or any kind of key, will do.\<close>

definition cam_cache_chk :: "cam \<Rightarrow> nat \<Rightarrow> bytes option \<Rightarrow> int \<Rightarrow> int \<Rightarrow> bool" where
  "cam_cache_chk s i addr kid gk =
     (if addr \<noteq> None \<and> take 6 (sc_mac (cam_cache s ! i)) \<noteq> take 6 (the addr) then False
      else if kid \<ge> 0 \<and> kid \<noteq> uint (sc_ctrl (cam_cache s ! i) AND 3) then False
      else if gk \<noteq> -1 \<and> (gk \<noteq> 0) \<noteq> rtw_camid_is_gk s i then False
      else True)"

definition rtw_camid_search :: "cam \<Rightarrow> bytes option \<Rightarrow> int \<Rightarrow> int \<Rightarrow> nat option" where
  "rtw_camid_search s addr kid gk = find (\<lambda>i. cam_cache_chk s i addr kid gk) [0..<cam_num s]"

definition rtw_get_camid :: "cam \<Rightarrow> bytes option \<Rightarrow> int \<Rightarrow> int \<Rightarrow> nat option" where
  "rtw_get_camid s addr kid gk =
     (if addr = None then None
      else case (if rtw_camctl_chk_cap s SEC_CAP_CHK_BMC then rtw_camid_search s addr kid gk
                 else rtw_camid_search s addr kid (-1)) of
        Some i \<Rightarrow> Some i
      | None \<Rightarrow>
          let start_id = 0
          in case find (\<lambda>i. \<not> (i + start_id) mod cam_num s < 4
                 \<and> \<not> rtw_sec_camid_is_used s ((i + start_id) mod cam_num s)) [0..<cam_num s] of
               None \<Rightarrow> None
             | Some i \<Rightarrow> Some ((i + start_id) mod cam_num s))"

text \<open>
  What the handlers read of the adapter: the role in \<open>mlmeinfo->state\<close>, the BSSID, the own address
  and the station table.
\<close>

record cam_env =
  ce_state :: u32
  ce_bssid :: bytes
  ce_mac_addr :: bytes
  ce_sta_hash :: "sta_info list list"

definition WIFI_FW_ADHOC_STATE :: u32 where "WIFI_FW_ADHOC_STATE = 1"
definition WIFI_FW_STATION_STATE :: u32 where "WIFI_FW_STATION_STATE = 2"
definition WIFI_FW_AP_STATE :: u32 where "WIFI_FW_AP_STATE = 3"
definition WIFI_FW_ASSOC_SUCCESS :: u32 where "WIFI_FW_ASSOC_SUCCESS = 0x4000"

definition serves_group :: "cam_env \<Rightarrow> bool" where
  "serves_group env \<longleftrightarrow> ce_state env AND 3 = WIFI_FW_AP_STATE \<or> ce_state env AND 3 = WIFI_FW_ADHOC_STATE"

definition camid_choice :: "cam_env \<Rightarrow> sta_info option \<Rightarrow> u8 \<Rightarrow> int \<Rightarrow> cam \<Rightarrow> nat option" where
  "camid_choice env sta kid gk s =
     (if serves_group env \<and> sta = None then if kid > 3 then None else Some (unat kid)
      else case sta of
        None \<Rightarrow> if ce_state env AND WIFI_FW_ASSOC_SUCCESS = 0 then None
               else rtw_get_camid s (Some (ce_bssid env)) (uint kid) gk
      | Some psta \<Rightarrow> rtw_get_camid s (Some (si_mac_addr psta)) (uint kid) gk)"

text \<open>The entry chosen, whether it was in use, and the store in which it is.\<close>

definition rtw_camid_alloc :: "cam_env \<Rightarrow> sta_info option \<Rightarrow> u8 \<Rightarrow> int \<Rightarrow> cam \<Rightarrow> nat option \<times> bool \<times> cam" where
  "rtw_camid_alloc env sta kid gk s =
     (case camid_choice env sta kid gk s of
        None \<Rightarrow> (None, False, s)
      | Some i \<Rightarrow> (Some i, rtw_sec_camid_is_used s i, s\<lparr>cam_used := rtw_sec_cam_map_set (cam_used s) i\<rparr>))"

partial_function (option) clear_loop :: "bytes option \<Rightarrow> int \<Rightarrow> int \<Rightarrow> cam \<Rightarrow> cam option" where
  "clear_loop addr kid gk s =
     (case rtw_camid_search s addr kid gk of
        None \<Rightarrow> Some s
      | Some i \<Rightarrow> clear_loop addr kid gk (rtw_camid_free (clear_cam_entry s i) i))"

section \<open>The handlers\<close>

datatype h2c = H2C_SUCCESS | H2C_SUCCESS_RSP | H2C_REJECTED

record setkey_parm =
  sk_algorithm :: u8
  sk_keyid :: u8
  sk_set_tx :: u8
  sk_key :: bytes

record set_stakey_parm =
  st_addr :: bytes
  st_algorithm :: u8
  st_keyid :: u8
  st_key :: bytes
  st_gk :: u8

definition NO_PRIVACY :: u8 where "NO_PRIVACY = 0"

definition wep_alg :: "u8 \<Rightarrow> bool" where
  "wep_alg alg \<longleftrightarrow> alg = 1 \<or> alg = 5"

definition stakey_ctrl :: "set_stakey_parm \<Rightarrow> u16" where
  "stakey_ctrl p =
     (let ctrl = 0x8000 OR push_bit 2 (ucast (st_algorithm p)) OR ucast (st_keyid p)
      in if st_gk p \<noteq> 0 then ctrl OR 0x40 else ctrl)"

text \<open>The code before the label \<open>write_to_cam\<close> when a pairwise key meets a group key.\<close>

definition stop_group_search :: "cam \<Rightarrow> cam" where
  "stop_group_search s =
     set_hwreg HW_VAR_SEC_CFG (rtw_camctl_set_flags s SEC_STATUS_STA_PK_GK_CONFLICT_DIS_BMC_SEARCH)"

definition set_stakey_hdl :: "cam_env \<Rightarrow> set_stakey_parm \<Rightarrow> cam \<Rightarrow> (h2c \<times> cam) option" where
  "set_stakey_hdl env p s =
     (if st_algorithm p = NO_PRIVACY
      then do { s \<leftarrow> clear_loop (Some (st_addr p)) (-1) (-1) s; Some (H2C_SUCCESS_RSP, s) }
      else case rtw_get_stainfo (ce_sta_hash env) (st_addr p) of
        None \<Rightarrow> Some (H2C_REJECTED, s)
      | Some psta \<Rightarrow>
          let s = s\<lparr>cam_enc_algo := st_algorithm p\<rparr>
          in case rtw_camid_alloc env (Some psta) (st_keyid p) (uint (st_gk p)) s of
               (None, _, s) \<Rightarrow> Some (H2C_SUCCESS, s)
             | (Some cam_id, used, s) \<Rightarrow>
                 do { s \<leftarrow> (if st_gk p = 0 \<and> used \<and> rtw_camid_is_gk s cam_id
                          then clear_loop (Some (st_addr p)) (-1) 1 (stop_group_search s) else Some s);
                      Some (H2C_SUCCESS_RSP, write_cam s cam_id (stakey_ctrl p) (st_addr p) (st_key p)) })"

definition setkey_ctrl :: "setkey_parm \<Rightarrow> u16" where
  "setkey_ctrl p = 0x8000 OR 0x40 OR push_bit 2 (ucast (sk_algorithm p)) OR ucast (sk_keyid p)"

text \<open>The address of an entry: default keys have none, the others are found by the transmitter.\<close>

definition setkey_addr :: "cam_env \<Rightarrow> nat \<Rightarrow> bytes" where
  "setkey_addr env cam_id =
     (if cam_id \<le> 3 then null_mac else if serves_group env then ce_mac_addr env else ce_bssid env)"

definition setkey_hdl :: "cam_env \<Rightarrow> setkey_parm \<Rightarrow> cam \<Rightarrow> (h2c \<times> cam) option" where
  "setkey_hdl env p s =
     (let s = (if sk_set_tx p \<noteq> 0 then s\<lparr>cam_key_index := sk_keyid p\<rparr> else s);
          enable_mc = (\<lambda>s. Some (H2C_SUCCESS, set_hwreg HW_VAR_ON_RCR_AM s))
      in case rtw_camid_alloc env None (sk_keyid p) 1 s of
        (None, _, s) \<Rightarrow> enable_mc s
      | (Some cam_id, used, s) \<Rightarrow>
          let addr = setkey_addr env cam_id
          in if used \<and> \<not> rtw_camid_is_gk s cam_id
             then do { s \<leftarrow> clear_loop (Some addr) (-1) 1 (stop_group_search s); enable_mc s }
             else
               let s = write_cam s cam_id (setkey_ctrl p) addr (sk_key p);
                   s = (if cam_id \<le> 3 then set_hwreg (HW_VAR_SEC_DK_CFG True) s else s)
               in if wep_alg (sk_algorithm p) \<and> ce_state env AND 3 = WIFI_FW_STATION_STATE
                     \<and> rtw_camctl_chk_cap s SEC_CAP_CHK_BMC
                  then do { r \<leftarrow> set_stakey_hdl env \<lparr>st_addr = ce_bssid env, st_algorithm = sk_algorithm p,
                              st_keyid = sk_keyid p, st_key = sk_key p, st_gk = 0\<rparr> s;
                            enable_mc (snd r) }
                  else enable_mc s)"

text \<open>The WEP keys of \<open>struct security_priv\<close> that an access point gives a new station.\<close>

record wep_keys =
  wk_algorithm :: u32
  wk_key_mask :: u8
  wk_key_index :: u32
  wk_def_key :: "bytes list"

definition rtw_ap_wep_pk_setting :: "cam_env \<Rightarrow> wep_keys \<Rightarrow> sta_info \<Rightarrow> cam \<Rightarrow> cam option" where
  "rtw_ap_wep_pk_setting env w psta s =
     (if \<not> (wk_algorithm w = 1 \<or> wk_algorithm w = 5) then Some s
      else fold (\<lambda>keyid r. do { s \<leftarrow> r;
             if wk_key_mask w AND push_bit keyid 1 \<noteq> 0 \<and> of_nat keyid = wk_key_index w
             then map_option snd (set_stakey_hdl env \<lparr>st_addr = si_mac_addr psta, st_algorithm = ucast (wk_algorithm w),
                    st_keyid = of_nat keyid, st_key = take 16 (wk_def_key w ! keyid), st_gk = 0\<rparr> s)
             else Some s }) [0..<4] (Some s))"

section \<open>Moving entries\<close>

definition move_in :: "cam \<Rightarrow> nat \<Rightarrow> sec_cam_ent \<Rightarrow> cam" where
  "move_in s i c = rtw_camid_set (write_cam s i (sc_ctrl c) (sc_mac c) (sc_key c)) i"

definition move_out :: "cam \<Rightarrow> nat \<Rightarrow> cam" where
  "move_out s i = clear_cam_entry (rtw_camid_free s i) i"

definition rtw_sec_cam_swap :: "cam \<Rightarrow> nat \<Rightarrow> nat \<Rightarrow> cam" where
  "rtw_sec_cam_swap s a b =
     (if a = b then s
      else let cam_a_used = rtw_sec_camid_is_used s a; cam_b_used = rtw_sec_camid_is_used s b;
               cache_a = cam_cache s ! a; cache_b = cam_cache s ! b;
               s = (if cam_a_used then move_out s a else s);
               s = (if cam_b_used then move_out s b else s);
               s = (if cam_a_used then move_in s b cache_a else s)
           in if cam_b_used then move_in s a cache_b else s)"

definition rtw_get_empty_cam_entry :: "cam \<Rightarrow> nat \<Rightarrow> nat option" where
  "rtw_get_empty_cam_entry s start_camid =
     find (\<lambda>i. \<not> rtw_sec_camid_is_used s i) [start_camid..<cam_num s]"

definition rtw_clean_dk_section :: "cam \<Rightarrow> cam" where
  "rtw_clean_dk_section s =
     fold (\<lambda>i s. if rtw_sec_camid_is_used s i
                 then case rtw_get_empty_cam_entry s 4 of
                        Some e \<Rightarrow> if e > 0 then rtw_sec_cam_swap s i e else s
                      | None \<Rightarrow> s
                 else s) [0..<4] s"

definition rtw_clean_hw_dk_cam :: "cam \<Rightarrow> cam" where
  "rtw_clean_hw_dk_cam s = s\<lparr>cam_hw := fold (\<lambda>i mem. rtw_sec_clr_cam_ent mem (of_nat i)) [0..<4] (cam_hw s)\<rparr>"

end
