(* ===== verification/CamKeys.thy ===== *)
theory CamKeys
  imports Cam
begin

text \<open>
  The key store as its handlers leave it. \<open>cam_inv\<close> holds in every reachable state: the copy of the
  driver is what the chip holds, allocated entries lie inside the store, and no two entries answer to
  the same address and key id. \<open>cam_tight\<close> (an entry that is not allocated is empty) holds as long as
  no pairwise key was installed over a group key of the same key id.
\<close>

section \<open>Bits and single entries\<close>

lemma camid_is_set_bit [simp]: "rtw_sec_camid_is_set m i \<longleftrightarrow> bit m i"
proof (cases "i < 32")
  case True
  then show ?thesis by (simp add: rtw_sec_camid_is_set_def bit_iff_and_push_bit_not_eq_0)
qed (simp add: rtw_sec_camid_is_set_def)

lemma map_set_bit [simp]: "bit (rtw_sec_cam_map_set m i) j \<longleftrightarrow> bit m j \<or> j = i \<and> i < 32"
  by (auto simp: rtw_sec_cam_map_set_def bit_simps)

lemma map_clr_bit [simp]: "bit (rtw_sec_cam_map_clr m i) j \<longleftrightarrow> bit m j \<and> j \<noteq> i"
  by (cases "j < 32") (auto simp: rtw_sec_cam_map_clr_def bit_simps)

lemma camid_is_used_bit: "rtw_sec_camid_is_used s i \<longleftrightarrow> i < cam_num s \<and> bit (cam_used s) i"
  by (simp add: rtw_sec_camid_is_used_def)

lemma camid_is_gk_iff:
  "rtw_camid_is_gk s i \<longleftrightarrow> rtw_sec_camid_is_used s i \<and> sc_ctrl (cam_cache s ! i) AND 0x40 \<noteq> 0"
  by (auto simp: rtw_camid_is_gk_def camid_is_used_bit)

definition ent_ok :: "sec_cam_ent \<Rightarrow> bool" where
  "ent_ok c \<longleftrightarrow> length (sc_mac c) = 6 \<and> length (sc_key c) = 16"

definition ent_kid :: "sec_cam_ent \<Rightarrow> nat" where
  "ent_kid c = unat (sc_ctrl c AND 3)"

lemma null_ent_ok [simp]: "ent_ok null_ent" "sc_mac null_ent = null_mac" "length null_mac = 6"
  by (simp_all add: ent_ok_def null_ent_def null_mac_def)

lemma null_words: "j < 8 \<Longrightarrow> cam_wdata j 0 (replicate 6 0) (replicate 16 0) = 0"
  by (drule less_8_cases) (auto simp: cam_wdata_def)

definition mirrored :: "cam_mem \<Rightarrow> sec_cam_ent list \<Rightarrow> bool" where
  "mirrored mem cache \<longleftrightarrow>
     (\<forall>i < 32. ent_words mem i (sc_ctrl (cache ! i)) (sc_mac (cache ! i)) (sc_key (cache ! i)))"

lemma mirrored_write:
  assumes "mirrored mem cache" "i < 32" "length cache = 32"
  shows "mirrored (rtw_sec_write_cam_ent mem (of_nat i) ctrl mac key)
    (cache[i := \<lparr>sc_ctrl = ctrl, sc_mac = mac, sc_key = key\<rparr>])"
  using assms by (auto simp: mirrored_def ent_words_write nth_list_update)

lemma mirrored_null: "mirrored (\<lambda>_. 0) (replicate 32 null_ent)"
  by (simp add: mirrored_def ent_words_def cam_word_def null_ent_def null_mac_def null_words)

section \<open>The invariant\<close>

definition distinct_keys :: "nat \<Rightarrow> sec_cam_ent list \<Rightarrow> bool" where
  "distinct_keys n cache \<longleftrightarrow> (\<forall>i < n. \<forall>j < n. sc_mac (cache ! i) = sc_mac (cache ! j) \<and>
     ent_kid (cache ! i) = ent_kid (cache ! j) \<and> sc_mac (cache ! i) \<noteq> null_mac \<longrightarrow> i = j)"

definition cam_inv :: "cam \<Rightarrow> bool" where
  "cam_inv s \<longleftrightarrow> 4 \<le> cam_num s \<and> cam_num s \<le> 32 \<and> length (cam_cache s) = 32 \<and>
     (\<forall>c \<in> set (cam_cache s). ent_ok c) \<and> mirrored (cam_hw s) (cam_cache s) \<and>
     (\<forall>i. bit (cam_used s) i \<longrightarrow> i < cam_num s) \<and> distinct_keys (cam_num s) (cam_cache s) \<and>
     cam_sec_cap s AND SEC_CAP_CHK_BMC = 0"

definition cam_tight :: "cam \<Rightarrow> bool" where
  "cam_tight s \<longleftrightarrow> (\<forall>i < cam_num s. \<not> bit (cam_used s) i \<longrightarrow> cam_cache s ! i = null_ent)"

lemma cam_inv_facts:
  assumes "cam_inv s"
  shows "4 \<le> cam_num s" "cam_num s \<le> 32" "length (cam_cache s) = 32" "mirrored (cam_hw s) (cam_cache s)"
    "distinct_keys (cam_num s) (cam_cache s)" "bit (cam_used s) i \<Longrightarrow> i < cam_num s"
    "\<not> rtw_camctl_chk_cap s SEC_CAP_CHK_BMC" "i < 32 \<Longrightarrow> ent_ok (cam_cache s ! i)"
  using assms by (auto simp: cam_inv_def rtw_camctl_chk_cap_def)

lemma cam_inv_other [simp]:
  "cam_inv (set_hwreg v s) = cam_inv s" "cam_inv (s\<lparr>cam_enc_algo := a\<rparr>) = cam_inv s"
  "cam_inv (s\<lparr>cam_key_index := k\<rparr>) = cam_inv s" "cam_inv (s\<lparr>cam_flags := f\<rparr>) = cam_inv s"
  "cam_inv (stop_group_search s) = cam_inv s"
  by (simp_all add: cam_inv_def set_hwreg_def stop_group_search_def rtw_camctl_set_flags_def)

lemma cam_tight_other [simp]:
  "cam_tight (set_hwreg v s) = cam_tight s" "cam_tight (s\<lparr>cam_enc_algo := a\<rparr>) = cam_tight s"
  "cam_tight (s\<lparr>cam_key_index := k\<rparr>) = cam_tight s" "cam_tight (s\<lparr>cam_flags := f\<rparr>) = cam_tight s"
  "cam_tight (stop_group_search s) = cam_tight s"
  by (simp_all add: cam_tight_def set_hwreg_def stop_group_search_def rtw_camctl_set_flags_def)

lemma invalidate_inv:
  assumes "4 \<le> cam_num s" "cam_num s \<le> 32" "cam_sec_cap s AND SEC_CAP_CHK_BMC = 0"
  shows "cam_inv (invalidate_cam_all s)" "cam_tight (invalidate_cam_all s)"
  using assms mirrored_null
  by (auto simp: cam_inv_def cam_tight_def invalidate_cam_all_def set_hwreg_def SEC_CAM_ENT_NUM_SW_LIMIT_def
      distinct_keys_def)

lemma set_used_inv: "cam_inv s \<Longrightarrow> i < cam_num s \<Longrightarrow> cam_inv (s\<lparr>cam_used := rtw_sec_cam_map_set (cam_used s) i\<rparr>)"
  by (auto simp: cam_inv_def)

lemma set_used_tight: "cam_tight s \<Longrightarrow> cam_tight (s\<lparr>cam_used := rtw_sec_cam_map_set (cam_used s) i\<rparr>)"
  by (auto simp: cam_tight_def)

text \<open>Writing an entry under an address and key id that no other entry has.\<close>

definition fresh_at :: "cam \<Rightarrow> nat \<Rightarrow> u16 \<Rightarrow> bytes \<Rightarrow> bool" where
  "fresh_at s i ctrl mac \<longleftrightarrow> mac = null_mac \<or> (\<forall>j < cam_num s. j \<noteq> i \<longrightarrow>
     \<not> (sc_mac (cam_cache s ! j) = mac \<and> ent_kid (cam_cache s ! j) = unat (ctrl AND 3)))"

lemma write_cam_inv:
  assumes inv: "cam_inv s" and i: "i < cam_num s" and l: "length mac = 6" "length key = 16"
    and fresh: "fresh_at s i ctrl mac"
  shows "cam_inv (write_cam s i ctrl mac key)"
proof -
  let ?c = "\<lparr>sc_ctrl = ctrl, sc_mac = mac, sc_key = key\<rparr>"
  have "distinct_keys (cam_num s) ((cam_cache s)[i := ?c])"
    using cam_inv_facts [OF inv] fresh i
    by (auto simp: distinct_keys_def fresh_at_def nth_list_update ent_kid_def)
  moreover have "\<forall>c \<in> set ((cam_cache s)[i := ?c]). ent_ok c"
    using inv l set_update_subset_insert [of "cam_cache s" i ?c] by (auto simp: cam_inv_def ent_ok_def)
  ultimately show ?thesis
    using inv i l by (auto simp: cam_inv_def write_cam_def write_cam_cache_def mirrored_write)
qed

lemma write_cam_tight:
  "cam_tight s \<Longrightarrow> bit (cam_used s) i \<Longrightarrow> cam_tight (write_cam s i ctrl mac key)"
  unfolding cam_tight_def write_cam_def write_cam_cache_def by (simp; metis nth_list_update_neq)

section \<open>Clearing\<close>

text \<open>\<open>s'\<close> is \<open>s\<close> with the entries of \<open>M\<close> emptied and released.\<close>

definition cleared :: "nat set \<Rightarrow> cam \<Rightarrow> cam \<Rightarrow> bool" where
  "cleared M s s' \<longleftrightarrow>
     s' = s\<lparr>cam_cache := cam_cache s', cam_used := cam_used s', cam_hw := cam_hw s'\<rparr> \<and>
     length (cam_cache s') = length (cam_cache s) \<and>
     (\<forall>i < length (cam_cache s). cam_cache s' ! i = (if i \<in> M then null_ent else cam_cache s ! i)) \<and>
     (\<forall>i. bit (cam_used s') i \<longleftrightarrow> bit (cam_used s) i \<and> i \<notin> M) \<and>
     (\<forall>i < 32. \<forall>j < 8. cam_word (cam_hw s') i j = (if i \<in> M then 0 else cam_word (cam_hw s) i j))"

lemma cleared_refl: "cleared {} s s"
  by (simp add: cleared_def)

lemma cleared_trans: "cleared M s s1 \<Longrightarrow> cleared N s1 s2 \<Longrightarrow> cleared (M \<union> N) s s2"
  by (cases s; cases s1; cases s2) (auto simp: cleared_def)

lemma cleared_fields:
  assumes "cleared M s s'"
  shows "cam_num s' = cam_num s" "cam_sec_cap s' = cam_sec_cap s" "cam_flags s' = cam_flags s"
    "cam_enc_algo s' = cam_enc_algo s"
    "length (cam_cache s') = length (cam_cache s)" "bit (cam_used s') i \<longleftrightarrow> bit (cam_used s) i \<and> i \<notin> M"
    "i < length (cam_cache s) \<Longrightarrow> cam_cache s' ! i = (if i \<in> M then null_ent else cam_cache s ! i)"
  using assms by (cases s; cases s'; auto simp: cleared_def)+

lemma clear_free_cleared:
  assumes "i < cam_num s" "cam_num s \<le> 32"
  shows "cleared {i} s (rtw_camid_free (clear_cam_entry s i) i)"
  using assms
  by (auto simp: cleared_def rtw_camid_free_def clear_cam_entry_def clear_cam_cache_def clear_cam_hw_def
      nth_list_update cam_word_write_ent null_words)

lemma free_clear_cleared:
  assumes "i < cam_num s" "cam_num s \<le> 32"
  shows "cleared {i} s (clear_cam_entry (rtw_camid_free s i) i)"
  using assms
  by (auto simp: cleared_def rtw_camid_free_def clear_cam_entry_def clear_cam_cache_def clear_cam_hw_def
      nth_list_update cam_word_write_ent null_words)

lemma cleared_inv:
  assumes c: "cleared M s s'" and inv: "cam_inv s"
  shows "cam_inv s'"
proof -
  note f = cam_inv_facts [OF inv] cleared_fields [OF c]
  have n: "cam_cache s' ! i = (if i \<in> M then null_ent else cam_cache s ! i)" if "i < 32" for i
    using f that by simp
  have "mirrored (cam_hw s') (cam_cache s')"
    using f(4) c
    by (auto simp: mirrored_def ent_words_def n cleared_def null_ent_def null_mac_def null_words)
  moreover have "\<forall>x \<in> set (cam_cache s'). ent_ok x"
    using f n by (auto simp: all_set_conv_all_nth)
  moreover have "distinct_keys (cam_num s) (cam_cache s')"
    using f(2,5) by (auto simp: distinct_keys_def n)
  ultimately show ?thesis using f inv by (simp add: cam_inv_def)
qed

lemma cleared_tight:
  assumes "cleared M s s'" "cam_tight s" "cam_num s \<le> length (cam_cache s)"
  shows "cam_tight s'"
  using assms(2,3) by (auto simp: cam_tight_def cleared_fields [OF assms(1)])

section \<open>The search and the clearing loop\<close>

definition hits :: "cam \<Rightarrow> bytes option \<Rightarrow> int \<Rightarrow> int \<Rightarrow> nat set" where
  "hits s addr kid gk = {i. i < cam_num s \<and> cam_cache_chk s i addr kid gk}"

lemma search_None: "rtw_camid_search s addr kid gk = None \<longleftrightarrow> hits s addr kid gk = {}"
  by (auto simp: rtw_camid_search_def find_None_iff hits_def)

lemma search_Some: "rtw_camid_search s addr kid gk = Some i \<Longrightarrow> i \<in> hits s addr kid gk"
  by (auto simp: rtw_camid_search_def find_Some_iff hits_def)

lemma hits_cong:
  assumes "cam_num s' = cam_num s" "cam_cache s' = cam_cache s" "cam_used s' = cam_used s"
  shows "hits s' addr kid gk = hits s addr kid gk"
  using assms by (simp add: hits_def cam_cache_chk_def camid_is_gk_iff camid_is_used_bit)

lemma hits_other [simp]:
  "hits (set_hwreg v s) = hits s" "hits (s\<lparr>cam_enc_algo := a\<rparr>) = hits s" "hits (stop_group_search s) = hits s"
  by (intro ext hits_cong; simp add: set_hwreg_def stop_group_search_def rtw_camctl_set_flags_def)+

lemma finite_hits [simp]: "finite (hits s addr kid gk)"
  by (simp add: hits_def)

text \<open>
  An entry that was cleared and released is not found again: it is no group key, and it has the null
  address. Searching any kind of key for the null address finds it again.
\<close>

definition clearable :: "bytes option \<Rightarrow> int \<Rightarrow> bool" where
  "clearable addr gk \<longleftrightarrow> gk = 1 \<or> (\<exists>a. addr = Some a \<and> take 6 a \<noteq> null_mac)"

lemma hits_cleared:
  assumes c: "cleared M s s'" and a: "clearable addr gk" and n: "cam_num s \<le> length (cam_cache s)"
  shows "hits s' addr kid gk = hits s addr kid gk - M"
proof -
  have "cam_cache_chk s' i addr kid gk \<longleftrightarrow> i \<notin> M \<and> cam_cache_chk s i addr kid gk" if "i < cam_num s" for i
    using a that n
    by (auto simp: cam_cache_chk_def camid_is_gk_iff camid_is_used_bit cleared_fields [OF c] clearable_def)
  then show ?thesis by (auto simp: hits_def cleared_fields [OF c])
qed

lemma clear_loop_ends:
  assumes "clearable addr gk" "cam_num s \<le> 32" "length (cam_cache s) = 32"
  shows "\<exists>s'. clear_loop addr kid gk s = Some s' \<and> cleared (hits s addr kid gk) s s'"
  using assms(2,3)
proof (induction "card (hits s addr kid gk)" arbitrary: s rule: less_induct)
  case less
  show ?case
  proof (cases "rtw_camid_search s addr kid gk")
    case None
    then have "hits s addr kid gk = {}" by (simp only: search_None)
    with None show ?thesis using cleared_refl by (subst clear_loop.simps) simp
  next
    case (Some i)
    define t where "t = rtw_camid_free (clear_cam_entry s i) i"
    from search_Some [OF Some] have i: "i \<in> hits s addr kid gk" .
    then have c: "cleared {i} s t" unfolding t_def
      using less.prems by (intro clear_free_cleared) (auto simp: hits_def)
    have h: "hits t addr kid gk = hits s addr kid gk - {i}"
      using less.prems by (intro hits_cleared [OF c assms(1)]) simp
    have "card (hits t addr kid gk) < card (hits s addr kid gk)"
      unfolding h by (rule card_Diff1_less [OF finite_hits i])
    from less.hyps [OF this] less.prems obtain u
      where u: "clear_loop addr kid gk t = Some u" "cleared (hits t addr kid gk) t u"
      by (auto simp: cleared_fields [OF c])
    from cleared_trans [OF c u(2)] have "cleared (hits s addr kid gk) s u"
      using i by (simp add: h insert_absorb)
    with u(1) Some show ?thesis by (subst clear_loop.simps) (simp add: t_def)
  qed
qed

text \<open>With the null address and any kind of key the loop never ends.\<close>

definition null_stuck :: "cam \<Rightarrow> bool" where
  "null_stuck s \<longleftrightarrow> cam_num s \<le> 32 \<and> length (cam_cache s) = 32 \<and> hits s (Some null_mac) (-1) (-1) \<noteq> {}"

lemma null_stuck_step:
  assumes s: "null_stuck s" and i: "rtw_camid_search s (Some null_mac) (-1) (-1) = Some i"
  shows "null_stuck (rtw_camid_free (clear_cam_entry s i) i)" (is "null_stuck ?t")
proof -
  have "i < cam_num s" using search_Some [OF i] by (simp add: hits_def)
  moreover from this have c: "cleared {i} s ?t" using s by (intro clear_free_cleared) (auto simp: null_stuck_def)
  ultimately have "i \<in> hits ?t (Some null_mac) (-1) (-1)"
    using s by (simp add: hits_def cam_cache_chk_def cleared_fields [OF c] null_stuck_def)
  with s show ?thesis by (auto simp: null_stuck_def cleared_fields [OF c])
qed

lemma clear_null_diverges:
  assumes "null_stuck s"
  shows "clear_loop (Some null_mac) (-1) (-1) s = None"
proof -
  have "\<not> (a = Some null_mac \<and> k = -1 \<and> g = -1 \<and> null_stuck t)" if "clear_loop a k g t = Some r" for a k g t r
  proof (rule clear_loop.raw_induct [OF _ that])
    fix loop a k g t r
    assume IH: "\<And>a k g t r. loop a k g t = Some r \<Longrightarrow> \<not> (a = Some null_mac \<and> k = -1 \<and> g = -1 \<and> null_stuck t)"
      and step: "(case rtw_camid_search t a k g of None \<Rightarrow> Some t
        | Some i \<Rightarrow> loop a k g (rtw_camid_free (clear_cam_entry t i) i)) = Some r"
    show "\<not> (a = Some null_mac \<and> k = -1 \<and> g = -1 \<and> null_stuck t)"
    proof
      assume e: "a = Some null_mac \<and> k = -1 \<and> g = -1 \<and> null_stuck t"
      then obtain i where i: "rtw_camid_search t (Some null_mac) (-1) (-1) = Some i"
        by (cases "rtw_camid_search t (Some null_mac) (-1) (-1)") (auto simp: null_stuck_def search_None)
      with step e have "loop (Some null_mac) (-1) (-1) (rtw_camid_free (clear_cam_entry t i) i) = Some r" by simp
      from IH [OF this] null_stuck_step [OF _ i] e show False by blast
    qed
  qed
  then show ?thesis using assms by (cases "clear_loop (Some null_mac) (-1) (-1) s") auto
qed

end
