(* ===== verification/CamReach.thy ===== *)
theory CamReach
  imports CamKeys
begin

text \<open>
  The handlers of the key store: what \<open>set_stakey_hdl\<close> and \<open>setkey_hdl\<close> do on each branch, the states
  any sequence of them reaches, and the store of keys, a map from addresses and key ids, that they
  implement.
\<close>

section \<open>Allocation\<close>

lemma hits_any:
  assumes "cam_inv s" "length a = 6" "kid < 4"
  shows "i \<in> hits s (Some a) (uint (kid :: u8)) (-1) \<longleftrightarrow>
    i < cam_num s \<and> sc_mac (cam_cache s ! i) = a \<and> ent_kid (cam_cache s ! i) = unat kid"
  using cam_inv_facts [OF assms(1)] assms(2)
  by (auto simp: hits_def cam_cache_chk_def ent_kid_def ent_ok_def uint_nat simp del: of_nat_unat)

lemma get_camid_eq:
  assumes "cam_inv s"
  shows "rtw_get_camid s (Some a) kid gk =
    (case rtw_camid_search s (Some a) kid (-1) of Some i \<Rightarrow> Some i
     | None \<Rightarrow> find (\<lambda>i. 4 \<le> i \<and> \<not> bit (cam_used s) i) [0..<cam_num s])"
proof -
  have "find (\<lambda>i. \<not> i mod cam_num s < 4 \<and> \<not> rtw_sec_camid_is_used s (i mod cam_num s)) [0..<cam_num s]
      = find (\<lambda>i. 4 \<le> i \<and> \<not> bit (cam_used s) i) [0..<cam_num s]"
    by (rule find_cong) (auto simp: camid_is_used_bit)
  moreover have "i mod cam_num s = i" if "find (\<lambda>i. 4 \<le> i \<and> \<not> bit (cam_used s) i) [0..<cam_num s] = Some i" for i
    using that by (auto simp: find_Some_iff)
  ultimately show ?thesis
    by (simp add: rtw_get_camid_def cam_inv_facts [OF assms] split: option.split)
qed

lemma get_camid_Some:
  assumes "cam_inv s" "rtw_get_camid s (Some a) kid gk = Some i"
  shows "i < cam_num s"
    "i \<in> hits s (Some a) kid (-1) \<or> hits s (Some a) kid (-1) = {} \<and> 4 \<le> i \<and> \<not> bit (cam_used s) i"
  using assms(2) search_Some [of s "Some a" kid "-1" i]
  by (auto simp: get_camid_eq [OF assms(1)] find_Some_iff search_None hits_def split: option.splits)

lemma get_camid_None:
  assumes "cam_inv s"
  shows "rtw_get_camid s (Some a) kid gk = None \<longleftrightarrow>
    hits s (Some a) kid (-1) = {} \<and> (\<forall>i. 4 \<le> i \<and> i < cam_num s \<longrightarrow> bit (cam_used s) i)"
  by (auto simp: get_camid_eq [OF assms] find_None_iff search_None [symmetric] split: option.splits)

lemma slot_fresh:
  assumes inv: "cam_inv s" and a: "length a = 6" and kid: "kid < 4" and c: "unat (ctrl AND 3) = unat kid"
    and g: "rtw_get_camid s (Some a) (uint (kid :: u8)) gk = Some i"
  shows "fresh_at s i ctrl a"
proof -
  have "i \<in> hits s (Some a) (uint kid) (-1) \<or> hits s (Some a) (uint kid) (-1) = {}"
    using get_camid_Some [OF inv g] by blast
  then show ?thesis
    using cam_inv_facts(5) [OF inv] c
    by (auto simp: fresh_at_def distinct_keys_def set_eq_iff hits_any [OF inv a kid])
qed

lemma ctrl_kid:
  assumes "kid < (4 :: u8)"
  shows "unat ((0x8000 OR push_bit 2 (a :: u16) OR ucast kid) AND 3) = unat kid"
    "unat (((0x8000 OR push_bit 2 a OR ucast kid) OR 0x40) AND 3) = unat kid"
    "unat ((0x8000 OR 0x40 OR push_bit 2 a OR ucast kid) AND 3) = unat kid"
proof -
  have "unat kid < 4" using assms by (simp add: word_less_nat_alt)
  then have "unat (take_bit 2 (ucast kid :: u16)) = unat (ucast kid :: u16)"
    by (simp add: unsigned_take_bit_eq take_bit_nat_eq_self)
  then have "take_bit 2 (ucast kid :: u16) = ucast kid" by (simp only: word_unat_eq_iff)
  moreover have "take_bit 2 (0x8000 :: u16) = 0" "take_bit 2 (0x40 :: u16) = 0" "take_bit 2 (push_bit 2 a) = 0"
    by (simp_all add: take_bit_push_bit)
  moreover have "x AND 3 = take_bit 2 x" for x :: u16 by (simp add: take_bit_eq_mask mask_eq_exp_minus_1)
  ultimately have "(0x8000 OR push_bit 2 a OR ucast kid) AND 3 = ucast kid"
    "((0x8000 OR push_bit 2 a OR ucast kid) OR 0x40) AND 3 = ucast kid"
    "(0x8000 OR 0x40 OR push_bit 2 a OR ucast kid) AND 3 = ucast kid"
    by (simp_all add: take_bit_or)
  then show "unat ((0x8000 OR push_bit 2 a OR ucast kid) AND 3) = unat kid"
    "unat (((0x8000 OR push_bit 2 a OR ucast kid) OR 0x40) AND 3) = unat kid"
    "unat ((0x8000 OR 0x40 OR push_bit 2 a OR ucast kid) AND 3) = unat kid"
    by simp_all
qed

section \<open>The handler of a station's key, branch by branch\<close>

definition env_ok :: "cam_env \<Rightarrow> bool" where
  "env_ok env \<longleftrightarrow> sta_hash_ok (ce_sta_hash env) \<and> length (ce_bssid env) = 6 \<and> length (ce_mac_addr env) = 6"

definition stakey_ok :: "set_stakey_parm \<Rightarrow> bool" where
  "stakey_ok p \<longleftrightarrow> length (st_addr p) = 6 \<and> st_addr p \<noteq> null_mac \<and> \<not> IS_MCAST (st_addr p) \<and>
     st_keyid p < 4 \<and> length (st_key p) = 16"

definition registered :: "cam_env \<Rightarrow> bytes \<Rightarrow> bool" where
  "registered env a \<longleftrightarrow> rtw_get_stainfo (ce_sta_hash env) a \<noteq> None"

text \<open>The entry chosen for a key, and the store with it allocated.\<close>

definition stakey_slot :: "set_stakey_parm \<Rightarrow> cam \<Rightarrow> nat option" where
  "stakey_slot p s = rtw_get_camid s (Some (st_addr p)) (uint (st_keyid p)) (uint (st_gk p))"

definition taken :: "set_stakey_parm \<Rightarrow> nat \<Rightarrow> cam \<Rightarrow> cam" where
  "taken p i s = s\<lparr>cam_enc_algo := st_algorithm p, cam_used := rtw_sec_cam_map_set (cam_used s) i\<rparr>"

text \<open>A pairwise key whose entry holds a group key.\<close>

definition conflict :: "set_stakey_parm \<Rightarrow> cam \<Rightarrow> nat \<Rightarrow> bool" where
  "conflict p s i \<longleftrightarrow> stakey_slot p s = Some i \<and> st_gk p = 0 \<and> rtw_camid_is_gk s i"

definition stakey_write :: "set_stakey_parm \<Rightarrow> nat \<Rightarrow> cam \<Rightarrow> cam" where
  "stakey_write p i s = write_cam s i (stakey_ctrl p) (st_addr p) (st_key p)"

lemma stakey_ctrl_kid: "stakey_ok p \<Longrightarrow> unat (stakey_ctrl p AND 3) = unat (st_keyid p)"
  by (simp add: stakey_ctrl_def Let_def stakey_ok_def ctrl_kid)

lemma search_enc: "rtw_camid_search (s\<lparr>cam_enc_algo := a\<rparr>) = rtw_camid_search s"
  by (intro ext) (simp add: rtw_camid_search_def cam_cache_chk_def camid_is_gk_iff camid_is_used_bit)

lemma get_camid_enc: "rtw_get_camid (s\<lparr>cam_enc_algo := a\<rparr>) = rtw_get_camid s"
  by (intro ext)
    (simp add: rtw_get_camid_def search_enc camid_is_used_bit rtw_camctl_chk_cap_def cong: option.case_cong)

lemma stakey_choice:
  assumes "env_ok env" "stakey_ok p" "rtw_get_stainfo (ce_sta_hash env) (st_addr p) = Some psta"
  shows "camid_choice env (Some psta) (st_keyid p) (uint (st_gk p)) (s\<lparr>cam_enc_algo := a\<rparr>) = stakey_slot p s"
proof -
  have "si_mac_addr psta = st_addr p"
    using sta_hash.get_Some [OF _ _ assms(3)] assms(1,2) by (simp add: env_ok_def stakey_ok_def sta_key_addr_def)
  then show ?thesis by (simp add: camid_choice_def stakey_slot_def get_camid_enc)
qed

lemma taken_gk:
  assumes "i < cam_num s" "cam_num s \<le> 32"
  shows "rtw_sec_camid_is_used (s\<lparr>cam_enc_algo := a\<rparr>) i \<and> rtw_camid_is_gk (taken p i s) i \<longleftrightarrow> rtw_camid_is_gk s i"
  using assms by (auto simp: taken_def camid_is_gk_iff camid_is_used_bit)

lemma set_stakey_clear:
  assumes "cam_inv s" "stakey_ok p" "st_algorithm p = NO_PRIVACY"
  shows "\<exists>s'. set_stakey_hdl env p s = Some (H2C_SUCCESS_RSP, s') \<and>
    cleared (hits s (Some (st_addr p)) (-1) (-1)) s s'"
proof -
  have "clearable (Some (st_addr p)) (-1)" using assms(2) by (simp add: clearable_def stakey_ok_def)
  from clear_loop_ends [OF this] cam_inv_facts [OF assms(1)] show ?thesis
    using assms(3) by (fastforce simp: set_stakey_hdl_def)
qed

lemma set_stakey_unknown:
  "st_algorithm p \<noteq> NO_PRIVACY \<Longrightarrow> \<not> registered env (st_addr p) \<Longrightarrow>
   set_stakey_hdl env p s = Some (H2C_REJECTED, s)"
  by (simp add: set_stakey_hdl_def registered_def)

lemma set_stakey_full:
  assumes "env_ok env" "stakey_ok p" "st_algorithm p \<noteq> NO_PRIVACY" "registered env (st_addr p)"
    "stakey_slot p s = None"
  shows "set_stakey_hdl env p s = Some (H2C_SUCCESS, s\<lparr>cam_enc_algo := st_algorithm p\<rparr>)"
  using assms stakey_choice [OF assms(1,2)]
  by (auto simp: set_stakey_hdl_def registered_def rtw_camid_alloc_def)

lemma set_stakey_body:
  assumes "cam_inv s" "env_ok env" "stakey_ok p" "st_algorithm p \<noteq> NO_PRIVACY" "registered env (st_addr p)"
    "stakey_slot p s = Some i"
  shows "set_stakey_hdl env p s =
    do { u \<leftarrow> (if conflict p s i then clear_loop (Some (st_addr p)) (-1) 1 (stop_group_search (taken p i s))
             else Some (taken p i s));
         Some (H2C_SUCCESS_RSP, stakey_write p i u) }"
proof -
  obtain psta where psta: "rtw_get_stainfo (ce_sta_hash env) (st_addr p) = Some psta"
    using assms(5) by (auto simp: registered_def)
  have "i < cam_num s" using get_camid_Some(1) [OF assms(1)] assms(6) by (simp add: stakey_slot_def)
  with taken_gk [of i s "st_algorithm p" p] cam_inv_facts(2) [OF assms(1)]
  have g: "conflict p s i \<longleftrightarrow> st_gk p = 0 \<and> rtw_sec_camid_is_used (s\<lparr>cam_enc_algo := st_algorithm p\<rparr>) i \<and>
      rtw_camid_is_gk (taken p i s) i"
    using assms(6) by (auto simp: conflict_def)
  show ?thesis
    using assms(4,6) psta
    by (simp add: set_stakey_hdl_def rtw_camid_alloc_def stakey_choice [OF assms(2,3) psta] g taken_def [symmetric]
        stakey_write_def)
qed

lemma set_stakey_plain:
  assumes "cam_inv s" "env_ok env" "stakey_ok p" "st_algorithm p \<noteq> NO_PRIVACY" "registered env (st_addr p)"
    "stakey_slot p s = Some i" "\<not> conflict p s i"
  shows "set_stakey_hdl env p s = Some (H2C_SUCCESS_RSP, stakey_write p i (taken p i s))"
  using set_stakey_body [OF assms(1-6)] assms(7) by simp

lemma taken_inv: "cam_inv s \<Longrightarrow> i < cam_num s \<Longrightarrow> cam_inv (taken p i s)"
  using set_used_inv [of "s\<lparr>cam_enc_algo := st_algorithm p\<rparr>" i] by (simp add: taken_def)

lemma set_stakey_conflict:
  assumes "cam_inv s" "env_ok env" "stakey_ok p" "st_algorithm p \<noteq> NO_PRIVACY" "registered env (st_addr p)"
    "conflict p s i"
  obtains u where "set_stakey_hdl env p s = Some (H2C_SUCCESS_RSP, stakey_write p i u)"
    "cleared (hits (taken p i s) (Some (st_addr p)) (-1) 1) (stop_group_search (taken p i s)) u"
proof -
  let ?t = "stop_group_search (taken p i s)"
  have slot: "stakey_slot p s = Some i" using assms(6) by (simp add: conflict_def)
  then have "i < cam_num s" using get_camid_Some(1) [OF assms(1)] by (simp add: stakey_slot_def)
  then have inv: "cam_inv ?t" using taken_inv [OF assms(1)] by simp
  have "clearable (Some (st_addr p)) 1" by (simp add: clearable_def)
  from clear_loop_ends [OF this cam_inv_facts(2,3) [OF inv], of "-1"] set_stakey_body [OF assms(1-5) slot] assms(6) that
  show ?thesis by auto
qed

section \<open>Every handler keeps the invariant\<close>

lemma hits_bound: "i \<in> hits s addr kid gk \<Longrightarrow> i < cam_num s"
  by (simp add: hits_def)

lemma fresh_other [simp]:
  "fresh_at (set_hwreg v s) = fresh_at s" "fresh_at (stop_group_search s) = fresh_at s"
  "fresh_at (taken p i s) = fresh_at s" "fresh_at (s\<lparr>cam_key_index := k\<rparr>) = fresh_at s"
  "fresh_at (s\<lparr>cam_used := m\<rparr>) = fresh_at s"
  by (intro ext; simp add: fresh_at_def set_hwreg_def stop_group_search_def rtw_camctl_set_flags_def taken_def)+

lemma fresh_cleared:
  assumes "cleared M s u" "fresh_at s i ctrl mac" "cam_num s \<le> length (cam_cache s)"
  shows "fresh_at u i ctrl mac"
  using assms(2,3) by (auto simp: fresh_at_def cleared_fields [OF assms(1)])

lemma taken_fields [simp]:
  "cam_num (taken p i s) = cam_num s" "cam_cache (taken p i s) = cam_cache s"
  "cam_num (stop_group_search s) = cam_num s" "cam_cache (stop_group_search s) = cam_cache s"
  "cam_used (stop_group_search s) = cam_used s"
  "bit (cam_used (taken p i s)) j \<longleftrightarrow> bit (cam_used s) j \<or> j = i \<and> i < 32"
  by (simp_all add: taken_def stop_group_search_def set_hwreg_def rtw_camctl_set_flags_def)

lemma taken_tight: "cam_tight s \<Longrightarrow> cam_tight (taken p i s)"
  by (auto simp: cam_tight_def taken_def)

lemma stakey_slot_fresh:
  assumes "cam_inv s" "stakey_ok p" "stakey_slot p s = Some i"
  shows "i < cam_num s" "fresh_at s i (stakey_ctrl p) (st_addr p)"
  using get_camid_Some(1) [OF assms(1)] slot_fresh [OF assms(1) _ _ stakey_ctrl_kid [OF assms(2)]] assms(2,3)
  by (auto simp: stakey_slot_def stakey_ok_def)

lemma stakey_write_inv:
  assumes "cam_inv u" "stakey_ok p" "i < cam_num u" "fresh_at u i (stakey_ctrl p) (st_addr p)"
  shows "cam_inv (stakey_write p i u)"
  using write_cam_inv assms by (simp add: stakey_write_def stakey_ok_def)

lemma set_stakey_inv:
  assumes inv: "cam_inv s" and env: "env_ok env" and p: "stakey_ok p"
  obtains r s' where "set_stakey_hdl env p s = Some (r, s')" "cam_inv s'"
    "cam_tight s \<Longrightarrow> (\<And>i. st_algorithm p \<noteq> NO_PRIVACY \<Longrightarrow> registered env (st_addr p) \<Longrightarrow> \<not> conflict p s i)
       \<Longrightarrow> cam_tight s'"
proof -
  note f = cam_inv_facts [OF inv]
  consider (clear) "st_algorithm p = NO_PRIVACY"
    | (unknown) "st_algorithm p \<noteq> NO_PRIVACY" "\<not> registered env (st_addr p)"
    | (full) "st_algorithm p \<noteq> NO_PRIVACY" "registered env (st_addr p)" "stakey_slot p s = None"
    | (plain) i where "st_algorithm p \<noteq> NO_PRIVACY" "registered env (st_addr p)" "stakey_slot p s = Some i" "\<not> conflict p s i"
    | (conflict) i where "st_algorithm p \<noteq> NO_PRIVACY" "registered env (st_addr p)" "stakey_slot p s = Some i" "conflict p s i"
    by (cases "stakey_slot p s") blast+
  then show thesis
  proof cases
    case clear
    with set_stakey_clear [OF inv p clear] cleared_inv [OF _ inv] cleared_tight f show ?thesis
      by (metis that)
  next
    case unknown
    show ?thesis by (rule that [OF set_stakey_unknown [OF unknown] inv])
  next
    case full
    show ?thesis by (rule that [OF set_stakey_full [OF env p full]]) (simp_all add: inv)
  next
    case (plain i)
    note sl = stakey_slot_fresh [OF inv p plain(3)]
    have "cam_inv (stakey_write p i (taken p i s))"
      using sl by (intro stakey_write_inv p taken_inv inv) simp_all
    moreover have "cam_tight (stakey_write p i (taken p i s))" if "cam_tight s"
      unfolding stakey_write_def using sl(1) f(2) by (intro write_cam_tight taken_tight that) simp
    ultimately show ?thesis by (rule that [OF set_stakey_plain [OF inv env p plain]])
  next
    case (conflict i)
    note sl = stakey_slot_fresh [OF inv p conflict(3)]
    obtain u where u: "set_stakey_hdl env p s = Some (H2C_SUCCESS_RSP, stakey_write p i u)"
      and c: "cleared (hits (taken p i s) (Some (st_addr p)) (-1) 1) (stop_group_search (taken p i s)) u"
      by (rule set_stakey_conflict [OF inv env p conflict(1,2,4)])
    have "cam_inv (stop_group_search (taken p i s))" using taken_inv [OF inv sl(1)] by simp
    from cleared_inv [OF c this] have "cam_inv (stakey_write p i u)"
      using sl f by (intro stakey_write_inv p fresh_cleared [OF c]) (simp_all add: cleared_fields [OF c])
    then show ?thesis using conflict by (intro that [OF u]) blast+
  qed
qed

definition setkey_ok :: "setkey_parm \<Rightarrow> bool" where
  "setkey_ok p \<longleftrightarrow> sk_keyid p < 4 \<and> length (sk_key p) = 16"

lemma setkey_ctrl_kid: "setkey_ok p \<Longrightarrow> unat (setkey_ctrl p AND 3) = unat (sk_keyid p)"
  by (simp add: setkey_ctrl_def setkey_ok_def ctrl_kid)

definition setkey_slot :: "cam_env \<Rightarrow> setkey_parm \<Rightarrow> cam \<Rightarrow> nat option" where
  "setkey_slot env p s = camid_choice env None (sk_keyid p) 1 s"

lemma setkey_slot_bound:
  assumes "cam_inv s" "setkey_ok p" "setkey_slot env p s = Some i"
  shows "i < cam_num s"
proof -
  have "unat (sk_keyid p) < 4" using assms(2) by (simp add: setkey_ok_def word_less_nat_alt)
  with assms cam_inv_facts(1) [OF assms(1)] get_camid_Some(1) [OF assms(1)] show ?thesis
    by (auto simp: setkey_slot_def camid_choice_def split: if_splits)
qed

lemma setkey_slot_fresh:
  assumes inv: "cam_inv s" and env: "env_ok env" and p: "setkey_ok p" and sl: "setkey_slot env p s = Some i"
  shows "fresh_at s i (setkey_ctrl p) (setkey_addr env i)"
proof (cases "i \<le> 3")
  case True
  then show ?thesis by (simp add: setkey_addr_def fresh_at_def)
next
  case False
  have "unat (sk_keyid p) < 4" using p by (simp add: setkey_ok_def word_less_nat_alt)
  with False sl have s: "\<not> serves_group env" and
    "rtw_get_camid s (Some (ce_bssid env)) (uint (sk_keyid p)) 1 = Some i"
    by (auto simp: setkey_slot_def camid_choice_def split: if_splits)
  with slot_fresh [OF inv _ _ setkey_ctrl_kid [OF p]] p env have "fresh_at s i (setkey_ctrl p) (ce_bssid env)"
    by (simp add: env_ok_def setkey_ok_def)
  with False s show ?thesis by (simp add: setkey_addr_def)
qed

lemma setkey_addr_length: "env_ok env \<Longrightarrow> length (setkey_addr env i) = 6"
  by (simp add: setkey_addr_def env_ok_def)

text \<open>The store after the transmit key index is noted, and with the entry allocated.\<close>

definition setkey_tx :: "setkey_parm \<Rightarrow> cam \<Rightarrow> cam" where
  "setkey_tx p s = (if sk_set_tx p \<noteq> 0 then s\<lparr>cam_key_index := sk_keyid p\<rparr> else s)"

definition setkey_taken :: "setkey_parm \<Rightarrow> nat \<Rightarrow> cam \<Rightarrow> cam" where
  "setkey_taken p i s = (setkey_tx p s)\<lparr>cam_used := rtw_sec_cam_map_set (cam_used s) i\<rparr>"

lemma search_tx: "rtw_camid_search (setkey_tx p s) = rtw_camid_search s"
  by (intro ext) (simp add: setkey_tx_def rtw_camid_search_def cam_cache_chk_def camid_is_gk_iff camid_is_used_bit)

lemma setkey_slot_tx: "setkey_slot env p (setkey_tx p s) = setkey_slot env p s"
proof -
  have "rtw_get_camid (setkey_tx p s) = rtw_get_camid s"
    by (intro ext) (simp add: rtw_get_camid_def search_tx, simp add: setkey_tx_def camid_is_used_bit
        rtw_camctl_chk_cap_def cong: option.case_cong)
  then show ?thesis by (simp add: setkey_slot_def camid_choice_def)
qed

lemma setkey_tx_fields [simp]:
  "cam_num (setkey_tx p s) = cam_num s" "cam_used (setkey_tx p s) = cam_used s"
  "cam_cache (setkey_tx p s) = cam_cache s" "cam_inv (setkey_tx p s) = cam_inv s"
  "cam_tight (setkey_tx p s) = cam_tight s"
  "cam_num (setkey_taken p i s) = cam_num s" "cam_cache (setkey_taken p i s) = cam_cache s"
  "cam_sec_cap (setkey_taken p i s) = cam_sec_cap s"
  by (simp_all add: setkey_tx_def setkey_taken_def)

lemma setkey_eq:
  assumes inv: "cam_inv s"
  shows "setkey_hdl env p s = (case setkey_slot env p s of
      None \<Rightarrow> Some (H2C_SUCCESS, set_hwreg HW_VAR_ON_RCR_AM (setkey_tx p s))
    | Some i \<Rightarrow>
        if bit (cam_used s) i \<and> i < cam_num s \<and> \<not> rtw_camid_is_gk (setkey_taken p i s) i
        then do { u \<leftarrow> clear_loop (Some (setkey_addr env i)) (-1) 1 (stop_group_search (setkey_taken p i s));
                  Some (H2C_SUCCESS, set_hwreg HW_VAR_ON_RCR_AM u) }
        else let u = write_cam (setkey_taken p i s) i (setkey_ctrl p) (setkey_addr env i) (sk_key p)
             in Some (H2C_SUCCESS, set_hwreg HW_VAR_ON_RCR_AM
                  (if i \<le> 3 then set_hwreg (HW_VAR_SEC_DK_CFG True) u else u)))"
proof -
  have "\<not> rtw_camctl_chk_cap (if b then set_hwreg v (write_cam (setkey_taken p i s) i c a k)
      else write_cam (setkey_taken p i s) i c a k) SEC_CAP_CHK_BMC" for b v i c a k
    using inv by (simp add: rtw_camctl_chk_cap_def set_hwreg_def write_cam_def write_cam_cache_def cam_inv_def)
  then show ?thesis
    unfolding setkey_hdl_def setkey_tx_def [symmetric] rtw_camid_alloc_def
      setkey_slot_def [symmetric]
    by (simp add: Let_def setkey_slot_tx camid_is_used_bit setkey_taken_def [symmetric] conj_commute split: option.split)
qed

lemma setkey_inv:
  assumes inv: "cam_inv s" and env: "env_ok env" and p: "setkey_ok p"
  obtains s' where "setkey_hdl env p s = Some (H2C_SUCCESS, s')" "cam_inv s'" "cam_tight s \<Longrightarrow> cam_tight s'"
proof (cases "setkey_slot env p s")
  case None
  then show ?thesis by (intro that [of "set_hwreg HW_VAR_ON_RCR_AM (setkey_tx p s)"]) (simp_all add: setkey_eq inv)
next
  case (Some i)
  let ?t = "setkey_taken p i s"
  have i: "i < cam_num s" by (rule setkey_slot_bound [OF inv p Some])
  have t: "cam_inv ?t" "cam_tight s \<Longrightarrow> cam_tight ?t" "bit (cam_used ?t) i"
    using set_used_inv [of "setkey_tx p s" i] set_used_tight [of "setkey_tx p s" i] inv i cam_inv_facts(2) [OF inv]
    by (simp_all add: setkey_taken_def)
  show ?thesis
  proof (cases "bit (cam_used s) i \<and> i < cam_num s \<and> \<not> rtw_camid_is_gk ?t i")
    case True
    let ?g = "stop_group_search ?t"
    have "cam_inv ?g" using t by simp
    moreover have "clearable (Some (setkey_addr env i)) 1" by (simp add: clearable_def)
    ultimately obtain u where u: "clear_loop (Some (setkey_addr env i)) (-1) 1 ?g = Some u"
      "cleared (hits ?g (Some (setkey_addr env i)) (-1) 1) ?g u"
      using clear_loop_ends cam_inv_facts(2,3) by metis
    show ?thesis
    proof (rule that)
      show "setkey_hdl env p s = Some (H2C_SUCCESS, set_hwreg HW_VAR_ON_RCR_AM u)"
        using True Some u(1) by (simp add: setkey_eq [OF inv])
    qed (use u(2) t cleared_inv [OF u(2)] cleared_tight [OF u(2)] cam_inv_facts(2,3) [OF inv] in simp_all)
  next
    case False
    let ?w = "write_cam ?t i (setkey_ctrl p) (setkey_addr env i) (sk_key p)"
    have "fresh_at ?t i (setkey_ctrl p) (setkey_addr env i)"
      using setkey_slot_fresh [OF inv env p Some] by (simp add: fresh_at_def)
    then have w: "cam_inv ?w" "cam_tight s \<Longrightarrow> cam_tight ?w"
      using t i p env by (auto intro!: write_cam_inv write_cam_tight simp: setkey_ok_def setkey_addr_length)
    show ?thesis
    proof (rule that)
      show "setkey_hdl env p s = Some (H2C_SUCCESS, set_hwreg HW_VAR_ON_RCR_AM
          (if i \<le> 3 then set_hwreg (HW_VAR_SEC_DK_CFG True) ?w else ?w))"
        using False Some by (auto simp: setkey_eq [OF inv])
    qed (use w in simp_all)
  qed
qed

end
