(* ===== verification/CamStore.thy ===== *)
theory CamStore
  imports CamReach
begin

text \<open>
  The states of the key store: entries can be moved, and every sequence of operations keeps
  \<open>cam_inv\<close>. Then the abstract store, a map from addresses and key ids to keys, which
  \<open>set_stakey_hdl\<close> updates at one point, and the case where it does not.
\<close>

section \<open>Moving entries\<close>

lemma move_in_cache: "cam_cache (move_in s i c) = (cam_cache s)[i := \<lparr>sc_ctrl = sc_ctrl c, sc_mac = take 6 (sc_mac c), sc_key = take 16 (sc_key c)\<rparr>]"
  "cam_num (move_in s i c) = cam_num s"
  by (simp_all add: move_in_def rtw_camid_set_def write_cam_def write_cam_cache_def)

lemma move_in_inv:
  assumes "cam_inv s" "i < cam_num s" "ent_ok c" "fresh_at s i (sc_ctrl c) (sc_mac c)"
  shows "cam_inv (move_in s i c)"
  using write_cam_inv [OF assms(1,2) _ _ assms(4)] assms(2,3) set_used_inv
  by (simp add: move_in_def rtw_camid_set_def ent_ok_def)

lemma move_in_tight:
  assumes "cam_tight s" "i < cam_num s" "cam_num s \<le> 32"
  shows "cam_tight (move_in s i c)"
proof -
  have "bit (cam_used (move_in s i c)) j \<longleftrightarrow> bit (cam_used s) j \<or> j = i" for j
    using assms(2,3) by (auto simp: move_in_def rtw_camid_set_def write_cam_def write_cam_cache_def)
  then show ?thesis
    using assms(1) unfolding cam_tight_def move_in_cache by (auto simp: nth_list_update)
qed

lemma swap_inv:
  assumes inv: "cam_inv s" and a: "a < cam_num s" and b: "b < cam_num s"
  shows "cam_inv (rtw_sec_cam_swap s a b)" "cam_tight s \<Longrightarrow> cam_tight (rtw_sec_cam_swap s a b)"
proof -
  note f = cam_inv_facts [OF inv]
  define ua where "ua = rtw_sec_camid_is_used s a"
  define ub where "ub = rtw_sec_camid_is_used s b"
  define s1 where "s1 = (if ua then move_out s a else s)"
  define s2 where "s2 = (if ub then move_out s1 b else s1)"
  define s3 where "s3 = (if ua then move_in s2 b (cam_cache s ! a) else s2)"
  define U where "U = (if ua then {a} else {}) \<union> (if ub then {b} else {})"
  have swap: "rtw_sec_cam_swap s a b = (if a = b then s else if ub then move_in s3 a (cam_cache s ! b) else s3)"
    by (simp add: rtw_sec_cam_swap_def ua_def ub_def s1_def s2_def s3_def)
  have out: "cleared {i} t (move_out t i)" if "i < cam_num t" "cam_num t \<le> 32" for i t
    unfolding move_out_def using that by (rule free_clear_cleared)
  have c1: "cleared (if ua then {a} else {}) s s1"
    using out [OF a f(2)] cleared_refl by (simp add: s1_def)
  moreover have "cleared (if ub then {b} else {}) s1 s2"
    using out [of b s1] b f(2) cleared_refl by (simp add: s2_def cleared_fields [OF c1])
  ultimately have c: "cleared U s s2" unfolding U_def by (rule cleared_trans)
  have n2: "cam_cache s2 ! i = (if i \<in> U then null_ent else cam_cache s ! i)" if "i < 32" for i
    using that f(3) by (simp add: cleared_fields [OF c])
  have l2: "cam_num s2 = cam_num s" "length (cam_cache s2) = 32"
    using f(3) by (simp_all add: cleared_fields [OF c])
  have ok: "ent_ok (cam_cache s ! a)" "ent_ok (cam_cache s ! b)" using f a b by auto
  have same: "\<lparr>sc_ctrl = sc_ctrl c, sc_mac = take 6 (sc_mac c), sc_key = take 16 (sc_key c)\<rparr> = c"
    if "ent_ok c" for c using that by (cases c) (simp add: ent_ok_def)
  have d: "i = j" if "i < cam_num s" "j < cam_num s" "sc_mac (cam_cache s ! i) = sc_mac (cam_cache s ! j)"
    "ent_kid (cam_cache s ! i) = ent_kid (cam_cache s ! j)" "sc_mac (cam_cache s ! i) \<noteq> null_mac" for i j
    using f(5) that unfolding distinct_keys_def by blast
  have kid: "unat (sc_ctrl c AND 3) = ent_kid c" for c by (simp add: ent_kid_def)
  have i2: "cam_inv s2" by (rule cleared_inv [OF c inv])
  have f3: "fresh_at s2 b (sc_ctrl (cam_cache s ! a)) (sc_mac (cam_cache s ! a))" if ua
    using d [OF _ a] that f(2) by (auto simp: fresh_at_def l2 n2 kid U_def)
  have i3: "cam_inv s3" unfolding s3_def using move_in_inv [OF i2 _ ok(1) f3] i2 b l2 by simp
  have n3: "cam_cache s3 = (if ua then (cam_cache s2)[b := cam_cache s ! a] else cam_cache s2)" "cam_num s3 = cam_num s"
    by (simp_all add: s3_def move_in_cache same ok l2)
  have f4: "fresh_at s3 a (sc_ctrl (cam_cache s ! b)) (sc_mac (cam_cache s ! b))" if ub "a \<noteq> b"
    using d [OF _ b] that f(2) a b
    by (auto simp: fresh_at_def n3 nth_list_update l2 n2 kid U_def split: if_splits)
  show "cam_inv (rtw_sec_cam_swap s a b)"
    unfolding swap using move_in_inv [OF i3 _ ok(2) f4] i3 inv a n3 by simp
  assume t: "cam_tight s"
  have "cam_tight s2" by (rule cleared_tight [OF c t]) (simp add: f)
  then have "cam_tight s3" unfolding s3_def using move_in_tight b l2 f(2) by simp
  then show "cam_tight (rtw_sec_cam_swap s a b)"
    unfolding swap using move_in_tight t a n3 f(2) by simp
qed

lemma empty_entry_bound: "rtw_get_empty_cam_entry s k = Some i \<Longrightarrow> i < cam_num s"
  by (auto simp: rtw_get_empty_cam_entry_def find_Some_iff)

lemma swap_num: "cam_num (rtw_sec_cam_swap s a b) = cam_num s"
  by (simp add: rtw_sec_cam_swap_def Let_def move_in_def move_out_def rtw_camid_set_def rtw_camid_free_def
      write_cam_def write_cam_cache_def clear_cam_entry_def clear_cam_cache_def clear_cam_hw_def)

lemma clean_dk_inv:
  assumes "cam_inv s"
  shows "cam_inv (rtw_clean_dk_section s)" "cam_tight s \<Longrightarrow> cam_tight (rtw_clean_dk_section s)"
proof -
  let ?f = "\<lambda>i s. if rtw_sec_camid_is_used s i
      then case rtw_get_empty_cam_entry s 4 of Some e \<Rightarrow> if e > 0 then rtw_sec_cam_swap s i e else s | None \<Rightarrow> s
      else s"
  have step: "cam_inv (?f i s)" "cam_tight s \<Longrightarrow> cam_tight (?f i s)" if "cam_inv s" for i s
    using that swap_inv [OF that] empty_entry_bound [of s 4]
    by (auto simp: camid_is_used_bit split: option.split)
  have "cam_inv (fold ?f is s) \<and> (cam_tight s \<longrightarrow> cam_tight (fold ?f is s))" for "is"
    using assms by (induction "is" arbitrary: s) (use step in \<open>simp_all del: if_split\<close>)
  then show "cam_inv (rtw_clean_dk_section s)" "cam_tight s \<Longrightarrow> cam_tight (rtw_clean_dk_section s)"
    by (simp_all add: rtw_clean_dk_section_def)
qed

section \<open>Commands of the proc file\<close>

text \<open>
  The file \<open>sec_cam\<close> takes a command and entry numbers, \<open>num\<close> fields as \<open>sscanf\<close> read them; the flag is
  \<open>securitypriv.hw_decrypted\<close>. The command \<open>c\<close> clears an entry of the chip and leaves the copy and the
  bitmap; \<open>wfc\<close> writes an entry of the copy to the chip.
\<close>

definition proc_set_sec_cam :: "nat \<Rightarrow> string \<Rightarrow> nat \<Rightarrow> nat \<Rightarrow> bool \<times> cam \<Rightarrow> bool \<times> cam" where
  "proc_set_sec_cam num cmd id_1 id_2 hs =
     (let (hw_decrypted, s) = hs
      in if num < 2 then hs
         else if cam_num s \<le> id_1 \<or> cam_num s \<le> id_2 then hs
         else if cmd = ''c'' then (False, clear_cam_hw s id_1)
         else if cmd = ''wfc'' then (hw_decrypted, write_cam_from_cache s id_1)
         else if cmd = ''sw'' then (hw_decrypted, rtw_sec_cam_swap s id_1 id_2)
         else if cmd = ''cdk'' then (hw_decrypted, rtw_clean_dk_section s)
         else hs)"

lemma write_from_cache_inv:
  assumes inv: "cam_inv s" and i: "i < cam_num s"
  shows "cam_inv (write_cam_from_cache s i)" "cam_tight s \<Longrightarrow> cam_tight (write_cam_from_cache s i)"
proof -
  have "\<lparr>sc_ctrl = sc_ctrl c, sc_mac = sc_mac c, sc_key = sc_key c\<rparr> = c" for c :: sec_cam_ent by (cases c) simp
  then have "(cam_cache s)[i := \<lparr>sc_ctrl = sc_ctrl (cam_cache s ! i), sc_mac = sc_mac (cam_cache s ! i),
      sc_key = sc_key (cam_cache s ! i)\<rparr>] = cam_cache s" by (simp only: list_update_id)
  then have "mirrored (cam_hw (write_cam_from_cache s i)) (cam_cache s)"
    using mirrored_write [OF cam_inv_facts(4) [OF inv], of i "sc_ctrl (cam_cache s ! i)" "sc_mac (cam_cache s ! i)"
        "sc_key (cam_cache s ! i)"] cam_inv_facts(2,3) [OF inv] i
    by (simp add: write_cam_from_cache_def Let_def)
  then show "cam_inv (write_cam_from_cache s i)" "cam_tight s \<Longrightarrow> cam_tight (write_cam_from_cache s i)"
    using inv by (simp_all add: cam_inv_def cam_tight_def write_cam_from_cache_def Let_def)
qed

lemma proc_inv:
  assumes "cam_inv s" "cmd \<noteq> ''c''"
  shows "cam_inv (snd (proc_set_sec_cam num cmd a b (h, s)))"
    "cam_tight s \<Longrightarrow> cam_tight (snd (proc_set_sec_cam num cmd a b (h, s)))"
  using assms swap_inv [OF assms(1)] clean_dk_inv [OF assms(1)] write_from_cache_inv [OF assms(1)]
  by (simp_all add: proc_set_sec_cam_def)

text \<open>The command \<open>c\<close> on an entry that is in use leaves the copy with a key the chip no longer has, and from
  then on packets are encrypted in software; \<open>wfc\<close> puts the key back.\<close>

lemma proc_clear_breaks_mirror:
  assumes inv: "cam_inv s" and i: "i < cam_num s" "j < cam_num s" and used: "sc_ctrl (cam_cache s ! i) \<noteq> 0"
  shows "\<exists>t. proc_set_sec_cam 2 ''c'' i j (h, s) = (False, t) \<and> \<not> mirrored (cam_hw t) (cam_cache t) \<and>
    cam_cache t = cam_cache s \<and> cam_used t = cam_used s \<and> cam_inv (snd (proc_set_sec_cam 2 ''wfc'' i j (False, t)))"
proof -
  let ?c = "cam_cache s ! i" and ?t = "clear_cam_hw s i"
  note f = cam_inv_facts [OF inv]
  have i32: "i < 32" using i f(2) by simp
  have "cam_wdata 0 0 (replicate 6 0) (replicate 16 0) \<noteq> cam_wdata 0 (sc_ctrl ?c) (sc_mac ?c) (sc_key ?c)"
  proof
    assume e: "cam_wdata 0 0 (replicate 6 0) (replicate 16 0) = cam_wdata 0 (sc_ctrl ?c) (sc_mac ?c) (sc_key ?c)"
    have "ucast (cam_wdata 0 (sc_ctrl ?c) (sc_mac ?c) (sc_key ?c)) = sc_ctrl ?c"
      by (intro bit_word_eqI) (simp add: cam_wdata_def bit_simps)
    with e [symmetric] used show False by (simp add: null_words)
  qed
  then have n: "\<not> mirrored (cam_hw ?t) (cam_cache s)"
    using i32 unfolding mirrored_def clear_cam_hw_def
    by (simp add: ent_words_write) (rule exI [of _ i], simp, rule exI [of _ 0], simp)
  have "mirrored (cam_hw (write_cam_from_cache ?t i)) (cam_cache s)"
    using f(4) i32 by (auto simp: mirrored_def write_cam_from_cache_def clear_cam_hw_def Let_def ent_words_write)
  then have w: "cam_inv (write_cam_from_cache ?t i)"
    using inv by (simp add: cam_inv_def write_cam_from_cache_def clear_cam_hw_def Let_def)
  have c: "cam_num ?t = cam_num s" "cam_cache ?t = cam_cache s" "cam_used ?t = cam_used s"
    by (simp_all add: clear_cam_hw_def)
  show ?thesis using n w i c by (simp add: proc_set_sec_cam_def)
qed

section \<open>Reachable states\<close>

definition calm_stakey :: "cam_env \<Rightarrow> set_stakey_parm \<Rightarrow> cam \<Rightarrow> bool" where
  "calm_stakey env p s \<longleftrightarrow>
     (st_algorithm p \<noteq> NO_PRIVACY \<longrightarrow> registered env (st_addr p) \<longrightarrow> (\<forall>i. \<not> conflict p s i))"

text \<open>
  One operation on the store. In a calm run no pairwise key is set over a group key; the roles, the
  stations and the BSSID of \<open>env\<close> may differ from one operation to the next. Of the commands of the proc
  file, \<open>c\<close> is not among the operations (\<open>proc_clear_breaks_mirror\<close>).
\<close>

inductive cam_step :: "bool \<Rightarrow> cam \<Rightarrow> cam \<Rightarrow> bool" for calm where
  setkey: "env_ok env \<Longrightarrow> setkey_ok p \<Longrightarrow> setkey_hdl env p s = Some (r, s') \<Longrightarrow> cam_step calm s s'"
| set_stakey: "env_ok env \<Longrightarrow> stakey_ok p \<Longrightarrow> (calm \<Longrightarrow> calm_stakey env p s) \<Longrightarrow>
    set_stakey_hdl env p s = Some (r, s') \<Longrightarrow> cam_step calm s s'"
| flush: "cam_step calm s (flush_all_cam_entry s)"
| swap: "a < cam_num s \<Longrightarrow> b < cam_num s \<Longrightarrow> cam_step calm s (rtw_sec_cam_swap s a b)"
| clean_dk: "cam_step calm s (rtw_clean_dk_section s)"
| proc: "cmd \<noteq> ''c'' \<Longrightarrow> cam_step calm s (snd (proc_set_sec_cam num cmd a b (h, s)))"
| clr_flags: "cam_step calm s (rtw_camctl_clr_flags s flags)"

inductive cam_reachable :: "bool \<Rightarrow> cam \<Rightarrow> bool" for calm where
  start: "4 \<le> cam_num s \<Longrightarrow> cam_num s \<le> 32 \<Longrightarrow> cam_sec_cap s AND SEC_CAP_CHK_BMC = 0 \<Longrightarrow>
    cam_reachable calm (invalidate_cam_all s)"
| step: "cam_reachable calm s \<Longrightarrow> cam_step calm s s' \<Longrightarrow> cam_reachable calm s'"

lemma flush_inv: "cam_inv s \<Longrightarrow> cam_inv (flush_all_cam_entry s)" "cam_inv s \<Longrightarrow> cam_tight (flush_all_cam_entry s)"
proof -
  assume inv: "cam_inv s"
  then have "cam_sec_cap s AND SEC_CAP_CHK_BMC = 0" by (simp add: cam_inv_def)
  with invalidate_inv cam_inv_facts(1,2) [OF inv]
  show "cam_inv (flush_all_cam_entry s)" "cam_tight (flush_all_cam_entry s)" by (simp_all add: flush_all_cam_entry_def)
qed

lemma cam_step_inv:
  assumes "cam_step calm s s'" and inv: "cam_inv s"
  shows "cam_inv s' \<and> (calm \<longrightarrow> cam_tight s \<longrightarrow> cam_tight s')"
  using assms(1)
proof (cases rule: cam_step.cases)
  case (setkey env p r)
  then show ?thesis using setkey_inv [OF inv setkey(1,2)] by auto
next
  case (set_stakey env p r)
  show ?thesis
  proof (rule set_stakey_inv [OF inv set_stakey(1,2)])
    fix r' t
    assume t: "set_stakey_hdl env p s = Some (r', t)" "cam_inv t"
      and tight: "cam_tight s \<Longrightarrow> (\<And>i. st_algorithm p \<noteq> NO_PRIVACY \<Longrightarrow> registered env (st_addr p) \<Longrightarrow> \<not> conflict p s i)
        \<Longrightarrow> cam_tight t"
    have "t = s'" using t(1) set_stakey(4) by simp
    then show ?thesis using t(2) tight set_stakey(3) by (auto simp: calm_stakey_def)
  qed
qed (use flush_inv swap_inv clean_dk_inv proc_inv inv in \<open>simp_all add: rtw_camctl_clr_flags_def\<close>)

lemma cam_reachable_inv: "cam_reachable calm s \<Longrightarrow> cam_inv s \<and> (calm \<longrightarrow> cam_tight s)"
  by (induction rule: cam_reachable.induct) (use invalidate_inv cam_step_inv in blast)+


section \<open>The store of keys\<close>

text \<open>The control field and the key under an address and a key id, as the search of the driver finds it.\<close>

definition cam_keys :: "cam \<Rightarrow> bytes \<Rightarrow> u8 \<Rightarrow> (u16 \<times> bytes) option" where
  "cam_keys s mac kid = map_option (\<lambda>i. (sc_ctrl (cam_cache s ! i), sc_key (cam_cache s ! i)))
     (rtw_camid_search s (Some mac) (uint kid) (-1))"

definition is_mac :: "bytes \<Rightarrow> bool" where
  "is_mac mac \<longleftrightarrow> length mac = 6 \<and> mac \<noteq> null_mac"

lemma cam_keys_Some:
  assumes inv: "cam_inv s" and m: "is_mac mac" "kid < 4"
  shows "cam_keys s mac kid = Some v \<longleftrightarrow> (\<exists>i < cam_num s. sc_mac (cam_cache s ! i) = mac \<and>
     ent_kid (cam_cache s ! i) = unat kid \<and> v = (sc_ctrl (cam_cache s ! i), sc_key (cam_cache s ! i)))"
    (is "_ \<longleftrightarrow> (\<exists>i < _. ?P i)")
proof -
  have h: "i \<in> hits s (Some mac) (uint kid) (-1) \<longleftrightarrow>
      i < cam_num s \<and> sc_mac (cam_cache s ! i) = mac \<and> ent_kid (cam_cache s ! i) = unat kid" for i
    using hits_any [OF inv _ m(2)] m(1) by (simp add: is_mac_def)
  have u: "i = j" if "i \<in> hits s (Some mac) (uint kid) (-1)" "j \<in> hits s (Some mac) (uint kid) (-1)" for i j
    using that m(1) cam_inv_facts(5) [OF inv] by (auto simp: h distinct_keys_def is_mac_def)
  show ?thesis
  proof
    assume "cam_keys s mac kid = Some v"
    then obtain i where i: "rtw_camid_search s (Some mac) (uint kid) (-1) = Some i"
      and v: "v = (sc_ctrl (cam_cache s ! i), sc_key (cam_cache s ! i))" by (auto simp: cam_keys_def)
    from search_Some [OF i] v show "\<exists>i < cam_num s. ?P i" unfolding h by blast
  next
    assume "\<exists>i < cam_num s. ?P i"
    then obtain i where i: "i < cam_num s" "?P i" by blast
    then have ih: "i \<in> hits s (Some mac) (uint kid) (-1)" by (simp add: h)
    then obtain j where j: "rtw_camid_search s (Some mac) (uint kid) (-1) = Some j"
      by (cases "rtw_camid_search s (Some mac) (uint kid) (-1)") (simp_all add: search_None)
    from u [OF ih search_Some [OF j]] i(2) j show "cam_keys s mac kid = Some v" by (simp add: cam_keys_def)
  qed
qed



lemma cam_keys_cong:
  "cam_num t = cam_num s \<Longrightarrow> cam_cache t = cam_cache s \<Longrightarrow> cam_keys t = cam_keys s"
  by (intro ext) (simp add: cam_keys_def rtw_camid_search_def cam_cache_chk_def)

lemma cam_keys_other [simp]:
  "cam_keys (taken p i s) = cam_keys s" "cam_keys (s\<lparr>cam_enc_algo := a\<rparr>) = cam_keys s"
  by (rule cam_keys_cong; simp)+






section \<open>A pairwise key over a group key\<close>

text \<open>
  In the branch for a pairwise key whose entry holds a group key, the loop that removes the group keys of
  the station also releases the entry that was just allocated; the key is then written into it.
\<close>

lemma conflict_result:
  assumes inv: "cam_inv s" and env: "env_ok env" and p: "stakey_ok p"
    and reg: "st_algorithm p \<noteq> NO_PRIVACY" "registered env (st_addr p)" and c: "conflict p s i"
  obtains s' where "set_stakey_hdl env p s = Some (H2C_SUCCESS_RSP, s')" "cam_inv s'" "\<not> bit (cam_used s') i"
    "cam_num s' = cam_num s" "i < cam_num s"
    "cam_cache s' ! i = \<lparr>sc_ctrl = stakey_ctrl p, sc_mac = st_addr p, sc_key = st_key p\<rparr>"
proof -
  note f = cam_inv_facts [OF inv]
  have sl: "stakey_slot p s = Some i" and gk: "rtw_camid_is_gk s i" using c by (auto simp: conflict_def)
  note fr = stakey_slot_fresh [OF inv p sl]
  let ?H = "hits (taken p i s) (Some (st_addr p)) (-1) 1"
  obtain u where u: "set_stakey_hdl env p s = Some (H2C_SUCCESS_RSP, stakey_write p i u)"
    and cl: "cleared ?H (stop_group_search (taken p i s)) u"
    by (rule set_stakey_conflict [OF inv env p reg c])
  have used: "bit (cam_used s) i" using gk by (simp add: camid_is_gk_iff camid_is_used_bit)
  then have "i \<in> hits s (Some (st_addr p)) (uint (st_keyid p)) (-1)"
    using get_camid_Some(2) [OF inv sl [unfolded stakey_slot_def]] by blast
  then have "sc_mac (cam_cache s ! i) = st_addr p" using hits_any [OF inv] p by (simp add: stakey_ok_def)
  then have "i \<in> ?H"
    using gk used fr(1) f(2) by (simp add: hits_def cam_cache_chk_def camid_is_gk_iff camid_is_used_bit)
  then have nb: "\<not> bit (cam_used u) i" by (simp add: cleared_fields [OF cl])
  have "cam_inv (stop_group_search (taken p i s))" using taken_inv [OF inv fr(1)] by simp
  from cleared_inv [OF cl this] have iu: "cam_inv u" .
  have "cam_inv (stakey_write p i u)"
    using fr f by (intro stakey_write_inv [OF iu p] fresh_cleared [OF cl]) (simp_all add: cleared_fields [OF cl])
  moreover have "cam_used (stakey_write p i u) = cam_used u" "cam_num (stakey_write p i u) = cam_num s"
    "cam_cache (stakey_write p i u) ! i = \<lparr>sc_ctrl = stakey_ctrl p, sc_mac = st_addr p, sc_key = st_key p\<rparr>"
    using fr(1) f p
    by (simp_all add: stakey_write_def write_cam_def write_cam_cache_def cleared_fields [OF cl] stakey_ok_def)
  ultimately show ?thesis using that [OF u] nb fr(1) by simp
qed

lemma next_slot:
  assumes inv: "cam_inv s" and none: "cam_keys s (st_addr q) (st_keyid q) = None"
    and i: "4 \<le> i" "i < cam_num s" "\<not> bit (cam_used s) i" "\<forall>j. 4 \<le> j \<and> j < i \<longrightarrow> bit (cam_used s) j"
  shows "stakey_slot q s = Some i" "\<not> conflict q s j"
proof -
  have "find (\<lambda>i. 4 \<le> i \<and> \<not> bit (cam_used s) i) [0..<cam_num s] = Some i"
    unfolding find_Some_iff using i by (intro exI [of _ i]) (simp add: less_imp_le)
  then show sl: "stakey_slot q s = Some i"
    using none by (simp add: stakey_slot_def get_camid_eq [OF inv] cam_keys_def)
  show "\<not> conflict q s j"
    using i(3) by (auto simp: conflict_def sl camid_is_gk_iff camid_is_used_bit)
qed

text \<open>Setting a pairwise key whose entry holds a group key answers success and the key is
  found afterwards, but its entry is marked free; if it is the first free dynamic entry, the next
  station key that needs a new entry overwrites it, and the key is lost without any report.\<close>

theorem pairwise_over_group_lost:
  assumes inv: "cam_reachable calm s" and env: "env_ok env" and p: "stakey_ok p"
    and reg: "st_algorithm p \<noteq> NO_PRIVACY" "registered env (st_addr p)" and c: "conflict p s i"
  shows "\<exists>s'. set_stakey_hdl env p s = Some (H2C_SUCCESS_RSP, s') \<and>
    cam_keys s' (st_addr p) (st_keyid p) = Some (stakey_ctrl p, st_key p) \<and> \<not> bit (cam_used s') i \<and>
    (\<forall>env' q. env_ok env' \<and> stakey_ok q \<and> st_algorithm q \<noteq> NO_PRIVACY \<and> registered env' (st_addr q) \<and>
       cam_keys s' (st_addr q) (st_keyid q) = None \<and> 4 \<le> i \<and> (\<forall>j. 4 \<le> j \<and> j < i \<longrightarrow> bit (cam_used s') j) \<longrightarrow>
       (\<exists>s''. set_stakey_hdl env' q s' = Some (H2C_SUCCESS_RSP, s'') \<and> cam_keys s'' (st_addr p) (st_keyid p) = None))"
proof -
  have pm: "is_mac (st_addr p)" "st_keyid p < 4" using p by (simp_all add: stakey_ok_def is_mac_def)
  obtain s' where s': "set_stakey_hdl env p s = Some (H2C_SUCCESS_RSP, s')" "cam_inv s'" "\<not> bit (cam_used s') i"
    "cam_num s' = cam_num s" "i < cam_num s"
    "cam_cache s' ! i = \<lparr>sc_ctrl = stakey_ctrl p, sc_mac = st_addr p, sc_key = st_key p\<rparr>"
    using cam_reachable_inv [OF inv] by (blast intro: conflict_result [OF _ env p reg c])
  have k: "cam_keys s' (st_addr p) (st_keyid p) = Some (stakey_ctrl p, st_key p)"
    unfolding cam_keys_Some [OF s'(2) pm] using s' stakey_ctrl_kid [OF p]
    by (intro exI [of _ i]) (simp add: ent_kid_def)
  have "\<exists>s''. set_stakey_hdl env' q s' = Some (H2C_SUCCESS_RSP, s'') \<and> cam_keys s'' (st_addr p) (st_keyid p) = None"
    if q: "env_ok env'" "stakey_ok q" "st_algorithm q \<noteq> NO_PRIVACY" "registered env' (st_addr q)"
      and none: "cam_keys s' (st_addr q) (st_keyid q) = None"
      and free: "4 \<le> i" "\<forall>j. 4 \<le> j \<and> j < i \<longrightarrow> bit (cam_used s') j" for env' q
  proof -
    note ns = next_slot [OF s'(2) none free(1) _ s'(3) free(2)]
    have sl: "stakey_slot q s' = Some i" "\<not> conflict q s' i" using ns s'(4,5) by simp_all
    note fr = stakey_slot_fresh [OF s'(2) q(2) sl(1)]
    let ?w = "stakey_write q i (taken q i s')"
    have w: "cam_inv ?w" using fr by (intro stakey_write_inv [OF taken_inv [OF s'(2) fr(1)] q(2)]) simp_all
    have n: "cam_num ?w = cam_num s'" "cam_cache ?w = (cam_cache s')[i := \<lparr>sc_ctrl = stakey_ctrl q, sc_mac = st_addr q, sc_key = st_key q\<rparr>]"
      using q(2) by (simp_all add: stakey_write_def write_cam_def write_cam_cache_def stakey_ok_def)
    have other: "\<not> (st_addr q = st_addr p \<and> unat (st_keyid q) = unat (st_keyid p))"
      using none k by (auto simp: word_unat_eq_iff [of "st_keyid q", symmetric])
    have len: "i < length (cam_cache s')" using s'(4,5) cam_inv_facts [OF s'(2)] by simp
    have "\<not> (j < cam_num s' \<and> sc_mac (cam_cache ?w ! j) = st_addr p \<and> ent_kid (cam_cache ?w ! j) = unat (st_keyid p))" for j
    proof (cases "j = i")
      case True
      then show ?thesis using other len stakey_ctrl_kid [OF q(2)] by (auto simp: n ent_kid_def)
    next
      case False
      have "sc_mac (cam_cache s' ! i) = st_addr p" "ent_kid (cam_cache s' ! i) = unat (st_keyid p)"
        using s'(6) stakey_ctrl_kid [OF p] by (simp_all add: ent_kid_def)
      then show ?thesis
        using False cam_inv_facts(5) [OF s'(2)] s'(4,5) pm by (auto simp: n distinct_keys_def is_mac_def)
    qed
    then have "cam_keys ?w (st_addr p) (st_keyid p) \<noteq> Some v" for v
      unfolding cam_keys_Some [OF w pm] n(1) by blast
    then have "cam_keys ?w (st_addr p) (st_keyid p) = None" by (cases "cam_keys ?w (st_addr p) (st_keyid p)") auto
    with set_stakey_plain [OF s'(2) q sl] show ?thesis by blast
  qed
  with s' k show ?thesis by blast
qed

section \<open>Concrete stores\<close>

definition ex_mac :: bytes where "ex_mac = [0x00, 0x11, 0x22, 0x33, 0x44, 0x55]"

definition ex_env :: cam_env where
  "ex_env = \<lparr>ce_state = 0x4002, ce_bssid = ex_mac, ce_mac_addr = [2, 0, 0, 0, 0, 1],
     ce_sta_hash = sta_hash_insert \<lparr>si_mac_addr = ex_mac, si_UncstKey = []\<rparr> (replicate 32 [])\<rparr>"

definition ex_pair :: set_stakey_parm where
  "ex_pair = \<lparr>st_addr = ex_mac, st_algorithm = 4, st_keyid = 0, st_key = replicate 16 0xAA, st_gk = 0\<rparr>"

definition ex_group :: setkey_parm where
  "ex_group = \<lparr>sk_algorithm = 4, sk_keyid = 0, sk_set_tx = 0, sk_key = replicate 16 0xBB\<rparr>"

definition ex_cam :: cam where
  "ex_cam = invalidate_cam_all \<lparr>cam_sec_cap = 0, cam_flags = 0, cam_num = 32, cam_used = 0, cam_cache = [],
     cam_hw = (\<lambda>_. 0), cam_regs = [], cam_key_index = 0, cam_enc_algo = 0\<rparr>"

lemma ex_facts:
  "env_ok ex_env" "stakey_ok ex_pair" "setkey_ok ex_group" "registered ex_env (st_addr ex_pair)"
  "cam_reachable calm ex_cam"
proof -
  have "sta_hash_ok (replicate 32 [])" by (simp add: sta_hash_ok_def NUM_STA_def)
  then have "sta_hash_ok (ce_sta_hash ex_env)"
    unfolding ex_env_def by (simp add: sta_hash.insert_ok ex_mac_def)
  then show "env_ok ex_env" by (simp add: env_ok_def, simp add: ex_env_def ex_mac_def)
  show "stakey_ok ex_pair" "setkey_ok ex_group"
    by code_simp+
  show "registered ex_env (st_addr ex_pair)" by code_simp
  show "cam_reachable calm ex_cam" unfolding ex_cam_def by (rule cam_reachable.start) simp_all
qed


definition ex_cam_group :: cam where
  "ex_cam_group = snd (the (setkey_hdl ex_env ex_group ex_cam))"

lemma ex_setkey: "setkey_hdl ex_env ex_group ex_cam = Some (H2C_SUCCESS, ex_cam_group)"
proof -
  have "cam_inv ex_cam" using cam_reachable_inv ex_facts(5) by blast
  then obtain t where "setkey_hdl ex_env ex_group ex_cam = Some (H2C_SUCCESS, t)" by (rule setkey_inv [OF _ ex_facts(1,3)])
  then show ?thesis by (simp add: ex_cam_group_def)
qed

lemma ex_group_slot:
  "stakey_slot ex_pair ex_cam_group = Some 4" "cam_used ex_cam_group = 0x10"
  "rtw_camid_is_gk ex_cam_group 4"
  by code_simp+



theorem pairwise_over_group_lost_witness:
  "\<exists>s'. set_stakey_hdl ex_env ex_pair ex_cam_group = Some (H2C_SUCCESS_RSP, s') \<and> \<not> bit (cam_used s') 4"
proof -
  have r: "cam_reachable False ex_cam_group"
    by (rule cam_reachable.step [OF ex_facts(5) cam_step.setkey [OF ex_facts(1,3) ex_setkey]])
  have "conflict ex_pair ex_cam_group 4" using ex_group_slot by (simp add: conflict_def ex_pair_def)
  moreover have "st_algorithm ex_pair \<noteq> NO_PRIVACY" by (simp add: ex_pair_def NO_PRIVACY_def)
  ultimately show ?thesis using pairwise_over_group_lost [OF r ex_facts(1,2) _ ex_facts(4)] by blast
qed

end
