(* ===== verification/PwrSeq.thy ===== *)
theory PwrSeq
  imports Prelude
begin

text \<open>
  Power sequences: the command tables of include/Hal8188EPwrSeq.h, the interpreter of
  hal/HalPwrSeqCmd.c and its two users of hal/rtl8188e/sdio/sdio_halinit.c. The chip is a parameter:
  \<open>bus\<close> holds the register accesses and the delay as functions on a state of the chip that the model
  says nothing about. The locale \<open>timed_bus\<close> adds the time that passes.
\<close>

section \<open>Commands\<close>

record pwr_cfg =
  pc_offset :: u16
  pc_cut_msk :: u8
  pc_fab_msk :: u8
  pc_interface_msk :: u8
  pc_base :: u8
  pc_cmd :: u8
  pc_msk :: u8
  pc_value :: u8

definition PWR_CMD_READ :: u8 where "PWR_CMD_READ = 0"
definition PWR_CMD_WRITE :: u8 where "PWR_CMD_WRITE = 1"
definition PWR_CMD_POLLING :: u8 where "PWR_CMD_POLLING = 2"
definition PWR_CMD_DELAY :: u8 where "PWR_CMD_DELAY = 3"
definition PWR_CMD_END :: u8 where "PWR_CMD_END = 4"
definition PWR_BASEADDR_MAC :: u8 where "PWR_BASEADDR_MAC = 0"
definition PWR_BASEADDR_SDIO :: u8 where "PWR_BASEADDR_SDIO = 3"
definition PWR_INTF_SDIO_MSK :: u8 where "PWR_INTF_SDIO_MSK = 1"
definition PWR_INTF_USB_MSK :: u8 where "PWR_INTF_USB_MSK = 2"
definition PWR_INTF_PCI_MSK :: u8 where "PWR_INTF_PCI_MSK = 4"
definition PWR_INTF_ALL_MSK :: u8 where "PWR_INTF_ALL_MSK = 0xF"
definition PWR_FAB_ALL_MSK :: u8 where "PWR_FAB_ALL_MSK = 0xF"
definition PWR_CUT_ALL_MSK :: u8 where "PWR_CUT_ALL_MSK = 0xFF"
definition PWRSEQ_DELAY_US :: u8 where "PWRSEQ_DELAY_US = 0"
definition PWRSEQ_DELAY_MS :: u8 where "PWRSEQ_DELAY_MS = 1"

lemmas pwr_consts = PWR_CMD_READ_def PWR_CMD_WRITE_def PWR_CMD_POLLING_def PWR_CMD_DELAY_def PWR_CMD_END_def
  PWR_BASEADDR_MAC_def PWR_BASEADDR_SDIO_def PWR_INTF_SDIO_MSK_def PWR_INTF_USB_MSK_def PWR_INTF_PCI_MSK_def
  PWR_INTF_ALL_MSK_def PWR_FAB_ALL_MSK_def PWR_CUT_ALL_MSK_def PWRSEQ_DELAY_US_def PWRSEQ_DELAY_MS_def

text \<open>All rows of the tables are for every cut and fab.\<close>

definition cfg :: "u16 \<Rightarrow> u8 \<Rightarrow> u8 \<Rightarrow> u8 \<Rightarrow> u8 \<Rightarrow> u8 \<Rightarrow> pwr_cfg" where
  "cfg offset intf base cmd msk value =
     \<lparr>pc_offset = offset, pc_cut_msk = PWR_CUT_ALL_MSK, pc_fab_msk = PWR_FAB_ALL_MSK, pc_interface_msk = intf,
      pc_base = base, pc_cmd = cmd, pc_msk = msk, pc_value = value\<rparr>"

definition TRANS_CARDEMU_TO_ACT :: "pwr_cfg list" where
  "TRANS_CARDEMU_TO_ACT =
  [cfg 0x0006 PWR_INTF_ALL_MSK PWR_BASEADDR_MAC PWR_CMD_POLLING 0x02 0x02,
   cfg 0x0002 PWR_INTF_ALL_MSK PWR_BASEADDR_MAC PWR_CMD_WRITE 0x03 0,
   cfg 0x0026 PWR_INTF_ALL_MSK PWR_BASEADDR_MAC PWR_CMD_WRITE 0x80 0x80,
   cfg 0x0005 PWR_INTF_ALL_MSK PWR_BASEADDR_MAC PWR_CMD_WRITE 0x80 0,
   cfg 0x0005 PWR_INTF_ALL_MSK PWR_BASEADDR_MAC PWR_CMD_WRITE 0x18 0,
   cfg 0x0005 PWR_INTF_ALL_MSK PWR_BASEADDR_MAC PWR_CMD_WRITE 0x01 0x01,
   cfg 0x0005 PWR_INTF_ALL_MSK PWR_BASEADDR_MAC PWR_CMD_POLLING 0x01 0,
   cfg 0x0023 PWR_INTF_ALL_MSK PWR_BASEADDR_MAC PWR_CMD_WRITE 0x10 0]"

definition TRANS_ACT_TO_CARDEMU :: "pwr_cfg list" where
  "TRANS_ACT_TO_CARDEMU =
  [cfg 0x001F PWR_INTF_ALL_MSK PWR_BASEADDR_MAC PWR_CMD_WRITE 0xFF 0,
   cfg 0x0023 PWR_INTF_ALL_MSK PWR_BASEADDR_MAC PWR_CMD_WRITE 0x10 0x10,
   cfg 0x0005 PWR_INTF_ALL_MSK PWR_BASEADDR_MAC PWR_CMD_WRITE 0x02 0x02,
   cfg 0x0005 PWR_INTF_ALL_MSK PWR_BASEADDR_MAC PWR_CMD_POLLING 0x02 0]"

definition TRANS_CARDEMU_TO_SUS :: "pwr_cfg list" where
  "TRANS_CARDEMU_TO_SUS =
  [cfg 0x0005 (PWR_INTF_USB_MSK OR PWR_INTF_SDIO_MSK) PWR_BASEADDR_MAC PWR_CMD_WRITE 0x18 0x08,
   cfg 0x0005 PWR_INTF_PCI_MSK PWR_BASEADDR_MAC PWR_CMD_WRITE 0x18 0x18,
   cfg 0x0007 (PWR_INTF_USB_MSK OR PWR_INTF_SDIO_MSK) PWR_BASEADDR_MAC PWR_CMD_WRITE 0xFF 0x80,
   cfg 0x0041 (PWR_INTF_USB_MSK OR PWR_INTF_SDIO_MSK) PWR_BASEADDR_MAC PWR_CMD_WRITE 0x10 0,
   cfg 0xFE10 (PWR_INTF_USB_MSK OR PWR_INTF_SDIO_MSK) PWR_BASEADDR_MAC PWR_CMD_WRITE 0x10 0x10,
   cfg 0x0086 PWR_INTF_SDIO_MSK PWR_BASEADDR_SDIO PWR_CMD_WRITE 0x01 0x01,
   cfg 0x0086 PWR_INTF_SDIO_MSK PWR_BASEADDR_SDIO PWR_CMD_POLLING 0x02 0]"

definition TRANS_SUS_TO_CARDEMU :: "pwr_cfg list" where
  "TRANS_SUS_TO_CARDEMU =
  [cfg 0x0086 PWR_INTF_SDIO_MSK PWR_BASEADDR_SDIO PWR_CMD_WRITE 0x01 0,
   cfg 0x0086 PWR_INTF_SDIO_MSK PWR_BASEADDR_SDIO PWR_CMD_POLLING 0x02 0x02,
   cfg 0x0005 PWR_INTF_ALL_MSK PWR_BASEADDR_MAC PWR_CMD_WRITE 0x18 0]"

definition TRANS_CARDEMU_TO_CARDDIS :: "pwr_cfg list" where
  "TRANS_CARDEMU_TO_CARDDIS =
  [cfg 0x0026 PWR_INTF_ALL_MSK PWR_BASEADDR_MAC PWR_CMD_WRITE 0x80 0x80,
   cfg 0x0005 (PWR_INTF_USB_MSK OR PWR_INTF_SDIO_MSK) PWR_BASEADDR_MAC PWR_CMD_WRITE 0x18 0x08,
   cfg 0x0007 (PWR_INTF_USB_MSK OR PWR_INTF_SDIO_MSK) PWR_BASEADDR_MAC PWR_CMD_WRITE 0xFF 0,
   cfg 0x0041 (PWR_INTF_USB_MSK OR PWR_INTF_SDIO_MSK) PWR_BASEADDR_MAC PWR_CMD_WRITE 0x10 0,
   cfg 0xFE10 PWR_INTF_USB_MSK PWR_BASEADDR_MAC PWR_CMD_WRITE 0x10 0x10,
   cfg 0x0086 PWR_INTF_SDIO_MSK PWR_BASEADDR_SDIO PWR_CMD_WRITE 0x01 0x01,
   cfg 0x0086 PWR_INTF_SDIO_MSK PWR_BASEADDR_SDIO PWR_CMD_POLLING 0x02 0]"

definition TRANS_CARDDIS_TO_CARDEMU :: "pwr_cfg list" where
  "TRANS_CARDDIS_TO_CARDEMU =
  [cfg 0x0086 PWR_INTF_SDIO_MSK PWR_BASEADDR_SDIO PWR_CMD_WRITE 0x01 0,
   cfg 0x0086 PWR_INTF_SDIO_MSK PWR_BASEADDR_SDIO PWR_CMD_POLLING 0x02 0x02,
   cfg 0x0005 PWR_INTF_ALL_MSK PWR_BASEADDR_MAC PWR_CMD_WRITE 0x18 0]"

definition TRANS_CARDEMU_TO_PDN :: "pwr_cfg list" where
  "TRANS_CARDEMU_TO_PDN =
  [cfg 0x0006 PWR_INTF_ALL_MSK PWR_BASEADDR_MAC PWR_CMD_WRITE 0x01 0,
   cfg 0x0005 PWR_INTF_ALL_MSK PWR_BASEADDR_MAC PWR_CMD_WRITE 0x80 0x80]"

definition TRANS_PDN_TO_CARDEMU :: "pwr_cfg list" where
  "TRANS_PDN_TO_CARDEMU =
  [cfg 0x0005 PWR_INTF_ALL_MSK PWR_BASEADDR_MAC PWR_CMD_WRITE 0x80 0]"

definition TRANS_ACT_TO_LPS :: "pwr_cfg list" where
  "TRANS_ACT_TO_LPS =
  [cfg 0x0522 PWR_INTF_ALL_MSK PWR_BASEADDR_MAC PWR_CMD_WRITE 0xFF 0x7F,
   cfg 0x05F8 PWR_INTF_ALL_MSK PWR_BASEADDR_MAC PWR_CMD_POLLING 0xFF 0,
   cfg 0x05F9 PWR_INTF_ALL_MSK PWR_BASEADDR_MAC PWR_CMD_POLLING 0xFF 0,
   cfg 0x05FA PWR_INTF_ALL_MSK PWR_BASEADDR_MAC PWR_CMD_POLLING 0xFF 0,
   cfg 0x05FB PWR_INTF_ALL_MSK PWR_BASEADDR_MAC PWR_CMD_POLLING 0xFF 0,
   cfg 0x0002 PWR_INTF_ALL_MSK PWR_BASEADDR_MAC PWR_CMD_WRITE 0x01 0,
   cfg 0x0002 PWR_INTF_ALL_MSK PWR_BASEADDR_MAC PWR_CMD_DELAY 0 PWRSEQ_DELAY_US,
   cfg 0x0100 PWR_INTF_ALL_MSK PWR_BASEADDR_MAC PWR_CMD_WRITE 0xFF 0x3F,
   cfg 0x0101 PWR_INTF_ALL_MSK PWR_BASEADDR_MAC PWR_CMD_WRITE 0x02 0,
   cfg 0x0553 PWR_INTF_ALL_MSK PWR_BASEADDR_MAC PWR_CMD_WRITE 0x20 0x20]"

definition TRANS_LPS_TO_ACT :: "pwr_cfg list" where
  "TRANS_LPS_TO_ACT =
  [cfg 0x0080 PWR_INTF_SDIO_MSK PWR_BASEADDR_SDIO PWR_CMD_WRITE 0xFF 0x84,
   cfg 0xFE58 PWR_INTF_USB_MSK PWR_BASEADDR_MAC PWR_CMD_WRITE 0xFF 0x84,
   cfg 0x0361 PWR_INTF_PCI_MSK PWR_BASEADDR_MAC PWR_CMD_WRITE 0xFF 0x84,
   cfg 0x0002 PWR_INTF_ALL_MSK PWR_BASEADDR_MAC PWR_CMD_DELAY 0 PWRSEQ_DELAY_MS,
   cfg 0x0008 PWR_INTF_ALL_MSK PWR_BASEADDR_MAC PWR_CMD_WRITE 0x10 0,
   cfg 0x0109 PWR_INTF_ALL_MSK PWR_BASEADDR_MAC PWR_CMD_POLLING 0x80 0,
   cfg 0x0029 PWR_INTF_ALL_MSK PWR_BASEADDR_MAC PWR_CMD_WRITE 0xC0 0,
   cfg 0x0101 PWR_INTF_ALL_MSK PWR_BASEADDR_MAC PWR_CMD_WRITE 0x02 0x02,
   cfg 0x0100 PWR_INTF_ALL_MSK PWR_BASEADDR_MAC PWR_CMD_WRITE 0xFF 0xFF,
   cfg 0x0002 PWR_INTF_ALL_MSK PWR_BASEADDR_MAC PWR_CMD_WRITE 0x03 0x03,
   cfg 0x0522 PWR_INTF_ALL_MSK PWR_BASEADDR_MAC PWR_CMD_WRITE 0xFF 0]"

definition TRANS_END :: "pwr_cfg list" where
  "TRANS_END =
  [cfg 0xFFFF PWR_INTF_ALL_MSK PWR_BASEADDR_MAC PWR_CMD_END 0 0]"

definition rtl8188E_power_on_flow :: "pwr_cfg list" where
  "rtl8188E_power_on_flow = TRANS_CARDEMU_TO_ACT @ TRANS_END"

definition rtl8188E_radio_off_flow :: "pwr_cfg list" where
  "rtl8188E_radio_off_flow = TRANS_ACT_TO_CARDEMU @ TRANS_END"

definition rtl8188E_card_disable_flow :: "pwr_cfg list" where
  "rtl8188E_card_disable_flow = TRANS_ACT_TO_CARDEMU @ TRANS_CARDEMU_TO_CARDDIS @ TRANS_END"

definition rtl8188E_card_enable_flow :: "pwr_cfg list" where
  "rtl8188E_card_enable_flow = TRANS_CARDDIS_TO_CARDEMU @ TRANS_CARDEMU_TO_ACT @ TRANS_END"

definition rtl8188E_suspend_flow :: "pwr_cfg list" where
  "rtl8188E_suspend_flow = TRANS_ACT_TO_CARDEMU @ TRANS_CARDEMU_TO_SUS @ TRANS_END"

definition rtl8188E_resume_flow :: "pwr_cfg list" where
  "rtl8188E_resume_flow = TRANS_SUS_TO_CARDEMU @ TRANS_CARDEMU_TO_ACT @ TRANS_END"

definition rtl8188E_hwpdn_flow :: "pwr_cfg list" where
  "rtl8188E_hwpdn_flow = TRANS_ACT_TO_CARDEMU @ TRANS_CARDEMU_TO_PDN @ TRANS_END"

definition rtl8188E_enter_lps_flow :: "pwr_cfg list" where
  "rtl8188E_enter_lps_flow = TRANS_ACT_TO_LPS @ TRANS_END"

definition rtl8188E_leave_lps_flow :: "pwr_cfg list" where
  "rtl8188E_leave_lps_flow = TRANS_LPS_TO_ACT @ TRANS_END"

section \<open>The interpreter\<close>

record 'd bus =
  rtw_read8 :: "u32 \<Rightarrow> 'd \<Rightarrow> u8 \<times> 'd"
  rtw_write8 :: "u32 \<Rightarrow> u8 \<Rightarrow> 'd \<Rightarrow> 'd"
  SdioLocalCmd52Read1Byte :: "u32 \<Rightarrow> 'd \<Rightarrow> u8 \<times> 'd"
  SdioLocalCmd52Write1Byte :: "u32 \<Rightarrow> u8 \<Rightarrow> 'd \<Rightarrow> 'd"
  rtw_udelay_os :: "nat \<Rightarrow> 'd \<Rightarrow> 'd"

text \<open>What the code knows of the chip: \<open>bHWICSupport\<close> (HW_VAR_PWR_CMD) and whether it is an 8723DE.\<close>

record chip =
  ch_hwic :: bool
  ch_8723de :: bool

definition cfg_matches :: "u8 \<Rightarrow> u8 \<Rightarrow> u8 \<Rightarrow> pwr_cfg \<Rightarrow> bool" where
  "cfg_matches cutv fab intf c \<longleftrightarrow> pc_fab_msk c AND fab \<noteq> 0 \<and> pc_cut_msk c AND cutv \<noteq> 0 \<and> pc_interface_msk c AND intf \<noteq> 0"

definition cfg_read :: "'d bus \<Rightarrow> pwr_cfg \<Rightarrow> 'd \<Rightarrow> u8 \<times> 'd" where
  "cfg_read b c d =
     (if pc_base c = PWR_BASEADDR_SDIO then SdioLocalCmd52Read1Byte b (ucast (pc_offset c)) d
      else rtw_read8 b (ucast (pc_offset c)) d)"

definition cfg_write :: "'d bus \<Rightarrow> pwr_cfg \<Rightarrow> u8 \<Rightarrow> 'd \<Rightarrow> 'd" where
  "cfg_write b c v d =
     (if pc_base c = PWR_BASEADDR_SDIO then SdioLocalCmd52Write1Byte b (ucast (pc_offset c)) v d
      else rtw_write8 b (ucast (pc_offset c)) v d)"

definition pwr_cmd_write :: "'d bus \<Rightarrow> pwr_cfg \<Rightarrow> 'd \<Rightarrow> 'd" where
  "pwr_cmd_write b c d =
     (let (v, d) = cfg_read b c d
      in cfg_write b c ((v AND NOT (pc_msk c)) OR (pc_value c AND pc_msk c)) d)"

definition modify8 :: "'d bus \<Rightarrow> u32 \<Rightarrow> (u8 \<Rightarrow> u8) \<Rightarrow> 'd \<Rightarrow> 'd" where
  "modify8 b r f d = (let (v, d) = rtw_read8 b r d in rtw_write8 b r (f v) d)"

text \<open>Toggling 0x04[3] before the one retry that chips with \<open>bHWICSupport\<close> get.\<close>

definition poll_toggle :: "chip \<Rightarrow> 'd bus \<Rightarrow> 'd \<Rightarrow> 'd" where
  "poll_toggle ch b d =
     (let d = (if ch_8723de ch then modify8 b 0x40 (\<lambda>v. v AND NOT 0x08) d else d);
          d = modify8 b 0x04 (\<lambda>v. v OR 0x08) d;
          d = modify8 b 0x04 (\<lambda>v. v AND NOT 0x08) d
      in if ch_8723de ch then modify8 b 0x40 (\<lambda>v. v OR 0x08) d else d)"

definition maxPollingCnt :: "chip \<Rightarrow> pwr_cfg \<Rightarrow> nat" where
  "maxPollingCnt ch c = (if ch_hwic ch \<and> pc_offset c = 0x06 then 100000 else 5000)"

text \<open>
  The polling loop: whether the bits were seen, the poll count and the chip. The count is not reset for
  a command; \<open>flag\<close> says that the retry was used.
\<close>

function pwr_poll :: "chip \<Rightarrow> 'd bus \<Rightarrow> pwr_cfg \<Rightarrow> bool \<Rightarrow> nat \<Rightarrow> 'd \<Rightarrow> bool \<times> nat \<times> 'd" where
  "pwr_poll ch b c flag count d =
     (let (v, d) = cfg_read b c d;
          bPollingBit = (v AND pc_msk c = pc_value c AND pc_msk c);
          d = (if bPollingBit then d else rtw_udelay_os b 10 d)
      in if count > maxPollingCnt ch c
         then if ch_hwic ch \<and> pc_offset c = 0x06 \<and> \<not> flag
              then let d = poll_toggle ch b d
                   in if bPollingBit then (True, 0, d) else pwr_poll ch b c True 0 d
              else (False, Suc count, d)
         else if bPollingBit then (True, Suc count, d) else pwr_poll ch b c flag (Suc count) d)"
  by pat_completeness auto

termination
  by (relation "measures [\<lambda>(ch, b, c, flag, count, d). if flag then 0 else 1,
      \<lambda>(ch, b, c, flag, count, d). Suc (maxPollingCnt ch c) - count]") auto

declare pwr_poll.simps [simp del]

definition cfg_delay :: "pwr_cfg \<Rightarrow> nat" where
  "cfg_delay c = (if pc_value c = PWRSEQ_DELAY_US then unat (pc_offset c) else unat (pc_offset c) * 1000)"

text \<open>\<open>None\<close> stands for a walk that leaves the table.\<close>

fun pwr_seq :: "chip \<Rightarrow> 'd bus \<Rightarrow> u8 \<Rightarrow> u8 \<Rightarrow> u8 \<Rightarrow> pwr_cfg list \<Rightarrow> nat \<Rightarrow> 'd \<Rightarrow> (bool \<times> 'd) option" where
  "pwr_seq ch b cutv fab intf [] count d = None"
| "pwr_seq ch b cutv fab intf (c # cs) count d =
     (if \<not> cfg_matches cutv fab intf c then pwr_seq ch b cutv fab intf cs count d
      else if pc_cmd c = PWR_CMD_WRITE then pwr_seq ch b cutv fab intf cs count (pwr_cmd_write b c d)
      else if pc_cmd c = PWR_CMD_POLLING then
        (case pwr_poll ch b c False count d of
           (True, count, d) \<Rightarrow> pwr_seq ch b cutv fab intf cs count d
         | (False, _, d) \<Rightarrow> Some (False, d))
      else if pc_cmd c = PWR_CMD_DELAY then
        pwr_seq ch b cutv fab intf cs count (rtw_udelay_os b (cfg_delay c) d)
      else if pc_cmd c = PWR_CMD_END then Some (True, d)
      else pwr_seq ch b cutv fab intf cs count d)"

definition HalPwrSeqCmdParsing :: "chip \<Rightarrow> 'd bus \<Rightarrow> u8 \<Rightarrow> u8 \<Rightarrow> u8 \<Rightarrow> pwr_cfg list \<Rightarrow> 'd \<Rightarrow> (bool \<times> 'd) option" where
  "HalPwrSeqCmdParsing ch b cutv fab intf cmds d = pwr_seq ch b cutv fab intf cmds 0 d"

section \<open>Powering the card\<close>

text \<open>
  \<open>bMacPwrCtrlOn\<close> (HW_VAR_APFM_ON_MAC) says whether the card is on, \<open>bFWReady\<close> whether its firmware runs.
\<close>

record 'd card =
  cd_dev :: 'd
  cd_pwr_on :: bool
  cd_fw_ready :: bool

definition REG_RSV_CTRL :: u32 where "REG_RSV_CTRL = 0x1C"
definition REG_TX_RPT_CTRL :: u32 where "REG_TX_RPT_CTRL = 0x4EC"
definition REG_CR :: u32 where "REG_CR = 0x100"
definition GPIO_IN :: u32 where "GPIO_IN = 0x44"
definition GPIO_OUT :: u32 where "GPIO_OUT = 0x45"
definition GPIO_IO_SEL :: u32 where "GPIO_IO_SEL = 0x46"
definition REG_GPIO_IO_SEL :: u32 where "REG_GPIO_IO_SEL = 0x42"
definition REG_MCUFWDL :: u32 where "REG_MCUFWDL = 0x80"
definition REG_SYS_FUNC_EN :: u32 where "REG_SYS_FUNC_EN = 0x02"

definition CardEnable :: "chip \<Rightarrow> 'd bus \<Rightarrow> 'd card \<Rightarrow> (rtw_res \<times> 'd card) option" where
  "CardEnable ch b s =
     (if \<not> cd_pwr_on s then
        let d = rtw_write8 b REG_RSV_CTRL 0 (cd_dev s)
        in do { (ok, d) \<leftarrow> HalPwrSeqCmdParsing ch b PWR_CUT_ALL_MSK PWR_FAB_ALL_MSK PWR_INTF_SDIO_MSK
                  rtl8188E_card_enable_flow d;
                Some (if ok then (RTW_SUCCESS, s\<lparr>cd_dev := d, cd_pwr_on := True\<rparr>)
                      else (RTW_FAIL, s\<lparr>cd_dev := d\<rparr>)) }
      else Some (RTW_SUCCESS, s))"

definition poweroff_gpio :: "'d bus \<Rightarrow> 'd \<Rightarrow> 'd" where
  "poweroff_gpio b d =
     (let d = modify8 b REG_TX_RPT_CTRL (\<lambda>v. v AND NOT 2) d;
          d = rtw_write8 b REG_CR 0 d;
          (v, d) = rtw_read8 b GPIO_IN d;
          d = rtw_write8 b GPIO_OUT v d;
          d = rtw_write8 b GPIO_IO_SEL 0xFF d;
          d = modify8 b REG_GPIO_IO_SEL (\<lambda>v. push_bit 4 v OR v) d
      in modify8 b (REG_GPIO_IO_SEL + 1) (\<lambda>v. v OR 0x0F) d)"

definition poweroff_mcu :: "'d bus \<Rightarrow> bool \<Rightarrow> 'd \<Rightarrow> 'd" where
  "poweroff_mcu b fw_ready d =
     (let (v, d) = rtw_read8 b REG_MCUFWDL d;
          d = (if v AND 0x80 \<noteq> 0 \<and> fw_ready then modify8 b (REG_SYS_FUNC_EN + 1) (\<lambda>v. v AND NOT 4) d else d)
      in rtw_write8 b REG_MCUFWDL 0 d)"

definition hal_poweroff_8188es :: "chip \<Rightarrow> 'd bus \<Rightarrow> 'd card \<Rightarrow> 'd card option" where
  "hal_poweroff_8188es ch b s =
     (if \<not> cd_pwr_on s then Some s
      else do { (_, d) \<leftarrow> HalPwrSeqCmdParsing ch b PWR_CUT_ALL_MSK PWR_FAB_ALL_MSK PWR_INTF_SDIO_MSK
                  rtl8188E_enter_lps_flow (poweroff_gpio b (cd_dev s));
                (_, d) \<leftarrow> HalPwrSeqCmdParsing ch b PWR_CUT_ALL_MSK PWR_FAB_ALL_MSK PWR_INTF_SDIO_MSK
                  rtl8188E_card_disable_flow (poweroff_mcu b (cd_fw_ready s) d);
                Some (s\<lparr>cd_dev := rtw_write8 b REG_RSV_CTRL 0x0E d, cd_fw_ready := False, cd_pwr_on := False\<rparr>) })"

section \<open>The walk\<close>

text \<open>Commands for other interfaces, cuts and fabs have no effect.\<close>

lemma pwr_seq_filter:
  "pwr_seq ch b cutv fab intf cmds count d = pwr_seq ch b cutv fab intf (filter (cfg_matches cutv fab intf) cmds) count d"
  by (induction cmds arbitrary: count d) (auto split: prod.split bool.split)

definition has_end :: "u8 \<Rightarrow> u8 \<Rightarrow> u8 \<Rightarrow> pwr_cfg list \<Rightarrow> bool" where
  "has_end cutv fab intf cmds \<longleftrightarrow> (\<exists>c \<in> set cmds. cfg_matches cutv fab intf c \<and> pc_cmd c = PWR_CMD_END)"

lemma pwr_seq_returns:
  "has_end cutv fab intf cmds \<Longrightarrow> \<exists>r. pwr_seq ch b cutv fab intf cmds count d = Some r"
proof (induction cmds arbitrary: count d)
  case (Cons c cs)
  show ?case
  proof (cases "cfg_matches cutv fab intf c \<and> pc_cmd c = PWR_CMD_END")
    case False
    then have "has_end cutv fab intf cs" using Cons.prems by (auto simp: has_end_def)
    with Cons.IH show ?thesis by (auto split: prod.split bool.split)
  qed (auto simp: pwr_consts)
qed (simp add: has_end_def)

lemma flows_end:
  assumes "fab AND 0xF \<noteq> 0" "cutv \<noteq> 0" "intf AND 0xF \<noteq> 0"
  shows "\<forall>flow \<in> {rtl8188E_power_on_flow, rtl8188E_radio_off_flow, rtl8188E_card_disable_flow,
      rtl8188E_card_enable_flow, rtl8188E_suspend_flow, rtl8188E_resume_flow, rtl8188E_hwpdn_flow,
      rtl8188E_enter_lps_flow, rtl8188E_leave_lps_flow}. has_end cutv fab intf flow"
proof -
  have "(0xFF :: u8) = -1" by simp
  then have "cutv AND 0xFF = cutv" by (simp only: and.right_neutral)
  then have "\<exists>c \<in> set TRANS_END. cfg_matches cutv fab intf c \<and> pc_cmd c = PWR_CMD_END"
    using assms by (simp add: TRANS_END_def cfg_def cfg_matches_def pwr_consts and.commute)
  then show ?thesis
    by (auto simp: has_end_def rtl8188E_power_on_flow_def rtl8188E_radio_off_flow_def rtl8188E_card_disable_flow_def
      rtl8188E_card_enable_flow_def rtl8188E_suspend_flow_def rtl8188E_resume_flow_def rtl8188E_hwpdn_flow_def
      rtl8188E_enter_lps_flow_def rtl8188E_leave_lps_flow_def)
qed

section \<open>Polls and time\<close>

text \<open>
  The count is shared by all polling commands of a sequence. A command that starts with a spent count
  fails although its bits are seen at once.
\<close>

lemma pwr_poll_spent:
  "maxPollingCnt ch c < count \<Longrightarrow> \<not> ch_hwic ch \<Longrightarrow> \<exists>d'. pwr_poll ch b c flag count d = (False, Suc count, d')"
  by (subst pwr_poll.simps) (auto simp: Let_def split: prod.split)

locale timed_bus =
  fixes b :: "'d bus" and elapsed :: "'d \<Rightarrow> nat"
  assumes delay: "elapsed (rtw_udelay_os b n d) = elapsed d + n"
    and read8: "elapsed (snd (rtw_read8 b r d)) = elapsed d"
    and write8: "elapsed (rtw_write8 b r v d) = elapsed d"
    and sdio_read: "elapsed (snd (SdioLocalCmd52Read1Byte b r d)) = elapsed d"
    and sdio_write: "elapsed (SdioLocalCmd52Write1Byte b r v d) = elapsed d"
begin

lemma read_elapsed: "cfg_read b c d = (v, d') \<Longrightarrow> elapsed d' = elapsed d"
  using read8 sdio_read by (auto simp: cfg_read_def split: if_splits dest: arg_cong [where f = snd]) (metis snd_conv)+

lemma write_elapsed: "elapsed (pwr_cmd_write b c d) = elapsed d"
  by (auto simp: pwr_cmd_write_def cfg_write_def write8 sdio_write read_elapsed split: prod.split)

lemma poll_elapsed:
  assumes "\<not> ch_hwic ch" "pwr_poll ch b c flag count d = (ok, count', d')"
  shows "elapsed d' + 10 * count \<le> elapsed d + 10 * count' \<and> count < count' \<and>
    count' \<le> max (Suc count) 5002 \<and> (ok \<longrightarrow> count' \<le> 5001)"
  using assms(2)
proof (induction "5001 - count" arbitrary: count d)
  case 0
  then show ?case using assms(1) read_elapsed delay
    by (subst (asm) pwr_poll.simps) (auto simp: maxPollingCnt_def Let_def split: prod.splits if_splits)
next
  case (Suc n)
  from Suc.hyps(2) have lt: "count < 5001" "n = 5001 - Suc count" by simp_all
  obtain v e where r: "cfg_read b c d = (v, e)" by (cases "cfg_read b c d")
  have e: "elapsed e = elapsed d" by (rule read_elapsed [OF r])
  show ?case
  proof (cases "v AND pc_msk c = pc_value c AND pc_msk c")
    case True
    then show ?thesis using Suc.prems assms(1) lt r e
      by (subst (asm) pwr_poll.simps) (auto simp: maxPollingCnt_def Let_def)
  next
    case False
    then have "pwr_poll ch b c flag (Suc count) (rtw_udelay_os b 10 e) = (ok, count', d')"
      using Suc.prems assms(1) lt r by (subst (asm) pwr_poll.simps) (auto simp: maxPollingCnt_def Let_def)
    from Suc.hyps(1) [OF lt(2) this] e lt show ?thesis by (auto simp: delay)
  qed
qed

end

definition total_delay :: "u8 \<Rightarrow> u8 \<Rightarrow> u8 \<Rightarrow> pwr_cfg list \<Rightarrow> nat" where
  "total_delay cutv fab intf cmds =
     sum_list (map cfg_delay (filter (\<lambda>c. cfg_matches cutv fab intf c \<and> pc_cmd c = PWR_CMD_DELAY) cmds))"

context timed_bus
begin

lemma seq_elapsed:
  assumes "\<not> ch_hwic ch" "count \<le> 5001" "pwr_seq ch b cutv fab intf cmds count d = Some (ok, d')"
  shows "elapsed d' + 10 * count \<le> elapsed d + 50020 + total_delay cutv fab intf cmds"
  using assms(2,3)
proof (induction cmds arbitrary: count d)
  case (Cons c cs)
  have t: "total_delay cutv fab intf cs \<le> total_delay cutv fab intf (c # cs)"
    by (simp add: total_delay_def)
  consider (skip) "pwr_seq ch b cutv fab intf cs count d = Some (ok, d')"
    | (wr) "pwr_seq ch b cutv fab intf cs count (pwr_cmd_write b c d) = Some (ok, d')"
    | (delay) "pwr_seq ch b cutv fab intf cs count (rtw_udelay_os b (cfg_delay c) d) = Some (ok, d')"
        "cfg_matches cutv fab intf c" "pc_cmd c = PWR_CMD_DELAY"
    | (poll) k e where "pwr_poll ch b c False count d = (True, k, e)"
        "pwr_seq ch b cutv fab intf cs k e = Some (ok, d')"
    | (fail) k where "pwr_poll ch b c False count d = (False, k, d')"
    | (stop) "d' = d"
    using Cons.prems(2) by (auto split: if_splits prod.splits bool.splits)
  then show ?case
  proof cases
    case skip
    from Cons.IH [OF Cons.prems(1) skip] t show ?thesis by simp
  next
    case wr
    from Cons.IH [OF Cons.prems(1) wr] t show ?thesis by (simp add: write_elapsed)
  next
    case delay
    from Cons.IH [OF Cons.prems(1) delay(1)] delay(2,3) show ?thesis
      by (simp add: timed_bus_axioms timed_bus.delay [OF timed_bus_axioms] total_delay_def)
  next
    case (poll k e)
    from poll_elapsed [OF assms(1) poll(1)] have k: "k \<le> 5001" "elapsed e + 10 * count \<le> elapsed d + 10 * k" by auto
    from Cons.IH [OF k(1) poll(2)] k(2) t show ?thesis by simp
  next
    case (fail k)
    from poll_elapsed [OF assms(1) fail] Cons.prems(1) show ?thesis by auto
  next
    case stop
    then show ?thesis using Cons.prems(1) by simp
  qed
qed simp

end

text \<open>Any chip with a clock of its delays.\<close>

definition clocked :: "'d bus \<Rightarrow> ('d \<times> nat) bus" where
  "clocked b =
     \<lparr>rtw_read8 = \<lambda>r (d, n). (let (v, d) = rtw_read8 b r d in (v, (d, n))),
      rtw_write8 = \<lambda>r v (d, n). (rtw_write8 b r v d, n),
      SdioLocalCmd52Read1Byte = \<lambda>r (d, n). (let (v, d) = SdioLocalCmd52Read1Byte b r d in (v, (d, n))),
      SdioLocalCmd52Write1Byte = \<lambda>r v (d, n). (SdioLocalCmd52Write1Byte b r v d, n),
      rtw_udelay_os = \<lambda>us (d, n). (rtw_udelay_os b us d, n + us)\<rparr>"

interpretation clocked: timed_bus "clocked b" snd for b :: "'d bus"
  by unfold_locales (auto simp: clocked_def split: prod.split)

text \<open>The clock does not change what happens.\<close>

lemma clocked_read: "cfg_read (clocked b) c (d, n) = (case cfg_read b c d of (v, d') \<Rightarrow> (v, (d', n)))"
  by (simp add: cfg_read_def clocked_def Let_def)

lemma clocked_write: "pwr_cmd_write (clocked b) c (d, n) = (pwr_cmd_write b c d, n)"
  by (simp add: pwr_cmd_write_def clocked_read cfg_write_def Let_def split: prod.split) (simp add: clocked_def)

lemma clocked_delay: "rtw_udelay_os (clocked b) us (d, n) = (rtw_udelay_os b us d, n + us)"
  by (simp add: clocked_def)

lemma clocked_modify: "modify8 (clocked b) r f (d, n) = (modify8 b r f d, n)"
  by (simp add: modify8_def clocked_def Let_def split: prod.split)

lemma clocked_toggle: "poll_toggle ch (clocked b) (d, n) = (poll_toggle ch b d, n)"
  by (simp add: poll_toggle_def Let_def clocked_modify)

lemma clocked_poll:
  "\<exists>n'. pwr_poll ch (clocked b) c flag count (d, n) =
     (case pwr_poll ch b c flag count d of (ok, k, d') \<Rightarrow> (ok, k, (d', n')))"
proof (induction ch b c flag count d arbitrary: n rule: pwr_poll.induct)
  case (1 ch b c flag count d)
  obtain v e where r: "cfg_read b c d = (v, e)" by (cases "cfg_read b c d")
  show ?case
    using "1.IH" r
    by (subst pwr_poll.simps, subst (2) pwr_poll.simps)
      (auto simp: clocked_read clocked_toggle clocked_delay Let_def)
qed

lemma clocked_seq:
  "\<exists>n'. pwr_seq ch (clocked b) cutv fab intf cmds count (d, n) =
     map_option (\<lambda>(ok, d'). (ok, (d', n'))) (pwr_seq ch b cutv fab intf cmds count d)"
proof (induction cmds arbitrary: count d n)
  case (Cons c cs)
  obtain n' where p: "pwr_poll ch (clocked b) c False count (d, n) =
      (case pwr_poll ch b c False count d of (ok, k, d') \<Rightarrow> (ok, k, (d', n')))"
    by (rule exE [OF clocked_poll])
  show ?case
    using Cons.IH by (auto simp: p clocked_write clocked_delay split: prod.split bool.split)
qed simp

text \<open>C37: a power sequence whose table ends in a command for the interface, whatever the chip
  answers, comes to an end inside the table; the delays of its polling commands together are at most
  5002 times ten microseconds, so with those the table asks for it takes a bounded time.\<close>

theorem pwr_seq_bounded:
  assumes "has_end cutv fab intf cmds" and "\<not> ch_hwic ch"
  shows "\<exists>ok d' n. HalPwrSeqCmdParsing ch b cutv fab intf cmds d = Some (ok, d') \<and>
    HalPwrSeqCmdParsing ch (clocked b) cutv fab intf cmds (d, 0) = Some (ok, (d', n)) \<and>
    n \<le> 50020 + total_delay cutv fab intf cmds"
proof -
  obtain ok d' where r: "HalPwrSeqCmdParsing ch b cutv fab intf cmds d = Some (ok, d')"
    unfolding HalPwrSeqCmdParsing_def using pwr_seq_returns [OF assms(1), of ch b 0 d] by force
  with clocked_seq obtain n where c: "HalPwrSeqCmdParsing ch (clocked b) cutv fab intf cmds (d, 0) = Some (ok, (d', n))"
    unfolding HalPwrSeqCmdParsing_def by (metis (mono_tags, lifting) case_prod_conv option.map(2))
  from clocked.seq_elapsed [OF assms(2) _ c [unfolded HalPwrSeqCmdParsing_def]] r c show ?thesis by auto
qed

text \<open>A chip of 64 KB of registers that store what is written.\<close>

definition memory_bus :: "(u32 \<Rightarrow> u8) bus" where
  "memory_bus =
     \<lparr>rtw_read8 = \<lambda>r d. (d r, d), rtw_write8 = \<lambda>r v d. d(r := v),
      SdioLocalCmd52Read1Byte = \<lambda>r d. (d (r + 0x10000), d), SdioLocalCmd52Write1Byte = \<lambda>r v d. d(r + 0x10000 := v),
      rtw_udelay_os = \<lambda>_ d. d\<rparr>"

theorem pwr_seq_bounded_witness:
  "\<exists>ok d' n. HalPwrSeqCmdParsing \<lparr>ch_hwic = False, ch_8723de = False\<rparr> (clocked memory_bus) 0xFF 0xF 1
     rtl8188E_enter_lps_flow ((\<lambda>_. 0), 0) = Some (ok, (d', n)) \<and> n \<le> 50022"
proof -
  have "has_end 0xFF 0xF 1 rtl8188E_enter_lps_flow" using flows_end [of "0xF" "0xFF" 1] by simp
  moreover have "total_delay 0xFF 0xF 1 rtl8188E_enter_lps_flow = 2" by code_simp
  ultimately show ?thesis
    using pwr_seq_bounded [where ch = "\<lparr>ch_hwic = False, ch_8723de = False\<rparr>" and b = memory_bus and d = "\<lambda>_. 0"]
    by fastforce
qed

end
