(* ===== verification/Efuse.thy ===== *)
theory Efuse
  imports Prelude
begin

text \<open>
  The logical map in the one-time programmable memory of the chip. The memory holds packets: a header of
  one or two bytes with a section number and four word-enable bits (a clear bit enables a word), and
  the enabled words. This theory has the two decoders of hal/rtl8188e/rtl8188e_hal_init.c
  (\<open>Hal_EfuseReadEFuse88E\<close>, \<open>efuse_phymap_to_logical\<close>), over a memory \<open>cell\<close> that gives the byte at
  an address, and the packet format they read. The counters of used bytes that are only printed are
  left out.
\<close>

section \<open>Constants\<close>

definition EFUSE_REAL_CONTENT_LEN_88E :: nat where "EFUSE_REAL_CONTENT_LEN_88E = 256"
definition EFUSE_MAP_LEN_88E :: nat where "EFUSE_MAP_LEN_88E = 512"
definition EFUSE_MAX_SECTION_88E :: nat where "EFUSE_MAX_SECTION_88E = 64"
definition EFUSE_MAX_WORD_UNIT :: nat where "EFUSE_MAX_WORD_UNIT = 4"
definition EFUSE_MAX_SECTION_BASE :: nat where "EFUSE_MAX_SECTION_BASE = 16"

lemmas efuse_consts = EFUSE_REAL_CONTENT_LEN_88E_def EFUSE_MAP_LEN_88E_def EFUSE_MAX_SECTION_88E_def
  EFUSE_MAX_WORD_UNIT_def EFUSE_MAX_SECTION_BASE_def

section \<open>The decoders\<close>

type_synonym efuse_words = "nat \<Rightarrow> nat \<Rightarrow> u16"

definition set_word :: "nat \<Rightarrow> nat \<Rightarrow> u16 \<Rightarrow> efuse_words \<Rightarrow> efuse_words" where
  "set_word off i w W = W(off := (W off)(i := w))"

text \<open>The words of a section, for the word numbers left.\<close>

fun sec_words :: "(nat \<Rightarrow> u8) \<Rightarrow> nat \<Rightarrow> nat list \<Rightarrow> u8 \<Rightarrow> nat \<Rightarrow> efuse_words \<Rightarrow> nat \<times> efuse_words" where
  "sec_words cell off [] wren addr W = (addr, W)"
| "sec_words cell off (i # is) wren addr W =
     (if wren AND 1 = 0 then
        let W = set_word off i (ucast (cell addr)) W; addr = addr + 1
        in if addr \<ge> EFUSE_REAL_CONTENT_LEN_88E then (addr, W)
           else let W = set_word off i (W off i OR (push_bit 8 (ucast (cell addr)) AND 0xff00)) W; addr = addr + 1
                in if addr \<ge> EFUSE_REAL_CONTENT_LEN_88E then (addr, W)
                   else sec_words cell off is (drop_bit 1 wren) addr W
      else sec_words cell off is (drop_bit 1 wren) addr W)"

text \<open>
  What \<open>Hal_EfuseReadEFuse88E\<close> does with a section that does not exist (\<open>wren\<close> is not shifted);
  \<open>efuse_phymap_to_logical\<close> does nothing. The flag \<open>skip\<close> tells the two apart.
\<close>

fun skip_words :: "nat list \<Rightarrow> u8 \<Rightarrow> nat \<Rightarrow> nat" where
  "skip_words [] wren addr = addr"
| "skip_words (i # is) wren addr =
     (if wren AND 1 = 0 then
        if addr + 1 \<ge> EFUSE_REAL_CONTENT_LEN_88E then addr + 1
        else if addr + 2 \<ge> EFUSE_REAL_CONTENT_LEN_88E then addr + 2
        else skip_words is wren (addr + 2)
      else skip_words is wren addr)"

definition section_data :: "bool \<Rightarrow> (nat \<Rightarrow> u8) \<Rightarrow> u8 \<Rightarrow> u8 \<Rightarrow> nat \<Rightarrow> efuse_words \<Rightarrow> nat \<times> efuse_words" where
  "section_data skip cell offset wren addr W =
     (if unat offset < EFUSE_MAX_SECTION_88E
      then sec_words cell (unat offset) [0..<EFUSE_MAX_WORD_UNIT] wren addr W
      else (if skip then skip_words [0..<EFUSE_MAX_WORD_UNIT] wren addr else addr, W))"

definition next_addr :: "u8 \<Rightarrow> nat \<Rightarrow> nat" where
  "next_addr rtemp8 addr = (if rtemp8 \<noteq> 0xFF \<and> addr < EFUSE_REAL_CONTENT_LEN_88E then addr + 1 else addr)"

lemma skip_words_mono: "addr \<le> skip_words is wren addr"
  by (induction "is" wren addr rule: skip_words.induct) auto

lemma sec_words_mono: "addr \<le> fst (sec_words cell off is wren addr W)"
proof (induction "is" arbitrary: wren addr W)
  case (Cons i "is")
  show ?case using Cons.IH [of "addr + 2"] Cons.IH [of addr]
    by (auto simp: Let_def intro: order_trans [OF _ Cons.IH])
qed simp

lemma section_data_mono: "(addr', W') = section_data skip cell offset wren addr W \<Longrightarrow> addr \<le> addr'"
  using sec_words_mono [of addr cell "unat offset" "[0..<EFUSE_MAX_WORD_UNIT]" wren W] skip_words_mono
  by (auto simp: section_data_def split: if_splits dest: arg_cong [where f = fst])

text \<open>
  The loop over the packets: \<open>rtemp8\<close> is the first byte of a header, \<open>addr\<close> the address behind it.
  An extended header whose words are all disabled has no data.
\<close>

function efuse_loop :: "bool \<Rightarrow> (nat \<Rightarrow> u8) \<Rightarrow> u8 \<Rightarrow> nat \<Rightarrow> efuse_words \<Rightarrow> nat \<times> efuse_words" where
  "efuse_loop skip cell rtemp8 addr W =
     (if rtemp8 = 0xFF \<or> addr \<ge> EFUSE_REAL_CONTENT_LEN_88E then (addr, W)
      else if rtemp8 AND 0x1F = 0x0F then
        if cell addr AND 0x0F = 0x0F
        then efuse_loop skip cell (cell (addr + 1)) (next_addr (cell (addr + 1)) (addr + 1)) W
        else let offset = drop_bit 1 (cell addr AND 0xF0) OR drop_bit 5 (rtemp8 AND 0xE0);
                 (addr', W) = section_data skip cell offset (cell addr AND 0x0F) (addr + 1) W
             in efuse_loop skip cell (cell addr') (next_addr (cell addr') addr') W
      else let offset = drop_bit 4 rtemp8 AND 0x0F;
               (addr', W) = section_data skip cell offset (rtemp8 AND 0x0F) addr W
           in efuse_loop skip cell (cell addr') (next_addr (cell addr') addr') W)"
  by pat_completeness auto

termination
  by (relation "measure (\<lambda>(skip, cell, r, addr, W). if r = 0xFF \<or> addr \<ge> 256 then 0 else 257 - addr)")
    (auto simp: next_addr_def efuse_consts dest: section_data_mono)

declare efuse_loop.simps [simp del]

definition efuseTbl :: "efuse_words \<Rightarrow> bytes" where
  "efuseTbl W = concat (map (\<lambda>i. concat (map (\<lambda>j. [ucast (W i j), ucast (drop_bit 8 (W i j))])
     [0..<EFUSE_MAX_WORD_UNIT])) [0..<EFUSE_MAX_SECTION_88E])"

text \<open>The buffer after the call and, when the map was read, the number of bytes in use.\<close>

definition Hal_EfuseReadEFuse88E :: "(nat \<Rightarrow> u8) \<Rightarrow> nat \<Rightarrow> nat \<Rightarrow> bytes \<Rightarrow> bytes \<times> nat option" where
  "Hal_EfuseReadEFuse88E cell offset size_byte pbuf =
     (if offset + size_byte > EFUSE_MAP_LEN_88E then (pbuf, None)
      else if cell 0 = 0xFF then (pbuf, None)
      else let (addr, W) = efuse_loop True cell (cell 0) 1 (\<lambda>_ _. 0xFFFF)
           in (take size_byte (drop offset (efuseTbl W)) @ drop size_byte pbuf, Some addr))"

definition efuse_phymap_to_logical :: "bytes \<Rightarrow> nat \<Rightarrow> nat \<Rightarrow> bytes \<Rightarrow> bytes" where
  "efuse_phymap_to_logical phymap offset size_byte pbuf =
     (if phymap ! 0 = 0xFF then pbuf
      else let (addr, W) = efuse_loop False (\<lambda>a. phymap ! a) (phymap ! 0) 1 (\<lambda>_ _. 0xFFFF)
           in take size_byte (drop offset (efuseTbl W)) @ drop size_byte pbuf)"

text \<open>
  With the offload to the firmware (IOL) the firmware reads the memory and leaves its length, two bytes more than the content,
  and the content in the buffer of the chip, which is read in words of eight bytes. \<open>mem\<close> is that buffer from the beacon head
  on; the polling of the debug port and its registers are left out.
\<close>

definition phymap_copy :: "(nat \<Rightarrow> u8) \<Rightarrow> nat \<Rightarrow> nat \<Rightarrow> nat \<Rightarrow> bytes \<times> nat \<Rightarrow> bytes \<times> nat" where
  "phymap_copy mem a k limit = (\<lambda>(content, count).
     let cp_cnt = (if limit \<ge> count + k then k else limit - count)
     in (take count content @ map mem [a..<a + cp_cnt] @ drop (count + cp_cnt) content, count + cp_cnt))"

text \<open>One word: \<open>k\<close> bytes of the low half from address \<open>a\<close> on, and the high half when there is more.\<close>

definition phymap_word :: "(nat \<Rightarrow> u8) \<Rightarrow> nat \<Rightarrow> nat \<Rightarrow> nat \<Rightarrow> nat \<Rightarrow> nat \<Rightarrow> bytes \<times> nat \<Rightarrow> bytes \<times> nat" where
  "phymap_word mem i a k limit len cc =
     (let cc = phymap_copy mem a k limit cc
      in if limit > snd cc \<and> int len - 2 > int (snd cc) then phymap_copy mem (8 * i + 4) 4 limit cc else cc)"

lemma phymap_word_mono: "limit > snd cc \<Longrightarrow> 0 < k \<Longrightarrow> snd cc < snd (phymap_word mem i a k limit len cc)"
  by (cases cc) (auto simp: phymap_word_def phymap_copy_def Let_def)

function phymap_loop :: "(nat \<Rightarrow> u8) \<Rightarrow> nat \<Rightarrow> nat \<Rightarrow> nat \<Rightarrow> bytes \<times> nat \<Rightarrow> bytes \<times> nat" where
  "phymap_loop mem i limit len cc =
     (if limit \<le> snd cc \<or> int len - 2 \<le> int (snd cc) then cc
      else phymap_loop mem (i + 1) limit len (phymap_word mem (i + 1) (8 * (i + 1)) 4 limit len cc))"
  by pat_completeness auto

termination
  by (relation "measure (\<lambda>(mem, i, limit, len, cc). limit - snd cc)") (auto intro!: diff_less_mono2 phymap_word_mono)

declare phymap_loop.simps [simp del]

definition efuse_read_phymap_from_txpktbuf :: "(nat \<Rightarrow> u8) \<Rightarrow> bytes \<Rightarrow> nat \<Rightarrow> bytes \<times> nat" where
  "efuse_read_phymap_from_txpktbuf mem content max_size =
     (let len = unat (mem 0) + 256 * unat (mem 1);
          limit = (if int len - 2 < int max_size then nat ((int len - 2) mod 65536) else max_size)
      in phymap_loop mem 0 limit len (phymap_word mem 0 2 2 limit len (content, 0)))"

section \<open>Packets\<close>

definition words_of :: "bytes \<Rightarrow> u8 \<Rightarrow> nat list \<Rightarrow> bytes" where
  "words_of data we is = concat (map (\<lambda>i. [data ! (2 * i), data ! (2 * i + 1)]) (filter (\<lambda>i. \<not> bit we i) is))"

definition pkt_header :: "u8 \<Rightarrow> u8 \<Rightarrow> bytes" where
  "pkt_header off we =
     (if unat off < EFUSE_MAX_SECTION_BASE then [push_bit 4 off OR we]
      else [push_bit 5 (off AND 7) OR 0x0F, push_bit 1 (off AND 0x78) OR we])"

type_synonym packet = "u8 \<times> u8 \<times> bytes"

fun pkt_bytes :: "packet \<Rightarrow> bytes" where
  "pkt_bytes (off, we, data) = pkt_header off we @ words_of data we [0..<4]"

fun pkt_ok :: "packet \<Rightarrow> bool" where
  "pkt_ok (off, we, data) \<longleftrightarrow> unat off < 64 \<and> unat we < 15 \<and> length data = 8"

definition data_word :: "bytes \<Rightarrow> nat \<Rightarrow> u16" where
  "data_word data i = ucast (data ! (2 * i)) OR push_bit 8 (ucast (data ! (2 * i + 1)))"

fun pkt_apply :: "packet \<Rightarrow> efuse_words \<Rightarrow> efuse_words" where
  "pkt_apply (off, we, data) W = (\<lambda>o' i. if o' = unat off \<and> i < 4 \<and> \<not> bit we i then data_word data i else W o' i)"

lemma nibble: "unat (we :: u8) < 15 \<Longrightarrow> take_bit 4 we = we" "unat (we :: u8) < 15 \<Longrightarrow> we \<noteq> 0x0F"
  by (auto simp: word_unat_eq_iff unsigned_take_bit_eq take_bit_nat_eq_self)

lemma low_bits:
  assumes "unat (w :: u8) < 2 ^ n" "n \<le> k" "k < 8"
  shows "\<not> bit w k"
proof -
  have "take_bit n w = w" using assms by (simp add: word_unat_eq_iff unsigned_take_bit_eq take_bit_nat_eq_self)
  then show ?thesis using assms(2) by (metis bit_take_bit_iff not_le)
qed

lemma header1:
  assumes "unat (off :: u8) < 16" "unat (we :: u8) < 15"
  shows "(push_bit 4 off OR we) AND 0x0F = we" "drop_bit 4 (push_bit 4 off OR we) AND 0x0F = off"
    "(push_bit 4 off OR we) \<noteq> 0xFF" "(push_bit 4 off OR we) AND 0x1F \<noteq> 0x0F"
proof -
  have b: "\<not> bit off n" "\<not> bit we n" if "4 \<le> n" "n < 8" for n
    using low_bits [of _ 4 n] assms that by auto
  show l: "(push_bit 4 off OR we) AND 0x0F = we"
    by (rule bit_word_eqI) (use b in \<open>auto simp: bit_simps dest!: less_8_cases\<close>)
  show "drop_bit 4 (push_bit 4 off OR we) AND 0x0F = off"
    by (rule bit_word_eqI) (use b in \<open>auto simp: bit_simps dest!: less_8_cases\<close>)
  have "((push_bit 4 off OR we) AND 0x1F) AND 0x0F = we" using l by (simp add: and.assoc)
  then show "(push_bit 4 off OR we) AND 0x1F \<noteq> 0x0F" using nibble(2) [OF assms(2)] by auto
  show "(push_bit 4 off OR we) \<noteq> 0xFF" using l nibble(2) [OF assms(2)] by auto
qed

lemma header2:
  assumes "unat (off :: u8) < 64" "unat (we :: u8) < 15"
  shows "(push_bit 5 (off AND 7) OR 0x0F) AND 0x1F = 0x0F" "push_bit 5 (off AND 7) OR 0x0F \<noteq> 0xFF"
    "(push_bit 1 (off AND 0x78) OR we) AND 0x0F = we"
    "drop_bit 1 ((push_bit 1 (off AND 0x78) OR we) AND 0xF0) OR drop_bit 5 ((push_bit 5 (off AND 7) OR 0x0F) AND 0xE0) = off"
proof -
  have b: "\<not> bit we n" if "4 \<le> n" "n < 8" for n
    using low_bits [of _ 4 n] assms that by auto
  have o7: "\<not> bit off 7" using low_bits [of off 6 7] assms by simp
  show l: "(push_bit 5 (off AND 7) OR 0x0F) AND 0x1F = 0x0F"
    by (rule bit_word_eqI) (auto simp: bit_simps dest!: less_8_cases)
  then show "push_bit 5 (off AND 7) OR 0x0F \<noteq> 0xFF" by auto
  show "(push_bit 1 (off AND 0x78) OR we) AND 0x0F = we"
    by (rule bit_word_eqI) (use b in \<open>auto simp: bit_simps dest!: less_8_cases\<close>)
  show "drop_bit 1 ((push_bit 1 (off AND 0x78) OR we) AND 0xF0) OR drop_bit 5 ((push_bit 5 (off AND 7) OR 0x0F) AND 0xE0) = off"
    by (rule bit_word_eqI) (use b o7 in \<open>auto simp: bit_simps dest!: less_8_cases\<close>)
qed

section \<open>Reading packets\<close>

definition at :: "(nat \<Rightarrow> u8) \<Rightarrow> nat \<Rightarrow> bytes \<Rightarrow> bool" where
  "at cell a bs \<longleftrightarrow> (\<forall>n < length bs. cell (a + n) = bs ! n)"

lemma at_Nil [simp]: "at cell a []"
  by (simp add: at_def)

lemma at_Cons [simp]: "at cell a (b # bs) \<longleftrightarrow> cell a = b \<and> at cell (Suc a) bs"
  by (auto simp: at_def less_Suc_eq_0_disj nth_Cons split: nat.split)

lemma at_append [simp]: "at cell a (xs @ ys) \<longleftrightarrow> at cell a xs \<and> at cell (a + length xs) ys"
  by (induction xs arbitrary: a) auto

lemma word_bit0: "drop_bit k (w :: u8) AND 1 = 0 \<longleftrightarrow> \<not> bit w k"
proof -
  have "drop_bit k w AND 1 = of_bool (bit w k)"
    by (rule bit_word_eqI) (auto simp: bit_simps bit_1_iff)
  then show ?thesis by simp
qed

lemma high_byte: "push_bit 8 (ucast (b :: u8) :: u16) AND 0xff00 = push_bit 8 (ucast b)"
proof -
  have m: "(0xff00 :: u16) = push_bit 8 (mask 8)" by (simp add: mask_eq_exp_minus_1 push_bit_eq_mult)
  have "ucast b AND mask 8 = (ucast b :: u16)" by (rule bit_word_eqI) (simp add: bit_simps; metis bit_beyond(1) not_le)
  then show ?thesis unfolding m push_bit_and [symmetric] by simp
qed

lemma words_of_step:
  "k < 4 \<Longrightarrow> words_of data we [k..<4] =
    (if bit we k then [] else [data ! (2 * k), data ! (2 * k + 1)]) @ words_of data we [Suc k..<4]"
  by (simp add: words_of_def upt_conv_Cons)

lemma sec_words_read:
  assumes "at cell a (words_of data we [k..<4])" "a + length (words_of data we [k..<4]) < 256" "k \<le> 4"
  shows "sec_words cell off [k..<4] (drop_bit k we) a W =
    (a + length (words_of data we [k..<4]),
     \<lambda>o' i. if o' = off \<and> k \<le> i \<and> i < 4 \<and> \<not> bit we i then data_word data i else W o' i)"
  using assms
proof (induction "4 - k" arbitrary: k a W)
  case 0
  then show ?case by (auto simp: words_of_def fun_eq_iff)
next
  case (Suc n)
  then have k: "k < 4" "n = 4 - Suc k" by simp_all
  have d: "drop_bit (Suc 0) (drop_bit k we) = drop_bit (Suc k) we" by (simp add: drop_bit_drop_bit)
  have u: "[k..<4] = k # [Suc k..<4]" using k(1) by (rule upt_conv_Cons)
  show ?case
  proof (cases "bit we k")
    case True
    with Suc.prems k have "at cell a (words_of data we [Suc k..<4])" "a + length (words_of data we [Suc k..<4]) < 256"
      by (simp_all add: words_of_step)
    note IH = Suc.hyps(1) [OF k(2) this Suc_leI [OF k(1)], of W]
    have "sec_words cell off [k..<4] (drop_bit k we) a W = sec_words cell off [Suc k..<4] (drop_bit (Suc k) we) a W"
      using True by (simp add: u word_bit0 d)
    then show ?thesis
      using True by (simp add: IH words_of_step [OF k(1)] fun_eq_iff Suc_le_eq)
  next
    case False
    let ?W = "set_word off k (data_word data k) W"
    from False Suc.prems k have r: "cell a = data ! (2 * k)" "cell (Suc a) = data ! (2 * k + 1)"
      "at cell (a + 2) (words_of data we [Suc k..<4])" "a + 2 + length (words_of data we [Suc k..<4]) < 256"
      by (simp_all add: words_of_step)
    have "sec_words cell off [k..<4] (drop_bit k we) a W = sec_words cell off [Suc k..<4] (drop_bit (Suc k) we) (a + 2) ?W"
      using False r
      by (simp add: u word_bit0 d efuse_consts Let_def set_word_def data_word_def high_byte)
    then show ?thesis using False k(1) Suc.hyps(1) [OF k(2) r(3,4) Suc_leI [OF k(1)], of ?W]
      by (simp add: words_of_step [OF k(1)] set_word_def fun_eq_iff Suc_le_eq)
  qed
qed

lemma loop_packet:
  assumes ok: "pkt_ok p" and a: "at cell a (pkt_bytes p)" and e: "e = a + length (pkt_bytes p)" "e < 256"
  shows "efuse_loop skip cell (cell a) (Suc a) W = efuse_loop skip cell (cell e) (next_addr (cell e) e) (pkt_apply p W)"
proof -
  obtain off we data where p: "p = (off, we, data)" by (cases p)
  let ?ws = "words_of data we [0..<4]"
  have k: "unat off < 64" "unat we < 15" using ok by (simp_all add: p)
  have sec: "section_data skip cell off we b W = (b + length ?ws, pkt_apply p W)"
    if "at cell b ?ws" "b + length ?ws < 256" for b
    using sec_words_read [OF that, of "unat off" W] k
    by (simp add: section_data_def efuse_consts p fun_eq_iff)
  show ?thesis
  proof (cases "unat off < 16")
    case True
    then have h: "cell a = push_bit 4 off OR we" and w: "at cell (Suc a) ?ws" "e = Suc a + length ?ws"
      using a e by (simp_all add: p pkt_header_def efuse_consts)
    note hh = header1 [OF True k(2)]
    show ?thesis using e(2) w hh sec [OF w(1)]
      by (subst efuse_loop.simps) (simp add: h efuse_consts Let_def)
  next
    case False
    then have h: "cell a = push_bit 5 (off AND 7) OR 0x0F" "cell (Suc a) = push_bit 1 (off AND 0x78) OR we"
      and w: "at cell (Suc (Suc a)) ?ws" "e = Suc (Suc a) + length ?ws"
      using a e by (simp_all add: p pkt_header_def efuse_consts)
    note hh = header2 [OF k]
    show ?thesis using e(2) w hh sec [OF w(1)] nibble(2) [OF k(2)]
      by (subst efuse_loop.simps) (simp add: h efuse_consts Let_def)
  qed
qed

lemma pkt_bytes_head:
  assumes "pkt_ok p"
  shows "\<exists>h hs. pkt_bytes p = h # hs \<and> h \<noteq> 0xFF"
  using assms header1(3) header2(2) by (cases p) (auto simp: pkt_header_def efuse_consts)

definition pkts_bytes :: "packet list \<Rightarrow> bytes" where
  "pkts_bytes ps = concat (map pkt_bytes ps)"

lemma pkts_bytes_simps [simp]:
  "pkts_bytes [] = []" "pkts_bytes (p # ps) = pkt_bytes p @ pkts_bytes ps"
  "pkts_bytes (ps @ qs) = pkts_bytes ps @ pkts_bytes qs"
  by (simp_all add: pkts_bytes_def)

lemma loop_stop: "efuse_loop skip cell 0xFF a W = (a, W)" "next_addr 0xFF a = a"
  by (subst efuse_loop.simps) (simp_all add: next_addr_def)

lemma loop_packets:
  assumes "\<forall>p \<in> set (p # ps). pkt_ok p" "at cell a (pkts_bytes (p # ps))"
    "a + length (pkts_bytes (p # ps)) < 256" "cell (a + length (pkts_bytes (p # ps))) = 0xFF"
  shows "efuse_loop skip cell (cell a) (Suc a) W = (a + length (pkts_bytes (p # ps)), fold pkt_apply (p # ps) W)"
  using assms
proof (induction ps arbitrary: p a W)
  case Nil
  let ?e = "a + length (pkt_bytes p)"
  have "cell ?e = 0xFF" using Nil.prems by simp
  moreover have "efuse_loop skip cell (cell a) (Suc a) W = efuse_loop skip cell (cell ?e) (next_addr (cell ?e) ?e) (pkt_apply p W)"
    using Nil.prems by (intro loop_packet) simp_all
  ultimately show ?case by (simp only: loop_stop) simp
next
  case (Cons q ps)
  let ?e = "a + length (pkt_bytes p)"
  have "pkt_ok q" using Cons.prems(1) by simp
  from pkt_bytes_head [OF this] obtain h hs where q: "pkt_bytes q = h # hs" "h \<noteq> 0xFF" by blast
  then have "cell ?e = h" "?e < 256" using Cons.prems(2,3) by simp_all
  then have n: "next_addr (cell ?e) ?e = Suc ?e" using q by (simp add: next_addr_def efuse_consts)
  have "efuse_loop skip cell (cell a) (Suc a) W = efuse_loop skip cell (cell ?e) (Suc ?e) (pkt_apply p W)"
    using Cons.prems n by (subst loop_packet [where p = p and a = a and e = ?e]) simp_all
  also have "\<dots> = (?e + length (pkts_bytes (q # ps)), fold pkt_apply (q # ps) (pkt_apply p W))"
    using Cons.prems by (intro Cons.IH) (simp_all add: add.assoc)
  finally show ?case by (simp add: add.assoc)
qed

text \<open>The map as bytes.\<close>

lemma efuseTbl_length [simp]: "length (efuseTbl W) = 512"
  by (simp add: efuseTbl_def efuse_consts length_concat o_def sum_list_triv)

lemma nth_concat_same:
  assumes "\<And>x. x \<in> set xs \<Longrightarrow> length (f x) = n" "i < length xs" "j < n"
  shows "concat (map f xs) ! (i * n + j) = f (xs ! i) ! j"
  using assms
proof (induction xs arbitrary: i)
  case (Cons x xs)
  then show ?case by (cases i) (simp_all add: nth_append add.assoc)
qed simp

lemma efuseTbl_nth:
  assumes "i < 64" "j < 4"
  shows "efuseTbl W ! (i * 8 + j * 2) = ucast (W i j)" "efuseTbl W ! (i * 8 + (j * 2 + 1)) = ucast (drop_bit 8 (W i j))"
proof -
  have len: "length (concat (map (\<lambda>j. [ucast (W i j) :: u8, ucast (drop_bit 8 (W i j))]) [0..<4])) = 8" for i
    by (simp add: length_concat o_def sum_list_triv)
  have "efuseTbl W ! (i * 8 + (j * 2 + k)) = [ucast (W i j), ucast (drop_bit 8 (W i j))] ! k" if "k < 2" for k
  proof -
    have "efuseTbl W ! (i * 8 + (j * 2 + k)) =
        concat (map (\<lambda>j. [ucast (W ([0..<64] ! i) j), ucast (drop_bit 8 (W ([0..<64] ! i) j))]) [0..<4]) ! (j * 2 + k)"
      unfolding efuseTbl_def efuse_consts using assms that len
      by (intro nth_concat_same) (simp_all del: upt_Suc)
    also have "\<dots> = [ucast (W i j), ucast (drop_bit 8 (W i j))] ! k"
      using assms that by (subst nth_concat_same [where n = 2]) (simp_all del: upt_Suc)
    finally show ?thesis .
  qed
  from this [of 0] this [of 1] show
    "efuseTbl W ! (i * 8 + j * 2) = ucast (W i j)" "efuseTbl W ! (i * 8 + (j * 2 + 1)) = ucast (drop_bit 8 (W i j))"
    by simp_all
qed

definition blank_words :: efuse_words where
  "blank_words = (\<lambda>_ _. 0xFFFF)"

text \<open>The logical map of a sequence of packets: a later packet overrides an earlier one.\<close>

definition logical_map :: "packet list \<Rightarrow> bytes" where
  "logical_map ps = efuseTbl (fold pkt_apply ps blank_words)"

text \<open>A memory that holds packets from address 0 and is blank behind them.\<close>

definition holds :: "(nat \<Rightarrow> u8) \<Rightarrow> packet list \<Rightarrow> bool" where
  "holds cell ps \<longleftrightarrow> (\<forall>p \<in> set ps. pkt_ok p) \<and> length (pkts_bytes ps) < 256 \<and> at cell 0 (pkts_bytes ps) \<and>
     (\<forall>a. length (pkts_bytes ps) \<le> a \<and> a < 256 \<longrightarrow> cell a = 0xFF)"

lemma holds_empty: "holds cell ps \<Longrightarrow> cell 0 = 0xFF \<longleftrightarrow> ps = []"
proof (cases ps)
  case (Cons p qs)
  assume h: "holds cell ps"
  then have "pkt_ok p" by (simp add: holds_def Cons)
  then obtain b bs where "pkt_bytes p = b # bs" "b \<noteq> 0xFF" using pkt_bytes_head by blast
  with h show ?thesis by (simp add: holds_def Cons)
qed (simp add: holds_def)

lemma holds_loop:
  assumes h: "holds cell ps" and "ps \<noteq> []"
  shows "efuse_loop skip cell (cell 0) (Suc 0) W = (length (pkts_bytes ps), fold pkt_apply ps W)"
proof -
  obtain p qs where ps: "ps = p # qs" using assms(2) by (cases ps) auto
  have "cell (0 + length (pkts_bytes ps)) = 0xFF" using h by (simp add: holds_def)
  then show ?thesis
    using loop_packets [of p qs cell 0 skip W] h unfolding ps holds_def by simp
qed

text \<open>Both decoders read the logical map of the packets.\<close>

lemma read_efuse_holds:
  assumes "holds cell ps" "ps \<noteq> []" "offset + n \<le> 512"
  shows "Hal_EfuseReadEFuse88E cell offset n buf =
    (take n (drop offset (logical_map ps)) @ drop n buf, Some (length (pkts_bytes ps)))"
  using assms holds_empty [OF assms(1)]
  by (simp add: Hal_EfuseReadEFuse88E_def holds_loop efuse_consts logical_map_def blank_words_def)

lemma phymap_holds:
  assumes "holds (\<lambda>a. phymap ! a) ps" "ps \<noteq> []"
  shows "efuse_phymap_to_logical phymap offset n buf = take n (drop offset (logical_map ps)) @ drop n buf"
  using assms holds_empty [OF assms(1)]
  by (simp add: efuse_phymap_to_logical_def holds_loop logical_map_def blank_words_def)

text \<open>The content that the firmware left is read whole, up to the size of the buffer.\<close>

lemma phymap_copy_inv:
  assumes "fst cc = map mem [2..<2 + snd cc] @ drop (snd cc) c0" "a = 2 + snd cc" "snd cc \<le> limit" "limit \<le> length c0"
  shows "fst (phymap_copy mem a k limit cc) = map mem [2..<2 + snd (phymap_copy mem a k limit cc)] @ drop (snd (phymap_copy mem a k limit cc)) c0
    \<and> snd (phymap_copy mem a k limit cc) = min limit (snd cc + k)"
proof -
  obtain c n where cc: "cc = (c, n)" by (cases cc)
  define m where "m = min limit (n + k) - n"
  have m: "(if limit \<ge> n + k then k else limit - n) = m" using assms(3) by (auto simp: m_def cc)
  have c: "c = map mem [2..<2 + n] @ drop n c0" and n: "n \<le> limit" "a = 2 + n" using assms by (simp_all add: cc)
  have l: "length (map mem [2..<2 + n]) = n" by (simp del: upt_Suc)
  have t: "take n c = map mem [2..<2 + n]" "drop (n + m) c = drop (n + m) c0"
    unfolding c take_append drop_append l by (simp_all add: add.commute del: upt_Suc)
  have "[2..<2 + (n + m)] = [2..<2 + n] @ [2 + n..<2 + n + m]" by (metis add.assoc le_add1 upt_add_eq_append)
  then have "fst (phymap_copy mem a k limit cc) = map mem [2..<2 + (n + m)] @ drop (n + m) c0" "snd (phymap_copy mem a k limit cc) = n + m"
    unfolding phymap_copy_def cc prod.case Let_def m t n(2) by simp_all
  then show ?thesis using n(1) by (auto simp: m_def cc)
qed

lemma phymap_word_inv:
  assumes "fst cc = map mem [2..<2 + snd cc] @ drop (snd cc) c0" "a = 2 + snd cc" "a + k = 8 * i + 4" "snd cc \<le> limit" "limit \<le> length c0"
    "limit \<le> len - 2" "2 \<le> len"
  shows "fst (phymap_word mem i a k limit len cc) = map mem [2..<2 + snd (phymap_word mem i a k limit len cc)] @ drop (snd (phymap_word mem i a k limit len cc)) c0
    \<and> snd (phymap_word mem i a k limit len cc) = min limit (8 * i + 6)"
proof -
  let ?c = "phymap_copy mem a k limit cc"
  note c = phymap_copy_inv [OF assms(1,2,4,5), of k]
  have e: "snd cc + k = 8 * i + 2" using assms(2,3) by simp
  show ?thesis
  proof (cases "snd ?c < limit")
    case True
    then have s: "snd ?c = 8 * i + 2" using c e by (auto simp: min_def split: if_splits)
    have "phymap_word mem i a k limit len cc = phymap_copy mem (8 * i + 4) 4 limit ?c"
    proof -
      have "int (snd ?c) < int len - 2" using True assms(6,7) by linarith
      then show ?thesis using True by (simp add: phymap_word_def Let_def)
    qed
    then show ?thesis
    proof -
      have f: "fst ?c = map mem [2..<2 + snd ?c] @ drop (snd ?c) c0" using c by blast
      have "8 * i + 4 = 2 + snd ?c" "snd ?c \<le> limit" "snd ?c + 4 = 8 * i + 6" using s True by simp_all
      then show ?thesis using phymap_copy_inv [OF f _ _ assms(5), of "8 * i + 4" 4] \<open>phymap_word mem i a k limit len cc = _\<close>
        by (simp only: simp_thms)
    qed
  next
    case False
    then have "phymap_word mem i a k limit len cc = ?c" by (simp add: phymap_word_def Let_def)
    then show ?thesis using c e False by (auto simp: min_def split: if_splits)
  qed
qed

lemma phymap_loop_inv:
  assumes "fst cc = map mem [2..<2 + snd cc] @ drop (snd cc) c0" "snd cc = min limit (8 * i + 6)" "limit \<le> length c0" "limit \<le> len - 2" "2 \<le> len"
  shows "phymap_loop mem i limit len cc = (map mem [2..<2 + limit] @ drop limit c0, limit)"
  using assms
proof (induction mem i limit len cc rule: phymap_loop.induct)
  case (1 mem i limit len cc)
  show ?case
  proof (cases "limit \<le> snd cc")
    case True
    then show ?thesis using 1(2,3) by (subst phymap_loop.simps) (simp add: prod_eq_iff)
  next
    case False
    then have go: "\<not> (limit \<le> snd cc \<or> int len - 2 \<le> int (snd cc))" using 1(5,6) by linarith
    have c: "snd cc = 8 * i + 6" "snd cc \<le> limit" using 1(3) False by (auto simp: min_def split: if_splits)
    note w = phymap_word_inv [OF 1(2) _ _ c(2) 1(4-6), of "8 * (i + 1)" 4 "i + 1"]
    show ?thesis
      by (subst phymap_loop.simps) (use go c 1(1) [OF go _ _ 1(4-6)] w in simp)
  qed
qed

lemma phymap_content:
  assumes "unat (mem 0) + 256 * unat (mem 1) = n + 2"
  shows "efuse_read_phymap_from_txpktbuf mem content (length content) =
    (map mem [2..<2 + min n (length content)] @ drop (min n (length content)) content, min n (length content))"
proof -
  have "unat (mem 0) < 256" "unat (mem 1) < 256" using unsigned_less [of "mem 0"] unsigned_less [of "mem 1"] by simp_all
  then have n: "n < 65536" using assms by linarith
  define limit where "limit = (if int (n + 2) - 2 < int (length content) then nat ((int (n + 2) - 2) mod 65536) else length content)"
  have l: "limit = min n (length content)" using n by (auto simp: limit_def)
  have ll: "limit \<le> length content" "limit \<le> n + 2 - 2" by (simp_all add: l)
  have b: "fst (content, 0::nat) = map mem [2..<2 + snd (content, 0)] @ drop (snd (content, 0)) content" by simp
  have z: "snd (content, 0::nat) \<le> limit" by simp
  note w = phymap_word_inv [OF b _ _ z ll, of 2 2 0]
  show ?thesis
    unfolding efuse_read_phymap_from_txpktbuf_def assms Let_def limit_def [symmetric]
    using phymap_loop_inv [OF _ _ ll, of "phymap_word mem 0 2 2 limit (n + 2) (content, 0)" mem 0] w by (simp add: l)
qed

text \<open>So both decoders read a memory of packets alike.\<close>

lemma phymap_content_holds:
  assumes "unat (mem 0) + 256 * unat (mem 1) = n + 2" "256 \<le> n" "holds cell ps" "\<forall>a < 256. mem (2 + a) = cell a"
  shows "holds (\<lambda>a. fst (efuse_read_phymap_from_txpktbuf mem (replicate 512 0xFF) 512) ! a) ps"
proof -
  let ?m = "fst (efuse_read_phymap_from_txpktbuf mem (replicate 512 0xFF) 512)"
  have m: "?m ! a = cell a" if "a < 256" for a
  proof -
    let ?k = "min n 512"
    have "?m = map mem [2..<2 + ?k] @ drop ?k (replicate 512 0xFF)"
      using phymap_content [OF assms(1), of "replicate 512 0xFF"] by (simp del: upt_Suc)
    moreover have "a < length (map mem [2..<2 + ?k])" "map mem [2..<2 + ?k] ! a = mem (2 + a)"
      using that assms(2) by (simp_all del: upt_Suc)
    ultimately show ?thesis using assms(4) that by (simp only: nth_append if_True)
  qed
  show ?thesis using assms(3) m by (auto simp: holds_def at_def)
qed

end
