(* ===== verification/EfuseWrite.thy ===== *)
theory EfuseWrite
  imports Efuse
begin

text \<open>
  Writing packets: the chip's \<open>efuse_OneByteRead\<close> and \<open>efuse_OneByteWrite\<close> are a parameter
  (\<open>efuse_ops\<close>), or the buffer \<open>fakeEfuseContent\<close> of the test mode. On top of them the packet functions
  of hal/rtl8188e/rtl8188e_hal_init.c and the map functions of core/efuse/rtw_efuse.c. The code for a
  header that reads back different from what was written (\<open>hal_EfuseFixHeaderProcess\<close>) follows loops
  that only end when it reads back the same, or return: it cannot run and is left out, as are the
  power switches and the read-margin bit of EFUSE_TEST.
\<close>

section \<open>Chips\<close>

text \<open>
  \<open>eo_read d a old\<close> is the result of \<open>efuse_OneByteRead\<close> and the value of the variable it was given,
  which held \<open>old\<close>; \<open>eo_cell\<close> is \<open>ReadEFuseByte\<close>. \<open>eo_fw_iol\<close> is the setting \<open>fw_iol\<close>, and \<open>eo_iol\<close> the buffer of the chip
  after the firmware has executed \<open>CMD_READ_EFUSE_MAP\<close> (\<open>None\<close> when \<open>iol_execute\<close> fails).
\<close>

record 'd efuse_ops =
  eo_read :: "'d \<Rightarrow> nat \<Rightarrow> u8 \<Rightarrow> bool \<times> u8"
  eo_write :: "'d \<Rightarrow> nat \<Rightarrow> u8 \<Rightarrow> 'd"
  eo_cell :: "'d \<Rightarrow> nat \<Rightarrow> u8"
  eo_fw_iol :: u8
  eo_iol :: "'d \<Rightarrow> (nat \<Rightarrow> u8) option"

record 'd efuse =
  ef_dev :: 'd
  ef_used :: nat

definition EFUSE_MAX_HW_SIZE :: nat where "EFUSE_MAX_HW_SIZE = 1024"

definition Efuse_Read1ByteFromFakeContent :: "bytes \<Rightarrow> nat \<Rightarrow> u8 \<Rightarrow> bool \<times> u8" where
  "Efuse_Read1ByteFromFakeContent content offset old =
     (if offset \<ge> EFUSE_MAX_HW_SIZE then (False, old) else (True, content ! offset))"

definition Efuse_Write1ByteToFakeContent :: "bytes \<Rightarrow> nat \<Rightarrow> u8 \<Rightarrow> bytes" where
  "Efuse_Write1ByteToFakeContent content offset v =
     (if offset \<ge> EFUSE_MAX_HW_SIZE then content else content[offset := v])"

definition fake_ops :: "bytes efuse_ops" where
  "fake_ops = \<lparr>eo_read = Efuse_Read1ByteFromFakeContent, eo_write = Efuse_Write1ByteToFakeContent,
     eo_cell = \<lambda>content offset. snd (Efuse_Read1ByteFromFakeContent content offset 0), eo_fw_iol = 0, eo_iol = \<lambda>content. None\<rparr>"

section \<open>Words\<close>

definition word_on :: "u8 \<Rightarrow> nat \<Rightarrow> bool" where
  "word_on word_en i \<longleftrightarrow> word_en AND push_bit i 1 = 0"

definition Efuse_CalculateWordCnts :: "u8 \<Rightarrow> nat" where
  "Efuse_CalculateWordCnts word_en =
     (if word_on word_en 0 then 1 else 0) + (if word_on word_en 1 then 1 else 0)
     + (if word_on word_en 2 then 1 else 0) + (if word_on word_en 3 then 1 else 0)"

definition efuse_WordEnableDataRead :: "u8 \<Rightarrow> bytes \<Rightarrow> bytes \<Rightarrow> bytes" where
  "efuse_WordEnableDataRead word_en sourdata targetdata =
     fold (\<lambda>i t. if word_on word_en i then t[2 * i := sourdata ! (2 * i), 2 * i + 1 := sourdata ! (2 * i + 1)] else t)
       [0..<4] targetdata"

text \<open>The four blocks of \<open>Hal_EfuseWordEnableDataWrite\<close>: two bytes written and read back each.\<close>

fun word_writes :: "'d efuse_ops \<Rightarrow> nat list \<Rightarrow> u8 \<Rightarrow> bytes \<Rightarrow> nat \<Rightarrow> u8 \<Rightarrow> 'd \<Rightarrow> u8 \<times> 'd" where
  "word_writes ops [] word_en data addr bad d = (bad, d)"
| "word_writes ops (i # is) word_en data addr bad d =
     (if word_on word_en i then
        let d = eo_write ops d addr (data ! (2 * i));
            d = eo_write ops d (addr + 1) (data ! (2 * i + 1));
            t0 = snd (eo_read ops d addr 0xFF);
            t1 = snd (eo_read ops d (addr + 1) 0xFF);
            bad = (if data ! (2 * i) \<noteq> t0 \<or> data ! (2 * i + 1) \<noteq> t1 then bad AND NOT (push_bit i 1) else bad)
        in word_writes ops is word_en data (addr + 2) bad d
      else word_writes ops is word_en data addr bad d)"

definition Hal_EfuseWordEnableDataWrite :: "'d efuse_ops \<Rightarrow> nat \<Rightarrow> u8 \<Rightarrow> bytes \<Rightarrow> 'd \<Rightarrow> u8 \<times> 'd" where
  "Hal_EfuseWordEnableDataWrite ops efuse_addr word_en data d = word_writes ops [0..<4] word_en data efuse_addr 0x0F d"

section \<open>The used size\<close>

definition EXT_HEADER :: "u8 \<Rightarrow> bool" where "EXT_HEADER h \<longleftrightarrow> h AND 0x1F = 0x0F"
definition ALL_WORDS_DISABLED :: "u8 \<Rightarrow> bool" where "ALL_WORDS_DISABLED wde \<longleftrightarrow> wde AND 0x0F = 0x0F"

definition EFUSE_REAL_CONTENT_LEN :: nat where "EFUSE_REAL_CONTENT_LEN = 512"
definition available_bytes :: nat where "available_bytes = 256 - 18"

lemmas efuse_w_consts = EXT_HEADER_def ALL_WORDS_DISABLED_def EFUSE_REAL_CONTENT_LEN_def available_bytes_def

function size_loop :: "'d efuse_ops \<Rightarrow> 'd \<Rightarrow> nat \<Rightarrow> nat" where
  "size_loop ops d addr =
     (if \<not> fst (eo_read ops d addr 0) \<or> addr \<ge> EFUSE_REAL_CONTENT_LEN then addr
      else let h = snd (eo_read ops d addr 0)
           in if h = 0xFF then addr
              else if EXT_HEADER h then
                let e = snd (eo_read ops d (addr + 1) h)
                in if ALL_WORDS_DISABLED e then size_loop ops d (addr + 2)
                   else size_loop ops d (addr + 1 + Efuse_CalculateWordCnts (e AND 0x0F) * 2 + 1)
              else size_loop ops d (addr + Efuse_CalculateWordCnts (h AND 0x0F) * 2 + 1))"
  by pat_completeness auto

termination
  by (relation "measure (\<lambda>(ops, d, addr). 512 - addr)") (auto simp: efuse_w_consts)

declare size_loop.simps [simp del]

definition hal_EfuseGetCurrentSize_8188e :: "'d efuse_ops \<Rightarrow> 'd efuse \<Rightarrow> nat \<times> 'd efuse" where
  "hal_EfuseGetCurrentSize_8188e ops s =
     (let n = size_loop ops (ef_dev s) (ef_used s) in (n, s\<lparr>ef_used := n\<rparr>))"

definition hal_EfusePgCheckAvailableAddr :: "'d efuse_ops \<Rightarrow> 'd efuse \<Rightarrow> bool \<times> 'd efuse" where
  "hal_EfusePgCheckAvailableAddr ops s =
     (let (n, s) = hal_EfuseGetCurrentSize_8188e ops s in (\<not> n \<ge> EFUSE_MAP_LEN_88E, s))"

section \<open>Headers\<close>

definition EFUSE_REPEAT_THRESHOLD :: nat where "EFUSE_REPEAT_THRESHOLD = 3"

text \<open>Writing a header until it reads back: whether it did, the count of repetitions and the chip.\<close>

function header_retry :: "'d efuse_ops \<Rightarrow> nat \<Rightarrow> u8 \<Rightarrow> nat \<Rightarrow> u8 \<Rightarrow> 'd \<Rightarrow> bool \<times> nat \<times> 'd" where
  "header_retry ops addr pg_header repeatcnt tmp_header d =
     (if tmp_header = 0xFF \<or> pg_header \<noteq> tmp_header
      then if repeatcnt > EFUSE_REPEAT_THRESHOLD then (False, repeatcnt + 1, d)
           else let d = eo_write ops d addr pg_header
                in header_retry ops addr pg_header (repeatcnt + 1) (snd (eo_read ops d addr tmp_header)) d
      else (True, repeatcnt, d))"
  by pat_completeness auto

termination
  by (relation "measure (\<lambda>(ops, addr, h, n, t, d). 5 - n)") (auto simp: EFUSE_REPEAT_THRESHOLD_def)

declare header_retry.simps [simp del]

definition write_header_byte :: "'d efuse_ops \<Rightarrow> nat \<Rightarrow> u8 \<Rightarrow> nat \<Rightarrow> u8 \<Rightarrow> 'd \<Rightarrow> bool \<times> nat \<times> 'd" where
  "write_header_byte ops addr pg_header repeatcnt tmp_header d =
     (let d = eo_write ops d addr pg_header
      in header_retry ops addr pg_header repeatcnt (snd (eo_read ops d addr tmp_header)) d)"

text \<open>The result and the address of the last header byte.\<close>

definition hal_EfusePgPacketWrite1ByteHeader :: "'d efuse_ops \<Rightarrow> packet \<Rightarrow> nat \<Rightarrow> 'd \<Rightarrow> bool \<times> nat \<times> 'd" where
  "hal_EfusePgPacketWrite1ByteHeader ops pkt addr d = (case pkt of (offset, word_en, data) \<Rightarrow>
     let (ok, _, d) = write_header_byte ops addr ((push_bit 4 offset AND 0xF0) OR word_en) 0 0 d in (ok, addr, d))"

function header2_loop :: "'d efuse_ops \<Rightarrow> u8 \<Rightarrow> u8 \<Rightarrow> nat \<Rightarrow> nat \<Rightarrow> 'd \<Rightarrow> bool \<times> nat \<times> 'd" where
  "header2_loop ops offset word_en repeatcnt addr d =
     (if addr \<ge> available_bytes then (False, addr, d)
      else let h = push_bit 5 (offset AND 0x07) OR 0x0F;
               (ok, repeatcnt, d) = write_header_byte ops addr h repeatcnt 0 d
           in if \<not> ok then (False, addr, d)
              else let e = push_bit 1 (offset AND 0x78) OR word_en;
                       (ok, repeatcnt, d) = write_header_byte ops (addr + 1) e repeatcnt h d
                   in if \<not> ok then (False, addr, d)
                      else if ALL_WORDS_DISABLED e
                      then if repeatcnt > EFUSE_REPEAT_THRESHOLD then (False, addr, d)
                           else header2_loop ops offset word_en (repeatcnt + 1) (addr + 2) d
                      else (True, addr + 1, d))"
  by pat_completeness auto

termination
  by (relation "measure (\<lambda>(ops, off, we, n, addr, d). 238 - addr)") (auto simp: available_bytes_def)

declare header2_loop.simps [simp del]

definition hal_EfusePgPacketWriteHeader :: "'d efuse_ops \<Rightarrow> packet \<Rightarrow> nat \<Rightarrow> 'd \<Rightarrow> bool \<times> nat \<times> 'd" where
  "hal_EfusePgPacketWriteHeader ops pkt addr d = (case pkt of (offset, word_en, data) \<Rightarrow>
     if unat offset \<ge> EFUSE_MAX_SECTION_BASE then header2_loop ops offset word_en 0 addr d
     else hal_EfusePgPacketWrite1ByteHeader ops pkt addr d)"

section \<open>Packets\<close>

text \<open>
  A packet whose words did not read back is written again with the bad words only. \<open>pgw\<close> stands for
  that call of \<open>Efuse_PgPacketWrite\<close>; \<open>None\<close> is a run whose depth exceeds the fuel given.
\<close>

type_synonym 'd pg_writer = "u8 \<Rightarrow> u8 \<Rightarrow> bytes \<Rightarrow> 'd efuse \<Rightarrow> (bool \<times> 'd efuse) option"

definition hal_EfusePgPacketWriteData :: "'d pg_writer \<Rightarrow> 'd efuse_ops \<Rightarrow> packet \<Rightarrow> nat \<Rightarrow> 'd efuse \<Rightarrow> (bool \<times> 'd efuse) option" where
  "hal_EfusePgPacketWriteData pgw ops pkt addr s = (case pkt of (offset, word_en, data) \<Rightarrow>
     let (badworden, d) = Hal_EfuseWordEnableDataWrite ops (addr + 1) word_en data (ef_dev s);
         s = s\<lparr>ef_dev := d\<rparr>
     in if badworden = 0x0F then Some (True, s) else pgw offset badworden data s)"

definition wordEnMatched :: "u8 \<Rightarrow> u8 \<Rightarrow> bool \<times> u8" where
  "wordEnMatched target_en cur_en =
     (let m = fold (\<lambda>i m. if word_on target_en i \<and> word_on cur_en i then m AND NOT (push_bit i 1) else m) [0..<4] 0x0F
      in (m \<noteq> 0x0F, m))"

definition hal_EfuseCheckIfDatafollowed :: "'d efuse_ops \<Rightarrow> nat \<Rightarrow> nat \<Rightarrow> 'd \<Rightarrow> bool" where
  "hal_EfuseCheckIfDatafollowed ops word_cnts startAddr d =
     (\<exists>i \<in> {0..<word_cnts * 2}. fst (eo_read ops d (startAddr + i) 0) \<and> snd (eo_read ops d (startAddr + i) 0) \<noteq> 0xFF)"

text \<open>The words of the target that go behind a header that has no data yet.\<close>

definition partial_write :: "'d pg_writer \<Rightarrow> 'd efuse_ops \<Rightarrow> nat \<Rightarrow> u8 \<Rightarrow> packet \<Rightarrow> 'd efuse \<Rightarrow> (bool \<times> packet \<times> 'd efuse) option" where
  "partial_write pgw ops addr matched pkt s = (case pkt of (offset, word_en, data) \<Rightarrow>
     let (badworden, d) = Hal_EfuseWordEnableDataWrite ops (addr + 1) matched data (ef_dev s);
         s = s\<lparr>ef_dev := d\<rparr>;
         new_en = fold (\<lambda>i w. if word_on matched i then w OR push_bit i 1 else w) [0..<4] word_en
     in do { (ok, s) \<leftarrow> (if badworden \<noteq> 0x0F then pgw offset badworden data s else Some (True, s));
             Some (ok, (offset, new_en, data), s) })"

function partial_check :: "'d pg_writer \<Rightarrow> 'd efuse_ops \<Rightarrow> nat \<Rightarrow> packet \<Rightarrow> 'd efuse \<Rightarrow> (bool \<times> nat \<times> packet \<times> 'd efuse) option" where
  "partial_check pgw ops addr pkt s =
     (if addr \<ge> available_bytes then Some (False, 0, pkt, s)
      else let (ok, h) = eo_read ops (ef_dev s) addr 0
           in if ok \<and> h \<noteq> 0xFF then
             let e = snd (eo_read ops (ef_dev s) (addr + 1) h);
                 addr' = (if EXT_HEADER h then addr + 1 else addr)
             in if EXT_HEADER h \<and> ALL_WORDS_DISABLED e then Some (False, 0, pkt, s)
                else let cur_offset = (if EXT_HEADER h then drop_bit 5 (h AND 0xE0) OR drop_bit 1 (e AND 0xF0)
                                       else drop_bit 4 h AND 0x0F);
                         cur_en = (if EXT_HEADER h then e AND 0x0F else h AND 0x0F);
                         cnts = Efuse_CalculateWordCnts cur_en;
                         (matched, m) = wordEnMatched (fst (snd pkt)) cur_en
                     in do { (ok, pkt, s) \<leftarrow>
                               (if cur_offset = fst pkt \<and> \<not> hal_EfuseCheckIfDatafollowed ops cnts (addr' + 1) (ef_dev s)
                                   \<and> matched
                                then partial_write pgw ops addr' m pkt s else Some (True, pkt, s));
                             if \<not> ok then Some (False, 0, pkt, s)
                             else partial_check pgw ops (addr' + cnts * 2 + 1) pkt s }
           else Some (True, addr, pkt, s))"
  by pat_completeness auto

termination
  by (relation "measure (\<lambda>(pgw, ops, addr, pkt, s). 238 - addr)") (auto simp: available_bytes_def)

declare partial_check.simps [simp del]

definition hal_EfusePartialWriteCheck :: "'d pg_writer \<Rightarrow> 'd efuse_ops \<Rightarrow> packet \<Rightarrow> 'd efuse \<Rightarrow> (bool \<times> nat \<times> packet \<times> 'd efuse) option" where
  "hal_EfusePartialWriteCheck pgw ops pkt s = partial_check pgw ops (ef_used s mod EFUSE_REAL_CONTENT_LEN) pkt s"

definition hal_EfuseConstructPGPkt :: "u8 \<Rightarrow> u8 \<Rightarrow> bytes \<Rightarrow> packet" where
  "hal_EfuseConstructPGPkt offset word_en pData =
     (offset, word_en, efuse_WordEnableDataRead word_en pData (replicate 8 0xFF))"

fun hal_EfusePgPacketWrite_8188e :: "nat \<Rightarrow> 'd efuse_ops \<Rightarrow> 'd pg_writer" where
  "hal_EfusePgPacketWrite_8188e 0 ops offset word_en pData s = None"
| "hal_EfusePgPacketWrite_8188e (Suc n) ops offset word_en pData s =
     (let (ok, s) = hal_EfusePgCheckAvailableAddr ops s
      in if \<not> ok then Some (False, s)
         else do { (ok, addr, pkt, s) \<leftarrow> hal_EfusePartialWriteCheck (hal_EfusePgPacketWrite_8188e n ops) ops
                       (hal_EfuseConstructPGPkt offset word_en pData) s;
                   if \<not> ok then Some (False, s)
                   else let (ok, addr, d) = hal_EfusePgPacketWriteHeader ops pkt addr (ef_dev s);
                            s = s\<lparr>ef_dev := d\<rparr>
                        in if \<not> ok then Some (False, s)
                           else hal_EfusePgPacketWriteData (hal_EfusePgPacketWrite_8188e n ops) ops pkt addr s })"

section \<open>Reading one section\<close>

datatype pg_state = PG_STATE_HEADER | PG_STATE_DATA

text \<open>
  The reader of one section. The bytes of a packet are collected in \<open>tmpdata\<close> in the order they are
  stored, and \<open>efuse_WordEnableDataRead\<close> takes the words of \<open>tmpdata\<close> by their number.
\<close>

definition read_packet_data :: "'d efuse_ops \<Rightarrow> 'd \<Rightarrow> nat \<Rightarrow> nat \<Rightarrow> bytes \<Rightarrow> bytes" where
  "read_packet_data ops d addr cnts tmpdata =
     fold (\<lambda>i t. let (ok, v) = eo_read ops d (addr + 1 + i) 0 in if ok then t[i := v] else t) [0..<cnts * 2] tmpdata"

definition packet_nonempty :: "'d efuse_ops \<Rightarrow> 'd \<Rightarrow> nat \<Rightarrow> nat \<Rightarrow> bool" where
  "packet_nonempty ops d addr cnts =
     (\<exists>i \<in> {0..<cnts * 2}. fst (eo_read ops d (addr + 1 + i) 0) \<and> snd (eo_read ops d (addr + 1 + i) 0) \<noteq> 0xFF)"

function pg_read_loop :: "'d efuse_ops \<Rightarrow> 'd \<Rightarrow> u8 \<Rightarrow> pg_state \<Rightarrow> nat \<Rightarrow> u8 \<Rightarrow> bytes \<Rightarrow> bytes \<Rightarrow> bytes" where
  "pg_read_loop ops d offset ReadState addr hworden tmpdata data =
     (if addr \<ge> EFUSE_REAL_CONTENT_LEN then data
      else case ReadState of
        PG_STATE_HEADER \<Rightarrow>
          let (ok, h) = eo_read ops d addr 0
          in if ok \<and> h \<noteq> 0xFF then
               let e = snd (eo_read ops d (addr + 1) h);
                   addr' = (if EXT_HEADER h then addr + 1 else addr)
               in if EXT_HEADER h \<and> ALL_WORDS_DISABLED e
                  then pg_read_loop ops d offset PG_STATE_HEADER (addr + 2) hworden tmpdata data
                  else let hoffset = (if EXT_HEADER h then drop_bit 5 (h AND 0xE0) OR drop_bit 1 (e AND 0xF0)
                                      else drop_bit 4 h AND 0x0F);
                           hworden = (if EXT_HEADER h then e AND 0x0F else h AND 0x0F);
                           cnts = Efuse_CalculateWordCnts hworden;
                           tmpdata = (if hoffset = offset then read_packet_data ops d addr' cnts tmpdata else tmpdata)
                       in if hoffset = offset \<and> packet_nonempty ops d addr' cnts
                          then pg_read_loop ops d offset PG_STATE_DATA addr' hworden tmpdata data
                          else pg_read_loop ops d offset PG_STATE_HEADER (addr' + cnts * 2 + 1) hworden tmpdata data
             else data
      | PG_STATE_DATA \<Rightarrow>
          pg_read_loop ops d offset PG_STATE_HEADER (addr + Efuse_CalculateWordCnts hworden * 2 + 1) hworden tmpdata
            (efuse_WordEnableDataRead hworden tmpdata data))"
  by pat_completeness auto

termination
  by (relation "measure (\<lambda>(ops, d, off, st, addr, h, t, data). 2 * (512 - addr) + (if st = PG_STATE_HEADER then 1 else 0))")
    (auto simp: EFUSE_REAL_CONTENT_LEN_def split: if_splits)

declare pg_read_loop.simps [simp del]

text \<open>\<open>None\<close> when the section does not exist; else whether the section has data, and the data.\<close>

definition hal_EfusePgPacketRead_8188e :: "'d efuse_ops \<Rightarrow> 'd \<Rightarrow> u8 \<Rightarrow> bool \<times> bytes option" where
  "hal_EfusePgPacketRead_8188e ops d offset =
     (if unat offset > EFUSE_MAX_SECTION_88E then (False, None)
      else let data = pg_read_loop ops d offset PG_STATE_HEADER 0 0 (replicate 8 0xFF) (replicate 8 0xFF)
           in (data \<noteq> replicate 8 0xFF, Some data))"

section \<open>The map\<close>

definition rtw_IOL_applied :: "'d efuse_ops \<Rightarrow> bool" where
  "rtw_IOL_applied ops \<longleftrightarrow> eo_fw_iol ops = 1"

definition iol_read_efuse :: "'d efuse_ops \<Rightarrow> 'd \<Rightarrow> nat \<Rightarrow> nat \<Rightarrow> bytes \<Rightarrow> rtw_res \<times> bytes" where
  "iol_read_efuse ops d offset size_byte pbuf =
     (let physical_map = replicate 512 0xFF;
          (status, physical_map) = (case eo_iol ops d of
             None \<Rightarrow> (RTW_FAIL, physical_map)
           | Some mem \<Rightarrow> (RTW_SUCCESS, fst (efuse_read_phymap_from_txpktbuf mem physical_map 512)))
      in (status, efuse_phymap_to_logical physical_map offset size_byte pbuf))"

text \<open>
  The firmware reads the memory when \<open>fw_iol\<close> is set, as it is by default; when it cannot, the driver does, and only then the
  used size is noted. The power switch is left out.
\<close>

definition ReadEFuseByIC :: "'d efuse_ops \<Rightarrow> nat \<Rightarrow> nat \<Rightarrow> bytes \<Rightarrow> 'd efuse \<Rightarrow> bytes \<times> 'd efuse" where
  "ReadEFuseByIC ops offset size_byte pbuf s =
     (let (ret, pbuf) = (if rtw_IOL_applied ops then iol_read_efuse ops (ef_dev s) offset size_byte pbuf else (RTW_FAIL, pbuf))
      in if ret = RTW_SUCCESS then (pbuf, s)
         else let (pbuf, used) = Hal_EfuseReadEFuse88E (eo_cell ops (ef_dev s)) offset size_byte pbuf
              in (pbuf, case used of None \<Rightarrow> s | Some n \<Rightarrow> s\<lparr>ef_used := n\<rparr>))"

definition rtw_efuse_map_read :: "'d efuse_ops \<Rightarrow> nat \<Rightarrow> nat \<Rightarrow> bytes \<Rightarrow> 'd efuse \<Rightarrow> rtw_res \<times> bytes \<times> 'd efuse" where
  "rtw_efuse_map_read ops addr cnts data s =
     (if addr + cnts > EFUSE_MAP_LEN_88E then (RTW_FAIL, data, s)
      else let (data, s) = ReadEFuseByIC ops addr cnts data s in (RTW_SUCCESS, data, s))"

definition rtw_file_efuse_IsMasked :: "bool \<Rightarrow> bytes \<Rightarrow> nat \<Rightarrow> bool" where
  "rtw_file_efuse_IsMasked boffefusemask maskbuf offset =
     (if boffefusemask then False
      else let r = offset div 16; c = (offset mod 16) div 2
           in if c < 4 then maskbuf ! r AND push_bit c 0x10 = 0 else maskbuf ! r AND push_bit (c - 4) 1 = 0)"

text \<open>The wanted map: the data over the old map, except for masked bytes.\<close>

definition wanted_map :: "(nat \<Rightarrow> bool) \<Rightarrow> bytes \<Rightarrow> nat \<Rightarrow> nat \<Rightarrow> bytes \<Rightarrow> bytes" where
  "wanted_map masked m addr cnts data =
     (let efuse = take addr m @ take cnts data @ drop (addr + cnts) m
      in fold (\<lambda>i efuse. if masked (addr + i) then efuse[addr + i := m ! (addr + i)] else efuse) [0..<cnts] efuse)"

text \<open>One section: the enabled words, the data of the packet and the next index into the data.\<close>

function section_scan :: "bytes \<Rightarrow> bytes \<Rightarrow> nat \<Rightarrow> nat \<Rightarrow> nat \<Rightarrow> nat \<Rightarrow> u8 \<Rightarrow> bytes \<Rightarrow> u8 \<times> bytes \<times> nat" where
  "section_scan efuse m addr cnts i idx word_en newdata =
     (if i < 8 \<and> idx < cnts then
        if efuse ! (addr + idx) \<noteq> m ! (addr + idx)
        then section_scan efuse m addr cnts (i + 1) (idx + 1) (word_en AND NOT (push_bit (i div 2) 1))
               (newdata[i := efuse ! (addr + idx)])
        else section_scan efuse m addr cnts (i + 1) (idx + 1) word_en newdata
      else (word_en, newdata, idx))"
  by pat_completeness auto

termination by (relation "measure (\<lambda>(e, m, a, c, i, idx, w, n). 8 - i)") auto

declare section_scan.simps [simp del]

lemma section_scan_mono: "(w', n', idx') = section_scan e m a c i idx w n \<Longrightarrow> idx \<le> idx'"
  by (induction e m a c i idx w n rule: section_scan.induct) (subst (asm) (2) section_scan.simps, auto split: if_splits)

definition scan_section :: "bytes \<Rightarrow> bytes \<Rightarrow> nat \<Rightarrow> nat \<Rightarrow> nat \<Rightarrow> u8 \<Rightarrow> u8 \<times> bytes \<times> nat" where
  "scan_section efuse m addr cnts idx offset =
     section_scan efuse m addr cnts ((addr + idx) mod 8) idx 0x0F (take 8 (drop (unat offset * 8) m))"

lemma scan_section_mono:
  assumes "(w', n', idx') = scan_section e m a c idx off" "idx < c"
  shows "idx < idx'"
proof -
  have "(a + idx) mod 8 < 8" by simp
  then obtain i w n where "(w', n', idx') = section_scan e m a c i (idx + 1) w n"
    using assms unfolding scan_section_def by (subst (asm) section_scan.simps) (auto split: if_splits)
  from section_scan_mono [OF this] show ?thesis by simp
qed

text \<open>The bytes the packets of all sections will take.\<close>

function pg_total :: "bytes \<Rightarrow> bytes \<Rightarrow> nat \<Rightarrow> nat \<Rightarrow> nat \<Rightarrow> u8 \<Rightarrow> nat" where
  "pg_total efuse m addr cnts idx offset =
     (if idx < cnts then
        let (word_en, _, idx') = scan_section efuse m addr cnts idx offset
        in (if word_en \<noteq> 0x0F
            then Efuse_CalculateWordCnts word_en * 2 + (if unat offset \<ge> EFUSE_MAX_SECTION_BASE then 2 else 1) else 0)
           + pg_total efuse m addr cnts idx' (offset + 1)
      else 0)"
  by pat_completeness auto

termination
  by (relation "measure (\<lambda>(e, m, a, c, idx, off). c - idx)") (auto dest!: scan_section_mono)

declare pg_total.simps [simp del]

function pg_write_sections :: "'d pg_writer \<Rightarrow> bytes \<Rightarrow> bytes \<Rightarrow> nat \<Rightarrow> nat \<Rightarrow> nat \<Rightarrow> u8 \<Rightarrow> 'd efuse \<Rightarrow> (rtw_res \<times> 'd efuse) option" where
  "pg_write_sections pgw efuse m addr cnts idx offset s =
     (if idx < cnts then
        let (word_en, newdata, idx') = scan_section efuse m addr cnts idx offset
        in if word_en \<noteq> 0x0F
           then do { (ok, s) \<leftarrow> pgw offset word_en newdata s;
                     if \<not> ok then Some (RTW_FAIL, s)
                     else pg_write_sections pgw efuse m addr cnts idx' (offset + 1) s }
           else pg_write_sections pgw efuse m addr cnts idx' (offset + 1) s
      else Some (RTW_SUCCESS, s))"
  by pat_completeness auto

termination
  by (relation "measure (\<lambda>(pgw, e, m, a, c, idx, off, s). c - idx)") (auto dest!: scan_section_mono)

declare pg_write_sections.simps [simp del]

definition rtw_efuse_map_write ::
  "nat \<Rightarrow> 'd efuse_ops \<Rightarrow> (nat \<Rightarrow> bool) \<Rightarrow> nat \<Rightarrow> nat \<Rightarrow> bytes \<Rightarrow> 'd efuse \<Rightarrow> (rtw_res \<times> 'd efuse) option" where
  "rtw_efuse_map_write n ops masked addr cnts data s =
     (if addr + cnts > EFUSE_MAP_LEN_88E then Some (RTW_FAIL, s)
      else let (_, m, s) = rtw_efuse_map_read ops 0 EFUSE_MAP_LEN_88E (replicate EFUSE_MAP_LEN_88E 0xFF) s;
               efuse = wanted_map masked m addr cnts data;
               offset = of_nat (addr div 8);
               total = pg_total efuse m addr cnts 0 offset;
               (start, s) = (if ef_used s = 0 then hal_EfuseGetCurrentSize_8188e ops s else (ef_used s, s))
           in if start + total \<ge> available_bytes then Some (RTW_FAIL, s)
              else pg_write_sections (hal_EfusePgPacketWrite_8188e n ops) efuse m addr cnts 0 offset s)"

end
