(* ===== verification/EfuseMap.thy ===== *)
theory EfuseMap
  imports EfuseWrite
begin

text \<open>
  Writing the map and reading it back. The locale \<open>efuse_chip\<close> states what is relied on of the memory: a
  blank byte takes the value written to it, and no other byte changes. Inside it, appending a packet to
  a memory that \<open>holds\<close> packets gives a memory that holds one more, and \<open>rtw_efuse_map_write\<close> turns the
  logical map into the wanted one. The test mode of the driver is an instance.
\<close>

section \<open>Word enables\<close>

lemma word_on_bit: "i < 8 \<Longrightarrow> word_on w i \<longleftrightarrow> \<not> bit w i"
  by (simp add: word_on_def bit_iff_and_push_bit_not_eq_0)

lemma upto_4: "[0..<4] = [0, 1, 2, 3::nat]"
  by (simp add: upt_rec)

lemma words_cnt: "length (words_of data we [0..<4]) = Efuse_CalculateWordCnts we * 2"
  by (simp add: words_of_def Efuse_CalculateWordCnts_def word_on_bit upto_4)

lemma words_even: "length (words_of data we is) = 2 * length (filter (\<lambda>i. \<not> bit we i) is)"
  by (induction "is") (simp_all add: words_of_def)

definition taken_words :: "u8 \<Rightarrow> bytes \<Rightarrow> bytes" where
  "taken_words we data = efuse_WordEnableDataRead we data (replicate 8 0xFF)"

lemma taken_words_length [simp]: "length (taken_words we data) = 8"
  by (simp add: taken_words_def efuse_WordEnableDataRead_def upto_4)

lemma taken_words_nth: "n < 8 \<Longrightarrow> \<not> bit we (n div 2) \<Longrightarrow> taken_words we data ! n = data ! n"
  by (drule less_8_cases, unfold insert_iff empty_iff, elim disjE;
      simp add: taken_words_def efuse_WordEnableDataRead_def upto_4 word_on_bit nth_list_update)

lemma words_of_cong:
  assumes "\<And>n. n < 8 \<Longrightarrow> \<not> bit we (n div 2) \<Longrightarrow> xs ! n = ys ! n"
  shows "words_of xs we [0..<4] = words_of ys we [0..<4]"
proof -
  have "xs ! (2 * i) = ys ! (2 * i) \<and> xs ! (2 * i + 1) = ys ! (2 * i + 1)" if "i < 4" "\<not> bit we i" for i
    using assms [of "2 * i"] assms [of "2 * i + 1"] that by simp
  then show ?thesis unfolding words_of_def by (intro arg_cong [where f = concat] map_cong refl) auto
qed

lemma words_of_taken: "words_of (taken_words we data) we [0..<4] = words_of data we [0..<4]"
  by (rule words_of_cong) (rule taken_words_nth)

section \<open>One more packet in the logical map\<close>

lemma data_word_bytes: "ucast (data_word data i) = data ! (2 * i)" "ucast (drop_bit 8 (data_word data i)) = data ! (2 * i + 1)"
  unfolding data_word_def by (rule bit_word_eqI; auto simp: bit_simps)+

lemma efuseTbl_at:
  assumes "n < 512"
  shows "efuseTbl W ! n = (let w = W (n div 8) (n mod 8 div 2) in if even n then ucast w else ucast (drop_bit 8 w))"
proof -
  have i: "n div 8 < 64" "n mod 8 div 2 < 4" using assms by auto
  show ?thesis
  proof (cases "even n")
    case True
    then have n: "n div 8 * 8 + n mod 8 div 2 * 2 = n" by presburger
    show ?thesis using efuseTbl_nth(1) [OF i, of W, unfolded n] True by (simp add: Let_def)
  next
    case False
    then have n: "n div 8 * 8 + (n mod 8 div 2 * 2 + 1) = n" by presburger
    show ?thesis using efuseTbl_nth(2) [OF i, of W, unfolded n] False by (simp add: Let_def)
  qed
qed

lemma logical_map_snoc:
  assumes "n < 512" "length data = 8"
  shows "logical_map (ps @ [(off, we, data)]) ! n =
    (if n div 8 = unat off \<and> \<not> bit we (n mod 8 div 2) then data ! (n mod 8) else logical_map ps ! n)"
proof -
  have e: "2 * (n mod 8 div 2) = n mod 8" if "even n" using that by presburger
  have o': "Suc (2 * (n mod 8 div 2)) = n mod 8" if "odd n"
    using that by presburger
  have "n mod 8 div 2 < 4" by auto
  then show ?thesis using e o' assms(1)
    by (auto simp: logical_map_def efuseTbl_at Let_def data_word_bytes)
qed

lemma logical_map_length [simp]: "length (logical_map ps) = 512"
  by (simp add: logical_map_def)

lemma logical_map_Nil: "logical_map [] = replicate 512 0xFF"
proof (rule nth_equalityI)
  fix n assume "n < length (logical_map [])"
  then show "logical_map [] ! n = replicate 512 0xFF ! n"
    by (simp add: logical_map_def efuseTbl_at blank_words_def Let_def drop_bit_eq_div)
qed simp

section \<open>The wanted map\<close>

lemma mask_fold:
  "length e = 512 \<Longrightarrow> n < 512 \<Longrightarrow>
   fold (\<lambda>i e. if masked (a + i) then e[a + i := m ! (a + i)] else e) [0..<c] e ! n =
     (if a \<le> n \<and> n < a + c \<and> masked n then m ! n else e ! n) \<and>
   length (fold (\<lambda>i e. if masked (a + i) then e[a + i := m ! (a + i)] else e) [0..<c] e) = 512"
proof (induction c)
  case (Suc c)
  then show ?case by (auto simp: nth_list_update le_less_Suc_eq)
qed auto

lemma wanted_map_props:
  assumes "length m = 512" "a + c \<le> 512" "c \<le> length data"
  shows "length (wanted_map masked m a c data) = 512"
    "n < 512 \<Longrightarrow> wanted_map masked m a c data ! n = (if a \<le> n \<and> n < a + c \<and> \<not> masked n then data ! (n - a) else m ! n)"
proof -
  let ?e = "take a m @ take c data @ drop (a + c) m"
  have e: "length ?e = 512" using assms by simp
  show "length (wanted_map masked m a c data) = 512"
    using mask_fold [OF e, of 0 masked a m c] by (simp add: wanted_map_def)
  have "?e ! n = (if a \<le> n \<and> n < a + c then data ! (n - a) else m ! n)" if "n < 512"
    using that assms by (auto simp: nth_append min_def)
  then show "n < 512 \<Longrightarrow> wanted_map masked m a c data ! n = (if a \<le> n \<and> n < a + c \<and> \<not> masked n then data ! (n - a) else m ! n)"
    using mask_fold [OF e, of n masked a m c] by (simp add: wanted_map_def)
qed

lemma wanted_map_split:
  assumes "length m = 512" "a + c \<le> 512" "c \<le> length data"
  shows "take (a + c) (wanted_map masked m a c data) @ drop (a + c) m = wanted_map masked m a c data"
  using assms by (intro nth_equalityI) (auto simp: wanted_map_props nth_append)

section \<open>Scanning a section\<close>

text \<open>
  What the scan of the section at byte \<open>b\<close> of the map leaves: \<open>D k\<close> says that byte \<open>k\<close> of the section is in the
  range and changes.
\<close>

definition scanned :: "bytes \<Rightarrow> (nat \<Rightarrow> bool) \<Rightarrow> nat \<Rightarrow> nat \<Rightarrow> u8 \<Rightarrow> bytes \<Rightarrow> u8 \<times> bytes \<times> nat \<Rightarrow> bool" where
  "scanned e D b i w nd r \<longleftrightarrow> (case r of (w', nd', idx') \<Rightarrow> length nd' = 8 \<and>
     (\<forall>k < 8. nd' ! k = (if i \<le> k \<and> D k then e ! (b + k) else nd ! k)) \<and>
     (\<forall>j < 8. bit w' j \<longleftrightarrow> bit w j \<and> (\<forall>k < 8. k div 2 = j \<longrightarrow> i \<le> k \<longrightarrow> \<not> D k)))"

lemma le_step: "(i::nat) \<le> k \<longleftrightarrow> k = i \<or> Suc i \<le> k"
  by auto

lemma scanned_skip:
  assumes "\<not> D i" "scanned e D b (Suc i) w nd r"
  shows "scanned e D b i w nd r"
proof -
  have "i \<le> k \<and> D k \<longleftrightarrow> Suc i \<le> k \<and> D k" "(i \<le> k \<longrightarrow> \<not> D k) \<longleftrightarrow> (Suc i \<le> k \<longrightarrow> \<not> D k)" for k
    using assms(1) le_step [of i k] by auto
  then show ?thesis using assms(2) by (simp only: scanned_def)
qed

lemma scanned_take:
  assumes "D i" "i < 8" "length nd = 8" "scanned e D b (Suc i) (w AND NOT (push_bit (i div 2) 1)) (nd[i := e ! (b + i)]) r"
  shows "scanned e D b i w nd r"
proof -
  obtain w' nd' x where r: "r = (w', nd', x)" by (cases r)
  have n: "(if i \<le> k \<and> D k then e ! (b + k) else nd ! k) =
      (if Suc i \<le> k \<and> D k then e ! (b + k) else nd[i := e ! (b + i)] ! k)" if "k < 8" for k
    using assms that le_step [of i k] by (auto simp: nth_list_update)
  have b: "bit (w AND NOT (push_bit (i div 2) 1)) j \<longleftrightarrow> bit w j \<and> j \<noteq> i div 2" if "j < 8" for j
    using that by (auto simp: bit_simps bit_1_iff)
  have "j \<noteq> i div 2 \<and> (\<forall>k < 8. k div 2 = j \<longrightarrow> Suc i \<le> k \<longrightarrow> \<not> D k) \<longleftrightarrow> (\<forall>k < 8. k div 2 = j \<longrightarrow> i \<le> k \<longrightarrow> \<not> D k)" for j
  proof
    assume "j \<noteq> i div 2 \<and> (\<forall>k < 8. k div 2 = j \<longrightarrow> Suc i \<le> k \<longrightarrow> \<not> D k)"
    then show "\<forall>k < 8. k div 2 = j \<longrightarrow> i \<le> k \<longrightarrow> \<not> D k" by (metis le_step)
  next
    assume "\<forall>k < 8. k div 2 = j \<longrightarrow> i \<le> k \<longrightarrow> \<not> D k"
    then show "j \<noteq> i div 2 \<and> (\<forall>k < 8. k div 2 = j \<longrightarrow> Suc i \<le> k \<longrightarrow> \<not> D k)"
      using assms(1,2) by (metis Suc_leD order_refl)
  qed
  then show ?thesis using assms(4) n b by (simp add: scanned_def r)
qed

lemma section_scan_scanned:
  assumes "a + idx = b + i" "i \<le> 8" "length nd = 8" "idx \<le> c"
  shows "scanned e (\<lambda>k. b + k < a + c \<and> e ! (b + k) \<noteq> m ! (b + k)) b i w nd (section_scan e m a c i idx w nd) \<and>
    a + snd (snd (section_scan e m a c i idx w nd)) = min (a + c) (b + 8)"
  using assms
proof (induction "8 - i" arbitrary: i idx w nd)
  case 0
  then have "i = 8" by simp
  then show ?case using 0 by (subst (1 2) section_scan.simps) (simp add: scanned_def)
next
  case (Suc n)
  let ?D = "\<lambda>k. b + k < a + c \<and> e ! (b + k) \<noteq> m ! (b + k)"
  have i: "i < 8" "n = 8 - Suc i" using Suc.hyps(2) by simp_all
  show ?case
  proof (cases "idx < c")
    case True
    then have r: "b + i < a + c" "a + idx = b + i" "a + Suc idx = b + Suc i" using Suc.prems(1) by simp_all
    note IH = Suc.hyps(1) [OF i(2) r(3) Suc_leI [OF i(1)] _ Suc_leI [OF True]]
    show ?thesis
    proof (cases "e ! (b + i) = m ! (b + i)")
      case e: True
      have eq: "section_scan e m a c i idx w nd = section_scan e m a c (Suc i) (Suc idx) w nd"
        using e r i True by (subst section_scan.simps) simp
      have "\<not> ?D i" using e by simp
      from scanned_skip [where D = ?D, OF this] IH [OF Suc.prems(3)] show ?thesis unfolding eq by blast
    next
      case False
      have eq: "section_scan e m a c i idx w nd =
          section_scan e m a c (Suc i) (Suc idx) (w AND NOT (push_bit (i div 2) 1)) (nd[i := e ! (b + i)])"
        using False r i True by (subst section_scan.simps) simp
      have "?D i" "length (nd[i := e ! (b + i)]) = 8" using False r Suc.prems(3) by simp_all
      from scanned_take [where D = ?D, OF this(1) i(1) Suc.prems(3)] IH [OF this(2)]
      show ?thesis unfolding eq by blast
    qed
  next
    case False
    then have "section_scan e m a c i idx w nd = (w, nd, idx)" "b + i = a + c"
      using Suc.prems by (subst section_scan.simps, simp, simp)
    then show ?thesis using Suc.prems i by (auto simp: scanned_def)
  qed
qed

lemma scan_section_spec:
  assumes r: "scan_section e m a c idx (of_nat off) = (w', nd', idx')" and off: "off = (a + idx) div 8"
    and b: "idx < c" "a + c \<le> 512" "length m = 512"
  shows "a + idx' = min (a + c) (off * 8 + 8)" "length nd' = 8" "unat w' < 16"
    "\<And>k. k < 8 \<Longrightarrow> nd' ! k = (if a + idx \<le> off * 8 + k \<and> off * 8 + k < a + c then e ! (off * 8 + k) else m ! (off * 8 + k))"
    "\<And>j. j < 4 \<Longrightarrow> bit w' j \<longleftrightarrow> (\<forall>k < 8. k div 2 = j \<longrightarrow> a + idx \<le> off * 8 + k \<longrightarrow> off * 8 + k < a + c \<longrightarrow>
       e ! (off * 8 + k) = m ! (off * 8 + k))"
proof -
  let ?i = "(a + idx) mod 8" and ?D = "\<lambda>k. off * 8 + k < a + c \<and> e ! (off * 8 + k) \<noteq> m ! (off * 8 + k)"
  have o': "off < 64" using off b by simp
  then have u: "unat (of_nat off :: u8) = off" by (simp add: unat_of_nat)
  have n: "a + idx = off * 8 + ?i" unfolding off by simp
  have l: "length (take 8 (drop (off * 8) m)) = 8" using o' b(3) by simp
  have i: "?i < 8" by simp
  have le: "?i \<le> k \<longleftrightarrow> a + idx \<le> off * 8 + k" for k using n by linarith
  have "scanned e ?D (off * 8) ?i 0x0F (take 8 (drop (off * 8) m)) (w', nd', idx')"
    and s: "a + idx' = min (a + c) (off * 8 + 8)"
    using section_scan_scanned [OF n less_imp_le [OF i] l, of c e m "0x0F"] b r by (simp_all add: scan_section_def u)
  note s = s this [unfolded scanned_def prod.case le]
  show "a + idx' = min (a + c) (off * 8 + 8)" "length nd' = 8" using s by simp_all
  show "nd' ! k = (if a + idx \<le> off * 8 + k \<and> off * 8 + k < a + c then e ! (off * 8 + k) else m ! (off * 8 + k))" if "k < 8" for k
    using s(2) that o' b(3) by auto
  have bit15: "bit (15 :: u8) j \<longleftrightarrow> j < 4" if "j < 8" for j using that by (auto dest!: less_8_cases)
  show "bit w' j \<longleftrightarrow> (\<forall>k < 8. k div 2 = j \<longrightarrow> a + idx \<le> off * 8 + k \<longrightarrow> off * 8 + k < a + c \<longrightarrow>
       e ! (off * 8 + k) = m ! (off * 8 + k))" if "j < 4" for j
    using s(2)[THEN conjunct2, THEN conjunct2, rule_format, of j] that bit15 [of j] by simp
  have "take_bit 4 w' = w'"
  proof (rule bit_word_eqI)
    fix j assume "j < LENGTH(8)"
    then show "bit (take_bit 4 w') j = bit w' j"
      using s(2)[THEN conjunct2, THEN conjunct2, rule_format, of j] bit15 [of j] by (simp add: bit_simps)
  qed
  then have "take_bit 4 (unat w') = unat w'" by (metis unsigned_take_bit_eq)
  then show "unat w' < 16" using take_bit_nat_less_exp [of 4 "unat w'"] by simp
qed

lemma logical_map_section:
  assumes r: "scan_section e m a c idx (of_nat off) = (w', nd', idx')" and off: "off = (a + idx) div 8"
    and b: "idx < c" "a + c \<le> 512" "length m = 512" "length e = 512"
    and same: "\<forall>n < a. e ! n = m ! n" and start: "idx = 0 \<or> (a + idx) mod 8 = 0"
    and lm: "logical_map ps = take (a + idx) e @ drop (a + idx) m"
  shows "w' \<noteq> 0x0F \<Longrightarrow> logical_map (ps @ [(of_nat off, w', taken_words w' nd')]) = take (a + idx') e @ drop (a + idx') m"
    "w' = 0x0F \<Longrightarrow> logical_map ps = take (a + idx') e @ drop (a + idx') m"
proof -
  note s = scan_section_spec [OF r off b(1-3)]
  have o': "off < 64" using off b by simp
  then have u: "unat (of_nat off :: u8) = off" by (simp add: unat_of_nat)
  have lo: "off * 8 \<le> a + idx" "a + idx < off * 8 + 8" unfolding off by presburger+
  have n8: "off * 8 + n mod 8 = n" if "n div 8 = off" for n using that by auto
  have low: "e ! n = m ! n" if "off * 8 \<le> n" "n < a + idx" for n
  proof -
    have "idx = 0" using start lo(1) that by (metis div_mult_mod_eq add.right_neutral off not_le le_less_trans)
    with that same show ?thesis by simp
  qed
  have at': "(take k e @ drop k m) ! n = (if n < k then e ! n else m ! n)" if "k \<le> 512" "n < 512" for k n
    using that b by (simp add: nth_append)
  have i: "a + idx' \<le> 512" "a + idx \<le> a + idx'" using s(1) b lo by simp_all
  have sec: "n div 8 = off \<longleftrightarrow> off * 8 \<le> n \<and> n < off * 8 + 8" for n :: nat by auto
  have same_bit: "e ! n = m ! n" if "n div 8 = off" "bit w' (n mod 8 div 2)" "a + idx \<le> n" "n < a + c" for n
  proof -
    have "n mod 8 div 2 < 4" by auto
    from s(5) [OF this, THEN iffD1, OF that(2), rule_format, of "n mod 8"] show ?thesis
      using that(3,4) n8 [OF that(1)] by simp
  qed
  show "logical_map ps = take (a + idx') e @ drop (a + idx') m" if w: "w' = 0x0F"
  proof (rule nth_equalityI)
    fix n assume "n < length (logical_map ps)"
    then have n: "n < 512" by simp
    have "n mod 8 div 2 = 0 \<or> n mod 8 div 2 = 1 \<or> n mod 8 div 2 = 2 \<or> n mod 8 div 2 = 3" by auto
    then have "bit w' (n mod 8 div 2)" unfolding w by auto
    then have "e ! n = m ! n" if "a + idx \<le> n" "n < a + idx'"
      using same_bit that s(1) lo sec by simp
    then show "logical_map ps ! n = (take (a + idx') e @ drop (a + idx') m) ! n"
      unfolding lm using n i by (auto simp: at')
  qed (use b i in simp)
  show "logical_map (ps @ [(of_nat off, w', taken_words w' nd')]) = take (a + idx') e @ drop (a + idx') m"
  proof (rule nth_equalityI)
    fix n assume "n < length (logical_map (ps @ [(of_nat off, w', taken_words w' nd')]))"
    then have n: "n < 512" by simp
    show "logical_map (ps @ [(of_nat off, w', taken_words w' nd')]) ! n = (take (a + idx') e @ drop (a + idx') m) ! n"
    proof (cases "n div 8 = off \<and> \<not> bit w' (n mod 8 div 2)")
      case True
      have "taken_words w' nd' ! (n mod 8) = nd' ! (n mod 8)" using True by (intro taken_words_nth) auto
      also have "\<dots> = (if a + idx \<le> n \<and> n < a + c then e ! n else m ! n)"
        using s(4) [of "n mod 8"] n8 True by simp
      finally show ?thesis
        using True n i low [of n] sec [of n] s(1) by (simp add: logical_map_snoc u at')
    next
      case False
      then have "logical_map (ps @ [(of_nat off, w', taken_words w' nd')]) ! n = logical_map ps ! n"
        using n by (auto simp: logical_map_snoc u)
      moreover have "e ! n = m ! n" if "a + idx \<le> n" "n < a + idx'"
        using False same_bit [of n] that s(1) lo sec [of n] by simp
      ultimately show ?thesis unfolding lm using n i by (auto simp: at')
    qed
  qed (use b i in simp)
qed

text \<open>A memory that holds packets, and a used size that is a boundary between two of them.\<close>

definition packed :: "'d efuse_ops \<Rightarrow> 'd efuse \<Rightarrow> packet list \<Rightarrow> bool" where
  "packed ops s ps \<longleftrightarrow> holds (eo_cell ops (ef_dev s)) ps \<and>
     (\<exists>qs rs. ps = qs @ rs \<and> ef_used s = length (pkts_bytes qs))"

text \<open>The used size that a write of the map reckons with: after a read by the firmware it is the one noted before.\<close>

definition known_used :: "'d efuse_ops \<Rightarrow> 'd efuse \<Rightarrow> packet list \<Rightarrow> nat" where
  "known_used ops s ps =
     (if rtw_IOL_applied ops \<and> eo_iol ops (ef_dev s) \<noteq> None \<and> ef_used s \<noteq> 0 then ef_used s else length (pkts_bytes ps))"

lemma known_used_le: "packed ops s ps \<Longrightarrow> known_used ops s ps \<le> length (pkts_bytes ps)"
  by (auto simp: packed_def known_used_def)

section \<open>Chips\<close>

locale efuse_chip =
  fixes ops :: "'d efuse_ops" and ok :: "'d \<Rightarrow> bool"
  assumes read_cell: "ok d \<Longrightarrow> a < 256 \<Longrightarrow> eo_read ops d a old = (True, eo_cell ops d a)"
    and write_blank: "ok d \<Longrightarrow> a < 256 \<Longrightarrow> eo_cell ops d a = 0xFF \<Longrightarrow> eo_cell ops (eo_write ops d a v) a = v"
    and write_other: "ok d \<Longrightarrow> a < 256 \<Longrightarrow> b < 256 \<Longrightarrow> b \<noteq> a \<Longrightarrow> eo_cell ops (eo_write ops d a v) b = eo_cell ops d b"
    and write_ok: "ok d \<Longrightarrow> ok (eo_write ops d a v)"
    and iol_content: "ok d \<Longrightarrow> eo_iol ops d = Some mem \<Longrightarrow>
      (\<exists>n \<ge> 256. unat (mem 0) + 256 * unat (mem 1) = n + 2) \<and> (\<forall>a < 256. mem (2 + a) = eo_cell ops d a)"
begin

text \<open>\<open>d'\<close> is \<open>d\<close> with \<open>bs\<close> at address \<open>a\<close>.\<close>

definition puts :: "'d \<Rightarrow> nat \<Rightarrow> bytes \<Rightarrow> 'd \<Rightarrow> bool" where
  "puts d a bs d' \<longleftrightarrow> ok d' \<and> (\<forall>b < 256. eo_cell ops d' b =
     (if a \<le> b \<and> b < a + length bs then bs ! (b - a) else eo_cell ops d b))"

definition blank :: "'d \<Rightarrow> nat \<Rightarrow> nat \<Rightarrow> bool" where
  "blank d a n \<longleftrightarrow> ok d \<and> a + n \<le> 256 \<and> (\<forall>b. a \<le> b \<and> b < a + n \<longrightarrow> eo_cell ops d b = 0xFF)"

lemma puts_Nil: "ok d \<Longrightarrow> puts d a [] d"
  unfolding puts_def by auto

lemma puts_append:
  assumes "puts d a xs d1" "puts d1 (a + length xs) ys d2"
  shows "puts d a (xs @ ys) d2"
  using assms by (auto simp: puts_def nth_append)

lemma puts_one: "blank d a (Suc n) \<Longrightarrow> puts d a [v] (eo_write ops d a v)"
  using write_blank write_other write_ok by (auto simp: puts_def blank_def le_less_Suc_eq)

lemma puts_blank: "puts d a bs d' \<Longrightarrow> blank d a n \<Longrightarrow> length bs \<le> n \<Longrightarrow> blank d' (a + length bs) (n - length bs)"
  by (auto simp: puts_def blank_def)

lemma puts_read:
  "puts d a bs d' \<Longrightarrow> n < length bs \<Longrightarrow> a + n < 256 \<Longrightarrow> eo_read ops d' (a + n) old = (True, bs ! n)"
  using read_cell by (auto simp: puts_def)

lemma word_writes_puts:
  assumes "blank d a (length (words_of data we is))" "\<forall>i \<in> set is. i < 8"
  shows "\<exists>d'. word_writes ops is we data a bad d = (bad, d') \<and> puts d a (words_of data we is) d'"
  using assms
proof (induction "is" arbitrary: a d)
  case Nil
  then show ?case using puts_Nil by (simp add: words_of_def blank_def)
next
  case (Cons i "is")
  show ?case
  proof (cases "bit we i")
    case True
    with Cons.prems Cons.IH [of d a] show ?thesis by (simp add: words_of_def word_on_bit)
  next
    case False
    let ?x = "data ! (2 * i)" and ?y = "data ! (2 * i + 1)" and ?n = "length (words_of data we is)"
    have b: "blank d a (Suc (Suc ?n))" using Cons.prems(1) False by (simp add: words_of_def)
    let ?d1 = "eo_write ops d a ?x"
    have p1: "puts d a [?x] ?d1" by (rule puts_one [OF b])
    have "blank ?d1 (a + 1) (Suc ?n)" using puts_blank [OF p1 b] by simp
    then have "puts ?d1 (a + length [?x]) [?y] (eo_write ops ?d1 (a + 1) ?y)" using puts_one by simp
    note p = puts_append [OF p1 this]
    let ?d2 = "eo_write ops ?d1 (a + 1) ?y"
    have "blank ?d2 (a + 2) ?n" using puts_blank [OF p b] by simp
    then have "\<exists>d'. word_writes ops is we data (a + 2) bad ?d2 = (bad, d') \<and> puts ?d2 (a + 2) (words_of data we is) d'"
      by (rule Cons.IH) (use Cons.prems(2) in simp)
    then obtain d' where d': "word_writes ops is we data (a + 2) bad ?d2 = (bad, d')"
      "puts ?d2 (a + 2) (words_of data we is) d'" by blast
    have "a + 1 < 256" using b by (simp add: blank_def)
    then have r: "eo_read ops ?d2 a 0xFF = (True, ?x)" "eo_read ops ?d2 (Suc a) 0xFF = (True, ?y)"
      using puts_read [OF p, of 0] puts_read [OF p, of 1] by simp_all
    have "words_of data we (i # is) = ([?x] @ [?y]) @ words_of data we is" using False by (simp add: words_of_def)
    then have "puts d a (words_of data we (i # is)) d'" using puts_append [OF p] d'(2) by simp
    moreover have "word_writes ops (i # is) we data a bad d = (bad, d')"
      using False Cons.prems(2) d'(1) r by (simp add: word_on_bit Let_def)
    ultimately show ?thesis by blast
  qed
qed

lemma write_header_byte_puts:
  assumes "blank d a (Suc n)" "h \<noteq> 0xFF"
  shows "write_header_byte ops a h cnt t d = (True, cnt, eo_write ops d a h)" "puts d a [h] (eo_write ops d a h)"
proof -
  show p: "puts d a [h] (eo_write ops d a h)" by (rule puts_one [OF assms(1)])
  have "eo_read ops (eo_write ops d a h) a t = (True, h)"
    using puts_read [OF p, of 0] assms(1) by (simp add: blank_def)
  then show "write_header_byte ops a h cnt t d = (True, cnt, eo_write ops d a h)"
    using assms(2) by (simp add: write_header_byte_def Let_def header_retry.simps)
qed

lemma write_header_puts:
  assumes "unat off < 64" "unat we < 15" "blank d a n" "length (pkt_header off we) \<le> n" "a < 238"
  shows "\<exists>d'. hal_EfusePgPacketWriteHeader ops (off, we, data) a d = (True, a + length (pkt_header off we) - 1, d') \<and>
    puts d a (pkt_header off we) d'"
proof (cases "unat off < 16")
  case True
  note hh = header1 [OF True assms(2)]
  let ?h = "push_bit 4 off OR we"
  have h: "(push_bit 4 off AND 0xF0) OR we = ?h"
    by (rule bit_word_eqI) (auto simp: bit_simps dest!: less_8_cases)
  have "blank d a (Suc (n - 1))" using assms(3,4) True by (simp add: pkt_header_def efuse_consts)
  note w = write_header_byte_puts [OF this hh(3)]
  show ?thesis
    using True w by (simp add: hal_EfusePgPacketWriteHeader_def hal_EfusePgPacketWrite1ByteHeader_def h pkt_header_def efuse_consts)
next
  case False
  note hh = header2 [OF assms(1,2)]
  let ?h = "push_bit 5 (off AND 7) OR 0x0F" and ?e = "push_bit 1 (off AND 0x78) OR we"
  have l: "pkt_header off we = [?h, ?e]" using False by (simp add: pkt_header_def efuse_consts)
  have "Suc (Suc (n - 2)) = n" using assms(4) l by simp
  then have b: "blank d a (Suc (Suc (n - 2)))" using assms(3) by simp
  note w1 = write_header_byte_puts [OF b hh(2)]
  have "?e \<noteq> 0xFF" using hh(3) nibble(2) [OF assms(2)] by auto
  moreover have "blank (eo_write ops d a ?h) (Suc a) (Suc (n - 2))" using puts_blank [OF w1(2) b] by simp
  ultimately have w2: "write_header_byte ops (Suc a) ?e cnt t (eo_write ops d a ?h) =
      (True, cnt, eo_write ops (eo_write ops d a ?h) (Suc a) ?e)"
    "puts (eo_write ops d a ?h) (Suc a) [?e] (eo_write ops (eo_write ops d a ?h) (Suc a) ?e)" for cnt t
    using write_header_byte_puts by blast+
  have "puts d a [?h, ?e] (eo_write ops (eo_write ops d a ?h) (Suc a) ?e)"
    using puts_append [OF w1(2), of "[?e]"] w2(2) by simp
  moreover have "hal_EfusePgPacketWriteHeader ops (off, we, data) a d =
      (True, Suc a, eo_write ops (eo_write ops d a ?h) (Suc a) ?e)"
    using False assms(5) hh(3) nibble(2) [OF assms(2)]
    by (simp add: hal_EfusePgPacketWriteHeader_def header2_loop.simps [of ops off we 0] efuse_consts efuse_w_consts
        Let_def w1 w2 Suc_eq_plus1 [symmetric] del: push_bit_and One_nat_def)
  ultimately show ?thesis by (auto simp: l)
qed

text \<open>The walk over the headers from a packet boundary ends behind the last packet.\<close>

lemma size_loop_packet:
  assumes d: "ok d" and p: "pkt_ok p" and at: "at (eo_cell ops d) a (pkt_bytes p)" and e: "a + length (pkt_bytes p) < 256"
  shows "size_loop ops d a = size_loop ops d (a + length (pkt_bytes p))"
proof -
  obtain off we data where pe: "p = (off, we, data)" by (cases p)
  have k: "unat off < 64" "unat we < 15" using p by (simp_all add: pe)
  have r: "eo_read ops d b old = (True, eo_cell ops d b)" if "b < 256" for b old using read_cell d that by blast
  show ?thesis
  proof (cases "unat off < 16")
    case True
    note hh = header1 [OF True k(2)]
    have "eo_cell ops d a = push_bit 4 off OR we" "length (pkt_bytes p) = 1 + Efuse_CalculateWordCnts we * 2"
      using at True by (simp_all add: pe pkt_header_def efuse_consts words_cnt)
    then show ?thesis using e hh r
      by (subst size_loop.simps) (simp add: efuse_w_consts Let_def)
  next
    case False
    note hh = header2 [OF k]
    have c: "eo_cell ops d a = push_bit 5 (off AND 7) OR 0x0F" "eo_cell ops d (a + 1) = push_bit 1 (off AND 0x78) OR we"
      "length (pkt_bytes p) = 2 + Efuse_CalculateWordCnts we * 2"
      using at False by (simp_all add: pe pkt_header_def efuse_consts words_cnt)
    have r': "eo_read ops d a old = (True, push_bit 5 (off AND 7) OR 0x0F)"
      "eo_read ops d (a + 1) old = (True, push_bit 1 (off AND 0x78) OR we)" for old
      using r [of a] r [of "a + 1"] e c by simp_all
    have l: "\<not> EFUSE_REAL_CONTENT_LEN \<le> a" using e by (simp add: efuse_w_consts)
    show ?thesis
      by (subst size_loop.simps)
        (simp add: l r' hh(1,2,3) nibble(2) [OF k(2)] c(3) Let_def EXT_HEADER_def ALL_WORDS_DISABLED_def
          add.assoc del: push_bit_and One_nat_def)
  qed
qed

lemma size_loop_packets:
  assumes "ok d" "\<forall>p \<in> set ps. pkt_ok p" "at (eo_cell ops d) a (pkts_bytes ps)"
    "a + length (pkts_bytes ps) < 256" "eo_cell ops d (a + length (pkts_bytes ps)) = 0xFF"
  shows "size_loop ops d a = a + length (pkts_bytes ps)"
  using assms(2-)
proof (induction ps arbitrary: a)
  case Nil
  then show ?case using read_cell [OF assms(1)] by (subst size_loop.simps) simp
next
  case (Cons p ps)
  have "size_loop ops d a = size_loop ops d (a + length (pkt_bytes p))"
    using Cons.prems by (intro size_loop_packet assms(1)) simp_all
  also have "\<dots> = a + length (pkt_bytes p) + length (pkts_bytes ps)"
    using Cons.prems by (intro Cons.IH) (simp_all add: add.assoc)
  finally show ?case by simp
qed

definition estate :: "'d efuse \<Rightarrow> packet list \<Rightarrow> bool" where
  "estate s ps \<longleftrightarrow> ok (ef_dev s) \<and> packed ops s ps"

lemma current_size:
  assumes "estate s ps"
  shows "hal_EfuseGetCurrentSize_8188e ops s = (length (pkts_bytes ps), s\<lparr>ef_used := length (pkts_bytes ps)\<rparr>)"
    "estate (s\<lparr>ef_used := length (pkts_bytes ps)\<rparr>) ps"
proof -
  from assms obtain qs rs where ps: "ps = qs @ rs" "ef_used s = length (pkts_bytes qs)"
    and d: "ok (ef_dev s)" and h: "holds (eo_cell ops (ef_dev s)) ps" by (auto simp: estate_def packed_def)
  have n: "size_loop ops (ef_dev s) (length (pkts_bytes qs)) = length (pkts_bytes qs) + length (pkts_bytes rs)"
    using h ps(1) by (intro size_loop_packets d) (auto simp: holds_def)
  show "hal_EfuseGetCurrentSize_8188e ops s = (length (pkts_bytes ps), s\<lparr>ef_used := length (pkts_bytes ps)\<rparr>)"
    unfolding hal_EfuseGetCurrentSize_8188e_def Let_def ps(2) n by (simp add: ps(1))
  have "ps = ps @ []" by simp
  then show "estate (s\<lparr>ef_used := length (pkts_bytes ps)\<rparr>) ps" using d h unfolding estate_def packed_def by (intro conjI exI) simp_all
qed

lemma holds_blank:
  assumes "ok d" "holds (eo_cell ops d) ps" "length (pkts_bytes ps) + n \<le> 256"
  shows "blank d (length (pkts_bytes ps)) n"
  using assms by (auto simp: blank_def holds_def)

lemma puts_holds:
  assumes h: "holds (eo_cell ops d) ps" and p: "puts d (length (pkts_bytes ps)) (pkt_bytes p) d'" "pkt_ok p"
    and l: "length (pkts_bytes ps) + length (pkt_bytes p) < 256"
  shows "holds (eo_cell ops d') (ps @ [p])"
  using assms by (auto simp: holds_def puts_def at_def nth_append)

text \<open>Writing a packet where there is room appends it.\<close>

lemma pg_write_append:
  assumes s: "estate s ps" and p: "unat off < 64" "unat we < 15" "length data = 8"
    and room: "length (pkts_bytes ps) + length (pkt_bytes (off, we, data)) < 238"
  shows "\<exists>s'. hal_EfusePgPacketWrite_8188e (Suc n) ops off we data s = Some (True, s') \<and>
    estate s' (ps @ [(off, we, taken_words we data)])"
proof -
  let ?L = "length (pkts_bytes ps)" and ?d = "ef_dev s" and ?pd = "taken_words we data"
  let ?s = "s\<lparr>ef_used := ?L\<rparr>"
  have d: "ok ?d" and h: "holds (eo_cell ops ?d) ps" using s by (auto simp: estate_def packed_def)
  have avail: "hal_EfusePgCheckAvailableAddr ops s = (True, ?s)"
    using current_size [OF s] room by (simp add: hal_EfusePgCheckAvailableAddr_def efuse_consts)
  have ff: "eo_read ops ?d ?L 0 = (True, 0xFF)" using read_cell [OF d, of ?L] h room by (simp add: holds_def)
  have pc: "hal_EfusePartialWriteCheck pgw ops (hal_EfuseConstructPGPkt off we data) ?s = Some (True, ?L, (off, we, ?pd), ?s)" for pgw
    using room ff
    by (simp add: hal_EfusePartialWriteCheck_def partial_check.simps [of pgw ops ?L] efuse_w_consts
        hal_EfuseConstructPGPkt_def taken_words_def)
  let ?H = "length (pkt_header off we)" and ?W = "length (words_of ?pd we [0..<4])"
  have HW: "?L + (?H + ?W) < 238" using room by (simp add: words_of_taken)
  have b: "blank ?d ?L (?H + ?W)" using holds_blank [OF d h] HW by simp
  obtain d1 where h1: "hal_EfusePgPacketWriteHeader ops (off, we, ?pd) ?L ?d = (True, ?L + ?H - 1, d1)"
    "puts ?d ?L (pkt_header off we) d1"
    using write_header_puts [OF p(1,2) b] HW by auto
  have H: "0 < ?H" by (simp add: pkt_header_def)
  have b1: "blank d1 (?L + ?H) ?W" using puts_blank [OF h1(2) b] by simp
  obtain d2 where h2: "Hal_EfuseWordEnableDataWrite ops (?L + ?H) we ?pd d1 = (0x0F, d2)"
    "puts d1 (?L + ?H) (words_of ?pd we [0..<4]) d2"
    using word_writes_puts [OF b1, of "0x0F"] by (auto simp: Hal_EfuseWordEnableDataWrite_def)
  have "puts ?d ?L (pkt_bytes (off, we, ?pd)) d2" using puts_append [OF h1(2) h2(2)] by simp
  then have "holds (eo_cell ops d2) (ps @ [(off, we, ?pd)])"
    using HW p by (intro puts_holds [OF h]) simp_all
  moreover have "ok d2" using h2(2) by (simp add: puts_def)
  ultimately have "estate (?s\<lparr>ef_dev := d2\<rparr>) (ps @ [(off, we, ?pd)])"
    unfolding estate_def packed_def by (intro conjI exI [of _ ps] exI [of _ "[(off, we, ?pd)]"]) simp_all
  moreover have "hal_EfusePgPacketWrite_8188e (Suc n) ops off we data s = Some (True, ?s\<lparr>ef_dev := d2\<rparr>)"
    using H h2(1) by (simp add: avail pc h1(1) hal_EfusePgPacketWriteData_def)
  ultimately show ?thesis by blast
qed

text \<open>The sections one after the other.\<close>

lemma write_sections:
  assumes s: "estate s ps" and m: "length m = 512" "length e = 512" "a + c \<le> 512"
    and same: "\<forall>n < a. e ! n = m ! n" and start: "idx = 0 \<or> (a + idx) mod 8 = 0 \<or> idx = c"
    and c: "idx \<le> c" "lm = take (a + idx) e @ drop (a + idx) m" "logical_map ps = lm"
    and room: "length (pkts_bytes ps) + pg_total e m a c idx (of_nat ((a + idx) div 8)) < 238"
  shows "\<exists>s' qs. pg_write_sections (hal_EfusePgPacketWrite_8188e (Suc n) ops) e m a c idx (of_nat ((a + idx) div 8)) s =
      Some (RTW_SUCCESS, s') \<and> estate s' (ps @ qs) \<and> logical_map (ps @ qs) = take (a + c) e @ drop (a + c) m"
  using s start c room
proof (induction "c - idx" arbitrary: idx s ps lm rule: less_induct)
  case less
  show ?case
  proof (cases "idx < c")
    case False
    then have "idx = c" using less.prems by simp
    then show ?thesis using less.prems
      by (subst pg_write_sections.simps) (intro exI [of _ s] exI [of _ "[]"], simp)
  next
    case True
    let ?off = "(a + idx) div 8"
    obtain w nd idx' where r: "scan_section e m a c idx (of_nat ?off) = (w, nd, idx')" by (metis prod_cases3)
    note sp = scan_section_spec [OF r refl True m(3,1)]
    have o': "?off < 64" using True m by simp
    then have u: "unat (of_nat ?off :: u8) = ?off" by (simp add: unat_of_nat)
    have lo: "a + idx < ?off * 8 + 8" by simp
    have idx': "idx < idx'" "idx' \<le> c" using sp(1) True lo by linarith+
    have next_off: "idx' = c \<or> (a + idx') mod 8 = 0 \<and> (of_nat ?off + 1 :: u8) = of_nat ((a + idx') div 8)"
    proof (cases "idx' = c")
      case False
      then have "a + idx' = (?off + 1) * 8" using sp(1) by (simp add: min_def split: if_splits)
      then have "(a + idx') mod 8 = 0" "(a + idx') div 8 = ?off + 1" by simp_all
      then show ?thesis by simp
    qed simp
    have start': "idx = 0 \<or> (a + idx) mod 8 = 0" using less.prems(2) True by simp
    note lms = logical_map_section [OF r refl True m(3,1,2) same start' less.prems(5) [unfolded less.prems(4)]]
    have tail: "pg_total e m a c idx' (of_nat ?off + 1) = pg_total e m a c idx' (of_nat ((a + idx') div 8))"
      "pg_write_sections pgw e m a c idx' (of_nat ?off + 1) t = pg_write_sections pgw e m a c idx' (of_nat ((a + idx') div 8)) t"
      for pgw and t :: "'d efuse"
      using next_off by (auto simp: pg_total.simps [of _ _ _ _ c] pg_write_sections.simps [of _ _ _ _ _ c])
    show ?thesis
    proof (cases "w = 0x0F")
      case w: True
      have "pg_total e m a c idx (of_nat ?off) = pg_total e m a c idx' (of_nat ((a + idx') div 8))"
        using True r w by (subst pg_total.simps) (simp add: tail)
      then have "length (pkts_bytes ps) + pg_total e m a c idx' (of_nat ((a + idx') div 8)) < 238"
        using less.prems(6) by simp
      from less.hyps [OF _ less.prems(1) _ idx'(2) refl lms(2) [OF w] this] idx' True next_off
      obtain s' qs where "pg_write_sections (hal_EfusePgPacketWrite_8188e (Suc n) ops) e m a c idx' (of_nat ((a + idx') div 8)) s =
          Some (RTW_SUCCESS, s')" "estate s' (ps @ qs)" "logical_map (ps @ qs) = take (a + c) e @ drop (a + c) m"
        by (metis diff_less_mono2)
      then show ?thesis using True r w
        by (subst pg_write_sections.simps) (simp add: tail, blast)
    next
      case False
      let ?p = "(of_nat ?off, w, nd) :: packet" and ?q = "(of_nat ?off, w, taken_words w nd) :: packet"
      have len: "length (pkt_bytes ?q) = length (pkt_bytes ?p)" by (simp add: words_of_taken)
      have "pg_total e m a c idx (of_nat ?off) = length (pkt_bytes ?p) + pg_total e m a c idx' (of_nat ((a + idx') div 8))"
        using True r False u
        by (subst pg_total.simps) (simp add: tail words_cnt pkt_header_def efuse_consts)
      then have room: "length (pkts_bytes ps) + length (pkt_bytes ?p) < 238"
        "length (pkts_bytes (ps @ [?q])) + pg_total e m a c idx' (of_nat ((a + idx') div 8)) < 238"
        using less.prems(6) len by simp_all
      have "unat w \<noteq> 15" using False by (simp add: word_unat_eq_iff)
      then have "unat w < 15" using sp(3) by simp
      from pg_write_append [OF less.prems(1) _ this sp(2) room(1)] o' u obtain s1 where
        s1: "hal_EfusePgPacketWrite_8188e (Suc n) ops (of_nat ?off) w nd s = Some (True, s1)" "estate s1 (ps @ [?q])"
        by auto
      from less.hyps [OF _ s1(2) _ idx'(2) refl lms(1) [OF False] room(2)] idx' True next_off
      obtain s' qs where "pg_write_sections (hal_EfusePgPacketWrite_8188e (Suc n) ops) e m a c idx' (of_nat ((a + idx') div 8)) s1 =
          Some (RTW_SUCCESS, s')" "estate s' ((ps @ [?q]) @ qs)" "logical_map ((ps @ [?q]) @ qs) = take (a + c) e @ drop (a + c) m"
        by (metis diff_less_mono2)
      moreover have "(ps @ [?q]) @ qs = ps @ (?q # qs)" by simp
      ultimately show ?thesis using True r False s1(1)
        by (subst pg_write_sections.simps) (simp add: tail del: hal_EfusePgPacketWrite_8188e.simps, metis)
    qed
  qed
qed

text \<open>
  The call writes the wanted map behind the packets that are there, or finds too little room and changes
  nothing.
\<close>

lemma iol_read:
  assumes s: "estate s ps" and mem: "eo_iol ops (ef_dev s) = Some mem"
  shows "iol_read_efuse ops (ef_dev s) 0 512 (replicate 512 0xFF) = (RTW_SUCCESS, logical_map ps)"
proof -
  let ?m = "fst (efuse_read_phymap_from_txpktbuf mem (replicate 512 0xFF) 512)"
  have d: "ok (ef_dev s)" and h: "holds (eo_cell ops (ef_dev s)) ps" using s by (simp_all add: estate_def packed_def)
  obtain n where n: "256 \<le> n" "unat (mem 0) + 256 * unat (mem 1) = n + 2" "\<forall>a < 256. mem (2 + a) = eo_cell ops (ef_dev s) a"
    using iol_content [OF d mem] by blast
  have h': "holds (\<lambda>a. ?m ! a) ps" by (rule phymap_content_holds [OF n(2,1) h n(3)])
  have "efuse_phymap_to_logical ?m 0 512 (replicate 512 0xFF) = logical_map ps"
  proof (cases "ps = []")
    case True
    then show ?thesis using holds_empty [OF h'] by (simp add: efuse_phymap_to_logical_def logical_map_Nil)
  next
    case False
    then show ?thesis using phymap_holds [OF h' False, of 0 512] by simp
  qed
  then show ?thesis by (simp add: iol_read_efuse_def mem Let_def)
qed

lemma iol_read_fails:
  assumes "eo_iol ops d = None"
  shows "iol_read_efuse ops d a n buf = (RTW_FAIL, buf)"
  using assms by (simp add: iol_read_efuse_def efuse_phymap_to_logical_def)

lemma map_read:
  assumes s: "estate s ps"
  shows "rtw_efuse_map_read ops 0 512 (replicate 512 0xFF) s =
      (RTW_SUCCESS, logical_map ps,
       if rtw_IOL_applied ops \<and> eo_iol ops (ef_dev s) \<noteq> None \<or> ps = [] then s else s\<lparr>ef_used := length (pkts_bytes ps)\<rparr>)"
proof (cases "rtw_IOL_applied ops \<and> eo_iol ops (ef_dev s) \<noteq> None")
  case True
  then obtain mem where "eo_iol ops (ef_dev s) = Some mem" by blast
  from iol_read [OF s this] True show ?thesis by (simp add: rtw_efuse_map_read_def ReadEFuseByIC_def efuse_consts)
next
  case False
  have h: "holds (eo_cell ops (ef_dev s)) ps" using s by (simp add: estate_def packed_def)
  have r: "(if rtw_IOL_applied ops then iol_read_efuse ops (ef_dev s) 0 512 buf else (RTW_FAIL, buf)) = (RTW_FAIL, buf)" for buf
    using False iol_read_fails by auto
  show ?thesis
  proof (cases "ps = []")
    case True
    then show ?thesis using holds_empty [OF h]
      by (simp add: rtw_efuse_map_read_def ReadEFuseByIC_def r Hal_EfuseReadEFuse88E_def efuse_consts logical_map_Nil)
  next
    case ps: False
    then show ?thesis using read_efuse_holds [OF h ps, of 0 512] False
      by (auto simp: rtw_efuse_map_read_def ReadEFuseByIC_def r efuse_consts)
  qed
qed

lemma map_write_eq:
  assumes s: "estate s ps" and a: "addr + cnts \<le> 512"
    and e: "e = wanted_map masked (logical_map ps) addr cnts data"
    and t: "sz = pg_total e (logical_map ps) addr cnts 0 (of_nat (addr div 8))"
  obtains s' where "estate s' ps" "ef_dev s' = ef_dev s"
    "rtw_efuse_map_write n ops masked addr cnts data s =
      (if known_used ops s ps + sz \<ge> 238 then Some (RTW_FAIL, s')
       else pg_write_sections (hal_EfusePgPacketWrite_8188e n ops) e (logical_map ps) addr cnts 0 (of_nat (addr div 8)) s')"
proof -
  let ?L = "length (pkts_bytes ps)"
  let ?s = "s\<lparr>ef_used := ?L\<rparr>" and ?iol = "rtw_IOL_applied ops \<and> eo_iol ops (ef_dev s) \<noteq> None"
  have e0: "estate ?s ps" by (rule current_size(2) [OF s])
  obtain s0 where r: "rtw_efuse_map_read ops 0 512 (replicate 512 0xFF) s = (RTW_SUCCESS, logical_map ps, s0)"
    and s0: "s0 = (if ?iol \<or> ps = [] then s else ?s)" using map_read [OF s] by blast
  have s0': "estate s0 ps" "ef_dev s0 = ef_dev s" using s e0 s0 by auto
  define s1 where "s1 = (if ef_used s0 = 0 then ?s else s0)"
  have L: "?L \<noteq> 0" if ne: "ps \<noteq> []"
  proof -
    obtain p qs where p: "ps = p # qs" "pkt_ok p" using s ne by (cases ps) (auto simp: estate_def packed_def holds_def)
    then show ?thesis using pkt_bytes_head [OF p(2)] by auto
  qed
  have g: "(if ef_used s0 = 0 then hal_EfuseGetCurrentSize_8188e ops s0 else (ef_used s0, s0)) = (known_used ops s ps, s1)"
  proof (cases "ef_used s0 = 0")
    case True
    have "s0\<lparr>ef_used := ?L\<rparr> = ?s" by (simp add: s0)
    moreover have "known_used ops s ps = ?L" using True L s0 by (auto simp: known_used_def split: if_splits)
    ultimately show ?thesis using current_size(1) [OF s0'(1)] True by (simp add: s1_def)
  next
    case False
    have "ps = [] \<longrightarrow> ef_used s = 0" using s by (auto simp: estate_def packed_def)
    then have "known_used ops s ps = ef_used s0" using False s0 by (auto simp: known_used_def split: if_splits)
    then show ?thesis using False by (simp add: s1_def)
  qed
  have "rtw_efuse_map_write n ops masked addr cnts data s =
      (if known_used ops s ps + sz \<ge> 238 then Some (RTW_FAIL, s1)
       else pg_write_sections (hal_EfusePgPacketWrite_8188e n ops) e (logical_map ps) addr cnts 0 (of_nat (addr div 8)) s1)"
    using a r g by (simp add: rtw_efuse_map_write_def efuse_consts efuse_w_consts Let_def e t)
  moreover have "estate s1 ps" "ef_dev s1 = ef_dev s" using s0' e0 by (simp_all add: s1_def)
  ultimately show thesis using that by blast
qed

lemma map_write:
  assumes s: "estate s ps" and a: "addr + cnts \<le> 512" "cnts \<le> length data"
    and e: "e = wanted_map masked (logical_map ps) addr cnts data"
    and t: "sz = pg_total e (logical_map ps) addr cnts 0 (of_nat (addr div 8))"
  shows "length (pkts_bytes ps) + sz < 238 \<Longrightarrow> \<exists>s' qs. rtw_efuse_map_write (Suc n) ops masked addr cnts data s = Some (RTW_SUCCESS, s') \<and>
      estate s' (ps @ qs) \<and> logical_map (ps @ qs) = e"
    "238 \<le> known_used ops s ps + sz \<Longrightarrow>
      \<exists>s'. rtw_efuse_map_write (Suc n) ops masked addr cnts data s = Some (RTW_FAIL, s') \<and> ef_dev s' = ef_dev s"
proof -
  obtain s1 where s1: "estate s1 ps" "ef_dev s1 = ef_dev s"
    and w: "rtw_efuse_map_write (Suc n) ops masked addr cnts data s =
      (if known_used ops s ps + sz \<ge> 238 then Some (RTW_FAIL, s1)
       else pg_write_sections (hal_EfusePgPacketWrite_8188e (Suc n) ops) e (logical_map ps) addr cnts 0 (of_nat (addr div 8)) s1)"
    using map_write_eq [OF s a(1) e t] by metis
  have k: "known_used ops s ps \<le> length (pkts_bytes ps)" using s by (simp add: estate_def known_used_le)
  have l: "length (logical_map ps) = 512" by simp
  note wp = wanted_map_props [where masked = masked, OF l a, folded e]
  show "\<exists>s' qs. rtw_efuse_map_write (Suc n) ops masked addr cnts data s = Some (RTW_SUCCESS, s') \<and>
      estate s' (ps @ qs) \<and> logical_map (ps @ qs) = e" if fits: "length (pkts_bytes ps) + sz < 238"
  proof -
    have "\<exists>s' qs. pg_write_sections (hal_EfusePgPacketWrite_8188e (Suc n) ops) e (logical_map ps) addr cnts 0
        (of_nat ((addr + 0) div 8)) s1 = Some (RTW_SUCCESS, s') \<and> estate s' (ps @ qs) \<and>
        logical_map (ps @ qs) = take (addr + cnts) e @ drop (addr + cnts) (logical_map ps)"
    proof (rule write_sections [OF s1(1) l wp(1) a(1) _ _ _ refl])
      show "\<forall>n < addr. e ! n = logical_map ps ! n" using wp(2) a by simp
      then show "logical_map ps = take (addr + 0) e @ drop (addr + 0) (logical_map ps)"
        using wp(1) a by (intro nth_equalityI) (auto simp: nth_append)
      show "length (pkts_bytes ps) + pg_total e (logical_map ps) addr cnts 0 (of_nat ((addr + 0) div 8)) < 238" using fits t by simp
    qed simp_all
    then show ?thesis using fits k w wanted_map_split [where masked = masked, OF l a, folded e]
      by (simp del: hal_EfusePgPacketWrite_8188e.simps)
  qed
  show "\<exists>s'. rtw_efuse_map_write (Suc n) ops masked addr cnts data s = Some (RTW_FAIL, s') \<and> ef_dev s' = ef_dev s"
    if "238 \<le> known_used ops s ps + sz" using that w s1(2) by simp
qed

text \<open>
  When the firmware reads the map and packets were written since the used size was noted, a write that does not fit passes the
  check all the same and starts to write.
\<close>

lemma stale_size_writes:
  assumes s: "estate s ps" and a: "addr + cnts \<le> 512"
    and iol: "rtw_IOL_applied ops" "eo_iol ops (ef_dev s) \<noteq> None" "ef_used s \<noteq> 0"
    and e: "e = wanted_map masked (logical_map ps) addr cnts data"
    and t: "ef_used s + pg_total e (logical_map ps) addr cnts 0 (of_nat (addr div 8)) < 238"
  shows "\<exists>s'. ef_dev s' = ef_dev s \<and> rtw_efuse_map_write n ops masked addr cnts data s =
    pg_write_sections (hal_EfusePgPacketWrite_8188e n ops) e (logical_map ps) addr cnts 0 (of_nat (addr div 8)) s'"
proof -
  have "known_used ops s ps = ef_used s" using iol by (simp add: known_used_def)
  then show ?thesis using map_write_eq [OF s a e refl, of n] t by (metis linorder_not_less)
qed

end

section \<open>The test mode, and the firmware\<close>

interpretation fake: efuse_chip fake_ops "\<lambda>content. length content = EFUSE_MAX_HW_SIZE"
  by unfold_locales (simp_all add: fake_ops_def Efuse_Read1ByteFromFakeContent_def
    Efuse_Write1ByteToFakeContent_def EFUSE_MAX_HW_SIZE_def)

text \<open>The same memory, read by the firmware: 256 bytes of content behind their length.\<close>

definition iol_ops :: "bytes efuse_ops" where
  "iol_ops = fake_ops\<lparr>eo_fw_iol := 1,
     eo_iol := \<lambda>content. Some (\<lambda>k. if k = 0 then 2 else if k = 1 then 1 else content ! (k - 2))\<rparr>"

interpretation iol: efuse_chip iol_ops "\<lambda>content. length content = EFUSE_MAX_HW_SIZE"
  by unfold_locales (auto simp: iol_ops_def fake_ops_def Efuse_Read1ByteFromFakeContent_def
    Efuse_Write1ByteToFakeContent_def EFUSE_MAX_HW_SIZE_def intro!: exI [of _ 256])

end
