(* ===== verification/EfuseStore.thy ===== *)
theory EfuseStore
  imports EfuseMap
begin

text \<open>
  What a write of the map does to a later read of it, for every memory that behaves as \<open>efuse_chip\<close> says, and
  some inputs on which the packet functions do not do what they mean to.
\<close>

section \<open>The map is stored\<close>

lemma read_of_packed:
  assumes "efuse_chip ops ok" "ok (ef_dev s)" "packed ops s ps"
  shows "\<exists>u. rtw_efuse_map_read ops 0 512 (replicate 512 0xFF) s = (RTW_SUCCESS, logical_map ps, u)"
  using efuse_chip.map_read [OF assms(1), of s ps] assms by (auto simp: efuse_chip.estate_def)

text \<open>C29: with a memory in which a blank byte takes what is written to it and no other byte changes, and a firmware
  that, when it can read it, hands over its content (\<open>efuse_chip\<close>), \<open>rtw_efuse_map_write\<close> on a memory that holds packets ends.
  When the packets it needs fit it succeeds, adds packets behind the ones that are there, and reading the map then gives the data in
  the range that is not masked and the old map everywhere else; when they do not fit behind the used size that the driver reckons
  with (\<open>known_used\<close>: the one noted before the last packets when the firmware reads the map, otherwise the size of the packets)
  it fails and the memory is as it was.\<close>
theorem map_write_read_back:
  assumes hw: "efuse_chip ops ok" "ok (ef_dev s)" and s: "packed ops s ps"
    and r: "addr + cnts \<le> 512" "cnts \<le> length data"
    and old: "rtw_efuse_map_read ops 0 512 (replicate 512 0xFF) s = (RTW_SUCCESS, old, u)"
    and sz: "sz = pg_total (wanted_map masked old addr cnts data) old addr cnts 0 (of_nat (addr div 8))"
  shows "(length (pkts_bytes ps) + sz < available_bytes \<longrightarrow>
      (\<exists>s' b u. rtw_efuse_map_write (Suc n) ops masked addr cnts data s = Some (RTW_SUCCESS, s') \<and>
        (\<exists>qs. packed ops s' (ps @ qs)) \<and>
        rtw_efuse_map_read ops 0 512 (replicate 512 0xFF) s' = (RTW_SUCCESS, b, u) \<and> length b = 512 \<and>
        (\<forall>k < 512. b ! k = (if addr \<le> k \<and> k < addr + cnts \<and> \<not> masked k then data ! (k - addr) else old ! k)))) \<and>
    (available_bytes \<le> known_used ops s ps + sz \<longrightarrow>
      (\<exists>s'. rtw_efuse_map_write (Suc n) ops masked addr cnts data s = Some (RTW_FAIL, s') \<and> ef_dev s' = ef_dev s))"
proof -
  have e: "efuse_chip.estate ops ok s ps" using hw s by (simp add: efuse_chip.estate_def)
  have o': "old = logical_map ps" using read_of_packed [OF hw s] old by auto
  note w = efuse_chip.map_write [OF hw(1) e r refl refl, where n = n and masked = masked, folded o', folded sz]
  have l: "length old = 512" by (simp add: o')
  note p = wanted_map_props [where masked = masked, OF l r]
  show ?thesis
  proof (intro conjI impI)
    assume "length (pkts_bytes ps) + sz < available_bytes"
    with w(1) obtain s' qs where w': "rtw_efuse_map_write (Suc n) ops masked addr cnts data s = Some (RTW_SUCCESS, s')"
      "efuse_chip.estate ops ok s' (ps @ qs)" "logical_map (ps @ qs) = wanted_map masked old addr cnts data"
      by (auto simp: available_bytes_def)
    then have q: "ok (ef_dev s')" "packed ops s' (ps @ qs)" using hw(1) by (simp_all add: efuse_chip.estate_def)
    from read_of_packed [OF hw(1) q] w'(1,3) q(2) p
    show "\<exists>s' b u. rtw_efuse_map_write (Suc n) ops masked addr cnts data s = Some (RTW_SUCCESS, s') \<and>
        (\<exists>qs. packed ops s' (ps @ qs)) \<and>
        rtw_efuse_map_read ops 0 512 (replicate 512 0xFF) s' = (RTW_SUCCESS, b, u) \<and> length b = 512 \<and>
        (\<forall>k < 512. b ! k = (if addr \<le> k \<and> k < addr + cnts \<and> \<not> masked k then data ! (k - addr) else old ! k))"
      by auto
  next
    assume "available_bytes \<le> known_used ops s ps + sz"
    then show "\<exists>s'. rtw_efuse_map_write (Suc n) ops masked addr cnts data s = Some (RTW_FAIL, s') \<and> ef_dev s' = ef_dev s"
      using w(2) by (simp add: available_bytes_def)
  qed
qed

text \<open>A blank memory, read by the firmware.\<close>

lemma map_write_read_back_witness:
  "\<exists>s' b u. rtw_efuse_map_write 1 iol_ops (\<lambda>k. k = 11) 10 3 [1, 2, 3] \<lparr>ef_dev = replicate 1024 0xFF, ef_used = 0\<rparr> =
      Some (RTW_SUCCESS, s') \<and>
    rtw_efuse_map_read iol_ops 0 512 (replicate 512 0xFF) s' = (RTW_SUCCESS, b, u) \<and>
    b ! 10 = 1 \<and> b ! 11 = 0xFF \<and> b ! 12 = 3"
proof -
  let ?s = "\<lparr>ef_dev = replicate 1024 0xFF, ef_used = 0\<rparr> :: bytes efuse"
  let ?m = "replicate 512 0xFF :: bytes" and ?k = "\<lambda>k. k = (11::nat)"
  let ?e = "wanted_map ?k ?m 10 3 [1, 2, 3]"
  have d: "length (ef_dev ?s) = EFUSE_MAX_HW_SIZE" by (simp add: EFUSE_MAX_HW_SIZE_def)
  have p: "packed iol_ops ?s []"
    by (simp add: packed_def holds_def iol_ops_def fake_ops_def Efuse_Read1ByteFromFakeContent_def EFUSE_MAX_HW_SIZE_def)
  have "iol.estate ?s []" using d p by (simp add: iol.estate_def)
  then have old: "rtw_efuse_map_read iol_ops 0 512 ?m ?s = (RTW_SUCCESS, ?m, ?s)"
    using iol.map_read [of ?s "[]"] by (simp add: logical_map_Nil)
  have n: "?e ! k = (if k = 10 then 1 else if k = 12 then 3 else 0xFF)" if "k < 512" for k
    using wanted_map_props(2) [of ?m 10 3 "[1, 2, 3]" k ?k] that
    by (auto simp: nth_Cons split: nat.split)
  have t: "pg_total ?e ?m 10 3 0 (of_nat (10 div 8)) = 5"
    by (simp add: pg_total.simps scan_section_def section_scan.simps n Efuse_CalculateWordCnts_def word_on_def efuse_consts)
  from map_write_read_back [OF iol.efuse_chip_axioms d p _ _ old refl, of 10 3 "[1, 2, 3]" ?k 0, unfolded t]
  show ?thesis by (auto simp: available_bytes_def)
qed

section \<open>Packet functions that miss their aim\<close>

text \<open>
  \<open>hal_EfuseGetCurrentSize_8188e\<close> stops where no header can be read, behind the end or at a blank byte.
  \<open>hal_EfusePgPacketWrite_8188e\<close> calls it first, and \<open>hal_EfusePartialWriteCheck\<close> then starts there: it never sees a
  header, so that a header whose data is missing is never completed.
\<close>

lemma size_loop_stops:
  "\<not> fst (eo_read ops d (size_loop ops d a) 0) \<or> size_loop ops d a \<ge> EFUSE_REAL_CONTENT_LEN \<or>
   snd (eo_read ops d (size_loop ops d a) 0) = 0xFF"
proof (induction ops d a rule: size_loop.induct)
  case (1 ops d a)
  show ?case using 1 by (subst (1 2 3) size_loop.simps) (auto simp: Let_def simp del: One_nat_def)
qed

lemma partial_check_idle:
  assumes "(n, s') = hal_EfuseGetCurrentSize_8188e ops s" "n < EFUSE_REAL_CONTENT_LEN"
  shows "hal_EfusePartialWriteCheck pgw ops pkt s' = Some (n < available_bytes, if n < available_bytes then n else 0, pkt, s')"
proof -
  have n: "n = size_loop ops (ef_dev s) (ef_used s)" "s' = s\<lparr>ef_used := n\<rparr>"
    using assms(1) by (simp_all add: hal_EfuseGetCurrentSize_8188e_def Let_def)
  have "\<not> fst (eo_read ops (ef_dev s') n 0) \<or> snd (eo_read ops (ef_dev s') n 0) = 0xFF"
    using size_loop_stops [of ops "ef_dev s" "ef_used s"] assms(2) n by simp
  then show ?thesis using assms(2) n(2)
    by (subst hal_EfusePartialWriteCheck_def, subst partial_check.simps) (auto simp: split_beta)
qed

text \<open>
  A packet with its second word only: the map has the word, the reader of one section loses it, because it looks
  for the second word behind the first one.
\<close>

definition second_word_only :: bytes where
  "second_word_only = [0x1D, 0xAA, 0xBB] @ replicate 1021 0xFF"

lemma second_word_cells:
  "k < 1024 \<Longrightarrow> eo_cell fake_ops second_word_only k = (if k = 0 then 0x1D else if k = 1 then 0xAA else if k = 2 then 0xBB else 0xFF)"
  "k < 1024 \<Longrightarrow> eo_read fake_ops second_word_only k old =
     (True, if k = 0 then 0x1D else if k = 1 then 0xAA else if k = 2 then 0xBB else 0xFF)"
  by (auto simp: fake_ops_def Efuse_Read1ByteFromFakeContent_def EFUSE_MAX_HW_SIZE_def second_word_only_def
      nth_append nth_Cons split: nat.split)

lemma pg_read_loses_word:
  "hal_EfusePgPacketRead_8188e fake_ops second_word_only 1 = (False, Some (replicate 8 0xFF))"
proof -
  let ?r = "pg_read_loop fake_ops second_word_only 1" and ?f = "replicate 8 0xFF :: bytes"
  have c: "Efuse_CalculateWordCnts 0x0D = 1" by (simp add: Efuse_CalculateWordCnts_def word_on_def)
  have t: "read_packet_data fake_ops second_word_only 0 1 ?f = [0xAA, 0xBB, 0xFF, 0xFF, 0xFF, 0xFF, 0xFF, 0xFF]"
    by (simp add: read_packet_data_def second_word_cells upt_rec numeral_eq_Suc)
  have e: "packet_nonempty fake_ops second_word_only 0 1"
    unfolding packet_nonempty_def by (rule bexI [of _ 0]) (simp_all add: second_word_cells)
  have w: "efuse_WordEnableDataRead 0x0D [0xAA, 0xBB, 0xFF, 0xFF, 0xFF, 0xFF, 0xFF, 0xFF] ?f = ?f"
    by (simp add: efuse_WordEnableDataRead_def upto_4 word_on_def numeral_eq_Suc)
  have "?r PG_STATE_HEADER 0 0 ?f ?f = ?r PG_STATE_DATA 0 0x0D [0xAA, 0xBB, 0xFF, 0xFF, 0xFF, 0xFF, 0xFF, 0xFF] ?f"
    by (subst pg_read_loop.simps)
      (simp add: second_word_cells EFUSE_REAL_CONTENT_LEN_def EXT_HEADER_def Let_def c t [simplified] e [simplified])
  also have "\<dots> = ?r PG_STATE_HEADER 3 0x0D [0xAA, 0xBB, 0xFF, 0xFF, 0xFF, 0xFF, 0xFF, 0xFF] ?f"
    by (subst pg_read_loop.simps) (simp add: EFUSE_REAL_CONTENT_LEN_def c w numeral_3_eq_3)
  also have "\<dots> = ?f"
    by (subst pg_read_loop.simps) (simp add: EFUSE_REAL_CONTENT_LEN_def second_word_cells)
  finally show ?thesis by (simp add: hal_EfusePgPacketRead_8188e_def efuse_consts)
qed

lemma map_has_word:
  "fst (Hal_EfuseReadEFuse88E (eo_cell fake_ops second_word_only) 8 8 (replicate 8 0)) =
    [0xFF, 0xFF, 0xAA, 0xBB, 0xFF, 0xFF, 0xFF, 0xFF]"
proof -
  let ?p = "(1, 0x0D, [0xFF, 0xFF, 0xAA, 0xBB, 0xFF, 0xFF, 0xFF, 0xFF]) :: packet"
  have b: "pkts_bytes [?p] = [0x1D, 0xAA, 0xBB]"
    by (simp add: pkt_header_def efuse_consts words_of_def upto_4)
  have h: "holds (eo_cell fake_ops second_word_only) [?p]"
    unfolding holds_def b by (auto simp: second_word_cells)
  have "logical_map [?p] ! n = (if n = 10 then 0xAA else if n = 11 then 0xBB else 0xFF)" if "n < 512" for n
  proof (cases "n div 8 = 1")
    case True
    then obtain m where m: "n = 8 + m" "m < 8" by (metis add.commute div_mod_decomp mod_less_divisor mult_1 zero_less_numeral)
    from m(2) show ?thesis using logical_map_snoc [of "8 + m" "snd (snd ?p)" "[]" 1 "0x0D"] m(1)
      by (auto simp: logical_map_Nil dest!: less_8_cases)
  next
    case False
    then have "n \<noteq> 10" "n \<noteq> 11" by auto
    then show ?thesis using False that logical_map_snoc [of n "snd (snd ?p)" "[]" 1 "0x0D"] by (simp add: logical_map_Nil)
  qed
  then have "take 8 (drop 8 (logical_map [?p])) = [0xFF, 0xFF, 0xAA, 0xBB, 0xFF, 0xFF, 0xFF, 0xFF]"
    by (intro nth_equalityI) (auto dest!: less_8_cases)
  then show ?thesis using read_efuse_holds [OF h, of 8 8 "replicate 8 0"] by simp
qed

end
