(* ===== verification/RxFrame.thy ===== *)
theory RxFrame
  imports StaHash
begin

text \<open>
  Received frames on their way to the network layer: the pointer operations on the buffer of a frame
  (include/rtw_recv.h), \<open>wlanhdr_to_ethhdr\<close> (core/rtw_recv.c), which turns the header of a data frame into an
  Ethernet header in place, and \<open>rtw_os_alloc_msdu_pkt\<close> (os_dep/linux/recv_linux.c). Addresses are offsets from
  \<open>rx_head\<close>; \<open>None\<close> is an access outside the allocated memory. The locale \<open>frame_ops\<close> is what the clients of
  the pointer operations rely on.
\<close>

section \<open>Buffers\<close>

record rx_buf =
  rb_mem :: bytes   \<comment> \<open>the memory from \<open>rx_head\<close>\<close>
  rb_data :: int
  rb_tail :: int
  rb_end :: int
  rb_len :: int

definition recvframe_push :: "rx_buf \<Rightarrow> int \<Rightarrow> bool \<times> rx_buf" where
  "recvframe_push b sz =
     (if rb_data b - sz < 0 then (False, b)
      else (True, b\<lparr>rb_data := rb_data b - sz, rb_len := rb_len b + sz\<rparr>))"

definition recvframe_pull :: "rx_buf \<Rightarrow> int \<Rightarrow> bool \<times> rx_buf" where
  "recvframe_pull b sz =
     (if rb_data b + sz > rb_tail b then (False, b)
      else (True, b\<lparr>rb_data := rb_data b + sz, rb_len := rb_len b - sz\<rparr>))"

definition recvframe_put :: "rx_buf \<Rightarrow> int \<Rightarrow> bool \<times> rx_buf" where
  "recvframe_put b sz =
     (if rb_tail b + sz > rb_end b then (False, b)
      else (True, b\<lparr>rb_tail := rb_tail b + sz, rb_len := rb_len b + sz\<rparr>))"

definition recvframe_pull_tail :: "rx_buf \<Rightarrow> int \<Rightarrow> bool \<times> rx_buf" where
  "recvframe_pull_tail b sz =
     (if rb_tail b - sz < rb_data b then (False, b)
      else (True, b\<lparr>rb_tail := rb_tail b - sz, rb_len := rb_len b - sz\<rparr>))"

definition mem_get :: "bytes \<Rightarrow> int \<Rightarrow> int \<Rightarrow> bytes option" where
  "mem_get m a n = (if a < 0 \<or> n < 0 then None else get_sub m (nat a) (nat n))"

definition mem_put :: "bytes \<Rightarrow> int \<Rightarrow> bytes \<Rightarrow> bytes option" where
  "mem_put m a xs = (if a < 0 then None else put_sub m (nat a) xs)"

text \<open>The bytes of the frame.\<close>

definition buf_bytes :: "rx_buf \<Rightarrow> bytes" where
  "buf_bytes b = take (nat (rb_len b)) (drop (nat (rb_data b)) (rb_mem b))"

definition buf_ok :: "rx_buf \<Rightarrow> bool" where
  "buf_ok b \<longleftrightarrow> 0 \<le> rb_data b \<and> rb_data b \<le> rb_tail b \<and> rb_tail b \<le> rb_end b \<and> rb_end b \<le> int (length (rb_mem b)) \<and>
     rb_len b = rb_tail b - rb_data b"

lemma buf_bytes_length [simp]: "buf_ok b \<Longrightarrow> length (buf_bytes b) = nat (rb_len b)"
  by (auto simp: buf_ok_def buf_bytes_def)

locale frame_ops =
  fixes bytes_of :: "'b \<Rightarrow> bytes" and room :: "'b \<Rightarrow> int" and good :: "'b \<Rightarrow> bool"
    and pull :: "'b \<Rightarrow> int \<Rightarrow> bool \<times> 'b" and cut_tail :: "'b \<Rightarrow> int \<Rightarrow> bool \<times> 'b"
    and append :: "'b \<Rightarrow> bytes \<Rightarrow> 'b option"
  assumes pull_good: "good b \<Longrightarrow> 0 \<le> n \<Longrightarrow> n \<le> int (length (bytes_of b)) \<Longrightarrow>
      fst (pull b n) \<and> good (snd (pull b n)) \<and> room (snd (pull b n)) = room b \<and> bytes_of (snd (pull b n)) = drop (nat n) (bytes_of b)"
    and pull_short: "good b \<Longrightarrow> int (length (bytes_of b)) < n \<Longrightarrow> pull b n = (False, b)"
    and cut_good: "good b \<Longrightarrow> 0 \<le> n \<Longrightarrow> n \<le> int (length (bytes_of b)) \<Longrightarrow>
      fst (cut_tail b n) \<and> good (snd (cut_tail b n)) \<and> room (snd (cut_tail b n)) = room b + n \<and>
      bytes_of (snd (cut_tail b n)) = take (length (bytes_of b) - nat n) (bytes_of b)"
    and append_good: "good b \<Longrightarrow> int (length xs) \<le> room b \<Longrightarrow>
      \<exists>b'. append b xs = Some b' \<and> good b' \<and> room b' = room b - int (length xs) \<and> bytes_of b' = bytes_of b @ xs"
begin

text \<open>Cutting a tail that was appended gives the bytes back.\<close>

lemma append_cut:
  assumes "good b" "int (length xs) \<le> room b" "append b xs = Some b'"
  shows "bytes_of (snd (cut_tail b' (int (length xs)))) = bytes_of b"
  using append_good [OF assms(1,2)] assms(3) cut_good [of b' "int (length xs)"] by auto

lemma pull_pull:
  assumes "good b" "0 \<le> m" "0 \<le> n" "m + n \<le> int (length (bytes_of b))"
  shows "bytes_of (snd (pull (snd (pull b m)) n)) = drop (nat (m + n)) (bytes_of b)"
proof -
  have p: "good (snd (pull b m))" "bytes_of (snd (pull b m)) = drop (nat m) (bytes_of b)"
    using pull_good [OF assms(1,2)] assms by auto
  have "n \<le> int (length (bytes_of (snd (pull b m))))" using p(2) assms by simp
  then show ?thesis using pull_good [OF p(1) assms(3)] p(2) assms by (simp add: nat_add_distrib add.commute)
qed

end

text \<open>\<open>_rtw_memcpy\<close> to \<open>rx_tail\<close> and \<open>recvframe_put\<close>, as \<open>recvframe_defrag\<close> does it.\<close>

definition buf_append :: "rx_buf \<Rightarrow> bytes \<Rightarrow> rx_buf option" where
  "buf_append b xs = do {
     m \<leftarrow> mem_put (rb_mem b) (rb_tail b) xs;
     Some (snd (recvframe_put (b\<lparr>rb_mem := m\<rparr>) (int (length xs)))) }"

lemma buf_pull:
  assumes "buf_ok b" "0 \<le> n" "n \<le> rb_len b"
  shows "recvframe_pull b n = (True, b\<lparr>rb_data := rb_data b + n, rb_len := rb_len b - n\<rparr>)"
    "buf_ok (b\<lparr>rb_data := rb_data b + n, rb_len := rb_len b - n\<rparr>)"
    "buf_bytes (b\<lparr>rb_data := rb_data b + n, rb_len := rb_len b - n\<rparr>) = drop (nat n) (buf_bytes b)"
proof -
  show "recvframe_pull b n = (True, b\<lparr>rb_data := rb_data b + n, rb_len := rb_len b - n\<rparr>)"
    "buf_ok (b\<lparr>rb_data := rb_data b + n, rb_len := rb_len b - n\<rparr>)"
    using assms by (simp_all add: recvframe_pull_def buf_ok_def)
  have "nat (rb_data b + n) = nat n + nat (rb_data b)" using assms by (simp add: buf_ok_def nat_add_distrib)
  then show "buf_bytes (b\<lparr>rb_data := rb_data b + n, rb_len := rb_len b - n\<rparr>) = drop (nat n) (buf_bytes b)"
    using assms by (simp add: buf_bytes_def drop_take nat_diff_distrib)
qed

lemma buf_cut:
  assumes "buf_ok b" "0 \<le> n" "n \<le> rb_len b"
  shows "recvframe_pull_tail b n = (True, b\<lparr>rb_tail := rb_tail b - n, rb_len := rb_len b - n\<rparr>)"
    "buf_ok (b\<lparr>rb_tail := rb_tail b - n, rb_len := rb_len b - n\<rparr>)"
    "buf_bytes (b\<lparr>rb_tail := rb_tail b - n, rb_len := rb_len b - n\<rparr>) = take (nat (rb_len b) - nat n) (buf_bytes b)"
proof -
  show "recvframe_pull_tail b n = (True, b\<lparr>rb_tail := rb_tail b - n, rb_len := rb_len b - n\<rparr>)"
    "buf_ok (b\<lparr>rb_tail := rb_tail b - n, rb_len := rb_len b - n\<rparr>)"
    using assms by (simp_all add: recvframe_pull_tail_def buf_ok_def)
  have "nat (rb_len b - n) = nat (rb_len b) - nat n" "nat (rb_len b) - nat n \<le> nat (rb_len b)"
    using assms by simp_all
  then show "buf_bytes (b\<lparr>rb_tail := rb_tail b - n, rb_len := rb_len b - n\<rparr>) = take (nat (rb_len b) - nat n) (buf_bytes b)"
    by (simp add: buf_bytes_def min_def)
qed

lemma buf_append_room:
  assumes b: "buf_ok b" and l: "int (length xs) \<le> rb_end b - rb_tail b"
  shows "\<exists>b'. buf_append b xs = Some b' \<and> buf_ok b' \<and> rb_end b' - rb_tail b' = rb_end b - rb_tail b - int (length xs) \<and>
    buf_bytes b' = buf_bytes b @ xs"
proof -
  let ?d = "nat (rb_data b)" and ?n = "nat (rb_len b)"
  let ?m = "take (?d + ?n) (rb_mem b) @ xs @ drop (?d + ?n + length xs) (rb_mem b)"
  let ?b = "b\<lparr>rb_mem := ?m, rb_tail := rb_tail b + int (length xs), rb_len := rb_len b + int (length xs)\<rparr>"
  have t: "0 \<le> rb_tail b" "nat (rb_tail b) = ?d + ?n" "0 \<le> rb_data b" "0 \<le> rb_len b" using b by (auto simp: buf_ok_def)
  moreover have "rb_tail b + int (length xs) \<le> int (length (rb_mem b))" using b l by (simp add: buf_ok_def)
  with t(1,2) have r: "?d + ?n + length xs \<le> length (rb_mem b)" by linarith
  ultimately have "mem_put (rb_mem b) (rb_tail b) xs = Some ?m" by (simp add: mem_put_def put_sub_def)
  then have "buf_append b xs = Some ?b" using l by (simp add: buf_append_def recvframe_put_def)
  moreover have "length ?m = length (rb_mem b)" using r by simp
  then have "buf_ok ?b" using b l unfolding buf_ok_def by simp
  moreover have "nat (rb_len b + int (length xs)) = ?n + length xs" using t(4) by simp
  then have "buf_bytes ?b = buf_bytes b @ xs" using r by (simp add: buf_bytes_def take_drop add.commute)
  ultimately show ?thesis by (intro exI [of _ ?b]) simp
qed

interpretation fb: frame_ops buf_bytes "\<lambda>b. rb_end b - rb_tail b" buf_ok recvframe_pull recvframe_pull_tail buf_append
proof unfold_locales
  fix b n
  assume b: "buf_ok b"
  have len: "int (length (buf_bytes b)) = rb_len b" using b by (simp, simp add: buf_ok_def)
  show "fst (recvframe_pull b n) \<and> buf_ok (snd (recvframe_pull b n)) \<and>
      rb_end (snd (recvframe_pull b n)) - rb_tail (snd (recvframe_pull b n)) = rb_end b - rb_tail b \<and>
      buf_bytes (snd (recvframe_pull b n)) = drop (nat n) (buf_bytes b)"
    if "0 \<le> n" "n \<le> int (length (buf_bytes b))"
    using buf_pull [OF b that(1) that(2) [unfolded len]] by simp
  show "recvframe_pull b n = (False, b)" if "int (length (buf_bytes b)) < n"
    using b that unfolding len recvframe_pull_def buf_ok_def by simp
  show "fst (recvframe_pull_tail b n) \<and> buf_ok (snd (recvframe_pull_tail b n)) \<and>
      rb_end (snd (recvframe_pull_tail b n)) - rb_tail (snd (recvframe_pull_tail b n)) = rb_end b - rb_tail b + n \<and>
      buf_bytes (snd (recvframe_pull_tail b n)) = take (length (buf_bytes b) - nat n) (buf_bytes b)"
    if "0 \<le> n" "n \<le> int (length (buf_bytes b))"
    using buf_cut [OF b that(1) that(2) [unfolded len]] b by simp
qed (rule buf_append_room)

section \<open>Ethernet headers\<close>

definition rtw_bridge_tunnel_header :: bytes where "rtw_bridge_tunnel_header = [0xaa, 0xaa, 0x03, 0x00, 0x00, 0xf8]"
definition rtw_rfc1042_header :: bytes where "rtw_rfc1042_header = [0xaa, 0xaa, 0x03, 0x00, 0x00, 0x00]"
definition SNAP_ETH_TYPE_IPX :: bytes where "SNAP_ETH_TYPE_IPX = [0x81, 0x37]"
definition SNAP_ETH_TYPE_APPLETALK_AARP :: bytes where "SNAP_ETH_TYPE_APPLETALK_AARP = [0x80, 0xf3]"

lemmas snap_defs = rtw_bridge_tunnel_header_def rtw_rfc1042_header_def SNAP_ETH_TYPE_IPX_def
  SNAP_ETH_TYPE_APPLETALK_AARP_def

definition be16 :: "u16 \<Rightarrow> bytes" where
  "be16 w = [ucast (drop_bit 8 w), ucast w]"

definition RTW_GET_BE16 :: "bytes \<Rightarrow> u16" where
  "RTW_GET_BE16 bs = push_bit 8 (ucast (bs ! 0)) OR ucast (bs ! 1)"

text \<open>Whether the six bytes \<open>snap\<close> and the two bytes \<open>typ\<close> are an encapsulation that is removed.\<close>

definition is_snap :: "bytes \<Rightarrow> bytes \<Rightarrow> bool" where
  "is_snap snap typ \<longleftrightarrow>
     (snap = rtw_rfc1042_header \<and> typ \<noteq> SNAP_ETH_TYPE_IPX \<and> typ \<noteq> SNAP_ETH_TYPE_APPLETALK_AARP) \<or>
     snap = rtw_bridge_tunnel_header"

record rx_attr =
  at_hdrlen :: u8
  at_iv_len :: u8
  at_icv_len :: u8
  at_encrypt :: u8
  at_bdecrypted :: bool
  at_key_index :: u8
  at_to_fr_ds :: nat
  at_amsdu :: bool
  at_qos :: bool
  at_priority :: u8
  at_ack_policy :: u8
  at_order :: bool
  at_privacy :: bool
  at_mfrag :: bool
  at_frag_num :: u8
  at_seq_num :: u16
  at_pw_save :: bool
  at_mdata :: bool
  at_eth_type :: u16
  at_dst :: bytes
  at_src :: bytes
  at_ta :: bytes
  at_ra :: bytes
  at_bssid :: bytes

record rx_frame =
  fr_attr :: rx_attr
  fr_buf :: rx_buf

definition off_payload :: "rx_attr \<Rightarrow> int" where
  "off_payload a = int (unat (at_hdrlen a)) + int (unat (at_iv_len a))"

text \<open>
  \<open>mp\<close> is \<open>check_fwstate(pmlmepriv, WIFI_MP_STATE)\<close>, the manufacturing test mode, in which 24 bytes of
  receive status go in front. A frame shorter than its headers is read behind its end.
\<close>

definition wlanhdr_to_ethhdr :: "bool \<Rightarrow> rx_frame \<Rightarrow> (rtw_res \<times> rx_frame) option" where
  "wlanhdr_to_ethhdr mp f =
     (let a = fr_attr f;
          b = (if at_encrypt a \<noteq> 0 then snd (recvframe_pull_tail (fr_buf f) (int (unat (at_icv_len a)))) else fr_buf f);
          ptr = rb_data b
      in do {
        snap \<leftarrow> mem_get (rb_mem b) (ptr + off_payload a) 6;
        typ \<leftarrow> mem_get (rb_mem b) (ptr + off_payload a + 6) 2;
        let bsnaphdr = is_snap snap typ;
        let rmv_len = off_payload a + (if bsnaphdr then 6 else 0);
        let len = (word_of_int (rb_len b - rmv_len) :: u16);
        et \<leftarrow> mem_get (rb_mem b) (ptr + rmv_len) 2;
        let f = f\<lparr>fr_attr := a\<lparr>at_eth_type := RTW_GET_BE16 et\<rparr>, fr_buf := b\<rparr>;
        (ok, b, ptr) \<leftarrow>
          (if mp then do {
             m \<leftarrow> mem_put (rb_mem b) (ptr + rmv_len) [0x87, 0x12];
             let (ok, b) = recvframe_pull (b\<lparr>rb_mem := m\<rparr>) (rmv_len - 14 + 2 - 24);
             if \<not> ok then Some (False, b, 0)
             else do {
               st \<leftarrow> mem_get (rb_mem b) 0 24;
               m \<leftarrow> mem_put (rb_mem b) (rb_data b) st;
               Some (True, b\<lparr>rb_mem := m\<rparr>, rb_data b + 24) } }
           else let (ok, b) = recvframe_pull b (rmv_len - 14 + (if bsnaphdr then 2 else 0))
                in Some (ok, b, rb_data b));
        if \<not> ok then Some (RTW_FAIL, f\<lparr>fr_buf := b\<rparr>)
        else do {
          m \<leftarrow> mem_put (rb_mem b) ptr (take 6 (at_dst a));
          m \<leftarrow> mem_put m (ptr + 6) (take 6 (at_src a));
          m \<leftarrow> (if bsnaphdr then Some m else mem_put m (ptr + 12) (be16 len));
          Some (RTW_SUCCESS, f\<lparr>fr_buf := b\<lparr>rb_mem := m\<rparr>\<rparr>) } })"

text \<open>
  One subframe of an A-MSDU as an Ethernet frame, in a buffer of its own. \<open>spare\<close> is the memory behind the subframe there.
  The type field is read before the length is looked at; \<open>None\<close> when a short subframe and the memory behind it end before the
  field.
\<close>

definition rtw_os_alloc_msdu_pkt :: "bytes \<Rightarrow> bytes \<Rightarrow> bytes \<Rightarrow> bytes \<Rightarrow> bytes option" where
  "rtw_os_alloc_msdu_pkt spare da sa msdu = do {
     eth_type \<leftarrow> get_sub (msdu @ spare) 6 2;
     Some (if 8 \<le> length msdu \<and> is_snap (take 6 msdu) eth_type
           then da @ sa @ drop 6 msdu
           else da @ sa @ be16 (word_of_nat (length msdu)) @ msdu) }"

text \<open>Its Ethernet frame does not depend on the memory behind it.\<close>

definition msdu_frame :: "bytes \<Rightarrow> bytes \<Rightarrow> bytes \<Rightarrow> bytes" where
  "msdu_frame da sa p =
     (if 8 \<le> length p \<and> is_snap (take 6 p) (take 2 (drop 6 p)) then da @ sa @ drop 6 p
      else da @ sa @ be16 (word_of_nat (length p)) @ p)"

lemma alloc_msdu_pkt:
  "rtw_os_alloc_msdu_pkt spare da sa p = (if length p + length spare < 8 then None else Some (msdu_frame da sa p))"
proof -
  have "take 2 (drop 6 (p @ spare)) = take 2 (drop 6 p)" if "8 \<le> length p" using that by simp
  then show ?thesis by (auto simp: rtw_os_alloc_msdu_pkt_def get_sub_def msdu_frame_def)
qed

text \<open>The Ethernet frame that stands for addresses and a payload that starts behind the 802.11 header.\<close>

definition eth_frame :: "bytes \<Rightarrow> bytes \<Rightarrow> bytes \<Rightarrow> bytes" where
  "eth_frame da sa p =
     da @ sa @ (if is_snap (take 6 p) (take 2 (drop 6 p)) then drop 6 p else be16 (word_of_nat (length p)) @ p)"

lemma msdu_pkt_eth: "8 \<le> length msdu \<Longrightarrow> msdu_frame da sa msdu = eth_frame da sa msdu"
  by (simp add: msdu_frame_def eth_frame_def)

end
