(* ===== verification/RxAggr.thy ===== *)
theory RxAggr
  imports RxFrame
begin

text \<open>
  The receive buffers of the SDIO interface: the chip puts several packets into one transfer, each behind a
  descriptor and padded to 128 bytes. \<open>rtl8188e_query_rx_desc_status\<close> (hal/rtl8188e/rtl8188e_rxdesc.c) reads a
  descriptor, \<open>rtw_os_alloc_recvframe\<close> (os_dep/linux/recv_linux.c) copies a packet, \<open>rtl8188es_recv_tasklet\<close>
  (hal/rtl8188e/sdio/rtl8189es_recv.c, with \<open>CONFIG_SDIO_RX_COPY\<close>) takes the buffers apart.
\<close>

section \<open>Descriptors\<close>

definition RXDESC_SIZE :: nat where "RXDESC_SIZE = 24"
definition NORMAL_RX :: u8 where "NORMAL_RX = 0"
definition TX_REPORT1 :: u8 where "TX_REPORT1 = 1"
definition TX_REPORT2 :: u8 where "TX_REPORT2 = 2"
definition HIS_REPORT :: u8 where "HIS_REPORT = 3"
definition TX_RPT1_PKT_LEN :: u16 where "TX_RPT1_PKT_LEN = 8"
definition RCR_APP_BA_SSN :: u32 where "RCR_APP_BA_SSN = push_bit 27 1"
definition RCR_ACRC32 :: u32 where "RCR_ACRC32 = push_bit 8 1"

lemmas rpt_defs = NORMAL_RX_def TX_REPORT1_def TX_REPORT2_def HIS_REPORT_def

record rx_desc =
  ds_crc_err :: bool
  ds_icv_err :: bool
  ds_pkt_rpt_type :: u8
  ds_pkt_len :: u16
  ds_drvinfo_sz :: u8
  ds_shift_sz :: u8
  ds_physt :: bool
  ds_bdecrypted :: bool
  ds_encrypt :: u8
  ds_qos :: bool
  ds_priority :: u8
  ds_amsdu :: bool
  ds_seq_num :: u16
  ds_frag_num :: u8
  ds_mfrag :: bool
  ds_mdata :: bool
  ds_data_rate :: u8
  ds_macid0 :: u32
  ds_macid1 :: u32

definition no_desc :: rx_desc where
  "no_desc = \<lparr>ds_crc_err = False, ds_icv_err = False, ds_pkt_rpt_type = 0, ds_pkt_len = 0, ds_drvinfo_sz = 0, ds_shift_sz = 0,
     ds_physt = False, ds_bdecrypted = False, ds_encrypt = 0, ds_qos = False, ds_priority = 0, ds_amsdu = False,
     ds_seq_num = 0, ds_frag_num = 0, ds_mfrag = False, ds_mdata = False, ds_data_rate = 0, ds_macid0 = 0, ds_macid1 = 0\<rparr>"

definition rxdw :: "bytes \<Rightarrow> nat \<Rightarrow> u32" where
  "rxdw prxstat i = ucast (le_val (take 4 (drop (4 * i) prxstat)))"

text \<open>\<open>n\<close> bits of \<open>x\<close> from bit \<open>k\<close>.\<close>

definition bits_at :: "u32 \<Rightarrow> nat \<Rightarrow> nat \<Rightarrow> u32" where
  "bits_at x k n = drop_bit k x AND mask n"

definition rtl8188e_query_rx_desc_status :: "bytes \<Rightarrow> rx_desc" where
  "rtl8188e_query_rx_desc_status p =
     (let d = no_desc\<lparr>ds_crc_err := bits_at (rxdw p 0) 14 1 \<noteq> 0, ds_pkt_rpt_type := ucast (bits_at (rxdw p 3) 14 2)\<rparr>
      in if ds_pkt_rpt_type d = NORMAL_RX then
           d\<lparr>ds_pkt_len := ucast (rxdw p 0 AND 0x00003fff), ds_drvinfo_sz := ucast (bits_at (rxdw p 0) 16 4) * 8,
             ds_physt := bits_at (rxdw p 0) 26 1 \<noteq> 0, ds_bdecrypted := \<not> bit (rxdw p 0) 27,
             ds_encrypt := ucast (bits_at (rxdw p 0) 20 3), ds_qos := bits_at (rxdw p 0) 23 1 \<noteq> 0,
             ds_priority := ucast (bits_at (rxdw p 1) 8 4), ds_amsdu := bits_at (rxdw p 1) 13 1 \<noteq> 0,
             ds_seq_num := ucast (rxdw p 2 AND 0x00000fff), ds_frag_num := ucast (bits_at (rxdw p 2) 12 4),
             ds_mfrag := bits_at (rxdw p 1) 27 1 \<noteq> 0, ds_mdata := bits_at (rxdw p 1) 26 1 \<noteq> 0,
             ds_data_rate := ucast (rxdw p 3 AND 0x3f), ds_icv_err := bits_at (rxdw p 0) 15 1 \<noteq> 0,
             ds_shift_sz := ucast (bits_at (rxdw p 0) 24 2)\<rparr>
         else if ds_pkt_rpt_type d = TX_REPORT1 then d\<lparr>ds_pkt_len := TX_RPT1_PKT_LEN, ds_drvinfo_sz := 0\<rparr>
         else if ds_pkt_rpt_type d = TX_REPORT2 then
           d\<lparr>ds_pkt_len := ucast (rxdw p 0 AND 0x3FF), ds_drvinfo_sz := 0, ds_macid0 := rxdw p 4, ds_macid1 := rxdw p 5\<rparr>
         else if ds_pkt_rpt_type d = HIS_REPORT then d\<lparr>ds_pkt_len := ucast (rxdw p 0 AND 0x00003fff)\<rparr>
         else d)"

section \<open>A buffer for a packet\<close>

text \<open>
  A fresh socket buffer: its memory from \<open>head\<close>, the offset of \<open>data\<close> and the lowest three bits of the address
  of \<open>data\<close>. The kernel allocates at least the requested bytes behind \<open>data\<close>.
\<close>

type_synonym skb = "bytes \<times> nat \<times> nat"

definition skb_ok :: "u32 \<Rightarrow> skb \<Rightarrow> bool" where
  "skb_ok sz s = (case s of (m, d, a) \<Rightarrow> d + unat sz \<le> length m \<and> a < 8)"

definition alloc_size :: "rx_desc \<Rightarrow> u32" where
  "alloc_size d =
     (let skb_len = ucast (ds_pkt_len d)
      in if ds_mfrag d \<and> ds_frag_num d = 0 then if skb_len \<le> 1650 then 1664 else skb_len + 14
         else skb_len + 14)"

text \<open>
  \<open>fresh\<close> is the answer of \<open>rtw_skb_alloc\<close>, \<open>clone\<close> whether \<open>rtw_skb_clone\<close> succeeds on the socket buffer \<open>mem\<close>
  of the receive buffer, of which the packet starts at \<open>pdata\<close>.
\<close>

definition rtw_os_alloc_recvframe :: "skb option \<Rightarrow> bool \<Rightarrow> rx_desc \<Rightarrow> bytes \<Rightarrow> nat \<Rightarrow> rx_buf option option" where
  "rtw_os_alloc_recvframe fresh clone d mem pdata =
     (let shift_sz = (if ds_qos d then 6 else 0); skb_len = unat (ds_pkt_len d); alloc_sz = unat (alloc_size d)
      in case fresh of
           Some (m, d0, a) \<Rightarrow>
             (let data = d0 + (8 - a mod 8) + shift_sz
              in do {
                bs \<leftarrow> get_sub mem pdata skb_len;
                m \<leftarrow> put_sub m data bs;
                Some (Some \<lparr>rb_mem = m, rb_data = int data, rb_tail = int data, rb_end = int (d0 + alloc_sz), rb_len = 0\<rparr>) })
         | None \<Rightarrow>
             if ds_mfrag d \<and> ds_frag_num d = 0 then Some None
             else if clone then Some (Some \<lparr>rb_mem = drop pdata mem, rb_data = 0, rb_tail = 0, rb_end = int alloc_sz, rb_len = 0\<rparr>)
             else Some None)"

section \<open>The tasklet\<close>

definition rnd128 :: "u32 \<Rightarrow> u32" where
  "rnd128 sz = push_bit 7 (drop_bit 7 sz + (if sz AND 127 \<noteq> 0 then 1 else 0))"

definition rtw_hal_rcr_check :: "u32 \<Rightarrow> u32 \<Rightarrow> bool" where
  "rtw_hal_rcr_check rcr check_bit \<longleftrightarrow> rcr AND check_bit = check_bit"

text \<open>What a packet causes; the offset is that of the receive status in the buffer.\<close>

datatype rx_event =
    Pre_recv_entry rx_desc rx_buf "nat option"
  | Txrpt_ccx rx_buf
  | Tx_rpt2 rx_buf u16 u32 u32

text \<open>
  The surroundings: the receive configuration register, whether the \<open>k\<close>-th request for a frame succeeds, the
  answer to the \<open>k\<close>-th request for a socket buffer of a size and whether it can be cloned.
\<close>

record rx_env =
  rv_rcr :: u32
  rv_frame :: "nat \<Rightarrow> bool"
  rv_skb :: "nat \<Rightarrow> u32 \<Rightarrow> skb option"
  rv_clone :: "nat \<Rightarrow> bool"

definition rx_report_size :: "rx_env \<Rightarrow> rx_desc \<Rightarrow> u8" where
  "rx_report_size env d = word_of_nat RXDESC_SIZE + (if rtw_hal_rcr_check (rv_rcr env) RCR_APP_BA_SSN then 4 else 0) + ds_drvinfo_sz d"

definition packet_offset :: "rx_env \<Rightarrow> rx_desc \<Rightarrow> u32" where
  "packet_offset env d = ucast (rx_report_size env d) + ucast (ds_shift_sz d) + ucast (ds_pkt_len d)"

definition rx_dispatch :: "rx_env \<Rightarrow> rx_desc \<Rightarrow> nat \<Rightarrow> rx_buf \<Rightarrow> rx_event list" where
  "rx_dispatch env d ptr b =
     (let b = snd (recvframe_put b (int (unat (ds_pkt_len d))))
      in if ds_pkt_rpt_type d = NORMAL_RX then
           [Pre_recv_entry d b
              (if ds_physt d then Some (ptr + unat (rx_report_size env d) - unat (ds_drvinfo_sz d)) else None)]
         else if ds_pkt_rpt_type d = TX_REPORT1 then [Txrpt_ccx b]
         else if ds_pkt_rpt_type d = TX_REPORT2 then [Tx_rpt2 b (ds_pkt_len d) (ds_macid0 d) (ds_macid1 d)]
         else [])"

text \<open>
  What a packet without holes in its checks gives: \<open>None\<close> for a read outside the buffer, \<open>Some None\<close> when
  there is no memory for it.
\<close>

definition rx_packet :: "rx_env \<Rightarrow> bytes \<Rightarrow> nat \<Rightarrow> nat \<Rightarrow> rx_desc \<Rightarrow> rx_event list option option" where
  "rx_packet env mem ptr k d =
     (if ds_crc_err d \<or> ds_icv_err d then Some (Some [])
      else do {
        r \<leftarrow> rtw_os_alloc_recvframe (rv_skb env k (alloc_size d)) (rv_clone env k) d mem
               (ptr + unat (rx_report_size env d) + unat (ds_shift_sz d));
        Some (map_option (rx_dispatch env d ptr) r) })"

lemma bits_at_bound: "unat (bits_at x k n) < 2 ^ n"
  unfolding bits_at_def by (simp add: take_bit_eq_mask [symmetric] unsigned_take_bit_eq take_bit_nat_less_exp)

text \<open>The size of a report fits eight bits and the offset is positive and small.\<close>

lemma drvinfo_bound: "unat (ds_drvinfo_sz (rtl8188e_query_rx_desc_status p)) \<le> 120"
proof -
  have "unat (bits_at x k 4) \<le> 15" for x k using bits_at_bound [of x k 4] by simp
  then have "unat (ucast (bits_at x k 4) :: u8) \<le> 15" for x k
    by (simp add: unsigned_ucast_eq take_bit_eq_mod) (metis mod_less_eq_dividend order.trans)
  then have m: "unat (ucast (bits_at x k 4) :: u8) * 8 mod 256 \<le> 120" for x k
  proof -
    have "n \<le> 15 \<Longrightarrow> n * 8 mod 256 \<le> 120" for n :: nat using mod_less_eq_dividend [of "n * 8" 256] by linarith
    then show ?thesis using \<open>\<And>x k. unat (ucast (bits_at x k 4) :: u8) \<le> 15\<close> by blast
  qed
  have "unat (ucast (bits_at x k 4) * 8 :: u8) \<le> 120" for x k
    unfolding unat_word_ariths using m [of x k] by simp
  then show ?thesis by (simp add: rtl8188e_query_rx_desc_status_def Let_def no_desc_def)
qed

lemma shift_bound: "unat (ds_shift_sz (rtl8188e_query_rx_desc_status p)) \<le> 3"
proof -
  have "unat (bits_at x k 2) \<le> 3" for x k using bits_at_bound [of x k 2] by simp
  then have "unat (ucast (bits_at x k 2) :: u8) \<le> 3" for x k
    by (simp add: unsigned_ucast_eq take_bit_eq_mod) (metis mod_less_eq_dividend order.trans)
  then show ?thesis by (simp add: rtl8188e_query_rx_desc_status_def Let_def no_desc_def)
qed

definition report_len :: "rx_env \<Rightarrow> rx_desc \<Rightarrow> nat" where
  "report_len env d = 24 + (if rtw_hal_rcr_check (rv_rcr env) RCR_APP_BA_SSN then 4 else 0) + unat (ds_drvinfo_sz d)"

lemma rx_report_size_val:
  assumes "unat (ds_drvinfo_sz d) \<le> 120"
  shows "unat (rx_report_size env d) = report_len env d" "report_len env d \<le> 148"
  using assms by (simp_all add: rx_report_size_def report_len_def RXDESC_SIZE_def unat_word_ariths)

lemma packet_offset_val:
  assumes "unat (ds_drvinfo_sz d) \<le> 120" "unat (ds_shift_sz d) \<le> 3"
  shows "unat (packet_offset env d) = report_len env d + unat (ds_shift_sz d) + unat (ds_pkt_len d)"
    "unat (packet_offset env d) < 70000"
proof -
  have l: "unat (ds_pkt_len d) < 65536" by simp
  have s: "report_len env d + unat (ds_shift_sz d) + unat (ds_pkt_len d) < 70000"
    using rx_report_size_val(2) [OF assms(1), of env] assms(2) l by linarith
  then show "unat (packet_offset env d) = report_len env d + unat (ds_shift_sz d) + unat (ds_pkt_len d)"
    by (simp add: packet_offset_def unat_word_ariths rx_report_size_val(1) [OF assms(1)])
  then show "unat (packet_offset env d) < 70000" using s by simp
qed

lemma round_up: "(n + 127) div 128 = n div 128 + (if n mod 128 = 0 then 0 else 1)" for n :: nat
proof (rule div_nat_eqI)
  define q r where "q = n div 128" and "r = n mod 128"
  have n: "n = 128 * q + r" "r < 128" by (simp_all add: q_def r_def)
  show "128 * (n div 128 + (if n mod 128 = 0 then 0 else 1)) \<le> n + 127"
    unfolding q_def [symmetric] r_def [symmetric] using n by (cases "r = 0") simp_all
  show "n + 127 < 128 * Suc (n div 128 + (if n mod 128 = 0 then 0 else 1))"
    unfolding q_def [symmetric] r_def [symmetric] using n by (cases "r = 0") simp_all
qed

lemma rnd128_val:
  assumes "unat x < 2 ^ 31"
  shows "unat (rnd128 x) = (unat x + 127) div 128 * 128"
proof -
  have a: "x AND 127 = take_bit 7 x" by (simp add: take_bit_eq_mask mask_eq_exp_minus_1)
  have z: "x AND 127 = 0 \<longleftrightarrow> unat x mod 128 = 0"
    unfolding a using unsigned_take_bit_eq [of 7 x, where 'a = nat] by (simp add: take_bit_eq_mod flip: unat_eq_zero)
  have d: "unat (drop_bit 7 x) = unat x div 128" by (simp add: drop_bit_eq_div unat_div)
  define c :: u32 where "c = (if x AND 127 \<noteq> 0 then 1 else 0)"
  have c: "unat c = (if unat x mod 128 = 0 then 0 else 1)" by (simp add: c_def z)
  have "unat x div 128 < 2 ^ 24" using assms by (simp add: less_mult_imp_div_less)
  then have q: "unat (drop_bit 7 x + c) = unat x div 128 + unat c" using c by (simp add: unat_word_ariths d)
  have s: "unat (2 ^ 7 :: u32) = 128" by simp
  have "unat (drop_bit 7 x + c) * unat (2 ^ 7 :: u32) < 2 ^ LENGTH(32)"
    unfolding q s using \<open>unat x div 128 < 2 ^ 24\<close> c by simp
  then have "unat ((drop_bit 7 x + c) * 2 ^ 7) = unat (drop_bit 7 x + c) * unat (2 ^ 7 :: u32)"
    by (rule iffD1 [OF unat_mult_lem])
  then have "unat (rnd128 x) = (unat x div 128 + unat c) * 128"
    unfolding rnd128_def push_bit_eq_mult c_def [symmetric] q s .
  also have "\<dots> = (unat x + 127) div 128 * 128" unfolding c round_up ..
  finally show ?thesis .
qed

lemma sint_pos:
  assumes "0 < sint (w :: u32)"
  shows "unat w < 2 ^ 31" "0 < unat w"
proof -
  have s: "sint w = signed_take_bit 31 (uint w)" by (simp add: sint_uint)
  have "uint w < 2 ^ 31"
  proof (rule ccontr)
    assume "\<not> uint w < 2 ^ 31"
    then have "sint w \<le> uint w - 2 ^ Suc 31" unfolding s by (intro signed_take_bit_int_less_eq) simp
    then show False using assms uint_bounded [of w] by simp
  qed
  then show "unat w < 2 ^ 31" by (simp only: flip: of_nat_less_iff [where 'a = int]) simp
  show "0 < unat w" using assms by (cases "w = 0") (simp_all add: unat_gt_0)
qed

text \<open>The rest of a transfer after a packet that fits.\<close>

lemma rest_facts:
  assumes po: "0 < unat po" "unat po < 70000" "po \<le> len" and more: "0 < sint (len - rnd128 po)"
  shows "unat (rnd128 po) \<le> unat len" "unat (len - rnd128 po) = unat len - unat (rnd128 po)"
    "unat (len - rnd128 po) < unat len"
proof -
  have r: "unat (rnd128 po) = (unat po + 127) div 128 * 128" using po(2) by (intro rnd128_val) simp
  have r2: "unat (rnd128 po) \<le> unat po + 127" unfolding r by simp
  have "1 \<le> (unat po + 127) div 128" using po(1) by (simp add: less_eq_div_iff_mult_less_eq)
  then have r1: "128 \<le> unat (rnd128 po)" unfolding r by linarith
  have t: "unat po \<le> unat len" using po(3) by (simp add: word_le_nat_alt)
  show l: "unat (rnd128 po) \<le> unat len"
  proof (rule ccontr)
    assume n: "\<not> unat (rnd128 po) \<le> unat len"
    then have "unat (len - rnd128 po) = unat len + 2 ^ 32 - unat (rnd128 po)"
      by (simp add: unat_sub_if' word_le_nat_alt)
    then have "2 ^ 32 - 127 \<le> unat (len - rnd128 po)" using t r2 by linarith
    then show False using sint_pos(1) [OF more] by simp
  qed
  then show e: "unat (len - rnd128 po) = unat len - unat (rnd128 po)" by (rule unat_minus_le)
  show "unat (len - rnd128 po) < unat len" using r1 l unfolding e by linarith
qed

lemma packet_offset_pos:
  "0 < unat (packet_offset env (rtl8188e_query_rx_desc_status p))"
  "unat (packet_offset env (rtl8188e_query_rx_desc_status p)) < 70000"
  using packet_offset_val [OF drvinfo_bound shift_bound] by (simp_all add: report_len_def)

text \<open>
  The loop over one buffer. The result: the number of frames requested so far, what was passed on, and whether
  the buffer is done (and not put back because no frame was left). \<open>None\<close> is a read outside the buffer.
\<close>

function recv_loop :: "rx_env \<Rightarrow> bytes \<Rightarrow> nat \<Rightarrow> u32 \<Rightarrow> nat \<Rightarrow> rx_event list \<Rightarrow> (nat \<times> rx_event list \<times> bool) option" where
  "recv_loop env mem ptr transfer_len k evs =
     (if \<not> rv_frame env k then Some (Suc k, evs, False)
      else case get_sub mem ptr RXDESC_SIZE of
        None \<Rightarrow> None
      | Some p \<Rightarrow>
          let d = rtl8188e_query_rx_desc_status p
          in if \<not> rtw_hal_rcr_check (rv_rcr env) RCR_ACRC32 \<and> ds_crc_err d then Some (Suc k, evs, True)
             else if ds_pkt_len d = 0 \<or> packet_offset env d > transfer_len then Some (Suc k, evs, True)
             else case rx_packet env mem ptr k d of
                    None \<Rightarrow> None
                  | Some None \<Rightarrow> Some (Suc k, evs, True)
                  | Some (Some ev) \<Rightarrow>
                      let step = rnd128 (packet_offset env d)
                      in if 0 < sint (transfer_len - step)
                         then recv_loop env mem (ptr + unat step) (transfer_len - step) (Suc k) (evs @ ev)
                         else Some (Suc k, evs @ ev, True))"
  by pat_completeness auto

termination
  by (relation "measure (\<lambda>(env, mem, ptr, tl, k, evs). unat tl)")
    (simp, use rest_facts(3) [OF packet_offset_pos] in \<open>force simp: not_less\<close>)

declare recv_loop.simps [simp del]

end
