(* ===== verification/Amsdu.thy ===== *)
theory Amsdu
  imports RxFrame
begin

text \<open>
  Splitting an A-MSDU, \<open>amsdu_to_msdu\<close> of core/rtw_recv.c. \<open>alloc k\<close> is the memory behind the \<open>k\<close>-th packet: behind the
  copy, or behind the subframe in the frame when there is no memory for a copy and the frame is cloned; \<open>None\<close> when neither
  succeeds. The check of the packets
  (\<open>rtw_recv_indicatepkt_check\<close>) accepts every packet in this configuration.
\<close>

definition ETH_HLEN :: nat where "ETH_HLEN = 14"
definition MAX_SUBFRAME_COUNT :: nat where "MAX_SUBFRAME_COUNT = 64"

text \<open>The packets found so far are \<open>acc\<close>; \<open>None\<close> is a read outside the memory.\<close>

function amsdu_loop :: "(nat \<Rightarrow> bytes option) \<Rightarrow> bytes \<Rightarrow> nat \<Rightarrow> nat \<Rightarrow> bytes list \<Rightarrow> bytes list option" where
  "amsdu_loop alloc mem pdata a_len acc =
     (if a_len \<le> ETH_HLEN then Some acc
      else case get_sub mem (pdata + 12) 2 of
        None \<Rightarrow> None
      | Some l \<Rightarrow>
          let n = unat (RTW_GET_BE16 l)
          in if a_len < 14 + n then Some acc
             else case get_sub mem pdata (14 + n) of
               None \<Rightarrow> None
             | Some sub \<Rightarrow>
                 (case alloc (length acc) of
                    None \<Rightarrow> Some acc
                  | Some spare \<Rightarrow>
                      (case rtw_os_alloc_msdu_pkt spare (take 6 sub) (take 6 (drop 6 sub)) (drop 14 sub) of
                         None \<Rightarrow> None
                       | Some pkt \<Rightarrow>
                      let acc = acc @ [pkt]; pdata = pdata + ETH_HLEN; a_len = a_len - ETH_HLEN
                      in if length acc \<ge> MAX_SUBFRAME_COUNT then Some acc
                         else let pdata = pdata + n; a_len = a_len - n;
                                  padding = (if (n + ETH_HLEN) mod 4 = 0 then 0 else 4 - (n + ETH_HLEN) mod 4)
                              in if a_len \<noteq> 0 then
                                   if a_len < padding then Some acc
                                   else amsdu_loop alloc mem (pdata + padding) (a_len - padding) acc
                                 else amsdu_loop alloc mem pdata a_len acc)))"
  by pat_completeness auto

termination
  by (relation "measure (\<lambda>(alloc, mem, p, a, acc). a)") (auto simp: ETH_HLEN_def)

declare amsdu_loop.simps [simp del]

definition amsdu_to_msdu :: "(nat \<Rightarrow> bytes option) \<Rightarrow> rx_frame \<Rightarrow> bytes list option" where
  "amsdu_to_msdu alloc f =
     (let a = fr_attr f;
          b = snd (recvframe_pull (fr_buf f) (int (unat (at_hdrlen a))));
          b = (if at_iv_len a > 0 then snd (recvframe_pull b (int (unat (at_iv_len a)))) else b)
      in amsdu_loop alloc (rb_mem b) (nat (rb_data b)) (nat (rb_len b)) [])"

section \<open>What it accepts\<close>

text \<open>The subframes of IEEE 802.11: header, payload and, except for the last, padding to a multiple of four.\<close>

type_synonym msdu = "bytes \<times> bytes \<times> bytes"

fun msdu_ok :: "msdu \<Rightarrow> bool" where
  "msdu_ok (da, sa, p) \<longleftrightarrow> length da = 6 \<and> length sa = 6 \<and> p \<noteq> [] \<and> length p < 2 ^ 16"

fun enc_msdu :: "msdu \<Rightarrow> bytes" where
  "enc_msdu (da, sa, p) = da @ sa @ be16 (word_of_nat (length p)) @ p"

fun enc_amsdu :: "msdu list \<Rightarrow> bytes" where
  "enc_amsdu [] = []"
| "enc_amsdu [m] = enc_msdu m"
| "enc_amsdu (m # ms) = enc_msdu m @ replicate ((4 - length (enc_msdu m) mod 4) mod 4) 0 @ enc_amsdu ms"

fun msdu_pkt :: "msdu \<Rightarrow> bytes" where
  "msdu_pkt (da, sa, p) = msdu_frame da sa p"

text \<open>There is memory for each packet, and behind it enough to read the type field of every subframe.\<close>

definition alloc_room :: "(nat \<Rightarrow> bytes option) \<Rightarrow> msdu list \<Rightarrow> bool" where
  "alloc_room alloc ms \<longleftrightarrow> (\<forall>k. \<exists>spare. alloc k = Some spare \<and> (\<forall>(da, sa, p) \<in> set ms. 8 \<le> length p + length spare))"

lemma be16_get: "RTW_GET_BE16 (be16 w) = w"
  unfolding RTW_GET_BE16_def be16_def
  by (rule bit_word_eqI) (auto simp: bit_simps dest!: less_16_cases)

lemma be16_length [simp]: "length (be16 w) = 2"
  by (simp add: be16_def)

lemma get_sub_at:
  assumes "drop a mem = xs @ ys" "n = length xs" "0 < n"
  shows "get_sub mem a n = Some xs"
proof -
  have "length mem - a = n + length ys" using arg_cong [OF assms(1), of length] assms(2) by simp
  then have "a + n \<le> length mem" using assms(3) by linarith
  then show ?thesis using assms by (simp add: get_sub_def)
qed

text \<open>One subframe.\<close>

lemma amsdu_step:
  assumes m: "msdu_ok (da, sa, p)" and mem: "drop a mem = enc_msdu (da, sa, p) @ rest" and k: "alloc (length acc) = Some spare" "8 \<le> length p + length spare"
  shows "amsdu_loop alloc mem a (length (enc_msdu (da, sa, p)) + r) acc =
    (let acc = acc @ [msdu_pkt (da, sa, p)]; e = length (enc_msdu (da, sa, p));
         padding = (if e mod 4 = 0 then 0 else 4 - e mod 4)
     in if length acc \<ge> MAX_SUBFRAME_COUNT then Some acc
        else if r \<noteq> 0 then if r < padding then Some acc else amsdu_loop alloc mem (a + e + padding) (r - padding) acc
        else amsdu_loop alloc mem (a + e) 0 acc)"
proof -
  have l: "length da = 6" "length sa = 6" "p \<noteq> []" "length p < 65536" using m by simp_all
  have u: "unat (word_of_nat (length p) :: u16) = length p" using l(4) by (simp add: unat_of_nat)
  have "drop (a + 12) mem = drop 12 (drop a mem)" by (simp add: add.commute)
  also have "\<dots> = be16 (word_of_nat (length p)) @ p @ rest" using l by (simp add: mem)
  finally have g: "get_sub mem (a + 12) 2 = Some (be16 (word_of_nat (length p)))"
    by (rule get_sub_at) simp_all
  have s: "get_sub mem a (14 + length p) = Some (enc_msdu (da, sa, p))"
    by (rule get_sub_at [OF mem]) (use l in simp_all)
  have e: "length (enc_msdu (da, sa, p)) = 14 + length p" using l by simp
  have "drop 14 (enc_msdu (da, sa, p)) = p" "take 6 (enc_msdu (da, sa, p)) = da" "take 6 (drop 6 (enc_msdu (da, sa, p))) = sa"
    using l by simp_all
  then show ?thesis using l k g s e u
    by (subst amsdu_loop.simps) (simp add: be16_get ETH_HLEN_def Let_def alloc_msdu_pkt add.commute add.left_commute del: enc_msdu.simps)
qed

lemma enc_msdu_length: "msdu_ok m \<Longrightarrow> 15 \<le> length (enc_msdu m)"
  by (cases m) (auto simp: Suc_le_eq)

lemma enc_amsdu_Cons:
  "ms \<noteq> [] \<Longrightarrow> enc_amsdu (m # ms) =
    enc_msdu m @ replicate ((4 - length (enc_msdu m) mod 4) mod 4) 0 @ enc_amsdu ms"
  by (cases ms) simp_all

lemma pad_eq: "(if e mod 4 = 0 then 0 else 4 - e mod 4) = (4 - e mod 4) mod (4 :: nat)"
  by (simp add: mod_less)

lemma amsdu_loop_enc:
  assumes "\<forall>m \<in> set ms. msdu_ok m" "ms \<noteq> []" "alloc_room alloc ms" "length acc < MAX_SUBFRAME_COUNT"
    "drop a mem = enc_amsdu ms @ rest"
  shows "amsdu_loop alloc mem a (length (enc_amsdu ms)) acc = Some (take MAX_SUBFRAME_COUNT (acc @ map msdu_pkt ms))"
  using assms
proof (induction ms arbitrary: a acc)
  case (Cons m ms)
  obtain da sa p where m: "m = (da, sa, p)" by (cases m)
  have ok: "msdu_ok (da, sa, p)" using Cons.prems(1) by (simp add: m)
  obtain spare where k: "alloc (length acc) = Some spare" "8 \<le> length p + length spare"
    using Cons.prems(3) unfolding alloc_room_def by (force simp: m)
  have room: "alloc_room alloc ms" using Cons.prems(3) unfolding alloc_room_def by force
  let ?e = "length (enc_msdu m)"
  show ?case
  proof (cases "ms = []")
    case True
    then have "drop a mem = enc_msdu (da, sa, p) @ rest" using Cons.prems(5) by (simp add: m)
    from amsdu_step [where alloc = alloc and acc = acc, OF ok this k, of 0] show ?thesis using Cons.prems(4) True
      by (auto simp: m Let_def amsdu_loop.simps [of _ _ _ 0] simp del: enc_msdu.simps msdu_pkt.simps)
  next
    case False
    let ?pad = "(4 - ?e mod 4) mod 4" and ?acc = "acc @ [msdu_pkt m]"
    have d: "drop a mem = enc_msdu (da, sa, p) @ (replicate ?pad 0 @ enc_amsdu ms @ rest)"
      using Cons.prems(5) enc_amsdu_Cons [OF False] by (simp add: m)
    obtain m' ms' where ms: "ms = m' # ms'" using False by (cases ms) auto
    have "15 \<le> length (enc_msdu m')" using Cons.prems(1) ms enc_msdu_length by simp
    moreover have "length (enc_msdu m') \<le> length (enc_amsdu ms)"
      using ms enc_amsdu_Cons [of ms' m'] by (cases "ms' = []") simp_all
    ultimately have r: "length (enc_amsdu ms) \<noteq> 0" by linarith
    have "length (enc_amsdu (m # ms)) = length (enc_msdu (da, sa, p)) + (?pad + length (enc_amsdu ms))"
      using enc_amsdu_Cons [OF False] by (simp add: m)
    then have step: "amsdu_loop alloc mem a (length (enc_amsdu (m # ms))) acc =
        (if length ?acc \<ge> MAX_SUBFRAME_COUNT then Some ?acc
         else amsdu_loop alloc mem (a + ?e + ?pad) (length (enc_amsdu ms)) ?acc)"
      using amsdu_step [where alloc = alloc and acc = acc, OF ok d k] r by (simp add: Let_def pad_eq m del: enc_msdu.simps msdu_pkt.simps)
    show ?thesis
    proof (cases "length ?acc \<ge> MAX_SUBFRAME_COUNT")
      case True
      then have c: "MAX_SUBFRAME_COUNT = Suc (length acc)" using Cons.prems(4) by simp
      have "take MAX_SUBFRAME_COUNT (acc @ map msdu_pkt (m # ms)) = ?acc" unfolding c by simp
      then show ?thesis using step True by (simp del: msdu_pkt.simps)
    next
      case less: False
      have "drop (a + ?e + ?pad) mem = drop (?e + ?pad) (drop a mem)" by (simp add: ac_simps)
      also have "\<dots> = enc_amsdu ms @ rest" unfolding d m by simp
      finally have d': "drop (a + ?e + ?pad) mem = enc_amsdu ms @ rest" .
      have "amsdu_loop alloc mem (a + ?e + ?pad) (length (enc_amsdu ms)) ?acc =
          Some (take MAX_SUBFRAME_COUNT (?acc @ map msdu_pkt ms))"
        using Cons.prems(1) less room by (intro Cons.IH False d') simp_all
      then show ?thesis using step less by (simp del: msdu_pkt.simps)
    qed
  qed
qed simp

text \<open>On any bytes the loop ends and reads nothing behind the frame, when there are eight bytes behind each copy.\<close>

lemma amsdu_loop_safe:
  "a + n \<le> length mem \<Longrightarrow> \<forall>k spare. alloc k = Some spare \<longrightarrow> 8 \<le> length spare \<Longrightarrow> amsdu_loop alloc mem a n acc \<noteq> None"
proof (induction alloc mem a n acc rule: amsdu_loop.induct)
  case (1 alloc mem a n acc)
  show ?case
  proof (cases "n \<le> ETH_HLEN")
    case True
    then show ?thesis by (subst amsdu_loop.simps) simp
  next
    case False
    then obtain l where l: "get_sub mem (a + 12) 2 = Some l" using 1(3) by (auto simp: get_sub_def ETH_HLEN_def)
    show ?thesis
    proof (cases "n < 14 + unat (RTW_GET_BE16 l)")
      case True
      then show ?thesis using False l by (subst amsdu_loop.simps) simp
    next
      case n: False
      then obtain sub where sub: "get_sub mem a (14 + unat (RTW_GET_BE16 l)) = Some sub" using 1(3) by (auto simp: get_sub_def)
      show ?thesis
      proof (cases "alloc (length acc)")
        case None
        then show ?thesis using False l n sub by (subst amsdu_loop.simps) (simp add: Let_def)
      next
        case (Some spare)
        then have "8 \<le> length spare" using 1(4) by blast
        then obtain pkt where pkt: "rtw_os_alloc_msdu_pkt spare (take 6 sub) (take 6 (drop 6 sub)) (drop 14 sub) = Some pkt"
          by (simp add: alloc_msdu_pkt)
        show ?thesis using False l n sub Some pkt 1(3,4) 1(1,2) [OF False l refl n sub Some pkt]
          by (subst amsdu_loop.simps) (auto simp: Let_def ETH_HLEN_def)
      qed
    qed
  qed
qed

text \<open>The two pulls leave the payload.\<close>

lemma pull_payload:
  assumes b: "buf_ok b" "int h + int i \<le> rb_len b"
    and b': "b' = snd (recvframe_pull b (int h))" "b'' = (if 0 < i then snd (recvframe_pull b' (int i)) else b')"
  shows "buf_ok b''" "rb_mem b'' = rb_mem b" "rb_data b'' = rb_data b + int (h + i)"
    "rb_len b'' = rb_len b - int (h + i)"
proof -
  have l: "int h \<le> rb_len b" using b(2) by simp
  note p1 = buf_pull [OF b(1) _ l]
  have e: "b' = b\<lparr>rb_data := rb_data b + int h, rb_len := rb_len b - int h\<rparr>" using p1(1) b'(1) by simp
  have ok: "buf_ok b'" using p1(2) e by simp
  have l2: "int i \<le> rb_len b'" using b(2) e by simp
  note p2 = buf_pull [OF ok _ l2]
  show "buf_ok b''" "rb_mem b'' = rb_mem b" "rb_data b'' = rb_data b + int (h + i)" "rb_len b'' = rb_len b - int (h + i)"
    using p2(1,2) b'(2) ok by (simp_all add: e)
qed

lemma amsdu_frames:
  assumes b: "buf_ok (fr_buf f)" "off_payload (fr_attr f) \<le> rb_len (fr_buf f)"
  shows "((\<forall>k spare. alloc k = Some spare \<longrightarrow> 8 \<le> length spare) \<longrightarrow> amsdu_to_msdu alloc f \<noteq> None) \<and>
    (drop (nat (off_payload (fr_attr f))) (buf_bytes (fr_buf f)) = enc_amsdu ms \<and> ms \<noteq> [] \<and> (\<forall>m \<in> set ms. msdu_ok m) \<and>
      alloc_room alloc ms \<longrightarrow>
     amsdu_to_msdu alloc f = Some (take MAX_SUBFRAME_COUNT (map msdu_pkt ms)))"
proof -
  let ?b = "fr_buf f" and ?h = "unat (at_hdrlen (fr_attr f))" and ?i = "unat (at_iv_len (fr_attr f))"
  define b' where "b' = snd (recvframe_pull ?b (int ?h))"
  define b'' where "b'' = (if 0 < ?i then snd (recvframe_pull b' (int ?i)) else b')"
  have l: "int ?h + int ?i \<le> rb_len ?b" using b(2) by (simp add: off_payload_def)
  note p = pull_payload [OF b(1) l b'_def b''_def]
  have e: "amsdu_to_msdu alloc f = amsdu_loop alloc (rb_mem b'') (nat (rb_data b'')) (nat (rb_len b'')) []"
    by (simp add: amsdu_to_msdu_def Let_def b''_def b'_def word_gt_0 unat_gt_0)
  have m: "nat (rb_data b'') + nat (rb_len b'') \<le> length (rb_mem b'')" using p(1) by (auto simp: buf_ok_def)
  have s: "amsdu_to_msdu alloc f \<noteq> None" if "\<forall>k spare. alloc k = Some spare \<longrightarrow> 8 \<le> length spare"
    unfolding e by (rule amsdu_loop_safe [OF m that])
  show ?thesis
  proof (intro conjI impI, rule s)
    assume a: "drop (nat (off_payload (fr_attr f))) (buf_bytes ?b) = enc_amsdu ms \<and> ms \<noteq> [] \<and> (\<forall>m \<in> set ms. msdu_ok m) \<and>
      alloc_room alloc ms"
    have bb: "buf_bytes b'' = enc_amsdu ms"
      using a b p(2-4) by (simp add: buf_bytes_def off_payload_def drop_take nat_diff_distrib buf_ok_def nat_add_distrib add.commute add.left_commute)
    have "nat (rb_len b'') = length (enc_amsdu ms)" using buf_bytes_length [OF p(1)] bb by simp
    moreover have "drop (nat (rb_data b'')) (rb_mem b'') = enc_amsdu ms @ drop (nat (rb_len b'')) (drop (nat (rb_data b'')) (rb_mem b''))"
      using bb by (metis append_take_drop_id buf_bytes_def)
    ultimately show "amsdu_to_msdu alloc f = Some (take MAX_SUBFRAME_COUNT (map msdu_pkt ms))"
      unfolding e using amsdu_loop_enc [of ms alloc "[]"] a by (simp add: MAX_SUBFRAME_COUNT_def)
  qed
qed

text \<open>
  Without memory behind the copy the type field of a subframe of less than eight bytes is read outside it.
\<close>

lemma amsdu_overread:
  assumes "msdu_ok (da, sa, p)" "alloc 0 = Some spare" "length p + length spare < 8"
  shows "amsdu_loop alloc (enc_amsdu [(da, sa, p)] @ rest) 0 (length (enc_amsdu [(da, sa, p)])) [] = None"
proof -
  have l: "length da = 6" "length sa = 6" "p \<noteq> []" "length p < 65536" using assms(1) by simp_all
  have u: "unat (word_of_nat (length p) :: u16) = length p" using l(4) by (simp add: unat_of_nat)
  show ?thesis using l u assms(2,3)
    by (subst amsdu_loop.simps) (simp add: be16_get ETH_HLEN_def Let_def alloc_msdu_pkt get_sub_def be16_length [unfolded be16_def] be16_get [unfolded be16_def] flip: be16_def)
qed

text \<open>C18: \<open>amsdu_to_msdu\<close> always ends, and it reads nothing outside the memory of the frame and of the copies of its
  subframes, when there are at least eight bytes behind each copy: of a subframe with less than eight bytes the code reads
  bytes 6 and 7 before it looks at the length. When the payload of the frame is an A-MSDU of subframes with non-empty payloads and
  memory is available, the result are their Ethernet frames in order, of the first 64 when there are more.\<close>
theorem amsdu_split:
  assumes b: "buf_ok (fr_buf f)" "off_payload (fr_attr f) \<le> rb_len (fr_buf f)"
  shows "((\<forall>k spare. alloc k = Some spare \<longrightarrow> 8 \<le> length spare) \<longrightarrow> amsdu_to_msdu alloc f \<noteq> None) \<and>
    (drop (nat (off_payload (fr_attr f))) (buf_bytes (fr_buf f)) = enc_amsdu ms \<and> ms \<noteq> [] \<and> (\<forall>m \<in> set ms. msdu_ok m) \<and>
      alloc_room alloc ms \<longrightarrow>
     amsdu_to_msdu alloc f = Some (take MAX_SUBFRAME_COUNT (map msdu_pkt ms)))"
  using assms by (rule amsdu_frames)

definition demo_attr :: rx_attr where
  "demo_attr = \<lparr>at_hdrlen = 26, at_iv_len = 0, at_icv_len = 0, at_encrypt = 0, at_bdecrypted = False, at_key_index = 0,
     at_to_fr_ds = 2, at_amsdu = True, at_qos = True, at_priority = 0, at_ack_policy = 0, at_order = False,
     at_privacy = False, at_mfrag = False, at_frag_num = 0, at_seq_num = 0, at_pw_save = False, at_mdata = False,
     at_eth_type = 0, at_dst = replicate 6 1, at_src = replicate 6 2, at_ta = replicate 6 2, at_ra = replicate 6 1,
     at_bssid = replicate 6 1\<rparr>"

definition demo_buf :: "bytes \<Rightarrow> rx_buf" where
  "demo_buf bs = \<lparr>rb_mem = replicate 8 0 @ bs, rb_data = 8, rb_tail = int (8 + length bs), rb_end = int (8 + length bs),
     rb_len = int (length bs)\<rparr>"

lemma demo_buf_facts: "buf_ok (demo_buf bs)" "buf_bytes (demo_buf bs) = bs" "rb_len (demo_buf bs) = int (length bs)"
  by (simp_all add: demo_buf_def buf_ok_def buf_bytes_def)

definition demo_msdus :: "msdu list" where
  "demo_msdus = [(replicate 6 3, replicate 6 4, [1, 2, 3]), (replicate 6 5, replicate 6 6, rtw_rfc1042_header @ [8, 0, 9])]"

lemma amsdu_split_witness:
  "amsdu_to_msdu (\<lambda>_. Some (replicate 8 0)) \<lparr>fr_attr = demo_attr, fr_buf = demo_buf (replicate 26 0 @ enc_amsdu demo_msdus)\<rparr> =
    Some [replicate 6 3 @ replicate 6 4 @ [0, 3, 1, 2, 3], replicate 6 5 @ replicate 6 6 @ [8, 0, 9]]"
proof -
  let ?f = "\<lparr>fr_attr = demo_attr, fr_buf = demo_buf (replicate 26 0 @ enc_amsdu demo_msdus)\<rparr>"
  have o': "off_payload demo_attr = 26" by (simp add: off_payload_def demo_attr_def)
  have ok: "\<forall>m \<in> set demo_msdus. msdu_ok m" "demo_msdus \<noteq> []" by (simp_all add: demo_msdus_def snap_defs)
  have "map msdu_pkt demo_msdus = [replicate 6 3 @ replicate 6 4 @ [0, 3, 1, 2, 3], replicate 6 5 @ replicate 6 6 @ [8, 0, 9]]"
    by (simp add: demo_msdus_def msdu_frame_def is_snap_def snap_defs be16_def)
  then show ?thesis
    using amsdu_split [of ?f "\<lambda>_. Some (replicate 8 0)" demo_msdus] ok by (simp add: o' demo_buf_facts MAX_SUBFRAME_COUNT_def alloc_room_def split_beta)
qed

end
