(* ===== verification/RxSplit.thy ===== *)
theory RxSplit
  imports RxAggr Amsdu
begin

text \<open>
  What the tasklet of RxAggr passes on: every packet of a buffer once and in order, unless no frame is left, when
  the whole buffer is put back.
\<close>

section \<open>The queue of buffers\<close>

text \<open>
  A receive buffer: its memory from \<open>pdata\<close> and \<open>len\<close>. \<open>stop n\<close> is \<open>RTW_CANNOT_RUN\<close> with \<open>n\<close> buffers
  pending. The result: the requests for frames so far, what was passed on and the pending queue; the other
  buffers are on the free queue.
\<close>

type_synonym recv_buf = "bytes \<times> u32"

fun rtl8188es_recv_tasklet ::
  "(nat \<Rightarrow> bool) \<Rightarrow> rx_env \<Rightarrow> nat \<Rightarrow> rx_event list \<Rightarrow> recv_buf list \<Rightarrow> (nat \<times> rx_event list \<times> recv_buf list) option" where
  "rtl8188es_recv_tasklet stop env k evs [] = Some (k, evs, [])"
| "rtl8188es_recv_tasklet stop env k evs (b # q) =
     (if stop (length (b # q)) then Some (k, evs, b # q)
      else case recv_loop env (fst b) 0 (snd b) k evs of
        None \<Rightarrow> None
      | Some (k, evs, finished) \<Rightarrow>
          if finished then rtl8188es_recv_tasklet stop env k evs q else Some (k, evs, b # q))"

section \<open>Packets in a buffer\<close>

lemma alloc_size_val:
  "unat (ds_pkt_len d) + 14 \<le> unat (alloc_size d)"
proof -
  have u: "unat (ucast (ds_pkt_len d) :: u32) = unat (ds_pkt_len d)" by simp
  have f: "unat (14 :: u32) = 14" by simp
  have "unat (ds_pkt_len d) < 65536" by simp
  then have "unat (ds_pkt_len d) + 14 < 4294967296" by linarith
  then have "unat (ucast (ds_pkt_len d) :: u32) + unat (14 :: u32) < 2 ^ LENGTH(32)" unfolding u f by simp
  then have "unat (ucast (ds_pkt_len d) + 14 :: u32) = unat (ucast (ds_pkt_len d) :: u32) + unat (14 :: u32)"
    by (rule iffD1 [OF unat_add_lem])
  then have s: "unat (ucast (ds_pkt_len d) + 14 :: u32) = unat (ds_pkt_len d) + 14" unfolding u f .
  have "(ucast (ds_pkt_len d) :: u32) \<le> 1650 \<Longrightarrow> unat (ds_pkt_len d) + 14 \<le> 1664" by (simp add: word_le_nat_alt)
  then show ?thesis using s by (auto simp: alloc_size_def Let_def)
qed

text \<open>A packet inside the buffer is copied whole; only a fresh buffer is large enough for its \<open>rx_end\<close>.\<close>

lemma alloc_frame_ok:
  assumes bs: "get_sub mem pdata (unat (ds_pkt_len d)) = Some bs"
    and s: "\<And>s. fresh = Some s \<Longrightarrow> skb_ok (alloc_size d) s"
  shows "rtw_os_alloc_recvframe fresh clone d mem pdata \<noteq> None"
    "rtw_os_alloc_recvframe fresh clone d mem pdata = Some (Some b) \<Longrightarrow>
       buf_bytes (snd (recvframe_put b (int (unat (ds_pkt_len d))))) = bs \<and>
       (fresh \<noteq> None \<longrightarrow> buf_ok (snd (recvframe_put b (int (unat (ds_pkt_len d))))))"
proof -
  let ?n = "unat (ds_pkt_len d)" and ?a = "unat (alloc_size d)" and ?s = "if ds_qos d then 6 else (0 :: nat)"
  note a = alloc_size_val [of d]
  have l: "length bs = ?n" "pdata + ?n \<le> length mem" "bs = take ?n (drop pdata mem)" using bs by (auto simp: get_sub_def split: if_splits)
  have "rtw_os_alloc_recvframe fresh clone d mem pdata \<noteq> None \<and>
    (rtw_os_alloc_recvframe fresh clone d mem pdata = Some (Some b) \<longrightarrow>
       buf_bytes (snd (recvframe_put b (int (unat (ds_pkt_len d))))) = bs \<and>
       (fresh \<noteq> None \<longrightarrow> buf_ok (snd (recvframe_put b (int (unat (ds_pkt_len d)))))))"
  proof (cases fresh)
    case None
    then show ?thesis using a l
      by (auto simp: rtw_os_alloc_recvframe_def Let_def recvframe_put_def buf_bytes_def simp del: of_nat_unat)
  next
    case (Some x)
    obtain m d0 al where x: "x = (m, d0, al)" by (cases x)
    have ok: "d0 + ?a \<le> length m" using s [OF Some] by (simp add: skb_ok_def x)
    define D where "D = d0 + (8 - al mod 8) + ?s"
    have le: "D + ?n \<le> d0 + ?a" using a by (auto simp: D_def)
    then have p: "put_sub m D bs = Some (take D m @ bs @ drop (D + ?n) m)" using ok l(1) by (simp add: put_sub_def)
    define m' where "m' = take D m @ bs @ drop (D + ?n) m"
    have lm: "length m' = length m" using le ok l(1) by (simp add: m'_def)
    define b' where "b' = \<lparr>rb_mem = m', rb_data = int D, rb_tail = int D, rb_end = int (d0 + ?a), rb_len = 0\<rparr>"
    have e: "rtw_os_alloc_recvframe fresh clone d mem pdata = Some (Some b')"
      unfolding rtw_os_alloc_recvframe_def Let_def Some x option.case prod.case bs Option.bind.bind_lunit
        D_def [symmetric] p m'_def b'_def ..
    have "int D + int ?n \<le> int (d0 + ?a)" using le by linarith
    then have put: "recvframe_put b' (int ?n) = (True, b'\<lparr>rb_tail := int D + int ?n, rb_len := int ?n\<rparr>)"
      unfolding recvframe_put_def b'_def by (simp del: of_nat_unat of_nat_add)
    have "buf_ok (b'\<lparr>rb_tail := int D + int ?n, rb_len := int ?n\<rparr>)"
      using \<open>int D + int ?n \<le> int (d0 + ?a)\<close> ok unfolding buf_ok_def b'_def lm [symmetric]
      by (simp del: of_nat_unat of_nat_add)
    moreover have "buf_bytes (b'\<lparr>rb_tail := int D + int ?n, rb_len := int ?n\<rparr>) = bs"
      using le ok l(1) by (simp add: buf_bytes_def b'_def m'_def del: of_nat_unat of_nat_add)
    ultimately show ?thesis using e put by auto
  qed
  then show "rtw_os_alloc_recvframe fresh clone d mem pdata \<noteq> None"
    "rtw_os_alloc_recvframe fresh clone d mem pdata = Some (Some b) \<Longrightarrow>
       buf_bytes (snd (recvframe_put b (int (unat (ds_pkt_len d))))) = bs \<and>
       (fresh \<noteq> None \<longrightarrow> buf_ok (snd (recvframe_put b (int (unat (ds_pkt_len d))))))"
    by simp_all
qed

lemma alloc_frame_fresh: "rtw_os_alloc_recvframe (Some s) clone d mem pdata \<noteq> Some None"
  by (cases s) (auto simp: rtw_os_alloc_recvframe_def Let_def split: Option.bind_splits)

section \<open>A buffer of packets\<close>

text \<open>A packet as the chip writes it: descriptor, receive status, alignment and body.\<close>

type_synonym rx_pkt = "bytes \<times> bytes \<times> bytes \<times> bytes"

definition pkt_desc :: "rx_pkt \<Rightarrow> rx_desc" where
  "pkt_desc p = rtl8188e_query_rx_desc_status (fst p)"

definition enc_pkt :: "rx_pkt \<Rightarrow> bytes" where
  "enc_pkt p = (case p of (h, st, sh, body) \<Rightarrow> h @ st @ sh @ body)"

definition pkt_ok :: "rx_env \<Rightarrow> rx_pkt \<Rightarrow> bool" where
  "pkt_ok env p \<longleftrightarrow> (case p of (h, st, sh, body) \<Rightarrow>
     length h = RXDESC_SIZE \<and> RXDESC_SIZE + length st = report_len env (pkt_desc p) \<and> length sh = unat (ds_shift_sz (pkt_desc p)) \<and>
     length body = unat (ds_pkt_len (pkt_desc p)) \<and> body \<noteq> [] \<and>
     (ds_crc_err (pkt_desc p) \<longrightarrow> rtw_hal_rcr_check (rv_rcr env) RCR_ACRC32))"

definition up128 :: "nat \<Rightarrow> nat" where "up128 n = (n + 127) div 128 * 128"

fun enc_pkts :: "rx_pkt list \<Rightarrow> bytes" where
  "enc_pkts [] = []"
| "enc_pkts [p] = enc_pkt p"
| "enc_pkts (p # ps) = enc_pkt p @ replicate (up128 (length (enc_pkt p)) - length (enc_pkt p)) 0 @ enc_pkts ps"

text \<open>What an event says of the packet, and what is expected of it.\<close>

fun event_view :: "rx_event \<Rightarrow> rx_desc option \<times> bytes" where
  "event_view (Pre_recv_entry d b st) = (Some d, buf_bytes b)"
| "event_view (Txrpt_ccx b) = (None, buf_bytes b)"
| "event_view (Tx_rpt2 b n m0 m1) = (None, buf_bytes b)"

definition pkt_view :: "rx_pkt \<Rightarrow> (rx_desc option \<times> bytes) list" where
  "pkt_view p = (let d = pkt_desc p; body = snd (snd (snd p))
     in if ds_crc_err d \<or> ds_icv_err d \<or> ds_pkt_rpt_type d = HIS_REPORT then []
        else if ds_pkt_rpt_type d = NORMAL_RX then [(Some d, body)] else [(None, body)])"

lemma le_up128: "n \<le> up128 n" "up128 n \<le> n + 127"
  using div_mult_mod_eq [of "n + 127" 128] mod_less_divisor [of 128 "n + 127"] by (unfold up128_def, linarith+)

lemma rpt_type_cases: "ds_pkt_rpt_type (pkt_desc p) \<in> {NORMAL_RX, TX_REPORT1, TX_REPORT2, HIS_REPORT}"
proof -
  let ?w = "ucast (bits_at (rxdw (fst p) 3) 14 2) :: u8"
  have "ds_pkt_rpt_type (pkt_desc p) = ?w" by (simp add: pkt_desc_def rtl8188e_query_rx_desc_status_def Let_def)
  moreover have "unat ?w \<le> unat (bits_at (rxdw (fst p) 3) 14 2)" by (simp add: unsigned_ucast_eq take_bit_eq_mod)
  then have "unat ?w < 4" using bits_at_bound [of "rxdw (fst p) 3" 14 2] by simp
  then have "unat ?w = 0 \<or> unat ?w = 1 \<or> unat ?w = 2 \<or> unat ?w = 3" by linarith
  then have "?w \<in> {0, 1, 2, 3}" by (auto simp: word_eq_iff_unsigned [where 'a = nat])
  ultimately show ?thesis by (simp add: rpt_defs)
qed

lemma pkt_offset_length:
  assumes "pkt_ok env p"
  shows "unat (packet_offset env (pkt_desc p)) = length (enc_pkt p)" "length (enc_pkt p) < 70000" "0 < length (enc_pkt p)"
proof -
  have "unat (packet_offset env (pkt_desc p)) =
      report_len env (pkt_desc p) + unat (ds_shift_sz (pkt_desc p)) + unat (ds_pkt_len (pkt_desc p))"
    unfolding pkt_desc_def by (rule packet_offset_val(1) [OF drvinfo_bound shift_bound])
  also have "\<dots> = length (enc_pkt p)" using assms by (auto simp: pkt_ok_def enc_pkt_def split: prod.splits)
  finally show e: "unat (packet_offset env (pkt_desc p)) = length (enc_pkt p)" .
  show "length (enc_pkt p) < 70000" "0 < length (enc_pkt p)"
    using packet_offset_pos [of env "fst p"] unfolding e [unfolded pkt_desc_def] by simp_all
qed

text \<open>Sockets buffers that are always to be had.\<close>

definition skb_env :: "rx_env \<Rightarrow> bool" where
  "skb_env env \<longleftrightarrow> (\<forall>k sz. \<exists>s. rv_skb env k sz = Some s \<and> skb_ok sz s)"

lemma rx_packet_view:
  assumes p: "pkt_ok env p" and mem: "drop ptr mem = enc_pkt p @ rest" and env: "skb_env env"
  shows "\<exists>evs. rx_packet env mem ptr k (pkt_desc p) = Some (Some evs) \<and> map event_view evs = pkt_view p"
proof (cases "ds_crc_err (pkt_desc p) \<or> ds_icv_err (pkt_desc p)")
  case True
  then show ?thesis by (auto simp: rx_packet_def pkt_view_def)
next
  case False
  obtain h st sh body where q: "p = (h, st, sh, body)" by (cases p)
  let ?d = "pkt_desc p"
  let ?off = "ptr + unat (rx_report_size env ?d) + unat (ds_shift_sz ?d)"
  have r: "unat (rx_report_size env ?d) = length (h @ st)" "unat (ds_shift_sz ?d) = length sh" "unat (ds_pkt_len ?d) = length body"
    using p rx_report_size_val(1) [OF drvinfo_bound, of env h] by (auto simp: pkt_ok_def pkt_desc_def q)
  have "body \<noteq> []" using p by (simp add: pkt_ok_def q)
  then have pos: "0 < length body" by simp
  have "drop ?off mem = drop (length (h @ st @ sh)) (drop ptr mem)" unfolding r by (simp add: ac_simps)
  also have "\<dots> = body @ rest" unfolding mem q enc_pkt_def by simp
  finally have "get_sub mem ?off (unat (ds_pkt_len ?d)) = Some body"
    unfolding r(3) by (rule get_sub_at [OF _ refl pos])
  note b = alloc_frame_ok [OF this]
  obtain s where s: "rv_skb env k (alloc_size ?d) = Some s" "skb_ok (alloc_size ?d) s" using env unfolding skb_env_def by blast
  have sk: "\<And>s'. rv_skb env k (alloc_size ?d) = Some s' \<Longrightarrow> skb_ok (alloc_size ?d) s'" using s by simp
  have "rtw_os_alloc_recvframe (rv_skb env k (alloc_size ?d)) (rv_clone env k) ?d mem ?off \<notin> {None, Some None}"
    using b(1) [where fresh = "rv_skb env k (alloc_size ?d)" and clone = "rv_clone env k", OF sk]
      alloc_frame_fresh [of s "rv_clone env k" ?d mem ?off] unfolding s(1) by blast
  then obtain b' where
    b': "rtw_os_alloc_recvframe (rv_skb env k (alloc_size ?d)) (rv_clone env k) ?d mem ?off = Some (Some b')"
    by auto
  have body: "buf_bytes (snd (recvframe_put b' (int (unat (ds_pkt_len ?d))))) = body" using b(2) [OF sk b'] by blast
  have v: "map event_view (rx_dispatch env ?d ptr b') = pkt_view p"
    using False rpt_type_cases [of p] body
    by (auto simp: rx_dispatch_def Let_def pkt_view_def rpt_defs q simp del: of_nat_unat)
  show ?thesis using False b' v by (simp add: rx_packet_def)
qed

text \<open>One packet.\<close>

lemma step_val:
  assumes "pkt_ok env p"
  shows "unat (rnd128 (packet_offset env (pkt_desc p))) = up128 (length (enc_pkt p))"
  using rnd128_val [of "packet_offset env (pkt_desc p)"] pkt_offset_length [OF assms] by (simp add: up128_def)

lemma recv_step:
  assumes p: "pkt_ok env p" and mem: "drop ptr mem = enc_pkt p @ rest" and env: "skb_env env" and k: "rv_frame env k"
    and w: "length (enc_pkt p) \<le> unat w"
  shows "\<exists>evs'. map event_view evs' = pkt_view p \<and> recv_loop env mem ptr w k evs =
    (let w' = w - rnd128 (packet_offset env (pkt_desc p))
     in if 0 < sint w' then recv_loop env mem (ptr + up128 (length (enc_pkt p))) w' (Suc k) (evs @ evs')
        else Some (Suc k, evs @ evs', True))"
proof -
  obtain h st sh body where q: "p = (h, st, sh, body)" by (cases p)
  have h: "length h = RXDESC_SIZE" "body \<noteq> []" "length body = unat (ds_pkt_len (pkt_desc p))"
    "ds_crc_err (pkt_desc p) \<longrightarrow> rtw_hal_rcr_check (rv_rcr env) RCR_ACRC32"
    using p by (simp_all add: pkt_ok_def q)
  have "drop ptr mem = h @ (st @ sh @ body @ rest)" using mem by (simp add: enc_pkt_def q)
  then have g: "get_sub mem ptr RXDESC_SIZE = Some h" using h(1) by (intro get_sub_at) (simp_all add: RXDESC_SIZE_def)
  have d: "rtl8188e_query_rx_desc_status h = pkt_desc p" by (simp add: pkt_desc_def q)
  have "unat (ds_pkt_len (pkt_desc p)) \<noteq> 0" using h(2) unfolding h(3) [symmetric] by simp
  then have z: "ds_pkt_len (pkt_desc p) \<noteq> 0" by auto
  have le: "\<not> packet_offset env (pkt_desc p) > w"
    using w pkt_offset_length(1) [OF p] by (simp add: word_less_nat_alt)
  obtain evs' where e: "rx_packet env mem ptr k (pkt_desc p) = Some (Some evs')" "map event_view evs' = pkt_view p"
    using rx_packet_view [OF p mem env] by blast
  show ?thesis
    using k g d z le h(4) e step_val [OF p]
    by (subst recv_loop.simps) (auto simp: Let_def)
qed

lemma up128_add: "up128 (up128 a + b) = up128 a + up128 b"
proof -
  have "up128 a + b + 127 = (b + 127) + (a + 127) div 128 * 128" by (simp add: up128_def)
  then have "(up128 a + b + 127) div 128 = (b + 127) div 128 + (a + 127) div 128" by (simp only: div_mult_self1)
  then show ?thesis unfolding up128_def [of "up128 a + b"] by (simp add: up128_def algebra_simps)
qed

lemma enc_pkts_Cons:
  "ps \<noteq> [] \<Longrightarrow> enc_pkts (p # ps) =
    enc_pkt p @ replicate (up128 (length (enc_pkt p)) - length (enc_pkt p)) 0 @ enc_pkts ps"
  by (cases ps) simp_all

lemma enc_pkts_length: "ps \<noteq> [] \<Longrightarrow> length (enc_pkts (p # ps)) = up128 (length (enc_pkt p)) + length (enc_pkts ps)"
  using le_up128(1) [of "length (enc_pkt p)"] by (simp add: enc_pkts_Cons)

text \<open>A buffer with \<open>j\<close> frames to be had.\<close>

lemma recv_loop_split:
  assumes "\<forall>p \<in> set ps. pkt_ok env p" "skb_env env" "ps \<noteq> []" "drop ptr mem = enc_pkts ps @ rest"
    "length (enc_pkts ps) \<le> n" "n \<le> up128 (length (enc_pkts ps))" "n < 2 ^ 31"
    "\<forall>i < j. rv_frame env (k + i)" "j < length ps \<longrightarrow> \<not> rv_frame env (k + j)"
  shows "\<exists>k' evs'. recv_loop env mem ptr (word_of_nat n) k evs = Some (k', evs @ evs', length ps \<le> j) \<and>
    map event_view evs' = concat (map pkt_view (take j ps))"
  using assms
proof (induction ps arbitrary: ptr n k j evs)
  case (Cons p ps)
  show ?case
  proof (cases j)
    case 0
    then show ?thesis using Cons.prems(9) by (subst recv_loop.simps) auto
  next
    case (Suc i)
    have p: "pkt_ok env p" and ps: "\<forall>p \<in> set ps. pkt_ok env p" using Cons.prems(1) by simp_all
    have k: "rv_frame env k" using Cons.prems(8) Suc by force
    let ?w = "word_of_nat n :: u32" and ?w' = "(word_of_nat n :: u32) - rnd128 (packet_offset env (pkt_desc p))"
    have w: "unat ?w = n" using Cons.prems(7) by (simp add: unat_of_nat)
    have n: "length (enc_pkt p) \<le> n" using Cons.prems(5) by (cases "ps = []") (simp_all add: enc_pkts_Cons)
    obtain rest' where m: "drop ptr mem = enc_pkt p @ rest'"
      using Cons.prems(4) by (cases "ps = []") (simp_all add: enc_pkts_Cons)
    obtain evs' where e: "map event_view evs' = pkt_view p" "recv_loop env mem ptr ?w k evs =
        (if 0 < sint ?w' then recv_loop env mem (ptr + up128 (length (enc_pkt p))) ?w' (Suc k) (evs @ evs')
         else Some (Suc k, evs @ evs', True))"
      using recv_step [OF p m Cons.prems(2) k, of ?w evs] n unfolding w Let_def by blast
    have le: "packet_offset env (pkt_desc p) \<le> ?w" using n w pkt_offset_length(1) [OF p] by (simp add: word_le_nat_alt)
    note rest = rest_facts [OF _ _ le, unfolded pkt_offset_length(1) [OF p] w step_val [OF p]]
    show ?thesis
    proof (cases "ps = []")
      case True
      have "\<not> 0 < sint ?w'"
      proof
        assume s: "0 < sint ?w'"
        have "unat ?w' = n - up128 (length (enc_pkt p))" using rest(2) [OF pkt_offset_length(3,2) [OF p] s] .
        then show False using sint_pos(2) [OF s] Cons.prems(6) True by simp
      qed
      then show ?thesis using e Suc True by simp
    next
      case False
      let ?n = "n - up128 (length (enc_pkt p))"
      have l: "length (enc_pkts (p # ps)) = up128 (length (enc_pkt p)) + length (enc_pkts ps)" by (rule enc_pkts_length [OF False])
      have "\<exists>p' ps'. ps = p' # ps'" using False by (cases ps) auto
      then have pos: "0 < length (enc_pkts ps)"
        using ps pkt_offset_length(3) [of env] enc_pkts_Cons by (metis Nil_is_append_conv enc_pkts.simps(2) length_greater_0_conv list.set_intros(1))
      have nn: "length (enc_pkts ps) \<le> ?n" "?n \<le> up128 (length (enc_pkts ps))" "?n < 2 ^ 31"
        using Cons.prems(5,6,7) unfolding l up128_add by simp_all
      have le': "up128 (length (enc_pkt p)) \<le> n" using Cons.prems(5) unfolding l by simp
      then have "unat ?w' = ?n" using unat_minus_le [of "rnd128 (packet_offset env (pkt_desc p))" ?w]
        unfolding w step_val [OF p] by simp
      then have w': "?w' = word_of_nat ?n" by (metis of_nat_unat ucast_id)
      have "0 < ?n" using pos nn(1) by linarith
      moreover have "sint ?w' = int ?n" using sint_small [of ?w'] \<open>unat ?w' = ?n\<close> nn(3) by metis
      ultimately have s: "0 < sint ?w'" by (simp only: of_nat_0_less_iff)
      have d: "drop (ptr + up128 (length (enc_pkt p))) mem = enc_pkts ps @ rest"
      proof -
        have "drop (ptr + up128 (length (enc_pkt p))) mem = drop (up128 (length (enc_pkt p))) (drop ptr mem)" by (simp add: add.commute)
        also have "\<dots> = enc_pkts ps @ rest"
          unfolding Cons.prems(4) enc_pkts_Cons [OF False] using le_up128(1) [of "length (enc_pkt p)"] by simp
        finally show ?thesis .
      qed
      have fr: "\<forall>i' < i. rv_frame env (Suc k + i')" "i < length ps \<longrightarrow> \<not> rv_frame env (Suc k + i)"
        using Cons.prems(8,9) Suc by auto
      from Cons.IH [OF ps Cons.prems(2) False d nn fr, of "evs @ evs'"] obtain k' evs2 where
        i: "recv_loop env mem (ptr + up128 (length (enc_pkt p))) (word_of_nat ?n) (Suc k) (evs @ evs') =
            Some (k', (evs @ evs') @ evs2, length ps \<le> i)" "map event_view evs2 = concat (map pkt_view (take i ps))"
        by blast
      have "recv_loop env mem ptr ?w k evs = Some (k', evs @ evs' @ evs2, length (p # ps) \<le> j)"
        using e(2) s i(1) Suc unfolding w' by simp
      moreover have "map event_view (evs' @ evs2) = concat (map pkt_view (take j (p # ps)))" using e(1) i(2) Suc by simp
      ultimately show ?thesis by blast
    qed
  qed
qed simp

section \<open>Properties\<close>

text \<open>C15: Let socket buffers be available. Of a buffer with packets padded to 128 bytes, each is
  passed on once, in order, with its bytes unchanged, apart from those with an ICV or CRC error, and the buffer is freed.
  When only \<open>j\<close> frames are left and there are more packets, the first \<open>j\<close> are passed on and the whole buffer is
  back at the head of the queue, so that the next run passes them on a second time.\<close>
theorem recv_tasklet_split:
  assumes ps: "\<forall>p \<in> set ps. pkt_ok env p" "ps \<noteq> []" and skb: "skb_env env" and run: "\<forall>n. \<not> stop n"
    and n: "length (enc_pkts ps) \<le> n" "n \<le> up128 (length (enc_pkts ps))" "n < 2 ^ 31"
    and j: "\<forall>i < j. rv_frame env (k + i)" "j < length ps \<longrightarrow> \<not> rv_frame env (k + j)"
  shows "\<exists>k' evs'. rtl8188es_recv_tasklet stop env k evs [(enc_pkts ps @ rest, word_of_nat n)] =
      Some (k', evs @ evs', if length ps \<le> j then [] else [(enc_pkts ps @ rest, word_of_nat n)]) \<and>
    map event_view evs' = concat (map pkt_view (take j ps))"
proof -
  obtain k' evs' where "recv_loop env (enc_pkts ps @ rest) 0 (word_of_nat n) k evs = Some (k', evs @ evs', length ps \<le> j)"
    "map event_view evs' = concat (map pkt_view (take j ps))"
    using recv_loop_split [OF ps(1) skb ps(2) _ n j, of 0 "enc_pkts ps @ rest" rest evs] by auto
  then show ?thesis using run by auto
qed

definition demo_env :: "(nat \<Rightarrow> bool) \<Rightarrow> rx_env" where
  "demo_env frames = \<lparr>rv_rcr = 0, rv_frame = frames, rv_skb = \<lambda>k sz. Some (replicate (unat sz + 64) 0, 64, 0), rv_clone = \<lambda>k. True\<rparr>"

text \<open>A packet of three bytes with no receive status.\<close>

definition demo_pkt :: "u8 \<Rightarrow> rx_pkt" where
  "demo_pkt x = (3 # replicate 23 0, [], [], [x, 7, 9])"

lemma demo_pkt_desc: "pkt_desc (demo_pkt x) = no_desc\<lparr>ds_pkt_len := 3, ds_bdecrypted := True\<rparr>"
proof -
  have "rtl8188e_query_rx_desc_status (3 # replicate 23 0) = no_desc\<lparr>ds_pkt_len := 3, ds_bdecrypted := True\<rparr>" by code_simp
  then show ?thesis by (simp add: pkt_desc_def demo_pkt_def)
qed

lemma demo_pkt_ok: "pkt_ok (demo_env frames) (demo_pkt x)"
  by (simp add: pkt_ok_def demo_pkt_desc) (simp add: demo_pkt_def RXDESC_SIZE_def report_len_def no_desc_def demo_env_def
      rtw_hal_rcr_check_def RCR_APP_BA_SSN_def)

lemma recv_tasklet_split_witness:
  "\<exists>k' evs'. rtl8188es_recv_tasklet (\<lambda>n. False) (demo_env (\<lambda>i. i < 1)) 0 []
      [(enc_pkts [demo_pkt 1, demo_pkt 2], word_of_nat (length (enc_pkts [demo_pkt 1, demo_pkt 2])))] =
      Some (k', evs', [(enc_pkts [demo_pkt 1, demo_pkt 2], word_of_nat (length (enc_pkts [demo_pkt 1, demo_pkt 2])))]) \<and>
    map event_view evs' = [(Some (no_desc\<lparr>ds_pkt_len := 3, ds_bdecrypted := True\<rparr>), [1, 7, 9])]"
proof -
  let ?ps = "[demo_pkt 1, demo_pkt 2]" and ?env = "demo_env (\<lambda>i. i < 1)"
  have ps: "\<forall>p \<in> set ?ps. pkt_ok ?env p" by (simp add: demo_pkt_ok)
  have skb: "skb_env ?env" by (simp add: skb_env_def demo_env_def skb_ok_def)
  have l: "length (enc_pkts ?ps) < 2 ^ 31" by (simp add: demo_pkt_def enc_pkt_def up128_def)
  have v: "concat (map pkt_view (take 1 ?ps)) = [(Some (no_desc\<lparr>ds_pkt_len := 3, ds_bdecrypted := True\<rparr>), [1, 7, 9])]"
    by (simp add: pkt_view_def demo_pkt_desc) (simp add: no_desc_def rpt_defs demo_pkt_def)
  show ?thesis
    using recv_tasklet_split [OF ps _ skb _ order_refl le_up128(1) l, of "\<lambda>n. False" 1 0 "[]" "[]"]
    unfolding v by (simp add: demo_env_def)
qed

text \<open>A transfer is at most as long as its buffer; a last descriptor may start in its final bytes.\<close>

lemma recv_loop_safe:
  assumes "\<And>k sz s. rv_skb env k sz = Some s \<Longrightarrow> skb_ok sz s" "ptr + unat w + RXDESC_SIZE \<le> length mem"
  shows "recv_loop env mem ptr w k evs \<noteq> None"
  using assms
proof (induction env mem ptr w k evs rule: recv_loop.induct)
  case (1 env mem ptr w k evs)
  note skb = 1(2) and mem = 1(3)
  obtain h where h: "get_sub mem ptr RXDESC_SIZE = Some h" using mem by (auto simp: get_sub_def)
  define d where "d = rtl8188e_query_rx_desc_status h"
  have po: "unat (packet_offset env d) = report_len env d + unat (ds_shift_sz d) + unat (ds_pkt_len d)"
    unfolding d_def by (rule packet_offset_val(1) [OF drvinfo_bound shift_bound])
  have rp: "unat (rx_report_size env d) = report_len env d" unfolding d_def by (rule rx_report_size_val(1) [OF drvinfo_bound])
  show ?case
  proof (cases "rv_frame env k \<and> \<not> (\<not> rtw_hal_rcr_check (rv_rcr env) RCR_ACRC32 \<and> ds_crc_err d) \<and>
      \<not> (ds_pkt_len d = 0 \<or> packet_offset env d > w)")
    case False
    then show ?thesis using h unfolding d_def by (subst recv_loop.simps) (auto simp: Let_def)
  next
    case c: True
    let ?off = "ptr + unat (rx_report_size env d) + unat (ds_shift_sz d)"
    have le: "packet_offset env d \<le> w" using c by auto
    then have "?off + unat (ds_pkt_len d) \<le> ptr + unat w" using po rp by (simp add: word_le_nat_alt)
    then obtain bs where bs: "get_sub mem ?off (unat (ds_pkt_len d)) = Some bs" using mem by (auto simp: get_sub_def)
    have "rx_packet env mem ptr k d \<noteq> None"
      using alloc_frame_ok(1) [where fresh = "rv_skb env k (alloc_size d)" and clone = "rv_clone env k", OF bs skb [of k "alloc_size d"]]
      by (auto simp: rx_packet_def)
    then obtain r where r: "rx_packet env mem ptr k d = Some r" by auto
    show ?thesis
    proof (cases r)
      case None
      then show ?thesis using h r c unfolding d_def by (subst recv_loop.simps) (auto simp: Let_def)
    next
      case (Some ev)
      let ?w' = "w - rnd128 (packet_offset env d)"
      have "recv_loop env mem (ptr + unat (rnd128 (packet_offset env d))) ?w' (Suc k) (evs @ ev) \<noteq> None" if s: "0 < sint ?w'"
      proof -
        have f: "unat (rnd128 (packet_offset env d)) \<le> unat w" "unat ?w' = unat w - unat (rnd128 (packet_offset env d))"
          using rest_facts(1,2) [OF packet_offset_pos [of env h] le [unfolded d_def]] s unfolding d_def by blast+
        have m: "ptr + unat (rnd128 (packet_offset env d)) + unat ?w' + RXDESC_SIZE \<le> length mem" using f mem by linarith
        show ?thesis
          by (rule 1(1) [OF _ h d_def _ _ r Some refl s skb m]) (use c in auto)
      qed
      then show ?thesis using h r c Some unfolding d_def by (subst recv_loop.simps) (auto simp: Let_def)
    qed
  qed
qed

text \<open>Whatever the chip writes into the receive buffers, the tasklet ends and reads nothing
  outside them, when each buffer has room for one descriptor behind its transfer.\<close>
theorem recv_tasklet_safe:
  assumes "\<And>k sz s. rv_skb env k sz = Some s \<Longrightarrow> skb_ok sz s"
    "\<forall>(mem, len) \<in> set q. unat len + RXDESC_SIZE \<le> length mem"
  shows "rtl8188es_recv_tasklet stop env k evs q \<noteq> None"
  using assms(2)
proof (induction q arbitrary: k evs)
  case (Cons b q)
  have "recv_loop env (fst b) 0 (snd b) k evs \<noteq> None"
    using Cons.prems by (intro recv_loop_safe [OF assms(1)]) auto
  then show ?case using Cons by auto
qed simp

lemma recv_tasklet_safe_witness:
  "rtl8188es_recv_tasklet (\<lambda>n. n = 7) (demo_env (\<lambda>i. True)) 0 [] [(replicate 100 0xff, 76), (replicate 100 0, 30)] \<noteq> None"
  by (rule recv_tasklet_safe) (auto simp: demo_env_def skb_ok_def RXDESC_SIZE_def)

end
