(* ===== verification/Defrag.thy ===== *)
theory Defrag
  imports Amsdu Michael SecFrame
begin

text \<open>
  Reassembly of fragments: \<open>recvframe_defrag\<close>, \<open>recvframe_chk_defrag\<close> and the check of the TKIP MIC behind
  it, \<open>recvframe_chkmic\<close>, of core/rtw_recv.c. The queue of the fragments of a station is a list; the frames
  handed back to the free queue are listed in the result.
\<close>

section \<open>The code\<close>

definition fr_pull :: "rx_frame \<Rightarrow> int \<Rightarrow> rx_frame" where
  "fr_pull f n = f\<lparr>fr_buf := snd (recvframe_pull (fr_buf f) n)\<rparr>"

definition fr_pull_tail :: "rx_frame \<Rightarrow> int \<Rightarrow> rx_frame" where
  "fr_pull_tail f n = f\<lparr>fr_buf := snd (recvframe_pull_tail (fr_buf f) n)\<rparr>"

text \<open>The eight-bit length of the headers in front of the payload.\<close>

definition wlanhdr_offset :: "rx_attr \<Rightarrow> u8" where
  "wlanhdr_offset a = at_hdrlen a + at_iv_len a"

text \<open>Appending fragment \<open>g\<close> to frame \<open>f\<close>; the results of the pointer operations are not looked at.\<close>

definition defrag_append :: "rx_frame \<Rightarrow> rx_frame \<Rightarrow> rx_frame option" where
  "defrag_append f g =
     (let g = fr_pull g (int (unat (wlanhdr_offset (fr_attr g))));
          f = fr_pull_tail f (int (unat (at_icv_len (fr_attr f))))
      in do {
        bs \<leftarrow> mem_get (rb_mem (fr_buf g)) (rb_data (fr_buf g)) (rb_len (fr_buf g));
        b \<leftarrow> buf_append (fr_buf f) bs;
        Some (f\<lparr>fr_buf := b, fr_attr := (fr_attr f)\<lparr>at_icv_len := at_icv_len (fr_attr g)\<rparr>\<rparr>) })"

fun defrag_loop :: "rx_frame \<Rightarrow> u8 \<Rightarrow> rx_frame list \<Rightarrow> rx_frame option option" where
  "defrag_loop f curfragnum [] = Some (Some f)"
| "defrag_loop f curfragnum (g # gs) =
     (if curfragnum \<noteq> at_frag_num (fr_attr g) then Some None
      else do { f \<leftarrow> defrag_append f g; defrag_loop f (curfragnum + 1) gs })"

text \<open>
  The frame made of the queue, if any, and the frames freed. The queue is empty afterwards. An empty queue
  has no first frame: its head would be taken for one.
\<close>

definition recvframe_defrag :: "rx_frame list \<Rightarrow> (rx_frame option \<times> rx_frame list) option" where
  "recvframe_defrag defrag_q = (case defrag_q of
     [] \<Rightarrow> None
   | f # gs \<Rightarrow>
       if at_frag_num (fr_attr f) \<noteq> 0 then Some (None, defrag_q)
       else do { r \<leftarrow> defrag_loop f 1 gs;
                 Some (case r of None \<Rightarrow> (None, defrag_q) | Some f' \<Rightarrow> (Some f', gs)) })"

text \<open>
  The keys of the MIC: of the station (\<open>None\<close> when the transmitter is unknown) and of the groups;
  \<open>me_bcheck\<close> is \<open>bcheck_grpkey\<close> and \<open>me_reports\<close> counts the calls of \<open>rtw_handle_tkip_mic_err\<close>.
\<close>

record mic_env =
  me_stakey :: "bytes option"
  me_grpkeys :: "bytes list"
  me_binstallGrpkey :: bool
  me_key_index :: u8
  me_bcheck :: bool
  me_reports :: nat

definition recvframe_chkmic :: "mic_data \<Rightarrow> mic_env \<Rightarrow> rx_frame \<Rightarrow> (rtw_res \<times> rx_frame \<times> mic_env) option" where
  "recvframe_chkmic init e f =
     (let a = fr_attr f; b = fr_buf f; mcast = IS_MCAST (at_ra a)
      in if at_encrypt a \<noteq> ENC_TKIP then Some (RTW_SUCCESS, f, e)
         else case me_stakey e of
           None \<Rightarrow> Some (RTW_SUCCESS, fr_pull_tail f 8, e)
         | Some stakey \<Rightarrow>
             if mcast \<and> \<not> me_binstallGrpkey e then Some (RTW_FAIL, f, e)
             else do {
               mickey \<leftarrow> (if mcast then rd (me_grpkeys e) (unat (at_key_index a)) else Some stakey);
               let datalen = (word_of_int (rb_len b - off_payload a - int (unat (at_icv_len a)) - 8) :: u32);
               let payload = rb_data b + off_payload a;
               header \<leftarrow> mem_get (rb_mem b) (rb_data b) (int (length (rb_mem b)) - rb_data b);
               dat \<leftarrow> mem_get (rb_mem b) payload (uint datalen);
               miccode \<leftarrow> rtw_seccalctkipmic init mickey header dat (at_priority a);
               pframemic \<leftarrow> mem_get (rb_mem b) (payload + uint datalen) 8;
               let bmic_err = (miccode \<noteq> pframemic);
               let brpt = \<not> (mcast \<and> at_key_index a \<noteq> me_key_index e);
               let e = (if bmic_err then (if at_bdecrypted a \<and> brpt then e\<lparr>me_reports := me_reports e + 1\<rparr> else e)
                        else if \<not> me_bcheck e \<and> mcast then e\<lparr>me_bcheck := True\<rparr> else e);
               Some (if bmic_err then RTW_FAIL else RTW_SUCCESS, fr_pull_tail f 8, e) })"

text \<open>
  \<open>pdefrag_q\<close> is \<open>None\<close> when no queue is found for the transmitter. The result: the frame to go on with,
  the queue, the freed frames and the state of the MIC check.
\<close>

definition chk_privacy ::
  "mic_data \<Rightarrow> mic_env \<Rightarrow> rx_frame option \<Rightarrow> (rx_frame option \<times> rx_frame list \<times> mic_env) option" where
  "chk_privacy init e r = (case r of
     Some f \<Rightarrow> if at_privacy (fr_attr f)
       then do { (res, f, e) \<leftarrow> recvframe_chkmic init e f;
                 Some (if res = RTW_FAIL then (None, [f], e) else (Some f, [], e)) }
       else Some (Some f, [], e)
   | None \<Rightarrow> Some (None, [], e))"

definition recvframe_chk_defrag ::
  "mic_data \<Rightarrow> mic_env \<Rightarrow> rx_frame list option \<Rightarrow> rx_frame \<Rightarrow>
   (rx_frame option \<times> rx_frame list option \<times> rx_frame list \<times> mic_env) option" where
  "recvframe_chk_defrag init e pdefrag_q f =
     (let ismfrag = at_mfrag (fr_attr f); fragnum = at_frag_num (fr_attr f)
      in do {
        (r, q, freed) \<leftarrow>
          (if \<not> ismfrag \<and> fragnum = 0 then Some (Some f, pdefrag_q, [])
           else case pdefrag_q of
             None \<Rightarrow> Some (None, None, [f])
           | Some q \<Rightarrow>
               if ismfrag then
                 if fragnum = 0 \<and> q \<noteq> [] then Some (None, Some [f], q) else Some (None, Some (q @ [f]), [])
               else do { (r, freed) \<leftarrow> recvframe_defrag (q @ [f]); Some (r, Some [], freed) });
        (r, freed', e) \<leftarrow> chk_privacy init e r;
        Some (r, q, freed @ freed', e) })"

section \<open>Reassembly\<close>

text \<open>A fragment whose headers and ICV lie inside it.\<close>

definition frag_ok :: "rx_frame \<Rightarrow> bool" where
  "frag_ok f \<longleftrightarrow> buf_ok (fr_buf f) \<and> off_payload (fr_attr f) < 256 \<and>
     off_payload (fr_attr f) + int (unat (at_icv_len (fr_attr f))) \<le> rb_len (fr_buf f)"

definition fr_payload :: "rx_frame \<Rightarrow> bytes" where
  "fr_payload f = drop (nat (off_payload (fr_attr f))) (buf_bytes (fr_buf f))"

text \<open>The bytes of \<open>bs\<close> with an ICV of \<open>icv\<close> bytes, followed by the payloads; only the last ICV is kept.\<close>

fun joined :: "bytes \<Rightarrow> nat \<Rightarrow> rx_frame list \<Rightarrow> bytes" where
  "joined bs icv [] = bs"
| "joined bs icv (g # gs) = joined (take (length bs - icv) bs @ fr_payload g) (unat (at_icv_len (fr_attr g))) gs"

lemma wlanhdr_offset_payload:
  assumes "off_payload a < 256"
  shows "int (unat (wlanhdr_offset a)) = off_payload a"
proof -
  have "unat (at_hdrlen a) + unat (at_iv_len a) < 256" using assms unfolding off_payload_def by linarith
  then have "unat (wlanhdr_offset a) = unat (at_hdrlen a) + unat (at_iv_len a)"
    by (simp add: wlanhdr_offset_def unat_word_ariths)
  then show ?thesis by (simp add: off_payload_def del: of_nat_unat)
qed

lemma frag_ok_payload:
  assumes "frag_ok g"
  shows "int (length (fr_payload g)) = rb_len (fr_buf g) - off_payload (fr_attr g)"
    "unat (at_icv_len (fr_attr g)) \<le> length (fr_payload g)"
    "off_payload (fr_attr g) \<le> int (length (buf_bytes (fr_buf g)))"
proof -
  have b: "buf_ok (fr_buf g)" and l: "off_payload (fr_attr g) + int (unat (at_icv_len (fr_attr g))) \<le> rb_len (fr_buf g)"
    using assms by (simp_all add: frag_ok_def)
  have o': "0 \<le> off_payload (fr_attr g)" by (simp add: off_payload_def)
  have n: "length (buf_bytes (fr_buf g)) = nat (rb_len (fr_buf g))" using b by simp
  have "length (fr_payload g) = nat (rb_len (fr_buf g)) - nat (off_payload (fr_attr g))"
    by (simp add: fr_payload_def n)
  then show i: "int (length (fr_payload g)) = rb_len (fr_buf g) - off_payload (fr_attr g)"
    using o' l by linarith
  show "unat (at_icv_len (fr_attr g)) \<le> length (fr_payload g)" using i l by linarith
  show "off_payload (fr_attr g) \<le> int (length (buf_bytes (fr_buf g)))" using n l o' by linarith
qed

lemma mem_get_bytes:
  assumes "buf_ok b"
  shows "mem_get (rb_mem b) (rb_data b) (rb_len b) = Some (buf_bytes b)"
proof -
  have "nat (rb_data b) + nat (rb_len b) \<le> length (rb_mem b)" "0 \<le> rb_data b" "0 \<le> rb_len b"
    using assms by (auto simp: buf_ok_def)
  then show ?thesis by (simp add: mem_get_def get_sub_def buf_bytes_def)
qed

abbreviation fr_room :: "rx_frame \<Rightarrow> int" where
  "fr_room f \<equiv> rb_end (fr_buf f) - rb_tail (fr_buf f)"

abbreviation fr_icv :: "rx_frame \<Rightarrow> nat" where
  "fr_icv f \<equiv> unat (at_icv_len (fr_attr f))"

lemma pulled_fragment:
  assumes "frag_ok g"
  shows "buf_ok (fr_buf (fr_pull g (int (unat (wlanhdr_offset (fr_attr g))))))"
    "buf_bytes (fr_buf (fr_pull g (int (unat (wlanhdr_offset (fr_attr g)))))) = fr_payload g"
  unfolding wlanhdr_offset_payload [OF conjunct1 [OF conjunct2 [OF assms [unfolded frag_ok_def]]]]
  using fb.pull_good [of "fr_buf g" "off_payload (fr_attr g)"] frag_ok_payload(3) [OF assms] assms
  by (simp_all add: fr_pull_def fr_payload_def frag_ok_def off_payload_def)

lemma defrag_append_ok:
  assumes f: "buf_ok (fr_buf f)" "fr_icv f \<le> length (buf_bytes (fr_buf f))" and g: "frag_ok g"
    and room: "int (length (fr_payload g)) \<le> fr_room f + int (fr_icv f)"
  shows "\<exists>f'. defrag_append f g = Some f' \<and> buf_ok (fr_buf f') \<and>
    buf_bytes (fr_buf f') = take (length (buf_bytes (fr_buf f)) - fr_icv f) (buf_bytes (fr_buf f)) @ fr_payload g \<and>
    fr_room f' = fr_room f + int (fr_icv f) - int (length (fr_payload g)) \<and>
    fr_attr f' = (fr_attr f)\<lparr>at_icv_len := at_icv_len (fr_attr g)\<rparr>"
proof -
  let ?c = "snd (recvframe_pull_tail (fr_buf f) (int (fr_icv f)))"
  have c: "buf_ok ?c" "rb_end ?c - rb_tail ?c = fr_room f + int (fr_icv f)"
    "buf_bytes ?c = take (length (buf_bytes (fr_buf f)) - fr_icv f) (buf_bytes (fr_buf f))"
    using fb.cut_good [OF f(1), of "int (fr_icv f)"] f(2) by (simp_all del: of_nat_unat uint_nat buf_bytes_length)
  then obtain b where "buf_append ?c (fr_payload g) = Some b" "buf_ok b"
    "rb_end b - rb_tail b = fr_room f + int (fr_icv f) - int (length (fr_payload g))"
    "buf_bytes b = buf_bytes ?c @ fr_payload g"
    using fb.append_good [OF c(1), of "fr_payload g"] room by auto
  then show ?thesis using mem_get_bytes [OF pulled_fragment(1) [OF g]] pulled_fragment(2) [OF g] c(3)
    by (simp add: defrag_append_def fr_pull_tail_def Let_def) (simp add: fr_pull_def)
qed

fun numbered :: "u8 \<Rightarrow> rx_frame list \<Rightarrow> bool" where
  "numbered k [] \<longleftrightarrow> True"
| "numbered k (g # gs) \<longleftrightarrow> at_frag_num (fr_attr g) = k \<and> numbered (k + 1) gs"

lemma numbered_map:
  "numbered (word_of_nat k) gs \<longleftrightarrow> map (\<lambda>g. at_frag_num (fr_attr g)) gs = map word_of_nat [k..<k + length gs]"
proof (induction gs arbitrary: k)
  case (Cons g gs)
  have "numbered (word_of_nat k + 1) gs \<longleftrightarrow> map (\<lambda>g. at_frag_num (fr_attr g)) gs = map word_of_nat [Suc k..<Suc k + length gs]"
    using Cons.IH [of "Suc k"] by (simp add: add.commute)
  then show ?case by (simp add: upt_conv_Cons del: upt_Suc)
qed simp

definition total_payload :: "rx_frame list \<Rightarrow> nat" where
  "total_payload gs = sum_list (map (\<lambda>g. length (fr_payload g)) gs)"

lemma defrag_loop_run:
  assumes "buf_ok (fr_buf f)" "fr_icv f \<le> length (buf_bytes (fr_buf f))" "\<forall>g \<in> set gs. frag_ok g"
    "int (total_payload gs) \<le> fr_room f"
  shows "\<exists>f'. defrag_loop f k gs = Some (if numbered k gs then Some f' else None) \<and> buf_ok (fr_buf f') \<and>
    buf_bytes (fr_buf f') = joined (buf_bytes (fr_buf f)) (fr_icv f) gs \<and>
    fr_attr f' = (fr_attr f)\<lparr>at_icv_len := at_icv_len (fr_attr (last (f # gs)))\<rparr>"
  using assms
proof (induction gs arbitrary: f k)
  case Nil
  then show ?case by (intro exI [of _ f]) simp
next
  case (Cons g gs)
  have g: "frag_ok g" and gs: "\<forall>g \<in> set gs. frag_ok g" using Cons.prems(3) by simp_all
  have "int (length (fr_payload g)) \<le> fr_room f + int (fr_icv f)" using Cons.prems(4)
    by (simp add: total_payload_def del: of_nat_unat)
  from defrag_append_ok [OF Cons.prems(1,2) g this] obtain f1 where f1: "defrag_append f g = Some f1" "buf_ok (fr_buf f1)"
    "buf_bytes (fr_buf f1) = take (length (buf_bytes (fr_buf f)) - fr_icv f) (buf_bytes (fr_buf f)) @ fr_payload g"
    "fr_room f1 = fr_room f + int (fr_icv f) - int (length (fr_payload g))"
    "fr_attr f1 = (fr_attr f)\<lparr>at_icv_len := at_icv_len (fr_attr g)\<rparr>" by blast
  have i: "fr_icv f1 \<le> length (buf_bytes (fr_buf f1))" using frag_ok_payload(2) [OF g] by (simp add: f1(3,5))
  have "int (total_payload gs) \<le> fr_room f1" using Cons.prems(4) f1(4) by (simp add: total_payload_def del: of_nat_unat)
  from Cons.IH [OF f1(2) i gs this, of "k + 1"] obtain f' where f': "defrag_loop f1 (k + 1) gs = Some (if numbered (k + 1) gs then Some f' else None)"
    "buf_ok (fr_buf f')" "buf_bytes (fr_buf f') = joined (buf_bytes (fr_buf f1)) (fr_icv f1) gs"
    "fr_attr f' = (fr_attr f1)\<lparr>at_icv_len := at_icv_len (fr_attr (last (f1 # gs)))\<rparr>" by blast
  show ?case using f' f1(1)
    by (intro exI [of _ f']) (auto simp: f1(3,5))
qed

text \<open>The part of a fragment without headers and ICV.\<close>

definition fr_data :: "rx_frame \<Rightarrow> bytes" where
  "fr_data g = take (length (fr_payload g) - fr_icv g) (fr_payload g)"

lemma joined_concat:
  assumes "gs \<noteq> []" "\<forall>g \<in> set gs. frag_ok g"
  shows "joined bs icv gs = take (length bs - icv) bs @ concat (map fr_data (butlast gs)) @ fr_payload (last gs)"
  using assms
proof (induction gs arbitrary: bs icv)
  case (Cons g gs)
  show ?case
  proof (cases "gs = []")
    case False
    have "fr_icv g \<le> length (fr_payload g)" using frag_ok_payload(2) Cons.prems(2) by simp
    then show ?thesis using Cons.IH [OF False] Cons.prems(2) False by (simp add: fr_data_def)
  qed simp
qed simp

lemma numbered_from:
  "at_frag_num (fr_attr f) = 0 \<and> numbered 1 gs \<longleftrightarrow>
    map (\<lambda>g. at_frag_num (fr_attr g)) (f # gs) = map word_of_nat [0..<Suc (length gs)]"
  using numbered_map [of 0 "f # gs"] by simp

text \<open>C17: Let the first fragment have room behind it for the payloads of the others. When the
  fragment numbers are 0, 1, 2, ... the result is the header and data of the first fragment, the data of those in
  between and the data and ICV of the last, and the other fragments are freed; when they are not, all are freed.\<close>
theorem defrag_reassembles:
  assumes f: "frag_ok f" and gs: "gs \<noteq> []" "\<forall>g \<in> set gs. frag_ok g" "int (total_payload gs) \<le> fr_room f"
  shows "\<exists>f'. recvframe_defrag (f # gs) =
      Some (if map (\<lambda>g. at_frag_num (fr_attr g)) (f # gs) = map word_of_nat [0..<Suc (length gs)]
            then (Some f', gs) else (None, f # gs)) \<and>
    buf_ok (fr_buf f') \<and>
    buf_bytes (fr_buf f') =
      take (nat (off_payload (fr_attr f))) (buf_bytes (fr_buf f)) @ fr_data f @ concat (map fr_data (butlast gs)) @
      fr_payload (last gs) \<and>
    fr_attr f' = (fr_attr f)\<lparr>at_icv_len := at_icv_len (fr_attr (last gs))\<rparr>"
proof -
  let ?h = "nat (off_payload (fr_attr f))"
  have b: "buf_ok (fr_buf f)" using f by (simp add: frag_ok_def)
  note p = frag_ok_payload [OF f]
  have split: "buf_bytes (fr_buf f) = take ?h (buf_bytes (fr_buf f)) @ fr_payload f" by (simp add: fr_payload_def)
  have h: "?h \<le> length (buf_bytes (fr_buf f))" using p(3) by linarith
  have "fr_icv f \<le> length (fr_payload f)" by (rule p(2))
  also have "\<dots> \<le> length (buf_bytes (fr_buf f))" by (simp add: fr_payload_def)
  finally have i: "fr_icv f \<le> length (buf_bytes (fr_buf f))" .
  obtain f' where f': "defrag_loop f 1 gs = Some (if numbered 1 gs then Some f' else None)" "buf_ok (fr_buf f')"
    "buf_bytes (fr_buf f') = joined (buf_bytes (fr_buf f)) (fr_icv f) gs"
    "fr_attr f' = (fr_attr f)\<lparr>at_icv_len := at_icv_len (fr_attr (last (f # gs)))\<rparr>"
    using defrag_loop_run [OF b i gs(2,3)] by blast
  have "length (buf_bytes (fr_buf f)) - fr_icv f = ?h + (length (fr_payload f) - fr_icv f)"
    using h p(2) by (simp add: fr_payload_def)
  then have "take (length (buf_bytes (fr_buf f)) - fr_icv f) (buf_bytes (fr_buf f)) = take ?h (buf_bytes (fr_buf f)) @ fr_data f"
    by (simp add: take_add fr_data_def fr_payload_def)
  then have "buf_bytes (fr_buf f') = take ?h (buf_bytes (fr_buf f)) @ fr_data f @ concat (map fr_data (butlast gs)) @ fr_payload (last gs)"
    unfolding f'(3) joined_concat [OF gs(1,2)] by simp
  moreover have "recvframe_defrag (f # gs) =
      Some (if at_frag_num (fr_attr f) = 0 \<and> numbered 1 gs then (Some f', gs) else (None, f # gs))"
    using f'(1) by (simp add: recvframe_defrag_def)
  ultimately show ?thesis using f'(2,4) gs(1) unfolding numbered_from [symmetric] by (intro exI [of _ f']) simp
qed

definition demo_frag :: "u8 \<Rightarrow> nat \<Rightarrow> bytes \<Rightarrow> rx_frame" where
  "demo_frag k room bs =
     \<lparr>fr_attr = demo_attr\<lparr>at_hdrlen := 2, at_icv_len := 1, at_frag_num := k, at_mfrag := True\<rparr>,
      fr_buf = \<lparr>rb_mem = bs @ replicate room 0, rb_data = 0, rb_tail = int (length bs), rb_end = int (length bs + room),
        rb_len = int (length bs)\<rparr>\<rparr>"

lemma demo_frag_facts:
  assumes "3 \<le> length bs"
  shows "frag_ok (demo_frag k r bs)" "fr_payload (demo_frag k r bs) = drop 2 bs" "fr_room (demo_frag k r bs) = int r"
    "fr_data (demo_frag k r bs) = take (length bs - 3) (drop 2 bs)" "buf_bytes (fr_buf (demo_frag k r bs)) = bs"
    "at_frag_num (fr_attr (demo_frag k r bs)) = k" "nat (off_payload (fr_attr (demo_frag k r bs))) = 2"
proof -
  have o': "off_payload (fr_attr (demo_frag k r bs)) = 2" by (simp add: demo_frag_def demo_attr_def off_payload_def)
  then show "nat (off_payload (fr_attr (demo_frag k r bs))) = 2" by simp
  show b: "buf_bytes (fr_buf (demo_frag k r bs)) = bs" by (simp add: demo_frag_def buf_bytes_def)
  then show p: "fr_payload (demo_frag k r bs) = drop 2 bs" unfolding fr_payload_def o' by simp
  show "fr_data (demo_frag k r bs) = take (length bs - 3) (drop 2 bs)" unfolding fr_data_def p by (simp add: demo_frag_def)
  show "frag_ok (demo_frag k r bs)" unfolding frag_ok_def o' using assms by (simp add: demo_frag_def buf_ok_def)
qed (simp_all add: demo_frag_def)

lemma defrag_reassembles_witness:
  "\<exists>f'. recvframe_defrag [demo_frag 0 9 [1, 2, 3, 0xf], demo_frag 1 0 [1, 2, 4, 5, 0xf], demo_frag 2 0 [1, 2, 6, 0xe]] =
      Some (Some f', [demo_frag 1 0 [1, 2, 4, 5, 0xf], demo_frag 2 0 [1, 2, 6, 0xe]]) \<and>
    buf_bytes (fr_buf f') = [1, 2, 3, 4, 5, 6, 0xe]"
proof -
  let ?f = "demo_frag 0 9 [1, 2, 3, 0xf]" and ?gs = "[demo_frag 1 0 [1, 2, 4, 5, 0xf], demo_frag 2 0 [1, 2, 6, 0xe]]"
  have f: "frag_ok ?f" by (simp add: demo_frag_facts)
  have gs: "\<forall>g \<in> set ?gs. frag_ok g" by (simp add: demo_frag_facts)
  have room: "int (total_payload ?gs) \<le> fr_room ?f" by (simp add: demo_frag_facts total_payload_def)
  have n: "map (\<lambda>g. at_frag_num (fr_attr g)) (?f # ?gs) = map word_of_nat [0..<Suc (length ?gs)]"
    by (simp add: demo_frag_facts upt_conv_Cons)
  have d: "take (nat (off_payload (fr_attr ?f))) (buf_bytes (fr_buf ?f)) @ fr_data ?f @ concat (map fr_data (butlast ?gs)) @
      fr_payload (last ?gs) = [1, 2, 3, 4, 5, 6, 0xe]"
    by (simp add: demo_frag_facts)
  show ?thesis using defrag_reassembles [OF f _ gs room] unfolding n d by auto
qed

text \<open>The copy comes before the check of \<open>recvframe_put\<close>: when the second fragment does not fit
  behind the first and the memory ends there, it is written behind the memory.\<close>
theorem defrag_overruns:
  assumes "frag_ok f" "frag_ok g" "at_frag_num (fr_attr f) = 0" "at_frag_num (fr_attr g) = 1"
    "rb_end (fr_buf f) = int (length (rb_mem (fr_buf f)))" "fr_room f + int (fr_icv f) < int (length (fr_payload g))"
  shows "recvframe_defrag (f # g # gs) = None"
proof -
  have b: "buf_ok (fr_buf f)" using assms(1) by (simp add: frag_ok_def)
  have i: "int (fr_icv f) \<le> int (length (buf_bytes (fr_buf f)))"
    using frag_ok_payload(2) [OF assms(1)] by (simp add: fr_payload_def del: of_nat_unat uint_nat)
  have "int (length (buf_bytes (fr_buf f))) = rb_len (fr_buf f)" using b by (simp, simp add: buf_ok_def)
  then have i': "int (fr_icv f) \<le> rb_len (fr_buf f)" using i by linarith
  let ?c = "snd (recvframe_pull_tail (fr_buf f) (int (fr_icv f)))"
  have c: "rb_mem ?c = rb_mem (fr_buf f)" "rb_tail ?c = rb_tail (fr_buf f) - int (fr_icv f)"
    using buf_cut(1) [OF b _ i'] by (simp_all del: of_nat_unat uint_nat)
  have t: "0 \<le> rb_tail ?c" using i' b unfolding c buf_ok_def by linarith
  have "int (length (rb_mem ?c)) < rb_tail ?c + int (length (fr_payload g))" using assms(5,6) unfolding c by linarith
  then have "length (rb_mem ?c) < nat (rb_tail ?c) + length (fr_payload g)" using t by linarith
  then have "buf_append ?c (fr_payload g) = None" using t by (simp add: buf_append_def mem_put_def put_sub_def)
  then have "defrag_append f g = None"
    using mem_get_bytes [OF pulled_fragment(1) [OF assms(2)]] pulled_fragment(2) [OF assms(2)]
    by (simp add: defrag_append_def fr_pull_tail_def Let_def)
  then show ?thesis using assms(3,4) by (simp add: recvframe_defrag_def)
qed

lemma defrag_overruns_witness:
  "recvframe_defrag [demo_frag 0 3 [1, 2, 3, 0xf], demo_frag 1 0 [1, 2, 4, 5, 6, 7, 0xf]] = None"
  by (rule defrag_overruns) (simp_all add: demo_frag_def demo_attr_def frag_ok_def buf_ok_def off_payload_def fr_payload_def
      buf_bytes_def)

section \<open>The queue of a station\<close>

text \<open>
  A frame that is not a fragment passes; a fragment 0 empties the queue and every other fragment with more to
  come joins it, whatever its sequence number; the last goes to \<open>recvframe_defrag\<close> and leaves the queue empty.
\<close>

lemma chk_defrag_whole:
  assumes "\<not> at_mfrag (fr_attr f)" "at_frag_num (fr_attr f) = 0" "\<not> at_privacy (fr_attr f)"
  shows "recvframe_chk_defrag init e q f = Some (Some f, q, [], e)"
  using assms by (simp add: recvframe_chk_defrag_def chk_privacy_def)

lemma chk_defrag_more:
  assumes "at_mfrag (fr_attr f)"
  shows "recvframe_chk_defrag init e (Some q) f =
    Some (if at_frag_num (fr_attr f) = 0 then (None, Some [f], q, e) else (None, Some (q @ [f]), [], e))"
  using assms by (simp add: recvframe_chk_defrag_def chk_privacy_def)

lemma chk_defrag_last:
  assumes "\<not> at_mfrag (fr_attr f)" "at_frag_num (fr_attr f) \<noteq> 0" "recvframe_defrag (q @ [f]) = Some (r, freed)"
    "\<And>f'. r = Some f' \<Longrightarrow> \<not> at_privacy (fr_attr f')"
  shows "recvframe_chk_defrag init e (Some q) f = Some (r, Some [], freed, e)"
  using assms by (cases r) (simp_all add: recvframe_chk_defrag_def chk_privacy_def)

lemma chk_defrag_unknown:
  assumes "at_mfrag (fr_attr f) \<or> at_frag_num (fr_attr f) \<noteq> 0"
  shows "recvframe_chk_defrag init e None f = Some (None, None, [f], e)"
  using assms by (auto simp: recvframe_chk_defrag_def chk_privacy_def)

end
