(* ===== verification/FrameHdr.thy ===== *)
theory FrameHdr
  imports Ccmp
begin

text \<open>
  The fields of an 802.11 header (include/wifi.h): the bits of the frame control field, sequence control, addresses
  and the QoS field, read and written in place. A frame is the list of its bytes, the code's pointer is its start.
\<close>

section \<open>Sixteen-bit fields\<close>

definition hdr16 :: "bytes \<Rightarrow> nat \<Rightarrow> u16" where
  "hdr16 h k = ucast (le_val (take 2 (drop k h)))"

definition put16 :: "bytes \<Rightarrow> nat \<Rightarrow> u16 \<Rightarrow> bytes" where
  "put16 h k w = h[k := ucast w, Suc k := ucast (drop_bit 8 w)]"

lemma hdr16_nth: "Suc k < length h \<Longrightarrow> hdr16 h k = ucast (h ! k) OR push_bit 8 (ucast (h ! Suc k))"
proof -
  assume l: "Suc k < length h"
  then have t: "take 2 (drop k h) = [h ! k, h ! Suc k]"
    by (metis Cons_nth_drop_Suc Suc_1 Suc_lessD take0 take_Suc_Cons One_nat_def)
  show ?thesis unfolding hdr16_def t
    by (rule bit_word_eqI) (auto simp: bit_simps dest!: less_16_cases)
qed

lemma put16_length [simp]: "length (put16 h k w) = length h"
  by (simp add: put16_def)

lemma hdr16_put16: "Suc k < length h \<Longrightarrow> hdr16 (put16 h k w) k = w"
  by (simp add: hdr16_nth put16_def)
    (rule bit_word_eqI, auto simp: bit_simps dest!: less_16_cases)

lemma hdr16_put16_other:
  assumes "Suc j < length h" "Suc k < j \<or> Suc j < k"
  shows "hdr16 (put16 h k w) j = hdr16 h j"
  using assms by (auto simp: hdr16_nth put16_def)

section \<open>Reading\<close>

definition GetToDs :: "bytes \<Rightarrow> bool" where "GetToDs h = bit (hdr16 h 0) 8"
definition GetFrDs :: "bytes \<Rightarrow> bool" where "GetFrDs h = bit (hdr16 h 0) 9"
definition GetMFrag :: "bytes \<Rightarrow> bool" where "GetMFrag h = bit (hdr16 h 0) 10"
definition GetRetry :: "bytes \<Rightarrow> bool" where "GetRetry h = bit (hdr16 h 0) 11"
definition GetPwrMgt :: "bytes \<Rightarrow> bool" where "GetPwrMgt h = bit (hdr16 h 0) 12"
definition GetMData :: "bytes \<Rightarrow> bool" where "GetMData h = bit (hdr16 h 0) 13"
definition GetPrivacy :: "bytes \<Rightarrow> bool" where "GetPrivacy h = bit (hdr16 h 0) 14"
definition GetOrder :: "bytes \<Rightarrow> bool" where "GetOrder h = bit (hdr16 h 0) 15"

definition get_tofr_ds :: "bytes \<Rightarrow> nat" where
  "get_tofr_ds h = (if GetToDs h then 2 else 0) + (if GetFrDs h then 1 else 0)"

definition GetSequence :: "bytes \<Rightarrow> u16" where "GetSequence h = drop_bit 4 (hdr16 h 22)"
definition GetFragNum :: "bytes \<Rightarrow> u16" where "GetFragNum h = hdr16 h 22 AND 0x0f"

definition GetAddr1Ptr :: "bytes \<Rightarrow> bytes" where "GetAddr1Ptr h = take 6 (drop 4 h)"
definition get_addr2_ptr :: "bytes \<Rightarrow> bytes" where "get_addr2_ptr h = take 6 (drop 10 h)"
definition GetAddr3Ptr :: "bytes \<Rightarrow> bytes" where "GetAddr3Ptr h = take 6 (drop 16 h)"

definition GetPriority :: "bytes \<Rightarrow> u16" where "GetPriority qc = hdr16 qc 0 AND 0xf"
definition GetEOSP :: "bytes \<Rightarrow> bool" where "GetEOSP qc = bit (hdr16 qc 0) 4"
definition GetAckpolicy :: "bytes \<Rightarrow> u16" where "GetAckpolicy qc = drop_bit 5 (hdr16 qc 0) AND 3"
definition GetAMsdu :: "bytes \<Rightarrow> bool" where "GetAMsdu qc = bit (hdr16 qc 0) 7"

lemmas get_bit_defs = GetToDs_def GetFrDs_def GetMFrag_def GetRetry_def GetPwrMgt_def GetMData_def GetPrivacy_def
  GetOrder_def GetEOSP_def GetAMsdu_def

section \<open>Writing\<close>

text \<open>The setters of one bit: \<open>SetToDs\<close> (8), \<open>SetFrDs\<close> (9), \<open>SetPwrMgt\<close> (12), \<open>SetMData\<close> (13), \<open>SetPrivacy\<close> (14).\<close>

definition set_fc_bit :: "nat \<Rightarrow> bytes \<Rightarrow> bytes" where
  "set_fc_bit n h = put16 h 0 (hdr16 h 0 OR push_bit n 1)"

definition SetToDs :: "bytes \<Rightarrow> bytes" where "SetToDs = set_fc_bit 8"
definition SetFrDs :: "bytes \<Rightarrow> bytes" where "SetFrDs = set_fc_bit 9"
definition SetPwrMgt :: "bytes \<Rightarrow> bytes" where "SetPwrMgt = set_fc_bit 12"
definition SetMData :: "bytes \<Rightarrow> bytes" where "SetMData = set_fc_bit 13"
definition SetPrivacy :: "bytes \<Rightarrow> bytes" where "SetPrivacy = set_fc_bit 14"

definition set_frame_sub_type :: "u16 \<Rightarrow> bytes \<Rightarrow> bytes" where
  "set_frame_sub_type type h = put16 h 0 ((hdr16 h 0 AND NOT 0xfc) OR type)"

definition SetSeqNum :: "u16 \<Rightarrow> bytes \<Rightarrow> bytes" where
  "SetSeqNum num h = put16 h 22 ((hdr16 h 22 AND NOT 0xfff0) OR (0xfff0 AND push_bit 4 num))"

definition set_duration :: "u16 \<Rightarrow> bytes \<Rightarrow> bytes" where
  "set_duration dur h = put16 h 2 dur"

text \<open>\<open>SET_BITS_TO_LE_2BYTE\<close>: the \<open>len\<close> bits from \<open>off\<close>.\<close>

definition set_bits16 :: "nat \<Rightarrow> nat \<Rightarrow> u16 \<Rightarrow> u16 \<Rightarrow> u16" where
  "set_bits16 off len v w = (w AND NOT (push_bit off (mask len))) OR push_bit off (v AND mask len)"

definition SetPriority :: "u16 \<Rightarrow> bytes \<Rightarrow> bytes" where "SetPriority tid qc = put16 qc 0 (set_bits16 0 4 tid (hdr16 qc 0))"
definition SetEOSP :: "u16 \<Rightarrow> bytes \<Rightarrow> bytes" where "SetEOSP eosp qc = put16 qc 0 (set_bits16 4 1 eosp (hdr16 qc 0))"
definition SetAckpolicy :: "u16 \<Rightarrow> bytes \<Rightarrow> bytes" where "SetAckpolicy ack qc = put16 qc 0 (set_bits16 5 2 ack (hdr16 qc 0))"

definition SetAMsdu :: "u16 \<Rightarrow> bytes \<Rightarrow> bytes" where "SetAMsdu amsdu qc = put16 qc 0 (set_bits16 7 1 amsdu (hdr16 qc 0))"

definition SetMFrag :: "bytes \<Rightarrow> bytes" where "SetMFrag = set_fc_bit 10"
definition ClearMFrag :: "bytes \<Rightarrow> bytes" where "ClearMFrag h = put16 h 0 (hdr16 h 0 AND NOT (push_bit 10 1))"

lemmas set_bit_defs = SetToDs_def SetFrDs_def SetMFrag_def SetPwrMgt_def SetMData_def SetPrivacy_def

lemma bit_set_fc_bit:
  assumes "2 \<le> length h" "n < 16" "m < 16"
  shows "bit (hdr16 (set_fc_bit n h) 0) m \<longleftrightarrow> m = n \<or> bit (hdr16 h 0) m"
proof -
  have "hdr16 (set_fc_bit n h) 0 = hdr16 h 0 OR push_bit n 1"
    using assms(1) unfolding set_fc_bit_def by (intro hdr16_put16) simp
  then show ?thesis using assms(2,3) by (auto simp: bit_simps)
qed


end
