(* ===== verification/RxValid.thy ===== *)
theory RxValid
  imports FrameHdr Amsdu RxSeq
begin

text \<open>
  Which received data frames are for this interface: \<open>validate_recv_frame\<close>, \<open>validate_recv_data_frame\<close> and the checks
  for each direction, \<open>sta2sta_data_frame\<close>, \<open>ap2sta_data_frame\<close> and \<open>sta2ap_data_frame\<close>, and the port control
  \<open>portctrl\<close>, of core/rtw_recv.c. What these functions call outside reception is listed in the result.
\<close>

section \<open>State\<close>

definition WIFI_ASOC_STATE :: u32 where "WIFI_ASOC_STATE = 0x00000001"
definition WIFI_STATION_STATE :: u32 where "WIFI_STATION_STATE = 0x00000008"
definition WIFI_AP_STATE :: u32 where "WIFI_AP_STATE = 0x00000010"
definition WIFI_ADHOC_STATE :: u32 where "WIFI_ADHOC_STATE = 0x00000020"
definition WIFI_ADHOC_MASTER_STATE :: u32 where "WIFI_ADHOC_MASTER_STATE = 0x00000040"
definition WIFI_UNDER_LINKING :: u32 where "WIFI_UNDER_LINKING = 0x00000080"
definition WIFI_MP_STATE :: u32 where "WIFI_MP_STATE = 0x00010000"

lemmas fw_state_defs = WIFI_ASOC_STATE_def WIFI_STATION_STATE_def WIFI_AP_STATE_def WIFI_ADHOC_STATE_def
  WIFI_ADHOC_MASTER_STATE_def WIFI_UNDER_LINKING_def WIFI_MP_STATE_def

definition dot11AuthAlgrthm_Open :: u32 where "dot11AuthAlgrthm_Open = 0"
definition dot11AuthAlgrthm_Shared :: u32 where "dot11AuthAlgrthm_Shared = 1"
definition dot11AuthAlgrthm_8021X :: u32 where "dot11AuthAlgrthm_8021X = 2"
definition dot11AuthAlgrthm_Auto :: u32 where "dot11AuthAlgrthm_Auto = 3"
definition dot11AuthAlgrthm_WAPI :: u32 where "dot11AuthAlgrthm_WAPI = 4"

lemmas auth_alg_defs = dot11AuthAlgrthm_Open_def dot11AuthAlgrthm_Shared_def dot11AuthAlgrthm_8021X_def
  dot11AuthAlgrthm_Auto_def dot11AuthAlgrthm_WAPI_def

definition check_fwstate :: "u32 \<Rightarrow> u32 \<Rightarrow> bool" where
  "check_fwstate fw_state state \<longleftrightarrow> state = 0 \<and> fw_state = 0 \<or> fw_state AND state \<noteq> 0"

text \<open>What reception keeps of a station.\<close>

record rx_sta =
  rs_blocked :: bool   \<comment> \<open>\<open>ieee8021x_blocked\<close>\<close>
  rs_privacy :: u8     \<comment> \<open>\<open>dot118021XPrivacy\<close>\<close>
  rs_recv :: sta_recv_priv

text \<open>
  The interface. \<open>rc_stas\<close> is the table of the stations, of which StaHash shows the search; \<open>rc_deauth_due\<close> says
  that the last deauthentication frame to an unknown access point was sent more than ten seconds ago.
\<close>

record rx_ctx =
  rc_fw_state :: u32
  rc_bssid :: bytes
  rc_hwaddr :: bytes
  rc_stas :: "bytes \<Rightarrow> rx_sta option"
  rc_auth_alg :: u32
  rc_privacy_alg :: u8      \<comment> \<open>\<open>dot11PrivacyAlgrthm\<close>\<close>
  rc_grp_privacy :: u8      \<comment> \<open>\<open>dot118021XGrpPrivacy\<close>\<close>
  rc_iv_seq :: "bytes list"
  rc_radar :: bool
  rc_deauth_due :: bool
  rc_non_be :: bool         \<comment> \<open>\<open>is_any_non_be_pkts\<close>\<close>

datatype rx_ret = RX_FAIL | RX_OK | RX_HANDLED

datatype rx_act =
    Issue_deauth bytes
  | Count_rx_stats
  | Process_pwrbit
  | Process_wmmps
  | Mgnt_frame
  | Ctrl_frame

definition get_sta :: "rx_ctx \<Rightarrow> bytes \<Rightarrow> rx_sta option" where
  "get_sta c hwaddr = rc_stas c (sta_key_addr hwaddr)"

definition put_sta :: "bytes \<Rightarrow> rx_sta \<Rightarrow> rx_ctx \<Rightarrow> rx_ctx" where
  "put_sta hwaddr s c = c\<lparr>rc_stas := (rc_stas c)(sta_key_addr hwaddr := Some s)\<rparr>"

section \<open>The three directions\<close>

definition no_addr :: bytes where "no_addr = replicate 6 0"

text \<open>Copying the addresses of the header again, in the manufacturing test mode.\<close>

definition mp_addrs :: "bytes \<Rightarrow> rx_attr \<Rightarrow> rx_attr" where
  "mp_addrs h a = a\<lparr>at_dst := GetAddr1Ptr h, at_src := get_addr2_ptr h, at_bssid := GetAddr3Ptr h,
     at_ra := GetAddr1Ptr h, at_ta := get_addr2_ptr h\<rparr>"

text \<open>The result: the verdict, the attributes, the address of the station found, and the calls.\<close>

type_synonym dir_result = "rx_ret \<times> rx_attr \<times> bytes option \<times> rx_act list"

definition found :: "rx_ctx \<Rightarrow> bytes \<Rightarrow> bytes option" where
  "found c hwaddr = (if get_sta c hwaddr = None then None else Some hwaddr)"

definition sta2sta_data_frame :: "rx_ctx \<Rightarrow> bytes \<Rightarrow> rx_attr \<Rightarrow> dir_result" where
  "sta2sta_data_frame c h a =
     (let mybssid = rc_bssid c; myhwaddr = rc_hwaddr c; bmcast = IS_MCAST (at_dst a); st = check_fwstate (rc_fw_state c);
          finish = (\<lambda>ret a sta_addr. case found c sta_addr of None \<Rightarrow> (RX_FAIL, a, None, []) | Some p \<Rightarrow> (ret, a, Some p, []))
      in if st WIFI_ADHOC_STATE \<or> st WIFI_ADHOC_MASTER_STATE then
           if myhwaddr = at_src a \<or> myhwaddr \<noteq> at_dst a \<and> \<not> bmcast \<or>
              at_bssid a = no_addr \<or> mybssid = no_addr \<or> at_bssid a \<noteq> mybssid
           then (RX_FAIL, a, None, []) else finish RX_OK a (at_ta a)
         else if st WIFI_STATION_STATE then
           if at_bssid a \<noteq> at_src a then (RX_FAIL, a, None, []) else finish RX_OK a (at_ta a)
         else if st WIFI_AP_STATE then
           if (if bmcast then \<not> IS_MCAST (at_bssid a) else at_bssid a \<noteq> at_dst a)
           then (RX_FAIL, a, None, []) else finish RX_OK a (at_ta a)
         else if st WIFI_MP_STATE then finish RX_OK (mp_addrs h a) mybssid
         else finish RX_FAIL a (at_ta a))"

definition ap2sta_data_frame :: "rx_ctx \<Rightarrow> bytes \<Rightarrow> rx_attr \<Rightarrow> dir_result option" where
  "ap2sta_data_frame c h a =
     (let mybssid = rc_bssid c; myhwaddr = rc_hwaddr c; bmcast = IS_MCAST (at_dst a); st = check_fwstate (rc_fw_state c)
      in if st WIFI_STATION_STATE \<and> (st WIFI_ASOC_STATE \<or> st WIFI_UNDER_LINKING) then
           if myhwaddr = at_src a \<or> myhwaddr \<noteq> at_dst a \<and> \<not> bmcast then Some (RX_FAIL, a, None, [])
           else if at_bssid a = no_addr \<or> mybssid = no_addr \<or> at_bssid a \<noteq> mybssid then
             Some (RX_FAIL, a, None, if \<not> bmcast \<and> \<not> rc_radar c then [Issue_deauth (at_bssid a)] else [])
           else case found c (at_ta a) of
             None \<Rightarrow> Some (RX_FAIL, a, None, [])
           | Some p \<Rightarrow> do {
               sub \<leftarrow> get_frame_sub_type h;
               Some (if bit sub 6 then (RX_HANDLED, a, Some p, [Count_rx_stats]) else (RX_OK, a, Some p, [])) }
         else if st WIFI_MP_STATE \<and> st WIFI_ASOC_STATE then
           let a = mp_addrs h a
           in Some (case found c (at_bssid a) of None \<Rightarrow> (RX_FAIL, a, None, []) | Some p \<Rightarrow> (RX_OK, a, Some p, []))
         else if st WIFI_AP_STATE then Some (RX_HANDLED, a, None, [])
         else if myhwaddr = at_dst a \<and> \<not> bmcast then
           Some (RX_FAIL, a, found c (at_ta a),
             if found c (at_ta a) = None \<and> rc_deauth_due c then [Issue_deauth (at_bssid a)] else [])
         else Some (RX_FAIL, a, None, []))"

definition sta2ap_data_frame :: "rx_ctx \<Rightarrow> bytes \<Rightarrow> rx_attr \<Rightarrow> dir_result option" where
  "sta2ap_data_frame c h a =
     (let mybssid = rc_bssid c; st = check_fwstate (rc_fw_state c)
      in if st WIFI_AP_STATE then
           if at_bssid a \<noteq> mybssid then Some (RX_FAIL, a, None, [])
           else case found c (at_ta a) of
             None \<Rightarrow> Some (RX_HANDLED, a, None, if rc_radar c then [] else [Issue_deauth (at_src a)])
           | Some p \<Rightarrow> do {
               sub \<leftarrow> get_frame_sub_type h;
               let acts = Process_pwrbit # (if sub AND 0x88 = 0x88 then [Process_wmmps] else []);
               Some (if bit sub 6 then (RX_HANDLED, a, Some p, acts @ [Count_rx_stats]) else (RX_OK, a, Some p, acts)) }
         else if st WIFI_MP_STATE \<and> st WIFI_ASOC_STATE then
           let a = mp_addrs h a
           in Some (case found c (at_bssid a) of None \<Rightarrow> (RX_FAIL, a, None, []) | Some p \<Rightarrow> (RX_OK, a, Some p, []))
         else Some (RX_HANDLED, a, None, if at_ra a \<noteq> rc_hwaddr c then [] else [Issue_deauth (at_src a)]))"

section \<open>Data frames\<close>

definition WLAN_HDR_A3_LEN :: nat where "WLAN_HDR_A3_LEN = 24"
definition WLAN_HDR_A3_QOS_LEN :: nat where "WLAN_HDR_A3_QOS_LEN = 26"
definition ETH_ALEN :: nat where "ETH_ALEN = 6"

text \<open>The macros \<open>GET_ENCRY_ALGO\<close> and \<open>SET_ICE_IV_LEN\<close> (include/rtw_security.h).\<close>

definition GET_ENCRY_ALGO :: "u32 \<Rightarrow> u8 \<Rightarrow> u8 \<Rightarrow> u8 \<Rightarrow> bool \<Rightarrow> u8 \<Rightarrow> u8" where
  "GET_ENCRY_ALGO alg privacy_alg grp_privacy sta_privacy bmcst encry_algo =
     (if alg \<in> {dot11AuthAlgrthm_Open, dot11AuthAlgrthm_Shared, dot11AuthAlgrthm_Auto} then privacy_alg
      else if alg = dot11AuthAlgrthm_8021X then if bmcst then grp_privacy else sta_privacy
      else if alg = dot11AuthAlgrthm_WAPI then privacy_alg
      else encry_algo)"

definition ENC_SMS4 :: u8 where "ENC_SMS4 = 6"

definition SET_ICE_IV_LEN :: "u8 \<Rightarrow> u8 \<times> u8" where
  "SET_ICE_IV_LEN encrypt =
     (if encrypt = ENC_WEP40 \<or> encrypt = ENC_WEP104 then (4, 4)
      else if encrypt = ENC_TKIP then (8, 4)
      else if encrypt = ENC_AES then (8, 8)
      else if encrypt = ENC_SMS4 then (18, 16)
      else (0, 0))"

text \<open>What the duplicate and replay detection of RxSeq sees of a frame whose bytes start with \<open>h\<close>.\<close>

definition seq_view :: "rx_attr \<Rightarrow> bytes \<Rightarrow> rx_attrib" where
  "seq_view a h = \<lparr>encrypt_aes = (at_encrypt a = ENC_AES), ra_hdrlen = at_hdrlen a, ra_priority = at_priority a,
     ra_qos = at_qos a, ra_addr = at_ra a, ra_seq_num = at_seq_num a, ra_frag_num = at_frag_num a, ra_data = h\<rparr>"

text \<open>
  The verdict, the frame, the address of its station, the TID of its reordering queue, the interface afterwards
  and the calls.
\<close>

record rx_res =
  rr_ret :: rx_ret
  rr_frame :: rx_frame
  rr_psta :: "bytes option"
  rr_preorder :: "nat option"
  rr_ctx :: rx_ctx
  rr_acts :: "rx_act list"

definition frame_mem :: "rx_frame \<Rightarrow> bytes" where
  "frame_mem f = drop (nat (rb_data (fr_buf f))) (rb_mem (fr_buf f))"

definition set_attr :: "rx_frame \<Rightarrow> rx_attr \<Rightarrow> rx_frame" where
  "set_attr f a = f\<lparr>fr_attr := a\<rparr>"

text \<open>The addresses by direction.\<close>

definition dir_addrs :: "bytes \<Rightarrow> rx_attr \<Rightarrow> rx_attr" where
  "dir_addrs h a =
     (let a1 = GetAddr1Ptr h; a2 = get_addr2_ptr h; a3 = GetAddr3Ptr h; a = a\<lparr>at_ra := a1, at_ta := a2\<rparr>
      in if at_to_fr_ds a = 0 then a\<lparr>at_dst := a1, at_src := a2, at_bssid := a3\<rparr>
         else if at_to_fr_ds a = 1 then a\<lparr>at_dst := a1, at_src := a3, at_bssid := a2\<rparr>
         else a\<lparr>at_dst := a3, at_src := a2, at_bssid := a1\<rparr>)"

definition dir_check :: "rx_ctx \<Rightarrow> bytes \<Rightarrow> rx_attr \<Rightarrow> dir_result option" where
  "dir_check c h a =
     (if at_to_fr_ds a = 0 then Some (sta2sta_data_frame c h (dir_addrs h a))
      else if at_to_fr_ds a = 1 then ap2sta_data_frame c h (dir_addrs h a)
      else if at_to_fr_ds a = 2 then sta2ap_data_frame c h (dir_addrs h a)
      else Some (RX_FAIL, a, None, []))"

text \<open>The QoS field \<open>qc\<close> and the length of the header.\<close>

definition qos_fields :: "bytes \<Rightarrow> nat \<Rightarrow> rx_attr \<Rightarrow> rx_attr" where
  "qos_fields qc a4_shift a =
     (let a = (if at_qos a
               then a\<lparr>at_priority := ucast (GetPriority qc), at_ack_policy := ucast (GetAckpolicy qc),
                      at_hdrlen := word_of_nat (WLAN_HDR_A3_QOS_LEN + a4_shift)\<rparr>
               else a\<lparr>at_priority := 0, at_hdrlen := word_of_nat (WLAN_HDR_A3_LEN + a4_shift)\<rparr>)
      in if at_order a then a\<lparr>at_hdrlen := at_hdrlen a + 4\<rparr> else a)"

definition crypt_fields :: "rx_ctx \<Rightarrow> rx_sta \<Rightarrow> rx_attr \<Rightarrow> rx_attr" where
  "crypt_fields c s a =
     (if at_privacy a
      then let e = GET_ENCRY_ALGO (rc_auth_alg c) (rc_privacy_alg c) (rc_grp_privacy c) (rs_privacy s) (IS_MCAST (at_ra a)) (at_encrypt a)
           in a\<lparr>at_encrypt := e, at_iv_len := fst (SET_ICE_IV_LEN e), at_icv_len := snd (SET_ICE_IV_LEN e)\<rparr>
      else a\<lparr>at_encrypt := 0, at_iv_len := 0, at_icv_len := 0\<rparr>)"

text \<open>The replay check by class of traffic: the verdict, the station and the packet numbers of the groups.\<close>

definition pn_check :: "rx_ctx \<Rightarrow> rx_attr \<Rightarrow> bytes \<Rightarrow> rx_sta \<Rightarrow> (rtw_res \<times> rx_sta \<times> bytes list) option" where
  "pn_check c a h s =
     (if \<not> IS_MCAST (at_ra a) then do {
        (res, cache) \<leftarrow> recv_ucast_pn_decache (seq_view a h) (rxcache (rs_recv s));
        Some (res, s\<lparr>rs_recv := (rs_recv s)\<lparr>rxcache := cache\<rparr>\<rparr>, rc_iv_seq c) }
      else do {
        (res, iv) \<leftarrow> recv_bcast_pn_decache (check_fwstate (rc_fw_state c) WIFI_STATION_STATE) (seq_view a h) (rc_iv_seq c);
        Some (res, s, iv) })"

definition rx_out :: "rx_frame \<Rightarrow> rx_ret \<Rightarrow> rx_attr \<Rightarrow> bytes option \<Rightarrow> nat option \<Rightarrow> rx_ctx \<Rightarrow> rx_act list \<Rightarrow> rx_res" where
  "rx_out f ret a p pre c acts = \<lparr>rr_ret = ret, rr_frame = set_attr f a, rr_psta = p, rr_preorder = pre, rr_ctx = c, rr_acts = acts\<rparr>"

text \<open>A frame of station \<open>s\<close> with address \<open>p\<close>, once the direction has been checked.\<close>

definition validate_sta_frame ::
  "rx_ctx \<Rightarrow> rx_frame \<Rightarrow> bytes \<Rightarrow> nat \<Rightarrow> rx_attr \<Rightarrow> bytes \<Rightarrow> rx_sta \<Rightarrow> rx_act list \<Rightarrow> rx_res option" where
  "validate_sta_frame c f qc a4_shift a p s acts =
     (let h = frame_mem f;
          a = qos_fields qc a4_shift (a\<lparr>at_ack_policy := 0\<rparr>);
          c = (if at_qos a then c\<lparr>rc_non_be := (at_priority a \<noteq> 0 \<and> at_priority a \<noteq> 3)\<rparr> else c)
      in do {
        (res, r) \<leftarrow> recv_decache (seq_view a h) (rs_recv s);
        let s = s\<lparr>rs_recv := r\<rparr>;
        if res = RTW_FAIL then Some (rx_out f RX_FAIL a (Some p) None (put_sta p s c) acts)
        else do {
          let pre = (if \<not> IS_MCAST (at_ra a) \<and> at_qos a then Some (unat (at_priority a)) else None);
          (res, s, iv) \<leftarrow> pn_check c a h s;
          let c = put_sta p s (c\<lparr>rc_iv_seq := iv\<rparr>);
          if res = RTW_FAIL then Some (rx_out f RX_FAIL a (Some p) pre c acts)
          else Some (rx_out f RX_OK (crypt_fields c s a) (Some p) pre c acts) } })"

definition validate_recv_data_frame :: "rx_ctx \<Rightarrow> rx_frame \<Rightarrow> rx_res option" where
  "validate_recv_data_frame c f =
     (let a = fr_attr f; h = frame_mem f;
          a4_shift = (if at_to_fr_ds a = 3 then ETH_ALEN else 0)
      in do {
        qc \<leftarrow> (if at_qos a then get_sub h (WLAN_HDR_A3_LEN + a4_shift) 2 else Some [0, 0]);
        let a = a\<lparr>at_amsdu := at_qos a \<and> GetAMsdu qc\<rparr>;
        (ret, a, psta, acts) \<leftarrow> dir_check c h a;
        if ret \<noteq> RX_OK then Some (rx_out f ret a None None c acts)
        else case psta of
          None \<Rightarrow> Some (rx_out f RX_FAIL a None None c acts)
        | Some p \<Rightarrow> (case get_sta c p of
            None \<Rightarrow> Some (rx_out f RX_FAIL a None None c acts)
          | Some s \<Rightarrow> validate_sta_frame c f qc a4_shift a p s acts) })"

section \<open>All frames\<close>

text \<open>
  Management and control frames are handed to their own functions and then dropped from this path. A header is
  read up to its sequence control field, also of shorter frames.
\<close>

definition hdr_fields :: "bytes \<Rightarrow> rx_attr \<Rightarrow> rx_attr" where
  "hdr_fields h a = a\<lparr>at_to_fr_ds := get_tofr_ds h, at_frag_num := ucast (GetFragNum h), at_seq_num := GetSequence h,
     at_pw_save := GetPwrMgt h, at_mfrag := GetMFrag h, at_mdata := GetMData h, at_privacy := GetPrivacy h,
     at_order := GetOrder h\<rparr>"

definition validate_recv_frame :: "rx_ctx \<Rightarrow> rx_frame \<Rightarrow> rx_res option" where
  "validate_recv_frame c f =
     (let out = (\<lambda>ret f acts. Some \<lparr>rr_ret = ret, rr_frame = f, rr_psta = None, rr_preorder = None, rr_ctx = c, rr_acts = acts\<rparr>)
      in do {
        b0 \<leftarrow> rd (frame_mem f) 0;
        if b0 AND 0x3 \<noteq> 0 then out RX_FAIL f []
        else do {
          h \<leftarrow> get_sub (frame_mem f) 0 24;
          type \<leftarrow> GetFrameType h;
          subtype \<leftarrow> get_frame_sub_type h;
          let f = set_attr f (hdr_fields h (fr_attr f));
          if type = 0 then out RX_FAIL f [Mgnt_frame]
          else if type = 0x04 then out RX_FAIL f [Ctrl_frame]
          else if type = 0x08 then
            validate_recv_data_frame c (set_attr f ((fr_attr f)\<lparr>at_qos := bit subtype 7\<rparr>))
          else out RX_FAIL f [] } })"

section \<open>Port control\<close>

definition LLC_HEADER_SIZE :: nat where "LLC_HEADER_SIZE = 6"

text \<open>Whether the frame goes on; the type field is read where that of a frame with a SNAP header is.\<close>

definition portctrl :: "rx_ctx \<Rightarrow> rx_frame \<Rightarrow> bool option" where
  "portctrl c f =
     (if rc_auth_alg c = dot11AuthAlgrthm_8021X then
        case get_sta c (at_ta (fr_attr f)) of
          None \<Rightarrow> Some True
        | Some psta \<Rightarrow>
            if rs_blocked psta then do {
              et \<leftarrow> mem_get (rb_mem (fr_buf f)) (rb_data (fr_buf f) + off_payload (fr_attr f) + int LLC_HEADER_SIZE) 2;
              Some (RTW_GET_BE16 et = 0x888e) }
            else Some True
      else Some True)"

section \<open>What is accepted\<close>

text \<open>A linked station.\<close>

definition linked_sta :: "rx_ctx \<Rightarrow> bool" where
  "linked_sta c \<longleftrightarrow> check_fwstate (rc_fw_state c) WIFI_STATION_STATE \<and> check_fwstate (rc_fw_state c) WIFI_ASOC_STATE \<and>
     \<not> check_fwstate (rc_fw_state c) WIFI_ADHOC_STATE \<and> \<not> check_fwstate (rc_fw_state c) WIFI_ADHOC_MASTER_STATE \<and>
     \<not> check_fwstate (rc_fw_state c) WIFI_AP_STATE \<and> \<not> check_fwstate (rc_fw_state c) WIFI_MP_STATE"

text \<open>An access point.\<close>

definition is_ap :: "rx_ctx \<Rightarrow> bool" where
  "is_ap c \<longleftrightarrow> check_fwstate (rc_fw_state c) WIFI_AP_STATE \<and> \<not> check_fwstate (rc_fw_state c) WIFI_STATION_STATE \<and>
     \<not> check_fwstate (rc_fw_state c) WIFI_ADHOC_STATE \<and> \<not> check_fwstate (rc_fw_state c) WIFI_ADHOC_MASTER_STATE \<and>
     \<not> check_fwstate (rc_fw_state c) WIFI_MP_STATE"

lemma found_Some: "found c x = Some p \<longleftrightarrow> p = x \<and> get_sta c x \<noteq> None"
  by (auto simp: found_def)

lemma attr_dir_addrs [simp]:
  "at_to_fr_ds (dir_addrs h a) = at_to_fr_ds a" "at_qos (dir_addrs h a) = at_qos a" "at_order (dir_addrs h a) = at_order a"
  "at_privacy (dir_addrs h a) = at_privacy a" "at_encrypt (dir_addrs h a) = at_encrypt a" "at_amsdu (dir_addrs h a) = at_amsdu a"
  "at_seq_num (dir_addrs h a) = at_seq_num a" "at_frag_num (dir_addrs h a) = at_frag_num a"
  "at_ra (dir_addrs h a) = GetAddr1Ptr h" "at_ta (dir_addrs h a) = get_addr2_ptr h"
  by (simp_all add: dir_addrs_def Let_def)

lemma dir_check_sta:
  assumes "linked_sta c" "dir_check c h a = Some (RX_OK, a', p, acts)"
  shows "a' = dir_addrs h a \<and> p = Some (get_addr2_ptr h) \<and>
    (at_to_fr_ds a = 0 \<and> GetAddr3Ptr h = get_addr2_ptr h \<or>
     at_to_fr_ds a = 1 \<and> get_addr2_ptr h = rc_bssid c \<and> rc_bssid c \<noteq> no_addr \<and> GetAddr3Ptr h \<noteq> rc_hwaddr c \<and>
       (GetAddr1Ptr h = rc_hwaddr c \<or> IS_MCAST (GetAddr1Ptr h)))"
proof -
  consider "at_to_fr_ds a = 0" | "at_to_fr_ds a = 1" | "at_to_fr_ds a = 2" | "at_to_fr_ds a > 2" by linarith
  then show ?thesis
  proof cases
    case 1
    then show ?thesis using assms
      by (auto simp: dir_check_def sta2sta_data_frame_def Let_def linked_sta_def found_Some dir_addrs_def
          split: if_splits option.splits)
  next
    case 2
    then show ?thesis using assms
      by (auto simp: dir_check_def ap2sta_data_frame_def Let_def linked_sta_def found_Some dir_addrs_def
          split: if_splits option.splits Option.bind_splits)
  next
    case 3
    then show ?thesis using assms
      by (auto simp: dir_check_def sta2ap_data_frame_def Let_def linked_sta_def found_Some dir_addrs_def check_fwstate_def fw_state_defs
          split: if_splits option.splits Option.bind_splits)
  next
    case 4
    then show ?thesis using assms by (simp add: dir_check_def)
  qed
qed

lemma dir_check_ap:
  assumes "is_ap c" "dir_check c h a = Some (RX_OK, a', p, acts)"
  shows "a' = dir_addrs h a \<and> p = Some (get_addr2_ptr h) \<and>
    (at_to_fr_ds a = 0 \<and> (if IS_MCAST (GetAddr1Ptr h) then IS_MCAST (GetAddr3Ptr h) else GetAddr3Ptr h = GetAddr1Ptr h) \<or>
     at_to_fr_ds a = 2 \<and> GetAddr1Ptr h = rc_bssid c)"
proof -
  consider "at_to_fr_ds a = 0" | "at_to_fr_ds a = 1" | "at_to_fr_ds a = 2" | "at_to_fr_ds a > 2" by linarith
  then show ?thesis
  proof cases
    case 1
    then show ?thesis using assms
      by (auto simp: dir_check_def sta2sta_data_frame_def Let_def is_ap_def found_Some dir_addrs_def
          split: if_splits option.splits)
  next
    case 2
    then show ?thesis using assms
      by (auto simp: dir_check_def ap2sta_data_frame_def Let_def is_ap_def found_Some dir_addrs_def
          split: if_splits option.splits Option.bind_splits)
  next
    case 3
    then show ?thesis using assms
      by (auto simp: dir_check_def sta2ap_data_frame_def Let_def is_ap_def found_Some dir_addrs_def
          split: if_splits option.splits Option.bind_splits)
  next
    case 4
    then show ?thesis using assms by (simp add: dir_check_def)
  qed
qed

text \<open>The station whose table entry the frame has gone through.\<close>

lemma crypt_fields_sta: "rs_privacy s' = rs_privacy s \<Longrightarrow> rc_auth_alg c' = rc_auth_alg c \<Longrightarrow> rc_privacy_alg c' = rc_privacy_alg c \<Longrightarrow>
    rc_grp_privacy c' = rc_grp_privacy c \<Longrightarrow> crypt_fields c' s' a = crypt_fields c s a"
  by (simp add: crypt_fields_def GET_ENCRY_ALGO_def Let_def)

lemma validate_sta_OK:
  assumes v: "validate_sta_frame c f qc sh a p s acts = Some r" "rr_ret r = RX_OK"
  shows "\<exists>rv. recv_decache (seq_view (qos_fields qc sh (a\<lparr>at_ack_policy := 0\<rparr>)) (frame_mem f)) (rs_recv s) = Some (RTW_SUCCESS, rv)"
    "rr_psta r = Some p" "rr_acts r = acts" "fr_buf (rr_frame r) = fr_buf f"
    "fr_attr (rr_frame r) = crypt_fields c s (qos_fields qc sh (a\<lparr>at_ack_policy := 0\<rparr>))"
proof -
  let ?a = "qos_fields qc sh (a\<lparr>at_ack_policy := 0\<rparr>)"
  obtain res rv where rv: "recv_decache (seq_view ?a (frame_mem f)) (rs_recv s) = Some (res, rv)"
    using v(1) unfolding validate_sta_frame_def Let_def by (auto split: Option.bind_splits)
  have res: "res = RTW_SUCCESS"
    using v rv unfolding validate_sta_frame_def Let_def by (cases res) (auto simp: rx_out_def)
  then show "\<exists>rv. recv_decache (seq_view ?a (frame_mem f)) (rs_recv s) = Some (RTW_SUCCESS, rv)" using rv by blast
  define c' where "c' = (if at_qos ?a then c\<lparr>rc_non_be := (at_priority ?a \<noteq> 0 \<and> at_priority ?a \<noteq> 3)\<rparr> else c)"
  have c': "rc_auth_alg c' = rc_auth_alg c" "rc_privacy_alg c' = rc_privacy_alg c" "rc_grp_privacy c' = rc_grp_privacy c"
    by (simp_all add: c'_def)
  obtain res' s' iv where pn: "pn_check c' ?a (frame_mem f) (s\<lparr>rs_recv := rv\<rparr>) = Some (res', s', iv)"
    using v(1) rv res unfolding validate_sta_frame_def Let_def c'_def [symmetric]
    by (cases "pn_check c' ?a (frame_mem f) (s\<lparr>rs_recv := rv\<rparr>)") auto
  have s': "rs_privacy s' = rs_privacy s" using pn by (auto simp: pn_check_def split: if_splits Option.bind_splits)
  have "res' \<noteq> RTW_FAIL \<and> r = rx_out f RX_OK (crypt_fields (put_sta p s' (c'\<lparr>rc_iv_seq := iv\<rparr>)) s' ?a) (Some p)
      (if \<not> IS_MCAST (at_ra ?a) \<and> at_qos ?a then Some (unat (at_priority ?a)) else None) (put_sta p s' (c'\<lparr>rc_iv_seq := iv\<rparr>)) acts"
    using v rv res pn unfolding validate_sta_frame_def Let_def c'_def [symmetric]
    by (cases "res' = RTW_FAIL") (auto simp: rx_out_def)
  then show "rr_psta r = Some p" "rr_acts r = acts" "fr_buf (rr_frame r) = fr_buf f" "fr_attr (rr_frame r) = crypt_fields c s ?a"
    by (simp_all add: rx_out_def set_attr_def put_sta_def crypt_fields_sta [OF s'] c')
qed

lemma validate_data_OK:
  assumes v: "validate_recv_data_frame c f = Some r" "rr_ret r = RX_OK"
  shows "\<exists>qc a p acts s.
    dir_check c (frame_mem f) ((fr_attr f)\<lparr>at_amsdu := at_qos (fr_attr f) \<and> GetAMsdu qc\<rparr>) = Some (RX_OK, a, Some p, acts) \<and>
    get_sta c p = Some s \<and>
    (if at_qos (fr_attr f) then get_sub (frame_mem f) (WLAN_HDR_A3_LEN + (if at_to_fr_ds (fr_attr f) = 3 then ETH_ALEN else 0)) 2
     else Some [0, 0]) = Some qc \<and>
    validate_sta_frame c f qc (if at_to_fr_ds (fr_attr f) = 3 then ETH_ALEN else 0) a p s acts = Some r"
proof -
  let ?h = "frame_mem f" and ?sh = "if at_to_fr_ds (fr_attr f) = 3 then ETH_ALEN else 0"
  obtain qc where qc: "(if at_qos (fr_attr f) then get_sub ?h (WLAN_HDR_A3_LEN + ?sh) 2 else Some [0, 0]) = Some qc"
    using v(1) unfolding validate_recv_data_frame_def Let_def by (auto split: Option.bind_splits)
  let ?a0 = "(fr_attr f)\<lparr>at_amsdu := at_qos (fr_attr f) \<and> GetAMsdu qc\<rparr>"
  obtain ret a psta acts where d: "dir_check c ?h ?a0 = Some (ret, a, psta, acts)"
    using v(1) qc unfolding validate_recv_data_frame_def Let_def by (auto split: Option.bind_splits)
  show ?thesis
    using v qc d unfolding validate_recv_data_frame_def Let_def
    by (intro exI [of _ qc] exI [of _ a] exI [of _ "the psta"] exI [of _ acts] exI [of _ "the (get_sta c (the psta))"])
      (auto simp: rx_out_def split: if_splits option.splits)
qed

text \<open>The fields behind the header are set by \<open>hdr_fields\<close> and survive.\<close>

lemma qos_fields_hdrlen:
  "at_hdrlen (qos_fields qc 0 a) = 24 + (if at_qos a then 2 else 0) + (if at_order a then 4 else 0)"
  by (simp add: qos_fields_def Let_def WLAN_HDR_A3_LEN_def WLAN_HDR_A3_QOS_LEN_def)

lemma attr_crypt_fields [simp]:
  "at_hdrlen (crypt_fields c s a) = at_hdrlen a" "at_dst (crypt_fields c s a) = at_dst a" "at_src (crypt_fields c s a) = at_src a"
  "at_ta (crypt_fields c s a) = at_ta a" "at_ra (crypt_fields c s a) = at_ra a" "at_amsdu (crypt_fields c s a) = at_amsdu a"
  "at_to_fr_ds (crypt_fields c s a) = at_to_fr_ds a" "at_qos (crypt_fields c s a) = at_qos a"
  by (simp_all add: crypt_fields_def Let_def)

lemma attr_qos_fields [simp]:
  "at_dst (qos_fields qc sh a) = at_dst a" "at_src (qos_fields qc sh a) = at_src a" "at_ta (qos_fields qc sh a) = at_ta a"
  "at_ra (qos_fields qc sh a) = at_ra a" "at_amsdu (qos_fields qc sh a) = at_amsdu a" "at_privacy (qos_fields qc sh a) = at_privacy a"
  "at_to_fr_ds (qos_fields qc sh a) = at_to_fr_ds a" "at_qos (qos_fields qc sh a) = at_qos a"
  "at_encrypt (qos_fields qc sh a) = at_encrypt a"
  by (simp_all add: qos_fields_def Let_def)

lemma addrs_take:
  assumes "get_sub m 0 24 = Some h"
  shows "GetAddr1Ptr m = GetAddr1Ptr h" "get_addr2_ptr m = get_addr2_ptr h" "GetAddr3Ptr m = GetAddr3Ptr h"
  using assms by (auto simp: get_sub_def GetAddr1Ptr_def get_addr2_ptr_def GetAddr3Ptr_def drop_take split: if_splits)

text \<open>The frames that reach the checks of data frames.\<close>

lemma validate_frame_OK:
  assumes "validate_recv_frame c f = Some r" "rr_ret r = RX_OK"
  shows "\<exists>b h subtype. rd (frame_mem f) 0 = Some b \<and> b AND 3 = 0 \<and> get_sub (frame_mem f) 0 24 = Some h \<and>
    GetFrameType h = Some 8 \<and> get_frame_sub_type h = Some subtype \<and>
    validate_recv_data_frame c (set_attr f ((hdr_fields h (fr_attr f))\<lparr>at_qos := bit subtype 7\<rparr>)) = Some r"
  using assms by (auto simp: validate_recv_frame_def Let_def set_attr_def split: Option.bind_splits if_splits)

definition dir_ok :: "rx_ctx \<Rightarrow> bytes \<Rightarrow> bool" where
  "dir_ok c h \<longleftrightarrow>
     (if linked_sta c then
        if GetFrDs h
        then \<not> GetToDs h \<and> get_addr2_ptr h = rc_bssid c \<and> rc_bssid c \<noteq> no_addr \<and> GetAddr3Ptr h \<noteq> rc_hwaddr c \<and>
          (GetAddr1Ptr h = rc_hwaddr c \<or> IS_MCAST (GetAddr1Ptr h))
        else \<not> GetToDs h \<and> GetAddr3Ptr h = get_addr2_ptr h
      else if GetToDs h then \<not> GetFrDs h \<and> GetAddr1Ptr h = rc_bssid c
      else \<not> GetFrDs h \<and> (if IS_MCAST (GetAddr1Ptr h) then IS_MCAST (GetAddr3Ptr h) else GetAddr3Ptr h = GetAddr1Ptr h))"

text \<open>C10: Of what a linked station or an access point receives, only data frames of protocol version
  0 are passed on, whose sender is in the table and, between a station and its access point, whose BSSID is the
  right one; a station takes only frames for itself or for a group that it did not send. The destination and source of the
  Ethernet frame are the addresses the direction prescribes and the header length counts the QoS and HT fields.\<close>
theorem accepted_data_frame:
  assumes mode: "linked_sta c \<or> is_ap c" and v: "validate_recv_frame c f = Some r" "rr_ret r = RX_OK"
  shows "\<exists>h subtype. get_sub (frame_mem f) 0 24 = Some h \<and> h ! 0 AND 3 = 0 \<and> GetFrameType h = Some 8 \<and>
    get_frame_sub_type h = Some subtype \<and> dir_ok c h \<and>
    rr_psta r = Some (get_addr2_ptr h) \<and> get_sta c (get_addr2_ptr h) \<noteq> None \<and>
    at_dst (fr_attr (rr_frame r)) = (if GetToDs h then GetAddr3Ptr h else GetAddr1Ptr h) \<and>
    at_src (fr_attr (rr_frame r)) = (if GetFrDs h then GetAddr3Ptr h else get_addr2_ptr h) \<and>
    at_hdrlen (fr_attr (rr_frame r)) = 24 + (if bit subtype 7 then 2 else 0) + (if GetOrder h then 4 else 0)"
proof -
  obtain b h subtype where h: "rd (frame_mem f) 0 = Some b" "b AND 3 = 0" "get_sub (frame_mem f) 0 24 = Some h"
    "GetFrameType h = Some 8" "get_frame_sub_type h = Some subtype"
    and d: "validate_recv_data_frame c (set_attr f ((hdr_fields h (fr_attr f))\<lparr>at_qos := bit subtype 7\<rparr>)) = Some r"
    using validate_frame_OK [OF v] by blast
  define f0 where "f0 = set_attr f ((hdr_fields h (fr_attr f))\<lparr>at_qos := bit subtype 7\<rparr>)"
  have f0: "frame_mem f0 = frame_mem f" "at_to_fr_ds (fr_attr f0) = get_tofr_ds h" "at_qos (fr_attr f0) = bit subtype 7"
    "at_order (fr_attr f0) = GetOrder h"
    by (simp_all add: f0_def set_attr_def frame_mem_def hdr_fields_def)
  have h0: "h ! 0 AND 3 = 0" using h(1-3) by (auto simp: rd_def get_sub_def split: if_splits)
  note ad = addrs_take [OF h(3)]
  define sh where "sh = (if at_to_fr_ds (fr_attr f0) = 3 then ETH_ALEN else 0)"
  obtain qc a p acts s where dc:
    "dir_check c (frame_mem f0) ((fr_attr f0)\<lparr>at_amsdu := at_qos (fr_attr f0) \<and> GetAMsdu qc\<rparr>) = Some (RX_OK, a, Some p, acts)"
    "get_sta c p = Some s" "validate_sta_frame c f0 qc sh a p s acts = Some r"
    using validate_data_OK [OF d [folded f0_def] v(2)] unfolding sh_def by blast
  note t = validate_sta_OK(2,5) [OF dc(3) v(2)]
  let ?a0 = "(fr_attr f0)\<lparr>at_amsdu := at_qos (fr_attr f0) \<and> GetAMsdu qc\<rparr>"
  have dir: "a = dir_addrs (frame_mem f0) ?a0 \<and> p = get_addr2_ptr h \<and> get_tofr_ds h < 3 \<and> dir_ok c h"
  proof (cases "linked_sta c")
    case True
    show ?thesis using dir_check_sta [OF True dc(1)] True
      by (auto simp: f0 ad dir_ok_def get_tofr_ds_def split: if_splits)
  next
    case False
    then have "is_ap c" using mode by simp
    show ?thesis using dir_check_ap [OF \<open>is_ap c\<close> dc(1)] False
      by (auto simp: f0 ad dir_ok_def get_tofr_ds_def split: if_splits)
  qed
  then have "sh = 0" by (simp add: sh_def f0(2))
  then have "at_hdrlen (fr_attr (rr_frame r)) = 24 + (if bit subtype 7 then 2 else 0) + (if GetOrder h then 4 else 0)"
    using t(2) dir by (simp add: qos_fields_hdrlen f0)
  moreover have "at_dst (fr_attr (rr_frame r)) = (if GetToDs h then GetAddr3Ptr h else GetAddr1Ptr h)"
    "at_src (fr_attr (rr_frame r)) = (if GetFrDs h then GetAddr3Ptr h else get_addr2_ptr h)"
    using t(2) dir by (auto simp: dir_addrs_def Let_def f0 ad get_tofr_ds_def split: if_splits)
  ultimately show ?thesis using h(3-5) h0 dir t(1) dc(2) by auto
qed

text \<open>Other security settings: the algorithms of the interface and the cipher of every station.\<close>

definition with_security :: "u32 \<Rightarrow> u8 \<Rightarrow> u8 \<Rightarrow> u8 \<Rightarrow> rx_ctx \<Rightarrow> rx_ctx" where
  "with_security alg p g q c = c\<lparr>rc_auth_alg := alg, rc_privacy_alg := p, rc_grp_privacy := g,
     rc_stas := \<lambda>a. map_option (\<lambda>s. s\<lparr>rs_privacy := q\<rparr>) (rc_stas c a)\<rparr>"

lemma get_sta_security: "get_sta (with_security alg p g q c) x = map_option (\<lambda>s. s\<lparr>rs_privacy := q\<rparr>) (get_sta c x)"
  by (simp add: get_sta_def with_security_def)

lemma dir_check_security: "dir_check (with_security alg p g q c) h a = dir_check c h a"
proof -
  have "found (with_security alg p g q c) = found c"
    by (rule ext) (simp add: found_def get_sta_security)
  moreover have "rc_fw_state (with_security alg p g q c) = rc_fw_state c" "rc_bssid (with_security alg p g q c) = rc_bssid c"
    "rc_hwaddr (with_security alg p g q c) = rc_hwaddr c" "rc_radar (with_security alg p g q c) = rc_radar c"
    "rc_deauth_due (with_security alg p g q c) = rc_deauth_due c"
    by (simp_all add: with_security_def)
  ultimately show ?thesis
    by (simp only: dir_check_def sta2sta_data_frame_def ap2sta_data_frame_def sta2ap_data_frame_def)
qed

lemma crypt_plain: "\<not> at_privacy a \<Longrightarrow> crypt_fields c s a = a\<lparr>at_encrypt := 0, at_iv_len := 0, at_icv_len := 0\<rparr>"
  by (simp add: crypt_fields_def)

lemma pn_check_security:
  "pn_check (with_security alg p g q c) a h (s\<lparr>rs_privacy := q\<rparr>) =
    map_option (\<lambda>(res, s, iv). (res, s\<lparr>rs_privacy := q\<rparr>, iv)) (pn_check c a h s)"
  by (simp add: pn_check_def with_security_def split: Option.bind_splits)

lemma validate_sta_security:
  assumes v: "validate_sta_frame c f qc sh a p s acts = Some r" "rr_ret r = RX_OK" and a: "\<not> at_privacy a"
  shows "\<exists>r'. validate_sta_frame (with_security alg y g q c) f qc sh a p (s\<lparr>rs_privacy := q\<rparr>) acts = Some r' \<and>
    rr_ret r' = RX_OK \<and> rr_frame r' = rr_frame r"
proof -
  let ?a = "qos_fields qc sh (a\<lparr>at_ack_policy := 0\<rparr>)"
  define c' where "c' = (if at_qos ?a then c\<lparr>rc_non_be := (at_priority ?a \<noteq> 0 \<and> at_priority ?a \<noteq> 3)\<rparr> else c)"
  have w: "(if at_qos ?a then with_security alg y g q c\<lparr>rc_non_be := (at_priority ?a \<noteq> 0 \<and> at_priority ?a \<noteq> 3)\<rparr>
      else with_security alg y g q c) = with_security alg y g q c'"
    by (simp add: c'_def with_security_def)
  obtain res rv where rv: "recv_decache (seq_view ?a (frame_mem f)) (rs_recv s) = Some (res, rv)"
    using v(1) unfolding validate_sta_frame_def Let_def by (auto split: Option.bind_splits)
  have res: "res = RTW_SUCCESS"
    using v rv unfolding validate_sta_frame_def Let_def by (cases res) (auto simp: rx_out_def)
  obtain res' s' iv where pn: "pn_check c' ?a (frame_mem f) (s\<lparr>rs_recv := rv\<rparr>) = Some (res', s', iv)"
    using v(1) rv res unfolding validate_sta_frame_def Let_def c'_def [symmetric]
    by (cases "pn_check c' ?a (frame_mem f) (s\<lparr>rs_recv := rv\<rparr>)") auto
  have res': "res' \<noteq> RTW_FAIL"
    using v rv res pn unfolding validate_sta_frame_def Let_def c'_def [symmetric] by (auto simp: rx_out_def)
  have pr: "\<not> at_privacy ?a" using a by simp
  have "pn_check (with_security alg y g q c') ?a (frame_mem f) (s\<lparr>rs_privacy := q, rs_recv := rv\<rparr>) =
      Some (res', s'\<lparr>rs_privacy := q\<rparr>, iv)"
    using pn_check_security [of alg y g q c' ?a "frame_mem f" "s\<lparr>rs_recv := rv\<rparr>"] pn by (cases s) simp
  then show ?thesis using v rv res pn res'
    unfolding validate_sta_frame_def Let_def w c'_def [symmetric]
    by (auto simp: rx_out_def crypt_plain [OF pr])
qed

text \<open>C40: A data frame without the Protected bit is taken for one without encryption, and it is
  accepted whatever algorithms the interface and the station use; the port control lets it through once the port of its
  sender is open.\<close>
theorem plaintext_accepted:
  assumes v: "validate_recv_frame c f = Some r" "rr_ret r = RX_OK" and plain: "\<not> GetPrivacy (frame_mem f)"
  shows "at_encrypt (fr_attr (rr_frame r)) = 0 \<and>
    (\<exists>r'. validate_recv_frame (with_security alg y g q c) f = Some r' \<and> rr_ret r' = RX_OK \<and> rr_frame r' = rr_frame r) \<and>
    (\<forall>c' s. get_sta c' (at_ta (fr_attr (rr_frame r))) = Some s \<and> \<not> rs_blocked s \<longrightarrow> portctrl c' (rr_frame r) = Some True)"
proof -
  obtain b h subtype where h: "rd (frame_mem f) 0 = Some b" "b AND 3 = 0" "get_sub (frame_mem f) 0 24 = Some h"
    "GetFrameType h = Some 8" "get_frame_sub_type h = Some subtype"
    and d: "validate_recv_data_frame c (set_attr f ((hdr_fields h (fr_attr f))\<lparr>at_qos := bit subtype 7\<rparr>)) = Some r"
    using validate_frame_OK [OF v] by blast
  define f0 where "f0 = set_attr f ((hdr_fields h (fr_attr f))\<lparr>at_qos := bit subtype 7\<rparr>)"
  have "take 2 h = take 2 (frame_mem f)" using h(3) by (auto simp: get_sub_def split: if_splits)
  then have "GetPrivacy h = GetPrivacy (frame_mem f)" by (simp add: GetPrivacy_def hdr16_def)
  then have f0: "\<not> at_privacy (fr_attr f0)" using plain by (simp add: f0_def set_attr_def hdr_fields_def)
  define sh where "sh = (if at_to_fr_ds (fr_attr f0) = 3 then ETH_ALEN else 0)"
  obtain qc a p acts s where dc:
    "dir_check c (frame_mem f0) ((fr_attr f0)\<lparr>at_amsdu := at_qos (fr_attr f0) \<and> GetAMsdu qc\<rparr>) = Some (RX_OK, a, Some p, acts)"
    "get_sta c p = Some s"
    "(if at_qos (fr_attr f0) then get_sub (frame_mem f0) (WLAN_HDR_A3_LEN + sh) 2 else Some [0, 0]) = Some qc"
    "validate_sta_frame c f0 qc sh a p s acts = Some r"
    using validate_data_OK [OF d [folded f0_def] v(2)] unfolding sh_def by blast
  have priv: "\<not> at_privacy a"
    using dc(1) f0 by (auto simp: dir_check_def sta2sta_data_frame_def ap2sta_data_frame_def sta2ap_data_frame_def mp_addrs_def
        Let_def split: if_splits option.splits Option.bind_splits)
  have "at_encrypt (fr_attr (rr_frame r)) = 0"
    using validate_sta_OK(5) [OF dc(4) v(2)] priv by (simp add: crypt_plain)
  moreover obtain r' where r': "validate_sta_frame (with_security alg y g q c) f0 qc sh a p (s\<lparr>rs_privacy := q\<rparr>) acts = Some r'"
    "rr_ret r' = RX_OK" "rr_frame r' = rr_frame r"
    using validate_sta_security [OF dc(4) v(2) priv] by blast
  have "validate_recv_data_frame (with_security alg y g q c) f0 = Some r'"
    using dc(1,2,3) r'(1) unfolding validate_recv_data_frame_def Let_def sh_def [symmetric] dir_check_security
    by (simp add: get_sta_security)
  then have "validate_recv_frame (with_security alg y g q c) f = Some r'"
    using h unfolding validate_recv_frame_def Let_def f0_def by (simp add: set_attr_def)
  ultimately show ?thesis using r'(2,3) by (auto simp: portctrl_def)
qed

section \<open>An example\<close>

definition demo_recv_priv :: sta_recv_priv where
  "demo_recv_priv = \<lparr>rxcache = \<lparr>tid_rxseq = replicate 16 0xffff, rx_iv = replicate 16 (replicate 8 0), last_tid = 0\<rparr>,
     bmc_tid_rxseq = replicate 16 0xffff, nonqos_rxseq = 0xffff, nonqos_bmc_rxseq = 0xffff, duplicate_cnt = 0\<rparr>"

text \<open>A station linked to the access point 02:00:00:00:00:09.\<close>

definition demo_ctx :: "bool \<Rightarrow> rx_ctx" where
  "demo_ctx blocked = \<lparr>rc_fw_state = 0x9, rc_bssid = [2, 0, 0, 0, 0, 9], rc_hwaddr = [2, 0, 0, 0, 0, 1],
     rc_stas = (\<lambda>a. if a = [2, 0, 0, 0, 0, 9]
       then Some \<lparr>rs_blocked = blocked, rs_privacy = ENC_AES, rs_recv = demo_recv_priv\<rparr> else None),
     rc_auth_alg = dot11AuthAlgrthm_8021X, rc_privacy_alg = ENC_AES, rc_grp_privacy = ENC_AES,
     rc_iv_seq = replicate 4 (replicate 8 0), rc_radar = False, rc_deauth_due = False, rc_non_be = False\<rparr>"

text \<open>A frame from the access point with the given second byte, QoS field and payload.\<close>

definition demo_data :: "u8 \<Rightarrow> u8 \<Rightarrow> bytes \<Rightarrow> bytes \<Rightarrow> rx_frame" where
  "demo_data fc0 fc1 qc payload =
     (let bs = [fc0, fc1, 0, 0, 2, 0, 0, 0, 0, 1, 2, 0, 0, 0, 0, 9, 2, 0, 0, 0, 0, 7, 0x10, 0] @ qc @ payload
      in \<lparr>fr_attr = demo_attr\<lparr>at_hdrlen := 0, at_amsdu := False, at_qos := False\<rparr>, fr_buf = demo_buf bs\<rparr>)"

lemma demo_data_accepted:
  "\<exists>r. validate_recv_frame (demo_ctx False) (demo_data 0x08 0x02 [] [0xaa, 0xaa, 3, 0, 0, 0, 8, 0, 5]) = Some r \<and> rr_ret r = RX_OK"
proof -
  have "map_option rr_ret (validate_recv_frame (demo_ctx False) (demo_data 0x08 0x02 [] [0xaa, 0xaa, 3, 0, 0, 0, 8, 0, 5])) = Some RX_OK"
    by code_simp
  then show ?thesis by auto
qed

lemma demo_linked: "linked_sta (demo_ctx b)"
  by (simp add: linked_sta_def demo_ctx_def check_fwstate_def fw_state_defs)

lemma accepted_data_frame_witness:
  "\<exists>r h. validate_recv_frame (demo_ctx False) (demo_data 0x08 0x02 [] [0xaa, 0xaa, 3, 0, 0, 0, 8, 0, 5]) = Some r \<and>
    dir_ok (demo_ctx False) h \<and> at_hdrlen (fr_attr (rr_frame r)) \<noteq> 0"
proof -
  obtain r where r: "validate_recv_frame (demo_ctx False) (demo_data 0x08 0x02 [] [0xaa, 0xaa, 3, 0, 0, 0, 8, 0, 5]) = Some r" "rr_ret r = RX_OK"
    using demo_data_accepted by blast
  have n: "(24 + (if b then 2 else 0) + (if d then 4 else 0) :: u8) \<noteq> 0" for b d by simp
  from accepted_data_frame [OF disjI1 [OF demo_linked] r] r n show ?thesis by metis
qed

lemma plaintext_accepted_witness:
  "\<exists>r r'. validate_recv_frame (demo_ctx False) (demo_data 0x08 0x02 [] [0xaa, 0xaa, 3, 0, 0, 0, 8, 0, 5]) = Some r \<and>
    at_encrypt (fr_attr (rr_frame r)) = 0 \<and>
    validate_recv_frame (with_security dot11AuthAlgrthm_8021X ENC_TKIP ENC_TKIP ENC_TKIP (demo_ctx False))
      (demo_data 0x08 0x02 [] [0xaa, 0xaa, 3, 0, 0, 0, 8, 0, 5]) = Some r' \<and> rr_ret r' = RX_OK"
proof -
  obtain r where r: "validate_recv_frame (demo_ctx False) (demo_data 0x08 0x02 [] [0xaa, 0xaa, 3, 0, 0, 0, 8, 0, 5]) = Some r" "rr_ret r = RX_OK"
    using demo_data_accepted by blast
  have "\<not> GetPrivacy (frame_mem (demo_data 0x08 0x02 [] [0xaa, 0xaa, 3, 0, 0, 0, 8, 0, 5]))" by code_simp
  from plaintext_accepted [OF r this, of dot11AuthAlgrthm_8021X ENC_TKIP ENC_TKIP ENC_TKIP] r(1) show ?thesis by blast
qed

end
