(* ===== verification/EthHdr.thy ===== *)
theory EthHdr
  imports Amsdu
begin

text \<open>
  What \<open>wlanhdr_to_ethhdr\<close> (core/rtw_recv.c) makes of a data frame that is long enough: the Ethernet frame of its
  addresses and payload.
\<close>

lemma put_sub_append:
  assumes "put_sub m a xs = Some m'" "b = a + length xs"
  shows "put_sub m' b ys = put_sub m a (xs @ ys)"
proof (cases "a + length xs + length ys \<le> length m")
  case True
  have m': "m' = take a m @ xs @ drop (a + length xs) m" "length m' = length m" "a + length xs \<le> length m"
    using assms(1) by (auto simp: put_sub_def split: if_splits)
  have l: "length (take a m @ xs) = b" using m'(3) assms(2) by simp
  have "take b m' = take a m @ xs" unfolding m'(1) using l by (metis append_assoc append_eq_conv_conj)
  moreover have "drop (b + length ys) m' = drop (a + length (xs @ ys)) m"
  proof -
    have "drop (b + length ys) m' = drop (length ys) (drop b m')" by (simp add: add.commute)
    also have "drop b m' = drop (a + length xs) m" unfolding m'(1) using l by (metis append_assoc append_eq_conv_conj)
    finally show ?thesis by (simp add: ac_simps)
  qed
  ultimately show ?thesis using True m'(2) assms(2) by (simp add: put_sub_def)
next
  case False
  then show ?thesis using assms by (auto simp: put_sub_def split: if_splits)
qed

text \<open>Writing at the front of a frame.\<close>

lemma mem_put_front:
  assumes b: "buf_ok b" and l: "length xs \<le> nat (rb_len b)"
  shows "\<exists>m. mem_put (rb_mem b) (rb_data b) xs = Some m \<and> buf_ok (b\<lparr>rb_mem := m\<rparr>) \<and>
    buf_bytes (b\<lparr>rb_mem := m\<rparr>) = xs @ drop (length xs) (buf_bytes b)"
proof -
  have d: "0 \<le> rb_data b" "nat (rb_data b) + nat (rb_len b) \<le> length (rb_mem b)" using b by (auto simp: buf_ok_def)
  let ?m = "take (nat (rb_data b)) (rb_mem b) @ xs @ drop (nat (rb_data b) + length xs) (rb_mem b)"
  have p: "mem_put (rb_mem b) (rb_data b) xs = Some ?m" using d l by (simp add: mem_put_def put_sub_def)
  have len: "length ?m = length (rb_mem b)" using d l by simp
  have ok: "buf_ok (b\<lparr>rb_mem := ?m\<rparr>)" using b len by (simp add: buf_ok_def)
  have t: "length (take (nat (rb_data b)) (rb_mem b)) = nat (rb_data b)" using d by simp
  have "drop (nat (rb_data b)) ?m = xs @ drop (nat (rb_data b) + length xs) (rb_mem b)"
    using t by (metis append_eq_conv_conj)
  then have "buf_bytes (b\<lparr>rb_mem := ?m\<rparr>) = xs @ drop (length xs) (buf_bytes b)"
    using l by (simp add: buf_bytes_def drop_take add.commute)
  then show ?thesis using p ok by blast
qed

text \<open>Reading inside a frame.\<close>

lemma mem_get_inside:
  assumes b: "buf_ok b" and k: "0 \<le> k" "nat k + n \<le> length (buf_bytes b)"
  shows "mem_get (rb_mem b) (rb_data b + k) (int n) = Some (take n (drop (nat k) (buf_bytes b)))"
proof -
  have d: "0 \<le> rb_data b" "nat (rb_data b) + nat (rb_len b) \<le> length (rb_mem b)" using b by (auto simp: buf_ok_def)
  have l: "length (buf_bytes b) = nat (rb_len b)" using b by simp
  have e: "nat (rb_data b + k) = nat (rb_data b) + nat k" using d(1) k(1) by (rule nat_add_distrib)
  have "n \<le> nat (rb_len b) - nat k" using k(2) l by linarith
  then have "take n (drop (nat k) (buf_bytes b)) = take n (drop (nat (rb_data b) + nat k) (rb_mem b))"
    by (simp add: buf_bytes_def drop_take add.commute)
  then show ?thesis using d k l e by (simp add: mem_get_def get_sub_def)
qed

definition eth_input :: "rx_frame \<Rightarrow> rx_buf" where
  "eth_input f = (if at_encrypt (fr_attr f) \<noteq> 0
     then snd (recvframe_pull_tail (fr_buf f) (int (unat (at_icv_len (fr_attr f))))) else fr_buf f)"

lemma wlanhdr_to_ethhdr_eth:
  assumes b: "buf_ok (eth_input f)" and o': "14 \<le> off_payload (fr_attr f)"
    and p: "p = drop (nat (off_payload (fr_attr f))) (buf_bytes (eth_input f))" "8 \<le> length p"
    and a: "length (at_dst (fr_attr f)) = 6" "length (at_src (fr_attr f)) = 6"
  shows "\<exists>f'. wlanhdr_to_ethhdr False f = Some (RTW_SUCCESS, f') \<and> buf_ok (fr_buf f') \<and>
    buf_bytes (fr_buf f') = eth_frame (at_dst (fr_attr f)) (at_src (fr_attr f)) p"
proof -
  let ?a = "fr_attr f" and ?b = "eth_input f"
  define off where "off = off_payload ?a"
  define sn where "sn = is_snap (take 6 p) (take 2 (drop 6 p))"
  define rmv where "rmv = off + (if sn then 6 else 0)"
  define k where "k = rmv - 14 + (if sn then 2 else 0)"
  have off: "14 \<le> off" using o' by (simp add: off_def)
  have p': "p = drop (nat off) (buf_bytes ?b)" using p(1) by (simp add: off_def)
  have len: "length (buf_bytes ?b) = nat off + length p" using p(2) unfolding p' by simp
  have rl: "rb_len ?b = off + int (length p)" using len b off by (simp add: buf_ok_def)
  have n6: "nat (off + 6) = nat off + 6" using off by simp
  have i1: "0 \<le> off" "nat off + 6 \<le> length (buf_bytes ?b)" and i2: "0 \<le> off + 6" "nat (off + 6) + 2 \<le> length (buf_bytes ?b)"
    using off len p(2) n6 by linarith+
  have g1: "mem_get (rb_mem ?b) (rb_data ?b + off) 6 = Some (take 6 p)"
    using mem_get_inside [OF b i1] unfolding p' by simp
  have d6: "drop (nat (off + 6)) (buf_bytes ?b) = drop 6 p" unfolding p' n6 by (simp add: add.commute)
  have g2: "mem_get (rb_mem ?b) (rb_data ?b + off + 6) 2 = Some (take 2 (drop 6 p))"
    using mem_get_inside [OF b i2] unfolding d6 by (simp add: add.assoc)
  have r: "0 \<le> rmv" "nat rmv + 2 \<le> length (buf_bytes ?b)" using off len p(2) by (auto simp: rmv_def nat_add_distrib)
  obtain et where g3: "mem_get (rb_mem ?b) (rb_data ?b + rmv) 2 = Some et"
    using mem_get_inside [OF b r] by simp
  have kb: "0 \<le> k" "k \<le> rb_len ?b" using off p(2) rl by (auto simp: k_def rmv_def)
  define b' where "b' = ?b\<lparr>rb_data := rb_data ?b + k, rb_len := rb_len ?b - k\<rparr>"
  note pl = buf_pull [OF b kb, folded b'_def]
  let ?hdr = "at_dst ?a @ at_src ?a @ (if sn then [] else be16 (word_of_int (rb_len ?b - rmv)))"
  have hl: "length ?hdr = (if sn then 12 else 14)" using a by simp
  have lb': "nat (rb_len b') = length (buf_bytes b')" using pl(2) by simp
  have bb': "buf_bytes b' = drop (nat k) (buf_bytes ?b)" by (rule pl(3))
  have "length ?hdr \<le> nat (rb_len b')" using hl off p(2) rl by (auto simp: b'_def k_def rmv_def)
  from mem_put_front [OF pl(2) this] obtain m where m: "mem_put (rb_mem b') (rb_data b') ?hdr = Some m"
    "buf_ok (b'\<lparr>rb_mem := m\<rparr>)" "buf_bytes (b'\<lparr>rb_mem := m\<rparr>) = ?hdr @ drop (length ?hdr) (buf_bytes b')"
    by blast
  have "drop (length ?hdr) (buf_bytes b') = drop (length ?hdr + nat k) (buf_bytes ?b)" unfolding bb' by simp
  also have "length ?hdr + nat k = nat rmv" unfolding hl using off by (auto simp: k_def rmv_def nat_add_distrib nat_diff_distrib)
  also have "drop (nat rmv) (buf_bytes ?b) = (if sn then drop 6 p else p)"
    using off by (simp add: p' rmv_def nat_add_distrib add.commute)
  finally have tail: "drop (length ?hdr) (buf_bytes b') = (if sn then drop 6 p else p)" .
  have w: "sn \<or> word_of_int (rb_len ?b - rmv) = (word_of_nat (length p) :: u16)" using rl by (simp add: rmv_def)
  have eth: "buf_bytes (b'\<lparr>rb_mem := m\<rparr>) = eth_frame (at_dst ?a) (at_src ?a) p"
    unfolding m(3) tail using w by (auto simp: eth_frame_def sn_def)
  obtain m1 where m1: "mem_put (rb_mem b') (rb_data b') (take 6 (at_dst ?a)) = Some m1"
    using m(1) a by (auto simp: mem_put_def put_sub_def split: if_splits)
  have d0: "0 \<le> rb_data b'" using pl(2) by (simp add: buf_ok_def)
  have m2: "mem_put m1 (rb_data b' + 6) ys = mem_put (rb_mem b') (rb_data b') (at_dst ?a @ ys)" for ys
    using put_sub_append [of "rb_mem b'" "nat (rb_data b')" "at_dst ?a" m1 "nat (rb_data b' + 6)" ys] m1 d0 a(1)
    by (simp add: mem_put_def nat_add_distrib)
  obtain m3 where m3: "mem_put (rb_mem b') (rb_data b') (at_dst ?a @ at_src ?a) = Some m3"
    using m(1) a by (auto simp: mem_put_def put_sub_def split: if_splits)
  have m4: "(if sn then Some m3 else mem_put m3 (rb_data b' + 12) (be16 (word_of_int (rb_len ?b - rmv)))) = Some m"
  proof (cases sn)
    case True
    then show ?thesis using m(1) m3 by simp
  next
    case False
    have "mem_put m3 (rb_data b' + 12) ys = mem_put (rb_mem b') (rb_data b') (at_dst ?a @ at_src ?a @ ys)" for ys
      using put_sub_append [of "rb_mem b'" "nat (rb_data b')" "at_dst ?a @ at_src ?a" m3 "nat (rb_data b' + 12)" ys] m3 d0 a
      by (simp add: mem_put_def nat_add_distrib)
    then show ?thesis using m(1) False by simp
  qed
  let ?f = "f\<lparr>fr_attr := ?a\<lparr>at_eth_type := RTW_GET_BE16 et\<rparr>, fr_buf := b'\<lparr>rb_mem := m\<rparr>\<rparr>"
  have "wlanhdr_to_ethhdr False f = Some (RTW_SUCCESS, ?f)"
  proof (cases sn)
    case True
    then have e: "rmv = off + 6" "k = off - 6" "is_snap (take 6 p) (take 2 (drop 6 p))" by (simp_all add: rmv_def k_def sn_def)
    show ?thesis unfolding wlanhdr_to_ethhdr_def Let_def eth_input_def [symmetric] off_def [symmetric]
      using g1 g2 g3 [unfolded e] pl(1) [unfolded e] m1 m2 m3 m4 a True e(3)
      by (simp add: add.assoc del: of_int_diff)
  next
    case False
    then have e: "rmv = off" "k = off - 14" "\<not> is_snap (take 6 p) (take 2 (drop 6 p))" by (simp_all add: rmv_def k_def sn_def)
    show ?thesis unfolding wlanhdr_to_ethhdr_def Let_def eth_input_def [symmetric] off_def [symmetric]
      using g1 g2 g3 [unfolded e] pl(1) [unfolded e] m1 m2 m3 m4 [unfolded e] a False e(3)
      by (simp add: add.assoc del: of_int_diff)
  qed
  then show ?thesis using m(2) eth by (intro exI [of _ ?f]) simp
qed

end
