(* ===== verification/RxPost.thy ===== *)
theory RxPost
  imports RxValid Defrag EthHdr Wep Tkip
begin

text \<open>
  An accepted data frame up to the network layer, core/rtw_recv.c: \<open>decryptor\<close>, \<open>recv_func_posthandle\<close> with the
  reassembly of Defrag and the port control of RxValid, and \<open>recv_process_mpdu\<close> with the split of Amsdu and the Ethernet header
  of EthHdr. A frame that has a reordering queue leaves the model towards Reorder.
\<close>

section \<open>Decryption\<close>

text \<open>
  The keys with the tables the ciphers keep, \<open>busetkipkey\<close> and \<open>hw_decrypted\<close>.
\<close>

record rx_keys =
  rk_ad :: adapter
  rk_busetkipkey :: bool
  rk_hw_decrypted :: bool

definition WEP_KEYS :: u8 where "WEP_KEYS = 4"

text \<open>A frame as the ciphers see it: its memory from \<open>rx_data\<close> and its length.\<close>

definition cipher_frame :: "rx_frame \<Rightarrow> recv_frame" where
  "cipher_frame f = (let a = fr_attr f in
     \<lparr>rf_attrib = \<lparr>ra_encrypt = at_encrypt a, rx_pkt_attrib.ra_hdrlen = at_hdrlen a, ra_iv_len = at_iv_len a,
        ra_key_index = at_key_index a, ra_ta = at_ta a, ra_ra = at_ra a\<rparr>,
      rf_len = word_of_int (rb_len (fr_buf f)), rx_data = frame_mem f\<rparr>)"

definition put_frame_mem :: "rx_frame \<Rightarrow> bytes \<Rightarrow> rx_frame" where
  "put_frame_mem f m = f\<lparr>fr_buf := (fr_buf f)\<lparr>rb_mem := take (nat (rb_data (fr_buf f))) (rb_mem (fr_buf f)) @ m\<rparr>\<rparr>"

definition sw_decrypt :: "adapter \<Rightarrow> rx_frame \<Rightarrow> (rtw_res \<times> adapter \<times> rx_frame) option" where
  "sw_decrypt ad f =
     (let e = at_encrypt (fr_attr f); rf = cipher_frame f
      in do {
        (res, ad, rf) \<leftarrow>
          (if is_wep_enc e then do { (ad, rf) \<leftarrow> rtw_wep_decrypt ad rf; Some (RTW_SUCCESS, ad, rf) }
           else if e = ENC_TKIP then rtw_tkip_decrypt ad rf
           else if e = ENC_AES then rtw_aes_decrypt ad rf
           else Some (RTW_SUCCESS, ad, rf));
        Some (res, ad, put_frame_mem f (rx_data rf)) })"

definition decrypt_key_index :: "adapter \<Rightarrow> rx_frame \<Rightarrow> rx_attr option" where
  "decrypt_key_index ad f =
     (let a = fr_attr f
      in if at_encrypt a > 0 then do {
           iv3 \<leftarrow> rd (frame_mem f) (unat (at_hdrlen a) + 3);
           let a = a\<lparr>at_key_index := drop_bit 6 iv3 AND 0x3\<rparr>;
           Some (if at_key_index a > WEP_KEYS
                 then a\<lparr>at_key_index := ucast (if is_wep_enc (at_encrypt a) then dot11PrivacyKeyIndex (ad_sec ad)
                                             else dot118021XGrpKeyid (ad_sec ad))\<rparr>
                 else a) }
         else Some a)"

text \<open>The frame, unless it is freed, and the keys.\<close>

definition decryptor :: "rx_keys \<Rightarrow> rx_frame \<Rightarrow> (rx_frame option \<times> rx_keys) option" where
  "decryptor k f = do {
     a \<leftarrow> decrypt_key_index (rk_ad k) f;
     let f = set_attr f a;
     (res, k, f) \<leftarrow>
       (if at_encrypt a \<noteq> 0 \<and> \<not> at_bdecrypted a then do {
          type \<leftarrow> GetFrameType (frame_mem f);
          (res, ad, f) \<leftarrow> sw_decrypt (rk_ad k) f;
          Some (res, k\<lparr>rk_ad := ad, rk_hw_decrypted := (if type = 0x08 then False else rk_hw_decrypted k)\<rparr>, f) }
        else if at_bdecrypted a \<and> at_encrypt a > 0 \<and> (rk_busetkipkey k \<or> at_encrypt a \<noteq> ENC_TKIP)
        then Some (RTW_SUCCESS, k\<lparr>rk_hw_decrypted := True\<rparr>, f)
        else Some (RTW_SUCCESS, k, f));
     Some (if res = RTW_FAIL then None else Some (set_attr f ((fr_attr f)\<lparr>at_bdecrypted := True\<rparr>)), k) }"

section \<open>The way to the network layer\<close>

text \<open>\<open>run\<close> is the negation of \<open>RTW_CANNOT_RUN\<close>, \<open>mp\<close> the manufacturing test mode, \<open>alloc\<close> as for \<open>amsdu_to_msdu\<close>.\<close>

definition recv_process_mpdu :: "(nat \<Rightarrow> bytes option) \<Rightarrow> bool \<Rightarrow> bool \<Rightarrow> rx_frame \<Rightarrow> (rtw_res \<times> bytes list) option" where
  "recv_process_mpdu alloc mp run f =
     (if at_amsdu (fr_attr f) then do { pkts \<leftarrow> amsdu_to_msdu alloc f; Some (RTW_SUCCESS, pkts) }
      else do {
        (res, f) \<leftarrow> wlanhdr_to_ethhdr mp f;
        Some (if res = RTW_FAIL then (RTW_FAIL, [])
              else (RTW_SUCCESS, if run then [buf_bytes (fr_buf f)] else [])) })"

text \<open>
  The interface behind the validation: the keys, the table of the stations, the fragment queues and MIC keys of the stations
  and the state of the MIC check.
\<close>

record rx_post =
  rp_keys :: rx_keys
  rp_ctx :: rx_ctx
  rp_defrag :: "bytes \<Rightarrow> rx_frame list"
  rp_mickeys :: "bytes \<Rightarrow> bytes option"
  rp_mic :: mic_env

datatype post_out = Post_drop | Post_reorder nat rx_frame | Post_indicate "bytes list"

text \<open>The TID of the reordering queue that \<open>validate_recv_data_frame\<close> gave to a frame.\<close>

definition preorder_of :: "rx_attr \<Rightarrow> nat option" where
  "preorder_of a = (if \<not> IS_MCAST (at_ra a) \<and> at_qos a then Some (unat (at_priority a)) else None)"

text \<open>From the port control on.\<close>

definition post_defrag :: "(nat \<Rightarrow> bytes option) \<Rightarrow> bool \<Rightarrow> rx_ctx \<Rightarrow> rx_frame \<Rightarrow> post_out option" where
  "post_defrag alloc run c f = do {
     ok \<leftarrow> portctrl c f;
     if \<not> ok then Some Post_drop
     else case preorder_of (fr_attr f) of
       Some tid \<Rightarrow> Some (Post_reorder tid f)
     | None \<Rightarrow> do {
         (res, pkts) \<leftarrow> recv_process_mpdu alloc (check_fwstate (rc_fw_state c) WIFI_MP_STATE) run f;
         Some (if res = RTW_FAIL then Post_drop else Post_indicate pkts) } }"

definition recv_func_posthandle ::
  "mic_data \<Rightarrow> (nat \<Rightarrow> bytes option) \<Rightarrow> bool \<Rightarrow> rx_post \<Rightarrow> rx_frame \<Rightarrow> (post_out \<times> rx_post) option" where
  "recv_func_posthandle init alloc run st f = do {
     (r, k) \<leftarrow> decryptor (rp_keys st) f;
     let st = st\<lparr>rp_keys := k\<rparr>;
     case r of
       None \<Rightarrow> Some (Post_drop, st)
     | Some f \<Rightarrow> do {
         let ta = sta_key_addr (at_ta (fr_attr f));
         let q = (if get_sta (rp_ctx st) (at_ta (fr_attr f)) = None then None else Some (rp_defrag st ta));
         (r, q, freed, e) \<leftarrow> recvframe_chk_defrag init ((rp_mic st)\<lparr>me_stakey := rp_mickeys st ta\<rparr>) q f;
         let st = st\<lparr>rp_defrag := (case q of None \<Rightarrow> rp_defrag st | Some q \<Rightarrow> (rp_defrag st)(ta := q)), rp_mic := e\<rparr>;
         case r of
           None \<Rightarrow> Some (Post_drop, st)
         | Some f \<Rightarrow> do { out \<leftarrow> post_defrag alloc run (rp_ctx st) f; Some (out, st) } } }"

section \<open>Frames in the clear\<close>

definition plain_frame :: "rx_frame \<Rightarrow> bool" where
  "plain_frame f \<longleftrightarrow> at_encrypt (fr_attr f) = 0 \<and> \<not> at_privacy (fr_attr f) \<and> \<not> at_mfrag (fr_attr f) \<and> at_frag_num (fr_attr f) = 0"

definition decrypted :: "rx_frame \<Rightarrow> rx_frame" where
  "decrypted f = set_attr f ((fr_attr f)\<lparr>at_bdecrypted := True\<rparr>)"

lemma decrypted_simps [simp]:
  "fr_buf (decrypted f) = fr_buf f" "at_amsdu (fr_attr (decrypted f)) = at_amsdu (fr_attr f)"
  "off_payload (fr_attr (decrypted f)) = off_payload (fr_attr f)" "at_ta (fr_attr (decrypted f)) = at_ta (fr_attr f)"
  "preorder_of (fr_attr (decrypted f)) = preorder_of (fr_attr f)" "at_dst (fr_attr (decrypted f)) = at_dst (fr_attr f)"
  "at_src (fr_attr (decrypted f)) = at_src (fr_attr f)" "at_encrypt (fr_attr (decrypted f)) = at_encrypt (fr_attr f)"
  by (simp_all add: decrypted_def set_attr_def off_payload_def preorder_of_def)

lemma posthandle_plain:
  assumes "plain_frame f" "post_defrag alloc run (rp_ctx st) (decrypted f) = Some out"
  shows "\<exists>st'. recv_func_posthandle init alloc run st f = Some (out, st')"
proof -
  have d: "decryptor (rp_keys st) f = Some (Some (decrypted f), rp_keys st)"
    using assms(1) by (simp add: decryptor_def decrypt_key_index_def plain_frame_def decrypted_def set_attr_def)
  have w: "\<not> at_mfrag (fr_attr (decrypted f))" "at_frag_num (fr_attr (decrypted f)) = 0" "\<not> at_privacy (fr_attr (decrypted f))"
    using assms(1) by (simp_all add: plain_frame_def decrypted_def set_attr_def)
  show ?thesis using assms(2) by (simp add: recv_func_posthandle_def d chk_defrag_whole [OF w] Let_def)
qed

text \<open>The port control looks at the two bytes behind a SNAP header.\<close>

lemma portctrl_blocked:
  assumes "rc_auth_alg c = dot11AuthAlgrthm_8021X" "get_sta c (at_ta (fr_attr f)) = Some psta" "rs_blocked psta"
    and b: "buf_ok (fr_buf f)" and p: "p = drop (nat (off_payload (fr_attr f))) (buf_bytes (fr_buf f))" "8 \<le> length p"
  shows "portctrl c f = Some (RTW_GET_BE16 (take 2 (drop 6 p)) = 0x888e)"
proof -
  have o': "0 \<le> off_payload (fr_attr f)" by (simp add: off_payload_def)
  then have n: "nat (off_payload (fr_attr f) + 6) = nat (off_payload (fr_attr f)) + 6" by simp
  have "nat (off_payload (fr_attr f)) + length p = length (buf_bytes (fr_buf f))" using p by simp
  then have "mem_get (rb_mem (fr_buf f)) (rb_data (fr_buf f) + (off_payload (fr_attr f) + 6)) (int 2) =
      Some (take 2 (drop (nat (off_payload (fr_attr f) + 6)) (buf_bytes (fr_buf f))))"
    using p(2) o' n by (intro mem_get_inside [OF b]) linarith+
  moreover have "drop (nat (off_payload (fr_attr f) + 6)) (buf_bytes (fr_buf f)) = drop 6 p"
    unfolding n p(1) by (simp add: add.commute)
  ultimately show ?thesis using assms(1-3) by (simp add: portctrl_def LLC_HEADER_SIZE_def add.assoc)
qed

text \<open>C11: While the port of a station is blocked, of its frames in the clear that are no A-MSDU exactly
  those with 88-8E in the two bytes behind the place of a SNAP header go on, as the Ethernet frame of their payload; with a SNAP header this
  is an EAPOL frame.\<close>
theorem blocked_port:
  assumes f: "plain_frame f" "\<not> at_amsdu (fr_attr f)" "buf_ok (fr_buf f)" "14 \<le> off_payload (fr_attr f)"
    "length (at_dst (fr_attr f)) = 6" "length (at_src (fr_attr f)) = 6"
    and p: "p = drop (nat (off_payload (fr_attr f))) (buf_bytes (fr_buf f))" "8 \<le> length p"
    and c: "rc_auth_alg (rp_ctx st) = dot11AuthAlgrthm_8021X" "get_sta (rp_ctx st) (at_ta (fr_attr f)) = Some psta" "rs_blocked psta"
      "\<not> check_fwstate (rc_fw_state (rp_ctx st)) WIFI_MP_STATE"
  shows "\<exists>st'. recv_func_posthandle init alloc True st f =
    Some (if RTW_GET_BE16 (take 2 (drop 6 p)) = 0x888e
          then case preorder_of (fr_attr f) of
                 Some tid \<Rightarrow> Post_reorder tid (decrypted f)
               | None \<Rightarrow> Post_indicate [eth_frame (at_dst (fr_attr f)) (at_src (fr_attr f)) p]
          else Post_drop, st')"
proof -
  have e: "eth_input (decrypted f) = fr_buf f" using f(1) by (simp add: eth_input_def plain_frame_def)
  obtain f' where f': "wlanhdr_to_ethhdr False (decrypted f) = Some (RTW_SUCCESS, f')"
    "buf_bytes (fr_buf f') = eth_frame (at_dst (fr_attr f)) (at_src (fr_attr f)) p"
    using wlanhdr_to_ethhdr_eth [of "decrypted f" p] f(3-6) p unfolding e by auto
  have m: "recv_process_mpdu alloc False True (decrypted f) = Some (RTW_SUCCESS, [eth_frame (at_dst (fr_attr f)) (at_src (fr_attr f)) p])"
    using f(2) f' by (simp add: recv_process_mpdu_def)
  have pc: "portctrl (rp_ctx st) (decrypted f) = Some (RTW_GET_BE16 (take 2 (drop 6 p)) = 0x888e)"
    using portctrl_blocked [of "rp_ctx st" "decrypted f" psta p] c(1-3) f(3) p by simp
  show ?thesis
    by (rule posthandle_plain [OF f(1)]) (simp add: post_defrag_def pc m c(4) split: option.split)
qed

text \<open>The port control reads the source address of the first subframe of an A-MSDU: when it starts
  with 88-8E, all subframes in the clear of a station whose port is blocked reach the network layer.\<close>
theorem blocked_port_amsdu:
  assumes f: "plain_frame f" "at_amsdu (fr_attr f)" "buf_ok (fr_buf f)"
    and p: "drop (nat (off_payload (fr_attr f))) (buf_bytes (fr_buf f)) = enc_amsdu ((da, 0x88 # 0x8e # sa, q) # ms)"
      "\<forall>m \<in> set ((da, 0x88 # 0x8e # sa, q) # ms). msdu_ok m" "alloc_room alloc ((da, 0x88 # 0x8e # sa, q) # ms)"
    and c: "rc_auth_alg (rp_ctx st) = dot11AuthAlgrthm_8021X" "get_sta (rp_ctx st) (at_ta (fr_attr f)) = Some psta" "rs_blocked psta"
  shows "\<exists>st'. recv_func_posthandle init alloc run st f =
      Some (case preorder_of (fr_attr f) of
              Some tid \<Rightarrow> Post_reorder tid (decrypted f)
            | None \<Rightarrow> Post_indicate (take 64 (map msdu_pkt ((da, 0x88 # 0x8e # sa, q) # ms))), st') \<and>
    recv_process_mpdu alloc mp run (decrypted f) = Some (RTW_SUCCESS, take 64 (map msdu_pkt ((da, 0x88 # 0x8e # sa, q) # ms)))"
proof -
  let ?ms = "(da, 0x88 # 0x8e # sa, q) # ms" and ?p = "drop (nat (off_payload (fr_attr f))) (buf_bytes (fr_buf f))"
  have da: "length da = 6" using p(2) by simp
  have hd: "\<exists>rest. enc_amsdu ?ms = da @ 0x88 # 0x8e # rest" by (cases "ms = []") (simp_all add: enc_amsdu_Cons)
  have len: "15 \<le> length (enc_amsdu ?ms)"
    using enc_msdu_length [of "(da, 0x88 # 0x8e # sa, q)"] p(2) enc_amsdu_Cons [of ms] by (cases "ms = []") simp_all
  then have l8: "8 \<le> length ?p" unfolding p(1) by simp
  have "take 2 (drop 6 (enc_amsdu ?ms)) = [0x88, 0x8e]" using hd da by auto
  then have "RTW_GET_BE16 (take 2 (drop 6 ?p)) = 0x888e" unfolding p(1) by (simp add: RTW_GET_BE16_def)
  then have pc: "portctrl (rp_ctx st) (decrypted f) = Some True"
    using portctrl_blocked [of "rp_ctx st" "decrypted f" psta ?p] c f(3) l8 by simp
  have "nat (off_payload (fr_attr f)) \<le> length (buf_bytes (fr_buf f))" using l8 by simp
  then have o': "off_payload (fr_attr f) \<le> rb_len (fr_buf f)"
    using f(3) by (simp add: nat_le_iff buf_ok_def)
  have "amsdu_to_msdu alloc (decrypted f) = Some (take MAX_SUBFRAME_COUNT (map msdu_pkt ?ms))"
    using amsdu_frames [of "decrypted f" alloc ?ms] f(3) o' p by simp
  then have m: "recv_process_mpdu alloc mp run (decrypted f) = Some (RTW_SUCCESS, take 64 (map msdu_pkt ?ms))" for mp
    using f(2) unfolding recv_process_mpdu_def by (simp add: MAX_SUBFRAME_COUNT_def)
  show ?thesis unfolding ex_simps
    by (intro conjI m, rule posthandle_plain [OF f(1)]) (simp add: post_defrag_def pc m split: option.split)
qed

definition demo_post :: "rx_keys \<Rightarrow> mic_env \<Rightarrow> rx_post" where
  "demo_post k e = \<lparr>rp_keys = k, rp_ctx = demo_ctx True, rp_defrag = (\<lambda>a. []), rp_mickeys = (\<lambda>a. None), rp_mic = e\<rparr>"

text \<open>A frame in the clear of the access point, accepted, with the given payload.\<close>

definition demo_plain :: "bool \<Rightarrow> bytes \<Rightarrow> rx_frame" where
  "demo_plain amsdu payload =
     \<lparr>fr_attr = demo_attr\<lparr>at_amsdu := amsdu, at_qos := False, at_ta := [2, 0, 0, 0, 0, 9], at_ra := [2, 0, 0, 0, 0, 1]\<rparr>,
      fr_buf = demo_buf (replicate 26 0 @ payload)\<rparr>"

lemma demo_plain_facts:
  "plain_frame (demo_plain b p)" "at_amsdu (fr_attr (demo_plain b p)) = b" "buf_ok (fr_buf (demo_plain b p))"
  "off_payload (fr_attr (demo_plain b p)) = 26" "length (at_dst (fr_attr (demo_plain b p))) = 6"
  "length (at_src (fr_attr (demo_plain b p))) = 6" "drop 26 (buf_bytes (fr_buf (demo_plain b p))) = p"
  "preorder_of (fr_attr (demo_plain b p)) = None" "at_ta (fr_attr (demo_plain b p)) = [2, 0, 0, 0, 0, 9]"
  by (simp_all add: demo_plain_def demo_attr_def plain_frame_def demo_buf_facts off_payload_def preorder_of_def)

lemma demo_post_facts:
  "rc_auth_alg (rp_ctx (demo_post k e)) = dot11AuthAlgrthm_8021X"
  "get_sta (rp_ctx (demo_post k e)) [2, 0, 0, 0, 0, 9] = Some \<lparr>rs_blocked = True, rs_privacy = ENC_AES, rs_recv = demo_recv_priv\<rparr>"
  "\<not> check_fwstate (rc_fw_state (rp_ctx (demo_post k e))) WIFI_MP_STATE"
  by (simp_all add: demo_post_def demo_ctx_def get_sta_def sta_key_addr_def IS_MCAST_def check_fwstate_def fw_state_defs)

lemma blocked_port_witness:
  "\<forall>init alloc k e.
    (\<exists>st'. recv_func_posthandle init alloc True (demo_post k e) (demo_plain False [0xaa, 0xaa, 3, 0, 0, 0, 8, 0, 5]) = Some (Post_drop, st')) \<and>
    (\<exists>st'. recv_func_posthandle init alloc True (demo_post k e) (demo_plain False [0xaa, 0xaa, 3, 0, 0, 0, 0x88, 0x8e, 5]) =
       Some (Post_indicate [replicate 6 1 @ replicate 6 2 @ [0x88, 0x8e, 5]], st'))"
proof (intro allI conjI)
  fix init alloc k e
  have snap: "eth_frame (at_dst (fr_attr (demo_plain False q))) (at_src (fr_attr (demo_plain False q))) [0xaa, 0xaa, 3, 0, 0, 0, 0x88, 0x8e, 5] =
      replicate 6 1 @ replicate 6 2 @ [0x88, 0x8e, 5]" for q
    by (simp add: demo_plain_def demo_attr_def eth_frame_def is_snap_def snap_defs)
  note b = blocked_port [OF demo_plain_facts(1) _ demo_plain_facts(3) _ demo_plain_facts(5,6) _ _
      demo_post_facts(1) _ _ demo_post_facts(3)]
  show "\<exists>st'. recv_func_posthandle init alloc True (demo_post k e) (demo_plain False [0xaa, 0xaa, 3, 0, 0, 0, 8, 0, 5]) = Some (Post_drop, st')"
    using b [of False "[0xaa, 0xaa, 3, 0, 0, 0, 8, 0, 5]" "[0xaa, 0xaa, 3, 0, 0, 0, 8, 0, 5]" k e _ init alloc]
    by (simp add: demo_plain_facts demo_post_facts RTW_GET_BE16_def)
  show "\<exists>st'. recv_func_posthandle init alloc True (demo_post k e) (demo_plain False [0xaa, 0xaa, 3, 0, 0, 0, 0x88, 0x8e, 5]) =
       Some (Post_indicate [replicate 6 1 @ replicate 6 2 @ [0x88, 0x8e, 5]], st')"
    using b [of False "[0xaa, 0xaa, 3, 0, 0, 0, 0x88, 0x8e, 5]" "[0xaa, 0xaa, 3, 0, 0, 0, 0x88, 0x8e, 5]" k e _ init alloc]
    unfolding snap by (simp add: demo_plain_facts demo_post_facts RTW_GET_BE16_def)
qed

lemma blocked_port_amsdu_witness:
  "\<forall>init k e. \<exists>st'. recv_func_posthandle init (\<lambda>_. Some (replicate 8 0)) True (demo_post k e)
      (demo_plain True (enc_amsdu [(replicate 6 1, [0x88, 0x8e, 0, 0, 0, 1], [1]), (replicate 6 1, replicate 6 4, [1, 2, 3])])) =
    Some (Post_indicate [replicate 6 1 @ [0x88, 0x8e, 0, 0, 0, 1] @ [0, 1, 1], replicate 6 1 @ replicate 6 4 @ [0, 3, 1, 2, 3]], st')"
proof (intro allI)
  fix init k e
  let ?ms = "[(replicate 6 1, 0x88 # 0x8e # [0, 0, 0, 1], [1]), (replicate 6 1, replicate 6 4, [1, 2, 3])]"
  have ok: "\<forall>m \<in> set ?ms. msdu_ok m" by simp
  have v: "take 64 (map msdu_pkt ?ms) = [replicate 6 1 @ [0x88, 0x8e, 0, 0, 0, 1] @ [0, 1, 1], replicate 6 1 @ replicate 6 4 @ [0, 3, 1, 2, 3]]"
    by (simp add: msdu_frame_def is_snap_def snap_defs be16_def)
  show "\<exists>st'. recv_func_posthandle init (\<lambda>_. Some (replicate 8 0)) True (demo_post k e) (demo_plain True (enc_amsdu ?ms)) =
    Some (Post_indicate [replicate 6 1 @ [0x88, 0x8e, 0, 0, 0, 1] @ [0, 1, 1], replicate 6 1 @ replicate 6 4 @ [0, 3, 1, 2, 3]], st')"
    using blocked_port_amsdu [OF demo_plain_facts(1) _ demo_plain_facts(3) _ ok, of True "enc_amsdu ?ms" "\<lambda>_. Some (replicate 8 0)" "demo_post k e" _ init True]
    unfolding v by (simp add: demo_plain_facts demo_post_facts alloc_room_def split_beta)
qed

end
