(* ===== verification/MgmtProt.thy ===== *)
theory MgmtProt
  imports RxPost Bip
begin

text \<open>
  Protection of management frames (802.11w): \<open>validate_mgmt_protect\<close> of core/rtw_recv.c, which decides before the dispatcher
  whether a received management frame may be processed.
\<close>

section \<open>The code\<close>

definition WIFI_DISASSOC :: u32 where "WIFI_DISASSOC = 0xa0"
definition WIFI_DEAUTH :: u32 where "WIFI_DEAUTH = 0xc0"
definition WIFI_ACTION :: u32 where "WIFI_ACTION = 0xd0"

definition CATEGORY_IS_GROUP_PRIVACY :: "u8 \<Rightarrow> bool" where
  "CATEGORY_IS_GROUP_PRIVACY cat \<longleftrightarrow> cat \<in> {13, 14}"   \<comment> \<open>mesh, multihop\<close>

definition CATEGORY_IS_ROBUST :: "u8 \<Rightarrow> bool" where
  "CATEGORY_IS_ROBUST cat \<longleftrightarrow> cat \<notin> {4, 7, 11, 15, 21, 0x7f}"   \<comment> \<open>public, HT, unprotected WNM, self-protected, VHT, P2P\<close>

text \<open>The group key of management frames with the packet number of the last one.\<close>

record bip_sec =
  bs_installed :: bool   \<comment> \<open>\<open>binstallBIPkey\<close>\<close>
  bs_keys :: "bytes list"
  bs_keyid :: u32
  bs_rxpn :: u64

text \<open>What is looked at of the sender: the flag \<open>WLAN_STA_MFP\<close>, \<open>bpairwise_key_installed\<close>, the address.\<close>

record mgmt_sta =
  mt_mfp :: bool
  mt_pairwise :: bool
  mt_mac :: bytes

text \<open>The verdict, the frame, its \<open>pkt_len\<close>, the group key, the keys of decryption and the station to be queried.\<close>

record mgmt_res =
  mr_ret :: rtw_res
  mr_frame :: rx_frame
  mr_pkt_len :: u16
  mr_bip :: bip_sec
  mr_keys :: rx_keys
  mr_sa_query :: "bytes option"

text \<open>
  \<open>mem\<close> and \<open>beyond\<close> are the allocation and the memory behind the argument arrays in \<open>rtw_BIP_verify\<close>; \<open>alloc\<close>
  answers \<open>rtw_zmalloc\<close>.
\<close>

definition bip_check :: "bool \<Rightarrow> bytes list \<Rightarrow> bip_sec \<Rightarrow> rx_frame \<Rightarrow> (rtw_res \<times> bip_sec) option" where
  "bip_check mem beyond sec f = do {
     igtk \<leftarrow> rd (bs_keys sec) (unat (bs_keyid sec));
     (ret, ipn) \<leftarrow> rtw_BIP_verify mem beyond (frame_mem f) (rb_len (fr_buf f)) igtk (ucast (bs_keyid sec)) (bs_rxpn sec);
     Some (if ret = BIP_SUCCESS then RTW_SUCCESS else RTW_FAIL, sec\<lparr>bs_rxpn := ipn\<rparr>) }"

definition mgmt_unprotected ::
  "bool \<Rightarrow> bytes list \<Rightarrow> bip_sec \<Rightarrow> mgmt_sta option \<Rightarrow> rx_frame \<Rightarrow> (rtw_res \<times> bip_sec \<times> bytes option) option" where
  "mgmt_unprotected mem beyond sec psta f =
     (case psta of
        None \<Rightarrow> Some (RTW_SUCCESS, sec, None)
      | Some s \<Rightarrow>
          if \<not> mt_mfp s then Some (RTW_SUCCESS, sec, None)
          else do {
            h \<leftarrow> get_sub (frame_mem f) 0 10;
            subtype \<leftarrow> get_frame_sub_type h;
            category \<leftarrow> (if subtype = WIFI_ACTION then rd (frame_mem f) 24 else Some 0xFF);
            if IS_MCAST (GetAddr1Ptr h) then
              if subtype = WIFI_ACTION \<and> CATEGORY_IS_GROUP_PRIVACY category then Some (RTW_FAIL, sec, None)
              else if subtype = WIFI_ACTION \<and> CATEGORY_IS_ROBUST category \<or> subtype = WIFI_DEAUTH \<or> subtype = WIFI_DISASSOC
              then do { (ret, sec) \<leftarrow> bip_check mem beyond sec f; Some (ret, sec, None) }
              else Some (RTW_SUCCESS, sec, None)
            else if subtype = WIFI_DEAUTH \<or> subtype = WIFI_DISASSOC then do {
              rs \<leftarrow> get_sub (frame_mem f) 24 2;
              let reason = hdr16 rs 0;
              Some (RTW_FAIL, sec, if reason = 6 \<or> reason = 7 then Some (mt_mac s) else None) }
            else if subtype = WIFI_ACTION \<and> CATEGORY_IS_ROBUST category \<and> mt_pairwise s then Some (RTW_FAIL, sec, None)
            else Some (RTW_SUCCESS, sec, None) })"

text \<open>A protected frame is decrypted in place: the body moves over the IV, and \<open>pkt_len\<close>, not the length of the frame, shrinks.\<close>

definition mgmt_decrypt ::
  "(u32 \<Rightarrow> bool) \<Rightarrow> rx_keys \<Rightarrow> u16 \<Rightarrow> rx_frame \<Rightarrow> (rtw_res \<times> rx_frame \<times> u16 \<times> rx_keys) option" where
  "mgmt_decrypt alloc k pkt_len f = do {
     h \<leftarrow> get_sub (frame_mem f) 0 16;
     let a = (fr_attr f)\<lparr>at_bdecrypted := False, at_encrypt := ENC_AES, at_hdrlen := 24,
               at_iv_len := fst (SET_ICE_IV_LEN ENC_AES), at_icv_len := snd (SET_ICE_IV_LEN ENC_AES),
               at_ra := GetAddr1Ptr h, at_ta := get_addr2_ptr h\<rparr>;
     let f = set_attr f a;
     let data_len = (ucast pkt_len - ucast (at_hdrlen a) - ucast (at_iv_len a) - ucast (at_icv_len a) :: u32);
     if \<not> alloc data_len then Some (RTW_FAIL, f, pkt_len, k)
     else do {
       (r, k) \<leftarrow> decryptor k f;
       let g = (case r of None \<Rightarrow> f | Some g \<Rightarrow> g);
       body \<leftarrow> get_sub (frame_mem g) 32 (unat data_len);
       m \<leftarrow> put_sub (frame_mem g) 24 body;
       Some (if r = None then RTW_FAIL else RTW_SUCCESS, put_frame_mem g m, pkt_len - 16, k) } }"

definition validate_mgmt_protect ::
  "bool \<Rightarrow> bytes list \<Rightarrow> (u32 \<Rightarrow> bool) \<Rightarrow> bip_sec \<Rightarrow> mgmt_sta option \<Rightarrow> rx_keys \<Rightarrow> u16 \<Rightarrow> rx_frame \<Rightarrow> mgmt_res option" where
  "validate_mgmt_protect mem beyond alloc sec psta k pkt_len f =
     (let out = (\<lambda>ret f n sec k q. Some \<lparr>mr_ret = ret, mr_frame = f, mr_pkt_len = n, mr_bip = sec, mr_keys = k, mr_sa_query = q\<rparr>)
      in if \<not> bs_installed sec then out RTW_SUCCESS f pkt_len sec k None
         else if \<not> at_privacy (fr_attr f) then do {
           (ret, sec, q) \<leftarrow> mgmt_unprotected mem beyond sec psta f;
           out ret f pkt_len sec k q }
         else do {
           (ret, f, n, k) \<leftarrow> mgmt_decrypt alloc k pkt_len f;
           out ret f n sec k None })"

section \<open>Forged frames\<close>

lemma rd_append: "i < length f \<Longrightarrow> rd (f @ rest) i = rd f i"
  by (simp add: rd_def nth_append)

lemma frame_mem_split:
  assumes "buf_ok (fr_buf f)"
  shows "frame_mem f = buf_bytes (fr_buf f) @ drop (length (buf_bytes (fr_buf f))) (frame_mem f)"
proof -
  have "buf_bytes (fr_buf f) = take (length (buf_bytes (fr_buf f))) (frame_mem f)"
    unfolding buf_bytes_length [OF assms] by (simp add: buf_bytes_def frame_mem_def)
  then show ?thesis by (metis append_take_drop_id)
qed

text \<open>The check reads nothing behind the frame.\<close>

lemma bip_verify_append:
  assumes "18 \<le> length f"
  shows "rtw_BIP_verify mem beyond (f @ rest) (int (length f)) key keyid ipn = rtw_BIP_verify mem beyond f (int (length f)) key keyid ipn"
proof -
  let ?m = "length f - 18"
  have m: "nat (int (length f) - 18) = ?m" "nat (int (length f) - 8) = length f - 8" using assms by simp_all
  have g: "get_sub (f @ rest) a n = get_sub f a n" if "a + n \<le> length f" for a n
    using that by (simp add: get_sub_def)
  have aad: "bip_aad (f @ rest) (length f) = bip_aad f (length f)" if "24 \<le> length f"
    using that by (simp add: bip_aad_def g)
  have k: "get_sub (f @ rest) (?m + 2) 2 = get_sub f (?m + 2) 2" "get_sub (f @ rest) (?m + 4) 6 = get_sub f (?m + 4) 6"
    "get_sub (f @ rest) (length f - 8) 8 = get_sub f (length f - 8) 8" "rd (f @ rest) ?m = rd f ?m"
    using assms by (simp_all add: g rd_append)
  show ?thesis
  proof (cases "length f < 24")
    case True
    then have lt: "int (length f) < 24" by simp
    show ?thesis unfolding rtw_BIP_verify_def Let_def m k nat_int if_P [OF lt] ..
  next
    case False
    then have "24 \<le> length f" by simp
    show ?thesis unfolding rtw_BIP_verify_def Let_def m k nat_int aad [OF \<open>24 \<le> length f\<close>] ..
  qed
qed

definition protected_kind :: "u32 \<Rightarrow> u8 \<Rightarrow> mgmt_sta \<Rightarrow> bool" where
  "protected_kind subtype cat s \<longleftrightarrow> subtype = WIFI_DEAUTH \<or> subtype = WIFI_DISASSOC \<or>
     subtype = WIFI_ACTION \<and> CATEGORY_IS_ROBUST cat \<and> mt_pairwise s"

text \<open>The frame \<open>f\<close> carries a fresh and valid MIC of the group key.\<close>

definition bip_good :: "bip_sec \<Rightarrow> bytes \<Rightarrow> bytes \<Rightarrow> bool" where
  "bip_good sec igtk f \<longleftrightarrow> hd (bip_mme f) = MME_IE \<and> mme_keyid f = ucast (bs_keyid sec) \<and> bs_rxpn sec < mme_ipn f \<and>
     mme_mic f = take 8 (cmac (aes128k128d igtk) (bip_message f))"

lemma bip_check_good:
  assumes "rd (bs_keys sec) (unat (bs_keyid sec)) = Some igtk" "length igtk = 16" "beyond \<noteq> []"
    and f: "buf_ok (fr_buf f)" "fb = buf_bytes (fr_buf f)" "42 \<le> length fb"
  shows "bip_check True beyond sec f =
    Some (if bip_good sec igtk fb then (RTW_SUCCESS, sec\<lparr>bs_rxpn := mme_ipn fb\<rparr>) else (RTW_FAIL, sec))"
proof -
  have n: "length fb = nat (rb_len (fr_buf f))" "0 \<le> rb_len (fr_buf f)" using f by (auto simp: buf_ok_def)
  have fm: "frame_mem f = fb @ drop (length fb) (frame_mem f)" unfolding f(2) by (rule frame_mem_split [OF f(1)])
  have l: "rb_len (fr_buf f) = int (length fb)" using n by simp
  obtain res ipn' where r: "rtw_BIP_verify True beyond fb (int (length fb)) igtk (ucast (bs_keyid sec)) (bs_rxpn sec) = Some (res, ipn')"
    "res = BIP_SUCCESS \<longleftrightarrow> hd (bip_mme fb) = MME_IE \<and> mme_keyid fb = ucast (bs_keyid sec) \<and> bs_rxpn sec < mme_ipn fb
         \<and> mme_mic fb = take 8 (cmac (aes128k128d igtk) (bip_message fb))"
    "ipn' = (if res = BIP_SUCCESS then mme_ipn fb else bs_rxpn sec)"
    using bip_verify_iff [OF f(3) assms(2,3), of "ucast (bs_keyid sec)" "bs_rxpn sec"] by blast
  have "18 \<le> length fb" using f(3) by simp
  then have "rtw_BIP_verify True beyond (frame_mem f) (rb_len (fr_buf f)) igtk (ucast (bs_keyid sec)) (bs_rxpn sec) = Some (res, ipn')"
    using bip_verify_append [of fb True beyond "drop (length fb) (frame_mem f)"] r(1) unfolding l by (metis fm)
  then show ?thesis using assms(1) r(2,3) by (auto simp: bip_check_def bip_good_def)
qed

text \<open>C13: With a group key of management frames installed and a sender that protects them, of the
  unprotected deauthentication, disassociation and robust action frames exactly the group-addressed ones (not of the group privacy
  categories) with a fresh packet number and the MIC of the group key are accepted, and none of them twice.\<close>
theorem mgmt_forged_refused:
  assumes sec: "bs_installed sec" "rd (bs_keys sec) (unat (bs_keyid sec)) = Some igtk" "length igtk = 16" "beyond \<noteq> []"
    and s: "mt_mfp s" and f: "buf_ok (fr_buf f)" "fb = buf_bytes (fr_buf f)" "42 \<le> length fb" "\<not> at_privacy (fr_attr f)"
    and kind: "get_frame_sub_type fb = Some subtype" "cat = (if subtype = WIFI_ACTION then fb ! 24 else 0xFF)" "protected_kind subtype cat s"
  shows "\<exists>r. validate_mgmt_protect True beyond alloc sec (Some s) k n f = Some r \<and>
    (mr_ret r = RTW_SUCCESS \<longleftrightarrow> IS_MCAST (GetAddr1Ptr fb) \<and> \<not> (subtype = WIFI_ACTION \<and> CATEGORY_IS_GROUP_PRIVACY cat) \<and>
       bip_good sec igtk fb) \<and>
    (mr_ret r = RTW_SUCCESS \<longrightarrow>
       (\<exists>r'. validate_mgmt_protect True beyond alloc (mr_bip r) (Some s) k n f = Some r' \<and> mr_ret r' = RTW_FAIL))"
proof -
  have n: "length fb = nat (rb_len (fr_buf f))" "0 \<le> rb_len (fr_buf f)" using f by (auto simp: buf_ok_def)
  have fm: "frame_mem f = fb @ drop (length fb) (frame_mem f)" unfolding f(2) by (rule frame_mem_split [OF f(1)])
  have h: "get_sub (frame_mem f) 0 10 = Some (take 10 fb)"
    using f(3) by (subst fm) (simp add: get_sub_def)
  have "rd (take 10 fb) 0 = rd fb 0" "rd (take 10 fb) 1 = rd fb 1" using f(3) by (auto simp: rd_def)
  then have st: "get_frame_sub_type (take 10 fb) = Some subtype"
    using kind(1) by (simp add: get_frame_sub_type_def frame_ctl_def)
  have a1: "GetAddr1Ptr (take 10 fb) = GetAddr1Ptr fb" using f(3) by (simp add: GetAddr1Ptr_def drop_take)
  have c: "(if subtype = WIFI_ACTION then rd (frame_mem f) 24 else Some 0xFF) = Some cat"
    using kind(2) f(3) by (subst fm) (simp add: rd_def nth_append)
  have rs: "get_sub (frame_mem f) 24 2 = Some (take 2 (drop 24 fb))"
    using f(3) by (subst fm) (simp add: get_sub_def)
  have ne: "WIFI_DEAUTH \<noteq> WIFI_ACTION" "WIFI_DISASSOC \<noteq> WIFI_ACTION" by (simp_all add: WIFI_DEAUTH_def WIFI_DISASSOC_def WIFI_ACTION_def)
  let ?ok = "IS_MCAST (GetAddr1Ptr fb) \<and> \<not> (subtype = WIFI_ACTION \<and> CATEGORY_IS_GROUP_PRIVACY cat)"
  have v: "\<exists>q. mgmt_unprotected True beyond x (Some s) f =
      Some (if ?ok \<and> bip_good x igtk fb then RTW_SUCCESS else RTW_FAIL,
        if ?ok \<and> bip_good x igtk fb then x\<lparr>bs_rxpn := mme_ipn fb\<rparr> else x, q)"
    if x: "rd (bs_keys x) (unat (bs_keyid x)) = Some igtk" for x
    using s h st a1 c rs kind(3) ne bip_check_good [OF x sec(3,4) f(1-3)]
    by (auto simp: mgmt_unprotected_def protected_kind_def Let_def)
  obtain q where q: "mgmt_unprotected True beyond sec (Some s) f =
      Some (if ?ok \<and> bip_good sec igtk fb then RTW_SUCCESS else RTW_FAIL,
        if ?ok \<and> bip_good sec igtk fb then sec\<lparr>bs_rxpn := mme_ipn fb\<rparr> else sec, q)"
    using v [OF sec(2)] by blast
  let ?sec = "sec\<lparr>bs_rxpn := mme_ipn fb\<rparr>"
  have "rd (bs_keys ?sec) (unat (bs_keyid ?sec)) = Some igtk" "\<not> bip_good ?sec igtk fb" using sec(2) by (simp_all add: bip_good_def)
  then obtain q' where "mgmt_unprotected True beyond ?sec (Some s) f = Some (RTW_FAIL, ?sec, q')" using v [of ?sec] by auto
  then show ?thesis using q sec(1) f(4) by (simp add: validate_mgmt_protect_def)
qed

definition demo_mgmt :: "u8 \<Rightarrow> u8 \<Rightarrow> bytes \<Rightarrow> rx_frame" where
  "demo_mgmt fc0 a1 body =
     \<lparr>fr_attr = demo_attr, fr_buf = demo_buf ([fc0, 0, 0, 0] @ replicate 6 a1 @ replicate 14 2 @ body)\<rparr>"

definition demo_bip :: bip_sec where
  "demo_bip = \<lparr>bs_installed = True, bs_keys = replicate 6 (replicate 16 5), bs_keyid = 4, bs_rxpn = 8\<rparr>"

definition demo_peer :: mgmt_sta where
  "demo_peer = \<lparr>mt_mfp = True, mt_pairwise = True, mt_mac = replicate 6 2\<rparr>"

text \<open>A deauthentication addressed to the station alone.\<close>

lemma mgmt_forged_refused_witness:
  "\<forall>alloc k. \<exists>r. validate_mgmt_protect True [[]] alloc demo_bip (Some demo_peer) k 42 (demo_mgmt 0xc0 4 (replicate 18 3)) = Some r \<and>
     mr_ret r \<noteq> RTW_SUCCESS"
proof (intro allI)
  fix alloc k
  let ?fb = "[0xc0, 0, 0, 0] @ replicate 6 4 @ replicate 14 2 @ replicate 18 (3 :: u8)"
  let ?f = "demo_mgmt 0xc0 4 (replicate 18 3)"
  have b: "buf_ok (fr_buf ?f)" "buf_bytes (fr_buf ?f) = ?fb" by (simp_all add: demo_mgmt_def demo_buf_facts)
  have st: "get_frame_sub_type ?fb = Some WIFI_DEAUTH" by code_simp
  have m: "\<not> IS_MCAST (GetAddr1Ptr ?fb)" by code_simp
  have kn: "protected_kind WIFI_DEAUTH 0xFF demo_peer" by (simp add: protected_kind_def)
  have s: "bs_installed demo_bip" "rd (bs_keys demo_bip) (unat (bs_keyid demo_bip)) = Some (replicate 16 5)" "mt_mfp demo_peer"
    by (simp_all add: demo_bip_def demo_peer_def rd_def)
  show "\<exists>r. validate_mgmt_protect True [[]] alloc demo_bip (Some demo_peer) k 42 ?f = Some r \<and> mr_ret r \<noteq> RTW_SUCCESS"
    using mgmt_forged_refused [where sec = demo_bip and igtk = "replicate 16 5" and beyond = "[[]]" and s = demo_peer
      and f = ?f and fb = ?fb and subtype = WIFI_DEAUTH and cat = "0xFF" and alloc = alloc and k = k and n = 42] s b st kn m
    by (simp add: WIFI_DEAUTH_def WIFI_ACTION_def demo_mgmt_def demo_attr_def) blast
qed

end
