(* ===== verification/TxAttr.thy ===== *)
theory TxAttr
  imports RxValid
begin

text \<open>
  What is decided for a packet before it becomes a frame (core/rtw_xmit.c): \<open>update_attrib\<close> with the
  addresses, the station, the priority and the class of the packet, \<open>update_attrib_sec_info\<close> with the cipher and the IV.
\<close>

section \<open>State\<close>

record tx_attrib = pkt_attrib +
  ta_subtype :: u8
  ta_bswenc :: bool
  ta_ether_type :: u16
  ta_seqnum :: u16
  ta_pkt_hdrlen :: u16
  ta_pktlen :: u32
  ta_iv :: bytes
  ta_icv :: bytes
  ta_priority :: u8
  ta_ack_policy :: u8
  ta_dst :: bytes
  ta_src :: bytes
  ta_key_idx :: u8
  ta_qos_en :: bool
  ta_ht_en :: bool
  ta_ampdu_en :: bool
  ta_amsdu :: u8
  ta_mdata :: bool
  ta_eosp :: u8
  ta_dhcp_pkt :: bool
  ta_icmp_pkt :: bool
  ta_hipriority_pkt :: bool
  ta_tkiptxmickey :: bytes
  ta_rtsen :: bool
  ta_cts2self :: bool
  ta_vcs_mode :: u8
  ta_triggered :: bool
  ta_qsel :: u8
  ta_psta :: "bytes option"   \<comment> \<open>the station, by the address it is found with\<close>

text \<open>
  A frame is the number of its packet and its attributes. The four access categories, their queues of a station with the
  length \<open>qcnt\<close>, and what is kept of a station that sleeps.
\<close>

record tx_frame =
  tf_pkt :: nat
  tf_attr :: tx_attrib

datatype tx_ac = AC_VO | AC_VI | AC_BE | AC_BK

record tx_servq =
  sq_pending :: "tx_frame list"   \<comment> \<open>\<open>sta_pending\<close>\<close>
  sq_qcnt :: int

record ps_sta =
  ps_aid :: u16
  ps_flags :: u32
  ps_expire_to :: u32
  ps_has_legacy_ac :: bool
  ps_qos_info :: u8
  ps_max_sp_len :: u8
  ps_uapsd :: "tx_ac \<Rightarrow> u8"        \<comment> \<open>\<open>uapsd_vo\<close>, \<open>uapsd_vi\<close>, \<open>uapsd_be\<close>, \<open>uapsd_bk\<close>\<close>
  ps_sleep_q :: "tx_frame list"
  ps_sleepq_len :: u32
  ps_sleepq_ac_len :: u32
  ps_tx_q_enable :: bool
  ps_tx_queue :: "tx_frame list"  \<comment> \<open>\<open>tx_queue\<close>, while a station joins its network\<close>
  ps_servq :: "tx_ac \<Rightarrow> tx_servq"   \<comment> \<open>\<open>vo_q\<close>, \<open>vi_q\<close>, \<open>be_q\<close>, \<open>bk_q\<close>\<close>

text \<open>
  The queues of the interface, for each access category the stations with pending frames, and the bitmaps of the stations
  with buffered frames and of the sleeping stations.
\<close>

record hw_xmit =
  hx_accnt :: int
  hx_stas :: "bytes list"         \<comment> \<open>\<open>sta_queue\<close>, by the address of the station\<close>

record ps_ctx =
  pc_tim_bitmap :: bytes
  pc_sta_dz_bitmap :: bytes
  pc_hwxmits :: "tx_ac \<Rightarrow> hw_xmit"
  pc_hiq_filter :: u8
  pc_expire_to :: u32

record tx_sta =
  ts_state :: u32
  ts_blocked :: bool
  ts_privacy :: u8
  ts_qos_option :: bool
  ts_txpn :: u64            \<comment> \<open>\<open>dot11txpn\<close>\<close>
  ts_UncstKey :: bytes
  ts_tkiptxmickey :: bytes
  ts_txseq_tid :: "u16 list"
  ts_BA_starting_seqctrl :: "u16 list"
  ts_ht_option :: bool
  ts_ampdu_enable :: bool
  ts_agg_enable_bitmap :: u8
  ts_rtsen :: bool
  ts_cts2self :: bool
  ts_ps :: ps_sta

text \<open>What the choice of the protection frame (\<open>update_attrib_vcs_info\<close>) reads of the interface.\<close>

record tx_vcs =
  vc_wireless_mode :: u8    \<comment> \<open>\<open>cur_wireless_mode\<close>\<close>
  vc_wifi_spec :: bool
  vc_rts_thresh :: u32
  vc_AP_vendor :: u8        \<comment> \<open>\<open>assoc_AP_vendor\<close>\<close>
  vc_HT_protection :: u8
  vc_cur_bwmode :: u8
  vc_8812 :: bool
  vc_driver_en :: u8
  vc_driver_type :: u8

text \<open>The interface: its mode, security settings and stations. The keys and the fragmentation length are those of SecFrame.\<close>

record tx_ctx =
  tc_fw_state :: u32
  tc_bssid :: bytes
  tc_hwaddr :: bytes
  tc_qos_option :: bool
  tc_acm_mask :: u8
  tc_ht :: bool             \<comment> \<open>HT is enabled and in the wireless mode\<close>
  tc_auth_alg :: u32
  tc_privacy_alg :: u8
  tc_grp_privacy :: u8
  tc_busetkipkey :: bool
  tc_sw_encrypt :: bool
  tc_hw_decrypted :: bool
  tc_dis_bmc_search :: bool \<comment> \<open>\<open>SEC_STATUS_STA_PK_GK_CONFLICT_DIS_BMC_SEARCH\<close>\<close>
  tc_grptxmickey :: "bytes list"
  tc_vcs :: tx_vcs
  tc_ps :: ps_ctx
  tc_ad :: adapter
  tc_stas :: "bytes \<Rightarrow> tx_sta option"

definition tx_get_sta :: "tx_ctx \<Rightarrow> bytes \<Rightarrow> tx_sta option" where
  "tx_get_sta c hwaddr = tc_stas c (sta_key_addr hwaddr)"

definition tx_put_sta :: "bytes \<Rightarrow> tx_sta \<Rightarrow> tx_ctx \<Rightarrow> tx_ctx" where
  "tx_put_sta hwaddr s c = c\<lparr>tc_stas := (tc_stas c)(sta_key_addr hwaddr := Some s)\<rparr>"

section \<open>Packet numbers\<close>

text \<open>Byte \<open>TSCn\<close> of a packet number.\<close>

definition TSC :: "nat \<Rightarrow> u64 \<Rightarrow> u8" where
  "TSC n v = ucast (drop_bit (8 * n) v)"

text \<open>The macros count the packet number up and write the IV of the frame: the new number and the bytes written.\<close>

definition WEP_IV :: "u64 \<Rightarrow> u8 \<Rightarrow> u64 \<times> bytes" where
  "WEP_IV pn keyidx =
     (let v = (if pn = 0xffffff then 0 else pn + 1)
      in (v, [TSC 0 v, TSC 1 v, TSC 2 v, push_bit 6 (keyidx AND 0x3)]))"

definition TKIP_IV :: "u64 \<Rightarrow> u8 \<Rightarrow> u64 \<times> bytes" where
  "TKIP_IV pn keyidx =
     (let v = (if pn = 0xffffffffffff then 0 else pn + 1)
      in (v, [TSC 1 v, (TSC 1 v OR 0x20) AND 0x7f, TSC 0 v, 0x20 OR push_bit 6 (keyidx AND 0x3),
              TSC 2 v, TSC 3 v, TSC 4 v, TSC 5 v]))"

definition AES_IV :: "u64 \<Rightarrow> u8 \<Rightarrow> u64 \<times> bytes" where
  "AES_IV pn keyidx =
     (let v = (if pn = 0xffffffffffff then 0 else pn + 1)
      in (v, [TSC 0 v, TSC 1 v, 0, 0x20 OR push_bit 6 (keyidx AND 0x3), TSC 2 v, TSC 3 v, TSC 4 v, TSC 5 v]))"

text \<open>Writing the first bytes of an array.\<close>

definition array_write :: "bytes \<Rightarrow> bytes \<Rightarrow> bytes" where
  "array_write xs a = xs @ drop (length xs) a"

section \<open>The cipher of a frame\<close>

definition sec_key_idx :: "tx_ctx \<Rightarrow> bool \<Rightarrow> u8" where
  "sec_key_idx c bmcast =
     (if tc_auth_alg c \<in> {dot11AuthAlgrthm_Open, dot11AuthAlgrthm_Shared, dot11AuthAlgrthm_Auto}
      then ucast (dot11PrivacyKeyIndex (ad_sec (tc_ad c)))
      else if tc_auth_alg c = dot11AuthAlgrthm_8021X
      then if bmcast then ucast (dot118021XGrpKeyid (ad_sec (tc_ad c))) else 0
      else 0)"

text \<open>The lengths and the IV for the cipher \<open>pa_encrypt\<close>; the packet number is counted up. TKIP without keys fails.\<close>

definition sec_iv :: "tx_ctx \<Rightarrow> bool \<Rightarrow> tx_attrib \<Rightarrow> tx_sta \<Rightarrow> rtw_res \<times> tx_attrib \<times> tx_sta" where
  "sec_iv c bmcast a s =
     (let e = pa_encrypt a; kid = (if bmcast then ta_key_idx a else 0)
      in if is_wep_enc e then
           let (pn, iv) = WEP_IV (ts_txpn s) (ta_key_idx a)
           in (RTW_SUCCESS, a\<lparr>pa_iv_len := 4, pa_icv_len := 4, ta_iv := array_write iv (ta_iv a)\<rparr>, s\<lparr>ts_txpn := pn\<rparr>)
         else if e = ENC_TKIP then
           let a = a\<lparr>pa_iv_len := 8, pa_icv_len := 4\<rparr>
           in if \<not> tc_busetkipkey c then (RTW_FAIL, a, s)
              else let (pn, iv) = TKIP_IV (ts_txpn s) kid
                   in (RTW_SUCCESS, a\<lparr>ta_iv := array_write iv (ta_iv a), ta_tkiptxmickey := ts_tkiptxmickey s\<rparr>, s\<lparr>ts_txpn := pn\<rparr>)
         else if e = ENC_AES then
           let (pn, iv) = AES_IV (ts_txpn s) kid
           in (RTW_SUCCESS, a\<lparr>pa_iv_len := 8, pa_icv_len := 8, ta_iv := array_write iv (ta_iv a)\<rparr>, s\<lparr>ts_txpn := pn\<rparr>)
         else (RTW_SUCCESS, a\<lparr>pa_iv_len := 0, pa_icv_len := 0\<rparr>, s))"

definition update_attrib_sec_info :: "tx_ctx \<Rightarrow> tx_attrib \<Rightarrow> tx_sta \<Rightarrow> rtw_res \<times> tx_attrib \<times> tx_sta" where
  "update_attrib_sec_info c a s =
     (let bmcast = IS_MCAST (pa_ra a);
          a = a\<lparr>pa_UncstKey := replicate 16 0, ta_tkiptxmickey := replicate 16 0\<rparr>;
          e = GET_ENCRY_ALGO (tc_auth_alg c) (tc_privacy_alg c) (tc_grp_privacy c) (ts_privacy s) bmcast (pa_encrypt a)
      in if ts_blocked s \<and> ta_ether_type a \<noteq> 0x888e \<and> \<not> check_fwstate (tc_fw_state c) WIFI_MP_STATE
         then (RTW_FAIL, a\<lparr>pa_encrypt := 0\<rparr>, s)
         else
           let a = (if ts_blocked s then a\<lparr>pa_encrypt := 0\<rparr>
                    else a\<lparr>pa_encrypt := (if is_wep_enc e \<and> ta_ether_type a = 0x888e then 0 else e),
                           ta_key_idx := sec_key_idx c bmcast\<rparr>);
               (res, a, s) = sec_iv c bmcast a s
           in if res = RTW_FAIL then (RTW_FAIL, a, s)
              else (RTW_SUCCESS,
                a\<lparr>pa_UncstKey := (if pa_encrypt a > 0 then ts_UncstKey s else pa_UncstKey a),
                  ta_bswenc := (pa_encrypt a \<noteq> 0 \<and> (tc_sw_encrypt c \<or> \<not> tc_hw_decrypted c) \<or>
                                pa_encrypt a \<noteq> 0 \<and> bmcast \<and> tc_dis_bmc_search c)\<rparr>, s))"

section \<open>The priority\<close>

definition qos_acm :: "u8 \<Rightarrow> u8 \<Rightarrow> u8" where
  "qos_acm acm_mask priority =
     (if priority = 0 \<or> priority = 3 then if bit acm_mask 1 then 1 else priority
      else if priority = 4 \<or> priority = 5 then if bit acm_mask 2 then 0 else priority
      else if priority = 6 \<or> priority = 7 then if bit acm_mask 3 then 5 else priority
      else priority)"

text \<open>The mapping by precedence, \<open>mode = 0\<close>, is the one the Makefile chooses.\<close>

definition tos_to_up :: "u8 \<Rightarrow> u8 \<Rightarrow> u8" where
  "tos_to_up mode tos =
     (if mode = 0 then drop_bit 5 tos
      else let dscp = drop_bit 2 tos
           in if dscp = 0 then 0 else if dscp \<le> 9 then 1 else if dscp \<le> 16 then 2 else if dscp \<le> 23 then 3
              else if dscp \<le> 31 then 4 else if 33 \<le> dscp \<and> dscp \<le> 40 then 5
              else if 41 \<le> dscp \<and> dscp \<le> 47 \<or> dscp = 32 then 6 else 7)"

definition CONFIG_RTW_UP_MAPPING_RULE :: u8 where "CONFIG_RTW_UP_MAPPING_RULE = 0"
definition WIFI_DATA_TYPE :: u8 where "WIFI_DATA_TYPE = 0x08"
definition WIFI_QOS_DATA_TYPE :: u8 where "WIFI_QOS_DATA_TYPE = 0x88"

text \<open>
  The arrays on the stack, with what is in them before a short packet is read into them: \<open>etherhdr\<close>, \<open>ip\<close> and \<open>udp\<close>
  of \<open>update_attrib\<close> and \<open>ip_hdr\<close> of \<open>set_qos\<close>.
\<close>

record tx_stack =
  sk_eth :: bytes
  sk_ip :: bytes
  sk_udp :: bytes
  sk_ip_hdr :: bytes

definition rtw_pktfile_read :: "bytes \<Rightarrow> u32 \<Rightarrow> bytes \<times> bytes" where
  "rtw_pktfile_read rest rlen = (take (unat rlen) rest, drop (unat rlen) rest)"

definition set_qos :: "tx_stack \<Rightarrow> bytes \<Rightarrow> tx_attrib \<Rightarrow> tx_attrib option" where
  "set_qos sk pkt a = do {
     up \<leftarrow> (if ta_ether_type a = 0x0800 then do {
               tos \<leftarrow> rd (array_write (fst (rtw_pktfile_read (snd (rtw_pktfile_read pkt 14)) 20)) (sk_ip_hdr sk)) 1;
               Some (tos_to_up CONFIG_RTW_UP_MAPPING_RULE tos) }
            else Some 0);
     Some (a\<lparr>ta_priority := up, pa_hdrlen := word_of_nat WLAN_HDR_A3_QOS_LEN, ta_subtype := WIFI_QOS_DATA_TYPE\<rparr>) }"

section \<open>The class of a packet\<close>

definition udp_class :: "tx_stack \<Rightarrow> bytes \<Rightarrow> tx_attrib \<Rightarrow> tx_attrib option" where
  "udp_class sk rest a =
     (let udp = array_write (fst (rtw_pktfile_read rest 24)) (sk_udp sk)
      in do {
        ports \<leftarrow> get_sub udp 0 4;
        sig1 \<leftarrow> rd udp 8;
        sig2 \<leftarrow> rd udp 23;
        let sp = RTW_GET_BE16 (take 2 ports);
        let dp = RTW_GET_BE16 (drop 2 ports);
        let a = (if (sp = 68 \<and> dp = 67 \<or> sp = 67 \<and> dp = 68) \<and> ta_pktlen a > 282 then a\<lparr>ta_dhcp_pkt := True\<rparr> else a);
        let a = (if (sig1 = 0xcc \<or> sig1 = 0xdd) \<and> sig2 = 0xe2 then a\<lparr>ta_hipriority_pkt := True\<rparr> else a);
        Some a })"

definition ip_class :: "tx_stack \<Rightarrow> bytes \<Rightarrow> tx_attrib \<Rightarrow> tx_attrib option" where
  "ip_class sk rest a =
     (let (bs, rest) = rtw_pktfile_read rest 20; ip = array_write bs (sk_ip sk)
      in do {
        b0 \<leftarrow> rd ip 0;
        proto \<leftarrow> rd ip 9;
        let ihl = (ucast (b0 AND 0xf) :: u32);
        let rest = (if ihl * 4 > 20 then snd (rtw_pktfile_read rest (ihl - 20)) else rest);
        let a = a\<lparr>ta_icmp_pkt := False, ta_dhcp_pkt := False, ta_hipriority_pkt := False\<rparr>;
        if proto = 0x01 then Some (a\<lparr>ta_icmp_pkt := True\<rparr>)
        else if proto = 0x11 then udp_class sk rest a
        else Some a })"

section \<open>The attributes\<close>

datatype tx_act = Scan_deny u32 | Scan_abort | Lps_special | Lps_leave | Parse_eapol

text \<open>The addresses by mode.\<close>

definition tx_addrs :: "tx_ctx \<Rightarrow> bytes \<Rightarrow> tx_attrib \<Rightarrow> tx_attrib" where
  "tx_addrs c eth a =
     (let dst = take 6 eth; src = take 6 (drop 6 eth); st = check_fwstate (tc_fw_state c);
          a = a\<lparr>ta_ether_type := RTW_GET_BE16 (take 2 (drop 12 eth)), ta_dst := dst, ta_src := src\<rparr>
      in if st WIFI_ADHOC_STATE \<or> st WIFI_ADHOC_MASTER_STATE then a\<lparr>pa_ra := dst, pa_ta := tc_hwaddr c\<rparr>
         else if st WIFI_STATION_STATE then a\<lparr>pa_ra := tc_bssid c, pa_ta := tc_hwaddr c\<rparr>
         else if st WIFI_AP_STATE then a\<lparr>pa_ra := dst, pa_ta := tc_bssid c\<rparr>
         else a)"

definition tx_acts :: "tx_ctx \<Rightarrow> tx_attrib \<Rightarrow> tx_act list" where
  "tx_acts c a =
     (if ta_ether_type a = 0x888e then [Parse_eapol] else []) @
     (if ta_ether_type a = 0x888e \<or> ta_dhcp_pkt a then [Scan_deny 3000] else []) @
     (if check_fwstate (tc_fw_state c) WIFI_STATION_STATE \<and> ta_ether_type a = 0x0806 \<and> \<not> IS_MCAST (ta_dst a)
      then [Scan_deny 1000, Scan_abort] else []) @
     (if ta_icmp_pkt a then [Lps_leave] else if ta_dhcp_pkt a then [Lps_special] else [])"

text \<open>The part of \<open>update_attrib_phy_info\<close> that the frame depends on: A-MPDU and the fields it clears.\<close>

definition tx_phy_info :: "tx_ctx \<Rightarrow> tx_attrib \<Rightarrow> tx_sta \<Rightarrow> tx_attrib" where
  "tx_phy_info c a s =
     (let a = a\<lparr>ta_rtsen := ts_rtsen s, ta_cts2self := ts_cts2self s, ta_mdata := False, ta_eosp := 0, ta_triggered := False\<rparr>
      in if tc_ht c
         then a\<lparr>ta_ht_en := ts_ht_option s,
                ta_ampdu_en := (ts_ht_option s \<and> ts_ampdu_enable s \<and> bit (ts_agg_enable_bitmap s) (unat (ta_priority a)))\<rparr>
         else a)"

text \<open>The priority and, with QoS, the longer header.\<close>

definition tx_qos :: "tx_stack \<Rightarrow> tx_ctx \<Rightarrow> bytes \<Rightarrow> tx_attrib \<Rightarrow> tx_attrib option" where
  "tx_qos sk c pkt a =
     (if check_fwstate (tc_fw_state c) (WIFI_AP_STATE OR 0x200 OR WIFI_ADHOC_STATE OR WIFI_ADHOC_MASTER_STATE)
      then if ta_qos_en a then set_qos sk pkt a else Some a
      else if tc_qos_option c then do {
        a \<leftarrow> set_qos sk pkt a;
        Some (if tc_acm_mask c \<noteq> 0 then a\<lparr>ta_priority := qos_acm (tc_acm_mask c) (ta_priority a)\<rparr> else a) }
      else Some a)"

text \<open>The packet once its station \<open>s\<close> is found by the address \<open>p\<close>; \<open>rest\<close> is the packet behind its Ethernet header.\<close>

definition update_attrib_sta ::
  "tx_stack \<Rightarrow> tx_ctx \<Rightarrow> bytes \<Rightarrow> bytes \<Rightarrow> tx_attrib \<Rightarrow> bytes \<Rightarrow> tx_sta \<Rightarrow> (rtw_res \<times> tx_attrib \<times> tx_ctx \<times> tx_act list) option" where
  "update_attrib_sta sk c pkt rest a p s = do {
     let a = a\<lparr>ta_pktlen := word_of_nat (length rest)\<rparr>;
     a \<leftarrow> (if ta_ether_type a = 0x0800 then ip_class sk rest a else Some a);
     let acts = tx_acts c a;
     let (res, a, s) = update_attrib_sec_info c a s;
     let c = tx_put_sta p s c;
     if res = RTW_FAIL then Some (RTW_FAIL, a, c, acts)
     else do {
       a \<leftarrow> tx_qos sk c pkt (a\<lparr>ta_pkt_hdrlen := 14, pa_hdrlen := word_of_nat WLAN_HDR_A3_LEN, ta_subtype := WIFI_DATA_TYPE,
                              ta_qos_en := ts_qos_option s, ta_priority := 0\<rparr>);
       Some (RTW_SUCCESS, (tx_phy_info c a s)\<lparr>ta_psta := Some (sta_key_addr p), ta_ack_policy := 0\<rparr>, c, acts) } }"

definition update_attrib ::
  "tx_stack \<Rightarrow> tx_ctx \<Rightarrow> bytes \<Rightarrow> tx_attrib \<Rightarrow> (rtw_res \<times> tx_attrib \<times> tx_ctx \<times> tx_act list) option" where
  "update_attrib sk c pkt a =
     (let (bs, rest) = rtw_pktfile_read pkt 14;
          a = tx_addrs c (array_write bs (sk_eth sk)) a;
          p = (if IS_MCAST (pa_ra a) then replicate 6 0xff else pa_ra a)
      in case tx_get_sta c p of
           None \<Rightarrow> Some (RTW_FAIL, a, c, [])
         | Some s \<Rightarrow>
             if ts_state s AND WIFI_ASOC_STATE = 0 then Some (RTW_FAIL, a, c, [])
             else update_attrib_sta sk c pkt rest a p s)"

end
