(* ===== verification/TxFrame.thy ===== *)
theory TxFrame
  imports TxAttr Reorder Michael Wep Tkip
begin

text \<open>
  From a packet with its attributes to the frames in the buffer (core/rtw_xmit.c): \<open>rtw_make_wlanhdr\<close>,
  \<open>rtw_put_snap\<close>, \<open>rtw_xmitframe_coalesce\<close> with the Michael MIC (\<open>xmitframe_addmic\<close>) and the software
  encryption (\<open>xmitframe_swencrypt\<close>).
\<close>

section \<open>The header\<close>

definition WLANHDR_OFFSET :: nat where "WLANHDR_OFFSET = 64"

definition put_addrs :: "bytes \<Rightarrow> bytes \<Rightarrow> bytes \<Rightarrow> bytes \<Rightarrow> bytes" where
  "put_addrs a1 a2 a3 h = take 4 h @ a1 @ a2 @ a3 @ drop 22 h"

text \<open>The direction and addresses by mode, and whether there is a QoS field.\<close>

definition wlanhdr_addrs :: "tx_ctx \<Rightarrow> tx_attrib \<Rightarrow> bytes \<Rightarrow> (bool \<times> bytes) option" where
  "wlanhdr_addrs c a h =
     (let st = check_fwstate (tc_fw_state c); bssid = tc_bssid c
      in if st WIFI_STATION_STATE then Some (tc_qos_option c, put_addrs bssid (pa_ta a) (ta_dst a) (SetToDs h))
         else if st WIFI_AP_STATE then Some (ta_qos_en a, put_addrs (ta_dst a) bssid (ta_src a) (SetFrDs h))
         else if st WIFI_ADHOC_STATE \<or> st WIFI_ADHOC_MASTER_STATE
         then Some (ta_qos_en a, put_addrs (ta_dst a) (pa_ta a) bssid h)
         else None)"

definition qos_control :: "tx_attrib \<Rightarrow> bytes \<Rightarrow> bytes" where
  "qos_control a qc =
     (let qc = (if ta_priority a \<noteq> 0 then SetPriority (ucast (ta_priority a)) qc else qc);
          qc = SetEOSP (ucast (ta_eosp a)) qc;
          qc = SetAckpolicy (ucast (ta_ack_policy a)) qc
      in if ta_amsdu a \<noteq> 0 then SetAMsdu (ucast (ta_amsdu a)) qc else qc)"

definition wlanhdr_fields :: "tx_attrib \<Rightarrow> bool \<Rightarrow> bytes \<Rightarrow> bytes" where
  "wlanhdr_fields a qos_option h =
     (let h = (if ta_mdata a then SetMData h else h);
          h = (if pa_encrypt a \<noteq> 0 then SetPrivacy h else h);
          k = unat (pa_hdrlen a) - 2
      in if qos_option then take k h @ qos_control a (drop k h) else h)"

text \<open>The check whether the sequence number is the one the block acknowledgement continues with.\<close>

definition tx_ampdu :: "tx_attrib \<Rightarrow> tx_sta \<Rightarrow> (tx_attrib \<times> tx_sta) option" where
  "tx_ampdu a s =
     (if \<not> ta_ampdu_en a then Some (a, s)
      else do {
        let k = unat (ta_priority a AND 0x0f);
        tx_seq \<leftarrow> rd (ts_BA_starting_seqctrl s) k;
        Some (if SN_LESS (ta_seqnum a) tx_seq then (a\<lparr>ta_ampdu_en := False\<rparr>, s)
              else if SN_EQUAL (ta_seqnum a) tx_seq
              then (a, s\<lparr>ts_BA_starting_seqctrl := (ts_BA_starting_seqctrl s)[k := (tx_seq + 1) AND 0xfff]\<rparr>)
              else (a, s\<lparr>ts_BA_starting_seqctrl := (ts_BA_starting_seqctrl s)[k := (ta_seqnum a + 1) AND 0xfff]\<rparr>)) })"

text \<open>The next sequence number of the TID.\<close>

definition tx_next_seq :: "tx_attrib \<Rightarrow> tx_sta \<Rightarrow> (tx_attrib \<times> tx_sta) option" where
  "tx_next_seq a s = do {
     let k = unat (ta_priority a);
     n \<leftarrow> rd (ts_txseq_tid s) k;
     let n = (n + 1) AND 0xFFF;
     Some (a\<lparr>ta_seqnum := n\<rparr>, s\<lparr>ts_txseq_tid := (ts_txseq_tid s)[k := n]\<rparr>) }"

text \<open>The result: the verdict, the 64 bytes at the place of the header, the attributes and the interface.\<close>

definition rtw_make_wlanhdr :: "tx_ctx \<Rightarrow> tx_attrib \<Rightarrow> (rtw_res \<times> bytes \<times> tx_attrib \<times> tx_ctx) option" where
  "rtw_make_wlanhdr c a =
     (let h = set_frame_sub_type (ucast (ta_subtype a)) (replicate WLANHDR_OFFSET 0)
      in if ta_subtype a AND WIFI_DATA_TYPE = 0 then Some (RTW_SUCCESS, h, a, c)
         else case wlanhdr_addrs c a h of
           None \<Rightarrow> Some (RTW_FAIL, h, a, c)
         | Some (qos_option, h) \<Rightarrow>
             (let h = wlanhdr_fields a qos_option h
              in case tx_get_sta c (pa_ra a) of
                   None \<Rightarrow> Some (RTW_FAIL, h, a, c)
                 | Some s \<Rightarrow>
                     if ta_psta a \<noteq> Some (sta_key_addr (pa_ra a)) \<or> ts_state s AND WIFI_ASOC_STATE = 0
                     then Some (RTW_FAIL, h, a, c)
                     else do {
                       (a, s) \<leftarrow> tx_next_seq a s;
                       let h = SetSeqNum (ta_seqnum a) h;
                       (a, s) \<leftarrow> tx_ampdu a s;
                       Some (RTW_SUCCESS, h, a, tx_put_sta (pa_ra a) s c) }))"

definition rtw_put_snap :: "u16 \<Rightarrow> bytes" where
  "rtw_put_snap h_proto =
     [0xaa, 0xaa, 0x03] @ (if h_proto = 0x8137 \<or> h_proto = 0x80f3 then [0x00, 0x00, 0xf8] else [0x00, 0x00, 0x00]) @ be16 h_proto"

section \<open>The fragments\<close>

text \<open>
  One turn of the loop: the fragment with its header at \<open>mem_start\<close> gets its IV, the first one the SNAP header, the next bytes
  of the packet (all of them in a group-addressed frame), and room for the ICV. The result: the buffer, the end of the
  fragment, the size of the SNAP header, the number of bytes taken and the rest of the packet.
\<close>

definition frag_put :: "tx_ctx \<Rightarrow> tx_attrib \<Rightarrow> bool \<Rightarrow> bytes \<Rightarrow> nat \<Rightarrow> bytes \<Rightarrow> (bytes \<times> nat \<times> nat \<times> nat \<times> bytes) option" where
  "frag_put c a first buf mem_start rest =
     (let hdrlen = unat (pa_hdrlen a); iv_len = unat (pa_iv_len a); icv_len = unat (pa_icv_len a);
          snap = (if first then rtw_put_snap (ta_ether_type a) else []);
          icv = (if icv_len > 0 \<and> ta_bswenc a then take icv_len (ta_icv a) else []);
          mpdu_len = sint (ad_frag_len (tc_ad c) - 4) - int hdrlen - int iv_len - int (length snap)
            - (if icv_len > 0 \<and> ta_bswenc a then int icv_len else 0);
          (data, rest) = rtw_pktfile_read rest (if IS_MCAST (pa_ra a) then ta_pktlen a else word_of_int mpdu_len);
          pos = mem_start + hdrlen
      in do {
        fc \<leftarrow> get_sub buf mem_start 2;
        buf \<leftarrow> put_sub buf mem_start (SetMFrag fc);
        buf \<leftarrow> put_sub buf pos (take iv_len (ta_iv a));
        buf \<leftarrow> put_sub buf (pos + iv_len) snap;
        buf \<leftarrow> put_sub buf (pos + iv_len + length snap) data;
        buf \<leftarrow> put_sub buf (pos + iv_len + length snap + length data) icv;
        Some (buf, pos + iv_len + length snap + length data + length icv, length snap, length data, rest) })"

lemma frag_put_length:
  assumes "frag_put c a first buf mem_start rest = Some (buf', pos, llc, sz, rest')"
  shows "length buf' = length buf" "mem_start + 2 \<le> length buf" "mem_start \<le> pos"
  using assms by (auto simp: frag_put_def Let_def get_sub_def split: Option.bind_splits if_splits prod.splits
      dest!: put_sub_length)

text \<open>The number of fragments, the sizes of the last one and the buffer. \<open>base\<close> is the address of the buffer.\<close>

function coalesce_loop ::
  "tx_ctx \<Rightarrow> tx_attrib \<Rightarrow> nat \<Rightarrow> bytes \<Rightarrow> nat \<Rightarrow> bytes \<Rightarrow> nat \<Rightarrow> (nat \<times> nat \<times> nat \<times> bytes) option" where
  "coalesce_loop c a base buf mem_start rest frg_inx =
     (case frag_put c a (frg_inx = 0) buf mem_start rest of
        None \<Rightarrow> None
      | Some (buf, pos, llc_sz, mem_sz, rest) \<Rightarrow>
          if IS_MCAST (pa_ra a) \<or> rest = [] then do {
            fc \<leftarrow> get_sub buf mem_start 2;
            buf \<leftarrow> put_sub buf mem_start (ClearMFrag fc);
            Some (Suc frg_inx, llc_sz, mem_sz, buf) }
          else
            let next_start = RND4 (base + pos) - base + TXDESC_OFFSET
            in case get_sub buf TXDESC_OFFSET (unat (pa_hdrlen a)) of
                 None \<Rightarrow> None
               | Some h \<Rightarrow> (case put_sub buf next_start h of
                   None \<Rightarrow> None
                 | Some buf' \<Rightarrow> coalesce_loop c a base buf' next_start rest (Suc frg_inx)))"
  by pat_completeness auto

termination coalesce_loop
proof (relation "measure (\<lambda>(c, a, base, buf, mem_start, rest, frg_inx). length buf - mem_start)", goal_cases)
  case 1
  then show ?case by simp
next
  case (2 c a base buf mem_start rest frg_inx x buf1 y pos z llc u sz rest1 nx h buf2)
  then have l: "length buf1 = length buf" "mem_start + 2 \<le> length buf" "mem_start \<le> pos" "length buf2 = length buf1"
    using frag_put_length [of c a "frg_inx = 0" buf mem_start rest buf1 pos llc sz rest1] by (auto dest: put_sub_length)
  have "pos \<le> RND4 (base + pos) - base" using RND4_ge [of "base + pos"] by simp
  then show ?case using 2 l by (simp add: TXDESC_OFFSET_def)
qed

declare coalesce_loop.simps [simp del]

section \<open>The MIC of TKIP\<close>

text \<open>
  \<open>length\<close> of a fragment: from \<open>last_txcmdsz\<close> for the last one and from the fragmentation length for the others; the walk
  ends behind the data of the last one.
\<close>

definition mic_frag_len :: "tx_ctx \<Rightarrow> tx_attrib \<Rightarrow> bool \<Rightarrow> u32" where
  "mic_frag_len c a final =
     (if final then pa_last_txcmdsz a else ad_frag_len (tc_ad c)) - ucast (pa_hdrlen a) - ucast (pa_iv_len a)
       - (if ta_bswenc a then ucast (pa_icv_len a) else 0)"

fun addmic_loop :: "tx_ctx \<Rightarrow> tx_attrib \<Rightarrow> nat \<Rightarrow> bytes \<Rightarrow> nat \<Rightarrow> nat \<Rightarrow> mic_data \<Rightarrow> (mic_data \<times> nat) option" where
  "addmic_loop c a base buf payload 0 micdata = Some (micdata, payload)"
| "addmic_loop c a base buf payload (Suc n) micdata = do {
     let payload = RND4 (base + payload) - base + unat (pa_hdrlen a) + unat (pa_iv_len a);
     let len = unat (mic_frag_len c a (n = 0));
     bs \<leftarrow> get_sub buf payload len;
     let micdata = rtw_secmicappend micdata bs;
     addmic_loop c a base buf (payload + len + (if n = 0 then 0 else unat (pa_icv_len a))) n micdata }"

definition tx_mic_key :: "tx_ctx \<Rightarrow> tx_attrib \<Rightarrow> bytes option" where
  "tx_mic_key c a =
     (if IS_MCAST (pa_ra a) then rd (tc_grptxmickey c) (unat (dot118021XGrpKeyid (ad_sec (tc_ad c))))
      else Some (ta_tkiptxmickey a))"

text \<open>\<open>init\<close> is the uninitialised local \<open>micdata\<close>.\<close>

definition xmitframe_addmic ::
  "mic_data \<Rightarrow> tx_ctx \<Rightarrow> tx_attrib \<Rightarrow> nat \<Rightarrow> bytes \<Rightarrow> (rtw_res \<times> tx_attrib \<times> bytes) option" where
  "xmitframe_addmic init c a base buf =
     (if pa_encrypt a \<noteq> ENC_TKIP then Some (RTW_SUCCESS, a, buf)
      else do {
        key \<leftarrow> tx_mic_key c a;
        if key = replicate 16 0 then Some (RTW_FAIL, a, buf)
        else do {
          let micdata = rtw_secmicsetkey init key;
          fc \<leftarrow> rd buf (TXDESC_OFFSET + 1);
          da \<leftarrow> get_sub buf (TXDESC_OFFSET + (if fc AND 1 \<noteq> 0 then 16 else 4)) 6;
          sa \<leftarrow> get_sub buf (TXDESC_OFFSET + (if fc AND 1 \<noteq> 0 then if fc AND 2 \<noteq> 0 then 24 else 10
                                        else if fc AND 2 \<noteq> 0 then 16 else 10)) 6;
          let micdata = rtw_secmicappend (rtw_secmicappend micdata da) sa;
          let micdata = rtw_secmicappend micdata [if ta_qos_en a then ta_priority a else 0, 0, 0, 0];
          (micdata, payload) \<leftarrow> addmic_loop c a base buf TXDESC_OFFSET (unat (pa_nr_frags a)) micdata;
          buf \<leftarrow> put_sub buf payload (fst (rtw_secgetmic micdata));
          Some (RTW_SUCCESS, a\<lparr>pa_last_txcmdsz := pa_last_txcmdsz a + 8\<rparr>, buf) } })"

section \<open>The whole frame\<close>

definition xmitframe_swencrypt :: "adapter \<Rightarrow> tx_attrib \<Rightarrow> nat \<Rightarrow> bytes \<Rightarrow> (adapter \<times> bytes option) option" where
  "xmitframe_swencrypt ad a base buf =
     (let xf = \<lparr>xf_attrib = pkt_attrib.truncate a, xf_base = base, xf_buf = Some buf\<rparr>; e = pa_encrypt a
      in if \<not> ta_bswenc a then Some (ad, Some buf)
         else if is_wep_enc e then do { (ad, xf) \<leftarrow> rtw_wep_encrypt ad xf; Some (ad, xf_buf xf) }
         else if e = ENC_TKIP then do { (res, ad, xf) \<leftarrow> rtw_tkip_encrypt ad xf; Some (ad, xf_buf xf) }
         else if e = ENC_AES then do { (res, ad, xf) \<leftarrow> rtw_aes_encrypt ad xf; Some (ad, xf_buf xf) }
         else Some (ad, Some buf))"

definition frags_attrib :: "tx_attrib \<Rightarrow> nat \<Rightarrow> nat \<Rightarrow> nat \<Rightarrow> tx_attrib" where
  "frags_attrib a n llc_sz mem_sz =
     (let nr_frags = word_of_nat n
      in a\<lparr>pa_nr_frags := nr_frags,
           pa_last_txcmdsz := ucast (pa_hdrlen a) + ucast (pa_iv_len a) + (if nr_frags = 1 then word_of_nat llc_sz else 0)
             + (if ta_bswenc a then ucast (pa_icv_len a) else 0) + word_of_nat mem_sz\<rparr>)"

text \<open>The protection frame sent before the frame.\<close>

definition NONE_VCS :: u8 where "NONE_VCS = 0"
definition RTS_CTS :: u8 where "RTS_CTS = 1"
definition CTS_TO_SELF :: u8 where "CTS_TO_SELF = 2"
definition WIRELESS_24N :: u8 where "WIRELESS_24N = 8"
definition HT_IOT_PEER_ATHEROS :: u8 where "HT_IOT_PEER_ATHEROS = 5"

definition vcs_erp :: "tx_attrib \<Rightarrow> u8" where
  "vcs_erp a = (if ta_rtsen a then RTS_CTS else if ta_cts2self a then CTS_TO_SELF else NONE_VCS)"

definition update_attrib_vcs_info :: "tx_ctx \<Rightarrow> tx_attrib \<Rightarrow> tx_attrib" where
  "update_attrib_vcs_info c a =
     (let v = tc_vcs c; sz = (if pa_nr_frags a \<noteq> 1 then ad_frag_len (tc_ad c) else pa_last_txcmdsz a);
          mode = (if vc_wireless_mode v < WIRELESS_24N \<or> vc_wifi_spec v
            then if sz > vc_rts_thresh v then RTS_CTS else vcs_erp a
            else if vc_AP_vendor v = HT_IOT_PEER_ATHEROS \<and> ta_ampdu_en a \<and> tc_privacy_alg c = ENC_AES then CTS_TO_SELF
            else if ta_rtsen a \<or> ta_cts2self a then vcs_erp a
            else if ta_ht_en a \<and> (vc_cur_bwmode v \<noteq> 0 \<and> (vc_HT_protection v = 2 \<or> vc_HT_protection v = 3) \<or>
              vc_cur_bwmode v = 0 \<and> vc_HT_protection v = 3) then RTS_CTS
            else if sz > vc_rts_thresh v then RTS_CTS
            else if ta_ampdu_en a \<and> \<not> vc_8812 v then RTS_CTS
            else NONE_VCS)
      in a\<lparr>ta_vcs_mode := (if vc_driver_en v = 1 then vc_driver_type v else mode)\<rparr>)"

text \<open>\<open>buf_addr\<close> is \<open>None\<close> for \<open>NULL\<close>, otherwise the address and the bytes of the buffer.\<close>

definition rtw_xmitframe_coalesce ::
  "mic_data \<Rightarrow> tx_ctx \<Rightarrow> bytes \<Rightarrow> tx_attrib \<Rightarrow> (nat \<times> bytes) option \<Rightarrow> (rtw_res \<times> tx_ctx \<times> tx_attrib \<times> (nat \<times> bytes) option) option" where
  "rtw_xmitframe_coalesce init c pkt a buf_addr = (case buf_addr of
     None \<Rightarrow> Some (RTW_FAIL, c, a, None)
   | Some (base, buf) \<Rightarrow> do {
       (res, h, a, c) \<leftarrow> rtw_make_wlanhdr c a;
       buf \<leftarrow> put_sub buf TXDESC_OFFSET h;
       if res = RTW_FAIL then Some (RTW_FAIL, c, a, Some (base, buf))
       else do {
         let (_, rest) = rtw_pktfile_read pkt (ucast (ta_pkt_hdrlen a));
         (n, llc_sz, mem_sz, buf) \<leftarrow> coalesce_loop c a base buf TXDESC_OFFSET rest 0;
         (res, a, buf) \<leftarrow> xmitframe_addmic init c (frags_attrib a n llc_sz mem_sz) base buf;
         if res = RTW_FAIL then Some (RTW_FAIL, c, a, Some (base, buf))
         else do {
           (ad, buf) \<leftarrow> xmitframe_swencrypt (tc_ad c) a base buf;
           let a = (if IS_MCAST (pa_ra a) then a\<lparr>ta_vcs_mode := NONE_VCS\<rparr> else update_attrib_vcs_info c a);
           Some (RTW_SUCCESS, c\<lparr>tc_ad := ad\<rparr>, a, map_option (Pair base) buf) } } })"

end
