(* ===== verification/TxWrite.thy ===== *)
theory TxWrite
  imports TxFrame EthHdr
begin

text \<open>
  What \<open>rtw_make_wlanhdr\<close> and \<open>rtw_xmitframe_coalesce\<close> leave in the buffer for a packet that fits one frame: the bytes of the
  header, one by one, and the frame as header, IV, SNAP header, payload and room for the ICV.
\<close>

section \<open>The header, byte by byte\<close>

lemma hdr16_Cons: "hdr16 (x # y # r) 0 = ucast x OR push_bit 8 (ucast y)"
  using hdr16_nth [of 0 "x # y # r"] by simp

lemma put16_Cons: "put16 (x # y # r) 0 w = ucast w # ucast (drop_bit 8 w) # r"
  by (simp add: put16_def)

definition air_hdr :: "u8 \<Rightarrow> u8 \<Rightarrow> bytes \<Rightarrow> bytes \<Rightarrow> bytes \<Rightarrow> u16 \<Rightarrow> bytes" where
  "air_hdr fc0 fc1 a1 a2 a3 seq = [fc0, fc1, 0, 0] @ a1 @ a2 @ a3 @ [ucast (push_bit 4 seq), ucast (drop_bit 8 (push_bit 4 seq))]"

definition tx_kind :: "bool \<Rightarrow> tx_attrib \<Rightarrow> bool" where
  "tx_kind q a \<longleftrightarrow> ta_subtype a = (if q then WIFI_QOS_DATA_TYPE else WIFI_DATA_TYPE) \<and> pa_hdrlen a = (if q then 26 else 24) \<and>
     \<not> ta_mdata a \<and> ta_eosp a = 0 \<and> ta_ack_policy a = 0 \<and> ta_amsdu a = 0 \<and> ta_priority a < 8"

text \<open>The flag byte of the frame control field: the direction and the Protected bit.\<close>

definition fc1_of :: "u8 \<Rightarrow> tx_attrib \<Rightarrow> u8" where
  "fc1_of ds a = ds OR (if pa_encrypt a \<noteq> 0 then 0x40 else 0)"

definition qc_of :: "bool \<Rightarrow> tx_attrib \<Rightarrow> bytes" where
  "qc_of q a = (if q then [ta_priority a, 0] else [])"

lemma set_fc_bit_Cons:
  assumes "k < 8"
  shows "set_fc_bit (8 + k) (x # y # r) = x # (y OR push_bit k 1) # r"
proof -
  let ?w = "(ucast x OR push_bit 8 (ucast y)) OR push_bit (8 + k) 1 :: u16"
  have "ucast ?w = x" using assms by (intro bit_word_eqI) (auto simp: bit_simps)
  moreover have "ucast (drop_bit 8 ?w) = y OR push_bit k 1" using assms by (intro bit_word_eqI) (auto simp: bit_simps)
  ultimately show ?thesis by (simp add: set_fc_bit_def hdr16_Cons put16_Cons)
qed

lemmas set_fc_bits =
  set_fc_bit_Cons [of 0, simplified] set_fc_bit_Cons [of 1, simplified] set_fc_bit_Cons [of 2, simplified]
  set_fc_bit_Cons [of 5, simplified] set_fc_bit_Cons [of 6, simplified]

lemma clear_set_MFrag: "\<not> bit y 2 \<Longrightarrow> ClearMFrag (SetMFrag (x # y # r)) = x # y # r"
proof -
  assume y: "\<not> bit y 2"
  let ?w = "(ucast x OR push_bit 8 (ucast (y OR 4))) AND NOT (push_bit 10 1) :: u16"
  have "ucast ?w = x" by (intro bit_word_eqI) (auto simp: bit_simps dest!: less_8_cases)
  moreover have "ucast (drop_bit 8 ?w) = y"
    using y by (intro bit_word_eqI) (auto simp: bit_simps dest!: less_8_cases)
  ultimately show ?thesis by (simp add: SetMFrag_def ClearMFrag_def set_fc_bits hdr16_Cons put16_Cons)
qed

lemma put16_behind: "k = length p \<Longrightarrow> put16 (p @ x # y # r) k w = p @ ucast w # ucast (drop_bit 8 w) # r"
  by (simp add: put16_def list_update_append)

lemma hdr16_behind: "k = length p \<Longrightarrow> hdr16 (p @ x # y # r) k = ucast x OR push_bit 8 (ucast y)"
  using hdr16_nth [of "length p" "p @ x # y # r"] by (simp add: nth_append)

lemma zeros_64: "replicate WLANHDR_OFFSET (0 :: u8) = 0 # 0 # replicate 62 0"
  by (simp add: WLANHDR_OFFSET_def flip: replicate_Suc)

lemma small_word_cases: "(p :: u8) < 8 \<Longrightarrow> p = 0 \<or> p = 1 \<or> p = 2 \<or> p = 3 \<or> p = 4 \<or> p = 5 \<or> p = 6 \<or> p = 7"
proof -
  assume "p < 8"
  then have "unat p < 8" by (simp add: word_less_nat_alt)
  then have "unat p \<in> {0, 1, 2, 3, 4, 5, 6, 7}" by auto
  then show ?thesis by (auto simp: word_unat_eq_iff)
qed

lemma qos_control_zero:
  assumes "tx_kind q a"
  shows "qos_control a (0 # 0 # r) = ta_priority a # 0 # r"
proof -
  have p: "ta_priority a < 8" "ta_eosp a = 0" "ta_ack_policy a = 0" "ta_amsdu a = 0" using assms by (auto simp: tx_kind_def)
  from small_word_cases [OF p(1)] show ?thesis using p
    by (elim disjE) (simp_all add: qos_control_def SetPriority_def SetEOSP_def SetAckpolicy_def set_bits16_def hdr16_Cons put16_Cons
        mask_eq_exp_minus_1 Let_def)
qed

text \<open>The direction by mode: the flag, whether there is a QoS field, and the three addresses.\<close>

definition tx_dir :: "tx_ctx \<Rightarrow> tx_attrib \<Rightarrow> u8 \<Rightarrow> bool \<Rightarrow> bytes \<Rightarrow> bytes \<Rightarrow> bytes \<Rightarrow> bool" where
  "tx_dir c a ds q a1 a2 a3 \<longleftrightarrow>
     (let st = check_fwstate (tc_fw_state c); bssid = tc_bssid c
      in if st WIFI_STATION_STATE then (ds, q, a1, a2, a3) = (1, tc_qos_option c, bssid, pa_ta a, ta_dst a)
         else if st WIFI_AP_STATE then (ds, q, a1, a2, a3) = (2, ta_qos_en a, ta_dst a, bssid, ta_src a)
         else (st WIFI_ADHOC_STATE \<or> st WIFI_ADHOC_MASTER_STATE) \<and>
           (ds, q, a1, a2, a3) = (0, ta_qos_en a, ta_dst a, pa_ta a, bssid))"

lemma mask_seq: "0xfff0 AND push_bit 4 (n :: u16) = push_bit 4 n"
  by (intro bit_word_eqI) (auto simp: bit_simps dest!: less_16_cases)

lemma wlanhdr_built:
  assumes k: "tx_kind q a" and d: "tx_dir c a ds q a1 a2 a3" and l: "length a1 = 6" "length a2 = 6" "length a3 = 6"
  shows "\<exists>h. wlanhdr_addrs c a (set_frame_sub_type (ucast (ta_subtype a)) (replicate WLANHDR_OFFSET 0)) = Some (q, h) \<and>
    SetSeqNum n (wlanhdr_fields a q h) =
      air_hdr (ta_subtype a) (fc1_of ds a) a1 a2 a3 n @ (if q then [ta_priority a, 0] else [0, 0]) @ replicate 38 0"
proof -
  let ?s = "ta_subtype a"
  have s: "set_frame_sub_type (ucast ?s) (replicate WLANHDR_OFFSET 0) = ?s # 0 # replicate 62 0"
    using k by (auto simp: tx_kind_def WIFI_QOS_DATA_TYPE_def WIFI_DATA_TYPE_def zeros_64 set_frame_sub_type_def hdr16_Cons put16_Cons)
  have z: "replicate 62 0 = [0, 0] @ replicate 18 0 @ replicate 42 (0 :: u8)" "replicate 42 0 = 0 # 0 # 0 # 0 # replicate 38 (0 :: u8)"
    by (simp_all flip: replicate_add replicate_Suc)
  define h where "h = ?s # ds # 0 # 0 # a1 @ a2 @ a3 @ replicate 42 0"
  have p: "put_addrs a1 a2 a3 (?s # ds # replicate 62 0) = h"
    unfolding h_def z(1) put_addrs_def by simp
  have ad: "wlanhdr_addrs c a (?s # 0 # replicate 62 0) = Some (q, h)"
    using d p by (auto simp: tx_dir_def wlanhdr_addrs_def Let_def SetToDs_def SetFrDs_def set_fc_bits split: if_splits)
  have ds: "ds = 0 \<or> ds = 1 \<or> ds = 2" using d by (auto simp: tx_dir_def Let_def split: if_splits)
  let ?e = "fc1_of ds a" and ?qc = "if q then [ta_priority a, 0] else [0, 0 :: u8]"
  define p24 where "p24 = ?s # ?e # 0 # 0 # a1 @ a2 @ a3 @ [0, 0]"
  have lp: "length p24 = 24" using l by (simp add: p24_def)
  have "(if pa_encrypt a \<noteq> 0 then SetPrivacy h else h) = p24 @ 0 # 0 # replicate 38 0"
    unfolding h_def p24_def z(2) by (simp add: SetPrivacy_def set_fc_bits fc1_of_def)
  moreover have "take (unat (pa_hdrlen a) - 2) (p24 @ y) = p24" "drop (unat (pa_hdrlen a) - 2) (p24 @ y) = y" if q for y
    using k lp that by (simp_all add: tx_kind_def)
  ultimately have f: "wlanhdr_fields a q h = p24 @ ?qc @ replicate 38 0"
    using k qos_control_zero [OF k] by (simp add: wlanhdr_fields_def Let_def tx_kind_def)
  have "length (?s # ?e # 0 # 0 # a1 @ a2 @ a3) = 22" using l by simp
  then have "SetSeqNum n (wlanhdr_fields a q h) =
      air_hdr ?s ?e a1 a2 a3 n @ ?qc @ replicate 38 0"
    using put16_behind [of 22 "?s # ?e # 0 # 0 # a1 @ a2 @ a3"] hdr16_behind [of 22 "?s # ?e # 0 # 0 # a1 @ a2 @ a3"] mask_seq [of n]
    unfolding f p24_def SetSeqNum_def air_hdr_def by simp
  then show ?thesis using ad unfolding s by blast
qed

section \<open>One frame\<close>


lemma tx_ampdu_shape: "tx_ampdu a s = Some (a', s') \<Longrightarrow> a' = a\<lparr>ta_ampdu_en := ta_ampdu_en a'\<rparr>"
  by (cases a) (auto simp: tx_ampdu_def Let_def split: if_splits Option.bind_splits)

lemma make_wlanhdr_built:
  assumes m: "rtw_make_wlanhdr c a = Some (RTW_SUCCESS, h, a', c')"
    and k: "tx_kind q a" and d: "tx_dir c a ds q a1 a2 a3" and l: "length a1 = 6" "length a2 = 6" "length a3 = 6"
  shows "\<exists>n e st. h = air_hdr (ta_subtype a) (fc1_of ds a) a1 a2 a3 n @ (if q then [ta_priority a, 0] else [0, 0]) @ replicate 38 0 \<and>
    a' = a\<lparr>ta_seqnum := n, ta_ampdu_en := e\<rparr> \<and> c' = c\<lparr>tc_stas := st\<rparr>"
proof -
  let ?h0 = "set_frame_sub_type (ucast (ta_subtype a)) (replicate WLANHDR_OFFSET 0)"
  obtain h1 where h1: "wlanhdr_addrs c a ?h0 = Some (q, h1)"
    "\<And>n. SetSeqNum n (wlanhdr_fields a q h1) =
      air_hdr (ta_subtype a) (fc1_of ds a) a1 a2 a3 n @ (if q then [ta_priority a, 0] else [0, 0]) @ replicate 38 0"
    using wlanhdr_built [OF k d l] by (metis option.inject prod.inject)
  have t: "ta_subtype a AND WIFI_DATA_TYPE \<noteq> 0" using k by (auto simp: tx_kind_def WIFI_QOS_DATA_TYPE_def WIFI_DATA_TYPE_def)
  obtain s where s: "tx_get_sta c (pa_ra a) = Some s"
    using m t h1(1) by (auto simp: rtw_make_wlanhdr_def Let_def split: option.splits)
  obtain s1 n where n: "tx_next_seq a s = Some (a\<lparr>ta_seqnum := n\<rparr>, s1)"
    using m t h1(1) s by (auto simp: rtw_make_wlanhdr_def Let_def tx_next_seq_def split: if_splits Option.bind_splits)
  obtain s2 a2' where e: "tx_ampdu (a\<lparr>ta_seqnum := n\<rparr>) s1 = Some (a2', s2)"
    using m t h1(1) s n by (auto simp: rtw_make_wlanhdr_def Let_def split: if_splits Option.bind_splits)
  have sh: "a2' = a\<lparr>ta_seqnum := n, ta_ampdu_en := ta_ampdu_en a2'\<rparr>" using tx_ampdu_shape [OF e] by simp
  have ra: "pa_ra a2' = pa_ra a" by (subst sh) simp
  have "h = SetSeqNum n (wlanhdr_fields a q h1)" "a' = a2'" "c' = tx_put_sta (pa_ra a) s2 c"
    using m t h1(1) s n e ra by (auto simp: rtw_make_wlanhdr_def Let_def split: if_splits)
  then show ?thesis using sh unfolding h1(2) tx_put_sta_def by blast
qed

lemma put_sub_chain: "put_sub m a (xs @ ys) = put_sub m a xs \<bind> (\<lambda>m. put_sub m (a + length xs) ys)"
proof (cases "put_sub m a xs")
  case None
  then show ?thesis by (auto simp: put_sub_def split: if_splits)
next
  case (Some m')
  then show ?thesis using put_sub_append [OF Some refl] by simp
qed

text \<open>The frame on the air of a packet \<open>payload\<close> behind the header \<open>h\<close>.\<close>

definition air_icv :: "tx_attrib \<Rightarrow> bytes" where
  "air_icv a = (if pa_icv_len a > 0 \<and> ta_bswenc a then take (unat (pa_icv_len a)) (ta_icv a) else [])"

definition air_body :: "tx_attrib \<Rightarrow> bytes \<Rightarrow> bytes" where
  "air_body a payload = take (unat (pa_iv_len a)) (ta_iv a) @ rtw_put_snap (ta_ether_type a) @ payload @ air_icv a"

definition one_frame :: "tx_ctx \<Rightarrow> tx_attrib \<Rightarrow> bytes \<Rightarrow> bool" where
  "one_frame c a payload \<longleftrightarrow>
     length payload < 2 ^ 30 \<and>
     (if IS_MCAST (pa_ra a) then length payload \<le> unat (ta_pktlen a)
      else int (unat (pa_hdrlen a) + unat (pa_iv_len a) + 8 + length payload +
        (if pa_icv_len a > 0 \<and> ta_bswenc a then unat (pa_icv_len a) else 0)) \<le> sint (ad_frag_len (tc_ad c) - 4))"

lemma unat_small_int: "0 \<le> k \<Longrightarrow> k < 2 ^ 31 \<Longrightarrow> unat (word_of_int k :: u32) = nat k"
  by (simp add: unsigned_of_int take_bit_int_eq_self)

lemma get_sub_head:
  assumes "get_sub buf k (Suc (Suc m)) = Some (x # y # r)"
  shows "get_sub buf k 2 = Some [x, y]" "get_sub buf (k + 2) m = Some r"
proof -
  from assms have "get_sub buf k (2 + m) = Some ([x, y] @ r)" by simp
  then obtain p q where "get_sub buf k 2 = Some p" "get_sub buf (k + 2) m = Some q" "p @ q = [x, y] @ r"
    unfolding get_sub_append by (auto split: Option.bind_splits)
  moreover from this have "length p = length [x, y]" using get_sub_length by fastforce
  ultimately have "p = [x, y] \<and> q = r" by (metis append_eq_append_conv)
  then show "get_sub buf k 2 = Some [x, y]" "get_sub buf (k + 2) m = Some r"
    using \<open>get_sub buf k 2 = Some p\<close> \<open>get_sub buf (k + 2) m = Some q\<close> by simp_all
qed

lemma coalesce_one:
  assumes b: "get_sub buf 32 (Suc (Suc m)) = Some (x # y # r)" "\<not> bit y 2" "unat (pa_hdrlen a) = Suc (Suc m)"
    and l: "unat (pa_iv_len a) \<le> length (ta_iv a)" "unat (pa_icv_len a) \<le> length (ta_icv a)"
    and fit: "one_frame c a payload" "32 + unat (pa_hdrlen a) + length (air_body a payload) \<le> length buf"
  shows "\<exists>buf'. coalesce_loop c a base buf 32 payload 0 = Some (1, 8, length payload, buf') \<and> length buf' = length buf \<and>
    get_sub buf' 32 (unat (pa_hdrlen a) + length (air_body a payload)) = Some ((x # y # r) @ air_body a payload)"
proof -
  let ?iv = "take (unat (pa_iv_len a)) (ta_iv a)" and ?snap = "rtw_put_snap (ta_ether_type a)" and ?pos = "32 + unat (pa_hdrlen a)"
  have snap: "length ?snap = 8" by (simp add: rtw_put_snap_def be16_def)
  let ?mpdu = "sint (ad_frag_len (tc_ad c) - 4) - int (unat (pa_hdrlen a)) - int (unat (pa_iv_len a)) - int (length ?snap)
            - (if unat (pa_icv_len a) > 0 \<and> ta_bswenc a then int (unat (pa_icv_len a)) else 0)"
  have rd: "rtw_pktfile_read payload (if IS_MCAST (pa_ra a) then ta_pktlen a else word_of_int ?mpdu) = (payload, [])"
  proof (cases "IS_MCAST (pa_ra a)")
    case True
    then show ?thesis using fit(1) by (simp add: one_frame_def rtw_pktfile_read_def)
  next
    case False
    have "int (length payload) \<le> ?mpdu" "length payload < 2 ^ 31"
      using False fit(1) snap by (auto simp: one_frame_def word_gt_0 unat_gt_0 split: if_splits)
    moreover have "?mpdu < 2 ^ 31"
    proof (rule le_less_trans)
      show "?mpdu \<le> sint (ad_frag_len (tc_ad c) - 4)" by (simp del: of_nat_unat uint_nat)
      show "sint (ad_frag_len (tc_ad c) - 4) < 2 ^ 31" using sint_lt [of "ad_frag_len (tc_ad c) - 4"] by simp
    qed
    ultimately have "length payload \<le> unat (word_of_int ?mpdu :: u32)"
      using unat_small_int [of ?mpdu] by linarith
    then show ?thesis using False by (simp add: rtw_pktfile_read_def)
  qed
  note fc = get_sub_head(1) [OF b(1)]
  obtain b1 where b1: "put_sub buf 32 (SetMFrag [x, y]) = Some b1" using fit(2) b(3) by (auto simp: put_sub_def SetMFrag_def set_fc_bits)
  have lb1: "length b1 = length buf" using b1 by (rule put_sub_length)
  obtain b2 where b2: "put_sub b1 ?pos (air_body a payload) = Some b2" using fit(2) lb1 by (auto simp: put_sub_def)
  have icv: "air_icv a = (if unat (pa_icv_len a) > 0 \<and> ta_bswenc a then take (unat (pa_icv_len a)) (ta_icv a) else [])"
    by (simp add: air_icv_def word_gt_0 unat_gt_0)
  have fp: "frag_put c a True buf 32 payload =
      Some (b2, ?pos + length (air_body a payload), 8, length payload, [])"
  proof -
    have "put_sub b1 ?pos ?iv \<bind> (\<lambda>b. put_sub b (?pos + unat (pa_iv_len a)) ?snap \<bind>
        (\<lambda>b. put_sub b (?pos + unat (pa_iv_len a) + length ?snap) payload \<bind>
        (\<lambda>b. put_sub b (?pos + unat (pa_iv_len a) + length ?snap + length payload) (air_icv a)))) = Some b2"
      using b2 l(1) unfolding air_body_def by (simp add: put_sub_chain min_absorb2 add.assoc)
    then show ?thesis unfolding frag_put_def Let_def icv [symmetric] if_True rd
      using fc b1 by (auto simp: snap air_body_def min_absorb2 l split: Option.bind_splits)
  qed
  have lb2: "length b2 = length buf" using put_sub_length [OF b2] lb1 by simp
  have g2: "get_sub b2 32 2 = Some (SetMFrag [x, y])"
    using get_put_before [OF b2, of 32 2] get_put_same [OF b1] b(3) by (simp add: SetMFrag_def set_fc_bits numeral_2_eq_2)
  obtain b3 where b3: "put_sub b2 32 (ClearMFrag (SetMFrag [x, y])) = Some b3"
    using fc lb2 by (auto simp: put_sub_def get_sub_def clear_set_MFrag [OF b(2)] split: if_splits)
  then have b3': "put_sub b2 32 [x, y] = Some b3" by (simp add: clear_set_MFrag [OF b(2)])
  have "coalesce_loop c a base buf 32 payload 0 = Some (1, 8, length payload, b3)"
    using fp g2 b3 by (simp add: coalesce_loop.simps)
  moreover have "length b3 = length buf" using put_sub_length [OF b3] lb2 by simp
  moreover have "get_sub b3 32 (2 + (m + length (air_body a payload))) = Some ((x # y # r) @ air_body a payload)"
  proof -
    have "get_sub b3 32 2 = Some [x, y]" using get_put_same [OF b3'] by (simp add: numeral_2_eq_2)
    moreover have "get_sub b3 34 m = get_sub buf 34 m"
      using get_put_after [OF b3', of 34 m] get_put_before [OF b2, of 34 m] get_put_after [OF b1, of 34 m] b(3)
      by (simp add: SetMFrag_def set_fc_bits)
    moreover have "get_sub buf 34 m = Some r" using get_sub_head(2) [OF b(1)] by simp
    moreover have "get_sub b3 (34 + m) (length (air_body a payload)) = Some (air_body a payload)"
      using get_put_after [OF b3', of "34 + m"] get_put_same [OF b2] b(3) by (simp add: add.commute)
    ultimately show ?thesis by (simp only: get_sub_append) simp
  qed
  ultimately show ?thesis using b(3) by (simp add: add.assoc)
qed

lemma air_hdr_length: "length a1 = 6 \<Longrightarrow> length a2 = 6 \<Longrightarrow> length a3 = 6 \<Longrightarrow> length (air_hdr fc0 fc1 a1 a2 a3 n) = 24"
  by (simp add: air_hdr_def)

lemma fc1_no_MFrag: "tx_dir c a ds q a1 a2 a3 \<Longrightarrow> \<not> bit (fc1_of ds a) 2"
  by (auto simp: tx_dir_def fc1_of_def Let_def split: if_splits)

lemma get_sub_front:
  assumes "get_sub m k (length (p @ q)) = Some (p @ q)"
  shows "get_sub m k (length p) = Some p"
proof -
  have l: "k + length p + length q \<le> length m" "take (length p + length q) (drop k m) = p @ q"
    using assms by (auto simp: get_sub_def split: if_splits)
  have "take (length p) (drop k m) = take (length p) (take (length p + length q) (drop k m))" by simp
  also have "\<dots> = p" unfolding l(2) by simp
  finally show ?thesis using l(1) by (simp add: get_sub_def)
qed

lemma vcs_shape: "\<exists>v. update_attrib_vcs_info c a = a\<lparr>ta_vcs_mode := v\<rparr>"
  unfolding update_attrib_vcs_info_def Let_def by (rule exI, rule refl)

text \<open>Everything but the encryption, for a packet in one frame.\<close>

lemma coalesce_air:
  assumes m: "rtw_xmitframe_coalesce init c pkt a (Some (base, buf)) = Some (RTW_SUCCESS, c', a', out)"
    and k: "tx_kind q a" and d: "tx_dir c a ds q a1 a2 a3" and l6: "length a1 = 6" "length a2 = 6" "length a3 = 6"
    and e: "pa_encrypt a \<noteq> ENC_TKIP" and p: "ta_pkt_hdrlen a = 14"
    and l: "unat (pa_iv_len a) \<le> length (ta_iv a)" "unat (pa_icv_len a) \<le> length (ta_icv a)"
    and fit: "one_frame c a (drop 14 pkt)" "32 + unat (pa_hdrlen a) + length (air_body a (drop 14 pkt)) \<le> length buf"
  shows "\<exists>n am st buf1 ad bo v w. w = frags_attrib (a\<lparr>ta_seqnum := n, ta_ampdu_en := am\<rparr>) 1 8 (length (drop 14 pkt)) \<and>
    a' = w\<lparr>ta_vcs_mode := v\<rparr> \<and> length buf1 = length buf \<and> xmitframe_swencrypt (tc_ad c) w base buf1 = Some (ad, bo) \<and>
    out = map_option (Pair base) bo \<and> c' = c\<lparr>tc_stas := st, tc_ad := ad\<rparr> \<and>
    get_sub buf1 32 (unat (pa_hdrlen a) + length (air_body a (drop 14 pkt))) =
      Some (air_hdr (ta_subtype a) (fc1_of ds a) a1 a2 a3 n @ qc_of q a @ air_body a (drop 14 pkt))"
proof -
  obtain res h a0 c0 where w0: "rtw_make_wlanhdr c a = Some (res, h, a0, c0)"
    using m by (auto simp: rtw_xmitframe_coalesce_def Let_def split: Option.bind_splits)
  then have w: "rtw_make_wlanhdr c a = Some (RTW_SUCCESS, h, a0, c0)"
    using m by (cases res) (auto simp: rtw_xmitframe_coalesce_def Let_def split: Option.bind_splits)
  obtain n am st where h: "h = air_hdr (ta_subtype a) (fc1_of ds a) a1 a2 a3 n @ (if q then [ta_priority a, 0] else [0, 0]) @ replicate 38 0"
    "a0 = a\<lparr>ta_seqnum := n, ta_ampdu_en := am\<rparr>" "c0 = c\<lparr>tc_stas := st\<rparr>"
    using make_wlanhdr_built [OF w k d l6] by blast
  obtain b0 where b0: "put_sub buf TXDESC_OFFSET h = Some b0" using m w by (auto simp: rtw_xmitframe_coalesce_def split: Option.bind_splits)
  have a0: "air_body a0 x = air_body a x" "one_frame c0 a0 x = one_frame c a x" "pa_hdrlen a0 = pa_hdrlen a" "pa_iv_len a0 = pa_iv_len a"
    "pa_icv_len a0 = pa_icv_len a" "ta_iv a0 = ta_iv a" "ta_icv a0 = ta_icv a" "ta_pkt_hdrlen a0 = ta_pkt_hdrlen a"
    "pa_encrypt a0 = pa_encrypt a" for x
    unfolding h(2,3) by (simp_all add: air_body_def air_icv_def one_frame_def)
  have lb0: "length b0 = length buf" using put_sub_length [OF b0] .
  obtain r where hr: "air_hdr (ta_subtype a) (fc1_of ds a) a1 a2 a3 n @ qc_of q a = ta_subtype a # fc1_of ds a # r"
    by (auto simp: air_hdr_def)
  have hd: "unat (pa_hdrlen a) = Suc (Suc (if q then 24 else 22))" using k by (auto simp: tx_kind_def)
  have "get_sub b0 32 (unat (pa_hdrlen a)) = Some (ta_subtype a # fc1_of ds a # r)"
  proof -
    have "get_sub b0 32 (length h) = Some h" using get_put_same [OF b0] by (simp add: TXDESC_OFFSET_def)
    moreover have e: "h = (ta_subtype a # fc1_of ds a # r) @ (if q then replicate 38 0 else [0, 0] @ replicate 38 0)"
      unfolding h(1) hr [symmetric] by (simp add: qc_of_def)
    moreover have "length (ta_subtype a # fc1_of ds a # r) = unat (pa_hdrlen a)"
      unfolding hr [symmetric] using l6 k by (auto simp: air_hdr_length qc_of_def tx_kind_def)
    ultimately show ?thesis using get_sub_front by metis
  qed
  then have g: "get_sub b0 32 (Suc (Suc (if q then 24 else 22))) = Some (ta_subtype a # fc1_of ds a # r)" unfolding hd .
  obtain b1 where b1: "coalesce_loop c0 a0 base b0 32 (drop 14 pkt) 0 = Some (1, 8, length (drop 14 pkt), b1)" "length b1 = length b0"
    "get_sub b1 32 (unat (pa_hdrlen a) + length (air_body a (drop 14 pkt))) =
       Some ((ta_subtype a # fc1_of ds a # r) @ air_body a (drop 14 pkt))"
    using coalesce_one [OF g fc1_no_MFrag [OF d], of a0 c0 "drop 14 pkt" base] hd l fit unfolding a0 lb0 by blast
  have rest: "snd (rtw_pktfile_read pkt (ucast (ta_pkt_hdrlen a0))) = drop 14 pkt" unfolding a0 p by (simp add: rtw_pktfile_read_def)
  define aa where "aa = frags_attrib a0 1 8 (length (drop 14 pkt))"
  have e': "pa_encrypt aa \<noteq> ENC_TKIP" using e a0(9) by (simp add: aa_def frags_attrib_def Let_def)
  have mic: "xmitframe_addmic init c0 aa base b1 = Some (RTW_SUCCESS, aa, b1)" using e' by (simp add: xmitframe_addmic_def)
  have aa2: "frags_attrib a0 (Suc 0) 8 (length pkt - 14) = aa" by (simp add: aa_def)
  define vv where "vv = (if IS_MCAST (pa_ra aa) then aa\<lparr>ta_vcs_mode := NONE_VCS\<rparr> else update_attrib_vcs_info c0 aa)"
  have ad0: "tc_ad c0 = tc_ad c" unfolding h(3) by simp
  have "rtw_xmitframe_coalesce init c pkt a (Some (base, buf)) =
      xmitframe_swencrypt (tc_ad c) aa base b1 \<bind> (\<lambda>(ad, bo). Some (RTW_SUCCESS, c0\<lparr>tc_ad := ad\<rparr>, vv, map_option (Pair base) bo))"
    using w b0 b1(1) rest mic aa2
    by (simp add: rtw_xmitframe_coalesce_def Let_def TXDESC_OFFSET_def split_beta vv_def ad0)
  then have sc: "xmitframe_swencrypt (tc_ad c) aa base b1 \<bind> (\<lambda>(ad, bo). Some (RTW_SUCCESS, c0\<lparr>tc_ad := ad\<rparr>, vv, map_option (Pair base) bo))
      = Some (RTW_SUCCESS, c', a', out)" using m by simp
  then obtain x where x: "xmitframe_swencrypt (tc_ad c) aa base b1 = Some x" by (cases "xmitframe_swencrypt (tc_ad c) aa base b1") simp_all
  obtain ad bo where xb: "x = (ad, bo)" by fastforce
  have sw: "xmitframe_swencrypt (tc_ad c) aa base b1 = Some (ad, bo)" "out = map_option (Pair base) bo"
    "c' = c\<lparr>tc_stas := st, tc_ad := ad\<rparr>" "a' = vv"
    using sc x unfolding xb h(3) by simp_all
  obtain v where v: "a' = aa\<lparr>ta_vcs_mode := v\<rparr>" using sw(4) vcs_shape [of c0 aa] unfolding vv_def by metis
  have w: "aa = frags_attrib (a\<lparr>ta_seqnum := n, ta_ampdu_en := am\<rparr>) 1 8 (length (drop 14 pkt))" unfolding aa_def h(2) ..
  have lb: "length b1 = length buf" using b1(2) lb0 by simp
  have g: "get_sub b1 32 (unat (pa_hdrlen a) + length (air_body a (drop 14 pkt))) =
      Some (air_hdr (ta_subtype a) (fc1_of ds a) a1 a2 a3 n @ qc_of q a @ air_body a (drop 14 pkt))"
    unfolding b1(3) hr [symmetric] by simp
  show ?thesis
    by (rule exI [of _ n], rule exI [of _ am], rule exI [of _ st], rule exI [of _ b1], rule exI [of _ ad], rule exI [of _ bo],
      rule exI [of _ v], rule exI [of _ aa]) (intro conjI w v lb sw(1-3) g)
qed

end
