(* ===== verification/TxFacts.thy ===== *)
theory TxFacts
  imports TxWrite
begin

text \<open>
  What \<open>update_attrib\<close> sets for a station or an access point: the addresses, the kind of header and the length of the packet.
\<close>

text \<open>A station or an access point and nothing else.\<close>

definition tx_sta_mode :: "tx_ctx \<Rightarrow> bool" where "tx_sta_mode c \<longleftrightarrow> tc_fw_state c AND 0x278 = 0x8"
definition tx_ap_mode :: "tx_ctx \<Rightarrow> bool" where "tx_ap_mode c \<longleftrightarrow> tc_fw_state c AND 0x278 = 0x10"

lemma fw_part: "w AND 0x278 = k \<Longrightarrow> m AND 0x278 = m \<Longrightarrow> (w :: u32) AND m = k AND m"
  by (metis and.assoc and.commute)

lemma tx_modes:
  assumes "tx_sta_mode c \<or> tx_ap_mode c"
  shows "check_fwstate (tc_fw_state c) WIFI_STATION_STATE = tx_sta_mode c" "check_fwstate (tc_fw_state c) WIFI_AP_STATE = tx_ap_mode c"
    "\<not> check_fwstate (tc_fw_state c) WIFI_ADHOC_STATE" "\<not> check_fwstate (tc_fw_state c) WIFI_ADHOC_MASTER_STATE"
    "check_fwstate (tc_fw_state c) (WIFI_AP_STATE OR 0x200 OR WIFI_ADHOC_STATE OR WIFI_ADHOC_MASTER_STATE) = tx_ap_mode c"
    "tx_ap_mode c = (\<not> tx_sta_mode c)"
proof -
  let ?w = "tc_fw_state c"
  from assms consider "?w AND 0x278 = 8" | "?w AND 0x278 = 0x10" by (auto simp: tx_sta_mode_def tx_ap_mode_def)
  then have "(check_fwstate ?w WIFI_STATION_STATE = tx_sta_mode c \<and> check_fwstate ?w WIFI_AP_STATE = tx_ap_mode c) \<and>
    \<not> check_fwstate ?w WIFI_ADHOC_STATE \<and> \<not> check_fwstate ?w WIFI_ADHOC_MASTER_STATE \<and>
    check_fwstate ?w (WIFI_AP_STATE OR 0x200 OR WIFI_ADHOC_STATE OR WIFI_ADHOC_MASTER_STATE) = tx_ap_mode c \<and>
    tx_ap_mode c = (\<not> tx_sta_mode c)"
  proof cases
    case 1
    note m = fw_part [OF 1]
    have "?w AND 8 = 8" "?w AND 0x10 = 0" "?w AND 0x20 = 0" "?w AND 0x40 = 0" "?w AND 0x270 = 0"
      using m [of 8] m [of "0x10"] m [of "0x20"] m [of "0x40"] m [of "0x270"] by simp_all
    then show ?thesis using 1 by (simp add: tx_sta_mode_def tx_ap_mode_def check_fwstate_def fw_state_defs)
  next
    case 2
    note m = fw_part [OF 2]
    have "?w AND 8 = 0" "?w AND 0x10 = 0x10" "?w AND 0x20 = 0" "?w AND 0x40 = 0" "?w AND 0x270 = 0x10"
      using m [of 8] m [of "0x10"] m [of "0x20"] m [of "0x40"] m [of "0x270"] by simp_all
    then show ?thesis using 2 by (simp add: tx_sta_mode_def tx_ap_mode_def check_fwstate_def fw_state_defs)
  qed
  then show "check_fwstate ?w WIFI_STATION_STATE = tx_sta_mode c" "check_fwstate ?w WIFI_AP_STATE = tx_ap_mode c"
    "\<not> check_fwstate ?w WIFI_ADHOC_STATE" "\<not> check_fwstate ?w WIFI_ADHOC_MASTER_STATE"
    "check_fwstate ?w (WIFI_AP_STATE OR 0x200 OR WIFI_ADHOC_STATE OR WIFI_ADHOC_MASTER_STATE) = tx_ap_mode c"
    "tx_ap_mode c = (\<not> tx_sta_mode c)" by simp_all
qed

lemma set_qos_shape:
  assumes "set_qos sk pkt a = Some a'"
  shows "\<exists>up < 8. a' = a\<lparr>pa_hdrlen := 26, ta_subtype := WIFI_QOS_DATA_TYPE, ta_priority := up\<rparr>"
proof -
  have "drop_bit 5 t < 8" for t :: u8
  proof -
    have "unat t div 2 ^ 5 < 8" using unat_u8_lt [of t] by (intro less_mult_imp_div_less) simp
    then show ?thesis by (simp add: word_less_nat_alt drop_bit_eq_div unat_div)
  qed
  then show ?thesis using assms
    by (cases a) (auto simp: set_qos_def tos_to_up_def CONFIG_RTW_UP_MAPPING_RULE_def WLAN_HDR_A3_QOS_LEN_def split: Option.bind_splits if_splits)
qed


lemma qos_acm_less: "p < 8 \<Longrightarrow> qos_acm m p < 8"
  by (auto simp: qos_acm_def)

lemma tx_qos_shape:
  assumes q: "tx_qos sk c pkt a = Some a'" and m: "tx_sta_mode c \<or> tx_ap_mode c"
  shows "if (if tx_sta_mode c then tc_qos_option c else ta_qos_en a)
    then \<exists>up < 8. a' = a\<lparr>pa_hdrlen := 26, ta_subtype := WIFI_QOS_DATA_TYPE, ta_priority := up\<rparr> else a' = a"
proof -
  note md = tx_modes [OF m]
  show ?thesis
  proof (cases "tx_sta_mode c")
    case True
    then show ?thesis using q md set_qos_shape [of sk pkt a] qos_acm_less
      by (auto simp: tx_qos_def split: if_splits Option.bind_splits)
  next
    case False
    then show ?thesis using q md set_qos_shape [of sk pkt a a'] by (auto simp: tx_qos_def split: if_splits)
  qed
qed

text \<open>The attributes the frame depends on.\<close>

lemma ip_class_shape: "ip_class sk rest a = Some a' \<Longrightarrow>
    \<exists>i d h. a' = a\<lparr>ta_icmp_pkt := i, ta_dhcp_pkt := d, ta_hipriority_pkt := h\<rparr>"
  by (cases a) (auto simp: ip_class_def udp_class_def Let_def split: if_splits Option.bind_splits prod.splits)

lemma sec_iv_shape: "sec_iv c b a s = (res, a', s') \<Longrightarrow>
    \<exists>il ic iv mk. a' = a\<lparr>pa_iv_len := il, pa_icv_len := ic, ta_iv := iv, ta_tkiptxmickey := mk\<rparr>"
  by (cases a) (auto simp: sec_iv_def Let_def split: if_splits prod.splits)

lemma sec_info_shape:
  assumes "update_attrib_sec_info c a s = (res, a', s')"
  shows "\<exists>il ic iv mk uk e k sw. a' = a\<lparr>pa_iv_len := il, pa_icv_len := ic, ta_iv := iv, ta_tkiptxmickey := mk,
    pa_UncstKey := uk, pa_encrypt := e, ta_key_idx := k, ta_bswenc := sw\<rparr>"
  using assms
  by (cases a) (auto simp: update_attrib_sec_info_def Let_def split: if_splits prod.splits dest!: sec_iv_shape)


text \<open>The lengths that belong to the cipher.\<close>

definition sec_lens :: "tx_attrib \<Rightarrow> bool" where
  "sec_lens a \<longleftrightarrow> (pa_iv_len a, pa_icv_len a) =
     (if is_wep_enc (pa_encrypt a) then (4, 4) else if pa_encrypt a = ENC_TKIP then (8, 4)
      else if pa_encrypt a = ENC_AES then (8, 8) else (0, 0)) \<and> (ta_bswenc a \<longrightarrow> pa_encrypt a \<noteq> 0)"

lemma sec_iv_lens:
  assumes "sec_iv c b a s = (RTW_SUCCESS, a', s')"
  shows "(pa_iv_len a', pa_icv_len a') = (if is_wep_enc (pa_encrypt a) then (4, 4) else if pa_encrypt a = ENC_TKIP then (8, 4)
      else if pa_encrypt a = ENC_AES then (8, 8) else (0, 0))" "pa_encrypt a' = pa_encrypt a"
  using assms by (auto simp: sec_iv_def Let_def split: if_splits prod.splits)

lemma sec_info_lens:
  assumes "update_attrib_sec_info c a s = (RTW_SUCCESS, a', s')"
  shows "sec_lens a'"
proof -
  define b where "b = IS_MCAST (pa_ra a)"
  define a0 where "a0 = a\<lparr>pa_UncstKey := replicate 16 0, ta_tkiptxmickey := replicate 16 0\<rparr>"
  define e where "e = GET_ENCRY_ALGO (tc_auth_alg c) (tc_privacy_alg c) (tc_grp_privacy c) (ts_privacy s) b (pa_encrypt a0)"
  define a1 where "a1 = (if ts_blocked s then a0\<lparr>pa_encrypt := 0\<rparr>
    else a0\<lparr>pa_encrypt := (if is_wep_enc e \<and> ta_ether_type a0 = 0x888e then 0 else e), ta_key_idx := sec_key_idx c b\<rparr>)"
  obtain res a2 s2 where iv: "sec_iv c b a1 s = (res, a2, s2)" by (metis prod_cases3)
  have b0: "b = IS_MCAST (pa_ra a0)" by (simp add: b_def a0_def)
  have "\<not> (ts_blocked s \<and> ta_ether_type a0 \<noteq> 0x888e \<and> \<not> check_fwstate (tc_fw_state c) WIFI_MP_STATE)"
  proof
    assume "ts_blocked s \<and> ta_ether_type a0 \<noteq> 0x888e \<and> \<not> check_fwstate (tc_fw_state c) WIFI_MP_STATE"
    then show False using assms unfolding update_attrib_sec_info_def a0_def [symmetric] Let_def by simp
  qed
  then have u: "(if res = RTW_FAIL then (RTW_FAIL, a2, s2)
     else (RTW_SUCCESS, a2\<lparr>pa_UncstKey := (if pa_encrypt a2 > 0 then ts_UncstKey s2 else pa_UncstKey a2),
        ta_bswenc := (pa_encrypt a2 \<noteq> 0 \<and> (tc_sw_encrypt c \<or> \<not> tc_hw_decrypted c) \<or>
           pa_encrypt a2 \<noteq> 0 \<and> b \<and> tc_dis_bmc_search c)\<rparr>, s2)) = (RTW_SUCCESS, a', s')"
    using assms iv unfolding update_attrib_sec_info_def b_def [symmetric] a0_def [symmetric] Let_def e_def [symmetric] a1_def [symmetric]
    by (simp only: if_False iv prod.case)
  then have r: "res = RTW_SUCCESS" by (cases res) (simp_all)
  note l = sec_iv_lens [OF iv [unfolded r]]
  have "pa_iv_len a' = pa_iv_len a2" "pa_icv_len a' = pa_icv_len a2" "pa_encrypt a' = pa_encrypt a2"
    "ta_bswenc a' \<longrightarrow> pa_encrypt a2 \<noteq> 0"
    using u r by auto
  then show ?thesis using l by (simp add: sec_lens_def)
qed

lemma update_attrib_sta_facts:
  assumes u: "update_attrib_sta sk c pkt rest a1 p s = Some (RTW_SUCCESS, a, c1, acts)" and m: "tx_sta_mode c \<or> tx_ap_mode c"
    and am: "ta_amsdu a1 = 0"
  shows "tx_kind (if tx_sta_mode c then tc_qos_option c else ta_qos_en a) a"
    "ta_dst a = ta_dst a1" "ta_src a = ta_src a1" "ta_ether_type a = ta_ether_type a1" "ta_pkt_hdrlen a = 14"
    "ta_pktlen a = word_of_nat (length rest)" "ta_icv a = ta_icv a1" "pa_ra a = pa_ra a1" "pa_ta a = pa_ta a1"
    "\<exists>st. c1 = c\<lparr>tc_stas := st\<rparr>" "sec_lens a"
proof -
  let ?a = "a1\<lparr>ta_pktlen := word_of_nat (length rest)\<rparr>"
  obtain a2 where a2: "(if ta_ether_type ?a = 0x0800 then ip_class sk rest ?a else Some ?a) = Some a2"
    using u unfolding update_attrib_sta_def Let_def
    by (cases "if ta_ether_type ?a = 0x0800 then ip_class sk rest ?a else Some ?a") auto
  obtain i d h where a2': "a2 = ?a\<lparr>ta_icmp_pkt := i, ta_dhcp_pkt := d, ta_hipriority_pkt := h\<rparr>"
  proof (cases "ta_ether_type ?a = 0x0800")
    case True
    have "ip_class sk rest ?a = Some a2" using a2 unfolding if_P [OF True] .
    from ip_class_shape [OF this] show ?thesis using that by blast
  next
    case False
    then have a2: "a2 = ?a" using a2 by simp
    show ?thesis by (rule that [where i = "ta_icmp_pkt a1" and d = "ta_dhcp_pkt a1" and h = "ta_hipriority_pkt a1"]) (simp add: a2)
  qed
  obtain res a3 s3 where a3: "update_attrib_sec_info c a2 s = (res, a3, s3)" by (metis prod_cases3)
  define a4 where "a4 = a3\<lparr>ta_pkt_hdrlen := 14, pa_hdrlen := word_of_nat WLAN_HDR_A3_LEN, ta_subtype := WIFI_DATA_TYPE,
    ta_qos_en := ts_qos_option s3, ta_priority := 0\<rparr>"
  define c3 where "c3 = tx_put_sta p s3 c"
  have u2: "do {
      let acts = tx_acts c a2;
      if res = RTW_FAIL then Some (RTW_FAIL, a3, c3, acts)
      else do {
        a \<leftarrow> tx_qos sk c3 pkt a4;
        Some (RTW_SUCCESS, (tx_phy_info c3 a s3)\<lparr>ta_psta := Some (sta_key_addr p), ta_ack_policy := 0\<rparr>, c3, acts) } }
     = Some (RTW_SUCCESS, a, c1, acts)"
    using u a2 a3 unfolding update_attrib_sta_def a4_def c3_def Let_def by simp
  have res: "res \<noteq> RTW_FAIL" using u2 by (cases res) (simp_all add: Let_def)
  obtain a5 where q5: "tx_qos sk c3 pkt a4 = Some a5" using u2 res by (cases "tx_qos sk c3 pkt a4") (simp_all add: Let_def)
  have a5: "tx_qos sk c3 pkt a4 = Some a5" "a = (tx_phy_info c3 a5 s3)\<lparr>ta_psta := Some (sta_key_addr p), ta_ack_policy := 0\<rparr>"
    "c1 = c3"
    using u2 res q5 by (auto simp: Let_def)
  show "\<exists>st. c1 = c\<lparr>tc_stas := st\<rparr>" unfolding a5(3) c3_def tx_put_sta_def by blast
  have c3: "tx_sta_mode c3 = tx_sta_mode c" "tx_ap_mode c3 = tx_ap_mode c" "tc_qos_option c3 = tc_qos_option c"
    by (simp_all add: c3_def tx_put_sta_def tx_sta_mode_def tx_ap_mode_def)
  have f4: "ta_dst a4 = ta_dst a1" "ta_src a4 = ta_src a1" "ta_ether_type a4 = ta_ether_type a1" "ta_amsdu a4 = ta_amsdu a1"
    "ta_icv a4 = ta_icv a1" "pa_ra a4 = pa_ra a1" "pa_ta a4 = pa_ta a1" "ta_pktlen a4 = word_of_nat (length rest)"
    "ta_pkt_hdrlen a4 = 14" "pa_hdrlen a4 = 24" "ta_subtype a4 = WIFI_DATA_TYPE" "ta_priority a4 = 0"
    using sec_info_shape [OF a3] unfolding a4_def a2' by (auto simp: WLAN_HDR_A3_LEN_def)
  let ?q = "if tx_sta_mode c then tc_qos_option c else ta_qos_en a4"
  have m3: "tx_sta_mode c3 \<or> tx_ap_mode c3" using m c3 by simp
  have sh: "if ?q then \<exists>up < 8. a5 = a4\<lparr>pa_hdrlen := 26, ta_subtype := WIFI_QOS_DATA_TYPE, ta_priority := up\<rparr> else a5 = a4"
    using tx_qos_shape [OF a5(1) m3] unfolding c3 .
  have r: "res = RTW_SUCCESS" using res by (cases res) simp_all
  have "sec_lens a3" by (rule sec_info_lens [OF a3 [unfolded r]])
  then show "sec_lens a" using sh unfolding a5(2) tx_phy_info_def Let_def a4_def by (auto simp: sec_lens_def split: if_splits)
  have q: "ta_qos_en a = ta_qos_en a4" using sh unfolding a5(2) tx_phy_info_def Let_def by (auto split: if_splits)
  show "ta_dst a = ta_dst a1" "ta_src a = ta_src a1" "ta_ether_type a = ta_ether_type a1" "ta_pkt_hdrlen a = 14"
    "ta_pktlen a = word_of_nat (length rest)" "ta_icv a = ta_icv a1" "pa_ra a = pa_ra a1" "pa_ta a = pa_ta a1"
    using sh f4 unfolding a5(2) tx_phy_info_def Let_def by (auto split: if_splits)
  show "tx_kind (if tx_sta_mode c then tc_qos_option c else ta_qos_en a) a"
    unfolding q using sh f4 am unfolding a5(2) tx_phy_info_def Let_def tx_kind_def by (auto split: if_splits)
qed

lemma update_attrib_facts:
  assumes u: "update_attrib sk c pkt a0 = Some (RTW_SUCCESS, a, c1, acts)" and m: "tx_sta_mode c \<or> tx_ap_mode c"
    and len: "14 \<le> length pkt" "length pkt < 2 ^ 30" and am: "ta_amsdu a0 = 0"
  shows "tx_kind (if tx_sta_mode c then tc_qos_option c else ta_qos_en a) a"
    "ta_dst a = take 6 pkt" "ta_src a = take 6 (drop 6 pkt)" "ta_ether_type a = RTW_GET_BE16 (take 2 (drop 12 pkt))"
    "ta_pkt_hdrlen a = 14" "unat (ta_pktlen a) = length pkt - 14" "ta_icv a = ta_icv a0"
    "pa_ra a = (if tx_sta_mode c then tc_bssid c else take 6 pkt)" "pa_ta a = (if tx_sta_mode c then tc_hwaddr c else tc_bssid c)"
    "\<exists>st. c1 = c\<lparr>tc_stas := st\<rparr>" "sec_lens a"
proof -
  note md = tx_modes [OF m]
  define a1 where "a1 = tx_addrs c (take 14 pkt @ drop 14 (sk_eth sk)) a0"
  have pk: "take 6 (take 14 pkt @ x) = take 6 pkt" "take 6 (drop 6 (take 14 pkt @ x)) = take 6 (drop 6 pkt)"
    "take 2 (drop 12 (take 14 pkt @ x)) = take 2 (drop 12 pkt)" for x
    using len(1) by (simp_all add: drop_take min_absorb2)
  have f1: "ta_dst a1 = take 6 pkt" "ta_src a1 = take 6 (drop 6 pkt)" "ta_ether_type a1 = RTW_GET_BE16 (take 2 (drop 12 pkt))"
    "ta_amsdu a1 = 0" "ta_icv a1 = ta_icv a0" "pa_ra a1 = (if tx_sta_mode c then tc_bssid c else take 6 pkt)"
    "pa_ta a1 = (if tx_sta_mode c then tc_hwaddr c else tc_bssid c)"
    using am md m unfolding a1_def tx_addrs_def Let_def pk by auto
  have rt: "rtw_pktfile_read pkt 14 = (take 14 pkt, drop 14 pkt)" by (simp add: rtw_pktfile_read_def)
  have aw: "array_write (take 14 pkt) (sk_eth sk) = take 14 pkt @ drop 14 (sk_eth sk)"
    using len(1) by (simp add: array_write_def min_absorb2)
  define p where "p = (if IS_MCAST (pa_ra a1) then replicate 6 0xff else pa_ra a1)"
  have "(case tx_get_sta c p of None \<Rightarrow> Some (RTW_FAIL, a1, c, [])
     | Some s \<Rightarrow> if ts_state s AND WIFI_ASOC_STATE = 0 then Some (RTW_FAIL, a1, c, [])
         else update_attrib_sta sk c pkt (drop 14 pkt) a1 p s) = Some (RTW_SUCCESS, a, c1, acts)"
    using u unfolding update_attrib_def rt Let_def prod.case aw a1_def [symmetric] p_def [symmetric] .
  then obtain s where "update_attrib_sta sk c pkt (drop 14 pkt) a1 p s = Some (RTW_SUCCESS, a, c1, acts)"
    by (auto split: option.splits if_splits)
  note f = update_attrib_sta_facts [OF this m f1(4)]
  show "tx_kind (if tx_sta_mode c then tc_qos_option c else ta_qos_en a) a" by (rule f(1))
  show "ta_dst a = take 6 pkt" "ta_src a = take 6 (drop 6 pkt)" "ta_ether_type a = RTW_GET_BE16 (take 2 (drop 12 pkt))"
    "ta_pkt_hdrlen a = 14" "ta_icv a = ta_icv a0"
    "pa_ra a = (if tx_sta_mode c then tc_bssid c else take 6 pkt)" "pa_ta a = (if tx_sta_mode c then tc_hwaddr c else tc_bssid c)"
    using f f1 by simp_all
  show "unat (ta_pktlen a) = length pkt - 14" using f(6) len by (simp add: unsigned_of_nat take_bit_nat_eq_self del: of_nat_diff)
  show "\<exists>st. c1 = c\<lparr>tc_stas := st\<rparr>" by (rule f(10))
  show "sec_lens a" by (rule f(11))
qed

end
