(* ===== verification/TxAir.thy ===== *)
theory TxAir
  imports TxFacts RxPost
begin

text \<open>
  A frame of the transmit path at its receiver: the fields of the header that \<open>rtw_make_wlanhdr\<close> builds as
  \<open>validate_recv_frame\<close> reads them, its acceptance, and the packet \<open>wlanhdr_to_ethhdr\<close> makes of it again.
\<close>

section \<open>The header at the receiver\<close>

lemma hdr16_air: "hdr16 (air_hdr fc0 fc1 a1 a2 a3 n @ r) 0 = ucast fc0 OR push_bit 8 (ucast fc1)"
  by (simp add: air_hdr_def hdr16_Cons)

lemma hdr16_air_seq:
  assumes "length a1 = 6" "length a2 = 6" "length a3 = 6"
  shows "hdr16 (air_hdr fc0 fc1 a1 a2 a3 n @ r) 22 = push_bit 4 n"
proof -
  have "hdr16 (([fc0, fc1, 0, 0] @ a1 @ a2 @ a3) @ ucast (push_bit 4 n) # ucast (drop_bit 8 (push_bit 4 n)) # r) 22
      = ucast (ucast (push_bit 4 n) :: u8) OR push_bit 8 (ucast (ucast (drop_bit 8 (push_bit 4 n)) :: u8))"
    using assms by (intro hdr16_behind) simp
  also have "\<dots> = push_bit 4 n" by (intro bit_word_eqI) (auto simp: bit_simps dest!: less_16_cases)
  finally show ?thesis by (simp add: air_hdr_def)
qed

lemma air_hdr_fields:
  assumes l: "length a1 = 6" "length a2 = 6" "length a3 = 6" and ds: "ds = 1 \<or> ds = 2" and k: "fc0 = (if q then 0x88 else 0x08)"
    and fc1: "fc1 = ds OR (if e then 0x40 else 0)"
    and h_def: "h = air_hdr fc0 fc1 a1 a2 a3 n"
  shows "GetFrameType h = Some 8" "get_frame_sub_type h = Some (if q then 0x88 else 0x08)" "h ! 0 = fc0"
    "get_tofr_ds h = (if ds = 1 then 2 else 1)" "GetPrivacy h = e" "\<not> GetOrder h" "\<not> GetMFrag h"
    "GetAddr1Ptr (h @ r) = a1" "get_addr2_ptr (h @ r) = a2" "GetAddr3Ptr (h @ r) = a3"
    "GetSequence h = drop_bit 4 (push_bit 4 n)" "GetFragNum h = 0"
proof -
  have w: "hdr16 h 0 = ucast fc0 OR push_bit 8 (ucast fc1)" using hdr16_air [of fc0 fc1 a1 a2 a3 n "[]"] by (simp add: h_def)
  have s: "hdr16 h 22 = push_bit 4 n" using hdr16_air_seq [OF l, of fc0 fc1 n "[]"] by (simp add: h_def)
  show "GetSequence h = drop_bit 4 (push_bit 4 n)" by (simp add: GetSequence_def s)
  show "GetFragNum h = 0" unfolding GetFragNum_def s by (intro bit_word_eqI) (auto simp: bit_simps dest!: less_16_cases)
  show "h ! 0 = fc0" by (simp add: h_def air_hdr_def)
  show "GetAddr1Ptr (h @ r) = a1" "get_addr2_ptr (h @ r) = a2" "GetAddr3Ptr (h @ r) = a3"
    using l by (simp_all add: h_def air_hdr_def GetAddr1Ptr_def get_addr2_ptr_def GetAddr3Ptr_def)
  have r: "rd h 0 = Some fc0" "rd h (Suc 0) = Some fc1" by (simp_all add: h_def air_hdr_def rd_def)
  show "GetFrameType h = Some 8" "get_frame_sub_type h = Some (if q then 0x88 else 0x08)"
    using ds k fc1 by (auto simp: GetFrameType_def get_frame_sub_type_def frame_ctl_def r)
  show "get_tofr_ds h = (if ds = 1 then 2 else 1)" "GetPrivacy h = e" "\<not> GetOrder h" "\<not> GetMFrag h"
    using ds k fc1 by (auto simp: get_tofr_ds_def GetToDs_def GetFrDs_def GetPrivacy_def GetOrder_def GetMFrag_def w)
qed

section \<open>Acceptance\<close>

text \<open>
  The steps of the validation, put together: a data frame \<open>f\<close> with header \<open>h\<close> for which the check of the direction, the
  duplicate detection and the replay check succeed is accepted.
\<close>

lemma validate_accepts:
  assumes h: "get_sub (frame_mem f) 0 24 = Some h" "h ! 0 AND 3 = 0" "GetFrameType h = Some 8" "get_frame_sub_type h = Some subtype"
    and a0: "a0 = (hdr_fields h (fr_attr f))\<lparr>at_qos := bit subtype 7\<rparr>" and ds: "get_tofr_ds h < 3"
    and qc: "(if bit subtype 7 then get_sub (frame_mem f) 24 2 else Some [0, 0]) = Some qc"
    and dir: "dir_check c (frame_mem f) (a0\<lparr>at_amsdu := bit subtype 7 \<and> GetAMsdu qc\<rparr>) = Some (RX_OK, a, Some p, acts)"
    and s: "get_sta c p = Some s" and aq: "aq = qos_fields qc 0 (a\<lparr>at_ack_policy := 0\<rparr>)"
    and dec: "recv_decache (seq_view aq (frame_mem f)) (rs_recv s) = Some (RTW_SUCCESS, rv)"
    and pn: "\<And>b. \<exists>s' iv. pn_check (c\<lparr>rc_non_be := b\<rparr>) aq (frame_mem f) (s\<lparr>rs_recv := rv\<rparr>) = Some (RTW_SUCCESS, s', iv)"
  shows "\<exists>v. validate_recv_frame c f = Some v \<and> rr_ret v = RX_OK \<and> rr_psta v = Some p \<and> rr_frame v = set_attr f (crypt_fields c s aq)"
proof -
  let ?f0 = "set_attr f a0"
  have b: "rd (frame_mem f) 0 = Some (h ! 0)" using h(1) by (auto simp: get_sub_def rd_def split: if_splits)
  have f0: "frame_mem ?f0 = frame_mem f" "fr_attr ?f0 = a0" by (simp_all add: set_attr_def frame_mem_def)
  have v: "validate_recv_frame c f = validate_recv_data_frame c ?f0"
    using h b by (simp add: validate_recv_frame_def Let_def a0 set_attr_def)
  have q: "at_qos a0 = bit subtype 7" "at_to_fr_ds a0 = get_tofr_ds h" by (simp_all add: a0 hdr_fields_def)
  have d: "validate_recv_data_frame c ?f0 = validate_sta_frame c ?f0 qc 0 a p s acts"
  proof -
    have sh: "(if get_tofr_ds h = 3 then ETH_ALEN else 0) = 0" using ds by simp
    have qc': "(if bit subtype 7 then get_sub (frame_mem f) (WLAN_HDR_A3_LEN + 0) 2 else Some [0, 0]) = Some qc"
      using qc by (simp only: WLAN_HDR_A3_LEN_def add_0_right)
    show ?thesis unfolding validate_recv_data_frame_def f0 Let_def q sh qc' Option.bind.bind_lunit dir by (simp add: s)
  qed
  define c' where "c' = (if at_qos aq then c\<lparr>rc_non_be := (at_priority aq \<noteq> 0 \<and> at_priority aq \<noteq> 3)\<rparr> else c)"
  have "c' = c\<lparr>rc_non_be := rc_non_be c'\<rparr>" by (simp add: c'_def)
  then obtain s' iv where p1: "pn_check c' aq (frame_mem f) (s\<lparr>rs_recv := rv\<rparr>) = Some (RTW_SUCCESS, s', iv)"
    using pn by metis
  have pr: "rs_privacy s' = rs_privacy s" using p1 by (auto simp: pn_check_def split: if_splits Option.bind_splits)
  have "validate_sta_frame c ?f0 qc 0 a p s acts =
      Some (rx_out ?f0 RX_OK (crypt_fields (put_sta p s' (c'\<lparr>rc_iv_seq := iv\<rparr>)) s' aq) (Some p)
        (if \<not> IS_MCAST (at_ra aq) \<and> at_qos aq then Some (unat (at_priority aq)) else None) (put_sta p s' (c'\<lparr>rc_iv_seq := iv\<rparr>)) acts)"
    using dec p1 unfolding validate_sta_frame_def f0 aq [symmetric] Let_def c'_def [symmetric] by simp
  moreover have "crypt_fields (put_sta p s' (c'\<lparr>rc_iv_seq := iv\<rparr>)) s' aq = crypt_fields c s aq"
    by (rule crypt_fields_sta [OF pr]) (simp_all add: put_sta_def c'_def)
  ultimately show ?thesis unfolding v d by (simp add: rx_out_def set_attr_def)
qed


lemma dir_check_to_ap:
  assumes "is_ap c" "at_to_fr_ds a = 2" "GetAddr1Ptr m = rc_bssid c" "get_sta c (get_addr2_ptr m) \<noteq> None"
    "get_frame_sub_type m = Some sub" "\<not> bit sub 6"
  shows "\<exists>acts. dir_check c m a = Some (RX_OK, dir_addrs m a, Some (get_addr2_ptr m), acts)"
proof -
  have b: "at_bssid (dir_addrs m a) = rc_bssid c" using assms(2,3) by (simp add: dir_addrs_def Let_def)
  have st: "check_fwstate (rc_fw_state c) WIFI_AP_STATE" using assms(1) by (simp add: is_ap_def)
  have fd: "found c (get_addr2_ptr m) = Some (get_addr2_ptr m)" using assms(4) by (simp add: found_Some)
  show ?thesis using assms(2,5,6) by (simp add: dir_check_def sta2ap_data_frame_def Let_def st b fd)
qed

lemma dir_check_to_sta:
  assumes "linked_sta c" "at_to_fr_ds a = 1" "get_addr2_ptr m = rc_bssid c" "rc_bssid c \<noteq> no_addr" "GetAddr3Ptr m \<noteq> rc_hwaddr c"
    "GetAddr1Ptr m = rc_hwaddr c \<or> IS_MCAST (GetAddr1Ptr m)" "get_sta c (get_addr2_ptr m) \<noteq> None"
    "get_frame_sub_type m = Some sub" "\<not> bit sub 6"
  shows "\<exists>acts. dir_check c m a = Some (RX_OK, dir_addrs m a, Some (get_addr2_ptr m), acts)"
proof -
  have b: "at_bssid (dir_addrs m a) = rc_bssid c" "at_src (dir_addrs m a) = GetAddr3Ptr m" "at_dst (dir_addrs m a) = GetAddr1Ptr m"
    using assms(2,3) by (simp_all add: dir_addrs_def Let_def)
  have st: "check_fwstate (rc_fw_state c) WIFI_STATION_STATE" "check_fwstate (rc_fw_state c) WIFI_ASOC_STATE"
    using assms(1) by (simp_all add: linked_sta_def)
  have fd: "found c (get_addr2_ptr m) = Some (get_addr2_ptr m)" using assms(7) by (simp add: found_Some)
  have d: "\<not> (rc_hwaddr c = GetAddr3Ptr m \<or> rc_hwaddr c \<noteq> GetAddr1Ptr m \<and> \<not> IS_MCAST (GetAddr1Ptr m))"
    "\<not> (rc_bssid c = no_addr \<or> rc_bssid c = no_addr \<or> rc_bssid c \<noteq> rc_bssid c)"
    using assms(4-6) by auto
  have "ap2sta_data_frame c m (dir_addrs m a) = Some (RX_OK, dir_addrs m a, Some (get_addr2_ptr m), [])"
    unfolding ap2sta_data_frame_def Let_def b attr_dir_addrs if_not_P [OF d(1)] if_not_P [OF d(2)] fd using assms(8,9) st by simp
  then show ?thesis using assms(2) by (simp add: dir_check_def)
qed

section \<open>The frame at the receiver\<close>

text \<open>
  The receiver \<open>r\<close> is the access point the frame is for, or the linked station it is for, and knows the transmitter.
\<close>

definition air_peer :: "rx_ctx \<Rightarrow> u8 \<Rightarrow> bytes \<Rightarrow> bytes \<Rightarrow> bytes \<Rightarrow> bool" where
  "air_peer r ds a1 a2 a3 \<longleftrightarrow> get_sta r a2 \<noteq> None \<and>
     (if ds = 1 then is_ap r \<and> a1 = rc_bssid r
      else linked_sta r \<and> a2 = rc_bssid r \<and> a2 \<noteq> no_addr \<and> a3 \<noteq> rc_hwaddr r \<and> (a1 = rc_hwaddr r \<or> IS_MCAST a1))"

text \<open>The last sequence control of the class of the frame.\<close>

definition class_seq :: "bool \<Rightarrow> nat \<Rightarrow> bytes \<Rightarrow> sta_recv_priv \<Rightarrow> u16" where
  "class_seq q tid ra p =
     (if q then if IS_MCAST ra then bmc_tid_rxseq p ! tid else tid_rxseq (rxcache p) ! tid
      else if IS_MCAST ra then nonqos_bmc_rxseq p else nonqos_rxseq p)"

lemma decache_fresh:
  assumes "length (bmc_tid_rxseq p) = 16" "length (tid_rxseq (rxcache p)) = 16" "unat (ra_priority g) < 16"
    "ra_seq_num g = drop_bit 4 (push_bit 4 n)" "ra_frag_num g = 0"
    "class_seq (ra_qos g) (unat (ra_priority g)) (ra_addr g) p \<noteq> push_bit 4 n"
  shows "\<exists>p'. recv_decache g p = Some (RTW_SUCCESS, p')"
proof -
  have "rx_seq_ctrl g = push_bit 4 n"
    unfolding rx_seq_ctrl_def assms(4,5) by (intro bit_word_eqI) (auto simp: bit_simps dest!: less_16_cases)
  then show ?thesis using assms by (auto simp: recv_decache_def class_seq_def rd_def Let_def split: if_splits)
qed


text \<open>A frame without protection on the air is accepted, with the addresses of the packet.\<close>

definition air_plain :: "bool \<Rightarrow> u8 \<Rightarrow> u8 \<Rightarrow> bytes \<Rightarrow> bytes \<Rightarrow> bytes \<Rightarrow> u16 \<Rightarrow> bytes \<Rightarrow> bytes" where
  "air_plain q prio ds a1 a2 a3 n body =
     air_hdr (if q then WIFI_QOS_DATA_TYPE else WIFI_DATA_TYPE) ds a1 a2 a3 n @ (if q then [prio, 0] else []) @ body"

lemma qc_read:
  assumes "prio < (8 :: u8)"
  shows "ucast (GetPriority [prio, 0]) = prio" "\<not> GetAMsdu [prio, 0]"
  using small_word_cases [OF assms] by (auto simp: GetPriority_def GetAMsdu_def hdr16_Cons)

lemma air_accepted:
  assumes f: "buf_ok (fr_buf f)" "buf_bytes (fr_buf f) = air_plain q prio ds a1 a2 a3 n body"
    and l: "length a1 = 6" "length a2 = 6" "length a3 = 6" and ds: "ds = 1 \<or> ds = 2" and pr: "prio < 8"
    and peer: "air_peer r ds a1 a2 a3" "get_sta r a2 = Some s" and e: "at_encrypt (fr_attr f) = 0"
    and sq: "length (bmc_tid_rxseq (rs_recv s)) = 16" "length (tid_rxseq (rxcache (rs_recv s))) = 16"
    and fresh: "class_seq q (unat prio) a1 (rs_recv s) \<noteq> push_bit 4 n"
  shows "\<exists>v. validate_recv_frame r f = Some v \<and> rr_ret v = RX_OK \<and> rr_psta v = Some a2 \<and>
    (\<exists>A. rr_frame v = set_attr f A \<and> at_encrypt A = 0 \<and> off_payload A = (if q then 26 else 24) \<and>
       at_dst A = (if ds = 1 then a3 else a1) \<and> at_src A = (if ds = 1 then a2 else a3))"
proof -
  let ?fc0 = "if q then WIFI_QOS_DATA_TYPE else WIFI_DATA_TYPE" and ?qc = "if q then [prio, 0] else [0, 0]"
  define h where "h = air_hdr ?fc0 ds a1 a2 a3 n"
  have k0: "?fc0 = (if q then 0x88 else 0x08)" by (simp add: WIFI_QOS_DATA_TYPE_def WIFI_DATA_TYPE_def)
  have k1: "ds = ds OR (if False then 0x40 else 0)" by simp
  note fields = air_hdr_fields [OF l ds k0 k1 h_def]
  have lh: "length h = 24" unfolding h_def by (rule air_hdr_length [OF l])
  define m where "m = frame_mem f"
  have tk: "take (nat (rb_len (fr_buf f))) m = h @ (if q then [prio, 0] else []) @ body"
    using f(2) by (simp add: m_def frame_mem_def buf_bytes_def air_plain_def h_def)
  then obtain rest where m: "m = h @ (if q then [prio, 0] else []) @ body @ rest"
    by (metis append_assoc append_take_drop_id)
  define t where "t = (if q then [prio, 0] else []) @ body @ rest"
  have mt: "m = h @ t" using m by (simp add: t_def)
  have g0: "get_sub m 0 24 = Some h" unfolding mt by (simp add: get_sub_def lh)
  have g24: "(if q then get_sub m 24 2 else Some [0, 0]) = Some ?qc" unfolding m by (auto simp: get_sub_def lh)
  have ad: "GetAddr1Ptr m = a1" "get_addr2_ptr m = a2" "GetAddr3Ptr m = a3" using fields(8-10) [of t] unfolding mt [symmetric] .
  have sub: "get_frame_sub_type m = Some (if q then 0x88 else 0x08)"
    using fields(2) lh by (simp add: mt get_frame_sub_type_def rd_def nth_append frame_ctl_def)
  define st where "st = (if q then 0x88 else 0x08 :: u32)"
  have bq: "bit st 7 = q" "\<not> bit st 6" by (simp_all add: st_def)
  define a0 where "a0 = (hdr_fields h (fr_attr f))\<lparr>at_qos := bit st 7\<rparr>"
  have h2: "h ! 0 AND 3 = 0" unfolding fields(3) k0 by simp
  define b0 where "b0 = a0\<lparr>at_amsdu := bit st 7 \<and> GetAMsdu ?qc\<rparr>"
  have b0: "at_to_fr_ds b0 = (if ds = 1 then 2 else 1)" "at_qos b0 = q" "\<not> at_order b0" "\<not> at_privacy b0" "at_encrypt b0 = 0"
    "at_seq_num b0 = drop_bit 4 (push_bit 4 n)" "at_frag_num b0 = 0"
    using fields e bq(1) by (simp_all add: b0_def a0_def hdr_fields_def)
  have dir: "\<exists>acts. dir_check r m b0 = Some (RX_OK, dir_addrs m b0, Some a2, acts)"
  proof (cases "ds = 1")
    case True
    then show ?thesis using dir_check_to_ap [of r b0 m st] peer b0(1) bq(2) sub unfolding ad st_def [symmetric]
      by (auto simp: air_peer_def)
  next
    case False
    then show ?thesis using dir_check_to_sta [of r b0 m st] peer b0(1) bq(2) sub unfolding ad st_def [symmetric]
      by (auto simp: air_peer_def)
  qed
  then obtain acts where acts: "dir_check r m b0 = Some (RX_OK, dir_addrs m b0, Some a2, acts)" by blast
  define aq where "aq = qos_fields ?qc 0 ((dir_addrs m b0)\<lparr>at_ack_policy := 0\<rparr>)"
  have aq: "at_priority aq = (if q then prio else 0)" "at_hdrlen aq = (if q then 26 else 24)"
    using b0(2,3) qc_read [OF pr] by (simp_all add: aq_def qos_fields_def WLAN_HDR_A3_QOS_LEN_def WLAN_HDR_A3_LEN_def)
  have aq': "at_qos aq = q" "\<not> at_privacy aq" "at_encrypt aq = 0" "at_ra aq = a1" "at_seq_num aq = drop_bit 4 (push_bit 4 n)"
    "at_frag_num aq = 0" "at_dst aq = (if ds = 1 then a3 else a1)" "at_src aq = (if ds = 1 then a2 else a3)"
    using b0 ad by (auto simp: aq_def qos_fields_def dir_addrs_def Let_def)
  have p16: "unat prio < 16" using pr by (simp add: word_less_nat_alt)
  have g: "ra_qos (seq_view aq m) = q" "ra_priority (seq_view aq m) = (if q then prio else 0)" "ra_addr (seq_view aq m) = a1"
    "ra_seq_num (seq_view aq m) = drop_bit 4 (push_bit 4 n)" "ra_frag_num (seq_view aq m) = 0"
    using aq(1) aq' by (simp_all add: seq_view_def)
  have cl: "class_seq q (unat (if q then prio else 0)) a1 (rs_recv s) \<noteq> push_bit 4 n" "unat (if q then prio else 0) < 16"
    using fresh p16 by (cases q; simp add: class_seq_def)+
  obtain rv where rv: "recv_decache (seq_view aq m) (rs_recv s) = Some (RTW_SUCCESS, rv)"
    using decache_fresh [OF sq, of "seq_view aq m" n, unfolded g, OF cl(2) refl refl cl(1)] by blast
  have pn: "\<exists>s' iv. pn_check (r\<lparr>rc_non_be := b\<rparr>) aq m (s\<lparr>rs_recv := rv\<rparr>) = Some (RTW_SUCCESS, s', iv)" for b
    using p16 aq(1) aq'(3)
    by (auto simp: pn_check_def seq_view_def recv_ucast_pn_decache_def recv_bcast_pn_decache_def Let_def ENC_AES_def)
  have t3: "get_tofr_ds h < 3" using fields(4) by simp
  have g24': "(if bit st 7 then get_sub (frame_mem f) 24 2 else Some [0, 0]) = Some ?qc"
    using g24 unfolding bq(1) m_def [symmetric] .
  note va = validate_accepts [OF g0 [unfolded m_def] h2 fields(1) fields(2) [folded st_def] a0_def t3 g24'
      acts [unfolded b0_def m_def] peer(2) aq_def [unfolded b0_def m_def] rv [unfolded m_def] pn [unfolded m_def]]
  have cr: "crypt_fields r s aq = aq\<lparr>at_encrypt := 0, at_iv_len := 0, at_icv_len := 0\<rparr>" by (rule crypt_plain [OF aq'(2)])
  define A where "A = aq\<lparr>at_encrypt := 0, at_iv_len := 0, at_icv_len := 0\<rparr>"
  have A: "at_encrypt A = 0" "off_payload A = (if q then 26 else 24)" "at_dst A = (if ds = 1 then a3 else a1)"
    "at_src A = (if ds = 1 then a2 else a3)"
    using aq aq' by (simp_all add: A_def off_payload_def)
  show ?thesis using va A unfolding cr A_def [symmetric] by blast
qed


section \<open>The packet at the receiver\<close>

lemma be16_bytes: "ucast (drop_bit 8 (et :: u16)) = (x :: u8) \<Longrightarrow> ucast et = (y :: u8) \<Longrightarrow> et = push_bit 8 (ucast x) OR ucast y"
  using be16_get [of et] by (simp add: RTW_GET_BE16_def be16_def)

lemma snap_eth: "eth_frame da sa (rtw_put_snap et @ payload) = da @ sa @ be16 et @ payload"
  by (auto simp: eth_frame_def rtw_put_snap_def be16_def is_snap_def rtw_rfc1042_header_def rtw_bridge_tunnel_header_def
      SNAP_ETH_TYPE_IPX_def SNAP_ETH_TYPE_APPLETALK_AARP_def dest: be16_bytes)

lemma air_delivered:
  assumes f: "buf_ok (fr_buf f)" "buf_bytes (fr_buf f) = air_plain q prio ds a1 a2 a3 n (rtw_put_snap et @ payload)"
    and l: "length a1 = 6" "length a2 = 6" "length a3 = 6" and ds: "ds = 1 \<or> ds = 2" and pr: "prio < 8"
    and peer: "air_peer r ds a1 a2 a3" "get_sta r a2 = Some s" and e: "at_encrypt (fr_attr f) = 0"
    and sq: "length (bmc_tid_rxseq (rs_recv s)) = 16" "length (tid_rxseq (rxcache (rs_recv s))) = 16"
    and fresh: "class_seq q (unat prio) a1 (rs_recv s) \<noteq> push_bit 4 n"
  shows "\<exists>v f'. validate_recv_frame r f = Some v \<and> rr_ret v = RX_OK \<and> rr_psta v = Some a2 \<and>
    wlanhdr_to_ethhdr False (rr_frame v) = Some (RTW_SUCCESS, f') \<and>
    buf_bytes (fr_buf f') = (if ds = 1 then a3 else a1) @ (if ds = 1 then a2 else a3) @ be16 et @ payload"
proof -
  obtain v A where v: "validate_recv_frame r f = Some v" "rr_ret v = RX_OK" "rr_psta v = Some a2" "rr_frame v = set_attr f A"
    and A: "at_encrypt A = 0" "off_payload A = (if q then 26 else 24)" "at_dst A = (if ds = 1 then a3 else a1)"
      "at_src A = (if ds = 1 then a2 else a3)"
    using air_accepted [OF f l ds pr peer e sq fresh] by blast
  define g where "g = set_attr f A"
  have g: "fr_attr g = A" "eth_input g = fr_buf f" "fr_buf g = fr_buf f" using A(1) by (simp_all add: g_def set_attr_def eth_input_def)
  let ?p = "rtw_put_snap et @ payload" and ?h = "air_hdr (if q then WIFI_QOS_DATA_TYPE else WIFI_DATA_TYPE) ds a1 a2 a3 n"
  have h: "length ?h = 24" by (rule air_hdr_length [OF l])
  have p: "?p = drop (nat (off_payload (fr_attr g))) (buf_bytes (eth_input g))"
    unfolding g A(2) f(2) air_plain_def using h by simp
  have p8: "8 \<le> length ?p" by (simp add: rtw_put_snap_def be16_def)
  have b: "buf_ok (eth_input g)" unfolding g(2) by (rule f(1))
  have o14: "14 \<le> off_payload (fr_attr g)" unfolding g(1) A(2) by simp
  have l6: "length (at_dst (fr_attr g)) = 6" "length (at_src (fr_attr g)) = 6" unfolding g(1) A(3,4) using l by simp_all
  from wlanhdr_to_ethhdr_eth [OF b o14 p p8 l6] obtain f' where
    "wlanhdr_to_ethhdr False g = Some (RTW_SUCCESS, f')" "buf_bytes (fr_buf f') = eth_frame (at_dst A) (at_src A) ?p"
    unfolding g(1) by blast
  then show ?thesis using v unfolding g_def [symmetric] snap_eth A(3,4) by auto
qed

end
