(* ===== verification/TxPort.thy ===== *)
theory TxPort
  imports TxFacts
begin

text \<open>
  What protects the packets that are sent: the packet number in the header of a CCMP frame and how the receiver reads it, and
  the port of 802.1X, which \<open>update_attrib\<close> keeps closed for everything but EAPOL. With a station for the witnesses.
\<close>

section \<open>Packet numbers\<close>

lemma bit_le_val_Cons:
  "bit (le_val (b # bs)) n \<longleftrightarrow> n < 64 \<and> (if n < 8 then bit b n else bit (le_val bs) (n - 8))"
  using bit_imp_le_length [of b n] by (auto simp: bit_simps)

lemma bit_TSC: "bit (TSC k v) m \<longleftrightarrow> m < 8 \<and> bit v (8 * k + m)"
  by (auto simp: TSC_def bit_simps add.commute)

lemma pn_bits: "bit (CCMPH_2_PN ch) n \<longleftrightarrow> (if n < 16 then bit ch n else n < 48 \<and> bit ch (n + 16))"
proof -
  have m: "(0x000000000000ffff :: u64) = mask 16" "(0xffffffff00000000 :: u64) = push_bit 32 (mask 32)"
    by (simp_all add: mask_eq_exp_minus_1)
  have "bit (CCMPH_2_PN ch) n \<longleftrightarrow> n < 16 \<and> bit ch n \<or> bit ch (n + 16) \<and> 32 \<le> n + 16 \<and> n + 16 < 64"
    unfolding CCMPH_2_PN_def m bit_or_iff bit_and_iff bit_drop_bit_eq o_def bit_push_bit_iff bit_mask_iff
    using bit_imp_le_length [of ch "16 + n"] by (auto simp: add.commute)
  then show ?thesis by auto
qed

lemma keyid_bits: "bit (CCMPH_2_KEYID ch) n \<longleftrightarrow> n < 2 \<and> bit ch (n + 30)"
proof -
  have m: "(0x00000000c0000000 :: u64) = push_bit 30 (mask 2)" by (simp add: mask_eq_exp_minus_1)
  show ?thesis unfolding CCMPH_2_KEYID_def m bit_and_iff bit_drop_bit_eq o_def bit_push_bit_iff bit_mask_iff
    using bit_imp_le_length [of ch "30 + n"] by (auto simp: add.commute)
qed

lemma u48_bits:
  assumes "v < 2 ^ 48"
  shows "bit (v :: u64) n \<longleftrightarrow> n < 48 \<and> bit v n"
proof -
  have "unat v < 2 ^ 48" using assms by (simp add: word_less_nat_alt)
  then have "take_bit 48 v = v" by (intro word_unat_eq_iff [THEN iffD2]) (simp add: unsigned_take_bit_eq take_bit_nat_eq_self)
  then show ?thesis by (metis bit_take_bit_iff)
qed

lemma TSC_value:
  assumes "v < 2 ^ 48"
  shows "CCMPH_2_PN (le_val [TSC 0 v, TSC 1 v, 0, x, TSC 2 v, TSC 3 v, TSC 4 v, TSC 5 v]) = v"
    "CCMPH_2_KEYID (le_val [TSC 0 v, TSC 1 v, 0, x, TSC 2 v, TSC 3 v, TSC 4 v, TSC 5 v]) = ucast (drop_bit 6 x)"
proof -
  have a: "le_val [] = 0" by simp
  show "CCMPH_2_PN (le_val [TSC 0 v, TSC 1 v, 0, x, TSC 2 v, TSC 3 v, TSC 4 v, TSC 5 v]) = v"
  proof (rule bit_word_eqI)
    fix n :: nat
    assume "n < LENGTH(64)"
    show "bit (CCMPH_2_PN (le_val [TSC 0 v, TSC 1 v, 0, x, TSC 2 v, TSC 3 v, TSC 4 v, TSC 5 v])) n = bit v n"
      using u48_bits [OF assms, of n] unfolding pn_bits bit_le_val_Cons bit_TSC by auto
  qed
  show "CCMPH_2_KEYID (le_val [TSC 0 v, TSC 1 v, 0, x, TSC 2 v, TSC 3 v, TSC 4 v, TSC 5 v]) = ucast (drop_bit 6 x)"
  proof (rule bit_word_eqI)
    fix n :: nat
    assume "n < LENGTH(64)"
    show "bit (CCMPH_2_KEYID (le_val [TSC 0 v, TSC 1 v, 0, x, TSC 2 v, TSC 3 v, TSC 4 v, TSC 5 v])) n = bit (ucast (drop_bit 6 x) :: u64) n"
      using bit_imp_le_length [of x "n + 6"] unfolding keyid_bits bit_le_val_Cons by (auto simp: bit_simps add.commute)
  qed
qed


text \<open>C23: The receiver reads from the header that \<open>AES_IV\<close> writes the packet number and the key id the sender put
  in, and accepts the number after the previous one. The number is counted modulo \<open>2^48\<close>, so that it starts again, and
  is accepted again, after \<open>2^48\<close> frames: 0 follows \<open>2^48 - 1\<close>, although the comment on \<open>VALID_PN_CHK\<close> calls
  only a greater number legal.\<close>
theorem aes_iv_received:
  assumes "pn < 2 ^ 48" "AES_IV pn kid = (v, iv)"
  shows "length iv = 8 \<and> CCMPH_2_PN (le_val iv) = v \<and> CCMPH_2_KEYID (le_val iv) = ucast (kid AND 3) \<and>
    unat v = (unat pn + 1) mod 2 ^ 48 \<and> VALID_PN_CHK v pn"
proof -
  have v: "v = (if pn = 0xffffffffffff then 0 else pn + 1)"
    and iv: "iv = [TSC 0 v, TSC 1 v, 0, 0x20 OR push_bit 6 (kid AND 0x3), TSC 2 v, TSC 3 v, TSC 4 v, TSC 5 v]"
    using assms(2) by (auto simp: AES_IV_def Let_def)
  have l: "unat pn < 2 ^ 48" using assms(1) by (simp add: word_less_nat_alt)
  have n: "unat v = (unat pn + 1) mod 2 ^ 48 \<and> VALID_PN_CHK v pn"
  proof (cases "pn = 0xffffffffffff")
    case True
    then show ?thesis using v by (simp add: VALID_PN_CHK_def PN_LESS_CHK_def)
  next
    case False
    then have "unat pn \<noteq> 0xffffffffffff" by (simp add: word_unat_eq_iff)
    then have "unat pn + 1 < 2 ^ 48" using l by simp
    moreover have "unat (pn + 1) = unat pn + 1" using calculation by (simp add: unat_word_ariths)
    moreover have "PN_LESS_CHK pn (pn + 1)" by (simp add: PN_LESS_CHK_def)
    ultimately show ?thesis using v False by (simp add: VALID_PN_CHK_def)
  qed
  then have "v < 2 ^ 48" by (simp add: word_less_nat_alt)
  moreover have "drop_bit 6 (0x20 OR push_bit 6 (kid AND 0x3)) = kid AND 3"
    by (intro bit_word_eqI) (auto simp: bit_simps dest!: less_8_cases)
  ultimately show ?thesis using n TSC_value [of v "0x20 OR push_bit 6 (kid AND 0x3)"] unfolding iv by simp
qed

lemma aes_iv_received_witness:
  "\<exists>v iv. AES_IV 0x1ffff 2 = (v, iv) \<and> CCMPH_2_PN (le_val iv) = v \<and> CCMPH_2_KEYID (le_val iv) = 2 \<and> unat v = 0x20000"
proof -
  have "AES_IV 0x1ffff 2 = (fst (AES_IV 0x1ffff 2), snd (AES_IV 0x1ffff 2))" by simp
  from aes_iv_received [OF _ this] show ?thesis by (intro exI [of _ "fst (AES_IV 0x1ffff 2)"] exI [of _ "snd (AES_IV 0x1ffff 2)"]) simp
qed

section \<open>A blocked port\<close>

lemma sec_info_blocked:
  assumes "update_attrib_sec_info c a s = (res, a', s')" "ts_blocked s" "\<not> check_fwstate (tc_fw_state c) WIFI_MP_STATE"
  shows "if ta_ether_type a = 0x888e then pa_encrypt a' = 0 \<and> pa_iv_len a' = 0 \<and> s' = s else res = RTW_FAIL \<and> s' = s"
  using assms by (auto simp: update_attrib_sec_info_def Let_def sec_iv_def is_wep_enc_def ENC_WEP40_def ENC_WEP104_def
      ENC_TKIP_def ENC_AES_def split: if_splits)


lemma blocked_transmit_sta:
  assumes u: "update_attrib_sta sk c pkt rest a1 p s = Some (res, a, c1, acts)" and b: "ts_blocked s" and g: "tx_get_sta c p = Some s"
    and mp: "\<not> check_fwstate (tc_fw_state c) WIFI_MP_STATE" and m: "tx_sta_mode c \<or> tx_ap_mode c"
  shows "c1 = c \<and> (if ta_ether_type a1 = 0x888e then res = RTW_SUCCESS \<longrightarrow> pa_encrypt a = 0 \<and> pa_iv_len a = 0 else res = RTW_FAIL)"
proof -
  let ?a = "a1\<lparr>ta_pktlen := word_of_nat (length rest)\<rparr>"
  obtain a2 where a2: "(if ta_ether_type ?a = 0x0800 then ip_class sk rest ?a else Some ?a) = Some a2"
    using u unfolding update_attrib_sta_def Let_def
    by (cases "if ta_ether_type ?a = 0x0800 then ip_class sk rest ?a else Some ?a") auto
  have et: "ta_ether_type a2 = ta_ether_type a1" using a2 by (auto split: if_splits dest!: ip_class_shape)
  obtain r3 a3 s3 where a3: "update_attrib_sec_info c a2 s = (r3, a3, s3)" by (metis prod_cases3)
  note bl = sec_info_blocked [OF a3 b mp, unfolded et]
  have c3: "tx_put_sta p s3 c = c" using bl g by (auto simp: tx_put_sta_def tx_get_sta_def fun_upd_idem split: if_splits)
  define a4 where "a4 = a3\<lparr>ta_pkt_hdrlen := 14, pa_hdrlen := word_of_nat WLAN_HDR_A3_LEN, ta_subtype := WIFI_DATA_TYPE,
    ta_qos_en := ts_qos_option s3, ta_priority := 0\<rparr>"
  define c4 where "c4 = tx_put_sta p s3 c"
  have c4: "c4 = c" using c3 by (simp add: c4_def)
  have "do {
      let acts = tx_acts c a2;
      if r3 = RTW_FAIL then Some (RTW_FAIL, a3, c4, acts)
      else do {
        a \<leftarrow> tx_qos sk c4 pkt a4;
        Some (RTW_SUCCESS, (tx_phy_info c4 a s3)\<lparr>ta_psta := Some (sta_key_addr p), ta_ack_policy := 0\<rparr>, c4, acts) } }
     = Some (res, a, c1, acts)"
    using u a2 a3 unfolding update_attrib_sta_def a4_def c4_def Let_def by simp
  note u2 = this [unfolded c4]
  have "c1 = c" using u2 by (auto simp: Let_def split: if_splits Option.bind_splits)
  moreover have "res = RTW_FAIL" if "ta_ether_type a1 \<noteq> 0x888e" using bl that u2 by (auto simp: Let_def)
  moreover have "pa_encrypt a = 0 \<and> pa_iv_len a = 0" if et: "ta_ether_type a1 = 0x888e" and r: "res = RTW_SUCCESS"
  proof -
    obtain a5 where a5: "tx_qos sk c pkt a4 = Some a5" "a = (tx_phy_info c a5 s3)\<lparr>ta_psta := Some (sta_key_addr p), ta_ack_policy := 0\<rparr>"
      using u2 r by (auto simp: Let_def split: if_splits Option.bind_splits)
    have "pa_encrypt a5 = pa_encrypt a3 \<and> pa_iv_len a5 = pa_iv_len a3"
      using tx_qos_shape [OF a5(1) m] by (auto simp: a4_def split: if_splits)
    then show ?thesis using bl et unfolding a5(2) tx_phy_info_def Let_def by simp
  qed
  ultimately show ?thesis by simp
qed

text \<open>C12: While the port of the receiving station is blocked by 802.1X, a packet that is not EAPOL is refused and the
  interface is unchanged; an EAPOL packet is sent without encryption and counts no packet number.\<close>
theorem blocked_transmit:
  assumes u: "update_attrib sk c pkt a0 = Some (res, a, c1, acts)" and m: "tx_sta_mode c \<or> tx_ap_mode c"
    and len: "14 \<le> length pkt" and ra: "ra = (if tx_sta_mode c then tc_bssid c else take 6 pkt)"
    and s: "tx_get_sta c (if IS_MCAST ra then replicate 6 0xff else ra) = Some s" "ts_blocked s"
    and mp: "\<not> check_fwstate (tc_fw_state c) WIFI_MP_STATE"
  shows "c1 = c \<and> (if RTW_GET_BE16 (take 2 (drop 12 pkt)) = 0x888e then res = RTW_SUCCESS \<longrightarrow> pa_encrypt a = 0 \<and> pa_iv_len a = 0
    else res = RTW_FAIL)"
proof -
  note md = tx_modes [OF m]
  define p where "p = (if IS_MCAST ra then replicate 6 0xff else ra)"
  define a1 where "a1 = tx_addrs c (take 14 pkt @ drop 14 (sk_eth sk)) a0"
  have pk: "take 6 (take 14 pkt @ x) = take 6 pkt" "take 2 (drop 12 (take 14 pkt @ x)) = take 2 (drop 12 pkt)" for x
    using len by (simp_all add: drop_take min_absorb2)
  have f1: "ta_ether_type a1 = RTW_GET_BE16 (take 2 (drop 12 pkt))" "pa_ra a1 = ra"
    using md m unfolding a1_def tx_addrs_def Let_def pk ra by auto
  have rt: "rtw_pktfile_read pkt 14 = (take 14 pkt, drop 14 pkt)" by (simp add: rtw_pktfile_read_def)
  have aw: "array_write (take 14 pkt) (sk_eth sk) = take 14 pkt @ drop 14 (sk_eth sk)"
    using len by (simp add: array_write_def min_absorb2)
  have "(case tx_get_sta c p of None \<Rightarrow> Some (RTW_FAIL, a1, c, [])
     | Some s \<Rightarrow> if ts_state s AND WIFI_ASOC_STATE = 0 then Some (RTW_FAIL, a1, c, [])
         else update_attrib_sta sk c pkt (drop 14 pkt) a1 p s) = Some (res, a, c1, acts)"
    using u unfolding update_attrib_def rt Let_def prod.case aw a1_def [symmetric] f1(2) p_def [symmetric] .
  then have "res = RTW_FAIL \<and> c1 = c \<and> a = a1 \<or> update_attrib_sta sk c pkt (drop 14 pkt) a1 p s = Some (res, a, c1, acts)"
    using s(1) unfolding p_def [symmetric] by (auto split: if_splits)
  then show ?thesis
  proof
    assume "res = RTW_FAIL \<and> c1 = c \<and> a = a1"
    then show ?thesis by simp
  next
    assume "update_attrib_sta sk c pkt (drop 14 pkt) a1 p s = Some (res, a, c1, acts)"
    from blocked_transmit_sta [OF this s(2) s(1) [folded p_def] mp m] show ?thesis unfolding f1(1) .
  qed
qed

section \<open>A station\<close>

definition demo_ps_sta :: ps_sta where
  "demo_ps_sta = \<lparr>ps_aid = 1, ps_flags = 0, ps_expire_to = 0, ps_has_legacy_ac = True, ps_qos_info = 0, ps_max_sp_len = 0, ps_uapsd = (\<lambda>_. 0), ps_sleep_q = [],
     ps_sleepq_len = 0, ps_sleepq_ac_len = 0, ps_tx_q_enable = False, ps_tx_queue = [], ps_servq = (\<lambda>_. \<lparr>sq_pending = [], sq_qcnt = 0\<rparr>)\<rparr>"

definition demo_ps_ctx :: ps_ctx where
  "demo_ps_ctx = \<lparr>pc_tim_bitmap = [0, 0], pc_sta_dz_bitmap = [0, 0], pc_hwxmits = (\<lambda>_. \<lparr>hx_accnt = 0, hx_stas = []\<rparr>), pc_hiq_filter = 0, pc_expire_to = 60\<rparr>"

definition demo_tx_sta :: tx_sta where
  "demo_tx_sta = \<lparr>ts_state = 1, ts_blocked = False, ts_privacy = 0, ts_qos_option = False, ts_txpn = 0, ts_UncstKey = replicate 16 0,
     ts_tkiptxmickey = replicate 16 0, ts_txseq_tid = replicate 16 0, ts_BA_starting_seqctrl = replicate 16 0,
     ts_ht_option = False, ts_ampdu_enable = False, ts_agg_enable_bitmap = 0,
     ts_rtsen = False, ts_cts2self = False, ts_ps = demo_ps_sta\<rparr>"

text \<open>The station 02:00:00:00:00:01, associated with 02:00:00:00:00:09 without encryption.\<close>

definition demo_tx_ctx :: tx_ctx where
  "demo_tx_ctx = \<lparr>tc_fw_state = 0x9, tc_bssid = [2, 0, 0, 0, 0, 9], tc_hwaddr = [2, 0, 0, 0, 0, 1], tc_qos_option = True,
     tc_acm_mask = 0, tc_ht = False, tc_auth_alg = 0, tc_privacy_alg = 0, tc_grp_privacy = 0, tc_busetkipkey = False,
     tc_sw_encrypt = False, tc_hw_decrypted = True, tc_dis_bmc_search = False, tc_grptxmickey = [],
     tc_vcs = \<lparr>vc_wireless_mode = 0x0b, vc_wifi_spec = False, vc_rts_thresh = 2347, vc_AP_vendor = 0, vc_HT_protection = 0,
       vc_cur_bwmode = 0, vc_8812 = False, vc_driver_en = 0, vc_driver_type = 0\<rparr>,
     tc_ps = demo_ps_ctx,
     tc_ad = wep_demo_ad\<lparr>ad_frag_len := 2346\<rparr>,
     tc_stas = (\<lambda>a. if a = [2, 0, 0, 0, 0, 9] then Some demo_tx_sta else None)\<rparr>"

definition demo_tx_attrib :: tx_attrib where
  "demo_tx_attrib = \<lparr>pa_encrypt = 0, pa_hdrlen = 0, pa_iv_len = 0, pa_icv_len = 0, pa_nr_frags = 0, pa_last_txcmdsz = 0,
     pa_ta = [], pa_ra = [], pa_UncstKey = [], ta_subtype = 0, ta_bswenc = False, ta_ether_type = 0, ta_seqnum = 0,
     ta_pkt_hdrlen = 0, ta_pktlen = 0, ta_iv = replicate 18 0, ta_icv = replicate 16 0, ta_priority = 0, ta_ack_policy = 0,
     ta_dst = [], ta_src = [], ta_key_idx = 0, ta_qos_en = False, ta_ht_en = False, ta_ampdu_en = False, ta_amsdu = 0,
     ta_mdata = False, ta_eosp = 0, ta_dhcp_pkt = False, ta_icmp_pkt = False, ta_hipriority_pkt = False,
     ta_tkiptxmickey = [], ta_rtsen = False, ta_cts2self = False, ta_vcs_mode = 0, ta_triggered = False, ta_qsel = 0,
     ta_psta = None\<rparr>"

definition demo_stack :: tx_stack where
  "demo_stack = \<lparr>sk_eth = replicate 14 0, sk_ip = replicate 20 0, sk_udp = replicate 24 0, sk_ip_hdr = replicate 20 0\<rparr>"

text \<open>An ARP packet to 02:00:00:00:00:07.\<close>

definition demo_pkt :: bytes where
  "demo_pkt = [2, 0, 0, 0, 0, 7, 2, 0, 0, 0, 0, 1, 8, 6, 0, 1, 8, 0]"

lemma blocked_transmit_witness:
  "\<exists>a c1 acts. update_attrib demo_stack (tx_put_sta [2, 0, 0, 0, 0, 9] (demo_tx_sta\<lparr>ts_blocked := True\<rparr>) demo_tx_ctx) demo_pkt demo_tx_attrib
    = Some (RTW_FAIL, a, c1, acts)"
proof -
  let ?c = "tx_put_sta [2, 0, 0, 0, 0, 9] (demo_tx_sta\<lparr>ts_blocked := True\<rparr>) demo_tx_ctx"
  have "update_attrib demo_stack ?c demo_pkt demo_tx_attrib \<noteq> None" by code_simp
  then obtain res a c1 acts where u: "update_attrib demo_stack ?c demo_pkt demo_tx_attrib = Some (res, a, c1, acts)" by auto
  have m: "tx_sta_mode ?c" by (simp add: tx_sta_mode_def tx_put_sta_def demo_tx_ctx_def)
  have b: "tc_bssid ?c = [2, 0, 0, 0, 0, 9]" "\<not> IS_MCAST [2, 0, 0, 0, 0, 9]" by (simp_all add: tx_put_sta_def demo_tx_ctx_def IS_MCAST_def)
  have g: "tx_get_sta ?c (if IS_MCAST (tc_bssid ?c) then replicate 6 0xff else tc_bssid ?c) = Some (demo_tx_sta\<lparr>ts_blocked := True\<rparr>)"
    unfolding b(1) using b(2) by (simp add: tx_get_sta_def tx_put_sta_def)
  have mp: "\<not> check_fwstate (tc_fw_state ?c) WIFI_MP_STATE"
    by (simp add: check_fwstate_def WIFI_MP_STATE_def tx_put_sta_def demo_tx_ctx_def)
  have e: "RTW_GET_BE16 (take 2 (drop 12 demo_pkt)) \<noteq> 0x888e" "14 \<le> length demo_pkt" by (simp_all add: demo_pkt_def RTW_GET_BE16_def)
  have r: "tc_bssid ?c = (if tx_sta_mode ?c then tc_bssid ?c else take 6 demo_pkt)" using m by simp
  from blocked_transmit [OF u disjI1 [OF m] e(2) r g _ mp] e(1) show ?thesis using u by simp
qed

end
