(* ===== verification/TxRx.thy ===== *)
theory TxRx
  imports TxAir TxPort
begin

text \<open>
  Transmission and reception together: the packet that a station or an access point sends without encryption is the packet
  that its receiver delivers.
\<close>

text \<open>What the host controller sends of the buffer, and whom the packet is for.\<close>

definition on_air :: "tx_attrib \<Rightarrow> bytes \<Rightarrow> bytes" where
  "on_air a buf = take (unat (pa_last_txcmdsz a)) (drop TXDESC_OFFSET buf)"

definition tx_peer :: "tx_ctx \<Rightarrow> bytes \<Rightarrow> rx_ctx \<Rightarrow> bool" where
  "tx_peer c pkt r \<longleftrightarrow>
     (if tx_sta_mode c then air_peer r 1 (tc_bssid c) (tc_hwaddr c) (take 6 pkt)
      else air_peer r 2 (take 6 pkt) (tc_bssid c) (take 6 (drop 6 pkt)))"

definition tx_qos_on :: "tx_ctx \<Rightarrow> tx_attrib \<Rightarrow> bool" where
  "tx_qos_on c a = (if tx_sta_mode c then tc_qos_option c else ta_qos_en a)"

text \<open>The direction of the frames of a station or an access point.\<close>

lemma tx_dir_modes:
  assumes "tx_sta_mode c \<or> tx_ap_mode c" "c1 = c\<lparr>tc_stas := st\<rparr>" "pa_ta a = (if tx_sta_mode c then tc_hwaddr c else tc_bssid c)"
  shows "tx_dir c1 a (if tx_sta_mode c then 1 else 2) (tx_qos_on c a) (if tx_sta_mode c then tc_bssid c else ta_dst a)
    (if tx_sta_mode c then tc_hwaddr c else tc_bssid c) (if tx_sta_mode c then ta_dst a else ta_src a)"
  using tx_modes [OF assms(1)] assms by (simp add: tx_dir_def tx_qos_on_def Let_def)

lemma be16_type:
  assumes "14 \<le> length pkt"
  shows "be16 (RTW_GET_BE16 (take 2 (drop 12 pkt))) @ drop 14 pkt = drop 12 pkt"
proof -
  obtain x y r where p: "drop 12 pkt = x # y # r"
    using assms by (cases "drop 12 pkt"; cases "tl (drop 12 pkt)") (auto dest: arg_cong [where f = length])
  have w: "be16 (push_bit 8 (ucast x) OR ucast y) = [x, y]"
    unfolding be16_def by (auto intro!: bit_word_eqI simp: bit_simps)
  have "drop 14 pkt = drop 2 (drop 12 pkt)" by simp
  then show ?thesis unfolding p by (simp add: RTW_GET_BE16_def w)
qed

lemma unat_word_nat: "n < 2 ^ 32 \<Longrightarrow> unat (word_of_nat n :: u32) = n"
  by (simp add: unsigned_of_nat take_bit_nat_eq_self)

lemma on_air_plain:
  assumes u: "update_attrib sk c pkt a0 = Some (RTW_SUCCESS, a, c1, acts)" and m: "tx_sta_mode c \<or> tx_ap_mode c"
    and co: "rtw_xmitframe_coalesce init c1 pkt a (Some (base, buf)) = Some (RTW_SUCCESS, c2, a', Some (base', buf'))"
    and e: "pa_encrypt a = 0" and am: "ta_amsdu a0 = 0" and l: "length (tc_bssid c) = 6" "length (tc_hwaddr c) = 6"
    and len: "14 \<le> length pkt" "length pkt < 2 ^ 30" and fit: "one_frame c1 a (drop 14 pkt)" "length pkt + 52 \<le> length buf"
  shows "on_air a' buf' = air_plain (tx_qos_on c a) (ta_priority a) (if tx_sta_mode c then 1 else 2)
      (if tx_sta_mode c then tc_bssid c else take 6 pkt) (if tx_sta_mode c then tc_hwaddr c else tc_bssid c)
      (if tx_sta_mode c then take 6 pkt else take 6 (drop 6 pkt)) (ta_seqnum a')
      (rtw_put_snap (RTW_GET_BE16 (take 2 (drop 12 pkt))) @ drop 14 pkt)" "ta_priority a < 8"
proof -
  note f = update_attrib_facts [OF u m len am]
  let ?q = "tx_qos_on c a" and ?ds = "if tx_sta_mode c then 1 else 2 :: u8"
  let ?a1 = "if tx_sta_mode c then tc_bssid c else take 6 pkt" and ?a2 = "if tx_sta_mode c then tc_hwaddr c else tc_bssid c"
    and ?a3 = "if tx_sta_mode c then take 6 pkt else take 6 (drop 6 pkt)"
  obtain st where st: "c1 = c\<lparr>tc_stas := st\<rparr>" using f(10) by blast
  have k: "tx_kind ?q a" using f(1) by (simp add: tx_qos_on_def)
  then show pr: "ta_priority a < 8" by (simp add: tx_kind_def)
  have d: "tx_dir c1 a ?ds ?q ?a1 ?a2 ?a3" using tx_dir_modes [OF m st f(9)] unfolding f(2,3) .
  have l6: "length ?a1 = 6" "length ?a2 = 6" "length ?a3 = 6" using l len by auto
  have z: "pa_iv_len a = 0" "pa_icv_len a = 0" "\<not> ta_bswenc a" using f(11) e by (auto simp: sec_lens_def ENC_TKIP_def ENC_AES_def is_wep_enc_def ENC_WEP40_def ENC_WEP104_def)
  show "on_air a' buf' = air_plain ?q (ta_priority a) ?ds ?a1 ?a2 ?a3 (ta_seqnum a') (rtw_put_snap (RTW_GET_BE16 (take 2 (drop 12 pkt))) @ drop 14 pkt)"
  proof -
    let ?p = "drop 14 pkt" and ?et = "RTW_GET_BE16 (take 2 (drop 12 pkt))"
    have body: "air_body a ?p = rtw_put_snap ?et @ ?p" using f(4) z by (simp add: air_body_def air_icv_def)
    have hw: "pa_hdrlen a = (if ?q then 26 else 24)" using k by (simp add: tx_kind_def)
    have hd: "unat (pa_hdrlen a) = (if ?q then 26 else 24)" using k by (simp add: tx_kind_def)
    have lb: "length (air_body a ?p) = 8 + length ?p" unfolding body by (simp add: rtw_put_snap_def be16_def)
    have nt: "pa_encrypt a \<noteq> ENC_TKIP" using e by (simp add: ENC_TKIP_def)
    have room: "32 + unat (pa_hdrlen a) + length (air_body a ?p) \<le> length buf" using fit(2) len(1) hd lb by simp
    have z': "unat (pa_iv_len a) \<le> length (ta_iv a)" "unat (pa_icv_len a) \<le> length (ta_icv a)" using z by simp_all
    obtain n am buf1 ad bo v where o: "a' = (frags_attrib (a\<lparr>ta_seqnum := n, ta_ampdu_en := am\<rparr>) 1 8 (length ?p))\<lparr>ta_vcs_mode := v\<rparr>"
      "xmitframe_swencrypt (tc_ad c1) (frags_attrib (a\<lparr>ta_seqnum := n, ta_ampdu_en := am\<rparr>) 1 8 (length ?p)) base buf1 = Some (ad, bo)" "Some (base', buf') = map_option (Pair base) bo"
      "get_sub buf1 32 (unat (pa_hdrlen a) + length (air_body a ?p)) =
        Some (air_hdr (ta_subtype a) (fc1_of ?ds a) ?a1 ?a2 ?a3 n @ qc_of ?q a @ air_body a ?p)"
      using coalesce_air [OF co k d l6 nt f(5) z' fit(1) room] by blast
    have fr: "\<not> ta_bswenc a'" "ta_seqnum a' = n" using z(3) unfolding o(1) by (simp_all add: frags_attrib_def Let_def)
    have b1: "buf' = buf1" using o(2,3) z(3) by (auto simp: xmitframe_swencrypt_def frags_attrib_def Let_def)
    have "unat (pa_last_txcmdsz a') = unat (pa_hdrlen a) + length (air_body a ?p)"
    proof -
      have "pa_last_txcmdsz a' = word_of_nat (unat (pa_hdrlen a) + length (air_body a ?p))"
        unfolding o(1) lb using z by (simp add: frags_attrib_def Let_def hw)
      moreover have "unat (pa_hdrlen a) + length (air_body a ?p) < 2 ^ 32" using len hd lb by simp
      ultimately show ?thesis by (simp only: unat_word_nat)
    qed
    then have "on_air a' buf' = air_hdr (ta_subtype a) (fc1_of ?ds a) ?a1 ?a2 ?a3 n @ qc_of ?q a @ air_body a ?p"
      using o(4) unfolding on_air_def b1 TXDESC_OFFSET_def by (simp add: get_sub_def split: if_splits)
    moreover have "fc1_of ?ds a = ?ds" using e by (simp add: fc1_of_def)
    moreover have "ta_subtype a = (if ?q then WIFI_QOS_DATA_TYPE else WIFI_DATA_TYPE)" using k by (simp add: tx_kind_def)
    ultimately show ?thesis unfolding body fr(2) air_plain_def qc_of_def by simp
  qed
qed

text \<open>C6: What a station sends to its access point, or an access point to a station or a group, without
  encryption and in one frame, is what the receiver hands to its network stack: the frame built by \<open>update_attrib\<close> and
  \<open>rtw_xmitframe_coalesce\<close> passes \<open>validate_recv_frame\<close> (if its sequence number is not the last one of its class), and
  \<open>wlanhdr_to_ethhdr\<close> makes the packet again, with the transmitter's own address as the source of what a station sends.\<close>
theorem tx_rx_roundtrip:
  assumes u: "update_attrib sk c pkt a0 = Some (RTW_SUCCESS, a, c1, acts)" and m: "tx_sta_mode c \<or> tx_ap_mode c"
    and co: "rtw_xmitframe_coalesce init c1 pkt a (Some (base, buf)) = Some (RTW_SUCCESS, c2, a', Some (base', buf'))"
    and e: "pa_encrypt a = 0" and am: "ta_amsdu a0 = 0" and l: "length (tc_bssid c) = 6" "length (tc_hwaddr c) = 6"
    and len: "14 \<le> length pkt" "length pkt < 2 ^ 30" and fit: "one_frame c1 a (drop 14 pkt)" "length pkt + 52 \<le> length buf"
    and f: "buf_ok (fr_buf f)" "buf_bytes (fr_buf f) = on_air a' buf'" "at_encrypt (fr_attr f) = 0"
    and peer: "tx_peer c pkt r" "ta = (if tx_sta_mode c then tc_hwaddr c else tc_bssid c)" "get_sta r ta = Some s"
    and sq: "length (bmc_tid_rxseq (rs_recv s)) = 16" "length (tid_rxseq (rxcache (rs_recv s))) = 16"
    and fresh: "class_seq (tx_qos_on c a) (unat (ta_priority a)) (if tx_sta_mode c then tc_bssid c else take 6 pkt) (rs_recv s)
      \<noteq> push_bit 4 (ta_seqnum a')"
  shows "\<exists>v f'. validate_recv_frame r f = Some v \<and> rr_ret v = RX_OK \<and> rr_psta v = Some ta \<and>
    wlanhdr_to_ethhdr False (rr_frame v) = Some (RTW_SUCCESS, f') \<and>
    buf_bytes (fr_buf f') = take 6 pkt @ (if tx_sta_mode c then tc_hwaddr c else take 6 (drop 6 pkt)) @ drop 12 pkt"
proof -
  note air = on_air_plain [OF u m co e am l len fit]
  let ?ds = "if tx_sta_mode c then 1 else 2 :: u8"
  let ?a1 = "if tx_sta_mode c then tc_bssid c else take 6 pkt" and ?a3 = "if tx_sta_mode c then take 6 pkt else take 6 (drop 6 pkt)"
  have l6: "length ?a1 = 6" "length ta = 6" "length ?a3 = 6" using l len peer(2) by auto
  have pe: "air_peer r ?ds ?a1 ta ?a3" using peer(1,2) by (simp add: tx_peer_def)
  have ds: "?ds = 1 \<or> ?ds = 2" by simp
  have bb: "buf_bytes (fr_buf f) = air_plain (tx_qos_on c a) (ta_priority a) ?ds ?a1 ta ?a3 (ta_seqnum a')
      (rtw_put_snap (RTW_GET_BE16 (take 2 (drop 12 pkt))) @ drop 14 pkt)"
    unfolding f(2) peer(2) by (rule air(1))
  have et: "be16 (RTW_GET_BE16 (take 2 (drop 12 pkt))) @ drop 14 pkt = drop 12 pkt" using len(1) by (rule be16_type)
  show ?thesis using air_delivered [OF f(1) bb l6 ds air(2) pe peer(3) f(3) sq fresh] unfolding et peer(2) by (auto split: if_splits)
qed


section \<open>A station and its access point\<close>

definition demo_mic :: mic_data where
  "demo_mic = \<lparr>mic_K0 = 0, mic_K1 = 0, mic_L = 0, mic_R = 0, mic_M = 0, mic_nBytesInM = 0\<rparr>"

text \<open>The access point, which has not heard from the station yet.\<close>

definition demo_ap :: rx_ctx where
  "demo_ap = \<lparr>rc_fw_state = 0x11, rc_bssid = [2, 0, 0, 0, 0, 9], rc_hwaddr = [2, 0, 0, 0, 0, 9],
     rc_stas = (\<lambda>a. if a = [2, 0, 0, 0, 0, 1]
       then Some \<lparr>rs_blocked = False, rs_privacy = 0, rs_recv = demo_recv_priv\<rparr> else None),
     rc_auth_alg = 0, rc_privacy_alg = 0, rc_grp_privacy = 0,
     rc_iv_seq = replicate 4 (replicate 8 0), rc_radar = False, rc_deauth_due = False, rc_non_be = False\<rparr>"

definition demo_sent :: "(tx_attrib \<Rightarrow> tx_ctx \<Rightarrow> tx_attrib \<Rightarrow> bytes \<Rightarrow> bool) \<Rightarrow> bool" where
  "demo_sent P = (case update_attrib demo_stack demo_tx_ctx demo_pkt demo_tx_attrib of
     None \<Rightarrow> False
   | Some (res, a, c, _) \<Rightarrow> res = RTW_SUCCESS \<and>
       (case rtw_xmitframe_coalesce demo_mic c demo_pkt a (Some (0, replicate 120 0)) of
          None \<Rightarrow> False
        | Some (res, _, a', out) \<Rightarrow> res = RTW_SUCCESS \<and> (case out of None \<Rightarrow> False | Some (_, buf) \<Rightarrow> P a c a' buf)))"

lemma demo_sent_cases:
  assumes "demo_sent P"
  obtains a c1 acts c2 a' b buf where
    "update_attrib demo_stack demo_tx_ctx demo_pkt demo_tx_attrib = Some (RTW_SUCCESS, a, c1, acts)"
    "rtw_xmitframe_coalesce demo_mic c1 demo_pkt a (Some (0, replicate 120 0)) = Some (RTW_SUCCESS, c2, a', Some (b, buf))"
    "P a c1 a' buf"
proof (cases "update_attrib demo_stack demo_tx_ctx demo_pkt demo_tx_attrib")
  case None
  then show thesis using assms by (simp add: demo_sent_def)
next
  case (Some x)
  obtain res a c1 acts where x: "x = (res, a, c1, acts)" by (metis prod_cases4)
  show thesis
  proof (cases "rtw_xmitframe_coalesce demo_mic c1 demo_pkt a (Some (0, replicate 120 0))")
    case None
    then show thesis using assms Some x by (simp add: demo_sent_def)
  next
    case (Some y)
    obtain res2 c2 a' out where y: "y = (res2, c2, a', out)" by (metis prod_cases4)
    show thesis
    proof (cases out)
      case None
      then show thesis using assms Some x y \<open>update_attrib _ _ _ _ = Some x\<close> by (simp add: demo_sent_def)
    next
      case (Some z)
      obtain b buf where "z = (b, buf)" by fastforce
      then show thesis using that assms Some x y \<open>update_attrib _ _ _ _ = Some x\<close> \<open>rtw_xmitframe_coalesce _ _ _ _ _ = Some y\<close>
        by (simp add: demo_sent_def)
    qed
  qed
qed

lemma demo_sent_ok: "demo_sent (\<lambda>a c a' buf. pa_encrypt a = 0 \<and> \<not> IS_MCAST (pa_ra a) \<and> unat (pa_hdrlen a) = 26 \<and> unat (pa_iv_len a) = 0 \<and>
    pa_icv_len a = 0 \<and> sint (ad_frag_len (tc_ad c) - 4) = 2342 \<and> ta_priority a = 0 \<and> ta_seqnum a' = 1)"
  by code_simp


lemma tx_rx_roundtrip_witness:
  "demo_sent (\<lambda>a c a' buf. \<exists>v f'. validate_recv_frame demo_ap \<lparr>fr_attr = demo_attr, fr_buf = demo_buf (on_air a' buf)\<rparr> = Some v \<and>
    rr_ret v = RX_OK \<and> wlanhdr_to_ethhdr False (rr_frame v) = Some (RTW_SUCCESS, f') \<and> buf_bytes (fr_buf f') = demo_pkt)"
proof -
  obtain a c1 acts c2 a' b buf where
    u: "update_attrib demo_stack demo_tx_ctx demo_pkt demo_tx_attrib = Some (RTW_SUCCESS, a, c1, acts)"
    and co: "rtw_xmitframe_coalesce demo_mic c1 demo_pkt a (Some (0, replicate 120 0)) = Some (RTW_SUCCESS, c2, a', Some (b, buf))"
    and v: "pa_encrypt a = 0" "\<not> IS_MCAST (pa_ra a)" "unat (pa_hdrlen a) = 26" "unat (pa_iv_len a) = 0" "pa_icv_len a = 0"
      "sint (ad_frag_len (tc_ad c1) - 4) = 2342" "ta_priority a = 0" "ta_seqnum a' = 1"
    using demo_sent_ok by (rule demo_sent_cases) blast
  let ?f = "\<lparr>fr_attr = demo_attr, fr_buf = demo_buf (on_air a' buf)\<rparr>"
  have m: "tx_sta_mode demo_tx_ctx" by (simp add: tx_sta_mode_def demo_tx_ctx_def)
  have am: "ta_amsdu demo_tx_attrib = 0" by (simp add: demo_tx_attrib_def)
  have l: "length (tc_bssid demo_tx_ctx) = 6" "length (tc_hwaddr demo_tx_ctx) = 6" by (simp_all add: demo_tx_ctx_def)
  have len: "14 \<le> length demo_pkt" "length demo_pkt < 2 ^ 30" "length demo_pkt + 52 \<le> length (replicate 120 (0 :: u8))"
    by (simp_all add: demo_pkt_def)
  have one: "one_frame c1 a (drop 14 demo_pkt)" using v by (simp add: one_frame_def demo_pkt_def)
  have f: "buf_ok (fr_buf ?f)" "buf_bytes (fr_buf ?f) = on_air a' buf" "at_encrypt (fr_attr ?f) = 0"
    by (simp_all add: demo_buf_facts demo_attr_def)
  define s where "s = \<lparr>rs_blocked = False, rs_privacy = 0, rs_recv = demo_recv_priv\<rparr>"
  have s: "get_sta demo_ap (tc_hwaddr demo_tx_ctx) = Some s"
    by (simp add: s_def demo_ap_def demo_tx_ctx_def get_sta_def sta_key_addr_def IS_MCAST_def)
  have "is_ap demo_ap" by (simp add: is_ap_def demo_ap_def check_fwstate_def fw_state_defs)
  then have peer: "tx_peer demo_tx_ctx demo_pkt demo_ap"
    using m s by (simp add: tx_peer_def air_peer_def) (simp add: demo_ap_def demo_tx_ctx_def)
  have sq: "length (bmc_tid_rxseq (rs_recv s)) = 16" "length (tid_rxseq (rxcache (rs_recv s))) = 16"
    by (simp_all add: s_def demo_recv_priv_def)
  have fresh: "class_seq (tx_qos_on demo_tx_ctx a) (unat (ta_priority a))
      (if tx_sta_mode demo_tx_ctx then tc_bssid demo_tx_ctx else take 6 demo_pkt) (rs_recv s) \<noteq> push_bit 4 (ta_seqnum a')"
    using v(7,8) by (simp add: class_seq_def s_def demo_recv_priv_def)
  from tx_rx_roundtrip [OF u disjI1 [OF m] co v(1) am l len(1,2) one len(3) f peer _ _ sq fresh] m s
  have "\<exists>v f'. validate_recv_frame demo_ap ?f = Some v \<and> rr_ret v = RX_OK \<and> rr_psta v = Some (tc_hwaddr demo_tx_ctx) \<and>
    wlanhdr_to_ethhdr False (rr_frame v) = Some (RTW_SUCCESS, f') \<and>
    buf_bytes (fr_buf f') = take 6 demo_pkt @ tc_hwaddr demo_tx_ctx @ drop 12 demo_pkt" by simp
  moreover have "take 6 demo_pkt @ tc_hwaddr demo_tx_ctx @ drop 12 demo_pkt = demo_pkt" by (simp add: demo_pkt_def demo_tx_ctx_def)
  ultimately show ?thesis using u co unfolding demo_sent_def by auto
qed

end
