(* ===== verification/TxQueue.thy ===== *)
theory TxQueue
  imports TxAttr
begin

text \<open>
  The queues of frames that wait for the SDIO host (core/rtw_xmit.c and hal/rtl8188e/sdio/rtl8189es_xmit.c): each
  station has a queue for each access category, and each access category the list of the stations with frames in it.
\<close>

section \<open>Access to the state\<close>

text \<open>What a function does for the driver besides changing its state.\<close>

datatype ps_act =
    Free_frame tx_frame
  | Wake_xmit_thread
  | Update_beacon
  | Chk_bmc_sleepq_cmd
  | Chk_hi_queue_cmd
  | Null_data bytes
  | Qos_null_data bytes u16
  | Led_tx_control
  | Issue_addbareq tx_frame
  | Queue_work bytes

definition upd_ps :: "(ps_sta \<Rightarrow> ps_sta) \<Rightarrow> tx_sta \<Rightarrow> tx_sta" where
  "upd_ps g s = s\<lparr>ts_ps := g (ts_ps s)\<rparr>"

text \<open>Changing the station with the address \<open>p\<close>, and the common part.\<close>

definition upd_sta :: "bytes \<Rightarrow> (tx_sta \<Rightarrow> tx_sta) \<Rightarrow> tx_ctx \<Rightarrow> tx_ctx" where
  "upd_sta p g c = (case tx_get_sta c p of None \<Rightarrow> c | Some s \<Rightarrow> tx_put_sta p (g s) c)"

definition upd_pc :: "(ps_ctx \<Rightarrow> ps_ctx) \<Rightarrow> tx_ctx \<Rightarrow> tx_ctx" where
  "upd_pc g c = c\<lparr>tc_ps := g (tc_ps c)\<rparr>"

definition upd_servq :: "tx_ac \<Rightarrow> (tx_servq \<Rightarrow> tx_servq) \<Rightarrow> tx_sta \<Rightarrow> tx_sta" where
  "upd_servq ac g = upd_ps (\<lambda>q. q\<lparr>ps_servq := (ps_servq q)(ac := g (ps_servq q ac))\<rparr>)"

definition upd_hwx :: "tx_ac \<Rightarrow> (hw_xmit \<Rightarrow> hw_xmit) \<Rightarrow> tx_ctx \<Rightarrow> tx_ctx" where
  "upd_hwx ac g = upd_pc (\<lambda>q. q\<lparr>pc_hwxmits := (pc_hwxmits q)(ac := g (pc_hwxmits q ac))\<rparr>)"

abbreviation servq :: "tx_sta \<Rightarrow> tx_ac \<Rightarrow> tx_servq" where "servq s \<equiv> ps_servq (ts_ps s)"
abbreviation hwx :: "tx_ctx \<Rightarrow> tx_ac \<Rightarrow> hw_xmit" where "hwx c \<equiv> pc_hwxmits (tc_ps c)"

section \<open>The code\<close>

text \<open>\<open>hwxmits[0]\<close> to \<open>hwxmits[3]\<close>.\<close>

definition hwxmits :: "tx_ac list" where
  "hwxmits = [AC_VO, AC_VI, AC_BE, AC_BK]"

text \<open>The queue of a priority and the index of its access category.\<close>

definition rtw_get_sta_pending :: "u8 \<Rightarrow> tx_ac" where
  "rtw_get_sta_pending up =
     (if up = 1 \<or> up = 2 then AC_BK else if up = 4 \<or> up = 5 then AC_VI else if up = 6 \<or> up = 7 then AC_VO else AC_BE)"

definition hx_insert :: "bytes \<Rightarrow> hw_xmit \<Rightarrow> hw_xmit" where
  "hx_insert k h = h\<lparr>hx_stas := (if k \<in> set (hx_stas h) then hx_stas h else hx_stas h @ [k])\<rparr>"

definition hx_delete :: "bytes \<Rightarrow> hw_xmit \<Rightarrow> hw_xmit" where
  "hx_delete k h = h\<lparr>hx_stas := removeAll k (hx_stas h)\<rparr>"

definition rtw_xmit_classifier :: "tx_ctx \<Rightarrow> tx_frame \<Rightarrow> rtw_res \<times> tx_ctx" where
  "rtw_xmit_classifier c f =
     (let a = tf_attr f; p = pa_ra a
      in case tx_get_sta c p of
           None \<Rightarrow> (RTW_FAIL, c)
         | Some s \<Rightarrow>
             if ta_psta a \<noteq> Some (sta_key_addr p) then (RTW_FAIL, c)
             else if ts_state s AND WIFI_ASOC_STATE = 0 then (RTW_FAIL, c)
             else
               let ac = rtw_get_sta_pending (ta_priority a)
               in (RTW_SUCCESS,
                   upd_hwx ac (\<lambda>h. (hx_insert (sta_key_addr p) h)\<lparr>hx_accnt := hx_accnt h + 1\<rparr>)
                     (upd_sta p (upd_servq ac (\<lambda>q. \<lparr>sq_pending = sq_pending q @ [f], sq_qcnt = sq_qcnt q + 1\<rparr>)) c)))"

definition rtw_xmitframe_enqueue :: "tx_ctx \<Rightarrow> tx_frame \<Rightarrow> rtw_res \<times> tx_ctx" where
  "rtw_xmitframe_enqueue c f = (let (res, c) = rtw_xmit_classifier c f in if res = RTW_FAIL then (RTW_FAIL, c) else (RTW_SUCCESS, c))"

text \<open>\<open>rtw_hal_xmitframe_enqueue\<close>.\<close>

definition rtl8188es_hal_xmitframe_enqueue :: "tx_ctx \<Rightarrow> tx_frame \<Rightarrow> rtw_res \<times> tx_ctx \<times> ps_act list" where
  "rtl8188es_hal_xmitframe_enqueue c f =
     (let (err, c) = rtw_xmitframe_enqueue c f
      in if err \<noteq> RTW_SUCCESS then (err, c, [Free_frame f]) else (err, c, [Wake_xmit_thread]))"

text \<open>\<open>rtw_hal_xmit\<close>: whether the frame was freed. \<open>busy\<close> is \<open>bBusyTraffic\<close>.\<close>

definition rtl8188es_hal_xmit :: "bool \<Rightarrow> tx_ctx \<Rightarrow> tx_frame \<Rightarrow> bool \<times> tx_ctx \<times> ps_act list" where
  "rtl8188es_hal_xmit busy c f =
     (let a = tf_attr f;
          acts = (if ta_ether_type a \<noteq> 0x0806 \<and> ta_ether_type a \<noteq> 0x888e \<and> \<not> ta_dhcp_pkt a \<and> busy then [Issue_addbareq f] else []);
          (err, c) = rtw_xmitframe_enqueue c f
      in if err \<noteq> RTW_SUCCESS then (True, c, acts @ [Free_frame f]) else (False, c, acts @ [Wake_xmit_thread]))"

definition rtw_free_xmitframe_queue :: "tx_frame list \<Rightarrow> ps_act list" where
  "rtw_free_xmitframe_queue = map Free_frame"

end
