(* ===== verification/TimMap.thy ===== *)
theory TimMap
  imports Prelude
begin

text \<open>
  The bitmaps of station numbers (core/rtw_wlan_util.c: \<open>rtw_bmp_set\<close> and the others), with which an access point keeps
  the sleeping stations (\<open>sta_dz_bitmap\<close>) and the stations with buffered frames (\<open>tim_bitmap\<close>). The locale
  \<open>id_map\<close> is the contract of such a map: a set of numbers below a bound.
\<close>

section \<open>The code\<close>

text \<open>A bitmap is the list of its \<open>bmp_len\<close> bytes.\<close>

definition rtw_bmp_is_set :: "bytes \<Rightarrow> u8 \<Rightarrow> bool" where
  "rtw_bmp_is_set bmp n = (let k = unat n div 8 in if k \<ge> length bmp then False else bit (bmp ! k) (unat n mod 8))"

definition rtw_bmp_set :: "bytes \<Rightarrow> u8 \<Rightarrow> bytes" where
  "rtw_bmp_set bmp n =
     (let k = unat n div 8 in if k < length bmp then bmp[k := bmp ! k OR push_bit (unat n mod 8) 1] else bmp)"

definition rtw_bmp_clear :: "bytes \<Rightarrow> u8 \<Rightarrow> bytes" where
  "rtw_bmp_clear bmp n =
     (let k = unat n div 8 in if k < length bmp then bmp[k := bmp ! k AND NOT (push_bit (unat n mod 8) 1)] else bmp)"

fun rtw_bmp_not_empty :: "bytes \<Rightarrow> bool" where
  "rtw_bmp_not_empty [] = False"
| "rtw_bmp_not_empty (b # bmp) = (if b \<noteq> 0 then True else rtw_bmp_not_empty bmp)"

definition rtw_bmp_not_empty_exclude_bit0 :: "bytes \<Rightarrow> bool" where
  "rtw_bmp_not_empty_exclude_bit0 bmp = (case bmp of [] \<Rightarrow> False
     | b # r \<Rightarrow> if b AND 0xFE \<noteq> 0 then True else rtw_bmp_not_empty r)"

section \<open>The contract\<close>

locale id_map =
  fixes isin :: "'m \<Rightarrow> 'i \<Rightarrow> bool" and ins :: "'m \<Rightarrow> 'i \<Rightarrow> 'm" and del :: "'m \<Rightarrow> 'i \<Rightarrow> 'm"
    and any :: "'m \<Rightarrow> bool" and any_but :: "'m \<Rightarrow> bool" and fits :: "'m \<Rightarrow> 'i \<Rightarrow> bool" and zero :: 'i
  assumes isin_ins: "isin (ins m i) j \<longleftrightarrow> fits m i \<and> j = i \<or> isin m j"
    and isin_del: "isin (del m i) j \<longleftrightarrow> j \<noteq> i \<and> isin m j"
    and isin_fits: "isin m i \<Longrightarrow> fits m i"
    and any_isin: "isin m i \<Longrightarrow> any m"
    and any_but_isin: "isin m i \<Longrightarrow> i \<noteq> zero \<Longrightarrow> any_but m"
    and fits_ins: "fits (ins m i) j = fits m j"
    and fits_del: "fits (del m i) j = fits m j"
begin

lemmas id_laws [simp] = isin_ins isin_del fits_ins fits_del

lemma ins_any: "fits m i \<Longrightarrow> any (ins m i)"
  by (rule any_isin [of _ i]) simp

lemma ins_any_but: "fits m i \<Longrightarrow> i \<noteq> zero \<Longrightarrow> any_but (ins m i)"
  by (rule any_but_isin [of _ i]) simp_all

end

lemma bmp_div_mod: "unat i div 8 = unat j div 8 \<Longrightarrow> unat i mod 8 = unat j mod 8 \<Longrightarrow> i = (j :: u8)"
  by (metis div_mult_mod_eq word_unat_eq_iff)

lemma bit_bool_word: "bit ((b :: u8) OR push_bit n 1) k \<longleftrightarrow> bit b k \<or> n < 8 \<and> k = n" "bit (b AND NOT (push_bit n 1)) k \<longleftrightarrow> bit b k \<and> k \<noteq> n"
  by (auto simp: bit_simps dest: bit_imp_le_length)

lemmas bit_bool_power = bit_bool_word [of b n k for b n k, unfolded push_bit_of_1]

lemma bmp_any: "rtw_bmp_not_empty bmp \<longleftrightarrow> (\<exists>b \<in> set bmp. b \<noteq> 0)"
  by (induction bmp) auto

lemma bit_nonzero: "bit (b :: u8) k \<Longrightarrow> b \<noteq> 0"
  by auto

lemma bmp_isin_any: "rtw_bmp_is_set m i \<Longrightarrow> rtw_bmp_not_empty m"
  by (auto simp: rtw_bmp_is_set_def bmp_any Let_def split: if_splits intro!: bexI [of _ "m ! (unat i div 8)"])

lemma bmp_isin_any_but:
  assumes "rtw_bmp_is_set m i" "i \<noteq> 0"
  shows "rtw_bmp_not_empty_exclude_bit0 m"
proof (cases m)
  case Nil
  then show ?thesis using assms by (simp add: rtw_bmp_is_set_def)
next
  case (Cons b r)
  show ?thesis
  proof (cases "unat i div 8")
    case 0
    then have "unat i mod 8 \<noteq> 0" using assms(2) by (metis div_mult_mod_eq mult_0 add_0 unat_eq_zero)
    moreover have "bit b (unat i mod 8)" using assms(1) 0 Cons by (simp add: rtw_bmp_is_set_def)
    moreover have "bit (b AND 0xFE) k" if "bit b k" "k \<noteq> 0" for k
      using that bit_imp_le_length [of b k] by (auto simp: bit_simps dest!: less_8_cases)
    ultimately have "b AND 0xFE \<noteq> 0" using bit_nonzero by blast
    then show ?thesis using Cons by (simp add: rtw_bmp_not_empty_exclude_bit0_def)
  next
    case (Suc k)
    have "bit (r ! k) (unat i mod 8)" "k < length r" using assms(1) Suc Cons by (auto simp: rtw_bmp_is_set_def Let_def split: if_splits)
    then have "rtw_bmp_not_empty r" unfolding bmp_any using bit_nonzero nth_mem by blast
    then show ?thesis using Cons by (simp add: rtw_bmp_not_empty_exclude_bit0_def)
  qed
qed

definition tim_fits :: "bytes \<Rightarrow> u8 \<Rightarrow> bool" where "tim_fits m i \<longleftrightarrow> unat i div 8 < length m"

lemma bmp_same_byte:
  assumes "unat j div 8 = unat i div 8"
  shows "unat j mod 8 = unat i mod 8 \<longleftrightarrow> j = (i :: u8)"
  using bmp_div_mod [OF assms] by auto

lemma bmp_isin_set: "rtw_bmp_is_set (rtw_bmp_set m i) j \<longleftrightarrow> tim_fits m i \<and> j = i \<or> rtw_bmp_is_set m j"
proof (cases "unat i div 8 < length m \<and> unat j div 8 = unat i div 8")
  case True
  then show ?thesis using bmp_same_byte [of j i]
    by (simp add: rtw_bmp_is_set_def rtw_bmp_set_def Let_def tim_fits_def bit_bool_power) blast
next
  case False
  then show ?thesis by (auto simp: rtw_bmp_is_set_def rtw_bmp_set_def Let_def tim_fits_def)
qed

lemma bmp_isin_clear: "rtw_bmp_is_set (rtw_bmp_clear m i) j \<longleftrightarrow> j \<noteq> i \<and> rtw_bmp_is_set m j"
proof (cases "unat i div 8 < length m \<and> unat j div 8 = unat i div 8")
  case True
  then show ?thesis using bmp_same_byte [of j i]
    by (simp add: rtw_bmp_is_set_def rtw_bmp_clear_def Let_def bit_bool_power) blast
next
  case False
  then show ?thesis by (auto simp: rtw_bmp_is_set_def rtw_bmp_clear_def Let_def)
qed

lemma bmp_isin_fits: "rtw_bmp_is_set m i \<Longrightarrow> tim_fits m i"
  by (auto simp: rtw_bmp_is_set_def tim_fits_def Let_def split: if_splits)

lemma bmp_fits [simp]: "tim_fits (rtw_bmp_set m i) j = tim_fits m j" "tim_fits (rtw_bmp_clear m i) j = tim_fits m j"
  by (simp_all add: tim_fits_def rtw_bmp_set_def rtw_bmp_clear_def Let_def)

interpretation tim: id_map rtw_bmp_is_set rtw_bmp_set rtw_bmp_clear rtw_bmp_not_empty rtw_bmp_not_empty_exclude_bit0 tim_fits 0
  by unfold_locales (auto simp: bmp_isin_set bmp_isin_clear bmp_isin_fits intro: bmp_isin_any bmp_isin_any_but)

end
