(* ===== verification/PowerSave.thy ===== *)
theory PowerSave
  imports TxQueue TimMap Ie
begin

text \<open>
  Power save of an access point: frames for a sleeping station are kept in its sleep queue and announced in the beacon
  (core/rtw_xmit.c), until the station wakes up, asks for a frame with a PS-Poll or, with U-APSD, sends a trigger frame
  (core/rtw_recv.c). Group frames are kept while any station sleeps and sent behind a beacon (core/rtw_mlme_ext.c).
\<close>

section \<open>Constants and access\<close>

definition WIFI_SLEEP_STATE :: u32 where "WIFI_SLEEP_STATE = 0x00000004"
definition WIFI_STA_ALIVE_CHK_STATE :: u32 where "WIFI_STA_ALIVE_CHK_STATE = 0x00000400"
definition WIFI_MESH_STATE :: u32 where "WIFI_MESH_STATE = 0x00000200"
definition QSLT_HIGH :: u8 where "QSLT_HIGH = 0x11"
definition QSLT_VO :: u8 where "QSLT_VO = 7"
definition RTW_HIQ_FILTER_ALLOW_ALL :: u8 where "RTW_HIQ_FILTER_ALLOW_ALL = 0"
definition RTW_HIQ_FILTER_ALLOW_SPECIAL :: u8 where "RTW_HIQ_FILTER_ALLOW_SPECIAL = 1"

definition bc_addr :: bytes where "bc_addr = replicate 6 0xff"

definition upd_attr :: "(tx_attrib \<Rightarrow> tx_attrib) \<Rightarrow> tx_frame \<Rightarrow> tx_frame" where
  "upd_attr g f = f\<lparr>tf_attr := g (tf_attr f)\<rparr>"

definition upd_tim :: "(bytes \<Rightarrow> bytes) \<Rightarrow> tx_ctx \<Rightarrow> tx_ctx" where
  "upd_tim g = upd_pc (\<lambda>q. q\<lparr>pc_tim_bitmap := g (pc_tim_bitmap q)\<rparr>)"

definition upd_dz :: "(bytes \<Rightarrow> bytes) \<Rightarrow> tx_ctx \<Rightarrow> tx_ctx" where
  "upd_dz g = upd_pc (\<lambda>q. q\<lparr>pc_sta_dz_bitmap := g (pc_sta_dz_bitmap q)\<rparr>)"

definition tim_set :: "tx_ctx \<Rightarrow> u8 \<Rightarrow> bool" where "tim_set c i = rtw_bmp_is_set (pc_tim_bitmap (tc_ps c)) i"
definition dz_set :: "tx_ctx \<Rightarrow> u8 \<Rightarrow> bool" where "dz_set c i = rtw_bmp_is_set (pc_sta_dz_bitmap (tc_ps c)) i"

abbreviation sleep_q :: "tx_sta \<Rightarrow> tx_frame list" where "sleep_q s \<equiv> ps_sleep_q (ts_ps s)"
abbreviation sleepq_len :: "tx_sta \<Rightarrow> u32" where "sleepq_len s \<equiv> ps_sleepq_len (ts_ps s)"
abbreviation sleepq_ac_len :: "tx_sta \<Rightarrow> u32" where "sleepq_ac_len s \<equiv> ps_sleepq_ac_len (ts_ps s)"

text \<open>The number of a station as the bitmaps take it.\<close>

definition aid8 :: "tx_sta \<Rightarrow> u8" where "aid8 s = ucast (ps_aid (ts_ps s))"

text \<open>Whether a priority is delivery enabled (bit 0) or trigger enabled (bit 1).\<close>

definition wmmps_ac :: "tx_sta \<Rightarrow> u8 \<Rightarrow> nat \<Rightarrow> bool" where
  "wmmps_ac s priority k = bit (ps_uapsd (ts_ps s) (rtw_get_sta_pending priority)) k"

section \<open>Frames for sleeping stations\<close>

definition xmitframe_hiq_filter :: "tx_ctx \<Rightarrow> tx_frame \<Rightarrow> bool" where
  "xmitframe_hiq_filter c f =
     (let a = tf_attr f; flt = pc_hiq_filter (tc_ps c)
      in if vc_wifi_spec (tc_vcs c) then True
         else if flt = RTW_HIQ_FILTER_ALLOW_SPECIAL
         then ta_ether_type a = 0x0806 \<or> ta_ether_type a = 0x888e \<or> ta_dhcp_pkt a
         else if flt = RTW_HIQ_FILTER_ALLOW_ALL then True
         else False)"

definition to_hiq :: "tx_ctx \<Rightarrow> tx_frame \<Rightarrow> tx_frame" where
  "to_hiq c f = (if xmitframe_hiq_filter c f then upd_attr (\<lambda>a. a\<lparr>ta_qsel := QSLT_HIGH\<rparr>) f else f)"

definition sleep_insert :: "tx_frame \<Rightarrow> bool \<Rightarrow> tx_sta \<Rightarrow> tx_sta" where
  "sleep_insert f wm = upd_ps (\<lambda>q. q\<lparr>ps_sleep_q := ps_sleep_q q @ [f], ps_sleepq_len := ps_sleepq_len q + 1,
     ps_sleepq_ac_len := (if wm then ps_sleepq_ac_len q + 1 else ps_sleepq_ac_len q)\<rparr>)"

text \<open>The result: whether the frame was put into a sleep queue, the frame, the interface and the calls.\<close>

definition xmitframe_enqueue_for_sleeping_sta :: "tx_ctx \<Rightarrow> tx_frame \<Rightarrow> bool \<times> tx_frame \<times> tx_ctx \<times> ps_act list" where
  "xmitframe_enqueue_for_sleeping_sta c f =
     (let a = tf_attr f; p = pa_ra a; bmcst = IS_MCAST p; st = check_fwstate (tc_fw_state c)
      in if \<not> st WIFI_AP_STATE \<and> \<not> st WIFI_MESH_STATE then (False, f, c, [])
         else case tx_get_sta c p of
           None \<Rightarrow> (False, f, c, [])
         | Some s \<Rightarrow>
             if ta_psta a \<noteq> Some (sta_key_addr p) \<or> ts_state s AND WIFI_ASOC_STATE = 0 then (False, f, c, [])
             else if ta_triggered a then (False, if bmcst then to_hiq c f else f, c, [])
             else if bmcst then
               if rtw_bmp_not_empty (pc_sta_dz_bitmap (tc_ps c)) then
                 (True, f, upd_dz (\<lambda>m. rtw_bmp_set m 0) (upd_tim (\<lambda>m. rtw_bmp_set m 0) (upd_sta p (sleep_insert f False) c)),
                  if \<not> tim_set c 0 then [Update_beacon] else [Chk_bmc_sleepq_cmd])
               else (False, f, c, [])
             else if ts_state s AND WIFI_SLEEP_STATE \<noteq> 0 \<and> dz_set c (aid8 s) then
               let wm = wmmps_ac s (ta_priority a) 0; legacy = ps_has_legacy_ac (ts_ps s);
                   c1 = upd_sta p (sleep_insert f wm) c
               in if legacy \<and> \<not> wm \<or> \<not> legacy \<and> wm
                  then (True, f, upd_tim (\<lambda>m. rtw_bmp_set m (aid8 s)) c1, if \<not> tim_set c (aid8 s) then [Update_beacon] else [])
                  else (True, f, c1, [])
             else (False, f, c, []))"

section \<open>Going to sleep\<close>

text \<open>The frames of a queue of the station \<open>p\<close>, one by one: those that stay, the interface and the calls.\<close>

fun sleep_loop :: "tx_ctx \<Rightarrow> bytes \<Rightarrow> tx_frame list \<Rightarrow> tx_frame list \<times> tx_ctx \<times> ps_act list" where
  "sleep_loop c p [] = ([], c, [])"
| "sleep_loop c p (f # fs) =
     (let (ret, f, c, acts) = xmitframe_enqueue_for_sleeping_sta c (upd_attr (\<lambda>a. a\<lparr>ta_triggered := False\<rparr>) f);
          ac = rtw_get_sta_pending (ta_priority (tf_attr f));
          c = (if ret then upd_hwx ac (\<lambda>h. h\<lparr>hx_accnt := hx_accnt h - 1\<rparr>)
                 (upd_sta p (upd_servq ac (\<lambda>q. q\<lparr>sq_qcnt := sq_qcnt q - 1\<rparr>)) c) else c);
          (rest, c, acts2) = sleep_loop c p fs
      in (if ret then rest else f # rest, c, acts @ acts2))"

definition dequeue_xmitframes_to_sleeping_queue :: "tx_ctx \<Rightarrow> bytes \<Rightarrow> tx_ac \<Rightarrow> tx_ctx \<times> ps_act list" where
  "dequeue_xmitframes_to_sleeping_queue c p ac = (case tx_get_sta c p of
     None \<Rightarrow> (c, [])
   | Some s \<Rightarrow>
       let (rest, c, acts) = sleep_loop c p (sq_pending (servq s ac))
       in (upd_sta p (upd_servq ac (\<lambda>q. q\<lparr>sq_pending := rest\<rparr>)) c, acts))"

fun stop_queues :: "tx_ctx \<Rightarrow> bytes \<Rightarrow> tx_ac list \<Rightarrow> tx_ctx \<times> ps_act list" where
  "stop_queues c p [] = (c, [])"
| "stop_queues c p (ac # acs) =
     (let (c, acts) = dequeue_xmitframes_to_sleeping_queue c p ac;
          (c, acts2) = stop_queues (upd_hwx ac (hx_delete (sta_key_addr p)) c) p acs
      in (c, acts @ acts2))"

text \<open>\<open>None\<close>: there is no station, or none for group addresses, whose queues are used without a check.\<close>

definition stop_sta_xmit :: "tx_ctx \<Rightarrow> bytes \<Rightarrow> (tx_ctx \<times> ps_act list) option" where
  "stop_sta_xmit c p = (case tx_get_sta c p of
     None \<Rightarrow> None
   | Some s \<Rightarrow>
       let c = upd_dz (\<lambda>m. rtw_bmp_set m (aid8 s)) (tx_put_sta p (s\<lparr>ts_state := ts_state s OR WIFI_SLEEP_STATE\<rparr>) c);
           (c, acts) = stop_queues c p hwxmits
       in if tx_get_sta c bc_addr = None then None
          else let (c, acts2) = stop_queues c bc_addr hwxmits in Some (c, acts @ acts2))"

section \<open>Waking up\<close>

text \<open>The first frame of the sleep queue, with its More Data and EOSP bits; \<open>fs\<close> are the others.\<close>

definition wake_frame :: "tx_sta \<Rightarrow> tx_frame \<Rightarrow> tx_frame list \<Rightarrow> tx_sta \<times> tx_frame" where
  "wake_frame s f fs =
     (let len = sleepq_len s - 1;
          s = upd_ps (\<lambda>q. q\<lparr>ps_sleep_q := fs, ps_sleepq_len := len\<rparr>) s;
          f = upd_attr (\<lambda>a. a\<lparr>ta_mdata := len > 0\<rparr>) f
      in if wmmps_ac s (ta_priority (tf_attr f)) 1
         then let ac_len = sleepq_ac_len s - 1
              in (upd_ps (\<lambda>q. q\<lparr>ps_sleepq_ac_len := ac_len\<rparr>) s,
                  upd_attr (\<lambda>a. a\<lparr>ta_mdata := ac_len > 0, ta_eosp := (if ac_len > 0 then 0 else 1), ta_triggered := True\<rparr>) f)
         else (s, upd_attr (\<lambda>a. a\<lparr>ta_triggered := True\<rparr>) f))"

fun wake_loop :: "tx_ctx \<Rightarrow> bytes \<Rightarrow> tx_frame list \<Rightarrow> tx_ctx \<times> ps_act list" where
  "wake_loop c p [] = (c, [])"
| "wake_loop c p (f # fs) = (case tx_get_sta c p of
     None \<Rightarrow> (c, [])
   | Some s \<Rightarrow>
       let (s, f) = wake_frame s f fs;
           (err, c, acts) = rtl8188es_hal_xmitframe_enqueue (tx_put_sta p s c) f;
           (c, acts2) = wake_loop c p fs
       in (c, acts @ acts2))"

text \<open>Group frames; \<open>hiq\<close> says whether they may go to the high queue, which is sent behind the beacon.\<close>

definition bmc_frame :: "bool \<Rightarrow> tx_ctx \<Rightarrow> tx_sta \<Rightarrow> tx_frame \<Rightarrow> tx_frame list \<Rightarrow> tx_sta \<times> tx_frame" where
  "bmc_frame hiq c s f fs =
     (let len = sleepq_len s - 1; f = upd_attr (\<lambda>a. a\<lparr>ta_mdata := len > 0, ta_triggered := True\<rparr>) f
      in (upd_ps (\<lambda>q. q\<lparr>ps_sleep_q := fs, ps_sleepq_len := len\<rparr>) s, if hiq then to_hiq c f else f))"

fun bmc_loop :: "bool \<Rightarrow> tx_ctx \<Rightarrow> tx_frame list \<Rightarrow> tx_ctx \<times> ps_act list" where
  "bmc_loop hiq c [] = (c, [])"
| "bmc_loop hiq c (f # fs) = (case tx_get_sta c bc_addr of
     None \<Rightarrow> (c, [])
   | Some s \<Rightarrow>
       let (s, f) = bmc_frame hiq c s f fs;
           (err, c, acts) = rtl8188es_hal_xmitframe_enqueue (tx_put_sta bc_addr s c) f;
           (c, acts2) = bmc_loop hiq c fs
       in (c, acts @ acts2))"

text \<open>The station is awake when its queue is empty; the flag says whether its bit in the beacon was set.\<close>

definition wake_done :: "tx_ctx \<Rightarrow> bytes \<Rightarrow> bool \<times> tx_ctx" where
  "wake_done c p = (case tx_get_sta c p of
     None \<Rightarrow> (False, c)
   | Some s \<Rightarrow>
       if sleepq_len s = 0 then
         let st = (if ts_state s AND WIFI_SLEEP_STATE \<noteq> 0 then ts_state s XOR WIFI_SLEEP_STATE else ts_state s);
             alive = st AND WIFI_STA_ALIVE_CHK_STATE \<noteq> 0;
             s1 = s\<lparr>ts_state := (if alive then st XOR WIFI_STA_ALIVE_CHK_STATE else st)\<rparr>;
             s2 = (if alive then upd_ps (\<lambda>q. q\<lparr>ps_expire_to := pc_expire_to (tc_ps c)\<rparr>) s1 else s1)
         in (tim_set c (aid8 s),
             upd_dz (\<lambda>m. rtw_bmp_clear m (aid8 s)) (tx_put_sta p s2 (upd_tim (\<lambda>m. rtw_bmp_clear m (aid8 s)) c)))
       else (False, c))"

definition bmc_done :: "tx_ctx \<Rightarrow> bool \<times> tx_ctx" where
  "bmc_done c = (case tx_get_sta c bc_addr of
     None \<Rightarrow> (False, c)
   | Some s \<Rightarrow>
       if sleepq_len s = 0
       then (tim_set c 0, upd_dz (\<lambda>m. rtw_bmp_clear m 0) (upd_tim (\<lambda>m. rtw_bmp_clear m 0) c))
       else (False, c))"

definition wakeup_sta_to_xmit :: "tx_ctx \<Rightarrow> bytes \<Rightarrow> (tx_ctx \<times> ps_act list) option" where
  "wakeup_sta_to_xmit c p = (case tx_get_sta c p of
     None \<Rightarrow> None
   | Some s \<Rightarrow>
       let (c, acts) = wake_loop c p (sleep_q s);
           (uc, c) = wake_done c p;
           (bmc, c, acts2) =
             (case tx_get_sta c bc_addr of
                None \<Rightarrow> (False, c, [])
              | Some b \<Rightarrow>
                  if \<not> rtw_bmp_not_empty_exclude_bit0 (pc_sta_dz_bitmap (tc_ps c)) then
                    let (c, acts2) = bmc_loop False c (sleep_q b); (bmc, c) = bmc_done c in (bmc, c, acts2)
                  else (False, c, []))
       in Some (c, acts @ acts2 @ (if uc \<or> bmc then [Update_beacon] else [])))"

definition process_pwrbit_data :: "tx_ctx \<Rightarrow> bytes \<Rightarrow> bool \<Rightarrow> (tx_ctx \<times> ps_act list) option" where
  "process_pwrbit_data c p pwrbit = (case tx_get_sta c p of
     None \<Rightarrow> None
   | Some s \<Rightarrow>
       if pwrbit then if ts_state s AND WIFI_SLEEP_STATE = 0 then stop_sta_xmit c p else Some (c, [])
       else if ts_state s AND WIFI_SLEEP_STATE \<noteq> 0 then wakeup_sta_to_xmit c p else Some (c, []))"

end
