(* ===== verification/Delivery.thy ===== *)
theory Delivery
  imports PowerSave Reorder
begin

text \<open>
  The frames that an access point sends to stations while they sleep: on a trigger frame (U-APSD), on a PS-Poll and, to
  group addresses, behind a beacon (core/rtw_xmit.c, core/rtw_recv.c, core/rtw_mlme_ext.c, core/rtw_cmd.c, core/rtw_ap.c);
  and the end of the transmit entry, which takes a packet to the sleep queue, to the queue of a station that is joining or
  to the queues of the SDIO host.
\<close>

section \<open>U-APSD\<close>

text \<open>The frame \<open>f\<close> is sent, \<open>fs\<close> stay in the sleep queue.\<close>

definition delivery_frame :: "tx_sta \<Rightarrow> tx_frame \<Rightarrow> tx_frame list \<Rightarrow> tx_sta \<times> tx_frame" where
  "delivery_frame s f fs =
     (let ac_len = sleepq_ac_len s - 1
      in (upd_ps (\<lambda>q. q\<lparr>ps_sleep_q := fs, ps_sleepq_len := ps_sleepq_len q - 1, ps_sleepq_ac_len := ac_len\<rparr>) s,
          upd_attr (\<lambda>a. a\<lparr>ta_mdata := ac_len > 0, ta_eosp := (if ac_len > 0 then 0 else 1), ta_triggered := True\<rparr>) f))"

fun delivery_loop :: "tx_ctx \<Rightarrow> bytes \<Rightarrow> tx_frame list \<Rightarrow> tx_frame list \<Rightarrow> tx_ctx \<times> ps_act list" where
  "delivery_loop c p kept [] = (c, [])"
| "delivery_loop c p kept (f # fs) = (case tx_get_sta c p of
     None \<Rightarrow> (c, [])
   | Some s \<Rightarrow>
       if \<not> wmmps_ac s (ta_priority (tf_attr f)) 1 then delivery_loop c p (kept @ [f]) fs
       else
         let (s, f) = delivery_frame s f (kept @ fs);
             (err, c, acts) = rtl8188es_hal_xmitframe_enqueue (tx_put_sta p s c) f;
             (c, acts2) = (if sleepq_ac_len s = 0 \<and> \<not> ps_has_legacy_ac (ts_ps s)
                           then (upd_tim (\<lambda>m. rtw_bmp_clear m (aid8 s)) c, [Update_beacon]) else (c, []));
             (c, acts3) = delivery_loop c p kept fs
         in (c, acts @ acts2 @ acts3))"

definition xmit_delivery_enabled_frames :: "tx_ctx \<Rightarrow> bytes \<Rightarrow> (tx_ctx \<times> ps_act list) option" where
  "xmit_delivery_enabled_frames c p = (case tx_get_sta c p of
     None \<Rightarrow> None
   | Some s \<Rightarrow> Some (delivery_loop c p [] (sleep_q s)))"

definition process_wmmps_data :: "tx_ctx \<Rightarrow> bytes \<Rightarrow> u8 \<Rightarrow> (tx_ctx \<times> ps_act list) option" where
  "process_wmmps_data c p priority = (case tx_get_sta c p of
     None \<Rightarrow> None
   | Some s \<Rightarrow>
       if \<not> ts_qos_option s then Some (c, [])
       else if ps_qos_info (ts_ps s) AND 0xf = 0 then Some (c, [])
       else if ts_state s AND WIFI_SLEEP_STATE \<noteq> 0 \<and> wmmps_ac s priority 1 then
         if sleepq_ac_len s > 0 then xmit_delivery_enabled_frames c p
         else Some (c, [Qos_null_data p (ucast priority)])
       else Some (c, []))"

section \<open>Control frames\<close>

definition WIFI_CTRL_TYPE :: u32 where "WIFI_CTRL_TYPE = 0x04"
definition WIFI_PSPOLL :: u32 where "WIFI_PSPOLL = 0xa4"
definition WIFI_BAR :: u32 where "WIFI_BAR = 0x84"

definition GetAid :: "bytes \<Rightarrow> u16" where "GetAid h = hdr16 h 2 AND 0x3fff"

text \<open>A PS-Poll of the sleeping station \<open>p\<close>.\<close>

definition ps_poll :: "tx_ctx \<Rightarrow> bytes \<Rightarrow> tx_sta \<Rightarrow> tx_ctx \<times> ps_act list" where
  "ps_poll c p s = (case sleep_q s of
     f # fs \<Rightarrow>
       let len = sleepq_len s - 1;
           s = upd_ps (\<lambda>q. q\<lparr>ps_sleep_q := fs, ps_sleepq_len := len\<rparr>) s;
           f = upd_attr (\<lambda>a. a\<lparr>ta_mdata := len > 0, ta_triggered := True\<rparr>) f;
           (err, c, acts) = rtl8188es_hal_xmitframe_enqueue (tx_put_sta p s c) f
       in if len = 0 then (upd_tim (\<lambda>m. rtw_bmp_clear m (aid8 s)) c, acts @ [Update_beacon]) else (c, acts)
   | [] \<Rightarrow>
       if tim_set c (aid8 s) then
         let (c, acts) = (if sleepq_len s = 0 then (c, [Null_data p])
                          else (tx_put_sta p (upd_ps (\<lambda>q. q\<lparr>ps_sleepq_len := 0\<rparr>) s) c, []))
         in (upd_tim (\<lambda>m. rtw_bmp_clear m (aid8 s)) c, acts @ [Update_beacon])
       else (c, []))"

text \<open>Before that, the checks of the AID and of the category, and the end of a check whether the station is alive.\<close>

definition rx_ps_poll :: "tx_ctx \<Rightarrow> bytes \<Rightarrow> tx_sta \<Rightarrow> u16 \<Rightarrow> u8 \<Rightarrow> tx_ctx \<times> ps_act list" where
  "rx_ps_poll c p s aid priority =
     (if ps_aid (ts_ps s) \<noteq> aid then (c, [])
      else if wmmps_ac s priority 0 then (c, [])
      else
        let s = (if ts_state s AND WIFI_STA_ALIVE_CHK_STATE \<noteq> 0
                 then upd_ps (\<lambda>q. q\<lparr>ps_expire_to := pc_expire_to (tc_ps c)\<rparr>) (s\<lparr>ts_state := ts_state s XOR WIFI_STA_ALIVE_CHK_STATE\<rparr>)
                 else s);
            c = tx_put_sta p s c
        in if ts_state s AND WIFI_SLEEP_STATE \<noteq> 0 \<and> dz_set c (aid8 s) then ps_poll c p s else (c, []))"

text \<open>
  \<open>ctrls\<close> are the reorder control blocks of the stations, \<open>a1\<close> is the interface's own address. The function always
  returns \<open>_FAIL\<close>; \<open>None\<close> is a read outside the frame.
\<close>

definition validate_recv_ctrl_frame ::
  "tx_ctx \<Rightarrow> (bytes \<Rightarrow> 'p reorder_ctrl list) \<Rightarrow> bytes \<Rightarrow> u8 \<Rightarrow> (tx_ctx \<times> (bytes \<Rightarrow> 'p reorder_ctrl list) \<times> ps_act list) option" where
  "validate_recv_ctrl_frame c ctrls pframe priority = do {
     type \<leftarrow> GetFrameType pframe;
     if type \<noteq> WIFI_CTRL_TYPE then Some (c, ctrls, [])
     else do {
       a1 \<leftarrow> get_sub pframe 4 6;
       if a1 \<noteq> tc_hwaddr c then Some (c, ctrls, [])
       else do {
         p \<leftarrow> get_sub pframe 10 6;
         case tx_get_sta c p of
           None \<Rightarrow> Some (c, ctrls, [])
         | Some s \<Rightarrow> do {
             sub \<leftarrow> get_frame_sub_type pframe;
             if sub = WIFI_PSPOLL then (let (c, acts) = rx_ps_poll c p s (GetAid pframe) priority in Some (c, ctrls, acts))
             else if sub = WIFI_BAR then do {
               r \<leftarrow> rtw_process_bar_frame (ctrls (sta_key_addr p)) pframe;
               Some (c, ctrls(sta_key_addr p := r), []) }
             else Some (c, ctrls, []) } } } }"

section \<open>Group frames\<close>

text \<open>With \<open>hiq\<close> the frames of \<open>bmc_loop\<close> go to the high queue.\<close>

definition chk_bmc_sleepq_hdl :: "tx_ctx \<Rightarrow> tx_ctx \<times> ps_act list" where
  "chk_bmc_sleepq_hdl c = (case tx_get_sta c bc_addr of
     None \<Rightarrow> (c, [])
   | Some b \<Rightarrow>
       if tim_set c 0 \<and> sleepq_len b > 0
       then let (c, acts) = bmc_loop True c (sleep_q b) in (c, acts @ [Chk_hi_queue_cmd])
       else (c, []))"

text \<open>\<open>hiq_empty\<close> is the register read after waiting.\<close>

definition rtw_chk_hi_queue_hdl :: "bool \<Rightarrow> tx_ctx \<Rightarrow> tx_ctx \<times> ps_act list" where
  "rtw_chk_hi_queue_hdl hiq_empty c = (case tx_get_sta c bc_addr of
     None \<Rightarrow> (c, [])
   | Some b \<Rightarrow>
       if sleepq_len b = 0 then
         if hiq_empty
         then (upd_dz (\<lambda>m. rtw_bmp_clear m 0) (upd_tim (\<lambda>m. rtw_bmp_clear m 0) c), if tim_set c 0 then [Update_beacon] else [])
         else (c, [Chk_hi_queue_cmd])
       else (c, []))"

definition HIQ_XMIT_COUNTS :: nat where "HIQ_XMIT_COUNTS = 6"

text \<open>At most \<open>HIQ_XMIT_COUNTS\<close> frames behind one beacon; \<open>n\<close> of them are sent.\<close>

fun ap_bmc_loop :: "nat \<Rightarrow> tx_ctx \<Rightarrow> tx_frame list \<Rightarrow> tx_ctx \<times> ps_act list" where
  "ap_bmc_loop n c [] = (c, [])"
| "ap_bmc_loop n c (f # fs) = (case tx_get_sta c bc_addr of
     None \<Rightarrow> (c, [])
   | Some s \<Rightarrow>
       let len = sleepq_len s - 1;
           s = upd_ps (\<lambda>q. q\<lparr>ps_sleep_q := fs, ps_sleepq_len := len\<rparr>) s;
           f = to_hiq c (upd_attr (\<lambda>a. a\<lparr>ta_mdata := (len > 0 \<and> Suc n \<noteq> HIQ_XMIT_COUNTS), ta_triggered := True\<rparr>) f);
           (err, c, acts) = rtl8188es_hal_xmitframe_enqueue (tx_put_sta bc_addr s c) f
       in if Suc n = HIQ_XMIT_COUNTS then (c, acts)
          else let (c, acts2) = ap_bmc_loop (Suc n) c fs in (c, acts @ acts2))"

definition rtw_ap_bmc_frames_hdl :: "tx_ctx \<Rightarrow> tx_ctx \<times> ps_act list" where
  "rtw_ap_bmc_frames_hdl c =
     (if \<not> vc_wifi_spec (tc_vcs c) then (c, [])
      else case tx_get_sta c bc_addr of
        None \<Rightarrow> (c, [])
      | Some b \<Rightarrow>
          if tim_set c 0 \<and> sleepq_len b > 0
          then let (c, acts) = ap_bmc_loop 0 c (sleep_q b) in (c, Update_beacon # acts)
          else if sleepq_len b = 0
          then (upd_dz (\<lambda>m. rtw_bmp_clear m 0) (upd_tim (\<lambda>m. rtw_bmp_clear m 0) c), if tim_set c 0 then [Update_beacon] else [])
          else (c, []))"

section \<open>The transmit entry\<close>

definition do_queue_select :: "tx_attrib \<Rightarrow> tx_attrib" where
  "do_queue_select a =
     (let a = a\<lparr>ta_qsel := ta_priority a\<rparr> in if ta_hipriority_pkt a then a\<lparr>ta_qsel := QSLT_VO, ta_priority := QSLT_VO\<rparr> else a)"

text \<open>The queue of a station that is joining; the flag says whether the frame was put there.\<close>

definition xmit_enqueue :: "tx_ctx \<Rightarrow> tx_frame \<Rightarrow> bool \<times> tx_ctx" where
  "xmit_enqueue c f = (case ta_psta (tf_attr f) of
     None \<Rightarrow> (False, c)
   | Some p \<Rightarrow> (case tx_get_sta c p of
       None \<Rightarrow> (False, c)
     | Some s \<Rightarrow>
         if ps_tx_queue (ts_ps s) = [] \<and> \<not> ps_tx_q_enable (ts_ps s) then (False, c)
         else (True, tx_put_sta p (upd_ps (\<lambda>q. q\<lparr>ps_tx_queue := ps_tx_queue q @ [f]\<rparr>) s) c)))"

fun xmit_dequeue_loop :: "bool \<Rightarrow> tx_ctx \<Rightarrow> bytes \<Rightarrow> tx_frame list \<Rightarrow> tx_ctx \<times> ps_act list" where
  "xmit_dequeue_loop busy c p [] = (c, [])"
| "xmit_dequeue_loop busy c p (f # fs) =
     (let (freed, c, acts) = rtl8188es_hal_xmit busy (upd_sta p (upd_ps (\<lambda>q. q\<lparr>ps_tx_queue := fs\<rparr>)) c) f;
          (c, acts2) = xmit_dequeue_loop busy c p fs
      in (c, acts @ acts2))"

definition xmit_dequeue :: "bool \<Rightarrow> tx_ctx \<Rightarrow> bytes \<Rightarrow> (tx_ctx \<times> ps_act list) option" where
  "xmit_dequeue busy c p = (case tx_get_sta c p of
     None \<Rightarrow> None
   | Some s \<Rightarrow> Some (xmit_dequeue_loop busy c p (ps_tx_queue (ts_ps s))))"

definition rtw_xmit_queue_set :: "tx_sta \<Rightarrow> tx_sta" where
  "rtw_xmit_queue_set s = (if ps_tx_q_enable (ts_ps s) then s else upd_ps (\<lambda>q. q\<lparr>ps_tx_q_enable := True\<rparr>) s)"

definition rtw_xmit_queue_clear :: "bytes \<Rightarrow> tx_sta \<Rightarrow> tx_sta \<times> ps_act list" where
  "rtw_xmit_queue_clear p s =
     (if \<not> ps_tx_q_enable (ts_ps s) then (s, []) else (upd_ps (\<lambda>q. q\<lparr>ps_tx_q_enable := False\<rparr>) s, [Queue_work p]))"

text \<open>The end of \<open>rtw_xmit\<close>, for the packet \<open>pkt\<close> with the number \<open>n\<close> and the frame \<open>f\<close> allocated for it.\<close>

definition rtw_xmit_posthandle ::
  "tx_stack \<Rightarrow> bool \<Rightarrow> tx_ctx \<Rightarrow> nat \<Rightarrow> bytes \<Rightarrow> tx_frame \<Rightarrow> (int \<times> tx_ctx \<times> tx_act list \<times> ps_act list) option" where
  "rtw_xmit_posthandle sk busy c n pkt f = do {
     (res, a, c, tacts) \<leftarrow> update_attrib sk c pkt (tf_attr f);
     if res = RTW_FAIL then Some (-1, c, tacts, [Free_frame (f\<lparr>tf_attr := a\<rparr>)])
     else
       let (queued, f, c, acts) = xmitframe_enqueue_for_sleeping_sta c \<lparr>tf_pkt = n, tf_attr = do_queue_select a\<rparr>
       in if queued then Some (1, c, tacts, Led_tx_control # acts)
          else let (queued, c) = xmit_enqueue c f
               in if queued then Some (1, c, tacts, Led_tx_control # acts)
                  else let (freed, c, acts2) = rtl8188es_hal_xmit busy c f
                       in Some (if freed then 0 else 1, c, tacts, Led_tx_control # acts @ acts2) }"

section \<open>The WMM element of a station\<close>

definition WLAN_STA_WME :: u32 where "WLAN_STA_WME = 0x200"

definition wmm_uapsd :: "u8 \<Rightarrow> tx_ac \<Rightarrow> u8" where
  "wmm_uapsd qos_info ac =
     (let k = (case ac of AC_VO \<Rightarrow> 0 | AC_VI \<Rightarrow> 1 | AC_BK \<Rightarrow> 2 | AC_BE \<Rightarrow> 3) in if bit qos_info k then 3 else 0)"

text \<open>The QoS information byte is read behind the six bytes that were compared.\<close>

definition rtw_ap_parse_sta_wmm_ie :: "bool \<Rightarrow> tx_sta \<Rightarrow> bytes \<Rightarrow> nat \<Rightarrow> tx_sta option" where
  "rtw_ap_parse_sta_wmm_ie mlme_qos_option s tlv_ies tlv_ies_len =
     (let s = upd_ps (\<lambda>q. q\<lparr>ps_flags := ps_flags q AND NOT WLAN_STA_WME, ps_qos_info := 0, ps_has_legacy_ac := True,
                            ps_uapsd := (\<lambda>_. 0)\<rparr>) (s\<lparr>ts_qos_option := False\<rparr>)
      in if \<not> mlme_qos_option then Some s
         else do {
           r \<leftarrow> rtw_get_ie_ex tlv_ies tlv_ies_len 221 (Some [0x00, 0x50, 0xf2, 0x02, 0x00, 0x01]);
           case r of
             None \<Rightarrow> Some s
           | Some (off, n) \<Rightarrow> do {
               info \<leftarrow> rd tlv_ies (off + 8);
               Some (upd_ps (\<lambda>q. q\<lparr>ps_flags := ps_flags q OR WLAN_STA_WME, ps_qos_info := info,
                                   ps_max_sp_len := drop_bit 5 info AND 0x3, ps_has_legacy_ac := (info AND 0xf \<noteq> 0xf),
                                   ps_uapsd := (if info AND 0xf \<noteq> 0 then wmm_uapsd info else ps_uapsd q)\<rparr>)
                       (s\<lparr>ts_qos_option := True\<rparr>)) } })"

end
