(* ===== verification/PsInv.thy ===== *)
theory PsInv
  imports Delivery
begin

text \<open>
  The invariant of the queues of an access point and what the elementary steps of PowerSave and Delivery do to the
  frames of a station: \<open>steady\<close> steps keep, for each station and access category, the order of the frames that wait.
\<close>

section \<open>The view of the state\<close>

abbreviation dz_map :: "tx_ctx \<Rightarrow> bytes" where "dz_map c \<equiv> pc_sta_dz_bitmap (tc_ps c)"
abbreviation tim_map :: "tx_ctx \<Rightarrow> bytes" where "tim_map c \<equiv> pc_tim_bitmap (tc_ps c)"

type_synonym ps_view = "u32 \<times> bytes \<times> bytes \<times> (bytes \<Rightarrow> tx_sta option)"

definition pv :: "tx_ctx \<Rightarrow> ps_view" where
  "pv c = (tc_fw_state c, dz_map c, tim_map c, tc_stas c)"

lemma tx_upd_fields [simp]:
  "tc_stas (upd_hwx ac g c) = tc_stas c" "tc_stas (upd_tim h c) = tc_stas c" "tc_stas (upd_dz h c) = tc_stas c"
  "tc_stas (tx_put_sta p s c) = (tc_stas c)(sta_key_addr p := Some s)"
  "dz_map (upd_hwx ac g c) = dz_map c" "dz_map (upd_tim h c) = dz_map c" "dz_map (upd_dz h c) = h (dz_map c)" "dz_map (tx_put_sta p s c) = dz_map c"
  "tim_map (upd_hwx ac g c) = tim_map c" "tim_map (upd_tim h c) = h (tim_map c)" "tim_map (upd_dz h c) = tim_map c" "tim_map (tx_put_sta p s c) = tim_map c"
  "tc_fw_state (upd_hwx ac g c) = tc_fw_state c" "tc_fw_state (upd_tim h c) = tc_fw_state c" "tc_fw_state (upd_dz h c) = tc_fw_state c"
  "tc_fw_state (tx_put_sta p s c) = tc_fw_state c"
  by (simp_all add: upd_hwx_def upd_pc_def upd_tim_def upd_dz_def tx_put_sta_def)

lemma pv_upd [simp]:
  "pv (upd_hwx ac g c) = pv c" "pv (upd_tim h c) = (tc_fw_state c, dz_map c, h (tim_map c), tc_stas c)"
  "pv (upd_dz h c) = (tc_fw_state c, h (dz_map c), tim_map c, tc_stas c)"
  "pv (tx_put_sta p s c) = (tc_fw_state c, dz_map c, tim_map c, (tc_stas c)(sta_key_addr p := Some s))"
  by (simp_all add: pv_def)

lemma sta_key_idem [simp]: "sta_key_addr (sta_key_addr p) = sta_key_addr p"
  by (simp add: sta_key_addr_def)

lemma sta_key_bc [simp]: "sta_key_addr bc_addr = bc_addr"
  by (simp add: sta_key_addr_def bc_addr_def)

lemma tx_get_put [simp]: "tx_get_sta (tx_put_sta p s c) q = (if sta_key_addr p = sta_key_addr q then Some s else tx_get_sta c q)"
  by (simp add: tx_get_sta_def)

lemma upd_sta_some: "tx_get_sta c p = Some s \<Longrightarrow> upd_sta p g c = tx_put_sta p (g s) c"
  by (simp add: upd_sta_def)

text \<open>The fields of a station that the steps change.\<close>

lemma upd_ps_fields [simp]:
  "ts_state (upd_ps g s) = ts_state s" "ts_ps (upd_ps g s) = g (ts_ps s)" "ts_ps (s\<lparr>ts_state := x\<rparr>) = ts_ps s"
  "upd_ps g (upd_ps h s) = upd_ps (g \<circ> h) s" "ts_qos_option (upd_ps g s) = ts_qos_option s"
  by (simp_all add: upd_ps_def)

lemma upd_attr_fields [simp]: "tf_pkt (upd_attr g f) = tf_pkt f" "tf_attr (upd_attr g f) = g (tf_attr f)"
  by (simp_all add: upd_attr_def)

section \<open>The invariant\<close>

text \<open>The access category of a frame; a frame of the station \<open>k\<close>.\<close>

definition fr_cat :: "tx_frame \<Rightarrow> tx_ac" where "fr_cat f = rtw_get_sta_pending (ta_priority (tf_attr f))"

definition fr_of :: "bytes \<Rightarrow> tx_frame \<Rightarrow> bool" where
  "fr_of k f \<longleftrightarrow> sta_key_addr (pa_ra (tf_attr f)) = k \<and> ta_psta (tf_attr f) = Some k"

definition same_frame :: "tx_frame \<Rightarrow> tx_frame \<Rightarrow> bool" where
  "same_frame f g \<longleftrightarrow> tf_pkt f = tf_pkt g \<and> pa_ra (tf_attr f) = pa_ra (tf_attr g) \<and> ta_psta (tf_attr f) = ta_psta (tf_attr g)
     \<and> ta_priority (tf_attr f) = ta_priority (tf_attr g)"

text \<open>The packets of a station that wait in a category, in the order in which they are sent, and their number.\<close>

definition sta_out :: "tx_sta \<Rightarrow> tx_ac \<Rightarrow> nat list" where
  "sta_out s ac = map tf_pkt (sq_pending (servq s ac)) @ map tf_pkt (filter (\<lambda>f. fr_cat f = ac) (sleep_q s))"

definition queued :: "tx_sta \<Rightarrow> nat" where
  "queued s = length (sta_out s AC_VO) + length (sta_out s AC_VI) + length (sta_out s AC_BE) + length (sta_out s AC_BK)"

text \<open>
  A frame that the beacon announces: with U-APSD for all categories each frame, otherwise those that are not delivery
  enabled.
\<close>

definition announced :: "tx_sta \<Rightarrow> tx_frame \<Rightarrow> bool" where
  "announced s f \<longleftrightarrow> (ps_has_legacy_ac (ts_ps s) \<longrightarrow> \<not> wmmps_ac s (ta_priority (tf_attr f)) 0)"

definition all_uapsd :: "tx_sta \<Rightarrow> bool" where
  "all_uapsd s \<longleftrightarrow> (\<forall>ac. bit (ps_uapsd (ts_ps s) ac) 0 \<and> bit (ps_uapsd (ts_ps s) ac) 1)"

text \<open>The frames that the driver allocates for transmission (include/xmit_osdep.h).\<close>

definition NR_XMITFRAME :: nat where "NR_XMITFRAME = 256"

text \<open>
  A station that has frames in its sleep queue is asleep, and then its number is in the bitmap of sleeping stations; the
  frames to be announced are announced. Without a category that is not delivery enabled all are counted in
  \<open>sleepq_ac_len\<close>.
\<close>

definition sta_ps_inv :: "bytes \<Rightarrow> bytes \<Rightarrow> tx_sta \<Rightarrow> bool" where
  "sta_ps_inv dz tim s \<longleftrightarrow> aid8 s \<noteq> 0 \<and> tim_fits dz (aid8 s) \<and> tim_fits tim (aid8 s)
     \<and> (ts_state s AND WIFI_SLEEP_STATE \<noteq> 0 \<longrightarrow> rtw_bmp_is_set dz (aid8 s)) \<and> (ts_state s AND WIFI_SLEEP_STATE = 0 \<longrightarrow> sleep_q s = [])
     \<and> (\<forall>f \<in> set (sleep_q s). announced s f \<longrightarrow> rtw_bmp_is_set tim (aid8 s))
     \<and> (\<not> ps_has_legacy_ac (ts_ps s) \<longrightarrow> all_uapsd s \<and> sleepq_ac_len s = word_of_nat (length (sleep_q s)))
     \<and> queued s \<le> NR_XMITFRAME"

text \<open>
  Each station is associated, is not joining, and its frames are its own and in the right queue.
\<close>

definition sta_inv :: "bytes \<Rightarrow> bytes \<Rightarrow> bytes \<Rightarrow> tx_sta \<Rightarrow> bool" where
  "sta_inv dz tim k s \<longleftrightarrow> ts_state s AND WIFI_ASOC_STATE \<noteq> 0 \<and> ps_tx_queue (ts_ps s) = [] \<and> \<not> ps_tx_q_enable (ts_ps s)
     \<and> (\<forall>ac. \<forall>f \<in> set (sq_pending (servq s ac)). fr_of k f \<and> fr_cat f = ac) \<and> (\<forall>f \<in> set (sleep_q s). fr_of k f)
     \<and> sleepq_len s = word_of_nat (length (sleep_q s))
     \<and> (if k = bc_addr then aid8 s = 0 else sta_ps_inv dz tim s)"

definition aids_distinct :: "(bytes \<Rightarrow> tx_sta option) \<Rightarrow> bool" where
  "aids_distinct m \<longleftrightarrow> (\<forall>k l s t. m k = Some s \<longrightarrow> m l = Some t \<longrightarrow> k \<noteq> bc_addr \<longrightarrow> l \<noteq> bc_addr \<longrightarrow> aid8 s = aid8 t \<longrightarrow> k = l)"

fun view_inv :: "ps_view \<Rightarrow> bool" where
  "view_inv (fw, dz, tim, m) \<longleftrightarrow> check_fwstate fw WIFI_AP_STATE \<and> aids_distinct m
     \<and> (\<forall>k s. m k = Some s \<longrightarrow> sta_key_addr k = k \<and> sta_inv dz tim k s)"

definition ps_inv :: "tx_ctx \<Rightarrow> bool" where "ps_inv c \<longleftrightarrow> view_inv (pv c)"

text \<open>The packets that wait for the station \<open>k\<close> in a category.\<close>

fun view_out :: "ps_view \<Rightarrow> bytes \<Rightarrow> tx_ac \<Rightarrow> nat list" where
  "view_out (fw, dz, tim, m) k ac = (case m k of None \<Rightarrow> [] | Some s \<Rightarrow> sta_out s ac)"

definition waiting :: "tx_ctx \<Rightarrow> bytes \<Rightarrow> tx_ac \<Rightarrow> nat list" where "waiting c = view_out (pv c)"

section \<open>Steady steps\<close>

definition steady :: "tx_ctx \<Rightarrow> tx_ctx \<Rightarrow> bool" where
  "steady c c' \<longleftrightarrow> ps_inv c' \<and> (\<forall>k ac. k \<noteq> bc_addr \<longrightarrow> waiting c' k ac = waiting c k ac)"

lemma steady_refl: "ps_inv c \<Longrightarrow> steady c c"
  by (simp add: steady_def)

lemma steady_trans [trans]: "steady a b \<Longrightarrow> steady b c \<Longrightarrow> steady a c"
  by (simp add: steady_def)

lemma steady_view: "ps_inv c \<Longrightarrow> pv c' = pv c \<Longrightarrow> steady c c'"
  by (simp add: steady_def ps_inv_def waiting_def)

lemma aids_distinct_put: "aids_distinct m \<Longrightarrow> m k = Some s \<Longrightarrow> ps_aid (ts_ps s') = ps_aid (ts_ps s) \<Longrightarrow> aids_distinct (m(k := Some s'))"
  unfolding aids_distinct_def aid8_def by (auto split: if_splits)

lemma sleep_q_queued: "length (sleep_q s) \<le> queued s"
proof -
  have "length q = length (filter (\<lambda>f. fr_cat f = AC_VO) q) + length (filter (\<lambda>f. fr_cat f = AC_VI) q)
    + length (filter (\<lambda>f. fr_cat f = AC_BE) q) + length (filter (\<lambda>f. fr_cat f = AC_BK) q)" for q
  proof (induction q)
    case (Cons f q)
    then show ?case by (cases "fr_cat f") simp_all
  qed simp
  from this [of "sleep_q s"] show ?thesis unfolding queued_def sta_out_def length_append length_map by linarith
qed

lemma word_zero_small: "n \<le> NR_XMITFRAME \<Longrightarrow> (word_of_nat n :: u32) = 0 \<longleftrightarrow> n = 0"
proof -
  assume "n \<le> NR_XMITFRAME"
  then have "unat (word_of_nat n :: u32) = n" by (simp add: NR_XMITFRAME_def unsigned_of_nat take_bit_nat_eq_self)
  then have "word_of_nat n = (0 :: u32) \<longleftrightarrow> n = unat (0 :: u32)" by (metis word_unat_eq_iff)
  then show ?thesis by simp
qed

lemma ps_invD:
  assumes "ps_inv c" "tc_stas c k = Some s"
  shows "sta_inv (dz_map c) (tim_map c) k s" "sta_key_addr k = k" "check_fwstate (tc_fw_state c) WIFI_AP_STATE" "aids_distinct (tc_stas c)"
  using assms by (auto simp: ps_inv_def pv_def)

text \<open>A change of one station.\<close>

lemma inv_put:
  assumes "ps_inv c" "tc_stas c k = Some s" "pv c' = (tc_fw_state c, dz_map c, tim_map c, (tc_stas c)(k := Some s'))"
    "sta_inv (dz_map c) (tim_map c) k s'" "ps_aid (ts_ps s') = ps_aid (ts_ps s)"
  shows "ps_inv c'"
  using assms aids_distinct_put [of "tc_stas c" k s s'] by (auto simp: ps_inv_def pv_def)

lemma waiting_put:
  assumes "pv c' = (fw, dz, tim, (tc_stas c)(k := Some s'))"
  shows "waiting c' l ac = (if l = k then sta_out s' ac else waiting c l ac)"
  using assms by (auto simp: waiting_def pv_def)

lemma waiting_some: "tc_stas c k = Some s \<Longrightarrow> waiting c k ac = sta_out s ac"
  by (simp add: waiting_def pv_def)

lemma steady_put:
  assumes "ps_inv c" "tc_stas c k = Some s" "pv c' = (tc_fw_state c, dz_map c, tim_map c, (tc_stas c)(k := Some s'))"
    "sta_inv (dz_map c) (tim_map c) k s'" "ps_aid (ts_ps s') = ps_aid (ts_ps s)" "k \<noteq> bc_addr \<longrightarrow> (\<forall>ac. sta_out s' ac = sta_out s ac)"
  shows "steady c c'"
  unfolding steady_def using inv_put [OF assms(1-5)] waiting_put [OF assms(3)] waiting_some [OF assms(2)] assms(6) by auto

text \<open>Each change of the bitmaps that keeps the numbers in use.\<close>

lemma inv_maps:
  assumes "view_inv (fw, dz, tim, m)" "\<forall>i. tim_fits dz' i = tim_fits dz i" "\<forall>i. tim_fits tim' i = tim_fits tim i"
    "\<forall>k s. m k = Some s \<longrightarrow> k \<noteq> bc_addr \<longrightarrow> ts_state s AND WIFI_SLEEP_STATE \<noteq> 0 \<longrightarrow> rtw_bmp_is_set dz (aid8 s) \<longrightarrow> rtw_bmp_is_set dz' (aid8 s)"
    "\<forall>k s. m k = Some s \<longrightarrow> k \<noteq> bc_addr \<longrightarrow> sleep_q s \<noteq> [] \<longrightarrow> rtw_bmp_is_set tim (aid8 s) \<longrightarrow> rtw_bmp_is_set tim' (aid8 s)"
  shows "view_inv (fw, dz', tim', m)"
proof -
  have "sta_inv dz' tim' k s" if s: "m k = Some s" for k s
  proof -
    have i: "sta_inv dz tim k s" using assms(1) s by simp
    show ?thesis
    proof (cases "k = bc_addr")
      case False
      have "sta_ps_inv dz' tim' s"
        using i False assms(2,3) assms(4,5) [rule_format, OF s False] unfolding sta_inv_def sta_ps_inv_def
        by (metis empty_iff list.set(1))
      then show ?thesis using i False by (simp add: sta_inv_def)
    qed (use i in \<open>simp add: sta_inv_def\<close>)
  qed
  then show ?thesis using assms(1) by simp
qed

section \<open>The elementary steps\<close>

lemma same_frame_props: "same_frame f g \<Longrightarrow> fr_of k f = fr_of k g" "same_frame f g \<Longrightarrow> fr_cat f = fr_cat g"
  by (simp_all add: same_frame_def fr_of_def fr_cat_def)

text \<open>A frame for the SDIO host.\<close>

definition sta_enq :: "tx_frame \<Rightarrow> tx_sta \<Rightarrow> tx_sta" where
  "sta_enq f = upd_servq (fr_cat f) (\<lambda>q. \<lparr>sq_pending = sq_pending q @ [f], sq_qcnt = sq_qcnt q + 1\<rparr>)"

lemma classifier_ok:
  assumes "fr_of k f" "tc_stas c k = Some s" "ts_state s AND WIFI_ASOC_STATE \<noteq> 0"
  shows "\<exists>c'. rtw_xmit_classifier c f = (RTW_SUCCESS, c') \<and> pv c' = (tc_fw_state c, dz_map c, tim_map c, (tc_stas c)(k := Some (sta_enq f s)))"
proof -
  have k: "sta_key_addr (pa_ra (tf_attr f)) = k" "ta_psta (tf_attr f) = Some k" using assms(1) by (auto simp: fr_of_def)
  have g: "tx_get_sta c (pa_ra (tf_attr f)) = Some s" using k(1) assms(2) by (simp add: tx_get_sta_def)
  show ?thesis
    using g k assms(3) unfolding rtw_xmit_classifier_def Let_def
    by (simp add: upd_sta_some sta_enq_def fr_cat_def)
qed

lemma hal_enqueue_ok:
  assumes "fr_of k f" "tc_stas c k = Some s" "ts_state s AND WIFI_ASOC_STATE \<noteq> 0"
  obtains c' where "rtl8188es_hal_xmitframe_enqueue c f = (RTW_SUCCESS, c', [Wake_xmit_thread])"
    "pv c' = (tc_fw_state c, dz_map c, tim_map c, (tc_stas c)(k := Some (sta_enq f s)))"
  using classifier_ok [OF assms] by (auto simp: rtl8188es_hal_xmitframe_enqueue_def rtw_xmitframe_enqueue_def)

text \<open>Stations that differ in their queues only.\<close>

definition like :: "tx_sta \<Rightarrow> tx_sta \<Rightarrow> bool" where
  "like s s' \<longleftrightarrow> ts_state s' = ts_state s \<and> ps_aid (ts_ps s') = ps_aid (ts_ps s) \<and> ps_uapsd (ts_ps s') = ps_uapsd (ts_ps s)
     \<and> ps_has_legacy_ac (ts_ps s') = ps_has_legacy_ac (ts_ps s) \<and> ps_tx_queue (ts_ps s') = ps_tx_queue (ts_ps s)
     \<and> ps_tx_q_enable (ts_ps s') = ps_tx_q_enable (ts_ps s)"

lemma like_trans: "like s t \<Longrightarrow> like t u \<Longrightarrow> like s u"
  by (simp add: like_def)

lemma like_refl [simp]: "like s s"
  by (simp add: like_def)

lemma like_props:
  assumes "like s s'"
  shows "aid8 s' = aid8 s" "all_uapsd s' = all_uapsd s" "announced s' f = announced s f" "wmmps_ac s' up n = wmmps_ac s up n"
    "ts_state s' = ts_state s" "ps_aid (ts_ps s') = ps_aid (ts_ps s)" "ps_has_legacy_ac (ts_ps s') = ps_has_legacy_ac (ts_ps s)"
  using assms by (simp_all add: like_def aid8_def all_uapsd_def announced_def wmmps_ac_def)

lemma sta_enq_fields [simp]:
  "sleep_q (sta_enq f s) = sleep_q s" "sleepq_len (sta_enq f s) = sleepq_len s" "sleepq_ac_len (sta_enq f s) = sleepq_ac_len s"
  "like s (sta_enq f s)"
  "sq_pending (servq (sta_enq f s) ac) = (if ac = fr_cat f then sq_pending (servq s ac) @ [f] else sq_pending (servq s ac))"
  by (simp_all add: sta_enq_def upd_servq_def like_def)

lemma queued_cong: "\<forall>ac. sta_out s' ac = sta_out s ac \<Longrightarrow> queued s' = queued s"
  by (simp add: queued_def)

text \<open>The invariant of a station after its queues have changed.\<close>

lemma sta_inv_like:
  assumes i: "sta_inv dz tim k s" and l: "like s s'" and pend: "\<forall>ac. \<forall>f \<in> set (sq_pending (servq s' ac)). fr_of k f \<and> fr_cat f = ac"
    and q: "\<forall>f \<in> set (sleep_q s'). fr_of k f" "sleepq_len s' = word_of_nat (length (sleep_q s'))"
    and p: "k \<noteq> bc_addr \<Longrightarrow> (sleep_q s' \<noteq> [] \<longrightarrow> ts_state s AND WIFI_SLEEP_STATE \<noteq> 0)
      \<and> (\<forall>f \<in> set (sleep_q s'). announced s f \<longrightarrow> rtw_bmp_is_set tim (aid8 s))
      \<and> (\<not> ps_has_legacy_ac (ts_ps s) \<longrightarrow> sleepq_ac_len s' = word_of_nat (length (sleep_q s'))) \<and> queued s' \<le> NR_XMITFRAME"
  shows "sta_inv dz tim k s'"
proof -
  have "sta_ps_inv dz tim s'" if "k \<noteq> bc_addr"
    using i p [OF that] that unfolding sta_inv_def sta_ps_inv_def like_props [OF l] by auto
  moreover have "ts_state s' AND WIFI_ASOC_STATE \<noteq> 0 \<and> ps_tx_queue (ts_ps s') = [] \<and> \<not> ps_tx_q_enable (ts_ps s')"
    using i l by (simp add: sta_inv_def like_def)
  moreover have "k = bc_addr \<Longrightarrow> aid8 s' = 0" using i like_props(1) [OF l] by (simp add: sta_inv_def)
  ultimately show ?thesis unfolding sta_inv_def using pend q by simp
qed

text \<open>The sleep queue of a station with a frame taken out of it.\<close>

definition sleeps :: "bytes \<Rightarrow> tx_frame list \<Rightarrow> tx_sta \<Rightarrow> tx_sta \<Rightarrow> bool" where
  "sleeps k q s s' \<longleftrightarrow> sleep_q s' = q \<and> like s s' \<and> ps_servq (ts_ps s') = ps_servq (ts_ps s) \<and> sleepq_len s' = sleepq_len s - 1
     \<and> (k \<noteq> bc_addr \<and> all_uapsd s \<and> \<not> ps_has_legacy_ac (ts_ps s) \<longrightarrow> sleepq_ac_len s' = sleepq_ac_len s - 1)"

lemma sleeps_like: "sleeps k q s s' \<Longrightarrow> like s (sta_enq f s')"
  unfolding sleeps_def by (meson like_trans sta_enq_fields(4))

lemma release:
  assumes inv: "ps_inv c" and s: "tc_stas c k = Some s" and q: "sleep_q s = pre @ f # fs" "\<forall>g \<in> set pre. fr_cat g \<noteq> fr_cat f \<or> k = bc_addr"
    and s': "sleeps k (pre @ fs) s s'" and f': "same_frame f' f"
  obtains c' where "rtl8188es_hal_xmitframe_enqueue (tx_put_sta k s' c) f' = (RTW_SUCCESS, c', [Wake_xmit_thread])"
    "steady c c'" "tc_stas c' k = Some (sta_enq f' s')" "like s (sta_enq f' s')"
proof -
  note si = ps_invD [OF inv s]
  let ?c = "tx_put_sta k s' c" and ?s = "sta_enq f' s'"
  have fk: "fr_of k f" using si(1) q(1) by (simp add: sta_inv_def)
  have fk': "fr_of k f'" using fk same_frame_props [OF f'] by simp
  have l: "like s ?s" by (rule sleeps_like [OF s'])
  have a: "ts_state s' AND WIFI_ASOC_STATE \<noteq> 0" using si(1) s' by (simp add: sta_inv_def sleeps_def like_def)
  have g: "tc_stas ?c k = Some s'" using si(2) by simp
  obtain c' where c': "rtl8188es_hal_xmitframe_enqueue ?c f' = (RTW_SUCCESS, c', [Wake_xmit_thread])"
    "pv c' = (tc_fw_state ?c, dz_map ?c, tim_map ?c, (tc_stas ?c)(k := Some ?s))"
    using hal_enqueue_ok [OF fk' g a] by blast
  have pv': "pv c' = (tc_fw_state c, dz_map c, tim_map c, (tc_stas c)(k := Some ?s))" using c'(2) si(2) by simp
  have out: "sta_out ?s ac = sta_out s ac" if "k \<noteq> bc_addr" for ac
  proof -
    have e: "filter (\<lambda>g. fr_cat g = fr_cat f) pre = []" using q(2) that by (simp add: filter_empty_conv)
    show ?thesis
      using q(1) s' e same_frame_props(2) [OF f'] f' by (auto simp: sta_out_def sleeps_def same_frame_def)
  qed
  have inv': "sta_inv (dz_map c) (tim_map c) k ?s"
  proof (rule sta_inv_like [OF si(1) l])
    show "\<forall>ac. \<forall>f \<in> set (sq_pending (servq ?s ac)). fr_of k f \<and> fr_cat f = ac"
      using si(1) s' fk' by (auto simp: sta_inv_def sleeps_def)
    show "\<forall>f \<in> set (sleep_q ?s). fr_of k f" "sleepq_len ?s = word_of_nat (length (sleep_q ?s))"
      using si(1) s' q(1) by (simp_all add: sta_inv_def sleeps_def)
    assume k: "k \<noteq> bc_addr"
    then have p: "sta_ps_inv (dz_map c) (tim_map c) s" using si(1) by (simp add: sta_inv_def)
    have "queued ?s = queued s" using out [OF k] by (intro queued_cong) simp
    then show "(sleep_q ?s \<noteq> [] \<longrightarrow> ts_state s AND WIFI_SLEEP_STATE \<noteq> 0)
      \<and> (\<forall>f \<in> set (sleep_q ?s). announced s f \<longrightarrow> rtw_bmp_is_set (tim_map c) (aid8 s))
      \<and> (\<not> ps_has_legacy_ac (ts_ps s) \<longrightarrow> sleepq_ac_len ?s = word_of_nat (length (sleep_q ?s))) \<and> queued ?s \<le> NR_XMITFRAME"
      using p s' q(1) k by (auto simp: sta_ps_inv_def sleeps_def)
  qed
  have st: "steady c c'" using steady_put [OF inv s pv' inv'] l out by (simp add: like_def)
  have "tc_stas c' k = Some ?s" using pv' by (simp add: pv_def)
  then show thesis using that [OF c'(1) st] l by simp
qed

text \<open>
  The WMM element of an association request sets the station up so that the invariant holds. The byte with the categories is
  read behind the six bytes that are compared, even when the element ends there.
\<close>

lemma wmm_ie_uapsd:
  assumes "rtw_ap_parse_sta_wmm_ie q s ies n = Some s'" "\<not> ps_has_legacy_ac (ts_ps s')"
  shows "all_uapsd s'"
proof -
  have b: "info AND 0xf = 0xf \<Longrightarrow> k < 4 \<Longrightarrow> bit (info :: u8) k" for info k
  proof -
    assume "info AND 0xf = 0xf" "k < 4"
    then have "bit (info AND 0xf) k \<longleftrightarrow> bit (mask 4 :: u8) k" by (simp add: mask_eq_exp_minus_1)
    then show "bit info k" using \<open>k < 4\<close> by (simp add: bit_simps)
  qed
  show ?thesis
    using assms b
    by (auto simp: rtw_ap_parse_sta_wmm_ie_def Let_def all_uapsd_def wmm_uapsd_def bit_simps split: if_splits Option.bind_splits option.splits tx_ac.splits)
qed

lemma wmm_ie_overread:
  fixes s
  defines "es \<equiv> [221, 6, 0x00, 0x50, 0xf2, 0x02, 0x00, 0x01]"
  shows "rtw_ap_parse_sta_wmm_ie True s es 8 = None"
proof -
  have "get_ie_ex_turn es 8 (221, Some [0x00, 0x50, 0xf2, 0x02, 0x00, 0x01]) 0 = Hit 8" unfolding es_def by code_simp
  then have "rtw_get_ie_ex es 8 221 (Some [0x00, 0x50, 0xf2, 0x02, 0x00, 0x01]) = Some (Some (0, 8))"
    by (simp add: rtw_get_ie_ex_def tlv_walk_Hit)
  then show ?thesis by (simp add: rtw_ap_parse_sta_wmm_ie_def rd_def) (simp add: es_def)
qed

end
