(* ===== verification/PsWake.thy ===== *)
theory PsWake
  imports PsInv
begin

text \<open>
  Waking up, PS-Poll and U-APSD keep the order of the frames: each step that sends frames out of a sleep queue is
  \<open>steady\<close>.
\<close>

section \<open>Waking up\<close>

lemma put_key: "sta_key_addr p = k \<Longrightarrow> tx_put_sta p s c = tx_put_sta k s c" "sta_key_addr p = k \<Longrightarrow> tx_get_sta c p = tc_stas c k"
  by (auto simp: tx_put_sta_def tx_get_sta_def)

lemma wake_frame_props:
  assumes "wake_frame s f fs = (s', f')"
  shows "sleeps k fs s s'" "same_frame f' f"
  using assms by (auto simp: wake_frame_def Let_def sleeps_def like_def same_frame_def all_uapsd_def wmmps_ac_def split: if_splits)

lemma wake_loop_steady:
  assumes "ps_inv c" "sta_key_addr p = k" "tc_stas c k = Some s" "sleep_q s = fs"
  shows "\<exists>c' s' acts. wake_loop c p fs = (c', acts) \<and> steady c c' \<and> tc_stas c' k = Some s' \<and> sleep_q s' = [] \<and> like s s'"
  using assms
proof (induction fs arbitrary: c s)
  case Nil
  then show ?case by (simp add: steady_refl)
next
  case (Cons f fs)
  obtain s1 f1 where w: "wake_frame s f fs = (s1, f1)" by fastforce
  note wp = wake_frame_props [OF w]
  obtain c1 where c1: "rtl8188es_hal_xmitframe_enqueue (tx_put_sta k s1 c) f1 = (RTW_SUCCESS, c1, [Wake_xmit_thread])"
    "steady c c1" "tc_stas c1 k = Some (sta_enq f1 s1)" "like s (sta_enq f1 s1)"
    using release [OF Cons.prems(1,3), of "[]" f fs s1 f1] Cons.prems(4) wp by auto
  have i1: "ps_inv c1" using c1(2) by (simp add: steady_def)
  have q1: "sleep_q (sta_enq f1 s1) = fs" using wp(1) by (simp add: sleeps_def)
  obtain c2 s2 a2 where c2: "wake_loop c1 p fs = (c2, a2)" "steady c1 c2" "tc_stas c2 k = Some s2" "sleep_q s2 = []" "like (sta_enq f1 s1) s2"
    using Cons.IH [OF i1 Cons.prems(2) c1(3) q1] by blast
  have "wake_loop c p (f # fs) = (c2, Wake_xmit_thread # a2)"
    using w c1(1) c2(1) Cons.prems(3) put_key [OF Cons.prems(2)] by simp
  then show ?case
    using steady_trans [OF c1(2) c2(2)] c2(3,4) like_trans [OF c1(4) c2(5)] by auto
qed

lemma and_one_bit: "(x :: u32) AND 2 ^ n = (if bit x n then 2 ^ n else 0)"
  by (rule bit_word_eqI) (auto simp: bit_simps)

lemma bit_change: "bit ((x :: u32) XOR 2 ^ m) n \<longleftrightarrow> bit x n \<noteq> (n = m \<and> m < 32)" "bit (x OR 2 ^ m) n \<longleftrightarrow> bit x n \<or> n = m \<and> m < 32"
  by (auto simp: bit_simps)

lemma state_flags: "WIFI_SLEEP_STATE = 2 ^ 2" "WIFI_STA_ALIVE_CHK_STATE = 2 ^ 10" "WIFI_ASOC_STATE = 2 ^ 0"
  by (simp_all add: WIFI_SLEEP_STATE_def WIFI_STA_ALIVE_CHK_STATE_def WIFI_ASOC_STATE_def)

lemma xor_state:
  "(x XOR WIFI_SLEEP_STATE) AND WIFI_ASOC_STATE = x AND WIFI_ASOC_STATE"
  "(x XOR WIFI_STA_ALIVE_CHK_STATE) AND WIFI_ASOC_STATE = x AND WIFI_ASOC_STATE"
  "(x XOR WIFI_STA_ALIVE_CHK_STATE) AND WIFI_SLEEP_STATE = x AND WIFI_SLEEP_STATE"
  "(x OR WIFI_SLEEP_STATE) AND WIFI_ASOC_STATE = x AND WIFI_ASOC_STATE"
  "(x OR WIFI_SLEEP_STATE) AND WIFI_SLEEP_STATE \<noteq> 0"
  "x AND WIFI_SLEEP_STATE \<noteq> 0 \<Longrightarrow> (x XOR WIFI_SLEEP_STATE) AND WIFI_SLEEP_STATE = 0"
  unfolding state_flags and_one_bit bit_change by (simp_all split: if_splits)

text \<open>Clearing the number of a station that is awake, or 0, in both bitmaps.\<close>

lemma steady_maps:
  assumes "ps_inv c" "pv c' = (tc_fw_state c, dz', tim', tc_stas c)" "\<forall>i. tim_fits dz' i = tim_fits (dz_map c) i"
    "\<forall>i. tim_fits tim' i = tim_fits (tim_map c) i"
    "\<forall>k s. tc_stas c k = Some s \<longrightarrow> k \<noteq> bc_addr \<longrightarrow> ts_state s AND WIFI_SLEEP_STATE \<noteq> 0 \<longrightarrow> rtw_bmp_is_set (dz_map c) (aid8 s) \<longrightarrow> rtw_bmp_is_set dz' (aid8 s)"
    "\<forall>k s. tc_stas c k = Some s \<longrightarrow> k \<noteq> bc_addr \<longrightarrow> sleep_q s \<noteq> [] \<longrightarrow> rtw_bmp_is_set (tim_map c) (aid8 s) \<longrightarrow> rtw_bmp_is_set tim' (aid8 s)"
  shows "steady c c'"
proof -
  have "view_inv (tc_fw_state c, dz_map c, tim_map c, tc_stas c)" using assms(1) by (simp add: ps_inv_def pv_def)
  from inv_maps [OF this assms(3-6)] have "ps_inv c'" by (simp add: ps_inv_def assms(2))
  moreover have "waiting c' k ac = waiting c k ac" for k ac by (simp add: waiting_def assms(2)) (simp add: pv_def)
  ultimately show ?thesis by (simp add: steady_def)
qed

lemma aid_unique:
  assumes "ps_inv c" "tc_stas c k = Some s" "tc_stas c l = Some t" "l \<noteq> bc_addr" "aid8 t = aid8 s"
  shows "l = k"
proof (cases "k = bc_addr")
  case True
  then show ?thesis using ps_invD(1) [OF assms(1,2)] ps_invD(1) [OF assms(1,3)] assms(4,5) by (simp add: sta_inv_def sta_ps_inv_def)
next
  case False
  then show ?thesis using ps_invD(4) [OF assms(1,2)] assms(2-5) unfolding aids_distinct_def by blast
qed

lemma clear_tim_steady:
  assumes "ps_inv c" "tc_stas c k = Some s" "k \<noteq> bc_addr \<longrightarrow> sleep_q s = []"
  shows "steady c (upd_tim (\<lambda>m. rtw_bmp_clear m (aid8 s)) c)"
  by (rule steady_maps [OF assms(1) pv_upd(2)])
    (use assms(3) aid_unique [OF assms(1,2)] in \<open>auto, metis assms(2) option.inject\<close>)

lemma clear_both_steady:
  assumes "ps_inv c" "tc_stas c k = Some s" "k \<noteq> bc_addr" "sleep_q s = []" "ts_state s AND WIFI_SLEEP_STATE = 0"
  shows "steady c (upd_dz (\<lambda>m. rtw_bmp_clear m (aid8 s)) (upd_tim (\<lambda>m. rtw_bmp_clear m (aid8 s)) c))" (is "steady c ?c'")
proof (rule steady_maps [OF assms(1)])
  show "pv ?c' = (tc_fw_state c, rtw_bmp_clear (dz_map c) (aid8 s), rtw_bmp_clear (tim_map c) (aid8 s), tc_stas c)" by simp
  have u: "t = s" if "tc_stas c l = Some t" "l \<noteq> bc_addr" "aid8 t = aid8 s" for l t
    using aid_unique [OF assms(1,2) that] that(1) assms(2) by simp
  show "\<forall>l t. tc_stas c l = Some t \<longrightarrow> l \<noteq> bc_addr \<longrightarrow> ts_state t AND WIFI_SLEEP_STATE \<noteq> 0 \<longrightarrow> rtw_bmp_is_set (dz_map c) (aid8 t)
    \<longrightarrow> rtw_bmp_is_set (rtw_bmp_clear (dz_map c) (aid8 s)) (aid8 t)" using u assms(5) by auto
  show "\<forall>l t. tc_stas c l = Some t \<longrightarrow> l \<noteq> bc_addr \<longrightarrow> sleep_q t \<noteq> [] \<longrightarrow> rtw_bmp_is_set (tim_map c) (aid8 t)
    \<longrightarrow> rtw_bmp_is_set (rtw_bmp_clear (tim_map c) (aid8 s)) (aid8 t)" using u assms(4) by auto
qed simp_all

lemma clear0_steady:
  assumes "ps_inv c"
  shows "steady c (upd_dz (\<lambda>m. rtw_bmp_clear m 0) (upd_tim (\<lambda>m. rtw_bmp_clear m 0) c))" (is "steady c ?c'")
proof (rule steady_maps [OF assms])
  show "pv ?c' = (tc_fw_state c, rtw_bmp_clear (dz_map c) 0, rtw_bmp_clear (tim_map c) 0, tc_stas c)" by simp
  have n: "aid8 s \<noteq> 0" if "tc_stas c k = Some s" "k \<noteq> bc_addr" for k s
    using ps_invD(1) [OF assms that(1)] that(2) by (simp add: sta_inv_def sta_ps_inv_def)
  show "\<forall>l t. tc_stas c l = Some t \<longrightarrow> l \<noteq> bc_addr \<longrightarrow> ts_state t AND WIFI_SLEEP_STATE \<noteq> 0 \<longrightarrow> rtw_bmp_is_set (dz_map c) (aid8 t)
    \<longrightarrow> rtw_bmp_is_set (rtw_bmp_clear (dz_map c) 0) (aid8 t)" using n by simp
  show "\<forall>l t. tc_stas c l = Some t \<longrightarrow> l \<noteq> bc_addr \<longrightarrow> sleep_q t \<noteq> [] \<longrightarrow> rtw_bmp_is_set (tim_map c) (aid8 t)
    \<longrightarrow> rtw_bmp_is_set (rtw_bmp_clear (tim_map c) 0) (aid8 t)" using n by simp
qed simp_all

lemma steady_inv: "steady c c' \<Longrightarrow> ps_inv c'"
  by (simp add: steady_def)

text \<open>A change of the state of a station that leaves its queues alone.\<close>

lemma state_change_steady:
  assumes inv: "ps_inv c" and s: "tc_stas c k = Some s" and s': "ts_ps s' = (ts_ps s)\<lparr>ps_expire_to := e\<rparr>"
    "ts_state s' AND WIFI_ASOC_STATE = ts_state s AND WIFI_ASOC_STATE"
    "ts_state s' AND WIFI_SLEEP_STATE = ts_state s AND WIFI_SLEEP_STATE \<or> ts_state s' AND WIFI_SLEEP_STATE = 0 \<and> sleep_q s = []"
  shows "steady c (tx_put_sta k s' c)" "aid8 s' = aid8 s" "sleep_q s' = sleep_q s" "\<And>f. announced s' f = announced s f"
    "sleepq_len s' = sleepq_len s" "ps_has_legacy_ac (ts_ps s') = ps_has_legacy_ac (ts_ps s)"
    "\<And>up n. wmmps_ac s' up n = wmmps_ac s up n"
proof -
  note si = ps_invD [OF inv s]
  show f: "aid8 s' = aid8 s" "sleep_q s' = sleep_q s" "\<And>f. announced s' f = announced s f" "sleepq_len s' = sleepq_len s"
    "ps_has_legacy_ac (ts_ps s') = ps_has_legacy_ac (ts_ps s)" "\<And>up n. wmmps_ac s' up n = wmmps_ac s up n"
    using s' by (simp_all add: aid8_def announced_def wmmps_ac_def)
  have o: "sta_out s' = sta_out s" "queued s' = queued s" "all_uapsd s' = all_uapsd s"
    using s' by (simp_all add: sta_out_def queued_def all_uapsd_def fun_eq_iff)
  have "sta_ps_inv (dz_map c) (tim_map c) s \<Longrightarrow> sta_ps_inv (dz_map c) (tim_map c) s'"
    using s' f o unfolding sta_ps_inv_def by auto
  then have "sta_inv (dz_map c) (tim_map c) k s'" using si(1) s' f unfolding sta_inv_def by simp
  then show "steady c (tx_put_sta k s' c)" by (rule steady_put [OF inv s, rotated]) (use s' si(2) o in simp_all)
qed

lemma wake_done_steady:
  assumes inv: "ps_inv c" and k: "sta_key_addr p = k" "k \<noteq> bc_addr" and s: "tc_stas c k = Some s" "sleep_q s = []"
  shows "\<exists>b c'. wake_done c p = (b, c') \<and> steady c c'"
proof -
  note si = ps_invD [OF inv s(1)]
  have l: "sleepq_len s = 0" using si(1) s(2) by (simp add: sta_inv_def)
  define st where "st = (if ts_state s AND WIFI_SLEEP_STATE \<noteq> 0 then ts_state s XOR WIFI_SLEEP_STATE else ts_state s)"
  define al where "al \<longleftrightarrow> st AND WIFI_STA_ALIVE_CHK_STATE \<noteq> 0"
  define s2 where "s2 = (let s1 = s\<lparr>ts_state := (if al then st XOR WIFI_STA_ALIVE_CHK_STATE else st)\<rparr>
    in if al then upd_ps (\<lambda>q. q\<lparr>ps_expire_to := pc_expire_to (tc_ps c)\<rparr>) s1 else s1)"
  have t2: "ts_state s2 AND WIFI_SLEEP_STATE = 0" "ts_state s2 AND WIFI_ASOC_STATE = ts_state s AND WIFI_ASOC_STATE"
    unfolding s2_def Let_def st_def by (auto simp: xor_state)
  have "ts_ps s2 = (ts_ps s)\<lparr>ps_expire_to := ps_expire_to (ts_ps s2)\<rparr>" by (simp add: s2_def Let_def)
  note ch = state_change_steady [OF inv s(1) this t2(2) disjI2 [OF conjI [OF t2(1) s(2)]]]
  let ?c2 = "tx_put_sta k s2 c"
  have k2: "tc_stas ?c2 k = Some s2" using si(2) by simp
  have q2: "sleep_q s2 = []" using ch(3) s(2) by simp
  define c' where "c' = upd_dz (\<lambda>m. rtw_bmp_clear m (aid8 s2)) (upd_tim (\<lambda>m. rtw_bmp_clear m (aid8 s2)) ?c2)"
  define w' where "w' = upd_dz (\<lambda>m. rtw_bmp_clear m (aid8 s)) (tx_put_sta p s2 (upd_tim (\<lambda>m. rtw_bmp_clear m (aid8 s)) c))"
  have w: "wake_done c p = (tim_set c (aid8 s), w')"
    using l s(1) put_key [OF k(1)] unfolding wake_done_def w'_def s2_def al_def st_def Let_def
    by (simp add: upd_tim_def upd_pc_def)
  have "upd_tim h (tx_put_sta k t c) = tx_put_sta k t (upd_tim h c)" for h t by (simp add: upd_tim_def upd_pc_def tx_put_sta_def)
  then have "w' = c'" unfolding w'_def c'_def ch(2) put_key(1) [OF k(1)] by simp
  have "steady ?c2 c'" unfolding c'_def by (rule clear_both_steady [OF steady_inv [OF ch(1)] k2 k(2) q2 t2(1)])
  then show ?thesis using w \<open>w' = c'\<close> steady_trans [OF ch(1)] by blast
qed

section \<open>Group frames\<close>

lemma bmc_frame_props:
  assumes "bmc_frame hiq c s f fs = (s', f')"
  shows "sleeps bc_addr fs s s'" "same_frame f' f"
  using assms by (auto simp: bmc_frame_def Let_def sleeps_def like_def same_frame_def to_hiq_def split: if_splits)

lemma bmc_loop_steady:
  assumes "ps_inv c" "tc_stas c bc_addr = Some s" "sleep_q s = fs"
  shows "\<exists>c' acts. bmc_loop hiq c fs = (c', acts) \<and> steady c c'"
  using assms
proof (induction fs arbitrary: c s)
  case Nil
  then show ?case by (simp add: steady_refl)
next
  case (Cons f fs)
  obtain s1 f1 where w: "bmc_frame hiq c s f fs = (s1, f1)" by fastforce
  note wp = bmc_frame_props [OF w]
  obtain c1 where c1: "rtl8188es_hal_xmitframe_enqueue (tx_put_sta bc_addr s1 c) f1 = (RTW_SUCCESS, c1, [Wake_xmit_thread])"
    "steady c c1" "tc_stas c1 bc_addr = Some (sta_enq f1 s1)"
    using release [OF Cons.prems(1,2), of "[]" f fs s1 f1] Cons.prems(3) wp by auto
  have i1: "ps_inv c1" using c1(2) by (simp add: steady_def)
  have q1: "sleep_q (sta_enq f1 s1) = fs" using wp(1) by (simp add: sleeps_def)
  obtain c2 a2 where c2: "bmc_loop hiq c1 fs = (c2, a2)" "steady c1 c2"
    using Cons.IH [OF i1 c1(3) q1] by blast
  have "bmc_loop hiq c (f # fs) = (c2, Wake_xmit_thread # a2)"
    using w c1(1) c2(1) Cons.prems(2) put_key(2) [OF sta_key_bc] by simp
  then show ?case using steady_trans [OF c1(2) c2(2)] by blast
qed

lemma ap_bmc_loop_steady:
  assumes "ps_inv c" "tc_stas c bc_addr = Some s" "sleep_q s = fs"
  shows "\<exists>c' acts. ap_bmc_loop n c fs = (c', acts) \<and> steady c c'"
  using assms
proof (induction fs arbitrary: c s n)
  case Nil
  then show ?case by (simp add: steady_refl)
next
  case (Cons f fs)
  define len where "len = sleepq_len s - 1"
  define s1 where "s1 = upd_ps (\<lambda>q. q\<lparr>ps_sleep_q := fs, ps_sleepq_len := len\<rparr>) s"
  define f1 where "f1 = to_hiq c (upd_attr (\<lambda>a. a\<lparr>ta_mdata := (len > 0 \<and> Suc n \<noteq> HIQ_XMIT_COUNTS), ta_triggered := True\<rparr>) f)"
  have wp: "sleeps bc_addr fs s s1" "same_frame f1 f"
    by (auto simp: s1_def len_def f1_def sleeps_def like_def same_frame_def to_hiq_def)
  obtain c1 where c1: "rtl8188es_hal_xmitframe_enqueue (tx_put_sta bc_addr s1 c) f1 = (RTW_SUCCESS, c1, [Wake_xmit_thread])"
    "steady c c1" "tc_stas c1 bc_addr = Some (sta_enq f1 s1)"
    using release [OF Cons.prems(1,2), of "[]" f fs s1 f1] Cons.prems(3) wp by auto
  have i1: "ps_inv c1" using c1(2) by (simp add: steady_def)
  have q1: "sleep_q (sta_enq f1 s1) = fs" using wp(1) by (simp add: sleeps_def)
  obtain c2 a2 where c2: "ap_bmc_loop (Suc n) c1 fs = (c2, a2)" "steady c1 c2"
    using Cons.IH [OF i1 c1(3) q1] by blast
  have "ap_bmc_loop n c (f # fs) =
      (if Suc n = HIQ_XMIT_COUNTS then (c1, [Wake_xmit_thread]) else (c2, Wake_xmit_thread # a2))"
    using c1(1) c2(1) Cons.prems(2) put_key(2) [OF sta_key_bc] by (simp add: Let_def s1_def f1_def len_def)
  then show ?case using steady_trans [OF c1(2) c2(2)] c1(2) by (cases "Suc n = HIQ_XMIT_COUNTS") auto
qed

lemma bmc_done_steady: "ps_inv c \<Longrightarrow> \<exists>b c'. bmc_done c = (b, c') \<and> steady c c'"
  using clear0_steady [of c] steady_refl [of c] by (auto simp: bmc_done_def split: option.split)

lemma bc_none: "tc_stas c bc_addr = tx_get_sta c bc_addr"
  by (simp add: tx_get_sta_def)

lemma wakeup_steady:
  assumes inv: "ps_inv c" and k: "sta_key_addr p = k" "k \<noteq> bc_addr" and s: "tc_stas c k = Some s"
  shows "\<exists>c' acts. wakeup_sta_to_xmit c p = Some (c', acts) \<and> steady c c'"
proof -
  obtain c1 s1 a1 where c1: "wake_loop c p (sleep_q s) = (c1, a1)" "steady c c1" "tc_stas c1 k = Some s1" "sleep_q s1 = []"
    using wake_loop_steady [OF inv k(1) s refl] by blast
  obtain b c2 where c2: "wake_done c1 p = (b, c2)" "steady c1 c2"
    using wake_done_steady [OF steady_inv [OF c1(2)] k c1(3,4)] by blast
  note st2 = steady_trans [OF c1(2) c2(2)]
  show ?thesis
  proof (cases "tc_stas c2 bc_addr")
    case None
    then show ?thesis using s c1(1) c2(1) st2 by (simp add: wakeup_sta_to_xmit_def put_key(2) [OF k(1)] bc_none)
  next
    case (Some t)
    obtain c3 a3 where c3: "bmc_loop False c2 (sleep_q t) = (c3, a3)" "steady c2 c3"
      using bmc_loop_steady [OF steady_inv [OF c2(2)] Some refl] by blast
    obtain d c4 where c4: "bmc_done c3 = (d, c4)" "steady c3 c4"
      using bmc_done_steady [OF steady_inv [OF c3(2)]] by blast
    show ?thesis
      using s c1(1) c2(1) c3(1) c4(1) Some st2 steady_trans [OF st2 steady_trans [OF c3(2) c4(2)]]
      by (auto simp: wakeup_sta_to_xmit_def put_key(2) [OF k(1)] bc_none Let_def)
  qed
qed

section \<open>U-APSD\<close>

lemma delivery_frame_props:
  assumes "delivery_frame s f q = (s', f')"
  shows "sleeps k q s s'" "same_frame f' f" "like s s'"
  using assms by (auto simp: delivery_frame_def Let_def sleeps_def like_def same_frame_def)

text \<open>When \<open>sleepq_ac_len\<close> of a station that uses U-APSD for all its traffic is 0, there are no frames.\<close>

lemma ac_len_zero:
  assumes "ps_inv c" "tc_stas c k = Some s" "sleepq_ac_len s = 0" "\<not> ps_has_legacy_ac (ts_ps s)" "k \<noteq> bc_addr"
  shows "sleep_q s = []"
proof -
  have "sta_ps_inv (dz_map c) (tim_map c) s" using ps_invD(1) [OF assms(1,2)] assms(5) by (simp add: sta_inv_def)
  then have "sleepq_ac_len s = word_of_nat (length (sleep_q s))" "length (sleep_q s) \<le> NR_XMITFRAME"
    using assms(4) sleep_q_queued [of s] by (simp_all add: sta_ps_inv_def)
  then show ?thesis using assms(3) word_zero_small by (metis length_0_conv)
qed

lemma delivery_loop_steady:
  assumes "ps_inv c" "sta_key_addr p = k" "tc_stas c k = Some s" "sleep_q s = kept @ fs"
    "\<forall>g \<in> set kept. \<not> wmmps_ac s (ta_priority (tf_attr g)) 1"
  shows "\<exists>c' acts. delivery_loop c p kept fs = (c', acts) \<and> steady c c'"
  using assms
proof (induction fs arbitrary: c s kept)
  case Nil
  then show ?case by (simp add: steady_refl)
next
  case (Cons f fs)
  note g = put_key(2) [OF Cons.prems(2)]
  show ?case
  proof (cases "wmmps_ac s (ta_priority (tf_attr f)) 1")
    case False
    then show ?thesis using Cons.IH [OF Cons.prems(1-3), of "kept @ [f]"] Cons.prems(3,4,5) g by auto
  next
    case True
    obtain s1 f1 where w: "delivery_frame s f (kept @ fs) = (s1, f1)" by fastforce
    note wp = delivery_frame_props [OF w]
    have sep: "\<forall>g \<in> set kept. fr_cat g \<noteq> fr_cat f \<or> k = bc_addr"
      using True Cons.prems(5) by (auto simp: wmmps_ac_def fr_cat_def)
    obtain c1 where c1: "rtl8188es_hal_xmitframe_enqueue (tx_put_sta k s1 c) f1 = (RTW_SUCCESS, c1, [Wake_xmit_thread])"
      "steady c c1" "tc_stas c1 k = Some (sta_enq f1 s1)" "like s (sta_enq f1 s1)"
      using release [OF Cons.prems(1,3,4) sep wp(1,2)] by blast
    let ?e = "sleepq_ac_len s1 = 0 \<and> \<not> ps_has_legacy_ac (ts_ps s1)"
    define c2 where "c2 = (if ?e then upd_tim (\<lambda>m. rtw_bmp_clear m (aid8 s1)) c1 else c1)"
    have a1: "aid8 (sta_enq f1 s1) = aid8 s1" "ps_has_legacy_ac (ts_ps (sta_enq f1 s1)) = ps_has_legacy_ac (ts_ps s1)"
      using like_props [OF sta_enq_fields(4)] by simp_all
    have st2: "steady c1 c2"
    proof (cases ?e)
      case True
      then show ?thesis
        using clear_tim_steady [OF steady_inv [OF c1(2)] c1(3)] ac_len_zero [OF steady_inv [OF c1(2)] c1(3)] by (simp add: c2_def a1)
    qed (use c1(2) in \<open>auto simp: c2_def steady_refl steady_inv\<close>)
    have s2: "tc_stas c2 k = Some (sta_enq f1 s1)" using c1(3) by (simp add: c2_def)
    have q2: "sleep_q (sta_enq f1 s1) = kept @ fs" using wp(1) by (simp add: sleeps_def)
    have k2: "\<forall>g \<in> set kept. \<not> wmmps_ac (sta_enq f1 s1) (ta_priority (tf_attr g)) 1"
      using Cons.prems(5) unfolding like_props(4) [OF c1(4)] .
    obtain c3 a3 where c3: "delivery_loop c2 p kept fs = (c3, a3)" "steady c2 c3"
      using Cons.IH [OF steady_inv [OF st2] Cons.prems(2) s2 q2 k2] by blast
    have "delivery_loop c p kept (f # fs) = (c3, Wake_xmit_thread # (if ?e then [Update_beacon] else []) @ a3)"
      using True w c1(1) c3(1) Cons.prems(3) put_key(1) [OF Cons.prems(2)] g by (auto simp: c2_def)
    then show ?thesis using steady_trans [OF c1(2) steady_trans [OF st2 c3(2)]] by blast
  qed
qed

lemma wmmps_steady:
  assumes "ps_inv c" "process_wmmps_data c p priority = Some (c', acts)"
  shows "steady c c'"
proof (cases "tx_get_sta c p")
  case None
  then show ?thesis using assms(2) by (simp add: process_wmmps_data_def)
next
  case (Some s)
  then have s: "tc_stas c (sta_key_addr p) = Some s" by (simp add: tx_get_sta_def)
  obtain c1 a1 where "delivery_loop c p [] (sleep_q s) = (c1, a1)" "steady c c1"
    using delivery_loop_steady [OF assms(1) refl s, of "[]"] by auto
  then show ?thesis
    using assms Some by (auto simp: process_wmmps_data_def xmit_delivery_enabled_frames_def steady_refl split: if_splits)
qed

section \<open>PS-Poll\<close>

lemma ps_poll_steady:
  assumes inv: "ps_inv c" and k: "sta_key_addr p = k" and s: "tc_stas c k = Some s" and leg: "k \<noteq> bc_addr \<Longrightarrow> \<not> all_uapsd s"
  shows "\<exists>c' acts. ps_poll c p s = (c', acts) \<and> steady c c'"
proof (cases "sleep_q s")
  case Nil
  then have "sleepq_len s = 0" using ps_invD(1) [OF inv s] by (simp add: sta_inv_def)
  then show ?thesis using Nil clear_tim_steady [OF inv s] steady_refl [OF inv] by (simp add: ps_poll_def)
next
  case (Cons f fs)
  define s1 where "s1 = upd_ps (\<lambda>q. q\<lparr>ps_sleep_q := fs, ps_sleepq_len := sleepq_len s - 1\<rparr>) s"
  define f1 where "f1 = upd_attr (\<lambda>a. a\<lparr>ta_mdata := sleepq_len s - 1 > 0, ta_triggered := True\<rparr>) f"
  have wp: "sleeps k fs s s1" "same_frame f1 f" using leg
    by (auto simp: s1_def f1_def sleeps_def like_def same_frame_def)
  obtain c1 where c1: "rtl8188es_hal_xmitframe_enqueue (tx_put_sta k s1 c) f1 = (RTW_SUCCESS, c1, [Wake_xmit_thread])" "steady c c1"
    "tc_stas c1 k = Some (sta_enq f1 s1)"
    using release [OF inv s, of "[]" f fs s1 f1] Cons wp by auto
  note i1 = steady_inv [OF c1(2)]
  have p: "ps_poll c p s = (if sleepq_len s - 1 = 0 then (upd_tim (\<lambda>m. rtw_bmp_clear m (aid8 s1)) c1, [Wake_xmit_thread, Update_beacon])
                         else (c1, [Wake_xmit_thread]))"
    using c1(1) Cons put_key(1) [OF k] unfolding ps_poll_def by (simp add: s1_def f1_def Let_def)
  have e: "k \<noteq> bc_addr \<longrightarrow> fs = []" if z: "sleepq_len s - 1 = 0"
  proof
    assume kb: "k \<noteq> bc_addr"
    have j: "sta_inv (dz_map c1) (tim_map c1) k (sta_enq f1 s1)" by (rule ps_invD(1) [OF i1 c1(3)])
    have "length (sleep_q (sta_enq f1 s1)) \<le> NR_XMITFRAME"
      using j kb sleep_q_queued [of "sta_enq f1 s1"] by (simp add: sta_inv_def sta_ps_inv_def)
    moreover have "sleepq_len (sta_enq f1 s1) = word_of_nat (length (sleep_q (sta_enq f1 s1)))" using j by (simp add: sta_inv_def)
    ultimately show "fs = []" using z word_zero_small [of "length fs"] by (simp add: s1_def)
  qed
  have a1: "aid8 (sta_enq f1 s1) = aid8 s1" by (rule like_props(1) [OF sta_enq_fields(4)])
  have q1: "sleep_q (sta_enq f1 s1) = fs" by (simp add: s1_def)
  show ?thesis
  proof (cases "sleepq_len s - 1 = 0")
    case True
    have "steady c1 (upd_tim (\<lambda>m. rtw_bmp_clear m (aid8 (sta_enq f1 s1))) c1)"
      by (rule clear_tim_steady [OF i1 c1(3)]) (use e [OF True] q1 in simp)
    then show ?thesis using True p steady_trans [OF c1(2)] unfolding a1 by simp
  qed (use p c1(2) in simp)
qed

lemma rx_ps_poll_steady:
  assumes inv: "ps_inv c" and k: "sta_key_addr p = k" and s: "tc_stas c k = Some s"
  shows "\<exists>c' acts. rx_ps_poll c p s aid priority = (c', acts) \<and> steady c c'"
proof (cases "ps_aid (ts_ps s) \<noteq> aid \<or> wmmps_ac s priority 0")
  case True
  then show ?thesis using steady_refl [OF inv] by (auto simp: rx_ps_poll_def)
next
  case False
  define s1 where "s1 = (if ts_state s AND WIFI_STA_ALIVE_CHK_STATE \<noteq> 0
    then upd_ps (\<lambda>q. q\<lparr>ps_expire_to := pc_expire_to (tc_ps c)\<rparr>) (s\<lparr>ts_state := ts_state s XOR WIFI_STA_ALIVE_CHK_STATE\<rparr>) else s)"
  have e: "ts_ps s1 = (ts_ps s)\<lparr>ps_expire_to := ps_expire_to (ts_ps s1)\<rparr>" by (simp add: s1_def)
  have st1: "steady c (tx_put_sta k s1 c)"
    by (rule state_change_steady(1) [OF inv s e]) (simp_all add: s1_def xor_state)
  have s1: "tc_stas (tx_put_sta k s1 c) k = Some s1" using ps_invD(2) [OF inv s] by simp
  have "all_uapsd s1 = all_uapsd s" by (simp add: s1_def all_uapsd_def)
  then have na: "\<not> all_uapsd s1" using False by (auto simp: wmmps_ac_def all_uapsd_def)
  obtain c2 a2 where c2: "ps_poll (tx_put_sta k s1 c) p s1 = (c2, a2)" "steady (tx_put_sta k s1 c) c2"
    using ps_poll_steady [OF steady_inv [OF st1] k s1 na] by blast
  show ?thesis
    using False c2 st1 steady_trans [OF st1 c2(2)] put_key(1) [OF k]
    unfolding rx_ps_poll_def by (simp add: Let_def flip: s1_def)
qed

lemma ctrl_frame_steady:
  assumes "ps_inv c" "validate_recv_ctrl_frame c ctrls pframe priority = Some (c', ctrls', acts)"
  shows "steady c c'"
proof -
  consider "c' = c" | p s aid a where "tx_get_sta c p = Some s" "rx_ps_poll c p s aid priority = (c', a)"
    using assms(2) unfolding validate_recv_ctrl_frame_def
    by (auto simp: Let_def split: Option.bind_splits option.splits if_splits prod.splits)
  then show ?thesis
  proof cases
    case 1
    then show ?thesis using assms(1) by (simp add: steady_refl)
  next
    case 2
    then show ?thesis using rx_ps_poll_steady [OF assms(1) refl, of p s aid priority] by (simp add: tx_get_sta_def)
  qed
qed

section \<open>The commands for group frames\<close>

lemma chk_bmc_steady: "ps_inv c \<Longrightarrow> steady c (fst (chk_bmc_sleepq_hdl c))"
  using bmc_loop_steady [of c _ _ True] steady_refl [of c]
  by (fastforce simp: chk_bmc_sleepq_hdl_def bc_none split: option.split prod.split)

lemma chk_hi_queue_steady: "ps_inv c \<Longrightarrow> steady c (fst (rtw_chk_hi_queue_hdl e c))"
  using clear0_steady [of c] steady_refl [of c] by (simp add: rtw_chk_hi_queue_hdl_def split: option.split)

lemma ap_bmc_steady: "ps_inv c \<Longrightarrow> steady c (fst (rtw_ap_bmc_frames_hdl c))"
  using ap_bmc_loop_steady [of c _ _ 0] clear0_steady [of c] steady_refl [of c]
  by (fastforce simp: rtw_ap_bmc_frames_hdl_def bc_none split: option.split prod.split)

end
