(* ===== verification/PsStop.thy ===== *)
theory PsStop
  imports PsWake
begin

text \<open>
  Going to sleep keeps the order of the frames: \<open>stop_sta_xmit\<close> moves the frames that wait for the SDIO host behind
  those of the sleep queue, and there are none of their category then.
\<close>

section \<open>Frames for a sleeping station\<close>

text \<open>The frames of the station \<open>k\<close> go to its sleep queue.\<close>

definition sleepy :: "bytes \<Rightarrow> bytes \<Rightarrow> tx_sta \<Rightarrow> bool" where
  "sleepy dz k s \<longleftrightarrow> (if k = bc_addr then rtw_bmp_not_empty dz else ts_state s AND WIFI_SLEEP_STATE \<noteq> 0 \<and> rtw_bmp_is_set dz (aid8 s))"

definition untrig :: "tx_frame \<Rightarrow> tx_frame" where
  "untrig = upd_attr (\<lambda>a. a\<lparr>ta_triggered := False\<rparr>)"

lemma untrig_props [simp]: "same_frame (untrig f) f" "tf_pkt (untrig f) = tf_pkt f" "fr_cat (untrig f) = fr_cat f"
  "fr_of k (untrig f) = fr_of k f" "\<not> ta_triggered (tf_attr (untrig f))" "ta_priority (tf_attr (untrig f)) = ta_priority (tf_attr f)"
  by (simp_all add: untrig_def same_frame_def fr_cat_def fr_of_def)

definition sta_add :: "bytes \<Rightarrow> tx_frame list \<Rightarrow> tx_sta \<Rightarrow> tx_sta \<Rightarrow> bool" where
  "sta_add k fs s s' \<longleftrightarrow> sleep_q s' = sleep_q s @ fs \<and> sleepq_len s' = sleepq_len s + word_of_nat (length fs) \<and> like s s'
     \<and> (\<forall>ac. sq_pending (servq s' ac) = sq_pending (servq s ac))
     \<and> (k \<noteq> bc_addr \<and> all_uapsd s \<longrightarrow> sleepq_ac_len s' = sleepq_ac_len s + word_of_nat (length fs))"

lemma sta_add_trans: "sta_add k fs s t \<Longrightarrow> sta_add k gs t u \<Longrightarrow> sta_add k (fs @ gs) s u"
  using like_trans [of s t u] like_props(2) [of s t] by (auto simp: sta_add_def algebra_simps)

lemma IS_MCAST_key: "sta_key_addr p = k \<Longrightarrow> IS_MCAST p \<longleftrightarrow> k = bc_addr"
  by (auto simp: sta_key_addr_def bc_addr_def IS_MCAST_def)

text \<open>A bitmap with some more numbers.\<close>

definition grow :: "bytes \<Rightarrow> bytes \<Rightarrow> bool" where
  "grow m m' \<longleftrightarrow> (\<forall>i. rtw_bmp_is_set m i \<longrightarrow> rtw_bmp_is_set m' i) \<and> (\<forall>i. tim_fits m' i = tim_fits m i)
     \<and> (rtw_bmp_not_empty m \<longrightarrow> rtw_bmp_not_empty m')"

lemma grow_refl [simp]: "grow m m"
  by (simp add: grow_def)

lemma grow_trans [trans]: "grow a b \<Longrightarrow> grow b c \<Longrightarrow> grow a c"
  by (simp add: grow_def)

lemma grow_set: "grow m (rtw_bmp_set m i)"
proof -
  have "rtw_bmp_not_empty m \<Longrightarrow> rtw_bmp_not_empty (rtw_bmp_set m i)"
  proof -
    assume "rtw_bmp_not_empty m"
    then obtain k where k: "k < length m" "m ! k \<noteq> 0" by (auto simp: bmp_any in_set_conv_nth)
    let ?j = "unat i div 8"
    have "rtw_bmp_set m i ! k \<noteq> 0 \<and> k < length (rtw_bmp_set m i)"
      using k by (auto simp: rtw_bmp_set_def Let_def nth_list_update or_eq_0_iff)
    then show ?thesis unfolding bmp_any by (metis nth_mem)
  qed
  then show ?thesis by (simp add: grow_def)
qed

lemma sleepy_grow: "sleepy dz k s \<Longrightarrow> grow dz dz' \<Longrightarrow> like s s' \<Longrightarrow> sleepy dz' k s'"
  by (auto simp: sleepy_def grow_def like_def aid8_def)

lemma grow_inv: "view_inv (fw, dz, tim, m) \<Longrightarrow> grow dz dz' \<Longrightarrow> grow tim tim' \<Longrightarrow> view_inv (fw, dz', tim', m)"
  by (erule inv_maps) (simp_all add: grow_def)

text \<open>What the steps do to the bitmaps and the station.\<close>

definition goes_to_sleep :: "bytes \<Rightarrow> tx_frame list \<Rightarrow> tx_sta \<Rightarrow> tx_sta \<Rightarrow> tx_ctx \<Rightarrow> tx_ctx \<Rightarrow> bool" where
  "goes_to_sleep k fs s s' c c' \<longleftrightarrow> sta_add k fs s s' \<and> tc_stas c' = (tc_stas c)(k := Some s') \<and> tc_fw_state c' = tc_fw_state c
     \<and> grow (dz_map c) (dz_map c') \<and> grow (tim_map c) (tim_map c')
     \<and> (k \<noteq> bc_addr \<longrightarrow> (\<forall>f \<in> set fs. announced s f \<longrightarrow> rtw_bmp_is_set (tim_map c') (aid8 s)))"

lemma sleep_insert_add: "k \<noteq> bc_addr \<and> all_uapsd s \<longrightarrow> b \<Longrightarrow> sta_add k [f] s (sleep_insert f b s)"
  by (auto simp: sta_add_def sleep_insert_def like_def)

lemma sleeping_enqueue:
  assumes inv: "check_fwstate (tc_fw_state c) WIFI_AP_STATE" and f: "fr_of k f" "\<not> ta_triggered (tf_attr f)" and s: "tc_stas c k = Some s"
    and as: "ts_state s AND WIFI_ASOC_STATE \<noteq> 0" and sl: "sleepy (dz_map c) k s"
    and ps: "k \<noteq> bc_addr \<Longrightarrow> tim_fits (tim_map c) (aid8 s) \<and> (\<not> ps_has_legacy_ac (ts_ps s) \<longrightarrow> all_uapsd s)"
  shows "\<exists>c' s' acts. xmitframe_enqueue_for_sleeping_sta c f = (True, f, c', acts) \<and> goes_to_sleep k [f] s s' c c'"
proof -
  have k: "sta_key_addr (pa_ra (tf_attr f)) = k" "ta_psta (tf_attr f) = Some k" using f(1) by (auto simp: fr_of_def)
  have g: "tx_get_sta c (pa_ra (tf_attr f)) = Some s" using k(1) s by (simp add: tx_get_sta_def)
  note m = IS_MCAST_key [OF k(1)]
  have kk: "sta_key_addr k = k" using k(1) by (metis sta_key_idem)
  show ?thesis
  proof (cases "k = bc_addr")
    case True
    define c' where "c' = upd_dz (\<lambda>m. rtw_bmp_set m 0) (upd_tim (\<lambda>m. rtw_bmp_set m 0) (tx_put_sta k (sleep_insert f False s) c))"
    have "xmitframe_enqueue_for_sleeping_sta c f = (True, f, c', if \<not> tim_set c 0 then [Update_beacon] else [Chk_bmc_sleepq_cmd])"
      using inv f(2) as sl m True k g
      by (simp add: xmitframe_enqueue_for_sleeping_sta_def Let_def sleepy_def upd_sta_some put_key(1) [OF k(1)] c'_def)
    moreover have "goes_to_sleep k [f] s (sleep_insert f False s) c c'"
      using True by (simp add: goes_to_sleep_def sleep_insert_add c'_def grow_set)
    ultimately show ?thesis by blast
  next
    case False
    let ?wm = "wmmps_ac s (ta_priority (tf_attr f)) 0"
    define c1 where "c1 = tx_put_sta k (sleep_insert f ?wm s) c"
    define e where "e = (ps_has_legacy_ac (ts_ps s) \<and> \<not> ?wm \<or> \<not> ps_has_legacy_ac (ts_ps s) \<and> ?wm)"
    define c2 where "c2 = (if e then upd_tim (\<lambda>m. rtw_bmp_set m (aid8 s)) c1 else c1)"
    have "xmitframe_enqueue_for_sleeping_sta c f = (True, f, c2, if e \<and> \<not> tim_set c (aid8 s) then [Update_beacon] else [])"
      using inv f(2) as sl m False k g
      by (simp add: xmitframe_enqueue_for_sleeping_sta_def Let_def sleepy_def dz_set_def upd_sta_some put_key(1) [OF k(1)] c1_def c2_def e_def)
    moreover have "announced s f \<longrightarrow> e" using ps [OF False] by (auto simp: announced_def e_def all_uapsd_def wmmps_ac_def)
    moreover have "all_uapsd s \<longrightarrow> ?wm" by (simp add: all_uapsd_def wmmps_ac_def)
    ultimately have "goes_to_sleep k [f] s (sleep_insert f ?wm s) c c2"
      using ps [OF False] by (simp add: goes_to_sleep_def sleep_insert_add c1_def c2_def kk grow_set)
    then show ?thesis using \<open>xmitframe_enqueue_for_sleeping_sta c f = _\<close> by blast
  qed
qed

section \<open>Going to sleep\<close>

lemma sleep_loop_all:
  assumes "check_fwstate (tc_fw_state c) WIFI_AP_STATE" "sta_key_addr p = k" "tc_stas c k = Some s" "ts_state s AND WIFI_ASOC_STATE \<noteq> 0"
    "sleepy (dz_map c) k s" "k \<noteq> bc_addr \<Longrightarrow> tim_fits (tim_map c) (aid8 s) \<and> (\<not> ps_has_legacy_ac (ts_ps s) \<longrightarrow> all_uapsd s)"
    "\<forall>f \<in> set fs. fr_of k f"
  shows "\<exists>c' s' acts. sleep_loop c p fs = ([], c', acts) \<and> goes_to_sleep k (map untrig fs) s s' c c'"
  using assms
proof (induction fs arbitrary: c s)
  case Nil
  then have "tc_stas c = (tc_stas c)(k := Some s)" by auto
  then show ?case
    by (intro exI [of _ c] exI [of _ s] exI [of _ "[]"]) (simp add: goes_to_sleep_def sta_add_def del: fun_upd_apply)
next
  case (Cons f fs)
  have fk: "fr_of k (untrig f)" using Cons.prems(7) by simp
  obtain c1 s1 a1 where c1: "xmitframe_enqueue_for_sleeping_sta c (untrig f) = (True, untrig f, c1, a1)" "goes_to_sleep k [untrig f] s s1 c c1"
    using sleeping_enqueue [OF Cons.prems(1) fk untrig_props(5) Cons.prems(3,4,5,6)] by auto
  note g1 = c1(2) [unfolded goes_to_sleep_def]
  let ?ac = "fr_cat f"
  define s2 where "s2 = upd_servq ?ac (\<lambda>q. q\<lparr>sq_qcnt := sq_qcnt q - 1\<rparr>) s1"
  define c2 where "c2 = upd_hwx ?ac (\<lambda>h. h\<lparr>hx_accnt := hx_accnt h - 1\<rparr>) (tx_put_sta p s2 c1)"
  have a2: "sta_add k [untrig f] s s2" using g1 by (simp add: sta_add_def s2_def upd_servq_def like_def)
  have st2: "tc_stas c2 = (tc_stas c)(k := Some s2)" "tc_stas c2 k = Some s2" "tc_fw_state c2 = tc_fw_state c" "dz_map c2 = dz_map c1"
    "tim_map c2 = tim_map c1"
    using g1 Cons.prems(2) by (simp_all add: c2_def)
  have l2: "like s s2" using a2 by (simp add: sta_add_def)
  have as2: "ts_state s2 AND WIFI_ASOC_STATE \<noteq> 0" using Cons.prems(4) l2 by (simp add: like_def)
  have ap2: "check_fwstate (tc_fw_state c2) WIFI_AP_STATE" using Cons.prems(1) st2(3) by simp
  have sl2: "sleepy (dz_map c2) k s2" using sleepy_grow [OF Cons.prems(5) _ l2] g1 st2(4) by simp
  have ps2: "k \<noteq> bc_addr \<Longrightarrow> tim_fits (tim_map c2) (aid8 s2) \<and> (\<not> ps_has_legacy_ac (ts_ps s2) \<longrightarrow> all_uapsd s2)"
    using Cons.prems(6) g1 unfolding like_props [OF l2] st2(5) grow_def by simp
  have fs2: "\<forall>f \<in> set fs. fr_of k f" using Cons.prems(7) by simp
  obtain c3 s3 a3 where c3: "sleep_loop c2 p fs = ([], c3, a3)" "goes_to_sleep k (map untrig fs) s2 s3 c2 c3"
    using Cons.IH [OF ap2 Cons.prems(2) st2(2) as2 sl2 ps2 fs2] by blast
  note g3 = c3(2) [unfolded goes_to_sleep_def]
  have k1: "tx_get_sta c1 p = Some s1" using g1 put_key(2) [OF Cons.prems(2)] by simp
  have loop: "sleep_loop c p (f # fs) = ([], c3, a1 @ a3)"
    using c1(1) c3(1) k1 by (simp add: untrig_def [symmetric] fr_cat_def [symmetric] upd_sta_some c2_def s2_def)
  have "sta_add k (map untrig (f # fs)) s s3" using sta_add_trans [OF a2, of "map untrig fs" s3] g3 by simp
  moreover have "tc_stas c3 = (tc_stas c)(k := Some s3)" using g3 st2(1) by simp
  moreover have "grow (dz_map c) (dz_map c3)" "grow (tim_map c) (tim_map c3)" "grow (tim_map c1) (tim_map c3)"
    using g1 g3 st2(4,5) grow_trans by auto
  moreover have "k \<noteq> bc_addr \<longrightarrow> (\<forall>g \<in> set (map untrig (f # fs)). announced s g \<longrightarrow> rtw_bmp_is_set (tim_map c3) (aid8 s))"
    using g1 g3 calculation(5) unfolding like_props [OF l2] grow_def by auto
  ultimately have "goes_to_sleep k (map untrig (f # fs)) s s3 c c3"
    using g3 st2(3) unfolding goes_to_sleep_def by simp
  then show ?case using loop by blast
qed

text \<open>The invariant once the station \<open>k\<close> has more frames in its sleep queue.\<close>

lemma to_sleep_inv:
  assumes inv: "ps_inv c" and s: "tc_stas c k = Some s" and pv': "pv c' = (tc_fw_state c, dz', tim', (tc_stas c)(k := Some s'))"
    and g: "grow (dz_map c) dz'" "grow (tim_map c) tim'" and l: "like s s'" and i: "sta_inv (dz_map c) tim' k s'"
  shows "ps_inv c'"
proof -
  note si = ps_invD [OF inv s]
  have "view_inv (tc_fw_state c, dz_map c, tim_map c, tc_stas c)" using inv by (simp add: ps_inv_def pv_def)
  then have v: "view_inv (tc_fw_state c, dz_map c, tim', tc_stas c)" using grow_refl g(2) by (rule grow_inv)
  have "aids_distinct ((tc_stas c)(k := Some s'))" by (rule aids_distinct_put [OF si(4) s]) (simp add: like_props [OF l])
  then have "view_inv (tc_fw_state c, dz_map c, tim', (tc_stas c)(k := Some s'))" using v i si(2) by simp
  then show ?thesis unfolding ps_inv_def pv' using g(1) grow_refl by (rule grow_inv)
qed

lemma dequeue_sleeping_steady:
  assumes inv: "ps_inv c" and k: "sta_key_addr p = k" and s: "tc_stas c k = Some s" and sl: "sleepy (dz_map c) k s"
    and new: "\<forall>f \<in> set (sleep_q s). fr_cat f \<noteq> ac \<or> k = bc_addr"
  shows "\<exists>c' s' acts. dequeue_xmitframes_to_sleeping_queue c p ac = (c', acts) \<and> steady c c' \<and> tc_stas c' = (tc_stas c)(k := Some s')
    \<and> like s s' \<and> grow (dz_map c) (dz_map c') \<and> (\<forall>f \<in> set (sleep_q s'). f \<in> set (sleep_q s) \<or> fr_cat f = ac)"
proof -
  note si = ps_invD [OF inv s]
  let ?fs = "sq_pending (servq s ac)"
  have fs: "\<forall>f \<in> set ?fs. fr_of k f \<and> fr_cat f = ac" and as: "ts_state s AND WIFI_ASOC_STATE \<noteq> 0"
    using si(1) by (simp_all add: sta_inv_def)
  have ps: "k \<noteq> bc_addr \<Longrightarrow> sta_ps_inv (dz_map c) (tim_map c) s" using si(1) by (simp add: sta_inv_def)
  obtain c1 s1 a1 where c1: "sleep_loop c p ?fs = ([], c1, a1)" "goes_to_sleep k (map untrig ?fs) s s1 c c1"
    using sleep_loop_all [OF si(3) k s as sl, of ?fs] ps fs unfolding sta_ps_inv_def by auto
  note g1 = c1(2) [unfolded goes_to_sleep_def]
  define s2 where "s2 = upd_servq ac (\<lambda>q. q\<lparr>sq_pending := []\<rparr>) s1"
  define c2 where "c2 = tx_put_sta p s2 c1"
  have d: "dequeue_xmitframes_to_sleeping_queue c p ac = (c2, a1)"
    using c1(1) g1 s put_key(2) [OF k] by (simp add: dequeue_xmitframes_to_sleeping_queue_def upd_sta_some c2_def s2_def)
  have pend: "sq_pending (servq s2 b) = (if b = ac then [] else sq_pending (servq s b))" for b
    using g1 by (simp add: s2_def upd_servq_def sta_add_def)
  have q2: "sleep_q s2 = sleep_q s @ map untrig ?fs" "like s s2" "sleepq_len s2 = sleepq_len s + word_of_nat (length ?fs)"
    "k \<noteq> bc_addr \<and> all_uapsd s \<longrightarrow> sleepq_ac_len s2 = sleepq_ac_len s + word_of_nat (length ?fs)"
    using g1 by (simp_all add: s2_def upd_servq_def sta_add_def like_def)
  have pv2: "pv c2 = (tc_fw_state c, dz_map c1, tim_map c1, (tc_stas c)(k := Some s2))" using g1 k by (simp add: c2_def)
  have out: "sta_out s2 b = sta_out s b" if "k \<noteq> bc_addr" for b
  proof (cases "b = ac")
    case True
    have "filter (\<lambda>f. fr_cat f = ac) (sleep_q s) = []" "filter (\<lambda>f. fr_cat f = ac) (map untrig ?fs) = map untrig ?fs"
      using new that fs by (auto simp: filter_empty_conv filter_map)
    then show ?thesis using True by (simp add: sta_out_def pend q2(1) o_def)
  next
    case False
    then have "filter (\<lambda>f. fr_cat f = b) (map untrig ?fs) = []" using fs by (auto simp: filter_empty_conv)
    then show ?thesis using False by (simp add: sta_out_def pend q2(1))
  qed
  have i2: "sta_inv (dz_map c) (tim_map c1) k s2"
  proof (rule sta_inv_like [OF _ q2(2)])
    show "sta_inv (dz_map c) (tim_map c1) k s" using si(1) g1 unfolding sta_inv_def sta_ps_inv_def grow_def by auto
    show "\<forall>b. \<forall>f \<in> set (sq_pending (servq s2 b)). fr_of k f \<and> fr_cat f = b" using si(1) by (simp add: pend sta_inv_def)
    show "\<forall>f \<in> set (sleep_q s2). fr_of k f" "sleepq_len s2 = word_of_nat (length (sleep_q s2))"
      using si(1) fs q2(1,3) by (auto simp: sta_inv_def)
    assume kb: "k \<noteq> bc_addr"
    have "queued s2 = queued s" using out [OF kb] by (intro queued_cong) simp
    moreover have "\<forall>f \<in> set (sleep_q s2). announced s f \<longrightarrow> rtw_bmp_is_set (tim_map c1) (aid8 s)"
      using ps [OF kb] g1 kb unfolding q2(1) sta_ps_inv_def grow_def by auto
    ultimately show "(sleep_q s2 \<noteq> [] \<longrightarrow> ts_state s AND WIFI_SLEEP_STATE \<noteq> 0)
      \<and> (\<forall>f \<in> set (sleep_q s2). announced s f \<longrightarrow> rtw_bmp_is_set (tim_map c1) (aid8 s))
      \<and> (\<not> ps_has_legacy_ac (ts_ps s) \<longrightarrow> sleepq_ac_len s2 = word_of_nat (length (sleep_q s2))) \<and> queued s2 \<le> NR_XMITFRAME"
      using ps [OF kb] sl kb q2 unfolding sta_ps_inv_def sleepy_def by simp
  qed
  have "ps_inv c2" by (rule to_sleep_inv [OF inv s pv2 _ _ q2(2) i2]) (use g1 in simp_all)
  moreover have "waiting c2 l b = waiting c l b" if "l \<noteq> bc_addr" for l b
    using waiting_put [OF pv2] waiting_some [OF s] out that by (cases "l = k") simp_all
  ultimately have "steady c c2" by (simp add: steady_def)
  moreover have "tc_stas c2 = (tc_stas c)(k := Some s2)" "dz_map c2 = dz_map c1" using pv2 by (simp_all add: pv_def)
  moreover have "\<forall>f \<in> set (sleep_q s2). f \<in> set (sleep_q s) \<or> fr_cat f = ac" using fs by (auto simp: q2(1))
  ultimately show ?thesis using d q2(2) g1 by auto
qed

lemma stop_queues_steady:
  assumes "ps_inv c" "sta_key_addr p = k" "tc_stas c k = Some s" "sleepy (dz_map c) k s" "distinct acs"
    "\<forall>f \<in> set (sleep_q s). fr_cat f \<notin> set acs \<or> k = bc_addr"
  shows "\<exists>c' acts. stop_queues c p acs = (c', acts) \<and> steady c c' \<and> grow (dz_map c) (dz_map c')
    \<and> (\<forall>l. l \<noteq> k \<longrightarrow> tc_stas c' l = tc_stas c l)"
  using assms
proof (induction acs arbitrary: c s)
  case Nil
  then show ?case by (simp add: steady_refl grow_def)
next
  case (Cons ac acs)
  have new: "\<forall>f \<in> set (sleep_q s). fr_cat f \<noteq> ac \<or> k = bc_addr" using Cons.prems(6) by auto
  obtain c1 s1 a1 where c1: "dequeue_xmitframes_to_sleeping_queue c p ac = (c1, a1)" "steady c c1" "tc_stas c1 = (tc_stas c)(k := Some s1)"
    "like s s1" "grow (dz_map c) (dz_map c1)" "\<forall>f \<in> set (sleep_q s1). f \<in> set (sleep_q s) \<or> fr_cat f = ac"
    using dequeue_sleeping_steady [OF Cons.prems(1-4) new] by blast
  let ?c2 = "upd_hwx ac (hx_delete k) c1"
  have st2: "steady c1 ?c2" using steady_inv [OF c1(2)] by (simp add: steady_view)
  have new2: "\<forall>f \<in> set (sleep_q s1). fr_cat f \<notin> set acs \<or> k = bc_addr" using c1(6) Cons.prems(5,6) by auto
  have sl2: "sleepy (dz_map ?c2) k s1" using sleepy_grow [OF Cons.prems(4) c1(5) c1(4)] by simp
  obtain c3 a3 where c3: "stop_queues ?c2 p acs = (c3, a3)" "steady ?c2 c3" "grow (dz_map ?c2) (dz_map c3)"
    "\<forall>l. l \<noteq> k \<longrightarrow> tc_stas c3 l = tc_stas ?c2 l"
    using Cons.IH [OF steady_inv [OF st2] Cons.prems(2) _ sl2 _ new2] c1(3) Cons.prems(5) by auto
  then show ?case
    using c1 Cons.prems(2) steady_trans [OF c1(2) steady_trans [OF st2 c3(2)]] grow_trans [OF c1(5)] by auto
qed

lemma sleep_state_steady:
  assumes inv: "ps_inv c" and k: "k \<noteq> bc_addr" and s: "tc_stas c k = Some s" and q: "sleep_q s = []"
    and s1: "s1 = s\<lparr>ts_state := ts_state s OR WIFI_SLEEP_STATE\<rparr>" and pv1: "pv c1 = (tc_fw_state c, rtw_bmp_set (dz_map c) (aid8 s), tim_map c, (tc_stas c)(k := Some s1))"
  shows "steady c c1"
proof -
  note si = ps_invD [OF inv s]
  have f1: "ts_ps s1 = ts_ps s" "aid8 s1 = aid8 s" "sta_out s1 = sta_out s" "queued s1 = queued s" "all_uapsd s1 = all_uapsd s"
    by (simp_all add: s1 aid8_def sta_out_def queued_def all_uapsd_def fun_eq_iff)
  have ps: "sta_ps_inv (dz_map c) (tim_map c) s" using si(1) k by (simp add: sta_inv_def)
  then have "sta_ps_inv (rtw_bmp_set (dz_map c) (aid8 s)) (tim_map c) s1" using q f1 by (auto simp: sta_ps_inv_def)
  then have i: "sta_inv (rtw_bmp_set (dz_map c) (aid8 s)) (tim_map c) k s1"
    using si(1) k f1(1) unfolding sta_inv_def by (simp add: s1 xor_state)
  have "view_inv (tc_fw_state c, dz_map c, tim_map c, tc_stas c)" using inv by (simp add: ps_inv_def pv_def)
  then have "view_inv (tc_fw_state c, rtw_bmp_set (dz_map c) (aid8 s), tim_map c, tc_stas c)" using grow_set grow_refl by (rule grow_inv)
  moreover have "aids_distinct ((tc_stas c)(k := Some s1))" by (rule aids_distinct_put [OF si(4) s]) (simp add: f1)
  ultimately have "ps_inv c1" unfolding ps_inv_def pv1 using i si(2) by simp
  then show ?thesis using waiting_put [OF pv1] waiting_some [OF s] f1(3) by (simp add: steady_def)
qed

lemma stop_steady:
  assumes inv: "ps_inv c" and k: "sta_key_addr p = k" "k \<noteq> bc_addr" and s: "tc_stas c k = Some s" and aw: "ts_state s AND WIFI_SLEEP_STATE = 0"
    and r: "stop_sta_xmit c p = Some (c', acts)"
  shows "steady c c'"
proof -
  note si = ps_invD [OF inv s]
  have q0: "sleep_q s = []" "tim_fits (dz_map c) (aid8 s)" using si(1) k(2) aw by (simp_all add: sta_inv_def sta_ps_inv_def)
  define s1 where "s1 = s\<lparr>ts_state := ts_state s OR WIFI_SLEEP_STATE\<rparr>"
  define c1 where "c1 = upd_dz (\<lambda>m. rtw_bmp_set m (aid8 s)) (tx_put_sta p s1 c)"
  have pv1: "pv c1 = (tc_fw_state c, rtw_bmp_set (dz_map c) (aid8 s), tim_map c, (tc_stas c)(k := Some s1))" using k(1) by (simp add: c1_def)
  have st1: "steady c c1" by (rule sleep_state_steady [OF inv k(2) s q0(1) s1_def pv1])
  have s1: "tc_stas c1 k = Some s1" "dz_map c1 = rtw_bmp_set (dz_map c) (aid8 s)" "aid8 s1 = aid8 s"
    using pv1 by (simp_all add: pv_def s1_def aid8_def)
  have dzs: "rtw_bmp_is_set (dz_map c1) (aid8 s)" using q0(2) by (simp add: s1(2))
  moreover have "ts_state s1 AND WIFI_SLEEP_STATE \<noteq> 0" by (simp add: s1_def WIFI_SLEEP_STATE_def)
  ultimately have sl1: "sleepy (dz_map c1) k s1" using k(2) s1(3) by (simp add: sleepy_def)
  obtain c2 a2 where c2: "stop_queues c1 p hwxmits = (c2, a2)" "steady c1 c2" "grow (dz_map c1) (dz_map c2)"
    using stop_queues_steady [OF steady_inv [OF st1] k(1) s1(1) sl1, of hwxmits] q0 by (auto simp: hwxmits_def s1_def)
  have r': "stop_sta_xmit c p = (if tx_get_sta c2 bc_addr = None then None
      else let (c, acts2) = stop_queues c2 bc_addr hwxmits in Some (c, a2 @ acts2))"
    using s c2(1) put_key(2) [OF k(1)] by (simp add: stop_sta_xmit_def flip: s1_def c1_def)
  then obtain t where t: "tc_stas c2 bc_addr = Some t" using r by (cases "tx_get_sta c2 bc_addr") (auto simp: bc_none)
  have "sleepy (dz_map c2) bc_addr t"
    using tim.any_isin [OF dzs] c2(3) by (simp add: sleepy_def grow_def)
  then obtain c3 a3 where c3: "stop_queues c2 bc_addr hwxmits = (c3, a3)" "steady c2 c3"
    using stop_queues_steady [OF steady_inv [OF c2(2)] sta_key_bc t, of hwxmits] by (auto simp: hwxmits_def)
  then show ?thesis using r r' t steady_trans [OF st1 steady_trans [OF c2(2) c3(2)]] by (simp add: bc_none)
qed

lemma pwrbit_steady:
  assumes "ps_inv c" "sta_key_addr p \<noteq> bc_addr" "process_pwrbit_data c p pwrbit = Some (c', acts)"
  shows "steady c c'"
proof (cases "tx_get_sta c p")
  case None
  then show ?thesis using assms(3) by (simp add: process_pwrbit_data_def)
next
  case (Some s)
  then have s: "tc_stas c (sta_key_addr p) = Some s" by (simp add: tx_get_sta_def)
  show ?thesis
    using assms Some stop_steady [OF assms(1) refl assms(2) s] wakeup_steady [OF assms(1) refl assms(2) s] steady_refl [OF assms(1)]
    by (auto simp: process_pwrbit_data_def split: if_splits)
qed

end
