(* ===== verification/TxAggr.thy ===== *)
theory TxAggr
  imports TxFrame PowerSave
begin

text \<open>
  The thread of the SDIO host (\<open>xmit_xmitframes\<close> of hal/rtl8188e/sdio/rtl8189es_xmit.c): it takes the frames from the queues
  of the stations, builds them one behind the other in a transmit buffer and puts full buffers into the queue from which they
  are written to the chip. With the pool of these buffers (core/rtw_xmit.c) and the checks it makes (hal/hal_com.c,
  hal/hal_hci/hal_sdio.c).
\<close>

section \<open>Transmit buffers\<close>

datatype xmitbuf_tag = XMITBUF_DATA | XMITBUF_MGNT | XMITBUF_CMD

text \<open>\<open>phead\<close> is the address of the memory, and \<open>ptail\<close> counts from there.\<close>

record xmit_buf =
  xb_tag :: xmitbuf_tag        \<comment> \<open>\<open>buf_tag\<close>\<close>
  xb_phead :: nat
  xb_mem :: bytes
  xb_ptail :: nat
  xb_len :: u32
  xb_ff_hwaddr :: u32
  xb_pg_num :: u8
  xb_agg_num :: u8
  xb_priv_data :: "tx_frame option"

text \<open>The queues of free, free management and full buffers; the semaphores are counters, below 0 the thread waits.\<close>

record xmit_pool =
  xp_free :: "xmit_buf list"      \<comment> \<open>\<open>free_xmitbuf_queue\<close>\<close>
  xp_free_cnt :: int
  xp_free_ext :: "xmit_buf list"  \<comment> \<open>\<open>free_xmit_extbuf_queue\<close>\<close>
  xp_free_ext_cnt :: int
  xp_pending :: "xmit_buf list"   \<comment> \<open>\<open>pending_xmitbuf_queue\<close>\<close>
  xp_xmit_sema :: int
  xp_free_sema :: int             \<comment> \<open>\<open>sdio_free_xmitbuf_sema\<close>\<close>

definition rtw_alloc_xmitbuf :: "xmit_pool \<Rightarrow> xmit_buf option \<times> xmit_pool" where
  "rtw_alloc_xmitbuf q = (case xp_free q of
     [] \<Rightarrow> (None, q)
   | b # bs \<Rightarrow> (Some (b\<lparr>xb_priv_data := None, xb_len := 0, xb_ptail := 0, xb_agg_num := 0, xb_pg_num := 0\<rparr>),
       q\<lparr>xp_free := bs, xp_free_cnt := xp_free_cnt q - 1\<rparr>))"

definition rtw_free_xmitbuf_ext :: "xmit_buf \<Rightarrow> xmit_pool \<Rightarrow> xmit_pool" where
  "rtw_free_xmitbuf_ext b q = q\<lparr>xp_free_ext := xp_free_ext q @ [b], xp_free_ext_cnt := xp_free_ext_cnt q + 1\<rparr>"

definition rtw_free_xmitbuf :: "xmit_buf \<Rightarrow> xmit_pool \<Rightarrow> xmit_pool" where
  "rtw_free_xmitbuf b q = (case xb_tag b of
     XMITBUF_CMD \<Rightarrow> q
   | XMITBUF_MGNT \<Rightarrow> rtw_free_xmitbuf_ext b q
   | XMITBUF_DATA \<Rightarrow> q\<lparr>xp_free := xp_free q @ [b], xp_free_cnt := xp_free_cnt q + 1\<rparr>)"

definition enqueue_pending_xmitbuf :: "xmit_buf \<Rightarrow> xmit_pool \<Rightarrow> xmit_pool" where
  "enqueue_pending_xmitbuf b q = q\<lparr>xp_pending := xp_pending q @ [b], xp_xmit_sema := xp_xmit_sema q + 1\<rparr>"

definition check_pending_xmitbuf :: "xmit_pool \<Rightarrow> bool" where
  "check_pending_xmitbuf q \<longleftrightarrow> xp_pending q \<noteq> []"

section \<open>Sizes and checks\<close>

definition TXDESC_SIZE :: u32 where "TXDESC_SIZE = 32"
definition TX_PAGE_SIZE :: u32 where "TX_PAGE_SIZE = 128"

definition PageNum :: "u32 \<Rightarrow> u32 \<Rightarrow> u32" where
  "PageNum len sz = len div sz + (if len AND (sz - 1) \<noteq> 0 then 1 else 0)"

definition RND :: "u32 \<Rightarrow> u32 \<Rightarrow> u32" where
  "RND sz r = ((sz + (r - 1)) div r) * r"

definition rtw_calculate_wlan_pkt_size_by_attribue :: "tx_attrib \<Rightarrow> u32" where
  "rtw_calculate_wlan_pkt_size_by_attribue a =
     ucast (pa_hdrlen a) + ucast (pa_iv_len a) + (6 + 2) + ta_pktlen a
       + (if pa_encrypt a = ENC_TKIP then 8 else 0) + (if ta_bswenc a then ucast (pa_icv_len a) else 0)"

text \<open>The number of the queue of a frame (\<open>BE_QUEUE_INX\<close> and so on).\<close>

definition rtw_get_ff_hwaddr :: "tx_attrib \<Rightarrow> u32" where
  "rtw_get_ff_hwaddr a =
     (let q = ta_qsel a
      in if q = 0 \<or> q = 3 then 2
         else if q = 1 \<or> q = 2 then 3
         else if q = 4 \<or> q = 5 then 1
         else if q = 6 \<or> q = 7 then 0
         else if q = 0x10 then 4
         else if q = 0x11 then 6
         else if q = 0x13 then 7
         else 5)"

text \<open>Whether two frames may be in one buffer.\<close>

definition rtw_hal_busagg_qsel_check :: "tx_ctx \<Rightarrow> u8 \<Rightarrow> u8 \<Rightarrow> rtw_res" where
  "rtw_hal_busagg_qsel_check c pre_qsel next_qsel =
     (let st = check_fwstate (tc_fw_state c)
      in if \<not> st WIFI_AP_STATE \<and> \<not> st WIFI_MESH_STATE then RTW_SUCCESS
         else if (pre_qsel = QSLT_HIGH \<or> next_qsel = QSLT_HIGH) \<and> pre_qsel \<noteq> next_qsel then RTW_FAIL
         else RTW_SUCCESS)"

text \<open>The code also keeps the number that it returns.\<close>

definition rtw_hal_sdio_max_txoqt_free_space :: "u8 \<Rightarrow> u8" where
  "rtw_hal_sdio_max_txoqt_free_space n = (if n < 8 then 8 else n)"

text \<open>\<open>Queue2Pipe\<close> and \<open>sdio_tx_max_len\<close> are lists.\<close>

definition rtw_hal_get_sdio_tx_max_length :: "u8 list \<Rightarrow> u32 list \<Rightarrow> nat \<Rightarrow> u32 option" where
  "rtw_hal_get_sdio_tx_max_length queue2pipe sdio_tx_max_len queue_idx = do {
     d \<leftarrow> rd queue2pipe queue_idx;
     rd sdio_tx_max_len (if d = 4 then 0 else if d = 5 then 1 else if d = 6 then 2 else 1) }"

section \<open>The thread\<close>

datatype xmit_err = XMIT_OK | RTW_XBUF_UNAVAIL | RTW_TX_BALANCE | RTW_TX_WAIT_MORE_FRAME

text \<open>
  The calls for a frame that are not modelled further: a frame was built (with the result), its descriptor is written (with the
  number of frames of the buffer), it is counted, and it is put back to the free frames.
\<close>

datatype xmit_act =
    Coalesced tx_frame rtw_res
  | Update_txdesc tx_frame u8
  | Count_tx_stats tx_frame u32
  | Free_xmitframe tx_frame

text \<open>What the thread only reads: the packets by their numbers, settings, and the uninitialised Michael state.\<close>

record xmit_env =
  xe_pkts :: "nat \<Rightarrow> bytes"
  xe_mic :: mic_data
  xe_wmm_para_seq :: "tx_ac list"
  xe_busy :: bool                \<comment> \<open>\<open>bHigherBusyTxTraffic\<close>\<close>
  xe_queue2pipe :: "u8 list"
  xe_tx_max_len :: "u32 list"
  xe_oqt_max :: u8               \<comment> \<open>\<open>SdioTxOQTMaxFreeSpace\<close>\<close>

text \<open>The local variables of the loops.\<close>

record xmit_loop =
  xl_c :: tx_ctx
  xl_pool :: xmit_pool
  xl_buf :: "xmit_buf option"    \<comment> \<open>\<open>pxmitbuf\<close>\<close>
  xl_agg_num :: int
  xl_pre_qsel :: u8
  xl_consume :: int
  xl_err :: xmit_err
  xl_acts :: "xmit_act list"

text \<open>Whether the frame needs a new buffer.\<close>

definition buf_needed :: "xmit_env \<Rightarrow> u32 \<Rightarrow> tx_attrib \<Rightarrow> xmit_loop \<Rightarrow> bool" where
  "buf_needed env max_xmit_len a st = (case xl_buf st of
     None \<Rightarrow> True
   | Some b \<Rightarrow>
       let txlen = TXDESC_SIZE + rtw_calculate_wlan_pkt_size_by_attribue a
       in ucast (xb_pg_num b) + PageNum txlen TX_PAGE_SIZE > PageNum max_xmit_len TX_PAGE_SIZE
          \<or> xl_agg_num st \<ge> uint (rtw_hal_sdio_max_txoqt_free_space (xe_oqt_max env)) - 1
          \<or> xl_agg_num st \<noteq> 0 \<and> rtw_hal_busagg_qsel_check (xl_c st) (xl_pre_qsel st) (ta_qsel a) = RTW_FAIL)"

text \<open>A full buffer goes to the pending ones, with the descriptor of its first frame.\<close>

definition finish_buf :: "xmit_buf \<Rightarrow> tx_frame \<Rightarrow> xmit_loop \<Rightarrow> xmit_loop" where
  "finish_buf b f st =
     (let n = word_of_int (xl_agg_num st)
      in st\<lparr>xl_acts := xl_acts st @ [Update_txdesc f n, Free_xmitframe f],
            xl_pool := enqueue_pending_xmitbuf (b\<lparr>xb_agg_num := n, xb_priv_data := None\<rparr>) (xl_pool st)\<rparr>)"

text \<open>The verdict is whether to leave the queue of the station.\<close>

definition flush_buf :: "bool \<Rightarrow> xmit_buf \<Rightarrow> xmit_loop \<Rightarrow> bool \<times> xmit_loop" where
  "flush_buf single_sta_in_queue b st = (case xb_priv_data b of
     Some f \<Rightarrow>
       if xb_len b > 0 then
         let st = finish_buf b f st
         in if \<not> single_sta_in_queue then (True, st\<lparr>xl_buf := None, xl_err := RTW_TX_BALANCE\<rparr>) else (False, st)
       else (False, st\<lparr>xl_pool := rtw_free_xmitbuf b (xl_pool st), xl_consume := xl_consume st - 1\<rparr>)
   | None \<Rightarrow> (False, st\<lparr>xl_pool := rtw_free_xmitbuf b (xl_pool st), xl_consume := xl_consume st - 1\<rparr>))"

definition next_buf :: "bool \<Rightarrow> xmit_loop \<Rightarrow> bool \<times> xmit_loop" where
  "next_buf single_sta_in_queue st =
     (let (stop, st) = (case xl_buf st of None \<Rightarrow> (False, st) | Some b \<Rightarrow> flush_buf single_sta_in_queue b st)
      in if stop then (True, st)
         else case rtw_alloc_xmitbuf (xl_pool st) of
           (None, q) \<Rightarrow> (True, st\<lparr>xl_buf := None, xl_pool := q, xl_err := RTW_XBUF_UNAVAIL\<rparr>)
         | (Some b, q) \<Rightarrow> (False, st\<lparr>xl_buf := Some b, xl_pool := q, xl_consume := xl_consume st + 1, xl_agg_num := 0\<rparr>))"

text \<open>Removing the first frame of a station.\<close>

definition take_frame :: "bytes \<Rightarrow> tx_ac \<Rightarrow> tx_ctx \<Rightarrow> tx_ctx" where
  "take_frame p ac c = upd_hwx ac (\<lambda>h. h\<lparr>hx_accnt := hx_accnt h - 1\<rparr>)
     (upd_sta p (upd_servq ac (\<lambda>q. \<lparr>sq_pending = tl (sq_pending q), sq_qcnt = sq_qcnt q - 1\<rparr>)) c)"

text \<open>The bytes of a frame in the buffer, and the buffer behind it.\<close>

definition put_frame :: "(nat \<times> bytes) option \<Rightarrow> xmit_buf \<Rightarrow> xmit_buf" where
  "put_frame bo b = (case bo of None \<Rightarrow> b | Some (_, m) \<Rightarrow> b\<lparr>xb_mem := take (xb_ptail b) (xb_mem b) @ m\<rparr>)"

definition grow_buf :: "u32 \<Rightarrow> xmit_buf \<Rightarrow> xmit_buf" where
  "grow_buf txlen b = b\<lparr>xb_pg_num := xb_pg_num b + ucast ((txlen + 127) div 128),
     xb_ptail := xb_ptail b + unat (RND txlen 8), xb_len := RND (xb_len b) 8 + txlen\<rparr>"

text \<open>
  Building the frame at the end of the buffer; the first one stays with the buffer. When a frame cannot be built it is freed
  too, except when there is exactly one frame in the buffer.
\<close>

definition send_frame :: "xmit_env \<Rightarrow> bytes \<Rightarrow> tx_ac \<Rightarrow> tx_frame \<Rightarrow> xmit_loop \<Rightarrow> xmit_loop option" where
  "send_frame env p ac f st = (case xl_buf st of
     None \<Rightarrow> None
   | Some b \<Rightarrow> do {
       let first = (xl_agg_num st = 0);
       (res, c, a, bo) \<leftarrow> rtw_xmitframe_coalesce (xe_mic env) (take_frame p ac (xl_c st)) (xe_pkts env (tf_pkt f)) (tf_attr f)
         (Some (xb_phead b + xb_ptail b, drop (xb_ptail b) (xb_mem b)));
       let g = f\<lparr>tf_attr := a\<rparr>;
       let b = put_frame bo (if first then b\<lparr>xb_ff_hwaddr := rtw_get_ff_hwaddr (tf_attr f), xb_priv_data := Some g\<rparr> else b);
       let acts = xl_acts st @ [Coalesced f res];
       if res = RTW_FAIL
       then Some (st\<lparr>xl_c := c, xl_buf := Some b, xl_acts := acts @ (if xl_agg_num st \<noteq> 1 then [Free_xmitframe g] else [])\<rparr>)
       else do {
         let agg_num = xl_agg_num st + 1;
         Some (st\<lparr>xl_c := c, xl_buf := Some (grow_buf (TXDESC_SIZE + pa_last_txcmdsz a) b), xl_agg_num := agg_num,
           xl_pre_qsel := ta_qsel a,
           xl_acts := acts @ (if agg_num \<noteq> 1 then [Update_txdesc g 1] else []) @ [Count_tx_stats g (pa_last_txcmdsz a)]
             @ (if agg_num \<noteq> 1 then [Free_xmitframe g] else [])\<rparr>) } })"

text \<open>The frames of a station; the list is its queue, which only this loop changes meanwhile.\<close>

fun frame_loop :: "xmit_env \<Rightarrow> u32 \<Rightarrow> bool \<Rightarrow> bytes \<Rightarrow> tx_ac \<Rightarrow> tx_frame list \<Rightarrow> xmit_loop \<Rightarrow> xmit_loop option" where
  "frame_loop env max_xmit_len single p ac [] st = Some st"
| "frame_loop env max_xmit_len single p ac (f # fs) st =
     (let (stop, st) = (if buf_needed env max_xmit_len (tf_attr f) st then next_buf single st else (False, st))
      in if stop then Some st
         else do {
           st \<leftarrow> send_frame env p ac f st;
           frame_loop env max_xmit_len single p ac fs st })"

text \<open>A station without frames leaves the list, one that has to let others send goes to its end.\<close>

definition sta_done :: "bytes \<Rightarrow> tx_ac \<Rightarrow> xmit_loop \<Rightarrow> xmit_loop" where
  "sta_done p ac st = (case tx_get_sta (xl_c st) p of
     None \<Rightarrow> st
   | Some s \<Rightarrow>
       if sq_pending (servq s ac) = [] then st\<lparr>xl_c := upd_hwx ac (hx_delete p) (xl_c st)\<rparr>
       else if xl_err st = RTW_TX_BALANCE then st\<lparr>xl_c := upd_hwx ac (\<lambda>h. hx_insert p (hx_delete p h)) (xl_c st)\<rparr>
       else st)"

text \<open>The stations of an access category. A listed station that does not exist would be memory that was freed.\<close>

fun sta_loop :: "xmit_env \<Rightarrow> u32 \<Rightarrow> bool \<Rightarrow> tx_ac \<Rightarrow> bytes list \<Rightarrow> xmit_loop \<Rightarrow> xmit_loop option" where
  "sta_loop env max_xmit_len single ac [] st = Some st"
| "sta_loop env max_xmit_len single ac (p # ps) st = (case tx_get_sta (xl_c st) p of
     None \<Rightarrow> None
   | Some s \<Rightarrow> do {
       st \<leftarrow> frame_loop env max_xmit_len single p ac (sq_pending (servq s ac)) st;
       let st = sta_done p ac st;
       if xl_err st \<noteq> XMIT_OK then Some st else sta_loop env max_xmit_len single ac ps st })"

text \<open>The last buffer of a category. A buffer with bytes in it has its first frame.\<close>

definition dump_buf :: "xmit_loop \<Rightarrow> xmit_loop option" where
  "dump_buf st = (case xl_buf st of
     None \<Rightarrow> Some st
   | Some b \<Rightarrow>
       if xb_len b > 0 then (case xb_priv_data b of
           None \<Rightarrow> None
         | Some f \<Rightarrow> Some ((finish_buf b f st)\<lparr>xl_buf := None\<rparr>))
       else let q = rtw_free_xmitbuf b (xl_pool st)
            in Some (st\<lparr>xl_pool := q\<lparr>xp_free_sema := xp_free_sema q + 1\<rparr>, xl_buf := None\<rparr>))"

definition ac_index :: "tx_ac \<Rightarrow> nat" where
  "ac_index ac = (case ac of AC_VO \<Rightarrow> 0 | AC_VI \<Rightarrow> 1 | AC_BE \<Rightarrow> 2 | AC_BK \<Rightarrow> 3)"

fun ac_loop :: "xmit_env \<Rightarrow> tx_ac list \<Rightarrow> xmit_loop \<Rightarrow> xmit_loop option" where
  "ac_loop env [] st = Some st"
| "ac_loop env (ac # acs) st =
     (let st = st\<lparr>xl_consume := 0\<rparr>; h = hwx (xl_c st) ac
      in if check_pending_xmitbuf (xl_pool st) \<and> xe_busy env \<and> hx_accnt h > 0 \<and> hx_accnt h < 5
         then Some (st\<lparr>xl_err := RTW_TX_WAIT_MORE_FRAME\<rparr>)
         else do {
           max_xmit_len \<leftarrow> rtw_hal_get_sdio_tx_max_length (xe_queue2pipe env) (xe_tx_max_len env) (ac_index ac);
           st \<leftarrow> sta_loop env max_xmit_len (length (hx_stas h) \<le> 1) ac (hx_stas h) st;
           let st = st\<lparr>xl_pool := (xl_pool st)\<lparr>xp_free_sema := xp_free_sema (xl_pool st) - xl_consume st\<rparr>\<rparr>;
           st \<leftarrow> dump_buf st;
           if xl_err st = RTW_XBUF_UNAVAIL then Some st else ac_loop env acs st })"

definition xmit_xmitframes :: "xmit_env \<Rightarrow> tx_ctx \<Rightarrow> xmit_pool \<Rightarrow> (xmit_err \<times> tx_ctx \<times> xmit_pool \<times> xmit_act list) option" where
  "xmit_xmitframes env c q = do {
     st \<leftarrow> ac_loop env (if vc_wifi_spec (tc_vcs c) then xe_wmm_para_seq env else hwxmits)
       \<lparr>xl_c = c, xl_pool = q, xl_buf = None, xl_agg_num = 0, xl_pre_qsel = 0xFF, xl_consume = 0, xl_err = XMIT_OK, xl_acts = []\<rparr>;
     Some (xl_err st, xl_c st, xl_pool st, xl_acts st) }"

text \<open>The frames taken from the queues.\<close>

fun act_frame :: "xmit_act \<Rightarrow> tx_frame list" where
  "act_frame (Coalesced f _) = [f]"
| "act_frame _ = []"

definition frames_taken :: "xmit_act list \<Rightarrow> tx_frame list" where
  "frames_taken acts = concat (map act_frame acts)"

lemma frames_taken_simps [simp]: "frames_taken [] = []" "frames_taken (x # xs) = act_frame x @ frames_taken xs"
  "frames_taken (xs @ ys) = frames_taken xs @ frames_taken ys"
  by (simp_all add: frames_taken_def)

section \<open>The buffers\<close>

text \<open>Free buffers are data buffers, and the buffer at hand has its first frame when there are bytes in it.\<close>

definition pool_ok :: "xmit_pool \<Rightarrow> bool" where
  "pool_ok q \<longleftrightarrow> (\<forall>b \<in> set (xp_free q). xb_tag b = XMITBUF_DATA)"

definition buf_inv :: "xmit_loop \<Rightarrow> bool" where
  "buf_inv st \<longleftrightarrow> pool_ok (xl_pool st) \<and> (\<forall>b. xl_buf st = Some b \<longrightarrow> xb_tag b = XMITBUF_DATA \<and>
     (xb_priv_data b = None \<longrightarrow> xl_agg_num st = 0 \<and> xb_len b = 0))"

definition held :: "xmit_loop \<Rightarrow> nat" where
  "held st = (case xl_buf st of None \<Rightarrow> 0 | Some _ \<Rightarrow> 1)"

text \<open>No buffer is lost, the counters follow the queues, and what is put into the queue of full buffers has bytes.\<close>

definition sent :: "xmit_pool \<Rightarrow> xmit_pool \<Rightarrow> xmit_buf list \<Rightarrow> bool" where
  "sent q q' bs \<longleftrightarrow> xp_pending q' = xp_pending q @ bs \<and> (\<forall>b \<in> set bs. xb_len b > 0 \<and> xb_priv_data b = None) \<and>
     xp_free_cnt q' - int (length (xp_free q')) = xp_free_cnt q - int (length (xp_free q)) \<and>
     xp_xmit_sema q' = xp_xmit_sema q + int (length bs) \<and>
     xp_free_ext q' = xp_free_ext q \<and> xp_free_ext_cnt q' = xp_free_ext_cnt q"

definition kept :: "xmit_loop \<Rightarrow> xmit_loop \<Rightarrow> bool" where
  "kept a b \<longleftrightarrow> (buf_inv a \<longrightarrow> buf_inv b \<and> (\<exists>bs. sent (xl_pool a) (xl_pool b) bs \<and>
     length (xp_free (xl_pool b)) + length bs + held b = length (xp_free (xl_pool a)) + held a) \<and>
     xp_free_sema (xl_pool b) = xp_free_sema (xl_pool a) \<and>
     xl_consume b + int (length (xp_free (xl_pool b))) = xl_consume a + int (length (xp_free (xl_pool a))))"

lemma sent_trans: "sent a b xs \<Longrightarrow> sent b c ys \<Longrightarrow> sent a c (xs @ ys)"
  by (auto simp: sent_def)

lemma kept_trans: "kept a b \<Longrightarrow> kept b c \<Longrightarrow> kept a c"
proof -
  assume k: "kept a b" "kept b c"
  show "kept a c"
  proof (cases "buf_inv a")
    case True
    with k obtain xs ys where "sent (xl_pool a) (xl_pool b) xs" "sent (xl_pool b) (xl_pool c) ys"
      "length (xp_free (xl_pool b)) + length xs + held b = length (xp_free (xl_pool a)) + held a"
      "length (xp_free (xl_pool c)) + length ys + held c = length (xp_free (xl_pool b)) + held b"
      by (auto simp: kept_def)
    then have "\<exists>bs. sent (xl_pool a) (xl_pool c) bs \<and>
        length (xp_free (xl_pool c)) + length bs + held c = length (xp_free (xl_pool a)) + held a"
      by (intro exI [of _ "xs @ ys"] conjI sent_trans [of _ "xl_pool b"]) simp_all
    then show ?thesis using k True by (simp add: kept_def)
  qed (simp add: kept_def)
qed

lemma kept_same: "xl_pool b = xl_pool a \<Longrightarrow> xl_buf b = xl_buf a \<Longrightarrow> xl_agg_num b = xl_agg_num a \<Longrightarrow> xl_consume b = xl_consume a \<Longrightarrow> kept a b"
  by (auto simp: kept_def sent_def buf_inv_def held_def intro!: exI [of _ "[]"])

lemma flush_kept:
  assumes f: "flush_buf single b st = (stop, st')" and b: "xl_buf st = Some b" and inv: "buf_inv st"
  shows "kept st (st'\<lparr>xl_buf := None\<rparr>)" "stop \<Longrightarrow> xl_buf st' = None"
  using f inv b by (auto simp: flush_buf_def finish_buf_def enqueue_pending_xmitbuf_def rtw_free_xmitbuf_def kept_def sent_def
      buf_inv_def pool_ok_def held_def Let_def split: option.splits if_splits)

lemma alloc_kept:
  assumes "rtw_alloc_xmitbuf (xl_pool st) = (Some b, q)" "xl_buf st = None"
  shows "kept st (st\<lparr>xl_buf := Some b, xl_pool := q, xl_consume := xl_consume st + 1, xl_agg_num := 0\<rparr>)"
  using assms by (auto simp: rtw_alloc_xmitbuf_def kept_def sent_def buf_inv_def pool_ok_def held_def split: list.splits)

lemma next_kept:
  assumes n: "next_buf single st = (stop, st')" and inv: "buf_inv st"
  shows "kept st st'"
proof -
  define r where "r = (case xl_buf st of None \<Rightarrow> (False, st) | Some b \<Rightarrow> flush_buf single b st)"
  obtain stop1 st1 where st1: "r = (stop1, st1)" by (cases r)
  let ?n = "st1\<lparr>xl_buf := None\<rparr>"
  have k: "kept st ?n" "stop1 \<Longrightarrow> xl_buf st1 = None"
    using st1 inv flush_kept [of single _ st stop1 st1] kept_same [of ?n st]
    by (auto simp: r_def split: option.splits)
  show ?thesis
  proof (cases stop1)
    case True
    then have "st' = st1" using n st1 by (simp add: next_buf_def r_def)
    then show ?thesis using kept_trans [OF k(1) kept_same [of st1 ?n]] k(2) True by simp
  next
    case False
    obtain bo q where q: "rtw_alloc_xmitbuf (xl_pool st1) = (bo, q)" by fastforce
    show ?thesis
    proof (cases bo)
      case None
      then have "q = xl_pool st1" using q by (auto simp: rtw_alloc_xmitbuf_def split: list.splits)
      then have "st' = st1\<lparr>xl_buf := None, xl_pool := xl_pool st1, xl_err := RTW_XBUF_UNAVAIL\<rparr>"
        using n st1 False q None by (simp add: next_buf_def r_def)
      then show ?thesis using kept_trans [OF k(1) kept_same [of st' ?n]] by simp
    next
      case (Some b)
      then have "st' = ?n\<lparr>xl_buf := Some b, xl_pool := q, xl_consume := xl_consume ?n + 1, xl_agg_num := 0\<rparr>"
        using n st1 False q by (simp add: next_buf_def r_def)
      then show ?thesis using kept_trans [OF k(1) alloc_kept [of ?n b q]] q Some by simp
    qed
  qed
qed

lemma put_grow [simp]: "xb_tag (put_frame bo b) = xb_tag b" "xb_priv_data (put_frame bo b) = xb_priv_data b"
  "xb_tag (grow_buf n b) = xb_tag b" "xb_priv_data (grow_buf n b) = xb_priv_data b"
  by (simp_all add: put_frame_def grow_buf_def split: option.split)

lemma send_frame_fields:
  assumes "send_frame env p ac f st = Some st'"
  obtains b b' where "xl_buf st = Some b" "xl_buf st' = Some b'" "xb_tag b' = xb_tag b"
    "xb_priv_data b' = None \<longrightarrow> xl_agg_num st \<noteq> 0 \<and> xb_priv_data b = None"
    "xl_pool st' = xl_pool st" "xl_consume st' = xl_consume st" "0 \<le> xl_agg_num st \<longrightarrow> 0 \<le> xl_agg_num st'"
proof -
  obtain b where b: "xl_buf st = Some b" using assms by (cases "xl_buf st") (simp_all add: send_frame_def)
  obtain res c a bo where co: "rtw_xmitframe_coalesce (xe_mic env) (take_frame p ac (xl_c st)) (xe_pkts env (tf_pkt f)) (tf_attr f)
      (Some (xb_phead b + xb_ptail b, drop (xb_ptail b) (xb_mem b))) = Some (res, c, a, bo)"
    using assms b unfolding send_frame_def Let_def by (auto split: Option.bind_splits if_splits)
  note e = assms [unfolded send_frame_def b option.case co Option.bind.bind_lunit prod.case Let_def]
  have "xl_pool st' = xl_pool st" "xl_consume st' = xl_consume st" "0 \<le> xl_agg_num st \<longrightarrow> 0 \<le> xl_agg_num st'"
    using e by (auto split: if_splits)
  moreover have "\<exists>b'. xl_buf st' = Some b' \<and> xb_tag b' = xb_tag b \<and>
      (xb_priv_data b' = None \<longrightarrow> xl_agg_num st \<noteq> 0 \<and> xb_priv_data b = None)"
    using e by (auto split: if_splits)
  ultimately show thesis using b by (elim exE conjE) (rule that)
qed

text \<open>A frame that cannot be built behind exactly one other is not freed.\<close>

lemma unbuilt_frame_leaks:
  assumes "xl_buf st = Some b" "xl_agg_num st = 1"
    and "rtw_xmitframe_coalesce (xe_mic env) (take_frame p ac (xl_c st)) (xe_pkts env (tf_pkt f)) (tf_attr f)
      (Some (xb_phead b + xb_ptail b, drop (xb_ptail b) (xb_mem b))) = Some (RTW_FAIL, c, a, bo)"
  shows "\<exists>st'. send_frame env p ac f st = Some st' \<and> xl_c st' = c \<and> xl_acts st' = xl_acts st @ [Coalesced f RTW_FAIL]"
  using assms by (simp add: send_frame_def)

lemma send_kept:
  assumes "send_frame env p ac f st = Some st'" "0 \<le> xl_agg_num st"
  shows "kept st st'" "0 \<le> xl_agg_num st'"
proof -
  obtain b b' where s: "xl_buf st = Some b" "xl_buf st' = Some b'" "xb_tag b' = xb_tag b"
    "xb_priv_data b' = None \<longrightarrow> xl_agg_num st \<noteq> 0 \<and> xb_priv_data b = None"
    "xl_pool st' = xl_pool st" "xl_consume st' = xl_consume st" "0 \<le> xl_agg_num st \<longrightarrow> 0 \<le> xl_agg_num st'"
    by (rule send_frame_fields [OF assms(1)])
  then have i: "buf_inv st \<Longrightarrow> buf_inv st'" by (auto simp: buf_inv_def)
  have "sent (xl_pool st) (xl_pool st) []" by (simp add: sent_def)
  then show "kept st st'" using s(1,2,5,6) i by (auto simp: kept_def held_def intro!: exI [of _ "[]"])
  show "0 \<le> xl_agg_num st'" using s(7) assms(2) by blast
qed

lemma next_agg: "next_buf single st = (stop, st') \<Longrightarrow> 0 \<le> xl_agg_num st \<Longrightarrow> 0 \<le> xl_agg_num st'"
  by (auto simp: next_buf_def flush_buf_def finish_buf_def Let_def split: option.splits prod.splits if_splits)

lemma kept_inv: "kept a b \<Longrightarrow> buf_inv a \<Longrightarrow> buf_inv b"
  by (simp add: kept_def)

lemma frame_loop_kept:
  assumes "frame_loop env m single p ac fs st = Some st'" "buf_inv st" "0 \<le> xl_agg_num st"
  shows "kept st st' \<and> 0 \<le> xl_agg_num st'"
  using assms
proof (induction fs arbitrary: st)
  case (Cons f fs)
  obtain stop st1 where n: "(if buf_needed env m (tf_attr f) st then next_buf single st else (False, st)) = (stop, st1)" by fastforce
  have k: "kept st st1" "0 \<le> xl_agg_num st1"
    using n next_kept [OF _ Cons.prems(2)] next_agg [of single st stop st1] Cons.prems(3) kept_same [of st st]
    by (auto split: if_splits)
  show ?case
  proof (cases stop)
    case False
    then obtain st2 where st2: "send_frame env p ac f st1 = Some st2" "frame_loop env m single p ac fs st2 = Some st'"
      using Cons.prems(1) n by (auto split: Option.bind_splits)
    note s = send_kept [OF st2(1) k(2)]
    from Cons.IH [OF st2(2) kept_inv [OF s(1) kept_inv [OF k(1) Cons.prems(2)]] s(2)] show ?thesis using kept_trans k(1) s(1) by blast
  qed (use Cons.prems(1) n k in simp)
qed (simp add: kept_same)

lemma sta_loop_kept:
  "sta_loop env m single ac ps st = Some st' \<Longrightarrow> buf_inv st \<Longrightarrow> 0 \<le> xl_agg_num st \<Longrightarrow> kept st st' \<and> 0 \<le> xl_agg_num st'"
proof (induction ps arbitrary: st)
  case (Cons p ps)
  then obtain s st1 where s: "frame_loop env m single p ac (sq_pending (servq s ac)) st = Some st1"
    "(if xl_err (sta_done p ac st1) \<noteq> XMIT_OK then Some (sta_done p ac st1)
      else sta_loop env m single ac ps (sta_done p ac st1)) = Some st'"
    by (auto simp: Let_def split: option.splits Option.bind_splits)
  note k1 = frame_loop_kept [OF s(1) Cons.prems(2,3)]
  have k2: "kept st1 (sta_done p ac st1)" "xl_agg_num (sta_done p ac st1) = xl_agg_num st1"
    by (auto simp: sta_done_def intro!: kept_same split: option.split)
  show ?case
  proof (cases "xl_err (sta_done p ac st1) = XMIT_OK")
    case True
    then have "kept (sta_done p ac st1) st' \<and> 0 \<le> xl_agg_num st'"
      using s(2) k1 k2(2) Cons.IH kept_inv [OF k2(1) kept_inv [OF conjunct1 [OF k1] Cons.prems(2)]] by simp
    then show ?thesis using kept_trans k1 k2(1) by blast
  next
    case False
    then show ?thesis using s(2) kept_trans k1 k2 by auto
  qed
qed (simp add: kept_same)

text \<open>The buffer at hand can always be put away, and afterwards there is none.\<close>

lemma dump_kept:
  assumes "buf_inv st"
  obtains st' bs where "dump_buf st = Some st'" "xl_buf st' = None" "buf_inv st'" "xl_agg_num st' = xl_agg_num st"
    "sent (xl_pool st) (xl_pool st') bs"
    "length (xp_free (xl_pool st')) + length bs = length (xp_free (xl_pool st)) + held st"
    "xp_free_sema (xl_pool st') - int (length (xp_free (xl_pool st'))) = xp_free_sema (xl_pool st) - int (length (xp_free (xl_pool st)))"
proof (cases "xl_buf st")
  case None
  then show thesis using assms that [of st "[]"] by (simp add: dump_buf_def sent_def held_def)
next
  case (Some b)
  then have b: "xb_tag b = XMITBUF_DATA" "xb_len b > 0 \<Longrightarrow> \<exists>f. xb_priv_data b = Some f" "pool_ok (xl_pool st)"
    using assms by (auto simp: buf_inv_def)
  show thesis
  proof (cases "xb_len b > 0")
    case True
    then obtain f where f: "xb_priv_data b = Some f" using b(2) by blast
    show thesis
      by (rule that [of "(finish_buf b f st)\<lparr>xl_buf := None\<rparr>" "[b\<lparr>xb_agg_num := word_of_int (xl_agg_num st), xb_priv_data := None\<rparr>]"])
        (use Some True f b in \<open>simp_all add: dump_buf_def finish_buf_def enqueue_pending_xmitbuf_def buf_inv_def pool_ok_def sent_def held_def Let_def\<close>)
  next
    case False
    let ?q = "rtw_free_xmitbuf b (xl_pool st)"
    show thesis
      by (rule that [of "st\<lparr>xl_pool := ?q\<lparr>xp_free_sema := xp_free_sema ?q + 1\<rparr>, xl_buf := None\<rparr>" "[]"])
        (use Some False b in \<open>simp_all add: dump_buf_def rtw_free_xmitbuf_def buf_inv_def pool_ok_def sent_def held_def Let_def\<close>)
  qed
qed

definition balanced :: "xmit_pool \<Rightarrow> xmit_pool \<Rightarrow> bool" where
  "balanced q q' \<longleftrightarrow> pool_ok q' \<and> (\<exists>bs. sent q q' bs \<and> length (xp_free q') + length bs = length (xp_free q)) \<and>
     xp_free_sema q' - int (length (xp_free q')) = xp_free_sema q - int (length (xp_free q))"

lemma balanced_trans: "balanced a b \<Longrightarrow> balanced b c \<Longrightarrow> balanced a c"
proof -
  assume b: "balanced a b" "balanced b c"
  then obtain xs ys where "sent a b xs" "sent b c ys" "length (xp_free b) + length xs = length (xp_free a)"
    "length (xp_free c) + length ys = length (xp_free b)" by (auto simp: balanced_def)
  then have "\<exists>bs. sent a c bs \<and> length (xp_free c) + length bs = length (xp_free a)"
    by (intro exI [of _ "xs @ ys"] conjI sent_trans [of a b]) simp_all
  then show "balanced a c" using b by (simp add: balanced_def)
qed

lemma balanced_refl: "pool_ok q \<Longrightarrow> balanced q q"
  by (auto simp: balanced_def sent_def)

lemma ac_loop_balanced:
  "ac_loop env acs st = Some st' \<Longrightarrow> buf_inv st \<Longrightarrow> xl_buf st = None \<Longrightarrow> 0 \<le> xl_agg_num st \<Longrightarrow>
    balanced (xl_pool st) (xl_pool st')"
proof (induction acs arbitrary: st)
  case Nil
  then show ?case by (simp add: balanced_refl buf_inv_def)
next
  case (Cons ac acs)
  let ?st = "st\<lparr>xl_consume := 0\<rparr>" and ?h = "hwx (xl_c st) ac"
  have inv: "buf_inv ?st" "pool_ok (xl_pool st)" using Cons.prems(2) by (simp_all add: buf_inv_def)
  show ?case
  proof (cases "check_pending_xmitbuf (xl_pool st) \<and> xe_busy env \<and> hx_accnt ?h > 0 \<and> hx_accnt ?h < 5")
    case True
    then have "st' = ?st\<lparr>xl_err := RTW_TX_WAIT_MORE_FRAME\<rparr>" using Cons.prems(1) by (simp add: Let_def)
    then show ?thesis using balanced_refl inv(2) by simp
  next
    case False
    let ?sema = "\<lambda>st. st\<lparr>xl_pool := (xl_pool st)\<lparr>xp_free_sema := xp_free_sema (xl_pool st) - xl_consume st\<rparr>\<rparr>"
    obtain m st1 st2 where st: "sta_loop env m (length (hx_stas ?h) \<le> 1) ac (hx_stas ?h) ?st = Some st1"
      "dump_buf (?sema st1) = Some st2" "(if xl_err st2 = RTW_XBUF_UNAVAIL then Some st2 else ac_loop env acs st2) = Some st'"
      using Cons.prems(1) False unfolding ac_loop.simps Let_def if_not_P [OF False] by (auto split: Option.bind_splits)
    have k: "kept ?st st1 \<and> 0 \<le> xl_agg_num st1" by (rule sta_loop_kept [OF st(1) inv(1)]) (simp add: Cons.prems(4))
    then have k1: "buf_inv st1" "xp_free_sema (xl_pool st1) = xp_free_sema (xl_pool st)"
      "xl_consume st1 + int (length (xp_free (xl_pool st1))) = int (length (xp_free (xl_pool st)))"
      using inv(1) by (simp_all add: kept_def)
    obtain xs where xs: "sent (xl_pool st) (xl_pool st1) xs"
      "length (xp_free (xl_pool st1)) + length xs + held st1 = length (xp_free (xl_pool st))"
      using k inv(1) Cons.prems(3) by (auto simp: kept_def held_def)
    have "buf_inv (?sema st1)" using k1(1) by (simp add: buf_inv_def pool_ok_def)
    obtain ys where d: "xl_buf st2 = None" "buf_inv st2" "xl_agg_num st2 = xl_agg_num st1"
      "sent (xl_pool (?sema st1)) (xl_pool st2) ys"
      "length (xp_free (xl_pool st2)) + length ys = length (xp_free (xl_pool st1)) + held st1"
      "xp_free_sema (xl_pool st2) - int (length (xp_free (xl_pool st2)))
        = xp_free_sema (xl_pool st1) - xl_consume st1 - int (length (xp_free (xl_pool st1)))"
    proof (rule dump_kept [OF \<open>buf_inv (?sema st1)\<close>])
      fix s bs
      assume s: "dump_buf (?sema st1) = Some s" "xl_buf s = None" "buf_inv s" "xl_agg_num s = xl_agg_num (?sema st1)"
        "sent (xl_pool (?sema st1)) (xl_pool s) bs"
        "length (xp_free (xl_pool s)) + length bs = length (xp_free (xl_pool (?sema st1))) + held (?sema st1)"
        "xp_free_sema (xl_pool s) - int (length (xp_free (xl_pool s)))
          = xp_free_sema (xl_pool (?sema st1)) - int (length (xp_free (xl_pool (?sema st1))))"
      have "s = st2" using s(1) st(2) by simp
      then show thesis using s(2-7) that [of bs] by (simp add: held_def)
    qed
    have "sent (xl_pool st1) (xl_pool st2) ys" using d(4) by (simp add: sent_def)
    then have "balanced (xl_pool st) (xl_pool st2)"
      using sent_trans [OF xs(1), of "xl_pool st2" ys] xs(2) d(2,5,6) k1(2,3)
      unfolding balanced_def buf_inv_def by (intro conjI exI [of _ "xs @ ys"]) simp_all
    moreover have "balanced (xl_pool st2) (xl_pool st')"
      using st(3) Cons.IH [OF _ d(2,1)] d(2,3) k balanced_refl by (auto simp: buf_inv_def split: if_splits)
    ultimately show ?thesis by (rule balanced_trans)
  qed
qed

text \<open>
  A turn of the thread loses no buffer: those it took from the free ones are at the end of the full ones, each with
  bytes in it, or free again; the counter and the semaphore of the free buffers change as their number does.
\<close>

lemma xmit_buffers_balanced:
  assumes "pool_ok q" "xmit_xmitframes env c q = Some (err, c', q', acts)"
  shows "balanced q q'"
proof -
  obtain acs st st' where st: "ac_loop env acs st = Some st'" "xl_pool st = q" "xl_buf st = None" "xl_agg_num st = 0" "xl_pool st' = q'"
    using assms(2) unfolding xmit_xmitframes_def by (auto split: Option.bind_splits)
  then show ?thesis using ac_loop_balanced [OF st(1)] assms(1) by (simp add: buf_inv_def)
qed

end
