(* ===== verification/PsFifo.thy ===== *)
theory PsFifo
  imports PsStop TxPort TxAggr
begin

text \<open>
  An access point sends the packets for a station in the order in which they came: the transmit entry and the turns of the
  thread of the SDIO host (TxAggr) as steps, with the steps of PsWake and PsStop between them.
\<close>

section \<open>The transmit entry\<close>

lemma sec_info_sta:
  assumes "update_attrib_sec_info c a s = (res, a', s')"
  shows "ts_ps s' = ts_ps s \<and> ts_state s' = ts_state s \<and> pa_ra a' = pa_ra a"
proof -
  have "sec_iv c b a s = (res, a', s') \<Longrightarrow> ts_ps s' = ts_ps s \<and> ts_state s' = ts_state s \<and> pa_ra a' = pa_ra a" for b a s res a' s'
    by (auto simp: sec_iv_def Let_def split: if_splits prod.splits)
  from this show ?thesis using assms
    by (auto simp: update_attrib_sec_info_def Let_def split: if_splits prod.splits)
qed

lemma qos_sta:
  assumes "tx_qos sk c pkt a = Some a'"
  shows "pa_ra a' = pa_ra a"
  using assms by (auto simp: tx_qos_def set_qos_def split: if_splits Option.bind_splits)

lemma phy_sta: "pa_ra (tx_phy_info c a s) = pa_ra a" "\<not> ta_triggered (tx_phy_info c a s)"
  by (simp_all add: tx_phy_info_def Let_def)

lemma class_sta: "ip_class sk rest a = Some a' \<Longrightarrow> pa_ra a' = pa_ra a"
  using ip_class_shape [of sk rest a a'] by auto

lemma attrib_sta_ps:
  assumes "update_attrib_sta sk c pkt rest a1 p s = Some (res, a, c1, acts)"
  obtains s1 where "c1 = tx_put_sta p s1 c" "ts_ps s1 = ts_ps s" "ts_state s1 = ts_state s"
    "res \<noteq> RTW_FAIL \<longrightarrow> ta_psta a = Some (sta_key_addr p) \<and> pa_ra a = pa_ra a1 \<and> \<not> ta_triggered a"
proof -
  let ?a = "a1\<lparr>ta_pktlen := word_of_nat (length rest)\<rparr>"
  obtain a2 where a2: "(if ta_ether_type ?a = 0x0800 then ip_class sk rest ?a else Some ?a) = Some a2"
    using assms unfolding update_attrib_sta_def Let_def
    by (cases "if ta_ether_type ?a = 0x0800 then ip_class sk rest ?a else Some ?a") auto
  obtain r a3 s3 where a3: "update_attrib_sec_info c a2 s = (r, a3, s3)" by (metis prod_cases3)
  note si = sec_info_sta [OF a3]
  have ra: "pa_ra a3 = pa_ra a1"
  proof (cases "ta_ether_type ?a = 0x0800")
    case True
    have "ip_class sk rest ?a = Some a2" using a2 unfolding if_P [OF True] .
    then show ?thesis using class_sta si by fastforce
  next
    case False
    then show ?thesis using a2 si by auto
  qed
  show thesis
  proof (cases "r = RTW_FAIL")
    case True
    then have "c1 = tx_put_sta p s3 c" "res = RTW_FAIL" using assms a2 a3 by (simp_all add: update_attrib_sta_def Let_def)
    then show thesis using that [of s3] si by simp
  next
    case False
    define a4 where "a4 = a3\<lparr>ta_pkt_hdrlen := 14, pa_hdrlen := word_of_nat WLAN_HDR_A3_LEN, ta_subtype := WIFI_DATA_TYPE,
      ta_qos_en := ts_qos_option s3, ta_priority := 0\<rparr>"
    define c3 where "c3 = tx_put_sta p s3 c"
    have "do { a \<leftarrow> tx_qos sk c3 pkt a4;
        Some (RTW_SUCCESS, (tx_phy_info c3 a s3)\<lparr>ta_psta := Some (sta_key_addr p), ta_ack_policy := 0\<rparr>, c3, tx_acts c a2) }
       = Some (res, a, c1, acts)"
      using assms a2 a3 False unfolding update_attrib_sta_def a4_def c3_def Let_def by simp
    then obtain a5 where a5: "tx_qos sk c3 pkt a4 = Some a5" "c1 = c3"
      "a = (tx_phy_info c3 a5 s3)\<lparr>ta_psta := Some (sta_key_addr p), ta_ack_policy := 0\<rparr>"
      by (auto split: Option.bind_splits)
    have "pa_ra a5 = pa_ra a1" using qos_sta [OF a5(1)] ra by (simp add: a4_def)
    then show thesis using that [of s3] si a5(2) phy_sta [of c3 a5 s3] unfolding a5(3) c3_def by simp
  qed
qed

lemma mcast_key: "sta_key_addr (if IS_MCAST p then replicate 6 0xff else p) = sta_key_addr p"
  by (auto simp: sta_key_addr_def)

lemma attrib_ps:
  assumes "update_attrib sk c pkt a0 = Some (res, a, c1, acts)"
  shows "c1 = c \<and> res = RTW_FAIL \<or> (\<exists>k s s1. tc_stas c k = Some s \<and> c1 = tx_put_sta k s1 c \<and> ts_ps s1 = ts_ps s \<and> ts_state s1 = ts_state s
    \<and> ts_state s AND WIFI_ASOC_STATE \<noteq> 0
    \<and> (res \<noteq> RTW_FAIL \<longrightarrow> ta_psta a = Some k \<and> sta_key_addr (pa_ra a) = k \<and> \<not> ta_triggered a))"
proof -
  obtain bs rest where r: "rtw_pktfile_read pkt 14 = (bs, rest)" by fastforce
  define a1 where "a1 = tx_addrs c (array_write bs (sk_eth sk)) a0"
  define p where "p = (if IS_MCAST (pa_ra a1) then replicate 6 0xff else pa_ra a1)"
  have u: "(case tx_get_sta c p of None \<Rightarrow> Some (RTW_FAIL, a1, c, [])
     | Some s \<Rightarrow> if ts_state s AND WIFI_ASOC_STATE = 0 then Some (RTW_FAIL, a1, c, [])
         else update_attrib_sta sk c pkt rest a1 p s) = Some (res, a, c1, acts)"
    using assms r unfolding update_attrib_def Let_def a1_def p_def by simp
  have k: "sta_key_addr (pa_ra a1) = sta_key_addr p" unfolding p_def by (simp add: mcast_key)
  show ?thesis
  proof (cases "c1 = c \<and> res = RTW_FAIL")
    case False
    then obtain s where s: "tx_get_sta c p = Some s" "ts_state s AND WIFI_ASOC_STATE \<noteq> 0"
      "update_attrib_sta sk c pkt rest a1 p s = Some (res, a, c1, acts)"
      using u by (auto split: option.splits if_splits)
    obtain s1 where s1: "c1 = tx_put_sta p s1 c" "ts_ps s1 = ts_ps s" "ts_state s1 = ts_state s"
      "res \<noteq> RTW_FAIL \<longrightarrow> ta_psta a = Some (sta_key_addr p) \<and> pa_ra a = pa_ra a1 \<and> \<not> ta_triggered a"
      using attrib_sta_ps [OF s(3)] .
    have "tc_stas c (sta_key_addr p) = Some s" using s(1) by (simp add: tx_get_sta_def)
    moreover have "c1 = tx_put_sta (sta_key_addr p) s1 c" using s1(1) put_key(1) [OF refl] by simp
    moreover have "res \<noteq> RTW_FAIL \<longrightarrow> ta_psta a = Some (sta_key_addr p) \<and> sta_key_addr (pa_ra a) = sta_key_addr p \<and> \<not> ta_triggered a"
      using s1(4) k by simp
    ultimately show ?thesis using s1(2,3) s(2) by blast
  qed simp
qed

lemma queue_select_props: "fr_of k \<lparr>tf_pkt = n, tf_attr = do_queue_select a\<rparr> \<longleftrightarrow> sta_key_addr (pa_ra a) = k \<and> ta_psta a = Some k"
  "ta_triggered (do_queue_select a) = ta_triggered a"
  by (auto simp: fr_of_def do_queue_select_def Let_def)

text \<open>The frame that a packet becomes.\<close>

definition taken_in :: "tx_stack \<Rightarrow> tx_ctx \<Rightarrow> nat \<Rightarrow> bytes \<Rightarrow> tx_frame \<Rightarrow> tx_frame list" where
  "taken_in sk c n pkt f = (case update_attrib sk c pkt (tf_attr f) of
     Some (res, a, _, _) \<Rightarrow> if res = RTW_FAIL then [] else [\<lparr>tf_pkt = n, tf_attr = do_queue_select a\<rparr>]
   | None \<Rightarrow> [])"

definition for_sta :: "bytes \<Rightarrow> tx_ac \<Rightarrow> tx_frame list \<Rightarrow> nat list" where
  "for_sta k ac fs = map tf_pkt (filter (\<lambda>f. ta_psta (tf_attr f) = Some k \<and> fr_cat f = ac) fs)"

definition grows :: "tx_frame list \<Rightarrow> tx_ctx \<Rightarrow> tx_ctx \<Rightarrow> bool" where
  "grows fs c c' \<longleftrightarrow> ps_inv c' \<and> (\<forall>k ac. k \<noteq> bc_addr \<longrightarrow> waiting c' k ac = waiting c k ac @ for_sta k ac fs)"

lemma grows_steady: "steady a b \<Longrightarrow> grows fs b c \<Longrightarrow> grows fs a c" "steady a b \<Longrightarrow> grows [] a b"
  by (simp_all add: steady_def grows_def for_sta_def)

lemma for_sta_one: "fr_of k f \<Longrightarrow> for_sta l ac [f] = (if l = k \<and> fr_cat f = ac then [tf_pkt f] else [])"
  by (auto simp: for_sta_def fr_of_def)

text \<open>A frame is allocated before its packet is queued, so fewer than \<open>NR_XMITFRAME\<close> wait.\<close>

definition room :: "tx_ctx \<Rightarrow> bool" where
  "room c \<longleftrightarrow> (\<forall>k s. tc_stas c k = Some s \<longrightarrow> k \<noteq> bc_addr \<longrightarrow> queued s < NR_XMITFRAME)"

lemma queued_one:
  assumes "\<forall>ac. length (sta_out s' ac) = length (sta_out s ac) + (if ac = b then 1 else 0)"
  shows "queued s' = queued s + 1"
  using assms unfolding queued_def by (cases b) simp_all

lemma hal_xmit_grows:
  assumes inv: "ps_inv c" and f: "fr_of k f" and s: "tc_stas c k = Some s"
    and aw: "k \<noteq> bc_addr \<longrightarrow> sleep_q s = []" and rm: "room c"
  obtains c' acts where "rtl8188es_hal_xmit busy c f = (False, c', acts)" "grows [f] c c'"
proof -
  note si = ps_invD [OF inv s]
  have a: "ts_state s AND WIFI_ASOC_STATE \<noteq> 0" using si(1) by (simp add: sta_inv_def)
  obtain c' where c': "rtw_xmit_classifier c f = (RTW_SUCCESS, c')"
    "pv c' = (tc_fw_state c, dz_map c, tim_map c, (tc_stas c)(k := Some (sta_enq f s)))"
    using classifier_ok [OF f s a] by blast
  have i: "sta_inv (dz_map c) (tim_map c) k (sta_enq f s)"
  proof (rule sta_inv_like [OF si(1) sta_enq_fields(4)])
    assume kb: "k \<noteq> bc_addr"
    then have lt: "queued s < NR_XMITFRAME" using rm s unfolding room_def by blast
    have "queued (sta_enq f s) = queued s + 1" using aw kb by (intro queued_one [of _ _ "fr_cat f"]) (simp add: sta_out_def)
    then show "(sleep_q (sta_enq f s) \<noteq> [] \<longrightarrow> ts_state s AND WIFI_SLEEP_STATE \<noteq> 0)
      \<and> (\<forall>f' \<in> set (sleep_q (sta_enq f s)). announced s f' \<longrightarrow> rtw_bmp_is_set (tim_map c) (aid8 s))
      \<and> (\<not> ps_has_legacy_ac (ts_ps s) \<longrightarrow> sleepq_ac_len (sta_enq f s) = word_of_nat (length (sleep_q (sta_enq f s))))
      \<and> queued (sta_enq f s) \<le> NR_XMITFRAME"
      using si(1) kb aw lt by (auto simp: sta_inv_def sta_ps_inv_def)
  qed (use si(1) f in \<open>auto simp: sta_inv_def\<close>)
  have "ps_inv c'" by (rule inv_put [OF inv s c'(2) i]) (simp add: like_props [OF sta_enq_fields(4)])
  moreover have "waiting c' l ac = waiting c l ac @ for_sta l ac [f]" if "l \<noteq> bc_addr" for l ac
    using waiting_put [OF c'(2)] waiting_some [OF s] aw that by (auto simp: for_sta_one [OF f] sta_out_def)
  ultimately have "grows [f] c c'" by (simp add: grows_def)
  then show thesis using that c'(1) by (auto simp: rtl8188es_hal_xmit_def rtw_xmitframe_enqueue_def Let_def)
qed

lemma sleeping_grows:
  assumes inv: "ps_inv c" and f: "fr_of k f" "\<not> ta_triggered (tf_attr f)" and s: "tc_stas c k = Some s" and rm: "room c"
    and sl: "sleepy (dz_map c) k s"
  obtains c' acts where "xmitframe_enqueue_for_sleeping_sta c f = (True, f, c', acts)" "grows [f] c c'"
proof -
  note si = ps_invD [OF inv s]
  have a: "ts_state s AND WIFI_ASOC_STATE \<noteq> 0" using si(1) by (simp add: sta_inv_def)
  have ps: "k \<noteq> bc_addr \<Longrightarrow> sta_ps_inv (dz_map c) (tim_map c) s" using si(1) by (simp add: sta_inv_def)
  then have pa: "k \<noteq> bc_addr \<Longrightarrow> tim_fits (tim_map c) (aid8 s) \<and> (\<not> ps_has_legacy_ac (ts_ps s) \<longrightarrow> all_uapsd s)"
    by (simp add: sta_ps_inv_def)
  obtain c' s' acts where c': "xmitframe_enqueue_for_sleeping_sta c f = (True, f, c', acts)" "goes_to_sleep k [f] s s' c c'"
    using sleeping_enqueue [OF si(3) f s a sl pa] by blast
  note g = c'(2) [unfolded goes_to_sleep_def]
  have l: "like s s'" using g by (simp add: sta_add_def)
  have pv': "pv c' = (tc_fw_state c, dz_map c', tim_map c', (tc_stas c)(k := Some s'))" using g by (simp add: pv_def)
  have i: "sta_inv (dz_map c) (tim_map c') k s'"
  proof (rule sta_inv_like [OF _ l])
    show "sta_inv (dz_map c) (tim_map c') k s" using si(1) g unfolding sta_inv_def sta_ps_inv_def grow_def by auto
    show "\<forall>ac. \<forall>f \<in> set (sq_pending (servq s' ac)). fr_of k f \<and> fr_cat f = ac" "\<forall>f \<in> set (sleep_q s'). fr_of k f"
      "sleepq_len s' = word_of_nat (length (sleep_q s'))" using si(1) f(1) g by (auto simp: sta_inv_def sta_add_def)
    assume kb: "k \<noteq> bc_addr"
    then have lt: "queued s < NR_XMITFRAME" using rm s unfolding room_def by blast
    have "queued s' = queued s + 1" using g by (intro queued_one [of _ _ "fr_cat f"]) (auto simp: sta_out_def sta_add_def)
    then show "(sleep_q s' \<noteq> [] \<longrightarrow> ts_state s AND WIFI_SLEEP_STATE \<noteq> 0)
      \<and> (\<forall>f \<in> set (sleep_q s'). announced s f \<longrightarrow> rtw_bmp_is_set (tim_map c') (aid8 s))
      \<and> (\<not> ps_has_legacy_ac (ts_ps s) \<longrightarrow> sleepq_ac_len s' = word_of_nat (length (sleep_q s'))) \<and> queued s' \<le> NR_XMITFRAME"
      using ps [OF kb] sl kb g lt unfolding sta_ps_inv_def sleepy_def sta_add_def grow_def by auto
  qed
  have "ps_inv c'" by (rule to_sleep_inv [OF inv s pv' _ _ l i]) (use g in simp_all)
  moreover have "waiting c' l ac = waiting c l ac @ for_sta l ac [f]" for l ac
    using waiting_put [OF pv'] waiting_some [OF s] g by (auto simp: for_sta_one [OF f(1)] sta_out_def sta_add_def)
  ultimately have "grows [f] c c'" by (simp add: grows_def)
  then show thesis using that c'(1) by blast
qed

lemma awake_passes:
  assumes inv: "ps_inv c" and f: "fr_of k f" "\<not> ta_triggered (tf_attr f)" and s: "tc_stas c k = Some s" and sl: "\<not> sleepy (dz_map c) k s"
  shows "xmitframe_enqueue_for_sleeping_sta c f = (False, f, c, [])" "k \<noteq> bc_addr \<longrightarrow> sleep_q s = []" "xmit_enqueue c f = (False, c)"
proof -
  note si = ps_invD [OF inv s]
  have k: "sta_key_addr (pa_ra (tf_attr f)) = k" "ta_psta (tf_attr f) = Some k" using f(1) by (auto simp: fr_of_def)
  have g: "tx_get_sta c (pa_ra (tf_attr f)) = Some s" "tx_get_sta c k = Some s" using k(1) si(2) s by (simp_all add: tx_get_sta_def)
  show "xmitframe_enqueue_for_sleeping_sta c f = (False, f, c, [])"
    using g IS_MCAST_key [OF k(1)] k f(2) sl by (auto simp: xmitframe_enqueue_for_sleeping_sta_def Let_def sleepy_def dz_set_def)
  show "k \<noteq> bc_addr \<longrightarrow> sleep_q s = []" using si(1) sl by (auto simp: sta_inv_def sta_ps_inv_def sleepy_def)
  show "xmit_enqueue c f = (False, c)" using si(1) g k by (simp add: xmit_enqueue_def sta_inv_def)
qed

lemma frame_grows:
  assumes inv: "ps_inv c" and f: "fr_of k f" "\<not> ta_triggered (tf_attr f)" and s: "tc_stas c k = Some s" and rm: "room c"
  shows "\<exists>q c1 a1. xmitframe_enqueue_for_sleeping_sta c f = (q, f, c1, a1) \<and>
    (if q then grows [f] c c1 else c1 = c \<and> xmit_enqueue c f = (False, c) \<and> (\<exists>c2 a2. rtl8188es_hal_xmit busy c f = (False, c2, a2) \<and> grows [f] c c2))"
proof (cases "sleepy (dz_map c) k s")
  case True
  then show ?thesis using sleeping_grows [OF inv f s rm] by (metis (full_types))
next
  case False
  note w = awake_passes [OF inv f s False]
  show ?thesis using hal_xmit_grows [OF inv f(1) s w(2) rm, of busy] w(1,3) by (metis (full_types))
qed

lemma room_same:
  assumes "room c" "tc_stas c k = Some s" "c1 = tx_put_sta k s1 c" "ts_ps s1 = ts_ps s" "sta_key_addr k = k"
  shows "room c1"
proof -
  have "queued s1 = queued s" using assms(4) by (intro queued_cong) (simp add: sta_out_def)
  then show ?thesis using assms(1,2,5) by (auto simp: room_def assms(3))
qed

lemma posthandle_grows:
  assumes inv: "ps_inv c" and rm: "room c" and r: "rtw_xmit_posthandle sk busy c n pkt f = Some (r, c', tacts, acts)"
  shows "grows (taken_in sk c n pkt f) c c'"
proof -
  obtain res a c1 ta where u: "update_attrib sk c pkt (tf_attr f) = Some (res, a, c1, ta)"
    using r unfolding rtw_xmit_posthandle_def by (cases "update_attrib sk c pkt (tf_attr f)") auto
  have st1: "steady c c1"
    using attrib_ps [OF u]
  proof (elim disjE exE conjE)
    fix k s s1
    assume s: "tc_stas c k = Some s" "c1 = tx_put_sta k s1 c" "ts_ps s1 = ts_ps s" "ts_state s1 = ts_state s"
    have "ts_ps s1 = (ts_ps s)\<lparr>ps_expire_to := ps_expire_to (ts_ps s)\<rparr>" using s(3) by simp
    then show "steady c c1" unfolding s(2) by (rule state_change_steady(1) [OF inv s(1)]) (simp_all add: s(4))
  qed (simp add: steady_refl [OF inv])
  show ?thesis
  proof (cases "res = RTW_FAIL")
    case True
    then have "c' = c1" "taken_in sk c n pkt f = []" using r u by (simp_all add: rtw_xmit_posthandle_def taken_in_def)
    then show ?thesis using grows_steady(2) [OF st1] by simp
  next
    case False
    define g where "g = \<lparr>tf_pkt = n, tf_attr = do_queue_select a\<rparr>"
    obtain k s s1 where k: "tc_stas c k = Some s" "c1 = tx_put_sta k s1 c" "ta_psta a = Some k" "sta_key_addr (pa_ra a) = k" "\<not> ta_triggered a"
      "ts_ps s1 = ts_ps s" using attrib_ps [OF u] False by blast
    have rm1: "room c1" by (rule room_same [OF rm k(1,2,6) ps_invD(2) [OF inv k(1)]])
    have f: "fr_of k g" "\<not> ta_triggered (tf_attr g)" using k queue_select_props by (simp_all add: g_def)
    have s1: "tc_stas c1 k = Some s1" using k(2) ps_invD(2) [OF inv k(1)] by simp
    obtain q c2 a2 where q: "xmitframe_enqueue_for_sleeping_sta c1 g = (q, g, c2, a2)"
      "if q then grows [g] c1 c2 else c2 = c1 \<and> xmit_enqueue c1 g = (False, c1) \<and> (\<exists>c3 a3. rtl8188es_hal_xmit busy c1 g = (False, c3, a3) \<and> grows [g] c1 c3)"
      using frame_grows [OF steady_inv [OF st1] f s1 rm1] by blast
    have acc: "taken_in sk c n pkt f = [g]" using u False by (simp add: taken_in_def g_def)
    have "grows [g] c1 c'"
      using r u q False by (cases q) (auto simp: rtw_xmit_posthandle_def Let_def simp flip: g_def)
    then show ?thesis unfolding acc using grows_steady(1) [OF st1] by blast
  qed
qed

section \<open>The SDIO host\<close>

definition shrinks :: "tx_frame list \<Rightarrow> tx_ctx \<Rightarrow> tx_ctx \<Rightarrow> bool" where
  "shrinks fs c c' \<longleftrightarrow> ps_inv c' \<and> (\<forall>k ac. k \<noteq> bc_addr \<longrightarrow> waiting c k ac = for_sta k ac fs @ waiting c' k ac)"

lemma shrinks_trans: "shrinks fs a b \<Longrightarrow> shrinks gs b c \<Longrightarrow> shrinks (fs @ gs) a c"
  by (simp add: shrinks_def for_sta_def)

lemma shrinks_steady: "steady a b \<Longrightarrow> shrinks [] a b" "shrinks fs a b \<Longrightarrow> steady b c \<Longrightarrow> shrinks fs a c"
  by (simp_all add: shrinks_def steady_def for_sta_def)

lemma take_shrinks:
  assumes inv: "ps_inv c" and s: "tx_get_sta c p = Some s" and fs: "sq_pending (servq s ac) = f # fs"
  shows "shrinks [f] c (take_frame p ac c)"
    "\<exists>s'. tx_get_sta (take_frame p ac c) p = Some s' \<and> sq_pending (servq s' ac) = fs"
proof -
  let ?k = "sta_key_addr p"
  have sk: "tc_stas c ?k = Some s" using s by (simp add: tx_get_sta_def)
  note si = ps_invD [OF inv sk]
  define s' where "s' = upd_servq ac (\<lambda>q. \<lparr>sq_pending = tl (sq_pending q), sq_qcnt = sq_qcnt q - 1\<rparr>) s"
  have pv': "pv (take_frame p ac c) = (tc_fw_state c, dz_map c, tim_map c, (tc_stas c)(?k := Some s'))"
    using s by (simp add: take_frame_def upd_sta_some s'_def)
  have p': "sq_pending (servq s' b) = (if b = ac then fs else sq_pending (servq s b))" for b
    using fs by (simp add: s'_def upd_servq_def upd_ps_def)
  have r': "sleep_q s' = sleep_q s" "sleepq_len s' = sleepq_len s" "sleepq_ac_len s' = sleepq_ac_len s" "like s s'"
    by (simp_all add: s'_def upd_servq_def like_def)
  have fr: "\<forall>b. \<forall>g \<in> set (sq_pending (servq s b)). fr_of ?k g \<and> fr_cat g = b" using si(1) by (simp add: sta_inv_def)
  have i: "sta_inv (dz_map c) (tim_map c) ?k s'"
  proof (rule sta_inv_like [OF si(1) r'(4)])
    show "\<forall>b. \<forall>g \<in> set (sq_pending (servq s' b)). fr_of ?k g \<and> fr_cat g = b" unfolding p' using fr fs by (metis list.set_intros(2))
    have "queued s' \<le> queued s" unfolding queued_def sta_out_def p' r'(1) using fs by (cases ac) simp_all
    then show "(sleep_q s' \<noteq> [] \<longrightarrow> ts_state s AND WIFI_SLEEP_STATE \<noteq> 0)
      \<and> (\<forall>f \<in> set (sleep_q s'). announced s f \<longrightarrow> rtw_bmp_is_set (tim_map c) (aid8 s))
      \<and> (\<not> ps_has_legacy_ac (ts_ps s) \<longrightarrow> sleepq_ac_len s' = word_of_nat (length (sleep_q s'))) \<and> queued s' \<le> NR_XMITFRAME"
      if "?k \<noteq> bc_addr" using si(1) that r'(1,3) by (auto simp: sta_inv_def sta_ps_inv_def)
  qed (use si(1) r' in \<open>simp_all add: sta_inv_def\<close>)
  have f: "fr_of ?k f" "fr_cat f = ac" using fr fs by (metis list.set_intros(1))+
  have "waiting c l b = for_sta l b [f] @ waiting (take_frame p ac c) l b" for l b
    using waiting_put [OF pv'] waiting_some [OF sk] fs f(2) by (auto simp: for_sta_one [OF f(1)] sta_out_def p' r'(1))
  then show "shrinks [f] c (take_frame p ac c)"
    unfolding shrinks_def using inv_put [OF inv sk pv' i] like_props(6) [OF r'(4)] by blast
  have "tc_stas (take_frame p ac c) ?k = Some s'" using pv' by (simp add: pv_def)
  then show "\<exists>s'. tx_get_sta (take_frame p ac c) p = Some s' \<and> sq_pending (servq s' ac) = fs"
    using p' by (auto simp: tx_get_sta_def)
qed

text \<open>Building a frame counts the sequence numbers of its station and leaves the queues alone.\<close>

lemma wlanhdr_sta:
  assumes "rtw_make_wlanhdr c a = Some (res, h, a', c')"
  shows "c' = c \<or> (\<exists>s s'. tx_get_sta c (pa_ra a) = Some s \<and> c' = tx_put_sta (pa_ra a) s' c \<and> ts_ps s' = ts_ps s \<and> ts_state s' = ts_state s)"
proof (rule disjCI)
  assume no: "\<not> (\<exists>s s'. tx_get_sta c (pa_ra a) = Some s \<and> c' = tx_put_sta (pa_ra a) s' c \<and> ts_ps s' = ts_ps s \<and> ts_state s' = ts_state s)"
  have q: "ts_ps s' = ts_ps s \<and> ts_state s' = ts_state s \<and> pa_ra a' = pa_ra a" if "tx_next_seq a s = Some (a', s')" for a s a' s'
    using that by (auto simp: tx_next_seq_def Let_def split: Option.bind_splits)
  have p: "ts_ps s' = ts_ps s \<and> ts_state s' = ts_state s \<and> pa_ra a' = pa_ra a" if "tx_ampdu a s = Some (a', s')" for a s a' s'
    using that by (auto simp: tx_ampdu_def Let_def split: Option.bind_splits if_splits)
  show "c' = c"
  proof (cases "tx_get_sta c (pa_ra a)")
    case None
    then show ?thesis using assms unfolding rtw_make_wlanhdr_def Let_def by (auto split: if_splits option.splits prod.splits)
  next
    case (Some s)
    have "c' = tx_put_sta (pa_ra a2) s2 c \<Longrightarrow> tx_next_seq a s = Some (a1, s1) \<Longrightarrow> tx_ampdu a1 s1 = Some (a2, s2) \<Longrightarrow> False"
      for a1 s1 a2 s2 using no Some q [of a s a1 s1] p [of a1 s1 a2 s2] by auto
    then show ?thesis using assms Some unfolding rtw_make_wlanhdr_def Let_def
      by (auto split: if_splits option.splits prod.splits Option.bind_splits)
  qed
qed

lemma coalesce_steady:
  assumes inv: "ps_inv c" and co: "rtw_xmitframe_coalesce init c pkt a (Some b) = Some (res, c', a', b')"
  shows "steady c c'" "tx_get_sta c p = Some s \<Longrightarrow> \<exists>s'. tx_get_sta c' p = Some s' \<and> ts_ps s' = ts_ps s"
proof -
  obtain r h a1 c1 where m: "rtw_make_wlanhdr c a = Some (r, h, a1, c1)"
    using co unfolding rtw_xmitframe_coalesce_def by (cases "rtw_make_wlanhdr c a") (auto split: prod.splits)
  have v: "pv c' = pv c1" "tc_stas c' = tc_stas c1"
    using co m unfolding rtw_xmitframe_coalesce_def Let_def by (auto simp: pv_def split: prod.splits Option.bind_splits if_splits)
  have st: "steady c c1 \<and> (\<forall>s. tx_get_sta c p = Some s \<longrightarrow> (\<exists>s'. tx_get_sta c1 p = Some s' \<and> ts_ps s' = ts_ps s))"
    using wlanhdr_sta [OF m]
  proof (elim disjE exE conjE)
    fix s s'
    assume s: "tx_get_sta c (pa_ra a) = Some s" "c1 = tx_put_sta (pa_ra a) s' c" "ts_ps s' = ts_ps s" "ts_state s' = ts_state s"
    have k: "tc_stas c (sta_key_addr (pa_ra a)) = Some s" using s(1) by (simp add: tx_get_sta_def)
    have c1: "c1 = tx_put_sta (sta_key_addr (pa_ra a)) s' c" using s(2) put_key(1) [OF refl] by simp
    have "ts_ps s' = (ts_ps s)\<lparr>ps_expire_to := ps_expire_to (ts_ps s)\<rparr>" using s(3) by simp
    from state_change_steady(1) [OF inv k this] s(4) have "steady c c1" unfolding c1 by simp
    then show ?thesis using s by (auto simp: tx_get_sta_def tx_put_sta_def)
  qed (simp add: steady_refl [OF inv])
  then show "steady c c'" using steady_trans steady_view [OF steady_inv v(1)] by blast
  show "tx_get_sta c p = Some s \<Longrightarrow> \<exists>s'. tx_get_sta c' p = Some s' \<and> ts_ps s' = ts_ps s"
    using st by (simp add: tx_get_sta_def v(2))
qed

text \<open>From one state of the loops to another, the frames built meanwhile were taken from the queues.\<close>

definition takes :: "xmit_loop \<Rightarrow> xmit_loop \<Rightarrow> bool" where
  "takes a b \<longleftrightarrow> (\<exists>acts. xl_acts b = xl_acts a @ acts \<and> shrinks (frames_taken acts) (xl_c a) (xl_c b))"

lemma takes_trans: "takes a b \<Longrightarrow> takes b c \<Longrightarrow> takes a c"
  unfolding takes_def using shrinks_trans by (metis append.assoc frames_taken_simps(3))

lemma takes_inv: "takes a b \<Longrightarrow> ps_inv (xl_c b)"
  by (auto simp: takes_def shrinks_def)

lemma takes_same:
  assumes "ps_inv (xl_c a)" "pv (xl_c b) = pv (xl_c a)" "xl_acts b = xl_acts a @ acts" "frames_taken acts = []"
  shows "takes a b"
  using assms shrinks_steady(1) [OF steady_view [OF assms(1,2)]] by (auto simp: takes_def)

lemma takes_refl: "ps_inv (xl_c a) \<Longrightarrow> takes a a"
  by (rule takes_same [where acts = "[]"]) simp_all

lemma next_buf_same:
  assumes "next_buf single st = (stop, st')"
  shows "xl_c st' = xl_c st \<and> (\<exists>acts. xl_acts st' = xl_acts st @ acts \<and> frames_taken acts = [])"
proof -
  have "xl_c st' = xl_c st \<and> (\<exists>acts. xl_acts st' = xl_acts st @ acts \<and> frames_taken acts = [])"
    if "flush_buf single b st = (stop, st')" for b stop st'
    using that by (auto simp: flush_buf_def finish_buf_def Let_def split: option.splits if_splits)
  then show ?thesis
    using assms unfolding next_buf_def Let_def by (fastforce split: option.splits prod.splits if_splits)
qed

lemma send_frame_takes:
  assumes inv: "ps_inv (xl_c st)" and s: "tx_get_sta (xl_c st) p = Some s" and fs: "sq_pending (servq s ac) = f # fs"
    and st': "send_frame env p ac f st = Some st'"
  shows "takes st st'" "\<exists>s'. tx_get_sta (xl_c st') p = Some s' \<and> sq_pending (servq s' ac) = fs"
proof -
  let ?c = "take_frame p ac (xl_c st)"
  note t = take_shrinks [OF inv s fs]
  have inv': "ps_inv ?c" using t(1) by (simp add: shrinks_def)
  obtain b where b: "xl_buf st = Some b" using st' by (cases "xl_buf st") (simp_all add: send_frame_def)
  obtain res c a bo where co: "rtw_xmitframe_coalesce (xe_mic env) ?c (xe_pkts env (tf_pkt f)) (tf_attr f)
      (Some (xb_phead b + xb_ptail b, drop (xb_ptail b) (xb_mem b))) = Some (res, c, a, bo)"
    using st' b unfolding send_frame_def Let_def by (auto split: Option.bind_splits if_splits)
  note cs = coalesce_steady [OF inv' co]
  have "xl_c st' = c \<and> (\<exists>acts. xl_acts st' = xl_acts st @ acts \<and> frames_taken acts = [f])"
    using st' b co unfolding send_frame_def Let_def by (auto split: if_splits)
  then show "takes st st'" using shrinks_steady(2) [OF t(1) cs(1)] by (auto simp: takes_def)
  show "\<exists>s'. tx_get_sta (xl_c st') p = Some s' \<and> sq_pending (servq s' ac) = fs"
    using t(2) cs(2) \<open>xl_c st' = c \<and> _\<close> by metis
qed

lemma frame_loop_takes:
  assumes "frame_loop env m single p ac fs st = Some st'" "ps_inv (xl_c st)"
    "tx_get_sta (xl_c st) p = Some s" "sq_pending (servq s ac) = fs"
  shows "takes st st'"
  using assms
proof (induction fs arbitrary: st s)
  case (Cons f fs)
  obtain stop st1 where n: "(if buf_needed env m (tf_attr f) st then next_buf single st else (False, st)) = (stop, st1)" by fastforce
  have t1: "takes st st1" "xl_c st1 = xl_c st"
    using n next_buf_same [of single st stop st1] takes_same [OF Cons.prems(2), of st1] takes_refl [OF Cons.prems(2)]
    by (auto split: if_splits)
  show ?case
  proof (cases stop)
    case False
    then obtain st2 where st2: "send_frame env p ac f st1 = Some st2" "frame_loop env m single p ac fs st2 = Some st'"
      using Cons.prems(1) n by (auto split: Option.bind_splits)
    have i: "ps_inv (xl_c st1)" "tx_get_sta (xl_c st1) p = Some s" using Cons.prems(2,3) t1(2) by simp_all
    note f = send_frame_takes [OF i Cons.prems(4) st2(1)]
    from f(2) obtain s' where "tx_get_sta (xl_c st2) p = Some s'" "sq_pending (servq s' ac) = fs" by blast
    from Cons.IH [OF st2(2) takes_inv [OF f(1)] this] show ?thesis using takes_trans t1(1) f(1) by blast
  qed (use Cons.prems(1) n t1(1) in simp)
qed (simp add: takes_refl)

lemma sta_loop_takes: "sta_loop env m single ac ps st = Some st' \<Longrightarrow> ps_inv (xl_c st) \<Longrightarrow> takes st st'"
proof (induction ps arbitrary: st)
  case (Cons p ps)
  then obtain s st1 where s: "tx_get_sta (xl_c st) p = Some s" "frame_loop env m single p ac (sq_pending (servq s ac)) st = Some st1"
    by (auto split: option.splits Option.bind_splits)
  have t1: "takes st st1" by (rule frame_loop_takes [OF s(2) Cons.prems(2) s(1) refl])
  have t2: "takes st1 (sta_done p ac st1)"
    by (rule takes_same [OF takes_inv [OF t1], where acts = "[]"]) (simp_all add: sta_done_def split: option.split)
  have r: "(if xl_err (sta_done p ac st1) \<noteq> XMIT_OK then Some (sta_done p ac st1)
      else sta_loop env m single ac ps (sta_done p ac st1)) = Some st'"
    using Cons.prems(1) s by (simp add: Let_def)
  show ?case
  proof (cases "xl_err (sta_done p ac st1) = XMIT_OK")
    case True
    then have "takes (sta_done p ac st1) st'" using r Cons.IH takes_inv [OF t2] by simp
    then show ?thesis using takes_trans t1 t2 by blast
  next
    case False
    then show ?thesis using r takes_trans t1 t2 by auto
  qed
qed (simp add: takes_refl)

lemma ac_loop_takes: "ac_loop env acs st = Some st' \<Longrightarrow> ps_inv (xl_c st) \<Longrightarrow> takes st st'"
proof (induction acs arbitrary: st)
  case (Cons ac acs)
  let ?st = "st\<lparr>xl_consume := 0\<rparr>" and ?h = "hwx (xl_c st) ac"
  have t0: "takes st ?st" by (rule takes_same [OF Cons.prems(2), where acts = "[]"]) simp_all
  show ?case
  proof (cases "check_pending_xmitbuf (xl_pool st) \<and> xe_busy env \<and> hx_accnt ?h > 0 \<and> hx_accnt ?h < 5")
    case True
    then have "st' = ?st\<lparr>xl_err := RTW_TX_WAIT_MORE_FRAME\<rparr>" using Cons.prems(1) by (simp add: Let_def)
    then show ?thesis by (intro takes_same [OF Cons.prems(2), where acts = "[]"]) simp_all
  next
    case False
    let ?sema = "\<lambda>st. st\<lparr>xl_pool := (xl_pool st)\<lparr>xp_free_sema := xp_free_sema (xl_pool st) - xl_consume st\<rparr>\<rparr>"
    obtain m st1 st2 where st: "sta_loop env m (length (hx_stas ?h) \<le> 1) ac (hx_stas ?h) ?st = Some st1"
      "dump_buf (?sema st1) = Some st2" "(if xl_err st2 = RTW_XBUF_UNAVAIL then Some st2 else ac_loop env acs st2) = Some st'"
      using Cons.prems(1) False unfolding ac_loop.simps Let_def if_not_P [OF False] by (auto split: Option.bind_splits)
    have t1: "takes ?st st1" by (rule sta_loop_takes [OF st(1)]) (simp add: Cons.prems(2))
    have "xl_c st2 = xl_c st1 \<and> (\<exists>acts. xl_acts st2 = xl_acts st1 @ acts \<and> frames_taken acts = [])"
      using st(2) by (auto simp: dump_buf_def finish_buf_def Let_def split: option.splits if_splits)
    then have t2: "takes st1 st2" using takes_same [OF takes_inv [OF t1]] by auto
    have "takes st2 st'"
      using st(3) Cons.IH [OF _ takes_inv [OF t2]] takes_refl [OF takes_inv [OF t2]] by (auto split: if_splits)
    then show ?thesis using takes_trans t0 t1 t2 by blast
  qed
qed (simp add: takes_refl)

lemma xmit_shrinks:
  assumes "ps_inv c" "xmit_xmitframes env c q = Some (err, c', q', acts)"
  shows "shrinks (frames_taken acts) c c'"
proof -
  obtain acs st st' where "ac_loop env acs st = Some st'" "xl_c st = c" "xl_acts st = []" "c' = xl_c st'" "acts = xl_acts st'"
    using assms(2) unfolding xmit_xmitframes_def by (auto split: Option.bind_splits)
  then show ?thesis using ac_loop_takes [of env acs st st'] assms(1) by (simp add: takes_def)
qed

section \<open>The run of an access point\<close>

text \<open>
  The steps: a packet to send, the power management bit, a trigger frame and a control frame of a station, the commands for
  group frames, and a turn of the thread of the SDIO host. \<open>ins\<close> are the frames accepted so far, \<open>outs\<close> those the host took.
\<close>

inductive ap_run :: "tx_ctx \<Rightarrow> tx_frame list \<Rightarrow> tx_frame list \<Rightarrow> tx_ctx \<Rightarrow> bool" for c0 :: tx_ctx where
  run_start: "ap_run c0 [] [] c0"
| run_submit: "ap_run c0 ins outs c \<Longrightarrow> room c \<Longrightarrow> rtw_xmit_posthandle sk busy c n pkt f = Some (r, c', tacts, acts) \<Longrightarrow>
    ap_run c0 (ins @ taken_in sk c n pkt f) outs c'"
| run_pwrbit: "ap_run c0 ins outs c \<Longrightarrow> sta_key_addr p \<noteq> bc_addr \<Longrightarrow> process_pwrbit_data c p b = Some (c', acts) \<Longrightarrow> ap_run c0 ins outs c'"
| run_trigger: "ap_run c0 ins outs c \<Longrightarrow> process_wmmps_data c p up = Some (c', acts) \<Longrightarrow> ap_run c0 ins outs c'"
| run_ctrl: "ap_run c0 ins outs c \<Longrightarrow>
    validate_recv_ctrl_frame c (ctrls :: bytes \<Rightarrow> nat reorder_ctrl list) pframe up = Some (c', ctrls', acts) \<Longrightarrow> ap_run c0 ins outs c'"
| run_bmc: "ap_run c0 ins outs c \<Longrightarrow> ap_run c0 ins outs (fst (chk_bmc_sleepq_hdl c))"
| run_hiq: "ap_run c0 ins outs c \<Longrightarrow> ap_run c0 ins outs (fst (rtw_chk_hi_queue_hdl e c))"
| run_ap_bmc: "ap_run c0 ins outs c \<Longrightarrow> ap_run c0 ins outs (fst (rtw_ap_bmc_frames_hdl c))"
| run_send: "ap_run c0 ins outs c \<Longrightarrow> xmit_xmitframes env c q = Some (err, c', q', acts) \<Longrightarrow>
    ap_run c0 ins (outs @ frames_taken acts) c'"

lemma for_sta_append [simp]: "for_sta k ac (xs @ ys) = for_sta k ac xs @ for_sta k ac ys"
  by (simp add: for_sta_def)

definition in_order :: "tx_ctx \<Rightarrow> tx_frame list \<Rightarrow> tx_frame list \<Rightarrow> tx_ctx \<Rightarrow> bool" where
  "in_order c0 ins outs c \<longleftrightarrow> ps_inv c \<and>
     (\<forall>k ac. k \<noteq> bc_addr \<longrightarrow> for_sta k ac outs @ waiting c k ac = waiting c0 k ac @ for_sta k ac ins)"

lemma in_order_inv: "in_order c0 ins outs c \<Longrightarrow> ps_inv c"
  by (simp add: in_order_def)

lemma in_order_step:
  assumes "in_order c0 ins outs c"
  shows "steady c c' \<Longrightarrow> in_order c0 ins outs c'" "grows fs c c' \<Longrightarrow> in_order c0 (ins @ fs) outs c'"
    "shrinks fs c c' \<Longrightarrow> in_order c0 ins (outs @ fs) c'"
  using assms by (simp_all add: in_order_def steady_def grows_def shrinks_def)

lemma run_in_order:
  assumes "ap_run c0 ins outs c" "ps_inv c0"
  shows "in_order c0 ins outs c"
  using assms
proof (induction rule: ap_run.induct)
  case run_start
  then show ?case by (simp add: in_order_def for_sta_def)
next
  case (run_submit ins outs c sk busy n pkt f r c' tacts acts)
  then have i: "in_order c0 ins outs c" by blast
  show ?case by (rule in_order_step(2) [OF i posthandle_grows [OF in_order_inv [OF i] run_submit.hyps(2,3)]])
next
  case (run_pwrbit ins outs c p b c' acts)
  then have i: "in_order c0 ins outs c" by blast
  show ?case by (rule in_order_step(1) [OF i pwrbit_steady [OF in_order_inv [OF i] run_pwrbit.hyps(2,3)]])
next
  case (run_trigger ins outs c p up c' acts)
  then have i: "in_order c0 ins outs c" by blast
  show ?case by (rule in_order_step(1) [OF i wmmps_steady [OF in_order_inv [OF i] run_trigger.hyps(2)]])
next
  case (run_ctrl ins outs c ctrls pframe up c' ctrls' acts)
  then have i: "in_order c0 ins outs c" by blast
  show ?case by (rule in_order_step(1) [OF i ctrl_frame_steady [OF in_order_inv [OF i] run_ctrl.hyps(2)]])
next
  case (run_bmc ins outs c)
  then have i: "in_order c0 ins outs c" by blast
  show ?case by (rule in_order_step(1) [OF i chk_bmc_steady [OF in_order_inv [OF i]]])
next
  case (run_hiq ins outs c e)
  then have i: "in_order c0 ins outs c" by blast
  show ?case by (rule in_order_step(1) [OF i chk_hi_queue_steady [OF in_order_inv [OF i]]])
next
  case (run_ap_bmc ins outs c)
  then have i: "in_order c0 ins outs c" by blast
  show ?case by (rule in_order_step(1) [OF i ap_bmc_steady [OF in_order_inv [OF i]]])
next
  case (run_send ins outs c env q err c' q' acts)
  then have i: "in_order c0 ins outs c" by blast
  show ?case by (rule in_order_step(3) [OF i xmit_shrinks [OF in_order_inv [OF i] run_send.hyps(2)]])
qed

end
