(* ===== verification/PsRun.thy ===== *)
theory PsRun
  imports PsFifo
begin

text \<open>
  What the run of an access point shows: the order of the packets of each station, the queues they are in, and what the
  beacon announces; with a run for the witnesses.
\<close>

section \<open>The properties\<close>

text \<open>C7: An access point sends the packets for a station in the order in which they were accepted, in each
  access category, whatever the station does in between: going to sleep and waking up, PS-Polls and trigger frames lose
  no packet, send none twice and change no order. The packets that the thread of the SDIO host took out of the queues
  (\<open>xmit_xmitframes\<close>, which builds them into transmit buffers and drops one that cannot be built), followed by those that
  wait, are those that waited at the start, followed by those accepted.\<close>

theorem frames_in_order:
  assumes "ap_run c0 ins outs c" "ps_inv c0" "k \<noteq> bc_addr"
  shows "for_sta k ac outs @ waiting c k ac = waiting c0 k ac @ for_sta k ac ins"
  using run_in_order [OF assms(1,2)] assms(3) by (simp add: in_order_def)

text \<open>C8: In each state of a run of an access point, a station that has frames in its sleep queue is
  asleep and its number is in the bitmap of sleeping stations, and the beacon announces the station: with U-APSD for all
  access categories if there is any frame, otherwise if there is one of a category that is not delivery enabled.\<close>

theorem buffered_announced:
  assumes "ap_run c0 ins outs c" "ps_inv c0" "tc_stas c k = Some s" "k \<noteq> bc_addr" "f \<in> set (sleep_q s)"
  shows "ts_state s AND WIFI_SLEEP_STATE \<noteq> 0 \<and> dz_set c (aid8 s)
    \<and> (ps_has_legacy_ac (ts_ps s) \<and> wmmps_ac s (ta_priority (tf_attr f)) 0 \<or> tim_set c (aid8 s))"
proof -
  have "ps_inv c" using run_in_order [OF assms(1,2)] by (rule in_order_inv)
  then have "sta_ps_inv (dz_map c) (tim_map c) s" using ps_invD(1) [OF _ assms(3)] assms(4) by (simp add: sta_inv_def)
  then show ?thesis using assms(5) by (auto simp: sta_ps_inv_def announced_def dz_set_def tim_set_def)
qed

text \<open>C9: In each state of a run of an access point, each frame in a queue of a station is one for this station,
  found by its receiver address; the frames of the SDIO host's queue of a category have a priority of this category; and the
  length that is counted for the sleep queue is its length.\<close>

theorem queues_typed:
  assumes "ap_run c0 ins outs c" "ps_inv c0" "tc_stas c k = Some s"
  shows "(\<forall>ac. \<forall>f \<in> set (sq_pending (servq s ac)). fr_of k f \<and> fr_cat f = ac) \<and> (\<forall>f \<in> set (sleep_q s). fr_of k f)
    \<and> sleepq_len s = word_of_nat (length (sleep_q s))"
proof -
  have "ps_inv c" using run_in_order [OF assms(1,2)] by (rule in_order_inv)
  then show ?thesis using ps_invD(1) [OF _ assms(3)] by (simp add: sta_inv_def)
qed

section \<open>A run\<close>

text \<open>The access point 02:00:00:00:00:09 and the station 02:00:00:00:00:07, which does not use U-APSD.\<close>

abbreviation demo_key :: bytes where "demo_key \<equiv> [2, 0, 0, 0, 0, 7]"

definition demo_ap :: tx_ctx where
  "demo_ap = demo_tx_ctx\<lparr>tc_fw_state := 0x11, tc_hwaddr := [2, 0, 0, 0, 0, 9],
     tc_ps := demo_ps_ctx\<lparr>pc_sta_dz_bitmap := [2, 0]\<rparr>,
     tc_stas := (\<lambda>a. if a = demo_key then Some (demo_tx_sta\<lparr>ts_state := 5\<rparr>)
                     else if a = bc_addr then Some (demo_tx_sta\<lparr>ts_ps := demo_ps_sta\<lparr>ps_aid := 0\<rparr>\<rparr>) else None)\<rparr>"

definition demo_alloc :: tx_frame where "demo_alloc = \<lparr>tf_pkt = 0, tf_attr = demo_tx_attrib\<rparr>"

text \<open>A packet comes while the station sleeps.\<close>

definition demo_ap1 :: tx_ctx where
  "demo_ap1 = (case rtw_xmit_posthandle demo_stack False demo_ap 1 demo_pkt demo_alloc of Some (_, c, _, _) \<Rightarrow> c | None \<Rightarrow> demo_ap)"

lemma demo_dz: "rtw_bmp_is_set [2, 0] 1"
  by code_simp

lemma demo_bc: "demo_key \<noteq> bc_addr"
  by code_simp

lemma demo_ap_sta:
  "tc_stas demo_ap k = (if k = demo_key then Some (demo_tx_sta\<lparr>ts_state := 5\<rparr>)
     else if k = bc_addr then Some (demo_tx_sta\<lparr>ts_ps := demo_ps_sta\<lparr>ps_aid := 0\<rparr>\<rparr>) else None)"
  by (simp add: demo_ap_def)

lemma demo_sta_inv: "sta_inv [2, 0] [0, 0] demo_key (demo_tx_sta\<lparr>ts_state := 5\<rparr>)"
  using demo_dz
  by (simp add: demo_bc sta_inv_def sta_ps_inv_def demo_tx_sta_def demo_ps_sta_def WIFI_ASOC_STATE_def WIFI_SLEEP_STATE_def aid8_def tim_fits_def
      queued_def sta_out_def)

lemma demo_bc_inv: "sta_inv [2, 0] [0, 0] bc_addr (demo_tx_sta\<lparr>ts_ps := demo_ps_sta\<lparr>ps_aid := 0\<rparr>\<rparr>)"
  by (simp add: sta_inv_def demo_tx_sta_def demo_ps_sta_def WIFI_ASOC_STATE_def aid8_def)

lemma demo_ap_inv: "ps_inv demo_ap"
proof -
  have m: "dz_map demo_ap = [2, 0]" "tim_map demo_ap = [0, 0]" "tc_fw_state demo_ap = 0x11"
    by (simp_all add: demo_ap_def demo_ps_ctx_def)
  have k: "sta_key_addr demo_key = demo_key" by code_simp
  have "aids_distinct (tc_stas demo_ap)" by (simp add: aids_distinct_def demo_ap_sta)
  moreover have "check_fwstate 0x11 WIFI_AP_STATE" by (simp add: check_fwstate_def WIFI_AP_STATE_def)
  ultimately show ?thesis
    unfolding ps_inv_def pv_def view_inv.simps m using demo_sta_inv demo_bc_inv k sta_key_bc by (simp add: demo_ap_sta)
qed

lemma demo_room: "room demo_ap"
  by (simp add: room_def demo_ap_sta demo_tx_sta_def demo_ps_sta_def queued_def sta_out_def NR_XMITFRAME_def)

lemma demo_run: "ap_run demo_ap (taken_in demo_stack demo_ap 1 demo_pkt demo_alloc) [] demo_ap1"
proof -
  have "rtw_xmit_posthandle demo_stack False demo_ap 1 demo_pkt demo_alloc \<noteq> None" by code_simp
  then obtain r t a where "rtw_xmit_posthandle demo_stack False demo_ap 1 demo_pkt demo_alloc = Some (r, demo_ap1, t, a)"
    unfolding demo_ap1_def by auto
  from run_submit [OF run_start demo_room this] show ?thesis by simp
qed

lemma demo_sleeping:
  "\<exists>s f. tc_stas demo_ap1 demo_key = Some s \<and> f \<in> set (sleep_q s) \<and> ps_has_legacy_ac (ts_ps s) \<and> \<not> wmmps_ac s (ta_priority (tf_attr f)) 0"
proof -
  have "(case tc_stas demo_ap1 demo_key of None \<Rightarrow> False
    | Some s \<Rightarrow> (case sleep_q s of [] \<Rightarrow> False | f # _ \<Rightarrow> ps_has_legacy_ac (ts_ps s) \<and> \<not> wmmps_ac s (ta_priority (tf_attr f)) 0))"
    by code_simp
  then show ?thesis by (auto split: option.splits list.splits)
qed

text \<open>The same with the station awake, and a turn of the thread with one buffer that sends the packet.\<close>

definition demo_awake :: tx_ctx where
  "demo_awake = demo_ap\<lparr>tc_ps := demo_ps_ctx\<lparr>pc_sta_dz_bitmap := [0, 0]\<rparr>,
     tc_stas := (\<lambda>a. if a = demo_key then Some (demo_tx_sta\<lparr>ts_state := 1\<rparr>)
                     else if a = bc_addr then Some (demo_tx_sta\<lparr>ts_ps := demo_ps_sta\<lparr>ps_aid := 0\<rparr>\<rparr>) else None)\<rparr>"

definition demo_awake1 :: tx_ctx where
  "demo_awake1 = (case rtw_xmit_posthandle demo_stack False demo_awake 1 demo_pkt demo_alloc of Some (_, c, _, _) \<Rightarrow> c | None \<Rightarrow> demo_awake)"

definition demo_xmit_env :: xmit_env where
  "demo_xmit_env = \<lparr>xe_pkts = (\<lambda>_. demo_pkt), xe_mic = rtw_secmicsetkey (mic_data.make 0 0 0 0 0 0) (replicate 8 0),
     xe_wmm_para_seq = hwxmits, xe_busy = False, xe_queue2pipe = replicate 8 5, xe_tx_max_len = [20480, 20480, 20480], xe_oqt_max = 8\<rparr>"

definition demo_pool :: xmit_pool where
  "demo_pool = \<lparr>xp_free = [\<lparr>xb_tag = XMITBUF_DATA, xb_phead = 0, xb_mem = replicate 256 0, xb_ptail = 0, xb_len = 0, xb_ff_hwaddr = 0,
     xb_pg_num = 0, xb_agg_num = 0, xb_priv_data = None\<rparr>], xp_free_cnt = 1, xp_free_ext = [], xp_free_ext_cnt = 0, xp_pending = [],
     xp_xmit_sema = 0, xp_free_sema = 1\<rparr>"

lemma demo_send:
  "case xmit_xmitframes demo_xmit_env demo_awake1 demo_pool of None \<Rightarrow> False
   | Some (err, c, q, acts) \<Rightarrow> err = XMIT_OK \<and> for_sta demo_key AC_BE (frames_taken acts) = [1] \<and> xp_free q = [] \<and> xp_free_sema q = 0 \<and>
       map xb_agg_num (xp_pending q) = [1] \<and> map (\<lambda>b. xb_len b > 0) (xp_pending q) = [True]"
  by code_simp

lemma demo_awake_sta:
  "tc_stas demo_awake k = (if k = demo_key then Some (demo_tx_sta\<lparr>ts_state := 1\<rparr>)
     else if k = bc_addr then Some (demo_tx_sta\<lparr>ts_ps := demo_ps_sta\<lparr>ps_aid := 0\<rparr>\<rparr>) else None)"
  by (simp add: demo_awake_def)

lemma demo_awake_inv: "ps_inv demo_awake"
proof -
  have m: "dz_map demo_awake = [0, 0]" "tim_map demo_awake = [0, 0]" "tc_fw_state demo_awake = 0x11"
    by (simp_all add: demo_awake_def demo_ap_def demo_ps_ctx_def)
  have k: "sta_key_addr demo_key = demo_key" by code_simp
  have "aids_distinct (tc_stas demo_awake)" by (simp add: aids_distinct_def demo_awake_sta)
  moreover have "check_fwstate 0x11 WIFI_AP_STATE" by (simp add: check_fwstate_def WIFI_AP_STATE_def)
  moreover have "sta_inv [0, 0] [0, 0] demo_key (demo_tx_sta\<lparr>ts_state := 1\<rparr>)"
    by (simp add: demo_bc sta_inv_def sta_ps_inv_def demo_tx_sta_def demo_ps_sta_def WIFI_ASOC_STATE_def WIFI_SLEEP_STATE_def aid8_def tim_fits_def
        queued_def sta_out_def)
  moreover have "sta_inv [0, 0] [0, 0] bc_addr (demo_tx_sta\<lparr>ts_ps := demo_ps_sta\<lparr>ps_aid := 0\<rparr>\<rparr>)"
    by (simp add: sta_inv_def demo_tx_sta_def demo_ps_sta_def WIFI_ASOC_STATE_def aid8_def)
  ultimately show ?thesis unfolding ps_inv_def pv_def view_inv.simps m using k sta_key_bc by (simp add: demo_awake_sta)
qed

lemma demo_awake_run:
  "\<exists>outs c. ap_run demo_awake (taken_in demo_stack demo_awake 1 demo_pkt demo_alloc) outs c \<and> for_sta demo_key AC_BE outs = [1]"
proof -
  have "room demo_awake"
    by (simp add: room_def demo_awake_sta demo_tx_sta_def demo_ps_sta_def queued_def sta_out_def NR_XMITFRAME_def)
  moreover have "rtw_xmit_posthandle demo_stack False demo_awake 1 demo_pkt demo_alloc \<noteq> None" by code_simp
  ultimately have r: "ap_run demo_awake (taken_in demo_stack demo_awake 1 demo_pkt demo_alloc) [] demo_awake1"
    using run_submit [OF run_start] unfolding demo_awake1_def by force
  obtain err c q acts where "xmit_xmitframes demo_xmit_env demo_awake1 demo_pool = Some (err, c, q, acts)"
    "for_sta demo_key AC_BE (frames_taken acts) = [1]"
    using demo_send by (auto split: option.splits prod.splits)
  then show ?thesis using run_send [OF r] by fastforce
qed

lemma frames_in_order_witness:
  "waiting demo_ap1 demo_key AC_BE = [1] \<and> (\<exists>outs c. ap_run demo_awake (taken_in demo_stack demo_awake 1 demo_pkt demo_alloc) outs c \<and>
     for_sta demo_key AC_BE outs = [1] \<and> waiting c demo_key AC_BE = [])"
proof
  have "waiting demo_ap demo_key AC_BE = []" by (simp add: waiting_def pv_def demo_ap_sta sta_out_def demo_tx_sta_def demo_ps_sta_def)
  moreover have "for_sta demo_key AC_BE (taken_in demo_stack demo_ap 1 demo_pkt demo_alloc) = [1]" by code_simp
  moreover have "for_sta demo_key AC_BE [] = []" by (simp add: for_sta_def)
  ultimately show "waiting demo_ap1 demo_key AC_BE = [1]" using frames_in_order [OF demo_run demo_ap_inv demo_bc, of AC_BE] by simp
  obtain outs c where r: "ap_run demo_awake (taken_in demo_stack demo_awake 1 demo_pkt demo_alloc) outs c" "for_sta demo_key AC_BE outs = [1]"
    using demo_awake_run by blast
  have "waiting demo_awake demo_key AC_BE = []"
    by (simp add: waiting_def pv_def demo_awake_sta sta_out_def demo_tx_sta_def demo_ps_sta_def)
  moreover have "for_sta demo_key AC_BE (taken_in demo_stack demo_awake 1 demo_pkt demo_alloc) = [1]" by code_simp
  ultimately have "waiting c demo_key AC_BE = []" using frames_in_order [OF r(1) demo_awake_inv demo_bc, of AC_BE] r(2) by simp
  then show "\<exists>outs c. ap_run demo_awake (taken_in demo_stack demo_awake 1 demo_pkt demo_alloc) outs c \<and>
     for_sta demo_key AC_BE outs = [1] \<and> waiting c demo_key AC_BE = []" using r by blast
qed

lemma buffered_announced_witness: "\<exists>s. tc_stas demo_ap1 demo_key = Some s \<and> tim_set demo_ap1 (aid8 s) \<and> sleep_q s \<noteq> []"
proof -
  obtain s f where s: "tc_stas demo_ap1 demo_key = Some s" "f \<in> set (sleep_q s)" "\<not> wmmps_ac s (ta_priority (tf_attr f)) 0"
    using demo_sleeping by blast
  from buffered_announced [OF demo_run demo_ap_inv s(1) demo_bc s(2)] s show ?thesis by auto
qed

lemma queues_typed_witness: "\<exists>s f. tc_stas demo_ap1 demo_key = Some s \<and> f \<in> set (sleep_q s) \<and> fr_of demo_key f"
proof -
  obtain s f where s: "tc_stas demo_ap1 demo_key = Some s" "f \<in> set (sleep_q s)" using demo_sleeping by blast
  from queues_typed [OF demo_run demo_ap_inv s(1)] s show ?thesis by auto
qed

end
