(* ===== verification/Aid.thy ===== *)
theory Aid
  imports TimMap
begin

text \<open>
  The association numbers of an access point (core/rtw_sta_mgt.c): a table of the stations by number, searched from a
  starting point. A number that is given out is free, fits the bitmaps of TimMap and belongs to one station.
\<close>

section \<open>The code\<close>

text \<open>\<open>'k\<close> stands for the pointer to a station.\<close>

record 'k aid_priv =
  sta_aid :: "'k option list"
  max_aid :: nat
  max_num_sta :: nat
  started_aid :: nat
  rr_aid :: bool

definition AID_BMP_LEN :: "nat \<Rightarrow> nat" where
  "AID_BMP_LEN m = (m + 1) div 8 + (if (m + 1) mod 8 \<noteq> 0 then 1 else 0)"

definition aid_at :: "'k aid_priv \<Rightarrow> nat \<Rightarrow> nat" where
  "aid_at p i = (i + started_aid p - 1) mod max_aid p + 1"

text \<open>The search; the number is 0 when there is none.\<close>

fun aid_loop :: "'k aid_priv \<Rightarrow> nat list \<Rightarrow> nat \<Rightarrow> nat" where
  "aid_loop p [] used_cnt = 0"
| "aid_loop p (i # is) used_cnt =
     (if sta_aid p ! (aid_at p i - 1) = None then (if used_cnt \<ge> max_num_sta p then 0 else aid_at p i)
      else if used_cnt + 1 \<ge> max_num_sta p then 0 else aid_loop p is (used_cnt + 1))"

definition rtw_aid_alloc :: "'k \<Rightarrow> 'k aid_priv \<Rightarrow> nat \<times> 'k aid_priv" where
  "rtw_aid_alloc k p =
     (let aid = aid_loop p [0..<max_aid p] 0
      in if aid \<noteq> 0
         then (aid, p\<lparr>sta_aid := (sta_aid p)[aid - 1 := Some k],
                      started_aid := (if rr_aid p then aid mod max_aid p + 1 else started_aid p)\<rparr>)
         else (0, p))"

text \<open>The part of \<open>rtw_free_stainfo\<close> that gives the number back.\<close>

definition aid_free :: "'k \<Rightarrow> nat \<Rightarrow> 'k aid_priv \<Rightarrow> nat \<times> 'k aid_priv" where
  "aid_free k aid p = (if aid > 0 \<and> sta_aid p ! (aid - 1) = Some k then (0, p\<lparr>sta_aid := (sta_aid p)[aid - 1 := None]\<rparr>) else (aid, p))"

text \<open>Writing the proc file: the flag and the starting point.\<close>

definition proc_set_aid_status :: "nat \<Rightarrow> nat option \<Rightarrow> 'k aid_priv \<Rightarrow> 'k aid_priv" where
  "proc_set_aid_status rr started p =
     (let p = p\<lparr>rr_aid := (rr \<noteq> 0)\<rparr>
      in case started of None \<Rightarrow> p
         | Some s \<Rightarrow> let s = s mod (max_aid p + 1) in p\<lparr>started_aid := (if s \<noteq> 0 then s else 1)\<rparr>)"

section \<open>Facts\<close>

definition aid_wf :: "'k aid_priv \<Rightarrow> bool" where
  "aid_wf p \<longleftrightarrow> length (sta_aid p) = max_aid p \<and> 0 < max_aid p \<and> 1 \<le> started_aid p \<and> started_aid p \<le> max_aid p"

lemma aid_at_range: "aid_wf p \<Longrightarrow> 1 \<le> aid_at p i \<and> aid_at p i \<le> max_aid p"
  by (simp add: aid_wf_def aid_at_def Suc_le_eq)

lemma aid_at_surj:
  assumes "aid_wf p" "1 \<le> a" "a \<le> max_aid p"
  shows "\<exists>i < max_aid p. aid_at p i = a"
proof (cases "started_aid p \<le> a")
  case True
  then show ?thesis using assms by (intro exI [of _ "a - started_aid p"]) (auto simp: aid_wf_def aid_at_def)
next
  case False
  let ?i = "a + max_aid p - started_aid p"
  have e: "?i + started_aid p - 1 = (a - 1) + max_aid p" and l: "?i < max_aid p" using assms False by (auto simp: aid_wf_def)
  have "aid_at p ?i = a" unfolding aid_at_def e mod_add_self2 using assms(2,3) by simp
  then show ?thesis using l by blast
qed

lemma aid_loop_free:
  assumes "aid_loop p is n = a" "a \<noteq> 0"
  shows "\<exists>i \<in> set is. a = aid_at p i \<and> sta_aid p ! (a - 1) = None"
  using assms by (induction p "is" n rule: aid_loop.induct) (auto split: if_splits)

lemma aid_loop_none:
  assumes "aid_loop p is n = 0" "aid_wf p"
  shows "(\<forall>i \<in> set is. sta_aid p ! (aid_at p i - 1) \<noteq> None)
    \<or> max_num_sta p \<le> n + length (takeWhile (\<lambda>i. sta_aid p ! (aid_at p i - 1) \<noteq> None) is)"
  using assms
proof (induction p "is" n rule: aid_loop.induct)
  case (2 p i "is" n)
  have "aid_at p i \<noteq> 0" using aid_at_range [OF 2(3), of i] by simp
  then show ?case using 2 by (auto split: if_splits)
qed simp

text \<open>No number is given out only when all are taken, or when as many as there may be stations are taken from the start on.\<close>

lemma aid_alloc_full:
  assumes "aid_wf p" "fst (rtw_aid_alloc k p) = 0"
  shows "(\<forall>a. 1 \<le> a \<and> a \<le> max_aid p \<longrightarrow> sta_aid p ! (a - 1) \<noteq> None)
    \<or> max_num_sta p \<le> length (takeWhile (\<lambda>i. sta_aid p ! (aid_at p i - 1) \<noteq> None) [0..<max_aid p])"
proof -
  have "aid_loop p [0..<max_aid p] 0 = 0" using assms(2) by (auto simp: rtw_aid_alloc_def Let_def split: if_splits)
  from aid_loop_none [OF this assms(1)] show ?thesis using aid_at_surj [OF assms(1)] by (metis add_0 atLeastLessThan_iff le0 set_upt)
qed

text \<open>The comment promises a check of the association limit, but only numbers in a row are counted: three of two stations.\<close>

lemma aid_limit_exceeded:
  "fst (rtw_aid_alloc ''c'' \<lparr>sta_aid = [Some ''a'', None, Some ''b'', None], max_aid = 4, max_num_sta = 2, started_aid = 4, rr_aid = True\<rparr>) = 4"
  by code_simp

text \<open>C28: A number that is given to a station lies between 1 and the number of table entries, was free before, is
  entered for this station and leaves every other entry as it was, so no two stations have the same number; its bit lies in
  the bitmaps that are allocated with AID_BMP_LEN. The table stays searchable.\<close>

theorem aid_alloc_fresh:
  assumes "aid_wf p" "max_aid p \<le> 255" "rtw_aid_alloc k p = (aid, p')" "aid \<noteq> 0"
  shows "1 \<le> aid \<and> aid \<le> max_aid p \<and> sta_aid p ! (aid - 1) = None \<and> sta_aid p' = (sta_aid p)[aid - 1 := Some k]
    \<and> tim_fits (replicate (AID_BMP_LEN (max_aid p)) 0) (word_of_nat aid) \<and> aid_wf p'"
proof -
  let ?a = "aid_loop p [0..<max_aid p] 0"
  have r: "?a \<noteq> 0 \<Longrightarrow> 1 \<le> ?a \<and> ?a \<le> max_aid p \<and> sta_aid p ! (?a - 1) = None"
    using aid_loop_free [of p "[0..<max_aid p]" 0 ?a] aid_at_range [OF assms(1)] by auto
  have e: "aid = ?a" using assms(3) by (auto simp: rtw_aid_alloc_def Let_def split: if_splits)
  have fit: "n div 8 < AID_BMP_LEN (max_aid p)" if "n \<le> max_aid p" for n
  proof -
    have "n div 8 \<le> (max_aid p + 1) div 8" using that by (simp add: div_le_mono)
    moreover have "n div 8 < (max_aid p + 1) div 8" if "(max_aid p + 1) mod 8 = 0"
      using that \<open>n \<le> max_aid p\<close> by (metis add.commute less_Suc_eq_le div_less_iff_less_mult dvd_eq_mod_eq_0 dvd_mult_div_cancel mult.commute plus_1_eq_Suc zero_less_numeral)
    ultimately show ?thesis by (auto simp: AID_BMP_LEN_def)
  qed
  have "aid_wf p'" using assms(1,3) by (auto simp: rtw_aid_alloc_def Let_def aid_wf_def Suc_le_eq split: if_splits)
  then show ?thesis
    using r e fit [of aid] assms(2,3,4)
    by (auto simp: rtw_aid_alloc_def Let_def tim_fits_def unsigned_of_nat take_bit_nat_eq_self split: if_splits)
qed

lemma aid_alloc_fresh_witness:
  "let p = \<lparr>sta_aid = [Some ''a'', None], max_aid = 2, max_num_sta = 2, started_aid = 1, rr_aid = False\<rparr>; r = rtw_aid_alloc ''b'' p
   in fst r = 2 \<and> sta_aid (snd r) = [Some ''a'', Some ''b'']"
proof -
  let ?p = "\<lparr>sta_aid = [Some ''a'', None], max_aid = 2, max_num_sta = 2, started_aid = 1, rr_aid = False\<rparr>"
  obtain aid p' where r: "rtw_aid_alloc ''b'' ?p = (aid, p')" by fastforce
  have a: "fst (rtw_aid_alloc ''b'' ?p) = 2" by code_simp
  have w: "aid_wf ?p" by (simp add: aid_wf_def)
  from aid_alloc_fresh [OF w _ r] a r show ?thesis by (simp add: Let_def)
qed

end
