(* ===== verification/Spec2Isabelle.thy ===== *)
theory Spec2Isabelle
  imports Wep Michael Tkip Rijndael Ccmp Bip Sha256 Siv Crc16 Reorder RxSeq Rates Attr Rsne Elems CamStore PwrSeq EfuseStore RxSplit Defrag RxPost MgmtProt TxRx PsRun Aid
begin

text \<open>
  A model of the core of the Realtek RTL8189ES driver (chip RTL8188E, SDIO), src/rtl8189ES_linux of this repository, in
  the configuration of its Makefile and include/autoconf.h. File names below are relative to that directory; a definition
  has the name of the C function it translates, or of the part of it that its text block names.

  \<^bold>\<open>Parts and how they interact\<close>

  A packet of the network layer enters at \<open>rtw_xmit_posthandle\<close>: \<open>update_attrib\<close> chooses station, cipher and priority; an
  access point keeps it in a sleep queue while the station sleeps, otherwise it goes to the queue of its access category;
  the thread of the SDIO host takes it from there, \<open>rtw_xmitframe_coalesce\<close> builds header, fragments, IV and MIC in a
  transmit buffer and encrypts in software when the chip does not. A transfer from the chip is split by
  \<open>rtl8188es_recv_tasklet\<close>; a data frame is validated, with a check for repetitions, decrypted, reassembled,
  dropped while the port is closed, reordered, turned into Ethernet frames and indicated. Keys reach the chip through the CAM, its power is
  switched by tables, its settings are read from the eFuse, and elements of management frames are parsed by
  rtw_ieee80211.c, which all of these use.

  \<^bold>\<open>Theories, code and state\<close>

  \<^item> Prelude: integers of fixed width, byte buffers with checked access, packing of integers, collections of simplification
    rules. \<open>None\<close> is an access outside a buffer, so that a result \<open>Some\<close> includes memory safety.
  \<^item> core/rtw_security.c. Crc32 (the table built on first use is part of the state), Rc4, Rc4Frame, Wep, Michael, Tkip; Aes and
    Rijndael (the two implementations of AES-128), Ccmp, Cmac, Bip, Sha256 (with HMAC and the key derivation), Siv, Crc16. SecFrame has the
    fields of \<open>security_priv\<close>, \<open>pkt_attrib\<close> and the frames, and the walk over fragments that the ciphers share; StaHash the hash
    table of stations (core/rtw_sta_mgt.c).
  \<^item> core/rtw_recv.c. RxSeq (duplicates and packet numbers), Reorder (one reordering window with its queue and timer), FrameHdr
    (include/wifi.h), RxValid (\<open>validate_recv_frame\<close>, directions, \<open>portctrl\<close>), MgmtProt (802.11w), Defrag (fragments),
    RxFrame (the pointers of a receive buffer, include/rtw_recv.h), EthHdr and Amsdu (Ethernet headers, split of an A-MSDU, with
    os_dep/linux/recv_linux.c), RxPost (the order of these steps for one frame).
  \<^item> hal/rtl8188e/sdio/rtl8189es_recv.c and hal/rtl8188e/rtl8188e_rxdesc.c: RxAggr and RxSplit.
  \<^item> core/rtw_ieee80211.c. Tlv (the loop over elements and the contract of a format), Ie, IeEdit, Rates, VendorIe, Attr (WPS, P2P, WFD
    attributes), Rsne, Elems.
  \<^item> Key store: CamHw (hal/hal_com.c, the words of the chip), Cam (core/rtw_wlan_util.c and the key handlers of
    core/rtw_mlme_ext.c), CamKeys, CamReach, CamStore (with the commands of the proc file, os_dep/linux/rtw_proc.c).
  \<^item> PwrSeq: hal/HalPwrSeqCmd.c, the tables of include/Hal8188EPwrSeq.h and their users.
  \<^item> eFuse (hal/rtl8188e/rtl8188e_hal_init.c, core/efuse/rtw_efuse.c): Efuse (format, decoders and the buffer the
    firmware leaves), EfuseWrite (packet and map functions), EfuseMap, EfuseStore.
  \<^item> core/rtw_xmit.c. TxAttr, TxFrame, TxQueue; TxWrite, TxFacts, TxAir, TxPort and TxRx prove properties of them, TxRx together with the
    receiver. TxAggr is the thread of hal/rtl8188e/sdio/rtl8189es_xmit.c with the pool of transmit buffers.
  \<^item> Power save of an access point (core/rtw_xmit.c, core/rtw_recv.c, core/rtw_mlme_ext.c, core/rtw_ap.c): TimMap, PowerSave,
    Delivery; PsInv, PsWake, PsStop, PsFifo and PsRun prove its properties. Aid: association numbers (core/rtw_sta_mgt.c).

  State is passed explicitly as records with the fields the code uses; stations are found by their address as the code
  finds them by the hash table. Handlers return their verdict and the new state; what they call outside the model (timers,
  work items, events, descriptors) is a list of actions in the result. Addresses are offsets, with the base as a number
  where the code rounds absolute addresses. Integers have the width of the code where they can wrap.

  \<^bold>\<open>What the lemmas show\<close>

  Each property stands behind a block that begins with its number.

  \<^item> Ciphers: round trips of WEP, TKIP and CCMP over all fragments of a buffer, acceptance exactly for the right MIC (CCMP,
    BIP, SIV), equality of the code with references (CRC-32, Michael, CMAC, SHA-256, HMAC, both AES), injectivity of the TKIP key
    mixing.
  \<^item> Reception: reordering refines delivery in the order of unbounded sequence numbers and loses nothing; group frames are not
    replayed; frames are accepted only in the direction of the mode, pass a blocked port only as EAPOL, and forged management
    frames are refused; transfers, fragments and A-MSDUs are taken apart and joined byte for byte.
  \<^item> Elements: the searches end and stay inside their buffers, parsers accept exactly well-formed input, what is written is
    found again, removal is a filter of the list of elements.
  \<^item> Key store: an invariant of all states reached by the handlers, and the refinement of a map from addresses and key ids. The
    command \<open>c\<close> of the proc file breaks the invariant and is outside of the reachable states (\<open>proc_clear_breaks_mirror\<close>).
  \<^item> eFuse: a write that fits is read back, one that does not changes nothing as long as the used size the driver keeps is
    fresh; \<open>stale_size_writes\<close> is the other case.
  \<^item> Transmission and power save: a packet sent is the packet received; an access point sends the packets of a station in
    order whatever the station does; buffered frames are announced; the thread loses no transmit buffer.

  Interfaces are locales, interpreted on the definitions of the code in the theory that has them: \<open>sta_lookup\<close>,
  \<open>stream_cipher\<close>, \<open>frag_op\<close>, \<open>vector_hash\<close>, \<open>siv_mode\<close>, \<open>replay_guard\<close>, \<open>tlv_format\<close>, \<open>deletable\<close>, \<open>attr_codec\<close>, \<open>attr_target\<close>,
  \<open>timed_bus\<close>, \<open>efuse_chip\<close>, \<open>frame_ops\<close> and \<open>id_map\<close>.

  \<^bold>\<open>Loops and bounds\<close>

  Loops are structural recursion or have a measure. The loops that need not end are partial functions, with \<open>None\<close> for a run
  that does not return: \<open>tlv_walk\<close> (elements and attributes) and \<open>clear_loop\<close> (key store); that they return is proved, and where
  they do not, that is. Only writing an eFuse packet has fuel, the depth to which a packet whose words did not read back is
  written again; depth 1 is enough for the memory the property assumes (\<open>Suc n\<close> for every \<open>n\<close>). The power sequences end inside their tables, with at
  most 5002 polls. Reordering is proved for frames within 2048 of the window start, for each window size (a byte that is not 0); packet
  numbers of group frames for 1 to \<open>2^47 - 1\<close>, beyond which the comparison of the code wraps.

  \<^bold>\<open>What is not modelled\<close>

  Locks are taken to work: a step is a whole handler. Allocation, the access to the chip, the firmware, timers and the
  network layer are parameters. Not modelled are the state machine of joining and roaming, the life of stations in an
  access point, P2P negotiation, power control, calibration, user interfaces, the TX descriptor and the thread that writes
  full buffers, and the bridge extension; TDLS, mesh and WAPI are not built.
\<close>

end
